(* ===== verification/Prelude.thy ===== *)
theory Prelude
  imports Main "HOL-Library.Word"
begin

text \<open>
  The shared base of the development.

  TypeScript code that can fail throws; every such function is modelled as a function into
  \<open>error + 'a\<close>.  \<open>Trap\<close> is the guest-visible fault of \<open>runtime/src/cabi/trap.ts\<close>,
  \<open>AssertionError\<close> its host-side counterpart, and \<open>JsError\<close> an exception of the language
  or of a plain \<open>throw new Error\<close>, and \<open>Capability\<close> a \<open>NeedsJspi\<close> or \<open>PendingCapability\<close> signal
  of \<open>task/scheduler.ts\<close>.  Code that also mutates shared objects is a function
  of the state that returns the result and the new state, so that an exception keeps the
  mutations made before it, as JavaScript does.
\<close>

section \<open>Errors and results\<close>

datatype error =
    Trap string
  | AssertionError string
  | JsError string
  | Capability string

type_synonym 'a result = "error + 'a"

abbreviation Ok :: "'a \<Rightarrow> 'a result" where "Ok \<equiv> Inr"
abbreviation Err :: "error \<Rightarrow> 'a result" where "Err \<equiv> Inl"

named_theorems exec_simps "unfolding rules of the result and state combinators"

definition bindR :: "'a result \<Rightarrow> ('a \<Rightarrow> 'b result) \<Rightarrow> 'b result" where
  "bindR r f = (case r of Inl e \<Rightarrow> Inl e | Inr x \<Rightarrow> f x)"

lemma bindR_simps [simp]:
  "bindR (Inr x) f = f x"
  "bindR (Inl e) f = Inl e"
  by (simp_all add: bindR_def)

lemma bindR_cong [fundef_cong]:
  assumes "r = r'" and "\<And>x. r' = Inr x \<Longrightarrow> f x = g x"
  shows "bindR r f = bindR r' g"
  using assms by (cases r') (auto simp: bindR_def)

lemma bindR_eq_Inr: "bindR r f = Inr y \<longleftrightarrow> (\<exists>x. r = Inr x \<and> f x = Inr y)"
  by (cases r) auto

lemma bindR_assoc: "bindR (bindR r f) g = bindR r (\<lambda>x. bindR (f x) g)"
  by (cases r) auto

definition assertR :: "bool \<Rightarrow> string \<Rightarrow> unit result" where
  "assertR c msg = (if c then Inr () else Inl (AssertionError msg))"

definition trapIfR :: "bool \<Rightarrow> string \<Rightarrow> unit result" where
  "trapIfR c msg = (if c then Inl (Trap msg) else Inr ())"

lemma assertR_simps [simp]:
  "assertR True msg = Inr ()"
  "assertR False msg = Inl (AssertionError msg)"
  by (simp_all add: assertR_def)

lemma trapIfR_simps [simp]:
  "trapIfR False msg = Inr ()"
  "trapIfR True msg = Inl (Trap msg)"
  by (simp_all add: trapIfR_def)

lemma assertR_eq_Inr [simp]: "assertR c msg = Inr u \<longleftrightarrow> c"
  by (simp add: assertR_def)

lemma trapIfR_eq_Inr [simp]: "trapIfR c msg = Inr u \<longleftrightarrow> \<not> c"
  by (simp add: trapIfR_def)

fun mapR :: "('a \<Rightarrow> 'b result) \<Rightarrow> 'a list \<Rightarrow> 'b list result" where
  "mapR f [] = Inr []"
| "mapR f (x # xs) = bindR (f x) (\<lambda>y. bindR (mapR f xs) (\<lambda>ys. Inr (y # ys)))"

lemma mapR_cong [fundef_cong]:
  assumes "xs = ys" and "\<And>x. x \<in> set ys \<Longrightarrow> f x = g x"
  shows "mapR f xs = mapR g ys"
  using assms by (induction ys arbitrary: xs) auto

section \<open>State and exceptions\<close>

type_synonym ('s, 'a) sm = "'s \<Rightarrow> 'a result \<times> 's"

definition returnM :: "'a \<Rightarrow> ('s, 'a) sm" where
  "returnM x = (\<lambda>s. (Inr x, s))"

definition throwM :: "error \<Rightarrow> ('s, 'a) sm" where
  "throwM e = (\<lambda>s. (Inl e, s))"

definition bindM :: "('s, 'a) sm \<Rightarrow> ('a \<Rightarrow> ('s, 'b) sm) \<Rightarrow> ('s, 'b) sm" where
  "bindM m f = (\<lambda>s. case m s of (Inl e, s') \<Rightarrow> (Inl e, s') | (Inr x, s') \<Rightarrow> f x s')"

definition liftR :: "'a result \<Rightarrow> ('s, 'a) sm" where
  "liftR r = (\<lambda>s. (r, s))"

definition getsM :: "('s \<Rightarrow> 'a) \<Rightarrow> ('s, 'a) sm" where
  "getsM f = (\<lambda>s. (Inr (f s), s))"

definition modifyM :: "('s \<Rightarrow> 's) \<Rightarrow> ('s, unit) sm" where
  "modifyM f = (\<lambda>s. (Inr (), f s))"

definition assertM :: "bool \<Rightarrow> string \<Rightarrow> ('s, unit) sm" where
  "assertM c msg = liftR (assertR c msg)"

definition trapIfM :: "bool \<Rightarrow> string \<Rightarrow> ('s, unit) sm" where
  "trapIfM c msg = liftR (trapIfR c msg)"

definition seqM :: "('s, unit) sm \<Rightarrow> ('s, 'b) sm \<Rightarrow> ('s, 'b) sm" where
  "seqM m n = bindM m (\<lambda>_. n)"

lemma bindM_cong [fundef_cong]:
  assumes "m = m'" and "\<And>x s s'. m' s = (Inr x, s') \<Longrightarrow> f x = g x"
  shows "bindM m f = bindM m' g"
proof
  fix s
  show "bindM m f s = bindM m' g s"
    using assms by (cases "m' s") (auto simp: bindM_def split: sum.splits)
qed

lemma seqM_cong [fundef_cong]: "m = m' \<Longrightarrow> n = n' \<Longrightarrow> seqM m n = seqM m' n'"
  by simp

lemma sm_run [exec_simps]:
  "returnM x s = (Inr x, s)"
  "throwM e s = (Inl e, s)"
  "liftR r s = (r, s)"
  "getsM f s = (Inr (f s), s)"
  "modifyM h s = (Inr (), h s)"
  "assertM c msg s = (if c then (Inr (), s) else (Inl (AssertionError msg), s))"
  "trapIfM c msg s = (if c then (Inl (Trap msg), s) else (Inr (), s))"
  "seqM m n s = bindM m (\<lambda>_. n) s"
  by (simp_all add: returnM_def throwM_def liftR_def getsM_def modifyM_def assertM_def
      trapIfM_def seqM_def assertR_def trapIfR_def)

lemma bindM_run_Inr: "m s = (Inr x, s') \<Longrightarrow> bindM m f s = f x s'"
  by (simp add: bindM_def)

lemma bindM_run_Inl: "m s = (Inl e, s') \<Longrightarrow> bindM m f s = (Inl e, s')"
  by (simp add: bindM_def)

lemma bindM_eq_Inr:
  "bindM m f s = (Inr y, t) \<longleftrightarrow> (\<exists>x s'. m s = (Inr x, s') \<and> f x s' = (Inr y, t))"
  by (auto simp: bindM_def split: prod.splits sum.splits)

lemma bindM_liftR [exec_simps]:
  "bindM (liftR (Inr x)) f s = f x s"
  "bindM (liftR (Inl e)) f s = (Inl e, s)"
  by (simp_all add: bindM_def liftR_def)

lemma bindM_basic [exec_simps]:
  "bindM (returnM x) f s = f x s"
  "bindM (throwM e) f2 s = (Inl e, s)"
  "bindM (getsM h) f3 s = f3 (h s) s"
  "bindM (modifyM k) f4 s = f4 () (k s)"
  by (simp_all add: bindM_def sm_run)

lemma bindM_assert [exec_simps]:
  "bindM (assertM c msg) f s = (if c then f () s else (Inl (AssertionError msg), s))"
  "bindM (trapIfM c msg) f s = (if c then (Inl (Trap msg), s) else f () s)"
  by (simp_all add: bindM_def sm_run)

lemma bindM_pure [exec_simps]:
  "bindM (liftR (Inr x)) f = f x"
  "bindM (returnM x) f = f x"
  by (simp_all add: bindM_def liftR_def returnM_def)

lemma bindR_guard [exec_simps]:
  "bindR (assertR c msg) f = (if c then f () else Inl (AssertionError msg))"
  "bindR (trapIfR c msg) f = (if c then Inl (Trap msg) else f ())"
  by (simp_all add: assertR_def trapIfR_def)

lemma bindM_assoc [exec_simps]:
  "bindM (bindM m f) g s = bindM m (\<lambda>x. bindM (f x) g) s"
  by (auto simp: bindM_def split: prod.splits sum.splits)

lemma bindM_seqM [exec_simps]: "bindM (seqM m n) g s = bindM m (\<lambda>_. bindM n g) s"
  by (simp add: seqM_def bindM_assoc)

lemmas run_simps = exec_simps

section \<open>Decimal numerals\<close>

text \<open>\<open>String(i)\<close> for a natural number: its decimal digits.\<close>

fun digit_char :: "nat \<Rightarrow> char" where
  "digit_char n = char_of (48 + n)"

fun showNat :: "nat \<Rightarrow> string" where
  "showNat n = (if n < 10 then [digit_char n] else showNat (n div 10) @ [digit_char (n mod 10)])"

declare showNat.simps [simp del]

end
