(* ===== verification/Types.thy ===== *)
theory Types
  imports Prelude
begin

text \<open>
  The component value types of \<open>runtime/src/cabi/types.ts\<close>: the \<open>ValType\<close> union, the
  despecialisation of the derived types, discriminants, the type predicates, structural
  equality and the diagnostic display form.  A \<open>ResourceTypeInfo\<close> object is its
  identity, a number: the code compares them by reference only.  A missing
  list length (\<open>undefined\<close>) and a missing payload (\<open>null\<close>) are \<open>None\<close>.
\<close>

section \<open>Core types\<close>

datatype CoreType = I32 | I64 | F32 | F64

type_synonym PtrType = CoreType

record CoreFuncType =
  cparams :: "CoreType list"
  cresults :: "CoreType list"

definition coreFuncTypeEquals :: "CoreFuncType \<Rightarrow> CoreFuncType \<Rightarrow> bool" where
  "coreFuncTypeEquals a b \<longleftrightarrow>
     length (cparams a) = length (cparams b) \<and>
     length (cresults a) = length (cresults b) \<and>
     list_all (\<lambda>i. cparams a ! i = cparams b ! i) [0..<length (cparams a)] \<and>
     list_all (\<lambda>i. cresults a ! i = cresults b ! i) [0..<length (cresults a)]"

datatype StringEncoding = Utf8 | Utf16 | Latin1Utf16

section \<open>Value types\<close>

datatype PrimKind =
    KBool | KS8 | KU8 | KS16 | KU16 | KS32 | KU32 | KS64 | KU64 | KF32 | KF64 | KChar | KString

datatype ValType =
    TPrim PrimKind
  | TErrorContext
  | TList ValType "nat option"
  | TRecord "(string \<times> ValType) list"
  | TTuple "ValType list"
  | TVariant "(string \<times> ValType option) list"
  | TEnum "string list"
  | TOption ValType
  | TResult "ValType option" "ValType option"
  | TMap ValType ValType
  | TFlags "string list"
  | TOwn nat
  | TBorrow nat
  | TStream "ValType option"
  | TFuture "ValType option"

type_synonym FieldType = "string \<times> ValType"
type_synonym CaseType = "string \<times> ValType option"

record FuncType =
  ftParams :: "ValType list"
  ftResults :: "ValType list"
  ftAsync :: bool

section \<open>Despecialisation\<close>

fun indexFields :: "nat \<Rightarrow> ValType list \<Rightarrow> FieldType list" where
  "indexFields i [] = []"
| "indexFields i (t # ts) = (showNat i, t) # indexFields (Suc i) ts"

fun despecialize :: "ValType \<Rightarrow> ValType" where
  "despecialize (TTuple es) = TRecord (indexFields 0 es)"
| "despecialize (TEnum ls) = TVariant (map (\<lambda>l. (l, None)) ls)"
| "despecialize (TOption t) = TVariant [(''none'', None), (''some'', Some t)]"
| "despecialize (TResult ok er) = TVariant [(''ok'', ok), (''error'', er)]"
| "despecialize (TMap k v) = TList (TRecord (indexFields 0 [k, v])) None"
| "despecialize t = t"

text \<open>
  The measure of every recursion on value types: the parts of \<open>despecialize t\<close> are
  smaller than \<open>t\<close>.
\<close>

fun tsize :: "ValType \<Rightarrow> nat" where
  "tsize (TPrim k) = 1"
| "tsize TErrorContext = 1"
| "tsize (TList e n) = Suc (tsize e)"
| "tsize (TRecord fs) = Suc (sum_list (map (\<lambda>f. Suc (tsize (snd f))) fs))"
| "tsize (TTuple ts) = 2 + sum_list (map (\<lambda>t. Suc (tsize t)) ts)"
| "tsize (TVariant cs) =
     Suc (sum_list (map (\<lambda>c. case snd c of None \<Rightarrow> 1 | Some t \<Rightarrow> Suc (tsize t)) cs))"
| "tsize (TEnum ls) = 2 + length ls"
| "tsize (TOption t) = 4 + tsize t"
| "tsize (TResult ok er) =
     2 + (case ok of None \<Rightarrow> 1 | Some t \<Rightarrow> Suc (tsize t))
       + (case er of None \<Rightarrow> 1 | Some t \<Rightarrow> Suc (tsize t))"
| "tsize (TMap k v) = 5 + tsize k + tsize v"
| "tsize (TFlags ls) = 1"
| "tsize (TOwn r) = 1"
| "tsize (TBorrow r) = 1"
| "tsize (TStream e) = (case e of None \<Rightarrow> 1 | Some t \<Rightarrow> Suc (tsize t))"
| "tsize (TFuture e) = (case e of None \<Rightarrow> 1 | Some t \<Rightarrow> Suc (tsize t))"

definition fsize :: "FieldType list \<Rightarrow> nat" where
  "fsize fs = sum_list (map (\<lambda>f. Suc (tsize (snd f))) fs)"

definition csize :: "CaseType list \<Rightarrow> nat" where
  "csize cs = sum_list (map (\<lambda>c. case snd c of None \<Rightarrow> 1 | Some t \<Rightarrow> Suc (tsize t)) cs)"

lemma fsize_simps [simp]:
  "fsize [] = 0"
  "fsize (f # fs) = Suc (tsize (snd f)) + fsize fs"
  by (simp_all add: fsize_def)

lemma csize_simps [simp]:
  "csize [] = 0"
  "csize (c # cs) = (case snd c of None \<Rightarrow> 1 | Some t \<Rightarrow> Suc (tsize t)) + csize cs"
  by (simp_all add: csize_def)

lemma fsize_indexFields [simp]:
  "fsize (indexFields i ts) = sum_list (map (\<lambda>t. Suc (tsize t)) ts)"
  by (induction ts arbitrary: i) auto

lemma csize_nones [simp]: "csize (map (\<lambda>l. (l, None)) ls) = length ls"
  by (induction ls) auto

lemma tsize_despecialize_list: "despecialize t = TList e n \<Longrightarrow> tsize e < tsize t"
  by (cases t) auto

lemma tsize_despecialize_record: "despecialize t = TRecord fs \<Longrightarrow> fsize fs < tsize t"
  by (cases t) (auto simp flip: fsize_def)

lemma tsize_despecialize_variant: "despecialize t = TVariant cs \<Longrightarrow> csize cs < tsize t"
  by (cases t) (auto simp flip: csize_def split: option.splits)

lemma tsize_despecialize_async:
  "despecialize t = TStream (Some e) \<Longrightarrow> tsize e < tsize t"
  "despecialize t = TFuture (Some e) \<Longrightarrow> tsize e < tsize t"
  by (cases t, auto)+

lemmas tsize_despecialize =
  tsize_despecialize_list tsize_despecialize_record tsize_despecialize_variant
  tsize_despecialize_async

lemma tsize_field: "f \<in> set fs \<Longrightarrow> tsize (snd f) < fsize fs"
  by (induction fs) auto

lemma tsize_case: "c \<in> set cs \<Longrightarrow> snd c = Some t \<Longrightarrow> tsize t < csize cs"
  by (induction cs) (auto split: option.splits)

lemma despecialize_idem [simp]: "despecialize (despecialize t) = despecialize t"
  by (cases t) auto

definition specialized :: "ValType \<Rightarrow> bool" where
  "specialized t \<longleftrightarrow>
     (case t of TTuple _ \<Rightarrow> True | TEnum _ \<Rightarrow> True | TOption _ \<Rightarrow> True | TResult _ _ \<Rightarrow> True
      | TMap _ _ \<Rightarrow> True | _ \<Rightarrow> False)"

lemma despecialize_not_specialized: "\<not> specialized (despecialize t)"
  by (cases t) (auto simp: specialized_def)

section \<open>Discriminants\<close>

definition discriminantType :: "CaseType list \<Rightarrow> ValType result" where
  "discriminantType cases =
     (let n = length cases in
      if \<not> (0 < n \<and> n < 2 ^ 32) then Err (JsError ''assertion failed: case count'')
      else if n \<le> 256 then Ok (TPrim KU8)
      else if n \<le> 65536 then Ok (TPrim KU16)
      else Ok (TPrim KU32))"

section \<open>Type predicates\<close>

definition osize :: "ValType option \<Rightarrow> nat" where
  "osize t = (case t of None \<Rightarrow> 0 | Some u \<Rightarrow> tsize u)"

lemma tsize_pos: "0 < tsize t"
  by (cases t) (auto split: option.splits)

lemma osize_case: "c \<in> set cs \<Longrightarrow> osize (snd c) < csize cs"
  by (induction cs) (auto simp: osize_def split: option.splits)

lemma osize_simps [simp]: "osize None = 0" "osize (Some t) = tsize t"
  by (simp_all add: osize_def)

lemma osize_despecialize:
  "despecialize t = TStream e \<Longrightarrow> osize e < tsize t"
  "despecialize t = TFuture e \<Longrightarrow> osize e < tsize t"
  by (cases e; auto simp: tsize_pos tsize_despecialize)+

lemma osize_record_field:
  "despecialize t = TRecord fs \<Longrightarrow> (l, u) \<in> set fs \<Longrightarrow> tsize u < tsize t"
  using tsize_field [of "(l, u)" fs] tsize_despecialize_record [of t fs] by simp

lemma osize_variant_case:
  "despecialize t = TVariant cs \<Longrightarrow> (l, u) \<in> set cs \<Longrightarrow> osize u < tsize t"
  using osize_case [of "(l, u)" cs] tsize_despecialize_variant [of t cs] by simp

function contains :: "ValType option \<Rightarrow> (ValType \<Rightarrow> bool) \<Rightarrow> bool" where
  "contains None p = False"
| "contains (Some t) p =
     (let d = despecialize t in
      case d of
        TList e n \<Rightarrow> p d \<or> contains (Some e) p
      | TStream e \<Rightarrow> p d \<or> contains e p
      | TFuture e \<Rightarrow> p d \<or> contains e p
      | TRecord fs \<Rightarrow> p d \<or> list_ex (\<lambda>f. contains (Some (snd f)) p) fs
      | TVariant cs \<Rightarrow> p d \<or> list_ex (\<lambda>c. contains (snd c) p) cs
      | _ \<Rightarrow> p d)"
  by pat_completeness auto

termination
  by (relation "measure (\<lambda>(t, p). osize t)")
    (auto intro: tsize_despecialize_list [OF sym] osize_despecialize [OF sym]
      osize_record_field [OF sym] osize_variant_case [OF sym])

definition containsBorrow :: "ValType option \<Rightarrow> bool" where
  "containsBorrow t = contains t (\<lambda>u. case u of TBorrow _ \<Rightarrow> True | _ \<Rightarrow> False)"

definition containsAsyncValue :: "ValType option \<Rightarrow> bool" where
  "containsAsyncValue t =
     contains t (\<lambda>u. case u of TStream _ \<Rightarrow> True | TFuture _ \<Rightarrow> True | _ \<Rightarrow> False)"

section \<open>Structural equality\<close>

text \<open>
  The code first tests \<open>a === b\<close>.  On the immutable type trees that shortcut only saves
  work: \<open>valTypeEqual\<close> below is reflexive.  Resource types are compared by identity.
\<close>

lemma tsize_part:
  "t \<in> set ts \<Longrightarrow> tsize t < tsize (TTuple ts)"
  "(l, t) \<in> set fs \<Longrightarrow> tsize t < tsize (TRecord fs)"
  "(l, Some t) \<in> set cs \<Longrightarrow> tsize t < tsize (TVariant cs)"
proof -
  show "t \<in> set ts \<Longrightarrow> tsize t < tsize (TTuple ts)"
    by (induction ts) auto
  show "(l, t) \<in> set fs \<Longrightarrow> tsize t < tsize (TRecord fs)"
    using tsize_field [of "(l, t)" fs] by (simp flip: fsize_def)
  show "(l, Some t) \<in> set cs \<Longrightarrow> tsize t < tsize (TVariant cs)"
    using tsize_case [of "(l, Some t)" cs] by (simp flip: csize_def)
qed

function valTypeEqual :: "ValType \<Rightarrow> ValType \<Rightarrow> bool"
  and optTypeEqual :: "ValType option \<Rightarrow> ValType option \<Rightarrow> bool"
  and fieldsEqual :: "FieldType list \<Rightarrow> FieldType list \<Rightarrow> bool"
  and elementsEqual :: "ValType list \<Rightarrow> ValType list \<Rightarrow> bool"
  and casesEqual :: "CaseType list \<Rightarrow> CaseType list \<Rightarrow> bool" where
  "valTypeEqual (TPrim k) b = (case b of TPrim k' \<Rightarrow> k = k' | _ \<Rightarrow> False)"
| "valTypeEqual TErrorContext b = (case b of TErrorContext \<Rightarrow> True | _ \<Rightarrow> False)"
| "valTypeEqual (TList e n) b =
     (case b of TList e' n' \<Rightarrow> n = n' \<and> valTypeEqual e e' | _ \<Rightarrow> False)"
| "valTypeEqual (TRecord fs) b =
     (case b of TRecord fs' \<Rightarrow> length fs = length fs' \<and> fieldsEqual fs fs' | _ \<Rightarrow> False)"
| "valTypeEqual (TTuple ts) b =
     (case b of TTuple ts' \<Rightarrow> length ts = length ts' \<and> elementsEqual ts ts' | _ \<Rightarrow> False)"
| "valTypeEqual (TVariant cs) b =
     (case b of TVariant cs' \<Rightarrow> length cs = length cs' \<and> casesEqual cs cs' | _ \<Rightarrow> False)"
| "valTypeEqual (TEnum ls) b =
     (case b of TEnum ls' \<Rightarrow>
        length ls = length ls' \<and> list_all (\<lambda>i. ls ! i = ls' ! i) [0..<length ls]
      | _ \<Rightarrow> False)"
| "valTypeEqual (TFlags ls) b =
     (case b of TFlags ls' \<Rightarrow>
        length ls = length ls' \<and> list_all (\<lambda>i. ls ! i = ls' ! i) [0..<length ls]
      | _ \<Rightarrow> False)"
| "valTypeEqual (TOption t) b = (case b of TOption t' \<Rightarrow> valTypeEqual t t' | _ \<Rightarrow> False)"
| "valTypeEqual (TResult ok er) b =
     (case b of TResult ok' er' \<Rightarrow>
        (ok = None) = (ok' = None) \<and> (er = None) = (er' = None) \<and>
        optTypeEqual ok ok' \<and> optTypeEqual er er'
      | _ \<Rightarrow> False)"
| "valTypeEqual (TMap k v) b =
     (case b of TMap k' v' \<Rightarrow> valTypeEqual k k' \<and> valTypeEqual v v' | _ \<Rightarrow> False)"
| "valTypeEqual (TOwn r) b = (case b of TOwn r' \<Rightarrow> r = r' | _ \<Rightarrow> False)"
| "valTypeEqual (TBorrow r) b = (case b of TBorrow r' \<Rightarrow> r = r' | _ \<Rightarrow> False)"
| "valTypeEqual (TStream e) b =
     (case b of TStream e' \<Rightarrow> (e = None) = (e' = None) \<and> optTypeEqual e e' | _ \<Rightarrow> False)"
| "valTypeEqual (TFuture e) b =
     (case b of TFuture e' \<Rightarrow> (e = None) = (e' = None) \<and> optTypeEqual e e' | _ \<Rightarrow> False)"
| "optTypeEqual None b = (b = None)"
| "optTypeEqual (Some t) b = (case b of None \<Rightarrow> False | Some t' \<Rightarrow> valTypeEqual t t')"
| "fieldsEqual [] gs = True"
| "fieldsEqual (f # fs) gs =
     (case gs of [] \<Rightarrow> False
      | g # gs' \<Rightarrow> fst f = fst g \<and> valTypeEqual (snd f) (snd g) \<and> fieldsEqual fs gs')"
| "elementsEqual [] us = True"
| "elementsEqual (t # ts) us =
     (case us of [] \<Rightarrow> False | u # us' \<Rightarrow> valTypeEqual t u \<and> elementsEqual ts us')"
| "casesEqual [] ds = True"
| "casesEqual (c # cs) ds =
     (case ds of [] \<Rightarrow> False
      | d # ds' \<Rightarrow> fst c = fst d \<and> optTypeEqual (snd c) (snd d) \<and> casesEqual cs ds')"
  by pat_completeness auto

termination
  by (relation "measure (\<lambda>x. case x of
        Inl (Inl (a, _)) \<Rightarrow> 2 * tsize a
      | Inl (Inr (a, _)) \<Rightarrow> Suc (2 * osize a)
      | Inr (Inl (fs, _)) \<Rightarrow> 2 * fsize fs
      | Inr (Inr (Inl (ts, _))) \<Rightarrow> 2 * sum_list (map (\<lambda>t. Suc (tsize t)) ts)
      | Inr (Inr (Inr (cs, _))) \<Rightarrow> 2 * csize cs)")
    (auto simp: osize_def tsize_pos simp flip: fsize_def csize_def split: option.splits)

definition valTypesEqual :: "ValType list \<Rightarrow> ValType list \<Rightarrow> bool" where
  "valTypesEqual a b \<longleftrightarrow>
     length a = length b \<and> list_all (\<lambda>i. valTypeEqual (a ! i) (b ! i)) [0..<length a]"

text \<open>\<open>sameElemType\<close> of \<open>runtime/src/task/streams.ts\<close>: \<open>null\<close> is the zero-width payload.\<close>

definition sameElemType :: "ValType option \<Rightarrow> ValType option \<Rightarrow> bool" where
  "sameElemType a b =
     (case (a, b) of (Some t, Some u) \<Rightarrow> valTypeEqual t u | _ \<Rightarrow> a = None \<and> b = None)"

lemma list_all_nth_eq:
  "length xs = length ys \<Longrightarrow> list_all (\<lambda>i. xs ! i = ys ! i) [0..<length xs] \<longleftrightarrow> xs = ys"
  by (auto simp: list_all_iff intro: nth_equalityI)

lemma valTypeEqual_iff_eq:
  "valTypeEqual a b \<longleftrightarrow> a = b"
  "optTypeEqual oa ob \<longleftrightarrow> oa = ob"
  "length fs = length gs \<Longrightarrow> fieldsEqual fs gs \<longleftrightarrow> fs = gs"
  "length ts = length us \<Longrightarrow> elementsEqual ts us \<longleftrightarrow> ts = us"
  "length cs = length ds \<Longrightarrow> casesEqual cs ds \<longleftrightarrow> cs = ds"
proof (induction a b and oa ob and fs gs and ts us and cs ds
    rule: valTypeEqual_optTypeEqual_fieldsEqual_elementsEqual_casesEqual.induct)
qed (auto simp: list_all_iff intro: nth_equalityI split: ValType.splits option.splits list.splits)

section \<open>The display form\<close>

fun joinStrings :: "string \<Rightarrow> string list \<Rightarrow> string" where
  "joinStrings sep [] = []"
| "joinStrings sep [x] = x"
| "joinStrings sep (x # y # ys) = x @ sep @ joinStrings sep (y # ys)"

fun primName :: "PrimKind \<Rightarrow> string" where
  "primName KBool = ''bool''"
| "primName KS8 = ''s8''" | "primName KU8 = ''u8''"
| "primName KS16 = ''s16''" | "primName KU16 = ''u16''"
| "primName KS32 = ''s32''" | "primName KU32 = ''u32''"
| "primName KS64 = ''s64''" | "primName KU64 = ''u64''"
| "primName KF32 = ''f32''" | "primName KF64 = ''f64''"
| "primName KChar = ''char''" | "primName KString = ''string''"

lemma tsize_part':
  "t \<in> set ts \<Longrightarrow> tsize t < Suc (Suc (\<Sum>t\<leftarrow>ts. Suc (tsize t)))"
  "(l, t) \<in> set fs \<Longrightarrow> tsize t < Suc (fsize fs)"
  "(l, Some t) \<in> set cs \<Longrightarrow> tsize t < Suc (csize cs)"
  using tsize_part(1) [of t ts] tsize_part(2) [of l t fs] tsize_part(3) [of l t cs]
  by (simp_all flip: fsize_def csize_def)

function fmtValType :: "ValType option \<Rightarrow> string" where
  "fmtValType None = ''_''"
| "fmtValType (Some t) =
     (case t of
        TList e None \<Rightarrow> ''list<'' @ fmtValType (Some e) @ ''>''
      | TList e (Some n) \<Rightarrow> ''list<'' @ fmtValType (Some e) @ '', '' @ showNat n @ ''>''
      | TRecord fs \<Rightarrow> ''record{'' @
          joinStrings '', '' (map (\<lambda>f. fst f @ '': '' @ fmtValType (Some (snd f))) fs) @ ''}''
      | TTuple ts \<Rightarrow> ''tuple<'' @ joinStrings '', '' (map (\<lambda>u. fmtValType (Some u)) ts) @ ''>''
      | TVariant cs \<Rightarrow> ''variant{'' @
          joinStrings '', '' (map (\<lambda>c. case snd c of None \<Rightarrow> fst c
            | Some u \<Rightarrow> fst c @ ''('' @ fmtValType (Some u) @ '')'') cs) @ ''}''
      | TEnum ls \<Rightarrow> ''enum{'' @ joinStrings '', '' ls @ ''}''
      | TFlags ls \<Rightarrow> ''flags{'' @ joinStrings '', '' ls @ ''}''
      | TOption u \<Rightarrow> ''option<'' @ fmtValType (Some u) @ ''>''
      | TResult ok er \<Rightarrow> ''result<'' @ fmtValType ok @ '', '' @ fmtValType er @ ''>''
      | TMap k v \<Rightarrow> ''map<'' @ fmtValType (Some k) @ '', '' @ fmtValType (Some v) @ ''>''
      | TOwn r \<Rightarrow> ''own<resource>''
      | TBorrow r \<Rightarrow> ''borrow<resource>''
      | TStream e \<Rightarrow> ''stream<'' @ fmtValType e @ ''>''
      | TFuture e \<Rightarrow> ''future<'' @ fmtValType e @ ''>''
      | TErrorContext \<Rightarrow> ''error-context''
      | TPrim k \<Rightarrow> primName k)"
  by pat_completeness auto

termination
  by (relation "measure osize")
    (auto simp: osize_def tsize_pos simp flip: fsize_def csize_def intro: tsize_part'
      split: option.splits)

section \<open>Properties\<close>

text \<open>\<open>valTypeEqual\<close>, \<open>valTypesEqual\<close> and \<open>sameElemType\<close> decide structural equality of
  value types: two types compare equal exactly when they are the same tree, resource types
  being compared by identity and labels, lengths and payload presence included.\<close>

lemma valTypeEqual_correct:
  "(valTypeEqual a b \<longleftrightarrow> a = b) \<and> (valTypesEqual as bs \<longleftrightarrow> as = bs) \<and> (sameElemType oa ob \<longleftrightarrow> oa = ob)"
proof (intro conjI)
  show "valTypeEqual a b \<longleftrightarrow> a = b" by (rule valTypeEqual_iff_eq)
  show "valTypesEqual as bs \<longleftrightarrow> as = bs"
    using list_all_nth_eq [of as bs] by (auto simp: valTypesEqual_def valTypeEqual_iff_eq list_all_iff)
  show "sameElemType oa ob \<longleftrightarrow> oa = ob"
    by (cases oa; cases ob) (auto simp: sameElemType_def valTypeEqual_iff_eq)
qed

end
