(* ===== verification/JsValues.thy ===== *)
theory JsValues
  imports Prelude
begin

text \<open>
  The JavaScript values the interpreter passes around (\<open>ComponentValue\<close> and \<open>CoreValue\<close>
  of \<open>runtime/src/cabi/types.ts\<close>) and the parts of the language the code applies to them.

  A Number that is an integer is \<open>VNum i\<close>; a Number that came out of a float lane is
  \<open>VFlt w\<close>, the IEEE-754 double with bit pattern \<open>w\<close> (\<open>js_int\<close> and \<open>js_f64\<close> convert, so
  a double that happens to be integral is treated as the Number it is).  A string is its
  list of UTF-16 code units, an object its list of own properties in insertion order, a
  \<open>Uint8Array\<close> its bytes.  \<open>VShared\<close> and \<open>VErrorContext\<close> are the
  identities of the objects that are only ever passed on: a shared stream or future, and an
  error-context.
\<close>

section \<open>Values\<close>

datatype JsVal =
    VUndef
  | VNull
  | VBool bool
  | VNum int
  | VFlt "64 word"
  | VBig int
  | VStr "16 word list"
  | VBytes "8 word list"
  | VArr "JsVal list"
  | VObj "(string \<times> JsVal) list"
  | VShared nat
  | VErrorContext nat

section \<open>IEEE-754 bit patterns\<close>

text \<open>\<open>ilog2 n\<close> is the position of the highest set bit of \<open>n\<close>.\<close>

fun ilog2 :: "nat \<Rightarrow> nat" where
  "ilog2 n = (if n < 2 then 0 else Suc (ilog2 (n div 2)))"

declare ilog2.simps [simp del]

lemma ilog2_bounds: "0 < n \<Longrightarrow> 2 ^ ilog2 n \<le> n \<and> n < 2 ^ Suc (ilog2 n)"
proof (induction n rule: ilog2.induct)
  case (1 n)
  show ?case
  proof (cases "n < 2")
    case True
    with "1.prems" show ?thesis by (simp add: ilog2.simps [of n])
  next
    case False
    then have "2 ^ ilog2 (n div 2) \<le> n div 2 \<and> n div 2 < 2 ^ Suc (ilog2 (n div 2))"
      using "1.IH" by simp
    then have "2 * 2 ^ ilog2 (n div 2) \<le> n \<and> n < 2 * 2 ^ Suc (ilog2 (n div 2))" by linarith
    then show ?thesis using False by (simp add: ilog2.simps [of n])
  qed
qed

lemma ilog2_unique: "2 ^ k \<le> n \<Longrightarrow> n < 2 ^ Suc k \<Longrightarrow> ilog2 n = k"
proof -
  assume a: "2 ^ k \<le> n" "n < 2 ^ Suc k"
  then have "0 < n" by (metis gr0I not_le zero_less_numeral zero_less_power)
  then have b: "2 ^ ilog2 n \<le> n" "n < 2 ^ Suc (ilog2 n)" using ilog2_bounds by auto
  have "(2::nat) ^ k < 2 ^ Suc (ilog2 n)" "(2::nat) ^ ilog2 n < 2 ^ Suc k" using a b by linarith+
  then have "k < Suc (ilog2 n)" "ilog2 n < Suc k" by (simp_all only: power_strict_increasing_iff)
  then show ?thesis by simp
qed

text \<open>Division by \<open>2 ^ d\<close>, rounding to nearest, ties to even.\<close>

definition roundEven :: "nat \<Rightarrow> nat \<Rightarrow> nat" where
  "roundEven m d =
     (let q = m div 2 ^ d; r = m mod 2 ^ d in
      if 2 * r < 2 ^ d \<or> (2 * r = 2 ^ d \<and> even q) then q else Suc q)"

text \<open>
  The magnitude bits (exponent and fraction fields) of \<open>m * 2 ^ e\<close> in the format with
  \<open>mb\<close> fraction bits, least exponent \<open>qmin\<close> and all-ones exponent field \<open>emax\<close>.
\<close>

definition roundBits :: "nat \<Rightarrow> int \<Rightarrow> nat \<Rightarrow> nat \<Rightarrow> int \<Rightarrow> nat" where
  "roundBits mb qmin emax m e =
     (if m = 0 then 0
      else let q = max (int (ilog2 m) + e - int mb) qmin;
               r = (if e \<le> q then roundEven m (nat (q - e)) else m * 2 ^ nat (e - q))
           in min (nat (q - qmin) * 2 ^ mb + r) (emax * 2 ^ mb))"

definition f64Sign :: "64 word \<Rightarrow> nat" where "f64Sign w = unat w div 2 ^ 63"
definition f64Exp :: "64 word \<Rightarrow> nat" where "f64Exp w = unat w div 2 ^ 52 mod 2 ^ 11"
definition f64Frac :: "64 word \<Rightarrow> nat" where "f64Frac w = unat w mod 2 ^ 52"

definition f64IsNan :: "64 word \<Rightarrow> bool" where
  "f64IsNan w \<longleftrightarrow> f64Exp w = 2047 \<and> f64Frac w \<noteq> 0"

definition f64Mant :: "64 word \<Rightarrow> nat" where
  "f64Mant w = (if f64Exp w = 0 then f64Frac w else 2 ^ 52 + f64Frac w)"

definition f64Pow :: "64 word \<Rightarrow> int" where
  "f64Pow w = (if f64Exp w = 0 then -1074 else int (f64Exp w) - 1075)"

definition f64NaN :: "64 word" where
  "f64NaN = 0x7ff8000000000000"

text \<open>The double nearest to an integer (exact for every integral Number).\<close>

definition intF64 :: "int \<Rightarrow> 64 word" where
  "intF64 i = word_of_nat ((if i < 0 then 2 ^ 63 else 0) + roundBits 52 (-1074) 2047 (nat \<bar>i\<bar>) 0)"

definition f64Int :: "64 word \<Rightarrow> int option" where
  "f64Int w =
     (if f64Exp w = 2047 then None
      else let m = f64Mant w; e = f64Pow w; sg = (if f64Sign w = 1 then -1 else 1) in
        if 0 \<le> e then Some (sg * int m * 2 ^ nat e)
        else if 2 ^ nat (- e) dvd m then Some (sg * int (m div 2 ^ nat (- e)))
        else None)"

section \<open>The language operations the interpreter uses\<close>

text \<open>\<open>typeof v === "number"\<close>, \<open>Number.isNaN\<close>, and the value of an integral Number.\<close>

definition js_isNumber :: "JsVal \<Rightarrow> bool" where
  "js_isNumber v = (case v of VNum _ \<Rightarrow> True | VFlt _ \<Rightarrow> True | _ \<Rightarrow> False)"

definition js_isNaN :: "JsVal \<Rightarrow> bool" where
  "js_isNaN v = (case v of VFlt w \<Rightarrow> f64IsNan w | _ \<Rightarrow> False)"

definition js_int :: "JsVal \<Rightarrow> int option" where
  "js_int v = (case v of VNum i \<Rightarrow> Some i | VFlt w \<Rightarrow> f64Int w | _ \<Rightarrow> None)"

text \<open>
  \<open>ToNumber\<close> as a double.  The code applies it to values typed \<open>number\<close>; the conversion of
  a string, a BigInt or an object (which may throw or run user code) is not modelled and gives NaN.
\<close>

definition js_f64 :: "JsVal \<Rightarrow> 64 word" where
  "js_f64 v =
     (case v of VNum i \<Rightarrow> intF64 i | VFlt w \<Rightarrow> w | VBool b \<Rightarrow> intF64 (if b then 1 else 0)
      | VNull \<Rightarrow> 0 | _ \<Rightarrow> f64NaN)"

text \<open>\<open>Boolean(v)\<close>.\<close>

definition js_truthy :: "JsVal \<Rightarrow> bool" where
  "js_truthy v =
     (case v of
        VUndef \<Rightarrow> False | VNull \<Rightarrow> False | VBool b \<Rightarrow> b
      | VNum i \<Rightarrow> i \<noteq> 0
      | VFlt w \<Rightarrow> \<not> f64IsNan w \<and> unat w mod 2 ^ 63 \<noteq> 0
      | VBig i \<Rightarrow> i \<noteq> 0
      | VStr u \<Rightarrow> u \<noteq> []
      | _ \<Rightarrow> True)"

text \<open>\<open>Number(v)\<close> with the restriction of \<open>js_f64\<close>.\<close>

definition js_Number :: "JsVal \<Rightarrow> JsVal" where
  "js_Number v =
     (case v of VBool b \<Rightarrow> VNum (if b then 1 else 0) | VNull \<Rightarrow> VNum 0
      | VNum i \<Rightarrow> VNum i | VFlt w \<Rightarrow> VFlt w | VBig i \<Rightarrow> VNum i | _ \<Rightarrow> VFlt f64NaN)"

text \<open>Property write \<open>o[l] = v\<close> on the property list, and property read \<open>v[l]\<close>.\<close>

fun obj_set :: "string \<Rightarrow> JsVal \<Rightarrow> (string \<times> JsVal) list \<Rightarrow> (string \<times> JsVal) list" where
  "obj_set l v [] = [(l, v)]"
| "obj_set l v ((k, u) # ps) = (if k = l then (k, v) # ps else (k, u) # obj_set l v ps)"

text \<open>
  The own properties of an array-like: its indices, and \<open>length\<close>, which is not enumerable.
  Properties inherited from a prototype are not modelled.
\<close>

definition js_indexed :: "JsVal list \<Rightarrow> (string \<times> JsVal) list" where
  "js_indexed xs = zip (map showNat [0..<length xs]) xs"

definition js_arrayLike :: "JsVal \<Rightarrow> JsVal list option" where
  "js_arrayLike v =
     (case v of
        VArr xs \<Rightarrow> Some xs
      | VBytes bs \<Rightarrow> Some (map (\<lambda>b. VNum (uint b)) bs)
      | VStr us \<Rightarrow> Some (map (\<lambda>u. VStr [u]) us)
      | _ \<Rightarrow> None)"

definition js_props :: "JsVal \<Rightarrow> (string \<times> JsVal) list" where
  "js_props v =
     (case v of
        VObj ps \<Rightarrow> ps
      | _ \<Rightarrow> (case js_arrayLike v of Some xs \<Rightarrow> js_indexed xs | None \<Rightarrow> []))"

definition js_get :: "JsVal \<Rightarrow> string \<Rightarrow> JsVal result" where
  "js_get v l =
     (if v = VUndef \<or> v = VNull then Err (JsError ''TypeError'')
      else case map_of (js_props v) l of
        Some x \<Rightarrow> Ok x
      | None \<Rightarrow>
          (case js_arrayLike v of
             Some xs \<Rightarrow> if l = ''length'' then Ok (VNum (int (length xs))) else Ok VUndef
           | None \<Rightarrow> Ok VUndef))"

definition js_keys :: "JsVal \<Rightarrow> string list result" where
  "js_keys v =
     (if v = VUndef \<or> v = VNull then Err (JsError ''TypeError'') else Ok (map fst (js_props v)))"

text \<open>
  \<open>v.length\<close> and the elements of an array, a byte array or a string.  Any other value has no
  length; the code's first test of the length then fails with the assertion \<open>msg\<close>.
\<close>

definition js_elems :: "string \<Rightarrow> JsVal \<Rightarrow> JsVal list result" where
  "js_elems msg v =
     (if v = VUndef \<or> v = VNull then Err (JsError ''TypeError'')
      else case js_arrayLike v of
        Some xs \<Rightarrow> Ok xs
      | None \<Rightarrow> Err (AssertionError msg))"

text \<open>A value used as a string; the code calls string methods on it.\<close>

definition js_str :: "JsVal \<Rightarrow> 16 word list result" where
  "js_str v = (case v of VStr us \<Rightarrow> Ok us | _ \<Rightarrow> Err (JsError ''TypeError''))"

lemma obj_set_fst [simp]: "l \<notin> set (map fst ps) \<Longrightarrow> obj_set l v ps = ps @ [(l, v)]"
  by (induction ps) auto

lemma map_of_obj_set: "map_of (obj_set l v ps) = (map_of ps)(l \<mapsto> v)"
  by (induction ps) auto

lemma js_obj [simp]:
  "js_get (VObj ps) l = Inr (case map_of ps l of Some x \<Rightarrow> x | None \<Rightarrow> VUndef)"
  "js_keys (VObj ps) = Inr (map fst ps)"
  by (simp_all add: js_get_def js_keys_def js_props_def js_arrayLike_def split: option.splits)

lemma js_elems_simps [simp]:
  "js_elems msg (VArr xs) = Inr xs"
  "js_elems msg (VBytes bs) = Inr (map (\<lambda>b. VNum (uint b)) bs)"
  by (simp_all add: js_elems_def js_arrayLike_def)

end
