(* ===== verification/Table.thy ===== *)
theory Table
  imports Prelude
begin

text \<open>
  The handle table (\<open>class Table\<close> of \<open>runtime/src/cabi/handles.ts\<close>): an array whose slot 0
  is always empty and a stack of free slots.  The interface the clients rely on is the
  locale \<open>handle_store\<close>; it is interpreted on the model of the class at the end.
\<close>

section \<open>State and operations\<close>

record 'e HTable =
  arr :: "'e option list"
  free :: "nat list"

definition MAX_LENGTH :: nat where "MAX_LENGTH = 2 ^ 28 - 1"

definition emptyTable :: "'e HTable" where
  "emptyTable = \<lparr>arr = [None], free = []\<rparr>"

definition tableGet :: "nat \<Rightarrow> 'e HTable \<Rightarrow> 'e result" where
  "tableGet i t =
     (if i \<ge> length (arr t) then Err (Trap ''table index out of range'')
      else case arr t ! i of
        None \<Rightarrow> Err (Trap ''table entry empty'')
      | Some e \<Rightarrow> Ok e)"

text \<open>\<open>free.pop()\<close> takes the last element; an exception leaves the popped list behind.\<close>

definition tableAdd :: "'e \<Rightarrow> ('e HTable, nat) sm" where
  "tableAdd e t =
     (if free t \<noteq> [] then
        let i = last (free t); t1 = t\<lparr>free := butlast (free t)\<rparr> in
        if \<not> (i < length (arr t) \<and> arr t ! i = None)
        then (Err (AssertionError ''internal assertion failed''), t1)
        else (Ok i, t1\<lparr>arr := (arr t)[i := Some e]\<rparr>)
      else
        let i = length (arr t) in
        if i > MAX_LENGTH then (Err (Trap ''table full''), t)
        else (Ok i, t\<lparr>arr := arr t @ [Some e]\<rparr>))"

definition tableRemove :: "nat \<Rightarrow> ('e HTable, 'e) sm" where
  "tableRemove i t =
     (case tableGet i t of
        Inl err \<Rightarrow> (Err err, t)
      | Inr e \<Rightarrow> (Ok e, t\<lparr>arr := (arr t)[i := None], free := free t @ [i]\<rparr>))"

definition tableElems :: "'e HTable \<Rightarrow> 'e list" where
  "tableElems t = map the (filter (\<lambda>x. x \<noteq> None) (arr t))"

section \<open>The invariant\<close>

definition table_inv :: "'e HTable \<Rightarrow> bool" where
  "table_inv t \<longleftrightarrow>
     arr t \<noteq> [] \<and> arr t ! 0 = None \<and> length (arr t) \<le> Suc MAX_LENGTH \<and> distinct (free t) \<and>
     set (free t) = {i. 0 < i \<and> i < length (arr t) \<and> arr t ! i = None}"

lemma table_inv_empty: "table_inv emptyTable"
  by (auto simp: table_inv_def emptyTable_def)

lemma tableGet_Ok: "tableGet i t = Inr e \<longleftrightarrow> i < length (arr t) \<and> arr t ! i = Some e"
  by (auto simp: tableGet_def split: option.splits)

lemma tableAdd_cases:
  assumes "table_inv t" "tableAdd e t = (Inr i, t')"
  obtains (push) "free t = []" "i = length (arr t)" "i \<le> MAX_LENGTH" "t' = t\<lparr>arr := arr t @ [Some e]\<rparr>"
  | (reuse) fr where "free t = fr @ [i]" "0 < i" "i < length (arr t)" "arr t ! i = None"
      "t' = t\<lparr>free := fr, arr := (arr t)[i := Some e]\<rparr>"
proof (cases "free t = []")
  case True
  with assms push show thesis by (auto simp: tableAdd_def Let_def split: if_splits)
next
  case False
  then have "free t = butlast (free t) @ [last (free t)]" by simp
  moreover have "last (free t) \<in> set (free t)" using False by simp
  then have "0 < last (free t)" "last (free t) < length (arr t)" "arr t ! last (free t) = None"
    using assms(1) by (auto simp: table_inv_def)
  ultimately show thesis using assms(2) False reuse [of "butlast (free t)"]
    by (auto simp: tableAdd_def Let_def)
qed

lemma table_inv_reuse:
  assumes "table_inv t" "free t = fr @ [i]" "0 < i" "i < length (arr t)"
  shows "table_inv (t\<lparr>free := fr, arr := (arr t)[i := Some e]\<rparr>)"
proof -
  have "i \<notin> set fr" "distinct fr" using assms(1,2) by (auto simp: table_inv_def)
  moreover have "set fr = set (free t) - {i}" using assms(2) \<open>i \<notin> set fr\<close> by auto
  ultimately show ?thesis using assms(1,3,4)
    by (auto simp: table_inv_def nth_list_update)
qed

lemma tableAdd_inv:
  assumes "table_inv t" "tableAdd e t = (Inr i, t')"
  shows "table_inv t'" and "0 < i" and "i \<le> MAX_LENGTH"
    and "\<nexists>x. tableGet i t = Inr x"
    and "tableGet i t' = Inr e" and "j \<noteq> i \<Longrightarrow> tableGet j t' = Inr x \<longleftrightarrow> tableGet j t = Inr x"
proof -
  have len: "length (arr t) \<le> Suc MAX_LENGTH" "arr t \<noteq> []" using assms(1) by (auto simp: table_inv_def)
  from assms have "table_inv t' \<and> 0 < i \<and> i \<le> MAX_LENGTH \<and> (\<nexists>x. tableGet i t = Inr x) \<and>
    tableGet i t' = Inr e \<and> (j \<noteq> i \<longrightarrow> tableGet j t' = Inr x \<longleftrightarrow> tableGet j t = Inr x)"
  proof (cases rule: tableAdd_cases)
    case push
    then show ?thesis using assms(1) len
      by (auto simp: table_inv_def tableGet_Ok nth_append)
  next
    case (reuse fr)
    then show ?thesis using table_inv_reuse [OF assms(1) reuse(1-3)] len
      by (auto simp: tableGet_Ok nth_list_update)
  qed
  then show "table_inv t'" and "0 < i" and "i \<le> MAX_LENGTH"
    and "\<nexists>x. tableGet i t = Inr x"
    and "tableGet i t' = Inr e" and "j \<noteq> i \<Longrightarrow> tableGet j t' = Inr x \<longleftrightarrow> tableGet j t = Inr x"
    by blast+
qed

lemma tableRemove_inv:
  assumes "table_inv t" "tableRemove i t = (Inr e, t')"
  shows "table_inv t'" and "tableGet i t = Inr e"
    and "\<nexists>x. tableGet i t' = Inr x" and "j \<noteq> i \<Longrightarrow> tableGet j t' = Inr x \<longleftrightarrow> tableGet j t = Inr x"
proof -
  have g: "tableGet i t = Inr e" "t' = t\<lparr>arr := (arr t)[i := None], free := free t @ [i]\<rparr>"
    using assms(2) by (auto simp: tableRemove_def split: sum.splits)
  then have i: "i < length (arr t)" "arr t ! i = Some e" by (simp_all add: tableGet_Ok)
  then have pos: "0 < i" using assms(1) by (cases i) (auto simp: table_inv_def)
  have "i \<notin> set (free t)" using assms(1) i by (auto simp: table_inv_def)
  then show "table_inv t'" using assms(1) i pos
    by (auto simp: g(2) table_inv_def nth_list_update split: if_splits)
  show "tableGet i t = Inr e" by (rule g(1))
  show "\<nexists>x. tableGet i t' = Inr x" by (simp add: g(2) tableGet_Ok i(1))
  show "j \<noteq> i \<Longrightarrow> tableGet j t' = Inr x \<longleftrightarrow> tableGet j t = Inr x"
    by (simp add: g(2) tableGet_Ok)
qed

lemma tableAdd_ok:
  assumes "table_inv t" "free t \<noteq> [] \<or> length (arr t) \<le> MAX_LENGTH"
  shows "\<exists>i t'. tableAdd e t = (Inr i, t')"
proof (cases "free t = []")
  case True
  with assms show ?thesis by (simp add: tableAdd_def Let_def)
next
  case False
  have "last (free t) < length (arr t) \<and> arr t ! last (free t) = None"
    using assms(1) last_in_set [OF False] by (auto simp: table_inv_def)
  with False show ?thesis by (simp add: tableAdd_def Let_def)
qed

section \<open>The interface\<close>

text \<open>
  What the handle code relies on: an added entry is found at its fresh index and nowhere
  else changes; a removed entry is gone; a failing removal changes nothing.
\<close>

locale handle_store =
  fixes get :: "nat \<Rightarrow> 't \<Rightarrow> 'e result"
    and add :: "'e \<Rightarrow> ('t, nat) sm"
    and remove :: "nat \<Rightarrow> ('t, 'e) sm"
    and inv :: "'t \<Rightarrow> bool"
  assumes add_inv: "inv t \<Longrightarrow> add e t = (Inr i, t') \<Longrightarrow> inv t'"
    and add_fresh: "inv t \<Longrightarrow> add e t = (Inr i, t') \<Longrightarrow> get i t \<noteq> Inr x"
    and add_get: "inv t \<Longrightarrow> add e t = (Inr i, t') \<Longrightarrow> get i t' = Inr e"
    and add_other: "inv t \<Longrightarrow> add e t = (Inr i, t') \<Longrightarrow> j \<noteq> i \<Longrightarrow> get j t' = Inr x \<longleftrightarrow> get j t = Inr x"
    and remove_ok: "get i t = Inr e \<Longrightarrow> \<exists>t'. remove i t = (Inr e, t')"
    and remove_inv: "inv t \<Longrightarrow> remove i t = (Inr e, t') \<Longrightarrow> inv t'"
    and remove_get: "inv t \<Longrightarrow> remove i t = (Inr e, t') \<Longrightarrow> get i t = Inr e"
    and remove_gone: "inv t \<Longrightarrow> remove i t = (Inr e, t') \<Longrightarrow> get i t' \<noteq> Inr x"
    and remove_other: "inv t \<Longrightarrow> remove i t = (Inr e, t') \<Longrightarrow> j \<noteq> i \<Longrightarrow> get j t' = Inr x \<longleftrightarrow> get j t = Inr x"
begin

definition live :: "'t \<Rightarrow> (nat \<times> 'e) set" where
  "live t = {(i, e). get i t = Inr e}"

lemma live_add: "inv t \<Longrightarrow> add e t = (Inr i, t') \<Longrightarrow> live t' = insert (i, e) (live t)"
proof -
  assume a: "inv t" "add e t = (Inr i, t')"
  have "get j t' = Inr x \<longleftrightarrow> (j = i \<and> x = e) \<or> get j t = Inr x" for j x
    using add_get [OF a] add_other [OF a, of j x] add_fresh [OF a, of x] by (cases "j = i") auto
  then show ?thesis by (auto simp: live_def)
qed

lemma live_remove: "inv t \<Longrightarrow> remove i t = (Inr e, t') \<Longrightarrow> live t' = live t - {(i, e)}"
proof -
  assume a: "inv t" "remove i t = (Inr e, t')"
  have "get j t' = Inr x \<longleftrightarrow> (j, x) \<noteq> (i, e) \<and> get j t = Inr x" for j x
    using remove_get [OF a] remove_other [OF a, of j x] remove_gone [OF a, of x] by (cases "j = i") auto
  then show ?thesis by (auto simp: live_def)
qed

lemma add_remove_live:
  assumes "inv t" "add e t = (Inr i, t1)"
  shows "\<exists>t2. remove i t1 = (Inr e, t2) \<and> inv t2 \<and> live t2 = live t"
proof -
  have i1: "inv t1" "get i t1 = Inr e" using assms add_inv add_get by blast+
  then obtain t2 where t2: "remove i t1 = (Inr e, t2)" using remove_ok by blast
  have "(i, e) \<notin> live t" using assms add_fresh by (auto simp: live_def)
  then have "live t2 = live t" using live_add [OF assms] live_remove [OF i1(1) t2] by auto
  with t2 i1 remove_inv show ?thesis by blast
qed

lemma two_adds_differ:
  assumes "inv t" "add e t = (Inr i, t1)" "add f t1 = (Inr j, t2)"
  shows "i \<noteq> j \<and> get i t2 = Inr e \<and> get j t2 = Inr f"
  using assms add_inv add_get add_fresh add_other by metis

end

interpretation table: handle_store tableGet tableAdd tableRemove table_inv
proof unfold_locales
  show "\<exists>t'. tableRemove i t = (Inr e, t')" if "tableGet i t = Inr e" for i t and e :: 'a
    using that by (simp add: tableRemove_def)
qed (auto dest: tableAdd_inv tableRemove_inv)

section \<open>Properties\<close>

text \<open>The handle table hands out an index between 1 and the maximum that was not in use;
  removing it gives the entry back and leaves exactly the entries there were before, with
  the free list consistent again.\<close>

lemma table_add_remove:
  assumes "table_inv t" "tableAdd e t = (Inr i, t1)"
  shows "1 \<le> i \<and> i \<le> MAX_LENGTH \<and> (\<forall>x. tableGet i t \<noteq> Inr x) \<and>
    (\<exists>t2. tableRemove i t1 = (Inr e, t2) \<and> table_inv t2 \<and>
      (\<forall>j x. tableGet j t2 = Inr x \<longleftrightarrow> tableGet j t = Inr x))"
proof -
  obtain t2 where t2: "tableRemove i t1 = (Inr e, t2)" "table_inv t2" "table.live t2 = table.live t"
    using table.add_remove_live [OF assms] by blast
  then have "\<forall>j x. tableGet j t2 = Inr x \<longleftrightarrow> tableGet j t = Inr x"
    by (auto simp: table.live_def set_eq_iff)
  with t2 show ?thesis using tableAdd_inv [OF assms] table.add_fresh [OF assms] by fastforce
qed

lemma table_add_remove_witness:
  "\<exists>t2. tableRemove 1 \<lparr>arr = [None, Some ''x''], free = []\<rparr> = (Inr ''x'', t2) \<and> table_inv t2"
proof -
  have "tableAdd ''x'' emptyTable = (Inr 1, \<lparr>arr = [None, Some ''x''], free = []\<rparr>)"
    by (simp add: tableAdd_def emptyTable_def MAX_LENGTH_def)
  from table_add_remove [OF table_inv_empty this] show ?thesis by blast
qed

end
