(* ===== verification/Heap.thy ===== *)
theory Heap
  imports Types JsValues Table
begin

text \<open>
  The mutable state of the runtime as one record.  Every object the code shares by
  reference is addressed by a number, its identity, and the record maps addresses to
  objects: linear memories, the component instances' handle tables and \<open>may_leave\<close> flags,
  resource handles (\<open>cabi/handles.ts\<close>), waitables with the subtask or copy end they are
  (\<open>task/waitable.ts\<close>, \<open>task/subtask.ts\<close>, \<open>task/streams.ts\<close>), waitable sets, shared stream and
  future objects and guest buffers.  A \<open>Subtask\<close> and a \<open>CopyEnd\<close> are subclasses of
  \<open>Waitable\<close>: one address, with its base-class fields in \<open>waitables\<close> and its own in
  \<open>subtasks\<close> or \<open>ends\<close>.  Closures the code stores (pending-event thunks and copy callbacks)
  are values of the datatypes \<open>Thunk\<close> and \<open>CopyCallback\<close> that name what the closure
  captured.  The record is extensible: a guest's own state can be added to it.
\<close>

section \<open>Enumerations\<close>

datatype EventCode =
    EvNONE | EvSUBTASK | EvSTREAM_READ | EvSTREAM_WRITE | EvFUTURE_READ | EvFUTURE_WRITE
  | EvTASK_CANCELLED

fun eventCodeNum :: "EventCode \<Rightarrow> nat" where
  "eventCodeNum EvNONE = 0" | "eventCodeNum EvSUBTASK = 1"
| "eventCodeNum EvSTREAM_READ = 2" | "eventCodeNum EvSTREAM_WRITE = 3"
| "eventCodeNum EvFUTURE_READ = 4" | "eventCodeNum EvFUTURE_WRITE = 5"
| "eventCodeNum EvTASK_CANCELLED = 6"

datatype SubtaskState =
    STARTING | STARTED | RETURNED | CANCELLED_BEFORE_STARTED | CANCELLED_BEFORE_RETURNED

fun subtaskStateNum :: "SubtaskState \<Rightarrow> nat" where
  "subtaskStateNum STARTING = 0" | "subtaskStateNum STARTED = 1"
| "subtaskStateNum RETURNED = 2" | "subtaskStateNum CANCELLED_BEFORE_STARTED = 3"
| "subtaskStateNum CANCELLED_BEFORE_RETURNED = 4"

datatype CopyResult = COMPLETED | DROPPED | CANCELLED

fun copyResultNum :: "CopyResult \<Rightarrow> nat" where
  "copyResultNum COMPLETED = 0" | "copyResultNum DROPPED = 1" | "copyResultNum CANCELLED = 2"

datatype CopyState = IDLE | COPYING | CANCELLING_COPY | DONE

type_synonym EventTuple = "EventCode \<times> nat \<times> nat"

section \<open>Objects\<close>

text \<open>
  \<open>SubtaskEvent st i\<close> is the thunk of \<open>Subtask.setSubtaskPendingEvent\<close>; \<open>StreamEvent\<close> and
  \<open>FutureEvent\<close> are \<open>streamEvent\<close> and \<open>futureEvent\<close> of \<open>intrinsics/stream_builtins.ts\<close> (event code,
  end, handle index, buffer, result, and for a stream the shared object to reclaim);
  \<open>FutureAbandoned\<close> is the thunk that throws.
\<close>

datatype Thunk =
    SubtaskEvent nat nat
  | StreamEvent EventCode nat nat nat CopyResult "nat option"
  | FutureEvent EventCode nat nat nat CopyResult
  | FutureAbandoned string

text \<open>A parked operation's callbacks: the guest end that armed them (event code, end, index, buffer).\<close>

datatype CopyCallback = GuestCopy EventCode nat nat nat

record Waitable =
  pendingEvent :: "Thunk option"
  wset :: "nat option"
  hasSyncWaiter :: bool

record WaitableSet =
  elems :: "nat list"
  numWaiting :: nat

record Subtask =
  st_state :: SubtaskState
  cancellationRequested :: bool
  flatResults :: "JsVal list"
  lenders :: "nat list option"

record ResourceHandle =
  rh_rt :: nat
  rh_rep :: JsVal
  rh_own :: bool
  rh_scope :: "nat option"
  numLends :: int

datatype EndKind = StreamKind | FutureKind
datatype EndSide = Readable | Writable

record CopyEnd =
  ce_kind :: EndKind
  ce_side :: EndSide
  ce_state :: CopyState
  ce_shared :: nat

record Shared =
  sh_kind :: EndKind
  sh_t :: "ValType option"
  sh_dropped :: bool
  sh_abandon :: "string option"
  sh_poisonFailure :: "string option"
  sh_pendingInst :: "nat option"
  sh_pendingBuffer :: "nat option"
  sh_pendingDone :: "CopyCallback option"
  sh_boundStore :: "nat option"

record GuestBuffer =
  gb_t :: "ValType option"
  gb_cx :: nat
  gb_inst :: nat
  gb_ptr :: int
  gb_length :: int
  gb_progress :: nat

text \<open>What a component instance's handle table can hold.\<close>

datatype Entry =
    EResource nat
  | ESubtask nat
  | EEnd nat
  | EErrorContext nat
  | EWaitableSet nat
  | EOther JsVal

record heap =
  mems :: "nat \<Rightarrow> 8 word list"
  handles :: "nat \<Rightarrow> Entry HTable"
  mayLeave :: "nat \<Rightarrow> bool"
  mayEnter :: "nat \<Rightarrow> bool"
  instParent :: "nat \<Rightarrow> nat option"
  isRoot :: "nat \<Rightarrow> bool"
  poisonCause :: "nat \<Rightarrow> error option"
  retired :: "nat \<Rightarrow> bool"
  backpressure :: "nat \<Rightarrow> int"
  rtImpl :: "nat \<Rightarrow> nat option"
  instStore :: "nat \<Rightarrow> nat option"
  resources :: "nat \<Rightarrow> ResourceHandle"
  taskBorrows :: "nat \<Rightarrow> int"
  waitables :: "nat \<Rightarrow> Waitable"
  wsets :: "nat \<Rightarrow> WaitableSet"
  subtasks :: "nat \<Rightarrow> Subtask"
  ends :: "nat \<Rightarrow> CopyEnd"
  shareds :: "nat \<Rightarrow> Shared"
  buffers :: "nat \<Rightarrow> GuestBuffer"
  errMessages :: "nat \<Rightarrow> 16 word list"
  schedSeed :: "32 word option"
  rngState :: "32 word"
  nextId :: nat

text \<open>Running a table operation on the handle table of instance \<open>i\<close>.\<close>

definition onTable :: "nat \<Rightarrow> (Entry HTable, 'a) sm \<Rightarrow> ('g heap_scheme, 'a) sm" where
  "onTable i op h = (case op (handles h i) of (r, t) \<Rightarrow> (r, h\<lparr>handles := (handles h)(i := t)\<rparr>))"

definition handlesGet :: "nat \<Rightarrow> nat \<Rightarrow> ('g heap_scheme, Entry) sm" where
  "handlesGet inst i h = (tableGet i (handles h inst), h)"

definition freshId :: "('g heap_scheme, nat) sm" where
  "freshId h = (Inr (nextId h), h\<lparr>nextId := Suc (nextId h)\<rparr>)"

section \<open>Waitables (\<open>runtime/src/task/waitable.ts\<close>)\<close>

definition newWaitable :: Waitable where
  "newWaitable = \<lparr>pendingEvent = None, wset = None, hasSyncWaiter = False\<rparr>"

definition updWaitable :: "nat \<Rightarrow> (Waitable \<Rightarrow> Waitable) \<Rightarrow> 'g heap_scheme \<Rightarrow> 'g heap_scheme" where
  "updWaitable w f h = h\<lparr>waitables := (waitables h)(w := f (waitables h w))\<rparr>"

definition updWset :: "nat \<Rightarrow> (WaitableSet \<Rightarrow> WaitableSet) \<Rightarrow> 'g heap_scheme \<Rightarrow> 'g heap_scheme" where
  "updWset s f h = h\<lparr>wsets := (wsets h)(s := f (wsets h s))\<rparr>"

definition setPendingEvent :: "nat \<Rightarrow> Thunk \<Rightarrow> ('g heap_scheme, unit) sm" where
  "setPendingEvent w th = modifyM (updWaitable w (\<lambda>x. x\<lparr>pendingEvent := Some th\<rparr>))"

definition hasPendingEvent :: "nat \<Rightarrow> 'g heap_scheme \<Rightarrow> bool" where
  "hasPendingEvent w h \<longleftrightarrow> pendingEvent (waitables h w) \<noteq> None"

definition inWaitableSet :: "nat \<Rightarrow> 'g heap_scheme \<Rightarrow> bool" where
  "inWaitableSet w h \<longleftrightarrow> wset (waitables h w) \<noteq> None"

text \<open>\<open>elems.indexOf(this)\<close> and \<open>splice(i, 1)\<close>: the first occurrence is removed.\<close>

definition waitableJoin :: "nat \<Rightarrow> nat option \<Rightarrow> ('g heap_scheme, unit) sm" where
  "waitableJoin w target =
     bindM (getsM (\<lambda>h. waitables h w)) (\<lambda>x.
     bindM (assertM (\<not> hasSyncWaiter x) ''join on a waitable with a sync waiter'') (\<lambda>_.
     bindM (case wset x of
              None \<Rightarrow> returnM ()
            | Some s \<Rightarrow>
                bindM (getsM (\<lambda>h. elems (wsets h s))) (\<lambda>es.
                bindM (assertM (w \<in> set es) ''waitable not in its own waitable set'') (\<lambda>_.
                modifyM (updWset s (\<lambda>y. y\<lparr>elems := remove1 w es\<rparr>))))) (\<lambda>_.
     bindM (modifyM (updWaitable w (\<lambda>y. y\<lparr>wset := target\<rparr>))) (\<lambda>_.
     case target of
       None \<Rightarrow> returnM ()
     | Some s \<Rightarrow> modifyM (updWset s (\<lambda>y. y\<lparr>elems := elems y @ [w]\<rparr>))))))"

definition waitableDrop :: "nat \<Rightarrow> ('g heap_scheme, unit) sm" where
  "waitableDrop w =
     bindM (getsM (\<lambda>h. waitables h w)) (\<lambda>x.
     bindM (assertM (pendingEvent x = None) ''dropping a waitable with a pending event'') (\<lambda>_.
     bindM (assertM (\<not> hasSyncWaiter x) ''dropping a waitable with a sync waiter'') (\<lambda>_.
     waitableJoin w None)))"

definition wsetHasPendingEvent :: "nat \<Rightarrow> 'g heap_scheme \<Rightarrow> bool" where
  "wsetHasPendingEvent s h = list_ex (\<lambda>w. hasPendingEvent w h) (elems (wsets h s))"

definition wsetDrop :: "nat \<Rightarrow> ('g heap_scheme, unit) sm" where
  "wsetDrop s =
     bindM (getsM (\<lambda>h. wsets h s)) (\<lambda>x.
     bindM (trapIfM (length (elems x) > 0) ''cannot drop waitable set with waitables'') (\<lambda>_.
     trapIfM (numWaiting x > 0) ''cannot drop waitable set with waiters''))"

section \<open>Choosing a candidate (\<open>runtime/src/task/scheduler.ts\<close>)\<close>

definition nextRandom :: "('g heap_scheme, 32 word) sm" where
  "nextRandom h =
     (let x0 = (if rngState h = 0 then 0x9e3779b9 else rngState h);
          x1 = xor x0 (push_bit 13 x0);
          x2 = xor x1 (drop_bit 17 x1);
          x3 = xor x2 (push_bit 5 x2)
      in (Inr x3, h\<lparr>rngState := x3\<rparr>))"

definition chooseCandidate :: "'a list \<Rightarrow> ('g heap_scheme, 'a) sm" where
  "chooseCandidate cs =
     bindM (assertM (length cs > 0) ''chooseCandidate on an empty candidate set'') (\<lambda>_.
     bindM (getsM schedSeed) (\<lambda>seed.
     case seed of
       None \<Rightarrow> returnM (cs ! 0)
     | Some _ \<Rightarrow> bindM nextRandom (\<lambda>x. returnM (cs ! (unat x mod length cs)))))"

lemma chooseCandidate_member:
  assumes "cs \<noteq> []"
  obtains c r where "chooseCandidate cs h = (Inr c, h\<lparr>rngState := r\<rparr>)" "c \<in> set cs"
proof (cases "schedSeed h")
  case None
  then show thesis using that [of "cs ! 0" "rngState h"] assms
    by (simp add: chooseCandidate_def run_simps)
next
  case (Some s)
  define x where "x = rngState (snd (nextRandom h))"
  have "nextRandom h = (Inr x, h\<lparr>rngState := x\<rparr>)" by (simp add: nextRandom_def Let_def x_def)
  then show thesis using that [of "cs ! (unat x mod length cs)" x] assms Some
    by (simp add: chooseCandidate_def run_simps bindM_run_Inr)
qed

section \<open>The initial heap\<close>

definition emptyHeap :: heap where
  "emptyHeap =
     \<lparr>mems = \<lambda>_. [], handles = \<lambda>_. emptyTable, mayLeave = \<lambda>_. True, mayEnter = \<lambda>_. True,
      instParent = \<lambda>_. None, isRoot = \<lambda>_. False, poisonCause = \<lambda>_. None, retired = \<lambda>_. False, backpressure = \<lambda>_. 0, rtImpl = \<lambda>_. None, instStore = \<lambda>_. None,
      resources = \<lambda>_. \<lparr>rh_rt = 0, rh_rep = VNum 0, rh_own = False, rh_scope = None, numLends = 0\<rparr>,
      taskBorrows = \<lambda>_. 0, waitables = \<lambda>_. newWaitable,
      wsets = \<lambda>_. \<lparr>elems = [], numWaiting = 0\<rparr>,
      subtasks = \<lambda>_. \<lparr>st_state = STARTING, cancellationRequested = False, flatResults = [],
        lenders = Some []\<rparr>,
      ends = \<lambda>_. \<lparr>ce_kind = StreamKind, ce_side = Readable, ce_state = IDLE, ce_shared = 0\<rparr>,
      shareds = \<lambda>_. \<lparr>sh_kind = StreamKind, sh_t = None, sh_dropped = False, sh_abandon = None, sh_poisonFailure = None,
        sh_pendingInst = None, sh_pendingBuffer = None, sh_pendingDone = None, sh_boundStore = None\<rparr>,
      buffers = \<lambda>_. \<lparr>gb_t = None, gb_cx = 0, gb_inst = 0, gb_ptr = 0, gb_length = 0, gb_progress = 0\<rparr>,
      errMessages = \<lambda>_. [],
      schedSeed = None, rngState = 0, nextId = 1\<rparr>"

lemma emptyHeap_simps [simp]:
  "mems emptyHeap = (\<lambda>_. [])"
  "handles emptyHeap = (\<lambda>_. emptyTable)"
  "waitables emptyHeap = (\<lambda>_. newWaitable)"
  "numLends (resources emptyHeap r) = 0"
  "lenders (subtasks emptyHeap s) = Some []"
  "st_state (subtasks emptyHeap s) = STARTING"
  "schedSeed emptyHeap = None"
  "nextId emptyHeap = 1"
  "sh_kind (shareds emptyHeap s) = StreamKind"
  "sh_t (shareds emptyHeap s) = None"
  "sh_boundStore (shareds emptyHeap s) = None"
  "instStore emptyHeap i = None"
  by (simp_all add: emptyHeap_def)

end
