(* ===== verification/Layout.thy ===== *)
theory Layout
  imports Types
begin

text \<open>
  Alignment and element size of component values in linear memory
  (\<open>runtime/src/cabi/layout.ts\<close>, and \<open>ptrSize\<close> of \<open>memory.ts\<close>).  The functions throw on
  ill-formed types (an empty record, a flags type without labels, a variant without
  cases), so they return a \<open>result\<close>; on the well-formed types of \<open>wf_type\<close> they do not.
\<close>

section \<open>The layout functions\<close>

definition ptrSize :: "PtrType \<Rightarrow> nat" where
  "ptrSize p = (if p = I32 then 4 else 8)"

definition alignTo :: "nat \<Rightarrow> nat \<Rightarrow> nat" where
  "alignTo ptr a = ((ptr + a - 1) div a) * a"

definition alignmentFlags :: "string list \<Rightarrow> nat result" where
  "alignmentFlags labels =
     (let n = length labels in
      bindR (assertR (0 < n \<and> n \<le> 32) ''flags label count'') (\<lambda>_.
      if n \<le> 8 then Ok 1 else if n \<le> 16 then Ok 2 else Ok 4))"

definition elemSizeFlags :: "string list \<Rightarrow> nat result" where
  "elemSizeFlags labels =
     (let n = length labels in
      bindR (assertR (0 < n \<and> n \<le> 32) ''flags label count'') (\<lambda>_.
      if n \<le> 8 then Ok 1 else if n \<le> 16 then Ok 2 else Ok 4))"

fun primAlignment :: "PrimKind \<Rightarrow> PtrType \<Rightarrow> nat" where
  "primAlignment KBool p = 1" | "primAlignment KS8 p = 1" | "primAlignment KU8 p = 1"
| "primAlignment KS16 p = 2" | "primAlignment KU16 p = 2"
| "primAlignment KS32 p = 4" | "primAlignment KU32 p = 4"
| "primAlignment KF32 p = 4" | "primAlignment KChar p = 4"
| "primAlignment KS64 p = 8" | "primAlignment KU64 p = 8" | "primAlignment KF64 p = 8"
| "primAlignment KString p = ptrSize p"

fun primSize :: "PrimKind \<Rightarrow> PtrType \<Rightarrow> nat" where
  "primSize KBool p = 1" | "primSize KS8 p = 1" | "primSize KU8 p = 1"
| "primSize KS16 p = 2" | "primSize KU16 p = 2"
| "primSize KS32 p = 4" | "primSize KU32 p = 4"
| "primSize KF32 p = 4" | "primSize KChar p = 4"
| "primSize KS64 p = 8" | "primSize KU64 p = 8" | "primSize KF64 p = 8"
| "primSize KString p = 2 * ptrSize p"

lemma discriminant_size: "discriminantType cs = Inr d \<Longrightarrow> tsize d \<le> csize cs"
  by (cases cs) (auto simp: discriminantType_def Let_def split: if_splits option.splits)

function alignment :: "ValType \<Rightarrow> PtrType \<Rightarrow> nat result"
  and alignmentList :: "ValType \<Rightarrow> nat option \<Rightarrow> PtrType \<Rightarrow> nat result"
  and alignmentRecord :: "FieldType list \<Rightarrow> PtrType \<Rightarrow> nat result"
  and alignmentVariant :: "CaseType list \<Rightarrow> PtrType \<Rightarrow> nat result"
  and maxCaseAlignment :: "CaseType list \<Rightarrow> PtrType \<Rightarrow> nat result" where
  "alignment t p =
     (case despecialize t of
        TPrim k \<Rightarrow> Ok (primAlignment k p)
      | TErrorContext \<Rightarrow> Ok 4
      | TList e n \<Rightarrow> alignmentList e n p
      | TRecord fs \<Rightarrow> alignmentRecord fs p
      | TVariant cs \<Rightarrow> alignmentVariant cs p
      | TFlags ls \<Rightarrow> alignmentFlags ls
      | _ \<Rightarrow> Ok 4)"
| "alignmentList e n p = (if n \<noteq> None then alignment e p else Ok (ptrSize p))"
| "alignmentRecord [] p = Ok 1"
| "alignmentRecord (f # fs) p =
     bindR (alignment (snd f) p) (\<lambda>a. bindR (alignmentRecord fs p) (\<lambda>b. Ok (max a b)))"
| "alignmentVariant cs p =
     bindR (discriminantType cs) (\<lambda>d.
     bindR (alignment d p) (\<lambda>a.
     bindR (maxCaseAlignment cs p) (\<lambda>m. Ok (max a m))))"
| "maxCaseAlignment [] p = Ok 1"
| "maxCaseAlignment (c # cs) p =
     (case snd c of
        None \<Rightarrow> maxCaseAlignment cs p
      | Some t \<Rightarrow> bindR (alignment t p) (\<lambda>a. bindR (maxCaseAlignment cs p) (\<lambda>b. Ok (max a b))))"
  by pat_completeness auto

termination
  by (relation "measure (\<lambda>x. case x of
        Inl (Inl (t, _)) \<Rightarrow> 3 * tsize t
      | Inl (Inr (e, _, _)) \<Rightarrow> Suc (3 * tsize e)
      | Inr (Inl (fs, _)) \<Rightarrow> 3 * fsize fs
      | Inr (Inr (Inl (cs, _))) \<Rightarrow> Suc (3 * csize cs)
      | Inr (Inr (Inr (cs, _))) \<Rightarrow> 3 * csize cs)")
    (fastforce dest: tsize_despecialize discriminant_size)+

declare alignment.simps [simp del] alignmentVariant.simps [simp del]

function elemSize :: "ValType \<Rightarrow> PtrType \<Rightarrow> nat result"
  and elemSizeList :: "ValType \<Rightarrow> nat option \<Rightarrow> PtrType \<Rightarrow> nat result"
  and elemSizeRecord :: "FieldType list \<Rightarrow> PtrType \<Rightarrow> nat result"
  and fieldsEnd :: "nat \<Rightarrow> FieldType list \<Rightarrow> PtrType \<Rightarrow> nat result"
  and elemSizeVariant :: "CaseType list \<Rightarrow> PtrType \<Rightarrow> nat result"
  and maxCaseSize :: "CaseType list \<Rightarrow> PtrType \<Rightarrow> nat result" where
  "elemSize t p =
     (case despecialize t of
        TPrim k \<Rightarrow> Ok (primSize k p)
      | TErrorContext \<Rightarrow> Ok 4
      | TList e n \<Rightarrow> elemSizeList e n p
      | TRecord fs \<Rightarrow> elemSizeRecord fs p
      | TVariant cs \<Rightarrow> elemSizeVariant cs p
      | TFlags ls \<Rightarrow> elemSizeFlags ls
      | _ \<Rightarrow> Ok 4)"
| "elemSizeList e n p =
     (case n of
        Some len \<Rightarrow> bindR (elemSize e p) (\<lambda>s. Ok (len * s))
      | None \<Rightarrow> Ok (2 * ptrSize p))"
| "elemSizeRecord fs p =
     bindR (fieldsEnd 0 fs p) (\<lambda>s.
     bindR (assertR (s > 0) ''empty record'') (\<lambda>_.
     bindR (alignmentRecord fs p) (\<lambda>a. Ok (alignTo s a))))"
| "fieldsEnd s [] p = Ok s"
| "fieldsEnd s (f # fs) p =
     bindR (alignment (snd f) p) (\<lambda>a.
     bindR (elemSize (snd f) p) (\<lambda>z. fieldsEnd (alignTo s a + z) fs p))"
| "elemSizeVariant cs p =
     bindR (discriminantType cs) (\<lambda>d.
     bindR (elemSize d p) (\<lambda>s0.
     bindR (maxCaseAlignment cs p) (\<lambda>m.
     bindR (maxCaseSize cs p) (\<lambda>c.
     bindR (alignmentVariant cs p) (\<lambda>a. Ok (alignTo (alignTo s0 m + c) a))))))"
| "maxCaseSize [] p = Ok 0"
| "maxCaseSize (c # cs) p =
     (case snd c of
        None \<Rightarrow> maxCaseSize cs p
      | Some t \<Rightarrow> bindR (elemSize t p) (\<lambda>s. bindR (maxCaseSize cs p) (\<lambda>m. Ok (max s m))))"
  by pat_completeness auto

termination
  by (relation "measure (\<lambda>x. case x of
        Inl (Inl (t, _)) \<Rightarrow> 3 * tsize t
      | Inl (Inr (Inl (e, _, _))) \<Rightarrow> Suc (3 * tsize e)
      | Inl (Inr (Inr (fs, _))) \<Rightarrow> Suc (3 * fsize fs)
      | Inr (Inl (s, fs, _)) \<Rightarrow> 3 * fsize fs
      | Inr (Inr (Inl (cs, _))) \<Rightarrow> Suc (3 * csize cs)
      | Inr (Inr (Inr (cs, _))) \<Rightarrow> 3 * csize cs)")
    (fastforce dest: tsize_despecialize discriminant_size)+

declare elemSize.simps [simp del] elemSizeVariant.simps [simp del] elemSizeRecord.simps [simp del]

section \<open>Well-formed types\<close>

text \<open>
  The types the WIT grammar allows: no empty record, variant or flags, at most 32 flags,
  pairwise different labels, no fixed-length list of length 0.
\<close>

function wf_type :: "ValType \<Rightarrow> bool" where
  "wf_type t =
     (case despecialize t of
        TList e n \<Rightarrow> n \<noteq> Some 0 \<and> wf_type e
      | TRecord fs \<Rightarrow> fs \<noteq> [] \<and> distinct (map fst fs) \<and> list_all (\<lambda>f. wf_type (snd f)) fs
      | TVariant cs \<Rightarrow> cs \<noteq> [] \<and> length cs < 2 ^ 32 \<and> distinct (map fst cs) \<and>
          list_all (\<lambda>c. case snd c of None \<Rightarrow> True | Some u \<Rightarrow> wf_type u) cs
      | TFlags ls \<Rightarrow> ls \<noteq> [] \<and> length ls \<le> 32 \<and> distinct ls
      | _ \<Rightarrow> True)"
  by pat_completeness auto

termination
  by (relation "measure tsize")
    (auto dest: tsize_despecialize_list osize_record_field osize_variant_case)

declare wf_type.simps [simp del]

lemma tsize_induct [case_names type]:
  assumes "\<And>t. (\<And>u. tsize u < tsize t \<Longrightarrow> P u) \<Longrightarrow> P t"
  shows "P t"
  by (rule measure_induct_rule [of tsize P t]) (rule assms)

lemma tsize_record_part: "despecialize t = TRecord fs \<Longrightarrow> f \<in> set fs \<Longrightarrow> tsize (snd f) < tsize t"
  using osize_record_field [of t fs "fst f" "snd f"] by simp

lemma tsize_variant_part:
  assumes "despecialize t = TVariant cs" "c \<in> set cs" "snd c = Some u"
  shows "tsize u < tsize t"
proof -
  have "(fst c, Some u) \<in> set cs" using assms(2,3) by (metis prod.collapse)
  from osize_variant_case [OF assms(1) this] show ?thesis by simp
qed

section \<open>Arithmetic of alignment\<close>

lemma alignTo_ge: "0 < a \<Longrightarrow> n \<le> alignTo n a"
proof -
  assume a: "0 < a"
  have "(n + a - 1) mod a < a" using a by simp
  moreover have "((n + a - 1) div a) * a + (n + a - 1) mod a = n + a - 1" by simp
  ultimately show ?thesis unfolding alignTo_def using a by linarith
qed

lemma alignTo_less: "0 < a \<Longrightarrow> alignTo n a < n + a"
  unfolding alignTo_def
  using div_mult_mod_eq [of "n + a - 1" a] by linarith

lemma alignTo_dvd [simp]: "a dvd alignTo n a"
  by (simp add: alignTo_def)

lemma alignTo_id: "0 < a \<Longrightarrow> a dvd n \<Longrightarrow> alignTo n a = n"
proof -
  assume a: "0 < a" and d: "a dvd n"
  then obtain k where n: "n = a * k" by blast
  have "n + a - 1 = (a - 1) + a * k" using a n by simp
  then have "(n + a - 1) div a = k" using a div_mult_self2 [of a "a - 1" k] by simp
  then show ?thesis using n by (simp add: alignTo_def mult.commute)
qed

lemma alignTo_eq_iff: "0 < a \<Longrightarrow> n = alignTo n a \<longleftrightarrow> a dvd n"
  by (metis alignTo_dvd alignTo_id)

lemma alignTo_add: "0 < a \<Longrightarrow> a dvd b \<Longrightarrow> alignTo (b + n) a = b + alignTo n a"
proof -
  assume a: "0 < a" and d: "a dvd b"
  then obtain k where b: "b = a * k" by blast
  have "(b + n + a - 1) div a = k + (n + a - 1) div a"
  proof -
    have "b + n + a - 1 = (n + a - 1) + a * k" using a b by simp
    then show ?thesis using a div_mult_self2 [of a "n + a - 1" k] by simp
  qed
  then show ?thesis by (simp add: alignTo_def b algebra_simps)
qed

lemma alignTo_pos: "0 < a \<Longrightarrow> 0 < n \<Longrightarrow> 0 < alignTo n a"
  using alignTo_ge [of a n] by linarith

definition aligns :: "nat set" where
  "aligns = {1, 2, 4, 8}"

lemma aligns_max [simp]: "a \<in> aligns \<Longrightarrow> b \<in> aligns \<Longrightarrow> max a b \<in> aligns"
  by (auto simp: aligns_def)

lemma aligns_one [simp]: "Suc 0 \<in> aligns" "1 \<in> aligns"
  by (simp_all add: aligns_def)

lemma aligns_pos: "a \<in> aligns \<Longrightarrow> 0 < a"
  by (auto simp: aligns_def)

lemma aligns_dvd_max: "a \<in> aligns \<Longrightarrow> b \<in> aligns \<Longrightarrow> a dvd max a b \<and> b dvd max a b"
  by (auto simp: aligns_def)

section \<open>Totality of the layout on well-formed types\<close>

definition algn :: "ValType \<Rightarrow> PtrType \<Rightarrow> nat" where
  "algn t p = (case alignment t p of Inr a \<Rightarrow> a | Inl _ \<Rightarrow> 1)"

definition esz :: "ValType \<Rightarrow> PtrType \<Rightarrow> nat" where
  "esz t p = (case elemSize t p of Inr s \<Rightarrow> s | Inl _ \<Rightarrow> 0)"

definition lay :: "ValType \<Rightarrow> PtrType \<Rightarrow> bool" where
  "lay t p \<longleftrightarrow>
     alignment t p = Inr (algn t p) \<and> elemSize t p = Inr (esz t p) \<and>
     algn t p \<in> aligns \<and> 0 < esz t p \<and> algn t p dvd esz t p"

lemma layI:
  assumes "alignment t p = Inr a" "elemSize t p = Inr s" "a \<in> aligns" "0 < s" "a dvd s"
  shows "lay t p"
  using assms by (simp add: lay_def algn_def esz_def)

lemma prim_lay: "primAlignment k p \<in> aligns \<and> 0 < primSize k p \<and> primAlignment k p dvd primSize k p"
  by (cases k) (auto simp: aligns_def ptrSize_def)

lemma flags_lay:
  assumes "ls \<noteq> []" "length ls \<le> 32"
  obtains a where "alignmentFlags ls = Inr a" "elemSizeFlags ls = Inr a" "a \<in> aligns"
proof -
  have "alignmentFlags ls = Inr a \<Longrightarrow> elemSizeFlags ls = Inr a \<Longrightarrow> a \<in> aligns \<Longrightarrow> thesis" for a
    by (rule that)
  from this [of 1] this [of 2] this [of 4] assms show thesis
    by (cases "length ls \<le> 8"; cases "length ls \<le> 16")
      (auto simp: alignmentFlags_def elemSizeFlags_def aligns_def)
qed

lemma alignmentRecord_ok:
  assumes "\<forall>f \<in> set fs. lay (snd f) p"
  shows "\<exists>a. alignmentRecord fs p = Inr a \<and> a \<in> aligns \<and> (\<forall>f \<in> set fs. algn (snd f) p dvd a)"
  using assms
proof (induction fs)
  case (Cons f fs)
  then have "\<exists>a. alignmentRecord fs p = Inr a \<and> a \<in> aligns \<and> (\<forall>g \<in> set fs. algn (snd g) p dvd a)"
    by simp
  then obtain a where a: "alignmentRecord fs p = Inr a" "a \<in> aligns"
    "\<forall>g \<in> set fs. algn (snd g) p dvd a" by blast
  define b where "b = algn (snd f) p"
  from Cons.prems have b: "alignment (snd f) p = Inr b" "b \<in> aligns" by (simp_all add: lay_def b_def)
  have d: "b dvd max b a" "a dvd max b a" using aligns_dvd_max [OF b(2) a(2)] by simp_all
  have "\<forall>g \<in> set fs. algn (snd g) p dvd max b a"
    using a(3) dvd_trans [OF _ d(2)] by blast
  moreover have "alignmentRecord (f # fs) p = Inr (max b a)" using a(1) b(1) by simp
  moreover have "max b a \<in> aligns" using a(2) b(2) by simp
  ultimately show ?case using d(1) b_def by (intro exI [of _ "max b a"]) simp
qed simp

lemma fieldsEnd_ok:
  assumes "\<forall>f \<in> set fs. lay (snd f) p"
  shows "\<exists>e. fieldsEnd s fs p = Inr e \<and> s \<le> e \<and> (fs \<noteq> [] \<longrightarrow> s < e)"
  using assms
proof (induction fs arbitrary: s)
  case (Cons f fs)
  let ?b = "algn (snd f) p" and ?z = "esz (snd f) p"
  from Cons.prems have b: "lay (snd f) p" by auto
  then have ge: "s \<le> alignTo s ?b" by (simp add: lay_def alignTo_ge aligns_pos)
  from Cons.prems have "\<forall>f \<in> set fs. lay (snd f) p" by simp
  from Cons.IH [OF this, of "alignTo s ?b + ?z"]
  obtain e where "fieldsEnd (alignTo s ?b + ?z) fs p = Inr e" "alignTo s ?b + ?z \<le> e" by blast
  with b ge show ?case by (intro exI [of _ e]) (simp add: lay_def)
qed simp

lemma maxCaseAlignment_ok:
  assumes "\<forall>c \<in> set cs. \<forall>t. snd c = Some t \<longrightarrow> lay t p"
  shows "\<exists>a. maxCaseAlignment cs p = Inr a \<and> a \<in> aligns \<and>
      (\<forall>c \<in> set cs. \<forall>t. snd c = Some t \<longrightarrow> algn t p dvd a)"
  using assms
proof (induction cs)
  case (Cons c cs)
  then have "\<exists>a. maxCaseAlignment cs p = Inr a \<and> a \<in> aligns \<and>
      (\<forall>c \<in> set cs. \<forall>t. snd c = Some t \<longrightarrow> algn t p dvd a)" by simp
  then obtain a where a: "maxCaseAlignment cs p = Inr a" "a \<in> aligns"
    "\<forall>c \<in> set cs. \<forall>t. snd c = Some t \<longrightarrow> algn t p dvd a" by blast
  show ?case
  proof (cases "snd c")
    case None
    with a show ?thesis by (intro exI [of _ a]) simp
  next
    case (Some t)
    define b where "b = algn t p"
    from Cons.prems Some have b: "alignment t p = Inr b" "b \<in> aligns" by (simp_all add: lay_def b_def)
    have d: "b dvd max b a" "a dvd max b a" using aligns_dvd_max [OF b(2) a(2)] by simp_all
    have "\<forall>c \<in> set cs. \<forall>t. snd c = Some t \<longrightarrow> algn t p dvd max b a"
      using a(3) dvd_trans [OF _ d(2)] by blast
    moreover have "maxCaseAlignment (c # cs) p = Inr (max b a)" using a(1) b(1) Some by simp
    moreover have "max b a \<in> aligns" using a(2) b(2) by simp
    ultimately show ?thesis using d(1) b_def Some by (intro exI [of _ "max b a"]) simp
  qed
qed simp

lemma maxCaseSize_ok:
  assumes "\<forall>c \<in> set cs. \<forall>t. snd c = Some t \<longrightarrow> lay t p"
  shows "\<exists>m. maxCaseSize cs p = Inr m \<and> (\<forall>c \<in> set cs. \<forall>t. snd c = Some t \<longrightarrow> esz t p \<le> m)"
  using assms
proof (induction cs)
  case (Cons c cs)
  then obtain m where m: "maxCaseSize cs p = Inr m"
    "\<forall>c \<in> set cs. \<forall>t. snd c = Some t \<longrightarrow> esz t p \<le> m" by auto
  show ?case
  proof (cases "snd c")
    case None
    with m show ?thesis by auto
  next
    case (Some t)
    with Cons.prems have "elemSize t p = Inr (esz t p)" by (auto simp: lay_def)
    with m Some show ?thesis by (auto intro: max.coboundedI2)
  qed
qed simp

lemma discriminant_cases:
  assumes "cs \<noteq> []" "length cs < 2 ^ 32"
  obtains k where "discriminantType cs = Inr (TPrim k)" "k \<in> {KU8, KU16, KU32}"
    "length cs \<le> 2 ^ (8 * primSize k p)" "primSize k p \<in> {1, 2, 4}"
    "primAlignment k p = primSize k p"
proof -
  note that [of KU8] that [of KU16] that [of KU32]
  with assms show thesis
    by (cases "length cs \<le> 256"; cases "length cs \<le> 65536")
      (auto simp: discriminantType_def Let_def)
qed

lemma alignment_TPrim [simp]: "alignment (TPrim k) p = Inr (primAlignment k p)"
  and elemSize_TPrim [simp]: "elemSize (TPrim k) p = Inr (primSize k p)"
  by (simp_all add: alignment.simps elemSize.simps)

lemma alignmentVariant_ok:
  assumes "\<forall>c \<in> set cs. \<forall>t. snd c = Some t \<longrightarrow> lay t p" "cs \<noteq> []" "length cs < 2 ^ 32"
  shows "\<exists>a s. alignmentVariant cs p = Inr a \<and> elemSizeVariant cs p = Inr s \<and>
    a \<in> aligns \<and> 0 < s \<and> a dvd s"
proof -
  obtain k where k: "discriminantType cs = Inr (TPrim k)" "k \<in> {KU8, KU16, KU32}"
    "length cs \<le> 2 ^ (8 * primSize k p)" "primSize k p \<in> {1, 2, 4}"
    "primAlignment k p = primSize k p"
    by (rule discriminant_cases [OF assms(2,3), of p])
  obtain a where a: "maxCaseAlignment cs p = Inr a" "a \<in> aligns"
    using maxCaseAlignment_ok [OF assms(1)] by blast
  obtain m where m: "maxCaseSize cs p = Inr m"
    using maxCaseSize_ok [OF assms(1)] by blast
  let ?al = "max (primSize k p) a"
  have al: "?al \<in> aligns" using k(4) a(2) by (auto simp: aligns_def)
  have "0 < alignTo (primSize k p) a + m"
    using k(4) a(2) alignTo_pos [of a "primSize k p"] aligns_pos by fastforce
  then have "0 < alignTo (alignTo (primSize k p) a + m) ?al"
    using al by (intro alignTo_pos) (auto dest: aligns_pos)
  with al k a m show ?thesis
    by (simp add: alignmentVariant.simps elemSizeVariant.simps)
qed

lemma wf_layout: "wf_type t \<Longrightarrow> lay t p"
proof (induction t rule: tsize_induct)
  case (type t)
  show ?case
  proof (cases "despecialize t")
    case (TPrim k)
    then show ?thesis using prim_lay [of k p]
      by (intro layI [of _ _ "primAlignment k p" "primSize k p"])
        (simp_all add: alignment.simps elemSize.simps)
  next
    case (TList e n)
    have e: "wf_type e" "n \<noteq> Some 0" using type.prems TList by (simp_all add: wf_type.simps [of t])
    have le: "lay e p" using type.IH e(1) tsize_despecialize_list [OF TList] by simp
    show ?thesis
    proof (cases n)
      case None
      then show ?thesis using TList
        by (intro layI [of _ _ "ptrSize p" "2 * ptrSize p"])
          (simp_all add: alignment.simps [of t] elemSize.simps [of t] ptrSize_def aligns_def)
    next
      case (Some l)
      then show ?thesis using TList le e
        by (intro layI [of _ _ "algn e p" "l * esz e p"])
          (simp_all add: alignment.simps [of t] elemSize.simps [of t] lay_def)
    qed
  next
    case (TRecord fs)
    then have fs: "fs \<noteq> []" "list_all (\<lambda>f. wf_type (snd f)) fs"
      using type.prems by (simp_all add: wf_type.simps [of t])
    have "lay (snd f) p" if "f \<in> set fs" for f
      using type.IH [of "snd f"] osize_record_field [OF TRecord, of "fst f" "snd f"] that fs(2)
      by (simp add: list_all_iff)
    then have lf: "\<forall>f \<in> set fs. lay (snd f) p" by blast
    obtain a where a: "alignmentRecord fs p = Inr a" "a \<in> aligns"
      using alignmentRecord_ok [OF lf] by blast
    obtain e where e: "fieldsEnd 0 fs p = Inr e" "0 < e"
      using fieldsEnd_ok [OF lf, of 0] fs(1) by blast
    have "0 < alignTo e a" using e(2) a(2) aligns_pos alignTo_pos by blast
    then show ?thesis using TRecord a e
      by (intro layI [of _ _ a "alignTo e a"])
        (simp_all add: alignment.simps [of t] elemSize.simps [of t] elemSizeRecord.simps)
  next
    case (TVariant cs)
    then have cs: "cs \<noteq> []" "length cs < 2 ^ 32"
      "list_all (\<lambda>c. case snd c of None \<Rightarrow> True | Some u \<Rightarrow> wf_type u) cs"
      using type.prems by (simp_all add: wf_type.simps [of t])
    have "\<forall>c \<in> set cs. \<forall>u. snd c = Some u \<longrightarrow> lay u p"
      using type.IH TVariant cs(3) by (fastforce simp: list_all_iff dest: osize_variant_case)
    from alignmentVariant_ok [OF this cs(1,2)] show ?thesis using TVariant
      by (auto intro!: layI simp: alignment.simps [of t] elemSize.simps [of t])
  next
    case (TFlags ls)
    then have "ls \<noteq> []" "length ls \<le> 32" using type.prems by (simp_all add: wf_type.simps [of t])
    then obtain a where "alignmentFlags ls = Inr a" "elemSizeFlags ls = Inr a" "a \<in> aligns"
      by (rule flags_lay)
    then show ?thesis using TFlags
      by (intro layI [of _ _ a a])
        (simp_all add: alignment.simps [of t] elemSize.simps [of t] aligns_pos)
  next
    case TErrorContext
    show ?thesis by (rule layI [of _ _ 4 4])
        (simp_all add: TErrorContext alignment.simps [of t] elemSize.simps [of t] aligns_def)
  next
    case (TOwn r)
    show ?thesis by (rule layI [of _ _ 4 4])
        (simp_all add: TOwn alignment.simps [of t] elemSize.simps [of t] aligns_def)
  next
    case (TBorrow r)
    show ?thesis by (rule layI [of _ _ 4 4])
        (simp_all add: TBorrow alignment.simps [of t] elemSize.simps [of t] aligns_def)
  next
    case (TStream r)
    show ?thesis by (rule layI [of _ _ 4 4])
        (simp_all add: TStream alignment.simps [of t] elemSize.simps [of t] aligns_def)
  next
    case (TFuture r)
    show ?thesis by (rule layI [of _ _ 4 4])
        (simp_all add: TFuture alignment.simps [of t] elemSize.simps [of t] aligns_def)
  qed (use despecialize_not_specialized [of t] in \<open>simp_all add: specialized_def\<close>)
qed

section \<open>Consequences the memory code uses\<close>

lemma wf_layoutD:
  assumes "wf_type t"
  shows "alignment t p = Inr (algn t p)" "elemSize t p = Inr (esz t p)"
    "algn t p \<in> aligns" "0 < esz t p" "algn t p dvd esz t p" "0 < algn t p"
  using wf_layout [OF assms, of p] by (auto simp: lay_def dest: aligns_pos)

lemma alignment_despecialize: "alignment (despecialize t) p = alignment t p"
  by (simp add: alignment.simps [of t] alignment.simps [of "despecialize t"])

lemma elemSize_despecialize: "elemSize (despecialize t) p = elemSize t p"
  by (simp add: elemSize.simps [of t] elemSize.simps [of "despecialize t"])

lemma wf_type_despecialize [simp]: "wf_type (despecialize t) \<longleftrightarrow> wf_type t"
  by (simp add: wf_type.simps [of t] wf_type.simps [of "despecialize t"])

lemma wf_record_field:
  assumes "wf_type t" "despecialize t = TRecord fs" "f \<in> set fs"
  shows "wf_type (snd f)"
  using assms by (simp add: wf_type.simps [of t] list_all_iff)

lemma wf_variant_case:
  assumes "wf_type t" "despecialize t = TVariant cs" "c \<in> set cs" "snd c = Some u"
  shows "wf_type u"
  using assms by (fastforce simp: wf_type.simps [of t] list_all_iff)

lemma wf_list_elem: "wf_type t \<Longrightarrow> despecialize t = TList e n \<Longrightarrow> wf_type e"
  by (simp add: wf_type.simps [of t])

text \<open>The offsets at which the record loops place the fields, from a starting offset.\<close>

fun fieldOffsets :: "nat \<Rightarrow> FieldType list \<Rightarrow> PtrType \<Rightarrow> nat list" where
  "fieldOffsets s [] p = []"
| "fieldOffsets s (f # fs) p =
     (let o0 = alignTo s (algn (snd f) p) in o0 # fieldOffsets (o0 + esz (snd f) p) fs p)"

lemma length_fieldOffsets [simp]: "length (fieldOffsets s fs p) = length fs"
  by (induction fs arbitrary: s) (auto simp: Let_def)

lemma fieldOffsets_layout:
  assumes "\<forall>f \<in> set fs. wf_type (snd f)" "fieldsEnd s fs p = Inr e" "i < length fs"
  shows "s \<le> fieldOffsets s fs p ! i"
    and "algn (snd (fs ! i)) p dvd fieldOffsets s fs p ! i"
    and "fieldOffsets s fs p ! i + esz (snd (fs ! i)) p \<le> e"
    and "\<forall>j. i < j \<longrightarrow> j < length fs \<longrightarrow>
           fieldOffsets s fs p ! i + esz (snd (fs ! i)) p \<le> fieldOffsets s fs p ! j"
proof -
  have "s \<le> fieldOffsets s fs p ! i \<and> algn (snd (fs ! i)) p dvd fieldOffsets s fs p ! i \<and>
    fieldOffsets s fs p ! i + esz (snd (fs ! i)) p \<le> e \<and>
    (\<forall>j. i < j \<longrightarrow> j < length fs \<longrightarrow>
       fieldOffsets s fs p ! i + esz (snd (fs ! i)) p \<le> fieldOffsets s fs p ! j)"
    using assms
  proof (induction fs arbitrary: s i)
    case (Cons f fs)
    let ?a = "algn (snd f) p" and ?z = "esz (snd f) p"
    let ?o = "alignTo s ?a"
    note wf = wf_layoutD [of "snd f" p]
    have fwf: "wf_type (snd f)" using Cons.prems(1) by simp
    have a: "s \<le> ?o" "?a dvd ?o" using wf(6) [OF fwf] by (simp_all add: alignTo_ge)
    have tail: "\<forall>g \<in> set fs. wf_type (snd g)" using Cons.prems(1) by simp
    have e: "fieldsEnd (?o + ?z) fs p = Inr e"
      using Cons.prems(2) wf(1,2) [OF fwf] by simp
    have ge: "?o + ?z \<le> e"
      using fieldsEnd_ok [of fs p "?o + ?z"] tail e wf_layout by auto
    show ?case
    proof (cases i)
      case 0
      have "?o + ?z \<le> fieldOffsets (?o + ?z) fs p ! k" if "k < length fs" for k
        using Cons.IH [OF tail e that] by simp
      then show ?thesis using 0 a ge by (auto simp: Let_def nth_Cons split: nat.splits)
    next
      case (Suc k)
      then have "k < length fs" using Cons.prems(3) by simp
      from Cons.IH [OF tail e this] Suc a ge show ?thesis
        by (auto simp: Let_def nth_Cons split: nat.splits)
    qed
  qed simp
  then show "s \<le> fieldOffsets s fs p ! i"
    and "algn (snd (fs ! i)) p dvd fieldOffsets s fs p ! i"
    and "fieldOffsets s fs p ! i + esz (snd (fs ! i)) p \<le> e"
    and "\<forall>j. i < j \<longrightarrow> j < length fs \<longrightarrow>
           fieldOffsets s fs p ! i + esz (snd (fs ! i)) p \<le> fieldOffsets s fs p ! j"
    by blast+
qed

lemma record_size:
  assumes "wf_type t" "despecialize t = TRecord fs"
  obtains e where "fieldsEnd 0 fs p = Inr e" "e \<le> esz t p" "\<forall>f \<in> set fs. algn (snd f) p dvd algn t p"
    "alignmentRecord fs p = Inr (algn t p)"
proof -
  have lf: "\<forall>f \<in> set fs. lay (snd f) p"
    using assms wf_record_field wf_layout by blast
  obtain a where a: "alignmentRecord fs p = Inr a" "a \<in> aligns" "\<forall>f \<in> set fs. algn (snd f) p dvd a"
    using alignmentRecord_ok [OF lf] by blast
  obtain e where e: "fieldsEnd 0 fs p = Inr e" "fs \<noteq> [] \<longrightarrow> 0 < e"
    using fieldsEnd_ok [OF lf, of 0] by blast
  have "fs \<noteq> []" using assms by (simp add: wf_type.simps [of t])
  then have "esz t p = alignTo e a" "algn t p = a"
    using assms(2) a e
    by (simp_all add: esz_def algn_def elemSize.simps [of t] alignment.simps [of t] elemSizeRecord.simps)
  with that e a show thesis using alignTo_ge aligns_pos by auto
qed

section \<open>Properties\<close>

text \<open>C39: On every well-formed type the layout functions return: the alignment is 1, 2, 4 or 8, the
  size is positive and a multiple of the alignment, so consecutive elements of an array stay aligned.\<close>

theorem layout_total:
  assumes "wf_type t"
  shows "\<exists>a s. alignment t p = Inr a \<and> elemSize t p = Inr s \<and> a \<in> {1, 2, 4, 8} \<and> 0 < s \<and> a dvd s"
  using wf_layoutD [OF assms, of p] by (auto simp: aligns_def)

theorem layout_total_witness:
  "\<exists>a s. alignment (TOption (TTuple [TPrim KU8, TPrim KF64])) I32 = Inr a \<and>
     elemSize (TOption (TTuple [TPrim KU8, TPrim KF64])) I32 = Inr s \<and> a \<in> {1, 2, 4, 8} \<and> 0 < s \<and> a dvd s"
  by (rule layout_total) (simp add: wf_type.simps showNat.simps)

text \<open>The fields of a record (and of a tuple, and of a map entry) lie at offsets that are aligned
  for their type, do not overlap, come in order and end within the record's element size.\<close>

lemma record_fields_layout:
  assumes "wf_type t" "despecialize t = TRecord fs" "i < length fs"
  shows "algn (snd (fs ! i)) p dvd fieldOffsets 0 fs p ! i \<and>
    fieldOffsets 0 fs p ! i + esz (snd (fs ! i)) p \<le> esz t p \<and>
    (\<forall>j. i < j \<longrightarrow> j < length fs \<longrightarrow>
       fieldOffsets 0 fs p ! i + esz (snd (fs ! i)) p \<le> fieldOffsets 0 fs p ! j)"
proof -
  obtain e where e: "fieldsEnd 0 fs p = Inr e" "e \<le> esz t p"
    by (rule record_size [OF assms(1,2), of p])
  have "\<forall>f \<in> set fs. wf_type (snd f)" using wf_record_field [OF assms(1,2)] by blast
  from fieldOffsets_layout [OF this e(1) assms(3)] e(2) show ?thesis by auto
qed

lemma record_fields_layout_witness:
  "(\<exists>off. algn (TPrim KU32) I32 dvd off \<and> off + 4 \<le> esz (TTuple [TPrim KU8, TPrim KU32]) I32)"
proof -
  have "wf_type (TTuple [TPrim KU8, TPrim KU32])" by (simp add: wf_type.simps showNat.simps)
  from record_fields_layout [OF this, of "indexFields 0 [TPrim KU8, TPrim KU32]" 1 I32]
  show ?thesis by (auto simp: esz_def)
qed

end
