(* ===== verification/Floats.thy ===== *)
theory Floats
  imports JsValues
begin

text \<open>
  Float bit handling (\<open>runtime/src/cabi/float.ts\<close>): reinterpretation through a scratch
  \<open>DataView\<close> and the canonicalisation of NaN.  \<open>widen32\<close> is \<open>getFloat32\<close> (the double equal to
  an f32), \<open>narrow32\<close> is \<open>setFloat32\<close> (round to nearest even); both are written out on the
  bit fields.
\<close>

section \<open>DataView float accesses\<close>

definition widen32 :: "nat \<Rightarrow> 64 word" where
  "widen32 n =
     (let s = n div 2 ^ 31 mod 2; e = n div 2 ^ 23 mod 2 ^ 8; m = n mod 2 ^ 23 in
      word_of_nat (s * 2 ^ 63 +
        (if e = 255 then 2047 * 2 ^ 52 + m * 2 ^ 29
         else if e = 0 then
           (if m = 0 then 0
            else let k = ilog2 m in (k + 874) * 2 ^ 52 + (m - 2 ^ k) * 2 ^ (52 - k))
         else (e + 896) * 2 ^ 52 + m * 2 ^ 29)))"

text \<open>
  The bits \<open>setFloat32\<close> writes for a NaN are implementation-defined; no caller passes one
  (\<open>encodeFloatAsI32\<close> handles NaN itself), so any NaN pattern serves here.
\<close>

definition narrow32 :: "64 word \<Rightarrow> nat" where
  "narrow32 w =
     f64Sign w * 2 ^ 31 +
     (if f64Exp w = 2047 then (if f64Frac w = 0 then 255 * 2 ^ 23 else 0x7fc00000)
      else roundBits 23 (-149) 255 (f64Mant w) (f64Pow w))"

section \<open>The functions of float.ts\<close>

definition CANONICAL_FLOAT32_NAN :: int where "CANONICAL_FLOAT32_NAN = 0x7fc00000"
definition CANONICAL_FLOAT64_NAN :: int where "CANONICAL_FLOAT64_NAN = 0x7ff8000000000000"

definition coreF32ReinterpretI32 :: "int \<Rightarrow> JsVal" where
  "coreF32ReinterpretI32 i = VFlt (widen32 (nat (i mod 2 ^ 32)))"

definition coreF64ReinterpretI64 :: "int \<Rightarrow> JsVal" where
  "coreF64ReinterpretI64 i = VFlt (word_of_int i)"

definition coreI32ReinterpretF32 :: "JsVal \<Rightarrow> int" where
  "coreI32ReinterpretF32 f = int (narrow32 (js_f64 f))"

definition coreI64ReinterpretF64 :: "JsVal \<Rightarrow> int" where
  "coreI64ReinterpretF64 f = uint (js_f64 f)"

definition canonicalizeNan32 :: "JsVal \<Rightarrow> JsVal" where
  "canonicalizeNan32 f = (if js_isNaN f then coreF32ReinterpretI32 CANONICAL_FLOAT32_NAN else f)"

definition canonicalizeNan64 :: "JsVal \<Rightarrow> JsVal" where
  "canonicalizeNan64 f = (if js_isNaN f then coreF64ReinterpretI64 CANONICAL_FLOAT64_NAN else f)"

definition decodeI32AsFloat :: "int \<Rightarrow> JsVal" where
  "decodeI32AsFloat i = canonicalizeNan32 (coreF32ReinterpretI32 i)"

definition decodeI64AsFloat :: "int \<Rightarrow> JsVal" where
  "decodeI64AsFloat i = canonicalizeNan64 (coreF64ReinterpretI64 i)"

definition maybeScrambleNan32 :: "JsVal \<Rightarrow> JsVal" where
  "maybeScrambleNan32 f = (if js_isNaN f then coreF32ReinterpretI32 CANONICAL_FLOAT32_NAN else f)"

definition maybeScrambleNan64 :: "JsVal \<Rightarrow> JsVal" where
  "maybeScrambleNan64 f = (if js_isNaN f then coreF64ReinterpretI64 CANONICAL_FLOAT64_NAN else f)"

definition encodeFloatAsI32 :: "JsVal \<Rightarrow> int" where
  "encodeFloatAsI32 f = (if js_isNaN f then CANONICAL_FLOAT32_NAN else coreI32ReinterpretF32 f)"

definition encodeFloatAsI64 :: "JsVal \<Rightarrow> int" where
  "encodeFloatAsI64 f = (if js_isNaN f then CANONICAL_FLOAT64_NAN else coreI64ReinterpretF64 f)"

section \<open>Narrowing inverts widening\<close>

lemma f64_fields:
  assumes "s \<le> 1" "e < 2 ^ 11" "m < 2 ^ 52"
  defines "w \<equiv> word_of_nat (s * 2 ^ 63 + (e * 2 ^ 52 + m)) :: 64 word"
  shows "f64Sign w = s" "f64Exp w = e" "f64Frac w = m"
proof -
  have lt: "e * 2 ^ 52 + m < 2 ^ 63" using assms(2,3) by simp
  then have "s * 2 ^ 63 + (e * 2 ^ 52 + m) < 2 ^ 64" using assms(1) by simp
  then have u: "unat w = s * 2 ^ 63 + (e * 2 ^ 52 + m)"
    unfolding w_def by (simp only: unat_of_nat) simp
  show "f64Sign w = s" using lt by (simp add: f64Sign_def u)
  have "unat w = m + (s * 2 ^ 11 + e) * 2 ^ 52" using u by simp
  then have d: "unat w div 2 ^ 52 = s * 2 ^ 11 + e" "unat w mod 2 ^ 52 = m"
    using assms(3) by (simp_all only: div_mult_self1 mod_mult_self1) simp_all
  show "f64Exp w = e" using assms(2) by (simp only: f64Exp_def d(1) mod_mult_self3 mod_less)
  show "f64Frac w = m" by (simp only: f64Frac_def d(2))
qed

lemma roundEven_exact [simp]: "roundEven (r * 2 ^ d) d = r"
  by (simp add: roundEven_def)

lemma roundBits_normal:
  assumes "1 \<le> e" "e < 255" "m < 2 ^ 23"
  shows "roundBits 23 (-149) 255 (2 ^ 52 + m * 2 ^ 29) (int e - 179) = e * 2 ^ 23 + m"
proof -
  let ?M = "2 ^ 52 + m * 2 ^ 29 :: nat"
  have M: "?M = (2 ^ 23 + m) * 2 ^ 29" by simp
  have l: "ilog2 ?M = 52" using assms(3) by (intro ilog2_unique) auto
  have q: "max (int (ilog2 ?M) + (int e - 179) - int 23) (- 149) = int e - 150"
    using assms(1) l by simp
  have r: "roundEven ?M (nat (int e - 150 - (int e - 179))) = 2 ^ 23 + m"
    using roundEven_exact [of "2 ^ 23 + m" 29] M by simp
  have n: "nat (int e - 150 - (- 149)) = e - 1" using assms(1) by simp
  have "(e - 1) * 2 ^ 23 + (2 ^ 23 + m) = e * 2 ^ 23 + m"
    using assms(1) by (cases e) simp_all
  moreover have "e * 2 ^ 23 + m < 255 * 2 ^ 23" using assms(2,3) by simp
  moreover have "?M \<noteq> 0" by simp
  ultimately show ?thesis
    unfolding roundBits_def Let_def q r n by simp
qed

lemma roundBits_subnormal:
  assumes "0 < m" "m < 2 ^ 23"
  defines "k \<equiv> ilog2 m"
  shows "roundBits 23 (-149) 255 (2 ^ 52 + (m - 2 ^ k) * 2 ^ (52 - k)) (int k - 201) = m"
    and "k \<le> 22" and "(m - 2 ^ k) * 2 ^ (52 - k) < 2 ^ 52"
proof -
  have b: "2 ^ k \<le> m" "m < 2 ^ Suc k" using ilog2_bounds [OF assms(1)] by (auto simp: k_def)
  then have "(2::nat) ^ k < 2 ^ 23" using assms(2) by linarith
  then have "k < 23" by (simp only: power_strict_increasing_iff)
  then show k: "k \<le> 22" by simp
  then have kk: "(2::nat) ^ k * 2 ^ (52 - k) = 2 ^ 52" by (simp flip: power_add)
  have "(m - 2 ^ k) * 2 ^ (52 - k) < 2 ^ k * 2 ^ (52 - k)" using b by simp
  then show lt: "(m - 2 ^ k) * 2 ^ (52 - k) < 2 ^ 52" using kk by simp
  let ?M = "2 ^ 52 + (m - 2 ^ k) * 2 ^ (52 - k)"
  have "?M = (2 ^ k + (m - 2 ^ k)) * 2 ^ (52 - k)" using kk by (simp only: add_mult_distrib)
  then have M: "?M = m * 2 ^ (52 - k)" using b by simp
  have l: "ilog2 ?M = 52" using lt by (intro ilog2_unique) auto
  have q: "max (int (ilog2 ?M) + (int k - 201) - int 23) (- 149) = -149" using k l by simp
  have "nat (- 149 - (int k - 201)) = 52 - k" using k by simp
  then have r: "roundEven ?M (nat (- 149 - (int k - 201))) = m"
    unfolding M using roundEven_exact by simp
  have "m < 255 * 2 ^ 23" "?M \<noteq> 0" using assms(2) by simp_all
  then show "roundBits 23 (-149) 255 ?M (int k - 201) = m"
    unfolding roundBits_def Let_def q r using k by simp
qed

definition f32IsNan :: "nat \<Rightarrow> bool" where
  "f32IsNan n \<longleftrightarrow> n div 2 ^ 23 mod 2 ^ 8 = 255 \<and> n mod 2 ^ 23 \<noteq> 0"

lemma f32_fields:
  fixes n :: nat
  assumes "n < 2 ^ 32"
  shows "n div 2 ^ 31 mod 2 * 2 ^ 31 + (n div 2 ^ 23 mod 2 ^ 8 * 2 ^ 23 + n mod 2 ^ 23) = n"
proof -
  define q where "q = n div 2 ^ 23"
  define h where "h = n div 2 ^ 31 mod 2"
  define l where "l = q mod 2 ^ 8"
  have q: "q div 2 ^ 8 = n div 2 ^ 31" by (simp add: q_def flip: div_mult2_eq)
  have "n div 2 ^ 31 < 2" using assms by (intro less_mult_imp_div_less) simp
  then have "q div 2 ^ 8 = h" using q by (simp only: h_def mod_less)
  then have "q = h * 2 ^ 8 + l"
    using div_mult_mod_eq [of q "2 ^ 8"] by (simp only: l_def)
  then have "q * 2 ^ 23 = h * 2 ^ 31 + l * 2 ^ 23" by simp
  then have "h * 2 ^ 31 + (l * 2 ^ 23 + n mod 2 ^ 23) = n"
    using div_mult_mod_eq [of n "2 ^ 23"] by (simp add: q_def)
  then show ?thesis by (simp only: h_def l_def q_def)
qed

text \<open>Non-NaN patterns survive widening to a double and narrowing back, bit for bit.\<close>

lemma narrow_widen:
  assumes "n < 2 ^ 32"
  shows "\<not> f32IsNan n \<Longrightarrow> narrow32 (widen32 n) = n"
    and "f64IsNan (widen32 n) = f32IsNan n"
proof -
  define s where "s = n div 2 ^ 31 mod 2"
  define e where "e = n div 2 ^ 23 mod 2 ^ 8"
  define m where "m = n mod 2 ^ 23"
  have s: "s \<le> 1" and e: "e < 256" and m: "m < 2 ^ 23"
    unfolding s_def e_def m_def by (simp_all flip: One_nat_def)
  have n: "n = s * 2 ^ 31 + (e * 2 ^ 23 + m)"
    using f32_fields [OF assms] by (simp only: s_def e_def m_def)
  have nan: "f32IsNan n \<longleftrightarrow> e = 255 \<and> m \<noteq> 0" by (simp add: f32IsNan_def e_def m_def)
  have w: "widen32 n = word_of_nat (s * 2 ^ 63 +
        (if e = 255 then 2047 * 2 ^ 52 + m * 2 ^ 29
         else if e = 0 then
           (if m = 0 then 0
            else (ilog2 m + 874) * 2 ^ 52 + (m - 2 ^ ilog2 m) * 2 ^ (52 - ilog2 m))
         else (e + 896) * 2 ^ 52 + m * 2 ^ 29))"
    by (simp add: widen32_def Let_def s_def e_def m_def)
  have m29: "m * 2 ^ 29 < 2 ^ 52" using m by simp
  show "\<not> f32IsNan n \<Longrightarrow> narrow32 (widen32 n) = n"
    and "f64IsNan (widen32 n) = f32IsNan n"
  proof -
    consider "e = 255" | "e = 0" "m = 0" | "e = 0" "0 < m" | "1 \<le> e" "e < 255"
      using e by linarith
    then have "(\<not> f32IsNan n \<longrightarrow> narrow32 (widen32 n) = n) \<and> f64IsNan (widen32 n) = f32IsNan n"
    proof cases
      case 1
      then show ?thesis using f64_fields [OF s _ m29, of 2047] w n nan
        by (auto simp: narrow32_def f64IsNan_def)
    next
      case 2
      then show ?thesis using f64_fields [OF s, of 0 0] w n nan
        by (simp add: narrow32_def f64IsNan_def roundBits_def f64Mant_def)
    next
      case 3
      note sub = roundBits_subnormal [OF 3(2) m]
      from 3 show ?thesis using f64_fields [OF s _ sub(3), of "ilog2 m + 874"] sub(1,2) w n nan
        by (simp add: narrow32_def f64IsNan_def f64Mant_def f64Pow_def)
    next
      case 4
      then show ?thesis using f64_fields [OF s _ m29, of "e + 896"] roundBits_normal [OF 4 m] w n nan
        by (simp add: narrow32_def f64IsNan_def f64Mant_def f64Pow_def)
    qed
    then show "\<not> f32IsNan n \<Longrightarrow> narrow32 (widen32 n) = n"
      and "f64IsNan (widen32 n) = f32IsNan n" by blast+
  qed
qed

section \<open>Encoding and decoding\<close>

lemma canonical_widen: "widen32 0x7fc00000 = f64NaN"
  by (simp add: widen32_def f64NaN_def Let_def)

lemma f64NaN_isNan [simp]: "f64IsNan f64NaN"
  by (simp add: f64IsNan_def f64Exp_def f64Frac_def f64NaN_def)

lemma decodeI32_eq:
  assumes "0 \<le> i" "i < 2 ^ 32"
  shows "decodeI32AsFloat i = VFlt (if f32IsNan (nat i) then f64NaN else widen32 (nat i))"
proof -
  have "nat i < 2 ^ 32" using assms by (simp add: nat_less_iff)
  then show ?thesis
    using assms narrow_widen(2) [of "nat i"] canonical_widen
    by (simp add: decodeI32AsFloat_def canonicalizeNan32_def coreF32ReinterpretI32_def js_isNaN_def
        CANONICAL_FLOAT32_NAN_def)
qed

lemma encode_decode_32:
  assumes "0 \<le> i" "i < 2 ^ 32"
  shows "encodeFloatAsI32 (decodeI32AsFloat i) = (if f32IsNan (nat i) then CANONICAL_FLOAT32_NAN else i)"
proof -
  have "nat i < 2 ^ 32" using assms by (simp add: nat_less_iff)
  then show ?thesis
    using assms narrow_widen [of "nat i"]
    by (simp add: decodeI32_eq encodeFloatAsI32_def js_isNaN_def coreI32ReinterpretF32_def js_f64_def)
qed

lemma decodeI64_eq:
  "decodeI64AsFloat i = VFlt (if f64IsNan (word_of_int i) then f64NaN else word_of_int i)"
  by (simp add: decodeI64AsFloat_def canonicalizeNan64_def coreF64ReinterpretI64_def js_isNaN_def
      CANONICAL_FLOAT64_NAN_def f64NaN_def)

lemma encode_decode_64:
  assumes "0 \<le> i" "i < 2 ^ 64"
  shows "encodeFloatAsI64 (decodeI64AsFloat i) =
    (if f64IsNan (word_of_int i) then CANONICAL_FLOAT64_NAN else i)"
  using assms
  by (simp add: decodeI64_eq encodeFloatAsI64_def js_isNaN_def coreI64ReinterpretF64_def js_f64_def
      uint_word_of_int)

lemma encodeFloatAsI64_bounds: "0 \<le> encodeFloatAsI64 f" "encodeFloatAsI64 f < 2 ^ 64"
  using uint_lt2p [of "js_f64 f"]
  by (simp_all add: encodeFloatAsI64_def coreI64ReinterpretF64_def CANONICAL_FLOAT64_NAN_def)

lemma narrow32_bound: "narrow32 w < 2 ^ 32"
proof -
  have "f64Sign w < 2"
    unfolding f64Sign_def by (rule less_mult_imp_div_less) (use unsigned_less [of w] in simp)
  moreover have "roundBits 23 (-149) 255 (f64Mant w) (f64Pow w) \<le> 255 * 2 ^ 23"
    by (simp add: roundBits_def Let_def)
  then have "(if f64Exp w = 2047 then (if f64Frac w = 0 then 255 * 2 ^ 23 else 0x7fc00000)
      else roundBits 23 (-149) 255 (f64Mant w) (f64Pow w)) \<le> 0x7fc00000"
    by simp
  ultimately show ?thesis unfolding narrow32_def by simp
qed

lemma encodeFloatAsI32_bounds: "0 \<le> encodeFloatAsI32 f" "encodeFloatAsI32 f < 2 ^ 32"
  using narrow32_bound [of "js_f64 f"]
  by (simp_all add: encodeFloatAsI32_def coreI32ReinterpretF32_def CANONICAL_FLOAT32_NAN_def)

section \<open>Truncation to an integer\<close>

text \<open>\<open>ToInt32\<close> and \<open>ToUint32\<close> truncate a double towards zero; an infinity or a NaN gives 0.\<close>

definition f64Trunc :: "64 word \<Rightarrow> int" where
  "f64Trunc w =
     (if f64Exp w = 2047 then 0
      else let m = f64Mant w; e = f64Pow w; sg = (if f64Sign w = 1 then -1 else 1) in
        if 0 \<le> e then sg * int m * 2 ^ nat e else sg * int (m div 2 ^ nat (- e)))"

section \<open>Properties\<close>

text \<open>A float lane or memory cell that is decoded and encoded again keeps its bits, for both
  widths, except that every NaN becomes the canonical NaN.\<close>

lemma float_bits_roundtrip:
  assumes "0 \<le> i" "i < 2 ^ 32" "0 \<le> j" "j < 2 ^ 64"
  shows "encodeFloatAsI32 (decodeI32AsFloat i) = (if f32IsNan (nat i) then CANONICAL_FLOAT32_NAN else i) \<and>
    encodeFloatAsI64 (decodeI64AsFloat j) = (if f64IsNan (word_of_int j) then CANONICAL_FLOAT64_NAN else j)"
  using encode_decode_32 [OF assms(1,2)] encode_decode_64 [OF assms(3,4)] by simp

lemma float_bits_roundtrip_witness:
  "encodeFloatAsI32 (decodeI32AsFloat 1) = 1 \<and> encodeFloatAsI64 (decodeI64AsFloat 5) = 5"
  using float_bits_roundtrip [of 1 5]
  by (simp add: f32IsNan_def f64IsNan_def f64Exp_def)

end
