(* ===== verification/Memory.thy ===== *)
theory Memory
  imports Heap Layout Floats
begin

text \<open>
  The lift/lower context (\<open>runtime/src/cabi/context.ts\<close>) and linear-memory access
  (\<open>runtime/src/cabi/memory.ts\<close>).  A memory is named by its address in the heap, so every
  access sees the current contents and length, also after a guest call grew it.  Addresses
  and lengths are natural numbers; the code keeps them below 2 ^ 53 and asserts so.
  \<open>realloc\<close> is guest code: a parameter that may change the whole heap.
\<close>

section \<open>Contexts\<close>

text \<open>
  \<open>mBase\<close> is the \<open>byteOffset\<close> of the view in its buffer.  \<open>platformLE\<close> is the constant
  \<open>PLATFORM_LITTLE_ENDIAN\<close> of \<open>bulk_lists.ts\<close>, a property of the engine.
\<close>

record MemRef =
  memId :: nat
  addrType :: PtrType
  mBase :: nat

record LiftOptions =
  stringEncoding :: StringEncoding
  memory :: "MemRef option"

record 's LiftLowerOptions = LiftOptions +
  realloc :: "(nat \<Rightarrow> nat \<Rightarrow> nat \<Rightarrow> nat \<Rightarrow> ('s, nat) sm) option"

record 's CanonicalOptions = "'s LiftLowerOptions" +
  postReturn :: "('s, unit) sm option"
  isAsync :: bool
  callback :: bool

datatype BorrowScope = SubtaskScope nat | TaskScope nat

record 's Context =
  opts :: "'s LiftLowerOptions"
  inst :: "nat option"
  borrowScope :: "BorrowScope option"
  platformLE :: bool

definition requireMemory :: "'z LiftOptions_scheme \<Rightarrow> MemRef result" where
  "requireMemory op =
     (case memory op of
        None \<Rightarrow> Err (AssertionError ''canonical option `memory` required'')
      | Some m \<Rightarrow> Ok m)"

definition reallocate :: "'s Context \<Rightarrow> nat \<Rightarrow> nat \<Rightarrow> nat \<Rightarrow> nat \<Rightarrow> ('s, nat) sm" where
  "reallocate cx old oldByteLength al newByteLength =
     (case realloc (opts cx) of
        None \<Rightarrow> throwM (Trap ''realloc required but not provided'')
      | Some f \<Rightarrow> f old oldByteLength al newByteLength)"

definition allocate :: "'s Context \<Rightarrow> nat \<Rightarrow> nat \<Rightarrow> ('s, nat) sm" where
  "allocate cx al byteLength = reallocate cx 0 0 al byteLength"

section \<open>Bytes\<close>

definition splice :: "nat \<Rightarrow> 'b list \<Rightarrow> 'b list \<Rightarrow> 'b list" where
  "splice p bs m = take p m @ bs @ drop (p + length bs) m"

definition slice :: "nat \<Rightarrow> nat \<Rightarrow> 'b list \<Rightarrow> 'b list" where
  "slice p n m = take n (drop p m)"

definition leValue :: "8 word list \<Rightarrow> int" where
  "leValue bs = horner_sum uint 256 bs"

fun leEncode :: "nat \<Rightarrow> int \<Rightarrow> 8 word list" where
  "leEncode 0 v = []"
| "leEncode (Suc n) v = word_of_int v # leEncode n (v div 256)"

definition memBytes :: "MemRef \<Rightarrow> 'g heap_scheme \<Rightarrow> 8 word list" where
  "memBytes m h = mems h (memId m)"

definition memLen :: "MemRef \<Rightarrow> 'g heap_scheme \<Rightarrow> nat" where
  "memLen m h = length (memBytes m h)"

definition setMem :: "MemRef \<Rightarrow> 8 word list \<Rightarrow> 'g heap_scheme \<Rightarrow> 'g heap_scheme" where
  "setMem m bs h = h\<lparr>mems := (mems h)(memId m := bs)\<rparr>"

definition memPtrSize :: "MemRef \<Rightarrow> nat" where
  "memPtrSize m = ptrSize (addrType m)"

section \<open>The access functions\<close>

text \<open>
  \<open>asIndex\<close> leaves the value as it is once the assertion holds.  Integer loads return the
  integer; widths 1, 2 and 4 are a Number and width 8 a BigInt at the callers.
\<close>

definition MAX_SAFE_INTEGER :: int where "MAX_SAFE_INTEGER = 2 ^ 53 - 1"

definition asIndex :: "JsVal \<Rightarrow> nat result" where
  "asIndex v =
     (case v of
        VBig i \<Rightarrow> bindR (assertR (0 \<le> i \<and> i \<le> MAX_SAFE_INTEGER) ''index overflow'') (\<lambda>_. Ok (nat i))
      | _ \<Rightarrow> (case js_int v of
            Some i \<Rightarrow> bindR (assertR (\<bar>i\<bar> \<le> MAX_SAFE_INTEGER \<and> 0 \<le> i) ''index not a safe integer'')
                        (\<lambda>_. Ok (nat i))
          | None \<Rightarrow> Err (AssertionError ''index not a safe integer'')))"

definition loadIntU :: "MemRef \<Rightarrow> nat \<Rightarrow> nat \<Rightarrow> ('g heap_scheme, int) sm" where
  "loadIntU m ptr n =
     bindM (getsM (memLen m)) (\<lambda>len.
     bindM (assertM (ptr + n \<le> len) ''load out of bounds'') (\<lambda>_.
     getsM (\<lambda>h. leValue (slice ptr n (memBytes m h)))))"

definition toSigned :: "nat \<Rightarrow> int \<Rightarrow> int" where
  "toSigned n v = (if v \<ge> 2 ^ (8 * n - 1) then v - 2 ^ (8 * n) else v)"

definition loadIntS :: "MemRef \<Rightarrow> nat \<Rightarrow> nat \<Rightarrow> ('g heap_scheme, int) sm" where
  "loadIntS m ptr n =
     bindM (getsM (memLen m)) (\<lambda>len.
     bindM (assertM (ptr + n \<le> len) ''load out of bounds'') (\<lambda>_.
     getsM (\<lambda>h. toSigned n (leValue (slice ptr n (memBytes m h))))))"

definition loadPtr :: "MemRef \<Rightarrow> nat \<Rightarrow> ('g heap_scheme, int) sm" where
  "loadPtr m ptr = (if memPtrSize m = 4 then loadIntU m ptr 4 else loadIntU m ptr 8)"

definition bigintFitsIn64 :: "int \<Rightarrow> bool \<Rightarrow> bool" where
  "bigintFitsIn64 v sgnd =
     (if sgnd then v \<ge> - (2 ^ 63) \<and> v < 2 ^ 63 else v \<ge> 0 \<and> v < 2 ^ 64)"

definition numberFitsInWidth :: "int \<Rightarrow> nat \<Rightarrow> bool \<Rightarrow> bool" where
  "numberFitsInWidth v nbytes sgnd =
     (let bits = nbytes * 8 in
      if sgnd then v \<ge> - (2 ^ (bits - 1)) \<and> v \<le> 2 ^ (bits - 1) - 1
      else v \<ge> 0 \<and> v \<le> 2 ^ bits - 1)"

definition storeInt :: "MemRef \<Rightarrow> JsVal \<Rightarrow> nat \<Rightarrow> nat \<Rightarrow> bool \<Rightarrow> ('g heap_scheme, unit) sm" where
  "storeInt m v ptr n sgnd =
     bindM (getsM (memLen m)) (\<lambda>len.
     bindM (assertM (ptr + n \<le> len) ''store out of bounds'') (\<lambda>_.
     if n = 8 then
       (case v of
          VBig i \<Rightarrow>
            bindM (assertM (bigintFitsIn64 i sgnd) ''int store: value out of range'') (\<lambda>_.
            modifyM (\<lambda>h. setMem m (splice ptr (leEncode 8 i) (memBytes m h)) h))
        | _ \<Rightarrow> throwM (AssertionError ''64-bit store requires bigint''))
     else
       (case js_int v of
          None \<Rightarrow> throwM (AssertionError ''int store'')
        | Some i \<Rightarrow>
            bindM (assertM (numberFitsInWidth i n sgnd) ''int store: value out of range'') (\<lambda>_.
            modifyM (\<lambda>h. setMem m (splice ptr (leEncode n i) (memBytes m h)) h)))))"

definition storePtr :: "MemRef \<Rightarrow> nat \<Rightarrow> nat \<Rightarrow> ('g heap_scheme, unit) sm" where
  "storePtr m v ptr =
     (if memPtrSize m = 4 then storeInt m (VNum (int v)) ptr 4 False
      else storeInt m (VBig (int v)) ptr 8 False)"

definition bytesOf :: "MemRef \<Rightarrow> nat \<Rightarrow> nat \<Rightarrow> ('g heap_scheme, 8 word list) sm" where
  "bytesOf m ptr n =
     bindM (getsM (memLen m)) (\<lambda>len.
     bindM (assertM (ptr + n \<le> len) ''range OOB'') (\<lambda>_.
     getsM (\<lambda>h. slice ptr n (memBytes m h))))"

definition writeBytes :: "MemRef \<Rightarrow> nat \<Rightarrow> 8 word list \<Rightarrow> ('g heap_scheme, unit) sm" where
  "writeBytes m ptr src =
     bindM (getsM (memLen m)) (\<lambda>len.
     bindM (assertM (ptr + length src \<le> len) ''write OOB'') (\<lambda>_.
     modifyM (\<lambda>h. setMem m (splice ptr src (memBytes m h)) h)))"

definition trapIfRangeExceedsMemory ::
  "MemRef \<Rightarrow> int \<Rightarrow> int \<Rightarrow> string \<Rightarrow> ('g heap_scheme, unit) sm" where
  "trapIfRangeExceedsMemory m ptr byteLength what =
     bindM (getsM (memLen m)) (\<lambda>len. trapIfM (ptr + byteLength > int len) what)"

section \<open>The byte store\<close>

text \<open>What the integer and value codecs rely on: a write is read back and leaves the rest alone.\<close>

locale byte_store =
  fixes rd :: "nat \<Rightarrow> nat \<Rightarrow> 'm \<Rightarrow> 8 word list"
    and wr :: "nat \<Rightarrow> 8 word list \<Rightarrow> 'm \<Rightarrow> 'm"
    and sz :: "'m \<Rightarrow> nat"
  assumes size_wr: "p + length bs \<le> sz m \<Longrightarrow> sz (wr p bs m) = sz m"
    and rd_wr_same: "p + length bs \<le> sz m \<Longrightarrow> rd p (length bs) (wr p bs m) = bs"
    and rd_wr_other: "p + length bs \<le> sz m \<Longrightarrow> q + n \<le> sz m \<Longrightarrow> q + n \<le> p \<or> p + length bs \<le> q \<Longrightarrow>
          rd q n (wr p bs m) = rd q n m"
begin

lemma rd_wr_wr:
  assumes "p + length bs \<le> sz m" "q + length cs \<le> sz m" "p + length bs \<le> q \<or> q + length cs \<le> p"
  shows "rd p (length bs) (wr q cs (wr p bs m)) = bs"
  using assms rd_wr_other [of q cs "wr p bs m" p "length bs"] rd_wr_same [of p bs m] size_wr [of p bs m]
  by auto

end

lemma length_splice [simp]: "p + length bs \<le> length m \<Longrightarrow> length (splice p bs m) = length m"
  by (simp add: splice_def)

lemma nth_splice:
  assumes "p + length bs \<le> length m" "i < length m"
  shows "splice p bs m ! i = (if p \<le> i \<and> i < p + length bs then bs ! (i - p) else m ! i)"
  using assms by (auto simp: splice_def nth_append)

lemma length_slice [simp]: "p + n \<le> length m \<Longrightarrow> length (slice p n m) = n"
  by (simp add: slice_def)

lemma nth_slice: "p + n \<le> length m \<Longrightarrow> i < n \<Longrightarrow> slice p n m ! i = m ! (p + i)"
  by (simp add: slice_def)

interpretation lm: byte_store slice splice length
proof unfold_locales
  fix p q n and bs m :: "8 word list"
  assume a: "p + length bs \<le> length m"
  then show "length (splice p bs m) = length m" by simp
  show "slice p (length bs) (splice p bs m) = bs"
    using a by (simp add: slice_def splice_def)
  show "slice q n (splice p bs m) = slice q n m"
    if "q + n \<le> length m" "q + n \<le> p \<or> p + length bs \<le> q"
    using a that by (intro nth_equalityI) (auto simp: nth_slice nth_splice)
qed

section \<open>Integers in memory\<close>

lemma length_leEncode [simp]: "length (leEncode n v) = n"
  by (induction n arbitrary: v) auto

lemma leValue_leEncode: "leValue (leEncode n v) = v mod 256 ^ n"
proof (induction n arbitrary: v)
  case 0
  show ?case by (simp add: leValue_def)
next
  case (Suc n)
  have "v mod (256 * 256 ^ n) = 256 * (v div 256 mod 256 ^ n) + v mod 256"
    by (rule zmod_zmult2_eq) simp
  then show ?case using Suc
    by (simp add: leValue_def uint_word_of_int algebra_simps)
qed

lemma pow256: "(256::int) ^ n = 2 ^ (8 * n)"
  by (simp add: power_mult)

lemma leValue_bounds: "0 \<le> leValue bs" "leValue bs < 256 ^ length bs"
proof (induction bs)
  case (Cons b bs)
  have "uint b < 256" using uint_lt2p [of b] by simp
  { case 1 then show ?case using Cons by (simp add: leValue_def) }
  { case 2
    have "horner_sum uint 256 bs + 1 \<le> 256 ^ length bs" using Cons(2) by (simp add: leValue_def)
    then have "256 * (horner_sum uint 256 bs + 1) \<le> 256 * 256 ^ length bs" by (rule mult_left_mono) simp
    with \<open>uint b < 256\<close> show ?case by (simp add: leValue_def) }
qed (simp_all add: leValue_def)

lemma toSigned_mod:
  assumes "0 < n" "- (2 ^ (8 * n - 1)) \<le> v" "v < 2 ^ (8 * n - 1)"
  shows "toSigned n (v mod 2 ^ (8 * n)) = v"
proof -
  have p: "(2::int) ^ (8 * n) = 2 * 2 ^ (8 * n - 1)"
    using assms(1) by (simp flip: power_Suc)
  show ?thesis
  proof (cases "0 \<le> v")
    case True
    then have "v mod 2 ^ (8 * n) = v" using assms(3) p by simp
    then show ?thesis using assms(3) by (simp add: toSigned_def)
  next
    case False
    have "v mod 2 ^ (8 * n) = (v + 2 ^ (8 * n)) mod 2 ^ (8 * n)" by simp
    also have "\<dots> = v + 2 ^ (8 * n)" using False assms(2) p by (intro mod_pos_pos_trivial) auto
    finally show ?thesis using assms(2) p by (simp add: toSigned_def)
  qed
qed

lemma setMem_simps [simp]:
  "memBytes m (setMem m bs h) = bs"
  "memLen m (setMem m bs h) = length bs"
  "setMem m bs (setMem m cs h) = setMem m bs h"
  "setMem m (memBytes m h) h = h"
  by (simp_all add: memBytes_def memLen_def setMem_def)

text \<open>The value an integer lane of \<open>n\<close> bytes holds, as the Number or BigInt of that width.\<close>

definition jsInt :: "nat \<Rightarrow> int \<Rightarrow> JsVal" where
  "jsInt n v = (if n = 8 then VBig v else VNum v)"

definition fitsWidth :: "nat \<Rightarrow> bool \<Rightarrow> int \<Rightarrow> bool" where
  "fitsWidth n sgnd v =
     (if sgnd then - (2 ^ (8 * n - 1)) \<le> v \<and> v < 2 ^ (8 * n - 1) else 0 \<le> v \<and> v < 2 ^ (8 * n))"

lemma storeInt_run:
  assumes "ptr + n \<le> memLen m h" "fitsWidth n sgnd v" "n \<in> {1, 2, 4, 8}"
  shows "storeInt m (jsInt n v) ptr n sgnd h =
    (Inr (), setMem m (splice ptr (leEncode n v) (memBytes m h)) h)"
  using assms
  by (auto simp: storeInt_def run_simps jsInt_def js_int_def bigintFitsIn64_def numberFitsInWidth_def
      fitsWidth_def Let_def split: if_splits)

lemma loadIntU_run:
  "ptr + n \<le> memLen m h \<Longrightarrow> loadIntU m ptr n h = (Inr (leValue (slice ptr n (memBytes m h))), h)"
  by (simp add: loadIntU_def run_simps)

lemma loadIntS_run:
  "ptr + n \<le> memLen m h \<Longrightarrow>
   loadIntS m ptr n h = (Inr (toSigned n (leValue (slice ptr n (memBytes m h)))), h)"
  by (simp add: loadIntS_def run_simps)

lemma leValue_fits:
  assumes "slice ptr n bs = leEncode n v" "fitsWidth n False v"
  shows "leValue (slice ptr n bs) = v"
  using assms by (simp add: leValue_leEncode pow256 fitsWidth_def)

lemma leValue_fits_signed:
  assumes "slice ptr n bs = leEncode n v" "fitsWidth n True v" "0 < n"
  shows "toSigned n (leValue (slice ptr n bs)) = v"
  using assms by (simp add: leValue_leEncode pow256 fitsWidth_def toSigned_mod)

section \<open>Properties\<close>

text \<open>An in-bounds integer store either writes or changes nothing: a value that fits its width
  and signedness is written, is loaded back, and every disjoint range keeps its bytes; any other
  value fails the assertion with the memory untouched, never wrapping.\<close>

lemma storeInt_loadInt:
  assumes "n \<in> {1, 2, 4, 8}" "ptr + n \<le> memLen m h"
  shows "if fitsWidth n sg v then
     (\<exists>h'. storeInt m (jsInt n v) ptr n sg h = (Inr (), h') \<and>
        (if sg then loadIntS m ptr n h' else loadIntU m ptr n h') = (Inr v, h') \<and>
        memLen m h' = memLen m h \<and>
        (\<forall>q k. q + k \<le> memLen m h \<and> (q + k \<le> ptr \<or> ptr + n \<le> q) \<longrightarrow>
           slice q k (memBytes m h') = slice q k (memBytes m h)))
   else storeInt m (jsInt n v) ptr n sg h = (Inl (AssertionError ''int store: value out of range''), h)"
proof (cases "fitsWidth n sg v")
  case True
  let ?bs = "splice ptr (leEncode n v) (memBytes m h)"
  have len: "ptr + length (leEncode n v) \<le> length (memBytes m h)"
    using assms(2) by (simp add: memLen_def)
  have st: "storeInt m (jsInt n v) ptr n sg h = (Inr (), setMem m ?bs h)"
    by (rule storeInt_run [OF assms(2) True assms(1)])
  have sz: "length ?bs = memLen m h" using lm.size_wr [OF len] by (simp add: memLen_def)
  have rd: "slice ptr n ?bs = leEncode n v" using lm.rd_wr_same [OF len] by simp
  have ld: "(if sg then loadIntS m ptr n (setMem m ?bs h) else loadIntU m ptr n (setMem m ?bs h)) =
      (Inr v, setMem m ?bs h)"
    using True assms sz leValue_fits [OF rd] leValue_fits_signed [OF rd]
    by (cases sg) (auto simp: loadIntU_run loadIntS_run)
  show ?thesis
    using st ld sz True lm.rd_wr_other [OF len] by (auto simp: memLen_def)
next
  case False
  then have "\<not> (if n = 8 then bigintFitsIn64 v sg else numberFitsInWidth v n sg)"
    using assms(1) by (auto simp: fitsWidth_def bigintFitsIn64_def numberFitsInWidth_def Let_def)
  then show ?thesis using False assms
    by (auto simp: storeInt_def run_simps jsInt_def js_int_def)
qed

lemma storeInt_loadInt_witness:
  "fitsWidth 2 True (-5) \<and>
   (\<exists>h'. storeInt \<lparr>memId = 0, addrType = I32, mBase = 0\<rparr> (VNum (-5)) 1 2 True
       (emptyHeap\<lparr>mems := \<lambda>_. [1, 2, 3, 4]\<rparr>) = (Inr (), h') \<and>
     loadIntS \<lparr>memId = 0, addrType = I32, mBase = 0\<rparr> 1 2 h' = (Inr (-5), h'))"
proof -
  have fits: "fitsWidth 2 True (-5)" by (simp add: fitsWidth_def)
  from storeInt_loadInt [of 2 1 "\<lparr>memId = 0, addrType = I32, mBase = 0\<rparr>"
      "emptyHeap\<lparr>mems := \<lambda>_. [1, 2, 3, 4]\<rparr>" True "-5"] fits
  show ?thesis by (auto simp: memLen_def memBytes_def jsInt_def)
qed

end
