(* ===== verification/Unicode.thy ===== *)
theory Unicode
  imports JsValues
begin

text \<open>
  The text codecs of the language that \<open>runtime/src/cabi/strings.ts\<close> and
  \<open>runtime/src/intrinsics/transcode.ts\<close> call: a JavaScript string is its list of UTF-16 code
  units; \<open>toWellFormed\<close> replaces lone surrogates by U+FFFD; \<open>TextEncoder\<close> and the fatal
  \<open>TextDecoder\<close>s for UTF-8 and UTF-16LE are written out with the ranges of the Encoding
  standard.
\<close>

section \<open>Code units and scalar values\<close>

definition isHigh :: "16 word \<Rightarrow> bool" where
  "isHigh u \<longleftrightarrow> 0xd800 \<le> unat u \<and> unat u \<le> 0xdbff"

definition isLow :: "16 word \<Rightarrow> bool" where
  "isLow u \<longleftrightarrow> 0xdc00 \<le> unat u \<and> unat u \<le> 0xdfff"

definition surrogatePair :: "16 word \<Rightarrow> 16 word \<Rightarrow> nat" where
  "surrogatePair u v = 0x10000 + (unat u - 0xd800) * 0x400 + (unat v - 0xdc00)"

definition isScalar :: "nat \<Rightarrow> bool" where
  "isScalar n \<longleftrightarrow> n < 0xd800 \<or> (0xe000 \<le> n \<and> n < 0x110000)"

text \<open>\<open>String.fromCodePoint\<close>.\<close>

definition unitsOf :: "nat \<Rightarrow> 16 word list" where
  "unitsOf n =
     (if n < 0x10000 then [word_of_nat n]
      else [word_of_nat (0xd800 + (n - 0x10000) div 0x400),
            word_of_nat (0xdc00 + (n - 0x10000) mod 0x400)])"

text \<open>The scalar values of a string, lone surrogates as U+FFFD (WebIDL \<open>USVString\<close>).\<close>

fun scalarValues :: "16 word list \<Rightarrow> nat list" where
  "scalarValues [] = []"
| "scalarValues [u] = [if isHigh u \<or> isLow u then 0xfffd else unat u]"
| "scalarValues (u # v # us) =
     (if isHigh u \<and> isLow v then surrogatePair u v # scalarValues us
      else (if isHigh u \<or> isLow u then 0xfffd else unat u) # scalarValues (v # us))"

definition unitsOfAll :: "nat list \<Rightarrow> 16 word list" where
  "unitsOfAll ns = concat (map unitsOf ns)"

definition toWellFormed :: "16 word list \<Rightarrow> 16 word list" where
  "toWellFormed s = unitsOfAll (scalarValues s)"

text \<open>A string without lone surrogates.\<close>

fun wellFormed :: "16 word list \<Rightarrow> bool" where
  "wellFormed [] = True"
| "wellFormed [u] = (\<not> isHigh u \<and> \<not> isLow u)"
| "wellFormed (u # v # us) =
     (if isHigh u then isLow v \<and> wellFormed us else \<not> isLow u \<and> wellFormed (v # us))"

section \<open>Bytes of code units\<close>

fun unitsToLe :: "16 word list \<Rightarrow> 8 word list" where
  "unitsToLe [] = []"
| "unitsToLe (u # us) = ucast u # ucast (drop_bit 8 u) # unitsToLe us"

fun leToUnits :: "8 word list \<Rightarrow> 16 word list" where
  "leToUnits (a # b # bs) = or (ucast a) (push_bit 8 (ucast b)) # leToUnits bs"
| "leToUnits _ = []"

text \<open>\<open>new TextDecoder("utf-16le", { fatal: true })\<close>: an odd byte or a lone surrogate is an error.\<close>

definition utf16Decode :: "8 word list \<Rightarrow> 16 word list option" where
  "utf16Decode bs =
     (if odd (length bs) \<or> \<not> wellFormed (leToUnits bs) then None else Some (leToUnits bs))"

definition latin1Units :: "8 word list \<Rightarrow> 16 word list" where
  "latin1Units bs = map ucast bs"

section \<open>UTF-8\<close>

definition utf8Bytes :: "nat \<Rightarrow> 8 word list" where
  "utf8Bytes n =
     (if n < 0x80 then [word_of_nat n]
      else if n < 0x800 then [word_of_nat (0xc0 + n div 0x40), word_of_nat (0x80 + n mod 0x40)]
      else if n < 0x10000 then
        [word_of_nat (0xe0 + n div 0x1000), word_of_nat (0x80 + n div 0x40 mod 0x40),
         word_of_nat (0x80 + n mod 0x40)]
      else
        [word_of_nat (0xf0 + n div 0x40000), word_of_nat (0x80 + n div 0x1000 mod 0x40),
         word_of_nat (0x80 + n div 0x40 mod 0x40), word_of_nat (0x80 + n mod 0x40)])"

definition utf8Encode :: "16 word list \<Rightarrow> 8 word list" where
  "utf8Encode s = concat (map utf8Bytes (scalarValues s))"

text \<open>
  The lead byte fixes the width and the range of the first continuation byte: no overlong
  form, no surrogate, nothing above U+10FFFF.
\<close>

definition isCont :: "nat \<Rightarrow> bool" where
  "isCont b \<longleftrightarrow> 0x80 \<le> b \<and> b \<le> 0xbf"

definition leadRange :: "nat \<Rightarrow> (nat \<times> nat \<times> nat) option" where
  "leadRange b =
     (if 0xc2 \<le> b \<and> b \<le> 0xdf then Some (2, 0x80, 0xbf)
      else if b = 0xe0 then Some (3, 0xa0, 0xbf)
      else if 0xe1 \<le> b \<and> b \<le> 0xec then Some (3, 0x80, 0xbf)
      else if b = 0xed then Some (3, 0x80, 0x9f)
      else if 0xee \<le> b \<and> b \<le> 0xef then Some (3, 0x80, 0xbf)
      else if b = 0xf0 then Some (4, 0x90, 0xbf)
      else if 0xf1 \<le> b \<and> b \<le> 0xf3 then Some (4, 0x80, 0xbf)
      else if b = 0xf4 then Some (4, 0x80, 0x8f)
      else None)"

fun utf8Scalars :: "8 word list \<Rightarrow> nat list option" where
  "utf8Scalars [] = Some []"
| "utf8Scalars (a # bs) =
     (if unat a < 0x80 then map_option (\<lambda>ns. unat a # ns) (utf8Scalars bs)
      else case leadRange (unat a) of
        None \<Rightarrow> None
      | Some (w, lo, hi) \<Rightarrow>
          (case bs of
             [] \<Rightarrow> None
           | b # bs1 \<Rightarrow>
               if \<not> (lo \<le> unat b \<and> unat b \<le> hi) then None
               else if w = 2 then
                 map_option (\<lambda>ns. ((unat a - 0xc0) * 0x40 + (unat b - 0x80)) # ns) (utf8Scalars bs1)
               else (case bs1 of
                  [] \<Rightarrow> None
                | c # bs2 \<Rightarrow>
                    if \<not> isCont (unat c) then None
                    else if w = 3 then
                      map_option (\<lambda>ns. ((unat a - 0xe0) * 0x1000 + (unat b - 0x80) * 0x40 + (unat c - 0x80)) # ns)
                        (utf8Scalars bs2)
                    else (case bs2 of
                       [] \<Rightarrow> None
                     | d # bs3 \<Rightarrow>
                         if \<not> isCont (unat d) then None
                         else map_option (\<lambda>ns. ((unat a - 0xf0) * 0x40000 + (unat b - 0x80) * 0x1000 +
                             (unat c - 0x80) * 0x40 + (unat d - 0x80)) # ns) (utf8Scalars bs3)))))"

declare utf8Scalars.simps(2) [simp del]

definition utf8Decode :: "8 word list \<Rightarrow> 16 word list option" where
  "utf8Decode bs = map_option unitsOfAll (utf8Scalars bs)"

section \<open>Round trips\<close>

lemma surrogatePair_scalar:
  assumes "isHigh u" "isLow v"
  shows "isScalar (surrogatePair u v)" and "0x10000 \<le> surrogatePair u v"
    and "surrogatePair u v < 0x110000"
  using assms unfolding isHigh_def isLow_def surrogatePair_def isScalar_def by linarith+

lemma scalarValues_scalar: "n \<in> set (scalarValues s) \<Longrightarrow> isScalar n"
proof (induction s rule: scalarValues.induct)
  case (2 u)
  have "unat u < 65536" using unsigned_less [of u] by simp
  with 2 show ?case by (auto simp: isScalar_def isHigh_def isLow_def split: if_splits)
next
  case (3 u v us)
  have "unat u < 65536" using unsigned_less [of u] by simp
  with 3 surrogatePair_scalar [of u v] show ?case
    by (auto simp: isScalar_def isHigh_def isLow_def split: if_splits)
qed simp

lemma unat16: "n < 0x10000 \<Longrightarrow> unat (word_of_nat n :: 16 word) = n"
  by (simp add: unat_of_nat)

lemma unat8: "n < 0x100 \<Longrightarrow> unat (word_of_nat n :: 8 word) = n"
  by (simp add: unat_of_nat)

lemma unitsOf_surrogatePair:
  assumes "isHigh u" "isLow v"
  shows "unitsOf (surrogatePair u v) = [u, v]"
proof -
  let ?x = "unat u - 0xd800" and ?y = "unat v - 0xdc00"
  have y: "?y < 0x400" and u: "0xd800 + ?x = unat u" and v: "0xdc00 + ?y = unat v"
    using assms by (auto simp: isHigh_def isLow_def)
  have s: "surrogatePair u v - 0x10000 = ?x * 0x400 + ?y" by (simp add: surrogatePair_def)
  have "(?x * 0x400 + ?y) div 0x400 = ?x" "(?x * 0x400 + ?y) mod 0x400 = ?y" using y by simp_all
  then have "0xd800 + (surrogatePair u v - 0x10000) div 0x400 = unat u"
    "0xdc00 + (surrogatePair u v - 0x10000) mod 0x400 = unat v"
    using s u v by simp_all
  moreover have "\<not> surrogatePair u v < 0x10000" using surrogatePair_scalar(2) [OF assms] by simp
  ultimately show ?thesis by (simp add: unitsOf_def)
qed

lemma unitsOf_pair:
  assumes "isScalar n" "0x10000 \<le> n"
  obtains u v where "unitsOf n = [u, v]" "isHigh u" "isLow v" "surrogatePair u v = n"
proof -
  define a where "a = (n - 0x10000) div 0x400"
  define b where "b = (n - 0x10000) mod 0x400"
  have n: "n = 0x10000 + a * 0x400 + b" using assms(2) by (simp add: a_def b_def)
  have "n < 0x110000" using assms by (auto simp: isScalar_def)
  then have a: "a < 0x400" using n by linarith
  have b: "b < 0x400" by (simp add: b_def)
  define u where "u = (word_of_nat (0xd800 + a) :: 16 word)"
  define v where "v = (word_of_nat (0xdc00 + b) :: 16 word)"
  have "unat u = 0xd800 + a" unfolding u_def by (rule unat16) (use a in linarith)
  moreover have "unat v = 0xdc00 + b" unfolding v_def by (rule unat16) (use b in linarith)
  ultimately have "isHigh u" "isLow v" "surrogatePair u v = n"
    using a b n by (simp_all add: isHigh_def isLow_def surrogatePair_def)
  moreover have "unitsOf n = [u, v]" using assms(2) by (simp add: unitsOf_def a_def b_def u_def v_def)
  ultimately show thesis using that by blast
qed

lemma unitsOf_single:
  assumes "isScalar n" "n < 0x10000"
  obtains u where "unitsOf n = [u]" "\<not> isHigh u" "\<not> isLow u" "unat u = n"
proof -
  have "unat (word_of_nat n :: 16 word) = n" by (rule unat16 [OF assms(2)])
  then show thesis using assms that [of "word_of_nat n"]
    by (auto simp: unitsOf_def isHigh_def isLow_def isScalar_def)
qed

lemma scalarValues_unitsOf_app:
  assumes "isScalar n"
  shows "scalarValues (unitsOf n @ s) = n # scalarValues s"
proof (cases "n < 0x10000")
  case True
  obtain u where "unitsOf n = [u]" "\<not> isHigh u" "\<not> isLow u" "unat u = n"
    by (rule unitsOf_single [OF assms True])
  then show ?thesis by (cases s) simp_all
next
  case False
  then have "0x10000 \<le> n" by simp
  then obtain u v where "unitsOf n = [u, v]" "isHigh u" "isLow v" "surrogatePair u v = n"
    by (rule unitsOf_pair [OF assms])
  then show ?thesis by simp
qed

lemma scalarValues_unitsOfAll: "\<forall>n \<in> set ns. isScalar n \<Longrightarrow> scalarValues (unitsOfAll ns) = ns"
  by (induction ns) (simp_all add: unitsOfAll_def scalarValues_unitsOf_app)

lemma wellFormed_unitsOf_app:
  assumes "isScalar n"
  shows "wellFormed (unitsOf n @ s) = wellFormed s"
proof (cases "n < 0x10000")
  case True
  obtain u where "unitsOf n = [u]" "\<not> isHigh u" "\<not> isLow u" "unat u = n"
    by (rule unitsOf_single [OF assms True])
  then show ?thesis by (cases s) simp_all
next
  case False
  then have "0x10000 \<le> n" by simp
  then obtain u v where "unitsOf n = [u, v]" "isHigh u" "isLow v" "surrogatePair u v = n"
    by (rule unitsOf_pair [OF assms])
  then show ?thesis by simp
qed

lemma wellFormed_toWellFormed: "wellFormed (toWellFormed s)"
proof -
  have "wellFormed (unitsOfAll ns)" if "\<forall>n \<in> set ns. isScalar n" for ns
    using that by (induction ns) (simp_all add: unitsOfAll_def wellFormed_unitsOf_app)
  then show ?thesis unfolding toWellFormed_def using scalarValues_scalar by blast
qed

lemma toWellFormed_id: "wellFormed s \<Longrightarrow> toWellFormed s = s"
proof (induction s rule: wellFormed.induct)
  case (2 u)
  then show ?case using unsigned_less [of u] by (simp add: toWellFormed_def unitsOfAll_def unitsOf_def)
next
  case (3 u v us)
  show ?case
  proof (cases "isHigh u")
    case True
    with 3 show ?thesis by (simp add: toWellFormed_def unitsOfAll_def unitsOf_surrogatePair)
  next
    case False
    with 3 show ?thesis using unsigned_less [of u]
      by (simp add: toWellFormed_def unitsOfAll_def unitsOf_def)
  qed
qed (simp add: toWellFormed_def unitsOfAll_def)

lemma length_toWellFormed [simp]: "length (toWellFormed s) = length s"
proof -
  have "length (unitsOf n) = (if n < 0x10000 then 1 else 2)" for n by (simp add: unitsOf_def)
  moreover have "unat u < 0x10000" for u :: "16 word" using unsigned_less [of u] by simp
  moreover have "\<not> surrogatePair u v < 0x10000" if "isHigh u" "isLow v" for u v
    using surrogatePair_scalar(2) [OF that] by simp
  ultimately show ?thesis
    unfolding toWellFormed_def unitsOfAll_def
    by (induction s rule: scalarValues.induct) auto
qed

lemma length_unitsToLe [simp]: "length (unitsToLe us) = 2 * length us"
  by (induction us) auto

lemma leToUnits_unitsToLe [simp]: "leToUnits (unitsToLe us) = us"
proof (induction us)
  case (Cons u us)
  have "or (ucast (ucast u :: 8 word)) (push_bit 8 (ucast (ucast (drop_bit 8 u) :: 8 word))) = u"
    by (rule bit_word_eqI) (auto simp: bit_or_iff bit_push_bit_iff bit_drop_bit_eq bit_ucast_iff)
  with Cons show ?case by simp
qed simp

lemma utf16_roundtrip: "utf16Decode (unitsToLe (toWellFormed s)) = Some (toWellFormed s)"
  by (simp add: utf16Decode_def wellFormed_toWellFormed)

section \<open>UTF-8 round trips\<close>

lemma utf8Bytes_1:
  assumes "n < 0x80"
  obtains a where "utf8Bytes n = [a]" "unat a = n"
  using assms that [of "word_of_nat n"] by (simp add: utf8Bytes_def unat8)

lemma utf8Bytes_2:
  assumes "0x80 \<le> n" "n < 0x800"
  obtains a b p q where "utf8Bytes n = [a, b]" "unat a = 0xc0 + p" "unat b = 0x80 + q"
    "n = p * 0x40 + q" "q < 0x40" "2 \<le> p" "p < 0x20"
proof -
  define p where "p = n div 0x40"
  define q where "q = n mod 0x40"
  have n: "n = p * 0x40 + q" "q < 0x40" by (simp_all add: p_def q_def)
  then have p: "2 \<le> p" "p < 0x20" using assms by linarith+
  have "unat (word_of_nat (0xc0 + p) :: 8 word) = 0xc0 + p" by (rule unat8) (use p in linarith)
  moreover have "unat (word_of_nat (0x80 + q) :: 8 word) = 0x80 + q" by (rule unat8) (use n in linarith)
  moreover have "utf8Bytes n = [word_of_nat (0xc0 + p), word_of_nat (0x80 + q)]"
    using assms by (simp add: utf8Bytes_def p_def q_def)
  ultimately show thesis using that n p by blast
qed

lemma utf8Bytes_3:
  assumes "0x800 \<le> n" "n < 0x10000" "isScalar n"
  obtains a b c p q r where "utf8Bytes n = [a, b, c]" "unat a = 0xe0 + p" "unat b = 0x80 + q"
    "unat c = 0x80 + r" "n = p * 0x1000 + q * 0x40 + r" "p < 0x10" "q < 0x40" "r < 0x40"
    "p = 0 \<longrightarrow> 0x20 \<le> q" "p = 13 \<longrightarrow> q < 0x20"
proof -
  define p where "p = n div 0x1000"
  define q where "q = n div 0x40 mod 0x40"
  define r where "r = n mod 0x40"
  have d: "n div 0x40 = p * 0x40 + q"
  proof -
    have "n div 0x40 div 0x40 = p" by (simp add: p_def flip: div_mult2_eq)
    then show ?thesis using div_mult_mod_eq [of "n div 0x40" "0x40"] by (simp add: q_def)
  qed
  have "n = n div 0x40 * 0x40 + r" unfolding r_def by (rule div_mult_mod_eq [symmetric])
  also have "\<dots> = p * 0x1000 + q * 0x40 + r" unfolding d by simp
  finally have n: "n = p * 0x1000 + q * 0x40 + r" .
  have qr: "q < 0x40" "r < 0x40" by (simp_all add: q_def r_def)
  have p: "p < 0x10" "p = 0 \<longrightarrow> 0x20 \<le> q" using n qr assms(1,2) by linarith+
  have p13: "p = 13 \<longrightarrow> q < 0x20" using n qr assms(3) unfolding isScalar_def by linarith
  have "unat (word_of_nat (0xe0 + p) :: 8 word) = 0xe0 + p" by (rule unat8) (use p in linarith)
  moreover have "unat (word_of_nat (0x80 + q) :: 8 word) = 0x80 + q" by (rule unat8) (use qr in linarith)
  moreover have "unat (word_of_nat (0x80 + r) :: 8 word) = 0x80 + r" by (rule unat8) (use qr in linarith)
  moreover have "utf8Bytes n = [word_of_nat (0xe0 + p), word_of_nat (0x80 + q), word_of_nat (0x80 + r)]"
    using assms by (simp add: utf8Bytes_def p_def q_def r_def)
  ultimately show thesis using that n p qr p13 by blast
qed

lemma utf8Bytes_4:
  assumes "0x10000 \<le> n" "n < 0x110000"
  obtains a b c d p q r s where "utf8Bytes n = [a, b, c, d]" "unat a = 0xf0 + p" "unat b = 0x80 + q"
    "unat c = 0x80 + r" "unat d = 0x80 + s" "n = p * 0x40000 + q * 0x1000 + r * 0x40 + s"
    "p < 5" "q < 0x40" "r < 0x40" "s < 0x40" "p = 0 \<longrightarrow> 0x10 \<le> q" "p = 4 \<longrightarrow> q < 0x10"
proof -
  define p where "p = n div 0x40000"
  define q where "q = n div 0x1000 mod 0x40"
  define r where "r = n div 0x40 mod 0x40"
  define s where "s = n mod 0x40"
  have d: "n div 0x1000 = p * 0x40 + q"
  proof -
    have "n div 0x1000 div 0x40 = p" by (simp add: p_def flip: div_mult2_eq)
    then show ?thesis using div_mult_mod_eq [of "n div 0x1000" "0x40"] by (simp add: q_def)
  qed
  have e: "n div 0x40 = n div 0x1000 * 0x40 + r"
  proof -
    have "n div 0x40 div 0x40 = n div 0x1000" by (simp flip: div_mult2_eq)
    then show ?thesis using div_mult_mod_eq [of "n div 0x40" "0x40"] by (simp add: r_def)
  qed
  have "n = n div 0x40 * 0x40 + s" unfolding s_def by (rule div_mult_mod_eq [symmetric])
  also have "\<dots> = p * 0x40000 + q * 0x1000 + r * 0x40 + s" unfolding e d by simp
  finally have n: "n = p * 0x40000 + q * 0x1000 + r * 0x40 + s" .
  have qr: "q < 0x40" "r < 0x40" "s < 0x40" by (simp_all add: q_def r_def s_def)
  have p: "p < 5" "p = 0 \<longrightarrow> 0x10 \<le> q" "p = 4 \<longrightarrow> q < 0x10" using n qr assms by linarith+
  have "unat (word_of_nat (0xf0 + p) :: 8 word) = 0xf0 + p" by (rule unat8) (use p in linarith)
  moreover have "unat (word_of_nat (0x80 + q) :: 8 word) = 0x80 + q" by (rule unat8) (use qr in linarith)
  moreover have "unat (word_of_nat (0x80 + r) :: 8 word) = 0x80 + r" by (rule unat8) (use qr in linarith)
  moreover have "unat (word_of_nat (0x80 + s) :: 8 word) = 0x80 + s" by (rule unat8) (use qr in linarith)
  moreover have "utf8Bytes n = [word_of_nat (0xf0 + p), word_of_nat (0x80 + q),
      word_of_nat (0x80 + r), word_of_nat (0x80 + s)]"
    using assms by (simp add: utf8Bytes_def p_def q_def r_def s_def)
  ultimately show thesis using that n p qr by blast
qed

lemma utf8Scalars_app:
  assumes "isScalar n"
  shows "utf8Scalars (utf8Bytes n @ bs) = map_option (\<lambda>ns. n # ns) (utf8Scalars bs)"
proof -
  have lt: "n < 0x110000" using assms by (auto simp: isScalar_def)
  consider "n < 0x80" | "0x80 \<le> n" "n < 0x800" | "0x800 \<le> n" "n < 0x10000" | "0x10000 \<le> n" by linarith
  then show ?thesis
  proof cases
    case 1
    obtain a where "utf8Bytes n = [a]" "unat a = n" by (rule utf8Bytes_1 [OF 1])
    then show ?thesis using 1 by (simp add: utf8Scalars.simps(2))
  next
    case 2
    obtain a b p q where b: "utf8Bytes n = [a, b]" "unat a = 0xc0 + p" "unat b = 0x80 + q"
      "n = p * 0x40 + q" "q < 0x40" "2 \<le> p" "p < 0x20"
      by (rule utf8Bytes_2 [OF 2])
    have "leadRange (0xc0 + p) = Some (2, 0x80, 0xbf)" using b(6,7) by (simp add: leadRange_def)
    then show ?thesis using b by (simp add: utf8Scalars.simps(2))
  next
    case 3
    obtain a b c p q r where b: "utf8Bytes n = [a, b, c]" "unat a = 0xe0 + p" "unat b = 0x80 + q"
      "unat c = 0x80 + r" "n = p * 0x1000 + q * 0x40 + r" "p < 0x10" "q < 0x40" "r < 0x40"
      "p = 0 \<longrightarrow> 0x20 \<le> q" "p = 13 \<longrightarrow> q < 0x20"
      by (rule utf8Bytes_3 [OF 3 assms])
    obtain lo hi where l: "leadRange (0xe0 + p) = Some (3, lo, hi)" "lo \<le> 0x80 + q" "0x80 + q \<le> hi"
    proof -
      consider "p = 0" | "1 \<le> p" "p \<le> 12" | "p = 13" | "14 \<le> p" by linarith
      then show thesis
        using that [of "0xa0" "0xbf"] that [of "0x80" "0xbf"] that [of "0x80" "0x9f"] b(6-10)
        by cases (simp_all add: leadRange_def)
    qed
    show ?thesis using b(1-8) l by (simp add: utf8Scalars.simps(2) isCont_def)
  next
    case 4
    obtain a b c d p q r s where b: "utf8Bytes n = [a, b, c, d]" "unat a = 0xf0 + p" "unat b = 0x80 + q"
      "unat c = 0x80 + r" "unat d = 0x80 + s" "n = p * 0x40000 + q * 0x1000 + r * 0x40 + s"
      "p < 5" "q < 0x40" "r < 0x40" "s < 0x40" "p = 0 \<longrightarrow> 0x10 \<le> q" "p = 4 \<longrightarrow> q < 0x10"
      by (rule utf8Bytes_4 [OF 4 lt])
    obtain lo hi where l: "leadRange (0xf0 + p) = Some (4, lo, hi)" "lo \<le> 0x80 + q" "0x80 + q \<le> hi"
    proof -
      consider "p = 0" | "1 \<le> p" "p \<le> 3" | "p = 4" using b(7) by linarith
      then show thesis
        using that [of "0x90" "0xbf"] that [of "0x80" "0xbf"] that [of "0x80" "0x8f"] b(7-12)
        by cases (simp_all add: leadRange_def)
    qed
    show ?thesis using b(1-10) l by (simp add: utf8Scalars.simps(2) isCont_def)
  qed
qed

lemma utf8_roundtrip: "utf8Decode (utf8Encode s) = Some (toWellFormed s)"
proof -
  have "utf8Scalars (concat (map utf8Bytes ns)) = Some ns" if "\<forall>n \<in> set ns. isScalar n" for ns
    using that by (induction ns) (simp_all add: utf8Scalars_app)
  then show ?thesis
    using scalarValues_scalar [of _ s] by (simp add: utf8Decode_def utf8Encode_def toWellFormed_def)
qed

end
