(* ===== verification/Strings.thy ===== *)
theory Strings
  imports Memory Unicode
begin

text \<open>
  Lifting and lowering of strings and chars (\<open>runtime/src/cabi/strings.ts\<close>).  The codecs
  are in \<open>Unicode\<close>.  \<open>mem.bytes[i] = b\<close> is \<open>setByte\<close>: a store outside the view is ignored, as
  in the language.  A \<open>tagged_code_units\<close> value is an integer.
\<close>

section \<open>Constants\<close>

definition REALLOC_I32_MAX :: nat where "REALLOC_I32_MAX = 2 ^ 32 - 1"
definition REALLOC_MISALIGNED :: string where "REALLOC_MISALIGNED = ''realloc return: result not aligned''"
definition REALLOC_OOB :: string where "REALLOC_OOB = ''realloc return: beyond end of memory''"
definition MAX_STRING_BYTE_LENGTH :: int where "MAX_STRING_BYTE_LENGTH = 2 ^ 28 - 1"

definition utf16TagBig :: "PtrType \<Rightarrow> int" where
  "utf16TagBig p = 2 ^ ((if p = I32 then 4 else 8) * 8 - 1)"

definition latin1Decode :: "8 word list \<Rightarrow> 16 word list" where
  "latin1Decode bytes = latin1Units bytes"

definition encodeUtf16Le :: "16 word list \<Rightarrow> 8 word list" where
  "encodeUtf16Le s = unitsToLe (toWellFormed s)"

definition needMemory :: "'g heap_scheme Context \<Rightarrow> ('g heap_scheme, MemRef) sm" where
  "needMemory cx = liftR (requireMemory (opts cx))"

section \<open>Loading\<close>

datatype Decoding = DecUtf8 | DecUtf16 | DecLatin1

fun utf8ContLoop :: "8 word list \<Rightarrow> nat \<Rightarrow> nat \<Rightarrow> nat \<Rightarrow> nat \<Rightarrow> nat \<Rightarrow> nat \<Rightarrow> string option" where
  "utf8ContLoop bytes i width loMin loMax k 0 = None"
| "utf8ContLoop bytes i width loMin loMax k (Suc todo) =
     (if i + k \<ge> length bytes then Some ''incomplete utf-8 byte sequence''
      else let c = unat (bytes ! (i + k));
               mn = (if k = 1 then loMin else 0x80);
               mx = (if k = 1 then loMax else 0xbf)
           in if c < mn \<or> c > mx then Some ''invalid utf-8''
              else utf8ContLoop bytes i width loMin loMax (Suc k) todo)"

text \<open>The \<open>while\<close> of \<open>utf8ErrorMessage\<close>; \<open>leadRange\<close> is its \<open>if\<close> chain on the lead byte.\<close>

function utf8ErrorLoop :: "8 word list \<Rightarrow> nat \<Rightarrow> string" where
  "utf8ErrorLoop bytes i =
     (if i \<ge> length bytes then ''invalid utf-8''
      else let b = unat (bytes ! i) in
        if b < 0x80 then utf8ErrorLoop bytes (i + 1)
        else case leadRange b of
          None \<Rightarrow> ''invalid utf-8''
        | Some (width, loMin, loMax) \<Rightarrow>
            (case utf8ContLoop bytes i width loMin loMax 1 (width - 1) of
               Some msg \<Rightarrow> msg
             | None \<Rightarrow> utf8ErrorLoop bytes (i + max 1 width)))"
  by pat_completeness auto

termination
  by (relation "measure (\<lambda>(bytes, i). length bytes - i)") auto

declare utf8ErrorLoop.simps [simp del]

definition utf8ErrorMessage :: "8 word list \<Rightarrow> string" where
  "utf8ErrorMessage bytes = utf8ErrorLoop bytes 0"

definition decodeBytes :: "Decoding \<Rightarrow> 8 word list \<Rightarrow> 16 word list result" where
  "decodeBytes enc bytes =
     (case enc of
        DecUtf8 \<Rightarrow> (case utf8Decode bytes of
            Some s \<Rightarrow> Ok s | None \<Rightarrow> Err (Trap (utf8ErrorMessage bytes)))
      | DecUtf16 \<Rightarrow> (case utf16Decode bytes of
            Some s \<Rightarrow> Ok s | None \<Rightarrow> Err (Trap ''invalid string encoding''))
      | DecLatin1 \<Rightarrow> Ok (latin1Decode bytes))"

text \<open>The \<open>switch\<close> of \<open>loadStringFromRange\<close>: alignment, byte length and encoding.\<close>

definition stringShape :: "StringEncoding \<Rightarrow> PtrType \<Rightarrow> int \<Rightarrow> nat \<times> int \<times> Decoding" where
  "stringShape enc p units =
     (case enc of
        Utf8 \<Rightarrow> (1, units, DecUtf8)
      | Utf16 \<Rightarrow> (2, 2 * units, DecUtf16)
      | Latin1Utf16 \<Rightarrow>
          if and units (utf16TagBig p) \<noteq> 0 then (2, 2 * xor units (utf16TagBig p), DecUtf16)
          else (2, units, DecLatin1))"

definition loadStringFromRange ::
  "'g heap_scheme Context \<Rightarrow> int \<Rightarrow> int \<Rightarrow> ('g heap_scheme, 16 word list) sm" where
  "loadStringFromRange cx ptr taggedCodeUnits =
     bindM (needMemory cx) (\<lambda>mem.
     case stringShape (stringEncoding (opts cx)) (addrType mem) taggedCodeUnits of
       (al, byteLength, enc) \<Rightarrow>
         bindM (trapIfM (byteLength > MAX_STRING_BYTE_LENGTH) ''string too long'') (\<lambda>_.
         bindM (trapIfM (ptr mod int al \<noteq> 0) ''misaligned string pointer'') (\<lambda>_.
         bindM (trapIfRangeExceedsMemory mem ptr byteLength
                  ''string pointer/length out of bounds of memory'') (\<lambda>_.
         bindM (assertM (ptr \<ge> 0 \<and> byteLength \<ge> 0) ''range OOB'') (\<lambda>_.
         bindM (bytesOf mem (nat ptr) (nat byteLength)) (\<lambda>bytes.
         liftR (decodeBytes enc bytes)))))))"

definition loadString :: "'g heap_scheme Context \<Rightarrow> nat \<Rightarrow> ('g heap_scheme, 16 word list) sm" where
  "loadString cx ptr =
     bindM (needMemory cx) (\<lambda>mem.
     bindM (loadPtr mem ptr) (\<lambda>begin.
     bindM (loadPtr mem (ptr + memPtrSize mem)) (\<lambda>taggedCodeUnits.
     loadStringFromRange cx begin taggedCodeUnits)))"

section \<open>Storing\<close>

definition setByte :: "MemRef \<Rightarrow> nat \<Rightarrow> 8 word \<Rightarrow> ('g heap_scheme, unit) sm" where
  "setByte m p b = modifyM (\<lambda>h. setMem m ((memBytes m h)[p := b]) h)"

definition checkRealloc :: "MemRef \<Rightarrow> nat \<Rightarrow> nat \<Rightarrow> nat \<Rightarrow> ('g heap_scheme, unit) sm" where
  "checkRealloc mem ptr al sz =
     bindM (trapIfM (ptr \<noteq> alignTo ptr al) REALLOC_MISALIGNED) (\<lambda>_.
     trapIfRangeExceedsMemory mem (int ptr) (int sz) REALLOC_OOB)"

definition storeStringCopyUtf16 ::
  "'g heap_scheme Context \<Rightarrow> 16 word list \<Rightarrow> nat \<Rightarrow> ('g heap_scheme, nat \<times> int) sm" where
  "storeStringCopyUtf16 cx src srcCodeUnits =
     bindM (needMemory cx) (\<lambda>mem.
     bindM (assertM (2 * srcCodeUnits \<le> REALLOC_I32_MAX) ''internal assertion failed'') (\<lambda>_.
     bindM (allocate cx 2 (2 * srcCodeUnits)) (\<lambda>ptr.
     bindM (checkRealloc mem ptr 2 (2 * srcCodeUnits)) (\<lambda>_.
     bindM (assertM (2 * srcCodeUnits = length (encodeUtf16Le src)) ''internal assertion failed'') (\<lambda>_.
     bindM (writeBytes mem ptr (encodeUtf16Le src)) (\<lambda>_.
     returnM (ptr, int srcCodeUnits)))))))"

text \<open>The loop of \<open>storeStringToUtf8\<close>: \<open>i\<close> units are written, \<open>us\<close> is the rest of the source.\<close>

fun utf8StoreLoop ::
  "'g heap_scheme Context \<Rightarrow> MemRef \<Rightarrow> 16 word list \<Rightarrow> nat \<Rightarrow> nat \<Rightarrow> nat \<Rightarrow> nat \<Rightarrow> 16 word list \<Rightarrow>
     ('g heap_scheme, nat \<times> int) sm" where
  "utf8StoreLoop cx mem src srcCodeUnits worstCaseSize ptr i [] = returnM (ptr, int srcCodeUnits)"
| "utf8StoreLoop cx mem src srcCodeUnits worstCaseSize ptr i (cu # us) =
     (if unat cu < 0x80 then
        bindM (setByte mem (ptr + i) (ucast cu)) (\<lambda>_.
        utf8StoreLoop cx mem src srcCodeUnits worstCaseSize ptr (i + 1) us)
      else
        bindM (assertM (worstCaseSize \<le> REALLOC_I32_MAX) ''internal assertion failed'') (\<lambda>_.
        bindM (reallocate cx ptr srcCodeUnits 1 worstCaseSize) (\<lambda>ptr1.
        bindM (trapIfRangeExceedsMemory mem (int ptr1) (int worstCaseSize) REALLOC_OOB) (\<lambda>_.
        let encoded = utf8Encode src in
        bindM (writeBytes mem (ptr1 + i) (drop i encoded)) (\<lambda>_.
        if worstCaseSize > length encoded then
          bindM (reallocate cx ptr1 worstCaseSize 1 (length encoded)) (\<lambda>ptr2.
          bindM (trapIfRangeExceedsMemory mem (int ptr2) (int (length encoded)) REALLOC_OOB) (\<lambda>_.
          returnM (ptr2, int (length encoded))))
        else returnM (ptr1, int (length encoded)))))))"

definition storeStringToUtf8 ::
  "'g heap_scheme Context \<Rightarrow> 16 word list \<Rightarrow> nat \<Rightarrow> nat \<Rightarrow> ('g heap_scheme, nat \<times> int) sm" where
  "storeStringToUtf8 cx src srcCodeUnits worstCaseSize =
     bindM (needMemory cx) (\<lambda>mem.
     bindM (assertM (srcCodeUnits \<le> REALLOC_I32_MAX) ''internal assertion failed'') (\<lambda>_.
     bindM (allocate cx 1 srcCodeUnits) (\<lambda>ptr.
     bindM (trapIfRangeExceedsMemory mem (int ptr) (int srcCodeUnits) REALLOC_OOB) (\<lambda>_.
     utf8StoreLoop cx mem src srcCodeUnits worstCaseSize ptr 0 src))))"

definition storeUtf16ToUtf8 ::
  "'g heap_scheme Context \<Rightarrow> 16 word list \<Rightarrow> nat \<Rightarrow> ('g heap_scheme, nat \<times> int) sm" where
  "storeUtf16ToUtf8 cx src srcCodeUnits = storeStringToUtf8 cx src srcCodeUnits (srcCodeUnits * 3)"

text \<open>The inner loop that widens the \<open>j\<close> bytes written so far, from the last to the first.\<close>

fun widenLoop :: "MemRef \<Rightarrow> nat \<Rightarrow> nat \<Rightarrow> ('g heap_scheme, unit) sm" where
  "widenLoop mem ptr 0 = returnM ()"
| "widenLoop mem ptr (Suc j) =
     bindM (getsM (\<lambda>h. memBytes mem h ! (ptr + j))) (\<lambda>b.
     bindM (setByte mem (ptr + 2 * j) b) (\<lambda>_.
     bindM (setByte mem (ptr + 2 * j + 1) 0) (\<lambda>_.
     widenLoop mem ptr j)))"

fun latin1StoreLoop ::
  "'g heap_scheme Context \<Rightarrow> MemRef \<Rightarrow> 16 word list \<Rightarrow> nat \<Rightarrow> nat \<Rightarrow> nat \<Rightarrow> 16 word list \<Rightarrow>
     ('g heap_scheme, nat \<times> int) sm" where
  "latin1StoreLoop cx mem src srcCodeUnits ptr dstByteLength [] =
     (if dstByteLength < srcCodeUnits then
        bindM (reallocate cx ptr srcCodeUnits 2 dstByteLength) (\<lambda>ptr1.
        bindM (checkRealloc mem ptr1 2 dstByteLength) (\<lambda>_.
        returnM (ptr1, int dstByteLength)))
      else returnM (ptr, int dstByteLength))"
| "latin1StoreLoop cx mem src srcCodeUnits ptr dstByteLength (cu # us) =
     (if unat cu < 2 ^ 8 then
        bindM (setByte mem (ptr + dstByteLength) (ucast cu)) (\<lambda>_.
        latin1StoreLoop cx mem src srcCodeUnits ptr (dstByteLength + 1) us)
      else
        bindM (assertM (2 * srcCodeUnits \<le> REALLOC_I32_MAX) ''internal assertion failed'') (\<lambda>_.
        bindM (reallocate cx ptr srcCodeUnits 2 (2 * srcCodeUnits)) (\<lambda>ptr1.
        bindM (checkRealloc mem ptr1 2 (2 * srcCodeUnits)) (\<lambda>_.
        bindM (widenLoop mem ptr1 dstByteLength) (\<lambda>_.
        let encoded = encodeUtf16Le src;
            tagged = or (int (length encoded div 2)) (utf16TagBig (addrType mem)) in
        bindM (writeBytes mem (ptr1 + 2 * dstByteLength) (drop (2 * dstByteLength) encoded)) (\<lambda>_.
        if 2 * srcCodeUnits > length encoded then
          bindM (reallocate cx ptr1 (2 * srcCodeUnits) 2 (length encoded)) (\<lambda>ptr2.
          bindM (checkRealloc mem ptr2 2 (length encoded)) (\<lambda>_.
          returnM (ptr2, tagged)))
        else returnM (ptr1, tagged)))))))"

definition storeStringToLatin1OrUtf16 ::
  "'g heap_scheme Context \<Rightarrow> 16 word list \<Rightarrow> nat \<Rightarrow> ('g heap_scheme, nat \<times> int) sm" where
  "storeStringToLatin1OrUtf16 cx src srcCodeUnits =
     bindM (needMemory cx) (\<lambda>mem.
     bindM (assertM (srcCodeUnits \<le> REALLOC_I32_MAX) ''internal assertion failed'') (\<lambda>_.
     bindM (allocate cx 2 srcCodeUnits) (\<lambda>ptr.
     bindM (checkRealloc mem ptr 2 srcCodeUnits) (\<lambda>_.
     latin1StoreLoop cx mem (toWellFormed src) srcCodeUnits ptr 0 (toWellFormed src)))))"

definition storeStringIntoRange ::
  "'g heap_scheme Context \<Rightarrow> 16 word list \<Rightarrow> ('g heap_scheme, nat \<times> int) sm" where
  "storeStringIntoRange cx src =
     (case stringEncoding (opts cx) of
        Utf8 \<Rightarrow> storeUtf16ToUtf8 cx src (length src)
      | Utf16 \<Rightarrow> storeStringCopyUtf16 cx src (length src)
      | Latin1Utf16 \<Rightarrow> storeStringToLatin1OrUtf16 cx src (length src))"

definition storeString :: "'g heap_scheme Context \<Rightarrow> 16 word list \<Rightarrow> nat \<Rightarrow> ('g heap_scheme, unit) sm" where
  "storeString cx v ptr =
     bindM (needMemory cx) (\<lambda>mem.
     bindM (storeStringIntoRange cx v) (\<lambda>(begin, taggedCodeUnits).
     bindM (storeInt mem (if memPtrSize mem = 4 then VNum (int begin) else VBig (int begin))
              ptr (memPtrSize mem) False) (\<lambda>_.
     storeInt mem (if memPtrSize mem = 4 then VNum taggedCodeUnits else VBig taggedCodeUnits)
       (ptr + memPtrSize mem) (memPtrSize mem) False)))"

section \<open>Chars\<close>

definition convertI32ToChar :: "int \<Rightarrow> 16 word list result" where
  "convertI32ToChar i =
     bindR (assertR (i \<ge> 0) ''internal assertion failed'') (\<lambda>_.
     bindR (trapIfR (i \<ge> 0x110000) ''char out of range'') (\<lambda>_.
     bindR (trapIfR (0xd800 \<le> i \<and> i \<le> 0xdfff) ''char is a surrogate'') (\<lambda>_.
     Ok (unitsOf (nat i)))))"

text \<open>\<open>codePointAt(0)\<close>: a surrogate pair, or the first unit alone.\<close>

definition codePointAt0 :: "16 word list \<Rightarrow> nat option" where
  "codePointAt0 c =
     (case c of
        [] \<Rightarrow> None
      | u # [] \<Rightarrow> Some (unat u)
      | u # v # _ \<Rightarrow> Some (if isHigh u \<and> isLow v then surrogatePair u v else unat u))"

definition charToI32 :: "16 word list \<Rightarrow> nat result" where
  "charToI32 c =
     (case codePointAt0 c of
        None \<Rightarrow> Err (AssertionError ''empty char'')
      | Some i \<Rightarrow>
          bindR (assertR (length c = (if i > 0xffff then 2 else 1)) ''char must be one code point'') (\<lambda>_.
          bindR (assertR ((0 \<le> i \<and> i \<le> 0xd7ff) \<or> (0xe000 \<le> i \<and> i \<le> 0x10ffff))
                   ''char must be a Unicode scalar value'') (\<lambda>_.
          Ok i)))"

lemma charToI32_unitsOf: "isScalar n \<Longrightarrow> charToI32 (unitsOf n) = Inr n"
proof -
  assume s: "isScalar n"
  then have r: "n \<le> 0xd7ff \<or> (0xe000 \<le> n \<and> n \<le> 0x10ffff)" by (auto simp: isScalar_def)
  show ?thesis
  proof (cases "n < 0x10000")
    case True
    obtain u where "unitsOf n = [u]" "unat u = n" by (rule unitsOf_single [OF s True])
    then show ?thesis using True r by (simp add: charToI32_def codePointAt0_def)
  next
    case False
    then have "0x10000 \<le> n" by simp
    then obtain u v where "unitsOf n = [u, v]" "isHigh u" "isLow v" "surrogatePair u v = n"
      by (rule unitsOf_pair [OF s])
    then show ?thesis using False r by (simp add: charToI32_def codePointAt0_def)
  qed
qed

lemma charToI32_Inr:
  assumes "charToI32 c = Inr n"
  shows "isScalar n \<and> c = unitsOf n"
proof -
  from assms have cp: "codePointAt0 c = Some n" and len: "length c = (if n > 0xffff then 2 else 1)"
    and s: "isScalar n"
    by (auto simp: charToI32_def bindR_eq_Inr isScalar_def split: option.splits)
  show ?thesis
  proof (cases "n > 0xffff")
    case True
    then obtain u v where c: "c = [u, v]" using len by (auto simp: length_Suc_conv numeral_2_eq_2)
    have "unat u < 0x10000" using unsigned_less [of u] by simp
    then have p: "isHigh u" "isLow v" "n = surrogatePair u v"
      using cp True c by (auto simp: codePointAt0_def split: if_splits)
    then show ?thesis using s c unitsOf_surrogatePair [OF p(1,2)] by simp
  next
    case False
    then obtain u where c: "c = [u]" using len by (auto simp: length_Suc_conv)
    then have "n = unat u" using cp by (simp add: codePointAt0_def)
    then show ?thesis using s c False by (simp add: unitsOf_def)
  qed
qed

lemma convertI32ToChar_eq:
  "0 \<le> i \<Longrightarrow> convertI32ToChar i =
     (if i \<ge> 0x110000 then Inl (Trap ''char out of range'')
      else if 0xd800 \<le> i \<and> i \<le> 0xdfff then Inl (Trap ''char is a surrogate'')
      else Inr (unitsOf (nat i)))"
  by (simp add: convertI32ToChar_def run_simps)

lemma convertI32ToChar_scalar: "isScalar n \<Longrightarrow> convertI32ToChar (int n) = Inr (unitsOf n)"
  by (auto simp: convertI32ToChar_eq isScalar_def)

section \<open>Properties\<close>

text \<open>A char survives both ways: the core values that lift to a char are exactly the Unicode
  scalar values, lowering the lifted string gives the value back, and a string lowers as a
  char only when it is the encoding of one scalar value.\<close>

lemma char_roundtrip:
  assumes "0 \<le> i"
  shows "(\<forall>c. convertI32ToChar i = Inr c \<longrightarrow> isScalar (nat i) \<and> charToI32 c = Inr (nat i)) \<and>
    (isScalar (nat i) \<longrightarrow> (\<exists>c. convertI32ToChar i = Inr c)) \<and>
    (\<forall>c n. charToI32 c = Inr n \<longrightarrow> isScalar n \<and> convertI32ToChar (int n) = Inr c)"
proof (intro conjI allI impI)
  fix c assume "convertI32ToChar i = Inr c"
  then show s: "isScalar (nat i)" using assms
    by (auto simp: convertI32ToChar_eq isScalar_def split: if_splits)
  then show "charToI32 c = Inr (nat i)"
    using \<open>convertI32ToChar i = Inr c\<close> convertI32ToChar_scalar [OF s] assms charToI32_unitsOf by simp
next
  assume "isScalar (nat i)"
  then show "\<exists>c. convertI32ToChar i = Inr c" using convertI32ToChar_scalar [of "nat i"] assms by simp
next
  fix c n assume "charToI32 c = Inr n"
  from charToI32_Inr [OF this] convertI32ToChar_scalar [of n]
  show "isScalar n" "convertI32ToChar (int n) = Inr c" by simp_all
qed

lemma char_roundtrip_witness:
  "\<exists>c. convertI32ToChar 0x1f600 = Inr c"
  using char_roundtrip [of "0x1f600"] by (simp add: isScalar_def)

end
