(* ===== verification/Subtask.thy ===== *)
theory Subtask
  imports Heap
begin

text \<open>
  One in-progress call to an import (\<open>runtime/src/task/subtask.ts\<close>): its state, the handles
  lent to the callee, the delivery of its resolution and the packed result of an async
  lower.
\<close>

section \<open>The operations\<close>

definition newSubtask :: Subtask where
  "newSubtask = \<lparr>st_state = STARTING, cancellationRequested = False, flatResults = [], lenders = Some []\<rparr>"

definition updSubtask :: "nat \<Rightarrow> (Subtask \<Rightarrow> Subtask) \<Rightarrow> 'g heap_scheme \<Rightarrow> 'g heap_scheme" where
  "updSubtask s f h = h\<lparr>subtasks := (subtasks h)(s := f (subtasks h s))\<rparr>"

definition addLends :: "int \<Rightarrow> nat \<Rightarrow> 'g heap_scheme \<Rightarrow> 'g heap_scheme" where
  "addLends d r h =
     h\<lparr>resources := (resources h)(r := (resources h r)\<lparr>numLends := numLends (resources h r) + d\<rparr>)\<rparr>"

definition resolved :: "Subtask \<Rightarrow> bool" where
  "resolved s = (case st_state s of STARTING \<Rightarrow> False | STARTED \<Rightarrow> False | _ \<Rightarrow> True)"

definition resolveDelivered :: "nat \<Rightarrow> ('g heap_scheme, bool) sm" where
  "resolveDelivered s =
     bindM (getsM (\<lambda>h. subtasks h s)) (\<lambda>x.
     bindM (assertM (lenders x \<noteq> None \<or> resolved x) ''lenders released on an unresolved subtask'') (\<lambda>_.
     returnM (lenders x = None)))"

definition addLender :: "nat \<Rightarrow> nat \<Rightarrow> ('g heap_scheme, unit) sm" where
  "addLender s r =
     bindM (resolveDelivered s) (\<lambda>d.
     bindM (getsM (\<lambda>h. resolved (subtasks h s))) (\<lambda>res.
     bindM (assertM (\<not> d \<and> \<not> res) ''addLender on a resolved subtask'') (\<lambda>_.
     bindM (modifyM (addLends 1 r)) (\<lambda>_.
     modifyM (updSubtask s (\<lambda>x. x\<lparr>lenders := map_option (\<lambda>ls. ls @ [r]) (lenders x)\<rparr>))))))"

definition resolve :: "nat \<Rightarrow> SubtaskState \<Rightarrow> JsVal list \<Rightarrow> ('g heap_scheme, unit) sm" where
  "resolve s state results =
     bindM (assertM (state = RETURNED \<or> length results = 0)
       ''non-RETURNED subtask resolution carries results'') (\<lambda>_.
     bindM (getsM (\<lambda>h. resolved (subtasks h s))) (\<lambda>res.
     bindM (assertM (\<not> res) ''resolve on an already-resolved subtask'') (\<lambda>_.
     modifyM (updSubtask s (\<lambda>x. x\<lparr>st_state := state, flatResults := results\<rparr>)))))"

definition deliverResolve :: "nat \<Rightarrow> ('g heap_scheme, unit) sm" where
  "deliverResolve s =
     bindM (resolveDelivered s) (\<lambda>d.
     bindM (getsM (\<lambda>h. subtasks h s)) (\<lambda>x.
     bindM (assertM (\<not> d \<and> resolved x)
       ''deliverResolve on an unresolved or already-delivered subtask'') (\<lambda>_.
     bindM (modifyM (fold (addLends (-1)) (case lenders x of None \<Rightarrow> [] | Some ls \<Rightarrow> ls))) (\<lambda>_.
     modifyM (updSubtask s (\<lambda>y. y\<lparr>lenders := None\<rparr>))))))"

definition unwindLenders :: "nat \<Rightarrow> ('g heap_scheme, unit) sm" where
  "unwindLenders s =
     bindM (getsM (\<lambda>h. subtasks h s)) (\<lambda>x.
     bindM (if \<not> resolved x
            then resolve s (if st_state x = STARTING then CANCELLED_BEFORE_STARTED
                            else CANCELLED_BEFORE_RETURNED) []
            else returnM ()) (\<lambda>_.
     bindM (resolveDelivered s) (\<lambda>d.
     if \<not> d then deliverResolve s else returnM ())))"

definition subtaskDrop :: "nat \<Rightarrow> ('g heap_scheme, unit) sm" where
  "subtaskDrop s =
     bindM (resolveDelivered s) (\<lambda>d.
     bindM (trapIfM (\<not> d) ''cannot drop a subtask which has not yet resolved'') (\<lambda>_.
     waitableDrop s))"

definition setSubtaskPendingEvent :: "nat \<Rightarrow> nat \<Rightarrow> ('g heap_scheme, unit) sm" where
  "setSubtaskPendingEvent s i = setPendingEvent s (SubtaskEvent s i)"

text \<open>The body of the thunk: delivering the event is what releases the lenders.\<close>

definition subtaskEvent :: "nat \<Rightarrow> nat \<Rightarrow> ('g heap_scheme, EventTuple) sm" where
  "subtaskEvent s i =
     bindM (getsM (\<lambda>h. resolved (subtasks h s))) (\<lambda>res.
     bindM (if res then
              bindM (resolveDelivered s) (\<lambda>d. if \<not> d then deliverResolve s else returnM ())
            else returnM ()) (\<lambda>_.
     bindM (getsM (\<lambda>h. subtaskStateNum (st_state (subtasks h s)))) (\<lambda>n.
     returnM (EvSUBTASK, i, n))))"

definition packSubtaskResult :: "nat \<Rightarrow> nat \<Rightarrow> nat result" where
  "packSubtaskResult state subtaski =
     bindR (assertR (subtaski > 0 \<and> subtaski \<le> 2 ^ 28 - 1) ''subtask index out of packing range'') (\<lambda>_.
     bindR (assertR (state < 2 ^ 4) ''subtask state out of packing range'') (\<lambda>_.
     Ok (unat (or (word_of_nat state) (push_bit 4 (word_of_nat subtaski)) :: 32 word))))"

definition unpackSubtaskResult :: "nat \<Rightarrow> nat \<times> nat" where
  "unpackSubtaskResult packed =
     (unat (and (word_of_nat packed) 0xf :: 32 word), unat (drop_bit 4 (word_of_nat packed :: 32 word)))"

section \<open>Packing\<close>

lemma pack_arith:
  assumes "state < 16" "i < 2 ^ 28"
  shows "unat (or (word_of_nat state) (push_bit 4 (word_of_nat i)) :: 32 word) = state + 16 * i"
proof -
  let ?s = "word_of_nat state :: 32 word" and ?i = "push_bit 4 (word_of_nat i) :: 32 word"
  have "and ?s ?i = 0"
  proof (rule bit_word_eqI)
    fix n
    have "bit state n \<Longrightarrow> n < 4"
      using assms(1) bit_take_bit_iff [of 4 state n] take_bit_nat_eq_self [of state 4] by simp
    then show "bit (and ?s ?i) n \<longleftrightarrow> bit (0 :: 32 word) n"
      by (auto simp: bit_and_iff bit_push_bit_iff bit_of_nat_iff)
  qed
  then have "or ?s ?i = ?s + ?i" by (simp add: disjunctive_add_eq_or [symmetric])
  moreover have "unat ?s = state" using assms(1) by (simp add: unat_of_nat)
  moreover have "unat ?i = 16 * i"
    using assms(2) by (simp add: push_bit_eq_mult unat_word_ariths unat_of_nat)
  ultimately show ?thesis using assms
    by (simp add: unat_word_ariths)
qed

lemma pack_unpack:
  assumes "packSubtaskResult state i = Inr p"
  shows "unpackSubtaskResult p = (state, i)" and "p < 2 ^ 32"
proof -
  have b: "state < 16" "i < 2 ^ 28" "0 < i"
    using assms by (auto simp: packSubtaskResult_def bindR_eq_Inr)
  then have p: "p = state + 16 * i"
    using assms pack_arith [OF b(1,2)] by (simp add: packSubtaskResult_def)
  show lt: "p < 2 ^ 32" using p b by simp
  then have u: "unat (word_of_nat p :: 32 word) = p" by (simp add: unat_of_nat)
  have t: "and (word_of_nat p) 0xf = (take_bit 4 (word_of_nat p) :: 32 word)"
    by (simp add: take_bit_eq_mask mask_eq_exp_minus_1)
  have "unat (take_bit 4 (word_of_nat p) :: 32 word) = p mod 16"
    by (simp only: unsigned_take_bit_eq u) (simp add: take_bit_eq_mod)
  then have "unat (and (word_of_nat p) 0xf :: 32 word) = p mod 16" by (simp only: t)
  moreover have "unat (drop_bit 4 (word_of_nat p) :: 32 word) = p div 16"
    by (simp only: unsigned_drop_bit_eq u) (simp add: drop_bit_eq_div take_bit_nat_eq_self [OF lt])
  ultimately show "unpackSubtaskResult p = (state, i)"
    using b(1) by (simp add: unpackSubtaskResult_def p)
qed

section \<open>Running the operations\<close>

lemma resolveDelivered_run:
  "resolveDelivered s h =
     (if lenders (subtasks h s) \<noteq> None \<or> resolved (subtasks h s)
      then (Inr (lenders (subtasks h s) = None), h)
      else (Inl (AssertionError ''lenders released on an unresolved subtask''), h))"
  by (simp add: resolveDelivered_def run_simps)

lemma fold_addLends_resources:
  "resources (fold (addLends d) ls h) r =
     (resources h r)\<lparr>numLends := numLends (resources h r) + d * int (count_list ls r)\<rparr>"
  by (induction ls arbitrary: h) (auto simp: addLends_def algebra_simps)

lemma fold_addLends_frame [simp]:
  "subtasks (fold (addLends d) ls h) = subtasks h"
  "waitables (fold (addLends d) ls h) = waitables h"
  "handles (fold (addLends d) ls h) = handles h"
  by (induction ls arbitrary: h) (auto simp: addLends_def)

lemma deliverResolve_run:
  assumes "lenders (subtasks h s) = Some ls" "resolved (subtasks h s)"
  shows "deliverResolve s h = (Inr (), updSubtask s (\<lambda>y. y\<lparr>lenders := None\<rparr>) (fold (addLends (-1)) ls h))"
  using assms by (simp add: deliverResolve_def bindM_def resolveDelivered_run run_simps)

lemma deliverResolve_Inr:
  assumes "deliverResolve s h = (Inr (), h')"
  obtains ls where "lenders (subtasks h s) = Some ls" "resolved (subtasks h s)"
  using assms
  by (cases "lenders (subtasks h s)"; cases "resolved (subtasks h s)")
    (simp_all add: deliverResolve_def bindM_def resolveDelivered_run run_simps)

lemma addLender_run:
  "addLender s r h =
     (if lenders (subtasks h s) = None \<and> \<not> resolved (subtasks h s)
      then (Inl (AssertionError ''lenders released on an unresolved subtask''), h)
      else if lenders (subtasks h s) = None \<or> resolved (subtasks h s)
      then (Inl (AssertionError ''addLender on a resolved subtask''), h)
      else (Inr (), updSubtask s (\<lambda>x. x\<lparr>lenders := map_option (\<lambda>ls. ls @ [r]) (lenders x)\<rparr>)
                      (addLends 1 r h)))"
  by (cases "lenders (subtasks h s)"; cases "resolved (subtasks h s)")
    (simp_all add: addLender_def bindM_def resolveDelivered_run run_simps)

lemma unwindLenders_run:
  assumes "lenders (subtasks h s) = Some ls"
  obtains h' where "unwindLenders s h = (Inr (), h')" "resolved (subtasks h' s)"
    "lenders (subtasks h' s) = None" "\<forall>u. u \<noteq> s \<longrightarrow> subtasks h' u = subtasks h u"
    "\<forall>r. numLends (resources h' r) = numLends (resources h r) - int (count_list ls r)"
    "handles h' = handles h"
proof -
  define st where "st = (if resolved (subtasks h s) then st_state (subtasks h s)
    else if st_state (subtasks h s) = STARTING then CANCELLED_BEFORE_STARTED
    else CANCELLED_BEFORE_RETURNED)"
  define fr where "fr = (if resolved (subtasks h s) then flatResults (subtasks h s) else [])"
  define h1 where "h1 = (if resolved (subtasks h s) then h
    else updSubtask s (\<lambda>x. x\<lparr>st_state := st, flatResults := fr\<rparr>) h)"
  have h1: "lenders (subtasks h1 s) = Some ls" "resolved (subtasks h1 s)"
    "\<forall>u. u \<noteq> s \<longrightarrow> subtasks h1 u = subtasks h u" "resources h1 = resources h" "handles h1 = handles h"
    using assms by (auto simp: h1_def updSubtask_def resolved_def st_def)
  have "unwindLenders s h = deliverResolve s h1"
    using assms h1(1,2)
    by (auto simp: unwindLenders_def resolve_def run_simps bindM_def resolveDelivered_run h1_def st_def fr_def)
  then show thesis
    using that [of "updSubtask s (\<lambda>y. y\<lparr>lenders := None\<rparr>) (fold (addLends (-1)) ls h1)"] h1
    by (simp add: deliverResolve_run updSubtask_def fold_addLends_resources resolved_def)
qed

section \<open>The lending invariant\<close>

text \<open>
  Over a set of subtasks that contains every one with lent handles, a handle's \<open>numLends\<close>
  is the number of times it is lent.
\<close>

definition lentTo :: "'g heap_scheme \<Rightarrow> nat \<Rightarrow> nat \<Rightarrow> int" where
  "lentTo h r s = (case lenders (subtasks h s) of None \<Rightarrow> 0 | Some ls \<Rightarrow> int (count_list ls r))"

definition lend_inv :: "nat set \<Rightarrow> 'g heap_scheme \<Rightarrow> bool" where
  "lend_inv S h \<longleftrightarrow> finite S \<and> (\<forall>r. numLends (resources h r) = (\<Sum>s \<in> S. lentTo h r s))"

lemma lend_inv_change:
  assumes "lend_inv S h" "s \<in> S" "\<forall>u. u \<noteq> s \<longrightarrow> subtasks h' u = subtasks h u"
    "\<forall>r. numLends (resources h' r) - numLends (resources h r) = lentTo h' r s - lentTo h r s"
  shows "lend_inv S h'"
proof -
  have fin: "finite S" using assms(1) by (simp add: lend_inv_def)
  have "numLends (resources h' r) = (\<Sum>u \<in> S. lentTo h' r u)" for r
  proof -
    have "(\<Sum>u \<in> S. lentTo h' r u) = lentTo h' r s + (\<Sum>u \<in> S - {s}. lentTo h' r u)"
      using fin assms(2) by (rule sum.remove)
    also have "(\<Sum>u \<in> S - {s}. lentTo h' r u) = (\<Sum>u \<in> S - {s}. lentTo h r u)"
      using assms(3) by (intro sum.cong) (auto simp: lentTo_def)
    also have "lentTo h' r s + (\<Sum>u \<in> S - {s}. lentTo h r u) =
      lentTo h' r s - lentTo h r s + (\<Sum>u \<in> S. lentTo h r u)"
      using sum.remove [OF fin assms(2), of "lentTo h r"] by simp
    also have "(\<Sum>u \<in> S. lentTo h r u) = numLends (resources h r)"
      using assms(1) by (simp add: lend_inv_def)
    finally show ?thesis using assms(4) [rule_format, of r] by linarith
  qed
  with fin show ?thesis by (simp add: lend_inv_def)
qed

lemma addLender_lend_inv:
  assumes "lend_inv S h" "s \<in> S" "addLender s r h = (Inr (), h')"
  shows "lend_inv S h'"
proof (cases "lenders (subtasks h s)")
  case None
  with assms(3) show ?thesis by (simp add: addLender_run split: if_splits)
next
  case (Some ls)
  with assms(3)
  have h': "updSubtask s (\<lambda>x. x\<lparr>lenders := map_option (\<lambda>l. l @ [r]) (lenders x)\<rparr>) (addLends 1 r h) = h'"
    by (simp add: addLender_run split: if_splits)
  show ?thesis
    by (rule lend_inv_change [OF assms(1,2)])
      (simp_all add: h' [symmetric] updSubtask_def addLends_def lentTo_def Some)
qed

lemma deliverResolve_lend_inv:
  assumes "lend_inv S h" "s \<in> S" "deliverResolve s h = (Inr (), h')"
  shows "lend_inv S h'"
proof -
  from assms(3) obtain ls where ls: "lenders (subtasks h s) = Some ls" "resolved (subtasks h s)"
    by (rule deliverResolve_Inr)
  then have "h' = updSubtask s (\<lambda>y. y\<lparr>lenders := None\<rparr>) (fold (addLends (-1)) ls h)"
    using assms(3) by (simp add: deliverResolve_run)
  then show ?thesis
    by (intro lend_inv_change [OF assms(1,2)])
      (simp_all add: updSubtask_def lentTo_def ls fold_addLends_resources)
qed

lemma unwindLenders_lend_inv:
  assumes "lend_inv S h" "s \<in> S" "lenders (subtasks h s) = Some ls" "unwindLenders s h = (Inr (), h')"
  shows "lend_inv S h'"
proof -
  obtain k where k: "unwindLenders s h = (Inr (), k)" "lenders (subtasks k s) = None"
    "\<forall>u. u \<noteq> s \<longrightarrow> subtasks k u = subtasks h u"
    "\<forall>r. numLends (resources k r) = numLends (resources h r) - int (count_list ls r)"
    by (rule unwindLenders_run [OF assms(3)])
  then have "h' = k" using assms(4) by simp
  then show ?thesis
    using lend_inv_change [OF assms(1,2) k(3)] k(2,4) assms(3) by (simp add: lentTo_def)
qed

section \<open>Properties\<close>

text \<open>The packed status word of an async call fits 32 bits and unpacks to the state and the
  handle index it was made from.\<close>

lemma packSubtaskResult_roundtrip:
  assumes "packSubtaskResult state i = Inr p"
  shows "unpackSubtaskResult p = (state, i) \<and> p < 2 ^ 32"
  using pack_unpack [OF assms] by blast

lemma packSubtaskResult_roundtrip_witness:
  "unpackSubtaskResult 82 = (2, 5) \<and> (82::nat) < 2 ^ 32"
proof -
  have "packSubtaskResult 2 5 = Inr 82"
    using pack_arith [of 2 5] by (simp add: packSubtaskResult_def)
  then show ?thesis by (rule packSubtaskResult_roundtrip)
qed

text \<open>The lend count of every handle equals the number of times it is lent to subtasks, and
  lending, delivering a resolution and unwinding keep it so; a resolution is delivered once: after it
  the lenders are gone and a second delivery fails its assertion without changing anything.\<close>

lemma lending_balanced:
  assumes "lend_inv S h" "s \<in> S"
  shows "(addLender s r h = (Inr (), h1) \<longrightarrow> lend_inv S h1) \<and>
    (deliverResolve s h = (Inr (), h2) \<longrightarrow>
       lend_inv S h2 \<and> (\<exists>e. deliverResolve s h2 = (Inl (AssertionError e), h2))) \<and>
    (lenders (subtasks h s) \<noteq> None \<longrightarrow>
       (\<exists>h3. unwindLenders s h = (Inr (), h3) \<and> lend_inv S h3 \<and> resolved (subtasks h3 s) \<and>
          lenders (subtasks h3 s) = None))"
proof (intro conjI impI)
  show "lend_inv S h1" if "addLender s r h = (Inr (), h1)"
    by (rule addLender_lend_inv [OF assms that])
  assume d: "deliverResolve s h = (Inr (), h2)"
  show "lend_inv S h2" by (rule deliverResolve_lend_inv [OF assms d])
  from d obtain ls where "lenders (subtasks h s) = Some ls" "resolved (subtasks h s)"
    by (rule deliverResolve_Inr)
  then have "lenders (subtasks h2 s) = None \<and> resolved (subtasks h2 s)"
    using d by (auto simp: deliverResolve_run updSubtask_def resolved_def)
  then show "\<exists>e. deliverResolve s h2 = (Inl (AssertionError e), h2)"
    by (simp add: deliverResolve_def bindM_def resolveDelivered_run run_simps)
next
  assume "lenders (subtasks h s) \<noteq> None"
  then obtain ls where ls: "lenders (subtasks h s) = Some ls" by blast
  obtain k where k: "unwindLenders s h = (Inr (), k)" "resolved (subtasks k s)"
    "lenders (subtasks k s) = None"
    by (rule unwindLenders_run [OF ls])
  with unwindLenders_lend_inv [OF assms ls k(1)]
  show "\<exists>h3. unwindLenders s h = (Inr (), h3) \<and> lend_inv S h3 \<and> resolved (subtasks h3 s) \<and>
      lenders (subtasks h3 s) = None" by blast
qed

lemma lending_balanced_witness:
  "\<exists>h3. unwindLenders 7 emptyHeap = (Inr (), h3) \<and> lend_inv {7} h3 \<and> resolved (subtasks h3 7) \<and>
     lenders (subtasks h3 7) = None"
proof -
  have "lend_inv {7} emptyHeap" by (simp add: lend_inv_def lentTo_def)
  from lending_balanced [OF this] show ?thesis by simp
qed

end
