(* ===== verification/Handles.thy ===== *)
theory Handles
  imports Memory Subtask
begin

text \<open>
  Lifting and lowering of resource handles (\<open>runtime/src/cabi/handles.ts\<close>) and of the async
  value types (\<open>runtime/src/cabi/async_values.ts\<close>), \<open>resource.new\<close> and \<open>resource.rep\<close>.  The
  host hooks \<open>onLifted\<close> and \<open>onLowered\<close> of a shared object are those of a guest-created one:
  unset.  \<open>resource.drop\<close> is in \<open>Resources\<close>.
\<close>

section \<open>Resource handles\<close>

definition requireInst :: "'g heap_scheme Context \<Rightarrow> ('g heap_scheme, nat) sm" where
  "requireInst cx =
     (case inst cx of
        None \<Rightarrow> throwM (AssertionError ''context requires a component instance'')
      | Some i \<Rightarrow> returnM i)"

definition asResource :: "Entry \<Rightarrow> ('g heap_scheme, nat \<times> ResourceHandle) sm" where
  "asResource e =
     (case e of
        EResource r \<Rightarrow> bindM (getsM (\<lambda>h. resources h r)) (\<lambda>rh. returnM (r, rh))
      | _ \<Rightarrow> throwM (Trap ''not a resource handle''))"

definition newResource :: "ResourceHandle \<Rightarrow> ('g heap_scheme, nat) sm" where
  "newResource rh =
     bindM freshId (\<lambda>r.
     bindM (modifyM (\<lambda>h. h\<lparr>resources := (resources h)(r := rh)\<rparr>)) (\<lambda>_. returnM r))"

definition liftOwn :: "'g heap_scheme Context \<Rightarrow> nat \<Rightarrow> nat \<Rightarrow> ('g heap_scheme, JsVal) sm" where
  "liftOwn cx i rt =
     bindM (requireInst cx) (\<lambda>ins.
     bindM (onTable ins (tableRemove i)) (\<lambda>e.
     bindM (asResource e) (\<lambda>(r, rh).
     bindM (trapIfM (rh_rt rh \<noteq> rt) ''resource type mismatch'') (\<lambda>_.
     bindM (trapIfM (numLends rh \<noteq> 0) ''handle still lent out'') (\<lambda>_.
     bindM (trapIfM (\<not> rh_own rh) ''expected own handle'') (\<lambda>_.
     returnM (rh_rep rh)))))))"

definition liftBorrow :: "'g heap_scheme Context \<Rightarrow> nat \<Rightarrow> nat \<Rightarrow> ('g heap_scheme, JsVal) sm" where
  "liftBorrow cx i rt =
     (case borrowScope cx of
        Some (SubtaskScope s) \<Rightarrow>
          bindM (requireInst cx) (\<lambda>ins.
          bindM (handlesGet ins i) (\<lambda>e.
          bindM (asResource e) (\<lambda>(r, rh).
          bindM (trapIfM (rh_rt rh \<noteq> rt) ''resource type mismatch'') (\<lambda>_.
          bindM (addLender s r) (\<lambda>_. returnM (rh_rep rh))))))
      | _ \<Rightarrow> throwM (AssertionError ''lifting a borrow requires a subtask borrow scope''))"

definition lowerOwn :: "'g heap_scheme Context \<Rightarrow> JsVal \<Rightarrow> nat \<Rightarrow> ('g heap_scheme, nat) sm" where
  "lowerOwn cx rep rt =
     bindM (newResource \<lparr>rh_rt = rt, rh_rep = rep, rh_own = True, rh_scope = None, numLends = 0\<rparr>) (\<lambda>r.
     bindM (requireInst cx) (\<lambda>ins. onTable ins (tableAdd (EResource r))))"

text \<open>In the implementing instance itself a borrow is the bare representation.\<close>

definition lowerBorrow :: "'g heap_scheme Context \<Rightarrow> JsVal \<Rightarrow> nat \<Rightarrow> ('g heap_scheme, JsVal) sm" where
  "lowerBorrow cx rep rt =
     (case borrowScope cx of
        Some (TaskScope k) \<Rightarrow>
          bindM (getsM (\<lambda>h. rtImpl h rt)) (\<lambda>impl.
          if inst cx \<noteq> None \<and> inst cx = impl then returnM rep
          else
            bindM (newResource \<lparr>rh_rt = rt, rh_rep = rep, rh_own = False, rh_scope = Some k, numLends = 0\<rparr>) (\<lambda>r.
            bindM (modifyM (\<lambda>h. h\<lparr>taskBorrows := (taskBorrows h)(k := taskBorrows h k + 1)\<rparr>)) (\<lambda>_.
            bindM (requireInst cx) (\<lambda>ins.
            bindM (onTable ins (tableAdd (EResource r))) (\<lambda>i. returnM (VNum (int i)))))))
      | _ \<Rightarrow> throwM (AssertionError ''lowering a borrow requires a task borrow scope''))"

definition canonResourceNew :: "nat \<Rightarrow> nat \<Rightarrow> JsVal \<Rightarrow> ('g heap_scheme, nat) sm" where
  "canonResourceNew ins rt rep =
     bindM (getsM (\<lambda>h. mayLeave h ins)) (\<lambda>ml.
     bindM (trapIfM (\<not> ml) ''may_leave violation'') (\<lambda>_.
     bindM (newResource \<lparr>rh_rt = rt, rh_rep = rep, rh_own = True, rh_scope = None, numLends = 0\<rparr>) (\<lambda>r.
     onTable ins (tableAdd (EResource r)))))"

definition canonResourceRep :: "nat \<Rightarrow> nat \<Rightarrow> nat \<Rightarrow> ('g heap_scheme, JsVal) sm" where
  "canonResourceRep ins rt i =
     bindM (handlesGet ins i) (\<lambda>e.
     bindM (asResource e) (\<lambda>(r, rh).
     bindM (trapIfM (rh_rt rh \<noteq> rt) ''resource type mismatch'') (\<lambda>_.
     returnM (rh_rep rh))))"

section \<open>Async values\<close>

definition updShared :: "nat \<Rightarrow> (Shared \<Rightarrow> Shared) \<Rightarrow> 'g heap_scheme \<Rightarrow> 'g heap_scheme" where
  "updShared s f h = h\<lparr>shareds := (shareds h)(s := f (shareds h s))\<rparr>"

definition kindName :: "EndKind \<Rightarrow> string" where
  "kindName k = (case k of StreamKind \<Rightarrow> ''stream'' | FutureKind \<Rightarrow> ''future'')"

definition asEnd :: "Entry \<Rightarrow> EndKind \<Rightarrow> EndSide \<Rightarrow> string \<Rightarrow> ('g heap_scheme, nat \<times> CopyEnd) sm" where
  "asEnd e k side msg =
     (case e of
        EEnd n \<Rightarrow> bindM (getsM (\<lambda>h. ends h n)) (\<lambda>x.
          bindM (trapIfM (\<not> (ce_kind x = k \<and> ce_side x = side)) msg) (\<lambda>_. returnM (n, x)))
      | _ \<Rightarrow> throwM (Trap msg))"

definition liftAsyncValue ::
  "'g heap_scheme Context \<Rightarrow> nat \<Rightarrow> ValType \<Rightarrow> EndKind \<Rightarrow> ValType option \<Rightarrow> ('g heap_scheme, JsVal) sm" where
  "liftAsyncValue cx i t k elem =
     (let what = kindName k in
      bindM (assertM (\<not> containsBorrow (Some t)) (what @ '' may not contain a borrow'')) (\<lambda>_.
      case inst cx of
        None \<Rightarrow> throwM (AssertionError (what @ '' lift requires a component instance''))
      | Some ins \<Rightarrow>
          bindM (onTable ins (tableRemove i)) (\<lambda>e.
          bindM (asEnd e k Readable (what @ '' lift: handle is not a '' @ what @ '' end'')) (\<lambda>(n, x).
          bindM (getsM (\<lambda>h. shareds h (ce_shared x))) (\<lambda>sh.
          bindM (trapIfM (\<not> sameElemType (sh_t sh) elem) (what @ '' lift: element type mismatch'')) (\<lambda>_.
          bindM (trapIfM (ce_state x = DONE)
                   (if k = FutureKind then ''cannot lift future after previous read succeeded''
                    else ''cannot lift stream after being notified that the writable end dropped'')) (\<lambda>_.
          bindM (trapIfM (ce_state x \<noteq> IDLE) (''cannot remove busy '' @ what)) (\<lambda>_.
          bindM (getsM (inWaitableSet n)) (\<lambda>inws.
          bindM (trapIfM inws (''cannot lift '' @ what @ '' while it's in a waitable set'')) (\<lambda>_.
          bindM (getsM (\<lambda>h. instStore h ins)) (\<lambda>st.
          bindM (assertM (sh_boundStore sh = None \<or> st = None \<or> sh_boundStore sh = st)
                   (what @ '' crossed into a second store; multi-store is unsupported'')) (\<lambda>_.
          bindM (modifyM (updShared (ce_shared x)
                   (\<lambda>y. y\<lparr>sh_boundStore := (if sh_boundStore y = None then st else sh_boundStore y)\<rparr>))) (\<lambda>_.
          returnM (VShared (ce_shared x)))))))))))))))"

definition liftStream ::
  "'g heap_scheme Context \<Rightarrow> nat \<Rightarrow> ValType \<Rightarrow> ValType option \<Rightarrow> ('g heap_scheme, JsVal) sm" where
  "liftStream cx i t elem = liftAsyncValue cx i t StreamKind elem"

definition liftFuture ::
  "'g heap_scheme Context \<Rightarrow> nat \<Rightarrow> ValType \<Rightarrow> ValType option \<Rightarrow> ('g heap_scheme, JsVal) sm" where
  "liftFuture cx i t elem = liftAsyncValue cx i t FutureKind elem"

text \<open>\<open>new ReadableStreamEnd(v)\<close> and its siblings: an idle end and its waitable fields.\<close>

definition newEnd :: "EndKind \<Rightarrow> EndSide \<Rightarrow> nat \<Rightarrow> ('g heap_scheme, nat) sm" where
  "newEnd k side sh =
     bindM freshId (\<lambda>n.
     bindM (modifyM (\<lambda>h. h\<lparr>ends := (ends h)(n := \<lparr>ce_kind = k, ce_side = side, ce_state = IDLE, ce_shared = sh\<rparr>),
        waitables := (waitables h)(n := newWaitable)\<rparr>)) (\<lambda>_. returnM n))"

definition elementOf :: "ValType \<Rightarrow> ValType option" where
  "elementOf t = (case t of TStream e \<Rightarrow> e | TFuture e \<Rightarrow> e | TList e _ \<Rightarrow> Some e | _ \<Rightarrow> None)"

text \<open>\<open>lowerStream\<close> and \<open>lowerFuture\<close> are this function at their kind.\<close>

definition lowerShared ::
  "EndKind \<Rightarrow> 'g heap_scheme Context \<Rightarrow> JsVal \<Rightarrow> ValType \<Rightarrow> ('g heap_scheme, nat) sm" where
  "lowerShared k cx v t =
     (let what = kindName k; bad = AssertionError (''lower_'' @ what @ '' expects a shared '' @ what @ '' value'') in
      case v of
        VShared s \<Rightarrow>
          bindM (getsM (\<lambda>h. shareds h s)) (\<lambda>sh.
          if sh_kind sh \<noteq> k then throwM bad
          else
            bindM (assertM (\<not> containsBorrow (Some t)) (what @ '' may not contain a borrow'')) (\<lambda>_.
            bindM (assertM (sameElemType (sh_t sh) (elementOf t))
                     (what @ '' element type mismatch: host end carries '' @ fmtValType (sh_t sh) @
                      '', callee expects '' @ fmtValType (elementOf t))) (\<lambda>_.
            case inst cx of
              None \<Rightarrow> throwM (AssertionError (what @ '' lower requires a component instance''))
            | Some ins \<Rightarrow>
                bindM (getsM (\<lambda>h. instStore h ins)) (\<lambda>st.
                bindM (modifyM (updShared s
                         (\<lambda>y. y\<lparr>sh_boundStore := (if sh_boundStore y = None then st else sh_boundStore y)\<rparr>))) (\<lambda>_.
                bindM (newEnd k Readable s) (\<lambda>n.
                onTable ins (tableAdd (EEnd n))))))))
      | _ \<Rightarrow> throwM bad)"

definition lowerStream :: "'g heap_scheme Context \<Rightarrow> JsVal \<Rightarrow> ValType \<Rightarrow> ('g heap_scheme, nat) sm" where
  "lowerStream cx v t = lowerShared StreamKind cx v t"

definition lowerFuture :: "'g heap_scheme Context \<Rightarrow> JsVal \<Rightarrow> ValType \<Rightarrow> ('g heap_scheme, nat) sm" where
  "lowerFuture cx v t = lowerShared FutureKind cx v t"

definition errorContextTrapMessage :: "string \<Rightarrow> string" where
  "errorContextTrapMessage loc = loc @ '': handle is not an error-context''"

definition liftErrorContext :: "'g heap_scheme Context \<Rightarrow> nat \<Rightarrow> ('g heap_scheme, JsVal) sm" where
  "liftErrorContext cx i =
     (case inst cx of
        None \<Rightarrow> throwM (AssertionError ''error-context lift requires a component instance'')
      | Some ins \<Rightarrow> bindM (handlesGet ins i) (\<lambda>e.
          case e of
            EErrorContext c \<Rightarrow> returnM (VErrorContext c)
          | _ \<Rightarrow> throwM (Trap (errorContextTrapMessage ''error-context lift''))))"

definition lowerErrorContext :: "'g heap_scheme Context \<Rightarrow> JsVal \<Rightarrow> ('g heap_scheme, nat) sm" where
  "lowerErrorContext cx v =
     (case inst cx of
        None \<Rightarrow> throwM (AssertionError ''error-context lower requires a component instance'')
      | Some ins \<Rightarrow>
          onTable ins (tableAdd (case v of VErrorContext c \<Rightarrow> EErrorContext c | _ \<Rightarrow> EOther v)))"

text \<open>A context with a 32-bit memory in instance 0, for the examples.\<close>

definition cx0 :: "heap Context" where
  "cx0 = \<lparr>opts = \<lparr>stringEncoding = Utf8, memory = Some \<lparr>memId = 0, addrType = I32, mBase = 0\<rparr>, realloc = None\<rparr>,
     inst = Some 0, borrowScope = None, platformLE = True\<rparr>"

section \<open>Transfer of ownership\<close>

lemma onTable_run: "op (handles h i) = (r, t) \<Longrightarrow> onTable i op h = (r, h\<lparr>handles := (handles h)(i := t)\<rparr>)"
  by (simp add: onTable_def)

lemma newResource_run:
  "newResource rh h = (Inr (nextId h),
     h\<lparr>nextId := Suc (nextId h), resources := (resources h)(nextId h := rh)\<rparr>)"
  by (simp add: newResource_def freshId_def bindM_def run_simps)

lemma lowerOwn_Inr:
  assumes "inst cx = Some ins" "lowerOwn cx rep rt h = (Inr i, h1)"
  obtains t where "tableAdd (EResource (nextId h)) (handles h ins) = (Inr i, t)"
    "handles h1 = (handles h)(ins := t)"
    "resources h1 = (resources h)(nextId h := \<lparr>rh_rt = rt, rh_rep = rep, rh_own = True, rh_scope = None, numLends = 0\<rparr>)"
proof -
  let ?a = "tableAdd (EResource (nextId h)) (handles h ins)"
  obtain r t where a: "?a = (r, t)" by (cases ?a)
  from assms show thesis
    using that [of t] a
    by (cases r) (auto simp: lowerOwn_def bindM_run_Inr [OF newResource_run] requireInst_def run_simps onTable_def)
qed

lemma liftOwn_run:
  assumes "inst cx = Some ins" "tableRemove i (handles h ins) = (Inr (EResource r), t)"
    "rh_rt (resources h r) = rt" "numLends (resources h r) = 0" "rh_own (resources h r)"
  shows "liftOwn cx i rt h = (Inr (rh_rep (resources h r)), h\<lparr>handles := (handles h)(ins := t)\<rparr>)"
proof -
  have o: "onTable ins (tableRemove i) h = (Inr (EResource r), h\<lparr>handles := (handles h)(ins := t)\<rparr>)"
    using assms(2) by (simp add: onTable_def)
  show ?thesis using assms(1,3-5)
    by (simp add: liftOwn_def requireInst_def run_simps bindM_def o asResource_def)
qed

lemma tableRemove_gone:
  assumes "\<And>e. tableGet i t \<noteq> Inr e"
  shows "\<exists>msg. tableRemove i t = (Inl (Trap msg), t)"
proof -
  have "\<exists>msg. tableGet i t = Inl (Trap msg)"
    using assms by (cases "i < length (arr t)"; cases "arr t ! i") (auto simp: tableGet_def)
  then show ?thesis by (auto simp: tableRemove_def)
qed

lemma liftOwn_gone:
  assumes "inst cx = Some ins" "\<And>e. tableGet i (handles h ins) \<noteq> Inr e"
  shows "\<exists>msg. liftOwn cx i rt h = (Inl (Trap msg), h)"
proof -
  obtain msg where "tableRemove i (handles h ins) = (Inl (Trap msg), handles h ins)"
    using tableRemove_gone [of i "handles h ins"] assms(2) by blast
  then have o: "onTable ins (tableRemove i) h = (Inl (Trap msg), h)" by (simp add: onTable_def)
  show ?thesis using assms(1) by (simp add: liftOwn_def requireInst_def run_simps bindM_def o)
qed

lemma lowerShared_Inr:
  assumes "inst cx = Some ins" "lowerShared k cx v t h = (Inr i, h1)"
  obtains s tb where "v = VShared s" "sh_kind (shareds h s) = k" "\<not> containsBorrow (Some t)"
    "sameElemType (sh_t (shareds h s)) (elementOf t)"
    "tableAdd (EEnd (nextId h)) (handles h ins) = (Inr i, tb)" "handles h1 = (handles h)(ins := tb)"
    "ends h1 (nextId h) = \<lparr>ce_kind = k, ce_side = Readable, ce_state = IDLE, ce_shared = s\<rparr>"
    "wset (waitables h1 (nextId h)) = None" "instStore h1 = instStore h"
    "shareds h1 s = (shareds h s)\<lparr>sh_boundStore :=
       (if sh_boundStore (shareds h s) = None then instStore h ins else sh_boundStore (shareds h s))\<rparr>"
proof (cases v)
  case (VShared s)
  let ?a = "tableAdd (EEnd (nextId h)) (handles h ins)"
  obtain r tb where a: "?a = (r, tb)" by (cases ?a)
  have k: "sh_kind (shareds h s) = k"
    using assms VShared by (simp add: lowerShared_def Let_def run_simps split: if_splits)
  have g: "\<not> containsBorrow (Some t)" "sameElemType (sh_t (shareds h s)) (elementOf t)"
    using assms VShared k
    by (simp_all add: lowerShared_def Let_def run_simps split: if_splits)
  have r: "r = Inr i" and h1: "h1 = h\<lparr>
      shareds := (shareds h)(s := (shareds h s)\<lparr>sh_boundStore :=
        (if sh_boundStore (shareds h s) = None then instStore h ins else sh_boundStore (shareds h s))\<rparr>),
      nextId := Suc (nextId h),
      ends := (ends h)(nextId h := \<lparr>ce_kind = k, ce_side = Readable, ce_state = IDLE, ce_shared = s\<rparr>),
      waitables := (waitables h)(nextId h := newWaitable), handles := (handles h)(ins := tb)\<rparr>"
    using assms VShared k g a
    by (simp_all add: lowerShared_def Let_def run_simps newEnd_def freshId_def bindM_def updShared_def onTable_def)
  show thesis
    by (rule that [OF VShared k g a [unfolded r]]) (simp_all add: h1 newWaitable_def)
qed (use assms in \<open>simp_all add: lowerShared_def Let_def run_simps\<close>)

lemma liftAsyncValue_run:
  assumes "inst cx = Some ins" "tableRemove i (handles h ins) = (Inr (EEnd n), tb)"
    "ends h n = \<lparr>ce_kind = k, ce_side = Readable, ce_state = IDLE, ce_shared = s\<rparr>"
    "wset (waitables h n) = None" "\<not> containsBorrow (Some t)" "sameElemType (sh_t (shareds h s)) elem"
    "sh_boundStore (shareds h s) = None \<or> instStore h ins = None \<or>
     sh_boundStore (shareds h s) = instStore h ins"
  shows "\<exists>h'. liftAsyncValue cx i t k elem h = (Inr (VShared s), h') \<and> handles h' = (handles h)(ins := tb)"
proof -
  have o: "onTable ins (tableRemove i) h = (Inr (EEnd n), h\<lparr>handles := (handles h)(ins := tb)\<rparr>)"
    using assms(2) by (simp add: onTable_def)
  show ?thesis using assms(1,3-7)
    by (simp add: liftAsyncValue_def Let_def run_simps bindM_def o asEnd_def inWaitableSet_def updShared_def)
qed

section \<open>Properties\<close>

text \<open>Ownership is transferred exactly once: the handle that lowering an own value returns lifts to
  the same representation, after which the table holds what it held before and lifting the
  handle again traps without changing anything.\<close>

lemma own_transfer:
  assumes "inst cx = Some ins" "table_inv (handles h ins)" "lowerOwn cx rep rt h = (Inr i, h1)"
  shows "\<exists>h2 msg. liftOwn cx i rt h1 = (Inr rep, h2) \<and>
    (\<forall>j e. tableGet j (handles h2 ins) = Inr e \<longleftrightarrow> tableGet j (handles h ins) = Inr e) \<and>
    liftOwn cx i rt h2 = (Inl (Trap msg), h2)"
proof -
  obtain t where t: "tableAdd (EResource (nextId h)) (handles h ins) = (Inr i, t)"
    "handles h1 = (handles h)(ins := t)"
    "resources h1 = (resources h)(nextId h := \<lparr>rh_rt = rt, rh_rep = rep, rh_own = True, rh_scope = None, numLends = 0\<rparr>)"
    by (rule lowerOwn_Inr [OF assms(1,3)])
  obtain t2 where t2: "tableRemove i t = (Inr (EResource (nextId h)), t2)" "table_inv t2"
    "table.live t2 = table.live (handles h ins)"
    using table.add_remove_live [OF assms(2) t(1)] by blast
  define h2 where "h2 = h1\<lparr>handles := (handles h1)(ins := t2)\<rparr>"
  have l: "liftOwn cx i rt h1 = (Inr rep, h2)"
    using liftOwn_run [OF assms(1), of i h1 "nextId h" t2 rt] t t2(1) by (simp add: h2_def)
  have h2: "handles h2 ins = t2" by (simp add: h2_def)
  have live: "tableGet j t2 = Inr e \<longleftrightarrow> tableGet j (handles h ins) = Inr e" for j e
    using t2(3) by (auto simp: table.live_def set_eq_iff)
  have "tableGet i (handles h2 ins) \<noteq> Inr e" for e
    using live table.add_fresh [OF assms(2) t(1)] by (simp add: h2)
  then obtain msg where "liftOwn cx i rt h2 = (Inl (Trap msg), h2)"
    using liftOwn_gone [OF assms(1)] by blast
  with l live show ?thesis by (auto simp: h2)
qed

lemma own_transfer_witness:
  "\<exists>h1 h2. lowerOwn cx0 (VNum 42) 3 emptyHeap = (Inr 1, h1) \<and> liftOwn cx0 1 3 h1 = (Inr (VNum 42), h2)"
proof -
  have "\<exists>h1. lowerOwn cx0 (VNum 42) 3 emptyHeap = (Inr 1, h1)"
    by (simp add: lowerOwn_def bindM_run_Inr [OF newResource_run] requireInst_def run_simps onTable_def
        tableAdd_def emptyTable_def MAX_LENGTH_def cx0_def)
  then obtain h1 where h1: "lowerOwn cx0 (VNum 42) 3 emptyHeap = (Inr 1, h1)" by blast
  have "table_inv (handles emptyHeap 0)" by (simp add: table_inv_empty)
  from own_transfer [OF _ this h1] h1 show ?thesis by (auto simp: cx0_def)
qed

text \<open>Lifting a borrow leaves the handle where it is, adds the handle to the caller subtask's lenders
  exactly once and counts the lend; on an owned handle of another type, an index without a handle, or a
  resolved subtask it fails and lends nothing.\<close>

lemma liftBorrow_lends:
  assumes "inst cx = Some ins" "borrowScope cx = Some (SubtaskScope s)"
  shows "case liftBorrow cx i rt h of
      (Inl err, h') \<Rightarrow> h' = h
    | (Inr rep, h') \<Rightarrow> (\<exists>r ls. tableGet i (handles h ins) = Inr (EResource r) \<and> rh_rt (resources h r) = rt \<and>
        rep = rh_rep (resources h r) \<and> handles h' = handles h \<and>
        lenders (subtasks h s) = Some ls \<and> lenders (subtasks h' s) = Some (ls @ [r]) \<and>
        numLends (resources h' r) = numLends (resources h r) + 1)"
proof -
  have ex: "handlesGet ins i h = (tableGet i (handles h ins), h)" by (simp add: handlesGet_def)
  show ?thesis
  proof (cases "tableGet i (handles h ins)")
    case (Inl e)
    then show ?thesis using assms ex
      by (simp add: liftBorrow_def requireInst_def run_simps bindM_def)
  next
    case (Inr e)
    note ex = ex [unfolded Inr]
    show ?thesis
    proof (cases e)
      case (EResource r)
      note ex = ex [unfolded EResource]
      show ?thesis
      proof (cases "lenders (subtasks h s)")
        case None
        then show ?thesis using assms ex
          by (cases "resolved (subtasks h s)")
            (simp_all add: liftBorrow_def requireInst_def run_simps bindM_def asResource_def addLender_run)
      next
        case (Some ls)
        then show ?thesis using assms ex Inr EResource
          by (cases "resolved (subtasks h s)"; cases "rh_rt (resources h r) = rt")
            (simp_all add: liftBorrow_def requireInst_def run_simps bindM_def asResource_def addLender_run
              updSubtask_def addLends_def)
      qed
    qed (use assms ex in \<open>simp_all add: liftBorrow_def requireInst_def run_simps bindM_def asResource_def\<close>)
  qed
qed

lemma liftBorrow_lends_witness:
  "case liftBorrow (cx0\<lparr>borrowScope := Some (SubtaskScope 9)\<rparr>) 4 3 emptyHeap of
      (Inl err, h') \<Rightarrow> h' = emptyHeap
    | (Inr rep, h') \<Rightarrow> (\<exists>r ls. tableGet 4 (handles emptyHeap 0) = Inr (EResource r) \<and>
        rh_rt (resources emptyHeap r) = 3 \<and> rep = rh_rep (resources emptyHeap r) \<and>
        handles h' = handles emptyHeap \<and> lenders (subtasks emptyHeap 9) = Some ls \<and>
        lenders (subtasks h' 9) = Some (ls @ [r]) \<and>
        numLends (resources h' r) = numLends (resources emptyHeap r) + 1)"
  by (rule liftBorrow_lends) (simp_all add: cx0_def)

text \<open>A stream or future end is transferred by identity and only once: the handle that lowering a
  shared object returns lifts to that very object, the table is then what it was before, and
  lifting the handle again traps.\<close>

lemma async_value_transfer:
  assumes "inst cx = Some ins" "table_inv (handles h ins)" "lowerShared k cx (VShared s) t h = (Inr i, h1)"
    "instStore h ins = None \<or> sh_boundStore (shareds h s) \<in> {None, instStore h ins}"
  shows "\<exists>h2. liftAsyncValue cx i t k (elementOf t) h1 = (Inr (VShared s), h2) \<and>
    (\<forall>j e. tableGet j (handles h2 ins) = Inr e \<longleftrightarrow> tableGet j (handles h ins) = Inr e) \<and>
    (\<exists>msg h3. liftAsyncValue cx i t k (elementOf t) h2 = (Inl (Trap msg), h3))"
proof -
  obtain s' tb where t: "VShared s = VShared s'" "sh_kind (shareds h s') = k" "\<not> containsBorrow (Some t)"
    "sameElemType (sh_t (shareds h s')) (elementOf t)"
    "tableAdd (EEnd (nextId h)) (handles h ins) = (Inr i, tb)" "handles h1 = (handles h)(ins := tb)"
    "ends h1 (nextId h) = \<lparr>ce_kind = k, ce_side = Readable, ce_state = IDLE, ce_shared = s'\<rparr>"
    "wset (waitables h1 (nextId h)) = None" "instStore h1 = instStore h"
    "shareds h1 s' = (shareds h s')\<lparr>sh_boundStore :=
       (if sh_boundStore (shareds h s') = None then instStore h ins else sh_boundStore (shareds h s'))\<rparr>"
    by (rule lowerShared_Inr [OF assms(1,3)])
  have s: "s' = s" using t(1) by simp
  obtain t2 where t2: "tableRemove i tb = (Inr (EEnd (nextId h)), t2)" "table_inv t2"
    "table.live t2 = table.live (handles h ins)"
    using table.add_remove_live [OF assms(2) t(5)] by blast
  have "\<exists>h2. liftAsyncValue cx i t k (elementOf t) h1 = (Inr (VShared s), h2) \<and>
    handles h2 = (handles h1)(ins := t2)"
  proof (rule liftAsyncValue_run [OF assms(1)])
    show "tableRemove i (handles h1 ins) = (Inr (EEnd (nextId h)), t2)" using t(6) t2(1) by simp
    show "sh_boundStore (shareds h1 s) = None \<or> instStore h1 ins = None \<or>
      sh_boundStore (shareds h1 s) = instStore h1 ins"
      using assms(4) t(9,10) by (auto simp: s)
  qed (use t(3,4,7,8,10) in \<open>simp_all add: s\<close>)
  then obtain h2 where h2: "liftAsyncValue cx i t k (elementOf t) h1 = (Inr (VShared s), h2)"
    "handles h2 = (handles h1)(ins := t2)" by blast
  have live: "tableGet j t2 = Inr e \<longleftrightarrow> tableGet j (handles h ins) = Inr e" for j e
    using t2(3) by (auto simp: table.live_def set_eq_iff)
  then have "tableGet i t2 \<noteq> Inr e" for e using table.add_fresh [OF assms(2) t(5)] by simp
  then obtain msg where "tableRemove i t2 = (Inl (Trap msg), t2)"
    using tableRemove_gone [of i t2] by blast
  then have "\<exists>msg h3. liftAsyncValue cx i t k (elementOf t) h2 = (Inl (Trap msg), h3)"
    using assms(1) t(3) h2(2)
    by (simp add: liftAsyncValue_def Let_def run_simps bindM_def onTable_def)
  with h2 live show ?thesis by auto
qed

lemma async_value_transfer_witness:
  "\<exists>h1 h2. lowerShared StreamKind cx0 (VShared 5) (TStream None) emptyHeap = (Inr 1, h1) \<and>
     liftAsyncValue cx0 1 (TStream None) StreamKind None h1 = (Inr (VShared 5), h2)"
proof -
  have "\<exists>h1. lowerShared StreamKind cx0 (VShared 5) (TStream None) emptyHeap = (Inr 1, h1)"
    by (simp add: lowerShared_def Let_def run_simps newEnd_def freshId_def bindM_def onTable_def cx0_def
        tableAdd_def emptyTable_def MAX_LENGTH_def containsBorrow_def sameElemType_def elementOf_def
        updShared_def)
  then obtain h1 where h1: "lowerShared StreamKind cx0 (VShared 5) (TStream None) emptyHeap = (Inr 1, h1)"
    by blast
  have "table_inv (handles emptyHeap 0)" by (simp add: table_inv_empty)
  from async_value_transfer [OF _ this h1] h1 show ?thesis
    by (auto simp: cx0_def elementOf_def)
qed

end
