(* ===== verification/Load.thy ===== *)
theory Load
  imports Strings Handles
begin

text \<open>
  Loading component values from linear memory (\<open>runtime/src/cabi/load.ts\<close>) and the bulk
  path for lists of flat elements (the load half of \<open>runtime/src/cabi/bulk_lists.ts\<close>).  A typed
  array over the memory is read in the platform's byte order; \<open>viewOf\<close> refuses a big-endian
  platform, so its elements are little-endian.  A view past the end of the buffer is the
  \<open>RangeError\<close> its constructor throws.
\<close>

section \<open>Bulk loading\<close>

datatype BulkCtor = BoolBytes | IntArray nat bool | BigArray bool | FloatArray nat

text \<open>The constructor tables \<open>INT_CTORS\<close>, \<open>BIG_CTORS\<close> and \<open>FLOAT_CTORS\<close>: element size and signedness.\<close>

fun bulkCtor :: "ValType \<Rightarrow> BulkCtor option" where
  "bulkCtor (TPrim KBool) = Some BoolBytes"
| "bulkCtor (TPrim KS8) = Some (IntArray 1 True)"
| "bulkCtor (TPrim KU16) = Some (IntArray 2 False)"
| "bulkCtor (TPrim KS16) = Some (IntArray 2 True)"
| "bulkCtor (TPrim KU32) = Some (IntArray 4 False)"
| "bulkCtor (TPrim KS32) = Some (IntArray 4 True)"
| "bulkCtor (TPrim KU64) = Some (BigArray False)"
| "bulkCtor (TPrim KS64) = Some (BigArray True)"
| "bulkCtor (TPrim KF32) = Some (FloatArray 4)"
| "bulkCtor (TPrim KF64) = Some (FloatArray 8)"
| "bulkCtor _ = None"

definition isBulkListKind :: "ValType \<Rightarrow> bool" where
  "isBulkListKind d \<longleftrightarrow> bulkCtor d \<noteq> None"

definition viewOf :: "bool \<Rightarrow> MemRef \<Rightarrow> nat \<Rightarrow> nat \<Rightarrow> bool" where
  "viewOf ple mem ptr n \<longleftrightarrow> ple \<and> (mBase mem + ptr) mod n = 0"

definition viewElems :: "MemRef \<Rightarrow> nat \<Rightarrow> nat \<Rightarrow> nat \<Rightarrow> ('g heap_scheme, int list) sm" where
  "viewElems mem ptr n len =
     bindM (getsM (memLen mem)) (\<lambda>total.
     if ptr + len * n > total then throwM (JsError ''RangeError'')
     else getsM (\<lambda>h. map (\<lambda>i. leValue (slice (ptr + i * n) n (memBytes mem h))) [0..<len]))"

definition canonicalF64 :: "64 word \<Rightarrow> JsVal" where
  "canonicalF64 w = VFlt (if f64IsNan w then f64NaN else w)"

definition tryLoadNumericList ::
  "bool \<Rightarrow> MemRef \<Rightarrow> nat \<Rightarrow> nat \<Rightarrow> ValType \<Rightarrow> ('g heap_scheme, JsVal option) sm" where
  "tryLoadNumericList ple mem ptr len d =
     (case bulkCtor d of
        None \<Rightarrow> returnM None
      | Some BoolBytes \<Rightarrow>
          bindM (bytesOf mem ptr len) (\<lambda>bs. returnM (Some (VArr (map (\<lambda>b. VBool (b \<noteq> 0)) bs))))
      | Some (IntArray n sgnd) \<Rightarrow>
          if \<not> viewOf ple mem ptr n then returnM None
          else bindM (viewElems mem ptr n len) (\<lambda>xs.
            returnM (Some (VArr (map (\<lambda>x. VNum (if sgnd then toSigned n x else x)) xs))))
      | Some (BigArray sgnd) \<Rightarrow>
          if \<not> viewOf ple mem ptr 8 then returnM None
          else bindM (viewElems mem ptr 8 len) (\<lambda>xs.
            returnM (Some (VArr (map (\<lambda>x. VBig (if sgnd then toSigned 8 x else x)) xs))))
      | Some (FloatArray n) \<Rightarrow>
          if \<not> viewOf ple mem ptr n then returnM None
          else bindM (viewElems mem ptr n len) (\<lambda>xs.
            returnM (Some (VArr (map (\<lambda>x. canonicalF64 (if n = 4 then widen32 (nat x) else word_of_int x)) xs)))))"

section \<open>Loading a value\<close>

definition MAX_LIST_BYTE_LENGTH :: int where "MAX_LIST_BYTE_LENGTH = 2 ^ 28 - 1"

definition convertIntToBool :: "int \<Rightarrow> bool result" where
  "convertIntToBool i = bindR (assertR (i \<ge> 0) ''internal assertion failed'') (\<lambda>_. Ok (i \<noteq> 0))"

fun unpackFlagsLoop :: "32 word \<Rightarrow> string list \<Rightarrow> (string \<times> JsVal) list \<Rightarrow> (string \<times> JsVal) list" where
  "unpackFlagsLoop v [] rec = rec"
| "unpackFlagsLoop v (l # ls) rec = unpackFlagsLoop (drop_bit 1 v) ls (obj_set l (VBool (and v 1 \<noteq> 0)) rec)"

definition unpackFlagsFromInt :: "int \<Rightarrow> string list \<Rightarrow> JsVal" where
  "unpackFlagsFromInt i labels = VObj (unpackFlagsLoop (word_of_int i) labels [])"

definition loadFlags :: "'g heap_scheme Context \<Rightarrow> nat \<Rightarrow> string list \<Rightarrow> ('g heap_scheme, JsVal) sm" where
  "loadFlags cx ptr labels =
     bindM (needMemory cx) (\<lambda>mem.
     bindM (liftR (elemSizeFlags labels)) (\<lambda>n.
     bindM (loadIntU mem ptr n) (\<lambda>i. returnM (unpackFlagsFromInt i labels))))"

text \<open>The leaves of the \<open>switch\<close> of \<open>load\<close>: primitive kinds, then handles.\<close>

definition loadPrim :: "'g heap_scheme Context \<Rightarrow> MemRef \<Rightarrow> nat \<Rightarrow> PrimKind \<Rightarrow> ('g heap_scheme, JsVal) sm" where
  "loadPrim cx mem ptr k =
     (case k of
        KBool \<Rightarrow> bindM (loadIntU mem ptr 1) (\<lambda>i. bindM (liftR (convertIntToBool i)) (\<lambda>b. returnM (VBool b)))
      | KU8 \<Rightarrow> bindM (loadIntU mem ptr 1) (\<lambda>i. returnM (VNum i))
      | KU16 \<Rightarrow> bindM (loadIntU mem ptr 2) (\<lambda>i. returnM (VNum i))
      | KU32 \<Rightarrow> bindM (loadIntU mem ptr 4) (\<lambda>i. returnM (VNum i))
      | KU64 \<Rightarrow> bindM (loadIntU mem ptr 8) (\<lambda>i. returnM (VBig i))
      | KS8 \<Rightarrow> bindM (loadIntS mem ptr 1) (\<lambda>i. returnM (VNum i))
      | KS16 \<Rightarrow> bindM (loadIntS mem ptr 2) (\<lambda>i. returnM (VNum i))
      | KS32 \<Rightarrow> bindM (loadIntS mem ptr 4) (\<lambda>i. returnM (VNum i))
      | KS64 \<Rightarrow> bindM (loadIntS mem ptr 8) (\<lambda>i. returnM (VBig i))
      | KF32 \<Rightarrow> bindM (loadIntU mem ptr 4) (\<lambda>i. returnM (decodeI32AsFloat i))
      | KF64 \<Rightarrow> bindM (loadIntU mem ptr 8) (\<lambda>i. returnM (decodeI64AsFloat i))
      | KChar \<Rightarrow> bindM (loadIntU mem ptr 4) (\<lambda>i.
          bindM (liftR (convertI32ToChar i)) (\<lambda>c. returnM (VStr c)))
      | KString \<Rightarrow> bindM (loadString cx ptr) (\<lambda>s. returnM (VStr s)))"

definition loadHandle :: "'g heap_scheme Context \<Rightarrow> MemRef \<Rightarrow> nat \<Rightarrow> ValType \<Rightarrow> ('g heap_scheme, JsVal) sm" where
  "loadHandle cx mem ptr d =
     bindM (loadIntU mem ptr 4) (\<lambda>i.
     case d of
       TErrorContext \<Rightarrow> liftErrorContext cx (nat i)
     | TOwn rt \<Rightarrow> liftOwn cx (nat i) rt
     | TBorrow rt \<Rightarrow> liftBorrow cx (nat i) rt
     | TStream e \<Rightarrow> liftStream cx (nat i) d e
     | TFuture e \<Rightarrow> liftFuture cx (nat i) d e
     | _ \<Rightarrow> throwM (JsError ''unreachable''))"

function load :: "'g heap_scheme Context \<Rightarrow> nat \<Rightarrow> ValType \<Rightarrow> ('g heap_scheme, JsVal) sm"
  and loadList :: "'g heap_scheme Context \<Rightarrow> nat \<Rightarrow> ValType \<Rightarrow> nat option \<Rightarrow> ('g heap_scheme, JsVal) sm"
  and loadListFromRange :: "'g heap_scheme Context \<Rightarrow> int \<Rightarrow> int \<Rightarrow> ValType \<Rightarrow> ('g heap_scheme, JsVal) sm"
  and loadListFromValidRange :: "'g heap_scheme Context \<Rightarrow> nat \<Rightarrow> nat \<Rightarrow> ValType \<Rightarrow> ('g heap_scheme, JsVal) sm"
  and loadElems :: "'g heap_scheme Context \<Rightarrow> nat \<Rightarrow> nat \<Rightarrow> nat \<Rightarrow> ValType \<Rightarrow> ('g heap_scheme, JsVal list) sm"
  and loadRecord :: "'g heap_scheme Context \<Rightarrow> nat \<Rightarrow> FieldType list \<Rightarrow> (string \<times> JsVal) list \<Rightarrow>
     ('g heap_scheme, JsVal) sm"
  and loadVariant :: "'g heap_scheme Context \<Rightarrow> nat \<Rightarrow> CaseType list \<Rightarrow> ('g heap_scheme, JsVal) sm" where
  "load cx ptr t =
     bindM (needMemory cx) (\<lambda>mem.
     bindM (liftR (alignment t (addrType mem))) (\<lambda>al.
     bindM (assertM (ptr = alignTo ptr al) ''load misaligned'') (\<lambda>_.
     bindM (liftR (elemSize t (addrType mem))) (\<lambda>sz.
     bindM (getsM (memLen mem)) (\<lambda>len.
     bindM (assertM (ptr + sz \<le> len) ''load OOB'') (\<lambda>_.
     case despecialize t of
       TPrim k \<Rightarrow> loadPrim cx mem ptr k
     | TList e n \<Rightarrow> loadList cx ptr e n
     | TRecord fs \<Rightarrow> loadRecord cx ptr fs []
     | TVariant cs \<Rightarrow> loadVariant cx ptr cs
     | TFlags ls \<Rightarrow> loadFlags cx ptr ls
     | d \<Rightarrow> loadHandle cx mem ptr d))))))"
| "loadList cx ptr e n =
     (case n of
        Some len \<Rightarrow> loadListFromValidRange cx ptr len e
      | None \<Rightarrow>
          bindM (needMemory cx) (\<lambda>mem.
          bindM (loadPtr mem ptr) (\<lambda>begin.
          bindM (loadPtr mem (ptr + memPtrSize mem)) (\<lambda>len.
          loadListFromRange cx begin len e))))"
| "loadListFromRange cx ptr len e =
     bindM (needMemory cx) (\<lambda>mem.
     bindM (liftR (elemSize e (addrType mem))) (\<lambda>sz.
     bindM (liftR (alignment e (addrType mem))) (\<lambda>al.
     bindM (trapIfM (len * int sz > MAX_LIST_BYTE_LENGTH) ''list too long'') (\<lambda>_.
     bindM (trapIfM (ptr mod int al \<noteq> 0) ''misaligned list pointer'') (\<lambda>_.
     bindM (getsM (memLen mem)) (\<lambda>total.
     bindM (trapIfM (ptr + len * int sz > int total) ''list out of bounds'') (\<lambda>_.
     loadListFromValidRange cx (nat ptr) (nat len) e)))))))"
| "loadListFromValidRange cx ptr len e =
     bindM (needMemory cx) (\<lambda>mem.
     if despecialize e = TPrim KU8 then
       bindM (bytesOf mem ptr len) (\<lambda>bs. returnM (VBytes bs))
     else
       bindM (tryLoadNumericList (platformLE cx) mem ptr len (despecialize e)) (\<lambda>bulk.
       case bulk of
         Some a \<Rightarrow> returnM a
       | None \<Rightarrow>
           bindM (liftR (elemSize e (addrType mem))) (\<lambda>sz.
           bindM (loadElems cx ptr sz len e) (\<lambda>a. returnM (VArr a)))))"
| "loadElems cx ptr sz n e =
     (case n of
        0 \<Rightarrow> returnM []
      | Suc k \<Rightarrow>
          bindM (load cx ptr e) (\<lambda>v.
          bindM (loadElems cx (ptr + sz) sz k e) (\<lambda>vs. returnM (v # vs))))"
| "loadRecord cx p fs rec =
     (case fs of
        [] \<Rightarrow> returnM (VObj rec)
      | f # rest \<Rightarrow>
          bindM (needMemory cx) (\<lambda>mem.
          bindM (liftR (alignment (snd f) (addrType mem))) (\<lambda>al.
          bindM (load cx (alignTo p al) (snd f)) (\<lambda>v.
          bindM (liftR (elemSize (snd f) (addrType mem))) (\<lambda>sz.
          loadRecord cx (alignTo p al + sz) rest (obj_set (fst f) v rec))))))"
| "loadVariant cx ptr cs =
     bindM (needMemory cx) (\<lambda>mem.
     bindM (liftR (discriminantType cs)) (\<lambda>d.
     bindM (liftR (elemSize d (addrType mem))) (\<lambda>discSize.
     bindM (loadIntU mem ptr discSize) (\<lambda>i.
     if nat i \<ge> length cs then throwM (Trap ''invalid variant discriminant'')
     else
       bindM (liftR (maxCaseAlignment cs (addrType mem))) (\<lambda>al.
       let c = cs ! nat i in
       case snd c of
         None \<Rightarrow> returnM (VObj [(fst c, VNull)])
       | Some u \<Rightarrow>
           bindM (load cx (alignTo (ptr + discSize) al) u) (\<lambda>v. returnM (VObj [(fst c, v)])))))))"
  by pat_completeness auto

termination
  by (relation "measures [\<lambda>x. case x of
        Inl (Inl (cx, ptr, t)) \<Rightarrow> tsize t
      | Inl (Inr (Inl (cx, ptr, e, n))) \<Rightarrow> tsize e
      | Inl (Inr (Inr (cx, ptr, len, e))) \<Rightarrow> tsize e
      | Inr (Inl (Inl (cx, ptr, len, e))) \<Rightarrow> tsize e
      | Inr (Inl (Inr (cx, ptr, sz, n, e))) \<Rightarrow> tsize e
      | Inr (Inr (Inl (cx, p, fs, rec))) \<Rightarrow> fsize fs
      | Inr (Inr (Inr (cx, ptr, cs))) \<Rightarrow> csize cs,
      \<lambda>x. case x of
        Inl (Inr (Inl (cx, ptr, e, n))) \<Rightarrow> 4
      | Inl (Inr (Inr (cx, ptr, len, e))) \<Rightarrow> 3
      | Inr (Inl (Inl (cx, ptr, len, e))) \<Rightarrow> 2
      | Inr (Inl (Inr (cx, ptr, sz, n, e))) \<Rightarrow> 1
      | _ \<Rightarrow> 0,
      \<lambda>x. case x of Inr (Inl (Inr (cx, ptr, sz, n, e))) \<Rightarrow> n | _ \<Rightarrow> 0]")
    (auto simp: tsize_despecialize not_le intro: tsize_case [OF nth_mem])

declare load.simps [simp del] loadList.simps [simp del] loadListFromRange.simps [simp del]
  loadListFromValidRange.simps [simp del] loadElems.simps [simp del] loadRecord.simps [simp del]
  loadVariant.simps [simp del]

end
