(* ===== verification/Store.thy ===== *)
theory Store
  imports Load
begin

text \<open>
  Storing component values into linear memory (\<open>runtime/src/cabi/store.ts\<close>) and the store
  half of \<open>runtime/src/cabi/bulk_lists.ts\<close>.  The element loops write as they go, so an
  assertion that fails on a later element leaves the earlier ones in memory.
\<close>

section \<open>Bulk storing\<close>

definition pokeBytes :: "MemRef \<Rightarrow> nat \<Rightarrow> 8 word list \<Rightarrow> ('g heap_scheme, unit) sm" where
  "pokeBytes mem p bs = modifyM (\<lambda>h. setMem mem (splice p bs (memBytes mem h)) h)"

text \<open>\<open>typeof x === "number" && Number.isInteger(x)\<close>, then the wrapping element write.\<close>

definition pokeInt :: "MemRef \<Rightarrow> nat \<Rightarrow> nat \<Rightarrow> JsVal \<Rightarrow> ('g heap_scheme, unit) sm" where
  "pokeInt mem n p x =
     (case js_int x of
        None \<Rightarrow> throwM (AssertionError ''int store'')
      | Some i \<Rightarrow> pokeBytes mem p (leEncode n i))"

definition pokeBig :: "MemRef \<Rightarrow> nat \<Rightarrow> JsVal \<Rightarrow> ('g heap_scheme, unit) sm" where
  "pokeBig mem p x =
     (case x of
        VBig i \<Rightarrow> pokeBytes mem p (leEncode 8 i)
      | _ \<Rightarrow> throwM (AssertionError ''64-bit store requires bigint''))"

definition pokeFloat :: "MemRef \<Rightarrow> nat \<Rightarrow> nat \<Rightarrow> JsVal \<Rightarrow> ('g heap_scheme, unit) sm" where
  "pokeFloat mem n p x =
     pokeBytes mem p (leEncode n
       (if js_isNaN x then (if n = 4 then CANONICAL_FLOAT32_NAN else CANONICAL_FLOAT64_NAN)
        else if n = 4 then coreI32ReinterpretF32 x else coreI64ReinterpretF64 x))"

fun pokeAll :: "(nat \<Rightarrow> JsVal \<Rightarrow> ('s, unit) sm) \<Rightarrow> nat \<Rightarrow> nat \<Rightarrow> JsVal list \<Rightarrow> ('s, unit) sm" where
  "pokeAll f n p [] = returnM ()"
| "pokeAll f n p (x # xs) = bindM (f p x) (\<lambda>_. pokeAll f n (p + n) xs)"

definition withView ::
  "bool \<Rightarrow> MemRef \<Rightarrow> nat \<Rightarrow> nat \<Rightarrow> nat \<Rightarrow> ('g heap_scheme, unit) sm \<Rightarrow> ('g heap_scheme, bool) sm" where
  "withView ple mem ptr n len act =
     (if \<not> viewOf ple mem ptr n then returnM False
      else bindM (getsM (memLen mem)) (\<lambda>total.
        if ptr + len * n > total then throwM (JsError ''RangeError'')
        else bindM act (\<lambda>_. returnM True)))"

definition tryStoreNumericList ::
  "bool \<Rightarrow> MemRef \<Rightarrow> JsVal list \<Rightarrow> nat \<Rightarrow> ValType \<Rightarrow> ('g heap_scheme, bool) sm" where
  "tryStoreNumericList ple mem xs ptr d =
     (case bulkCtor d of
        None \<Rightarrow> returnM False
      | Some BoolBytes \<Rightarrow>
          bindM (bytesOf mem ptr (length xs)) (\<lambda>_.
          bindM (pokeAll (\<lambda>p x. pokeBytes mem p [if js_truthy x then 1 else 0]) 1 ptr xs) (\<lambda>_.
          returnM True))
      | Some (IntArray n sgnd) \<Rightarrow> withView ple mem ptr n (length xs) (pokeAll (pokeInt mem n) n ptr xs)
      | Some (BigArray sgnd) \<Rightarrow> withView ple mem ptr 8 (length xs) (pokeAll (pokeBig mem) 8 ptr xs)
      | Some (FloatArray n) \<Rightarrow> withView ple mem ptr n (length xs) (pokeAll (pokeFloat mem n) n ptr xs))"

section \<open>Variants and flags\<close>

text \<open>\<open>matchCase\<close>: the value is a single-key object whose key is the label of exactly one case.\<close>

definition matchCase :: "JsVal \<Rightarrow> CaseType list \<Rightarrow> (nat \<times> JsVal) result" where
  "matchCase v cs =
     bindR (js_keys v) (\<lambda>keys.
     bindR (assertR (length keys = 1) ''variant value must have exactly one case'') (\<lambda>_.
     let label = hd keys; matches = filter (\<lambda>i. fst (cs ! i) = label) [0..<length cs] in
     bindR (assertR (length matches = 1) (''variant case '' @ [CHR 0x27] @ label @ [CHR 0x27] @ '' not found'')) (\<lambda>_.
     bindR (js_get v label) (\<lambda>x. Ok (hd matches, x)))))"

fun packFlagsLoop :: "JsVal \<Rightarrow> string list \<Rightarrow> 32 word \<Rightarrow> nat \<Rightarrow> 32 word result" where
  "packFlagsLoop v [] i shift = Ok i"
| "packFlagsLoop v (l # ls) i shift =
     bindR (js_get v l) (\<lambda>x.
     packFlagsLoop v ls (or i (push_bit (shift mod 32) (if js_truthy x then 1 else 0))) (Suc shift))"

definition packFlagsIntoInt :: "JsVal \<Rightarrow> string list \<Rightarrow> int result" where
  "packFlagsIntoInt v labels = bindR (packFlagsLoop v labels 0 0) (\<lambda>w. Ok (uint w))"

definition storeFlags :: "'g heap_scheme Context \<Rightarrow> JsVal \<Rightarrow> nat \<Rightarrow> string list \<Rightarrow> ('g heap_scheme, unit) sm" where
  "storeFlags cx v ptr labels =
     bindM (needMemory cx) (\<lambda>mem.
     bindM (liftR (packFlagsIntoInt v labels)) (\<lambda>i.
     bindM (liftR (elemSizeFlags labels)) (\<lambda>n.
     storeInt mem (VNum i) ptr n False)))"

section \<open>Storing a value\<close>

definition storePrim ::
  "'g heap_scheme Context \<Rightarrow> MemRef \<Rightarrow> JsVal \<Rightarrow> nat \<Rightarrow> PrimKind \<Rightarrow> ('g heap_scheme, unit) sm" where
  "storePrim cx mem v ptr k =
     (case k of
        KBool \<Rightarrow> storeInt mem (VNum (if js_truthy v then 1 else 0)) ptr 1 False
      | KU8 \<Rightarrow> storeInt mem v ptr 1 False
      | KU16 \<Rightarrow> storeInt mem v ptr 2 False
      | KU32 \<Rightarrow> storeInt mem v ptr 4 False
      | KU64 \<Rightarrow> storeInt mem v ptr 8 False
      | KS8 \<Rightarrow> storeInt mem v ptr 1 True
      | KS16 \<Rightarrow> storeInt mem v ptr 2 True
      | KS32 \<Rightarrow> storeInt mem v ptr 4 True
      | KS64 \<Rightarrow> storeInt mem v ptr 8 True
      | KF32 \<Rightarrow> storeInt mem (VNum (encodeFloatAsI32 v)) ptr 4 False
      | KF64 \<Rightarrow> storeInt mem (VBig (encodeFloatAsI64 v)) ptr 8 False
      | KChar \<Rightarrow> bindM (liftR (bindR (js_str v) charToI32)) (\<lambda>i. storeInt mem (VNum (int i)) ptr 4 False)
      | KString \<Rightarrow> bindM (liftR (js_str v)) (\<lambda>s. storeString cx s ptr))"

definition storeHandle ::
  "'g heap_scheme Context \<Rightarrow> MemRef \<Rightarrow> JsVal \<Rightarrow> nat \<Rightarrow> ValType \<Rightarrow> ('g heap_scheme, unit) sm" where
  "storeHandle cx mem v ptr d =
     bindM (case d of
              TErrorContext \<Rightarrow> bindM (lowerErrorContext cx v) (\<lambda>i. returnM (VNum (int i)))
            | TOwn rt \<Rightarrow> bindM (lowerOwn cx v rt) (\<lambda>i. returnM (VNum (int i)))
            | TBorrow rt \<Rightarrow> lowerBorrow cx v rt
            | TStream e \<Rightarrow> bindM (lowerStream cx v d) (\<lambda>i. returnM (VNum (int i)))
            | TFuture e \<Rightarrow> bindM (lowerFuture cx v d) (\<lambda>i. returnM (VNum (int i)))
            | _ \<Rightarrow> throwM (JsError ''unreachable'')) (\<lambda>x.
     storeInt mem x ptr 4 False)"

text \<open>A plain array of bytes: integer-ness is asserted, the element write wraps.\<close>

definition storeU8List :: "MemRef \<Rightarrow> JsVal \<Rightarrow> JsVal list \<Rightarrow> nat \<Rightarrow> ('g heap_scheme, unit) sm" where
  "storeU8List mem v xs ptr =
     bindM (bytesOf mem ptr (length xs)) (\<lambda>_.
     case v of
       VBytes bs \<Rightarrow> pokeBytes mem ptr bs
     | _ \<Rightarrow> pokeAll (pokeInt mem 1) 1 ptr xs)"

function store :: "'g heap_scheme Context \<Rightarrow> JsVal \<Rightarrow> ValType \<Rightarrow> nat \<Rightarrow> ('g heap_scheme, unit) sm"
  and storeList :: "'g heap_scheme Context \<Rightarrow> JsVal \<Rightarrow> nat \<Rightarrow> ValType \<Rightarrow> nat option \<Rightarrow> ('g heap_scheme, unit) sm"
  and storeListIntoRange :: "'g heap_scheme Context \<Rightarrow> JsVal \<Rightarrow> ValType \<Rightarrow> ('g heap_scheme, nat \<times> nat) sm"
  and storeListIntoValidRange :: "'g heap_scheme Context \<Rightarrow> JsVal \<Rightarrow> JsVal list \<Rightarrow> nat \<Rightarrow> ValType \<Rightarrow> ('g heap_scheme, unit) sm"
  and storeElems :: "'g heap_scheme Context \<Rightarrow> JsVal list \<Rightarrow> nat \<Rightarrow> nat \<Rightarrow> ValType \<Rightarrow> ('g heap_scheme, unit) sm"
  and storeRecord :: "'g heap_scheme Context \<Rightarrow> JsVal \<Rightarrow> nat \<Rightarrow> FieldType list \<Rightarrow> ('g heap_scheme, unit) sm"
  and storeVariant :: "'g heap_scheme Context \<Rightarrow> JsVal \<Rightarrow> nat \<Rightarrow> CaseType list \<Rightarrow> ('g heap_scheme, unit) sm" where
  "store cx v t ptr =
     bindM (needMemory cx) (\<lambda>mem.
     bindM (liftR (alignment t (addrType mem))) (\<lambda>al.
     bindM (assertM (ptr = alignTo ptr al) ''store misaligned'') (\<lambda>_.
     bindM (liftR (elemSize t (addrType mem))) (\<lambda>sz.
     bindM (getsM (memLen mem)) (\<lambda>len.
     bindM (assertM (ptr + sz \<le> len) ''store OOB'') (\<lambda>_.
     case despecialize t of
       TPrim k \<Rightarrow> storePrim cx mem v ptr k
     | TList e n \<Rightarrow> storeList cx v ptr e n
     | TRecord fs \<Rightarrow> storeRecord cx v ptr fs
     | TVariant cs \<Rightarrow> storeVariant cx v ptr cs
     | TFlags ls \<Rightarrow> storeFlags cx v ptr ls
     | d \<Rightarrow> storeHandle cx mem v ptr d))))))"
| "storeList cx v ptr e n =
     (case n of
        Some len \<Rightarrow>
          bindM (liftR (js_elems ''fixed-length list length mismatch'' v)) (\<lambda>xs.
          bindM (assertM (len = length xs) ''fixed-length list length mismatch'') (\<lambda>_.
          storeListIntoValidRange cx v xs ptr e))
      | None \<Rightarrow>
          bindM (needMemory cx) (\<lambda>mem.
          bindM (storeListIntoRange cx v e) (\<lambda>r.
          bindM (storePtr mem (fst r) ptr) (\<lambda>_.
          storePtr mem (snd r) (ptr + memPtrSize mem)))))"
| "storeListIntoRange cx v e =
     bindM (needMemory cx) (\<lambda>mem.
     bindM (liftR (js_elems ''internal assertion failed'' v)) (\<lambda>xs.
     bindM (liftR (elemSize e (addrType mem))) (\<lambda>sz.
     bindM (assertM (length xs * sz \<le> REALLOC_I32_MAX) ''internal assertion failed'') (\<lambda>_.
     bindM (liftR (alignment e (addrType mem))) (\<lambda>al.
     bindM (allocate cx al (length xs * sz)) (\<lambda>ptr.
     bindM (trapIfM (ptr \<noteq> alignTo ptr al) REALLOC_MISALIGNED) (\<lambda>_.
     bindM (getsM (memLen mem)) (\<lambda>total.
     bindM (trapIfM (ptr + length xs * sz > total) REALLOC_OOB) (\<lambda>_.
     bindM (storeListIntoValidRange cx v xs ptr e) (\<lambda>_.
     returnM (ptr, length xs)))))))))))"
| "storeListIntoValidRange cx v xs ptr e =
     bindM (needMemory cx) (\<lambda>mem.
     if despecialize e = TPrim KU8 then storeU8List mem v xs ptr
     else
       bindM (tryStoreNumericList (platformLE cx) mem xs ptr (despecialize e)) (\<lambda>done.
       if done then returnM ()
       else
         bindM (liftR (elemSize e (addrType mem))) (\<lambda>sz. storeElems cx xs ptr sz e)))"
| "storeElems cx xs p sz e =
     (case xs of
        [] \<Rightarrow> returnM ()
      | x # rest \<Rightarrow> bindM (store cx x e p) (\<lambda>_. storeElems cx rest (p + sz) sz e))"
| "storeRecord cx v p fs =
     (case fs of
        [] \<Rightarrow> returnM ()
      | f # rest \<Rightarrow>
          bindM (needMemory cx) (\<lambda>mem.
          bindM (liftR (alignment (snd f) (addrType mem))) (\<lambda>al.
          bindM (liftR (js_get v (fst f))) (\<lambda>x.
          bindM (store cx x (snd f) (alignTo p al)) (\<lambda>_.
          bindM (liftR (elemSize (snd f) (addrType mem))) (\<lambda>sz.
          storeRecord cx v (alignTo p al + sz) rest))))))"
| "storeVariant cx v ptr cs =
     bindM (needMemory cx) (\<lambda>mem.
     bindM (liftR (matchCase v cs)) (\<lambda>m.
     bindM (liftR (discriminantType cs)) (\<lambda>d.
     bindM (liftR (elemSize d (addrType mem))) (\<lambda>discSize.
     bindM (storeInt mem (VNum (int (fst m))) ptr discSize False) (\<lambda>_.
     bindM (liftR (maxCaseAlignment cs (addrType mem))) (\<lambda>al.
     if fst m < length cs then
       (case snd (cs ! fst m) of
          None \<Rightarrow> returnM ()
        | Some u \<Rightarrow> store cx (snd m) u (alignTo (ptr + discSize) al))
     else throwM (JsError ''unreachable'')))))))"
  by pat_completeness auto

termination
  by (relation "measures [\<lambda>x. case x of
        Inl (Inl (cx, v, t, ptr)) \<Rightarrow> tsize t
      | Inl (Inr (Inl (cx, v, ptr, e, n))) \<Rightarrow> tsize e
      | Inl (Inr (Inr (cx, v, e))) \<Rightarrow> tsize e
      | Inr (Inl (Inl (cx, v, xs, ptr, e))) \<Rightarrow> tsize e
      | Inr (Inl (Inr (cx, xs, p, sz, e))) \<Rightarrow> tsize e
      | Inr (Inr (Inl (cx, v, p, fs))) \<Rightarrow> fsize fs
      | Inr (Inr (Inr (cx, v, ptr, cs))) \<Rightarrow> csize cs,
      \<lambda>x. case x of
        Inl (Inr (Inl (cx, v, ptr, e, n))) \<Rightarrow> 4
      | Inl (Inr (Inr (cx, v, e))) \<Rightarrow> 3
      | Inr (Inl (Inl (cx, v, xs, ptr, e))) \<Rightarrow> 2
      | Inr (Inl (Inr (cx, xs, p, sz, e))) \<Rightarrow> 1
      | _ \<Rightarrow> 0,
      \<lambda>x. case x of Inr (Inl (Inr (cx, xs, p, sz, e))) \<Rightarrow> length xs | _ \<Rightarrow> 0]")
    (auto simp: tsize_despecialize intro: tsize_case [OF nth_mem])

declare store.simps [simp del] storeList.simps [simp del] storeListIntoRange.simps [simp del]
  storeListIntoValidRange.simps [simp del] storeElems.simps [simp del] storeRecord.simps [simp del]
  storeVariant.simps [simp del]

end
