(* ===== verification/Streams.thy ===== *)
theory Streams
  imports Store Handles
begin

text \<open>
  Streams and futures (\<open>runtime/src/task/streams.ts\<close>): the cursor over a guest's memory, the
  shared object at which a reader and a writer meet, the two ends, and the teardown of the
  ends of a poisoned instance.  The operations are those of guest-owned ends; the ends of
  the host (\<open>exec/host_streams.ts\<close>) and their drop observers are not modelled, so
  \<open>notifyDropped\<close> has no one to notify.  A buffer names its canonical options by
  number; the environment \<open>E\<close> maps the number to the lift/lower context they make.
\<close>

section \<open>Guest buffers\<close>

definition BUFFER_MAX_LENGTH :: nat where
  "BUFFER_MAX_LENGTH = 2 ^ 28 - 1"

definition updBuffer :: "nat \<Rightarrow> (GuestBuffer \<Rightarrow> GuestBuffer) \<Rightarrow> 'g heap_scheme \<Rightarrow> 'g heap_scheme" where
  "updBuffer b f h = h\<lparr>buffers := (buffers h)(b := f (buffers h b))\<rparr>"

text \<open>\<open>new LiftLowerContext(cabiOptions(opts), inst, null)\<close>.\<close>

definition copyContext :: "(nat \<Rightarrow> 'g heap_scheme Context) \<Rightarrow> nat \<Rightarrow> nat \<Rightarrow> 'g heap_scheme Context" where
  "copyContext E oi ins = (E oi)\<lparr>inst := Some ins, borrowScope := None\<rparr>"

definition bufferContext :: "(nat \<Rightarrow> 'g heap_scheme Context) \<Rightarrow> GuestBuffer \<Rightarrow> 'g heap_scheme Context" where
  "bufferContext E b = copyContext E (gb_cx b) (gb_inst b)"

definition newBuffer ::
  "(nat \<Rightarrow> 'g heap_scheme Context) \<Rightarrow> ValType option \<Rightarrow> nat \<Rightarrow> nat \<Rightarrow> int \<Rightarrow> int \<Rightarrow> ('g heap_scheme, nat) sm" where
  "newBuffer E t oi ins ptr len =
     bindM (trapIfM (len > int BUFFER_MAX_LENGTH) ''buffer length exceeds MAX_LENGTH'') (\<lambda>_.
     bindM (case t of
              None \<Rightarrow> returnM ()
            | Some e \<Rightarrow>
                if len \<le> 0 then returnM ()
                else case memory (opts (E oi)) of
                  None \<Rightarrow> throwM (AssertionError ''buffer requires a memory'')
                | Some mem \<Rightarrow>
                    bindM (liftR (alignment e (addrType mem))) (\<lambda>al.
                    bindM (trapIfM (ptr mod int al \<noteq> 0) ''unaligned buffer pointer'') (\<lambda>_.
                    bindM (liftR (elemSize e (addrType mem))) (\<lambda>sz.
                    bindM (getsM (memLen mem)) (\<lambda>total.
                    trapIfM (ptr + len * int sz > int total) ''buffer out of bounds''))))) (\<lambda>_.
     bindM freshId (\<lambda>b.
     bindM (modifyM (updBuffer b (\<lambda>_. \<lparr>gb_t = t, gb_cx = oi, gb_inst = ins, gb_ptr = ptr, gb_length = len, gb_progress = 0\<rparr>))) (\<lambda>_.
     returnM b))))"

text \<open>
  \<open>ptr\<close> and \<open>length\<close> are the numbers the engine passes for the \<open>i32\<close> lanes, which are signed: the
  built-ins hand them on as they arrive.  Alignment is tested as divisibility, which is what
  \<open>ptr !== alignTo(ptr, alignment)\<close> says of a number of either sign.
\<close>

definition bufRemain :: "GuestBuffer \<Rightarrow> int" where
  "bufRemain b = gb_length b - int (gb_progress b)"

definition isZeroLength :: "GuestBuffer \<Rightarrow> bool" where
  "isZeroLength b \<longleftrightarrow> gb_length b = 0"

definition advance :: "nat \<Rightarrow> nat \<Rightarrow> nat \<Rightarrow> ('g heap_scheme, unit) sm" where
  "advance b bytes n = modifyM (updBuffer b (\<lambda>x. x\<lparr>gb_ptr := gb_ptr x + int bytes, gb_progress := gb_progress x + n\<rparr>))"

text \<open>
  An address the engine is asked to read or write at.  A negative one fails the assertion of
  \<open>bytesOf\<close> for a byte list and is a \<open>RangeError\<close> of the views otherwise.
\<close>

definition ptrIndex :: "ValType \<Rightarrow> int \<Rightarrow> nat result" where
  "ptrIndex e p =
     (if p \<ge> 0 then Ok (nat p)
      else if despecialize e = TPrim KU8 then Err (AssertionError ''range OOB'')
      else Err (JsError ''RangeError''))"

definition bufRead :: "(nat \<Rightarrow> 'g heap_scheme Context) \<Rightarrow> nat \<Rightarrow> nat \<Rightarrow> ('g heap_scheme, JsVal) sm" where
  "bufRead E b n =
     bindM (getsM (\<lambda>h. buffers h b)) (\<lambda>x.
     bindM (assertM (int n \<le> bufRemain x) ''buffer read beyond remaining'') (\<lambda>_.
     case gb_t x of
       Some e \<Rightarrow>
         bindM (liftR (ptrIndex e (gb_ptr x))) (\<lambda>p.
         bindM (loadListFromValidRange (bufferContext E x) p n e) (\<lambda>vs.
         bindM (needMemory (bufferContext E x)) (\<lambda>mem.
         bindM (liftR (elemSize e (addrType mem))) (\<lambda>sz.
         bindM (advance b (n * sz) n) (\<lambda>_. returnM vs)))))
     | None \<Rightarrow> bindM (advance b 0 n) (\<lambda>_. returnM (VArr (replicate n VNull)))))"

text \<open>The elements of a chunk: a plain array or a \<open>Uint8Array\<close>.\<close>

definition chunkElems :: "JsVal \<Rightarrow> JsVal list result" where
  "chunkElems vs = js_elems ''buffer write beyond remaining'' vs"

definition isByteArray :: "JsVal \<Rightarrow> bool" where
  "isByteArray v = (case v of VBytes _ \<Rightarrow> True | _ \<Rightarrow> False)"

definition bufWrite :: "(nat \<Rightarrow> 'g heap_scheme Context) \<Rightarrow> nat \<Rightarrow> JsVal \<Rightarrow> ('g heap_scheme, unit) sm" where
  "bufWrite E b vs =
     bindM (getsM (\<lambda>h. buffers h b)) (\<lambda>x.
     bindM (liftR (chunkElems vs)) (\<lambda>xs.
     bindM (assertM (int (length xs) \<le> bufRemain x) ''buffer write beyond remaining'') (\<lambda>_.
     case gb_t x of
       Some e \<Rightarrow>
         bindM (liftR (ptrIndex e (gb_ptr x))) (\<lambda>p.
         bindM (storeListIntoValidRange (bufferContext E x) vs xs p e) (\<lambda>_.
         bindM (needMemory (bufferContext E x)) (\<lambda>mem.
         bindM (liftR (elemSize e (addrType mem))) (\<lambda>sz.
         advance b (length xs * sz) (length xs)))))
     | None \<Rightarrow>
         bindM (assertM (\<not> isByteArray vs \<and> list_all (\<lambda>v. v = VNull) xs)
           ''zero-width buffer written with a non-empty element'') (\<lambda>_.
         advance b 0 (length xs)))))"

definition noneOrNumberType :: "ValType option \<Rightarrow> bool" where
  "noneOrNumberType t =
     (case t of
        None \<Rightarrow> True
      | Some e \<Rightarrow> (case despecialize e of
            TPrim k \<Rightarrow> k \<in> {KU8, KU16, KU32, KU64, KS8, KS16, KS32, KS64, KF32, KF64}
          | _ \<Rightarrow> False))"

section \<open>The shared object\<close>

definition newShared :: "EndKind \<Rightarrow> ValType option \<Rightarrow> ('g heap_scheme, nat) sm" where
  "newShared k t =
     bindM freshId (\<lambda>s.
     bindM (modifyM (updShared s (\<lambda>_. \<lparr>sh_kind = k, sh_t = t, sh_dropped = False, sh_abandon = None,
        sh_poisonFailure = None, sh_pendingInst = None, sh_pendingBuffer = None, sh_pendingDone = None,
        sh_boundStore = None\<rparr>))) (\<lambda>_. returnM s))"

definition setPending :: "nat \<Rightarrow> nat option \<Rightarrow> nat option \<Rightarrow> CopyCallback option \<Rightarrow> ('g heap_scheme, unit) sm" where
  "setPending s ins b cb =
     modifyM (updShared s (\<lambda>x. x\<lparr>sh_pendingInst := ins, sh_pendingBuffer := b, sh_pendingDone := cb\<rparr>))"

definition resetPending :: "nat \<Rightarrow> ('g heap_scheme, unit) sm" where
  "resetPending s = setPending s None None None"

definition futureAbandonTrap :: "string \<Rightarrow> error" where
  "futureAbandonTrap reason = Trap (''future.read can never complete: '' @ reason)"

definition abandonReasonOf :: "Shared \<Rightarrow> string option" where
  "abandonReasonOf sh = (case sh_kind sh of FutureKind \<Rightarrow> sh_abandon sh | StreamKind \<Rightarrow> None)"

text \<open>
  The callbacks a guest copy parks (\<open>intrinsics/stream_builtins.ts\<close>): \<open>onCopy\<close> of \<open>streamCopy\<close>, whose
  event reclaims the shared object's pending slot at delivery, and \<open>onCopyDone\<close> of \<open>streamCopy\<close> and
  \<open>futureCopy\<close>.
\<close>

definition runOnCopy :: "CopyCallback \<Rightarrow> nat \<Rightarrow> ('g heap_scheme, unit) sm" where
  "runOnCopy cb s = (case cb of GuestCopy ec n i b \<Rightarrow> setPendingEvent n (StreamEvent ec n i b COMPLETED (Some s)))"

definition runOnCopyDone :: "CopyCallback \<Rightarrow> CopyResult \<Rightarrow> ('g heap_scheme, unit) sm" where
  "runOnCopyDone cb result =
     (case cb of GuestCopy ec n i b \<Rightarrow>
        if ec = EvSTREAM_READ \<or> ec = EvSTREAM_WRITE then setPendingEvent n (StreamEvent ec n i b result None)
        else
          bindM (getsM (\<lambda>h. shareds h (ce_shared (ends h n)))) (\<lambda>sh.
          case (if ec = EvFUTURE_READ \<and> result = DROPPED then abandonReasonOf sh else None) of
            Some reason \<Rightarrow> setPendingEvent n (FutureAbandoned reason)
          | None \<Rightarrow>
              bindM (assertM (result \<noteq> DROPPED \<or> ec = EvFUTURE_WRITE)
                ''a readable future end cannot observe DROPPED'') (\<lambda>_.
              setPendingEvent n (FutureEvent ec n i b result))))"

definition resetAndNotifyPending :: "nat \<Rightarrow> CopyResult \<Rightarrow> ('g heap_scheme, unit) sm" where
  "resetAndNotifyPending s result =
     bindM (getsM (\<lambda>h. sh_pendingDone (shareds h s))) (\<lambda>d.
     case d of
       None \<Rightarrow> throwM (AssertionError ''reset_and_notify_pending with nothing pending'')
     | Some cb \<Rightarrow> bindM (resetPending s) (\<lambda>_. runOnCopyDone cb result))"

definition sharedCancel :: "nat \<Rightarrow> ('g heap_scheme, unit) sm" where
  "sharedCancel s = resetAndNotifyPending s CANCELLED"

definition sharedDrop :: "nat \<Rightarrow> ('g heap_scheme, unit) sm" where
  "sharedDrop s =
     bindM (getsM (\<lambda>h. shareds h s)) (\<lambda>sh.
     if sh_dropped sh then returnM ()
     else
       bindM (modifyM (updShared s (\<lambda>x. x\<lparr>sh_dropped := True\<rparr>))) (\<lambda>_.
       if sh_pendingBuffer sh \<noteq> None then resetAndNotifyPending s DROPPED else returnM ()))"

section \<open>The rendezvous\<close>

text \<open>\<open>#assertSameElemType\<close> and \<open>#trapOnSameInstance\<close>, against the parked buffer \<open>p\<close>.\<close>

definition assertSameElems :: "Shared \<Rightarrow> nat \<Rightarrow> nat \<Rightarrow> ('g heap_scheme, unit) sm" where
  "assertSameElems sh b p =
     bindM (getsM (\<lambda>h. (gb_t (buffers h b), gb_t (buffers h p)))) (\<lambda>(bt, pt).
     assertM (sameElemType (sh_t sh) bt \<and> sameElemType bt pt) ''stream element type mismatch between ends'')"

definition trapOnSameInstance :: "Shared \<Rightarrow> nat \<Rightarrow> ('g heap_scheme, unit) sm" where
  "trapOnSameInstance sh ins =
     trapIfM (sh_pendingInst sh = Some ins \<and> \<not> noneOrNumberType (sh_t sh))
       (''cannot read from and write to intra-component '' @ kindName (sh_kind sh))"

definition pendingOf :: "Shared \<Rightarrow> ('g heap_scheme, CopyCallback) sm" where
  "pendingOf sh = (case sh_pendingDone sh of None \<Rightarrow> throwM (JsError ''TypeError'') | Some cb \<Rightarrow> returnM cb)"

definition sharedStreamRead ::
  "(nat \<Rightarrow> 'g heap_scheme Context) \<Rightarrow> nat \<Rightarrow> nat \<Rightarrow> nat \<Rightarrow> CopyCallback \<Rightarrow> ('g heap_scheme, unit) sm" where
  "sharedStreamRead E s ins dst cb =
     bindM (getsM (\<lambda>h. shareds h s)) (\<lambda>sh.
     if sh_dropped sh then runOnCopyDone cb DROPPED
     else case sh_pendingBuffer sh of
       None \<Rightarrow> setPending s (Some ins) (Some dst) (Some cb)
     | Some p \<Rightarrow>
         bindM (assertSameElems sh dst p) (\<lambda>_.
         bindM (trapOnSameInstance sh ins) (\<lambda>_.
         bindM (getsM (\<lambda>h. (bufRemain (buffers h dst), bufRemain (buffers h p)))) (\<lambda>(rd, rp).
         if rp > 0 then
           bindM (if rd > 0 then
                    bindM (bufRead E p (nat (min rd rp))) (\<lambda>vs.
                    bindM (bufWrite E dst vs) (\<lambda>_.
                    bindM (getsM (\<lambda>h. shareds h s)) (\<lambda>sh1.
                    bindM (pendingOf sh1) (\<lambda>pcb. runOnCopy pcb s))))
                  else returnM ()) (\<lambda>_.
           runOnCopyDone cb COMPLETED)
         else
           bindM (resetAndNotifyPending s COMPLETED) (\<lambda>_.
           setPending s (Some ins) (Some dst) (Some cb))))))"

definition sharedStreamWrite ::
  "(nat \<Rightarrow> 'g heap_scheme Context) \<Rightarrow> nat \<Rightarrow> nat \<Rightarrow> nat \<Rightarrow> CopyCallback \<Rightarrow> ('g heap_scheme, unit) sm" where
  "sharedStreamWrite E s ins src cb =
     bindM (getsM (\<lambda>h. shareds h s)) (\<lambda>sh.
     if sh_dropped sh then runOnCopyDone cb DROPPED
     else case sh_pendingBuffer sh of
       None \<Rightarrow> setPending s (Some ins) (Some src) (Some cb)
     | Some p \<Rightarrow>
         bindM (assertSameElems sh src p) (\<lambda>_.
         bindM (trapOnSameInstance sh ins) (\<lambda>_.
         bindM (getsM (\<lambda>h. (buffers h src, buffers h p))) (\<lambda>(x, y).
         if bufRemain y > 0 then
           bindM (if bufRemain x > 0 then
                    bindM (bufRead E src (nat (min (bufRemain x) (bufRemain y)))) (\<lambda>vs.
                    bindM (bufWrite E p vs) (\<lambda>_.
                    bindM (getsM (\<lambda>h. shareds h s)) (\<lambda>sh1.
                    bindM (pendingOf sh1) (\<lambda>pcb. runOnCopy pcb s))))
                  else returnM ()) (\<lambda>_.
           runOnCopyDone cb COMPLETED)
         else if isZeroLength x \<and> isZeroLength y then runOnCopyDone cb COMPLETED
         else
           bindM (resetAndNotifyPending s COMPLETED) (\<lambda>_.
           setPending s (Some ins) (Some src) (Some cb))))))"

definition sharedFutureRead ::
  "(nat \<Rightarrow> 'g heap_scheme Context) \<Rightarrow> nat \<Rightarrow> nat \<Rightarrow> nat \<Rightarrow> CopyCallback \<Rightarrow> ('g heap_scheme, unit) sm" where
  "sharedFutureRead E s ins dst cb =
     bindM (getsM (\<lambda>h. shareds h s)) (\<lambda>sh.
     case (if sh_dropped sh then sh_abandon sh else None) of
       Some reason \<Rightarrow> throwM (futureAbandonTrap reason)
     | None \<Rightarrow>
         bindM (getsM (\<lambda>h. bufRemain (buffers h dst))) (\<lambda>rd.
         bindM (assertM (\<not> sh_dropped sh \<and> rd = 1) ''future read shape'') (\<lambda>_.
         case sh_pendingBuffer sh of
           None \<Rightarrow> setPending s (Some ins) (Some dst) (Some cb)
         | Some p \<Rightarrow>
             bindM (trapOnSameInstance sh ins) (\<lambda>_.
             bindM (bufRead E p 1) (\<lambda>vs.
             bindM (bufWrite E dst vs) (\<lambda>_.
             bindM (resetAndNotifyPending s COMPLETED) (\<lambda>_.
             runOnCopyDone cb COMPLETED)))))))"

definition sharedFutureWrite ::
  "(nat \<Rightarrow> 'g heap_scheme Context) \<Rightarrow> nat \<Rightarrow> nat \<Rightarrow> nat \<Rightarrow> CopyCallback \<Rightarrow> ('g heap_scheme, unit) sm" where
  "sharedFutureWrite E s ins src cb =
     bindM (getsM (\<lambda>h. (shareds h s, bufRemain (buffers h src)))) (\<lambda>(sh, rs).
     bindM (assertM (rs = 1) ''future write shape'') (\<lambda>_.
     if sh_dropped sh then runOnCopyDone cb DROPPED
     else case sh_pendingBuffer sh of
       None \<Rightarrow> setPending s (Some ins) (Some src) (Some cb)
     | Some p \<Rightarrow>
         bindM (trapOnSameInstance sh ins) (\<lambda>_.
         bindM (bufRead E src 1) (\<lambda>vs.
         bindM (bufWrite E p vs) (\<lambda>_.
         bindM (resetAndNotifyPending s COMPLETED) (\<lambda>_.
         runOnCopyDone cb COMPLETED))))))"

section \<open>Ends\<close>

definition updEnd :: "nat \<Rightarrow> (CopyEnd \<Rightarrow> CopyEnd) \<Rightarrow> 'g heap_scheme \<Rightarrow> 'g heap_scheme" where
  "updEnd n f h = h\<lparr>ends := (ends h)(n := f (ends h n))\<rparr>"

definition copying :: "CopyEnd \<Rightarrow> bool" where
  "copying e \<longleftrightarrow> ce_state e = COPYING \<or> ce_state e = CANCELLING_COPY"

text \<open>\<open>CopyEnd.drop\<close>, and \<open>WritableFutureEnd.drop\<close> in front of it.\<close>

definition copyEndDrop :: "nat \<Rightarrow> ('g heap_scheme, unit) sm" where
  "copyEndDrop n =
     bindM (getsM (\<lambda>h. ends h n)) (\<lambda>e.
     bindM (trapIfM (copying e)
       ((if ce_side e = Readable then ''cannot remove busy '' else ''cannot drop busy '') @ kindName (ce_kind e))) (\<lambda>_.
     bindM (sharedDrop (ce_shared e)) (\<lambda>_. waitableDrop n)))"

definition endDrop :: "nat \<Rightarrow> ('g heap_scheme, unit) sm" where
  "endDrop n =
     bindM (getsM (\<lambda>h. ends h n)) (\<lambda>e.
     if ce_kind e = FutureKind \<and> ce_side e = Writable then
       bindM (trapIfM (ce_state e \<noteq> DONE) ''cannot drop future write end without first writing a value'') (\<lambda>_.
       copyEndDrop n)
     else copyEndDrop n)"

text \<open>\<open>copy\<close> of the four end classes.\<close>

definition endCopy ::
  "(nat \<Rightarrow> 'g heap_scheme Context) \<Rightarrow> nat \<Rightarrow> nat \<Rightarrow> nat \<Rightarrow> CopyCallback \<Rightarrow> ('g heap_scheme, unit) sm" where
  "endCopy E n ins b cb =
     bindM (getsM (\<lambda>h. ends h n)) (\<lambda>e.
     case (ce_kind e, ce_side e) of
       (StreamKind, Readable) \<Rightarrow> sharedStreamRead E (ce_shared e) ins b cb
     | (StreamKind, Writable) \<Rightarrow> sharedStreamWrite E (ce_shared e) ins b cb
     | (FutureKind, Readable) \<Rightarrow> sharedFutureRead E (ce_shared e) ins b cb
     | (FutureKind, Writable) \<Rightarrow> sharedFutureWrite E (ce_shared e) ins b cb)"

section \<open>Teardown\<close>

definition isInstancePoisoned :: "nat \<Rightarrow> 'g heap_scheme \<Rightarrow> bool" where
  "isInstancePoisoned i h \<longleftrightarrow> poisonCause h i \<noteq> None"

definition dropSharedForTeardown :: "nat \<Rightarrow> ('g heap_scheme, unit) sm" where
  "dropSharedForTeardown s =
     bindM (getsM (\<lambda>h. shareds h s)) (\<lambda>sh.
     if sh_dropped sh then returnM ()
     else
       bindM (modifyM (updShared s (\<lambda>x. x\<lparr>sh_dropped := True\<rparr>))) (\<lambda>_.
       if sh_pendingBuffer sh = None then returnM ()
       else
         bindM (getsM (\<lambda>h. case sh_pendingInst sh of None \<Rightarrow> False | Some i \<Rightarrow> isInstancePoisoned i h \<or> retired h i)) (\<lambda>dead.
         if dead then resetPending s else resetAndNotifyPending s DROPPED)))"

definition abandonSharedFuture :: "nat \<Rightarrow> string \<Rightarrow> ('g heap_scheme, unit) sm" where
  "abandonSharedFuture s reason =
     bindM (getsM (\<lambda>h. sh_dropped (shareds h s))) (\<lambda>d.
     if d then returnM ()
     else
       bindM (modifyM (updShared s (\<lambda>x. x\<lparr>sh_abandon := (case sh_abandon x of None \<Rightarrow> Some reason | r \<Rightarrow> r)\<rparr>))) (\<lambda>_.
       dropSharedForTeardown s))"

text \<open>\<open>retireInstanceAsyncEnds\<close>: the message of the recorded failure, the first pass and the second.\<close>

definition poisonMessage :: "nat \<Rightarrow> string" where
  "poisonMessage ins =
     ''component instance '' @ showNat ins @ '' trapped while it held an end of this stream/future; '' @
     ''the peer can never rendezvous again''"

definition markPoisoned :: "nat \<Rightarrow> CopyEnd \<Rightarrow> 'g heap_scheme \<Rightarrow> 'g heap_scheme" where
  "markPoisoned ins e =
     updShared (ce_shared e) (\<lambda>x.
       let f = (case sh_poisonFailure x of None \<Rightarrow> poisonMessage ins | Some m \<Rightarrow> m);
           owed = ce_kind e = FutureKind \<and> ce_side e = Writable \<and> ce_state e \<noteq> DONE \<and> \<not> sh_dropped x
       in x\<lparr>sh_poisonFailure := Some f,
            sh_abandon := (if owed \<and> sh_abandon x = None then Some f else sh_abandon x)\<rparr>)"

fun retireAll :: "nat list \<Rightarrow> error option \<Rightarrow> ('g heap_scheme, error option) sm" where
  "retireAll [] first = returnM first"
| "retireAll (s # ss) first =
     (\<lambda>h. case dropSharedForTeardown s h of
        (Inr _, h') \<Rightarrow> retireAll ss first h'
      | (Inl e, h') \<Rightarrow> retireAll ss (if first = None then Some e else first) h')"

definition tableEnds :: "Entry HTable \<Rightarrow> nat list" where
  "tableEnds t = concat (map (\<lambda>e. case e of EEnd n \<Rightarrow> [n] | _ \<Rightarrow> []) (tableElems t))"

definition retireInstanceAsyncEnds :: "nat \<Rightarrow> ('g heap_scheme, unit) sm" where
  "retireInstanceAsyncEnds ins =
     bindM (getsM (\<lambda>h. retired h ins)) (\<lambda>done.
     if done then returnM ()
     else
       bindM (modifyM (\<lambda>h. h\<lparr>retired := (retired h)(ins := True)\<rparr>)) (\<lambda>_.
       bindM (getsM (\<lambda>h. map (ends h) (tableEnds (handles h ins)))) (\<lambda>es.
       bindM (modifyM (fold (markPoisoned ins) es)) (\<lambda>_.
       bindM (retireAll (map ce_shared es) None) (\<lambda>first.
       case first of None \<Rightarrow> returnM () | Some e \<Rightarrow> throwM e)))))"

text \<open>\<open>notifyInstancePoisoned\<close> of \<open>task/scheduler.ts\<close> with the hook this module registers: first cause wins.\<close>

definition notifyInstancePoisoned :: "nat \<Rightarrow> error \<Rightarrow> ('g heap_scheme, unit) sm" where
  "notifyInstancePoisoned ins cause =
     bindM (modifyM (\<lambda>h. h\<lparr>poisonCause := (poisonCause h)(ins := (case poisonCause h ins of None \<Rightarrow> Some cause | c \<Rightarrow> c))\<rparr>)) (\<lambda>_.
     retireInstanceAsyncEnds ins)"

end
