(* ===== verification/StreamBuiltins.thy ===== *)
theory StreamBuiltins
  imports Streams
begin

text \<open>
  The delivery of events (\<open>runtime/src/task/waitable.ts\<close>) and the stream, future and
  error-context built-ins (\<open>runtime/src/intrinsics/stream_builtins.ts\<close>).  A pending event is a
  thunk; \<open>runThunk\<close> is its call.  A synchronous built-in that has to block returns \<open>Suspend\<close>
  with what it waits for when the engine can suspend the calling frame (\<open>jspi\<close>), and raises
  the capability signal otherwise; \<open>resumeCopy\<close> is what the resumed frame runs.
\<close>

section \<open>Delivering events\<close>

text \<open>\<open>streamEvent\<close> and \<open>futureEvent\<close>: the payload is computed when the event is delivered.\<close>

definition packCopy :: "CopyResult \<Rightarrow> nat \<Rightarrow> nat" where
  "packCopy result progress = unat (or (word_of_nat (copyResultNum result)) (push_bit 4 (word_of_nat progress)) :: 32 word)"

definition streamEvent ::
  "EventCode \<Rightarrow> nat \<Rightarrow> nat \<Rightarrow> nat \<Rightarrow> CopyResult \<Rightarrow> nat option \<Rightarrow> ('g heap_scheme, EventTuple) sm" where
  "streamEvent ec n i b result reclaim =
     bindM (case reclaim of None \<Rightarrow> returnM () | Some s \<Rightarrow> resetPending s) (\<lambda>_.
     bindM (getsM (\<lambda>h. ends h n)) (\<lambda>e.
     bindM (assertM (copying e) ''stream event on a non-copying end'') (\<lambda>_.
     bindM (modifyM (updEnd n (\<lambda>x. x\<lparr>ce_state := (if result = DROPPED then DONE else IDLE)\<rparr>))) (\<lambda>_.
     bindM (getsM (\<lambda>h. gb_progress (buffers h b))) (\<lambda>p.
     bindM (assertM (p \<le> BUFFER_MAX_LENGTH) ''stream progress out of packing range'') (\<lambda>_.
     bindM (assertM (copyResultNum result < 2 ^ 4) ''stream event: packed result out of 4-bit range'') (\<lambda>_.
     returnM (ec, i, packCopy result p))))))))"

definition futureEvent ::
  "EventCode \<Rightarrow> nat \<Rightarrow> nat \<Rightarrow> nat \<Rightarrow> CopyResult \<Rightarrow> ('g heap_scheme, EventTuple) sm" where
  "futureEvent ec n i b result =
     bindM (getsM (\<lambda>h. (bufRemain (buffers h b), ends h n))) (\<lambda>(r, e).
     bindM (assertM ((r = 0) = (result = COMPLETED)) ''future event/progress disagreement'') (\<lambda>_.
     bindM (assertM (copying e) ''future event on a non-copying end'') (\<lambda>_.
     bindM (modifyM (updEnd n (\<lambda>x. x\<lparr>ce_state := (if result = DROPPED \<or> result = COMPLETED then DONE else IDLE)\<rparr>))) (\<lambda>_.
     returnM (ec, i, copyResultNum result)))))"

definition runThunk :: "Thunk \<Rightarrow> ('g heap_scheme, EventTuple) sm" where
  "runThunk th =
     (case th of
        SubtaskEvent st i \<Rightarrow> subtaskEvent st i
      | StreamEvent ec n i b result reclaim \<Rightarrow> streamEvent ec n i b result reclaim
      | FutureEvent ec n i b result \<Rightarrow> futureEvent ec n i b result
      | FutureAbandoned reason \<Rightarrow> throwM (futureAbandonTrap reason))"

definition getPendingEvent :: "nat \<Rightarrow> ('g heap_scheme, EventTuple) sm" where
  "getPendingEvent w =
     bindM (getsM (\<lambda>h. pendingEvent (waitables h w))) (\<lambda>p.
     case p of
       None \<Rightarrow> throwM (AssertionError ''getPendingEvent with no pending event'')
     | Some th \<Rightarrow>
         bindM (modifyM (updWaitable w (\<lambda>x. x\<lparr>pendingEvent := None\<rparr>))) (\<lambda>_. runThunk th))"

definition wsetGetPendingEvent :: "nat \<Rightarrow> ('g heap_scheme, EventTuple) sm" where
  "wsetGetPendingEvent s =
     bindM (getsM (\<lambda>h. filter (\<lambda>w. hasPendingEvent w h) (elems (wsets h s)))) (\<lambda>ready.
     bindM (assertM (length ready > 0) ''getPendingEvent on a set with no pending event'') (\<lambda>_.
     bindM (chooseCandidate ready) (\<lambda>w.
     bindM (getsM (\<lambda>h. wset (waitables h w))) (\<lambda>back.
     bindM (assertM (back = Some s) ''waitable/waitable-set back-reference mismatch'') (\<lambda>_.
     getPendingEvent w)))))"

section \<open>New ends\<close>

definition packEnds :: "nat \<Rightarrow> nat \<Rightarrow> int" where
  "packEnds ri wi = or (int (ri mod 2 ^ 32)) (push_bit 32 (int (wi mod 2 ^ 32)))"

text \<open>What \<open>createStreamNew\<close> and \<open>createFutureNew\<close> do at their kind.\<close>

definition asyncNew :: "EndKind \<Rightarrow> ValType option \<Rightarrow> nat \<Rightarrow> ('g heap_scheme, int) sm" where
  "asyncNew k elem ins =
     bindM (getsM (\<lambda>h. mayLeave h ins)) (\<lambda>ml.
     bindM (trapIfM (\<not> ml) (kindName k @ ''.new: cannot leave component instance'')) (\<lambda>_.
     bindM (newShared k elem) (\<lambda>s.
     bindM (newEnd k Readable s) (\<lambda>r.
     bindM (onTable ins (tableAdd (EEnd r))) (\<lambda>ri.
     bindM (newEnd k Writable s) (\<lambda>w.
     bindM (onTable ins (tableAdd (EEnd w))) (\<lambda>wi.
     returnM (packEnds ri wi))))))))"

section \<open>Copies\<close>

definition BLOCKED :: nat where
  "BLOCKED = 0xffffffff"

text \<open>\<open>CopyWait\<close> is the blocked copy (site 4), \<open>CancelWait\<close> the blocked cancellation (site 4b).\<close>

datatype CopySite = CopyWait | CancelWait
datatype CopyReturn = Answer nat | Suspend CopySite EventCode nat nat

definition needsJspi :: "string \<Rightarrow> ('s, 'a) sm" where
  "needsJspi msg = throwM (Capability msg)"

definition takeCopyEvent :: "nat \<Rightarrow> EventCode \<Rightarrow> nat \<Rightarrow> ('g heap_scheme, nat) sm" where
  "takeCopyEvent n ec i =
     bindM (getPendingEvent n) (\<lambda>(code, index, payload).
     bindM (assertM (code = ec \<and> index = i) ''unexpected event delivered by a copy'') (\<lambda>_.
     returnM payload))"

definition finishCopy :: "bool \<Rightarrow> bool \<Rightarrow> nat \<Rightarrow> EventCode \<Rightarrow> nat \<Rightarrow> ('g heap_scheme, CopyReturn) sm" where
  "finishCopy jspi asyn n ec i =
     bindM (getsM (hasPendingEvent n)) (\<lambda>p.
     if p then bindM (takeCopyEvent n ec i) (\<lambda>x. returnM (Answer x))
     else if asyn then returnM (Answer BLOCKED)
     else if jspi then
       bindM (modifyM (updWaitable n (\<lambda>x. x\<lparr>hasSyncWaiter := True\<rparr>))) (\<lambda>_.
       returnM (Suspend CopyWait ec n i))
     else needsJspi ''synchronous copy with no counterpart ready'')"

text \<open>The checks \<open>streamCopy\<close> and \<open>futureCopy\<close> share; \<open>what\<close> is stream or future.\<close>

definition doneMessage :: "EndKind \<Rightarrow> EndSide \<Rightarrow> string" where
  "doneMessage k side =
     (case (k, side) of
        (StreamKind, Readable) \<Rightarrow> ''cannot read from stream after being notified that the writable end dropped''
      | (StreamKind, Writable) \<Rightarrow> ''cannot write to stream after being notified that the readable end dropped''
      | (FutureKind, Readable) \<Rightarrow> ''cannot read from future after previous read succeeded''
      | (FutureKind, Writable) \<Rightarrow> ''cannot write to future after previous write succeeded or readable end dropped'')"

definition copyChecks ::
  "EndKind \<Rightarrow> EndSide \<Rightarrow> bool \<Rightarrow> ValType option \<Rightarrow> nat \<Rightarrow> nat \<Rightarrow> ('g heap_scheme, nat) sm" where
  "copyChecks k side asyn elem ins i =
     (let what = kindName k in
      bindM (getsM (\<lambda>h. mayLeave h ins)) (\<lambda>ml.
      bindM (trapIfM (\<not> ml) (what @ '' copy: cannot leave component instance'')) (\<lambda>_.
      bindM (handlesGet ins i) (\<lambda>ent.
      bindM (asEnd ent k side (what @ '' copy: wrong end type for this handle'')) (\<lambda>(n, e).
      bindM (getsM (\<lambda>h. sh_t (shareds h (ce_shared e)))) (\<lambda>t.
      bindM (trapIfM (\<not> sameElemType t elem) (what @ '' copy: element type mismatch'')) (\<lambda>_.
      bindM (trapIfM (ce_state e = DONE) (doneMessage k side)) (\<lambda>_.
      bindM (trapIfM (ce_state e \<noteq> IDLE) ''cannot have concurrent operations active on a future/stream'') (\<lambda>_.
      bindM (getsM (inWaitableSet n)) (\<lambda>inws.
      bindM (trapIfM (inws \<and> \<not> asyn)
        (''synchronous '' @ what @ '' copy on an end that is in a waitable set'')) (\<lambda>_.
      returnM n)))))))))))"

definition streamCopy ::
  "(nat \<Rightarrow> 'g heap_scheme Context) \<Rightarrow> bool \<Rightarrow> bool \<Rightarrow> EndSide \<Rightarrow> ValType option \<Rightarrow> nat \<Rightarrow> nat \<Rightarrow> nat \<Rightarrow> int \<Rightarrow> int \<Rightarrow>
     ('g heap_scheme, CopyReturn) sm" where
  "streamCopy E jspi asyn side elem oi ins i ptr len =
     (let ec = (if side = Readable then EvSTREAM_READ else EvSTREAM_WRITE) in
      bindM (copyChecks StreamKind side asyn elem ins i) (\<lambda>n.
      bindM (newBuffer E elem oi ins ptr len) (\<lambda>b.
      bindM (assertM (elem \<noteq> Some (TPrim KChar)) ''stream copy: char element'') (\<lambda>_.
      bindM (modifyM (updEnd n (\<lambda>x. x\<lparr>ce_state := COPYING\<rparr>))) (\<lambda>_.
      bindM (endCopy E n ins b (GuestCopy ec n i b)) (\<lambda>_.
      finishCopy jspi asyn n ec i))))))"

definition futureCopy ::
  "(nat \<Rightarrow> 'g heap_scheme Context) \<Rightarrow> bool \<Rightarrow> bool \<Rightarrow> EndSide \<Rightarrow> ValType option \<Rightarrow> nat \<Rightarrow> nat \<Rightarrow> nat \<Rightarrow> int \<Rightarrow>
     ('g heap_scheme, CopyReturn) sm" where
  "futureCopy E jspi asyn side elem oi ins i ptr =
     (let ec = (if side = Readable then EvFUTURE_READ else EvFUTURE_WRITE) in
      bindM (copyChecks FutureKind side asyn elem ins i) (\<lambda>n.
      bindM (newBuffer E elem oi ins ptr 1) (\<lambda>b.
      bindM (modifyM (updEnd n (\<lambda>x. x\<lparr>ce_state := COPYING\<rparr>))) (\<lambda>_.
      bindM (endCopy E n ins b (GuestCopy ec n i b)) (\<lambda>_.
      finishCopy jspi asyn n ec i)))))"

section \<open>Cancellation\<close>

text \<open>An undelivered stream completion is superseded by the cancellation, keeping its count.\<close>

definition supersede :: "EventCode \<Rightarrow> nat \<Rightarrow> nat" where
  "supersede ec payload =
     (if (ec = EvSTREAM_READ \<or> ec = EvSTREAM_WRITE) \<and>
         unat (and (word_of_nat payload) 0xf :: 32 word) = copyResultNum COMPLETED
      then unat (or (and (word_of_nat payload) (not 0xf)) (word_of_nat (copyResultNum CANCELLED)) :: 32 word)
      else payload)"

definition takeCancelEvent :: "nat \<Rightarrow> EventCode \<Rightarrow> nat \<Rightarrow> string \<Rightarrow> ('g heap_scheme, nat) sm" where
  "takeCancelEvent n ec i what =
     bindM (getPendingEvent n) (\<lambda>(code, index, payload).
     bindM (getsM (\<lambda>h. ends h n)) (\<lambda>e.
     bindM (assertM (\<not> copying e \<and> code = ec \<and> index = i) (''unexpected event delivered by '' @ what)) (\<lambda>_.
     returnM (supersede ec payload))))"

definition copyCode :: "EndKind \<Rightarrow> EndSide \<Rightarrow> EventCode" where
  "copyCode k side =
     (case (k, side) of
        (StreamKind, Readable) \<Rightarrow> EvSTREAM_READ
      | (StreamKind, Writable) \<Rightarrow> EvSTREAM_WRITE
      | (FutureKind, Readable) \<Rightarrow> EvFUTURE_READ
      | (FutureKind, Writable) \<Rightarrow> EvFUTURE_WRITE)"

definition cancelName :: "EndKind \<Rightarrow> EndSide \<Rightarrow> string" where
  "cancelName k side = kindName k @ (if side = Readable then ''.cancel-read'' else ''.cancel-write'')"

definition cancelCopy ::
  "bool \<Rightarrow> bool \<Rightarrow> EndKind \<Rightarrow> EndSide \<Rightarrow> ValType option \<Rightarrow> nat \<Rightarrow> nat \<Rightarrow> ('g heap_scheme, CopyReturn) sm" where
  "cancelCopy jspi asyn k side elem ins i =
     (let ec = copyCode k side; what = cancelName k side;
          report = (\<lambda>n. bindM (takeCancelEvent n ec i what) (\<lambda>x. returnM (Answer x))) in
      bindM (getsM (\<lambda>h. mayLeave h ins)) (\<lambda>ml.
      bindM (trapIfM (\<not> ml) (what @ '': cannot leave component instance'')) (\<lambda>_.
      bindM (handlesGet ins i) (\<lambda>ent.
      bindM (asEnd ent k side (what @ '': wrong end type for this handle'')) (\<lambda>(n, e).
      bindM (getsM (\<lambda>h. (sh_t (shareds h (ce_shared e)), waitables h n))) (\<lambda>(t, w).
      bindM (trapIfM (\<not> sameElemType t elem) (what @ '': element type mismatch'')) (\<lambda>_.
      bindM (trapIfM (ce_state e \<noteq> COPYING \<or> hasSyncWaiter w) (what @ '': end is not in a cancellable copy'')) (\<lambda>_.
      bindM (trapIfM (wset w \<noteq> None \<and> \<not> asyn)
        (what @ '': synchronous cancel on an end that is in a waitable set'')) (\<lambda>_.
      bindM (modifyM (updEnd n (\<lambda>x. x\<lparr>ce_state := CANCELLING_COPY\<rparr>))) (\<lambda>_.
      bindM (getsM (hasPendingEvent n)) (\<lambda>p.
      if p then report n
      else
        bindM (sharedCancel (ce_shared e)) (\<lambda>_.
        bindM (getsM (hasPendingEvent n)) (\<lambda>q.
        if q then report n
        else if asyn then returnM (Answer BLOCKED)
        else if jspi then returnM (Suspend CancelWait ec n i)
        else needsJspi (''synchronous '' @ what @ '' whose copy did not settle immediately''))))))))))))))"

text \<open>A suspended frame is ready when its end has an event; \<open>produce\<close> then reports it.\<close>

definition resumeCopy :: "CopySite \<Rightarrow> EventCode \<Rightarrow> nat \<Rightarrow> nat \<Rightarrow> string \<Rightarrow> ('g heap_scheme, nat) sm" where
  "resumeCopy site ec n i what =
     (case site of
        CopyWait \<Rightarrow>
          bindM (modifyM (updWaitable n (\<lambda>x. x\<lparr>hasSyncWaiter := False\<rparr>))) (\<lambda>_. takeCopyEvent n ec i)
      | CancelWait \<Rightarrow> takeCancelEvent n ec i what)"

section \<open>Dropping\<close>

definition dropName :: "EndKind \<Rightarrow> EndSide \<Rightarrow> string" where
  "dropName k side = kindName k @ (if side = Readable then ''.drop-readable'' else ''.drop-writable'')"

definition dropEnd :: "EndKind \<Rightarrow> EndSide \<Rightarrow> ValType option \<Rightarrow> nat \<Rightarrow> nat \<Rightarrow> ('g heap_scheme, unit) sm" where
  "dropEnd k side elem ins hi =
     (let what = dropName k side in
      bindM (getsM (\<lambda>h. mayLeave h ins)) (\<lambda>ml.
      bindM (trapIfM (\<not> ml) (what @ '': cannot leave component instance'')) (\<lambda>_.
      bindM (onTable ins (tableRemove hi)) (\<lambda>ent.
      bindM (asEnd ent k side (what @ '': wrong end type for this handle'')) (\<lambda>(n, e).
      bindM (getsM (\<lambda>h. sh_t (shareds h (ce_shared e)))) (\<lambda>t.
      bindM (trapIfM (\<not> sameElemType t elem) (what @ '': element type mismatch'')) (\<lambda>_.
      endDrop n)))))))"

section \<open>Error contexts\<close>

definition createErrorContextNew ::
  "(nat \<Rightarrow> 'g heap_scheme Context) \<Rightarrow> nat \<Rightarrow> nat \<Rightarrow> int \<Rightarrow> int \<Rightarrow> ('g heap_scheme, nat) sm" where
  "createErrorContextNew E oi ins ptr taggedCodeUnits =
     bindM (getsM (\<lambda>h. mayLeave h ins)) (\<lambda>ml.
     bindM (trapIfM (\<not> ml) ''error-context.new: cannot leave component instance'') (\<lambda>_.
     bindM (loadStringFromRange (copyContext E oi ins) ptr taggedCodeUnits) (\<lambda>s.
     bindM freshId (\<lambda>c.
     bindM (modifyM (\<lambda>h. h\<lparr>errMessages := (errMessages h)(c := s)\<rparr>)) (\<lambda>_.
     onTable ins (tableAdd (EErrorContext c)))))))"

text \<open>At a negative address the string is placed and the store of its pointer is a \<open>RangeError\<close>.\<close>

definition createErrorContextDebugMessage ::
  "(nat \<Rightarrow> 'g heap_scheme Context) \<Rightarrow> nat \<Rightarrow> nat \<Rightarrow> nat \<Rightarrow> int \<Rightarrow> ('g heap_scheme, unit) sm" where
  "createErrorContextDebugMessage E oi ins i ptr =
     bindM (getsM (\<lambda>h. mayLeave h ins)) (\<lambda>ml.
     bindM (trapIfM (\<not> ml) ''error-context.debug-message: cannot leave component instance'') (\<lambda>_.
     bindM (handlesGet ins i) (\<lambda>ent.
     case ent of
       EErrorContext c \<Rightarrow>
         bindM (getsM (\<lambda>h. errMessages h c)) (\<lambda>s.
         if ptr \<ge> 0 then storeString (copyContext E oi ins) s (nat ptr)
         else bindM (storeStringIntoRange (copyContext E oi ins) s) (\<lambda>_. throwM (JsError ''RangeError'')))
     | _ \<Rightarrow> throwM (Trap (errorContextTrapMessage ''error-context.debug-message'')))))"

definition createErrorContextDrop :: "nat \<Rightarrow> nat \<Rightarrow> ('g heap_scheme, unit) sm" where
  "createErrorContextDrop ins i =
     bindM (getsM (\<lambda>h. mayLeave h ins)) (\<lambda>ml.
     bindM (trapIfM (\<not> ml) ''error-context.drop: cannot leave component instance'') (\<lambda>_.
     bindM (onTable ins (tableRemove i)) (\<lambda>ent.
     case ent of
       EErrorContext c \<Rightarrow> returnM ()
     | _ \<Rightarrow> throwM (Trap (errorContextTrapMessage ''error-context.drop'')))))"

definition transferAsyncEnd ::
  "EndKind \<Rightarrow> nat \<Rightarrow> nat \<Rightarrow> ValType option \<Rightarrow> ValType option \<Rightarrow> nat \<Rightarrow> ('g heap_scheme, nat) sm" where
  "transferAsyncEnd k srcInst dstInst srcElem dstElem srcIdx =
     (let what = kindName k in
      bindM (onTable srcInst (tableRemove srcIdx)) (\<lambda>ent.
      bindM (asEnd ent k Readable (what @ '': handle is not a readable '' @ what @ '' end'')) (\<lambda>(n, e).
      bindM (getsM (\<lambda>h. sh_t (shareds h (ce_shared e)))) (\<lambda>t.
      bindM (trapIfM (\<not> sameElemType t srcElem) (what @ '': source element mismatch'')) (\<lambda>_.
      bindM (trapIfM (\<not> sameElemType t dstElem) (what @ '': destination element mismatch'')) (\<lambda>_.
      bindM (trapIfM (ce_state e = DONE)
               (if k = FutureKind then ''cannot lift future after previous read succeeded''
                else ''cannot lift stream after being notified that the writable end dropped'')) (\<lambda>_.
      bindM (trapIfM (ce_state e \<noteq> IDLE) (''cannot remove busy '' @ what)) (\<lambda>_.
      bindM (getsM (inWaitableSet n)) (\<lambda>inws.
      bindM (trapIfM inws (''cannot lift '' @ what @ '' while it's in a waitable set'')) (\<lambda>_.
      bindM (newEnd k Readable (ce_shared e)) (\<lambda>m.
      onTable dstInst (tableAdd (EEnd m)))))))))))))"

definition createErrorContextTransfer :: "nat \<Rightarrow> nat \<Rightarrow> nat \<Rightarrow> ('g heap_scheme, nat) sm" where
  "createErrorContextTransfer srcInst dstInst srcIdx =
     bindM (handlesGet srcInst srcIdx) (\<lambda>ent.
     case ent of
       EErrorContext c \<Rightarrow> onTable dstInst (tableAdd (EErrorContext c))
     | _ \<Rightarrow> throwM (Trap (errorContextTrapMessage ''error-context transfer'')))"

section \<open>The trampolines\<close>

text \<open>
  What the built-ins need of the executor (\<open>StreamTrampolineContext\<close>, \<open>AsyncTransferContext\<close>): the canonical
  options of an option index, with their \<open>async\<close> flag, the element types of the stream and
  future tables and the instances the tables belong to, and the suspension mode.  The factories
  close over the declaration of one built-in, whose fields are the arguments here.
\<close>

record 'g TrampolineContext =
  tc_options :: "nat \<Rightarrow> 'g heap_scheme Context"
  tc_async :: "nat \<Rightarrow> bool"
  tc_streamElem :: "nat \<Rightarrow> ValType option"
  tc_futureElem :: "nat \<Rightarrow> ValType option"
  tc_streamTableInstance :: "nat \<Rightarrow> nat"
  tc_futureTableInstance :: "nat \<Rightarrow> nat"
  tc_jspi :: bool

definition createStreamNew :: "'g TrampolineContext \<Rightarrow> nat \<Rightarrow> nat \<Rightarrow> ('g heap_scheme, int) sm" where
  "createStreamNew T tab ins = asyncNew StreamKind (tc_streamElem T tab) ins"

definition createFutureNew :: "'g TrampolineContext \<Rightarrow> nat \<Rightarrow> nat \<Rightarrow> ('g heap_scheme, int) sm" where
  "createFutureNew T tab ins = asyncNew FutureKind (tc_futureElem T tab) ins"

definition createStreamRead ::
  "'g TrampolineContext \<Rightarrow> nat \<Rightarrow> nat \<Rightarrow> nat \<Rightarrow> nat \<Rightarrow> int \<Rightarrow> int \<Rightarrow> ('g heap_scheme, CopyReturn) sm" where
  "createStreamRead T tab oi ins i ptr n =
     streamCopy (tc_options T) (tc_jspi T) (tc_async T oi) Readable (tc_streamElem T tab) oi ins i ptr n"

definition createStreamWrite ::
  "'g TrampolineContext \<Rightarrow> nat \<Rightarrow> nat \<Rightarrow> nat \<Rightarrow> nat \<Rightarrow> int \<Rightarrow> int \<Rightarrow> ('g heap_scheme, CopyReturn) sm" where
  "createStreamWrite T tab oi ins i ptr n =
     streamCopy (tc_options T) (tc_jspi T) (tc_async T oi) Writable (tc_streamElem T tab) oi ins i ptr n"

definition createFutureRead ::
  "'g TrampolineContext \<Rightarrow> nat \<Rightarrow> nat \<Rightarrow> nat \<Rightarrow> nat \<Rightarrow> int \<Rightarrow> ('g heap_scheme, CopyReturn) sm" where
  "createFutureRead T tab oi ins i ptr =
     futureCopy (tc_options T) (tc_jspi T) (tc_async T oi) Readable (tc_futureElem T tab) oi ins i ptr"

definition createFutureWrite ::
  "'g TrampolineContext \<Rightarrow> nat \<Rightarrow> nat \<Rightarrow> nat \<Rightarrow> nat \<Rightarrow> int \<Rightarrow> ('g heap_scheme, CopyReturn) sm" where
  "createFutureWrite T tab oi ins i ptr =
     futureCopy (tc_options T) (tc_jspi T) (tc_async T oi) Writable (tc_futureElem T tab) oi ins i ptr"

definition createStreamCancelRead ::
  "'g TrampolineContext \<Rightarrow> nat \<Rightarrow> bool \<Rightarrow> nat \<Rightarrow> nat \<Rightarrow> ('g heap_scheme, CopyReturn) sm" where
  "createStreamCancelRead T tab asyn ins i =
     cancelCopy (tc_jspi T) asyn StreamKind Readable (tc_streamElem T tab) ins i"

definition createStreamCancelWrite ::
  "'g TrampolineContext \<Rightarrow> nat \<Rightarrow> bool \<Rightarrow> nat \<Rightarrow> nat \<Rightarrow> ('g heap_scheme, CopyReturn) sm" where
  "createStreamCancelWrite T tab asyn ins i =
     cancelCopy (tc_jspi T) asyn StreamKind Writable (tc_streamElem T tab) ins i"

definition createFutureCancelRead ::
  "'g TrampolineContext \<Rightarrow> nat \<Rightarrow> bool \<Rightarrow> nat \<Rightarrow> nat \<Rightarrow> ('g heap_scheme, CopyReturn) sm" where
  "createFutureCancelRead T tab asyn ins i =
     cancelCopy (tc_jspi T) asyn FutureKind Readable (tc_futureElem T tab) ins i"

definition createFutureCancelWrite ::
  "'g TrampolineContext \<Rightarrow> nat \<Rightarrow> bool \<Rightarrow> nat \<Rightarrow> nat \<Rightarrow> ('g heap_scheme, CopyReturn) sm" where
  "createFutureCancelWrite T tab asyn ins i =
     cancelCopy (tc_jspi T) asyn FutureKind Writable (tc_futureElem T tab) ins i"

definition createStreamDropReadable :: "'g TrampolineContext \<Rightarrow> nat \<Rightarrow> nat \<Rightarrow> nat \<Rightarrow> ('g heap_scheme, unit) sm" where
  "createStreamDropReadable T tab ins i = dropEnd StreamKind Readable (tc_streamElem T tab) ins i"

definition createStreamDropWritable :: "'g TrampolineContext \<Rightarrow> nat \<Rightarrow> nat \<Rightarrow> nat \<Rightarrow> ('g heap_scheme, unit) sm" where
  "createStreamDropWritable T tab ins i = dropEnd StreamKind Writable (tc_streamElem T tab) ins i"

definition createFutureDropReadable :: "'g TrampolineContext \<Rightarrow> nat \<Rightarrow> nat \<Rightarrow> nat \<Rightarrow> ('g heap_scheme, unit) sm" where
  "createFutureDropReadable T tab ins i = dropEnd FutureKind Readable (tc_futureElem T tab) ins i"

definition createFutureDropWritable :: "'g TrampolineContext \<Rightarrow> nat \<Rightarrow> nat \<Rightarrow> nat \<Rightarrow> ('g heap_scheme, unit) sm" where
  "createFutureDropWritable T tab ins i = dropEnd FutureKind Writable (tc_futureElem T tab) ins i"

definition createStreamTransfer :: "'g TrampolineContext \<Rightarrow> nat \<Rightarrow> nat \<Rightarrow> nat \<Rightarrow> ('g heap_scheme, nat) sm" where
  "createStreamTransfer T srcIdx srcTable dstTable =
     transferAsyncEnd StreamKind (tc_streamTableInstance T srcTable) (tc_streamTableInstance T dstTable)
       (tc_streamElem T srcTable) (tc_streamElem T dstTable) srcIdx"

definition createFutureTransfer :: "'g TrampolineContext \<Rightarrow> nat \<Rightarrow> nat \<Rightarrow> nat \<Rightarrow> ('g heap_scheme, nat) sm" where
  "createFutureTransfer T srcIdx srcTable dstTable =
     transferAsyncEnd FutureKind (tc_futureTableInstance T srcTable) (tc_futureTableInstance T dstTable)
       (tc_futureElem T srcTable) (tc_futureElem T dstTable) srcIdx"

end
