(* ===== verification/Flatten.thy ===== *)
theory Flatten
  imports Memory
begin

text \<open>
  Flattening (\<open>runtime/src/cabi/flatten.ts\<close>): the core signature of a component function type
  and the core lanes of a component value type.  \<open>MAX_FLAT_RESULTS\<close> has the value production
  code runs with; its setter exists for the test suite only.
\<close>

section \<open>The flattening functions\<close>

definition MAX_FLAT_PARAMS :: nat where "MAX_FLAT_PARAMS = 16"
definition MAX_FLAT_ASYNC_PARAMS :: nat where "MAX_FLAT_ASYNC_PARAMS = 4"
definition MAX_FLAT_RESULTS :: nat where "MAX_FLAT_RESULTS = 1"

datatype FlattenContext = LiftContext | LowerContext

definition join :: "CoreType \<Rightarrow> CoreType \<Rightarrow> CoreType" where
  "join a b =
     (if a = b then a
      else if (a = I32 \<and> b = F32) \<or> (a = F32 \<and> b = I32) then I32
      else I64)"

text \<open>The \<open>forEach\<close> of \<open>flattenVariant\<close>: join lane by lane, append the lanes that are new.\<close>

fun joinLanes :: "CoreType list \<Rightarrow> CoreType list \<Rightarrow> CoreType list" where
  "joinLanes flat [] = flat"
| "joinLanes [] (t # ts) = t # ts"
| "joinLanes (f # fs) (t # ts) = join f t # joinLanes fs ts"

definition ptrType :: "'z LiftOptions_scheme \<Rightarrow> PtrType result" where
  "ptrType op = bindR (requireMemory op) (\<lambda>m. Ok (addrType m))"

function flattenType :: "ValType \<Rightarrow> 'z LiftOptions_scheme \<Rightarrow> CoreType list result"
  and flattenList :: "ValType \<Rightarrow> nat option \<Rightarrow> 'z LiftOptions_scheme \<Rightarrow> CoreType list result"
  and flattenRecord :: "FieldType list \<Rightarrow> 'z LiftOptions_scheme \<Rightarrow> CoreType list result"
  and flattenCases :: "CoreType list \<Rightarrow> CaseType list \<Rightarrow> 'z LiftOptions_scheme \<Rightarrow> CoreType list result"
  and flattenVariant :: "CaseType list \<Rightarrow> 'z LiftOptions_scheme \<Rightarrow> CoreType list result" where
  "flattenType t op =
     (case despecialize t of
        TPrim KS64 \<Rightarrow> Ok [I64]
      | TPrim KU64 \<Rightarrow> Ok [I64]
      | TPrim KF32 \<Rightarrow> Ok [F32]
      | TPrim KF64 \<Rightarrow> Ok [F64]
      | TPrim KString \<Rightarrow> bindR (ptrType op) (\<lambda>p. Ok [p, p])
      | TPrim _ \<Rightarrow> Ok [I32]
      | TErrorContext \<Rightarrow> Ok [I32]
      | TList e n \<Rightarrow> flattenList e n op
      | TRecord fs \<Rightarrow> flattenRecord fs op
      | TVariant cs \<Rightarrow> flattenVariant cs op
      | _ \<Rightarrow> Ok [I32])"
| "flattenList e n op =
     (case n of
        Some len \<Rightarrow> bindR (flattenType e op) (\<lambda>one. Ok (concat (replicate len one)))
      | None \<Rightarrow> bindR (ptrType op) (\<lambda>p. Ok [p, p]))"
| "flattenRecord [] op = Ok []"
| "flattenRecord (f # fs) op =
     bindR (flattenType (snd f) op) (\<lambda>a. bindR (flattenRecord fs op) (\<lambda>b. Ok (a @ b)))"
| "flattenCases flat [] op = Ok flat"
| "flattenCases flat (c # cs) op =
     (case snd c of
        None \<Rightarrow> flattenCases flat cs op
      | Some t \<Rightarrow> bindR (flattenType t op) (\<lambda>ts. flattenCases (joinLanes flat ts) cs op))"
| "flattenVariant cs op =
     bindR (flattenCases [] cs op) (\<lambda>flat.
     bindR (discriminantType cs) (\<lambda>d.
     bindR (flattenType d op) (\<lambda>ds. Ok (ds @ flat))))"
  by pat_completeness auto

termination
  by (relation "measure (\<lambda>x. case x of
        Inl (Inl (t, _)) \<Rightarrow> 3 * tsize t
      | Inl (Inr (e, _, _)) \<Rightarrow> Suc (3 * tsize e)
      | Inr (Inl (fs, _)) \<Rightarrow> 3 * fsize fs
      | Inr (Inr (Inl (_, cs, _))) \<Rightarrow> 3 * csize cs
      | Inr (Inr (Inr (cs, _))) \<Rightarrow> Suc (3 * csize cs))")
    (fastforce dest: tsize_despecialize discriminant_size)+

declare flattenType.simps [simp del] flattenVariant.simps [simp del]

fun flattenTypes :: "ValType list \<Rightarrow> 'z LiftOptions_scheme \<Rightarrow> CoreType list result" where
  "flattenTypes [] op = Ok []"
| "flattenTypes (t # ts) op =
     bindR (flattenType t op) (\<lambda>a. bindR (flattenTypes ts op) (\<lambda>b. Ok (a @ b)))"

definition flattenFunctype ::
  "('s, 'z) CanonicalOptions_scheme \<Rightarrow> FuncType \<Rightarrow> FlattenContext \<Rightarrow> CoreFuncType result" where
  "flattenFunctype op ft cx =
     bindR (flattenTypes (ftParams ft) op) (\<lambda>flatParams.
     bindR (flattenTypes (ftResults ft) op) (\<lambda>flatResults.
     if \<not> isAsync op then
       bindR (if length flatParams > MAX_FLAT_PARAMS then bindR (ptrType op) (\<lambda>p. Ok [p])
              else Ok flatParams) (\<lambda>flatParams1.
       if length flatResults > MAX_FLAT_RESULTS then
         (case cx of
            LiftContext \<Rightarrow> bindR (ptrType op) (\<lambda>p. Ok \<lparr>cparams = flatParams1, cresults = [p]\<rparr>)
          | LowerContext \<Rightarrow> bindR (ptrType op) (\<lambda>p.
              Ok \<lparr>cparams = flatParams1 @ [p], cresults = []\<rparr>))
       else Ok \<lparr>cparams = flatParams1, cresults = flatResults\<rparr>)
     else
       (case cx of
          LiftContext \<Rightarrow>
            bindR (if length flatParams > MAX_FLAT_PARAMS then bindR (ptrType op) (\<lambda>p. Ok [p])
                   else Ok flatParams) (\<lambda>flatParams1.
            Ok \<lparr>cparams = flatParams1, cresults = (if callback op then [I32] else [])\<rparr>)
        | LowerContext \<Rightarrow>
            bindR (if length flatParams > MAX_FLAT_ASYNC_PARAMS then bindR (ptrType op) (\<lambda>p. Ok [p])
                   else Ok flatParams) (\<lambda>flatParams1.
            bindR (if length flatResults > 0 then bindR (ptrType op) (\<lambda>p. Ok (flatParams1 @ [p]))
                   else Ok flatParams1) (\<lambda>flatParams2.
            Ok \<lparr>cparams = flatParams2, cresults = [I32]\<rparr>)))))"

section \<open>The lane order\<close>

text \<open>
  \<open>laneLe a b\<close>: a value of lane type \<open>a\<close> can travel in a lane of type \<open>b\<close>; these are the
  pairs the coercions of \<open>lift.ts\<close> and \<open>lower.ts\<close> handle.
\<close>

definition laneLe :: "CoreType \<Rightarrow> CoreType \<Rightarrow> bool" where
  "laneLe a b \<longleftrightarrow> a = b \<or> (b = I32 \<and> a = F32) \<or> b = I64"

lemma join_laneLe [simp]: "laneLe a (join a b)" "laneLe b (join a b)"
  by (cases a; cases b; simp add: join_def laneLe_def)+

lemma join_least: "laneLe a c \<Longrightarrow> laneLe b c \<Longrightarrow> laneLe (join a b) c"
  by (cases a; cases b; cases c; simp add: join_def laneLe_def)

lemma laneLe_refl [simp]: "laneLe a a"
  by (simp add: laneLe_def)

lemma laneLe_trans: "laneLe a b \<Longrightarrow> laneLe b c \<Longrightarrow> laneLe a c"
  by (auto simp: laneLe_def)

lemma laneLe_antisym: "laneLe a b \<Longrightarrow> laneLe b a \<Longrightarrow> a = b"
  by (auto simp: laneLe_def)

lemma join_commute: "join a b = join b a"
  by (rule laneLe_antisym) (simp_all add: join_least)

lemma join_assoc: "join (join a b) c = join a (join b c)"
  by (cases a; cases b; cases c; simp add: join_def)

lemma join_idem [simp]: "join a a = a"
  by (simp add: join_def)

text \<open>\<open>lanesLe ts flat\<close>: the lanes \<open>ts\<close> fit the first lanes of \<open>flat\<close>.\<close>

fun lanesLe :: "CoreType list \<Rightarrow> CoreType list \<Rightarrow> bool" where
  "lanesLe [] flat = True"
| "lanesLe (t # ts) [] = False"
| "lanesLe (t # ts) (f # fs) = (laneLe t f \<and> lanesLe ts fs)"

lemma lanesLe_refl [simp]: "lanesLe ts ts"
  by (induction ts) auto

lemma lanesLe_trans: "lanesLe a b \<Longrightarrow> lanesLe b c \<Longrightarrow> lanesLe a c"
proof (induction a b arbitrary: c rule: lanesLe.induct)
  case (3 t ts f fs)
  then show ?case by (cases c) (auto intro: laneLe_trans)
qed auto

lemma lanesLe_joinLanes: "lanesLe flat (joinLanes flat ts)" "lanesLe ts (joinLanes flat ts)"
  by (induction flat ts rule: joinLanes.induct) auto

lemma lanesLe_length: "lanesLe a b \<Longrightarrow> length a \<le> length b"
  by (induction a b rule: lanesLe.induct) auto

lemma flattenCases_lanes:
  assumes "flattenCases flat cs op = Inr out"
  shows "lanesLe flat out \<and>
    (\<forall>c \<in> set cs. \<forall>t. snd c = Some t \<longrightarrow> (\<exists>ts. flattenType t op = Inr ts \<and> lanesLe ts out))"
  using assms
proof (induction cs arbitrary: flat)
  case (Cons c cs)
  show ?case
  proof (cases "snd c")
    case None
    then show ?thesis using Cons by simp
  next
    case (Some t)
    then obtain ts where ts: "flattenType t op = Inr ts"
      and out: "flattenCases (joinLanes flat ts) cs op = Inr out"
      using Cons.prems by (auto simp: bindR_eq_Inr)
    note IH = Cons.IH [OF out]
    from lanesLe_trans [OF lanesLe_joinLanes(1) conjunct1 [OF IH]]
      lanesLe_trans [OF lanesLe_joinLanes(2) conjunct1 [OF IH]]
    show ?thesis using IH ts Some by auto
  qed
qed simp

lemma flattenType_TPrim [simp]:
  "k \<in> {KU8, KU16, KU32} \<Longrightarrow> flattenType (TPrim k) op = Inr [I32]"
  by (auto simp: flattenType.simps)

text \<open>Every case of a variant fits the lanes after the discriminant.\<close>

lemma flattenVariant_lanes:
  assumes "flattenVariant cs op = Inr lanes"
  obtains flat where "lanes = I32 # flat" "flattenCases [] cs op = Inr flat"
    "\<And>c t. c \<in> set cs \<Longrightarrow> snd c = Some t \<Longrightarrow>
       \<exists>ts. flattenType t op = Inr ts \<and> lanesLe ts flat"
proof -
  obtain flat d ds where f: "flattenCases [] cs op = Inr flat" "discriminantType cs = Inr d"
    "flattenType d op = Inr ds" "lanes = ds @ flat"
    using assms by (auto simp: flattenVariant.simps bindR_eq_Inr)
  have "\<exists>k \<in> {KU8, KU16, KU32}. d = TPrim k"
    using f(2) by (auto simp: discriminantType_def Let_def split: if_splits)
  then have "ds = [I32]" using f(3) by auto
  with f flattenCases_lanes [OF f(1)] show thesis by (intro that [of flat]) auto
qed

section \<open>Totality\<close>

lemma flattenRecord_ok:
  "\<forall>f \<in> set fs. \<exists>ts. flattenType (snd f) op = Inr ts \<and> ts \<noteq> [] \<Longrightarrow>
   \<exists>ts. flattenRecord fs op = Inr ts \<and> (fs \<noteq> [] \<longrightarrow> ts \<noteq> [])"
  by (induction fs) auto

lemma flattenCases_ok:
  "\<forall>c \<in> set cs. \<forall>t. snd c = Some t \<longrightarrow> (\<exists>ts. flattenType t op = Inr ts) \<Longrightarrow>
   \<exists>ts. flattenCases flat cs op = Inr ts"
proof (induction cs arbitrary: flat)
  case (Cons c cs)
  then show ?case by (cases "snd c") auto
qed simp

lemma flattenType_total:
  assumes "wf_type t" "memory op = Some m"
  shows "\<exists>ts. flattenType t op = Inr ts \<and> ts \<noteq> []"
  using assms(1)
proof (induction t rule: tsize_induct)
  case (type t)
  have pt: "ptrType op = Inr (addrType m)" by (simp add: ptrType_def requireMemory_def assms(2))
  show ?case
  proof (cases "despecialize t")
    case (TPrim k)
    then show ?thesis using pt by (cases k) (simp_all add: flattenType.simps [of t])
  next
    case (TList e n)
    have e: "wf_type e" "n \<noteq> Some 0" using type.prems TList by (simp_all add: wf_type.simps [of t])
    obtain ts where "flattenType e op = Inr ts" "ts \<noteq> []"
      using type.IH [OF tsize_despecialize_list [OF TList] e(1)] by blast
    then show ?thesis using pt TList e(2)
      by (cases n) (auto simp: flattenType.simps [of t] gr0_conv_Suc)
  next
    case (TRecord fs)
    then have "fs \<noteq> []" using type.prems by (simp add: wf_type.simps [of t])
    moreover have "\<exists>ts. flattenType (snd f) op = Inr ts \<and> ts \<noteq> []" if "f \<in> set fs" for f
      using type.IH [of "snd f"] tsize_record_part [OF TRecord that]
        wf_record_field [OF type.prems TRecord that] by simp
    ultimately show ?thesis using flattenRecord_ok [of fs op] TRecord
      by (auto simp: flattenType.simps [of t])
  next
    case (TVariant cs)
    then have cs: "cs \<noteq> []" "length cs < 2 ^ 32" using type.prems by (simp_all add: wf_type.simps [of t])
    have "\<exists>ts. flattenType u op = Inr ts" if "c \<in> set cs" "snd c = Some u" for c u
      using type.IH [OF tsize_variant_part [OF TVariant that] wf_variant_case [OF type.prems TVariant that]]
      by blast
    then obtain flat where "flattenCases [] cs op = Inr flat"
      using flattenCases_ok [of cs op "[]"] by blast
    moreover obtain k where "discriminantType cs = Inr (TPrim k)" "k \<in> {KU8, KU16, KU32}"
      by (rule discriminant_cases [OF cs, of I32])
    ultimately show ?thesis using TVariant
      by (simp add: flattenType.simps [of t] flattenVariant.simps)
  qed (use despecialize_not_specialized [of t] in
      \<open>simp_all add: flattenType.simps [of t] specialized_def\<close>)
qed

section \<open>Properties\<close>

text \<open>Options of an async import with a memory, for the examples.\<close>

definition op0 :: "unit CanonicalOptions" where
  "op0 = \<lparr>stringEncoding = Utf8, memory = Some \<lparr>memId = 0, addrType = I32, mBase = 0\<rparr>,
     realloc = None, postReturn = None, isAsync = True, callback = False\<rparr>"


definition memOptions :: LiftOptions where
  "memOptions = \<lparr>stringEncoding = Utf8, memory = Some \<lparr>memId = 0, addrType = I32, mBase = 0\<rparr>\<rparr>"


text \<open>\<open>join\<close> is the least upper bound of two lane types in the coercion order: commutative,
  associative, idempotent, above both, and below every lane type above both.\<close>

lemma join_semilattice:
  "join a b = join b a \<and> join (join a b) c = join a (join b c) \<and> join a a = a \<and>
   laneLe a (join a b) \<and> (laneLe (join a b) c \<longleftrightarrow> laneLe a c \<and> laneLe b c)"
proof -
  have "laneLe (join a b) c \<longleftrightarrow> laneLe a c \<and> laneLe b c"
    using join_least laneLe_trans [OF join_laneLe(1)] laneLe_trans [OF join_laneLe(2)] by blast
  with join_commute [of a b] join_assoc [of a b c] show ?thesis by simp
qed

text \<open>With a memory and well-formed types a function type always flattens; a lifted function gets
  at most 16 parameters and at most one result, a sync lowered one at most 17 (16 and the
  return pointer), an async lowered one at most 5 and the single i32 status.\<close>

lemma flattenFunctype_bounds:
  assumes "\<forall>t \<in> set (ftParams ft @ ftResults ft). wf_type t" "memory op = Some m"
  shows "\<exists>sig. flattenFunctype op ft cx = Inr sig \<and> length (cresults sig) \<le> 1 \<and>
    length (cparams sig) \<le> (if cx = LiftContext then 16 else if isAsync op then 5 else 17) \<and>
    (isAsync op \<and> cx = LowerContext \<longrightarrow> cresults sig = [I32])"
proof -
  have tot: "\<exists>fl. flattenTypes ts op = Inr fl" if "\<forall>t \<in> set ts. wf_type t" for ts
    using that
  proof (induction ts)
    case (Cons t ts)
    then show ?case using flattenType_total [OF _ assms(2), of t] by auto
  qed simp
  obtain ps where ps: "flattenTypes (ftParams ft) op = Inr ps" using tot [of "ftParams ft"] assms(1) by auto
  obtain rs where rs: "flattenTypes (ftResults ft) op = Inr rs" using tot [of "ftResults ft"] assms(1) by auto
  have pt: "ptrType op = Inr (addrType m)" by (simp add: ptrType_def requireMemory_def assms(2))
  show ?thesis
    by (cases cx)
      (simp_all add: flattenFunctype_def ps rs pt MAX_FLAT_PARAMS_def MAX_FLAT_RESULTS_def
        MAX_FLAT_ASYNC_PARAMS_def)
qed

lemma flattenFunctype_bounds_witness:
  "\<exists>sig. flattenFunctype op0 \<lparr>ftParams = [TPrim KString, TPrim KU8], ftResults = [TPrim KF64], ftAsync = True\<rparr>
      LowerContext = Inr sig \<and> length (cresults sig) \<le> 1 \<and> length (cparams sig) \<le> 5 \<and> cresults sig = [I32]"
  using flattenFunctype_bounds [of "\<lparr>ftParams = [TPrim KString, TPrim KU8], ftResults = [TPrim KF64],
      ftAsync = True\<rparr>" op0 "\<lparr>memId = 0, addrType = I32, mBase = 0\<rparr>" LowerContext]
  by (auto simp: op0_def wf_type.simps)

end
