(* ===== verification/Lift.thy ===== *)
theory Lift
  imports Load Flatten
begin

text \<open>
  Lifting component values from core lanes (\<open>runtime/src/cabi/lift.ts\<close>) and the lifting half
  of \<open>runtime/src/cabi/values.ts\<close>.  A \<open>ValueIter\<close> is either the \<open>CoreValueIter\<close> over the lanes
  of a call, with its position, or the coercing iterator a variant wraps around another one,
  with the lane types it has left; nested variants nest the coercions.
\<close>

section \<open>Lane iterators\<close>

datatype Iter = CoreIter "JsVal list" nat | CoerceIter "CoreType list" Iter

fun coreName :: "CoreType \<Rightarrow> string" where
  "coreName I32 = ''i32''" | "coreName I64 = ''i64''" | "coreName F32 = ''f32''" | "coreName F64 = ''f64''"

definition checkLane :: "CoreType \<Rightarrow> JsVal \<Rightarrow> unit result" where
  "checkLane t v =
     (case t of
        I32 \<Rightarrow> assertR (case js_int v of Some i \<Rightarrow> 0 \<le> i \<and> i < 2 ^ 32 | None \<Rightarrow> False)
                 ''expected canonical i32 lane value''
      | I64 \<Rightarrow> assertR (case v of VBig i \<Rightarrow> 0 \<le> i \<and> i < 2 ^ 64 | _ \<Rightarrow> False)
                 ''expected canonical i64 lane value''
      | _ \<Rightarrow> assertR (js_isNumber v) ''expected float lane value'')"

text \<open>The integer in an i32 or i64 lane.\<close>

definition laneInt :: "JsVal \<Rightarrow> int" where
  "laneInt v = (case v of VBig i \<Rightarrow> i | _ \<Rightarrow> (case js_int v of Some i \<Rightarrow> i | None \<Rightarrow> 0))"

definition wrapI64ToI32 :: "int \<Rightarrow> int result" where
  "wrapI64ToI32 i =
     bindR (assertR (0 \<le> i \<and> i < 2 ^ 64) ''internal assertion failed'') (\<lambda>_. Ok (and i 0xffffffff))"

definition laneMismatch :: "CoreType \<Rightarrow> CoreType \<Rightarrow> error" where
  "laneMismatch have_t want = AssertionError (''lane mismatch '' @ coreName have_t @ '' -> '' @ coreName want)"

definition coerceLane :: "CoreType \<Rightarrow> CoreType \<Rightarrow> JsVal \<Rightarrow> JsVal result" where
  "coerceLane have_t want x =
     (if have_t = I32 \<and> want = F32 then Ok (decodeI32AsFloat (laneInt x))
      else if have_t = I64 \<and> want = I32 then bindR (wrapI64ToI32 (laneInt x)) (\<lambda>i. Ok (VNum i))
      else if have_t = I64 \<and> want = F32 then bindR (wrapI64ToI32 (laneInt x)) (\<lambda>i. Ok (decodeI32AsFloat i))
      else if have_t = I64 \<and> want = F64 then Ok (decodeI64AsFloat (laneInt x))
      else if have_t = want then Ok x
      else Err (laneMismatch have_t want))"

fun iterNext :: "CoreType \<Rightarrow> Iter \<Rightarrow> (JsVal \<times> Iter) result" where
  "iterNext t (CoreIter vs i) =
     (let v = (if i < length vs then vs ! i else VUndef) in
      bindR (checkLane t v) (\<lambda>_. Ok (v, CoreIter vs (Suc i))))"
| "iterNext want (CoerceIter flatTypes vi) =
     (case flatTypes of
        [] \<Rightarrow> Err (AssertionError (''lane mismatch undefined -> '' @ coreName want))
      | have_t # rest \<Rightarrow>
          bindR (iterNext have_t vi) (\<lambda>r.
          bindR (coerceLane have_t want (fst r)) (\<lambda>y. Ok (y, CoerceIter rest (snd r)))))"

definition iterDone :: "Iter \<Rightarrow> bool" where
  "iterDone vi = (case vi of CoreIter vs i \<Rightarrow> i = length vs | _ \<Rightarrow> False)"

definition nextInt :: "CoreType \<Rightarrow> Iter \<Rightarrow> (int \<times> Iter) result" where
  "nextInt t vi = bindR (iterNext t vi) (\<lambda>r. Ok (laneInt (fst r), snd r))"

fun drainLanes :: "CoreType list \<Rightarrow> Iter \<Rightarrow> Iter result" where
  "drainLanes [] vi = Ok vi"
| "drainLanes (t # ts) vi = bindR (iterNext t vi) (\<lambda>r. drainLanes ts (snd r))"

section \<open>Scalars\<close>

definition liftFlatUnsigned32 :: "Iter \<Rightarrow> nat \<Rightarrow> (JsVal \<times> Iter) result" where
  "liftFlatUnsigned32 vi tWidth =
     bindR (nextInt I32 vi) (\<lambda>r.
     bindR (assertR (0 \<le> fst r \<and> fst r < 2 ^ 32) ''internal assertion failed'') (\<lambda>_.
     Ok (VNum (fst r mod 2 ^ tWidth), snd r)))"

definition liftFlatUnsigned64 :: "Iter \<Rightarrow> (JsVal \<times> Iter) result" where
  "liftFlatUnsigned64 vi =
     bindR (nextInt I64 vi) (\<lambda>r.
     bindR (assertR (0 \<le> fst r \<and> fst r < 2 ^ 64) ''internal assertion failed'') (\<lambda>_.
     Ok (VBig (fst r), snd r)))"

definition liftFlatSigned32 :: "Iter \<Rightarrow> nat \<Rightarrow> (JsVal \<times> Iter) result" where
  "liftFlatSigned32 vi tWidth =
     bindR (nextInt I32 vi) (\<lambda>r.
     bindR (assertR (0 \<le> fst r \<and> fst r < 2 ^ 32) ''internal assertion failed'') (\<lambda>_.
     let i = fst r mod 2 ^ tWidth in
     Ok (VNum (if i \<ge> 2 ^ (tWidth - 1) then i - 2 ^ tWidth else i), snd r)))"

definition liftFlatSigned64 :: "Iter \<Rightarrow> (JsVal \<times> Iter) result" where
  "liftFlatSigned64 vi =
     bindR (nextInt I64 vi) (\<lambda>r.
     bindR (assertR (0 \<le> fst r \<and> fst r < 2 ^ 64) ''internal assertion failed'') (\<lambda>_.
     Ok (VBig (if fst r \<ge> 2 ^ 63 then fst r - 2 ^ 64 else fst r), snd r)))"

definition liftFlatFlags :: "Iter \<Rightarrow> string list \<Rightarrow> (JsVal \<times> Iter) result" where
  "liftFlatFlags vi labels =
     bindR (assertR (0 < length labels \<and> length labels \<le> 32) ''internal assertion failed'') (\<lambda>_.
     bindR (nextInt I32 vi) (\<lambda>r. Ok (unpackFlagsFromInt (fst r) labels, snd r)))"

definition liftFlatString :: "'g heap_scheme Context \<Rightarrow> Iter \<Rightarrow> ('g heap_scheme, JsVal \<times> Iter) sm" where
  "liftFlatString cx vi =
     bindM (liftR (ptrType (opts cx))) (\<lambda>pt.
     bindM (liftR (nextInt pt vi)) (\<lambda>r1.
     bindM (liftR (nextInt pt (snd r1))) (\<lambda>r2.
     bindM (loadStringFromRange cx (fst r1) (fst r2)) (\<lambda>s. returnM (VStr s, snd r2)))))"

definition liftFlatPrim ::
  "'g heap_scheme Context \<Rightarrow> Iter \<Rightarrow> PrimKind \<Rightarrow> ('g heap_scheme, JsVal \<times> Iter) sm" where
  "liftFlatPrim cx vi k =
     (case k of
        KBool \<Rightarrow> liftR (bindR (nextInt I32 vi) (\<lambda>r.
                   bindR (convertIntToBool (fst r)) (\<lambda>b. Ok (VBool b, snd r))))
      | KU8 \<Rightarrow> liftR (liftFlatUnsigned32 vi 8)
      | KU16 \<Rightarrow> liftR (liftFlatUnsigned32 vi 16)
      | KU32 \<Rightarrow> liftR (liftFlatUnsigned32 vi 32)
      | KU64 \<Rightarrow> liftR (liftFlatUnsigned64 vi)
      | KS8 \<Rightarrow> liftR (liftFlatSigned32 vi 8)
      | KS16 \<Rightarrow> liftR (liftFlatSigned32 vi 16)
      | KS32 \<Rightarrow> liftR (liftFlatSigned32 vi 32)
      | KS64 \<Rightarrow> liftR (liftFlatSigned64 vi)
      | KF32 \<Rightarrow> liftR (bindR (iterNext F32 vi) (\<lambda>r. Ok (canonicalizeNan32 (fst r), snd r)))
      | KF64 \<Rightarrow> liftR (bindR (iterNext F64 vi) (\<lambda>r. Ok (canonicalizeNan64 (fst r), snd r)))
      | KChar \<Rightarrow> liftR (bindR (nextInt I32 vi) (\<lambda>r.
                   bindR (convertI32ToChar (fst r)) (\<lambda>c. Ok (VStr c, snd r))))
      | KString \<Rightarrow> liftFlatString cx vi)"

definition liftFlatHandle ::
  "'g heap_scheme Context \<Rightarrow> Iter \<Rightarrow> ValType \<Rightarrow> ('g heap_scheme, JsVal \<times> Iter) sm" where
  "liftFlatHandle cx vi d =
     bindM (liftR (nextInt I32 vi)) (\<lambda>r.
     bindM (case d of
              TErrorContext \<Rightarrow> liftErrorContext cx (nat (fst r))
            | TOwn rt \<Rightarrow> liftOwn cx (nat (fst r)) rt
            | TBorrow rt \<Rightarrow> liftBorrow cx (nat (fst r)) rt
            | TStream e \<Rightarrow> liftStream cx (nat (fst r)) d e
            | TFuture e \<Rightarrow> liftFuture cx (nat (fst r)) d e
            | _ \<Rightarrow> throwM (JsError ''unreachable'')) (\<lambda>v.
     returnM (v, snd r)))"

definition liftFlatDynamicList ::
  "'g heap_scheme Context \<Rightarrow> Iter \<Rightarrow> ValType \<Rightarrow> ('g heap_scheme, JsVal \<times> Iter) sm" where
  "liftFlatDynamicList cx vi e =
     bindM (liftR (ptrType (opts cx))) (\<lambda>pt.
     bindM (liftR (nextInt pt vi)) (\<lambda>r1.
     bindM (liftR (nextInt pt (snd r1))) (\<lambda>r2.
     bindM (loadListFromRange cx (fst r1) (fst r2) e) (\<lambda>v. returnM (v, snd r2)))))"

section \<open>Lifting a value\<close>

text \<open>\<open>Uint8Array.from\<close>: every element wraps to a byte.\<close>

definition bytesFrom :: "JsVal list \<Rightarrow> JsVal" where
  "bytesFrom vs = VBytes (map (\<lambda>v. word_of_int (laneInt v)) vs)"

function liftFlat :: "'g heap_scheme Context \<Rightarrow> Iter \<Rightarrow> ValType \<Rightarrow> ('g heap_scheme, JsVal \<times> Iter) sm"
  and liftFlatList :: "'g heap_scheme Context \<Rightarrow> Iter \<Rightarrow> ValType \<Rightarrow> nat option \<Rightarrow> ('g heap_scheme, JsVal \<times> Iter) sm"
  and liftFlatElems :: "'g heap_scheme Context \<Rightarrow> Iter \<Rightarrow> nat \<Rightarrow> ValType \<Rightarrow> ('g heap_scheme, JsVal list \<times> Iter) sm"
  and liftFlatRecord :: "'g heap_scheme Context \<Rightarrow> Iter \<Rightarrow> FieldType list \<Rightarrow> (string \<times> JsVal) list \<Rightarrow>
     ('g heap_scheme, JsVal \<times> Iter) sm"
  and liftFlatVariant :: "'g heap_scheme Context \<Rightarrow> Iter \<Rightarrow> CaseType list \<Rightarrow> ('g heap_scheme, JsVal \<times> Iter) sm" where
  "liftFlat cx vi t =
     (case despecialize t of
        TPrim k \<Rightarrow> liftFlatPrim cx vi k
      | TList e n \<Rightarrow> liftFlatList cx vi e n
      | TRecord fs \<Rightarrow> liftFlatRecord cx vi fs []
      | TVariant cs \<Rightarrow> liftFlatVariant cx vi cs
      | TFlags ls \<Rightarrow> liftR (liftFlatFlags vi ls)
      | d \<Rightarrow> liftFlatHandle cx vi d)"
| "liftFlatList cx vi e n =
     (case n of
        Some len \<Rightarrow>
          bindM (liftFlatElems cx vi len e) (\<lambda>r.
          returnM (if despecialize e = TPrim KU8 then bytesFrom (fst r) else VArr (fst r), snd r))
      | None \<Rightarrow> liftFlatDynamicList cx vi e)"
| "liftFlatElems cx vi n e =
     (case n of
        0 \<Rightarrow> returnM ([], vi)
      | Suc k \<Rightarrow>
          bindM (liftFlat cx vi e) (\<lambda>r.
          bindM (liftFlatElems cx (snd r) k e) (\<lambda>q. returnM (fst r # fst q, snd q))))"
| "liftFlatRecord cx vi fs rec =
     (case fs of
        [] \<Rightarrow> returnM (VObj rec, vi)
      | f # rest \<Rightarrow>
          bindM (liftFlat cx vi (snd f)) (\<lambda>r.
          liftFlatRecord cx (snd r) rest (obj_set (fst f) (fst r) rec)))"
| "liftFlatVariant cx vi cs =
     bindM (liftR (flattenVariant cs (opts cx))) (\<lambda>lanes.
     bindM (assertM (lanes \<noteq> [] \<and> hd lanes = I32) ''internal assertion failed'') (\<lambda>_.
     bindM (liftR (nextInt I32 vi)) (\<lambda>r.
     if nat (fst r) \<ge> length cs then throwM (Trap ''invalid variant discriminant'')
     else
       let c = cs ! nat (fst r) in
       bindM (case snd c of
                None \<Rightarrow> returnM (VNull, CoerceIter (tl lanes) (snd r))
              | Some u \<Rightarrow> liftFlat cx (CoerceIter (tl lanes) (snd r)) u) (\<lambda>q.
       case snd q of
         CoerceIter rest vi1 \<Rightarrow>
           bindM (liftR (drainLanes rest vi1)) (\<lambda>vi2. returnM (VObj [(fst c, fst q)], vi2))
       | _ \<Rightarrow> throwM (JsError ''unreachable'')))))"
  by pat_completeness auto

termination
  by (relation "measures [\<lambda>x. case x of
        Inl (Inl (cx, vi, t)) \<Rightarrow> tsize t
      | Inl (Inr (cx, vi, e, n)) \<Rightarrow> tsize e
      | Inr (Inl (cx, vi, n, e)) \<Rightarrow> tsize e
      | Inr (Inr (Inl (cx, vi, fs, rec))) \<Rightarrow> fsize fs
      | Inr (Inr (Inr (cx, vi, cs))) \<Rightarrow> csize cs,
      \<lambda>x. case x of Inl (Inr (cx, vi, e, n)) \<Rightarrow> 2 | Inr (Inl (cx, vi, n, e)) \<Rightarrow> 1 | _ \<Rightarrow> 0,
      \<lambda>x. case x of Inr (Inl (cx, vi, n, e)) \<Rightarrow> n | _ \<Rightarrow> 0]")
    (auto simp: tsize_despecialize not_le intro: tsize_case [OF nth_mem])

declare liftFlat.simps [simp del] liftFlatList.simps [simp del] liftFlatElems.simps [simp del]
  liftFlatRecord.simps [simp del] liftFlatVariant.simps [simp del]

section \<open>Lifting a value list (\<open>runtime/src/cabi/values.ts\<close>)\<close>

fun liftEach :: "'g heap_scheme Context \<Rightarrow> Iter \<Rightarrow> ValType list \<Rightarrow> ('g heap_scheme, JsVal list \<times> Iter) sm" where
  "liftEach cx vi [] = returnM ([], vi)"
| "liftEach cx vi (t # ts) =
     bindM (liftFlat cx vi t) (\<lambda>r.
     bindM (liftEach cx (snd r) ts) (\<lambda>q. returnM (fst r # fst q, snd q)))"

definition js_values :: "JsVal \<Rightarrow> JsVal list" where
  "js_values v = map snd (js_props v)"

definition liftFlatValues ::
  "'g heap_scheme Context \<Rightarrow> nat \<Rightarrow> Iter \<Rightarrow> ValType list \<Rightarrow> ('g heap_scheme, JsVal list \<times> Iter) sm" where
  "liftFlatValues cx maxFlat vi ts =
     bindM (liftR (flattenTypes ts (opts cx))) (\<lambda>flatTypes.
     if length flatTypes > maxFlat then
       bindM (needMemory cx) (\<lambda>mem.
       bindM (liftR (iterNext (addrType mem) vi)) (\<lambda>r.
       bindM (liftR (alignment (TTuple ts) (addrType mem))) (\<lambda>al.
       bindM (liftR (elemSize (TTuple ts) (addrType mem))) (\<lambda>sz.
       bindM (trapIfM (laneInt (fst r) mod int al \<noteq> 0) ''misaligned spill pointer'') (\<lambda>_.
       bindM (getsM (memLen mem)) (\<lambda>total.
       bindM (trapIfM (laneInt (fst r) + int sz > int total) ''spill tuple out of bounds'') (\<lambda>_.
       bindM (liftR (asIndex (fst r))) (\<lambda>ptr.
       bindM (load cx ptr (TTuple ts)) (\<lambda>v. returnM (js_values v, snd r))))))))))
     else liftEach cx vi ts)"

end
