(* ===== verification/Lower.thy ===== *)
theory Lower
  imports Store Lift
begin

text \<open>
  Lowering component values to core lanes (\<open>runtime/src/cabi/lower.ts\<close>) and the lowering half
  of \<open>runtime/src/cabi/values.ts\<close>.  Lane values are Numbers for i32 and the float types and
  BigInts for i64.  The sized integer kinds are lowered from integers; a Number that is not
  one is outside their host type and is passed on as it is.
\<close>

section \<open>Scalars\<close>

definition lowerFlatSigned32 :: "JsVal \<Rightarrow> JsVal list" where
  "lowerFlatSigned32 v =
     (case js_int v of
        Some i \<Rightarrow> if i < 0 then [VNum (i + 2 ^ 32)] else [v]
      | None \<Rightarrow> [v])"

definition lowerFlatSigned64 :: "JsVal \<Rightarrow> JsVal list" where
  "lowerFlatSigned64 v =
     (case v of
        VBig i \<Rightarrow> if i < 0 then [VBig (i + 2 ^ 64)] else [v]
      | _ \<Rightarrow> [v])"

definition lowerFlatFlags :: "JsVal \<Rightarrow> string list \<Rightarrow> JsVal list result" where
  "lowerFlatFlags v labels =
     bindR (assertR (0 < length labels \<and> length labels \<le> 32) ''internal assertion failed'') (\<lambda>_.
     bindR (packFlagsIntoInt v labels) (\<lambda>i. Ok [VNum i]))"

definition ptrLanes :: "PtrType \<Rightarrow> int \<Rightarrow> int \<Rightarrow> JsVal list" where
  "ptrLanes pt a b = (if pt = I32 then [VNum a, VNum b] else [VBig a, VBig b])"

definition lowerFlatString :: "'g heap_scheme Context \<Rightarrow> 16 word list \<Rightarrow> ('g heap_scheme, JsVal list) sm" where
  "lowerFlatString cx s =
     bindM (storeStringIntoRange cx s) (\<lambda>r.
     bindM (liftR (ptrType (opts cx))) (\<lambda>pt. returnM (ptrLanes pt (int (fst r)) (snd r))))"

definition lowerFlatDynamicList ::
  "'g heap_scheme Context \<Rightarrow> JsVal \<Rightarrow> ValType \<Rightarrow> ('g heap_scheme, JsVal list) sm" where
  "lowerFlatDynamicList cx v e =
     bindM (storeListIntoRange cx v e) (\<lambda>r.
     bindM (liftR (ptrType (opts cx))) (\<lambda>pt. returnM (ptrLanes pt (int (fst r)) (int (snd r)))))"

definition lowerFlatPrim :: "'g heap_scheme Context \<Rightarrow> JsVal \<Rightarrow> PrimKind \<Rightarrow> ('g heap_scheme, JsVal list) sm" where
  "lowerFlatPrim cx v k =
     (case k of
        KBool \<Rightarrow> returnM [js_Number v]
      | KU8 \<Rightarrow> returnM [v]
      | KU16 \<Rightarrow> returnM [v]
      | KU32 \<Rightarrow> returnM [v]
      | KU64 \<Rightarrow> returnM [v]
      | KS8 \<Rightarrow> returnM (lowerFlatSigned32 v)
      | KS16 \<Rightarrow> returnM (lowerFlatSigned32 v)
      | KS32 \<Rightarrow> returnM (lowerFlatSigned32 v)
      | KS64 \<Rightarrow> returnM (lowerFlatSigned64 v)
      | KF32 \<Rightarrow> returnM [maybeScrambleNan32 v]
      | KF64 \<Rightarrow> returnM [maybeScrambleNan64 v]
      | KChar \<Rightarrow> liftR (bindR (js_str v) (\<lambda>s. bindR (charToI32 s) (\<lambda>i. Ok [VNum (int i)])))
      | KString \<Rightarrow> bindM (liftR (js_str v)) (lowerFlatString cx))"

definition lowerFlatHandle :: "'g heap_scheme Context \<Rightarrow> JsVal \<Rightarrow> ValType \<Rightarrow> ('g heap_scheme, JsVal list) sm" where
  "lowerFlatHandle cx v d =
     (case d of
        TErrorContext \<Rightarrow> bindM (lowerErrorContext cx v) (\<lambda>i. returnM [VNum (int i)])
      | TOwn rt \<Rightarrow> bindM (lowerOwn cx v rt) (\<lambda>i. returnM [VNum (int i)])
      | TBorrow rt \<Rightarrow> bindM (lowerBorrow cx v rt) (\<lambda>x. returnM [x])
      | TStream e \<Rightarrow> bindM (lowerStream cx v d) (\<lambda>i. returnM [VNum (int i)])
      | TFuture e \<Rightarrow> bindM (lowerFuture cx v d) (\<lambda>i. returnM [VNum (int i)])
      | _ \<Rightarrow> throwM (JsError ''unreachable''))"

section \<open>Variants\<close>

text \<open>\<open>BigInt(n)\<close> of a Number: a RangeError unless it is an integer.\<close>

definition js_BigInt :: "JsVal \<Rightarrow> JsVal result" where
  "js_BigInt v = (case js_int v of Some i \<Rightarrow> Ok (VBig i) | None \<Rightarrow> Err (JsError ''RangeError''))"

definition lowerLane :: "CoreType \<Rightarrow> CoreType \<Rightarrow> JsVal \<Rightarrow> JsVal result" where
  "lowerLane have_t want fv =
     (if have_t = F32 \<and> want = I32 then Ok (VNum (encodeFloatAsI32 fv))
      else if have_t = I32 \<and> want = I64 then js_BigInt fv
      else if have_t = F32 \<and> want = I64 then Ok (VBig (encodeFloatAsI32 fv))
      else if have_t = F64 \<and> want = I64 then Ok (VBig (encodeFloatAsI64 fv))
      else if have_t = want then Ok fv
      else Err (laneMismatch have_t want))"

text \<open>The payload loop; the second component is what is left of \<open>flatTypes\<close>.\<close>

fun lowerLanes :: "JsVal list \<Rightarrow> CoreType list \<Rightarrow> CoreType list \<Rightarrow> (JsVal list \<times> CoreType list) result" where
  "lowerLanes [] haves wants = Ok ([], wants)"
| "lowerLanes (fv # fvs) (h # hs) (w # ws) =
     bindR (lowerLane h w fv) (\<lambda>x. bindR (lowerLanes fvs hs ws) (\<lambda>r. Ok (x # fst r, snd r)))"
| "lowerLanes (fv # fvs) [] [] = bindR (lowerLanes fvs [] []) (\<lambda>r. Ok (fv # fst r, snd r))"
| "lowerLanes (fv # fvs) [] (w # ws) = Err (AssertionError (''lane mismatch undefined -> '' @ coreName w))"
| "lowerLanes (fv # fvs) (h # hs) [] = Err (AssertionError (''lane mismatch '' @ coreName h @ '' -> undefined''))"

text \<open>
  The lanes the payload leaves unused hold \<open>0n\<close> or \<open>0\<close>; the Number 0 of a float lane is written as
  the float it is.
\<close>

definition padLanes :: "CoreType list \<Rightarrow> JsVal list" where
  "padLanes ws = map (\<lambda>w. if w = I64 then VBig 0 else if w = I32 then VNum 0 else VFlt 0) ws"

section \<open>Lowering a value\<close>

function lowerFlat :: "'g heap_scheme Context \<Rightarrow> JsVal \<Rightarrow> ValType \<Rightarrow> ('g heap_scheme, JsVal list) sm"
  and lowerFlatList :: "'g heap_scheme Context \<Rightarrow> JsVal \<Rightarrow> ValType \<Rightarrow> nat option \<Rightarrow> ('g heap_scheme, JsVal list) sm"
  and lowerFlatElems :: "'g heap_scheme Context \<Rightarrow> JsVal list \<Rightarrow> ValType \<Rightarrow> ('g heap_scheme, JsVal list) sm"
  and lowerFlatRecord :: "'g heap_scheme Context \<Rightarrow> JsVal \<Rightarrow> FieldType list \<Rightarrow> ('g heap_scheme, JsVal list) sm"
  and lowerFlatVariant :: "'g heap_scheme Context \<Rightarrow> JsVal \<Rightarrow> CaseType list \<Rightarrow> ('g heap_scheme, JsVal list) sm" where
  "lowerFlat cx v t =
     (case despecialize t of
        TPrim k \<Rightarrow> lowerFlatPrim cx v k
      | TList e n \<Rightarrow> lowerFlatList cx v e n
      | TRecord fs \<Rightarrow> lowerFlatRecord cx v fs
      | TVariant cs \<Rightarrow> lowerFlatVariant cx v cs
      | TFlags ls \<Rightarrow> liftR (lowerFlatFlags v ls)
      | d \<Rightarrow> lowerFlatHandle cx v d)"
| "lowerFlatList cx v e n =
     (case n of
        Some len \<Rightarrow>
          bindM (liftR (js_elems ''fixed-length list length mismatch'' v)) (\<lambda>xs.
          bindM (assertM (len = length xs) ''fixed-length list length mismatch'') (\<lambda>_.
          lowerFlatElems cx xs e))
      | None \<Rightarrow> lowerFlatDynamicList cx v e)"
| "lowerFlatElems cx xs e =
     (case xs of
        [] \<Rightarrow> returnM []
      | x # rest \<Rightarrow>
          bindM (lowerFlat cx x e) (\<lambda>a. bindM (lowerFlatElems cx rest e) (\<lambda>b. returnM (a @ b))))"
| "lowerFlatRecord cx v fs =
     (case fs of
        [] \<Rightarrow> returnM []
      | f # rest \<Rightarrow>
          bindM (liftR (js_get v (fst f))) (\<lambda>x.
          bindM (lowerFlat cx x (snd f)) (\<lambda>a.
          bindM (lowerFlatRecord cx v rest) (\<lambda>b. returnM (a @ b)))))"
| "lowerFlatVariant cx v cs =
     bindM (liftR (matchCase v cs)) (\<lambda>m.
     bindM (liftR (flattenVariant cs (opts cx))) (\<lambda>lanes.
     bindM (assertM (lanes \<noteq> [] \<and> hd lanes = I32) ''internal assertion failed'') (\<lambda>_.
     if fst m < length cs then
       bindM (case snd (cs ! fst m) of
                None \<Rightarrow> returnM ([], tl lanes)
              | Some u \<Rightarrow>
                  bindM (lowerFlat cx (snd m) u) (\<lambda>payload.
                  bindM (liftR (flattenType u (opts cx))) (\<lambda>haves.
                  liftR (lowerLanes payload haves (tl lanes))))) (\<lambda>r.
       returnM (VNum (int (fst m)) # fst r @ padLanes (snd r)))
     else throwM (JsError ''unreachable''))))"
  by pat_completeness auto

termination
  by (relation "measures [\<lambda>x. case x of
        Inl (Inl (cx, v, t)) \<Rightarrow> tsize t
      | Inl (Inr (cx, v, e, n)) \<Rightarrow> tsize e
      | Inr (Inl (cx, xs, e)) \<Rightarrow> tsize e
      | Inr (Inr (Inl (cx, v, fs))) \<Rightarrow> fsize fs
      | Inr (Inr (Inr (cx, v, cs))) \<Rightarrow> csize cs,
      \<lambda>x. case x of Inl (Inr (cx, v, e, n)) \<Rightarrow> 2 | Inr (Inl (cx, xs, e)) \<Rightarrow> 1 | _ \<Rightarrow> 0,
      \<lambda>x. case x of Inr (Inl (cx, xs, e)) \<Rightarrow> length xs | _ \<Rightarrow> 0]")
    (auto simp: tsize_despecialize intro: tsize_case [OF nth_mem])

declare lowerFlat.simps [simp del] lowerFlatList.simps [simp del] lowerFlatElems.simps [simp del]
  lowerFlatRecord.simps [simp del] lowerFlatVariant.simps [simp del]

section \<open>Lowering a value list (\<open>runtime/src/cabi/values.ts\<close>)\<close>

text \<open>The flat loop runs over the values; a value without a type is the TypeError of reading its kind.\<close>

fun lowerEach :: "'g heap_scheme Context \<Rightarrow> JsVal list \<Rightarrow> ValType list \<Rightarrow> ('g heap_scheme, JsVal list) sm" where
  "lowerEach cx [] ts = returnM []"
| "lowerEach cx (v # vs) [] = throwM (JsError ''TypeError'')"
| "lowerEach cx (v # vs) (t # ts) =
     bindM (lowerFlat cx v t) (\<lambda>a. bindM (lowerEach cx vs ts) (\<lambda>b. returnM (a @ b)))"

definition lowerFlatValues ::
  "'g heap_scheme Context \<Rightarrow> nat \<Rightarrow> JsVal list \<Rightarrow> ValType list \<Rightarrow> Iter option \<Rightarrow> ('g heap_scheme, JsVal list) sm" where
  "lowerFlatValues cx maxFlat vs ts outParam =
     bindM (liftR (flattenTypes ts (opts cx))) (\<lambda>flatTypes.
     if length flatTypes > maxFlat then
       bindM (needMemory cx) (\<lambda>mem.
       bindM (liftR (alignment (TTuple ts) (addrType mem))) (\<lambda>al.
       bindM (liftR (elemSize (TTuple ts) (addrType mem))) (\<lambda>sz.
       bindM (case outParam of
                None \<Rightarrow> bindM (allocate cx al sz) (\<lambda>ptr.
                  returnM (ptr, if addrType mem = I32 then [VNum (int ptr)] else [VBig (int ptr)]))
              | Some vi \<Rightarrow> bindM (liftR (iterNext (addrType mem) vi)) (\<lambda>r.
                  bindM (liftR (asIndex (fst r))) (\<lambda>ptr. returnM (ptr, [])))) (\<lambda>pf.
       bindM (trapIfM (fst pf \<noteq> alignTo (fst pf) al) ''misaligned spill pointer'') (\<lambda>_.
       bindM (getsM (memLen mem)) (\<lambda>total.
       bindM (trapIfM (fst pf + sz > total) ''spill tuple out of bounds'') (\<lambda>_.
       bindM (store cx (VObj (js_indexed vs)) (TTuple ts) (fst pf)) (\<lambda>_.
       returnM (snd pf)))))))))
     else lowerEach cx vs ts)"

end
