(* ===== verification/FlagBits.thy ===== *)
theory FlagBits
  imports Store
begin

text \<open>
  The flags codec of \<open>store.ts\<close> and \<open>load.ts\<close> on the bits of a 32-bit word.
\<close>

section \<open>Packing and unpacking\<close>

lemma packFlagsLoop_bits:
  assumes "\<forall>l \<in> set ls. \<exists>x. js_get v l = Inr x" "shift + length ls \<le> 32"
  shows "\<exists>w. packFlagsLoop v ls i shift = Inr w \<and>
    (\<forall>n. bit w n \<longleftrightarrow> bit i n \<or> (shift \<le> n \<and> n < shift + length ls \<and>
       (\<exists>x. js_get v (ls ! (n - shift)) = Inr x \<and> js_truthy x)))"
  using assms
proof (induction ls arbitrary: i shift)
  case (Cons l ls)
  obtain x where x: "js_get v l = Inr x" using Cons.prems(1) by force
  define b where "b = (push_bit (shift mod 32) (if js_truthy x then 1 else 0) :: 32 word)"
  have sm: "shift mod 32 = shift" using Cons.prems(2) by simp
  have b: "bit b n \<longleftrightarrow> n = shift \<and> js_truthy x" for n
  proof (cases "js_truthy x")
    case True
    have "b = 2 ^ shift" unfolding b_def sm using True by simp
    then show ?thesis using True Cons.prems(2) by (auto simp: bit_exp_iff)
  next
    case False
    then show ?thesis by (simp add: b_def)
  qed
  have "\<forall>l \<in> set ls. \<exists>x. js_get v l = Inr x" "Suc shift + length ls \<le> 32" using Cons.prems by simp_all
  from Cons.IH [OF this, of "or i b"] obtain w where
    w1: "packFlagsLoop v ls (or i b) (Suc shift) = Inr w" and
    w2: "\<And>n. bit w n \<longleftrightarrow> bit (or i b) n \<or> (Suc shift \<le> n \<and> n < Suc shift + length ls \<and>
       (\<exists>x. js_get v (ls ! (n - Suc shift)) = Inr x \<and> js_truthy x))"
    by blast
  have "bit w n \<longleftrightarrow> bit i n \<or> (shift \<le> n \<and> n < shift + length (l # ls) \<and>
       (\<exists>x. js_get v ((l # ls) ! (n - shift)) = Inr x \<and> js_truthy x))" for n
  proof (cases "n = shift")
    case True
    then show ?thesis unfolding w2 bit_or_iff b using x by simp
  next
    case False
    have r: "(Suc shift \<le> n \<and> n < Suc shift + length ls) \<longleftrightarrow> (shift \<le> n \<and> n < shift + length (l # ls))"
      using False by auto
    have q: "(l # ls) ! (n - shift) = ls ! (n - Suc shift)" if "shift \<le> n"
    proof -
      have "n - shift = Suc (n - Suc shift)" using that False by simp
      then show ?thesis by simp
    qed
    have "bit w n \<longleftrightarrow> bit i n \<or> ((Suc shift \<le> n \<and> n < Suc shift + length ls) \<and>
       (\<exists>x. js_get v (ls ! (n - Suc shift)) = Inr x \<and> js_truthy x))"
      unfolding w2 bit_or_iff b using False by blast
    then show ?thesis unfolding r using q by metis
  qed
  moreover have "packFlagsLoop v (l # ls) i shift = Inr w" using w1 x by (simp add: b_def)
  ultimately show ?case by blast
qed auto

lemma unpackFlagsLoop_eq:
  assumes "distinct ls" "\<forall>l \<in> set ls. l \<notin> set (map fst ps)"
  shows "unpackFlagsLoop w ls ps = ps @ zip ls (map (\<lambda>n. VBool (bit w n)) [0..<length ls])"
  using assms
proof (induction ls arbitrary: w ps)
  case (Cons l ls)
  have b0: "and w 1 \<noteq> 0 \<longleftrightarrow> bit w 0" by (simp add: and_one_eq odd_iff_mod_2_eq_one bit_0)
  have up: "map (\<lambda>n. VBool (bit w n)) [0..<length (l # ls)] =
      VBool (bit w 0) # map (\<lambda>n. VBool (bit (drop_bit 1 w) n)) [0..<length ls]"
    by (simp add: upt_conv_Cons bit_drop_bit_eq del: upt_Suc flip: map_Suc_upt)
  have "\<forall>k \<in> set ls. k \<notin> set (map fst (ps @ [(l, VBool (bit w 0))]))" using Cons.prems by auto
  from Cons.IH [OF _ this, of "drop_bit 1 w"] Cons.prems up b0 show ?case by simp
qed simp

lemma js_get_nth:
  assumes "distinct (map fst ps)" "n < length ps"
  shows "js_get (VObj ps) (fst (ps ! n)) = Inr (snd (ps ! n))"
proof -
  have "(fst (ps ! n), snd (ps ! n)) \<in> set ps" using assms(2) by simp
  then have "map_of ps (fst (ps ! n)) = Some (snd (ps ! n))" by (rule map_of_is_SomeI [OF assms(1)])
  then show ?thesis by simp
qed

lemma boolFields_nth:
  assumes "list_all (\<lambda>p. case snd p of VBool b \<Rightarrow> True | _ \<Rightarrow> False) ps" "distinct (map fst ps)" "n < length ps"
  shows "(\<exists>x. js_get (VObj ps) (map fst ps ! n) = Inr x \<and> js_truthy x) = b \<longleftrightarrow> snd (ps ! n) = VBool b"
proof -
  have "case snd (ps ! n) of VBool b \<Rightarrow> True | _ \<Rightarrow> False" using assms(1,3) by (simp only: list_all_length)
  then obtain c where c: "snd (ps ! n) = VBool c" by (cases "snd (ps ! n)") simp_all
  have "js_get (VObj ps) (map fst ps ! n) = Inr (VBool c)"
    using js_get_nth [OF assms(2,3)] assms(3) c by simp
  then show ?thesis using c by (simp only: js_truthy_def sum.inject JsVal.simps) auto
qed

lemma flags_roundtrip:
  assumes "map fst ps = ls" "distinct ls" "length ls \<le> 32"
    "list_all (\<lambda>p. case snd p of VBool b \<Rightarrow> True | _ \<Rightarrow> False) ps"
  shows "\<exists>w :: 32 word. packFlagsIntoInt (VObj ps) ls = Inr (uint w) \<and> unpackFlagsFromInt (uint w) ls = VObj ps \<and>
    (\<forall>n. bit w n \<longrightarrow> n < length ls)"
proof -
  have len: "length ps = length ls" using assms(1) by auto
  have ex: "\<forall>l \<in> set ls. \<exists>x. js_get (VObj ps) l = Inr x" by (simp only: js_obj) simp
  obtain w where w1: "packFlagsLoop (VObj ps) ls 0 0 = Inr w" and
    w2: "\<And>n. bit w n \<longleftrightarrow> bit 0 n \<or> (0 \<le> n \<and> n < 0 + length ls \<and>
       (\<exists>x. js_get (VObj ps) (ls ! (n - 0)) = Inr x \<and> js_truthy x))"
    using packFlagsLoop_bits [OF ex, of 0 0] assms(3) by auto
  have v: "snd (ps ! n) = VBool (bit w n)" if n: "n < length ps" for n
  proof -
    have "bit w n \<longleftrightarrow> (\<exists>x. js_get (VObj ps) (map fst ps ! n) = Inr x \<and> js_truthy x)"
      unfolding w2 assms(1) using n len by (simp only: bit_0_eq bot_fun_def bot_bool_def diff_zero add_0) simp
    then show ?thesis
      using boolFields_nth [OF assms(4) _ n, of "bit w n"] assms(1,2) by blast
  qed
  have "zip ls (map (\<lambda>n. VBool (bit w n)) [0..<length ls]) = ps"
  proof (rule nth_equalityI)
    fix n assume "n < length (zip ls (map (\<lambda>n. VBool (bit w n)) [0..<length ls]))"
    then have n: "n < length ls" by simp
    then have "ls ! n = fst (ps ! n)" using assms(1) len by (metis nth_map)
    with n show "zip ls (map (\<lambda>n. VBool (bit w n)) [0..<length ls]) ! n = ps ! n"
      using v [of n] len by (simp add: prod_eq_iff)
  qed (use len in simp)
  then have "unpackFlagsLoop w ls [] = ps" using unpackFlagsLoop_eq [OF assms(2), of "[]"] by simp
  then have "unpackFlagsFromInt (uint w) ls = VObj ps" by (simp add: unpackFlagsFromInt_def)
  moreover have "packFlagsIntoInt (VObj ps) ls = Inr (uint w)" using w1 by (simp add: packFlagsIntoInt_def)
  moreover have "bit w n \<longrightarrow> n < length ls" for n unfolding w2 by simp
  ultimately show ?thesis by blast
qed

lemma uint_less_pow:
  fixes w :: "'a::len word"
  assumes "\<And>n. bit w n \<Longrightarrow> n < m"
  shows "uint w < 2 ^ m"
proof -
  have "take_bit m w = w" by (rule bit_word_eqI) (use assms in \<open>auto simp: bit_take_bit_iff\<close>)
  then have "uint w = take_bit m (uint w)" by (metis unsigned_take_bit_eq)
  also have "\<dots> < 2 ^ m" by simp
  finally show ?thesis .
qed

end
