(* ===== verification/RoundTrip.thy ===== *)
theory RoundTrip
  imports Lower FlagBits
begin

text \<open>
  The round trips of the value codecs.  \<open>plain\<close> types are those whose values live entirely in
  their own bytes or lanes: no string, no list of dynamic length and no handle.  \<open>conforms\<close>
  says which host values have a type, in the form lifting produces them (canonical NaNs, records with
  their fields in order).  A \<open>codec\<close> relates a store and a load over a region of the
  memory: the store changes the region only, and the load, run on any memory that agrees with
  the stored one on the region, returns the value and changes nothing.
\<close>

section \<open>Plain types and conforming values\<close>

function plain :: "ValType \<Rightarrow> bool" where
  "plain t =
     (case despecialize t of
        TPrim k \<Rightarrow> k \<noteq> KString
      | TList e n \<Rightarrow> n \<noteq> None \<and> plain e
      | TRecord fs \<Rightarrow> list_all (\<lambda>f. plain (snd f)) fs
      | TVariant cs \<Rightarrow> list_all (\<lambda>c. case snd c of None \<Rightarrow> True | Some u \<Rightarrow> plain u) cs
      | TFlags ls \<Rightarrow> True
      | _ \<Rightarrow> False)"
  by pat_completeness auto

termination
  by (relation "measure tsize")
    (auto dest: tsize_despecialize_list osize_record_field osize_variant_case)

declare plain.simps [simp del]

definition inRange :: "int \<Rightarrow> int \<Rightarrow> JsVal \<Rightarrow> bool" where
  "inRange lo hi v = (case v of VNum i \<Rightarrow> lo \<le> i \<and> i < hi | _ \<Rightarrow> False)"

definition inRangeBig :: "int \<Rightarrow> int \<Rightarrow> JsVal \<Rightarrow> bool" where
  "inRangeBig lo hi v = (case v of VBig i \<Rightarrow> lo \<le> i \<and> i < hi | _ \<Rightarrow> False)"

fun conformsPrim :: "PrimKind \<Rightarrow> JsVal \<Rightarrow> bool" where
  "conformsPrim KBool v = (case v of VBool b \<Rightarrow> True | _ \<Rightarrow> False)"
| "conformsPrim KU8 v = inRange 0 (2 ^ 8) v"
| "conformsPrim KS8 v = inRange (- (2 ^ 7)) (2 ^ 7) v"
| "conformsPrim KU16 v = inRange 0 (2 ^ 16) v"
| "conformsPrim KS16 v = inRange (- (2 ^ 15)) (2 ^ 15) v"
| "conformsPrim KU32 v = inRange 0 (2 ^ 32) v"
| "conformsPrim KS32 v = inRange (- (2 ^ 31)) (2 ^ 31) v"
| "conformsPrim KU64 v = inRangeBig 0 (2 ^ 64) v"
| "conformsPrim KS64 v = inRangeBig (- (2 ^ 63)) (2 ^ 63) v"
| "conformsPrim KF32 v =
     (case v of VFlt w \<Rightarrow> (if f64IsNan w then w = f64NaN else widen32 (narrow32 w) = w) | _ \<Rightarrow> False)"
| "conformsPrim KF64 v = (case v of VFlt w \<Rightarrow> f64IsNan w \<longrightarrow> w = f64NaN | _ \<Rightarrow> False)"
| "conformsPrim KChar v =
     (case v of VStr s \<Rightarrow> (case charToI32 s of Inr _ \<Rightarrow> True | Inl _ \<Rightarrow> False) | _ \<Rightarrow> False)"
| "conformsPrim KString v = (case v of VStr s \<Rightarrow> wellFormed s | _ \<Rightarrow> False)"

function conforms :: "ValType \<Rightarrow> JsVal \<Rightarrow> bool"
  and conformsFields :: "FieldType list \<Rightarrow> (string \<times> JsVal) list \<Rightarrow> bool"
  and conformsCase :: "CaseType list \<Rightarrow> (string \<times> JsVal) \<Rightarrow> bool" where
  "conforms t v =
     (case despecialize t of
        TPrim k \<Rightarrow> conformsPrim k v
      | TList e (Some n) \<Rightarrow>
          (if despecialize e = TPrim KU8 then (case v of VBytes bs \<Rightarrow> length bs = n | _ \<Rightarrow> False)
           else (case v of VArr xs \<Rightarrow> length xs = n \<and> list_all (conforms e) xs | _ \<Rightarrow> False))
      | TRecord fs \<Rightarrow> (case v of VObj ps \<Rightarrow> conformsFields fs ps | _ \<Rightarrow> False)
      | TVariant cs \<Rightarrow> (case v of VObj [p] \<Rightarrow> conformsCase cs p | _ \<Rightarrow> False)
      | TFlags ls \<Rightarrow> (case v of
            VObj ps \<Rightarrow> map fst ps = ls \<and> list_all (\<lambda>p. case snd p of VBool b \<Rightarrow> True | _ \<Rightarrow> False) ps
          | _ \<Rightarrow> False)
      | _ \<Rightarrow> False)"
| "conformsFields [] ps = (ps = [])"
| "conformsFields (f # fs) ps =
     (case ps of [] \<Rightarrow> False
      | p # qs \<Rightarrow> fst p = fst f \<and> conforms (snd f) (snd p) \<and> conformsFields fs qs)"
| "conformsCase [] p = False"
| "conformsCase (c # cs) p =
     (if fst c = fst p then (case snd c of None \<Rightarrow> snd p = VNull | Some u \<Rightarrow> conforms u (snd p))
      else conformsCase cs p)"
  by pat_completeness auto

termination
  by (relation "measure (\<lambda>x. case x of
        Inl (t, v) \<Rightarrow> tsize t | Inr (Inl (fs, ps)) \<Rightarrow> fsize fs | Inr (Inr (cs, p)) \<Rightarrow> csize cs)")
    (auto simp: tsize_despecialize split: option.splits)

declare conforms.simps [simp del]

section \<open>Primitive values as integers\<close>

fun encPrim :: "PrimKind \<Rightarrow> JsVal \<Rightarrow> int" where
  "encPrim KBool v = (if js_truthy v then 1 else 0)"
| "encPrim KF32 v = encodeFloatAsI32 v"
| "encPrim KF64 v = encodeFloatAsI64 v"
| "encPrim KChar v = (case v of VStr s \<Rightarrow> (case charToI32 s of Inr n \<Rightarrow> int n | _ \<Rightarrow> 0) | _ \<Rightarrow> 0)"
| "encPrim _ v = laneInt v"

fun signedPrim :: "PrimKind \<Rightarrow> bool" where
  "signedPrim KS8 = True" | "signedPrim KS16 = True" | "signedPrim KS32 = True" | "signedPrim KS64 = True"
| "signedPrim _ = False"

fun decPrim :: "PrimKind \<Rightarrow> int \<Rightarrow> JsVal result" where
  "decPrim KBool x = Inr (VBool (x \<noteq> 0))"
| "decPrim KS8 x = Inr (VNum (toSigned 1 x))"
| "decPrim KS16 x = Inr (VNum (toSigned 2 x))"
| "decPrim KS32 x = Inr (VNum (toSigned 4 x))"
| "decPrim KS64 x = Inr (VBig (toSigned 8 x))"
| "decPrim KU64 x = Inr (VBig x)"
| "decPrim KF32 x = Inr (decodeI32AsFloat x)"
| "decPrim KF64 x = Inr (decodeI64AsFloat x)"
| "decPrim KChar x = bindR (convertI32ToChar x) (\<lambda>c. Inr (VStr c))"
| "decPrim _ x = Inr (VNum x)"

lemma leValue_mod: "leValue (leEncode n v) = v mod 2 ^ (8 * n)"
  by (simp add: leValue_leEncode pow256)

lemma loadPrim_run:
  assumes "k \<noteq> KString" "ptr + primSize k p \<le> memLen mem h"
  shows "loadPrim cx mem ptr k h = (decPrim k (leValue (slice ptr (primSize k p) (memBytes mem h))), h)"
proof -
  have nn: "0 \<le> leValue bs" for bs by (rule leValue_bounds)
  from assms show ?thesis
    by (cases k)
      (simp_all add: loadPrim_def bindM_def loadIntU_run loadIntS_run run_simps convertIntToBool_def nn
        split: sum.splits)
qed

lemma conformsPrim_fits:
  assumes "conformsPrim k v" "k \<noteq> KString"
  shows "fitsWidth (primSize k p) (signedPrim k) (encPrim k v)"
proof -
  have f: "0 \<le> encodeFloatAsI32 v" "encodeFloatAsI32 v < 2 ^ 32" "0 \<le> encodeFloatAsI64 v"
    "encodeFloatAsI64 v < 2 ^ 64"
    using encodeFloatAsI32_bounds encodeFloatAsI64_bounds by blast+
  have c: "int n < 2 ^ 32" if "charToI32 s = Inr n" for s n
    using charToI32_Inr [OF that] by (auto simp: isScalar_def)
  show ?thesis using assms f c
    by (cases k) (auto simp: fitsWidth_def inRange_def inRangeBig_def laneInt_def js_int_def
        split: JsVal.splits sum.splits)
qed

lemma narrow32_lt: "0 \<le> int (narrow32 w)" "int (narrow32 w) < 2 ^ 32"
  using narrow32_bound [of w] by simp_all

lemma f32_conform_decode:
  assumes "conformsPrim KF32 v"
  shows "decodeI32AsFloat (encodeFloatAsI32 v) = v"
proof -
  obtain w where v: "v = VFlt w" using assms by (cases v) auto
  show ?thesis
  proof (cases "f64IsNan w")
    case True
    then have "w = f64NaN" using assms v by simp
    moreover have "f32IsNan 0x7fc00000" by (simp add: f32IsNan_def)
    ultimately show ?thesis using v decodeI32_eq [of "0x7fc00000"]
      by (simp add: encodeFloatAsI32_def js_isNaN_def CANONICAL_FLOAT32_NAN_def)
  next
    case False
    then have w: "widen32 (narrow32 w) = w" using assms v by simp
    then have "\<not> f32IsNan (narrow32 w)" using False narrow_widen(2) [OF narrow32_bound, of w] by simp
    then show ?thesis using False w v decodeI32_eq [of "int (narrow32 w)"] narrow32_lt [of w]
      by (simp add: encodeFloatAsI32_def js_isNaN_def coreI32ReinterpretF32_def js_f64_def)
  qed
qed

lemma f64_conform_decode:
  assumes "conformsPrim KF64 v"
  shows "decodeI64AsFloat (encodeFloatAsI64 v) = v"
proof -
  obtain w where v: "v = VFlt w" using assms by (cases v) auto
  have "word_of_int (CANONICAL_FLOAT64_NAN) = f64NaN" by (simp add: CANONICAL_FLOAT64_NAN_def f64NaN_def)
  then show ?thesis using assms v
    by (cases "f64IsNan w") (simp_all add: decodeI64_eq encodeFloatAsI64_def js_isNaN_def coreI64ReinterpretF64_def js_f64_def)
qed

lemma prim_dec_enc:
  assumes "conformsPrim k v" "k \<noteq> KString"
  shows "decPrim k (encPrim k v mod 2 ^ (8 * primSize k p)) = Inr v"
proof -
  let ?n = "primSize k p"
  note fits = conformsPrim_fits [OF assms, of p]
  show ?thesis
  proof (cases "signedPrim k")
    case True
    then have "toSigned ?n (encPrim k v mod 2 ^ (8 * ?n)) = encPrim k v"
      using fits by (intro toSigned_mod) (auto simp: fitsWidth_def elim: signedPrim.elims)
    with True assms show ?thesis
      by (cases k) (auto simp: inRange_def inRangeBig_def laneInt_def js_int_def split: JsVal.splits)
  next
    case False
    then have m: "encPrim k v mod 2 ^ (8 * ?n) = encPrim k v"
      using fits by (simp add: fitsWidth_def)
    have ch: "convertI32ToChar (int n) = Inr s" if "charToI32 s = Inr n" for s n
      using charToI32_Inr [OF that] convertI32ToChar_scalar [of n] by simp
    show ?thesis unfolding m using False assms f32_conform_decode [of v] f64_conform_decode [of v] ch
      by (cases k) (auto simp: inRange_def inRangeBig_def laneInt_def js_int_def js_truthy_def
          split: JsVal.splits sum.splits)
  qed
qed

lemma storePrim_run:
  assumes "conformsPrim k v" "k \<noteq> KString" "ptr + primSize k p \<le> memLen mem h"
  shows "storePrim cx mem v ptr k h =
    (Inr (), setMem mem (splice ptr (leEncode (primSize k p) (encPrim k v)) (memBytes mem h)) h)"
proof -
  note fits = conformsPrim_fits [OF assms(1,2), of p]
  have n: "primSize k p \<in> {1, 2, 4, 8}" using assms(2) by (cases k) simp_all
  have st: "storeInt mem (jsInt (primSize k p) (encPrim k v)) ptr (primSize k p) (signedPrim k) h =
    (Inr (), setMem mem (splice ptr (leEncode (primSize k p) (encPrim k v)) (memBytes mem h)) h)"
    by (rule storeInt_run [OF assms(3) fits n])
  have ch: "VStr s = v \<Longrightarrow> conformsPrim KChar v \<Longrightarrow> \<exists>n. charToI32 s = Inr n" for s
    by (cases "charToI32 s") auto
  show ?thesis
    using st assms(1,2)
    by (cases k) (auto simp: storePrim_def jsInt_def run_simps inRange_def inRangeBig_def laneInt_def
        js_int_def js_str_def split: JsVal.splits sum.splits)
qed

section \<open>Codecs over a region of memory\<close>

definition agree :: "8 word list \<Rightarrow> 8 word list \<Rightarrow> nat \<Rightarrow> nat \<Rightarrow> bool" where
  "agree M M' a b \<longleftrightarrow> length M' = length M \<and> (\<forall>i. a \<le> i \<and> i < b \<longrightarrow> M' ! i = M ! i)"

definition outside :: "8 word list \<Rightarrow> 8 word list \<Rightarrow> nat \<Rightarrow> nat \<Rightarrow> bool" where
  "outside M M' a b \<longleftrightarrow>
     length M' = length M \<and> (\<forall>i. i < length M \<and> (i < a \<or> b \<le> i) \<longrightarrow> M' ! i = M ! i)"

definition codec ::
  "MemRef \<Rightarrow> nat \<Rightarrow> ('g heap_scheme, unit) sm \<Rightarrow> ('g heap_scheme, 'v) sm \<Rightarrow> nat \<Rightarrow> nat \<Rightarrow> 'v \<Rightarrow> bool" where
  "codec mem N st ld a b v \<longleftrightarrow>
     (\<forall>h. memLen mem h = N \<longrightarrow>
       (\<exists>M'. st h = (Inr (), setMem mem M' h) \<and> outside (memBytes mem h) M' a b \<and>
         (\<forall>h'. agree M' (memBytes mem h') a b \<longrightarrow> ld h' = (Inr v, h'))))"

lemma codecE:
  assumes "codec mem N st ld a b v" "memLen mem h = N"
  obtains M' where "st h = (Inr (), setMem mem M' h)" "outside (memBytes mem h) M' a b" "length M' = N"
    "\<forall>h'. agree M' (memBytes mem h') a b \<longrightarrow> ld h' = (Inr v, h')"
proof -
  obtain M' where M': "st h = (Inr (), setMem mem M' h)" "outside (memBytes mem h) M' a b"
    "\<forall>h'. agree M' (memBytes mem h') a b \<longrightarrow> ld h' = (Inr v, h')"
    using assms unfolding codec_def by blast
  moreover have "length M' = N" using M'(2) assms(2) by (simp add: outside_def memLen_def)
  ultimately show thesis using that by blast
qed

lemma agree_length: "agree M (memBytes mem h) a b \<Longrightarrow> memLen mem h = length M"
  by (simp add: agree_def memLen_def)

lemma codec_cong:
  fixes st st2 :: "('g heap_scheme, unit) sm"
  assumes "codec mem N st ld a b v"
    "\<And>h. memLen mem h = N \<Longrightarrow> st2 h = st h" "\<And>h. memLen mem h = N \<Longrightarrow> ld2 h = ld h"
  shows "codec mem N st2 ld2 a b v"
  unfolding codec_def
proof (intro allI impI)
  fix h :: "'g heap_scheme" assume h: "memLen mem h = N"
  obtain M' where M': "st h = (Inr (), setMem mem M' h)" "outside (memBytes mem h) M' a b" "length M' = N"
    "\<forall>h'. agree M' (memBytes mem h') a b \<longrightarrow> ld h' = (Inr v, h')"
    by (rule codecE [OF assms(1) h])
  have "ld2 h' = (Inr v, h')" if "agree M' (memBytes mem h') a b" for h'
    using assms(3) [of h'] M'(4) agree_length [OF that] M'(3) that by simp
  with M' assms(2) [OF h] show "\<exists>M'. st2 h = (Inr (), setMem mem M' h) \<and> outside (memBytes mem h) M' a b \<and>
      (\<forall>h'. agree M' (memBytes mem h') a b \<longrightarrow> ld2 h' = (Inr v, h'))" by auto
qed

lemma codec_weaken:
  fixes st :: "('g heap_scheme, unit) sm"
  assumes "codec mem N st ld a b v" "a' \<le> a" "b \<le> b'"
  shows "codec mem N st ld a' b' v"
  unfolding codec_def
proof (intro allI impI)
  fix h :: "'g heap_scheme" assume h: "memLen mem h = N"
  obtain M' where M': "st h = (Inr (), setMem mem M' h)" "outside (memBytes mem h) M' a b"
    "\<forall>h'. agree M' (memBytes mem h') a b \<longrightarrow> ld h' = (Inr v, h')"
    by (rule codecE [OF assms(1) h])
  have "agree M' M a b" if "agree M' M a' b'" for M
    using that assms(2,3) by (auto simp: agree_def)
  moreover have "outside (memBytes mem h) M' a' b'"
    using M'(2) assms(2,3) by (auto simp: outside_def)
  ultimately show "\<exists>M'. st h = (Inr (), setMem mem M' h) \<and> outside (memBytes mem h) M' a' b' \<and>
      (\<forall>h'. agree M' (memBytes mem h') a' b' \<longrightarrow> ld h' = (Inr v, h'))"
    using M' by blast
qed

lemma codec_bind:
  fixes st1 st2 :: "('g heap_scheme, unit) sm"
  assumes "codec mem N st1 ld1 a b v" "codec mem N st2 (g v) c d w" "b \<le> c" "a \<le> b" "c \<le> d" "d \<le> N"
  shows "codec mem N (bindM st1 (\<lambda>_. st2)) (bindM ld1 g) a d w"
  unfolding codec_def
proof (intro allI impI)
  fix h :: "'g heap_scheme" assume h: "memLen mem h = N"
  obtain M1 where M1: "st1 h = (Inr (), setMem mem M1 h)" "outside (memBytes mem h) M1 a b" "length M1 = N"
    "\<forall>h'. agree M1 (memBytes mem h') a b \<longrightarrow> ld1 h' = (Inr v, h')"
    by (rule codecE [OF assms(1) h])
  have h1: "memLen mem (setMem mem M1 h) = N" using M1(3) by simp
  obtain M2 where M2: "st2 (setMem mem M1 h) = (Inr (), setMem mem M2 (setMem mem M1 h))"
    "outside (memBytes mem (setMem mem M1 h)) M2 c d" "length M2 = N"
    "\<forall>h'. agree M2 (memBytes mem h') c d \<longrightarrow> g v h' = (Inr w, h')"
    by (rule codecE [OF assms(2) h1])
  have o: "outside M1 M2 c d" using M2(2) by simp
  have "bindM st1 (\<lambda>_. st2) h = (Inr (), setMem mem M2 h)" using M1(1) M2(1) by (simp add: bindM_def)
  moreover have "outside (memBytes mem h) M2 a d"
    using M1(2) o assms(3-6) by (auto simp: outside_def)
  moreover have "bindM ld1 g h' = (Inr w, h')" if ag: "agree M2 (memBytes mem h') a d" for h'
  proof -
    have "agree M1 (memBytes mem h') a b"
      using ag o assms(3-6) M1(3) by (auto simp: agree_def outside_def)
    moreover have "agree M2 (memBytes mem h') c d" using ag assms(3-5) by (auto simp: agree_def)
    ultimately show ?thesis using M1(4) M2(4) by (simp add: bindM_def)
  qed
  ultimately show "\<exists>M'. bindM st1 (\<lambda>_. st2) h = (Inr (), setMem mem M' h) \<and>
      outside (memBytes mem h) M' a d \<and>
      (\<forall>h'. agree M' (memBytes mem h') a d \<longrightarrow> bindM ld1 g h' = (Inr w, h'))" by blast
qed

lemma codec_return: "codec mem N (returnM () :: ('g heap_scheme, unit) sm) (returnM v) a b v"
  unfolding codec_def
proof (intro allI impI exI conjI)
  fix h :: "'g heap_scheme"
  show "returnM () h = (Inr (), setMem mem (memBytes mem h) h)" by (simp add: run_simps)
qed (simp_all add: outside_def run_simps)

lemma codec_map:
  fixes st :: "('g heap_scheme, unit) sm"
  assumes "codec mem N st ld a b v" "g v = returnM w"
  shows "codec mem N st (bindM ld g) a b w"
  unfolding codec_def
proof (intro allI impI)
  fix h :: "'g heap_scheme" assume h: "memLen mem h = N"
  obtain M' where "st h = (Inr (), setMem mem M' h)" "outside (memBytes mem h) M' a b"
    "\<forall>h'. agree M' (memBytes mem h') a b \<longrightarrow> ld h' = (Inr v, h')"
    by (rule codecE [OF assms(1) h])
  then show "\<exists>M'. st h = (Inr (), setMem mem M' h) \<and> outside (memBytes mem h) M' a b \<and>
      (\<forall>h'. agree M' (memBytes mem h') a b \<longrightarrow> bindM ld g h' = (Inr w, h'))"
    using assms(2) by (auto simp: bindM_def run_simps)
qed

lemma agree_slice: "agree M M' p (p + n) \<Longrightarrow> p + n \<le> length M \<Longrightarrow> slice p n M' = slice p n M"
  by (intro nth_equalityI) (simp_all add: agree_def nth_slice)

lemma outside_splice: "p + length bs \<le> length M \<Longrightarrow> outside M (splice p bs M) p (p + length bs)"
  by (auto simp: outside_def nth_splice)

lemma codec_bytes:
  fixes st :: "('g heap_scheme, unit) sm"
  assumes "\<And>h. memLen mem h = N \<Longrightarrow> st h = (Inr (), setMem mem (splice p bs (memBytes mem h)) h)"
    and "\<And>h. memLen mem h = N \<Longrightarrow> slice p (length bs) (memBytes mem h) = bs \<Longrightarrow> ld h = (Inr v, h)"
    and "p + length bs \<le> N"
  shows "codec mem N st ld p (p + length bs) v"
  unfolding codec_def
proof (intro allI impI exI conjI)
  fix h :: "'g heap_scheme" assume h: "memLen mem h = N"
  then have len: "p + length bs \<le> length (memBytes mem h)" using assms(3) by (simp add: memLen_def)
  show "st h = (Inr (), setMem mem (splice p bs (memBytes mem h)) h)" by (rule assms(1) [OF h])
  show "outside (memBytes mem h) (splice p bs (memBytes mem h)) p (p + length bs)"
    by (rule outside_splice [OF len])
  fix h' :: "'g heap_scheme" assume ag: "agree (splice p bs (memBytes mem h)) (memBytes mem h') p (p + length bs)"
  have "length (splice p bs (memBytes mem h)) = N" using len h by (simp add: memLen_def)
  then have "memLen mem h' = N" "slice p (length bs) (memBytes mem h') = bs"
    using agree_length [OF ag] agree_slice [OF ag] lm.rd_wr_same [OF len] assms(3) by simp_all
  then show "ld h' = (Inr v, h')" by (rule assms(2))
qed

lemma codec_prim:
  fixes cx :: "'g heap_scheme Context"
  assumes "conformsPrim k v" "k \<noteq> KString" "ptr + primSize k p \<le> N"
  shows "codec mem N (storePrim cx mem v ptr k) (loadPrim cx mem ptr k) ptr (ptr + primSize k p) v"
proof -
  let ?n = "primSize k p"
  have "codec mem N (storePrim cx mem v ptr k) (loadPrim cx mem ptr k) ptr
    (ptr + length (leEncode ?n (encPrim k v))) v"
  proof (rule codec_bytes)
    fix h :: "'g heap_scheme" assume h: "memLen mem h = N"
    show "storePrim cx mem v ptr k h = (Inr (), setMem mem (splice ptr (leEncode ?n (encPrim k v)) (memBytes mem h)) h)"
      using storePrim_run [OF assms(1,2), of ptr p mem h cx] assms(3) h by simp
    assume "slice ptr (length (leEncode ?n (encPrim k v))) (memBytes mem h) = leEncode ?n (encPrim k v)"
    then show "loadPrim cx mem ptr k h = (Inr v, h)"
      using loadPrim_run [OF assms(2), of ptr p mem h cx] assms(3) h prim_dec_enc [OF assms(1,2), of p]
      by (simp add: leValue_mod)
  qed (use assms(3) in simp)
  then show ?thesis by simp
qed

lemma codec_int:
  assumes "n \<in> {1, 2, 4}" "0 \<le> i" "i < 2 ^ (8 * n)" "ptr + n \<le> N"
  shows "codec mem N (storeInt mem (VNum i) ptr n False :: ('g heap_scheme, unit) sm)
    (loadIntU mem ptr n) ptr (ptr + n) i"
proof -
  have j: "VNum i = jsInt n i" using assms(1) by (auto simp: jsInt_def)
  have fits: "fitsWidth n False i" using assms(2,3) by (simp add: fitsWidth_def)
  have "codec mem N (storeInt mem (VNum i) ptr n False :: ('g heap_scheme, unit) sm) (loadIntU mem ptr n) ptr
    (ptr + length (leEncode n i)) i"
  proof (rule codec_bytes)
    fix h :: "'g heap_scheme" assume h: "memLen mem h = N"
    show "storeInt mem (VNum i) ptr n False h = (Inr (), setMem mem (splice ptr (leEncode n i) (memBytes mem h)) h)"
      unfolding j by (rule storeInt_run) (use assms h fits in auto)
    assume s: "slice ptr (length (leEncode n i)) (memBytes mem h) = leEncode n i"
    then show "loadIntU mem ptr n h = (Inr i, h)"
      using loadIntU_run [of ptr n mem h] assms(4) h leValue_fits [of ptr n "memBytes mem h" i] fits by simp
  qed (use assms(4) in simp)
  then show ?thesis by simp
qed

lemma codec_flags:
  assumes "map fst ps = ls" "distinct ls" "ls \<noteq> []" "length ls \<le> 32"
    "list_all (\<lambda>p. case snd p of VBool b \<Rightarrow> True | _ \<Rightarrow> False) ps"
    "elemSizeFlags ls = Inr n" "ptr + n \<le> N" "memory (opts cx) = Some mem"
  shows "codec mem N (storeFlags cx (VObj ps) ptr ls) (loadFlags cx ptr ls) ptr (ptr + n) (VObj ps)"
proof -
  obtain w :: "32 word" where w: "packFlagsIntoInt (VObj ps) ls = Inr (uint w)" "unpackFlagsFromInt (uint w) ls = VObj ps"
    "\<And>i. bit w i \<Longrightarrow> i < length ls"
    using flags_roundtrip [OF assms(1,2,4,5)] by blast
  have n: "n \<in> {1, 2, 4}" "length ls \<le> 8 * n"
    using assms(3,4,6) by (auto simp: elemSizeFlags_def Let_def run_simps split: if_splits)
  have "i < 8 * n" if "bit w i" for i using w(3) [OF that] n(2) by linarith
  then have "uint w < 2 ^ (8 * n)" by (rule uint_less_pow)
  then have c: "codec mem N (storeInt mem (VNum (uint w)) ptr n False) (loadIntU mem ptr n) ptr (ptr + n) (uint w)"
    using n(1) assms(7) by (intro codec_int) simp_all
  show ?thesis
    by (rule codec_cong [OF codec_map [OF c, of "\<lambda>i. returnM (unpackFlagsFromInt i ls)"]])
      (simp_all add: w storeFlags_def loadFlags_def needMemory_def requireMemory_def assms(6,8) run_simps)
qed

section \<open>Elements of a list\<close>

lemma bindM_needMemory:
  "memory (opts cx) = Some mem \<Longrightarrow> bindM (needMemory cx) f h = f mem h"
  by (simp add: needMemory_def requireMemory_def run_simps)

lemma needMemory_run: "memory (opts cx) = Some mem \<Longrightarrow> needMemory cx h = (Inr mem, h)"
  by (simp add: needMemory_def requireMemory_def run_simps)

lemma store_body:
  assumes "memory (opts cx) = Some mem" "wf_type t" "algn t (addrType mem) dvd ptr"
    "ptr + esz t (addrType mem) \<le> memLen mem h"
  shows "store cx v t ptr h =
    (case despecialize t of
       TPrim k \<Rightarrow> storePrim cx mem v ptr k
     | TList e n \<Rightarrow> storeList cx v ptr e n
     | TRecord fs \<Rightarrow> storeRecord cx v ptr fs
     | TVariant cs \<Rightarrow> storeVariant cx v ptr cs
     | TFlags ls \<Rightarrow> storeFlags cx v ptr ls
     | d \<Rightarrow> storeHandle cx mem v ptr d) h"
  using assms alignTo_id [OF wf_layoutD(6) [OF assms(2)] assms(3)]
  by (simp only: store.simps [of cx v t ptr] bindM_needMemory [OF assms(1)] run_simps wf_layoutD(1,2) [OF assms(2)]) simp

lemma load_body:
  assumes "memory (opts cx) = Some mem" "wf_type t" "algn t (addrType mem) dvd ptr"
    "ptr + esz t (addrType mem) \<le> memLen mem h"
  shows "load cx ptr t h =
    (case despecialize t of
       TPrim k \<Rightarrow> loadPrim cx mem ptr k
     | TList e n \<Rightarrow> loadList cx ptr e n
     | TRecord fs \<Rightarrow> loadRecord cx ptr fs []
     | TVariant cs \<Rightarrow> loadVariant cx ptr cs
     | TFlags ls \<Rightarrow> loadFlags cx ptr ls
     | d \<Rightarrow> loadHandle cx mem ptr d) h"
  using assms alignTo_id [OF wf_layoutD(6) [OF assms(2)] assms(3)]
  by (simp only: load.simps [of cx ptr t] bindM_needMemory [OF assms(1)] run_simps wf_layoutD(1,2) [OF assms(2)]) simp

lemma codec_elems:
  fixes cx :: "'g heap_scheme Context"
  assumes "\<And>x q. x \<in> set xs \<Longrightarrow> algn e p dvd q \<Longrightarrow> q + sz \<le> N \<Longrightarrow>
      codec mem N (store cx x e q) (load cx q e) q (q + sz) x"
    "algn e p dvd sz" "algn e p dvd q" "q + length xs * sz \<le> N"
  shows "codec mem N (storeElems cx xs q sz e) (loadElems cx q sz (length xs) e) q (q + length xs * sz) xs"
  using assms
proof (induction xs arbitrary: q)
  case Nil
  show ?case using codec_return [of mem N "[]" q q]
    by (simp add: storeElems.simps loadElems.simps)
next
  case (Cons x xs)
  have c1: "codec mem N (store cx x e q) (load cx q e) q (q + sz) x"
    using Cons.prems by (intro Cons.prems(1)) simp_all
  have "codec mem N (storeElems cx xs (q + sz) sz e) (loadElems cx (q + sz) sz (length xs) e)
    (q + sz) (q + sz + length xs * sz) xs"
    using Cons.prems by (intro Cons.IH) (simp_all add: dvd_add)
  then have c2: "codec mem N (storeElems cx xs (q + sz) sz e)
    (bindM (loadElems cx (q + sz) sz (length xs) e) (\<lambda>vs. returnM (x # vs)))
    (q + sz) (q + sz + length xs * sz) (x # xs)"
    by (rule codec_map) simp
  have "codec mem N (bindM (store cx x e q) (\<lambda>_. storeElems cx xs (q + sz) sz e))
    (bindM (load cx q e) (\<lambda>v. bindM (loadElems cx (q + sz) sz (length xs) e) (\<lambda>vs. returnM (v # vs))))
    q (q + sz + length xs * sz) (x # xs)"
  proof (rule codec_bind [OF c1])
    show "codec mem N (storeElems cx xs (q + sz) sz e)
      (bindM (loadElems cx (q + sz) sz (length xs) e) (\<lambda>vs. returnM (x # vs)))
      (q + sz) (q + sz + length xs * sz) (x # xs)" by (rule c2)
    show "q + sz + length xs * sz \<le> N" using Cons.prems(4) by simp
  qed simp_all
  then show ?case
    by (simp add: storeElems.simps [of cx "x # xs"] loadElems.simps [of cx q sz "Suc (length xs)"] algebra_simps)
qed

section \<open>The bulk path equals the element loop\<close>

definition dec :: "PrimKind \<Rightarrow> int \<Rightarrow> JsVal" where
  "dec k x = (case decPrim k x of Inr v \<Rightarrow> v | Inl _ \<Rightarrow> VUndef)"

lemma bulk_prim:
  assumes "bulkCtor d \<noteq> None"
  obtains k where "d = TPrim k" "k \<noteq> KString" "k \<noteq> KChar" "k \<noteq> KU8" "\<And>x. decPrim k x = Inr (dec k x)"
proof -
  obtain k where k: "d = TPrim k" using assms by (cases d) auto
  with assms that [of k] show thesis by (cases k) (auto simp: dec_def)
qed

lemma prim_layout:
  assumes "despecialize e = TPrim k"
  shows "wf_type e" "algn e p = primAlignment k p" "esz e p = primSize k p"
  using assms
  by (simp_all add: wf_type.simps [of e] algn_def esz_def alignment.simps [of e] elemSize.simps [of e])

lemma loadElems_prim:
  assumes "memory (opts cx) = Some mem" "despecialize e = TPrim k" "k \<noteq> KString"
    "\<And>x. decPrim k x = Inr (dec k x)" "primAlignment k (addrType mem) dvd q"
    "q + n * primSize k (addrType mem) \<le> memLen mem h"
  defines "sz \<equiv> primSize k (addrType mem)"
  shows "loadElems cx q sz n e h =
    (Inr (map (\<lambda>i. dec k (leValue (slice (q + i * sz) sz (memBytes mem h)))) [0..<n]), h)"
  using assms(5,6)
proof (induction n arbitrary: q)
  case (Suc n)
  note lay = prim_layout(1) [OF assms(2)] prim_layout(2,3) [OF assms(2), of "addrType mem"]
  have "load cx q e h = loadPrim cx mem q k h"
    using load_body [OF assms(1) lay(1), of q h] Suc.prems lay assms(2) by simp
  then have l: "load cx q e h = (Inr (dec k (leValue (slice q sz (memBytes mem h)))), h)"
    using loadPrim_run [OF assms(3), of q "addrType mem" mem h cx] Suc.prems assms(4) by (simp add: sz_def)
  have "primAlignment k (addrType mem) dvd sz" using prim_lay [of k "addrType mem"] by (simp add: sz_def)
  then have r: "loadElems cx (q + sz) sz n e h =
    (Inr (map (\<lambda>i. dec k (leValue (slice (q + sz + i * sz) sz (memBytes mem h)))) [0..<n]), h)"
    using Suc.prems by (intro Suc.IH) (simp_all add: sz_def)
  have up: "[0..<Suc n] = 0 # map Suc [0..<n]" by (simp add: upt_conv_Cons map_Suc_upt del: upt_Suc)
  show ?case
    by (simp add: loadElems.simps [of cx q sz "Suc n"] bindM_def l r run_simps up algebra_simps
        del: upt_Suc)
qed (simp add: loadElems.simps run_simps)

lemma leValue_lt:
  assumes "p + n \<le> length M"
  shows "leValue (slice p n M) < 2 ^ (8 * n)"
  using leValue_bounds(2) [of "slice p n M"] assms by (simp add: pow256)

lemma dec_float:
  assumes "0 \<le> x" "x < 2 ^ (8 * n)" "n = 4 \<or> n = 8"
  shows "canonicalF64 (if n = 4 then widen32 (nat x) else word_of_int x) = dec (if n = 4 then KF32 else KF64) x"
proof (cases "n = 4")
  case True
  then have "x < 2 ^ 32" using assms(2) by simp
  then have "nat x < 2 ^ 32" by (simp add: nat_less_iff)
  then show ?thesis using True decodeI32_eq [OF assms(1)] \<open>x < 2 ^ 32\<close> narrow_widen(2) [of "nat x"]
    by (simp add: dec_def canonicalF64_def)
qed (use assms(3) in \<open>simp add: dec_def canonicalF64_def decodeI64_eq\<close>)

lemma tryLoad_elems:
  assumes "bulkCtor (TPrim k) \<noteq> None" "ptr + len * primSize k p \<le> memLen mem h"
  shows "tryLoadNumericList ple mem ptr len (TPrim k) h = (Inr None, h) \<or>
    tryLoadNumericList ple mem ptr len (TPrim k) h =
      (Inr (Some (VArr (map (\<lambda>i. dec k (leValue (slice (ptr + i * primSize k p) (primSize k p) (memBytes mem h)))) [0..<len]))), h)"
proof -
  let ?M = "memBytes mem h"
  have M: "ptr + len * primSize k p \<le> length ?M" using assms(2) by (simp add: memLen_def)
  have fl: "canonicalF64 (if n = 4 then widen32 (nat (leValue (slice (ptr + i * n) n ?M)))
        else word_of_int (leValue (slice (ptr + i * n) n ?M))) =
      dec (if n = 4 then KF32 else KF64) (leValue (slice (ptr + i * n) n ?M))"
    if "i < len" "n = 4 \<or> n = 8" "ptr + len * n \<le> length ?M" for i n
  proof -
    have "Suc i * n \<le> len * n" using that(1) by (intro mult_le_mono1) simp
    then have "ptr + i * n + n \<le> length ?M" using that(3) by simp
    from dec_float [OF leValue_bounds(1) leValue_lt [OF this] that(2)] show ?thesis .
  qed
  have bo: "map (\<lambda>b. VBool (b \<noteq> 0)) (slice ptr len ?M) =
      map (\<lambda>i. dec KBool (leValue (slice (ptr + i) (Suc 0) ?M))) [0..<len]"
    if "ptr + len \<le> length ?M"
  proof (rule nth_equalityI)
    fix i assume "i < length (map (\<lambda>b. VBool (b \<noteq> 0)) (slice ptr len ?M))"
    then have i: "i < len" using that by simp
    have "slice (ptr + i) (Suc 0) ?M = [?M ! (ptr + i)]"
      using i that by (simp add: slice_def take_Suc hd_drop_conv_nth)
    then show "map (\<lambda>b. VBool (b \<noteq> 0)) (slice ptr len ?M) ! i =
      map (\<lambda>i. dec KBool (leValue (slice (ptr + i) (Suc 0) ?M))) [0..<len] ! i"
      using i that by (simp add: nth_slice dec_def leValue_def uint_0_iff)
  qed (use that in simp)
  show ?thesis
    using assms M fl [where n = 4] fl [where n = 8] bo
    by (cases k)
      (auto simp: tryLoadNumericList_def bytesOf_def viewElems_def run_simps memLen_def dec_def)
qed

lemma bulk_load_elems:
  assumes "memory (opts cx) = Some mem" "bulkCtor (despecialize e) \<noteq> None"
    "algn e (addrType mem) dvd ptr" "ptr + len * esz e (addrType mem) \<le> memLen mem h"
  shows "loadListFromValidRange cx ptr len e h =
    bindM (loadElems cx ptr (esz e (addrType mem)) len e) (\<lambda>a. returnM (VArr a)) h"
proof -
  obtain k where k: "despecialize e = TPrim k" "k \<noteq> KString" "k \<noteq> KChar" "k \<noteq> KU8"
    "\<And>x. decPrim k x = Inr (dec k x)"
    using bulk_prim [OF assms(2)] by blast
  let ?p = "addrType mem" and ?sz = "primSize k (addrType mem)"
  note lay = prim_layout(2,3) [OF k(1), of ?p]
  have al: "primAlignment k ?p dvd ptr" and en: "ptr + len * ?sz \<le> memLen mem h"
    using assms(3,4) lay by simp_all
  note el = loadElems_prim [OF assms(1) k(1,2) k(5) al en]
  have b: "bulkCtor (TPrim k) \<noteq> None" using assms(2) k(1) by simp
  have es: "elemSize e ?p = Inr ?sz" using wf_layoutD(2) [OF prim_layout(1) [OF k(1)]] lay by simp
  from tryLoad_elems [OF b en, of "platformLE cx"] show ?thesis
    using k(1,4) el es lay
    by (elim disjE) (simp_all add: loadListFromValidRange.simps [of cx ptr len e] needMemory_run [OF assms(1)]
        bindM_def run_simps)
qed

lemma pokeAll_elems:
  fixes cx :: "'g heap_scheme Context"
  assumes "\<And>x q (h :: 'g heap_scheme). x \<in> set xs \<Longrightarrow> a dvd q \<Longrightarrow> q + sz \<le> N \<Longrightarrow> memLen mem h = N \<Longrightarrow>
      \<exists>M. f q x h = (Inr (), setMem mem M h) \<and> store cx x e q h = (Inr (), setMem mem M h) \<and> length M = N"
    "a dvd sz" "a dvd q" "q + length xs * sz \<le> N" "memLen mem h = N"
  shows "\<exists>M. pokeAll f sz q xs h = (Inr (), setMem mem M h) \<and>
    storeElems cx xs q sz e h = (Inr (), setMem mem M h) \<and> length M = N"
  using assms
proof (induction xs arbitrary: q h)
  case Nil
  then show ?case
    by (intro exI [of _ "memBytes mem h"]) (simp add: storeElems.simps run_simps memLen_def)
next
  case (Cons x xs)
  have "q + sz \<le> N" using Cons.prems(4) by simp
  with Cons.prems(1) [of x q h] Cons.prems(3,5) obtain M where
    M: "f q x h = (Inr (), setMem mem M h)" "store cx x e q h = (Inr (), setMem mem M h)" "length M = N"
    by auto
  have "\<exists>M2. pokeAll f sz (q + sz) xs (setMem mem M h) = (Inr (), setMem mem M2 (setMem mem M h)) \<and>
    storeElems cx xs (q + sz) sz e (setMem mem M h) = (Inr (), setMem mem M2 (setMem mem M h)) \<and> length M2 = N"
    by (rule Cons.IH) (use Cons.prems M(3) in \<open>simp_all add: dvd_add\<close>)
  then show ?case using M by (auto simp: storeElems.simps [of cx "x # xs"] bindM_def)
qed

definition pokeOf :: "MemRef \<Rightarrow> BulkCtor \<Rightarrow> nat \<Rightarrow> JsVal \<Rightarrow> ('g heap_scheme, unit) sm" where
  "pokeOf mem c =
     (case c of
        BoolBytes \<Rightarrow> (\<lambda>p x. pokeBytes mem p [if js_truthy x then 1 else 0])
      | IntArray n s \<Rightarrow> pokeInt mem n
      | BigArray s \<Rightarrow> pokeBig mem
      | FloatArray n \<Rightarrow> pokeFloat mem n)"

lemma pokeOf_run:
  assumes "bulkCtor (TPrim k) = Some c" "conformsPrim k x"
  shows "pokeOf mem c q x h =
    (Inr (), setMem mem (splice q (leEncode (primSize k p) (encPrim k x)) (memBytes mem h)) h)"
  using assms
  by (cases k) (auto simp: pokeOf_def pokeInt_def pokeBig_def pokeFloat_def pokeBytes_def run_simps
      inRange_def inRangeBig_def js_int_def laneInt_def encodeFloatAsI32_def encodeFloatAsI64_def
      split: JsVal.splits)

lemma store_prim_run:
  assumes "memory (opts cx) = Some mem" "despecialize e = TPrim k" "k \<noteq> KString" "conformsPrim k x"
    "primAlignment k (addrType mem) dvd q" "q + primSize k (addrType mem) \<le> memLen mem h"
  shows "store cx x e q h = (Inr (), setMem mem (splice q (leEncode (primSize k (addrType mem)) (encPrim k x)) (memBytes mem h)) h)"
  using store_body [OF assms(1) prim_layout(1) [OF assms(2)], of q h x] prim_layout(2,3) [OF assms(2), of "addrType mem"]
    storePrim_run [OF assms(4,3,6), of cx] assms by simp

lemma tryStore_pokeAll:
  assumes "bulkCtor (TPrim k) = Some c" "ptr + length xs * primSize k p \<le> memLen mem h"
    "pokeAll (pokeOf mem c) (primSize k p) ptr xs h = (Inr (), h')"
  shows "tryStoreNumericList ple mem xs ptr (TPrim k) h \<in> {(Inr False, h), (Inr True, h')}"
  using assms
  by (cases k) (auto simp: tryStoreNumericList_def withView_def pokeOf_def bytesOf_def run_simps bindM_def)

lemma bulk_store_elems:
  fixes cx :: "'g heap_scheme Context"
  assumes "memory (opts cx) = Some mem" "bulkCtor (despecialize e) \<noteq> None"
    "algn e (addrType mem) dvd ptr" "ptr + length xs * esz e (addrType mem) \<le> memLen mem h"
    "list_all (conforms e) xs"
  shows "storeListIntoValidRange cx v xs ptr e h = storeElems cx xs ptr (esz e (addrType mem)) e h"
proof -
  obtain k where k: "despecialize e = TPrim k" "k \<noteq> KString" "k \<noteq> KChar" "k \<noteq> KU8"
    "\<And>x. decPrim k x = Inr (dec k x)"
    using bulk_prim [OF assms(2)] by blast
  obtain c where c: "bulkCtor (TPrim k) = Some c" using assms(2) k(1) by auto
  let ?p = "addrType mem" and ?sz = "primSize k (addrType mem)"
  note lay = prim_layout(2,3) [OF k(1), of ?p]
  have cf: "conformsPrim k x" if "x \<in> set xs" for x
    using assms(5) that k(1) by (simp add: list_all_iff conforms.simps [of e])
  have step: "\<exists>M. pokeOf mem c q x h = (Inr (), setMem mem M h) \<and>
      store cx x e q h = (Inr (), setMem mem M h) \<and> length M = N"
    if "x \<in> set xs" "primAlignment k ?p dvd q" "q + ?sz \<le> N" "memLen mem h = N"
    for x q N and h :: "'g heap_scheme"
  proof -
    have "length (splice q (leEncode ?sz (encPrim k x)) (memBytes mem h)) = N"
      using that(3,4) by (simp add: memLen_def)
    moreover have "pokeOf mem c q x h =
        (Inr (), setMem mem (splice q (leEncode ?sz (encPrim k x)) (memBytes mem h)) h)"
      by (rule pokeOf_run [OF c cf [OF that(1)]])
    moreover have "store cx x e q h =
        (Inr (), setMem mem (splice q (leEncode ?sz (encPrim k x)) (memBytes mem h)) h)"
      by (rule store_prim_run [OF assms(1) k(1,2) cf [OF that(1)] that(2)]) (simp only: that(3,4))
    ultimately show ?thesis by (intro exI conjI)
  qed
  have "\<exists>M. pokeAll (pokeOf mem c) ?sz ptr xs h = (Inr (), setMem mem M h) \<and>
    storeElems cx xs ptr ?sz e h = (Inr (), setMem mem M h) \<and> length M = memLen mem h"
  proof (rule pokeAll_elems [where a = "primAlignment k ?p"])
    show "primAlignment k ?p dvd ?sz" using prim_lay [of k ?p] by simp
    show "primAlignment k ?p dvd ptr" "ptr + length xs * ?sz \<le> memLen mem h"
      using assms(3,4) lay by simp_all
    show "memLen mem h = memLen mem h" by (rule refl)
  qed (rule step)
  then obtain M where M: "pokeAll (pokeOf mem c) ?sz ptr xs h = (Inr (), setMem mem M h)"
    "storeElems cx xs ptr ?sz e h = (Inr (), setMem mem M h)" by blast
  have es: "elemSize e ?p = Inr ?sz" using wf_layoutD(2) [OF prim_layout(1) [OF k(1)]] lay by simp
  have en: "ptr + length xs * ?sz \<le> memLen mem h" using assms(4) lay by simp
  consider "tryStoreNumericList (platformLE cx) mem xs ptr (TPrim k) h = (Inr False, h)"
    | "tryStoreNumericList (platformLE cx) mem xs ptr (TPrim k) h = (Inr True, setMem mem M h)"
    using tryStore_pokeAll [OF c en M(1), of "platformLE cx"] by blast
  then show ?thesis
    by cases (simp_all add: storeListIntoValidRange.simps [of cx v xs ptr e] needMemory_run [OF assms(1)]
        bindM_def run_simps k(1,4) M(2) es lay)
qed

section \<open>Every plain value\<close>

lemma conformsFields_cons:
  "conformsFields (f # fs) ps \<longleftrightarrow>
     (\<exists>x qs. ps = (fst f, x) # qs \<and> conforms (snd f) x \<and> conformsFields fs qs)"
  by (cases ps) auto

lemma conformsFields_fst: "conformsFields fs ps \<Longrightarrow> map fst ps = map fst fs"
  by (induction fs arbitrary: ps) (auto simp: conformsFields_cons simp del: conformsFields.simps(2))

lemma codec_record:
  fixes cx :: "'g heap_scheme Context"
  assumes "memory (opts cx) = Some mem"
    "\<And>f x q. f \<in> set fs \<Longrightarrow> conforms (snd f) x \<Longrightarrow> algn (snd f) (addrType mem) dvd q \<Longrightarrow>
       q + esz (snd f) (addrType mem) \<le> N \<Longrightarrow>
       codec mem N (store cx x (snd f) q) (load cx q (snd f)) q (q + esz (snd f) (addrType mem)) x"
    "\<forall>f \<in> set fs. wf_type (snd f) \<and> algn (snd f) (addrType mem) dvd ptr"
    "fieldsEnd s fs (addrType mem) = Inr e" "ptr + e \<le> N" "conformsFields fs ps"
    "\<forall>(l, x) \<in> set ps. js_get v l = Inr x" "distinct (map fst rec @ map fst ps)"
  shows "codec mem N (storeRecord cx v (ptr + s) fs) (loadRecord cx (ptr + s) fs rec)
    (ptr + s) (ptr + e) (VObj (rec @ ps)) \<and> s \<le> e"
  using assms(2-)
proof (induction fs arbitrary: s ps rec)
  case Nil
  then show ?case using codec_return [of mem N "VObj rec" "ptr + s" "ptr + s"]
    by (simp add: storeRecord.simps loadRecord.simps)
next
  case (Cons f fs)
  let ?p = "addrType mem"
  let ?a = "algn (snd f) ?p" and ?z = "esz (snd f) ?p"
  let ?o = "alignTo s ?a"
  obtain x qs where ps: "ps = (fst f, x) # qs" and cx: "conforms (snd f) x" "conformsFields fs qs"
    using Cons.prems(5) by (auto simp only: conformsFields_cons)
  have wf: "wf_type (snd f)" and ad: "?a dvd ptr" using Cons.prems(2) by simp_all
  note lay = wf_layoutD [OF wf, of ?p]
  have al: "alignTo (ptr + s) ?a = ptr + ?o" by (rule alignTo_add [OF lay(6) ad])
  have so: "s \<le> ?o" by (rule alignTo_ge [OF lay(6)])
  have e: "fieldsEnd (?o + ?z) fs ?p = Inr e" using Cons.prems(3) lay(1,2) by simp
  have fr: "fst f \<notin> set (map fst rec)" using Cons.prems(7) ps by auto
  have IH: "codec mem N (storeRecord cx v (ptr + (?o + ?z)) fs)
      (loadRecord cx (ptr + (?o + ?z)) fs (rec @ [(fst f, x)])) (ptr + (?o + ?z)) (ptr + e)
      (VObj ((rec @ [(fst f, x)]) @ qs)) \<and> ?o + ?z \<le> e"
  proof (rule Cons.IH)
    fix g y q assume "g \<in> set fs" "conforms (snd g) y" "algn (snd g) ?p dvd q" "q + esz (snd g) ?p \<le> N"
    then show "codec mem N (store cx y (snd g) q) (load cx q (snd g)) q (q + esz (snd g) ?p) y"
      by (intro Cons.prems(1)) simp_all
  qed (use Cons.prems ps cx e in auto)
  then have ez: "?o + ?z \<le> e" by blast
  have c1: "codec mem N (store cx x (snd f) (ptr + ?o)) (load cx (ptr + ?o) (snd f)) (ptr + ?o) (ptr + ?o + ?z) x"
    using Cons.prems(4) ez ad cx(1) by (intro Cons.prems(1)) (simp_all add: dvd_add)
  have c2: "codec mem N (storeRecord cx v (ptr + ?o + ?z) fs)
      (loadRecord cx (ptr + ?o + ?z) fs (obj_set (fst f) x rec)) (ptr + ?o + ?z) (ptr + e) (VObj (rec @ ps))"
    using conjunct1 [OF IH] fr ps by (simp add: add.assoc)
  have c: "codec mem N (bindM (store cx x (snd f) (ptr + ?o)) (\<lambda>_. storeRecord cx v (ptr + ?o + ?z) fs))
      (bindM (load cx (ptr + ?o) (snd f)) (\<lambda>y. loadRecord cx (ptr + ?o + ?z) fs (obj_set (fst f) y rec)))
      (ptr + ?o) (ptr + e) (VObj (rec @ ps))"
  proof (rule codec_bind [OF c1])
    show "codec mem N (storeRecord cx v (ptr + ?o + ?z) fs)
      (loadRecord cx (ptr + ?o + ?z) fs (obj_set (fst f) x rec)) (ptr + ?o + ?z) (ptr + e) (VObj (rec @ ps))"
      by (rule c2)
    show "ptr + e \<le> N" by (rule Cons.prems(4))
  qed (use ez in simp_all)
  have gx: "js_get v (fst f) = Inr x" using Cons.prems(6) ps by simp
  have "codec mem N (storeRecord cx v (ptr + s) (f # fs)) (loadRecord cx (ptr + s) (f # fs) rec)
      (ptr + ?o) (ptr + e) (VObj (rec @ ps))"
    by (rule codec_cong [OF c])
      (simp_all add: storeRecord.simps [of cx v _ "f # fs"] loadRecord.simps [of cx _ "f # fs"]
        bindM_needMemory [OF assms(1)] run_simps lay(1,2) gx al)
  then have "codec mem N (storeRecord cx v (ptr + s) (f # fs)) (loadRecord cx (ptr + s) (f # fs) rec)
      (ptr + s) (ptr + e) (VObj (rec @ ps))"
    by (rule codec_weaken) (use so in simp_all)
  then show ?case using so ez by simp
qed

lemma filter_upt_single: "i < n \<Longrightarrow> filter (\<lambda>j. j = i) [0..<n] = [i]"
proof (induction n)
  case (Suc n)
  have "filter (\<lambda>j. j = i) [0..<n] = []" if "i = n" using that by (simp add: filter_empty_conv)
  with Suc show ?case by (cases "i = n") simp_all
qed simp

lemma matchCase_conforms:
  assumes "conformsCase cs (l, x)" "distinct (map fst cs)"
  obtains i where "i < length cs" "matchCase (VObj [(l, x)]) cs = Inr (i, x)" "fst (cs ! i) = l"
    "case snd (cs ! i) of None \<Rightarrow> x = VNull | Some u \<Rightarrow> conforms u x"
proof -
  have "\<exists>i < length cs. fst (cs ! i) = l \<and> (case snd (cs ! i) of None \<Rightarrow> x = VNull | Some u \<Rightarrow> conforms u x)"
    using assms(1)
  proof (induction cs)
    case (Cons c cs)
    show ?case
    proof (cases "fst c = l")
      case True
      with Cons.prems show ?thesis by (intro exI [of _ 0]) (simp split: option.splits)
    next
      case False
      with Cons obtain i where "i < length cs" "fst (cs ! i) = l"
        "case snd (cs ! i) of None \<Rightarrow> x = VNull | Some u \<Rightarrow> conforms u x" by auto
      then show ?thesis by (intro exI [of _ "Suc i"]) simp
    qed
  qed simp
  then obtain i where i: "i < length cs" "fst (cs ! i) = l"
    "case snd (cs ! i) of None \<Rightarrow> x = VNull | Some u \<Rightarrow> conforms u x" by blast
  have "filter (\<lambda>j. fst (cs ! j) = l) [0..<length cs] = [i]"
  proof -
    have u: "fst (cs ! j) = l \<longleftrightarrow> j = i" if "j < length cs" for j
      using nth_eq_iff_index_eq [OF assms(2), of j i] that i(1,2) by simp
    have "filter (\<lambda>j. fst (cs ! j) = l) [0..<length cs] = filter (\<lambda>j. j = i) [0..<length cs]"
      by (rule filter_cong) (use u in auto)
    also have "\<dots> = [i]"
      by (rule filter_upt_single [OF i(1)])
    finally show ?thesis .
  qed
  then have "matchCase (VObj [(l, x)]) cs = Inr (i, x)"
    by (simp add: matchCase_def run_simps Let_def)
  with i show thesis using that by blast
qed


lemma codec_variant:
  fixes cx :: "'g heap_scheme Context"
  assumes "memory (opts cx) = Some mem" "wf_type t" "despecialize t = TVariant cs"
    "conformsCase cs (l, x)" "algn t (addrType mem) dvd ptr" "ptr + esz t (addrType mem) \<le> N"
    "\<And>c u q. c \<in> set cs \<Longrightarrow> snd c = Some u \<Longrightarrow> conforms u x \<Longrightarrow> algn u (addrType mem) dvd q \<Longrightarrow>
       q + esz u (addrType mem) \<le> N \<Longrightarrow>
       codec mem N (store cx x u q) (load cx q u) q (q + esz u (addrType mem)) x"
  shows "codec mem N (storeVariant cx (VObj [(l, x)]) ptr cs) (loadVariant cx ptr cs)
    ptr (ptr + esz t (addrType mem)) (VObj [(l, x)])"
proof -
  let ?p = "addrType mem"
  have cs: "cs \<noteq> []" "length cs < 2 ^ 32" "distinct (map fst cs)"
    using assms(2,3) by (simp_all add: wf_type.simps [of t])
  obtain i where i: "i < length cs" "matchCase (VObj [(l, x)]) cs = Inr (i, x)" "fst (cs ! i) = l"
    "case snd (cs ! i) of None \<Rightarrow> x = VNull | Some u \<Rightarrow> conforms u x"
    by (rule matchCase_conforms [OF assms(4) cs(3)])
  obtain k where k: "discriminantType cs = Inr (TPrim k)" "k \<in> {KU8, KU16, KU32}"
    "length cs \<le> 2 ^ (8 * primSize k ?p)" "primSize k ?p \<in> {1, 2, 4}" "primAlignment k ?p = primSize k ?p"
    by (rule discriminant_cases [OF cs(1,2), of ?p])
  let ?d = "primSize k ?p"
  have lay: "\<forall>c \<in> set cs. \<forall>u. snd c = Some u \<longrightarrow> lay u ?p"
    using wf_variant_case [OF assms(2,3)] wf_layout by blast
  obtain m where m: "maxCaseAlignment cs ?p = Inr m" "m \<in> aligns"
    "\<forall>c \<in> set cs. \<forall>u. snd c = Some u \<longrightarrow> algn u ?p dvd m"
    using maxCaseAlignment_ok [OF lay] by blast
  obtain z where z: "maxCaseSize cs ?p = Inr z" "\<forall>c \<in> set cs. \<forall>u. snd c = Some u \<longrightarrow> esz u ?p \<le> z"
    using maxCaseSize_ok [OF lay] by blast
  have al: "algn t ?p = max ?d m" "esz t ?p = alignTo (alignTo ?d m + z) (max ?d m)"
    using assms(3) k m z
    by (simp_all add: algn_def esz_def alignment.simps [of t] elemSize.simps [of t]
        alignmentVariant.simps elemSizeVariant.simps)
  have da: "?d \<in> aligns" using k(4) by (auto simp: aligns_def)
  have "m dvd max ?d m" using aligns_dvd_max [OF da m(2)] by simp
  then have md: "m dvd ptr" using assms(5) al(1) dvd_trans by metis
  have mp: "0 < m" "0 < max ?d m" using m(2) da by (simp_all add: aligns_pos)
  have off: "alignTo (ptr + ?d) m = ptr + alignTo ?d m" by (rule alignTo_add [OF mp(1) md])
  have ge: "?d \<le> alignTo ?d m" "alignTo ?d m + z \<le> esz t ?p"
    using alignTo_ge [OF mp(1), of ?d] alignTo_ge [OF mp(2), of "alignTo ?d m + z"] al(2) by simp_all
  have c1: "codec mem N (storeInt mem (VNum (int i)) ptr ?d False :: ('g heap_scheme, unit) sm)
      (loadIntU mem ptr ?d) ptr (ptr + ?d) (int i)"
  proof (rule codec_int [OF k(4)])
    have "int i < int (2 ^ (8 * ?d))" using i(1) k(3) by linarith
    then show "int i < 2 ^ (8 * ?d)" by simp
  qed (use ge assms(6) in simp_all)
  define st where "st = (case snd (cs ! i) of None \<Rightarrow> returnM () | Some u \<Rightarrow> store cx x u (ptr + alignTo ?d m))"
  define ld where "ld = (\<lambda>j. if nat j \<ge> length cs then throwM (Trap ''invalid variant discriminant'')
     else case snd (cs ! nat j) of
         None \<Rightarrow> returnM (VObj [(fst (cs ! nat j), VNull)])
       | Some u \<Rightarrow> bindM (load cx (ptr + alignTo ?d m) u) (\<lambda>v. returnM (VObj [(fst (cs ! nat j), v)])))"
  have c2: "codec mem N st (ld (int i)) (ptr + alignTo ?d m) (ptr + esz t ?p) (VObj [(l, x)])"
  proof (cases "snd (cs ! i)")
    case None
    then show ?thesis using i codec_return [of mem N "VObj [(l, VNull)]"] by (simp add: st_def ld_def)
  next
    case (Some u)
    have mem: "cs ! i \<in> set cs" using i(1) by simp
    have "algn u ?p dvd alignTo ?d m" "algn u ?p dvd ptr"
      using m(3) mem Some md dvd_trans alignTo_dvd by meson+
    then have "algn u ?p dvd ptr + alignTo ?d m" by simp
    moreover have "esz u ?p \<le> z" using z(2) mem Some by simp
    ultimately have "codec mem N (store cx x u (ptr + alignTo ?d m)) (load cx (ptr + alignTo ?d m) u)
      (ptr + alignTo ?d m) (ptr + alignTo ?d m + esz u ?p) x"
      using i(4) Some ge assms(6) by (intro assms(7) [OF mem Some]) simp_all
    then have "codec mem N (store cx x u (ptr + alignTo ?d m))
      (bindM (load cx (ptr + alignTo ?d m) u) (\<lambda>v. returnM (VObj [(l, v)])))
      (ptr + alignTo ?d m) (ptr + alignTo ?d m + esz u ?p) (VObj [(l, x)])"
      by (rule codec_map) simp
    then have "codec mem N (store cx x u (ptr + alignTo ?d m))
      (bindM (load cx (ptr + alignTo ?d m) u) (\<lambda>v. returnM (VObj [(l, v)])))
      (ptr + alignTo ?d m) (ptr + esz t ?p) (VObj [(l, x)])"
    proof (rule codec_weaken [OF _ order_refl])
      show "ptr + alignTo ?d m + esz u ?p \<le> ptr + esz t ?p" using \<open>esz u ?p \<le> z\<close> ge by linarith
    qed
    then show ?thesis unfolding st_def ld_def using Some i(1,3) by simp
  qed
  have "codec mem N (bindM (storeInt mem (VNum (int i)) ptr ?d False) (\<lambda>_. st)) (bindM (loadIntU mem ptr ?d) ld)
    ptr (ptr + esz t ?p) (VObj [(l, x)])"
  proof (rule codec_bind [OF c1])
    show "codec mem N st (ld (int i)) (ptr + alignTo ?d m) (ptr + esz t ?p) (VObj [(l, x)])" by (rule c2)
    show "ptr + ?d \<le> ptr + alignTo ?d m" "ptr + alignTo ?d m \<le> ptr + esz t ?p" using ge by simp_all
    show "ptr + esz t ?p \<le> N" by (rule assms(6))
  qed simp
  then show ?thesis
    by (rule codec_cong)
      (simp_all add: storeVariant.simps loadVariant.simps bindM_needMemory [OF assms(1)] run_simps
        i(1,2) k(1) m(1) off st_def ld_def Let_def cong: if_cong option.case_cong)
qed


lemma codec_u8_list:
  fixes cx :: "'g heap_scheme Context"
  assumes "memory (opts cx) = Some mem" "despecialize e = TPrim KU8" "ptr + length bs \<le> N"
    "length xs = length bs"
  shows "codec mem N (storeListIntoValidRange cx (VBytes bs) xs ptr e)
    (loadListFromValidRange cx ptr (length bs) e) ptr (ptr + length bs) (VBytes bs)"
proof (rule codec_bytes)
  fix h :: "'g heap_scheme" assume h: "memLen mem h = N"
  show "storeListIntoValidRange cx (VBytes bs) xs ptr e h =
      (Inr (), setMem mem (splice ptr bs (memBytes mem h)) h)"
    using assms h
    by (simp add: storeListIntoValidRange.simps [of cx "VBytes bs" xs] bindM_needMemory [OF assms(1)]
        storeU8List_def bytesOf_def pokeBytes_def run_simps)
  assume "slice ptr (length bs) (memBytes mem h) = bs"
  then show "loadListFromValidRange cx ptr (length bs) e h = (Inr (VBytes bs), h)"
    using assms h
    by (simp add: loadListFromValidRange.simps [of cx ptr "length bs" e] bindM_needMemory [OF assms(1)]
        bytesOf_def run_simps)
qed (rule assms(3))

lemma codec_fixed_list:
  fixes cx :: "'g heap_scheme Context"
  assumes "memory (opts cx) = Some mem" "wf_type e" "algn e (addrType mem) dvd ptr"
    "ptr + len * esz e (addrType mem) \<le> N" "conforms (TList e (Some len)) v"
    "\<And>x q. conforms e x \<Longrightarrow> algn e (addrType mem) dvd q \<Longrightarrow> q + esz e (addrType mem) \<le> N \<Longrightarrow>
       codec mem N (store cx x e q) (load cx q e) q (q + esz e (addrType mem)) x"
  shows "codec mem N (storeList cx v ptr e (Some len)) (loadList cx ptr e (Some len))
    ptr (ptr + len * esz e (addrType mem)) v"
proof (cases "despecialize e = TPrim KU8")
  case True
  then obtain bs where v: "v = VBytes bs" "length bs = len"
    using assms(5) by (auto simp: conforms.simps [of "TList e (Some len)"] split: JsVal.splits)
  have "esz e (addrType mem) = 1" using prim_layout(3) [OF True] by simp
  then have "codec mem N (storeListIntoValidRange cx (VBytes bs) (map (\<lambda>b. VNum (uint b)) bs) ptr e)
    (loadListFromValidRange cx ptr (length bs) e) ptr (ptr + length bs) (VBytes bs)"
    using assms(4) v(2) by (intro codec_u8_list [OF assms(1) True]) simp_all
  then show ?thesis
    using v \<open>esz e (addrType mem) = 1\<close>
    by (simp add: storeList.simps loadList.simps run_simps)
next
  case False
  let ?z = "esz e (addrType mem)"
  obtain xs where v: "v = VArr xs" "length xs = len" "list_all (conforms e) xs"
    using assms(5) False by (auto simp: conforms.simps [of "TList e (Some len)"] split: JsVal.splits)
  have c: "codec mem N (storeElems cx xs ptr ?z e) (loadElems cx ptr ?z (length xs) e) ptr (ptr + length xs * ?z) xs"
  proof (rule codec_elems)
    fix x q assume "x \<in> set xs" "algn e (addrType mem) dvd q" "q + ?z \<le> N"
    then show "codec mem N (store cx x e q) (load cx q e) q (q + ?z) x"
      using v(3) by (intro assms(6)) (simp_all add: list_all_iff)
  qed (use assms(3,4) v(2) wf_layoutD(5) [OF assms(2)] in simp_all)
  then have c': "codec mem N (storeElems cx xs ptr ?z e) (bindM (loadElems cx ptr ?z len e) (\<lambda>a. returnM (VArr a)))
    ptr (ptr + len * ?z) v"
    unfolding v(2) by (rule codec_map) (simp add: v(1))
  show ?thesis
  proof (rule codec_cong [OF c'])
    fix h :: "'g heap_scheme" assume h: "memLen mem h = N"
    show "storeList cx v ptr e (Some len) h = storeElems cx xs ptr ?z e h"
    proof (cases "bulkCtor (despecialize e)")
      case None
      then show ?thesis using v False wf_layoutD(2) [OF assms(2)]
        by (simp add: storeList.simps storeListIntoValidRange.simps run_simps bindM_needMemory [OF assms(1)]
            tryStoreNumericList_def)
    next
      case (Some c)
      then show ?thesis using v bulk_store_elems [OF assms(1) _ assms(3) _ v(3), of h v] assms(4) h
        by (simp add: storeList.simps run_simps)
    qed
    show "loadList cx ptr e (Some len) h = bindM (loadElems cx ptr ?z len e) (\<lambda>a. returnM (VArr a)) h"
    proof (cases "bulkCtor (despecialize e)")
      case None
      then show ?thesis using False wf_layoutD(2) [OF assms(2)]
        by (simp add: loadList.simps loadListFromValidRange.simps run_simps bindM_needMemory [OF assms(1)]
            tryLoadNumericList_def)
    next
      case (Some c)
      then show ?thesis using bulk_load_elems [OF assms(1) _ assms(3), of len h] assms(4) h
        by (simp add: loadList.simps)
    qed
  qed
qed

lemma store_load_codec:
  fixes cx :: "'g heap_scheme Context"
  assumes "memory (opts cx) = Some mem" "wf_type t" "plain t" "conforms t v"
    "algn t (addrType mem) dvd ptr" "ptr + esz t (addrType mem) \<le> N"
  shows "codec mem N (store cx v t ptr) (load cx ptr t) ptr (ptr + esz t (addrType mem)) v"
  using assms(2-)
proof (induction t arbitrary: v ptr rule: tsize_induct)
  case (type t)
  let ?p = "addrType mem"
  note wf = type.prems(1) and pl = type.prems(2) and cf = type.prems(3) and al = type.prems(4) and en = type.prems(5)
  note sb = store_body [OF assms(1) wf al] and lb = load_body [OF assms(1) wf al]
  show ?case
  proof (cases "despecialize t")
    case (TPrim k)
    then have k: "k \<noteq> KString" "conformsPrim k v"
      using pl cf by (simp_all add: plain.simps [of t] conforms.simps [of t])
    have z: "esz t ?p = primSize k ?p" by (rule prim_layout(3) [OF TPrim])
    have "codec mem N (storePrim cx mem v ptr k) (loadPrim cx mem ptr k) ptr (ptr + primSize k ?p) v"
      by (rule codec_prim [OF k(2,1)]) (use en z in simp)
    then show ?thesis unfolding z by (rule codec_cong) (use en sb lb TPrim in simp_all)
  next
    case (TList e n)
    then obtain len where n: "n = Some len" and pe: "plain e" using pl by (auto simp: plain.simps [of t])
    have we: "wf_type e" by (rule wf_list_elem [OF wf TList])
    have lay: "algn t ?p = algn e ?p" "esz t ?p = len * esz e ?p"
      using TList n wf_layoutD(1,2) [OF we]
      by (simp_all add: algn_def [of t] esz_def [of t] alignment.simps [of t] elemSize.simps [of t])
    have "codec mem N (storeList cx v ptr e (Some len)) (loadList cx ptr e (Some len)) ptr (ptr + len * esz e ?p) v"
    proof (rule codec_fixed_list [OF assms(1) we])
      show "conforms (TList e (Some len)) v" using cf TList n by (simp add: conforms.simps [of t] conforms.simps [of "TList e (Some len)"])
      fix x q assume "conforms e x" "algn e ?p dvd q" "q + esz e ?p \<le> N"
      then show "codec mem N (store cx x e q) (load cx q e) q (q + esz e ?p) x"
        by (intro type.IH [OF tsize_despecialize_list [OF TList] we pe])
    qed (use al en lay in simp_all)
    then show ?thesis unfolding lay by (rule codec_cong) (use en lay sb lb TList n in simp_all)
  next
    case (TRecord fs)
    obtain e where e: "fieldsEnd 0 fs ?p = Inr e" "e \<le> esz t ?p" "\<forall>f \<in> set fs. algn (snd f) ?p dvd algn t ?p"
      by (rule record_size [OF wf TRecord, of ?p])
    obtain ps where v: "v = VObj ps" "conformsFields fs ps"
      using cf TRecord by (auto simp: conforms.simps [of t] split: JsVal.splits)
    have df: "distinct (map fst fs)" using wf TRecord by (simp add: wf_type.simps [of t])
    then have d: "distinct (map fst ps)" using conformsFields_fst [OF v(2)] by simp
    have gets: "\<forall>(l, x) \<in> set ps. js_get v l = Inr x"
      using d v(1) map_of_is_SomeI [OF d] by (auto simp: v(1))
    have "codec mem N (storeRecord cx v (ptr + 0) fs) (loadRecord cx (ptr + 0) fs []) (ptr + 0) (ptr + e) (VObj ([] @ ps)) \<and> 0 \<le> e"
    proof (rule codec_record [OF assms(1)])
      fix f x q assume f: "f \<in> set fs" "conforms (snd f) x" "algn (snd f) ?p dvd q" "q + esz (snd f) ?p \<le> N"
      have "plain (snd f)" using pl TRecord f(1) by (simp add: plain.simps [of t] list_all_iff)
      then show "codec mem N (store cx x (snd f) q) (load cx q (snd f)) q (q + esz (snd f) ?p) x"
        using f wf_record_field [OF wf TRecord f(1)]
        by (intro type.IH [OF tsize_record_part [OF TRecord f(1)]])
    next
      show "\<forall>f \<in> set fs. wf_type (snd f) \<and> algn (snd f) ?p dvd ptr"
        using e(3) al dvd_trans wf_record_field [OF wf TRecord] by blast
    qed (use e en v(2) gets d in simp_all)
    then have "codec mem N (storeRecord cx v ptr fs) (loadRecord cx ptr fs []) ptr (ptr + e) v" by (simp add: v(1))
    then have "codec mem N (storeRecord cx v ptr fs) (loadRecord cx ptr fs []) ptr (ptr + esz t ?p) v"
      by (rule codec_weaken) (use e(2) in simp_all)
    then show ?thesis by (rule codec_cong) (use en sb lb TRecord in simp_all)
  next
    case (TVariant cs)
    obtain l x where v: "v = VObj [(l, x)]" "conformsCase cs (l, x)"
      using cf TVariant by (auto simp: conforms.simps [of t] split: JsVal.splits list.splits)
    have "codec mem N (storeVariant cx (VObj [(l, x)]) ptr cs) (loadVariant cx ptr cs) ptr (ptr + esz t ?p) (VObj [(l, x)])"
    proof (rule codec_variant [OF assms(1) wf TVariant v(2) al en])
      fix c u q assume c: "c \<in> set cs" "snd c = Some u" "conforms u x" "algn u ?p dvd q" "q + esz u ?p \<le> N"
      have "plain u" using pl TVariant c(1,2) by (fastforce simp: plain.simps [of t] list_all_iff)
      then show "codec mem N (store cx x u q) (load cx q u) q (q + esz u ?p) x"
        using c wf_variant_case [OF wf TVariant c(1,2)]
        by (intro type.IH [OF tsize_variant_part [OF TVariant c(1,2)]])
    qed
    then show ?thesis unfolding v(1) by (rule codec_cong) (use en sb lb TVariant v(1) in simp_all)
  next
    case (TFlags ls)
    have ls: "ls \<noteq> []" "length ls \<le> 32" "distinct ls" using wf TFlags by (simp_all add: wf_type.simps [of t])
    obtain ps where v: "v = VObj ps" "map fst ps = ls" "list_all (\<lambda>p. case snd p of VBool b \<Rightarrow> True | _ \<Rightarrow> False) ps"
      using cf TFlags by (auto simp: conforms.simps [of t] split: JsVal.splits)
    obtain a where a: "elemSizeFlags ls = Inr a" by (rule flags_lay [OF ls(1,2)])
    then have z: "esz t ?p = a" using TFlags by (simp add: esz_def elemSize.simps [of t])
    have "codec mem N (storeFlags cx (VObj ps) ptr ls) (loadFlags cx ptr ls) ptr (ptr + a) (VObj ps)"
      by (rule codec_flags [OF v(2) ls(3,1,2) v(3) a _ assms(1)]) (use en z in simp)
    then show ?thesis unfolding z v(1) by (rule codec_cong) (use en sb lb TFlags v(1) in simp_all)
  qed (use pl despecialize_not_specialized [of t] in \<open>simp_all add: plain.simps [of t] specialized_def\<close>)
qed

section \<open>Properties\<close>

text \<open>C1: Storing a value and loading it back gives the value: for every plain well-formed type and
  conforming value, at an aligned address with room for it, \<open>store\<close> succeeds, \<open>load\<close> on the
  resulting heap returns the value and changes nothing, and the only change is to the
  \<open>elemSize\<close> bytes at the address.  This covers the bulk paths of fixed-length lists.\<close>

theorem store_load_roundtrip:
  assumes "memory (opts cx) = Some mem" "wf_type t" "plain t" "conforms t v"
    "algn t (addrType mem) dvd ptr" "ptr + esz t (addrType mem) \<le> memLen mem h"
  shows "\<exists>M. store cx v t ptr h = (Inr (), setMem mem M h) \<and> length M = memLen mem h \<and>
    (\<forall>i. i < memLen mem h \<and> (i < ptr \<or> ptr + esz t (addrType mem) \<le> i) \<longrightarrow> M ! i = memBytes mem h ! i) \<and>
    load cx ptr t (setMem mem M h) = (Inr v, setMem mem M h)"
proof -
  obtain M where M: "store cx v t ptr h = (Inr (), setMem mem M h)"
    "outside (memBytes mem h) M ptr (ptr + esz t (addrType mem))" "length M = memLen mem h"
    "\<forall>h'. agree M (memBytes mem h') ptr (ptr + esz t (addrType mem)) \<longrightarrow> load cx ptr t h' = (Inr v, h')"
    by (rule codecE [OF store_load_codec [OF assms] refl])
  moreover have "agree M (memBytes mem (setMem mem M h)) ptr (ptr + esz t (addrType mem))"
    by (simp add: agree_def)
  ultimately show ?thesis by (auto simp: outside_def memLen_def)
qed

theorem store_load_roundtrip_witness:
  "\<exists>M. store cx0 (VObj [(''a'', VNum 7), (''b'', VObj [(''some'', VBool True)])])
      (TRecord [(''a'', TPrim KU16), (''b'', TOption (TPrim KBool))]) 4 (emptyHeap\<lparr>mems := \<lambda>_. replicate 16 0\<rparr>) =
      (Inr (), setMem \<lparr>memId = 0, addrType = I32, mBase = 0\<rparr> M (emptyHeap\<lparr>mems := \<lambda>_. replicate 16 0\<rparr>))"
proof -
  let ?t = "TRecord [(''a'', TPrim KU16), (''b'', TOption (TPrim KBool))]" and ?m = "\<lparr>memId = 0, addrType = I32, mBase = 0\<rparr>"
  let ?v = "VObj [(''a'', VNum 7), (''b'', VObj [(''some'', VBool True)])]"
  have m: "memory (opts cx0) = Some ?m" by (simp add: cx0_def)
  have w: "wf_type ?t" "plain ?t" by (simp_all add: wf_type.simps plain.simps)
  have c: "conforms ?t ?v" by (simp add: conforms.simps inRange_def)
  have l: "algn ?t I32 = 2" "esz ?t I32 = 4"
    by (simp_all add: algn_def esz_def alignment.simps elemSize.simps elemSizeRecord.simps
        elemSizeVariant.simps alignmentVariant.simps discriminantType_def alignTo_def,
      simp add: numeral_2_eq_2 [symmetric])
  show ?thesis
    using store_load_roundtrip [OF m w c, of 4 "emptyHeap\<lparr>mems := \<lambda>_. replicate 16 0\<rparr>"] l
    by (auto simp: memLen_def memBytes_def)
qed

text \<open>C31: The bulk fast paths are the element loops: on in-bounds, aligned data a bulk-loaded list has
  exactly the elements the per-element loop loads (on a platform of either byte order and at any base of
  the view), and storing conforming elements in bulk leaves the memory that storing
  them one by one leaves.\<close>

theorem bulk_paths_equal_loops:
  assumes "memory (opts cx) = Some mem" "isBulkListKind (despecialize e)"
    "algn e (addrType mem) dvd ptr" "ptr + length xs * esz e (addrType mem) \<le> memLen mem h"
    "list_all (conforms e) xs"
  shows "loadListFromValidRange cx ptr (length xs) e h =
      bindM (loadElems cx ptr (esz e (addrType mem)) (length xs) e) (\<lambda>a. returnM (VArr a)) h \<and>
    storeListIntoValidRange cx (VArr xs) xs ptr e h = storeElems cx xs ptr (esz e (addrType mem)) e h"
  using bulk_load_elems [OF assms(1) _ assms(3), of "length xs" h]
    bulk_store_elems [OF assms(1) _ assms(3,4,5), of "VArr xs"] assms(2,4)
  by (simp add: isBulkListKind_def)

theorem bulk_paths_equal_loops_witness:
  "loadListFromValidRange cx0 4 2 (TPrim KS16) (emptyHeap\<lparr>mems := \<lambda>_. replicate 16 0\<rparr>) =
     bindM (loadElems cx0 4 2 2 (TPrim KS16)) (\<lambda>a. returnM (VArr a)) (emptyHeap\<lparr>mems := \<lambda>_. replicate 16 0\<rparr>)"
proof -
  let ?m = "\<lparr>memId = 0, addrType = I32, mBase = 0\<rparr>" and ?h = "emptyHeap\<lparr>mems := \<lambda>_. replicate 16 0\<rparr>"
  let ?xs = "[VNum 1, VNum (-2)]"
  have m: "memory (opts cx0) = Some ?m" by (simp add: cx0_def)
  have k: "isBulkListKind (despecialize (TPrim KS16))" by (simp add: isBulkListKind_def)
  have l: "algn (TPrim KS16) I32 = 2" "esz (TPrim KS16) I32 = 2" "length ?xs = 2"
    by (simp_all add: algn_def esz_def alignment.simps elemSize.simps)
  have "algn (TPrim KS16) (addrType ?m) dvd 4" "4 + length ?xs * esz (TPrim KS16) (addrType ?m) \<le> memLen ?m ?h"
    "list_all (conforms (TPrim KS16)) ?xs"
    using l by (simp_all add: memLen_def memBytes_def conforms.simps inRange_def)
  from conjunct1 [OF bulk_paths_equal_loops [OF m k this]] show ?thesis unfolding l(3) by (simp add: l)
qed

end
