(* ===== verification/Frame.thy ===== *)
theory Frame
  imports RoundTrip
begin

text \<open>
  Which part of the heap the value codecs touch: loading or storing a plain type changes
  nothing but the contents of linear memories, whether it succeeds or not.  \<open>memOnly\<close> is closed
  under the combinators, so the proofs follow the code.
\<close>

definition memOnly :: "('g heap_scheme, 'a) sm \<Rightarrow> bool" where
  "memOnly f \<longleftrightarrow> (\<forall>h. \<exists>M. snd (f h) = h\<lparr>mems := M\<rparr>)"

named_theorems mem_frame "closure rules of the memory frame"

lemma memOnlyE:
  assumes "memOnly f" "f h = (r, h')"
  obtains M where "h' = h\<lparr>mems := M\<rparr>"
  using assms unfolding memOnly_def by (metis snd_conv)

lemma mems_self [simp]: "h\<lparr>mems := mems h\<rparr> = h"
  by simp

lemma memOnly_same: "(\<And>h. snd (f h) = h) \<Longrightarrow> memOnly f"
  unfolding memOnly_def by (metis mems_self)

lemma memOnly_basic [mem_frame]:
  "memOnly (returnM x)" "memOnly (throwM e)" "memOnly (liftR r)" "memOnly (getsM g)"
  "memOnly (assertM c msg)" "memOnly (trapIfM c msg)"
  by (rule memOnly_same, simp add: run_simps)+

lemma memOnly_bind [mem_frame]:
  assumes "memOnly m" "\<And>x. memOnly (f x)"
  shows "memOnly (bindM m f)"
  unfolding memOnly_def
proof
  fix h
  obtain r h1 where m: "m h = (r, h1)" by (cases "m h")
  obtain M1 where h1: "h1 = h\<lparr>mems := M1\<rparr>" by (rule memOnlyE [OF assms(1) m])
  show "\<exists>M. snd (bindM m f h) = h\<lparr>mems := M\<rparr>"
  proof (cases r)
    case (Inl e)
    then show ?thesis using m h1 by (auto simp: bindM_def)
  next
    case (Inr x)
    obtain r2 h2 where f: "f x h1 = (r2, h2)" by (cases "f x h1")
    obtain M2 where "h2 = h1\<lparr>mems := M2\<rparr>" by (rule memOnlyE [OF assms(2) f])
    then show ?thesis using m f h1 Inr by (auto simp: bindM_def)
  qed
qed

lemma memOnly_setMem [mem_frame]: "memOnly (modifyM (\<lambda>h. setMem mem (g h) h))"
  unfolding memOnly_def by (auto simp: run_simps setMem_def)

lemma memOnly_needMemory [mem_frame]: "memOnly (needMemory cx)"
  unfolding needMemory_def by (intro mem_frame)

lemma memOnly_ints [mem_frame]:
  "memOnly (loadIntU m p n)" "memOnly (loadIntS m p n)" "memOnly (bytesOf m p n)" "memOnly (viewElems m p n len)"
  unfolding loadIntU_def loadIntS_def bytesOf_def viewElems_def by (intro mem_frame conjI impI | simp)+

lemma memOnly_storeInt [mem_frame]: "memOnly (storeInt m v p n s)"
  unfolding storeInt_def by (auto intro!: mem_frame split: JsVal.split option.split)

lemma memOnly_poke [mem_frame]:
  "memOnly (pokeBytes m p bs)" "memOnly (pokeInt m n p x)" "memOnly (pokeBig m p x)" "memOnly (pokeFloat m n p x)"
  unfolding pokeBytes_def pokeInt_def pokeBig_def pokeFloat_def
  by (auto intro!: mem_frame split: JsVal.split option.split)

lemma memOnly_pokeAll [mem_frame]: "(\<And>p x. memOnly (f p x)) \<Longrightarrow> memOnly (pokeAll f n p xs)"
  by (induction xs arbitrary: p) (auto intro!: mem_frame)

lemma memOnly_bulk [mem_frame]:
  "memOnly (tryLoadNumericList ple m p n d)" "memOnly (tryStoreNumericList ple m xs p d)" "memOnly (storeU8List m v xs p)"
  unfolding tryLoadNumericList_def tryStoreNumericList_def withView_def storeU8List_def
  by (auto intro!: mem_frame split: option.split BulkCtor.split JsVal.split)

lemma memOnly_flags [mem_frame]: "memOnly (loadFlags cx p ls)" "memOnly (storeFlags cx v p ls)"
  unfolding loadFlags_def storeFlags_def by (intro mem_frame)+

lemma memOnly_prim:
  assumes "k \<noteq> KString"
  shows "memOnly (loadPrim cx m p k)" "memOnly (storePrim cx m v p k)"
  using assms unfolding loadPrim_def storePrim_def by (auto intro!: mem_frame split: PrimKind.split)

section \<open>Loading\<close>

lemma memOnly_loadElems: "(\<And>p. memOnly (load cx p e)) \<Longrightarrow> memOnly (loadElems cx p sz n e)"
proof (induction n arbitrary: p)
  case 0
  show ?case by (simp add: loadElems.simps [of cx p sz 0] mem_frame)
next
  case (Suc n)
  then show ?case by (simp add: loadElems.simps [of cx p sz "Suc n"]) (intro mem_frame, simp_all)
qed

lemma memOnly_loadListFromValidRange:
  "(\<And>p. memOnly (load cx p e)) \<Longrightarrow> memOnly (loadListFromValidRange cx p n e)"
  unfolding loadListFromValidRange.simps [of cx p n e]
  by (auto intro!: mem_frame memOnly_loadElems split: option.split)

lemma memOnly_loadRecord: "(\<And>f p. f \<in> set fs \<Longrightarrow> memOnly (load cx p (snd f))) \<Longrightarrow> memOnly (loadRecord cx p fs rec)"
proof (induction fs arbitrary: p rec)
  case Nil
  show ?case by (simp add: loadRecord.simps [of cx p "[]"] mem_frame)
next
  case (Cons f fs)
  show ?case unfolding loadRecord.simps [of cx p "f # fs"] list.case
  proof (intro mem_frame)
    show "memOnly (load cx q (snd f))" for q by (rule Cons.prems) simp
    show "memOnly (loadRecord cx q fs r)" for q r by (rule Cons.IH) (use Cons.prems in simp)
  qed
qed

lemma memOnly_loadVariant:
  assumes "\<And>c u p. c \<in> set cs \<Longrightarrow> snd c = Some u \<Longrightarrow> memOnly (load cx p u)"
  shows "memOnly (loadVariant cx p cs)"
proof -
  have "memOnly (load cx q u)" if "i < length cs" "snd (cs ! i) = Some u" for i q u
    using that by (intro assms [of "cs ! i"]) simp_all
  then show ?thesis unfolding loadVariant.simps [of cx p cs] Let_def
    by (auto intro!: mem_frame split: option.split simp: not_le)
qed

lemma load_plain: "plain t \<Longrightarrow> memOnly (load cx p t)"
proof (induction t arbitrary: p rule: tsize_induct)
  case (type t)
  note pl = type.prems
  have "memOnly (case despecialize t of
       TPrim k \<Rightarrow> loadPrim cx mem p k
     | TList e n \<Rightarrow> loadList cx p e n
     | TRecord fs \<Rightarrow> loadRecord cx p fs []
     | TVariant cs \<Rightarrow> loadVariant cx p cs
     | TFlags ls \<Rightarrow> loadFlags cx p ls
     | d \<Rightarrow> loadHandle cx mem p d)" for mem
  proof (cases "despecialize t")
    case (TPrim k)
    then show ?thesis using pl memOnly_prim(1) by (simp add: plain.simps [of t])
  next
    case (TList e n)
    then obtain len where "n = Some len" "plain e" using pl by (auto simp: plain.simps [of t])
    then show ?thesis using TList type.IH [OF tsize_despecialize_list [OF TList]]
      by (simp add: loadList.simps memOnly_loadListFromValidRange)
  next
    case (TRecord fs)
    have "memOnly (load cx q (snd f))" if "f \<in> set fs" for f q
      using type.IH [OF tsize_record_part [OF TRecord that]] pl TRecord that
      by (simp add: plain.simps [of t] list_all_iff)
    then show ?thesis using TRecord by (simp add: memOnly_loadRecord)
  next
    case (TVariant cs)
    have "memOnly (load cx q u)" if "c \<in> set cs" "snd c = Some u" for c u q
    proof -
      have "plain u" using pl TVariant that by (fastforce simp: plain.simps [of t] list_all_iff)
      then show ?thesis by (rule type.IH [OF tsize_variant_part [OF TVariant that]])
    qed
    then show ?thesis using TVariant by (simp add: memOnly_loadVariant)
  next
    case (TFlags ls)
    then show ?thesis by (simp add: mem_frame)
  qed (use pl despecialize_not_specialized [of t] in \<open>simp_all add: plain.simps [of t] specialized_def\<close>)
  then show ?case unfolding load.simps [of cx p t] by (intro mem_frame) simp
qed

section \<open>Storing\<close>

lemma memOnly_storeElems: "(\<And>x p. memOnly (store cx x e p)) \<Longrightarrow> memOnly (storeElems cx xs p sz e)"
proof (induction xs arbitrary: p)
  case Nil
  show ?case by (simp add: storeElems.simps [of cx "[]"] mem_frame)
next
  case (Cons x xs)
  then show ?case by (simp add: storeElems.simps [of cx "x # xs"]) (intro mem_frame, simp_all)
qed

lemma memOnly_storeListIntoValidRange:
  "(\<And>x p. memOnly (store cx x e p)) \<Longrightarrow> memOnly (storeListIntoValidRange cx v xs p e)"
  unfolding storeListIntoValidRange.simps [of cx v xs p e]
  by (auto intro!: mem_frame memOnly_storeElems)

lemma memOnly_storeRecord:
  "(\<And>f x p. f \<in> set fs \<Longrightarrow> memOnly (store cx x (snd f) p)) \<Longrightarrow> memOnly (storeRecord cx v p fs)"
proof (induction fs arbitrary: p)
  case Nil
  show ?case by (simp add: storeRecord.simps [of cx v p "[]"] mem_frame)
next
  case (Cons f fs)
  show ?case unfolding storeRecord.simps [of cx v p "f # fs"] list.case
  proof (intro mem_frame)
    show "memOnly (store cx x (snd f) q)" for x q by (rule Cons.prems) simp
    show "memOnly (storeRecord cx v q fs)" for q by (rule Cons.IH) (use Cons.prems in simp)
  qed
qed

lemma memOnly_storeVariant:
  assumes "\<And>c u x p. c \<in> set cs \<Longrightarrow> snd c = Some u \<Longrightarrow> memOnly (store cx x u p)"
  shows "memOnly (storeVariant cx v p cs)"
proof -
  have "memOnly (store cx x u q)" if "i < length cs" "snd (cs ! i) = Some u" for i x q u
    using that by (intro assms [of "cs ! i"]) simp_all
  then show ?thesis unfolding storeVariant.simps [of cx v p cs]
    by (auto intro!: mem_frame split: option.split)
qed

lemma store_plain: "plain t \<Longrightarrow> memOnly (store cx v t p)"
proof (induction t arbitrary: v p rule: tsize_induct)
  case (type t)
  note pl = type.prems
  have "memOnly (case despecialize t of
       TPrim k \<Rightarrow> storePrim cx mem v p k
     | TList e n \<Rightarrow> storeList cx v p e n
     | TRecord fs \<Rightarrow> storeRecord cx v p fs
     | TVariant cs \<Rightarrow> storeVariant cx v p cs
     | TFlags ls \<Rightarrow> storeFlags cx v p ls
     | d \<Rightarrow> storeHandle cx mem v p d)" for mem
  proof (cases "despecialize t")
    case (TPrim k)
    then show ?thesis using pl memOnly_prim(2) by (simp add: plain.simps [of t])
  next
    case (TList e n)
    then obtain len where "n = Some len" "plain e" using pl by (auto simp: plain.simps [of t])
    then show ?thesis using TList type.IH [OF tsize_despecialize_list [OF TList]]
      by (simp add: storeList.simps) (intro mem_frame memOnly_storeListIntoValidRange, simp)
  next
    case (TRecord fs)
    have "memOnly (store cx x (snd f) q)" if "f \<in> set fs" for f x q
      using type.IH [OF tsize_record_part [OF TRecord that]] pl TRecord that
      by (simp add: plain.simps [of t] list_all_iff)
    then show ?thesis using TRecord by (simp add: memOnly_storeRecord)
  next
    case (TVariant cs)
    have "memOnly (store cx x u q)" if "c \<in> set cs" "snd c = Some u" for c u x q
    proof -
      have "plain u" using pl TVariant that by (fastforce simp: plain.simps [of t] list_all_iff)
      then show ?thesis by (rule type.IH [OF tsize_variant_part [OF TVariant that]])
    qed
    then show ?thesis using TVariant by (simp add: memOnly_storeVariant)
  next
    case (TFlags ls)
    then show ?thesis by (simp add: mem_frame)
  qed (use pl despecialize_not_specialized [of t] in \<open>simp_all add: plain.simps [of t] specialized_def\<close>)
  then show ?case unfolding store.simps [of cx v t p] by (intro mem_frame) simp
qed

lemmas plain_frame = memOnly_loadListFromValidRange [OF load_plain] memOnly_storeListIntoValidRange [OF store_plain]

end
