(* ===== verification/Hoare.thy ===== *)
theory Hoare
  imports Prelude
begin

text \<open>
  Partial correctness of the stateful operations: \<open>valid P f Q\<close> says that when \<open>f\<close> starts in a
  state satisfying \<open>P\<close> and returns (does not throw), its result and the new state satisfy \<open>Q\<close>.
  One rule per combinator, so that the proofs about an operation follow its code.
\<close>

definition valid :: "('s \<Rightarrow> bool) \<Rightarrow> ('s, 'a) sm \<Rightarrow> ('a \<Rightarrow> 's \<Rightarrow> bool) \<Rightarrow> bool" where
  "valid P f Q \<longleftrightarrow> (\<forall>s r s'. P s \<longrightarrow> f s = (Inr r, s') \<longrightarrow> Q r s')"

named_theorems hoare "rules of the combinators"

lemma validI: "(\<And>s r s'. P s \<Longrightarrow> f s = (Inr r, s') \<Longrightarrow> Q r s') \<Longrightarrow> valid P f Q"
  by (simp add: valid_def)

lemma validD: "valid P f Q \<Longrightarrow> P s \<Longrightarrow> f s = (Inr r, s') \<Longrightarrow> Q r s'"
  by (simp add: valid_def)

lemma valid_bind:
  assumes "valid P m R" "\<And>x. valid (R x) (f x) Q"
  shows "valid P (bindM m f) Q"
  using assms unfolding valid_def bindM_eq_Inr by metis

lemma valid_pre: "valid P f Q \<Longrightarrow> (\<And>s. P' s \<Longrightarrow> P s) \<Longrightarrow> valid P' f Q"
  by (auto simp: valid_def)

lemma valid_post: "valid P f Q \<Longrightarrow> (\<And>x s. Q x s \<Longrightarrow> Q' x s) \<Longrightarrow> valid P f Q'"
  by (auto simp: valid_def)

lemma valid_throw [hoare]: "valid P (throwM e) Q"
  by (simp add: valid_def run_simps)

lemma valid_return [hoare]: "(\<And>s. P s \<Longrightarrow> Q x s) \<Longrightarrow> valid P (returnM x) Q"
  by (simp add: valid_def run_simps)

lemma valid_modify [hoare]: "(\<And>s. P s \<Longrightarrow> Q () (g s)) \<Longrightarrow> valid P (modifyM g) Q"
  by (simp add: valid_def run_simps)

lemma valid_bind_gets [hoare]:
  assumes "\<And>x. valid (\<lambda>s. P s \<and> x = g s) (f x) Q"
  shows "valid P (bindM (getsM g) f) Q"
  using assms by (auto simp: valid_def run_simps)

lemma valid_bind_assert [hoare]:
  "(c \<Longrightarrow> valid P (f ()) Q) \<Longrightarrow> valid P (bindM (assertM c msg) f) Q"
  "(\<not> c \<Longrightarrow> valid P (f ()) Q) \<Longrightarrow> valid P (bindM (trapIfM c msg) f) Q"
  by (auto simp: valid_def run_simps split: if_splits)

lemma valid_bind_liftR [hoare]:
  "(\<And>x. r = Inr x \<Longrightarrow> valid P (f x) Q) \<Longrightarrow> valid P (bindM (liftR r) f) Q"
  by (cases r) (auto simp: valid_def run_simps)

lemma valid_bind_modify:
  "valid (\<lambda>s. \<exists>t. P t \<and> s = g t) (f ()) Q \<Longrightarrow> valid P (bindM (modifyM g) f) Q"
  by (auto simp: valid_def run_simps)

lemma valid_bind_return [hoare]: "valid P (f x) Q \<Longrightarrow> valid P (bindM (returnM x) f) Q"
  by (simp add: valid_def run_simps)

lemma valid_if [hoare]:
  "(c \<Longrightarrow> valid P f Q) \<Longrightarrow> (\<not> c \<Longrightarrow> valid P g Q) \<Longrightarrow> valid P (if c then f else g) Q"
  by simp

lemma valid_option [hoare]:
  "(c = None \<Longrightarrow> valid P f Q) \<Longrightarrow> (\<And>x. c = Some x \<Longrightarrow> valid P (g x) Q) \<Longrightarrow>
     valid P (case c of None \<Rightarrow> f | Some x \<Rightarrow> g x) Q"
  by (cases c) simp_all

lemma valid_pair [hoare]: "(\<And>a b. p = (a, b) \<Longrightarrow> valid P (f a b) Q) \<Longrightarrow> valid P (case p of (a, b) \<Rightarrow> f a b) Q"
  by (cases p) simp

text \<open>An operation that never leaves a relation between states, whether it throws or not.\<close>

definition stays :: "('s \<Rightarrow> 's \<Rightarrow> bool) \<Rightarrow> ('s, 'a) sm \<Rightarrow> bool" where
  "stays R f \<longleftrightarrow> (\<forall>s. R s (snd (f s)))"

lemma staysD: "stays R f \<Longrightarrow> f s = (r, s') \<Longrightarrow> R s s'"
  unfolding stays_def by (metis snd_conv)

lemma stays_bind:
  assumes "stays R m" "\<And>x. stays R (f x)" "\<And>a b c. R a b \<Longrightarrow> R b c \<Longrightarrow> R a c"
  shows "stays R (bindM m f)"
  unfolding stays_def
proof
  fix s
  obtain r t where m: "m s = (r, t)" by (cases "m s")
  then have "R s t" using assms(1) by (rule staysD [rotated])
  moreover have "R t (snd (f x t))" for x using assms(2) by (simp add: stays_def)
  ultimately show "R s (snd (bindM m f s))" using assms(3) m by (cases r) (auto simp: bindM_def)
qed

lemma stays_valid: "stays R f \<Longrightarrow> (\<And>s t. R s t \<Longrightarrow> P s \<Longrightarrow> Q t) \<Longrightarrow> valid P f (\<lambda>_. Q)"
  using staysD unfolding valid_def by metis

text \<open>What an operation can throw.\<close>

definition errs :: "('s, 'a) sm \<Rightarrow> (error \<Rightarrow> bool) \<Rightarrow> bool" where
  "errs f T \<longleftrightarrow> (\<forall>s e s'. f s = (Inl e, s') \<longrightarrow> T e)"

named_theorems throws "rules for what the combinators throw"

lemma errsD: "errs f T \<Longrightarrow> f s = (Inl e, s') \<Longrightarrow> T e"
  unfolding errs_def by blast

lemma errs_bind [throws]: "errs m T \<Longrightarrow> (\<And>x. errs (f x) T) \<Longrightarrow> errs (bindM m f) T"
  unfolding errs_def by (auto simp: bindM_def split: prod.splits sum.splits)

lemma errs_basic [throws]:
  "errs (returnM x) T" "errs (getsM g) T" "errs (modifyM k) T"
  "T e \<Longrightarrow> errs (throwM e) T" "T (AssertionError msg) \<Longrightarrow> errs (assertM c msg) T" "T (Trap msg) \<Longrightarrow> errs (trapIfM c msg) T"
  by (auto simp: errs_def run_simps)

lemma errs_if [throws]: "errs f T \<Longrightarrow> errs g T \<Longrightarrow> errs (if c then f else g) T"
  by simp

lemma errs_option [throws]: "errs f T \<Longrightarrow> (\<And>x. errs (g x) T) \<Longrightarrow> errs (case c of None \<Rightarrow> f | Some x \<Rightarrow> g x) T"
  by (cases c) simp_all

lemma errs_pair [throws]: "(\<And>a b. errs (f a b) T) \<Longrightarrow> errs (case p of (a, b) \<Rightarrow> f a b) T"
  by (cases p) simp

text \<open>
  Total in the exceptions: \<open>validE P f Q R\<close> says that from a state satisfying \<open>P\<close> the operation ends in
  \<open>Q\<close> when it returns and in \<open>R\<close> when it throws.
\<close>

definition validE :: "('s \<Rightarrow> bool) \<Rightarrow> ('s, 'a) sm \<Rightarrow> ('a \<Rightarrow> 's \<Rightarrow> bool) \<Rightarrow> (error \<Rightarrow> 's \<Rightarrow> bool) \<Rightarrow> bool" where
  "validE P f Q R \<longleftrightarrow> (\<forall>s. P s \<longrightarrow> (case f s of (Inr x, t) \<Rightarrow> Q x t | (Inl e, t) \<Rightarrow> R e t))"

named_theorems hoareE "rules of the combinators, with the exceptional outcome"

lemma validE_Inr: "validE P f Q R \<Longrightarrow> P s \<Longrightarrow> f s = (Inr x, t) \<Longrightarrow> Q x t"
  unfolding validE_def by fastforce

lemma validE_Inl: "validE P f Q R \<Longrightarrow> P s \<Longrightarrow> f s = (Inl e, t) \<Longrightarrow> R e t"
  unfolding validE_def by fastforce

lemma validEI:
  "(\<And>s x t. P s \<Longrightarrow> f s = (Inr x, t) \<Longrightarrow> Q x t) \<Longrightarrow> (\<And>s e t. P s \<Longrightarrow> f s = (Inl e, t) \<Longrightarrow> R e t) \<Longrightarrow> validE P f Q R"
  by (auto simp: validE_def split: prod.splits sum.splits)

lemma validE_bind:
  assumes "validE P m S R" "\<And>x. validE (S x) (f x) Q R"
  shows "validE P (bindM m f) Q R"
  using assms by (fastforce simp: validE_def bindM_def split: prod.splits sum.splits)

lemma validE_pre: "validE P f Q R \<Longrightarrow> (\<And>s. P' s \<Longrightarrow> P s) \<Longrightarrow> validE P' f Q R"
  by (auto simp: validE_def)

lemma validE_weaken:
  assumes "validE P f Q R" "\<And>s. P' s \<Longrightarrow> P s" "\<And>x s. Q x s \<Longrightarrow> Q' x s" "\<And>e s. R e s \<Longrightarrow> R' e s"
  shows "validE P' f Q' R'"
  using assms by (fastforce simp: validE_def split: prod.splits sum.splits)

lemma validE_throw [hoareE]: "(\<And>s. P s \<Longrightarrow> R e s) \<Longrightarrow> validE P (throwM e) Q R"
  by (simp add: validE_def run_simps)

lemma validE_return [hoareE]: "(\<And>s. P s \<Longrightarrow> Q x s) \<Longrightarrow> validE P (returnM x) Q R"
  by (simp add: validE_def run_simps)

lemma validE_modify [hoareE]: "(\<And>s. P s \<Longrightarrow> Q () (g s)) \<Longrightarrow> validE P (modifyM g) Q R"
  by (simp add: validE_def run_simps)

lemma validE_bind_gets [hoareE]:
  assumes "\<And>x. validE (\<lambda>s. P s \<and> x = g s) (f x) Q R"
  shows "validE P (bindM (getsM g) f) Q R"
  using assms by (auto simp: validE_def run_simps)

lemma validE_bind_assert [hoareE]:
  "(c \<Longrightarrow> validE P (f ()) Q R) \<Longrightarrow> (\<And>s. \<not> c \<Longrightarrow> P s \<Longrightarrow> R (AssertionError msg) s) \<Longrightarrow>
     validE P (bindM (assertM c msg) f) Q R"
  "(\<not> c \<Longrightarrow> validE P (f ()) Q R) \<Longrightarrow> (\<And>s. c \<Longrightarrow> P s \<Longrightarrow> R (Trap msg) s) \<Longrightarrow>
     validE P (bindM (trapIfM c msg) f) Q R"
  by (auto simp: validE_def run_simps)

lemma validE_assert [hoareE]:
  "(\<And>s. P s \<Longrightarrow> c \<Longrightarrow> Q () s) \<Longrightarrow> (\<And>s. \<not> c \<Longrightarrow> P s \<Longrightarrow> R (AssertionError msg) s) \<Longrightarrow> validE P (assertM c msg) Q R"
  "(\<And>s. P s \<Longrightarrow> \<not> c \<Longrightarrow> Q () s) \<Longrightarrow> (\<And>s. c \<Longrightarrow> P s \<Longrightarrow> R (Trap msg) s) \<Longrightarrow> validE P (trapIfM c msg) Q R"
  by (auto simp: validE_def run_simps)

lemma validE_bind_modify:
  "validE (\<lambda>s. \<exists>t. P t \<and> s = g t) (f ()) Q R \<Longrightarrow> validE P (bindM (modifyM g) f) Q R"
  by (auto simp: validE_def run_simps)

lemma validE_bind_modify_to [hoareE]:
  "(\<And>s. P s \<Longrightarrow> P' (g s)) \<Longrightarrow> validE P' (f ()) Q R \<Longrightarrow> validE P (bindM (modifyM g) f) Q R"
  by (auto simp: validE_def run_simps)

lemma validE_bind_return [hoareE]: "validE P (f x) Q R \<Longrightarrow> validE P (bindM (returnM x) f) Q R"
  by (simp add: validE_def run_simps)

lemma validE_if [hoareE]:
  "(c \<Longrightarrow> validE P f Q R) \<Longrightarrow> (\<not> c \<Longrightarrow> validE P g Q R) \<Longrightarrow> validE P (if c then f else g) Q R"
  by simp

lemma validE_option [hoareE]:
  "(c = None \<Longrightarrow> validE P f Q R) \<Longrightarrow> (\<And>x. c = Some x \<Longrightarrow> validE P (g x) Q R) \<Longrightarrow>
     validE P (case c of None \<Rightarrow> f | Some x \<Rightarrow> g x) Q R"
  by (cases c) simp_all

lemma validE_pair [hoareE]: "(\<And>a b. p = (a, b) \<Longrightarrow> validE P (f a b) Q R) \<Longrightarrow> validE P (case p of (a, b) \<Rightarrow> f a b) Q R"
  by (cases p) simp

lemma validE_bind_liftR [hoareE]:
  "(\<And>x. r = Inr x \<Longrightarrow> validE P (f x) Q R) \<Longrightarrow> (\<And>e s. P s \<Longrightarrow> R e s) \<Longrightarrow> validE P (bindM (liftR r) f) Q R"
  by (cases r) (auto simp: validE_def run_simps)

lemma stays_validE:
  assumes "stays R f" "\<And>s t. R s t \<Longrightarrow> P s \<Longrightarrow> Q t"
  shows "validE P f (\<lambda>_. Q) (\<lambda>_. Q)"
  using staysD [OF assms(1)] assms(2) unfolding validE_def by (fastforce split: prod.splits sum.splits)

end
