(* ===== verification/StreamProtocol.thy ===== *)
theory StreamProtocol
  imports StreamBuiltins Frame Hoare
begin

text \<open>
  The protocol between the two ends of a stream or future, as an invariant of every
  reachable state: an end whose guest is waiting is either parked in the slot of its shared
  object, where the next operation of the other side finds and notifies it, or has its
  event already; the slot never names an end that is not waiting.  So no wakeup is lost, and the
  internal assertions of the rendezvous cannot fail.  Element types are plain (or absent), so
  that the copies themselves touch memory only.  An end whose own operation ended in an exception may be left without its
  event: the invariant is about all ends but those in a set that collects these.
\<close>

section \<open>The invariant\<close>

text \<open>End \<open>n\<close> is parked in the slot of its shared object.\<close>

definition parked :: "'g heap_scheme \<Rightarrow> nat \<Rightarrow> bool" where
  "parked h n \<longleftrightarrow>
     (case sh_pendingDone (shareds h (ce_shared (ends h n))) of
        Some (GuestCopy ec m i b) \<Rightarrow> m = n
      | None \<Rightarrow> False)"

definition slot_ok :: "'g heap_scheme \<Rightarrow> nat \<Rightarrow> bool" where
  "slot_ok h s \<longleftrightarrow>
     (case sh_pendingDone (shareds h s) of
        None \<Rightarrow> sh_pendingBuffer (shareds h s) = None
      | Some (GuestCopy ec n i b) \<Rightarrow>
          sh_pendingBuffer (shareds h s) = Some b \<and> ce_shared (ends h n) = s \<and> copying (ends h n))"

definition event_ok :: "'g heap_scheme \<Rightarrow> nat \<Rightarrow> bool" where
  "event_ok h w \<longleftrightarrow>
     (case pendingEvent (waitables h w) of
        None \<Rightarrow> True
      | Some (StreamEvent ec n i b r rc) \<Rightarrow>
          n = w \<and> copying (ends h w) \<and>
          (case rc of None \<Rightarrow> \<not> parked h w | Some s \<Rightarrow> s = ce_shared (ends h w) \<and> parked h w)
      | Some (FutureEvent ec n i b r) \<Rightarrow> n = w \<and> copying (ends h w) \<and> \<not> parked h w
      | Some (FutureAbandoned reason) \<Rightarrow> copying (ends h w)
      | Some (SubtaskEvent st i) \<Rightarrow> \<not> copying (ends h w))"

definition wake_ok :: "'g heap_scheme \<Rightarrow> nat \<Rightarrow> bool" where
  "wake_ok h n \<longleftrightarrow> (copying (ends h n) \<longrightarrow> hasPendingEvent n h \<or> parked h n)"

definition tabled :: "'g heap_scheme \<Rightarrow> nat \<Rightarrow> bool" where
  "tabled h n \<longleftrightarrow> (\<exists>i j. tableGet j (handles h i) = Inr (EEnd n))"

text \<open>Addresses that have not been allocated are unused, and no table or end names one.\<close>

definition fresh_ok :: "'g heap_scheme \<Rightarrow> bool" where
  "fresh_ok h \<longleftrightarrow>
     (\<forall>x \<ge> nextId h. sh_pendingDone (shareds h x) = None \<and> \<not> copying (ends h x) \<and> pendingEvent (waitables h x) = None) \<and>
     (\<forall>n. ce_shared (ends h n) < nextId h) \<and> (\<forall>n. tabled h n \<longrightarrow> n < nextId h)"

text \<open>The event of an end in a table is never that of a subtask.\<close>

definition ends_ok :: "'g heap_scheme \<Rightarrow> bool" where
  "ends_ok h \<longleftrightarrow> (\<forall>n st i. tabled h n \<longrightarrow> pendingEvent (waitables h n) \<noteq> Some (SubtaskEvent st i))"

text \<open>Buffers hold elements of plain types, or count elements of no type.\<close>

definition plainElem :: "ValType option \<Rightarrow> bool" where
  "plainElem t = (case t of None \<Rightarrow> True | Some e \<Rightarrow> plain e)"

definition bufs_ok :: "'g heap_scheme \<Rightarrow> bool" where
  "bufs_ok h \<longleftrightarrow> (\<forall>b. plainElem (gb_t (buffers h b)))"

text \<open>\<open>X\<close> holds the ends that are in the middle of an operation of theirs, and those whose operation ended in an exception.\<close>

definition stream_inv :: "nat set \<Rightarrow> 'g heap_scheme \<Rightarrow> bool" where
  "stream_inv X h \<longleftrightarrow>
     (\<forall>s. slot_ok h s) \<and> (\<forall>w. w \<notin> X \<longrightarrow> event_ok h w \<and> wake_ok h w) \<and> fresh_ok h \<and> bufs_ok h \<and> ends_ok h"

lemma stream_inv_mono: "stream_inv X h \<Longrightarrow> X \<subseteq> Y \<Longrightarrow> stream_inv Y h"
  by (auto simp: stream_inv_def)

lemma stream_inv_insert: "stream_inv X h \<Longrightarrow> stream_inv (insert n X) h"
  by (rule stream_inv_mono) auto

text \<open>What the invariant depends on.\<close>

definition same_core :: "'g heap_scheme \<Rightarrow> 'g heap_scheme \<Rightarrow> bool" where
  "same_core h h' \<longleftrightarrow>
     (\<forall>s. sh_pendingDone (shareds h' s) = sh_pendingDone (shareds h s) \<and>
          sh_pendingBuffer (shareds h' s) = sh_pendingBuffer (shareds h s)) \<and> ends h' = ends h \<and>
     (\<forall>w. pendingEvent (waitables h' w) = pendingEvent (waitables h w)) \<and>
     nextId h \<le> nextId h' \<and> (\<forall>n. tabled h' n \<longrightarrow> tabled h n) \<and> (bufs_ok h \<longrightarrow> bufs_ok h')"

lemma same_core_refl [simp]: "same_core h h"
  by (simp add: same_core_def)

lemma same_core_trans: "same_core h1 h2 \<Longrightarrow> same_core h2 h3 \<Longrightarrow> same_core h1 h3"
  by (auto simp: same_core_def)

lemma inv_parts:
  assumes "\<And>s. sh_pendingDone (shareds h' s) = sh_pendingDone (shareds h s)"
    "\<And>s. sh_pendingBuffer (shareds h' s) = sh_pendingBuffer (shareds h s)" "ends h' = ends h"
  shows "parked h' = parked h" "slot_ok h' = slot_ok h"
  unfolding parked_def slot_ok_def fun_eq_iff assms by simp_all

lemma inv_parts_same:
  assumes "shareds h' = shareds h" "ends h' = ends h"
  shows "parked h' = parked h" "slot_ok h' = slot_ok h"
  by (rule inv_parts; simp add: assms)+

lemma event_parts:
  assumes "ends h' w = ends h w" "pendingEvent (waitables h' w) = pendingEvent (waitables h w)" "parked h' w = parked h w"
  shows "event_ok h' w = event_ok h w" "wake_ok h' w = wake_ok h w"
  unfolding event_ok_def wake_ok_def hasPendingEvent_def assms by simp_all

lemma same_core_inv:
  assumes "same_core h h'" "stream_inv X h"
  shows "stream_inv X h'"
proof -
  have sl: "\<And>s. sh_pendingDone (shareds h' s) = sh_pendingDone (shareds h s)"
    "\<And>s. sh_pendingBuffer (shareds h' s) = sh_pendingBuffer (shareds h s)"
    using assms(1) by (simp_all add: same_core_def)
  have eq: "ends h' = ends h" "\<And>w. pendingEvent (waitables h' w) = pendingEvent (waitables h w)"
    using assms(1) by (simp_all add: same_core_def)
  note p = inv_parts [OF sl eq(1)]
  note e = event_parts [OF fun_cong [OF eq(1)] eq(2) fun_cong [OF p(1)]]
  have "fresh_ok h'" using assms unfolding same_core_def stream_inv_def fresh_ok_def
    by (metis le_trans less_le_trans)
  moreover have "ends_ok h'" using assms unfolding same_core_def stream_inv_def ends_ok_def by metis
  ultimately show ?thesis using assms by (simp add: stream_inv_def p e same_core_def)
qed

lemma tabled_same:
  "handles h' = handles h \<Longrightarrow> tabled h' n = tabled h n"
  by (simp add: tabled_def)

section \<open>Tables\<close>

lemma tableAdd_entries: "tableAdd e t = (r, t') \<Longrightarrow> tableGet j t' = Inr x \<Longrightarrow> x = e \<or> tableGet j t = Inr x"
  by (auto simp: tableAdd_def Let_def tableGet_Ok nth_list_update nth_append split: if_splits)

lemma tableRemove_entries: "tableRemove i t = (r, t') \<Longrightarrow> tableGet j t' = Inr x \<Longrightarrow> tableGet j t = Inr x"
  by (auto simp: tableRemove_def tableGet_Ok nth_list_update split: sum.splits if_splits)

lemma onTable_eq:
  "onTable ins op h = (fst (op (handles h ins)), h\<lparr>handles := (handles h)(ins := snd (op (handles h ins)))\<rparr>)"
  by (simp add: onTable_def case_prod_beta)

lemma onTable_result:
  assumes "onTable ins op h = (r, h')"
  obtains t where "op (handles h ins) = (r, t)" "h' = h\<lparr>handles := (handles h)(ins := t)\<rparr>"
proof (rule that)
  show "op (handles h ins) = (r, snd (op (handles h ins)))"
    using arg_cong [OF assms, of fst] unfolding onTable_eq fst_conv by (metis prod.collapse)
  show "h' = h\<lparr>handles := (handles h)(ins := snd (op (handles h ins)))\<rparr>"
    using arg_cong [OF assms, of snd] by (simp only: onTable_eq snd_conv)
qed

lemma onTable_core:
  assumes "onTable ins op h = (r, h')"
    and "\<And>t j n. op (handles h ins) = (r, t) \<Longrightarrow> tableGet j t = Inr (EEnd n) \<Longrightarrow> tabled h n"
  shows "same_core h h'"
proof -
  obtain t where t: "op (handles h ins) = (r, t)" "h' = h\<lparr>handles := (handles h)(ins := t)\<rparr>"
    by (rule onTable_result [OF assms(1)])
  have "tabled h n" if tb: "tabled h' n" for n
  proof -
    from tb obtain i j where g: "tableGet j (handles h' i) = Inr (EEnd n)" by (auto simp: tabled_def)
    show ?thesis
    proof (cases "i = ins")
      case True
      then show ?thesis using g t assms(2) [of t j n] by simp
    next
      case False
      then show ?thesis using g t(2) by (auto simp: tabled_def)
    qed
  qed
  then show ?thesis by (simp add: same_core_def t(2) bufs_ok_def)
qed

lemma onTable_add_core:
  assumes "onTable ins (tableAdd e) h = (r, h')" "\<And>n. e = EEnd n \<Longrightarrow> tabled h n"
  shows "same_core h h'"
  by (rule onTable_core [OF assms(1)]) (use tableAdd_entries assms(2) in \<open>fastforce simp: tabled_def\<close>)

lemma onTable_remove_core:
  assumes "onTable ins (tableRemove i) h = (r, h')"
  shows "same_core h h'" and "r = Inr (EEnd n) \<Longrightarrow> tabled h n"
proof -
  show "same_core h h'"
    by (rule onTable_core [OF assms]) (use tableRemove_entries in \<open>fastforce simp: tabled_def\<close>)
  obtain t where t: "tableRemove i (handles h ins) = (r, t)" by (rule onTable_result [OF assms])
  assume r: "r = Inr (EEnd n)"
  have "tableGet i (handles h ins) = r" using t r by (simp add: tableRemove_def split: sum.splits)
  then show "tabled h n" using r by (auto simp: tabled_def)
qed

lemma handlesGet_tabled: "handlesGet ins i h = (Inr (EEnd n), h') \<Longrightarrow> tabled h n \<and> h' = h"
  by (auto simp: handlesGet_def tabled_def)

lemma asEnd_Inr:
  assumes "asEnd ent k side msg h = (Inr (n, e), h')"
  shows "ent = EEnd n" "e = ends h n" "ce_kind e = k" "ce_side e = side" "h' = h"
  using assms by (auto simp: asEnd_def run_simps split: Entry.splits if_splits)

section \<open>Primitive steps\<close>

text \<open>Parking the operation of an end that is starting.\<close>

lemma park_inv:
  assumes "stream_inv (insert n X) h" "sh_pendingDone (shareds h s) = None" "ce_shared (ends h n) = s" "copying (ends h n)"
    "pendingEvent (waitables h n) = None" "n < nextId h"
  shows "stream_inv X (snd (setPending s (Some ins) (Some b) (Some (GuestCopy ec n i b)) h))"
proof -
  let ?h = "snd (setPending s (Some ins) (Some b) (Some (GuestCopy ec n i b)) h)"
  have sh: "shareds ?h = (shareds h)(s := (shareds h s)\<lparr>sh_pendingInst := Some ins, sh_pendingBuffer := Some b,
      sh_pendingDone := Some (GuestCopy ec n i b)\<rparr>)"
    and rest: "ends ?h = ends h" "waitables ?h = waitables h" "nextId ?h = nextId h" "handles ?h = handles h" "buffers ?h = buffers h"
    by (simp_all add: setPending_def run_simps updShared_def)
  have bo: "bufs_ok ?h" "ends_ok ?h"
    using assms(1) by (simp_all add: stream_inv_def bufs_ok_def ends_ok_def rest tabled_same [OF rest(4)])
  have pk: "parked ?h w \<longleftrightarrow> (if ce_shared (ends h w) = s then w = n else parked h w)" for w
    by (auto simp: parked_def sh rest)
  have np: "\<not> parked h w" if "ce_shared (ends h w) = s" for w using assms(2) that by (simp add: parked_def)
  have slots: "slot_ok h t" for t using assms(1) by (simp add: stream_inv_def)
  have evs: "event_ok h w" "wake_ok h w" if "w \<noteq> n" "w \<notin> X" for w using assms(1) that by (simp_all add: stream_inv_def)
  have s: "slot_ok ?h t" for t
    using slots [of t] assms(3,4) by (cases "t = s") (auto simp: slot_ok_def sh rest split: option.splits CopyCallback.splits)
  have pw: "parked ?h w = parked h w" if "w \<noteq> n" for w using that np [of w] by (simp add: pk)
  have e: "event_ok ?h w" "wake_ok ?h w" if w: "w \<noteq> n" "w \<notin> X" for w
    using evs [OF w] event_parts [OF fun_cong [OF rest(1)] _ pw [OF w(1)]] by (simp_all add: rest(2))
  have en: "event_ok ?h n" "wake_ok ?h n"
    using assms(3,5) by (simp_all add: event_ok_def wake_ok_def rest pk)
  have f: "fresh_ok h" using assms(1) by (simp add: stream_inv_def)
  have "s < nextId h" using f assms(3) by (auto simp: fresh_ok_def)
  with f have "fresh_ok ?h" by (auto simp: fresh_ok_def sh rest tabled_same [OF rest(4)])
  then show ?thesis using s e en bo unfolding stream_inv_def by metis
qed

text \<open>Giving an end its event: the slot of its shared object is free of it.\<close>

definition doneThunk :: "Thunk \<Rightarrow> nat \<Rightarrow> bool" where
  "doneThunk th n \<longleftrightarrow>
     (case th of StreamEvent ec m i b r rc \<Rightarrow> m = n \<and> rc = None | FutureEvent ec m i b r \<Rightarrow> m = n
      | FutureAbandoned reason \<Rightarrow> True | SubtaskEvent st i \<Rightarrow> False)"

lemma notify_inv:
  assumes "stream_inv X h" "\<not> parked h n" "copying (ends h n)" "doneThunk th n" "n < nextId h"
  shows "stream_inv (X - {n}) (updWaitable n (\<lambda>x. x\<lparr>pendingEvent := Some th\<rparr>) h)"
proof -
  let ?h = "updWaitable n (\<lambda>x. x\<lparr>pendingEvent := Some th\<rparr>) h"
  have rest: "shareds ?h = shareds h" "ends ?h = ends h" "nextId ?h = nextId h" "handles ?h = handles h"
    "waitables ?h = (waitables h)(n := (waitables h n)\<lparr>pendingEvent := Some th\<rparr>)"
    by (simp_all add: updWaitable_def)
  note pk = inv_parts_same [OF rest(1,2)]
  have s: "slot_ok ?h s" for s using assms(1) unfolding pk by (simp add: stream_inv_def)
  have e: "event_ok ?h w" "wake_ok ?h w" if wx: "w \<notin> X - {n}" for w
  proof -
    have "event_ok ?h w \<and> wake_ok ?h w"
    proof (cases "w = n")
      case True
      have "pendingEvent (waitables ?h n) = Some th" by (simp add: rest)
      then show ?thesis using True assms(2-4)
        unfolding event_ok_def wake_ok_def hasPendingEvent_def pk rest(2)
        by (auto simp: doneThunk_def split: Thunk.splits)
    next
      case False
      then have "event_ok h w \<and> wake_ok h w" using wx assms(1) by (simp add: stream_inv_def)
      then show ?thesis using False event_parts [OF fun_cong [OF rest(2)] _ fun_cong [OF pk(1)], of w] by (simp add: rest(5))
    qed
    then show "event_ok ?h w" "wake_ok ?h w" by simp_all
  qed
  have f: "fresh_ok ?h" using assms(1,5) by (auto simp: fresh_ok_def rest stream_inv_def tabled_same [OF rest(4)])
  have "bufs_ok ?h" using assms(1) by (simp add: stream_inv_def bufs_ok_def updWaitable_def)
  moreover have "ends_ok ?h"
    using assms(1,4) by (auto simp: stream_inv_def ends_ok_def rest tabled_same [OF rest(4)] doneThunk_def)
  ultimately show ?thesis using s e f by (simp add: stream_inv_def)
qed

lemma runOnCopyDone_Inr:
  assumes "runOnCopyDone (GuestCopy ec n i b) r h = (Inr u, h')"
  obtains th where "h' = updWaitable n (\<lambda>x. x\<lparr>pendingEvent := Some th\<rparr>) h" "doneThunk th n"
proof (cases "ec = EvSTREAM_READ \<or> ec = EvSTREAM_WRITE")
  case True
  then show thesis using assms that [of "StreamEvent ec n i b r None"]
    by (auto simp: runOnCopyDone_def setPendingEvent_def run_simps doneThunk_def)
next
  case False
  show thesis
  proof (cases "if ec = EvFUTURE_READ \<and> r = DROPPED then abandonReasonOf (shareds h (ce_shared (ends h n))) else None")
    case None
    then show thesis using assms False that [of "FutureEvent ec n i b r"]
      by (auto simp: runOnCopyDone_def setPendingEvent_def run_simps doneThunk_def split: if_splits)
  next
    case (Some reason)
    then show thesis using assms False that [of "FutureAbandoned reason"]
      by (auto simp: runOnCopyDone_def setPendingEvent_def run_simps doneThunk_def split: if_splits)
  qed
qed

lemma runOnCopyDone_inv:
  assumes "runOnCopyDone (GuestCopy ec n i b) r h = (Inr u, h')" "stream_inv X h" "\<not> parked h n" "copying (ends h n)" "n < nextId h"
  shows "stream_inv (X - {n}) h'" "hasPendingEvent n h'"
proof -
  obtain th where th: "h' = updWaitable n (\<lambda>x. x\<lparr>pendingEvent := Some th\<rparr>) h" "doneThunk th n"
    by (rule runOnCopyDone_Inr [OF assms(1)])
  show "stream_inv (X - {n}) h'" unfolding th(1) by (rule notify_inv [OF assms(2-4) th(2) assms(5)])
  show "hasPendingEvent n h'" by (simp add: th(1) hasPendingEvent_def updWaitable_def)
qed

text \<open>The one way a notification fails, of a future's reader that finds no value and no reason.\<close>

definition peerUnserved :: error where
  "peerUnserved = AssertionError ''a readable future end cannot observe DROPPED''"

lemma runOnCopyDone_Inl: "runOnCopyDone cb r h = (Inl e, h') \<Longrightarrow> e = peerUnserved \<and> h' = h"
  by (cases cb) (auto simp: runOnCopyDone_def setPendingEvent_def run_simps peerUnserved_def split: if_splits option.splits)

text \<open>Freeing the slot takes its end into the exempted set.\<close>

lemma reset_inv:
  assumes "stream_inv X h" "sh_pendingDone (shareds h s) = Some (GuestCopy ec m i b)"
  shows "stream_inv (insert m X) (snd (resetPending s h))" and "parked h m" and "copying (ends h m)"
    and "ce_shared (ends h m) = s" and "m < nextId h" and "\<not> parked (snd (resetPending s h)) m"
proof -
  let ?h = "snd (resetPending s h)"
  have sh: "shareds ?h = (shareds h)(s := (shareds h s)\<lparr>sh_pendingInst := None, sh_pendingBuffer := None, sh_pendingDone := None\<rparr>)"
    and rest: "ends ?h = ends h" "waitables ?h = waitables h" "nextId ?h = nextId h" "handles ?h = handles h" "buffers ?h = buffers h"
    by (simp_all add: resetPending_def setPending_def run_simps updShared_def)
  have bo: "bufs_ok ?h" "ends_ok ?h"
    using assms(1) by (simp_all add: stream_inv_def bufs_ok_def ends_ok_def rest tabled_same [OF rest(4)])
  have slots: "slot_ok h t" for t using assms(1) by (simp add: stream_inv_def)
  show m: "parked h m" "copying (ends h m)" "ce_shared (ends h m) = s"
    using slots [of s] assms(2) by (auto simp: slot_ok_def parked_def)
  show "\<not> parked ?h m" using m(3) by (simp add: parked_def sh rest)
  have f: "fresh_ok h" using assms(1) by (simp add: stream_inv_def)
  show mi: "m < nextId h" using f m(2) by (meson fresh_ok_def not_le)
  have pk: "parked ?h w = parked h w" if "w \<noteq> m" for w
    using that assms(2) by (auto simp: parked_def sh rest)
  have s: "slot_ok ?h t" for t
    using slots [of t] m by (cases "t = s") (auto simp: slot_ok_def sh rest split: option.splits CopyCallback.splits)
  have e: "event_ok ?h w" "wake_ok ?h w" if w: "w \<notin> insert m X" for w
  proof -
    have "event_ok h w" "wake_ok h w" using w assms(1) by (simp_all add: stream_inv_def)
    then show "event_ok ?h w" "wake_ok ?h w" using event_parts [OF fun_cong [OF rest(1)] _ pk, of w] w by (simp_all add: rest(2))
  qed
  have "fresh_ok ?h" using f by (auto simp: fresh_ok_def sh rest tabled_same [OF rest(4)])
  with s e bo show "stream_inv (insert m X) ?h" by (simp add: stream_inv_def)
qed

lemma resetPending_fields:
  "shareds (snd (resetPending s h)) = (shareds h)(s := (shareds h s)\<lparr>sh_pendingInst := None, sh_pendingBuffer := None, sh_pendingDone := None\<rparr>)"
  "ends (snd (resetPending s h)) = ends h" "waitables (snd (resetPending s h)) = waitables h"
  "nextId (snd (resetPending s h)) = nextId h" "handles (snd (resetPending s h)) = handles h"
  "buffers (snd (resetPending s h)) = buffers h" "mems (snd (resetPending s h)) = mems h"
  by (simp_all add: resetPending_def setPending_def run_simps updShared_def)

lemma resetPending_run: "resetPending s h = (Inr (), snd (resetPending s h))"
  by (simp add: resetPending_def setPending_def run_simps)

lemma resetAndNotify_run:
  "sh_pendingDone (shareds h s) = Some cb \<Longrightarrow> resetAndNotifyPending s r h = runOnCopyDone cb r (snd (resetPending s h))"
  unfolding resetAndNotifyPending_def run_simps
  by (simp add: bindM_run_Inr [OF resetPending_run])

lemma resetAndNotify_none:
  "sh_pendingDone (shareds h s) = None \<Longrightarrow>
     resetAndNotifyPending s r h = (Inl (AssertionError ''reset_and_notify_pending with nothing pending''), h)"
  by (simp add: resetAndNotifyPending_def run_simps)

lemma resetAndNotify_inv:
  assumes "resetAndNotifyPending s r h = (Inr u, h')" "stream_inv X h"
  obtains ec m i b where "sh_pendingDone (shareds h s) = Some (GuestCopy ec m i b)" "stream_inv X h'"
    "hasPendingEvent m h'" "sh_pendingDone (shareds h' s) = None" "ends h' = ends h" "nextId h' = nextId h"
    "\<forall>w. w \<noteq> m \<longrightarrow> waitables h' w = waitables h w" "parked h m" "\<forall>w. w \<noteq> m \<longrightarrow> parked h' w = parked h w" "handles h' = handles h"
proof -
  have "sh_pendingDone (shareds h s) \<noteq> None" using assms(1) resetAndNotify_none [of h s r] by auto
  then obtain ec m i b where slot: "sh_pendingDone (shareds h s) = Some (GuestCopy ec m i b)"
    by (metis CopyCallback.exhaust not_Some_eq)
  let ?h = "snd (resetPending s h)"
  note run = assms(1) [unfolded resetAndNotify_run [OF slot]]
  note r = reset_inv [OF assms(2) slot]
  have c: "copying (ends ?h m)" "m < nextId ?h" using r(3,5) by (simp_all add: resetPending_fields)
  have np: "\<not> parked ?h m" by (rule r(6))
  note d = runOnCopyDone_inv [OF run r(1) np c]
  have x: "stream_inv X h'" by (rule stream_inv_mono [OF d(1)]) auto
  obtain th where th: "h' = updWaitable m (\<lambda>x. x\<lparr>pendingEvent := Some th\<rparr>) ?h"
    by (rule runOnCopyDone_Inr [OF run])
  have f: "ends h' = ends h" "nextId h' = nextId h" "sh_pendingDone (shareds h' s) = None"
    "\<forall>w. w \<noteq> m \<longrightarrow> waitables h' w = waitables h w"
    unfolding th by (simp_all add: updWaitable_def resetPending_fields)
  have p: "\<forall>w. w \<noteq> m \<longrightarrow> parked h' w = parked h w" "handles h' = handles h"
    unfolding th using slot by (auto simp: parked_def updWaitable_def resetPending_fields)
  show thesis by (rule that [OF slot x d(2) f(3) f(1) f(2) f(4) r(2) p])
qed

text \<open>What the invariant becomes when the operation of \<open>n\<close> throws.\<close>

definition failed :: "nat set \<Rightarrow> error \<Rightarrow> 'g heap_scheme \<Rightarrow> bool" where
  "failed X e h \<longleftrightarrow> e = peerUnserved \<or> stream_inv X h"

lemma failedI [simp]: "stream_inv X h \<Longrightarrow> failed X e h" "failed X peerUnserved h"
  by (simp_all add: failed_def)

lemma failed_insert: "failed X e h \<Longrightarrow> failed (insert n X) e h"
  by (auto simp: failed_def stream_inv_insert)

lemma resetAndNotify_fails:
  assumes "resetAndNotifyPending s r h = (Inl e, h')" "stream_inv X h"
  shows "failed X e h'"
proof (cases "sh_pendingDone (shareds h s)")
  case None
  then show ?thesis using assms resetAndNotify_none [of h s r] by auto
next
  case (Some cb)
  then have "e = peerUnserved" using assms(1) runOnCopyDone_Inl by (fastforce simp: resetAndNotify_run)
  then show ?thesis by simp
qed

end
