(* ===== verification/StreamSteps.thy ===== *)
theory StreamSteps
  imports StreamProtocol
begin

text \<open>
  Every operation of the two ends keeps the protocol invariant: creating a pair, copying,
  cancelling, delivering an event, dropping and transferring an end.  The triples follow the code of the
  operations with the rules of theory \<open>Hoare\<close>; the frame of a copy is that it touches memory and
  buffers only.
\<close>

section \<open>Frames\<close>

lemma same_core_mems: "same_core h (h\<lparr>mems := M\<rparr>)"
  by (simp add: same_core_def tabled_def bufs_ok_def)

lemma same_core_buffer:
  "plainElem (gb_t (f (buffers h b))) \<Longrightarrow> same_core h (updBuffer b f h)"
  by (simp add: same_core_def tabled_def bufs_ok_def updBuffer_def)

lemma same_core_progress:
  assumes "\<And>x. gb_t (f x) = gb_t x"
  shows "same_core h (updBuffer b f h)"
  using assms by (simp add: same_core_def tabled_def bufs_ok_def updBuffer_def)

lemma core_basic [hoare]:
  "stays same_core (returnM x)" "stays same_core (throwM e)" "stays same_core (liftR r)" "stays same_core (getsM g)"
  "stays same_core (assertM c msg)" "stays same_core (trapIfM c msg)"
  by (simp_all add: stays_def run_simps)

lemmas core_bind [hoare] = stays_bind [where R = same_core, OF _ _ same_core_trans]

lemma core_memOnly: "memOnly f \<Longrightarrow> stays same_core f"
  unfolding stays_def memOnly_def by (metis same_core_mems)

lemmas core_codecs = plain_frame [THEN core_memOnly]

lemma core_modify: "(\<And>h. same_core h (g h)) \<Longrightarrow> stays same_core (modifyM g)"
  by (simp add: stays_def run_simps)

lemma core_advance [hoare]: "stays same_core (advance b k n)"
  unfolding advance_def by (rule core_modify, rule same_core_progress) simp

lemma core_freshId [hoare]: "stays same_core freshId"
  by (simp add: stays_def freshId_def same_core_def tabled_def bufs_ok_def)

lemma core_needMemory [hoare]: "stays same_core (needMemory cx)"
  by (rule core_memOnly, rule memOnly_needMemory)

lemma bufRead_core:
  assumes "bufRead E b n h = (r, h')" "bufs_ok h"
  shows "same_core h h'"
proof -
  let ?x = "buffers h b"
  have pl: "plainElem (gb_t ?x)" using assms(2) by (simp add: bufs_ok_def)
  have c: "stays same_core (case gb_t ?x of
       Some e \<Rightarrow>
         bindM (liftR (ptrIndex e (gb_ptr ?x))) (\<lambda>p.
         bindM (loadListFromValidRange (bufferContext E ?x) p n e) (\<lambda>vs.
         bindM (needMemory (bufferContext E ?x)) (\<lambda>mem.
         bindM (liftR (elemSize e (addrType mem))) (\<lambda>sz.
         bindM (advance b (n * sz) n) (\<lambda>_. returnM vs)))))
     | None \<Rightarrow> bindM (advance b 0 n) (\<lambda>_. returnM (VArr (replicate n VNull))))"
    using pl by (auto simp: plainElem_def split: option.splits intro!: hoare core_codecs)
  show ?thesis using assms(1) staysD [OF c, of h r h'] by (simp add: bufRead_def run_simps split: if_splits)
qed

lemma bufWrite_core:
  assumes "bufWrite E b vs h = (r, h')" "bufs_ok h"
  shows "same_core h h'"
proof -
  let ?x = "buffers h b"
  have pl: "plainElem (gb_t ?x)" using assms(2) by (simp add: bufs_ok_def)
  have c: "stays same_core (bindM (liftR (chunkElems vs)) (\<lambda>xs.
     bindM (assertM (int (length xs) \<le> bufRemain ?x) ''buffer write beyond remaining'') (\<lambda>_.
     case gb_t ?x of
       Some e \<Rightarrow>
         bindM (liftR (ptrIndex e (gb_ptr ?x))) (\<lambda>p.
         bindM (storeListIntoValidRange (bufferContext E ?x) vs xs p e) (\<lambda>_.
         bindM (needMemory (bufferContext E ?x)) (\<lambda>mem.
         bindM (liftR (elemSize e (addrType mem))) (\<lambda>sz.
         advance b (length xs * sz) (length xs)))))
     | None \<Rightarrow>
         bindM (assertM (\<not> isByteArray vs \<and> list_all (\<lambda>v. v = VNull) xs)
           ''zero-width buffer written with a non-empty element'') (\<lambda>_.
         advance b 0 (length xs)))))"
    using pl by (auto simp: plainElem_def split: option.splits intro!: hoare core_codecs)
  show ?thesis using assms(1) staysD [OF c, of h r h'] by (simp add: bufWrite_def run_simps)
qed

lemma newBuffer_core:
  assumes "plainElem t"
  shows "stays same_core (newBuffer E t oi ins ptr len)"
  unfolding newBuffer_def using assms
  by (auto split: option.splits intro!: hoare core_modify same_core_buffer)

section \<open>Starting an operation\<close>

lemma slot_cases:
  assumes "slot_ok h s"
  obtains "sh_pendingDone (shareds h s) = None" "sh_pendingBuffer (shareds h s) = None"
  | ec m i b where "sh_pendingDone (shareds h s) = Some (GuestCopy ec m i b)"
      "sh_pendingBuffer (shareds h s) = Some b" "ce_shared (ends h m) = s" "copying (ends h m)"
proof (cases "sh_pendingDone (shareds h s)")
  case None
  then show thesis using assms that(1) by (simp add: slot_ok_def)
next
  case (Some cb)
  then show thesis using assms that(2) by (cases cb) (simp add: slot_ok_def)
qed

lemma slot_empty: "slot_ok h s \<Longrightarrow> sh_pendingDone (shareds h s) = None \<longleftrightarrow> sh_pendingBuffer (shareds h s) = None"
  by (erule slot_cases) simp_all

lemma parked_copying: "stream_inv X h \<Longrightarrow> parked h n \<Longrightarrow> copying (ends h n)"
proof -
  assume "stream_inv X h" "parked h n"
  then have "slot_ok h (ce_shared (ends h n))" by (simp add: stream_inv_def)
  then show ?thesis using \<open>parked h n\<close> by (cases rule: slot_cases) (auto simp: parked_def)
qed

definition starting :: "nat set \<Rightarrow> nat \<Rightarrow> 'g heap_scheme \<Rightarrow> bool" where
  "starting F n h \<longleftrightarrow>
     stream_inv (insert n F) h \<and> copying (ends h n) \<and> \<not> parked h n \<and> pendingEvent (waitables h n) = None \<and> n < nextId h"

lemma core_parked: "same_core h h' \<Longrightarrow> parked h' = parked h"
  by (rule inv_parts) (simp_all add: same_core_def)

lemma starting_core: "same_core h h' \<Longrightarrow> starting F n h \<Longrightarrow> starting F n h'"
  unfolding starting_def using same_core_inv [of h h' "insert n F"] core_parked [of h h'] by (auto simp: same_core_def)

lemma idle_quiet:
  assumes "stream_inv X h" "n \<notin> X" "tabled h n" "\<not> copying (ends h n)"
  shows "pendingEvent (waitables h n) = None" "n < nextId h"
proof -
  have "event_ok h n" "ends_ok h" "fresh_ok h" using assms by (simp_all add: stream_inv_def)
  then show "pendingEvent (waitables h n) = None" "n < nextId h"
    using assms(3,4) by (auto simp: event_ok_def ends_ok_def fresh_ok_def split: option.splits Thunk.splits)
qed

lemma updEnd_fields [simp]:
  "ends (updEnd n f h) = (ends h)(n := f (ends h n))" "shareds (updEnd n f h) = shareds h"
  "waitables (updEnd n f h) = waitables h" "handles (updEnd n f h) = handles h"
  "nextId (updEnd n f h) = nextId h" "buffers (updEnd n f h) = buffers h"
  by (simp_all add: updEnd_def)

lemma updEnd_state_parked:
  "(\<And>e. ce_shared (f e) = ce_shared e) \<Longrightarrow> parked (updEnd n f h) w = parked h w"
  by (simp add: parked_def)

text \<open>A change of the state of an end that is parked only if it stays in its copy.\<close>

lemma updEnd_inv:
  assumes "stream_inv (insert n F) h" "\<And>e. ce_shared (f e) = ce_shared e" "n < nextId h" "parked h n \<Longrightarrow> copying (f (ends h n))"
  shows "stream_inv (insert n F) (updEnd n f h)"
proof -
  let ?h = "updEnd n f h"
  have tb: "tabled ?h = tabled h" by (simp add: fun_eq_iff tabled_def)
  have pk: "parked ?h w = parked h w" for w by (rule updEnd_state_parked) (rule assms(2))
  have s: "slot_ok ?h s" for s
  proof -
    have "slot_ok h s" using assms(1) by (simp add: stream_inv_def)
    then show ?thesis
    proof (cases rule: slot_cases)
      case (2 ec m i b)
      have "m = n \<Longrightarrow> parked h n" using 2 by (simp add: parked_def)
      then show ?thesis using 2 assms(2,4) by (auto simp: slot_ok_def)
    qed (simp add: slot_ok_def)
  qed
  have e: "event_ok ?h w \<and> wake_ok ?h w" if w: "w \<notin> insert n F" for w
  proof -
    have "ends ?h w = ends h w" using w by simp
    note p = event_parts [OF this _ pk]
    have "event_ok h w" "wake_ok h w" using assms(1) w by (simp_all add: stream_inv_def)
    then show ?thesis using p by simp
  qed
  have f: "fresh_ok ?h" "bufs_ok ?h" "ends_ok ?h"
    using assms(1-3) by (auto simp: stream_inv_def fresh_ok_def bufs_ok_def ends_ok_def tb)
  show ?thesis using s e f by (simp add: stream_inv_def)
qed

text \<open>The exempted end is in order again.\<close>

lemma readmit: "stream_inv (insert n F) h \<Longrightarrow> event_ok h n \<Longrightarrow> wake_ok h n \<Longrightarrow> stream_inv F h"
  by (auto simp: stream_inv_def)

lemma start_copy:
  assumes "stream_inv F h" "n \<notin> F" "tabled h n" "ce_state (ends h n) = IDLE"
  shows "starting F n (updEnd n (\<lambda>x. x\<lparr>ce_state := COPYING\<rparr>) h)"
proof -
  let ?h = "updEnd n (\<lambda>x. x\<lparr>ce_state := COPYING\<rparr>) h"
  have nc: "\<not> copying (ends h n)" using assms(4) by (simp add: copying_def)
  note q = idle_quiet [OF assms(1-3) nc]
  have "stream_inv (insert n F) ?h"
    by (rule updEnd_inv [OF stream_inv_insert [OF assms(1)]]) (simp_all add: q copying_def)
  moreover have "parked ?h n = parked h n" by (rule updEnd_state_parked) simp
  moreover have "\<not> parked h n" using parked_copying [OF assms(1)] nc by blast
  ultimately show ?thesis using q by (simp add: starting_def copying_def)
qed

lemma start_done: "validE (starting F n) (runOnCopyDone (GuestCopy ec n i b) r) (\<lambda>_. stream_inv F) (failed (insert n F))"
proof (rule validEI)
  fix h u h'
  assume "starting F n h" "runOnCopyDone (GuestCopy ec n i b) r h = (Inr u, h')"
  then have "stream_inv (insert n F - {n}) h'" using runOnCopyDone_inv [of ec n i b r h u h' "insert n F"] by (simp add: starting_def)
  then show "stream_inv F h'" by (rule stream_inv_mono) auto
next
  fix h e h'
  assume "runOnCopyDone (GuestCopy ec n i b) r h = (Inl e, h')"
  then show "failed (insert n F) e h'" using runOnCopyDone_Inl by fastforce
qed

definition startingAt :: "nat set \<Rightarrow> nat \<Rightarrow> nat \<Rightarrow> 'g heap_scheme \<Rightarrow> bool" where
  "startingAt F n s h \<longleftrightarrow> starting F n h \<and> ce_shared (ends h n) = s"

lemma startingAt_core: "same_core h h' \<Longrightarrow> startingAt F n s h \<Longrightarrow> startingAt F n s h'"
  unfolding startingAt_def using starting_core [of h h'] by (auto simp: same_core_def)

lemma start_failed: "startingAt F n s h \<Longrightarrow> failed (insert n F) e h" "starting F n h \<Longrightarrow> failed (insert n F) e h"
  by (simp_all add: startingAt_def starting_def)

lemma startingAt_done:
  "validE (startingAt F n s) (runOnCopyDone (GuestCopy ec n i b) r) (\<lambda>_. stream_inv F) (failed (insert n F))"
  by (rule validE_pre [OF start_done]) (simp add: startingAt_def)

lemma start_park:
  "validE (\<lambda>h. startingAt F n s h \<and> sh_pendingDone (shareds h s) = None)
     (setPending s (Some ins) (Some b) (Some (GuestCopy ec n i b))) (\<lambda>_. stream_inv F) R"
proof (rule validEI)
  fix h u h'
  assume "startingAt F n s h \<and> sh_pendingDone (shareds h s) = None"
    "setPending s (Some ins) (Some b) (Some (GuestCopy ec n i b)) h = (Inr u, h')"
  then show "stream_inv F h'" using park_inv [of n F h s ins b ec i] by (simp add: startingAt_def starting_def)
qed (simp add: setPending_def run_simps)

lemma start_reset:
  "validE (startingAt F n s) (resetAndNotifyPending s r)
     (\<lambda>_ h. startingAt F n s h \<and> sh_pendingDone (shareds h s) = None) (failed (insert n F))"
proof (rule validEI)
  fix h u h'
  assume st: "startingAt F n s h" and run: "resetAndNotifyPending s r h = (Inr u, h')"
  have inv: "stream_inv (insert n F) h" using st by (simp add: startingAt_def starting_def)
  obtain ec m i b where o: "sh_pendingDone (shareds h s) = Some (GuestCopy ec m i b)" "stream_inv (insert n F) h'"
    "hasPendingEvent m h'" "sh_pendingDone (shareds h' s) = None" "ends h' = ends h" "nextId h' = nextId h"
    "\<forall>w. w \<noteq> m \<longrightarrow> waitables h' w = waitables h w" "parked h m" "\<forall>w. w \<noteq> m \<longrightarrow> parked h' w = parked h w"
    by (rule resetAndNotify_inv [OF run inv])
  have "m \<noteq> n" using o(8) st by (auto simp: startingAt_def starting_def)
  then show "startingAt F n s h' \<and> sh_pendingDone (shareds h' s) = None"
    using st o by (simp add: startingAt_def starting_def)
next
  fix h e h'
  assume "startingAt F n s h" "resetAndNotifyPending s r h = (Inl e, h')"
  then show "failed (insert n F) e h'" using resetAndNotify_fails [of s r h e h' "insert n F"] by (simp add: startingAt_def starting_def)
qed

lemma start_slot: "startingAt F n s h \<Longrightarrow> sh_pendingBuffer (shareds h s) = None \<Longrightarrow> sh_pendingDone (shareds h s) = None"
  using slot_empty [of h s] by (simp add: startingAt_def starting_def stream_inv_def)

section \<open>The rendezvous\<close>

lemma validE_checks:
  "validE P (f ()) Q R \<Longrightarrow> (\<And>e s. P s \<Longrightarrow> R e s) \<Longrightarrow> validE P (bindM (assertSameElems sh b p) f) Q R"
  "validE P (f ()) Q R \<Longrightarrow> (\<And>e s. P s \<Longrightarrow> R e s) \<Longrightarrow> validE P (bindM (trapOnSameInstance sh ins) f) Q R"
  by (auto simp: validE_def assertSameElems_def trapOnSameInstance_def run_simps split: if_splits)

text \<open>Moving elements is a frame step for the protocol, however it ends.\<close>

lemma start_bufs: "startingAt F n s h \<Longrightarrow> bufs_ok h"
  by (simp add: startingAt_def starting_def stream_inv_def)

lemma start_transfer:
  assumes "\<And>vs. validE (startingAt F n s) (f vs) Q (failed (insert n F))"
  shows "validE (startingAt F n s) (bindM (bufRead E p k) (\<lambda>vs. bindM (bufWrite E d vs) (\<lambda>_. f vs))) Q (failed (insert n F))"
proof (rule validE_bind)
  show "validE (startingAt F n s) (bufRead E p k) (\<lambda>_. startingAt F n s) (failed (insert n F))"
    by (rule validEI) (blast intro: startingAt_core bufRead_core start_bufs start_failed)+
  show "validE (startingAt F n s) (bindM (bufWrite E d vs) (\<lambda>_. f vs)) Q (failed (insert n F))" for vs
  proof (rule validE_bind)
    show "validE (startingAt F n s) (bufWrite E d vs) (\<lambda>_. startingAt F n s) (failed (insert n F))"
      by (rule validEI) (blast intro: startingAt_core bufWrite_core start_bufs start_failed)+
  qed (rule assms)
qed

text \<open>A partial copy tells the parked end, which stays parked.\<close>

lemma startingAt_notify:
  "validE (startingAt F n s) (bindM (getsM (\<lambda>h. shareds h s)) (\<lambda>sh1. bindM (pendingOf sh1) (\<lambda>pcb. runOnCopy pcb s)))
     (\<lambda>_. startingAt F n s) (failed (insert n F))"
proof (rule validEI)
  fix h u h'
  assume st: "startingAt F n s h"
    and run: "bindM (getsM (\<lambda>h. shareds h s)) (\<lambda>sh1. bindM (pendingOf sh1) (\<lambda>pcb. runOnCopy pcb s)) h = (Inr u, h')"
  have inv: "stream_inv (insert n F) h" using st by (simp add: startingAt_def starting_def)
  then have "slot_ok h s" by (simp add: stream_inv_def)
  then show "startingAt F n s h'"
  proof (cases rule: slot_cases)
    case 1
    then show ?thesis using run by (simp add: run_simps pendingOf_def)
  next
    case (2 ec m i b)
    define th where "th = StreamEvent ec m i b COMPLETED (Some s)"
    have h': "h' = updWaitable m (\<lambda>x. x\<lparr>pendingEvent := Some th\<rparr>) h"
      using run 2 by (simp add: run_simps pendingOf_def runOnCopy_def setPendingEvent_def th_def)
    have rest: "shareds h' = shareds h" "ends h' = ends h" "nextId h' = nextId h" "handles h' = handles h" "buffers h' = buffers h"
      "waitables h' = (waitables h)(m := (waitables h m)\<lparr>pendingEvent := Some th\<rparr>)"
      unfolding h' by (simp_all add: updWaitable_def)
    note pk = inv_parts_same [OF rest(1,2)]
    have pm: "parked h m" using 2 by (simp add: parked_def)
    then have mn: "m \<noteq> n" using st by (auto simp: startingAt_def starting_def)
    have "m < nextId h" using inv 2(4) unfolding stream_inv_def fresh_ok_def by (meson not_le)
    moreover have "event_ok h' m" "wake_ok h' m" using 2 pm
      by (simp_all add: event_ok_def wake_ok_def hasPendingEvent_def rest th_def pk)
    moreover have "event_ok h' w \<and> wake_ok h' w" if "event_ok h w \<and> wake_ok h w" for w
      using that event_parts [OF fun_cong [OF rest(2)] _ fun_cong [OF pk(1)], of w] calculation(2,3)
      by (cases "w = m") (simp_all add: rest(6))
    ultimately have "stream_inv (insert n F) h'"
      using inv unfolding stream_inv_def pk by (auto simp: fresh_ok_def bufs_ok_def ends_ok_def rest tabled_same [OF rest(4)] th_def)
    then show ?thesis using st mn by (simp add: startingAt_def starting_def rest pk)
  qed
next
  fix h e h'
  assume st: "startingAt F n s h"
    and run: "bindM (getsM (\<lambda>h. shareds h s)) (\<lambda>sh1. bindM (pendingOf sh1) (\<lambda>pcb. runOnCopy pcb s)) h = (Inl e, h')"
  have "h' = h" using run by (cases "sh_pendingDone (shareds h s)")
    (auto simp: run_simps pendingOf_def runOnCopy_def setPendingEvent_def split: CopyCallback.splits)
  then show "failed (insert n F) e h'" using start_failed st by blast
qed

lemma startingAt_copy:
  fixes rd :: int
  shows "validE (startingAt F n s) (bindM (if 0 < rd then
       bindM (bufRead E p k) (\<lambda>vs. bindM (bufWrite E d vs) (\<lambda>_.
       bindM (getsM (\<lambda>h. shareds h s)) (\<lambda>sh1. bindM (pendingOf sh1) (\<lambda>pcb. runOnCopy pcb s))))
       else returnM ()) (\<lambda>_. runOnCopyDone (GuestCopy ec n i b) COMPLETED)) (\<lambda>_. stream_inv F) (failed (insert n F))"
proof (rule validE_bind [OF validE_if startingAt_done])
  show "validE (startingAt F n s) (bindM (bufRead E p k) (\<lambda>vs. bindM (bufWrite E d vs) (\<lambda>_.
     bindM (getsM (\<lambda>h. shareds h s)) (\<lambda>sh1. bindM (pendingOf sh1) (\<lambda>pcb. runOnCopy pcb s))))) (\<lambda>_. startingAt F n s) (failed (insert n F))"
    by (rule start_transfer, rule startingAt_notify)
qed (rule validE_return, assumption)

lemma startingAt_repark:
  "validE (startingAt F n s) (bindM (resetAndNotifyPending s COMPLETED) (\<lambda>_.
      setPending s (Some ins) (Some b) (Some (GuestCopy ec n i b)))) (\<lambda>_. stream_inv F) (failed (insert n F))"
  by (rule validE_bind [OF start_reset start_park])

lemma startingAt_exchange:
  "validE (startingAt F n s) (bindM (bufRead E p 1) (\<lambda>vs. bindM (bufWrite E d vs) (\<lambda>_.
     bindM (resetAndNotifyPending s COMPLETED) (\<lambda>_. runOnCopyDone (GuestCopy ec n i b) COMPLETED)))) (\<lambda>_. stream_inv F) (failed (insert n F))"
  by (rule start_transfer, rule validE_bind [OF start_reset], rule validE_pre [OF startingAt_done [where s = s]]) simp

lemmas rendezvous_rules = validE_bind_gets validE_if validE_option validE_checks validE_pair validE_bind_assert validE_throw

lemmas rendezvous_ends =
  validE_pre [OF startingAt_done] validE_pre [OF start_park] validE_pre [OF startingAt_copy] validE_pre [OF startingAt_repark]
  validE_pre [OF startingAt_exchange]

lemma sharedStreamRead_inv:
  "validE (startingAt F n s) (sharedStreamRead E s ins dst (GuestCopy ec n i dst)) (\<lambda>_. stream_inv F) (failed (insert n F))"
  unfolding sharedStreamRead_def
  by (intro rendezvous_rules; (rule rendezvous_ends)?) (auto simp: start_slot intro: start_failed)

lemma sharedStreamWrite_inv:
  "validE (startingAt F n s) (sharedStreamWrite E s ins src (GuestCopy ec n i src)) (\<lambda>_. stream_inv F) (failed (insert n F))"
  unfolding sharedStreamWrite_def
  by (intro rendezvous_rules; (rule rendezvous_ends)?) (auto simp: start_slot intro: start_failed)

lemma sharedFutureRead_inv:
  "validE (startingAt F n s) (sharedFutureRead E s ins dst (GuestCopy ec n i dst)) (\<lambda>_. stream_inv F) (failed (insert n F))"
  unfolding sharedFutureRead_def
  by (intro rendezvous_rules; (rule rendezvous_ends)?) (auto simp: start_slot intro: start_failed)

lemma sharedFutureWrite_inv:
  "validE (startingAt F n s) (sharedFutureWrite E s ins src (GuestCopy ec n i src)) (\<lambda>_. stream_inv F) (failed (insert n F))"
  unfolding sharedFutureWrite_def
  by (intro rendezvous_rules; (rule rendezvous_ends)?) (auto simp: start_slot intro: start_failed)

lemma endCopy_inv: "validE (starting F n) (endCopy E n ins b (GuestCopy ec n i b)) (\<lambda>_. stream_inv F) (failed (insert n F))"
  unfolding endCopy_def
proof (rule validE_bind_gets)
  fix e
  have at: "startingAt F n (ce_shared e) h" if "starting F n h \<and> e = ends h n" for h
    using that by (simp add: startingAt_def)
  show "validE (\<lambda>h. starting F n h \<and> e = ends h n)
     (case (ce_kind e, ce_side e) of
       (StreamKind, Readable) \<Rightarrow> sharedStreamRead E (ce_shared e) ins b (GuestCopy ec n i b)
     | (StreamKind, Writable) \<Rightarrow> sharedStreamWrite E (ce_shared e) ins b (GuestCopy ec n i b)
     | (FutureKind, Readable) \<Rightarrow> sharedFutureRead E (ce_shared e) ins b (GuestCopy ec n i b)
     | (FutureKind, Writable) \<Rightarrow> sharedFutureWrite E (ce_shared e) ins b (GuestCopy ec n i b)) (\<lambda>_. stream_inv F) (failed (insert n F))"
    by (cases "ce_kind e"; cases "ce_side e")
      (simp_all add: validE_pre [OF sharedStreamRead_inv at] validE_pre [OF sharedStreamWrite_inv at]
        validE_pre [OF sharedFutureRead_inv at] validE_pre [OF sharedFutureWrite_inv at])
qed

section \<open>Delivering an event\<close>

lemma updWaitable_fields:
  "waitables (updWaitable w f h) = (waitables h)(w := f (waitables h w))" "ends (updWaitable w f h) = ends h"
  "shareds (updWaitable w f h) = shareds h" "handles (updWaitable w f h) = handles h"
  "nextId (updWaitable w f h) = nextId h" "buffers (updWaitable w f h) = buffers h"
  by (simp_all add: updWaitable_def)

text \<open>The event is taken first; unless the end is parked, it then owes its return to \<open>IDLE\<close> or \<open>DONE\<close>.\<close>

lemma clear_inv:
  assumes "stream_inv F h"
  shows "stream_inv (insert w F) (updWaitable w (\<lambda>x. x\<lparr>pendingEvent := None\<rparr>) h)"
    "(copying (ends h w) \<Longrightarrow> parked h w) \<Longrightarrow> stream_inv F (updWaitable w (\<lambda>x. x\<lparr>pendingEvent := None\<rparr>) h)"
proof -
  let ?h = "updWaitable w (\<lambda>x. x\<lparr>pendingEvent := None\<rparr>) h"
  note rest = updWaitable_fields [of w "\<lambda>x. x\<lparr>pendingEvent := None\<rparr>" h]
  note pk = inv_parts_same [OF rest(3,2)]
  have s: "slot_ok ?h s" for s using assms by (simp add: stream_inv_def pk)
  have e: "event_ok ?h v \<and> wake_ok ?h v" if "v \<notin> insert w F" for v
  proof -
    have "event_ok h v \<and> wake_ok h v" using that assms by (simp add: stream_inv_def)
    then show ?thesis using that event_parts [OF fun_cong [OF rest(2)] _ fun_cong [OF pk(1)], of v] by (simp add: rest(1))
  qed
  have f: "fresh_ok ?h" "bufs_ok ?h" "ends_ok ?h"
    using assms unfolding stream_inv_def
    by (auto simp: fresh_ok_def bufs_ok_def ends_ok_def rest tabled_same [OF rest(4)])
  show i: "stream_inv (insert w F) ?h" using s e f by (simp add: stream_inv_def)
  show "stream_inv F ?h" if "copying (ends h w) \<Longrightarrow> parked h w"
    by (rule readmit [OF i]) (use that in \<open>simp_all add: event_ok_def wake_ok_def pk rest\<close>)
qed

definition owing :: "nat set \<Rightarrow> nat \<Rightarrow> 'g heap_scheme \<Rightarrow> bool" where
  "owing F n h \<longleftrightarrow> stream_inv (insert n F) h \<and> \<not> parked h n \<and> pendingEvent (waitables h n) = None \<and> n < nextId h"

lemma owing_failed: "owing F n h \<Longrightarrow> failed (insert n F) e h"
  by (simp add: owing_def)

lemma owing_settle:
  assumes "owing F n h" "st = IDLE \<or> st = DONE"
  shows "stream_inv F (updEnd n (\<lambda>x. x\<lparr>ce_state := st\<rparr>) h)"
proof (rule readmit)
  show "stream_inv (insert n F) (updEnd n (\<lambda>x. x\<lparr>ce_state := st\<rparr>) h)"
    by (rule updEnd_inv) (use assms(1) in \<open>simp_all add: owing_def\<close>)
  show "event_ok (updEnd n (\<lambda>x. x\<lparr>ce_state := st\<rparr>) h) n" "wake_ok (updEnd n (\<lambda>x. x\<lparr>ce_state := st\<rparr>) h) n"
    using assms by (auto simp: owing_def event_ok_def wake_ok_def copying_def)
qed

lemma inv_failed: "stream_inv F h \<Longrightarrow> failed (insert n F) e h"
  by (simp add: stream_inv_insert)

lemma streamEvent_inv:
  assumes "case reclaim of None \<Rightarrow> owing F n h
     | Some s \<Rightarrow> stream_inv F h \<and> pendingEvent (waitables h n) = None \<and> (\<exists>ec' i' b'. sh_pendingDone (shareds h s) = Some (GuestCopy ec' n i' b'))"
  shows "validE (\<lambda>h'. h' = h) (streamEvent ec n i b result reclaim) (\<lambda>_. stream_inv F) (failed (insert n F))"
  unfolding streamEvent_def
proof (rule validE_bind)
  show "validE (\<lambda>h'. h' = h) (case reclaim of None \<Rightarrow> returnM () | Some s \<Rightarrow> resetPending s) (\<lambda>_. owing F n) (failed (insert n F))"
  proof (cases reclaim)
    case None
    then show ?thesis using assms by (simp add: validE_def run_simps)
  next
    case (Some s)
    then obtain ec' i' b' where sl: "sh_pendingDone (shareds h s) = Some (GuestCopy ec' n i' b')"
      and o: "stream_inv F h" "pendingEvent (waitables h n) = None" using assms by auto
    have "owing F n (snd (resetPending s h))"
      using reset_inv [OF o(1) sl] o(2) by (simp add: owing_def resetPending_fields)
    then show ?thesis using Some resetPending_run [of s h] by (auto simp: validE_def)
  qed
  fix u
  show "validE (owing F n)
     (bindM (getsM (\<lambda>h. ends h n)) (\<lambda>e.
      bindM (assertM (copying e) ''stream event on a non-copying end'') (\<lambda>_.
      bindM (modifyM (updEnd n (\<lambda>x. x\<lparr>ce_state := (if result = DROPPED then DONE else IDLE)\<rparr>))) (\<lambda>_.
      bindM (getsM (\<lambda>h. gb_progress (buffers h b))) (\<lambda>p.
      bindM (assertM (p \<le> BUFFER_MAX_LENGTH) ''stream progress out of packing range'') (\<lambda>_.
      bindM (assertM (copyResultNum result < 2 ^ 4) ''stream event: packed result out of 4-bit range'') (\<lambda>_.
      returnM (ec, i, packCopy result p)))))))) (\<lambda>_. stream_inv F) (failed (insert n F))"
    by (intro validE_bind_gets validE_bind_assert validE_return validE_bind_modify_to [where P' = "stream_inv F"])
      (auto intro!: owing_settle intro: owing_failed inv_failed)
qed

lemma futureEvent_inv: "validE (owing F n) (futureEvent ec n i b result) (\<lambda>_. stream_inv F) (failed (insert n F))"
  unfolding futureEvent_def
  by (intro validE_bind_gets validE_pair validE_bind_assert validE_return validE_bind_modify_to [where P' = "stream_inv F"])
    (auto intro!: owing_settle intro: owing_failed inv_failed)

lemma same_core_addLends: "same_core h (fold (addLends k) xs h)"
proof (induction xs arbitrary: h)
  case (Cons x xs)
  have "same_core h (addLends k x h)"
    by (simp add: same_core_def addLends_def tabled_def bufs_ok_def)
  then show ?case using Cons.IH [of "addLends k x h"] by (auto intro: same_core_trans)
qed simp

lemma core_subtask:
  "stays same_core (modifyM (fold (addLends k) xs))" "stays same_core (modifyM (updSubtask t f))"
  by (rule core_modify, rule same_core_addLends)
    (rule core_modify, simp add: same_core_def updSubtask_def tabled_def bufs_ok_def)

lemma core_if [hoare]: "stays R f \<Longrightarrow> stays R g \<Longrightarrow> stays R (if c then f else g)"
  by simp

lemma subtaskEvent_core: "stays same_core (subtaskEvent st i)"
  unfolding subtaskEvent_def deliverResolve_def resolveDelivered_def by (intro hoare core_subtask)

lemma event_delivered:
  assumes inv: "stream_inv F h" and w: "w \<notin> F" and th: "pendingEvent (waitables h w) = Some th"
  shows "validE (\<lambda>x. x = updWaitable w (\<lambda>x. x\<lparr>pendingEvent := None\<rparr>) h) (runThunk th) (\<lambda>_. stream_inv F) (failed (insert w F))"
proof -
  let ?h = "updWaitable w (\<lambda>x. x\<lparr>pendingEvent := None\<rparr>) h"
  note rest = updWaitable_fields [of w "\<lambda>x. x\<lparr>pendingEvent := None\<rparr>" h]
  have ok: "event_ok h w" "fresh_ok h" using inv w by (simp_all add: stream_inv_def)
  have none: "pendingEvent (waitables ?h w) = None" by (simp add: rest)
  have wi: "w < nextId ?h" using ok(2) th unfolding fresh_ok_def rest by (metis not_le option.distinct(1))
  note pk = inv_parts_same [OF rest(3,2)]
  have owe: "owing F w ?h" if "\<not> parked h w"
    using clear_inv(1) [OF inv] that none wi by (simp add: owing_def pk)
  have keep: "stream_inv F ?h" if "parked h w \<or> \<not> copying (ends h w)"
    by (rule clear_inv(2) [OF inv]) (use that in auto)
  show ?thesis
  proof (cases th)
    case (SubtaskEvent st i)
    then have k: "stream_inv F ?h" using keep ok(1) th by (simp add: event_ok_def)
    have "validE (\<lambda>x. x = ?h) (subtaskEvent st i) (\<lambda>_. stream_inv F) (\<lambda>_. stream_inv F)"
      by (rule stays_validE [OF subtaskEvent_core]) (use k same_core_inv in blast)
    then show ?thesis using SubtaskEvent by (auto simp: runThunk_def intro: validE_weaken inv_failed)
  next
    case (StreamEvent ec n i b result reclaim)
    have n: "n = w" using ok(1) th StreamEvent by (simp add: event_ok_def)
    have p: "case reclaim of None \<Rightarrow> \<not> parked h w | Some s \<Rightarrow> s = ce_shared (ends h w) \<and> parked h w"
      using ok(1) th StreamEvent by (simp add: event_ok_def)
    have "case reclaim of None \<Rightarrow> owing F n ?h
     | Some s \<Rightarrow> stream_inv F ?h \<and> pendingEvent (waitables ?h n) = None \<and>
         (\<exists>ec' i' b'. sh_pendingDone (shareds ?h s) = Some (GuestCopy ec' n i' b'))"
    proof (cases reclaim)
      case None
      then show ?thesis using p owe n by simp
    next
      case (Some s)
      then have "parked h w" "s = ce_shared (ends h w)" using p by simp_all
      then show ?thesis using Some keep none n
        by (auto simp: parked_def rest split: option.splits CopyCallback.splits)
    qed
    then show ?thesis using streamEvent_inv [where reclaim = reclaim and F = F and n = n and h = "?h" and ec = ec and i = i and b = b and result = result] StreamEvent n by (simp add: runThunk_def)
  next
    case (FutureEvent ec n i b result)
    have n: "n = w" "\<not> parked h w" using ok(1) th FutureEvent by (simp_all add: event_ok_def)
    have "validE (\<lambda>x. x = ?h) (futureEvent ec w i b result) (\<lambda>_. stream_inv F) (failed (insert w F))"
      by (rule validE_pre [OF futureEvent_inv]) (use owe n in auto)
    then show ?thesis using FutureEvent n by (simp add: runThunk_def)
  next
    case (FutureAbandoned reason)
    then show ?thesis using clear_inv(1) [OF inv, of w] by (simp add: runThunk_def validE_def run_simps)
  qed
qed

lemma getPendingEvent_inv: "w \<notin> F \<Longrightarrow> validE (stream_inv F) (getPendingEvent w) (\<lambda>_. stream_inv F) (failed (insert w F))"
proof -
  assume w: "w \<notin> F"
  have "case getPendingEvent w h of (Inr x, t) \<Rightarrow> stream_inv F t | (Inl e, t) \<Rightarrow> failed (insert w F) e t" if inv: "stream_inv F h" for h :: "'a heap_scheme"
  proof (cases "pendingEvent (waitables h w)")
    case None
    then show ?thesis using inv by (simp add: getPendingEvent_def run_simps inv_failed)
  next
    case (Some th)
    then have "getPendingEvent w h = runThunk th (updWaitable w (\<lambda>x. x\<lparr>pendingEvent := None\<rparr>) h)"
      by (simp add: getPendingEvent_def run_simps)
    then show ?thesis using event_delivered [OF inv w Some] by (simp add: validE_def)
  qed
  then show ?thesis by (simp add: validE_def)
qed

lemma takeCopyEvent_inv: "n \<notin> F \<Longrightarrow> validE (stream_inv F) (takeCopyEvent n ec i) (\<lambda>_. stream_inv F) (failed (insert n F))"
  unfolding takeCopyEvent_def
  by (rule validE_bind [OF getPendingEvent_inv], assumption, intro validE_pair validE_bind_assert validE_return) (simp_all add: inv_failed)

lemma sync_core: "same_core h (updWaitable n (\<lambda>x. x\<lparr>hasSyncWaiter := c\<rparr>) h)"
  by (simp add: same_core_def updWaitable_fields bufs_ok_def tabled_def)

lemma finishCopy_inv:
  assumes "n \<notin> F"
  shows "validE (stream_inv F) (finishCopy jspi asyn n ec i) (\<lambda>_. stream_inv F) (failed (insert n F))"
  unfolding finishCopy_def needsJspi_def
proof (intro validE_bind_gets validE_if validE_return validE_throw)
  fix p
  show "validE (\<lambda>s. stream_inv F s \<and> p = hasPendingEvent n s)
     (bindM (takeCopyEvent n ec i) (\<lambda>x. returnM (Answer x))) (\<lambda>_. stream_inv F) (failed (insert n F))"
    by (rule validE_bind [OF validE_pre [OF takeCopyEvent_inv [OF assms]]]) (auto intro: validE_return)
  show "validE (\<lambda>s. stream_inv F s \<and> p = hasPendingEvent n s)
     (bindM (modifyM (updWaitable n (\<lambda>x. x\<lparr>hasSyncWaiter := True\<rparr>))) (\<lambda>_. returnM (Suspend CopyWait ec n i)))
     (\<lambda>_. stream_inv F) (failed (insert n F))"
    by (rule validE_bind_modify_to [where P' = "stream_inv F"]) (auto intro: validE_return same_core_inv [OF sync_core])
qed (auto intro: inv_failed)

lemma takeCancelEvent_inv:
  "n \<notin> F \<Longrightarrow> validE (stream_inv F) (takeCancelEvent n ec i what) (\<lambda>_. stream_inv F) (failed (insert n F))"
  unfolding takeCancelEvent_def
  by (rule validE_bind [OF getPendingEvent_inv], assumption, intro validE_pair validE_bind_gets validE_bind_assert validE_return)
    (auto intro: inv_failed)

lemma resumeCopy_inv:
  assumes "n \<notin> F"
  shows "validE (stream_inv F) (resumeCopy site ec n i what) (\<lambda>_. stream_inv F) (failed (insert n F))"
  unfolding resumeCopy_def
proof (cases site)
  case CopyWait
  have "validE (stream_inv F) (bindM (modifyM (updWaitable n (\<lambda>x. x\<lparr>hasSyncWaiter := False\<rparr>)))
      (\<lambda>_. takeCopyEvent n ec i)) (\<lambda>_. stream_inv F) (failed (insert n F))"
    by (rule validE_bind_modify_to [OF _ takeCopyEvent_inv [OF assms]]) (rule same_core_inv [OF sync_core])
  then show "validE (stream_inv F) (case site of CopyWait \<Rightarrow> bindM (modifyM (updWaitable n (\<lambda>x. x\<lparr>hasSyncWaiter := False\<rparr>)))
      (\<lambda>_. takeCopyEvent n ec i) | CancelWait \<Rightarrow> takeCancelEvent n ec i what) (\<lambda>_. stream_inv F) (failed (insert n F))" by (simp add: CopyWait)
qed (simp add: takeCancelEvent_inv [OF assms])

end
