(* ===== verification/StreamReach.thy ===== *)
theory StreamReach
  imports StreamSteps
begin

text \<open>
  The built-ins keep the protocol invariant, however they end, and so do the reachable states of any number of
  component instances that create, copy on, cancel, drop and pass on their stream and future
  ends in any order, trap and are poisoned.  The properties of the protocol follow.
\<close>

section \<open>The built-ins\<close>

lemma validE_asEnd:
  assumes "\<And>n e. ent = EEnd n \<Longrightarrow> validE (\<lambda>h. P h \<and> e = ends h n \<and> ce_kind e = k \<and> ce_side e = side) (f (n, e)) Q R" "\<And>e s. P s \<Longrightarrow> R e s"
  shows "validE P (bindM (asEnd ent k side msg) f) Q R"
proof -
  have "case bindM (asEnd ent k side msg) f h of (Inr x, t) \<Rightarrow> Q x t | (Inl e, t) \<Rightarrow> R e t" if P: "P h" for h
  proof (cases "\<exists>n. ent = EEnd n \<and> ce_kind (ends h n) = k \<and> ce_side (ends h n) = side")
    case True
    then obtain n where n: "ent = EEnd n" "ce_kind (ends h n) = k" "ce_side (ends h n) = side" by blast
    then have "bindM (asEnd ent k side msg) f h = f (n, ends h n) h" by (simp add: asEnd_def run_simps)
    then show ?thesis using assms(1) [OF n(1), of "ends h n"] P n by (simp add: validE_def)
  next
    case False
    then have "\<exists>e. bindM (asEnd ent k side msg) f h = (Inl e, h)" by (cases ent) (auto simp: asEnd_def run_simps bindM_def)
    then show ?thesis using assms(2) P by auto
  qed
  then show ?thesis by (simp add: validE_def)
qed

lemma validE_handlesGet:
  assumes "\<And>ent. validE (\<lambda>h. P h \<and> tableGet i (handles h ins) = Inr ent) (f ent) Q R" "\<And>e s. P s \<Longrightarrow> R e s"
  shows "validE P (bindM (handlesGet ins i) f) Q R"
proof -
  have "case bindM (handlesGet ins i) f h of (Inr x, t) \<Rightarrow> Q x t | (Inl e, t) \<Rightarrow> R e t" if P: "P h" for h
    using assms(1) [unfolded validE_def, rule_format, of h] assms(2) P
    by (cases "tableGet i (handles h ins)") (simp_all add: handlesGet_def bindM_def)
  then show ?thesis by (simp add: validE_def)
qed

lemma validE_fact: "(c \<Longrightarrow> validE P f Q R) \<Longrightarrow> validE (\<lambda>s. c \<and> P s) f Q R"
  by (auto simp: validE_def)

lemma validE_known: "(c \<Longrightarrow> validE P f Q R) \<Longrightarrow> (\<And>s. P s \<Longrightarrow> c) \<Longrightarrow> validE P f Q R"
  by (auto simp: validE_def)

lemmas guards = validE_bind_gets validE_bind_assert validE_handlesGet validE_asEnd validE_pair

text \<open>The end a handle stands for.\<close>

definition handleOf :: "nat \<Rightarrow> nat \<Rightarrow> nat \<Rightarrow> 'g heap_scheme \<Rightarrow> bool" where
  "handleOf ins i n h \<longleftrightarrow> tableGet i (handles h ins) = Inr (EEnd n)"

definition copyable :: "EndKind \<Rightarrow> EndSide \<Rightarrow> nat \<Rightarrow> 'g heap_scheme \<Rightarrow> bool" where
  "copyable k side n h \<longleftrightarrow>
     tabled h n \<and> ce_state (ends h n) = IDLE \<and> ce_kind (ends h n) = k \<and> ce_side (ends h n) = side"

lemma copyChecks_inv:
  "validE (\<lambda>h. P h \<and> handleOf ins i n h) (copyChecks k side asyn elem ins i) (\<lambda>m h. m = n \<and> P h \<and> copyable k side n h) (\<lambda>_. P)"
  unfolding copyChecks_def Let_def
  by (intro guards validE_return) (auto simp: copyable_def tabled_def handleOf_def)

lemma validE_stays:
  assumes "stays same_core f"
  shows "validE (stream_inv F) f (\<lambda>_. stream_inv F) (\<lambda>_. stream_inv F)"
  by (rule stays_validE [OF assms]) (rule same_core_inv)

lemma newBuffer_keeps: "newBuffer E t oi ins ptr len h = (r, h') \<Longrightarrow> handles h' = handles h \<and> ends h' = ends h"
proof -
  assume run: "newBuffer E t oi ins ptr len h = (r, h')"
  have b: "stays (\<lambda>h h'. handles h' = handles h \<and> ends h' = ends h) (newBuffer E t oi ins ptr len)"
    unfolding newBuffer_def
    by (intro stays_bind) (auto simp: stays_def run_simps freshId_def updBuffer_def bindM_def liftR_def
        split: option.splits prod.splits sum.splits if_splits)
  show ?thesis using staysD [OF b run] .
qed

lemma start_stream_copy:
  assumes "plainElem elem" "n \<notin> F"
  shows "validE (\<lambda>h. stream_inv F h \<and> copyable k side n h) (newBuffer E elem oi ins ptr len)
     (\<lambda>b h. stream_inv F h \<and> starting F n (updEnd n (\<lambda>x. x\<lparr>ce_state := COPYING\<rparr>) h)) (\<lambda>_. stream_inv F)"
proof -
  have i: "stream_inv F h'" if "stream_inv F h" "newBuffer E elem oi ins ptr len h = (r, h')" for h h' r
    using that staysD [OF newBuffer_core [OF assms(1)] that(2)] same_core_inv by blast
  show ?thesis
  proof (rule validEI)
    fix h b h'
    assume P: "stream_inv F h \<and> copyable k side n h" and run: "newBuffer E elem oi ins ptr len h = (Inr b, h')"
    have "stream_inv F h'" using P run i by blast
    moreover have "tabled h' n" "ce_state (ends h' n) = IDLE"
      using P newBuffer_keeps [OF run] by (simp_all add: copyable_def tabled_def)
    ultimately show "stream_inv F h' \<and> starting F n (updEnd n (\<lambda>x. x\<lparr>ce_state := COPYING\<rparr>) h')" using start_copy assms(2) by blast
  qed (use i in blast)
qed

lemma start_copy_run:
  assumes "n \<notin> F"
  shows "validE (\<lambda>h. stream_inv F h \<and> starting F n (updEnd n (\<lambda>x. x\<lparr>ce_state := COPYING\<rparr>) h))
     (bindM (modifyM (updEnd n (\<lambda>x. x\<lparr>ce_state := COPYING\<rparr>))) (\<lambda>_.
      bindM (endCopy E n ins b (GuestCopy ec n i b)) (\<lambda>_. finishCopy jspi asyn n ec i))) (\<lambda>_. stream_inv F) (failed (insert n F))"
  by (rule validE_bind_modify_to [where P' = "starting F n"], blast)
    (rule validE_bind [OF endCopy_inv finishCopy_inv [OF assms]])

lemma checks_failed:
  "validE P f Q (\<lambda>_. stream_inv F) \<Longrightarrow> validE P f Q (failed (insert n F))"
  by (erule validE_weaken) (auto intro: inv_failed)

lemma streamCopy_inv:
  assumes "plainElem elem" "n \<notin> F"
  shows "validE (\<lambda>h. stream_inv F h \<and> handleOf ins i n h) (streamCopy E jspi asyn side elem oi ins i ptr len) (\<lambda>_. stream_inv F) (failed (insert n F))"
  unfolding streamCopy_def Let_def
  by (rule validE_bind [OF checks_failed [OF copyChecks_inv [where P = "stream_inv F" and n = n]]], rule validE_fact, hypsubst,
      rule validE_bind [OF checks_failed [OF start_stream_copy [OF assms]]],
      rule validE_bind_assert, rule start_copy_run [OF assms(2)], simp add: inv_failed)

lemma futureCopy_inv:
  assumes "plainElem elem" "n \<notin> F"
  shows "validE (\<lambda>h. stream_inv F h \<and> handleOf ins i n h) (futureCopy E jspi asyn side elem oi ins i ptr) (\<lambda>_. stream_inv F) (failed (insert n F))"
  unfolding futureCopy_def Let_def
  by (rule validE_bind [OF checks_failed [OF copyChecks_inv [where P = "stream_inv F" and n = n]]], rule validE_fact, hypsubst,
      rule validE_bind [OF checks_failed [OF start_stream_copy [OF assms]]], rule start_copy_run [OF assms(2)])

lemma notify_inv_all: "validE (stream_inv F) (resetAndNotifyPending s r) (\<lambda>_. stream_inv F) (failed F)"
proof (rule validEI)
  fix h u h' assume "stream_inv F h" "resetAndNotifyPending s r h = (Inr u, h')"
  then show "stream_inv F h'" by (metis resetAndNotify_inv)
next
  fix h e h' assume "stream_inv F h" "resetAndNotifyPending s r h = (Inl e, h')"
  then show "failed F e h'" using resetAndNotify_fails by blast
qed

lemma cancelling_inv:
  assumes "stream_inv F h" "n \<notin> F" "ce_state (ends h n) = COPYING"
  shows "stream_inv F (updEnd n (\<lambda>x. x\<lparr>ce_state := CANCELLING_COPY\<rparr>) h)"
proof -
  let ?h = "updEnd n (\<lambda>x. x\<lparr>ce_state := CANCELLING_COPY\<rparr>) h"
  have c: "copying (ends h n)" using assms(3) by (simp add: copying_def)
  have "fresh_ok h" using assms(1) by (simp add: stream_inv_def)
  then have n: "n < nextId h" using c by (meson fresh_ok_def not_le)
  have "stream_inv (insert n F) ?h"
    by (rule updEnd_inv [OF stream_inv_insert [OF assms(1)]]) (simp_all add: n copying_def)
  moreover have pk: "parked ?h n = parked h n" by (rule updEnd_state_parked) simp
  have "event_ok h n" "wake_ok h n" using assms(1,2) by (simp_all add: stream_inv_def)
  then have "event_ok ?h n" "wake_ok ?h n"
    using c pk by (auto simp: event_ok_def wake_ok_def hasPendingEvent_def copying_def split: option.splits Thunk.splits)
  ultimately show ?thesis by (rule readmit)
qed

lemma cancelCopy_inv:
  assumes n: "n \<notin> F"
  shows "validE (\<lambda>h. stream_inv F h \<and> handleOf ins i n h) (cancelCopy jspi asyn k side elem ins i) (\<lambda>_. stream_inv F) (failed (insert n F))"
proof -
  have tk: "validE (stream_inv F) (bindM (takeCancelEvent n ec i what) (\<lambda>x. returnM (Answer x))) (\<lambda>_. stream_inv F) (failed (insert n F))"
    for ec what by (rule validE_bind [OF takeCancelEvent_inv [OF n]]) (rule validE_return)
  have nt: "validE (stream_inv F) (sharedCancel s) (\<lambda>_. stream_inv F) (failed (insert n F))" for s
    unfolding sharedCancel_def by (rule validE_weaken [OF notify_inv_all [where F = F]]) (simp_all add: failed_insert)
  have tail: "validE (stream_inv F) (bindM (getsM (hasPendingEvent n)) (\<lambda>p.
      if p then bindM (takeCancelEvent n ec i what) (\<lambda>x. returnM (Answer x))
      else
        bindM (sharedCancel s) (\<lambda>_.
        bindM (getsM (hasPendingEvent n)) (\<lambda>q.
        if q then bindM (takeCancelEvent n ec i what) (\<lambda>x. returnM (Answer x))
        else if asyn then returnM (Answer BLOCKED)
        else if jspi then returnM (Suspend CancelWait ec n i)
        else throwM (Capability msg))))) (\<lambda>_. stream_inv F) (failed (insert n F))" for ec what s msg
    by (intro validE_bind_gets validE_if validE_pre [OF tk] validE_pre [OF validE_bind [OF nt]]
        validE_return validE_throw) (auto intro: inv_failed)
  show ?thesis unfolding cancelCopy_def Let_def needsJspi_def
  proof (intro guards, goal_cases)
    case (1 ml ent m e m2 e2 p t w)
    show ?case
    proof (rule validE_known [where c = "m2 = n"])
      assume m: "m2 = n"
      show ?case unfolding m
        by (rule validE_bind_modify_to [OF _ tail]) (use 1 n m in \<open>auto intro: cancelling_inv\<close>)
    qed (use 1 in \<open>auto simp: handleOf_def\<close>)
  qed (auto intro: inv_failed)
qed

text \<open>Dropping: the shared object is marked and its parked end told; the end leaves its waitable set.\<close>

lemma waitableJoin_core: "stays same_core (waitableJoin w None)"
  unfolding waitableJoin_def
  by (auto intro!: hoare core_modify split: option.splits
      simp: same_core_def updWaitable_fields updWset_def bufs_ok_def tabled_def)

lemma waitableDrop_inv: "validE (stream_inv F) (waitableDrop n) (\<lambda>_. stream_inv F) (\<lambda>_. stream_inv F)"
  unfolding waitableDrop_def by (rule validE_stays) (intro hoare waitableJoin_core)

lemma dropped_core: "same_core h (updShared s (\<lambda>x. x\<lparr>sh_dropped := True\<rparr>) h)"
  by (simp add: same_core_def updShared_def tabled_def bufs_ok_def)

lemma sharedDrop_inv: "validE (stream_inv F) (sharedDrop s) (\<lambda>_. stream_inv F) (failed F)"
  unfolding sharedDrop_def
  by (intro validE_bind_gets validE_if validE_return validE_bind_modify_to [where P' = "stream_inv F"] notify_inv_all)
    (auto intro: same_core_inv [OF dropped_core])

lemma copyEndDrop_inv: "validE (stream_inv F) (copyEndDrop n) (\<lambda>_. stream_inv F) (failed F)"
  unfolding copyEndDrop_def
  by (intro guards, rule validE_bind [OF validE_pre [OF sharedDrop_inv [where F = F]]], simp, rule validE_weaken [OF waitableDrop_inv [where F = F]]) simp_all

lemma endDrop_inv: "validE (stream_inv F) (endDrop n) (\<lambda>_. stream_inv F) (failed F)"
  unfolding endDrop_def by (intro guards validE_if; (rule validE_pre [OF copyEndDrop_inv [where F = F]])?) simp_all

lemma entryRemove_inv: "validE (stream_inv F) (onTable ins (tableRemove i)) (\<lambda>_. stream_inv F) (\<lambda>_. stream_inv F)"
  by (rule validEI) (blast intro: same_core_inv onTable_remove_core(1))+

lemma dropEnd_inv: "validE (stream_inv F) (dropEnd k side elem ins i) (\<lambda>_. stream_inv F) (failed F)"
  unfolding dropEnd_def Let_def
proof (intro guards)
  fix ml assume "\<not> \<not> ml"
  show "validE (\<lambda>s. stream_inv F s \<and> ml = mayLeave s ins) (bindM (onTable ins (tableRemove i)) (\<lambda>ent.
      bindM (asEnd ent k side (dropName k side @ '': wrong end type for this handle'')) (\<lambda>(n, e).
      bindM (getsM (\<lambda>h. sh_t (shareds h (ce_shared e)))) (\<lambda>t.
      bindM (trapIfM (\<not> sameElemType t elem) (dropName k side @ '': element type mismatch'')) (\<lambda>_. endDrop n))))) (\<lambda>_. stream_inv F) (failed F)"
  proof (rule validE_bind)
    show "validE (\<lambda>s. stream_inv F s \<and> ml = mayLeave s ins) (onTable ins (tableRemove i)) (\<lambda>_. stream_inv F) (failed F)"
      by (rule validE_weaken [OF entryRemove_inv [where F = F]]) simp_all
  qed (intro guards; (rule validE_pre [OF endDrop_inv [where F = F]])?, simp_all)
qed simp

text \<open>A new end is quiet, and a quiet end may be put in a table.\<close>

lemma newEnd_inv:
  "validE (\<lambda>h. stream_inv F h \<and> s < nextId h) (newEnd k side s)
     (\<lambda>n h. stream_inv F h \<and> s < nextId h \<and> n < nextId h \<and> pendingEvent (waitables h n) = None) R"
proof (rule validEI)
  fix h n h'
  assume P: "stream_inv F h \<and> s < nextId h" and run: "newEnd k side s h = (Inr n, h')"
  let ?e = "\<lparr>ce_kind = k, ce_side = side, ce_state = IDLE, ce_shared = s\<rparr>"
  have n: "n = nextId h" and h': "h' = h\<lparr>nextId := Suc (nextId h), ends := (ends h)(n := ?e),
      waitables := (waitables h)(n := newWaitable)\<rparr>"
    using run by (auto simp: newEnd_def bindM_def freshId_def run_simps)
  have rest: "shareds h' = shareds h" "ends h' = (ends h)(n := ?e)" "waitables h' = (waitables h)(n := newWaitable)"
    "handles h' = handles h" "buffers h' = buffers h" "nextId h' = Suc n"
    unfolding h' by (simp_all add: n)
  have inv: "stream_inv F h" using P by simp
  have f: "fresh_ok h" using inv by (simp add: stream_inv_def)
  have nc: "\<not> copying (ends h n)" using f n by (simp add: fresh_ok_def)
  have np: "\<not> parked h' n" and pk: "w \<noteq> n \<Longrightarrow> parked h' w = parked h w" for w
  proof -
    have "slot_ok h s" using inv by (simp add: stream_inv_def)
    then show "\<not> parked h' n" using nc by (cases rule: slot_cases) (auto simp: parked_def rest)
    show "w \<noteq> n \<Longrightarrow> parked h' w = parked h w" by (simp add: parked_def rest)
  qed
  have s: "slot_ok h' t" for t
  proof -
    have "slot_ok h t" using inv by (simp add: stream_inv_def)
    then show ?thesis using nc by (cases rule: slot_cases) (auto simp: slot_ok_def rest)
  qed
  have e: "event_ok h' w \<and> wake_ok h' w" if "w \<notin> F" for w
  proof (cases "w = n")
    case True
    then show ?thesis by (simp add: event_ok_def wake_ok_def rest newWaitable_def copying_def)
  next
    case False
    have "event_ok h w \<and> wake_ok h w" using inv that by (simp add: stream_inv_def)
    then show ?thesis using False event_parts [of h' w h] pk by (simp add: rest)
  qed
  have "fresh_ok h'" using f P unfolding fresh_ok_def rest
    by (auto simp: tabled_same [OF rest(4)] n intro: less_SucI)
  moreover have "bufs_ok h'" "ends_ok h'"
    using inv by (auto simp: stream_inv_def bufs_ok_def ends_ok_def rest tabled_same [OF rest(4)] newWaitable_def)
  ultimately have "stream_inv F h'" using s e by (simp add: stream_inv_def)
  then show "stream_inv F h' \<and> s < nextId h' \<and> n < nextId h' \<and> pendingEvent (waitables h' n) = None"
    using P by (simp add: rest n newWaitable_def)
qed (simp add: newEnd_def bindM_def freshId_def run_simps)

lemma endAdd_keeps:
  assumes P: "stream_inv F h \<and> s < nextId h \<and> n < nextId h \<and> pendingEvent (waitables h n) = None"
    and run: "onTable ins (tableAdd (EEnd n)) h = (r, h')"
  shows "stream_inv F h' \<and> s < nextId h'"
proof -
  obtain t where t: "tableAdd (EEnd n) (handles h ins) = (r, t)" "h' = h\<lparr>handles := (handles h)(ins := t)\<rparr>"
    by (rule onTable_result [OF run])
  have rest: "shareds h' = shareds h" "ends h' = ends h" "waitables h' = waitables h" "buffers h' = buffers h" "nextId h' = nextId h"
    unfolding t(2) by simp_all
  have tb: "m = n \<or> tabled h m" if tm: "tabled h' m" for m
  proof -
    from tm obtain i j where g: "tableGet j (handles h' i) = Inr (EEnd m)" by (auto simp: tabled_def)
    show ?thesis
    proof (cases "i = ins")
      case True
      then show ?thesis using g t(2) tableAdd_entries [OF t(1), of j "EEnd m"] by (auto simp: tabled_def)
    next
      case False
      then show ?thesis using g t(2) by (auto simp: tabled_def)
    qed
  qed
  note pk = inv_parts_same [OF rest(1,2)]
  have e: "event_ok h' w = event_ok h w" "wake_ok h' w = wake_ok h w" for w
    using event_parts [of h' w h] by (simp_all add: rest pk)
  have "fresh_ok h'" using P tb unfolding stream_inv_def fresh_ok_def rest by metis
  moreover have "bufs_ok h'" using P by (simp add: stream_inv_def bufs_ok_def rest)
  moreover have "ends_ok h'" using P tb unfolding stream_inv_def ends_ok_def rest by (metis option.distinct(1))
  ultimately show "stream_inv F h' \<and> s < nextId h'" using P by (simp add: stream_inv_def pk e rest)
qed

lemma endAdd_inv:
  "validE (\<lambda>h. stream_inv F h \<and> s < nextId h \<and> n < nextId h \<and> pendingEvent (waitables h n) = None)
     (onTable ins (tableAdd (EEnd n))) (\<lambda>_ h. stream_inv F h \<and> s < nextId h) (\<lambda>_. stream_inv F)"
proof (rule validEI)
  fix h r h' assume "stream_inv F h \<and> s < nextId h \<and> n < nextId h \<and> pendingEvent (waitables h n) = None"
    "onTable ins (tableAdd (EEnd n)) h = (Inr r, h')"
  then show "stream_inv F h' \<and> s < nextId h'" by (rule endAdd_keeps)
next
  fix h e h' assume "stream_inv F h \<and> s < nextId h \<and> n < nextId h \<and> pendingEvent (waitables h n) = None"
    "onTable ins (tableAdd (EEnd n)) h = (Inl e, h')"
  then show "stream_inv F h'" using endAdd_keeps by blast
qed

lemma newShared_inv:
  "validE (stream_inv F) (newShared k t) (\<lambda>s h. stream_inv F h \<and> s < nextId h) R"
proof (rule validEI)
  fix h s h'
  assume inv: "stream_inv F h" and run: "newShared k t h = (Inr s, h')"
  let ?s = "\<lparr>sh_kind = k, sh_t = t, sh_dropped = False, sh_abandon = None,
        sh_poisonFailure = None, sh_pendingInst = None, sh_pendingBuffer = None, sh_pendingDone = None, sh_boundStore = None\<rparr>"
  have s: "s = nextId h" and h': "h' = updShared s (\<lambda>_. ?s) (h\<lparr>nextId := Suc (nextId h)\<rparr>)"
    using run by (auto simp: newShared_def bindM_def freshId_def run_simps)
  have "fresh_ok h" "slot_ok h s" using inv by (simp_all add: stream_inv_def)
  then have "sh_pendingDone (shareds h s) = None" "sh_pendingBuffer (shareds h s) = None"
    using slot_empty [of h s] by (simp_all add: fresh_ok_def s)
  then have "same_core h h'" unfolding h' by (simp add: same_core_def updShared_def tabled_def bufs_ok_def)
  then show "stream_inv F h' \<and> s < nextId h'" using same_core_inv inv unfolding h' by (auto simp: s updShared_def)
qed (simp add: newShared_def bindM_def freshId_def run_simps)

lemma newEnd_entry:
  assumes "\<And>m j. validE (\<lambda>h. stream_inv F h \<and> s < nextId h) (f m j) Q (\<lambda>_. stream_inv F)"
  shows "validE (\<lambda>h. stream_inv F h \<and> s < nextId h)
     (bindM (newEnd k side s) (\<lambda>m. bindM (onTable ins (tableAdd (EEnd m))) (f m))) Q (\<lambda>_. stream_inv F)"
  by (rule validE_bind [OF newEnd_inv], rule validE_bind [OF endAdd_inv], rule assms)

lemma asyncNew_inv: "validE (stream_inv F) (asyncNew k elem ins) (\<lambda>_. stream_inv F) (\<lambda>_. stream_inv F)"
  unfolding asyncNew_def
proof (intro guards)
  fix ml assume "\<not> \<not> ml"
  show "validE (\<lambda>s. stream_inv F s \<and> ml = mayLeave s ins) (bindM (newShared k elem) (\<lambda>s.
      bindM (newEnd k Readable s) (\<lambda>r. bindM (onTable ins (tableAdd (EEnd r))) (\<lambda>ri.
      bindM (newEnd k Writable s) (\<lambda>w. bindM (onTable ins (tableAdd (EEnd w))) (\<lambda>wi. returnM (packEnds ri wi))))))) (\<lambda>_. stream_inv F) (\<lambda>_. stream_inv F)"
    by (rule validE_bind [OF validE_pre [OF newShared_inv [where F = F]]], simp) (intro newEnd_entry validE_return, simp)
qed simp

lemma transferAsyncEnd_inv:
  "validE (stream_inv F) (transferAsyncEnd k src dst srcElem dstElem i) (\<lambda>_. stream_inv F) (\<lambda>_. stream_inv F)"
proof -
  have add: "validE (\<lambda>h. stream_inv F h \<and> s < nextId h)
     (bindM (newEnd k Readable s) (\<lambda>m. onTable dst (tableAdd (EEnd m)))) (\<lambda>_. stream_inv F) (\<lambda>_. stream_inv F)" for s
    by (rule validE_bind [OF newEnd_inv [where F = F]], rule validE_weaken [OF endAdd_inv [where F = F and s = s]]) simp_all
  have sh: "ce_shared (ends h n) < nextId h" if "stream_inv F h" for h :: "'a heap_scheme" and n
    using that by (simp add: stream_inv_def fresh_ok_def)
  show ?thesis unfolding transferAsyncEnd_def Let_def
    by (rule validE_bind [OF entryRemove_inv], intro guards; (rule validE_pre [OF add])?) (auto simp: sh)
qed

section \<open>Teardown\<close>

text \<open>The ends that wait for a rendezvous on behalf of an instance that is poisoned or retired, with \<open>ins\<close> counted among these.\<close>

definition deadWaiters :: "nat \<Rightarrow> 'g heap_scheme \<Rightarrow> nat set" where
  "deadWaiters ins h =
     {m. \<exists>s ec i b j. sh_pendingDone (shareds h s) = Some (GuestCopy ec m i b) \<and> sh_pendingInst (shareds h s) = Some j \<and>
        (isInstancePoisoned j h \<or> retired h j \<or> j = ins)}"

definition waitsIn :: "nat set \<Rightarrow> 'g heap_scheme \<Rightarrow> bool" where
  "waitsIn X h \<longleftrightarrow>
     (\<forall>s ec m i b j. sh_pendingDone (shareds h s) = Some (GuestCopy ec m i b) \<and> sh_pendingInst (shareds h s) = Some j \<and>
        (isInstancePoisoned j h \<or> retired h j) \<longrightarrow> m \<in> X)"

lemma waitsIn_less:
  assumes "waitsIn X h" "poisonCause h' = poisonCause h" "retired h' = retired h"
    "\<And>t cb. sh_pendingDone (shareds h' t) = Some cb \<Longrightarrow> sh_pendingDone (shareds h t) = Some cb \<and> sh_pendingInst (shareds h' t) = sh_pendingInst (shareds h t)"
  shows "waitsIn X h'"
  using assms(1,4) unfolding waitsIn_def isInstancePoisoned_def assms(2,3) by metis

lemma teardown_less:
  assumes "dropSharedForTeardown s h = (r, h')"
  shows "poisonCause h' = poisonCause h \<and> retired h' = retired h \<and>
    (\<forall>t cb. sh_pendingDone (shareds h' t) = Some cb \<longrightarrow> sh_pendingDone (shareds h t) = Some cb \<and> sh_pendingInst (shareds h' t) = sh_pendingInst (shareds h t))"
proof -
  let ?R = "\<lambda>h h' :: 'a heap_scheme. poisonCause h' = poisonCause h \<and> retired h' = retired h \<and>
    (\<forall>t cb. sh_pendingDone (shareds h' t) = Some cb \<longrightarrow> sh_pendingDone (shareds h t) = Some cb \<and> sh_pendingInst (shareds h' t) = sh_pendingInst (shareds h t))"
  have "stays ?R (dropSharedForTeardown s)"
    unfolding dropSharedForTeardown_def resetAndNotifyPending_def resetPending_def setPending_def runOnCopyDone_def setPendingEvent_def
    by (intro stays_bind core_if)
      (auto intro!: stays_bind simp: stays_def run_simps updShared_def updWaitable_def bindM_def split: option.splits CopyCallback.splits)
  then show ?thesis using assms by (rule staysD)
qed

lemma teardown_inv:
  assumes "dropSharedForTeardown s h = (r, h')" "stream_inv X h" "waitsIn X h"
  shows "waitsIn X h'" "r = Inr u \<Longrightarrow> stream_inv X h'"
proof -
  show "waitsIn X h'" by (rule waitsIn_less [OF assms(3)]) (use teardown_less [OF assms(1)] in blast)+
  let ?h = "updShared s (\<lambda>x. x\<lparr>sh_dropped := True\<rparr>) h"
  have i: "stream_inv X ?h" by (rule same_core_inv [OF dropped_core assms(2)])
  show "stream_inv X h'" if r: "r = Inr u"
  proof (cases "sh_dropped (shareds h s) \<or> sh_pendingBuffer (shareds h s) = None")
    case True
    then show ?thesis using assms(1,2) i by (auto simp: dropSharedForTeardown_def run_simps split: if_splits)
  next
    case False
    then have f: "sh_dropped (shareds h s) = False" "(sh_pendingBuffer (shareds h s) = None) = False" by auto
    have "slot_ok ?h s" using i by (simp add: stream_inv_def)
    then obtain ec m j b where sl: "sh_pendingDone (shareds ?h s) = Some (GuestCopy ec m j b)"
      using False by (cases rule: slot_cases) (auto simp: updShared_def)
    show ?thesis
    proof (cases "case sh_pendingInst (shareds h s) of None \<Rightarrow> False | Some i \<Rightarrow> isInstancePoisoned i ?h \<or> retired ?h i")
      case True
      then have d: "resetPending s ?h = (r, h')" using assms(1) f
        by (cases "sh_pendingInst (shareds h s)") (simp_all add: dropSharedForTeardown_def run_simps)
      obtain q where q: "sh_pendingInst (shareds h s) = Some q" "isInstancePoisoned q h \<or> retired h q"
        using True by (auto simp: updShared_def isInstancePoisoned_def split: option.splits)
      have "sh_pendingDone (shareds h s) = Some (GuestCopy ec m j b)" using sl by (simp add: updShared_def)
      then have "m \<in> X" using q assms(3) unfolding waitsIn_def by blast
      then have "insert m X = X" by blast
      then show ?thesis using reset_inv(1) [OF i sl] d by (metis snd_conv)
    next
      case alive: False
      then have "resetAndNotifyPending s DROPPED ?h = (r, h')" using assms(1) f
        by (cases "sh_pendingInst (shareds h s)") (simp_all add: dropSharedForTeardown_def run_simps)
      then show ?thesis using validE_Inr [OF notify_inv_all i] r by blast
    qed
  qed
qed

lemma retireAll_Some: "retireAll ss (Some e) h = (r, h') \<Longrightarrow> r \<noteq> Inr None"
  by (induction ss arbitrary: h) (auto simp: run_simps split: prod.splits sum.splits)

lemma retireAll_inv: "retireAll ss None h = (Inr None, h') \<Longrightarrow> stream_inv X h \<Longrightarrow> waitsIn X h \<Longrightarrow> stream_inv X h'"
proof (induction ss arbitrary: h)
  case (Cons s ss)
  obtain r h1 where d: "dropSharedForTeardown s h = (r, h1)" by (cases "dropSharedForTeardown s h")
  show ?case
  proof (cases r)
    case (Inl e)
    then show ?thesis using Cons.prems(1) d retireAll_Some by fastforce
  next
    case (Inr u)
    then show ?thesis using Cons.IH [of h1] Cons.prems d teardown_inv [OF d Cons.prems(2,3)] by simp
  qed
qed (simp add: run_simps)

lemma marks_core: "same_core h (fold (markPoisoned ins) es h) \<and> (\<forall>t. sh_pendingInst (shareds (fold (markPoisoned ins) es h) t) = sh_pendingInst (shareds h t)) \<and>
   poisonCause (fold (markPoisoned ins) es h) = poisonCause h \<and> retired (fold (markPoisoned ins) es h) = retired h"
proof (induction es arbitrary: h)
  case (Cons e es)
  have "same_core h (markPoisoned ins e h) \<and> (\<forall>t. sh_pendingInst (shareds (markPoisoned ins e h) t) = sh_pendingInst (shareds h t)) \<and>
     poisonCause (markPoisoned ins e h) = poisonCause h \<and> retired (markPoisoned ins e h) = retired h"
    by (simp add: markPoisoned_def Let_def same_core_def updShared_def tabled_def bufs_ok_def)
  then show ?case using Cons.IH [of "markPoisoned ins e h"] same_core_trans by auto
qed simp

lemma poison_inv:
  assumes "notifyInstancePoisoned ins cause h = (Inr u, h')" "stream_inv F h"
  shows "stream_inv (F \<union> deadWaiters ins h) h'"
proof -
  let ?F = "F \<union> deadWaiters ins h"
  let ?h = "h\<lparr>poisonCause := (poisonCause h)(ins := (case poisonCause h ins of None \<Rightarrow> Some cause | c \<Rightarrow> c))\<rparr>"
  have p: "same_core h ?h" by (simp add: same_core_def tabled_def bufs_ok_def)
  then have i: "stream_inv ?F ?h" using same_core_inv stream_inv_mono [OF assms(2)] by blast
  have run: "retireInstanceAsyncEnds ins ?h = (Inr u, h')" using assms(1) by (simp add: notifyInstancePoisoned_def run_simps)
  show ?thesis
  proof (cases "retired h ins")
    case True
    then show ?thesis using run i by (simp add: retireInstanceAsyncEnds_def run_simps)
  next
    case False
    let ?g = "?h\<lparr>retired := (retired h)(ins := True)\<rparr>" and ?es = "map (ends h) (tableEnds (handles h ins))"
    define h1 where "h1 = fold (markPoisoned ins) ?es ?g"
    note m = marks_core [of ?g ins ?es, folded h1_def]
    have r: "retireAll (map ce_shared ?es) None h1 = (Inr None, h')"
      using run False by (auto simp: retireInstanceAsyncEnds_def run_simps h1_def bindM_def split: prod.splits sum.splits option.splits)
    have "same_core ?h ?g" by (simp add: same_core_def tabled_def bufs_ok_def)
    then have "same_core ?h h1" using m same_core_trans by blast
    then have "stream_inv ?F h1" by (rule same_core_inv [OF _ i])
    moreover have "waitsIn ?F h1"
      unfolding waitsIn_def
    proof (intro allI impI)
      fix s ec m' i b j
      assume a: "sh_pendingDone (shareds h1 s) = Some (GuestCopy ec m' i b) \<and> sh_pendingInst (shareds h1 s) = Some j \<and> (isInstancePoisoned j h1 \<or> retired h1 j)"
      have "sh_pendingDone (shareds h s) = Some (GuestCopy ec m' i b)" "sh_pendingInst (shareds h s) = Some j"
        using a m by (simp_all add: same_core_def)
      moreover have "isInstancePoisoned j h \<or> retired h j \<or> j = ins"
        using a m by (auto simp: isInstancePoisoned_def split: if_splits)
      ultimately show "m' \<in> ?F" unfolding deadWaiters_def by blast
    qed
    ultimately show ?thesis by (rule retireAll_inv [OF r])
  qed
qed

section \<open>Reachable states\<close>

text \<open>
  The steps of the runtime that concern ends, each with whatever outcome it has: \<open>F\<close> collects the ends whose own operation
  (a copy, its resumption, a cancellation, the delivery of its event) ended in an exception, and the ends that were waiting on behalf of
  a dead instance when an instance was poisoned; their guest makes no further operation on them.  One exception is left out, the internal
  assertion of a future's reader that is told DROPPED without a reason (\<open>peerUnserved\<close>).  \<open>other\<close> is any step that leaves the slots of the
  shared objects, the ends and their events alone and puts no end in a table: guest code, value passing, waitable sets, the
  gates of instances, a built-in that refuses its handle; \<open>subtask\<close> is a progress report to a waitable that is no end.
\<close>

definition after :: "nat set \<Rightarrow> nat \<Rightarrow> error + 'a \<Rightarrow> nat set" where
  "after F n r = (case r of Inr _ \<Rightarrow> F | Inl _ \<Rightarrow> insert n F)"

inductive stream_step :: "(nat \<Rightarrow> 'g heap_scheme Context) \<Rightarrow> nat set \<Rightarrow> 'g heap_scheme \<Rightarrow> nat set \<Rightarrow> 'g heap_scheme \<Rightarrow> bool"
  for E where
  new: "asyncNew k elem ins h = (r, h') \<Longrightarrow> stream_step E F h F h'"
| stream: "plainElem elem \<Longrightarrow> handleOf ins i n h \<Longrightarrow> n \<notin> F \<Longrightarrow> streamCopy E jspi asyn side elem oi ins i ptr len h = (r, h') \<Longrightarrow>
    r \<noteq> Inl peerUnserved \<Longrightarrow> stream_step E F h (after F n r) h'"
| future: "plainElem elem \<Longrightarrow> handleOf ins i n h \<Longrightarrow> n \<notin> F \<Longrightarrow> futureCopy E jspi asyn side elem oi ins i ptr h = (r, h') \<Longrightarrow>
    r \<noteq> Inl peerUnserved \<Longrightarrow> stream_step E F h (after F n r) h'"
| resume: "n \<notin> F \<Longrightarrow> resumeCopy site ec n i what h = (r, h') \<Longrightarrow> r \<noteq> Inl peerUnserved \<Longrightarrow> stream_step E F h (after F n r) h'"
| cancel: "handleOf ins i n h \<Longrightarrow> n \<notin> F \<Longrightarrow> cancelCopy jspi asyn k side elem ins i h = (r, h') \<Longrightarrow> r \<noteq> Inl peerUnserved \<Longrightarrow>
    stream_step E F h (after F n r) h'"
| deliver: "w \<notin> F \<Longrightarrow> getPendingEvent w h = (r, h') \<Longrightarrow> r \<noteq> Inl peerUnserved \<Longrightarrow> stream_step E F h (after F w r) h'"
| drop: "dropEnd k side elem ins i h = (r, h') \<Longrightarrow> r \<noteq> Inl peerUnserved \<Longrightarrow> stream_step E F h F h'"
| transfer: "transferAsyncEnd k src dst srcElem dstElem i h = (r, h') \<Longrightarrow> stream_step E F h F h'"
| poison: "notifyInstancePoisoned ins cause h = (Inr u, h') \<Longrightarrow> stream_step E F h (F \<union> deadWaiters ins h) h'"
| other: "same_core h h' \<Longrightarrow> stream_step E F h F h'"
| subtask: "\<not> tabled h w \<Longrightarrow> \<not> copying (ends h w) \<Longrightarrow> w < nextId h \<Longrightarrow>
    stream_step E F h F (updWaitable w (\<lambda>x. x\<lparr>pendingEvent := Some (SubtaskEvent st i)\<rparr>) h)"

inductive reachable :: "(nat \<Rightarrow> heap Context) \<Rightarrow> nat set \<Rightarrow> heap \<Rightarrow> bool" for E where
  init: "reachable E {} emptyHeap"
| step: "reachable E F h \<Longrightarrow> stream_step E F h F' h' \<Longrightarrow> reachable E F' h'"

lemma subtask_inv:
  assumes "stream_inv F h" "\<not> tabled h w" "\<not> copying (ends h w)" "w < nextId h"
  shows "stream_inv F (updWaitable w (\<lambda>x. x\<lparr>pendingEvent := Some (SubtaskEvent st i)\<rparr>) h)" (is "stream_inv F ?h")
proof -
  note rest = updWaitable_fields [of w "\<lambda>x. x\<lparr>pendingEvent := Some (SubtaskEvent st i)\<rparr>" h]
  note pk = inv_parts_same [OF rest(3,2)]
  have "event_ok ?h v \<and> wake_ok ?h v" if "v \<notin> F" for v
  proof (cases "v = w")
    case True
    then show ?thesis using assms(3) by (simp add: event_ok_def wake_ok_def rest)
  next
    case False
    have "event_ok h v \<and> wake_ok h v" using assms(1) that by (simp add: stream_inv_def)
    then show ?thesis using False event_parts [OF fun_cong [OF rest(2)] _ fun_cong [OF pk(1)], of v] by (simp add: rest(1))
  qed
  moreover have "fresh_ok ?h" "bufs_ok ?h" "ends_ok ?h"
    using assms by (auto simp: stream_inv_def fresh_ok_def bufs_ok_def ends_ok_def rest tabled_same [OF rest(4)])
  ultimately show ?thesis using assms(1) by (simp add: stream_inv_def pk)
qed

lemma after_inv:
  assumes "validE P f (\<lambda>_. stream_inv F) (failed (insert n F))" "P h" "f h = (r, h')" "r \<noteq> Inl peerUnserved"
  shows "stream_inv (after F n r) h'"
  using assms by (cases r) (auto simp: after_def failed_def dest: validE_Inr validE_Inl)

lemma both_inv:
  assumes "validE P f (\<lambda>_. stream_inv F) (\<lambda>_. stream_inv F)" "P h" "f h = (r, h')"
  shows "stream_inv F h'"
  using assms by (cases r) (auto dest: validE_Inr validE_Inl)

lemma stream_step_inv:
  assumes "stream_step E F h F' h'" "stream_inv F h"
  shows "stream_inv F' h'"
  using assms
proof (induction rule: stream_step.induct)
  case (stream elem ins i n h F jspi asyn side oi ptr len r h')
  then show ?case by (intro after_inv [OF streamCopy_inv]) auto
next
  case (future elem ins i n h F jspi asyn side oi ptr r h')
  then show ?case by (intro after_inv [OF futureCopy_inv]) auto
next
  case (resume n F site ec i what h r h')
  then show ?case by (intro after_inv [OF resumeCopy_inv]) auto
next
  case (cancel ins i n h F jspi asyn k side elem r h')
  then show ?case by (intro after_inv [OF cancelCopy_inv]) auto
next
  case (deliver w F h r h')
  then show ?case by (intro after_inv [OF getPendingEvent_inv]) auto
next
  case (drop k side elem ins i h r h' F)
  then show ?case by (cases r) (auto simp: failed_def dest: validE_Inr [OF dropEnd_inv] validE_Inl [OF dropEnd_inv])
next
  case poison
  then show ?case by (intro poison_inv)
next
  case other
  then show ?case using same_core_inv by blast
next
  case subtask
  then show ?case using subtask_inv by blast
qed (blast intro: both_inv [OF asyncNew_inv] both_inv [OF transferAsyncEnd_inv])+

lemma tableGet_empty [simp]: "tableGet j emptyTable \<noteq> Inr e"
  by (cases j) (simp_all add: tableGet_def emptyTable_def)

lemma initial_inv: "stream_inv {} emptyHeap"
  by (simp add: stream_inv_def slot_ok_def event_ok_def wake_ok_def fresh_ok_def bufs_ok_def ends_ok_def
      emptyHeap_def newWaitable_def copying_def tabled_def plainElem_def)

lemma reachable_inv: "reachable E F h \<Longrightarrow> stream_inv F h"
  by (induction rule: reachable.induct) (auto intro: initial_inv stream_step_inv)

end
