(* ===== verification/StreamProps.thy ===== *)
theory StreamProps
  imports StreamReach
begin

text \<open>
  The properties of the stream and future protocol: no wakeup is lost, a cancellation settles at once,
  dropping one end wakes the other, a future is single-shot, what a rendezvous moves, what a
  poisoned instance leaves behind, and the packing of answers.
\<close>

section \<open>A run\<close>

definition runOf :: "(heap, 'a) sm \<Rightarrow> heap \<Rightarrow> heap" where
  "runOf f h = snd (f h)"

text \<open>An instance creates a stream of no element type and reads from it.\<close>

definition demo1 :: heap where "demo1 = runOf (asyncNew StreamKind None 0) emptyHeap"
definition demo2 :: "(nat \<Rightarrow> heap Context) \<Rightarrow> heap" where
  "demo2 E = runOf (streamCopy E False True Readable None 0 0 1 0 4) demo1"

lemma demo_new: "asyncNew StreamKind None 0 emptyHeap = (Inr (packEnds 1 2), demo1)"
  by (simp add: demo1_def runOf_def asyncNew_def newShared_def newEnd_def freshId_def onTable_def tableAdd_def emptyHeap_def
      emptyTable_def updShared_def run_simps bindM_def Let_def MAX_LENGTH_def numeral_2_eq_2 [symmetric])

lemma demo1_simps [simp]:
  "mayLeave demo1 0" "handles demo1 0 = \<lparr>arr = [None, Some (EEnd 2), Some (EEnd 3)], free = []\<rparr>"
  "ends demo1 2 = \<lparr>ce_kind = StreamKind, ce_side = Readable, ce_state = IDLE, ce_shared = 1\<rparr>"
  "ends demo1 3 = \<lparr>ce_kind = StreamKind, ce_side = Writable, ce_state = IDLE, ce_shared = 1\<rparr>"
  "sh_t (shareds demo1 (Suc 0)) = None" "sh_dropped (shareds demo1 (Suc 0)) = False" "sh_pendingBuffer (shareds demo1 (Suc 0)) = None"
  "waitables demo1 2 = newWaitable" "waitables demo1 3 = newWaitable" "nextId demo1 = 4"
  by (simp_all add: demo1_def runOf_def asyncNew_def newShared_def newEnd_def freshId_def onTable_def tableAdd_def emptyHeap_def
      emptyTable_def updShared_def run_simps bindM_def Let_def MAX_LENGTH_def)

lemma demo_read: "streamCopy E False True Readable None 0 0 1 0 4 demo1 = (Inr (Answer BLOCKED), demo2 E)"
  by (simp add: demo2_def runOf_def streamCopy_def copyChecks_def Let_def handlesGet_def tableGet_def asEnd_def newBuffer_def
      freshId_def run_simps bindM_def inWaitableSet_def newWaitable_def sameElemType_def endCopy_def sharedStreamRead_def
      setPending_def finishCopy_def hasPendingEvent_def updEnd_def updBuffer_def updShared_def BUFFER_MAX_LENGTH_def)

lemma demo2_simps [simp]:
  "mayLeave (demo2 E) 0" "handles (demo2 E) 0 = \<lparr>arr = [None, Some (EEnd 2), Some (EEnd 3)], free = []\<rparr>"
  "ends (demo2 E) 2 = \<lparr>ce_kind = StreamKind, ce_side = Readable, ce_state = COPYING, ce_shared = 1\<rparr>"
  "ends (demo2 E) 3 = \<lparr>ce_kind = StreamKind, ce_side = Writable, ce_state = IDLE, ce_shared = 1\<rparr>"
  "sh_t (shareds (demo2 E) (Suc 0)) = None" "sh_dropped (shareds (demo2 E) (Suc 0)) = False" "sh_pendingBuffer (shareds (demo2 E) (Suc 0)) = Some 4"
  "sh_pendingDone (shareds (demo2 E) (Suc 0)) = Some (GuestCopy EvSTREAM_READ 2 1 4)"
  "waitables (demo2 E) 2 = newWaitable" "waitables (demo2 E) 3 = newWaitable"
  by (simp_all add: demo2_def runOf_def streamCopy_def copyChecks_def Let_def handlesGet_def tableGet_def asEnd_def newBuffer_def
      freshId_def run_simps bindM_def inWaitableSet_def newWaitable_def sameElemType_def endCopy_def sharedStreamRead_def
      setPending_def finishCopy_def hasPendingEvent_def updEnd_def updBuffer_def updShared_def BUFFER_MAX_LENGTH_def)

lemma demo_reachable: "reachable E {} demo1" "reachable E {} (demo2 E)"
proof -
  show 1: "reachable E {} demo1" by (rule reachable.step [OF reachable.init stream_step.new [OF demo_new]])
  have "stream_step E {} demo1 (after {} 2 (Inr (Answer BLOCKED) :: error + CopyReturn)) (demo2 E)"
    by (rule stream_step.stream [OF _ _ _ demo_read]) (simp_all add: plainElem_def handleOf_def tableGet_def)
  then show "reachable E {} (demo2 E)" using reachable.step [OF 1] by (simp add: after_def)
qed

section \<open>No lost wakeup\<close>



section \<open>Packing\<close>

lemma packCopy_facts:
  assumes "p \<le> BUFFER_MAX_LENGTH"
  shows "packCopy r p = copyResultNum r + 16 * p" "packCopy r p mod 16 = copyResultNum r" "packCopy r p div 16 = p"
    "packCopy r p < BLOCKED"
    "ec = EvSTREAM_READ \<or> ec = EvSTREAM_WRITE \<Longrightarrow> supersede ec (packCopy COMPLETED p) = packCopy CANCELLED p"
proof -
  have r: "copyResultNum r < 16" "copyResultNum r \<le> 2" for r by (cases r; simp)+
  have p: "p < 2 ^ 28" using assms by (simp add: BUFFER_MAX_LENGTH_def)
  have eq: "packCopy r p = copyResultNum r + 16 * p" for r
    unfolding packCopy_def by (rule pack_arith [OF r(1) p])
  show "packCopy r p = copyResultNum r + 16 * p" by (rule eq)
  show "packCopy r p mod 16 = copyResultNum r" "packCopy r p div 16 = p" using r(1) [of r] by (simp_all add: eq)
  have "16 * p \<le> 16 * (2 ^ 28 - 1)" using p by simp
  then show "packCopy r p < BLOCKED" using r(2) [of r] by (simp add: eq BLOCKED_def)
  let ?w = "word_of_nat (16 * p) :: 32 word"
  have u: "unat ?w = 16 * p" using p by (simp add: unat_of_nat del: of_nat_mult)
  have lo: "and ?w 0xf = 0"
  proof -
    have "and ?w 0xf = take_bit 4 ?w" by (simp add: take_bit_eq_mask mask_eq_exp_minus_1)
    moreover have "unat (take_bit 4 ?w) = 0" by (simp only: unsigned_take_bit_eq u) (simp add: take_bit_eq_mod)
    ultimately show ?thesis by (metis unsigned_0 unat_eq_zero)
  qed
  have sh: "?w = push_bit 4 (word_of_nat p)" by (simp add: push_bit_eq_mult mult.commute)
  have hi: "and ?w (not 0xf) = ?w"
  proof (rule bit_word_eqI)
    fix n assume "n < LENGTH(32)"
    have "\<not> bit ?w n" if "n < 4" using that unfolding sh by (simp add: bit_push_bit_iff)
    moreover have "bit (0xf :: 32 word) n \<longleftrightarrow> n < 4"
      using bit_mask_iff [where 'a = "32 word", of 4 n] \<open>n < LENGTH(32)\<close> by (simp add: mask_eq_exp_minus_1)
    moreover have "bit (and ?w (not 0xf)) n \<longleftrightarrow> bit ?w n \<and> \<not> bit (0xf :: 32 word) n"
      using \<open>n < LENGTH(32)\<close> unfolding bit_and_iff bit_not_iff by simp
    ultimately show "bit (and ?w (not 0xf)) n = bit ?w n" by blast
  qed
  then have hi: "and ?w (- 16) = ?w" by simp
  have "unat (or (word_of_nat 2 :: 32 word) (push_bit 4 (word_of_nat p))) = 2 + 16 * p" by (rule pack_arith [OF _ p]) simp
  then have "unat (or ?w 2) = 2 + 16 * p" unfolding sh by (simp add: or.commute)
  then show "ec = EvSTREAM_READ \<or> ec = EvSTREAM_WRITE \<Longrightarrow> supersede ec (packCopy COMPLETED p) = packCopy CANCELLED p"
    by (auto simp: supersede_def eq lo hi simp del: of_nat_mult)
qed

text \<open>What a cancellation reports is never the value that means BLOCKED.\<close>

lemma supersede_small:
  assumes "x \<le> 2 \<or> (\<exists>r p. x = packCopy r p \<and> p \<le> BUFFER_MAX_LENGTH)"
  shows "supersede ec x < BLOCKED"
  using assms
proof
  assume "x \<le> 2"
  then consider "x = 0" | "x = 1" | "x = 2" by linarith
  then show ?thesis by cases (simp_all add: supersede_def BLOCKED_def)
next
  assume "\<exists>r p. x = packCopy r p \<and> p \<le> BUFFER_MAX_LENGTH"
  then obtain r p where x: "x = packCopy r p" and p: "p \<le> BUFFER_MAX_LENGTH" by blast
  note f = packCopy_facts [OF p]
  have lt: "x < 2 ^ 32" using f(4) [of r] by (simp add: x BLOCKED_def)
  have u: "unat (word_of_nat x :: 32 word) = x" using lt by (simp add: unat_of_nat)
  have "and (word_of_nat x) 0xf = (take_bit 4 (word_of_nat x) :: 32 word)"
    by (simp add: take_bit_eq_mask mask_eq_exp_minus_1)
  moreover have "unat (take_bit 4 (word_of_nat x) :: 32 word) = x mod 16"
    by (simp only: unsigned_take_bit_eq u) (simp add: take_bit_eq_mod)
  ultimately have low: "unat (and (word_of_nat x) 0xf :: 32 word) = copyResultNum r" using f(2) [of r] by (simp add: x)
  show ?thesis
  proof (cases "(ec = EvSTREAM_READ \<or> ec = EvSTREAM_WRITE) \<and> r = COMPLETED")
    case True
    then have "supersede ec x = packCopy CANCELLED p" unfolding x using f(5) by blast
    then show ?thesis using f(4) by simp
  next
    case False
    then have "copyResultNum r = copyResultNum COMPLETED \<Longrightarrow> ec \<noteq> EvSTREAM_READ \<and> ec \<noteq> EvSTREAM_WRITE" by (cases r) simp_all
    then have "supersede ec x = x" using low unfolding supersede_def by auto
    then show ?thesis using f(4) [of r] by (simp add: x)
  qed
qed

lemma takeCancel_small:
  assumes "takeCancelEvent n (copyCode k side) i what h = (Inr p, h')"
  shows "p < BLOCKED"
proof -
  obtain code index payload h1 where g: "getPendingEvent n h = (Inr (code, index, payload), h1)"
    and c: "code = copyCode k side" and p: "p = supersede (copyCode k side) payload"
    using assms by (auto simp: takeCancelEvent_def bindM_eq_Inr run_simps split: if_splits)
  obtain th h2 where "runThunk th h2 = (Inr (code, index, payload), h1)"
    using g by (auto simp: getPendingEvent_def run_simps split: option.splits)
  moreover have "code \<noteq> EvSUBTASK" using c by (cases k; cases side) (simp_all add: copyCode_def)
  ultimately have "payload \<le> 2 \<or> (\<exists>r q. payload = packCopy r q \<and> q \<le> BUFFER_MAX_LENGTH)"
  proof (cases th)
    case (StreamEvent ec m j b r rc)
    then show ?thesis using \<open>runThunk th h2 = _\<close>
      by (auto simp: runThunk_def streamEvent_def bindM_eq_Inr run_simps split: if_splits)
  next
    case (FutureEvent ec m j b r)
    then have "payload = copyResultNum r" using \<open>runThunk th h2 = _\<close>
      by (auto simp: runThunk_def futureEvent_def run_simps split: if_splits)
    then show ?thesis by (cases r) simp_all
  qed (auto simp: runThunk_def subtaskEvent_def bindM_eq_Inr run_simps)
  then show ?thesis unfolding p by (rule supersede_small)
qed

section \<open>Cancellation\<close>

lemma notified:
  assumes "sh_pendingDone (shareds h s) = Some (GuestCopy ec n i b)" "resetAndNotifyPending s r h = (Inr u, h')"
  shows "hasPendingEvent n h'"
proof -
  have "runOnCopyDone (GuestCopy ec n i b) r (snd (resetPending s h)) = (Inr u, h')"
    using assms(2) by (simp add: resetAndNotify_run [OF assms(1)])
  then show ?thesis by (rule runOnCopyDone_Inr) (simp add: hasPendingEvent_def updWaitable_fields)
qed

text \<open>A failure that is neither the empty rendezvous nor a request to block.\<close>

definition settled :: "error \<Rightarrow> bool" where
  "settled e \<longleftrightarrow> e \<noteq> AssertionError ''reset_and_notify_pending with nothing pending'' \<and> (\<forall>m. e \<noteq> Capability m)"

lemma settled_simps [simp]: "settled (Trap m)" "settled (AssertionError m) \<longleftrightarrow> m \<noteq> ''reset_and_notify_pending with nothing pending''"
  by (simp_all add: settled_def)

lemma report_settled: "errs (takeCancelEvent n ec i what) settled"
proof -
  have th: "errs (runThunk th) settled" for th
    unfolding runThunk_def streamEvent_def futureEvent_def subtaskEvent_def deliverResolve_def resolveDelivered_def resetPending_def
      setPending_def futureAbandonTrap_def
    by (cases th; simp only: Thunk.case) ((intro throws; simp)+)
  show ?thesis unfolding takeCancelEvent_def getPendingEvent_def by (intro throws th; simp)
qed

lemma report_answers:
  assumes "bindM (takeCancelEvent n (copyCode k side) i what) (\<lambda>x. returnM (Answer x)) h = (r, h')"
  shows "(\<forall>x. r = Inr x \<longrightarrow> (\<exists>p < BLOCKED. x = Answer p)) \<and> (\<forall>e. r = Inl e \<longrightarrow> settled e)"
proof (cases r)
  case (Inl e)
  have "errs (bindM (takeCancelEvent n (copyCode k side) i what) (\<lambda>x. returnM (Answer x))) settled"
    by (intro throws report_settled)
  from errsD [OF this assms [unfolded Inl]] show ?thesis by (simp add: Inl)
next
  case (Inr x)
  then show ?thesis using assms by (auto simp: bindM_eq_Inr run_simps dest: takeCancel_small)
qed

lemma cancelled_notified:
  assumes "sh_pendingDone (shareds h s) = Some (GuestCopy ec n i b)"
  obtains h1 where "sharedCancel s h = (Inr (), h1)" "hasPendingEvent n h1"
proof -
  have "\<exists>h1. sharedCancel s h = (Inr (), h1)"
    by (simp add: sharedCancel_def resetAndNotify_run [OF assms] runOnCopyDone_def setPendingEvent_def run_simps)
  then show thesis using that notified [OF assms] unfolding sharedCancel_def by blast
qed



section \<open>Dropping\<close>

lemma dropEnd_run:
  assumes "dropEnd k side elem ins i h = (Inr u, h')"
  obtains n h1 h2 where "tableGet i (handles h ins) = Inr (EEnd n)" "h1 = h\<lparr>handles := handles h1\<rparr>" "\<not> copying (ends h n)"
    "sharedDrop (ce_shared (ends h n)) h1 = (Inr (), h2)" "waitableDrop n h2 = (Inr u, h')"
proof -
  obtain ent h1 where rm: "onTable ins (tableRemove i) h = (Inr ent, h1)"
    and rest: "(bindM (asEnd ent k side (dropName k side @ '': wrong end type for this handle'')) (\<lambda>(n, e).
      bindM (getsM (\<lambda>h. sh_t (shareds h (ce_shared e)))) (\<lambda>t.
      bindM (trapIfM (\<not> sameElemType t elem) (dropName k side @ '': element type mismatch'')) (\<lambda>_.
      endDrop n)))) h1 = (Inr u, h')"
    using assms by (auto simp: dropEnd_def Let_def run_simps bindM_eq_Inr split: if_splits)
  obtain t where t: "tableRemove i (handles h ins) = (Inr ent, t)" "h1 = h\<lparr>handles := (handles h)(ins := t)\<rparr>"
    by (rule onTable_result [OF rm])
  obtain n where n: "ent = EEnd n" using rest by (cases ent) (auto simp: asEnd_def run_simps)
  have e: "ends h1 n = ends h n" by (simp add: t(2))
  have drop: "endDrop n h1 = (Inr u, h')"
    using rest n by (auto simp: asEnd_def run_simps split: if_splits)
  then have "\<not> copying (ends h n)" "bindM (sharedDrop (ce_shared (ends h n))) (\<lambda>_. waitableDrop n) h1 = (Inr u, h')"
    by (auto simp: endDrop_def copyEndDrop_def run_simps e split: if_splits)
  moreover have "tableGet i (handles h ins) = Inr (EEnd n)" using t(1) n by (simp add: tableRemove_def split: sum.splits)
  moreover have "h1 = h\<lparr>handles := handles h1\<rparr>" by (simp add: t(2))
  ultimately show thesis using that by (auto simp: bindM_eq_Inr)
qed

lemma waitableDrop_keeps:
  assumes "waitableDrop n h = (r, h')"
  shows "same_core h h'" and "w \<noteq> n \<Longrightarrow> waitables h' w = waitables h w" and "shareds h' = shareds h"
proof -
  have "stays same_core (waitableDrop n)" unfolding waitableDrop_def by (intro hoare waitableJoin_core)
  then show "same_core h h'" by (rule staysD) (rule assms)
  have "stays (\<lambda>h h'. (w \<noteq> n \<longrightarrow> waitables h' w = waitables h w) \<and> shareds h' = shareds h) (waitableDrop n)"
    unfolding waitableDrop_def waitableJoin_def
    by (intro stays_bind) (auto simp: stays_def run_simps bindM_def updWaitable_def updWset_def split: option.splits)
  then show "w \<noteq> n \<Longrightarrow> waitables h' w = waitables h w" "shareds h' = shareds h"
    unfolding stays_def using assms by (metis snd_conv)+
qed

text \<open>C15: Dropping one end wakes the other: when an end of a live stream or future is dropped while another end is parked on its
  shared object with its buffer, then afterwards the shared object is dropped with nothing parked, and the parked end has its event,
  which for a stream is the completion DROPPED with what was copied.  Nothing is assumed of how the state came about.\<close>

theorem drop_wakes_peer:
  assumes "dropEnd k side elem ins i h = (Inr u, h')"
    "tableGet i (handles h ins) = Inr (EEnd n)" "s = ce_shared (ends h n)" "\<not> sh_dropped (shareds h s)"
    "sh_pendingDone (shareds h s) = Some (GuestCopy ec m j b)" "sh_pendingBuffer (shareds h s) = Some b" "m \<noteq> n"
  shows "hasPendingEvent m h' \<and> sh_dropped (shareds h' s) \<and> sh_pendingDone (shareds h' s) = None \<and>
    (ec = EvSTREAM_READ \<or> ec = EvSTREAM_WRITE \<longrightarrow>
       pendingEvent (waitables h' m) = Some (StreamEvent ec m j b DROPPED None))"
proof -
  obtain n' h1 h2 where d: "tableGet i (handles h ins) = Inr (EEnd n')" "h1 = h\<lparr>handles := handles h1\<rparr>" "\<not> copying (ends h n')"
    "sharedDrop (ce_shared (ends h n')) h1 = (Inr (), h2)" "waitableDrop n' h2 = (Inr u, h')"
    by (rule dropEnd_run [OF assms(1)])
  have n: "n' = n" using d(1) assms(2) by simp
  have mn: "m \<noteq> n" by (rule assms(7))
  have sh: "shareds h1 = shareds h" by (subst d(2)) simp
  let ?h = "updShared s (\<lambda>x. x\<lparr>sh_dropped := True\<rparr>) h1"
  have sl: "sh_pendingDone (shareds ?h s) = Some (GuestCopy ec m j b)" using assms(5) by (simp add: updShared_def sh)
  have run: "resetAndNotifyPending s DROPPED ?h = (Inr (), h2)"
    using d(4) n assms(3,4,6) by (simp add: sharedDrop_def run_simps sh)
  have run2: "runOnCopyDone (GuestCopy ec m j b) DROPPED (snd (resetPending s ?h)) = (Inr (), h2)"
    using run by (simp add: resetAndNotify_run [OF sl])
  obtain th where th: "h2 = updWaitable m (\<lambda>x. x\<lparr>pendingEvent := Some th\<rparr>) (snd (resetPending s ?h))"
    by (rule runOnCopyDone_Inr [OF run2])
  note k = waitableDrop_keeps [OF d(5)]
  have w: "waitables h' m = waitables h2 m" "shareds h' = shareds h2" using k(2) [of m] k(3) mn n by simp_all
  have "sh_dropped (shareds h2 s)" "sh_pendingDone (shareds h2 s) = None"
    unfolding th by (simp_all add: updWaitable_fields resetPending_fields updShared_def)
  moreover have "hasPendingEvent m h2" unfolding th by (simp add: hasPendingEvent_def updWaitable_fields)
  moreover have "pendingEvent (waitables h2 m) = Some (StreamEvent ec m j b DROPPED None)" if "ec = EvSTREAM_READ \<or> ec = EvSTREAM_WRITE"
    using run2 that by (auto simp: runOnCopyDone_def setPendingEvent_def run_simps updWaitable_fields)
  ultimately show ?thesis using w by (simp add: hasPendingEvent_def)
qed

lemma demo_drop: "dropEnd StreamKind Writable None 0 2 (demo2 E) = (Inr (), runOf (dropEnd StreamKind Writable None 0 2) (demo2 E))"
  by (simp add: runOf_def dropEnd_def Let_def onTable_def tableRemove_def tableGet_def asEnd_def run_simps bindM_def sameElemType_def
      endDrop_def copyEndDrop_def copying_def sharedDrop_def updShared_def resetAndNotifyPending_def resetPending_def setPending_def
      runOnCopyDone_def setPendingEvent_def updWaitable_def waitableDrop_def waitableJoin_def newWaitable_def)

theorem drop_wakes_peer_witness:
  "pendingEvent (waitables (runOf (dropEnd StreamKind Writable None 0 2) (demo2 (\<lambda>_. cx0))) 2) =
     Some (StreamEvent EvSTREAM_READ 2 1 4 DROPPED None)"
  using drop_wakes_peer [OF demo_drop, where n = 3 and s = 1 and ec = EvSTREAM_READ and m = 2 and j = 1 and b = 4]
  by (simp add: tableGet_def)

section \<open>Answers\<close>

text \<open>The answer of a copy packs losslessly: the result is its low four bits and the number of
  elements copied the rest, it fits 32 bits and it is never the value that means BLOCKED; and
  superseding an undelivered completion by a cancellation changes the result and keeps the count.\<close>

lemma packCopy_lossless:
  assumes "p \<le> BUFFER_MAX_LENGTH"
  shows "packCopy r p = copyResultNum r + 16 * p \<and> packCopy r p mod 16 = copyResultNum r \<and> packCopy r p div 16 = p \<and>
    packCopy r p < BLOCKED \<and> supersede EvSTREAM_WRITE (packCopy COMPLETED p) = packCopy CANCELLED p"
  using packCopy_facts(1-4) [OF assms] packCopy_facts(5) [OF assms, of EvSTREAM_WRITE] by simp_all

lemma packCopy_lossless_witness: "packCopy CANCELLED 4 = 66 \<and> supersede EvSTREAM_WRITE (packCopy COMPLETED 4) = packCopy CANCELLED 4"
  using packCopy_lossless [of 4 CANCELLED] by (simp add: BUFFER_MAX_LENGTH_def)

section \<open>Futures\<close>

text \<open>A future is single-shot.  Delivering the completion of a copy makes its end DONE; a
  copy on a DONE end is refused with a trap that changes nothing; and the writable end of a future
  that has not written its value cannot be dropped.\<close>

lemma future_single_shot:
  "(futureEvent ec n i b COMPLETED h = (Inr ev, h') \<longrightarrow> ce_state (ends h' n) = DONE \<and> bufRemain (buffers h b) = 0) \<and>
   (mayLeave h ins \<and> tableGet j (handles h ins) = Inr (EEnd n) \<and> ce_kind (ends h n) = FutureKind \<and>
      ce_side (ends h n) = side \<and> sameElemType (sh_t (shareds h (ce_shared (ends h n)))) elem \<and> ce_state (ends h n) = DONE \<longrightarrow>
      futureCopy E jspi asyn side elem oi ins j ptr h = (Inl (Trap (doneMessage FutureKind side)), h)) \<and>
   (ce_kind (ends h n) = FutureKind \<and> ce_side (ends h n) = Writable \<and> ce_state (ends h n) \<noteq> DONE \<longrightarrow>
      endDrop n h = (Inl (Trap ''cannot drop future write end without first writing a value''), h))"
proof (intro conjI impI)
  assume "futureEvent ec n i b COMPLETED h = (Inr ev, h')"
  then show "ce_state (ends h' n) = DONE" "bufRemain (buffers h b) = 0"
    by (auto simp: futureEvent_def run_simps split: if_splits)
next
  assume "mayLeave h ins \<and> tableGet j (handles h ins) = Inr (EEnd n) \<and> ce_kind (ends h n) = FutureKind \<and>
      ce_side (ends h n) = side \<and> sameElemType (sh_t (shareds h (ce_shared (ends h n)))) elem \<and> ce_state (ends h n) = DONE"
  then show "futureCopy E jspi asyn side elem oi ins j ptr h = (Inl (Trap (doneMessage FutureKind side)), h)"
    by (simp add: futureCopy_def copyChecks_def Let_def run_simps bindM_def handlesGet_def asEnd_def)
next
  assume "ce_kind (ends h n) = FutureKind \<and> ce_side (ends h n) = Writable \<and> ce_state (ends h n) \<noteq> DONE"
  then show "endDrop n h = (Inl (Trap ''cannot drop future write end without first writing a value''), h)"
    by (simp add: endDrop_def run_simps)
qed

definition future0 :: heap where
  "future0 = emptyHeap\<lparr>ends := (\<lambda>_. \<lparr>ce_kind = FutureKind, ce_side = Writable, ce_state = COPYING, ce_shared = 0\<rparr>)\<rparr>"

lemma future_single_shot_witness:
  "ce_state (ends (snd (futureEvent EvFUTURE_WRITE 1 2 3 COMPLETED future0)) 1) = DONE \<and>
   endDrop 1 future0 = (Inl (Trap ''cannot drop future write end without first writing a value''), future0)"
proof -
  have e: "futureEvent EvFUTURE_WRITE 1 2 3 COMPLETED future0 =
      (Inr (EvFUTURE_WRITE, 2, 0), snd (futureEvent EvFUTURE_WRITE 1 2 3 COMPLETED future0))"
    by (simp add: futureEvent_def run_simps future0_def copying_def bufRemain_def emptyHeap_def)
  have d: "endDrop 1 future0 = (Inl (Trap ''cannot drop future write end without first writing a value''), future0)"
    using future_single_shot [of _ 1 _ _ future0] by (simp add: future0_def)
  show ?thesis using future_single_shot [of EvFUTURE_WRITE 1 2 3 future0 "(EvFUTURE_WRITE, 2, 0)"] e d by blast
qed

section \<open>The rendezvous\<close>

lemma bufRead_u8:
  assumes "buffers h p = x" "gb_t x = Some (TPrim KU8)" "memory (opts (E (gb_cx x))) = Some mem" "0 \<le> gb_ptr x"
    "int n \<le> bufRemain x" "nat (gb_ptr x) + n \<le> memLen mem h"
  shows "bufRead E p n h = (Inr (VBytes (slice (nat (gb_ptr x)) n (memBytes mem h))),
     updBuffer p (\<lambda>y. y\<lparr>gb_ptr := gb_ptr y + int n, gb_progress := gb_progress y + n\<rparr>) h)"
proof -
  have m: "memory (opts (bufferContext E x)) = Some mem" using assms(3) by (simp add: bufferContext_def copyContext_def)
  have "loadListFromValidRange (bufferContext E x) (nat (gb_ptr x)) n (TPrim KU8) h =
      (Inr (VBytes (slice (nat (gb_ptr x)) n (memBytes mem h))), h)"
    using assms(6) by (simp add: loadListFromValidRange.simps bindM_needMemory [OF m] bytesOf_def run_simps despecialize.simps)
  then show ?thesis using assms
    by (simp add: bufRead_def run_simps ptrIndex_def bindM_run_Inr advance_def elemSize.simps despecialize.simps)
      (simp add: bindM_def needMemory_run [OF m] run_simps elemSize.simps despecialize.simps)
qed

lemma bufWrite_u8:
  assumes "buffers h d = y" "gb_t y = Some (TPrim KU8)" "memory (opts (E (gb_cx y))) = Some mem" "0 \<le> gb_ptr y"
    "int (length bs) \<le> bufRemain y" "nat (gb_ptr y) + length bs \<le> memLen mem h"
  shows "bufWrite E d (VBytes bs) h = (Inr (),
     updBuffer d (\<lambda>y. y\<lparr>gb_ptr := gb_ptr y + int (length bs), gb_progress := gb_progress y + length bs\<rparr>)
       (setMem mem (splice (nat (gb_ptr y)) bs (memBytes mem h)) h))"
proof -
  have m: "memory (opts (bufferContext E y)) = Some mem" using assms(3) by (simp add: bufferContext_def copyContext_def)
  obtain xs where xs: "chunkElems (VBytes bs) = Inr xs" "length xs = length bs"
    by (rule that [of "map (\<lambda>b. VNum (uint b)) bs"]) (simp_all add: chunkElems_def)
  have "storeListIntoValidRange (bufferContext E y) (VBytes bs) xs (nat (gb_ptr y)) (TPrim KU8) h =
      (Inr (), setMem mem (splice (nat (gb_ptr y)) bs (memBytes mem h)) h)"
    using assms(6) xs(2)
    by (simp add: storeListIntoValidRange.simps bindM_needMemory [OF m] storeU8List_def bytesOf_def pokeBytes_def run_simps despecialize.simps)
  then show ?thesis using assms xs
    by (simp add: bufWrite_def run_simps ptrIndex_def bindM_run_Inr advance_def)
      (simp add: bindM_def needMemory_run [OF m] run_simps elemSize.simps despecialize.simps)
qed

text \<open>C30: A reader of bytes that meets a parked writer takes \<open>min\<close> of what the two still have: those
  bytes of the writer's memory are then in the reader's memory at its cursor and nothing else of
  that memory changed, both cursors and both counts advanced by that number, the reader has
  its completion and the writer an event that releases its slot when delivered.\<close>

theorem byte_rendezvous:
  fixes h :: "'g heap_scheme"
  assumes "\<not> sh_dropped (shareds h s)" "sh_t (shareds h s) = Some (TPrim KU8)"
    "sh_pendingBuffer (shareds h s) = Some p" "sh_pendingDone (shareds h s) = Some (GuestCopy wc m j p)"
    "gb_t (buffers h p) = Some (TPrim KU8)" "gb_t (buffers h d) = Some (TPrim KU8)" "p \<noteq> d" "m \<noteq> k" "rc = EvSTREAM_READ"
    "memory (opts (E (gb_cx (buffers h p)))) = Some mp" "memory (opts (E (gb_cx (buffers h d)))) = Some md"
    "0 \<le> gb_ptr (buffers h p)" "0 \<le> gb_ptr (buffers h d)" "0 < bufRemain (buffers h p)" "0 < bufRemain (buffers h d)"
    "n = nat (min (bufRemain (buffers h d)) (bufRemain (buffers h p)))"
    "nat (gb_ptr (buffers h p)) + n \<le> memLen mp h" "nat (gb_ptr (buffers h d)) + n \<le> memLen md h"
  shows "\<exists>h'. sharedStreamRead E s ins d (GuestCopy rc k i d) h = (Inr (), h') \<and>
    memBytes md h' = splice (nat (gb_ptr (buffers h d))) (slice (nat (gb_ptr (buffers h p))) n (memBytes mp h)) (memBytes md h) \<and>
    gb_progress (buffers h' p) = gb_progress (buffers h p) + n \<and> gb_progress (buffers h' d) = gb_progress (buffers h d) + n \<and>
    gb_ptr (buffers h' p) = gb_ptr (buffers h p) + int n \<and> gb_ptr (buffers h' d) = gb_ptr (buffers h d) + int n \<and>
    pendingEvent (waitables h' k) = Some (StreamEvent EvSTREAM_READ k i d COMPLETED None) \<and>
    pendingEvent (waitables h' m) = Some (StreamEvent wc m j p COMPLETED (Some s)) \<and>
    sh_pendingDone (shareds h' s) = Some (GuestCopy wc m j p)"
proof -
  let ?x = "buffers h p" and ?y = "buffers h d"
  define bs where "bs = slice (nat (gb_ptr ?x)) n (memBytes mp h)"
  have lbs: "length bs = n" using assms(17) by (simp add: bs_def memLen_def)
  have n: "int n \<le> bufRemain ?x" "int n \<le> bufRemain ?y" using assms(14-16) by simp_all
  define h1 where "h1 = updBuffer p (\<lambda>y. y\<lparr>gb_ptr := gb_ptr y + int n, gb_progress := gb_progress y + n\<rparr>) h"
  have rd: "bufRead E p n h = (Inr (VBytes bs), h1)"
    unfolding bs_def h1_def by (rule bufRead_u8) (use assms n in simp_all)
  have h1: "buffers h1 d = ?y" "memBytes md h1 = memBytes md h" "memLen md h1 = memLen md h" "shareds h1 = shareds h"
    using assms(7) by (simp_all add: h1_def updBuffer_def memBytes_def memLen_def)
  define h2 where "h2 = updBuffer d (\<lambda>y. y\<lparr>gb_ptr := gb_ptr y + int n, gb_progress := gb_progress y + n\<rparr>)
       (setMem md (splice (nat (gb_ptr ?y)) bs (memBytes md h)) h1)"
  have wr: "bufWrite E d (VBytes bs) h1 = (Inr (), h2)"
    using bufWrite_u8 [of h1 d ?y E md bs] assms n h1 lbs by (simp add: h2_def)
  have h2: "shareds h2 = shareds h" by (simp add: h2_def h1 updBuffer_def setMem_def)
  define h3 where "h3 = updWaitable k (\<lambda>x. x\<lparr>pendingEvent := Some (StreamEvent EvSTREAM_READ k i d COMPLETED None)\<rparr>)
      (updWaitable m (\<lambda>x. x\<lparr>pendingEvent := Some (StreamEvent wc m j p COMPLETED (Some s))\<rparr>) h2)"
  have same: "sameElemType (Some (TPrim KU8)) (Some (TPrim KU8))" by (simp add: sameElemType_def)
  have run: "sharedStreamRead E s ins d (GuestCopy rc k i d) h = (Inr (), h3)"
    using assms(1-6,9,14,15) same
    by (simp add: sharedStreamRead_def run_simps assertSameElems_def trapOnSameInstance_def noneOrNumberType_def despecialize.simps
        bindM_run_Inr [where m = "bufRead E p n", OF rd] bindM_run_Inr [where m = "bufWrite E d (VBytes bs)", OF wr] assms(16) [symmetric] h2 pendingOf_def runOnCopy_def setPendingEvent_def
        runOnCopyDone_def h3_def) (simp add: bindM_def run_simps)
  have "memBytes md h3 = splice (nat (gb_ptr ?y)) bs (memBytes md h)"
    by (simp add: h3_def h2_def updWaitable_def updBuffer_def setMem_def memBytes_def)
  moreover have "buffers h3 = buffers h2" "buffers h2 p = ?x\<lparr>gb_ptr := gb_ptr ?x + int n, gb_progress := gb_progress ?x + n\<rparr>"
    "buffers h2 d = ?y\<lparr>gb_ptr := gb_ptr ?y + int n, gb_progress := gb_progress ?y + n\<rparr>"
    using assms(7) by (simp_all add: h3_def updWaitable_def h2_def h1_def updBuffer_def setMem_def)
  moreover have "pendingEvent (waitables h3 k) = Some (StreamEvent EvSTREAM_READ k i d COMPLETED None)"
    "pendingEvent (waitables h3 m) = Some (StreamEvent wc m j p COMPLETED (Some s))" "shareds h3 = shareds h"
    using assms(8) by (simp_all add: h3_def updWaitable_def h2)
  ultimately show ?thesis using run assms(4) by (intro exI [of _ h3]) (simp add: bs_def)
qed

text \<open>Two instances with one memory each: instance 0 has a writer of four bytes parked at address 2, instance 1 reads three to address 5.\<close>

definition byteCx :: "nat \<Rightarrow> heap Context" where
  "byteCx oi = cx0\<lparr>opts := (opts cx0)\<lparr>memory := Some \<lparr>memId = oi, addrType = I32, mBase = 0\<rparr>\<rparr>\<rparr>"

definition bytes0 :: heap where
  "bytes0 = emptyHeap\<lparr>mems := (\<lambda>_. replicate 8 0)(0 := [1, 2, 3, 4, 5, 6, 7, 8]),
     shareds := (\<lambda>_. \<lparr>sh_kind = StreamKind, sh_t = Some (TPrim KU8), sh_dropped = False, sh_abandon = None, sh_poisonFailure = None,
        sh_pendingInst = Some 0, sh_pendingBuffer = Some 4, sh_pendingDone = Some (GuestCopy EvSTREAM_WRITE 2 1 4), sh_boundStore = None\<rparr>),
     buffers := (\<lambda>_. \<lparr>gb_t = Some (TPrim KU8), gb_cx = 1, gb_inst = 1, gb_ptr = 5, gb_length = 3, gb_progress = 0\<rparr>)
       (4 := \<lparr>gb_t = Some (TPrim KU8), gb_cx = 0, gb_inst = 0, gb_ptr = 2, gb_length = 4, gb_progress = 0\<rparr>)\<rparr>"

theorem byte_rendezvous_witness:
  "\<exists>h'. sharedStreamRead byteCx 1 1 5 (GuestCopy EvSTREAM_READ 3 1 5) bytes0 = (Inr (), h') \<and>
     mems h' 1 = [0, 0, 0, 0, 0, 3, 4, 5] \<and> gb_progress (buffers h' 4) = 3"
proof -
  let ?m0 = "\<lparr>memId = 0, addrType = I32, mBase = 0\<rparr>" and ?m1 = "\<lparr>memId = 1, addrType = I32, mBase = 0\<rparr>"
  have "\<exists>h'. sharedStreamRead byteCx 1 1 5 (GuestCopy EvSTREAM_READ 3 1 5) bytes0 = (Inr (), h') \<and>
    memBytes ?m1 h' = splice (nat (gb_ptr (buffers bytes0 5))) (slice (nat (gb_ptr (buffers bytes0 4))) 3 (memBytes ?m0 bytes0)) (memBytes ?m1 bytes0) \<and>
    gb_progress (buffers h' 4) = gb_progress (buffers bytes0 4) + 3 \<and> gb_progress (buffers h' 5) = gb_progress (buffers bytes0 5) + 3 \<and>
    gb_ptr (buffers h' 4) = gb_ptr (buffers bytes0 4) + int 3 \<and> gb_ptr (buffers h' 5) = gb_ptr (buffers bytes0 5) + int 3 \<and>
    pendingEvent (waitables h' 3) = Some (StreamEvent EvSTREAM_READ 3 1 5 COMPLETED None) \<and>
    pendingEvent (waitables h' 2) = Some (StreamEvent EvSTREAM_WRITE 2 1 4 COMPLETED (Some 1)) \<and>
    sh_pendingDone (shareds h' 1) = Some (GuestCopy EvSTREAM_WRITE 2 1 4)"
    by (rule byte_rendezvous) (simp_all add: bytes0_def byteCx_def bufRemain_def memLen_def memBytes_def)
  moreover have "splice (nat (gb_ptr (buffers bytes0 5))) (slice (nat (gb_ptr (buffers bytes0 4))) 3 (memBytes ?m0 bytes0)) (memBytes ?m1 bytes0) =
      [0, 0, 0, 0, 0, 3, 4, 5]"
    by (simp add: bytes0_def memBytes_def splice_def slice_def numeral_eq_Suc)
  moreover have "gb_progress (buffers bytes0 4) = 0" by (simp add: bytes0_def)
  moreover have "memBytes ?m1 h' = mems h' 1" for h' :: heap by (simp add: memBytes_def)
  ultimately show ?thesis by auto
qed

section \<open>Teardown\<close>

lemma resetAndNotify_frees:
  assumes "resetAndNotifyPending s r h = (q, h')" "sh_pendingDone (shareds h s) \<noteq> None"
  shows "shareds h' = shareds (snd (resetPending s h))"
proof -
  obtain cb where cb: "sh_pendingDone (shareds h s) = Some cb" using assms(2) by auto
  have "stays (\<lambda>h h'. shareds h' = shareds h) (runOnCopyDone cb r)"
    unfolding runOnCopyDone_def setPendingEvent_def
    by (cases cb) (auto intro!: stays_bind simp: stays_def run_simps updWaitable_fields bindM_def split: option.splits)
  then show ?thesis using assms(1) unfolding resetAndNotify_run [OF cb] stays_def by (metis snd_conv)
qed

definition slots_ok :: "'g heap_scheme \<Rightarrow> bool" where
  "slots_ok h \<longleftrightarrow> (\<forall>s. sh_pendingDone (shareds h s) = None \<longleftrightarrow> sh_pendingBuffer (shareds h s) = None)"

definition gone :: "Shared \<Rightarrow> bool" where
  "gone x \<longleftrightarrow> sh_dropped x \<and> sh_pendingDone x = None \<and> sh_pendingBuffer x = None"

text \<open>However it ends, the teardown of one shared object leaves it dropped and free.\<close>

lemma teardown_one:
  assumes "dropSharedForTeardown s h = (q, h')" "slots_ok h"
  shows "slots_ok h'" "\<not> sh_dropped (shareds h s) \<Longrightarrow> gone (shareds h' s)" "t \<noteq> s \<Longrightarrow> shareds h' t = shareds h t"
    "sh_dropped (shareds h s) \<Longrightarrow> h' = h"
proof -
  let ?h = "updShared s (\<lambda>x. x\<lparr>sh_dropped := True\<rparr>) h"
  have eq: "shareds h' = (if sh_dropped (shareds h s) then shareds h
      else if sh_pendingBuffer (shareds h s) = None then shareds ?h else shareds (snd (resetPending s ?h)))"
  proof (cases "sh_dropped (shareds h s) \<or> sh_pendingBuffer (shareds h s) = None")
    case True
    then show ?thesis using assms(1) by (auto simp: dropSharedForTeardown_def run_simps)
  next
    case False
    then have p: "sh_pendingDone (shareds ?h s) \<noteq> None" using assms(2) by (auto simp: updShared_def slots_ok_def)
    have "(q, h') = resetPending s ?h \<or> resetAndNotifyPending s DROPPED ?h = (q, h')"
      using assms(1) False by (auto simp: dropSharedForTeardown_def run_simps split: if_splits)
    then show ?thesis
    proof
      assume "(q, h') = resetPending s ?h"
      then show ?thesis using False by (metis snd_conv)
    next
      assume "resetAndNotifyPending s DROPPED ?h = (q, h')"
      then show ?thesis using False resetAndNotify_frees [OF _ p] by auto
    qed
  qed
  show "\<not> sh_dropped (shareds h s) \<Longrightarrow> gone (shareds h' s)"
    using assms(2) by (auto simp: eq gone_def slots_ok_def updShared_def resetPending_fields)
  show "t \<noteq> s \<Longrightarrow> shareds h' t = shareds h t" by (simp add: eq updShared_def resetPending_fields)
  show "slots_ok h'" using assms(2) by (auto simp: eq slots_ok_def updShared_def resetPending_fields)
  show "sh_dropped (shareds h s) \<Longrightarrow> h' = h" using assms(1) by (simp add: dropSharedForTeardown_def run_simps)
qed

lemma teardown_all:
  assumes "retireAll ss first h = (q, h')" "slots_ok h"
  shows "(\<forall>s \<in> set ss. sh_dropped (shareds h' s) \<and> (\<not> sh_dropped (shareds h s) \<longrightarrow> gone (shareds h' s))) \<and>
    (\<forall>t. sh_dropped (shareds h t) \<or> t \<notin> set ss \<longrightarrow> shareds h' t = shareds h t) \<and> (\<exists>e. q = Inr e)"
  using assms
proof (induction ss arbitrary: first h)
  case Nil
  then show ?case by (auto simp: run_simps)
next
  case (Cons s ss)
  obtain q1 h1 where d: "dropSharedForTeardown s h = (q1, h1)" by (cases "dropSharedForTeardown s h")
  note one = teardown_one [OF d Cons.prems(2)]
  obtain f where r: "retireAll ss f h1 = (q, h')" using Cons.prems(1) d by (cases q1) auto
  note ih = Cons.IH [OF r one(1)]
  have dr: "sh_dropped (shareds h1 s)" using one(2,4) by (cases "sh_dropped (shareds h s)") (auto simp: gone_def)
  then have s: "shareds h' s = shareds h1 s" using ih by blast
  have "shareds h1 t = shareds h t" if "sh_dropped (shareds h t)" for t
    using that one(3,4) by (cases "t = s") auto
  then show ?case using ih one(2,3) s dr by (auto; metis)
qed

lemma teardown_keeps: "stays (\<lambda>h h'. retired h' = retired h \<and> (\<forall>t. sh_abandon (shareds h' t) = sh_abandon (shareds h t))) (dropSharedForTeardown s)"
  unfolding dropSharedForTeardown_def resetAndNotifyPending_def resetPending_def setPending_def runOnCopyDone_def setPendingEvent_def
  by (intro stays_bind core_if)
    (auto intro!: stays_bind simp: stays_def run_simps updShared_def updWaitable_def bindM_def split: option.splits CopyCallback.splits)

lemma teardown_all_keeps:
  "retireAll ss first h = (q, h') \<Longrightarrow> retired h' = retired h \<and> (\<forall>t. sh_abandon (shareds h' t) = sh_abandon (shareds h t))"
proof (induction ss arbitrary: first h)
  case (Cons s ss)
  obtain q1 h1 where d: "dropSharedForTeardown s h = (q1, h1)" by (cases "dropSharedForTeardown s h")
  obtain f where r: "retireAll ss f h1 = (q, h')" using Cons.prems d by (cases q1) auto
  have "retired h1 = retired h \<and> (\<forall>t. sh_abandon (shareds h1 t) = sh_abandon (shareds h t))"
    using teardown_keeps [of s] d unfolding stays_def by (metis snd_conv)
  then show ?case using Cons.IH [OF r] by simp
qed (auto simp: run_simps)

definition owed :: "CopyEnd \<Rightarrow> bool" where
  "owed e \<longleftrightarrow> ce_kind e = FutureKind \<and> ce_side e = Writable \<and> ce_state e \<noteq> DONE"

text \<open>The first pass touches the failure and the abandonment only, and marks every future owed a value.\<close>

lemma mark_all:
  assumes "h' = fold (markPoisoned ins) es h"
  shows "retired h' = retired h" "sh_dropped (shareds h' s) = sh_dropped (shareds h s)"
    "sh_pendingDone (shareds h' s) = sh_pendingDone (shareds h s)" "sh_pendingBuffer (shareds h' s) = sh_pendingBuffer (shareds h s)"
    "sh_abandon (shareds h s) \<noteq> None \<Longrightarrow> sh_abandon (shareds h' s) \<noteq> None"
    "e \<in> set es \<Longrightarrow> owed e \<Longrightarrow> \<not> sh_dropped (shareds h (ce_shared e)) \<Longrightarrow> sh_abandon (shareds h' (ce_shared e)) \<noteq> None"
proof -
  have "retired h' = retired h \<and> (\<forall>s. sh_dropped (shareds h' s) = sh_dropped (shareds h s) \<and>
    sh_pendingDone (shareds h' s) = sh_pendingDone (shareds h s) \<and> sh_pendingBuffer (shareds h' s) = sh_pendingBuffer (shareds h s) \<and>
    (sh_abandon (shareds h s) \<noteq> None \<longrightarrow> sh_abandon (shareds h' s) \<noteq> None)) \<and>
    (\<forall>e \<in> set es. owed e \<longrightarrow> \<not> sh_dropped (shareds h (ce_shared e)) \<longrightarrow> sh_abandon (shareds h' (ce_shared e)) \<noteq> None)"
    using assms
  proof (induction es arbitrary: h)
    case (Cons e es)
    have one: "retired (markPoisoned ins e h) = retired h"
      "sh_dropped (shareds (markPoisoned ins e h) s) = sh_dropped (shareds h s)"
      "sh_pendingDone (shareds (markPoisoned ins e h) s) = sh_pendingDone (shareds h s)"
      "sh_pendingBuffer (shareds (markPoisoned ins e h) s) = sh_pendingBuffer (shareds h s)"
      "sh_abandon (shareds h s) \<noteq> None \<Longrightarrow> sh_abandon (shareds (markPoisoned ins e h) s) \<noteq> None"
      "owed e \<Longrightarrow> \<not> sh_dropped (shareds h (ce_shared e)) \<Longrightarrow> sh_abandon (shareds (markPoisoned ins e h) (ce_shared e)) \<noteq> None" for s
      by (auto simp: markPoisoned_def updShared_def Let_def owed_def)
    have "h' = fold (markPoisoned ins) es (markPoisoned ins e h)" using Cons.prems by simp
    note ih = Cons.IH [OF this]
    show ?case using ih one by (auto; metis)
  qed simp
  then show "retired h' = retired h" "sh_dropped (shareds h' s) = sh_dropped (shareds h s)"
    "sh_pendingDone (shareds h' s) = sh_pendingDone (shareds h s)" "sh_pendingBuffer (shareds h' s) = sh_pendingBuffer (shareds h s)"
    "sh_abandon (shareds h s) \<noteq> None \<Longrightarrow> sh_abandon (shareds h' s) \<noteq> None"
    "e \<in> set es \<Longrightarrow> owed e \<Longrightarrow> \<not> sh_dropped (shareds h (ce_shared e)) \<Longrightarrow> sh_abandon (shareds h' (ce_shared e)) \<noteq> None"
    by blast+
qed

lemma marks_kind: "ends (fold (markPoisoned ins) es h) = ends h \<and> (\<forall>t. sh_kind (shareds (fold (markPoisoned ins) es h) t) = sh_kind (shareds h t))"
proof (induction es arbitrary: h)
  case (Cons e es)
  then show ?case by (simp add: markPoisoned_def Let_def updShared_def)
qed simp

text \<open>A living end of another instance that is parked on \<open>s\<close>; a future's reader only if the end \<open>e\<close> on which the instance is
  torn down is the writable end that owes it the value.\<close>

definition livePeer :: "nat \<Rightarrow> CopyEnd \<Rightarrow> nat \<Rightarrow> 'g heap_scheme \<Rightarrow> bool" where
  "livePeer ins e m h \<longleftrightarrow>
     (let sh = shareds h (ce_shared e) in
      case (sh_pendingDone sh, sh_pendingInst sh) of
        (Some (GuestCopy ec m' j b), Some i) \<Rightarrow>
          m' = m \<and> i \<noteq> ins \<and> \<not> isInstancePoisoned i h \<and> \<not> retired h i \<and>
          (ec = EvSTREAM_READ \<or> ec = EvSTREAM_WRITE \<or> ec = EvFUTURE_WRITE \<or>
           ec = EvFUTURE_READ \<and> owed e \<and> sh_kind sh = FutureKind \<and> ce_shared (ends h m) = ce_shared e)
      | _ \<Rightarrow> False)"

text \<open>The walk keeps what it needs to know of the objects still to come, and an event once set stays.\<close>

definition walkKeep :: "'g heap_scheme \<Rightarrow> 'g heap_scheme \<Rightarrow> bool" where
  "walkKeep h h' \<longleftrightarrow>
     ends h' = ends h \<and> poisonCause h' = poisonCause h \<and> retired h' = retired h \<and>
     (\<forall>t. sh_kind (shareds h' t) = sh_kind (shareds h t) \<and> sh_abandon (shareds h' t) = sh_abandon (shareds h t)) \<and>
     (\<forall>m. hasPendingEvent m h \<longrightarrow> hasPendingEvent m h')"

lemma walkKeep_refl [simp]: "walkKeep h h"
  by (simp add: walkKeep_def)

lemma walkKeep_trans: "walkKeep a b \<Longrightarrow> walkKeep b c \<Longrightarrow> walkKeep a c"
  by (simp add: walkKeep_def)

lemma walk_basic: "stays walkKeep (returnM x)" "stays walkKeep (throwM e)" "stays walkKeep (getsM g)" "stays walkKeep (assertM c msg)"
  by (simp_all add: stays_def run_simps)

lemma walk_modify: "(\<And>h. walkKeep h (f h)) \<Longrightarrow> stays walkKeep (modifyM f)"
  by (simp add: stays_def run_simps)

lemma walk_updates:
  "walkKeep h (updWaitable n (\<lambda>x. x\<lparr>pendingEvent := Some th\<rparr>) h)" "walkKeep h (updShared s (\<lambda>x. x\<lparr>sh_dropped := True\<rparr>) h)"
  "walkKeep h (updShared s (\<lambda>x. x\<lparr>sh_pendingInst := i, sh_pendingBuffer := b, sh_pendingDone := cb\<rparr>) h)"
  by (simp_all add: walkKeep_def updWaitable_def updShared_def hasPendingEvent_def)

lemma walk_one: "stays walkKeep (dropSharedForTeardown s)"
  unfolding dropSharedForTeardown_def resetAndNotifyPending_def resetPending_def setPending_def runOnCopyDone_def setPendingEvent_def
  by (auto intro!: stays_bind [where R = walkKeep, OF _ _ walkKeep_trans] walk_basic walk_modify walk_updates split: option.splits CopyCallback.splits)

lemma walk_all: "retireAll ss first h = (q, h') \<Longrightarrow> walkKeep h h'"
proof (induction ss arbitrary: first h)
  case (Cons s ss)
  obtain q1 h1 where d: "dropSharedForTeardown s h = (q1, h1)" by (cases "dropSharedForTeardown s h")
  obtain f where r: "retireAll ss f h1 = (q, h')" using Cons.prems d by (cases q1) auto
  show ?case using walkKeep_trans [OF staysD [OF walk_one d] Cons.IH [OF r]] .
qed (auto simp: run_simps)

lemma teardown_tells:
  assumes "dropSharedForTeardown s h = (q, h')" "livePeer ins e m h" "s = ce_shared e" "slots_ok h" "\<not> sh_dropped (shareds h s)"
    "owed e \<longrightarrow> sh_abandon (shareds h s) \<noteq> None"
  shows "hasPendingEvent m h'"
proof -
  let ?h = "updShared s (\<lambda>x. x\<lparr>sh_dropped := True\<rparr>) h"
  obtain ec j b i where p: "sh_pendingDone (shareds h s) = Some (GuestCopy ec m j b)" "sh_pendingInst (shareds h s) = Some i"
    "\<not> isInstancePoisoned i h" "\<not> retired h i" "ec = EvSTREAM_READ \<or> ec = EvSTREAM_WRITE \<or> ec = EvFUTURE_WRITE \<or>
       ec = EvFUTURE_READ \<and> owed e \<and> sh_kind (shareds h s) = FutureKind \<and> ce_shared (ends h m) = s"
    using assms(2,3) by (auto simp: livePeer_def Let_def split: option.splits CopyCallback.splits)
  have "sh_pendingBuffer (shareds h s) \<noteq> None" using p(1) assms(4) by (metis option.distinct(1) slots_ok_def)
  then have f: "(sh_pendingBuffer (shareds h s) = None) = False" "sh_dropped (shareds h s) = False" using assms(5) by auto
  have sl: "sh_pendingDone (shareds ?h s) = Some (GuestCopy ec m j b)" using p(1) by (simp add: updShared_def)
  have "isInstancePoisoned i ?h = isInstancePoisoned i h" "retired ?h i = retired h i" by (simp_all add: isInstancePoisoned_def updShared_def)
  then have run: "resetAndNotifyPending s DROPPED ?h = (q, h')"
    using assms(1) p(2-4) f by (simp add: dropSharedForTeardown_def run_simps)
  let ?g = "snd (resetPending s ?h)"
  have "\<exists>th. runOnCopyDone (GuestCopy ec m j b) DROPPED ?g = (Inr (), updWaitable m (\<lambda>x. x\<lparr>pendingEvent := Some th\<rparr>) ?g)"
    using p(5)
  proof (elim disjE conjE)
    assume a: "ec = EvFUTURE_READ" "owed e" "sh_kind (shareds h s) = FutureKind" "ce_shared (ends h m) = s"
    obtain reason where "sh_abandon (shareds h s) = Some reason" using assms(6) a(2) by auto
    then have "abandonReasonOf (shareds ?g (ce_shared (ends ?g m))) = Some reason"
      using a(3,4) by (simp add: abandonReasonOf_def resetPending_fields updShared_def)
    then show ?thesis using a(1) by (simp add: runOnCopyDone_def setPendingEvent_def run_simps) blast
  qed (simp add: runOnCopyDone_def setPendingEvent_def run_simps; blast)+
  then have "q = Inr ()" "\<exists>th. h' = updWaitable m (\<lambda>x. x\<lparr>pendingEvent := Some th\<rparr>) ?g"
    using run by (auto simp: resetAndNotify_run [OF sl])
  then show ?thesis by (auto simp: hasPendingEvent_def updWaitable_fields)
qed

lemma livePeer_keep:
  assumes "livePeer ins e m h" "walkKeep h h'" "shareds h' (ce_shared e) = shareds h (ce_shared e)"
  shows "livePeer ins e m h'"
proof -
  have e: "isInstancePoisoned i h' = isInstancePoisoned i h" "retired h' = retired h" "ends h' = ends h" for i
    using assms(2) by (simp_all add: walkKeep_def isInstancePoisoned_def)
  show ?thesis using assms(1) unfolding livePeer_def e assms(3) .
qed

lemma walk_tells:
  assumes "retireAll ss first h = (q, h')" "slots_ok h" "livePeer ins e m h" "ce_shared e \<in> set ss" "\<not> sh_dropped (shareds h (ce_shared e))"
    "owed e \<longrightarrow> sh_abandon (shareds h (ce_shared e)) \<noteq> None"
  shows "hasPendingEvent m h'"
  using assms
proof (induction ss arbitrary: first h)
  case (Cons s ss)
  obtain q1 h1 where d: "dropSharedForTeardown s h = (q1, h1)" by (cases "dropSharedForTeardown s h")
  obtain f where r: "retireAll ss f h1 = (q, h')" using Cons.prems(1) d by (cases q1) auto
  note one = teardown_one [OF d Cons.prems(2)] and k = staysD [OF walk_one d]
  show ?case
  proof (cases "s = ce_shared e")
    case True
    then have "hasPendingEvent m h1" using teardown_tells [OF d Cons.prems(3) True Cons.prems(2)] Cons.prems(5,6) by simp
    then show ?thesis using walk_all [OF r] by (simp add: walkKeep_def)
  next
    case False
    then have sh: "shareds h1 (ce_shared e) = shareds h (ce_shared e)" using one(3) by metis
    show ?thesis
      by (rule Cons.IH [OF r one(1) livePeer_keep [OF Cons.prems(3) k sh]]) (use Cons.prems(4-6) False sh in auto)
  qed
qed simp

text \<open>Every reachable state has slots that hold a callback and a buffer together.\<close>

lemma reachable_slots: "reachable E F h \<Longrightarrow> slots_ok h"
  using reachable_inv [of E F h] slot_empty by (auto simp: slots_ok_def stream_inv_def)

text \<open>C17: A poisoned instance strands nobody.  From any state in which the slots of shared objects hold a callback and a buffer
  together (\<open>slots_ok\<close>; nothing else is asked of what happened before, so the trap that poisoned the instance may have left
  anything behind, and other instances may have been poisoned earlier), retiring the instance's ends leaves every stream and
  future it held an end of dropped with nothing parked, even when notifying one of the peers throws; the end of a living instance that was
  parked there has an event to wake it, a future's reader when the dead instance held the writable end; every future on which it owed a value is marked abandoned, so
  that its reader will trap; and the walk is done once.\<close>

theorem poison_releases_peers:
  assumes "slots_ok h" "\<not> retired h ins" "retireInstanceAsyncEnds ins h = (q, h')"
    "n \<in> set (tableEnds (handles h ins))" "e = ends h n" "s = ce_shared e"
  shows "sh_dropped (shareds h' s) \<and>
    (\<not> sh_dropped (shareds h s) \<longrightarrow> sh_pendingDone (shareds h' s) = None \<and> sh_pendingBuffer (shareds h' s) = None) \<and>
    (\<not> sh_dropped (shareds h s) \<and> livePeer ins e m h \<longrightarrow> hasPendingEvent m h') \<and>
    (ce_kind e = FutureKind \<and> ce_side e = Writable \<and> ce_state e \<noteq> DONE \<and> \<not> sh_dropped (shareds h s) \<longrightarrow>
       sh_abandon (shareds h' s) \<noteq> None) \<and>
    retireInstanceAsyncEnds ins h' = (Inr (), h')"
proof -
  let ?g = "h\<lparr>retired := (retired h)(ins := True)\<rparr>" and ?es = "map (ends h) (tableEnds (handles h ins))"
  define h1 where "h1 = fold (markPoisoned ins) ?es ?g"
  note m = mark_all [OF h1_def]
  obtain q2 where r: "retireAll (map ce_shared ?es) None h1 = (q2, h')"
    using assms(2,3) by (auto simp: retireInstanceAsyncEnds_def run_simps h1_def bindM_def split: prod.splits sum.splits option.splits)
  have sl: "slots_ok h1" using assms(1) by (simp add: slots_ok_def m(3,4))
  note t = teardown_all [OF r sl] and k = teardown_all_keeps [OF r]
  have es: "e \<in> set ?es" "s \<in> set (map ce_shared ?es)" using assms(4-6) by auto
  have "sh_dropped (shareds h' s)" "\<not> sh_dropped (shareds h s) \<longrightarrow> gone (shareds h' s)"
    using t es(2) m(2) [of s] by auto
  moreover have ab: "sh_abandon (shareds h1 s) \<noteq> None" if "owed e" "\<not> sh_dropped (shareds h s)"
    using m(6) [OF es(1) that(1)] that(2) assms(6) by simp
  moreover have "hasPendingEvent m h'" if "\<not> sh_dropped (shareds h s)" "livePeer ins e m h"
  proof (rule walk_tells [OF r sl])
    have "ends h1 = ends h \<and> poisonCause h1 = poisonCause h" "sh_pendingInst (shareds h1 s) = sh_pendingInst (shareds h s)"
      "sh_kind (shareds h1 s) = sh_kind (shareds h s)"
      using marks_core [of ?g ins ?es] marks_kind [of ins ?es ?g] by (simp_all add: h1_def same_core_def)
    moreover have "retired h1 = (retired h)(ins := True)" using m(1) by simp
    ultimately show "livePeer ins e m h1"
      using that(2) m(3) [of s] assms(6) by (auto simp: livePeer_def isInstancePoisoned_def Let_def split: option.splits CopyCallback.splits)
    show "ce_shared e \<in> set (map ce_shared ?es)" using es(2) assms(6) by simp
    show "\<not> sh_dropped (shareds h1 (ce_shared e))" "owed e \<longrightarrow> sh_abandon (shareds h1 (ce_shared e)) \<noteq> None"
      using that(1) m(2) ab assms(6) by simp_all
  qed
  moreover have "retireInstanceAsyncEnds ins h' = (Inr (), h')"
    using k m(1) by (simp add: retireInstanceAsyncEnds_def run_simps)
  ultimately show ?thesis using k by (auto simp: gone_def owed_def)
qed

text \<open>Two instances at the ends of a stream: instance 1 traps while the reader of instance 0 waits.\<close>

definition split2 :: heap where
  "split2 = (demo2 (\<lambda>_. cx0))\<lparr>handles := (\<lambda>_. emptyTable)(0 := \<lparr>arr = [None, Some (EEnd 2)], free = []\<rparr>,
     1 := \<lparr>arr = [None, Some (EEnd 3)], free = []\<rparr>)\<rparr>"

theorem poison_releases_peers_witness:
  "sh_dropped (shareds (runOf (retireInstanceAsyncEnds 1) split2) 1) \<and>
   sh_pendingDone (shareds (runOf (retireInstanceAsyncEnds 1) split2) 1) = None \<and> hasPendingEvent 2 (runOf (retireInstanceAsyncEnds 1) split2)"
proof -
  have d: "retireInstanceAsyncEnds 1 split2 = (fst (retireInstanceAsyncEnds 1 split2), runOf (retireInstanceAsyncEnds 1) split2)"
    by (simp add: runOf_def)
  have sh: "shareds split2 = shareds (demo2 (\<lambda>_. cx0))" "ends split2 = ends (demo2 (\<lambda>_. cx0))" by (simp_all add: split2_def)
  have r: "\<not> retired split2 i" "poisonCause split2 i = None" "sh_pendingInst (shareds split2 1) = Some 0" for i
    by (simp_all add: split2_def demo2_def demo1_def runOf_def streamCopy_def copyChecks_def Let_def handlesGet_def tableGet_def asEnd_def newBuffer_def
      freshId_def run_simps bindM_def inWaitableSet_def newWaitable_def sameElemType_def endCopy_def sharedStreamRead_def
      setPending_def finishCopy_def hasPendingEvent_def updEnd_def updBuffer_def updShared_def BUFFER_MAX_LENGTH_def
      asyncNew_def newShared_def newEnd_def onTable_def tableAdd_def emptyHeap_def emptyTable_def MAX_LENGTH_def)
  have "slots_ok split2" using reachable_slots [OF demo_reachable(2), of "\<lambda>_. cx0"] by (simp add: slots_ok_def sh)
  moreover have "3 \<in> set (tableEnds (handles split2 1))" by (simp add: split2_def tableEnds_def tableElems_def)
  moreover have "livePeer 1 (ends split2 3) 2 split2" using r by (simp add: livePeer_def sh isInstancePoisoned_def)
  ultimately show ?thesis using poison_releases_peers [OF _ r(1) d, of 3 "ends split2 3" 1 2] by (simp add: sh)
qed

section \<open>Signed lanes\<close>

lemma sint_high:
  fixes w :: "32 word"
  assumes "2 ^ 31 \<le> uint w"
  shows "sint w = uint w - 2 ^ 32" "bit (uint w) 31" "bit (sint w) 31"
proof -
  have lt: "uint w < 2 ^ 32" using uint_lt2p [of w] by simp
  then have "uint w div 2 ^ 31 = 1" using assms by simp
  then show b: "bit (uint w) 31" by (simp add: bit_iff_odd)
  have "take_bit 32 (uint w) = uint w" using lt by (simp add: take_bit_int_eq_self)
  then show "sint w = uint w - 2 ^ 32" using b by (simp add: sint_uint signed_take_bit_eq_take_bit_minus)
  show "bit (sint w) 31" using b by (simp add: sint_uint bit_signed_take_bit_iff)
qed

text \<open>C40: The length check of a buffer reads the lane as the engine passes it, signed: a length above the
  maximum that is below \<open>2 ^ 31\<close> traps, and one from \<open>2 ^ 31\<close> on is accepted, whatever the pointer, as a
  buffer of negative length.\<close>

theorem length_check_signed:
  fixes w :: "32 word"
  shows "(int BUFFER_MAX_LENGTH < sint w \<longrightarrow>
      newBuffer E t oi ins ptr (sint w) h = (Inl (Trap ''buffer length exceeds MAX_LENGTH''), h)) \<and>
    (2 ^ 31 \<le> uint w \<longrightarrow> (\<exists>h'. newBuffer E t oi ins ptr (sint w) h = (Inr (nextId h), h') \<and>
      gb_length (buffers h' (nextId h)) = uint w - 2 ^ 32 \<and> bufRemain (buffers h' (nextId h)) < 0))"
proof (intro conjI impI)
  show "newBuffer E t oi ins ptr (sint w) h = (Inl (Trap ''buffer length exceeds MAX_LENGTH''), h)" if "int BUFFER_MAX_LENGTH < sint w"
    using that by (simp add: newBuffer_def run_simps)
next
  assume w: "2 ^ 31 \<le> uint w"
  have s: "sint w = uint w - 2 ^ 32" by (rule sint_high(1) [OF w])
  have lt: "sint w < 0" using s uint_lt2p [of w] by simp
  have "\<not> int BUFFER_MAX_LENGTH < sint w" using lt by (simp add: BUFFER_MAX_LENGTH_def)
  then show "\<exists>h'. newBuffer E t oi ins ptr (sint w) h = (Inr (nextId h), h') \<and>
      gb_length (buffers h' (nextId h)) = uint w - 2 ^ 32 \<and> bufRemain (buffers h' (nextId h)) < 0"
    using lt s by (cases t) (auto simp: newBuffer_def run_simps bindM_def freshId_def updBuffer_def bufRemain_def)
qed

theorem length_check_signed_witness:
  "newBuffer (\<lambda>_. cx0) None 0 0 0 (sint (0x10000000 :: 32 word)) emptyHeap = (Inl (Trap ''buffer length exceeds MAX_LENGTH''), emptyHeap) \<and>
   (\<exists>h'. newBuffer (\<lambda>_. cx0) None 0 0 0 (sint (0xfffffffe :: 32 word)) emptyHeap = (Inr 1, h') \<and> gb_length (buffers h' 1) = - 2)"
proof
  have "int BUFFER_MAX_LENGTH < sint (0x10000000 :: 32 word)" by (simp add: BUFFER_MAX_LENGTH_def)
  then show "newBuffer (\<lambda>_. cx0) None 0 0 0 (sint (0x10000000 :: 32 word)) emptyHeap =
      (Inl (Trap ''buffer length exceeds MAX_LENGTH''), emptyHeap)" using length_check_signed by blast
  show "\<exists>h'. newBuffer (\<lambda>_. cx0) None 0 0 0 (sint (0xfffffffe :: 32 word)) emptyHeap = (Inr 1, h') \<and> gb_length (buffers h' 1) = - 2"
    using length_check_signed [of "0xfffffffe" "\<lambda>_. cx0" None 0 0 0 emptyHeap] by auto
qed

text \<open>An error context cannot be made from a tagged string: with the \<open>latin1+utf16\<close> encoding a length whose
  UTF-16 tag is set arrives as a negative number, and \<open>error-context.new\<close> fails whatever the pointer
  and the memory, although \<open>stringShape\<close> reads the same lane, taken unsigned, as a UTF-16 string of its low 31 bits.\<close>

lemma error_context_tagged:
  fixes w :: "32 word"
  assumes "stringEncoding (opts (E oi)) = Latin1Utf16" "memory (opts (E oi)) = Some mem" "addrType mem = I32" "2 ^ 31 \<le> uint w"
  shows "(\<exists>err h'. createErrorContextNew E oi ins ptr (sint w) h = (Inl err, h')) \<and>
    stringShape Latin1Utf16 I32 (uint w) = (2, 2 * (uint w - 2 ^ 31), DecUtf16)"
proof -
  let ?x = "xor (sint w) (2 ^ 31)"
  have neg: "sint w < 0" using sint_high(1) [OF assms(4)] uint_lt2p [of w] by simp
  have "?x < 0" using neg by (simp add: xor_negative_int_iff)
  moreover note b = sint_high(2,3) [OF assms(4)]
  then have "and (sint w) (2 ^ 31) \<noteq> 0" using b unfolding and_exp_eq_0_iff_not_bit by blast
  ultimately have sh: "stringShape Latin1Utf16 I32 (sint w) = (2, 2 * ?x, DecUtf16)" "2 * ?x < 0"
    by (simp_all add: stringShape_def utf16TagBig_def)
  let ?cx = "copyContext E oi ins"
  have cx: "stringEncoding (opts ?cx) = Latin1Utf16" "memory (opts ?cx) = Some mem" using assms by (simp_all add: copyContext_def)
  have "\<exists>err h'. loadStringFromRange ?cx ptr (sint w) h = (Inl err, h')"
    using sh(2) by (simp add: loadStringFromRange_def bindM_needMemory [OF cx(2)] cx(1) assms(3) sh(1) run_simps
        trapIfRangeExceedsMemory_def)
  then have res: "\<exists>err h'. createErrorContextNew E oi ins ptr (sint w) h = (Inl err, h')"
    by (auto simp: createErrorContextNew_def run_simps bindM_def)
  have "and (uint w) (2 ^ 31) \<noteq> 0" using b unfolding and_exp_eq_0_iff_not_bit by blast
  moreover have "xor (uint w) (2 ^ 31) = uint w - 2 ^ 31"
    using b unfolding flip_bit_eq_xor [of 31 "uint w", simplified push_bit_eq_mult mult_1, symmetric]
    by (simp add: flip_bit_eq_if unset_bit_eq)
  ultimately have "stringShape Latin1Utf16 I32 (uint w) = (2, 2 * (uint w - 2 ^ 31), DecUtf16)"
    by (simp add: stringShape_def utf16TagBig_def)
  with res show ?thesis by blast
qed

definition latinCx :: "heap Context" where
  "latinCx = cx0\<lparr>opts := (opts cx0)\<lparr>stringEncoding := Latin1Utf16, memory := Some \<lparr>memId = 0, addrType = I32, mBase = 0\<rparr>\<rparr>\<rparr>"

lemma error_context_tagged_witness:
  "(\<exists>err h'. createErrorContextNew (\<lambda>_. latinCx) 0 0 8 (sint (0x80000002 :: 32 word)) emptyHeap = (Inl err, h')) \<and>
   stringShape Latin1Utf16 I32 (uint (0x80000002 :: 32 word)) = (2, 4, DecUtf16)"
proof
  have c: "stringEncoding (opts latinCx) = Latin1Utf16" "memory (opts latinCx) = Some \<lparr>memId = 0, addrType = I32, mBase = 0\<rparr>"
    "(2 :: int) ^ 31 \<le> uint (0x80000002 :: 32 word)"
    by (simp_all add: latinCx_def)
  show "\<exists>err h'. createErrorContextNew (\<lambda>_. latinCx) 0 0 8 (sint (0x80000002 :: 32 word)) emptyHeap = (Inl err, h')"
    using error_context_tagged [where E = "\<lambda>_. latinCx" and w = "0x80000002", OF c(1,2) _ c(3)] by simp
  show "stringShape Latin1Utf16 I32 (uint (0x80000002 :: 32 word)) = (2, 4, DecUtf16)"
    using error_context_tagged [where E = "\<lambda>_. latinCx" and w = "0x80000002", OF c(1,2) _ c(3)] by simp
qed

end
