(* ===== verification/Gate.thy ===== *)
theory Gate
  imports Streams Hoare
begin

text \<open>
  The reentrance gate of component instances (\<open>ComponentInstanceState\<close> of \<open>runtime/src/task/mod.ts\<close>):
  the tree of instances with one synthetic root, the set of instances a call enters, and
  the operations that close and reopen the gates.  The constructor gives every instance the
  root of its store as parent and the root none, so the walk over the parents ends after two
  steps; \<open>climb\<close> takes the number of steps as fuel, and \<open>tree_ok\<close> says what the constructor
  establishes.
\<close>

section \<open>The tree\<close>

fun climb :: "nat \<Rightarrow> (nat \<Rightarrow> nat option) \<Rightarrow> nat \<Rightarrow> nat list" where
  "climb 0 p a = []"
| "climb (Suc k) p a = a # (case p a of None \<Rightarrow> [] | Some b \<Rightarrow> climb k p b)"

definition treeDepth :: nat where
  "treeDepth = 8"

text \<open>A \<open>Set\<close> iterates in insertion order without repetition.\<close>

definition selfAndAncestors :: "'g heap_scheme \<Rightarrow> nat \<Rightarrow> nat list" where
  "selfAndAncestors h i = rev (remdups (rev (climb treeDepth (instParent h) i)))"

definition isSyntheticRoot :: "'g heap_scheme \<Rightarrow> nat \<Rightarrow> bool" where
  "isSyntheticRoot h i \<longleftrightarrow> isRoot h i \<and> instParent h i = None"

definition enteringSet :: "'g heap_scheme \<Rightarrow> nat \<Rightarrow> nat option \<Rightarrow> nat list" where
  "enteringSet h i caller =
     (case caller of
        None \<Rightarrow> selfAndAncestors h i
      | Some c \<Rightarrow> filter (\<lambda>x. x \<notin> set (selfAndAncestors h c)) (selfAndAncestors h i))"

text \<open>\<open>new ComponentInstanceState(index, store)\<close> at address \<open>i\<close>, with \<open>root\<close> the root of its store.\<close>

definition newInstance :: "nat \<Rightarrow> nat \<Rightarrow> 'g heap_scheme \<Rightarrow> 'g heap_scheme" where
  "newInstance i root h =
     h\<lparr>handles := (handles h)(i := emptyTable), mayLeave := (mayLeave h)(i := True), mayEnter := (mayEnter h)(i := True),
       instParent := (instParent h)(i := Some root), isRoot := (isRoot h)(i := False), backpressure := (backpressure h)(i := 0)\<rparr>"

definition newRoot :: "nat \<Rightarrow> 'g heap_scheme \<Rightarrow> 'g heap_scheme" where
  "newRoot r h =
     h\<lparr>handles := (handles h)(r := emptyTable), mayLeave := (mayLeave h)(r := True), mayEnter := (mayEnter h)(r := True),
       instParent := (instParent h)(r := None), isRoot := (isRoot h)(r := True), backpressure := (backpressure h)(r := 0)\<rparr>"

section \<open>The gates\<close>

definition setMayEnter :: "nat \<Rightarrow> bool \<Rightarrow> 'g heap_scheme \<Rightarrow> 'g heap_scheme" where
  "setMayEnter i b h = h\<lparr>mayEnter := (mayEnter h)(i := b)\<rparr>"

definition mayEnterFrom :: "nat \<Rightarrow> nat option \<Rightarrow> 'g heap_scheme \<Rightarrow> bool" where
  "mayEnterFrom i caller h = list_all (mayEnter h) (enteringSet h i caller)"

fun closeAll :: "nat list \<Rightarrow> ('g heap_scheme, unit) sm" where
  "closeAll [] = returnM ()"
| "closeAll (x # xs) =
     bindM (getsM (\<lambda>h. mayEnter h x)) (\<lambda>m.
     bindM (assertM m ''enter_from without may_enter'') (\<lambda>_.
     bindM (modifyM (setMayEnter x False)) (\<lambda>_. closeAll xs)))"

fun openAll :: "nat list \<Rightarrow> ('g heap_scheme, unit) sm" where
  "openAll [] = returnM ()"
| "openAll (x # xs) =
     bindM (getsM (\<lambda>h. mayEnter h x)) (\<lambda>m.
     bindM (assertM (\<not> m) ''leave_to without a matching enter_from'') (\<lambda>_.
     bindM (modifyM (setMayEnter x True)) (\<lambda>_. openAll xs)))"

definition enterFrom :: "nat \<Rightarrow> nat option \<Rightarrow> ('g heap_scheme, unit) sm" where
  "enterFrom i caller = bindM (getsM (\<lambda>h. enteringSet h i caller)) closeAll"

definition leaveTo :: "nat \<Rightarrow> nat option \<Rightarrow> ('g heap_scheme, unit) sm" where
  "leaveTo i caller = bindM (getsM (\<lambda>h. enteringSet h i caller)) openAll"

definition instEnter :: "nat \<Rightarrow> ('g heap_scheme, unit) sm" where
  "instEnter i = enterFrom i None"

definition instLeave :: "nat \<Rightarrow> ('g heap_scheme, unit) sm" where
  "instLeave i = leaveTo i None"

definition releaseSyntheticRootOnPoison :: "nat \<Rightarrow> ('g heap_scheme, unit) sm" where
  "releaseSyntheticRootOnPoison i =
     modifyM (\<lambda>h. fold (\<lambda>x. setMayEnter x True) (filter (isSyntheticRoot h) (selfAndAncestors h i)) h)"

section \<open>Brackets\<close>

text \<open>
  What \<open>Store.tick\<close>, \<open>Thread.resumeWith\<close> and \<open>Task.requestCancellation\<close> do around the code they
  run inside an entered instance: a signal of a missing capability leaves the instance, any other exception keeps
  it closed, releases the root and records the poisoning, whose walk may itself throw.
\<close>

definition bracketRun :: "nat \<Rightarrow> nat option \<Rightarrow> ('g heap_scheme, unit) sm \<Rightarrow> ('g heap_scheme, unit) sm" where
  "bracketRun i caller f = (\<lambda>h.
     case f h of
       (Inr _, h1) \<Rightarrow> leaveTo i caller h1
     | (Inl (Capability m), h1) \<Rightarrow> bindM (leaveTo i caller) (\<lambda>_. throwM (Capability m)) h1
     | (Inl e, h1) \<Rightarrow>
         bindM (releaseSyntheticRootOnPoison i) (\<lambda>_.
         bindM (notifyInstancePoisoned i e) (\<lambda>_. throwM e)) h1)"

section \<open>Lemmas\<close>

definition tree_ok :: "'g heap_scheme \<Rightarrow> bool" where
  "tree_ok h \<longleftrightarrow> (\<forall>i p. instParent h i = Some p \<longrightarrow> p \<noteq> i \<and> instParent h p = None)"

lemma climb_tree:
  "tree_ok h \<Longrightarrow> climb (Suc (Suc k)) (instParent h) i = i # (case instParent h i of None \<Rightarrow> [] | Some p \<Rightarrow> [p])"
  by (auto simp: tree_ok_def split: option.splits)

lemma ancestors_tree:
  assumes "tree_ok h"
  shows "selfAndAncestors h i = i # (case instParent h i of None \<Rightarrow> [] | Some p \<Rightarrow> [p])"
proof -
  have "climb treeDepth (instParent h) i = i # (case instParent h i of None \<Rightarrow> [] | Some p \<Rightarrow> [p])"
    using climb_tree [OF assms, of 6 i] by (simp add: treeDepth_def eval_nat_numeral)
  then show ?thesis using assms by (auto simp: selfAndAncestors_def tree_ok_def split: option.splits)
qed

lemma distinct_entering: "distinct (enteringSet h i c)"
  by (cases c) (simp_all add: enteringSet_def selfAndAncestors_def)

lemma setMayEnter_fields [simp]:
  "mayEnter (setMayEnter i b h) = (mayEnter h)(i := b)" "instParent (setMayEnter i b h) = instParent h"
  "isRoot (setMayEnter i b h) = isRoot h" "poisonCause (setMayEnter i b h) = poisonCause h"
  "handles (setMayEnter i b h) = handles h"
  by (simp_all add: setMayEnter_def)

definition gates :: "nat list \<Rightarrow> bool \<Rightarrow> 'g heap_scheme \<Rightarrow> 'g heap_scheme" where
  "gates xs b h = fold (\<lambda>x. setMayEnter x b) xs h"

lemma gates_eq: "gates xs b h = h\<lparr>mayEnter := (\<lambda>x. if x \<in> set xs then b else mayEnter h x)\<rparr>"
  unfolding gates_def
proof (induction xs arbitrary: h)
  case (Cons x xs)
  have "(\<lambda>y. if y \<in> set xs then b else mayEnter (setMayEnter x b h) y) = (\<lambda>y. if y \<in> set (x # xs) then b else mayEnter h y)"
    by (simp add: fun_eq_iff)
  then show ?case using Cons.IH [of "setMayEnter x b h"] by (simp add: setMayEnter_def)
qed simp

lemma mayEnter_gates [simp]: "mayEnter (gates xs b h) x = (if x \<in> set xs then b else mayEnter h x)"
  by (simp add: gates_eq)

lemma closeAll_run:
  "distinct xs \<Longrightarrow> list_all (mayEnter h) xs \<Longrightarrow> closeAll xs h = (Inr (), gates xs False h)"
proof (induction xs arbitrary: h)
  case (Cons x xs)
  have "distinct xs" "list_all (mayEnter (setMayEnter x False h)) xs" using Cons.prems by (auto simp: list_all_iff)
  note ih = Cons.IH [OF this]
  show ?case using Cons.prems ih by (simp add: run_simps gates_def)
qed (simp add: run_simps gates_def)

lemma openAll_run:
  "distinct xs \<Longrightarrow> list_all (\<lambda>x. \<not> mayEnter h x) xs \<Longrightarrow> openAll xs h = (Inr (), gates xs True h)"
proof (induction xs arbitrary: h)
  case (Cons x xs)
  have "distinct xs" "list_all (\<lambda>y. \<not> mayEnter (setMayEnter x True h) y) xs" using Cons.prems by (auto simp: list_all_iff)
  note ih = Cons.IH [OF this]
  show ?case using Cons.prems ih by (simp add: run_simps gates_def)
qed (simp add: run_simps gates_def)

lemma enteringSet_gates [simp]: "enteringSet (gates xs b h) i c = enteringSet h i c"
  by (cases c) (simp_all add: enteringSet_def selfAndAncestors_def gates_eq)

lemma enterFrom_run: "mayEnterFrom i c h \<Longrightarrow> enterFrom i c h = (Inr (), gates (enteringSet h i c) False h)"
  by (simp add: enterFrom_def run_simps mayEnterFrom_def closeAll_run distinct_entering)

lemma leaveTo_run:
  "list_all (\<lambda>x. \<not> mayEnter h x) (enteringSet h i c) \<Longrightarrow> leaveTo i c h = (Inr (), gates (enteringSet h i c) True h)"
  by (simp add: leaveTo_def run_simps openAll_run distinct_entering)

lemma gates_self: "list_all (\<lambda>x. mayEnter h x = b) xs \<Longrightarrow> gates xs b (gates xs c h) = h"
  by (auto simp: gates_eq list_all_iff fun_eq_iff intro: heap.equality)

text \<open>The teardown walk and the poison record leave the gates, the tree and the fields a client adds to the heap alone.\<close>

definition gateKeep :: "'g heap_scheme \<Rightarrow> 'g heap_scheme \<Rightarrow> bool" where
  "gateKeep h h' \<longleftrightarrow> mayEnter h' = mayEnter h \<and> instParent h' = instParent h \<and> isRoot h' = isRoot h \<and>
     instStore h' = instStore h \<and> nextId h' = nextId h \<and> handles h' = handles h \<and> resources h' = resources h \<and>
     subtasks h' = subtasks h \<and> heap.more h' = heap.more h"

definition retireKeep :: "'g heap_scheme \<Rightarrow> 'g heap_scheme \<Rightarrow> bool" where
  "retireKeep h h' \<longleftrightarrow> gateKeep h h' \<and> poisonCause h' = poisonCause h"

lemma retireKeep_refl [simp]: "retireKeep h h"
  by (simp add: retireKeep_def gateKeep_def)

lemma retireKeep_trans: "retireKeep a b \<Longrightarrow> retireKeep b c \<Longrightarrow> retireKeep a c"
  by (simp add: retireKeep_def gateKeep_def)

lemma keep_basic:
  "stays retireKeep (returnM x)" "stays retireKeep (throwM e)" "stays retireKeep (getsM g)" "stays retireKeep (assertM c msg)"
  by (simp_all add: stays_def run_simps)

lemma keep_modify: "(\<And>h. retireKeep h (f h)) \<Longrightarrow> stays retireKeep (modifyM f)"
  by (simp add: stays_def run_simps)

lemma keep_updates:
  "retireKeep h (updShared s f h)" "retireKeep h (updWaitable n w h)"
  by (simp_all add: retireKeep_def gateKeep_def updShared_def updWaitable_def)

lemmas keep_bind = stays_bind [where R = retireKeep, OF _ _ retireKeep_trans]

lemma keep_teardown: "stays retireKeep (dropSharedForTeardown s)"
  unfolding dropSharedForTeardown_def resetAndNotifyPending_def resetPending_def setPending_def runOnCopyDone_def setPendingEvent_def
  by (auto intro!: keep_bind keep_basic keep_modify keep_updates split: option.splits CopyCallback.splits)

lemma keep_retireAll: "stays retireKeep (retireAll ss first)"
proof (induction ss arbitrary: first)
  case (Cons s ss)
  show ?case unfolding stays_def
  proof
    fix h :: "'a heap_scheme"
    obtain q h1 where d: "dropSharedForTeardown s h = (q, h1)" by (cases "dropSharedForTeardown s h")
    have "retireKeep h h1" by (rule staysD [OF keep_teardown d])
    moreover have "retireKeep h1 (snd (retireAll ss f h1))" for f using Cons.IH [of f] by (simp add: stays_def)
    ultimately show "retireKeep h (snd (retireAll (s # ss) first h))" using d retireKeep_trans by (cases q) auto
  qed
qed (simp add: keep_basic)

lemma keep_marks: "retireKeep h (fold (markPoisoned ins) es h)"
proof (induction es arbitrary: h)
  case (Cons e es)
  have "retireKeep h (markPoisoned ins e h)" by (simp add: markPoisoned_def keep_updates)
  then show ?case using Cons.IH [of "markPoisoned ins e h"] retireKeep_trans by auto
qed simp

lemma keep_retire: "stays retireKeep (retireInstanceAsyncEnds ins)"
  unfolding retireInstanceAsyncEnds_def
  by (auto intro!: keep_bind keep_basic keep_modify keep_marks keep_retireAll split: option.splits simp: retireKeep_def gateKeep_def)

text \<open>The record: the first cause of the instance wins, the other instances keep theirs.\<close>

lemma poison_record:
  assumes "notifyInstancePoisoned i e h = (r, h')"
  shows "gateKeep h h' \<and> poisonCause h' = (poisonCause h)(i := (case poisonCause h i of None \<Rightarrow> Some e | c \<Rightarrow> c))"
proof -
  let ?h = "h\<lparr>poisonCause := (poisonCause h)(i := (case poisonCause h i of None \<Rightarrow> Some e | c \<Rightarrow> c))\<rparr>"
  have "retireInstanceAsyncEnds i ?h = (r, h')" using assms by (simp add: notifyInstancePoisoned_def run_simps)
  then have "retireKeep ?h h'" by (rule staysD [OF keep_retire])
  then show ?thesis by (simp add: retireKeep_def gateKeep_def)
qed

lemma keep_poison: "stays gateKeep (notifyInstancePoisoned i e)"
  unfolding stays_def using poison_record by (metis prod.collapse)

lemma closeAll_only:
  "closeAll xs h = (r, h') \<Longrightarrow> (mayEnter h' x \<longrightarrow> mayEnter h x) \<and> instParent h' = instParent h \<and> poisonCause h' = poisonCause h \<and>
     (r = Inr () \<longrightarrow> x \<in> set xs \<longrightarrow> mayEnter h x)"
proof (induction xs arbitrary: h)
  case (Cons a xs)
  show ?case
  proof (cases "mayEnter h a")
    case True
    then have "closeAll xs (setMayEnter a False h) = (r, h')" using Cons.prems by (simp add: run_simps)
    from Cons.IH [OF this] show ?thesis using True by (auto split: if_splits)
  next
    case False
    then show ?thesis using Cons.prems by (auto simp: run_simps)
  qed
qed (auto simp: run_simps)

lemma openAll_only:
  "openAll xs h = (r, h') \<Longrightarrow> (x \<notin> set xs \<longrightarrow> mayEnter h' x = mayEnter h x) \<and> instParent h' = instParent h \<and> poisonCause h' = poisonCause h"
proof (induction xs arbitrary: h)
  case (Cons a xs)
  show ?case
  proof (cases "mayEnter h a")
    case False
    then have "openAll xs (setMayEnter a True h) = (r, h')" using Cons.prems by (simp add: run_simps)
    from Cons.IH [OF this] show ?thesis by auto
  next
    case True
    then show ?thesis using Cons.prems by (auto simp: run_simps)
  qed
qed (auto simp: run_simps)

lemma enterFrom_only:
  assumes "enterFrom j c h = (r, h')"
  shows "(mayEnter h' x \<longrightarrow> mayEnter h x) \<and> instParent h' = instParent h \<and> poisonCause h' = poisonCause h \<and>
    (r = Inr () \<longrightarrow> x \<in> set (enteringSet h j c) \<longrightarrow> mayEnter h x)"
  using assms closeAll_only by (simp add: enterFrom_def run_simps) blast

lemma leaveTo_only:
  assumes "leaveTo j c h = (r, h')"
  shows "(x \<notin> set (enteringSet h j c) \<longrightarrow> mayEnter h' x = mayEnter h x) \<and> instParent h' = instParent h \<and> poisonCause h' = poisonCause h"
  using assms openAll_only by (simp add: leaveTo_def run_simps) blast

lemma releaseRoot_run:
  "releaseSyntheticRootOnPoison j h = (Inr (), gates (filter (isSyntheticRoot h) (selfAndAncestors h j)) True h)"
  by (simp add: releaseSyntheticRootOnPoison_def run_simps gates_def)

section \<open>After a poisoning\<close>

text \<open>
  What can happen to the gates once instance \<open>i\<close> is poisoned: code that leaves gates, tree and poison record alone, new
  instances, attempts to enter any instance, whole brackets with anything inside, the ends of the brackets that other
  instances had open, and further poisonings.  Each step may fail half way.
\<close>

inductive closed_run :: "nat \<Rightarrow> 'g heap_scheme \<Rightarrow> 'g heap_scheme \<Rightarrow> bool" for i where
  here: "closed_run i h h"
| other_code: "closed_run i h h1 \<Longrightarrow> mayEnter h2 = mayEnter h1 \<Longrightarrow> instParent h2 = instParent h1 \<Longrightarrow> poisonCause h2 = poisonCause h1 \<Longrightarrow> closed_run i h h2"
| created: "closed_run i h h1 \<Longrightarrow> j \<noteq> i \<Longrightarrow> tree_ok (newInstance j p h1) \<Longrightarrow> closed_run i h (newInstance j p h1)"
| enters: "closed_run i h h1 \<Longrightarrow> enterFrom j c h1 = (r, h2) \<Longrightarrow> closed_run i h h2"
| bracketed: "closed_run i h h1 \<Longrightarrow> enterFrom j c h1 = (Inr (), h2) \<Longrightarrow> closed_run i h2 h3 \<Longrightarrow> leaveTo j c h3 = (r, h4) \<Longrightarrow> closed_run i h h4"
| leaves: "closed_run i h h1 \<Longrightarrow> j \<noteq> i \<Longrightarrow> leaveTo j c h1 = (r, h2) \<Longrightarrow> closed_run i h h2"
| releases: "closed_run i h h1 \<Longrightarrow> releaseSyntheticRootOnPoison j h1 = (r, h2) \<Longrightarrow> closed_run i h h2"
| poisons: "closed_run i h h1 \<Longrightarrow> notifyInstancePoisoned j e h1 = (r, h2) \<Longrightarrow> closed_run i h h2"

definition shut :: "nat \<Rightarrow> nat \<Rightarrow> error \<Rightarrow> 'g heap_scheme \<Rightarrow> bool" where
  "shut i root e h \<longleftrightarrow> tree_ok h \<and> instParent h i = Some root \<and> \<not> mayEnter h i \<and> poisonCause h i = Some e"

lemma entering_self:
  assumes "tree_ok h" "instParent h i = Some root"
  shows "i \<in> set (enteringSet h j c) \<longleftrightarrow> j = i \<and> c \<noteq> Some i"
proof -
  have "i \<in> set (selfAndAncestors h x) \<longleftrightarrow> x = i" for x
    using assms by (auto simp: ancestors_tree tree_ok_def split: option.splits)
  then show ?thesis by (cases c) (auto simp: enteringSet_def)
qed

lemma shut_step:
  assumes "shut i root e h" "instParent h' = instParent h" "mayEnter h' i = mayEnter h i" "poisonCause h' = poisonCause h"
  shows "shut i root e h'"
  using assms by (simp add: shut_def tree_ok_def)

lemma shut_enter: "shut i root e h \<Longrightarrow> enterFrom j c h = (r, h') \<Longrightarrow> shut i root e h'"
  using enterFrom_only [of j c h r h' i] by (auto simp: shut_def tree_ok_def)

lemma shut_leave: "shut i root e h \<Longrightarrow> i \<notin> set (enteringSet h j c) \<Longrightarrow> leaveTo j c h = (r, h') \<Longrightarrow> shut i root e h'"
  using leaveTo_only [of j c h r h' i] by (auto simp: shut_def tree_ok_def)

lemma shut_for_good:
  assumes "closed_run i h h'" "shut i root e h"
  shows "shut i root e h'"
  using assms
proof (induction)
  case (other_code h h1 h2)
  then show ?case by (auto simp: shut_def tree_ok_def)
next
  case (created h h1 j p)
  then show ?case by (simp add: shut_def) (simp add: newInstance_def)
next
  case (enters h h1 j c r h2)
  then show ?case by (intro shut_enter [OF _ enters.hyps(2)])
next
  case (bracketed h h1 j c h2 h3 r h4)
  have 1: "shut i root e h1" using bracketed.IH(1) bracketed.prems by blast
  have 3: "shut i root e h3" using bracketed.IH(2) shut_enter [OF 1 bracketed.hyps(2)] by blast
  have "i \<in> set (enteringSet h1 j c) \<longrightarrow> mayEnter h1 i" using enterFrom_only [OF bracketed.hyps(2)] by blast
  then have "\<not> (j = i \<and> c \<noteq> Some i)" using 1 entering_self [of h1 i root j c] by (simp add: shut_def)
  then have "i \<notin> set (enteringSet h3 j c)" using 3 entering_self unfolding shut_def by blast
  then show ?case by (rule shut_leave [OF 3 _ bracketed.hyps(4)])
next
  case (leaves h h1 j c r h2)
  have 1: "shut i root e h1" using leaves.IH leaves.prems by blast
  then have "i \<notin> set (enteringSet h1 j c)" using entering_self leaves.hyps(2) unfolding shut_def by blast
  then show ?case by (rule shut_leave [OF 1 _ leaves.hyps(3)])
next
  case (releases h h1 j r h2)
  then have "shut i root e h1" by blast
  moreover have "h2 = gates (filter (isSyntheticRoot h1) (selfAndAncestors h1 j)) True h1" using releases.hyps(2) by (simp add: releaseRoot_run)
  ultimately show ?case by (intro shut_step [of i root e h1 h2]) (auto simp: gates_eq shut_def isSyntheticRoot_def)
next
  case (poisons h h1 j e' r h2)
  then have "shut i root e h1" by blast
  then show ?case using poison_record [OF poisons.hyps(2)] by (auto simp: shut_def tree_ok_def gateKeep_def)
qed

section \<open>Properties\<close>

text \<open>C37: The gate of reentrance: entering an instance that may be entered closes it and, from the
  host, the root of its store, and leaving reopens exactly what was closed; while the host is inside one
  instance it can enter no instance of the same store, itself included, whereas the entered instance
  can call every other one whose own gate is open.\<close>

theorem enter_leave_gate:
  assumes "tree_ok h" "instParent h i = Some root" "instParent h j = Some root" "mayEnterFrom i None h"
  shows "\<exists>h1. enterFrom i None h = (Inr (), h1) \<and> leaveTo i None h1 = (Inr (), h) \<and>
    \<not> mayEnterFrom j None h1 \<and> (j \<noteq> i \<longrightarrow> mayEnterFrom j (Some i) h1 = mayEnter h j) \<and>
    fst (enterFrom j None h1) = Inl (AssertionError ''enter_from without may_enter'')"
proof -
  have anc: "selfAndAncestors h i = [i, root]" "selfAndAncestors h j = [j, root]"
    using ancestors_tree [OF assms(1)] assms(2,3) by simp_all
  have ri: "root \<noteq> i" "root \<noteq> j" using assms(1-3) by (auto simp: tree_ok_def)
  have es: "enteringSet h i None = [i, root]" "enteringSet h j None = [j, root]"
    by (simp_all add: enteringSet_def anc)
  let ?h = "gates [i, root] False h"
  have e: "enterFrom i None h = (Inr (), ?h)" using enterFrom_run [OF assms(4)] by (simp add: es)
  have open_i: "mayEnter h i" "mayEnter h root" using assms(4) by (simp_all add: mayEnterFrom_def es)
  have "leaveTo i None ?h = (Inr (), gates [i, root] True ?h)"
    using leaveTo_run [of ?h i None] by (simp add: es)
  then have l: "leaveTo i None ?h = (Inr (), h)" using open_i by (simp add: gates_self)
  have no: "\<not> mayEnterFrom j None ?h" by (simp add: mayEnterFrom_def es)
  have "fst (enterFrom j None ?h) = Inl (AssertionError ''enter_from without may_enter'')"
    using ri by (cases "mayEnter ?h j") (simp_all add: enterFrom_def run_simps es)
  moreover have "mayEnterFrom j (Some i) ?h = mayEnter h j" if "j \<noteq> i"
  proof -
    have "enteringSet h j (Some i) = [j]" using that ri by (simp add: enteringSet_def anc)
    then show ?thesis using that ri by (simp add: mayEnterFrom_def)
  qed
  ultimately show ?thesis using e l no by blast
qed

definition twoInstances :: heap where
  "twoInstances = newInstance 2 0 (newInstance 1 0 (newRoot 0 emptyHeap))"

theorem enter_leave_gate_witness:
  "\<exists>h1. enterFrom 1 None twoInstances = (Inr (), h1) \<and> leaveTo 1 None h1 = (Inr (), twoInstances) \<and>
     \<not> mayEnterFrom 2 None h1 \<and> mayEnterFrom 2 (Some 1) h1"
proof -
  have t: "tree_ok twoInstances" "instParent twoInstances 1 = Some 0" "instParent twoInstances 2 = Some 0" "mayEnter twoInstances 2"
    by (auto simp: twoInstances_def newInstance_def newRoot_def tree_ok_def emptyHeap_def split: if_splits)
  have "mayEnterFrom 1 None twoInstances"
    using ancestors_tree [OF t(1), of 1] t(2)
    by (simp add: mayEnterFrom_def enteringSet_def) (simp add: twoInstances_def newInstance_def newRoot_def)
  then show ?thesis using enter_leave_gate [OF t(1-3)] t(4) by auto
qed

text \<open>C16: A trap poisons the instance it happened in and nothing else: when the code run inside an entered
  instance ends with an error other than a signal of a missing capability, the instance stays closed, the root is open
  again, and the other instances keep the gate the code left them; the poisoning is recorded with the
  error unless an earlier cause is on record, which then stays, and no other instance's record changes; and the instance stays closed for good, with
  this cause, to the host and to every other instance, whatever enters, leaves and poisons other instances afterwards. When the code returns or signals a missing
  capability, and no call it made has released the root, instance and root are open again and everything else is as the code left it.\<close>

theorem poison_is_local:
  assumes "tree_ok h" "instParent h i = Some root" "isRoot h root" "mayEnterFrom i None h" "enterFrom i None h = (Inr (), h1)"
    "f h1 = (r, h2)" "instParent h2 = instParent h1" "isRoot h2 = isRoot h1" "\<not> mayEnter h2 i" "bracketRun i None f h1 = (q, h3)"
  shows "(\<forall>e. r = Inl e \<and> (\<forall>m. e \<noteq> Capability m) \<longrightarrow>
      (\<exists>e'. q = Inl e') \<and> mayEnter h3 = (mayEnter h2)(root := True) \<and>
      poisonCause h3 = (poisonCause h2)(i := (case poisonCause h2 i of None \<Rightarrow> Some e | c \<Rightarrow> c)) \<and>
      (\<forall>h4. closed_run i h3 h4 \<longrightarrow> poisonCause h4 i = poisonCause h3 i \<and> (\<forall>c. c \<noteq> Some i \<longrightarrow> \<not> mayEnterFrom i c h4))) \<and>
    ((r = Inr () \<or> (\<exists>m. r = Inl (Capability m))) \<and> \<not> mayEnter h2 root \<longrightarrow>
      q = r \<and> h3 = h2\<lparr>mayEnter := (mayEnter h2)(i := True, root := True)\<rparr>)"
proof -
  have anc: "selfAndAncestors h i = [i, root]" using ancestors_tree [OF assms(1)] assms(2) by simp
  have ri: "root \<noteq> i" "instParent h root = None" using assms(1,2) by (auto simp: tree_ok_def)
  have h1: "h1 = gates [i, root] False h" using enterFrom_run [OF assms(4)] assms(5) by (simp add: enteringSet_def anc)
  have tr: "instParent h2 = instParent h" "isRoot h2 = isRoot h" using assms(7,8) by (simp_all add: h1 gates_eq)
  have anc2: "selfAndAncestors h2 i = [i, root]" "enteringSet h2 i None = [i, root]"
    using anc by (simp_all add: selfAndAncestors_def enteringSet_def tr)
  have "(\<exists>e'. q = Inl e') \<and> mayEnter h3 = (mayEnter h2)(root := True) \<and>
      poisonCause h3 = (poisonCause h2)(i := (case poisonCause h2 i of None \<Rightarrow> Some e | c \<Rightarrow> c)) \<and>
      (\<forall>h4. closed_run i h3 h4 \<longrightarrow> poisonCause h4 i = poisonCause h3 i \<and> (\<forall>c. c \<noteq> Some i \<longrightarrow> \<not> mayEnterFrom i c h4))"
    if r: "r = Inl e" "\<forall>m. e \<noteq> Capability m" for e
  proof -
    have "filter (isSyntheticRoot h2) (selfAndAncestors h2 i) = [root]"
      using assms(2,3) ri by (simp add: isSyntheticRoot_def tr anc2)
    then have b: "bracketRun i None f h1 = bindM (notifyInstancePoisoned i e) (\<lambda>_. throwM e) (gates [root] True h2)"
      using assms(6) r by (cases e) (simp_all add: bracketRun_def bindM_run_Inr [OF releaseRoot_run])
    obtain w h0 where n: "notifyInstancePoisoned i e (gates [root] True h2) = (w, h0)" by (cases "notifyInstancePoisoned i e (gates [root] True h2)")
    have "bindM (notifyInstancePoisoned i e) (\<lambda>_. throwM e) (gates [root] True h2) = (Inl (case w of Inl e' \<Rightarrow> e' | Inr _ \<Rightarrow> e), h0)"
      using n by (cases w) (simp_all add: bindM_def run_simps)
    note n' = this
    have "(q, h3) = (Inl (case w of Inl e' \<Rightarrow> e' | Inr _ \<Rightarrow> e), h0)" by (rule trans [OF assms(10) [symmetric] trans [OF b n']])
    then have q: "\<exists>e'. q = Inl e'" "h3 = h0" by simp_all
    note p = poison_record [OF n]
    have p': "gateKeep (gates [root] True h2) h0" "poisonCause h0 = (poisonCause h2)(i := (case poisonCause h2 i of None \<Rightarrow> Some e | c \<Rightarrow> c))"
      using p by (simp_all add: gates_eq)
    have m: "mayEnter h3 = (mayEnter h2)(root := True)" using p'(1) by (auto simp: q(2) gateKeep_def fun_eq_iff)
    obtain e0 where e0: "poisonCause h3 i = Some e0" using p'(2) by (cases "poisonCause h2 i") (simp_all add: q(2))
    have "instParent h3 = instParent h" using p'(1) by (simp add: q(2) gateKeep_def gates_eq tr)
    then have s: "shut i root e0 h3" using assms(1,2,9) m e0 ri(1) [symmetric] by (simp add: shut_def tree_ok_def)
    have "poisonCause h4 i = poisonCause h3 i \<and> (\<forall>c. c \<noteq> Some i \<longrightarrow> \<not> mayEnterFrom i c h4)" if "closed_run i h3 h4" for h4
    proof -
      have s4: "shut i root e0 h4" by (rule shut_for_good [OF that s])
      then have "c \<noteq> Some i \<Longrightarrow> i \<in> set (enteringSet h4 i c)" for c using entering_self [of h4 i root i c] by (simp add: shut_def)
      then show ?thesis using s4 e0 by (auto simp: shut_def mayEnterFrom_def list_all_iff)
    qed
    then show ?thesis using q p'(2) m by simp
  qed
  moreover have "q = r \<and> h3 = h2\<lparr>mayEnter := (mayEnter h2)(i := True, root := True)\<rparr>"
    if "r = Inr () \<or> (\<exists>m. r = Inl (Capability m))" "\<not> mayEnter h2 root"
  proof -
    have "leaveTo i None h2 = (Inr (), gates [i, root] True h2)"
      using leaveTo_run [of h2 i None] that(2) assms(9) by (simp add: anc2)
    moreover have "gates [i, root] True h2 = h2\<lparr>mayEnter := (mayEnter h2)(i := True, root := True)\<rparr>"
      unfolding gates_eq by (rule heap.equality) (auto simp: fun_eq_iff)
    ultimately show ?thesis using assms(6,10) that(1) by (auto simp: bracketRun_def bindM_def run_simps)
  qed
  ultimately show ?thesis by blast
qed

theorem poison_is_local_witness:
  "\<exists>h1 q h3. enterFrom 1 None twoInstances = (Inr (), h1) \<and> bracketRun 1 None (throwM (Trap ''boom'')) h1 = (q, h3) \<and>
     \<not> mayEnter h3 1 \<and> mayEnter h3 0 \<and> mayEnter h3 2 \<and> poisonCause h3 1 = Some (Trap ''boom'')"
proof -
  have t: "tree_ok twoInstances" "instParent twoInstances 1 = Some 0" "isRoot twoInstances 0" "mayEnter twoInstances 2" "poisonCause twoInstances 1 = None"
    "mayEnter twoInstances 0" "mayEnter twoInstances 1"
    by (auto simp: twoInstances_def newInstance_def newRoot_def tree_ok_def emptyHeap_def split: if_splits)
  have anc: "selfAndAncestors twoInstances 1 = [1, 0]" using ancestors_tree [OF t(1), of 1] t(2) by simp
  have m: "mayEnterFrom 1 None twoInstances"
    using t(6,7) anc [simplified] by (simp add: mayEnterFrom_def enteringSet_def)
  define h1 where "h1 = gates [1, 0] False twoInstances"
  have e: "enterFrom 1 None twoInstances = (Inr (), h1)" using enterFrom_run [OF m] anc [simplified] by (simp add: enteringSet_def h1_def)
  obtain q h3 where b: "bracketRun 1 None (throwM (Trap ''boom'')) h1 = (q, h3)"
    by (cases "bracketRun 1 None (throwM (Trap ''boom'')) h1")
  have "throwM (Trap ''boom'') h1 = (Inl (Trap ''boom''), h1)" "\<not> mayEnter h1 1" by (simp_all add: run_simps h1_def)
  from poison_is_local [OF t(1-3) m e this(1) refl refl this(2) b]
  show ?thesis using e b t(4,5) by (auto simp: h1_def) (simp_all add: gates_eq)
qed

end
