(* ===== verification/Sched.thy ===== *)
theory Sched
  imports StreamBuiltins Gate
begin

text \<open>
  The state of the scheduler (\<open>runtime/src/task/scheduler.ts\<close>): threads, suspension points,
  tasks, the store's lists and the ambient stacks that say which activation is running, with
  the operations on them that run no guest code.  The record extends the heap, so every
  operation of the ABI is an operation of the scheduler's state too.  A ready condition is a
  closure in the code; the conditions the runtime builds are the constructors of \<open>Cond\<close>.
\<close>

section \<open>Data\<close>

datatype ThreadState = ThRunning | ThSuspended | ThWaiting | ThDone

text \<open>What can stand in a store's waiting list: a thread, or the suspended frame of one.\<close>

datatype Agent = AThread nat | APoint nat

datatype Cond =
    Always
  | NoBackpressure nat
  | ExclusiveFree nat
  | AndPending Cond nat
  | WsetReady nat
  | EventOn nat
  | Determinate nat nat
  | OutcomeKnown nat
  | OtherCond nat

text \<open>Where the generator of a thread stands; \<open>PcOther\<close> is a body this development does not model.\<close>

datatype Pc =
    PcStart
  | PcAdmit
  | PcSync
  | PcStackful
  | PcFirst
  | PcYield
  | PcWait nat
  | PcCallback
  | PcEnd
  | PcOther nat

record Thread =
  th_task :: nat
  th_state :: ThreadState
  th_ready :: "Cond option"
  th_cancellable :: bool
  th_index :: "nat option"
  th_awaiting :: "nat option"
  th_storage :: "JsVal list"
  th_pc :: Pc

text \<open>What \<open>produce\<close> and \<open>onSettled\<close> of a suspended frame do; the arguments are what the closures captured.\<close>

datatype PointKind =
    WaitEvent nat nat int nat
  | CancelSubtask nat nat
  | CancelDeterminate nat nat
  | YieldPoint
  | LowerPark nat nat nat
  | OtherPoint nat

record Point =
  pt_store :: nat
  pt_task :: "nat option"
  pt_owner :: "nat option"
  pt_ready :: "Cond option"
  pt_cancellable :: bool
  pt_kind :: PointKind
  pt_done :: bool
  pt_finished :: bool
  pt_outcome :: "JsVal result option"

datatype TaskState = TInitial | TStarted | TPendingCancel | TCancelDelivered | TResolved

record TaskOptions =
  to_async :: bool
  to_callback :: bool
  to_stringEncoding :: StringEncoding
  to_memory :: "MemRef option"

record Task =
  ta_state :: TaskState
  ta_ft :: FuncType
  ta_opts :: TaskOptions
  ta_inst :: nat
  ta_implicit :: "nat option"
  ta_threads :: "nat list"
  ta_factPassthrough :: bool
  ta_factResultTypesKnown :: bool

text \<open>What a promise-parked thread is resumed with: the value \<open>promising\<close> resolved to, or the rejection.\<close>

datatype CoreRaw = RawUndefined | RawArray "JsVal list" | RawValue JsVal

record Store =
  so_waiting :: "Agent list"
  so_awaiting :: "nat list"
  so_settled :: "(nat \<times> CoreRaw result) list"
  so_pendingResumptions :: "nat list"
  so_pendingHostCalls :: "nat list"
  so_hostFailure :: "error option"

datatype OnCancel = IgnoreCancel | CancelTask nat

record sched = heap +
  threads :: "nat \<Rightarrow> Thread"
  points :: "nat \<Rightarrow> Point"
  tasks :: "nat \<Rightarrow> Task"
  stores :: "nat \<Rightarrow> Store"
  instThreads :: "nat \<Rightarrow> nat HTable"
  exclusiveThread :: "nat \<Rightarrow> nat option"
  numWaitingToEnter :: "nat \<Rightarrow> int"
  threadStack :: "nat list"
  entryStack :: "nat list"
  activationClaims :: "nat list"
  hostActivityArms :: "nat list"
  hostOutcome :: "nat \<Rightarrow> JsVal result option"
  calleeTask :: "nat \<Rightarrow> nat option"
  onCancel :: "nat \<Rightarrow> OnCancel option"

definition updThread :: "nat \<Rightarrow> (Thread \<Rightarrow> Thread) \<Rightarrow> 'g sched_scheme \<Rightarrow> 'g sched_scheme" where
  "updThread t f h = h\<lparr>threads := (threads h)(t := f (threads h t))\<rparr>"

definition updPoint :: "nat \<Rightarrow> (Point \<Rightarrow> Point) \<Rightarrow> 'g sched_scheme \<Rightarrow> 'g sched_scheme" where
  "updPoint p f h = h\<lparr>points := (points h)(p := f (points h p))\<rparr>"

definition updTask :: "nat \<Rightarrow> (Task \<Rightarrow> Task) \<Rightarrow> 'g sched_scheme \<Rightarrow> 'g sched_scheme" where
  "updTask k f h = h\<lparr>tasks := (tasks h)(k := f (tasks h k))\<rparr>"

definition updStore :: "nat \<Rightarrow> (Store \<Rightarrow> Store) \<Rightarrow> 'g sched_scheme \<Rightarrow> 'g sched_scheme" where
  "updStore s f h = h\<lparr>stores := (stores h)(s := f (stores h s))\<rparr>"

text \<open>\<open>task.inst\<close> of a thread, and the store a thread was created with.\<close>

definition storeOf :: "'g sched_scheme \<Rightarrow> nat \<Rightarrow> nat" where
  "storeOf h i = (case instStore h i of None \<Rightarrow> 0 | Some s \<Rightarrow> s)"

definition instOf :: "'g sched_scheme \<Rightarrow> nat \<Rightarrow> nat" where
  "instOf h t = ta_inst (tasks h (th_task (threads h t)))"

definition threadStore :: "'g sched_scheme \<Rightarrow> nat \<Rightarrow> nat" where
  "threadStore h t = storeOf h (instOf h t)"

definition implicitOf :: "'g sched_scheme \<Rightarrow> nat \<Rightarrow> nat option" where
  "implicitOf h t = ta_implicit (tasks h (th_task (threads h t)))"

definition agentTask :: "'g sched_scheme \<Rightarrow> Agent \<Rightarrow> nat option" where
  "agentTask h a = (case a of AThread t \<Rightarrow> Some (th_task (threads h t)) | APoint p \<Rightarrow> pt_task (points h p))"

definition agentInst :: "'g sched_scheme \<Rightarrow> Agent \<Rightarrow> nat option" where
  "agentInst h a = map_option (\<lambda>k. ta_inst (tasks h k)) (agentTask h a)"

definition agentOwner :: "'g sched_scheme \<Rightarrow> Agent \<Rightarrow> nat option" where
  "agentOwner h a = (case a of AThread _ \<Rightarrow> None | APoint p \<Rightarrow> pt_owner (points h p))"

section \<open>Ready conditions\<close>

definition needsExclusiveOf :: "Task \<Rightarrow> bool" where
  "needsExclusiveOf k \<longleftrightarrow> \<not> to_async (ta_opts k) \<or> to_callback (ta_opts k)"

text \<open>\<open>hasBackpressure()\<close> of \<open>Task.enterImplicitThread\<close>, evaluated for an async-typed task.\<close>

definition hasBackpressure :: "nat \<Rightarrow> 'g sched_scheme \<Rightarrow> bool" where
  "hasBackpressure k h \<longleftrightarrow>
     (let i = ta_inst (tasks h k) in
      backpressure h i > 0 \<or> (needsExclusiveOf (tasks h k) \<and> exclusiveThread h i \<noteq> None))"

text \<open>\<open>determinate()\<close> of \<open>createSubtaskCancel\<close>.\<close>

definition determinate :: "nat \<Rightarrow> nat \<Rightarrow> 'g sched_scheme \<Rightarrow> bool" where
  "determinate s st h \<longleftrightarrow>
     resolved (subtasks h s) \<or>
     (case calleeTask h s of
        None \<Rightarrow> False
      | Some k \<Rightarrow>
          list_all (\<lambda>t. th_state (threads h t) = ThDone) (ta_threads (tasks h k)) \<or>
          list_ex (\<lambda>w. agentTask h w = Some k) (so_waiting (stores h st)))"

fun holds :: "(nat \<Rightarrow> 'g sched_scheme \<Rightarrow> bool) \<Rightarrow> Cond \<Rightarrow> 'g sched_scheme \<Rightarrow> bool" where
  "holds C Always h = True"
| "holds C (NoBackpressure k) h = (\<not> hasBackpressure k h)"
| "holds C (ExclusiveFree i) h = (exclusiveThread h i = None)"
| "holds C (AndPending c s) h = (holds C c h \<and> wsetHasPendingEvent s h)"
| "holds C (WsetReady s) h = wsetHasPendingEvent s h"
| "holds C (EventOn w) h = hasPendingEvent w h"
| "holds C (Determinate s st) h = determinate s st h"
| "holds C (OutcomeKnown p) h = (hostOutcome h p \<noteq> None)"
| "holds C (OtherCond n) h = C n h"

definition threadReady :: "(nat \<Rightarrow> 'g sched_scheme \<Rightarrow> bool) \<Rightarrow> nat \<Rightarrow> 'g sched_scheme \<Rightarrow> bool" where
  "threadReady C t h \<longleftrightarrow>
     th_state (threads h t) = ThWaiting \<and> (case th_ready (threads h t) of None \<Rightarrow> False | Some c \<Rightarrow> holds C c h)"

definition pointReady :: "(nat \<Rightarrow> 'g sched_scheme \<Rightarrow> bool) \<Rightarrow> nat \<Rightarrow> 'g sched_scheme \<Rightarrow> bool" where
  "pointReady C p h \<longleftrightarrow>
     \<not> pt_done (points h p) \<and> (case pt_ready (points h p) of None \<Rightarrow> False | Some c \<Rightarrow> holds C c h)"

definition agentReady :: "(nat \<Rightarrow> 'g sched_scheme \<Rightarrow> bool) \<Rightarrow> Agent \<Rightarrow> 'g sched_scheme \<Rightarrow> bool" where
  "agentReady C a h = (case a of AThread t \<Rightarrow> threadReady C t h | APoint p \<Rightarrow> pointReady C p h)"

section \<open>The current thread\<close>

text \<open>The stacks are kept bottom first, as the code's arrays are.\<close>

definition pushCurrentThread :: "nat \<Rightarrow> ('g sched_scheme, unit) sm" where
  "pushCurrentThread t = modifyM (\<lambda>h. h\<lparr>threadStack := threadStack h @ [t]\<rparr>)"

definition topOf :: "nat list \<Rightarrow> nat option" where
  "topOf xs = (if xs = [] then None else Some (last xs))"

definition popCurrentThread :: "nat \<Rightarrow> ('g sched_scheme, unit) sm" where
  "popCurrentThread t =
     bindM (getsM (\<lambda>h. topOf (threadStack h))) (\<lambda>top.
     bindM (modifyM (\<lambda>h. h\<lparr>threadStack := butlast (threadStack h)\<rparr>)) (\<lambda>_.
     assertM (top = Some t) ''current-thread stack imbalance''))"

text \<open>A \<open>finally\<close> block runs after the result is known and replaces it when it throws.\<close>

definition finallyM :: "('s, 'a) sm \<Rightarrow> ('s, unit) sm \<Rightarrow> ('s, 'a) sm" where
  "finallyM f g h = (case f h of (r, h1) \<Rightarrow> bindM g (\<lambda>_. liftR r) h1)"

definition catchM :: "('s, 'a) sm \<Rightarrow> (error \<Rightarrow> ('s, 'a) sm) \<Rightarrow> ('s, 'a) sm" where
  "catchM f k h = (case f h of (Inl e, h1) \<Rightarrow> k e h1 | (Inr x, h1) \<Rightarrow> (Inr x, h1))"

definition withActivation :: "nat \<Rightarrow> ('g sched_scheme, 'a) sm \<Rightarrow> ('g sched_scheme, 'a) sm" where
  "withActivation t f =
     bindM (modifyM (\<lambda>h. h\<lparr>threadStack := threadStack h @ [t], entryStack := entryStack h @ [t]\<rparr>)) (\<lambda>_.
     finallyM f
       (bindM (modifyM (\<lambda>h. h\<lparr>entryStack := butlast (entryStack h)\<rparr>)) (\<lambda>_.
        bindM (getsM (\<lambda>h. topOf (threadStack h))) (\<lambda>top.
        bindM (modifyM (\<lambda>h. h\<lparr>threadStack := butlast (threadStack h)\<rparr>)) (\<lambda>_.
        assertM (top = Some t) ''withActivation: current-thread stack imbalance'')))))"

definition activationOf :: "'g sched_scheme \<Rightarrow> nat option" where
  "activationOf h = (if entryStack h \<noteq> [] then topOf (entryStack h) else topOf (activationClaims h))"

definition claimActivationAmbient :: "nat option \<Rightarrow> 'g sched_scheme \<Rightarrow> 'g sched_scheme" where
  "claimActivationAmbient o1 h =
     (case o1 of
        None \<Rightarrow> h
      | Some t \<Rightarrow>
          let cs = activationClaims h in
          if cs \<noteq> [] \<and> last cs = t \<and> t \<notin> set (butlast cs) then h
          else h\<lparr>activationClaims := remove1 t cs @ [t]\<rparr>)"

definition releaseActivationAmbient :: "nat option \<Rightarrow> 'g sched_scheme \<Rightarrow> 'g sched_scheme" where
  "releaseActivationAmbient o1 h =
     (case o1 of
        None \<Rightarrow> h
      | Some t \<Rightarrow>
          let cs = activationClaims h in
          if t \<in> set cs then h\<lparr>activationClaims := remove1 t cs\<rparr>
          else (case implicitOf h t of
                  None \<Rightarrow> h
                | Some i \<Rightarrow> if i \<in> set cs then h\<lparr>activationClaims := remove1 i cs\<rparr> else h))"

definition resolveAmbient :: "'g sched_scheme \<Rightarrow> nat option" where
  "resolveAmbient h = (if threadStack h \<noteq> [] then topOf (threadStack h) else topOf (activationClaims h))"

abbreviation noTask :: string where
  "noTask \<equiv> ''pending-capability: instantiation-time task context -- a task-scoped canonical built-in ran outside any task (a core start function calling task.return / task.cancel / thread.yield / subtask.*; see test/async/dont-block-start.wast)''"

definition currentThread :: "('g sched_scheme, nat) sm" where
  "currentThread h = (case resolveAmbient h of None \<Rightarrow> (Inl (Capability noTask), h) | Some t \<Rightarrow> (Inr t, h))"

definition maybeCurrentThread :: "'g sched_scheme \<Rightarrow> nat option" where
  "maybeCurrentThread h = resolveAmbient h"

text \<open>The claims are searched from the most recent one.\<close>

definition resolveAmbientForInstance :: "nat option \<Rightarrow> 'g sched_scheme \<Rightarrow> nat option" where
  "resolveAmbientForInstance oi h =
     (case oi of
        None \<Rightarrow> resolveAmbient h
      | Some i \<Rightarrow>
          (case topOf (threadStack h) of
             Some t \<Rightarrow> if instOf h t = i then Some t else find (\<lambda>c. instOf h c = i) (rev (activationClaims h))
           | None \<Rightarrow> find (\<lambda>c. instOf h c = i) (rev (activationClaims h))))"

definition currentThreadForInstance :: "nat option \<Rightarrow> ('g sched_scheme, nat) sm" where
  "currentThreadForInstance oi h =
     (case resolveAmbientForInstance oi h of None \<Rightarrow> currentThread h | Some t \<Rightarrow> (Inr t, h))"

definition currentTask :: "('g sched_scheme, nat) sm" where
  "currentTask = bindM currentThread (\<lambda>t. getsM (\<lambda>h. th_task (threads h t)))"

definition maybeCurrentTask :: "'g sched_scheme \<Rightarrow> nat option" where
  "maybeCurrentTask h = map_option (\<lambda>t. th_task (threads h t)) (maybeCurrentThread h)"

definition currentInstance :: "('g sched_scheme, nat) sm" where
  "currentInstance = bindM currentTask (\<lambda>k. getsM (\<lambda>h. ta_inst (tasks h k)))"

definition ambientResidue :: "'g sched_scheme \<Rightarrow> nat \<times> bool" where
  "ambientResidue h = (length (threadStack h), length (activationClaims h) > 0)"

section \<open>The store\<close>

text \<open>A JavaScript \<open>Set\<close>: insertion-ordered, \<open>add\<close> keeps an element where it is.\<close>

definition setAdd :: "'a \<Rightarrow> 'a list \<Rightarrow> 'a list" where
  "setAdd x xs = (if x \<in> set xs then xs else xs @ [x])"

definition addPendingResumption :: "nat \<Rightarrow> nat option \<Rightarrow> 'g sched_scheme \<Rightarrow> 'g sched_scheme" where
  "addPendingResumption s o1 h =
     (case o1 of None \<Rightarrow> h | Some t \<Rightarrow> updStore s (\<lambda>x. x\<lparr>so_pendingResumptions := setAdd t (so_pendingResumptions x)\<rparr>) h)"

definition hasPendingResumptions :: "nat \<Rightarrow> 'g sched_scheme \<Rightarrow> bool" where
  "hasPendingResumptions s h \<longleftrightarrow> so_pendingResumptions (stores h s) \<noteq> []"

definition removePendingResumption :: "nat \<Rightarrow> nat \<Rightarrow> 'g sched_scheme \<Rightarrow> 'g sched_scheme" where
  "removePendingResumption s t = updStore s (\<lambda>x. x\<lparr>so_pendingResumptions := removeAll t (so_pendingResumptions x)\<rparr>)"

definition consumePendingIfRunning :: "nat \<Rightarrow> 'g sched_scheme \<Rightarrow> 'g sched_scheme" where
  "consumePendingIfRunning s h = (case activationOf h of None \<Rightarrow> h | Some a \<Rightarrow> removePendingResumption s a h)"

definition releasePendingOf :: "nat \<Rightarrow> nat \<Rightarrow> 'g sched_scheme \<Rightarrow> 'g sched_scheme" where
  "releasePendingOf s t h =
     (let h1 = removePendingResumption s t (releaseActivationAmbient (Some t) h) in
      case implicitOf h1 t of None \<Rightarrow> h1 | Some i \<Rightarrow> removePendingResumption s i h1)"

definition storeStartWaiting :: "nat \<Rightarrow> Agent \<Rightarrow> ('g sched_scheme, unit) sm" where
  "storeStartWaiting s a =
     bindM (getsM (\<lambda>h. so_waiting (stores h s))) (\<lambda>ws.
     bindM (assertM (a \<notin> set ws) ''thread already in the waiting list'') (\<lambda>_.
     modifyM (updStore s (\<lambda>x. x\<lparr>so_waiting := ws @ [a]\<rparr>))))"

definition storeStopWaiting :: "nat \<Rightarrow> Agent \<Rightarrow> ('g sched_scheme, unit) sm" where
  "storeStopWaiting s a =
     bindM (getsM (\<lambda>h. so_waiting (stores h s))) (\<lambda>ws.
     bindM (assertM (a \<in> set ws) ''thread not in the waiting list'') (\<lambda>_.
     modifyM (updStore s (\<lambda>x. x\<lparr>so_waiting := remove1 a ws\<rparr>))))"

definition readyCandidates :: "(nat \<Rightarrow> 'g sched_scheme \<Rightarrow> bool) \<Rightarrow> nat \<Rightarrow> 'g sched_scheme \<Rightarrow> Agent list" where
  "readyCandidates C s h = filter (\<lambda>a. agentReady C a h) (so_waiting (stores h s))"

definition noteAwaiting :: "nat \<Rightarrow> nat \<Rightarrow> 'g sched_scheme \<Rightarrow> 'g sched_scheme" where
  "noteAwaiting s t = updStore s (\<lambda>x. x\<lparr>so_awaiting := setAdd t (so_awaiting x)\<rparr>)"

text \<open>The reaction \<open>noteAwaiting\<close> registers, which runs when the promise settles.\<close>

definition promiseSettled :: "nat \<Rightarrow> nat \<Rightarrow> CoreRaw result \<Rightarrow> 'g sched_scheme \<Rightarrow> 'g sched_scheme" where
  "promiseSettled s t r h = releasePendingOf s t (updStore s (\<lambda>x. x\<lparr>so_settled := so_settled x @ [(t, r)]\<rparr>) h)"

definition dispatchableTail :: "nat \<Rightarrow> 'g sched_scheme \<Rightarrow> bool" where
  "dispatchableTail t h \<longleftrightarrow> (let i = instOf h t in isInstancePoisoned i h \<or> mayEnterFrom i None h)"

definition hasServiceableSettled :: "nat \<Rightarrow> 'g sched_scheme \<Rightarrow> bool" where
  "hasServiceableSettled s h \<longleftrightarrow>
     list_ex (\<lambda>e. fst e \<notin> set (so_awaiting (stores h s)) \<or> dispatchableTail (fst e) h) (so_settled (stores h s))"

text \<open>
  \<open>hasRunnableWork(inst, excludeTask)\<close>.  Only frames (\<open>SuspensionPoint\<close>) have an owner.
\<close>

definition hasRunnableWork :: "(nat \<Rightarrow> 'g sched_scheme \<Rightarrow> bool) \<Rightarrow> nat \<Rightarrow> nat \<Rightarrow> nat option \<Rightarrow> 'g sched_scheme \<Rightarrow> bool" where
  "hasRunnableWork C s i exclude h \<longleftrightarrow>
     (let so = stores h s;
          mineT = (\<lambda>t. instOf h t = i \<and> Some (th_task (threads h t)) \<noteq> exclude);
          mineA = (\<lambda>a. agentInst h a = Some i \<and> agentTask h a \<noteq> exclude);
          parked = List.map_filter (agentOwner h) (so_waiting so)
      in list_ex (\<lambda>e. mineT (fst e)) (so_settled so) \<or>
         list_ex (\<lambda>a. mineA a \<and> agentReady C a h) (so_waiting so) \<or>
         list_ex (\<lambda>t. mineT t \<and> t \<notin> set parked) (so_awaiting so))"

definition hasRealHostCall :: "nat \<Rightarrow> 'g sched_scheme \<Rightarrow> bool" where
  "hasRealHostCall s h \<longleftrightarrow> list_ex (\<lambda>p. p \<notin> set (hostActivityArms h)) (so_pendingHostCalls (stores h s))"

definition realHostCalls :: "nat \<Rightarrow> 'g sched_scheme \<Rightarrow> nat list" where
  "realHostCalls s h = filter (\<lambda>p. p \<notin> set (hostActivityArms h)) (so_pendingHostCalls (stores h s))"

definition storeQuiescent :: "nat \<Rightarrow> 'g sched_scheme \<Rightarrow> bool" where
  "storeQuiescent s h \<longleftrightarrow>
     so_settled (stores h s) = [] \<and> so_awaiting (stores h s) = [] \<and> \<not> hasRealHostCall s h"

end
