(* ===== verification/Threads.thy ===== *)
theory Threads
  imports Sched Hoare
begin

text \<open>
  Threads (\<open>runtime/src/task/thread.ts\<close>), suspended frames (\<open>SuspensionPoint\<close> of
  \<open>runtime/src/jspi/bridge.ts\<close>) and the loops that resume them (\<open>Store.tick\<close>,
  \<open>Store.serviceSettled\<close> and \<open>driveSyncLift\<close> of \<open>task/scheduler.ts\<close>).  The generator of a thread and the
  closures of a frame are fields of \<open>Code\<close>: \<open>code_body t x\<close> runs the generator of thread \<open>t\<close> from
  where it stands to its next \<open>yield\<close> or to its end.
\<close>

section \<open>What the scheduler runs\<close>

datatype Sent = SendFlag bool | SendValue CoreRaw | SendFailure error

text \<open>\<open>BlockRequest\<close>; the promise of an \<open>awaitValue\<close> is its identity.\<close>

record BlockRequest =
  br_ready :: "Cond option"
  br_cancellable :: bool
  br_await :: "nat option"

datatype Step = Finished | Yielded BlockRequest

record 's Code =
  code_cond :: "nat \<Rightarrow> 's \<Rightarrow> bool"
  code_body :: "nat \<Rightarrow> Sent \<Rightarrow> ('s, Step) sm"
  code_produce :: "nat \<Rightarrow> bool \<Rightarrow> ('s, JsVal) sm"
  code_onSettled :: "nat \<Rightarrow> ('s, unit) sm"

abbreviation assertion :: string where
  "assertion \<equiv> ''internal assertion failed''"

section \<open>Threads\<close>

definition newThread :: "nat \<Rightarrow> Pc \<Rightarrow> Thread" where
  "newThread k pc =
     \<lparr>th_task = k, th_state = ThSuspended, th_ready = None, th_cancellable = False, th_index = None,
      th_awaiting = None, th_storage = [VNum 0, VNum 0], th_pc = pc\<rparr>"

definition threadStartWaiting :: "nat \<Rightarrow> Cond \<Rightarrow> ('g sched_scheme, unit) sm" where
  "threadStartWaiting t c =
     bindM (getsM (\<lambda>h. threads h t)) (\<lambda>x.
     bindM (assertM (th_state x \<noteq> ThWaiting \<and> th_ready x = None) assertion) (\<lambda>_.
     bindM (modifyM (updThread t (\<lambda>x. x\<lparr>th_ready := Some c, th_state := ThWaiting\<rparr>))) (\<lambda>_.
     bindM (getsM (\<lambda>h. threadStore h t)) (\<lambda>s.
     storeStartWaiting s (AThread t)))))"

definition threadStopWaiting :: "'g sched_scheme Code \<Rightarrow> nat \<Rightarrow> bool \<Rightarrow> ('g sched_scheme, unit) sm" where
  "threadStopWaiting C t cancelled =
     bindM (getsM (\<lambda>h. threads h t)) (\<lambda>x.
     bindM (assertM (th_state x = ThWaiting \<and> th_ready x \<noteq> None) assertion) (\<lambda>_.
     bindM (getsM (threadReady (code_cond C) t)) (\<lambda>r.
     bindM (assertM (cancelled \<or> r) ''stopWaiting on a thread that is neither ready nor cancelled'') (\<lambda>_.
     bindM (modifyM (updThread t (\<lambda>x. x\<lparr>th_ready := None, th_state := ThSuspended\<rparr>))) (\<lambda>_.
     bindM (getsM (\<lambda>h. threadStore h t)) (\<lambda>s.
     storeStopWaiting s (AThread t)))))))"

definition resumeLater :: "nat \<Rightarrow> ('g sched_scheme, unit) sm" where
  "resumeLater t =
     bindM (getsM (\<lambda>h. threads h t)) (\<lambda>x.
     bindM (assertM (th_state x = ThSuspended) ''resume_later on a non-suspended thread'') (\<lambda>_.
     threadStartWaiting t Always))"

text \<open>What \<open>#resumeInternal\<close> does with the generator's request.\<close>

definition park :: "nat \<Rightarrow> BlockRequest \<Rightarrow> ('g sched_scheme, unit) sm" where
  "park t req =
     bindM (modifyM (updThread t (\<lambda>x. x\<lparr>th_cancellable := br_cancellable req, th_state := ThSuspended\<rparr>))) (\<lambda>_.
     case br_await req of
       Some p \<Rightarrow>
         bindM (modifyM (updThread t (\<lambda>x. x\<lparr>th_awaiting := Some p\<rparr>))) (\<lambda>_.
         modifyM (\<lambda>h. noteAwaiting (threadStore h t) t h))
     | None \<Rightarrow>
         (case br_ready req of
            None \<Rightarrow> returnM ()
          | Some c \<Rightarrow> threadStartWaiting t c))"

definition resumeInternal :: "'g sched_scheme Code \<Rightarrow> nat \<Rightarrow> Sent \<Rightarrow> ('g sched_scheme, unit) sm" where
  "resumeInternal C t v =
     bindM (modifyM (updThread t (\<lambda>x. x\<lparr>th_state := ThRunning\<rparr>))) (\<lambda>_.
     bindM (pushCurrentThread t) (\<lambda>_.
     bindM (finallyM
              (catchM (code_body C t v)
                 (\<lambda>e. bindM (modifyM (updThread t (\<lambda>x. x\<lparr>th_state := ThDone\<rparr>))) (\<lambda>_. throwM e)))
              (popCurrentThread t)) (\<lambda>step.
     case step of
       Finished \<Rightarrow> modifyM (updThread t (\<lambda>x. x\<lparr>th_state := ThDone\<rparr>))
     | Yielded req \<Rightarrow> park t req)))"

definition threadResume :: "'g sched_scheme Code \<Rightarrow> nat \<Rightarrow> bool \<Rightarrow> ('g sched_scheme, unit) sm" where
  "threadResume C t cancelled =
     bindM (getsM (\<lambda>h. threads h t)) (\<lambda>x.
     bindM (assertM (th_state x \<noteq> ThRunning \<and> th_state x \<noteq> ThDone) ''resume() on a running or finished thread'') (\<lambda>_.
     bindM (assertM (th_cancellable x \<or> \<not> cancelled) ''cancelled resume of a non-cancellable block point'') (\<lambda>_.
     bindM (if th_state x = ThWaiting then threadStopWaiting C t cancelled else returnM ()) (\<lambda>_.
     resumeInternal C t (SendFlag cancelled)))))"

text \<open>
  A promise-parked thread's tail.  The mutations before the gate check stand whether or not the
  thread runs; a poisoned instance's thread is retired.
\<close>

definition resumeWith :: "'g sched_scheme Code \<Rightarrow> nat \<Rightarrow> CoreRaw result \<Rightarrow> ('g sched_scheme, unit) sm" where
  "resumeWith C t v =
     bindM (getsM (\<lambda>h. threads h t)) (\<lambda>x.
     bindM (assertM (th_awaiting x \<noteq> None) ''resumeWith on a thread that is not awaiting'') (\<lambda>_.
     bindM (modifyM (updThread t (\<lambda>x. x\<lparr>th_awaiting := None\<rparr>))) (\<lambda>_.
     bindM (modifyM (\<lambda>h. updStore (threadStore h t) (\<lambda>x. x\<lparr>so_awaiting := removeAll t (so_awaiting x)\<rparr>) h)) (\<lambda>_.
     bindM (modifyM (updThread t (\<lambda>x. x\<lparr>th_state := ThSuspended\<rparr>))) (\<lambda>_.
     bindM (getsM (\<lambda>h. instOf h t)) (\<lambda>i.
     bindM (getsM (isInstancePoisoned i)) (\<lambda>dead.
     if dead then returnM ()
     else
       bindM (getsM (mayEnterFrom i None)) (\<lambda>ok.
       bindM (assertM ok ''resumeWith: parked thread's instance is not enterable from the host'') (\<lambda>_.
       bindM (enterFrom i None) (\<lambda>_.
       bracketRun i None (resumeInternal C t (case v of Inl e \<Rightarrow> SendFailure e | Inr r \<Rightarrow> SendValue r))))))))))))"

section \<open>Suspended frames\<close>

definition newPoint :: "nat \<Rightarrow> nat option \<Rightarrow> Cond option \<Rightarrow> bool \<Rightarrow> PointKind \<Rightarrow> nat option \<Rightarrow> ('g sched_scheme, nat) sm" where
  "newPoint s task ready cancellable kind owner =
     bindM (getsM (\<lambda>h. case owner of Some t \<Rightarrow> Some t | None \<Rightarrow>
              (case maybeCurrentThread h of Some t \<Rightarrow> Some t | None \<Rightarrow>
              (case task of None \<Rightarrow> None | Some k \<Rightarrow> ta_implicit (tasks h k))))) (\<lambda>o1.
     bindM freshId (\<lambda>p.
     bindM (modifyM (updPoint p (\<lambda>_. \<lparr>pt_store = s, pt_task = task, pt_owner = o1, pt_ready = ready,
              pt_cancellable = cancellable, pt_kind = kind, pt_done = False, pt_finished = False, pt_outcome = None\<rparr>))) (\<lambda>_.
     bindM (storeStartWaiting s (APoint p)) (\<lambda>_. returnM p))))"

text \<open>\<open>#finish\<close>: an exception of \<open>onSettled\<close> is logged and dropped.\<close>

definition pointFinish :: "'g sched_scheme Code \<Rightarrow> nat \<Rightarrow> ('g sched_scheme, unit) sm" where
  "pointFinish C p =
     bindM (getsM (\<lambda>h. pt_finished (points h p))) (\<lambda>fin.
     if fin then returnM ()
     else
       bindM (modifyM (updPoint p (\<lambda>x. x\<lparr>pt_finished := True\<rparr>))) (\<lambda>_.
       catchM (code_onSettled C p) (\<lambda>_. returnM ())))"

definition pointResumeInner :: "'g sched_scheme Code \<Rightarrow> nat \<Rightarrow> bool \<Rightarrow> ('g sched_scheme, unit) sm" where
  "pointResumeInner C p cancelled h =
     (case code_produce C p cancelled h of (r, h1) \<Rightarrow>
        let x = points h1 p; s = pt_store x;
            h2 = consumePendingIfRunning s h1;
            h3 = (if maybeCurrentThread h2 = None then claimActivationAmbient (pt_owner x) h2 else h2);
            h4 = addPendingResumption s (case pt_task x of None \<Rightarrow> None | Some k \<Rightarrow> ta_implicit (tasks h3 k)) h3
        in (Inr (), updPoint p (\<lambda>x. x\<lparr>pt_outcome := Some r\<rparr>) h4))"

definition pointResume :: "'g sched_scheme Code \<Rightarrow> nat \<Rightarrow> bool \<Rightarrow> ('g sched_scheme, unit) sm" where
  "pointResume C p cancelled =
     bindM (getsM (\<lambda>h. points h p)) (\<lambda>x.
     bindM (assertM (\<not> pt_done x) ''resume of an already-resumed suspension point'') (\<lambda>_.
     bindM (assertM (pt_cancellable x \<or> \<not> cancelled) ''cancelled resume of a non-cancellable suspension point'') (\<lambda>_.
     bindM (modifyM (updPoint p (\<lambda>x. x\<lparr>pt_done := True\<rparr>))) (\<lambda>_.
     bindM (storeStopWaiting (pt_store x) (APoint p)) (\<lambda>_.
     finallyM (pointResumeInner C p cancelled) (pointFinish C p))))))"

definition abandon :: "'g sched_scheme Code \<Rightarrow> nat \<Rightarrow> error \<Rightarrow> ('g sched_scheme, unit) sm" where
  "abandon C p reason =
     bindM (getsM (\<lambda>h. points h p)) (\<lambda>x.
     if pt_done x then returnM ()
     else
       bindM (modifyM (updPoint p (\<lambda>x. x\<lparr>pt_done := True\<rparr>))) (\<lambda>_.
       bindM (storeStopWaiting (pt_store x) (APoint p)) (\<lambda>_.
       bindM (modifyM (updPoint p (\<lambda>x. x\<lparr>pt_outcome := Some (Inl reason)\<rparr>))) (\<lambda>_.
       pointFinish C p))))"

text \<open>\<open>blockCurrentActivation\<close>; the result is the identity of the frame, whose promise the caller returns.\<close>

definition blockCurrentActivation ::
  "nat \<Rightarrow> nat \<Rightarrow> Cond \<Rightarrow> bool \<Rightarrow> PointKind \<Rightarrow> ('g sched_scheme, nat) sm" where
  "blockCurrentActivation s k ready cancellable kind =
     bindM (getsM (\<lambda>h. case maybeCurrentThread h of Some t \<Rightarrow> Some t | None \<Rightarrow> ta_implicit (tasks h k))) (\<lambda>owner.
     bindM (modifyM (consumePendingIfRunning s)) (\<lambda>_.
     bindM (modifyM (releaseActivationAmbient owner)) (\<lambda>_.
     newPoint s (Some k) (Some ready) cancellable kind owner)))"

definition agentResume :: "'g sched_scheme Code \<Rightarrow> Agent \<Rightarrow> bool \<Rightarrow> ('g sched_scheme, unit) sm" where
  "agentResume C a cancelled = (case a of AThread t \<Rightarrow> threadResume C t cancelled | APoint p \<Rightarrow> pointResume C p cancelled)"

section \<open>The loops\<close>

text \<open>
  \<open>Store.tick\<close>.  Reading \<open>task.inst\<close> of a frame without a task is an exception of the language.
\<close>

definition tickCandidates :: "'g sched_scheme Code \<Rightarrow> nat \<Rightarrow> ('g sched_scheme, Agent list) sm" where
  "tickCandidates C s h =
     (let rs = readyCandidates (code_cond C) s h in
      if list_ex (\<lambda>a. agentTask h a = None) rs then (Inl (JsError ''TypeError''), h)
      else (Inr (filter (\<lambda>a. case agentInst h a of None \<Rightarrow> False | Some i \<Rightarrow> mayEnterFrom i None h) rs), h))"

definition tick :: "'g sched_scheme Code \<Rightarrow> nat \<Rightarrow> ('g sched_scheme, bool) sm" where
  "tick C s =
     bindM (getsM (hasPendingResumptions s)) (\<lambda>busy.
     if busy then returnM False
     else
       bindM (getsM (hasServiceableSettled s)) (\<lambda>tail.
       if tail then returnM False
       else
         bindM (tickCandidates C s) (\<lambda>cs.
         if length cs = 0 then returnM False
         else
           bindM (chooseCandidate cs) (\<lambda>a.
           bindM (getsM (\<lambda>h. the (agentInst h a))) (\<lambda>i.
           bindM (enterFrom i None) (\<lambda>_.
           bindM (bracketRun i None (agentResume C a False)) (\<lambda>_.
           returnM True)))))))"

text \<open>One pass of the scan: the first entry that is retired or can be dispatched.\<close>

definition serviceable :: "nat \<Rightarrow> 'g sched_scheme \<Rightarrow> nat \<times> CoreRaw result \<Rightarrow> bool" where
  "serviceable s h e \<longleftrightarrow> fst e \<notin> set (so_awaiting (stores h s)) \<or> dispatchableTail (fst e) h"

definition spliceSettled :: "nat \<Rightarrow> nat \<Rightarrow> 'g sched_scheme \<Rightarrow> 'g sched_scheme" where
  "spliceSettled s n = updStore s (\<lambda>x. x\<lparr>so_settled := take n (so_settled x) @ drop (Suc n) (so_settled x)\<rparr>)"

text \<open>The result \<open>None\<close> is a loop that does not end.\<close>

partial_function (option) serviceLoop ::
  "'g sched_scheme Code \<Rightarrow> nat \<Rightarrow> bool \<Rightarrow> 'g sched_scheme \<Rightarrow> (bool result \<times> 'g sched_scheme) option" where
  "serviceLoop C s did h =
     (case find (\<lambda>n. serviceable s h (so_settled (stores h s) ! n)) [0..<length (so_settled (stores h s))] of
        None \<Rightarrow> Some (Inr did, h)
      | Some n \<Rightarrow>
          (let e = so_settled (stores h s) ! n; h1 = spliceSettled s n h in
           if fst e \<notin> set (so_awaiting (stores h s)) then serviceLoop C s did h1
           else (case resumeWith C (fst e) (snd e) h1 of
                   (Inl err, h2) \<Rightarrow> Some (Inl err, h2)
                 | (Inr _, h2) \<Rightarrow> serviceLoop C s True h2)))"

definition serviceSettled :: "'g sched_scheme Code \<Rightarrow> nat \<Rightarrow> 'g sched_scheme \<Rightarrow> (bool result \<times> 'g sched_scheme) option" where
  "serviceSettled C s h = serviceLoop C s False h"

definition syncCandidates :: "'g sched_scheme Code \<Rightarrow> nat \<Rightarrow> 'g sched_scheme \<Rightarrow> nat list" where
  "syncCandidates C k h =
     (let i = ta_inst (tasks h k) in
      filter (\<lambda>t. threadReady (code_cond C) t h \<and> exclusiveThread h i \<noteq> Some t) (tableElems (instThreads h i)))"

definition syncStep :: "'g sched_scheme Code \<Rightarrow> nat \<Rightarrow> ('g sched_scheme, unit) sm" where
  "syncStep C k =
     bindM (getsM (syncCandidates C k)) (\<lambda>cs.
     bindM (trapIfM (length cs = 0) ''deadlock: synchronous task cannot resolve and no thread is ready'') (\<lambda>_.
     bindM (chooseCandidate cs) (\<lambda>t. threadResume C t False)))"

partial_function (option) driveSyncLift ::
  "'g sched_scheme Code \<Rightarrow> nat \<Rightarrow> 'g sched_scheme \<Rightarrow> (unit result \<times> 'g sched_scheme) option" where
  "driveSyncLift C k h =
     (if ta_state (tasks h k) = TResolved then Some (Inr (), h)
      else (case syncStep C k h of
              (Inl e, h1) \<Rightarrow> Some (Inl e, h1)
            | (Inr _, h1) \<Rightarrow> driveSyncLift C k h1))"

end
