(* ===== verification/Tasks.thy ===== *)
theory Tasks
  imports Threads
begin

text \<open>
  Tasks (\<open>class Task\<close> of \<open>runtime/src/task/mod.ts\<close>): admission into an instance with
  backpressure and the exclusive thread, the registration of threads, cancellation, and the
  two ways to resolve.  The closures \<open>onStart\<close> and \<open>onResolve\<close> belong to the caller and are
  fields of \<open>Caller\<close>.  A generator is cut at its \<open>yield\<close>: \<open>Block\<close> is the request it yields
  and \<open>Now\<close> the value it returns without yielding.
\<close>

record 's Caller =
  onStart :: "nat \<Rightarrow> ('s, JsVal list) sm"
  onResolve :: "nat \<Rightarrow> JsVal list option \<Rightarrow> ('s, unit) sm"

datatype 'a Await = Now 'a | Block BlockRequest

section \<open>Construction and small operations\<close>

definition newTask :: "FuncType \<Rightarrow> TaskOptions \<Rightarrow> nat \<Rightarrow> Task" where
  "newTask f op i =
     \<lparr>ta_state = TInitial, ta_ft = f, ta_opts = op, ta_inst = i, ta_implicit = None, ta_threads = [],
      ta_factPassthrough = False, ta_factResultTypesKnown = False\<rparr>"

definition liftOptionsEqual :: "StringEncoding \<times> MemRef option \<Rightarrow> StringEncoding \<times> MemRef option \<Rightarrow> bool" where
  "liftOptionsEqual a b \<longleftrightarrow> fst a = fst b \<and> snd a = snd b"

definition setTaskState :: "nat \<Rightarrow> TaskState \<Rightarrow> ('g sched_scheme, unit) sm" where
  "setTaskState k st = modifyM (updTask k (\<lambda>x. x\<lparr>ta_state := st\<rparr>))"

definition setExclusive :: "nat \<Rightarrow> nat option \<Rightarrow> ('g sched_scheme, unit) sm" where
  "setExclusive i o1 = modifyM (\<lambda>h. h\<lparr>exclusiveThread := (exclusiveThread h)(i := o1)\<rparr>)"

definition addWaitingToEnter :: "nat \<Rightarrow> int \<Rightarrow> ('g sched_scheme, unit) sm" where
  "addWaitingToEnter i d = modifyM (\<lambda>h. h\<lparr>numWaitingToEnter := (numWaitingToEnter h)(i := numWaitingToEnter h i + d)\<rparr>)"

definition needsExclusive :: "nat \<Rightarrow> ('g sched_scheme, bool) sm" where
  "needsExclusive k =
     bindM (getsM (\<lambda>h. tasks h k)) (\<lambda>x.
     bindM (assertM (ftAsync (ta_ft x)) ''needs_exclusive on a sync-typed task'') (\<lambda>_.
     returnM (needsExclusiveOf x)))"

definition deliverPendingCancel :: "nat \<Rightarrow> bool \<Rightarrow> ('g sched_scheme, bool) sm" where
  "deliverPendingCancel k cancellable =
     bindM (getsM (\<lambda>h. ta_state (tasks h k))) (\<lambda>st.
     if cancellable \<and> st = TPendingCancel
     then bindM (setTaskState k TCancelDelivered) (\<lambda>_. returnM True)
     else returnM False)"

section \<open>Block points of a thread\<close>

definition waitUntil :: "nat \<Rightarrow> Cond \<Rightarrow> bool \<Rightarrow> ('g sched_scheme, bool Await) sm" where
  "waitUntil t c cancellable =
     bindM (getsM (\<lambda>h. threads h t)) (\<lambda>x.
     bindM (assertM (th_state x = ThRunning) ''waitUntil on a non-running thread'') (\<lambda>_.
     bindM (deliverPendingCancel (th_task x) cancellable) (\<lambda>d.
     returnM (if d then Now True else Block \<lparr>br_ready = Some c, br_cancellable = cancellable, br_await = None\<rparr>))))"

definition suspend :: "nat \<Rightarrow> bool \<Rightarrow> ('g sched_scheme, bool Await) sm" where
  "suspend t cancellable =
     bindM (getsM (\<lambda>h. threads h t)) (\<lambda>x.
     bindM (assertM (th_state x = ThRunning) ''suspend on a non-running thread'') (\<lambda>_.
     bindM (deliverPendingCancel (th_task x) cancellable) (\<lambda>d.
     returnM (if d then Now True else Block \<lparr>br_ready = None, br_cancellable = cancellable, br_await = None\<rparr>))))"

definition threadYield :: "nat \<Rightarrow> bool \<Rightarrow> ('g sched_scheme, bool Await) sm" where
  "threadYield t cancellable = waitUntil t Always cancellable"

section \<open>Starting and resolving\<close>

definition taskStart :: "'g sched_scheme Caller \<Rightarrow> nat \<Rightarrow> ('g sched_scheme, JsVal list) sm" where
  "taskStart G k =
     bindM (getsM (\<lambda>h. ta_state (tasks h k))) (\<lambda>st.
     bindM (assertM (st = TInitial) ''start on a started task'') (\<lambda>_.
     bindM (setTaskState k TStarted) (\<lambda>_.
     onStart G k)))"

definition taskReturn :: "'g sched_scheme Caller \<Rightarrow> nat \<Rightarrow> JsVal list \<Rightarrow> ('g sched_scheme, unit) sm" where
  "taskReturn G k result =
     bindM (getsM (\<lambda>h. ta_state (tasks h k))) (\<lambda>st.
     bindM (trapIfM (st = TResolved) ''task.return on a resolved task'') (\<lambda>_.
     bindM (getsM (\<lambda>h. taskBorrows h k)) (\<lambda>n.
     bindM (trapIfM (n > 0) ''borrow handles still remain at the end of the call'') (\<lambda>_.
     bindM (onResolve G k (Some result)) (\<lambda>_.
     setTaskState k TResolved)))))"

definition taskCancel :: "'g sched_scheme Caller \<Rightarrow> nat \<Rightarrow> ('g sched_scheme, unit) sm" where
  "taskCancel G k =
     bindM (getsM (\<lambda>h. ta_state (tasks h k))) (\<lambda>st.
     bindM (trapIfM (st \<noteq> TCancelDelivered) ''task.cancel without a delivered cancellation request'') (\<lambda>_.
     bindM (getsM (\<lambda>h. taskBorrows h k)) (\<lambda>n.
     bindM (trapIfM (n > 0) ''borrow handles still remain at the end of the call'') (\<lambda>_.
     bindM (onResolve G k None) (\<lambda>_.
     setTaskState k TResolved)))))"

section \<open>Threads of a task\<close>

definition onThreads :: "nat \<Rightarrow> (nat HTable, 'a) sm \<Rightarrow> ('g sched_scheme, 'a) sm" where
  "onThreads i op h = (case op (instThreads h i) of (r, t) \<Rightarrow> (r, h\<lparr>instThreads := (instThreads h)(i := t)\<rparr>))"

definition registerThread :: "nat \<Rightarrow> nat \<Rightarrow> ('g sched_scheme, unit) sm" where
  "registerThread k t =
     bindM (getsM (\<lambda>h. t \<notin> set (ta_threads (tasks h k)) \<and> th_task (threads h t) = k)) (\<lambda>ok.
     bindM (assertM ok ''register_thread of a foreign or duplicate thread'') (\<lambda>_.
     bindM (modifyM (updTask k (\<lambda>x. x\<lparr>ta_threads := ta_threads x @ [t]\<rparr>))) (\<lambda>_.
     bindM (getsM (\<lambda>h. th_index (threads h t))) (\<lambda>ix.
     bindM (assertM (ix = None) ''register_thread of an indexed thread'') (\<lambda>_.
     bindM (getsM (\<lambda>h. ta_inst (tasks h k))) (\<lambda>i.
     bindM (onThreads i (tableAdd t)) (\<lambda>n.
     modifyM (updThread t (\<lambda>x. x\<lparr>th_index := Some n\<rparr>)))))))))"

definition unregisterThread :: "nat \<Rightarrow> nat \<Rightarrow> ('g sched_scheme, unit) sm" where
  "unregisterThread k t =
     bindM (getsM (\<lambda>h. t \<in> set (ta_threads (tasks h k)) \<and> th_task (threads h t) = k)) (\<lambda>ok.
     bindM (assertM ok ''unregister of a foreign thread'') (\<lambda>_.
     bindM (modifyM (updTask k (\<lambda>x. x\<lparr>ta_threads := remove1 t (ta_threads x)\<rparr>))) (\<lambda>_.
     bindM (getsM (\<lambda>h. tasks h k)) (\<lambda>x.
     bindM (if ta_threads x = [] then
              bindM (trapIfM (ta_state x \<noteq> TResolved) ''task finished all threads without resolving'') (\<lambda>_.
              bindM (getsM (\<lambda>h. taskBorrows h k)) (\<lambda>n.
              assertM (n = 0) ''task exited with live borrows''))
            else returnM ()) (\<lambda>_.
     bindM (getsM (\<lambda>h. th_index (threads h t))) (\<lambda>ix.
     case ix of
       None \<Rightarrow> throwM (AssertionError ''unregister of an unindexed thread'')
     | Some n \<Rightarrow>
         bindM (onThreads (ta_inst x) (tableRemove n)) (\<lambda>_.
         modifyM (updThread t (\<lambda>x. x\<lparr>th_index := None\<rparr>)))))))))"

definition exitImplicitThread :: "nat \<Rightarrow> nat \<Rightarrow> ('g sched_scheme, unit) sm" where
  "exitImplicitThread k t =
     bindM (getsM (\<lambda>h. tasks h k)) (\<lambda>x.
     bindM (assertM (ta_implicit x = Some t) ''exit of a non-implicit thread'') (\<lambda>_.
     bindM (unregisterThread k t) (\<lambda>_.
     if ftAsync (ta_ft x) \<and> needsExclusiveOf x then
       bindM (getsM (\<lambda>h. exclusiveThread h (ta_inst x))) (\<lambda>ex.
       bindM (assertM (ex = Some t) ''exit_implicit_thread without holding the exclusive thread'') (\<lambda>_.
       setExclusive (ta_inst x) None))
     else returnM ())))"

section \<open>Admission\<close>

text \<open>The part of \<open>enterImplicitThread\<close> after its wait.\<close>

definition takeExclusive :: "nat \<Rightarrow> nat \<Rightarrow> ('g sched_scheme, unit) sm" where
  "takeExclusive k t =
     bindM (getsM (\<lambda>h. tasks h k)) (\<lambda>x.
     if ftAsync (ta_ft x) \<and> needsExclusiveOf x then
       bindM (getsM (\<lambda>h. exclusiveThread h (ta_inst x))) (\<lambda>ex.
       bindM (assertM (ex = None) ''entering with the exclusive thread already taken'') (\<lambda>_.
       setExclusive (ta_inst x) (Some t)))
     else returnM ())"

definition admit :: "nat \<Rightarrow> nat \<Rightarrow> ('g sched_scheme, bool) sm" where
  "admit k t = bindM (takeExclusive k t) (\<lambda>_. bindM (registerThread k t) (\<lambda>_. returnM True))"

definition afterAdmissionWait ::
  "'g sched_scheme Caller \<Rightarrow> nat \<Rightarrow> nat \<Rightarrow> bool \<Rightarrow> ('g sched_scheme, bool) sm" where
  "afterAdmissionWait G k t cancelled =
     bindM (getsM (\<lambda>h. ta_inst (tasks h k))) (\<lambda>i.
     bindM (addWaitingToEnter i (-1)) (\<lambda>_.
     if cancelled then bindM (taskCancel G k) (\<lambda>_. returnM False)
     else admit k t))"

definition enterImplicitThread ::
  "'g sched_scheme Caller \<Rightarrow> nat \<Rightarrow> nat \<Rightarrow> ('g sched_scheme, bool Await) sm" where
  "enterImplicitThread G k t =
     bindM (getsM (\<lambda>h. tasks h k)) (\<lambda>x.
     bindM (assertM (ta_state x = TInitial) ''enter_implicit_thread after start'') (\<lambda>_.
     bindM (modifyM (updTask k (\<lambda>x. x\<lparr>ta_implicit := Some t\<rparr>))) (\<lambda>_.
     bindM (getsM (\<lambda>h. ftAsync (ta_ft x) \<and> (hasBackpressure k h \<or> numWaitingToEnter h (ta_inst x) > 0))) (\<lambda>wait.
     if wait then
       bindM (addWaitingToEnter (ta_inst x) 1) (\<lambda>_.
       bindM (catchM (waitUntil t (NoBackpressure k) True)
                (\<lambda>e. bindM (addWaitingToEnter (ta_inst x) (-1)) (\<lambda>_. throwM e))) (\<lambda>w.
       case w of
         Now cancelled \<Rightarrow> bindM (afterAdmissionWait G k t cancelled) (\<lambda>b. returnM (Now b))
       | Block req \<Rightarrow> returnM (Block req)))
     else bindM (admit k t) (\<lambda>b. returnM (Now b))))))"

section \<open>Cancellation\<close>

text \<open>The candidates of \<open>requestCancellation\<close>: the task's threads, then the store's waiting list.\<close>

definition agentCancellable :: "'g sched_scheme \<Rightarrow> Agent \<Rightarrow> bool" where
  "agentCancellable h a = (case a of AThread t \<Rightarrow> th_cancellable (threads h t) | APoint p \<Rightarrow> pt_cancellable (points h p))"

definition cancelCandidates :: "nat \<Rightarrow> 'g sched_scheme \<Rightarrow> Agent list" where
  "cancelCandidates k h =
     (let x = tasks h k; i = ta_inst x;
          own = map AThread (filter (\<lambda>t. th_cancellable (threads h t)) (ta_threads x));
          excludeImplicit = (ftAsync (ta_ft x) \<and> needsExclusiveOf x \<and> exclusiveThread h i \<noteq> None \<and> exclusiveThread h i \<noteq> ta_implicit x)
      in if excludeImplicit then filter (\<lambda>a. Some a \<noteq> map_option AThread (ta_implicit x)) own
         else own @ rev (remdups (rev (filter (\<lambda>a. agentTask h a = Some k \<and> agentCancellable h a \<and> a \<notin> set own)
                                (so_waiting (stores h (storeOf h i)))))))"

fun taskStateName :: "TaskState \<Rightarrow> string" where
  "taskStateName TInitial = ''initial''" | "taskStateName TStarted = ''started''"
| "taskStateName TPendingCancel = ''pending-cancel''" | "taskStateName TCancelDelivered = ''cancel-delivered''"
| "taskStateName TResolved = ''resolved''"

definition requestCancellation ::
  "'g sched_scheme Code \<Rightarrow> nat \<Rightarrow> nat option \<Rightarrow> ('g sched_scheme, unit) sm" where
  "requestCancellation C k caller =
     bindM (getsM (\<lambda>h. tasks h k)) (\<lambda>x.
     if ta_state x = TInitial then
       bindM (setTaskState k TCancelDelivered) (\<lambda>_.
       case ta_implicit x of
         None \<Rightarrow> throwM (JsError ''TypeError'')
       | Some t \<Rightarrow> threadResume C t True)
     else
       bindM (assertM (ta_state x = TStarted) (''request_cancellation in state '' @ taskStateName (ta_state x))) (\<lambda>_.
       bindM (getsM (cancelCandidates k)) (\<lambda>cs.
       bindM (getsM (mayEnterFrom (ta_inst x) caller)) (\<lambda>ok.
       if length cs > 0 \<and> ok then
         bindM (setTaskState k TCancelDelivered) (\<lambda>_.
         bindM (enterFrom (ta_inst x) caller) (\<lambda>_.
         bracketRun (ta_inst x) caller (bindM (chooseCandidate cs) (\<lambda>a. agentResume C a True))))
       else setTaskState k TPendingCancel))))"

end
