(* ===== verification/SchedInv.thy ===== *)
theory SchedInv
  imports Tasks
begin

text \<open>
  The discipline of the scheduler's lists: a thread is in its store's waiting list exactly while
  it waits and in the awaiting set exactly while it is parked on a promise, a frame is in the list
  until it is resumed, and nothing is listed twice.  Every operation that resumes guest code keeps it,
  whatever the code does that keeps it too, and leaves the ambient stacks as it found them.
\<close>

definition sched_inv :: "'g sched_scheme \<Rightarrow> bool" where
  "sched_inv h \<longleftrightarrow>
     (\<forall>s. distinct (so_waiting (stores h s)) \<and> distinct (so_awaiting (stores h s))) \<and>
     (\<forall>s t. AThread t \<in> set (so_waiting (stores h s)) \<longleftrightarrow> th_state (threads h t) = ThWaiting \<and> threadStore h t = s) \<and>
     (\<forall>s p. APoint p \<in> set (so_waiting (stores h s)) \<longleftrightarrow> \<not> pt_done (points h p) \<and> pt_store (points h p) = s) \<and>
     (\<forall>t. th_ready (threads h t) \<noteq> None \<longleftrightarrow> th_state (threads h t) = ThWaiting) \<and>
     (\<forall>s t. t \<in> set (so_awaiting (stores h s)) \<longleftrightarrow> th_awaiting (threads h t) \<noteq> None \<and> threadStore h t = s) \<and>
     (\<forall>t. th_awaiting (threads h t) \<noteq> None \<longrightarrow> th_state (threads h t) = ThSuspended \<and> \<not> th_cancellable (threads h t)) \<and>
     (\<forall>p. nextId h \<le> p \<longrightarrow> pt_done (points h p))"

lemma sched_parts:
  assumes "sched_inv h"
  shows "distinct (so_waiting (stores h s))" "distinct (so_awaiting (stores h s))"
    "AThread t \<in> set (so_waiting (stores h s)) \<longleftrightarrow> th_state (threads h t) = ThWaiting \<and> threadStore h t = s"
    "APoint p \<in> set (so_waiting (stores h s)) \<longleftrightarrow> \<not> pt_done (points h p) \<and> pt_store (points h p) = s"
    "th_ready (threads h t) \<noteq> None \<longleftrightarrow> th_state (threads h t) = ThWaiting"
    "t \<in> set (so_awaiting (stores h s)) \<longleftrightarrow> th_awaiting (threads h t) \<noteq> None \<and> threadStore h t = s"
    "th_awaiting (threads h t) \<noteq> None \<Longrightarrow> th_state (threads h t) = ThSuspended"
    "th_awaiting (threads h t) \<noteq> None \<Longrightarrow> \<not> th_cancellable (threads h t)"
    "nextId h \<le> p \<Longrightarrow> pt_done (points h p)"
  using assms unfolding sched_inv_def by auto

section \<open>What does not matter to it\<close>

definition same_sched :: "'g sched_scheme \<Rightarrow> 'g sched_scheme \<Rightarrow> bool" where
  "same_sched h h' \<longleftrightarrow>
     threads h' = threads h \<and> points h' = points h \<and> instStore h' = instStore h \<and> nextId h' = nextId h \<and>
     threadStack h' = threadStack h \<and> entryStack h' = entryStack h \<and>
     (\<forall>k. ta_inst (tasks h' k) = ta_inst (tasks h k)) \<and>
     (\<forall>s. so_waiting (stores h' s) = so_waiting (stores h s) \<and> so_awaiting (stores h' s) = so_awaiting (stores h s))"

lemma same_store: "same_sched h h' \<Longrightarrow> threadStore h' t = threadStore h t"
  by (simp add: same_sched_def threadStore_def instOf_def storeOf_def)

lemma inv_same: "sched_inv h \<Longrightarrow> same_sched h h' \<Longrightarrow> sched_inv h'"
  using same_store [of h h'] unfolding sched_inv_def same_sched_def by simp

lemma same_refl [simp]: "same_sched h h"
  by (simp add: same_sched_def)

lemma same_trans: "same_sched a b \<Longrightarrow> same_sched b c \<Longrightarrow> same_sched a c"
  by (simp add: same_sched_def)

text \<open>The scheduler's fields are in the part that extends the heap.\<close>

lemma sched_more:
  assumes "heap.more h' = heap.more (h :: 'g sched_scheme)"
  shows "threads h' = threads h" "points h' = points h" "tasks h' = tasks h" "stores h' = stores h"
    "threadStack h' = threadStack h" "entryStack h' = entryStack h" "activationClaims h' = activationClaims h"
    "exclusiveThread h' = exclusiveThread h" "instThreads h' = instThreads h" "numWaitingToEnter h' = numWaitingToEnter h"
    "hostOutcome h' = hostOutcome h" "calleeTask h' = calleeTask h" "onCancel h' = onCancel h" "hostActivityArms h' = hostActivityArms h"
  using assms by (cases h; cases h'; simp)+

lemma same_more:
  "heap.more h' = heap.more h \<Longrightarrow> instStore h' = instStore h \<Longrightarrow> nextId h' = nextId h \<Longrightarrow> same_sched h h'"
  using sched_more [of h' h] by (simp add: same_sched_def)

lemma same_updates [simp]:
  "same_sched h (h\<lparr>activationClaims := cs\<rparr>)"
  "same_sched h (h\<lparr>exclusiveThread := ex\<rparr>)"
  "same_sched h (h\<lparr>numWaitingToEnter := n\<rparr>)"
  "same_sched h (h\<lparr>instThreads := it\<rparr>)"
  "same_sched h (h\<lparr>rngState := r\<rparr>)"
  "same_sched h (updStore s (\<lambda>x. x\<lparr>so_pendingResumptions := f x\<rparr>) h)"
  "same_sched h (updStore s (\<lambda>x. x\<lparr>so_settled := g x\<rparr>) h)"
  "same_sched h (updTask k (\<lambda>x. x\<lparr>ta_state := st\<rparr>) h)"
  "same_sched h (updTask k (\<lambda>x. x\<lparr>ta_implicit := im\<rparr>) h)"
  "same_sched h (updTask k (\<lambda>x. x\<lparr>ta_threads := th x\<rparr>) h)"
  "same_sched h (setMayEnter i b h)"
  by (simp_all add: same_sched_def updStore_def updTask_def setMayEnter_def)

lemma same_gates [simp]: "same_sched h (gates xs b h)"
  unfolding gates_def by (induction xs arbitrary: h) (auto intro: same_trans [OF same_updates(11)])

lemma same_ambient [simp]:
  "same_sched h (claimActivationAmbient o1 h)" "same_sched h (releaseActivationAmbient o1 h)"
  "same_sched h (addPendingResumption s o1 h)" "same_sched h (removePendingResumption s t h)"
  "same_sched h (consumePendingIfRunning s h)"
  by (simp_all add: claimActivationAmbient_def releaseActivationAmbient_def addPendingResumption_def
      removePendingResumption_def consumePendingIfRunning_def Let_def split: option.splits)

lemma same_release [simp]: "same_sched h (releasePendingOf s t h)"
  unfolding releasePendingOf_def Let_def
  by (auto split: option.splits intro: same_trans [OF same_ambient(2) same_ambient(4)] same_trans [OF _ same_ambient(4)])

section \<open>Threads\<close>

lemma threadStore_upd:
  "(\<And>x. th_task (f x) = th_task x) \<Longrightarrow> threadStore (updThread t f h) u = threadStore h u"
  by (simp add: threadStore_def instOf_def storeOf_def updThread_def)

lemma store_updThread [simp]:
  "stores (updThread t f h) = stores h" "points (updThread t f h) = points h" "nextId (updThread t f h) = nextId h"
  "threads (updThread t f h) u = (if u = t then f (threads h t) else threads h u)"
  "threadStack (updThread t f h) = threadStack h" "entryStack (updThread t f h) = entryStack h"
  by (simp_all add: updThread_def)

lemma inv_updThread:
  assumes "sched_inv h" "\<And>x. th_task (f x) = th_task x"
    "th_state (f (threads h t)) = ThWaiting \<longleftrightarrow> th_state (threads h t) = ThWaiting"
    "th_ready (f (threads h t)) \<noteq> None \<longleftrightarrow> th_state (threads h t) = ThWaiting"
    "th_awaiting (f (threads h t)) \<noteq> None \<longleftrightarrow> th_awaiting (threads h t) \<noteq> None"
    "th_awaiting (threads h t) \<noteq> None \<Longrightarrow> th_state (f (threads h t)) = ThSuspended \<and> \<not> th_cancellable (f (threads h t))"
  shows "sched_inv (updThread t f h)"
proof -
  note p = sched_parts [OF assms(1)]
  have r: "th_ready (threads (updThread t f h) u) \<noteq> None \<longleftrightarrow> th_state (threads (updThread t f h) u) = ThWaiting" for u
    using p(5) [of u] assms(3,4) by (auto simp del: not_None_eq)
  have a: "th_awaiting (threads (updThread t f h) u) \<noteq> None \<longleftrightarrow> th_awaiting (threads h u) \<noteq> None" for u
    using assms(5) by simp
  have w: "th_state (threads (updThread t f h) u) = ThWaiting \<longleftrightarrow> th_state (threads h u) = ThWaiting" for u
    using assms(3) by simp
  have q: "th_awaiting (threads h u) \<noteq> None \<Longrightarrow>
      th_state (threads (updThread t f h) u) = ThSuspended \<and> \<not> th_cancellable (threads (updThread t f h) u)" for u
    using assms(6) p(7,8) [of u] by (cases "u = t") simp_all
  show ?thesis
    unfolding sched_inv_def a w r threadStore_upd [OF assms(2)]
    using p q by (simp add: w)
qed

text \<open>\<open>R\<close> is a set of threads that are running, \<open>k\<close> the ambient stacks.\<close>

definition runs :: "nat set \<Rightarrow> nat list \<times> nat list \<Rightarrow> 'g sched_scheme \<Rightarrow> bool" where
  "runs R k h \<longleftrightarrow> sched_inv h \<and> (\<forall>t \<in> R. th_state (threads h t) = ThRunning) \<and> k = (threadStack h, entryStack h)"

lemma runs_same: "runs R k h \<Longrightarrow> same_sched h h' \<Longrightarrow> runs R k h'"
  using inv_same by (auto simp: runs_def same_sched_def)

lemma updStore_fields [simp]:
  "threads (updStore s f h) = threads h" "points (updStore s f h) = points h" "nextId (updStore s f h) = nextId h"
  "tasks (updStore s f h) = tasks h" "instStore (updStore s f h) = instStore h"
  "threadStack (updStore s f h) = threadStack h" "entryStack (updStore s f h) = entryStack h"
  "stores (updStore s f h) u = (if u = s then f (stores h s) else stores h u)"
  "threadStore (updStore s f h) t = threadStore h t"
  by (simp_all add: updStore_def threadStore_def instOf_def storeOf_def)

definition startW :: "nat \<Rightarrow> Cond \<Rightarrow> 'g sched_scheme \<Rightarrow> 'g sched_scheme" where
  "startW t c h = updStore (threadStore h t) (\<lambda>x. x\<lparr>so_waiting := so_waiting x @ [AThread t]\<rparr>)
     (updThread t (\<lambda>x. x\<lparr>th_ready := Some c, th_state := ThWaiting\<rparr>) h)"

definition stopW :: "nat \<Rightarrow> 'g sched_scheme \<Rightarrow> 'g sched_scheme" where
  "stopW t h = updStore (threadStore h t) (\<lambda>x. x\<lparr>so_waiting := remove1 (AThread t) (so_waiting x)\<rparr>)
     (updThread t (\<lambda>x. x\<lparr>th_ready := None, th_state := ThSuspended\<rparr>) h)"

lemma startWaiting_run:
  assumes "sched_inv h" "th_state (threads h t) \<noteq> ThWaiting"
  shows "threadStartWaiting t c h = (Inr (), startW t c h)"
proof -
  have "th_ready (threads h t) = None" using sched_parts(5) [OF assms(1), of t] assms(2) by blast
  moreover have "AThread t \<notin> set (so_waiting (stores h (threadStore h t)))"
    using sched_parts(3) [OF assms(1)] assms(2) by blast
  ultimately show ?thesis using assms(2)
    by (simp add: threadStartWaiting_def run_simps storeStartWaiting_def startW_def threadStore_upd)
      (simp add: updStore_def)
qed

lemma stopWaiting_run:
  assumes "sched_inv h" "th_state (threads h t) = ThWaiting" "cancelled \<or> threadReady (code_cond C) t h"
  shows "threadStopWaiting C t cancelled h = (Inr (), stopW t h)"
proof -
  have "th_ready (threads h t) \<noteq> None" using sched_parts(5) [OF assms(1), of t] assms(2) by blast
  moreover have "AThread t \<in> set (so_waiting (stores h (threadStore h t)))"
    using sched_parts(3) [OF assms(1)] assms(2) by blast
  ultimately show ?thesis using assms(2,3)
    by (auto simp add: threadStopWaiting_def run_simps storeStopWaiting_def stopW_def threadStore_upd simp del: not_None_eq)
      (simp_all add: updStore_def)
qed

lemma startW_fields [simp]:
  "points (startW t c h) = points h" "nextId (startW t c h) = nextId h" "threadStack (startW t c h) = threadStack h"
  "entryStack (startW t c h) = entryStack h" "threadStore (startW t c h) u = threadStore h u"
  "threads (startW t c h) u = (if u = t then (threads h t)\<lparr>th_ready := Some c, th_state := ThWaiting\<rparr> else threads h u)"
  "so_awaiting (stores (startW t c h) s) = so_awaiting (stores h s)"
  "so_waiting (stores (startW t c h) s) = so_waiting (stores h s) @ (if s = threadStore h t then [AThread t] else [])"
  by (simp_all add: startW_def threadStore_upd)

lemma stopW_fields [simp]:
  "points (stopW t h) = points h" "nextId (stopW t h) = nextId h" "threadStack (stopW t h) = threadStack h"
  "entryStack (stopW t h) = entryStack h" "threadStore (stopW t h) u = threadStore h u"
  "threads (stopW t h) u = (if u = t then (threads h t)\<lparr>th_ready := None, th_state := ThSuspended\<rparr> else threads h u)"
  "so_awaiting (stores (stopW t h) s) = so_awaiting (stores h s)"
  "so_waiting (stores (stopW t h) s) = (if s = threadStore h t then remove1 (AThread t) (so_waiting (stores h s)) else so_waiting (stores h s))"
  by (simp_all add: stopW_def threadStore_upd)

lemma inv_startW:
  assumes "sched_inv h" "th_state (threads h t) \<noteq> ThWaiting" "th_awaiting (threads h t) = None"
  shows "sched_inv (startW t c h)"
proof -
  note p = sched_parts [OF assms(1)]
  have "AThread t \<notin> set (so_waiting (stores h s))" for s using p(3) assms(2) by blast
  then show ?thesis unfolding sched_inv_def using p(1,2,4,5,6,8,9) p(7) assms(3) by (simp add: p(3)) auto
qed

lemma inv_stopW:
  assumes "sched_inv h" "th_state (threads h t) = ThWaiting"
  shows "sched_inv (stopW t h)"
proof -
  note p = sched_parts [OF assms(1)]
  have "th_awaiting (threads h t) = None" using p(7) [of t] assms(2) by (cases "th_awaiting (threads h t)") auto
  then show ?thesis unfolding sched_inv_def using p(1,2,5,6,8,9) p(7) assms(2) by (simp add: p(3,4))
qed

definition noteW :: "nat \<Rightarrow> nat \<Rightarrow> 'g sched_scheme \<Rightarrow> 'g sched_scheme" where
  "noteW t p h = noteAwaiting (threadStore h t) t (updThread t (\<lambda>x. x\<lparr>th_awaiting := Some p\<rparr>) h)"

lemma inv_noteW:
  assumes "sched_inv h" "th_state (threads h t) = ThSuspended" "\<not> th_cancellable (threads h t)" "th_awaiting (threads h t) = None"
  shows "sched_inv (noteW t p h)"
proof -
  note q = sched_parts [OF assms(1)]
  have ts: "threadStore (noteW t p h) u = threadStore h u" for u
    by (simp add: noteW_def noteAwaiting_def threadStore_upd)
  have "t \<notin> set (so_awaiting (stores h s))" for s using q(6) assms(4) by blast
  then have aw: "so_awaiting (stores (noteW t p h) s) = so_awaiting (stores h s) @ (if s = threadStore h t then [t] else [])" for s
    by (simp add: noteW_def noteAwaiting_def setAdd_def)
  have wa: "so_waiting (stores (noteW t p h) s) = so_waiting (stores h s)" for s by (simp add: noteW_def noteAwaiting_def)
  have th: "threads (noteW t p h) u = (if u = t then (threads h t)\<lparr>th_awaiting := Some p\<rparr> else threads h u)" for u
    by (simp add: noteW_def noteAwaiting_def)
  have re: "points (noteW t p h) = points h" "nextId (noteW t p h) = nextId h" by (simp_all add: noteW_def noteAwaiting_def)
  have "t \<notin> set (so_awaiting (stores h s))" for s using q(6) assms(4) by blast
  then show ?thesis unfolding sched_inv_def ts aw wa th re
    using q(1,2,4,5,7,8,9) assms(2,3) by (auto simp: q(3) q(6))
qed

text \<open>The first mutations of \<open>resumeWith\<close>.\<close>

definition unparkW :: "nat \<Rightarrow> 'g sched_scheme \<Rightarrow> 'g sched_scheme" where
  "unparkW t h = updThread t (\<lambda>x. x\<lparr>th_state := ThSuspended\<rparr>)
     ((\<lambda>h. updStore (threadStore h t) (\<lambda>x. x\<lparr>so_awaiting := removeAll t (so_awaiting x)\<rparr>) h)
       (updThread t (\<lambda>x. x\<lparr>th_awaiting := None\<rparr>) h))"

lemma unparkW_fields [simp]:
  "points (unparkW t h) = points h" "nextId (unparkW t h) = nextId h" "threadStack (unparkW t h) = threadStack h"
  "entryStack (unparkW t h) = entryStack h" "threadStore (unparkW t h) u = threadStore h u" "instOf (unparkW t h) u = instOf h u"
  "threads (unparkW t h) u = (if u = t then (threads h t)\<lparr>th_awaiting := None, th_state := ThSuspended\<rparr> else threads h u)"
  "so_waiting (stores (unparkW t h) s) = so_waiting (stores h s)" "heap.truncate (unparkW t h) = heap.truncate h"
  "so_settled (stores (unparkW t h) s) = so_settled (stores h s)"
  "so_awaiting (stores (unparkW t h) s) = (if s = threadStore h t then removeAll t (so_awaiting (stores h s)) else so_awaiting (stores h s))"
  by (simp_all add: unparkW_def threadStore_upd) (simp_all add: updStore_def updThread_def instOf_def heap.truncate_def)

lemma inv_unparkW:
  assumes "sched_inv h" "th_awaiting (threads h t) \<noteq> None"
  shows "sched_inv (unparkW t h)"
proof -
  note q = sched_parts [OF assms(1)]
  have st: "th_state (threads h t) = ThSuspended" using q(7) assms(2) by blast
  then have "th_ready (threads h t) = None" using q(5) [of t] by (cases "th_ready (threads h t)") auto
  then show ?thesis unfolding sched_inv_def
    using q(1,2,5,7,8,9) st by (auto simp: q(3,4) q(6) distinct_removeAll simp del: not_None_eq)
qed

definition doneW :: "nat \<Rightarrow> 'g sched_scheme \<Rightarrow> 'g sched_scheme" where
  "doneW p h = updStore (pt_store (points h p)) (\<lambda>x. x\<lparr>so_waiting := remove1 (APoint p) (so_waiting x)\<rparr>)
     (updPoint p (\<lambda>x. x\<lparr>pt_done := True\<rparr>) h)"

lemma inv_doneW:
  assumes "sched_inv h" "\<not> pt_done (points h p)"
  shows "sched_inv (doneW p h)"
proof -
  note q = sched_parts [OF assms(1)]
  have ts: "threadStore (doneW p h) u = threadStore h u" for u
    by (simp add: doneW_def threadStore_def instOf_def storeOf_def updPoint_def)
  have fs: "threads (doneW p h) = threads h" "nextId (doneW p h) = nextId h"
    "so_awaiting (stores (doneW p h) s) = so_awaiting (stores h s)"
    "points (doneW p h) u = (if u = p then (points h p)\<lparr>pt_done := True\<rparr> else points h u)"
    "so_waiting (stores (doneW p h) s) =
       (if s = pt_store (points h p) then remove1 (APoint p) (so_waiting (stores h s)) else so_waiting (stores h s))" for u s
    by (simp_all add: doneW_def updPoint_def)
  show ?thesis unfolding sched_inv_def ts fs using q(1,2,5,6,7,8,9) by (auto simp: q(3) q(4) simp del: not_None_eq)
qed

section \<open>What the guest's code must keep\<close>

lemma validE_always: "validE P f (\<lambda>_. Q) (\<lambda>_. Q) \<longleftrightarrow> (\<forall>s. P s \<longrightarrow> Q (snd (f s)))"
proof -
  have "(case f s of (Inr x, t) \<Rightarrow> Q t | (Inl e, t) \<Rightarrow> Q t) = Q (snd (f s))" for s
    by (cases "f s"; cases "fst (f s)") auto
  then show ?thesis by (simp add: validE_def)
qed

definition okStep :: "Step \<Rightarrow> bool" where
  "okStep st \<longleftrightarrow> (case st of Finished \<Rightarrow> True | Yielded req \<Rightarrow> br_await req \<noteq> None \<longrightarrow> \<not> br_cancellable req)"

definition code_ok :: "'g sched_scheme Code \<Rightarrow> bool" where
  "code_ok C \<longleftrightarrow>
     (\<forall>R k t v. validE (runs (insert t R) k) (code_body C t v)
        (\<lambda>st h. runs (insert t R) k h \<and> okStep st) (\<lambda>_. runs (insert t R) k)) \<and>
     (\<forall>R k p c. validE (runs R k) (code_produce C p c) (\<lambda>_. runs R k) (\<lambda>_. runs R k)) \<and>
     (\<forall>R k p. validE (runs R k) (code_onSettled C p) (\<lambda>_. runs R k) (\<lambda>_. runs R k))"

lemma code_okD:
  assumes "code_ok C"
  shows "validE (runs (insert t R) k) (code_body C t v) (\<lambda>st h. runs (insert t R) k h \<and> okStep st) (\<lambda>_. runs (insert t R) k)"
    "validE (runs R k) (code_produce C p c) (\<lambda>_. runs R k) (\<lambda>_. runs R k)"
    "validE (runs R k) (code_onSettled C p) (\<lambda>_. runs R k) (\<lambda>_. runs R k)"
  using assms unfolding code_ok_def by blast+

abbreviation keepsRuns :: "nat set \<Rightarrow> nat list \<times> nat list \<Rightarrow> ('g sched_scheme, 'a) sm \<Rightarrow> bool" where
  "keepsRuns R k f \<equiv> validE (runs R k) f (\<lambda>_. runs R k) (\<lambda>_. runs R k)"

lemma runs_update:
  assumes "runs (insert t R) k h" "t \<notin> R" "\<And>x. th_task (f x) = th_task x" "th_state (f (threads h t)) \<noteq> ThWaiting"
    "\<And>x. th_ready (f x) = th_ready x" "\<And>x. th_awaiting (f x) = th_awaiting x"
  shows "runs R k (updThread t f h)"
proof -
  have i: "sched_inv h" and st: "th_state (threads h t) = ThRunning" and k: "k = (threadStack h, entryStack h)"
    using assms(1) by (auto simp: runs_def)
  have "th_ready (threads h t) = None" using sched_parts(5) [OF i, of t] st by (cases "th_ready (threads h t)") auto
  moreover have "th_awaiting (threads h t) = None" using sched_parts(7) [OF i, of t] st by (cases "th_awaiting (threads h t)") auto
  ultimately have "sched_inv (updThread t f h)" using assms(3-6) st by (intro inv_updThread [OF i]) auto
  then show ?thesis using assms(1,2) k by (auto simp: runs_def)
qed

lemma runs_cancellable:
  assumes "runs (insert t R) k h" "t \<notin> R"
  shows "runs R k (updThread t (\<lambda>x. x\<lparr>th_cancellable := b, th_state := ThSuspended\<rparr>) h)"
  by (rule runs_update [OF assms]) simp_all

lemma park_runs:
  assumes "t \<notin> R" "okStep (Yielded req)"
  shows "validE (runs (insert t R) k) (park t req) (\<lambda>_. runs R k) (\<lambda>_. runs R k)"
proof (rule validEI)
  fix h q h'
  assume h: "runs (insert t R) k h"
  define h1 where "h1 = updThread t (\<lambda>x. x\<lparr>th_cancellable := br_cancellable req, th_state := ThSuspended\<rparr>) h"
  have r1: "runs R k h1" unfolding h1_def by (rule runs_cancellable [OF h assms(1)])
  have i: "sched_inv h" "th_state (threads h t) = ThRunning" using h by (auto simp: runs_def)
  have aw: "th_awaiting (threads h t) = None" using sched_parts(7) [OF i(1), of t] i(2) by (cases "th_awaiting (threads h t)") auto
  have t1: "th_state (threads h1 t) = ThSuspended" "th_awaiting (threads h1 t) = None" "th_cancellable (threads h1 t) = br_cancellable req"
    using aw by (simp_all add: h1_def)
  have e: "\<exists>h2. park t req h = (Inr (), h2) \<and> runs R k h2"
  proof (cases "br_await req")
    case None
    show ?thesis
    proof (cases "br_ready req")
      case None
      with \<open>br_await req = None\<close> show ?thesis using r1 by (simp add: park_def run_simps h1_def)
    next
      case (Some c)
      have "threadStartWaiting t c h1 = (Inr (), startW t c h1)" using r1 t1 by (intro startWaiting_run) (simp_all add: runs_def)
      moreover have "runs R k (startW t c h1)" using r1 t1 assms(1) inv_startW [of h1 t c] by (auto simp: runs_def)
      ultimately show ?thesis using Some None by (simp add: park_def run_simps h1_def)
    qed
  next
    case (Some p)
    then have "\<not> br_cancellable req" using assms(2) by (simp add: okStep_def)
    then have "sched_inv (noteW t p h1)" using r1 t1 by (intro inv_noteW) (simp_all add: runs_def)
    moreover have "threads (noteW t p h1) u = (if u = t then (threads h1 t)\<lparr>th_awaiting := Some p\<rparr> else threads h1 u)"
      "threadStack (noteW t p h1) = threadStack h1" "entryStack (noteW t p h1) = entryStack h1" for u
      by (simp_all add: noteW_def noteAwaiting_def)
    ultimately have "runs R k (noteW t p h1)" using r1 assms(1) by (auto simp: runs_def)
    moreover have "park t req h = (Inr (), noteW t p h1)"
      using Some by (simp add: park_def run_simps h1_def noteW_def threadStore_upd)
    ultimately show ?thesis by blast
  qed
  { assume "park t req h = (Inr q, h')" then show "runs R k h'" using e by auto }
  { fix err assume "park t req h = (Inl err, h')" then show "runs R k h'" using e by auto }
qed

lemma runs_stack:
  assumes "runs R (ts, es) h"
  shows "runs R (ts', es') (h\<lparr>threadStack := ts', entryStack := es'\<rparr>)"
  using assms unfolding runs_def sched_inv_def threadStore_def instOf_def storeOf_def by simp

lemma runs_push: "runs R (ts, es) h \<Longrightarrow> runs R (ts @ [t], es) (h\<lparr>threadStack := threadStack h @ [t]\<rparr>)"
  using runs_stack [of R ts es h "ts @ [t]" es] by (auto simp: runs_def)

lemma runs_pop: "runs R (ts @ [t], es) h \<Longrightarrow> runs R (ts, es) (h\<lparr>threadStack := butlast (threadStack h)\<rparr>)"
  using runs_stack [of R "ts @ [t]" es h ts es] by (auto simp: runs_def dest: sym)

lemma pop_run: "runs R (ts @ [t], es) h \<Longrightarrow> popCurrentThread t h = (Inr (), h\<lparr>threadStack := butlast (threadStack h)\<rparr>)"
  by (auto simp: popCurrentThread_def run_simps topOf_def runs_def dest!: sym [where t = "threadStack h"])

lemma runs_start:
  assumes "runs R k h" "th_state (threads h t) \<noteq> ThWaiting" "th_awaiting (threads h t) = None"
  shows "runs (insert t R) k (updThread t (\<lambda>x. x\<lparr>th_state := ThRunning\<rparr>) h)"
proof -
  have i: "sched_inv h" using assms(1) by (simp add: runs_def)
  have "th_ready (threads h t) = None" using sched_parts(5) [OF i, of t] assms(2) by (cases "th_ready (threads h t)") auto
  then have "sched_inv (updThread t (\<lambda>x. x\<lparr>th_state := ThRunning\<rparr>) h)"
    using assms(2,3) by (intro inv_updThread [OF i]) auto
  then show ?thesis using assms(1) by (simp add: runs_def)
qed

lemma resumeInternal_runs:
  fixes C :: "'g sched_scheme Code"
  assumes "code_ok C" "t \<notin> R"
  shows "validE (\<lambda>h. runs R k h \<and> th_state (threads h t) \<noteq> ThWaiting \<and> th_awaiting (threads h t) = None)
    (resumeInternal C t v) (\<lambda>_. runs R k) (\<lambda>_. runs R k)"
proof (unfold validE_always, intro allI impI)
  fix h :: "'g sched_scheme" assume pre: "runs R k h \<and> th_state (threads h t) \<noteq> ThWaiting \<and> th_awaiting (threads h t) = None"
  obtain ts es where k: "k = (ts, es)" by (cases k)
  define h1 where "h1 = (updThread t (\<lambda>x. x\<lparr>th_state := ThRunning\<rparr>) h)\<lparr>threadStack := threadStack h @ [t]\<rparr>"
  have r1: "runs (insert t R) (ts @ [t], es) h1"
    using runs_push [of _ ts es _ t] runs_start [of R k h t] pre unfolding h1_def k by (metis store_updThread(5))
  have body: "validE (runs (insert t R) (ts @ [t], es)) (code_body C t v)
      (\<lambda>st h. runs (insert t R) (ts @ [t], es) h \<and> okStep st) (\<lambda>_. runs (insert t R) (ts @ [t], es))"
    by (rule code_okD(1) [OF assms(1)])
  have eq: "resumeInternal C t v h = bindM (finallyM
              (catchM (code_body C t v)
                 (\<lambda>e. bindM (modifyM (updThread t (\<lambda>x. x\<lparr>th_state := ThDone\<rparr>))) (\<lambda>_. throwM e)))
              (popCurrentThread t)) (\<lambda>step.
     case step of
       Finished \<Rightarrow> modifyM (updThread t (\<lambda>x. x\<lparr>th_state := ThDone\<rparr>))
     | Yielded req \<Rightarrow> park t req) h1"
    by (simp add: resumeInternal_def run_simps pushCurrentThread_def h1_def)
  obtain q h2 where b: "code_body C t v h1 = (q, h2)" by (cases "code_body C t v h1")
  show "runs R k (snd (resumeInternal C t v h))"
  proof (cases q)
    case (Inl e)
    have "runs (insert t R) (ts @ [t], es) h2" using validE_Inl [OF body r1] b Inl by simp
    then have d: "runs R (ts @ [t], es) (updThread t (\<lambda>x. x\<lparr>th_state := ThDone\<rparr>) h2)"
      by (rule runs_update) (simp_all add: assms(2))
    show ?thesis unfolding eq using b Inl pop_run [OF d] runs_pop [OF d]
      by (simp add: bindM_def finallyM_def catchM_def run_simps k)
  next
    case (Inr st)
    have r2: "runs (insert t R) (ts @ [t], es) h2" "okStep st" using validE_Inr [OF body r1] b Inr by simp_all
    define h3 where "h3 = h2\<lparr>threadStack := butlast (threadStack h2)\<rparr>"
    have r3: "runs (insert t R) k h3" unfolding h3_def k by (rule runs_pop [OF r2(1)])
    have e3: "resumeInternal C t v h =
        (case st of Finished \<Rightarrow> modifyM (updThread t (\<lambda>x. x\<lparr>th_state := ThDone\<rparr>)) | Yielded req \<Rightarrow> park t req) h3"
      unfolding eq using b Inr pop_run [OF r2(1)]
      by (simp add: bindM_def finallyM_def catchM_def run_simps h3_def)
    show ?thesis
    proof (cases st)
      case Finished
      have "runs R k (updThread t (\<lambda>x. x\<lparr>th_state := ThDone\<rparr>) h3)" by (rule runs_update [OF r3]) (simp_all add: assms(2))
      then show ?thesis unfolding e3 Finished by (simp add: run_simps)
    next
      case (Yielded req)
      then have "validE (runs (insert t R) k) (park t req) (\<lambda>_. runs R k) (\<lambda>_. runs R k)"
        using r2(2) assms(2) by (intro park_runs) simp_all
      then have "runs R k (snd (park t req h3))" using r3 unfolding validE_always by blast
      then show ?thesis unfolding e3 Yielded by (simp only: Step.case)
    qed
  qed
qed

section \<open>Every resumption keeps the discipline\<close>

lemma keeps_same:
  fixes f :: "('g sched_scheme, 'a) sm"
  assumes "\<And>h :: 'g sched_scheme. same_sched h (snd (f h))"
  shows "keepsRuns R k f"
  using assms runs_same unfolding validE_def by (fastforce split: prod.splits sum.splits)

lemma same_openAll: "same_sched h (snd (openAll xs h))"
  by (induction xs arbitrary: h) (auto simp: run_simps intro: same_trans [OF same_updates(11)])

lemma same_closeAll: "same_sched h (snd (closeAll xs h))"
  by (induction xs arbitrary: h) (auto simp: run_simps intro: same_trans [OF same_updates(11)])

lemma same_setAll: "same_sched h (fold (\<lambda>x. setMayEnter x b) xs h)"
  by (induction xs arbitrary: h) (auto intro: same_trans [OF same_updates(11)])

lemma same_enter: "same_sched h (snd (enterFrom i c h))"
  by (simp add: enterFrom_def run_simps same_closeAll)

lemma keeps_gates: "keepsRuns R k (leaveTo i c)" "keepsRuns R k (enterFrom i c)" "keepsRuns R k (releaseSyntheticRootOnPoison i)"
  by (rule keeps_same, simp add: leaveTo_def enterFrom_def releaseSyntheticRootOnPoison_def run_simps
      same_openAll same_closeAll same_setAll)+

lemma keeps_poison: "keepsRuns R k (notifyInstancePoisoned i e)"
  by (rule keeps_same, rule same_more) (use keep_poison in \<open>auto simp: stays_def gateKeep_def\<close>)

lemma keeps_bracket:
  fixes f :: "('g sched_scheme, unit) sm"
  assumes "validE P f (\<lambda>_. runs R k) (\<lambda>_. runs R k)"
  shows "validE P (bracketRun i c f) (\<lambda>_. runs R k) (\<lambda>_. runs R k)"
proof (unfold validE_always, intro allI impI)
  fix h :: "'g sched_scheme" assume h: "P h"
  obtain q h1 where f: "f h = (q, h1)" by (cases "f h")
  have r1: "runs R k h1" using validE_Inr [OF assms h] validE_Inl [OF assms h] f by (cases q) simp_all
  have a: "runs R k (snd (bindM (leaveTo i c) (\<lambda>_. throwM e :: ('g sched_scheme, unit) sm) h1))" for e
    using validE_bind [OF keeps_gates(1), of R k "\<lambda>_. throwM e :: ('g sched_scheme, unit) sm" "\<lambda>_. runs R k" i c] r1
    unfolding validE_always by (simp add: run_simps)
  have "validE (runs R k) (bindM (releaseSyntheticRootOnPoison i) (\<lambda>_. bindM (notifyInstancePoisoned i e) (\<lambda>_. throwM e :: ('g sched_scheme, unit) sm)))
      (\<lambda>_. runs R k) (\<lambda>_. runs R k)" for e
    by (intro validE_bind [OF keeps_gates(3)] validE_bind [OF keeps_poison]) (simp add: validE_throw)
  then have b: "runs R k (snd (bindM (releaseSyntheticRootOnPoison i) (\<lambda>_. bindM (notifyInstancePoisoned i e) (\<lambda>_. throwM e :: ('g sched_scheme, unit) sm)) h1))" for e
    using r1 unfolding validE_always by blast
  have l: "runs R k (snd (leaveTo i c h1))" using keeps_gates(1) r1 unfolding validE_always by blast
  show "runs R k (snd (bracketRun i c f h))"
    using f a b l unfolding bracketRun_def by (cases q) (simp_all split: error.splits)
qed

text \<open>Entering the instance first, as every host-side resumption does; \<open>A\<close> is what \<open>f\<close> needs of the threads.\<close>

lemma keeps_entered:
  fixes f :: "('g sched_scheme, unit) sm"
  assumes "validE (\<lambda>h. runs R k h \<and> A (threads h)) f (\<lambda>_. runs R k) (\<lambda>_. runs R k)"
  shows "validE (\<lambda>h. runs R k h \<and> A (threads h)) (bindM (enterFrom i c) (\<lambda>_. bracketRun i c f)) (\<lambda>_. runs R k) (\<lambda>_. runs R k)"
proof (rule validE_bind [OF _ keeps_bracket [OF assms]])
  have "same_sched h h2" if "enterFrom i c h = (q, h2)" for q and h h2 :: "'g sched_scheme"
    using same_enter [of h i c] that by simp
  then have k: "runs R k h2 \<and> threads h2 = threads h" if "runs R k h" "enterFrom i c h = (q, h2)" for q and h h2 :: "'g sched_scheme"
    using that runs_same unfolding same_sched_def by metis
  show "validE (\<lambda>h. runs R k h \<and> A (threads h)) (enterFrom i c :: ('g sched_scheme, unit) sm) (\<lambda>_ h. runs R k h \<and> A (threads h)) (\<lambda>_. runs R k)"
  proof (rule validEI)
    show "runs R k t \<and> A (threads t)" if "runs R k s \<and> A (threads s)" "enterFrom i c s = (Inr x, t)" for x and s t :: "'g sched_scheme"
      using k [OF _ that(2)] that(1) by simp
    show "runs R k t" if "runs R k s \<and> A (threads s)" "enterFrom i c s = (Inl e, t)" for e and s t :: "'g sched_scheme"
      using k [OF _ that(2)] that(1) by simp
  qed
qed

lemma threadResume_runs:
  fixes C :: "'g sched_scheme Code"
  assumes "code_ok C"
  shows "validE (\<lambda>h. runs R k h \<and> (c \<or> th_awaiting (threads h t) = None)) (threadResume C t c) (\<lambda>_. runs R k) (\<lambda>_. runs R k)"
proof (unfold validE_always, intro allI impI)
  fix h :: "'g sched_scheme" assume h: "runs R k h \<and> (c \<or> th_awaiting (threads h t) = None)"
  show "runs R k (snd (threadResume C t c h))"
  proof (cases "th_state (threads h t) \<noteq> ThRunning \<and> th_state (threads h t) \<noteq> ThDone \<and> (th_cancellable (threads h t) \<or> \<not> c)")
    case False
    then show ?thesis using h by (auto simp: threadResume_def run_simps)
  next
    case ok: True
    have i: "sched_inv h" using h by (simp add: runs_def)
    have t: "t \<notin> R" using h ok by (auto simp: runs_def)
    have aw: "th_awaiting (threads h t) = None" using h ok sched_parts(8) [OF i, of t] by (cases "th_awaiting (threads h t)") auto
    have ri: "runs R k (snd (resumeInternal C t (SendFlag c) h'))"
      if "runs R k h'" "th_state (threads h' t) \<noteq> ThWaiting" "th_awaiting (threads h' t) = None" for h'
      using resumeInternal_runs [OF assms t, of k "SendFlag c"] that unfolding validE_always by blast
    show ?thesis
    proof (cases "th_state (threads h t) = ThWaiting")
      case False
      then show ?thesis using ok h aw ri by (simp add: threadResume_def run_simps)
    next
      case w: True
      show ?thesis
      proof (cases "c \<or> threadReady (code_cond C) t h")
        case True
        have "runs R k (stopW t h)" using h inv_stopW [OF i w] t by (auto simp: runs_def)
        then have "runs R k (snd (resumeInternal C t (SendFlag c) (stopW t h)))" using aw by (intro ri) simp_all
        moreover have "threadResume C t c h = resumeInternal C t (SendFlag c) (stopW t h)"
          using ok w stopWaiting_run [OF i w True] by (simp add: threadResume_def run_simps) (simp add: bindM_def)
        ultimately show ?thesis by simp
      next
        case False
        then have "threadResume C t c h = (Inl (AssertionError ''stopWaiting on a thread that is neither ready nor cancelled''), h)"
          using ok w sched_parts(5) [OF i, of t] by (simp add: threadResume_def run_simps) (simp add: bindM_def threadStopWaiting_def run_simps)
        then show ?thesis using h by simp
      qed
    qed
  qed
qed

lemma runs_doneW: "runs R k h \<Longrightarrow> \<not> pt_done (points h p) \<Longrightarrow> runs R k (doneW p h)"
  using inv_doneW [of h p] by (auto simp: runs_def doneW_def updPoint_def updStore_def)

lemma runs_updPoint:
  assumes "runs R k h" "\<And>x. pt_done (f x) = pt_done x" "\<And>x. pt_store (f x) = pt_store x"
  shows "runs R k (updPoint p f h)"
proof -
  have "points (updPoint p f h) q = (if q = p then f (points h p) else points h q)"
    "threads (updPoint p f h) = threads h" "stores (updPoint p f h) = stores h" "nextId (updPoint p f h) = nextId h"
    "threadStore (updPoint p f h) t = threadStore h t" "threadStack (updPoint p f h) = threadStack h"
    "entryStack (updPoint p f h) = entryStack h" for q t
    by (simp_all add: updPoint_def threadStore_def instOf_def storeOf_def)
  then show ?thesis using assms by (auto simp: runs_def sched_inv_def)
qed

lemma keeps_finish:
  assumes "code_ok C"
  shows "keepsRuns R k (pointFinish C p)"
proof -
  have "keepsRuns R k (code_onSettled C p)" by (rule code_okD(3) [OF assms])
  then have c: "keepsRuns R k (catchM (code_onSettled C p) (\<lambda>_. returnM ()))"
    unfolding validE_always by (auto simp: catchM_def run_simps split: prod.splits sum.splits)
  have u: "runs R k h \<Longrightarrow> runs R k (updPoint p (\<lambda>x. x\<lparr>pt_finished := True\<rparr>) h)" for h :: "'a sched_scheme"
    by (rule runs_updPoint) simp_all
  show ?thesis using c u unfolding validE_always by (simp add: pointFinish_def run_simps)
qed

lemma keeps_inner:
  assumes "code_ok C"
  shows "keepsRuns R k (pointResumeInner C p c)"
proof (unfold validE_always, intro allI impI)
  fix h :: "'a sched_scheme" assume h: "runs R k h"
  obtain r h1 where p: "code_produce C p c h = (r, h1)" by (cases "code_produce C p c h")
  have "keepsRuns R k (code_produce C p c)" by (rule code_okD(2) [OF assms])
  then have "runs R k (snd (code_produce C p c h))" using h unfolding validE_always by blast
  then have r1: "runs R k h1" by (simp add: p)
  show "runs R k (snd (pointResumeInner C p c h))"
    unfolding pointResumeInner_def p Let_def
    by (auto intro!: runs_updPoint runs_same [OF _ same_ambient(3)] runs_same [OF _ same_ambient(1)] runs_same [OF _ same_ambient(5)] r1)
qed

lemma pointResume_runs:
  assumes "code_ok C"
  shows "keepsRuns R k (pointResume C p c)"
proof (unfold validE_always, intro allI impI)
  fix h :: "'a sched_scheme" assume h: "runs R k h"
  show "runs R k (snd (pointResume C p c h))"
  proof (cases "\<not> pt_done (points h p) \<and> (pt_cancellable (points h p) \<or> \<not> c)")
    case False
    then show ?thesis using h by (auto simp: pointResume_def run_simps)
  next
    case True
    have "APoint p \<in> set (so_waiting (stores h (pt_store (points h p))))"
      using h True sched_parts(4) by (auto simp: runs_def)
    then have e: "pointResume C p c h = finallyM (pointResumeInner C p c) (pointFinish C p) (doneW p h)"
      using True by (simp add: pointResume_def storeStopWaiting_def run_simps doneW_def) (simp add: updPoint_def updStore_def)
    obtain q h2 where i: "pointResumeInner C p c (doneW p h) = (q, h2)" by (cases "pointResumeInner C p c (doneW p h)")
    have "runs R k (snd (pointResumeInner C p c (doneW p h)))"
      using keeps_inner [OF assms, of R k p c] runs_doneW [OF h] True unfolding validE_always by blast
    then have "runs R k (snd (bindM (pointFinish C p) (\<lambda>_. liftR q) h2))"
      using validE_bind [OF keeps_finish [OF assms, of R k p], of "\<lambda>_. liftR q" "\<lambda>_. runs R k"] i
      unfolding validE_always by (simp add: run_simps)
    then show ?thesis by (simp add: e finallyM_def i)
  qed
qed

lemma agentResume_runs:
  assumes "code_ok C"
  shows "validE (\<lambda>h. runs R k h \<and> (c \<or> (\<forall>t. a = AThread t \<longrightarrow> th_awaiting (threads h t) = None))) (agentResume C a c) (\<lambda>_. runs R k) (\<lambda>_. runs R k)"
  by (cases a) (auto simp: agentResume_def intro: validE_pre [OF threadResume_runs [OF assms]] validE_pre [OF pointResume_runs [OF assms]])

lemma resumeWith_run:
  assumes "th_awaiting (threads h t) \<noteq> None"
  shows "resumeWith C t v h =
    (let h1 = unparkW t h; i = instOf h t in
     if isInstancePoisoned i h1 then (Inr (), h1)
     else if mayEnterFrom i None h1 then
       bindM (enterFrom i None) (\<lambda>_. bracketRun i None (resumeInternal C t (case v of Inl e \<Rightarrow> SendFailure e | Inr r \<Rightarrow> SendValue r))) h1
     else (Inl (AssertionError ''resumeWith: parked thread's instance is not enterable from the host''), h1))"
proof -
  have "(let g = updThread t (\<lambda>x. x\<lparr>th_awaiting := None\<rparr>) h in
      updThread t (\<lambda>x. x\<lparr>th_state := ThSuspended\<rparr>) (updStore (threadStore g t) (\<lambda>x. x\<lparr>so_awaiting := removeAll t (so_awaiting x)\<rparr>) g)) = unparkW t h"
    by (simp add: unparkW_def Let_def)
  moreover have "instOf (unparkW t h) t = instOf h t" by simp
  ultimately show ?thesis using assms by (simp add: resumeWith_def run_simps Let_def)
qed

lemma resumeWith_runs:
  fixes C :: "'g sched_scheme Code"
  assumes "code_ok C"
  shows "keepsRuns R k (resumeWith C t v)"
proof (unfold validE_always, intro allI impI)
  fix h :: "'g sched_scheme" assume h: "runs R k h"
  then have i: "sched_inv h" by (simp add: runs_def)
  show "runs R k (snd (resumeWith C t v h))"
  proof (cases "th_awaiting (threads h t) = None")
    case True
    then show ?thesis using h by (simp add: resumeWith_def run_simps)
  next
    case aw: False
    have t: "t \<notin> R" using h sched_parts(7) [OF i aw] by (auto simp: runs_def)
    define h1 where "h1 = unparkW t h"
    define f where "f = resumeInternal C t (case v of Inl e \<Rightarrow> SendFailure e | Inr r \<Rightarrow> SendValue r)"
    have p1: "runs R k h1 \<and> th_state (threads h1 t) \<noteq> ThWaiting \<and> th_awaiting (threads h1 t) = None"
      using h inv_unparkW [OF i aw] t by (auto simp: h1_def runs_def)
    then have "runs R k (snd (bindM (enterFrom (instOf h t) None) (\<lambda>_. bracketRun (instOf h t) None f) h1))"
      using keeps_entered [of R k "\<lambda>th. th_state (th t) \<noteq> ThWaiting \<and> th_awaiting (th t) = None" f "instOf h t" None,
          OF resumeInternal_runs [OF assms t, of k, where v = "case v of Inl e \<Rightarrow> SendFailure e | Inr r \<Rightarrow> SendValue r", folded f_def]]
      unfolding validE_always by blast
    moreover have "runs R k h1" using p1 by blast
    moreover have "resumeWith C t v h = (if isInstancePoisoned (instOf h t) h1 then (Inr (), h1)
        else if mayEnterFrom (instOf h t) None h1 then bindM (enterFrom (instOf h t) None) (\<lambda>_. bracketRun (instOf h t) None f) h1
        else (Inl (AssertionError ''resumeWith: parked thread's instance is not enterable from the host''), h1))"
      by (simp only: resumeWith_run [OF aw] Let_def f_def h1_def)
    ultimately show ?thesis by simp
  qed
qed

lemma waiting_not_awaiting:
  assumes "sched_inv h" "AThread t \<in> set (so_waiting (stores h s))"
  shows "th_awaiting (threads h t) = None"
  using sched_parts(3,7) [OF assms(1), of t] assms(2) by (cases "th_awaiting (threads h t)") auto

text \<open>What a tick does once it has something to do.\<close>

lemma tick_run:
  fixes h :: "'g sched_scheme"
  obtains (idle) r where "tick C s h = (r, h)" "r = Inr False \<or> r = Inl (JsError ''TypeError'')"
  | (step) a i q where "a \<in> set (readyCandidates (code_cond C) s h)" "agentInst h a = Some i" "mayEnterFrom i None h"
      "tick C s h = bindM (enterFrom i None) (\<lambda>_. bindM (bracketRun i None (agentResume C a False)) (\<lambda>_. returnM True)) (h\<lparr>rngState := q\<rparr>)"
proof -
  define cs where "cs = filter (\<lambda>a. case agentInst h a of None \<Rightarrow> False | Some i \<Rightarrow> mayEnterFrom i None h) (readyCandidates (code_cond C) s h)"
  show thesis
  proof (cases "hasPendingResumptions s h \<or> hasServiceableSettled s h \<or> list_ex (\<lambda>a. agentTask h a = None) (readyCandidates (code_cond C) s h) \<or> cs = []")
    case True
    have "tickCandidates C s h = (if list_ex (\<lambda>a. agentTask h a = None) (readyCandidates (code_cond C) s h)
        then (Inl (JsError ''TypeError''), h) else (Inr cs, h))"
      by (simp add: tickCandidates_def cs_def)
    then have "tick C s h = (Inr False, h) \<or> tick C s h = (Inl (JsError ''TypeError''), h)"
      using True by (auto simp: tick_def run_simps) (auto simp: bindM_def run_simps)
    then show thesis using idle by blast
  next
    case False
    then have tc: "tickCandidates C s h = (Inr cs, h)" by (simp add: tickCandidates_def cs_def)
    obtain a q where ch: "chooseCandidate cs h = (Inr a, h\<lparr>rngState := q\<rparr>)" "a \<in> set cs"
      using chooseCandidate_member [of cs h] False by blast
    have "a \<in> set (readyCandidates (code_cond C) s h)" "case agentInst h a of None \<Rightarrow> False | Some i \<Rightarrow> mayEnterFrom i None h"
      using ch(2) by (auto simp: cs_def)
    moreover obtain i where "agentInst h a = Some i" using calculation(2) by (cases "agentInst h a") auto
    moreover have "tick C s h = bindM (enterFrom i None) (\<lambda>_. bindM (bracketRun i None (agentResume C a False)) (\<lambda>_. returnM True)) (h\<lparr>rngState := q\<rparr>)"
    proof -
      have "agentInst (h\<lparr>rngState := q\<rparr>) a = Some i" using calculation(3)
        by (simp add: agentInst_def agentTask_def split: Agent.splits)
      then show ?thesis using False
        by (simp add: tick_def run_simps bindM_run_Inr [where m = "tickCandidates C s", OF tc] bindM_run_Inr [where m = "chooseCandidate cs", OF ch(1)])
    qed
    ultimately show thesis using step by auto
  qed
qed

lemma tick_runs:
  fixes C :: "'g sched_scheme Code"
  assumes "code_ok C"
  shows "keepsRuns R k (tick C s)"
proof (unfold validE_always, intro allI impI)
  fix h :: "'g sched_scheme" assume h: "runs R k h"
  show "runs R k (snd (tick C s h))"
  proof (cases rule: tick_run [of C s h])
    case (idle r)
    then show ?thesis using h by simp
  next
    case (step a i q)
    have "th_awaiting (threads h t) = None" if "a = AThread t" for t
      using step(1) that h waiting_not_awaiting [of h t s] by (simp add: readyCandidates_def runs_def)
    then have p: "runs R k (h\<lparr>rngState := q\<rparr>) \<and> (False \<or> (\<forall>t. a = AThread t \<longrightarrow> th_awaiting (threads (h\<lparr>rngState := q\<rparr>) t) = None))"
      using runs_same [OF h same_updates(5)] by simp
    have e: "tick C s h = bindM (bindM (enterFrom i None) (\<lambda>_. bracketRun i None (agentResume C a False))) (\<lambda>_. returnM True) (h\<lparr>rngState := q\<rparr>)"
      by (simp add: step(4) bindM_assoc)
    have "runs R k (snd (bindM (enterFrom i None) (\<lambda>_. bracketRun i None (agentResume C a False)) (h\<lparr>rngState := q\<rparr>)))"
      using p keeps_entered [of R k "\<lambda>th. False \<or> (\<forall>t. a = AThread t \<longrightarrow> th_awaiting (th t) = None)" "agentResume C a False" i None,
          OF agentResume_runs [OF assms]]
      unfolding validE_always by blast
    then show ?thesis unfolding e
      by (cases "bindM (enterFrom i None) (\<lambda>_. bracketRun i None (agentResume C a False)) (h\<lparr>rngState := q\<rparr>)")
        (auto simp: bindM_def [of "bindM (enterFrom i None) _"] run_simps split: sum.splits)
  qed
qed

lemma keeps_state: "keepsRuns R k (setTaskState j st)"
  by (rule keeps_same) (simp add: setTaskState_def run_simps)

lemma choose_resume_runs:
  fixes C :: "'g sched_scheme Code"
  assumes "code_ok C"
  shows "keepsRuns R k (bindM (chooseCandidate cs) (\<lambda>a. agentResume C a True))"
proof (rule validE_bind)
  show "validE (runs R k) (chooseCandidate cs) (\<lambda>_. runs R k) (\<lambda>_. runs R k :: 'g sched_scheme \<Rightarrow> bool)"
  proof (rule keeps_same)
    fix h :: "'g sched_scheme"
    show "same_sched h (snd (chooseCandidate cs h))"
    proof (cases "cs = []")
      case False
      then obtain a q where "chooseCandidate cs h = (Inr a, h\<lparr>rngState := q\<rparr>)" using chooseCandidate_member by blast
      then show ?thesis by simp
    qed (simp add: chooseCandidate_def run_simps)
  qed
qed (rule validE_pre [OF agentResume_runs [OF assms]], simp)

lemma requestCancellation_runs:
  fixes C :: "'g sched_scheme Code"
  assumes "code_ok C"
  shows "keepsRuns R k (requestCancellation C j c)"
proof -
  have e: "keepsRuns R k (bindM (enterFrom i c) (\<lambda>_. bracketRun i c (bindM (chooseCandidate cs) (\<lambda>a. agentResume C a True))))"
    for i and cs :: "Agent list"
    using keeps_entered [where A = "\<lambda>_. True" and f = "bindM (chooseCandidate cs) (\<lambda>a. agentResume C a True)" and R = R and k = k and i = i and c = c]
      choose_resume_runs [OF assms] by simp
  have t: "keepsRuns R k (threadResume C t True)" for t
    by (rule validE_pre [OF threadResume_runs [OF assms]]) simp
  show ?thesis
    unfolding requestCancellation_def
    by (intro validE_bind_gets validE_if validE_bind_assert validE_pre [OF validE_bind [OF keeps_state]]
        validE_pre [OF keeps_state] validE_option validE_pre [OF t] validE_pre [OF e]) (auto intro: validE_throw t e)
qed

end
