(* ===== verification/SchedLoops.thy ===== *)
theory SchedLoops
  imports SchedInv "HOL-Library.Multiset"
begin

text \<open>
  The loops of the scheduler: \<open>serviceSettled\<close> ends and leaves nothing it could dispatch, a tick
  brackets what it resumes, chooses in arrival order, and idles exactly when there is nothing to do.
\<close>

section \<open>The settled list\<close>

definition keepSettled :: "'g sched_scheme \<Rightarrow> 'g sched_scheme \<Rightarrow> bool" where
  "keepSettled h h' \<longleftrightarrow> (\<forall>s. so_settled (stores h' s) = so_settled (stores h s))"

lemma settled_trans: "keepSettled a b \<Longrightarrow> keepSettled b c \<Longrightarrow> keepSettled a c"
  by (simp add: keepSettled_def)

lemmas settled_bind = stays_bind [where R = keepSettled, OF _ _ settled_trans]

lemma settled_basic:
  "stays keepSettled (returnM x)" "stays keepSettled (throwM e)" "stays keepSettled (getsM g)" "stays keepSettled (assertM c msg)"
  "stays keepSettled (liftR r)"
  by (simp_all add: stays_def run_simps keepSettled_def)

lemma settled_modify: "(\<And>h. keepSettled h (f h)) \<Longrightarrow> stays keepSettled (modifyM f)"
  by (simp add: stays_def run_simps)

lemma settled_updates:
  "keepSettled h (updThread t f h)" "keepSettled h (h\<lparr>threadStack := ts\<rparr>)" "keepSettled h (noteAwaiting s t h)"
  "keepSettled h (updStore s (\<lambda>x. x\<lparr>so_waiting := w x\<rparr>) h)" "keepSettled h (updStore s (\<lambda>x. x\<lparr>so_awaiting := w' x\<rparr>) h)"
  "keepSettled h (setMayEnter i b h)"
  by (simp_all add: keepSettled_def updThread_def updStore_def noteAwaiting_def setMayEnter_def)

lemma settled_more: "heap.more h' = heap.more h \<Longrightarrow> keepSettled h h'"
  using sched_more(4) [of h' h] by (simp add: keepSettled_def)

lemma settled_finally:
  assumes "stays keepSettled f" "stays keepSettled g"
  shows "stays keepSettled (finallyM f g)"
  unfolding stays_def
proof
  fix h :: "'a sched_scheme"
  obtain r h1 where f: "f h = (r, h1)" by (cases "f h")
  have "stays keepSettled (bindM g (\<lambda>_. liftR r))" by (intro settled_bind settled_basic assms)
  then have "keepSettled h1 (snd (bindM g (\<lambda>_. liftR r) h1))" by (simp add: stays_def)
  moreover have "keepSettled h h1" by (rule staysD [OF assms(1) f])
  ultimately show "keepSettled h (snd (finallyM f g h))" using settled_trans by (simp add: finallyM_def f) blast
qed

lemma settled_catch:
  assumes "stays keepSettled f" "\<And>e. stays keepSettled (k e)"
  shows "stays keepSettled (catchM f k)"
  unfolding stays_def
proof
  fix h :: "'a sched_scheme"
  obtain r h1 where f: "f h = (r, h1)" by (cases "f h")
  have "keepSettled h h1" by (rule staysD [OF assms(1) f])
  moreover have "keepSettled h1 (snd (k e h1))" for e using assms(2) by (simp add: stays_def)
  ultimately show "keepSettled h (snd (catchM f k h))" using settled_trans by (cases r) (auto simp: catchM_def f intro: settled_trans [of h h1])
qed

lemma settled_park: "stays keepSettled (park t req)"
  unfolding park_def threadStartWaiting_def storeStartWaiting_def
  by (auto intro!: settled_bind settled_basic settled_modify settled_updates split: option.splits)

lemma settled_open: "stays keepSettled (openAll xs)" "stays keepSettled (closeAll xs)"
  by (induction xs) (auto intro!: settled_bind settled_basic settled_modify settled_updates)

lemma settled_fold: "keepSettled h (fold (\<lambda>x. setMayEnter x b) xs h)"
  by (induction xs arbitrary: h) (auto simp: keepSettled_def setMayEnter_def)

lemma settled_gates:
  "stays keepSettled (leaveTo i c)" "stays keepSettled (enterFrom i c)" "stays keepSettled (releaseSyntheticRootOnPoison i)"
proof -
  show "stays keepSettled (leaveTo i c)" unfolding leaveTo_def by (rule settled_bind [OF settled_basic(3) settled_open(1)])
  show "stays keepSettled (enterFrom i c)" unfolding enterFrom_def by (rule settled_bind [OF settled_basic(3) settled_open(2)])
  show "stays keepSettled (releaseSyntheticRootOnPoison i)"
    unfolding releaseSyntheticRootOnPoison_def by (intro settled_modify settled_fold)
qed

lemma settled_poison: "stays keepSettled (notifyInstancePoisoned i e)"
  using keep_poison [of i e] unfolding stays_def by (auto simp: gateKeep_def intro: settled_more)

lemma settled_bracket:
  fixes f :: "('g sched_scheme, unit) sm"
  assumes "stays keepSettled f"
  shows "stays keepSettled (bracketRun i c f)"
  unfolding stays_def
proof
  fix h :: "'g sched_scheme"
  obtain r h1 where f: "f h = (r, h1)" by (cases "f h")
  have l: "keepSettled h1 (snd (leaveTo i c h1))" by (rule settled_gates(1) [unfolded stays_def, rule_format])
  have "stays keepSettled (bindM (leaveTo i c) (\<lambda>_. throwM e :: ('g sched_scheme, unit) sm))" for e
    by (intro settled_bind settled_gates settled_basic)
  then have a: "keepSettled h1 (snd (bindM (leaveTo i c) (\<lambda>_. throwM e :: ('g sched_scheme, unit) sm) h1))" for e
    unfolding stays_def by blast
  have "stays keepSettled (bindM (releaseSyntheticRootOnPoison i) (\<lambda>_. bindM (notifyInstancePoisoned i e) (\<lambda>_. throwM e :: ('g sched_scheme, unit) sm)))" for e
    by (intro settled_bind settled_gates settled_basic settled_poison)
  then have b: "keepSettled h1 (snd (bindM (releaseSyntheticRootOnPoison i) (\<lambda>_. bindM (notifyInstancePoisoned i e) (\<lambda>_. throwM e :: ('g sched_scheme, unit) sm)) h1))" for e
    unfolding stays_def by blast
  have "keepSettled h h1" by (rule staysD [OF assms f])
  then show "keepSettled h (snd (bracketRun i c f h))" using l a b f unfolding bracketRun_def
    by (cases r) (auto split: error.splits intro: settled_trans [of h h1])
qed

text \<open>
  A promise's reaction runs after the code that is running, so the code a scheduler operation runs
  never adds to the settled list.
\<close>

definition reactions_later :: "'g sched_scheme Code \<Rightarrow> bool" where
  "reactions_later C \<longleftrightarrow> (\<forall>t v. stays keepSettled (code_body C t v))"

lemma settled_resumeInternal: "reactions_later C \<Longrightarrow> stays keepSettled (resumeInternal C t v)"
  unfolding resumeInternal_def pushCurrentThread_def popCurrentThread_def reactions_later_def
  by (intro settled_bind settled_finally settled_catch)
    (auto intro!: settled_bind settled_basic settled_modify settled_updates settled_park split: Step.splits)

lemma settled_resumeWith: "reactions_later C \<Longrightarrow> stays keepSettled (resumeWith C t v)"
  unfolding resumeWith_def
  by (auto intro!: settled_bind settled_basic settled_modify settled_updates settled_gates settled_bracket settled_resumeInternal)

section \<open>The service loop\<close>

lemma splice_length: "n < length xs \<Longrightarrow> length (take n xs @ drop (Suc n) xs) < length xs"
  by simp

lemma runs_splice: "runs R k h \<Longrightarrow> runs R k (spliceSettled s n h)"
  unfolding spliceSettled_def by (rule runs_same [OF _ same_updates(7)])

lemma find_upt:
  "find P [0..<m] = Some n \<Longrightarrow> n < m \<and> P n" "find P [0..<m] = None \<longleftrightarrow> (\<forall>n<m. \<not> P n)"
  by (auto simp: find_Some_iff find_None_iff)

text \<open>
  The service of a settled list as a run of steps, with the log of what became of its entries:
  \<open>service_run C s h ds rs q h'\<close> goes from \<open>h\<close> to \<open>h'\<close> dropping the entries \<open>ds\<close> and resuming the entries \<open>rs\<close>, in this
  order each, and ends as \<open>q\<close> says.  An entry is due when its thread is no longer parked, or its instance is poisoned or may
  be entered; every step takes the first entry that is due.
\<close>

definition due :: "nat \<Rightarrow> 'g sched_scheme \<Rightarrow> nat \<times> CoreRaw result \<Rightarrow> bool" where
  "due s h e \<longleftrightarrow> fst e \<notin> set (so_awaiting (stores h s)) \<or> poisonCause h (instOf h (fst e)) \<noteq> None \<or> mayEnterFrom (instOf h (fst e)) None h"

inductive service_run :: "'g sched_scheme Code \<Rightarrow> nat \<Rightarrow> 'g sched_scheme \<Rightarrow> (nat \<times> CoreRaw result) list \<Rightarrow>
    (nat \<times> CoreRaw result) list \<Rightarrow> unit result \<Rightarrow> 'g sched_scheme \<Rightarrow> bool" for C s where
  stop: "\<forall>e \<in> set (so_settled (stores h s)). \<not> due s h e \<Longrightarrow> service_run C s h [] [] (Inr ()) h"
| drop_stale: "so_settled (stores h s) = xs @ e # ys \<Longrightarrow> \<forall>x \<in> set xs. \<not> due s h x \<Longrightarrow> fst e \<notin> set (so_awaiting (stores h s)) \<Longrightarrow>
    service_run C s (updStore s (\<lambda>y. y\<lparr>so_settled := xs @ ys\<rparr>) h) ds rs q h' \<Longrightarrow> service_run C s h (e # ds) rs q h'"
| resumed: "so_settled (stores h s) = xs @ e # ys \<Longrightarrow> \<forall>x \<in> set xs. \<not> due s h x \<Longrightarrow> fst e \<in> set (so_awaiting (stores h s)) \<Longrightarrow> due s h e \<Longrightarrow>
    resumeWith C (fst e) (snd e) (updStore s (\<lambda>y. y\<lparr>so_settled := xs @ ys\<rparr>) h) = (Inr (), h1) \<Longrightarrow>
    service_run C s h1 ds rs q h' \<Longrightarrow> service_run C s h ds (e # rs) q h'"
| failed: "so_settled (stores h s) = xs @ e # ys \<Longrightarrow> \<forall>x \<in> set xs. \<not> due s h x \<Longrightarrow> fst e \<in> set (so_awaiting (stores h s)) \<Longrightarrow> due s h e \<Longrightarrow>
    resumeWith C (fst e) (snd e) (updStore s (\<lambda>y. y\<lparr>so_settled := xs @ ys\<rparr>) h) = (Inl er, h1) \<Longrightarrow>
    service_run C s h [] [e] (Inl er) h1"

lemma due_serviceable: "due s h e = serviceable s h e"
  by (simp add: due_def serviceable_def dispatchableTail_def Let_def isInstancePoisoned_def)

lemma service_accounts:
  assumes "service_run C s h ds rs q h'" "reactions_later C"
  shows "mset (so_settled (stores h s)) = mset ds + mset rs + mset (so_settled (stores h' s)) \<and>
    (\<forall>u. u \<noteq> s \<longrightarrow> so_settled (stores h' u) = so_settled (stores h u)) \<and>
    (q = Inr () \<longrightarrow> (\<forall>e \<in> set (so_settled (stores h' s)). \<not> due s h' e))"
  using assms(1)
proof induction
  case (drop_stale h xs e ys ds rs q h')
  then show ?case by (simp add: updStore_def)
next
  case (resumed h xs e ys h1 ds rs q h')
  have "keepSettled (updStore s (\<lambda>y. y\<lparr>so_settled := xs @ ys\<rparr>) h) h1"
    by (rule staysD [OF settled_resumeWith [OF assms(2)] resumed.hyps(5)])
  then show ?case using resumed.hyps(1) resumed.IH by (simp add: keepSettled_def updStore_def)
next
  case (failed h xs e ys er h1)
  have "keepSettled (updStore s (\<lambda>y. y\<lparr>so_settled := xs @ ys\<rparr>) h) h1"
    by (rule staysD [OF settled_resumeWith [OF assms(2)] failed.hyps(5)])
  then show ?case using failed.hyps(1) by (simp add: keepSettled_def updStore_def)
qed simp

lemma find_split:
  assumes "find (\<lambda>n. P (xs ! n)) [0..<length xs] = Some n"
  shows "n < length xs" "xs = take n xs @ xs ! n # drop (Suc n) xs" "\<forall>x \<in> set (take n xs). \<not> P x" "P (xs ! n)"
proof -
  obtain i where i: "i < length xs" "n = i" "P (xs ! i)" "\<forall>j<i. \<not> P (xs ! j)"
    using assms by (auto simp: find_Some_iff)
  then show "n < length xs" "xs = take n xs @ xs ! n # drop (Suc n) xs" "P (xs ! n)" by (simp_all add: id_take_nth_drop [symmetric])
  show "\<forall>x \<in> set (take n xs). \<not> P x" using i by (auto simp: in_set_conv_nth)
qed

lemma serviceLoop_ends:
  fixes C :: "'g sched_scheme Code"
  assumes "code_ok C" "reactions_later C" "runs R k h"
  shows "\<exists>q h' ds rs. serviceLoop C s did h = Some (case q of Inl e \<Rightarrow> Inl e | Inr _ \<Rightarrow> Inr (did \<or> rs \<noteq> []), h') \<and> runs R k h' \<and>
     service_run C s h ds rs q h'"
  using assms(3)
proof (induction "length (so_settled (stores h s))" arbitrary: h did rule: less_induct)
  case less
  let ?xs = "so_settled (stores h s)"
  let ?f = "find (\<lambda>n. serviceable s h (?xs ! n)) [0..<length ?xs]"
  show ?case
  proof (cases ?f)
    case None
    then have "\<forall>e \<in> set ?xs. \<not> due s h e" unfolding due_serviceable by (metis find_upt(2) in_set_conv_nth)
    then have "service_run C s h [] [] (Inr ()) h" by (rule service_run.stop)
    moreover have "serviceLoop C s did h = Some (case Inr () of Inl e \<Rightarrow> Inl e | Inr _ \<Rightarrow> Inr (did \<or> [] \<noteq> []), h)"
      using None by (subst serviceLoop.simps) simp
    ultimately show ?thesis using less.prems by blast
  next
    case (Some n)
    note n = find_split [of "serviceable s h", OF Some, folded due_serviceable]
    define e where "e = ?xs ! n"
    define h1 where "h1 = updStore s (\<lambda>y. y\<lparr>so_settled := take n ?xs @ drop (Suc n) ?xs\<rparr>) h"
    have sp: "spliceSettled s n h = h1" by (simp add: h1_def spliceSettled_def updStore_def)
    have l1: "length (so_settled (stores h1 s)) < length ?xs"
      using n(1) by (simp add: h1_def updStore_def)
    have r1: "runs R k h1" unfolding sp [symmetric] by (rule runs_splice [OF less.prems])
    show ?thesis
    proof (cases "fst e \<in> set (so_awaiting (stores h s))")
      case False
      then have "serviceLoop C s did h = serviceLoop C s did h1"
        using Some by (subst serviceLoop.simps) (simp add: sp Let_def e_def)
      moreover obtain q h' ds rs where
        "serviceLoop C s did h1 = Some (case q of Inl e \<Rightarrow> Inl e | Inr _ \<Rightarrow> Inr (did \<or> rs \<noteq> []), h')" "runs R k h'" "service_run C s h1 ds rs q h'"
        using less.hyps [OF l1 r1] by blast
      moreover have "service_run C s h1 ds rs q h' \<Longrightarrow> service_run C s h (e # ds) rs q h'" for ds rs q h'
        using service_run.drop_stale [OF n(2,3)] False by (simp add: e_def h1_def)
      ultimately show ?thesis by metis
    next
      case True
      obtain p h2 where rw: "resumeWith C (fst e) (snd e) h1 = (p, h2)" by (cases "resumeWith C (fst e) (snd e) h1")
      have "runs R k (snd (resumeWith C (fst e) (snd e) h1))"
        using resumeWith_runs [OF assms(1)] r1 unfolding validE_always by blast
      then have r2: "runs R k h2" by (simp add: rw)
      have "keepSettled h1 h2" by (rule staysD [OF settled_resumeWith [OF assms(2)] rw])
      then have l2: "length (so_settled (stores h2 s)) < length ?xs" using l1 by (simp add: keepSettled_def)
      note step = n(2,3) True [unfolded e_def] n(4) rw [unfolded e_def h1_def]
      show ?thesis
      proof (cases p)
        case (Inl er)
        then have "serviceLoop C s did h = Some (Inl er, h2)"
          using Some True rw by (subst serviceLoop.simps) (simp add: sp Let_def e_def)
        moreover have "service_run C s h [] [e] (Inl er) h2"
          using service_run.failed [OF step(1-4)] step(5) Inl by (simp add: e_def)
        ultimately show ?thesis using r2 by (intro exI [of _ "Inl er"]) auto
      next
        case (Inr u)
        then have "serviceLoop C s did h = serviceLoop C s True h2"
          using Some True rw by (subst serviceLoop.simps) (simp add: sp Let_def e_def)
        moreover obtain q h' ds rs where
          "serviceLoop C s True h2 = Some (case q of Inl e \<Rightarrow> Inl e | Inr _ \<Rightarrow> Inr (True \<or> rs \<noteq> []), h')" "runs R k h'" "service_run C s h2 ds rs q h'"
          using less.hyps [OF l2 r2, of True] by blast
        moreover have "service_run C s h2 ds rs q h' \<Longrightarrow> service_run C s h ds (e # rs) q h'" for ds rs q h'
          using service_run.resumed [OF step(1-4)] step(5) Inr by (simp add: e_def)
        moreover have "(case q of Inl e \<Rightarrow> Inl e | Inr _ \<Rightarrow> Inr (True \<or> rs \<noteq> [])) =
            (case q of Inl e \<Rightarrow> Inl e | Inr _ \<Rightarrow> Inr (did \<or> e # rs \<noteq> []))" for rs and q :: "unit result"
          by (cases q) simp_all
        ultimately have "serviceLoop C s did h = Some (case q of Inl e \<Rightarrow> Inl e | Inr _ \<Rightarrow> Inr (did \<or> e # rs \<noteq> []), h')"
          "runs R k h'" "service_run C s h ds (e # rs) q h'" by simp_all
        then show ?thesis by blast
      qed
    qed
  qed
qed

section \<open>A state to run on\<close>

definition newStore :: Store where
  "newStore = \<lparr>so_waiting = [], so_awaiting = [], so_settled = [], so_pendingResumptions = [], so_pendingHostCalls = [], so_hostFailure = None\<rparr>"

definition syncFt :: FuncType where
  "syncFt = \<lparr>ftParams = [], ftResults = [], ftAsync = False\<rparr>"

definition asyncFt :: FuncType where
  "asyncFt = \<lparr>ftParams = [], ftResults = [], ftAsync = True\<rparr>"

definition plainOptions :: TaskOptions where
  "plainOptions = \<lparr>to_async = False, to_callback = False, to_stringEncoding = Utf8, to_memory = None\<rparr>"

text \<open>Instance 1 under the root 0; every task is the task 0 of that instance.\<close>

definition emptySched :: sched where
  "emptySched = heap.extend (newInstance 1 0 (newRoot 0 emptyHeap))
     (sched.fields (\<lambda>_. newThread 0 PcStart)
       (\<lambda>_. \<lparr>pt_store = 0, pt_task = None, pt_owner = None, pt_ready = None, pt_cancellable = False, pt_kind = YieldPoint,
             pt_done = True, pt_finished = True, pt_outcome = None\<rparr>)
       (\<lambda>_. newTask syncFt plainOptions 1) (\<lambda>_. newStore) (\<lambda>_. emptyTable) (\<lambda>_. None) (\<lambda>_. 0) [] [] [] [] (\<lambda>_. None) (\<lambda>_. None) (\<lambda>_. None))"

text \<open>Code that finishes at once.\<close>

definition quietCode :: "'s Code" where
  "quietCode = \<lparr>code_cond = \<lambda>_ _. True, code_body = \<lambda>_ _. returnM Finished, code_produce = \<lambda>_ _. returnM VUndef, code_onSettled = \<lambda>_. returnM ()\<rparr>"

lemma quiet_ok: "code_ok quietCode" "reactions_later quietCode"
  by (auto simp: code_ok_def reactions_later_def quietCode_def okStep_def intro!: validE_return settled_basic)

lemma emptySched_simps [simp]:
  "threads emptySched t = newThread 0 PcStart" "tasks emptySched k = newTask syncFt plainOptions 1" "stores emptySched s = newStore"
  "pt_done (points emptySched p)" "instStore emptySched i = None" "threadStack emptySched = []" "entryStack emptySched = []"
  "activationClaims emptySched = []" "schedSeed emptySched = None" "poisonCause emptySched i = None"
  "exclusiveThread emptySched i = None" "instThreads emptySched i = emptyTable" "numWaitingToEnter emptySched i = 0"
  by (simp_all add: emptySched_def heap.defs sched.defs newInstance_def newRoot_def emptyHeap_def)

lemma emptySched_gates:
  "mayEnter emptySched i" "instParent emptySched i = (if i = 1 then Some 0 else None)" "isRoot emptySched i \<longleftrightarrow> i = 0"
  by (simp_all add: emptySched_def heap.defs newInstance_def newRoot_def emptyHeap_def)

lemma emptySched_inv: "sched_inv emptySched"
  by (simp add: sched_inv_def newStore_def newThread_def)

lemma emptySched_tree: "tree_ok emptySched"
  by (simp add: tree_ok_def emptySched_gates)

section \<open>Properties\<close>

lemma runs_result:
  assumes "keepsRuns {} (threadStack h, entryStack h) f" "sched_inv h"
  shows "sched_inv (snd (f h)) \<and> threadStack (snd (f h)) = threadStack h \<and> entryStack (snd (f h)) = entryStack h"
  using assms unfolding validE_always by (auto simp: runs_def)

text \<open>C6: The discipline of the scheduler: whatever code runs inside them that keeps the discipline, a tick, the
  resumption of a settled promise, a cancellation request and the resumption of a frame keep it, whether they return or throw,
  and leave the ambient stacks of running activations as they were.\<close>

theorem scheduler_discipline:
  assumes "code_ok C" "sched_inv h"
  shows "(\<forall>s h'. snd (tick C s h) = h' \<longrightarrow> sched_inv h' \<and> threadStack h' = threadStack h \<and> entryStack h' = entryStack h) \<and>
    (\<forall>t v h'. snd (resumeWith C t v h) = h' \<longrightarrow> sched_inv h' \<and> threadStack h' = threadStack h \<and> entryStack h' = entryStack h) \<and>
    (\<forall>k c h'. snd (requestCancellation C k c h) = h' \<longrightarrow> sched_inv h' \<and> threadStack h' = threadStack h \<and> entryStack h' = entryStack h) \<and>
    (\<forall>p c h'. snd (pointResume C p c h) = h' \<longrightarrow> sched_inv h' \<and> threadStack h' = threadStack h \<and> entryStack h' = entryStack h)"
  using runs_result [OF tick_runs [OF assms(1)] assms(2)] runs_result [OF resumeWith_runs [OF assms(1)] assms(2)]
    runs_result [OF requestCancellation_runs [OF assms(1)] assms(2)] runs_result [OF pointResume_runs [OF assms(1)] assms(2)]
  by simp

text \<open>Thread 1 waits for its turn.\<close>

definition waitingSched :: sched where
  "waitingSched = startW 1 Always emptySched"

lemma waitingSched_inv: "sched_inv waitingSched"
  unfolding waitingSched_def by (rule inv_startW [OF emptySched_inv]) (simp_all add: newThread_def)

theorem scheduler_discipline_witness:
  "\<exists>h'. tick quietCode 0 waitingSched = (Inr True, h') \<and> sched_inv h' \<and> th_state (threads h' 1) = ThDone \<and>
     so_waiting (stores h' 0) = [] \<and> threadStack h' = []"
proof -
  have "fst (tick quietCode 0 waitingSched) = Inr True" "th_state (threads (snd (tick quietCode 0 waitingSched)) 1) = ThDone"
    "so_waiting (stores (snd (tick quietCode 0 waitingSched)) 0) = []"
    by code_simp+
  moreover have "sched_inv (snd (tick quietCode 0 waitingSched))" "threadStack (snd (tick quietCode 0 waitingSched)) = []"
    using scheduler_discipline [OF quiet_ok(1) waitingSched_inv] by (auto simp: waitingSched_def)
  ultimately show ?thesis by (metis prod.collapse)
qed

text \<open>C20: Servicing the settled promises ends, since the code it resumes cannot settle further ones, and it is a run that
  takes the first entry due at each step: an entry whose thread is no longer parked is dropped, a parked one is resumed
  with what its promise settled to, once its instance is poisoned or may be entered. Every entry is dropped, resumed or
  still in the list, no other store's list changes, the discipline is kept, the flag returned tells whether anything was resumed, an exception of a
  resumption ends the run there, and otherwise no entry is left that is due.\<close>

theorem service_ends:
  assumes "code_ok C" "reactions_later C" "sched_inv h"
  shows "\<exists>ds rs q h'. serviceSettled C s h = Some (case q of Inl e \<Rightarrow> Inl e | Inr _ \<Rightarrow> Inr (rs \<noteq> []), h') \<and>
     service_run C s h ds rs q h' \<and> sched_inv h' \<and>
     mset (so_settled (stores h s)) = mset ds + mset rs + mset (so_settled (stores h' s)) \<and>
     (\<forall>u. u \<noteq> s \<longrightarrow> so_settled (stores h' u) = so_settled (stores h u)) \<and>
     (q = Inr () \<longrightarrow> (\<forall>e \<in> set (so_settled (stores h' s)). \<not> due s h' e))"
proof -
  have "runs {} (threadStack h, entryStack h) h" using assms(3) by (simp add: runs_def)
  from serviceLoop_ends [OF assms(1,2) this, of s False] obtain q h' ds rs where
    r0: "serviceLoop C s False h = Some (case q of Inl e \<Rightarrow> Inl e | Inr _ \<Rightarrow> Inr (False \<or> rs \<noteq> []), h')"
      "runs {} (threadStack h, entryStack h) h'" "service_run C s h ds rs q h'" by blast
  have "serviceLoop C s False h = Some (case q of Inl e \<Rightarrow> Inl e | Inr _ \<Rightarrow> Inr (rs \<noteq> []), h')"
    using r0(1) by (cases q) simp_all
  note r = this r0(2,3)
  show ?thesis using r service_accounts [OF r(3) assms(2)]
    by (intro exI [of _ ds] exI [of _ rs] exI [of _ q] exI [of _ h']) (simp add: serviceSettled_def runs_def)
qed

text \<open>Threads 1 and 2 are parked on promises, and the first has settled.\<close>

definition parkedSched :: sched where
  "parkedSched = promiseSettled 0 1 (Inr RawUndefined) (noteW 2 8 (noteW 1 7 emptySched))"

lemma parkedSched_inv: "sched_inv parkedSched"
proof -
  have 1: "sched_inv (noteW 1 7 emptySched)"
    by (rule inv_noteW [OF emptySched_inv]) (simp_all add: newThread_def)
  have "sched_inv (noteW 2 8 (noteW 1 7 emptySched))"
    by (rule inv_noteW [OF 1]) (simp_all add: noteW_def noteAwaiting_def newThread_def)
  then show ?thesis unfolding parkedSched_def promiseSettled_def
    by (intro inv_same [OF inv_same [OF _ same_updates(7)] same_release])
qed

theorem service_ends_witness:
  "\<exists>ds rs q h'. serviceSettled quietCode 0 parkedSched = Some (case q of Inl e \<Rightarrow> Inl e | Inr _ \<Rightarrow> Inr (rs \<noteq> []), h') \<and>
     service_run quietCode 0 parkedSched ds rs q h' \<and> mset ds + mset rs + mset (so_settled (stores h' 0)) = {#(1, Inr RawUndefined)#}"
proof -
  have "so_settled (stores parkedSched 0) = [(1, Inr RawUndefined)]" by code_simp
  then have "mset (so_settled (stores parkedSched 0)) = {#(1, Inr RawUndefined)#}" by simp
  then show ?thesis using service_ends [OF quiet_ok parkedSched_inv, of 0] by metis
qed

text \<open>C33: Under the default policy a tick serves waiters in arrival order: with no resumption in flight and no settled
  tail to service it resumes, inside its instance, the first waiter that is ready and whose instance can be entered, and when there is none
  it returns false and changes nothing.\<close>

theorem tick_fifo:
  assumes "schedSeed h = None" "\<not> hasPendingResumptions s h" "\<not> hasServiceableSettled s h"
    "\<forall>a \<in> set (so_waiting (stores h s)). agentReady (code_cond C) a h \<longrightarrow> agentTask h a \<noteq> None"
  defines "eligible \<equiv> filter (\<lambda>a. agentReady (code_cond C) a h \<and> mayEnterFrom (the (agentInst h a)) None h) (so_waiting (stores h s))"
  shows "tick C s h =
    (case eligible of
       [] \<Rightarrow> (Inr False, h)
     | a # _ \<Rightarrow>
         bindM (enterFrom (the (agentInst h a)) None) (\<lambda>_.
         bindM (bracketRun (the (agentInst h a)) None (agentResume C a False)) (\<lambda>_. returnM True)) h)"
proof -
  have t: "\<not> list_ex (\<lambda>a. agentTask h a = None) (readyCandidates (code_cond C) s h)"
    using assms(4) by (auto simp: list_ex_iff readyCandidates_def)
  have "(case agentInst h a of None \<Rightarrow> False | Some i \<Rightarrow> mayEnterFrom i None h) \<longleftrightarrow> mayEnterFrom (the (agentInst h a)) None h"
    if "a \<in> set (readyCandidates (code_cond C) s h)" for a
    using that assms(4) by (auto simp: readyCandidates_def agentInst_def)
  then have "filter (\<lambda>a. case agentInst h a of None \<Rightarrow> False | Some i \<Rightarrow> mayEnterFrom i None h) (readyCandidates (code_cond C) s h) =
      filter (\<lambda>a. mayEnterFrom (the (agentInst h a)) None h) (readyCandidates (code_cond C) s h)"
    by (rule filter_cong [OF refl])
  also have "\<dots> = eligible" by (auto simp: eligible_def readyCandidates_def intro: filter_cong)
  finally have tc: "tickCandidates C s h = (Inr eligible, h)" using t by (simp add: tickCandidates_def)
  show ?thesis
  proof (cases eligible)
    case Nil
    then show ?thesis using assms(2,3) by (simp add: tick_def run_simps bindM_run_Inr [where m = "tickCandidates C s", OF tc])
  next
    case (Cons a as)
    then have "chooseCandidate eligible h = (Inr a, h)" using assms(1) by (simp add: chooseCandidate_def run_simps)
    then show ?thesis using assms(2,3) Cons
      by (simp add: tick_def run_simps bindM_run_Inr [where m = "tickCandidates C s", OF tc] bindM_run_Inr [where m = "chooseCandidate (a # as)"])
  qed
qed

theorem tick_fifo_witness:
  "tick quietCode 0 (startW 2 Always waitingSched) =
     bindM (enterFrom 1 None) (\<lambda>_. bindM (bracketRun 1 None (agentResume quietCode (AThread 1) False)) (\<lambda>_. returnM True)) (startW 2 Always waitingSched)"
proof -
  let ?h = "startW 2 Always waitingSched"
  have w: "so_waiting (stores ?h 0) = [AThread 1, AThread 2]" by code_simp
  have 1: "schedSeed ?h = None" "\<not> hasPendingResumptions 0 ?h" "\<not> hasServiceableSettled 0 ?h" by code_simp+
  have 2: "\<forall>a \<in> set (so_waiting (stores ?h 0)). agentReady (code_cond quietCode) a ?h \<longrightarrow> agentTask ?h a \<noteq> None"
    unfolding w by (simp add: agentTask_def)
  have 3: "agentReady (code_cond quietCode) (AThread 1) ?h" "mayEnterFrom (the (agentInst ?h (AThread 1))) None ?h" "the (agentInst ?h (AThread 1)) = 1"
    by code_simp+
  show ?thesis using tick_fifo [OF 1 2] 3 unfolding w by (simp del: startW_fields)
qed

section \<open>Frames\<close>

text \<open>A new frame takes a fresh address and joins the list.\<close>

definition mintW :: "nat \<Rightarrow> Point \<Rightarrow> 'g sched_scheme \<Rightarrow> 'g sched_scheme" where
  "mintW s x h = updStore s (\<lambda>y. y\<lparr>so_waiting := so_waiting y @ [APoint (nextId h)]\<rparr>)
     (updPoint (nextId h) (\<lambda>_. x) (h\<lparr>nextId := Suc (nextId h)\<rparr>))"

lemma runs_mintW:
  assumes "runs R k h" "\<not> pt_done x" "pt_store x = s"
  shows "runs R k (mintW s x h)"
proof -
  have i: "sched_inv h" using assms(1) by (simp add: runs_def)
  note q = sched_parts [OF i]
  have fs: "threadStore (mintW s x h) t = threadStore h t" "threads (mintW s x h) = threads h" "nextId (mintW s x h) = Suc (nextId h)"
    "points (mintW s x h) p = (if p = nextId h then x else points h p)" "so_awaiting (stores (mintW s x h) u) = so_awaiting (stores h u)"
    "so_waiting (stores (mintW s x h) u) = so_waiting (stores h u) @ (if u = s then [APoint (nextId h)] else [])"
    "threadStack (mintW s x h) = threadStack h" "entryStack (mintW s x h) = entryStack h" for t p u
    by (simp_all add: mintW_def updPoint_def) (simp_all add: updStore_def threadStore_def instOf_def storeOf_def)
  have "APoint (nextId h) \<notin> set (so_waiting (stores h u))" for u using q(4,9) by blast
  then have "sched_inv (mintW s x h)" unfolding sched_inv_def fs
    using q(1,2,5,6,7,8,9) assms(2,3) by (auto simp: q(3) q(4) simp del: not_None_eq)
  then show ?thesis using assms(1) by (simp add: runs_def fs)
qed

lemma newPoint_run:
  assumes "sched_inv h"
  obtains x where "newPoint s task ready cancellable kind owner h = (Inr (nextId h), mintW s x h)"
    "\<not> pt_done x" "pt_store x = s" "pt_cancellable x = cancellable" "pt_ready x = ready" "pt_task x = task" "pt_kind x = kind"
proof -
  have n: "APoint (nextId h) \<notin> set (so_waiting (stores h s))" using sched_parts(4,9) [OF assms] by blast
  define x where "x = \<lparr>pt_store = s, pt_task = task,
    pt_owner = (case owner of Some t \<Rightarrow> Some t | None \<Rightarrow> (case maybeCurrentThread h of Some t \<Rightarrow> Some t | None \<Rightarrow>
      (case task of None \<Rightarrow> None | Some k \<Rightarrow> ta_implicit (tasks h k)))),
    pt_ready = ready, pt_cancellable = cancellable, pt_kind = kind, pt_done = False, pt_finished = False, pt_outcome = None\<rparr>"
  have "newPoint s task ready cancellable kind owner h = (Inr (nextId h), mintW s x h)"
    unfolding newPoint_def using n
    by (simp add: run_simps freshId_def bindM_def storeStartWaiting_def x_def [symmetric] updPoint_def mintW_def) (simp add: updStore_def)
  then show thesis by (rule that) (simp_all add: x_def)
qed

lemma block_runs: "keepsRuns R k (blockCurrentActivation s j c cancellable kind)"
proof (unfold validE_always, intro allI impI)
  fix h :: "'a sched_scheme" assume h: "runs R k h"
  define o1 where "o1 = (case maybeCurrentThread h of Some t \<Rightarrow> Some t | None \<Rightarrow> ta_implicit (tasks h j))"
  define h1 where "h1 = releaseActivationAmbient o1 (consumePendingIfRunning s h)"
  have r1: "runs R k h1" unfolding h1_def by (rule runs_same [OF runs_same [OF h same_ambient(5)] same_ambient(2)])
  then have i: "sched_inv h1" by (simp add: runs_def)
  obtain x where "newPoint s (Some j) (Some c) cancellable kind o1 h1 = (Inr (nextId h1), mintW s x h1)"
    "\<not> pt_done x" "pt_store x = s" by (rule newPoint_run [OF i])
  then show "runs R k (snd (blockCurrentActivation s j c cancellable kind h))"
    using runs_mintW [OF r1] by (simp add: blockCurrentActivation_def run_simps o1_def h1_def)
qed

text \<open>Running the frame's closure and its hook changes neither its record nor puts it in a waiting list.\<close>

definition frame_private :: "'g sched_scheme Code \<Rightarrow> nat \<Rightarrow> bool" where
  "frame_private C p \<longleftrightarrow>
     (\<forall>h h'. (\<exists>c. h' = snd (code_produce C p c h)) \<or> h' = snd (code_onSettled C p h) \<longrightarrow>
        points h' p = points h p \<and> (\<forall>s. APoint p \<in> set (so_waiting (stores h' s)) \<longrightarrow> APoint p \<in> set (so_waiting (stores h s))))"

lemma frame_privateD:
  assumes "frame_private C p"
  shows "code_produce C p c h = (r, h') \<Longrightarrow> points h' p = points h p \<and> (\<forall>s. APoint p \<in> set (so_waiting (stores h' s)) \<longrightarrow> APoint p \<in> set (so_waiting (stores h s)))"
    "code_onSettled C p h = (z, h') \<Longrightarrow> points h' p = points h p \<and> (\<forall>s. APoint p \<in> set (so_waiting (stores h' s)) \<longrightarrow> APoint p \<in> set (so_waiting (stores h s)))"
  using assms unfolding frame_private_def by (metis snd_conv)+

lemma points_ambient [simp]:
  "points (claimActivationAmbient o1 h) = points h" "points (consumePendingIfRunning s h) = points h"
  "points (addPendingResumption s o1 h) = points h"
  using same_ambient unfolding same_sched_def by blast+

lemma pointResume_run:
  assumes "sched_inv h" "\<not> pt_done (points h p)" "pt_cancellable (points h p) \<or> \<not> c"
  shows "pointResume C p c h = finallyM (pointResumeInner C p c) (pointFinish C p) (doneW p h)"
proof -
  have "APoint p \<in> set (so_waiting (stores h (pt_store (points h p))))"
    using assms(1,2) sched_parts(4) by blast
  then show ?thesis
    using assms(2,3) by (simp add: pointResume_def storeStopWaiting_def run_simps doneW_def) (simp add: updPoint_def updStore_def)
qed

lemma off_doneW:
  assumes "sched_inv h"
  shows "APoint p \<notin> set (so_waiting (stores (doneW p h) s))"
proof -
  have "APoint p \<in> set (so_waiting (stores h s)) \<longrightarrow> pt_store (points h p) = s" using sched_parts(4) [OF assms] by blast
  then show ?thesis using sched_parts(1) [OF assms, of s] by (auto simp: doneW_def updPoint_def updStore_def)
qed

text \<open>The state the closure of a frame leaves, with the frame's record completed and the ambient bookkeeping done.\<close>

lemma pointResumeInner_run:
  assumes "code_produce C p c h = (q, h0)"
  obtains g where "pointResumeInner C p c h = (Inr (), updPoint p (\<lambda>x. x\<lparr>pt_outcome := Some q\<rparr>) g)" "same_sched h0 g"
proof -
  let ?s = "pt_store (points h0 p)"
  define h3 where "h3 = (let h2 = consumePendingIfRunning ?s h0 in
    if maybeCurrentThread h2 = None then claimActivationAmbient (pt_owner (points h0 p)) h2 else h2)"
  define g where "g = addPendingResumption ?s (case pt_task (points h0 p) of None \<Rightarrow> None | Some k \<Rightarrow> ta_implicit (tasks h3 k)) h3"
  have "same_sched h0 h3" unfolding h3_def Let_def by (auto intro: same_trans [OF same_ambient(5) same_ambient(1)])
  then have "same_sched h0 g" unfolding g_def by (rule same_trans) (rule same_ambient)
  moreover have "pointResumeInner C p c h = (Inr (), updPoint p (\<lambda>x. x\<lparr>pt_outcome := Some q\<rparr>) g)"
    using assms by (simp add: pointResumeInner_def Let_def g_def h3_def split: option.split)
  ultimately show thesis by (rule that [rotated])
qed

text \<open>C34: A suspended frame is settled once: resuming it takes it off the waiting list and marks it done before its closure
  runs, records what the closure returned or threw as the outcome of its promise, and then runs its completion hook, an exception of the hook
  being dropped; the resumption returns normally in every case, a second one is refused without any change, and abandoning
  the frame afterwards does nothing.\<close>

theorem frame_settles_once:
  assumes "sched_inv h" "\<not> pt_done (points h p)" "\<not> pt_finished (points h p)" "pt_cancellable (points h p) \<or> \<not> c" "frame_private C p"
    "code_produce C p c (doneW p h) = (q, h0)" "pointResume C p c h = (r, h1)"
  shows "r = Inr () \<and>
    (\<exists>g. same_sched (updPoint p (\<lambda>x. x\<lparr>pt_outcome := Some q, pt_finished := True\<rparr>) h0) g \<and> h1 = snd (code_onSettled C p g)) \<and>
    (\<forall>s. APoint p \<notin> set (so_waiting (stores (doneW p h) s)) \<and> APoint p \<notin> set (so_waiting (stores h1 s))) \<and>
    pt_done (points h1 p) \<and> pt_finished (points h1 p) \<and> pt_outcome (points h1 p) = Some q \<and>
    pointResume C p c' h1 = (Inl (AssertionError ''resume of an already-resumed suspension point''), h1) \<and>
    abandon C p e h1 = (Inr (), h1)"
proof -
  note off = off_doneW [OF assms(1)]
  obtain g0 where i: "pointResumeInner C p c (doneW p h) = (Inr (), updPoint p (\<lambda>x. x\<lparr>pt_outcome := Some q\<rparr>) g0)" "same_sched h0 g0"
    by (rule pointResumeInner_run [OF assms(6)])
  have p0: "points g0 p = points (doneW p h) p" "APoint p \<notin> set (so_waiting (stores g0 s))" for s
    using i(2) frame_privateD(1) [OF assms(5,6)] off unfolding same_sched_def by auto
  define g where "g = updPoint p (\<lambda>x. x\<lparr>pt_outcome := Some q, pt_finished := True\<rparr>) g0"
  have u: "updPoint p (\<lambda>x. x\<lparr>pt_finished := True\<rparr>) (updPoint p (\<lambda>x. x\<lparr>pt_outcome := Some q\<rparr>) g0) = g"
    "points g p = (points g0 p)\<lparr>pt_outcome := Some q, pt_finished := True\<rparr>" "stores g = stores g0"
    by (simp_all add: g_def updPoint_def)
  obtain z g1 where z: "code_onSettled C p g = (z, g1)" by (cases "code_onSettled C p g")
  have "\<not> pt_finished (points (updPoint p (\<lambda>x. x\<lparr>pt_outcome := Some q\<rparr>) g0) p)"
    using p0(1) assms(3) by (simp add: updPoint_def doneW_def updStore_def)
  then have "pointFinish C p (updPoint p (\<lambda>x. x\<lparr>pt_outcome := Some q\<rparr>) g0) = (Inr (), g1)"
    using z u(1) by (cases z) (simp_all add: pointFinish_def run_simps catchM_def)
  then have r: "r = Inr ()" "h1 = g1"
    using assms(7) i(1) unfolding pointResume_run [OF assms(1,2,4)] by (auto simp: finallyM_def bindM_def run_simps)
  have s: "same_sched (updPoint p (\<lambda>x. x\<lparr>pt_outcome := Some q, pt_finished := True\<rparr>) h0) g"
    using i(2) unfolding g_def same_sched_def by (simp add: updPoint_def)
  have f: "points h1 p = points g p" "APoint p \<in> set (so_waiting (stores h1 s)) \<longrightarrow> APoint p \<in> set (so_waiting (stores g s))" for s
    using frame_privateD(2) [OF assms(5) z] r(2) by auto
  have d: "pt_done (points h1 p)" "pt_finished (points h1 p)" "pt_outcome (points h1 p) = Some q"
    using f(1) p0(1) by (simp_all add: u(2) doneW_def updPoint_def updStore_def)
  have "APoint p \<notin> set (so_waiting (stores h1 s))" for s using f(2) p0(2) by (auto simp: u(3))
  then show ?thesis using r s d off z by (auto simp: pointResume_def abandon_def run_simps)
qed

text \<open>A cancellable frame of task 0 that waits for a condition.\<close>

definition frameSched :: sched where
  "frameSched = snd (blockCurrentActivation 0 0 (OtherCond 0) True YieldPoint emptySched)"

lemma frameSched_inv:
  "sched_inv frameSched" "\<not> pt_done (points frameSched 1)" "\<not> pt_finished (points frameSched 1)" "pt_cancellable (points frameSched 1)"
proof -
  have "sched_inv (snd (blockCurrentActivation 0 0 (OtherCond 0) True YieldPoint emptySched))"
    using runs_result [OF block_runs emptySched_inv] by blast
  then show "sched_inv frameSched" by (simp add: frameSched_def)
  show "\<not> pt_done (points frameSched 1)" "\<not> pt_finished (points frameSched 1)" "pt_cancellable (points frameSched 1)" by code_simp+
qed

theorem frame_settles_once_witness:
  "\<exists>h1. pointResume quietCode 1 True frameSched = (Inr (), h1) \<and> pt_outcome (points h1 1) = Some (Inr VUndef) \<and>
     pointResume quietCode 1 False h1 = (Inl (AssertionError ''resume of an already-resumed suspension point''), h1)"
proof -
  have q: "frame_private quietCode 1" "code_produce quietCode 1 True (doneW 1 frameSched) = (Inr VUndef, doneW 1 frameSched)"
    by (simp_all add: frame_private_def quietCode_def run_simps)
  obtain r h1 where p: "pointResume quietCode 1 True frameSched = (r, h1)" by (cases "pointResume quietCode 1 True frameSched")
  have "pt_cancellable (points frameSched 1) \<or> \<not> True" using frameSched_inv(4) by simp
  from frame_settles_once [OF frameSched_inv(1-3) this q p, of False] show ?thesis using p by auto
qed

section \<open>The ambient thread\<close>

definition onActivation :: "nat \<Rightarrow> 'g sched_scheme \<Rightarrow> 'g sched_scheme" where
  "onActivation v g = g\<lparr>threadStack := threadStack g @ [v], entryStack := entryStack g @ [v]\<rparr>"

lemma onActivation_fields [simp]:
  "threadStack (onActivation v g) = threadStack g @ [v]" "entryStack (onActivation v g) = entryStack g @ [v]"
  by (simp_all add: onActivation_def)

lemma withActivation_run:
  assumes "threadStack (snd (m (onActivation v g))) = threadStack g @ [v]" "entryStack (snd (m (onActivation v g))) = entryStack g @ [v]"
  shows "withActivation v m g =
    (fst (m (onActivation v g)), (snd (m (onActivation v g)))\<lparr>entryStack := entryStack g, threadStack := threadStack g\<rparr>)"
  using assms by (cases "m (onActivation v g)") (simp add: withActivation_def run_simps finallyM_def onActivation_def topOf_def)

lemma currentThread_on [simp]: "currentThread (onActivation v g) = (Inr v, onActivation v g)"
  by (simp add: currentThread_def resolveAmbient_def topOf_def)

text \<open>C35: The code a thread runs finds that thread: whatever activations are already running, inside an activation of t the
  current thread is t, inside an activation of u nested in it the current thread is u, and after the inner one has ended,
  by returning or by an exception, it is t again, for inner code that leaves the ambient stacks as it found them; the
  activation does the inner code's work, passes on its outcome and restores the stacks. With no activation running the
  most recent claim decides, releasing a claim removes it, no thread is ever claimed twice, and with no claim either there is no current thread.\<close>

theorem ambient_attribution:
  fixes f :: "('g sched_scheme, 'a) sm"
  assumes "\<And>g. threadStack (snd (f g)) = threadStack g \<and> entryStack (snd (f g)) = entryStack g" "distinct (activationClaims h)"
  shows "fst (withActivation t currentThread g) = Inr t \<and>
    fst (withActivation t (withActivation u currentThread) g) = Inr u \<and>
    fst (withActivation t (bindM (catchM (withActivation u f) (\<lambda>_. returnM x)) (\<lambda>_. currentThread)) g) = Inr t \<and>
    fst (withActivation t f g) = fst (f (g\<lparr>threadStack := threadStack g @ [t], entryStack := entryStack g @ [t]\<rparr>)) \<and>
    threadStack (snd (withActivation t f g)) = threadStack g \<and> entryStack (snd (withActivation t f g)) = entryStack g \<and>
    (threadStack h = [] \<longrightarrow> fst (currentThread (claimActivationAmbient (Some t) h)) = Inr t) \<and>
    distinct (activationClaims (claimActivationAmbient (Some t) h)) \<and>
    t \<notin> set (activationClaims (releaseActivationAmbient (Some t) h)) \<and>
    (threadStack h = [] \<and> activationClaims h = [] \<longrightarrow> fst (currentThread h) = Inl (Capability noTask))"
proof -
  let ?on = onActivation
  note w = withActivation_run
  have wc: "fst (withActivation v currentThread g) = Inr v" for v and g :: "'g sched_scheme"
    by (subst w) simp_all
  have wf: "withActivation v f g = (fst (f (?on v g)), (snd (f (?on v g)))\<lparr>entryStack := entryStack g, threadStack := threadStack g\<rparr>)" for v g
    using assms(1) by (intro w) simp_all
  have wn: "withActivation u currentThread (?on t g) = (Inr u, (?on u (?on t g))\<lparr>entryStack := entryStack g @ [t], threadStack := threadStack g @ [t]\<rparr>)"
    by (subst w) simp_all
  have n1: "fst (withActivation t (withActivation u currentThread) g) = Inr u"
    by (subst w) (simp_all add: wn)
  define m where "m = bindM (catchM (withActivation u f) (\<lambda>_. returnM x)) (\<lambda>_. currentThread)"
  define g2 where "g2 = (snd (f (?on u (?on t g))))\<lparr>entryStack := entryStack g @ [t], threadStack := threadStack g @ [t]\<rparr>"
  have g2: "currentThread g2 = (Inr t, g2)" by (simp add: g2_def currentThread_def resolveAmbient_def topOf_def)
  have "m (?on t g) = (Inr t, g2)"
    by (cases "fst (f (?on u (?on t g)))") (simp_all add: m_def bindM_def catchM_def wf g2_def [symmetric] run_simps g2)
  then have n2: "fst (withActivation t m g) = Inr t" by (subst w) (simp_all add: g2_def)
  have d: "distinct (activationClaims (claimActivationAmbient (Some t) h))" "threadStack h = [] \<longrightarrow> fst (currentThread (claimActivationAmbient (Some t) h)) = Inr t"
    using assms(2) by (auto simp: claimActivationAmbient_def Let_def currentThread_def resolveAmbient_def topOf_def)
  have "t \<notin> set (activationClaims (releaseActivationAmbient (Some t) h))"
    using assms(2) by (auto simp: releaseActivationAmbient_def Let_def split: option.splits dest: in_set_remove1 [THEN iffD1, rotated])
  then show ?thesis using wc n1 n2 wf d
    by (auto simp: m_def onActivation_def currentThread_def resolveAmbient_def topOf_def)
qed

theorem ambient_attribution_witness:
  "fst (withActivation 1 (bindM (catchM (withActivation 2 (throwM (Trap []) :: (sched, unit) sm)) (\<lambda>_. returnM ())) (\<lambda>_. currentThread)) emptySched) = Inr 1 \<and>
   fst (currentThread (claimActivationAmbient (Some 1) emptySched)) = Inr 1"
  using ambient_attribution [of "throwM (Trap [])" emptySched 1 emptySched 2 "()"] by (simp add: run_simps)

end
