(* ===== verification/TaskProps.thy ===== *)
theory TaskProps
  imports SchedLoops
begin

text \<open>
  What a task promises: it resolves at most once, it is admitted only when its instance lets it in,
  and a cancellation request is delivered at the next point that can take one.
\<close>

section \<open>The life of a task\<close>

lemma updTask_fields [simp]:
  "threads (updTask k f h) = threads h" "stores (updTask k f h) = stores h" "exclusiveThread (updTask k f h) = exclusiveThread h"
  "instThreads (updTask k f h) = instThreads h" "numWaitingToEnter (updTask k f h) = numWaitingToEnter h"
  "tasks (updTask k f h) j = (if j = k then f (tasks h k) else tasks h j)" "taskBorrows (updTask k f h) = taskBorrows h"
  "backpressure (updTask k f h) = backpressure h" "points (updTask k f h) = points h" "instStore (updTask k f h) = instStore h"
  by (simp_all add: updTask_def)

lemma tasks_updThread [simp]:
  "tasks (updThread t f h) = tasks h" "exclusiveThread (updThread t f h) = exclusiveThread h"
  "instThreads (updThread t f h) = instThreads h" "numWaitingToEnter (updThread t f h) = numWaitingToEnter h"
  by (simp_all add: updThread_def)

text \<open>The caller's closures leave the state of the task alone.\<close>

definition caller_ok :: "'g sched_scheme Caller \<Rightarrow> nat \<Rightarrow> bool" where
  "caller_ok G k \<longleftrightarrow>
     (\<forall>h. ta_state (tasks (snd (onStart G k h)) k) = ta_state (tasks h k)) \<and>
     (\<forall>r h. ta_state (tasks (snd (onResolve G k r h)) k) = ta_state (tasks h k))"

text \<open>
  \<open>task_run G k n h\<close>: \<open>h\<close> is reached by operations on task \<open>k\<close> interleaved with code that leaves its
  state alone, and \<open>n\<close> of them have resolved it.  \<open>request\<close> is the mark \<open>requestCancellation\<close> leaves before it resumes anything.
\<close>

inductive task_run :: "'g sched_scheme Caller \<Rightarrow> nat \<Rightarrow> nat \<Rightarrow> 'g sched_scheme \<Rightarrow> bool" for G k where
  init: "ta_state (tasks h k) = TInitial \<Longrightarrow> task_run G k 0 h"
| start: "task_run G k n h \<Longrightarrow> taskStart G k h = (r, h') \<Longrightarrow> task_run G k n h'"
| returned: "task_run G k n h \<Longrightarrow> taskReturn G k v h = (Inr (), h') \<Longrightarrow> task_run G k (Suc n) h'"
| return_failed: "task_run G k n h \<Longrightarrow> taskReturn G k v h = (Inl e, h') \<Longrightarrow> task_run G k n h'"
| cancelled: "task_run G k n h \<Longrightarrow> taskCancel G k h = (Inr (), h') \<Longrightarrow> task_run G k (Suc n) h'"
| cancel_failed: "task_run G k n h \<Longrightarrow> taskCancel G k h = (Inl e, h') \<Longrightarrow> task_run G k n h'"
| deliver: "task_run G k n h \<Longrightarrow> deliverPendingCancel k b h = (r, h') \<Longrightarrow> task_run G k n h'"
| request: "task_run G k n h \<Longrightarrow> (ta_state (tasks h k), st) \<in> {(TInitial, TCancelDelivered), (TStarted, TCancelDelivered), (TStarted, TPendingCancel)} \<Longrightarrow>
    setTaskState k st h = (Inr (), h') \<Longrightarrow> task_run G k n h'"
| elsewhere: "task_run G k n h \<Longrightarrow> ta_state (tasks h' k) = ta_state (tasks h k) \<Longrightarrow> task_run G k n h'"

lemma taskReturn_cases:
  assumes "caller_ok G k" "taskReturn G k v h = (r, h')"
  shows "(r = Inr () \<longrightarrow> ta_state (tasks h k) \<noteq> TResolved \<and> ta_state (tasks h' k) = TResolved) \<and>
    (\<forall>e. r = Inl e \<longrightarrow> ta_state (tasks h' k) = ta_state (tasks h k))"
proof -
  obtain q h1 where c: "onResolve G k (Some v) h = (q, h1)" by (cases "onResolve G k (Some v) h")
  then have "ta_state (tasks h1 k) = ta_state (tasks h k)" using assms(1) unfolding caller_ok_def by (metis snd_conv)
  then show ?thesis using assms(2) c
    by (cases q) (auto simp: taskReturn_def run_simps bindM_def setTaskState_def split: if_splits)
qed

lemma taskCancel_cases:
  assumes "caller_ok G k" "taskCancel G k h = (r, h')"
  shows "(r = Inr () \<longrightarrow> ta_state (tasks h k) = TCancelDelivered \<and> ta_state (tasks h' k) = TResolved) \<and>
    (\<forall>e. r = Inl e \<longrightarrow> ta_state (tasks h' k) = ta_state (tasks h k))"
proof -
  obtain q h1 where c: "onResolve G k None h = (q, h1)" by (cases "onResolve G k None h")
  then have "ta_state (tasks h1 k) = ta_state (tasks h k)" using assms(1) unfolding caller_ok_def by (metis snd_conv)
  then show ?thesis using assms(2) c
    by (cases q) (auto simp: taskCancel_def run_simps bindM_def setTaskState_def split: if_splits)
qed

lemma taskStart_state:
  assumes "caller_ok G k" "taskStart G k h = (r, h')"
  shows "ta_state (tasks h' k) = (if ta_state (tasks h k) = TInitial then TStarted else ta_state (tasks h k))"
proof (cases "ta_state (tasks h k) = TInitial")
  case True
  then have "taskStart G k h = onStart G k (updTask k (\<lambda>x. x\<lparr>ta_state := TStarted\<rparr>) h)"
    by (simp add: taskStart_def run_simps setTaskState_def)
  then show ?thesis using True assms unfolding caller_ok_def by (metis (no_types, lifting) Task.select_convs(1) Task.surjective Task.update_convs(1) snd_conv updTask_fields(6))
next
  case False
  then show ?thesis using assms(2) by (simp add: taskStart_def run_simps)
qed

lemma deliver_state:
  "deliverPendingCancel k b h = (r, h') \<Longrightarrow>
     ta_state (tasks h' k) = (if b \<and> ta_state (tasks h k) = TPendingCancel then TCancelDelivered else ta_state (tasks h k))"
  by (auto simp: deliverPendingCancel_def run_simps setTaskState_def split: if_splits)

text \<open>C8: A task resolves at most once: over any sequence of starts, returns, cancellations and
  deliveries, at most one of the attempts to resolve it succeeds, the task is in its resolved state exactly when one has, and from then on
  task.return and task.cancel trap without calling the caller's closure or changing anything.\<close>

theorem task_resolves_once:
  assumes "caller_ok G k" "task_run G k n h"
  shows "(n = (if ta_state (tasks h k) = TResolved then 1 else 0)) \<and>
    (n = 1 \<longrightarrow> taskReturn G k v h = (Inl (Trap ''task.return on a resolved task''), h) \<and>
       taskCancel G k h = (Inl (Trap ''task.cancel without a delivered cancellation request''), h))"
proof -
  have "n = (if ta_state (tasks h k) = TResolved then 1 else 0)"
    using assms(2)
  proof induction
    case (start n h r h')
    then show ?case using taskStart_state [OF assms(1) start(2)] by (auto split: if_splits)
  next
    case (returned n h v h')
    then show ?case using taskReturn_cases [OF assms(1) returned(2)] by simp
  next
    case (return_failed n h v e h')
    then show ?case using taskReturn_cases [OF assms(1) return_failed(2)] by simp
  next
    case (cancelled n h h')
    then show ?case using taskCancel_cases [OF assms(1) cancelled(2)] by simp
  next
    case (cancel_failed n h e h')
    then show ?case using taskCancel_cases [OF assms(1) cancel_failed(2)] by simp
  next
    case (deliver n h b r h')
    then show ?case using deliver_state [OF deliver(2)] by (auto split: if_splits)
  next
    case (request n h st h')
    then show ?case by (auto simp: setTaskState_def run_simps)
  qed simp_all
  then show ?thesis by (auto simp: taskReturn_def taskCancel_def run_simps split: if_splits)
qed

definition quietCaller :: "'s Caller" where
  "quietCaller = \<lparr>onStart = \<lambda>_. returnM [], onResolve = \<lambda>_ _. returnM ()\<rparr>"

theorem task_resolves_once_witness:
  "\<exists>h :: sched. task_run quietCaller 0 1 h \<and> ta_state (tasks h 0) = TResolved \<and>
     taskReturn quietCaller 0 [] h = (Inl (Trap ''task.return on a resolved task''), h)"
proof -
  define h1 where "h1 = updTask 0 (\<lambda>x. x\<lparr>ta_state := TStarted\<rparr>) emptySched"
  have 1: "taskStart quietCaller 0 emptySched = (Inr [], h1)"
    by (simp add: taskStart_def quietCaller_def run_simps setTaskState_def newTask_def h1_def)
  have c: "caller_ok quietCaller 0" by (simp add: caller_ok_def quietCaller_def run_simps)
  have r0: "task_run quietCaller 0 0 h1" by (rule task_run.start [OF task_run.init 1]) (simp add: newTask_def)
  have b: "taskBorrows emptySched 0 = 0" by code_simp
  define h2 where "h2 = updTask 0 (\<lambda>x. x\<lparr>ta_state := TResolved\<rparr>) h1"
  have 2: "taskReturn quietCaller 0 [] h1 = (Inr (), h2)"
    using b by (simp add: taskReturn_def quietCaller_def run_simps setTaskState_def h1_def h2_def)
  have "task_run quietCaller 0 1 h2" using task_run.returned [OF r0 2] by simp
  moreover from task_resolves_once [OF c this, of "[]"] have "ta_state (tasks h2 0) = TResolved"
    by (cases "ta_state (tasks h2 0) = TResolved") simp_all
  moreover have "taskReturn quietCaller 0 [] h2 = (Inl (Trap ''task.return on a resolved task''), h2)"
    using task_resolves_once [OF c \<open>task_run quietCaller 0 1 h2\<close>, of "[]"] by simp
  ultimately show ?thesis by blast
qed

section \<open>Admission\<close>

text \<open>Who needs the exclusive thread and who has to wait, spelled out over the fields.\<close>

definition wantsExclusive :: "nat \<Rightarrow> 'g sched_scheme \<Rightarrow> bool" where
  "wantsExclusive k h \<longleftrightarrow> ftAsync (ta_ft (tasks h k)) \<and> (to_async (ta_opts (tasks h k)) \<longrightarrow> to_callback (ta_opts (tasks h k)))"

definition mustWait :: "nat \<Rightarrow> 'g sched_scheme \<Rightarrow> bool" where
  "mustWait k h \<longleftrightarrow> (let i = ta_inst (tasks h k) in
     ftAsync (ta_ft (tasks h k)) \<and>
     (backpressure h i > 0 \<or> numWaitingToEnter h i > 0 \<or> wantsExclusive k h \<and> exclusiveThread h i \<noteq> None))"

lemma wants_needs: "wantsExclusive k h \<longleftrightarrow> ftAsync (ta_ft (tasks h k)) \<and> needsExclusiveOf (tasks h k)"
  by (auto simp: wantsExclusive_def needsExclusiveOf_def)

lemma mustWait_has: "mustWait k h \<longleftrightarrow> ftAsync (ta_ft (tasks h k)) \<and> (hasBackpressure k h \<or> numWaitingToEnter h (ta_inst (tasks h k)) > 0)"
  by (auto simp: mustWait_def Let_def wants_needs hasBackpressure_def)

lemma registerThread_run:
  assumes "t \<notin> set (ta_threads (tasks h k))" "th_task (threads h t) = k" "th_index (threads h t) = None"
    "tableAdd t (instThreads h (ta_inst (tasks h k))) = (Inr n, tb)"
  shows "registerThread k t h = (Inr (), updThread t (\<lambda>x. x\<lparr>th_index := Some n\<rparr>)
     ((updTask k (\<lambda>x. x\<lparr>ta_threads := ta_threads x @ [t]\<rparr>) h)\<lparr>instThreads := (instThreads h)(ta_inst (tasks h k) := tb)\<rparr>))"
  using assms by (simp add: registerThread_def run_simps onThreads_def bindM_def)

lemma enter_run:
  assumes "ta_state (tasks h k) = TInitial" "th_state (threads h t) = ThRunning" "th_task (threads h t) = k"
  shows "enterImplicitThread G k t h =
    (let h1 = updTask k (\<lambda>x. x\<lparr>ta_implicit := Some t\<rparr>) h; i = ta_inst (tasks h k) in
     if mustWait k h then
       (Inr (Block \<lparr>br_ready = Some (NoBackpressure k), br_cancellable = True, br_await = None\<rparr>),
        h1\<lparr>numWaitingToEnter := (numWaitingToEnter h1)(i := numWaitingToEnter h1 i + 1)\<rparr>)
     else bindM (admit k t) (\<lambda>b. returnM (Now b)) h1)"
proof -
  let ?h1 = "updTask k (\<lambda>x. x\<lparr>ta_implicit := Some t\<rparr>) h"
  have hb: "hasBackpressure k ?h1 = hasBackpressure k h" by (simp add: hasBackpressure_def needsExclusiveOf_def)
  have w: "waitUntil t (NoBackpressure k) True (?h1\<lparr>numWaitingToEnter := m\<rparr>) =
      (Inr (Block \<lparr>br_ready = Some (NoBackpressure k), br_cancellable = True, br_await = None\<rparr>), ?h1\<lparr>numWaitingToEnter := m\<rparr>)" for m
    using assms by (simp add: waitUntil_def run_simps deliverPendingCancel_def)
  show ?thesis
    using assms w by (simp add: enterImplicitThread_def run_simps hb mustWait_has Let_def addWaitingToEnter_def)
      (auto simp: bindM_def catchM_def run_simps)
qed

lemma admit_run:
  assumes "\<not> mustWait k h" "t \<notin> set (ta_threads (tasks h k))" "th_task (threads h t) = k" "th_index (threads h t) = None"
    "tableAdd t (instThreads h (ta_inst (tasks h k))) = (Inr n, tb)"
  shows "\<exists>h'. admit k t h = (Inr True, h') \<and> tasks h' = (tasks h)(k := (tasks h k)\<lparr>ta_threads := ta_threads (tasks h k) @ [t]\<rparr>) \<and>
     instThreads h' = (instThreads h)(ta_inst (tasks h k) := tb) \<and> th_index (threads h' t) = Some n \<and> th_task (threads h' t) = k \<and>
     exclusiveThread h' (ta_inst (tasks h k)) = (if wantsExclusive k h then Some t else exclusiveThread h (ta_inst (tasks h k))) \<and>
     (wantsExclusive k h \<longrightarrow> exclusiveThread h (ta_inst (tasks h k)) = None) \<and> taskBorrows h' = taskBorrows h"
proof -
  define i where "i = ta_inst (tasks h k)"
  have free: "wantsExclusive k h \<Longrightarrow> exclusiveThread h i = None"
    using assms(1) by (auto simp: mustWait_def wantsExclusive_def Let_def i_def)
  define h1 where "h1 = (if wantsExclusive k h then h\<lparr>exclusiveThread := (exclusiveThread h)(i := Some t)\<rparr> else h)"
  have te: "takeExclusive k t h = (Inr (), h1)"
    using free by (auto simp: takeExclusive_def run_simps setExclusive_def wants_needs i_def h1_def)
  have f1: "tasks h1 = tasks h" "threads h1 = threads h" "instThreads h1 = instThreads h" "taskBorrows h1 = taskBorrows h"
    by (simp_all add: h1_def)
  have "registerThread k t h1 = (Inr (), updThread t (\<lambda>x. x\<lparr>th_index := Some n\<rparr>)
     ((updTask k (\<lambda>x. x\<lparr>ta_threads := ta_threads x @ [t]\<rparr>) h1)\<lparr>instThreads := (instThreads h1)(ta_inst (tasks h1 k) := tb)\<rparr>))"
    using assms(2-5) by (intro registerThread_run) (simp_all add: f1)
  then have "admit k t h = (Inr True, updThread t (\<lambda>x. x\<lparr>th_index := Some n\<rparr>)
     ((updTask k (\<lambda>x. x\<lparr>ta_threads := ta_threads x @ [t]\<rparr>) h1)\<lparr>instThreads := (instThreads h1)(ta_inst (tasks h1 k) := tb)\<rparr>))"
    using te by (simp add: admit_def bindM_def run_simps)
  then show ?thesis using free assms(3)
    by (auto simp: f1 i_def h1_def updThread_def updTask_def fun_upd_def)
qed

lemma exit_run:
  assumes "ta_implicit (tasks h k) = Some t" "ta_threads (tasks h k) = [t]" "th_task (threads h t) = k" "ta_state (tasks h k) = TResolved"
    "taskBorrows h k = 0" "th_index (threads h t) = Some n" "tableRemove n (instThreads h (ta_inst (tasks h k))) = (Inr e, tb)"
    "wantsExclusive k h \<longrightarrow> exclusiveThread h (ta_inst (tasks h k)) = Some t"
  shows "\<exists>h'. exitImplicitThread k t h = (Inr (), h') \<and> ta_threads (tasks h' k) = [] \<and> th_index (threads h' t) = None \<and>
    instThreads h' = (instThreads h)(ta_inst (tasks h k) := tb) \<and>
    exclusiveThread h' = (if wantsExclusive k h then (exclusiveThread h)(ta_inst (tasks h k) := None) else exclusiveThread h)"
proof -
  define h1 where "h1 = updThread t (\<lambda>x. x\<lparr>th_index := None\<rparr>)
     ((updTask k (\<lambda>x. x\<lparr>ta_threads := []\<rparr>) h)\<lparr>instThreads := (instThreads h)(ta_inst (tasks h k) := tb)\<rparr>)"
  have "unregisterThread k t h = (Inr (), h1)"
    using assms(2-7) by (simp add: unregisterThread_def run_simps onThreads_def bindM_def h1_def) (simp add: updTask_def updThread_def)
  moreover have "exclusiveThread h1 = exclusiveThread h" "ta_threads (tasks h1 k) = []" "th_index (threads h1 t) = None"
    "instThreads h1 = (instThreads h)(ta_inst (tasks h k) := tb)"
    by (simp_all add: h1_def updThread_def updTask_def)
  ultimately show ?thesis using assms(1,8)
    by (auto simp: exitImplicitThread_def run_simps bindM_def setExclusive_def wants_needs)
qed

text \<open>C29: Admission: a thread that starts a task of an async-typed function joins the queue when its instance's backpressure
  counter is above zero, when others are already waiting to enter, or when the task needs the exclusive thread (it is lifted
  synchronously or with a callback) and somebody holds it; then it blocks until there is no backpressure, and all that
  changes is the count of waiters and the task's record of its implicit thread. Otherwise, with a free slot in the
  instance's thread table, it is admitted at once: it gets the slot
  and, if the task needs it, the exclusive thread, which nobody held; and when it leaves after resolving, its
  slot and the exclusive thread are free again.\<close>

theorem admission:
  assumes "ta_state (tasks h k) = TInitial" "th_state (threads h t) = ThRunning" "th_task (threads h t) = k"
    "ta_threads (tasks h k) = []" "th_index (threads h t) = None" "i = ta_inst (tasks h k)"
    "table_inv (instThreads h i)" "tableAdd t (instThreads h i) = (Inr n, tb)" "taskBorrows h k = 0"
  shows "(mustWait k h \<longrightarrow>
      enterImplicitThread G k t h =
        (Inr (Block \<lparr>br_ready = Some (NoBackpressure k), br_cancellable = True, br_await = None\<rparr>),
         (updTask k (\<lambda>x. x\<lparr>ta_implicit := Some t\<rparr>) h)\<lparr>numWaitingToEnter := (numWaitingToEnter h)(i := numWaitingToEnter h i + 1)\<rparr>)) \<and>
    (\<not> mustWait k h \<longrightarrow>
      (\<exists>h1. enterImplicitThread G k t h = (Inr (Now True), h1) \<and> tableGet n (instThreads h1 i) = Inr t \<and>
        (wantsExclusive k h \<longrightarrow> exclusiveThread h i = None \<and> exclusiveThread h1 i = Some t) \<and>
        (\<exists>h2. exitImplicitThread k t (updTask k (\<lambda>x. x\<lparr>ta_state := TResolved\<rparr>) h1) = (Inr (), h2) \<and>
          exclusiveThread h2 i = exclusiveThread h i \<and> ta_threads (tasks h2 k) = [] \<and>
          (\<forall>j x. tableGet j (instThreads h2 i) = Inr x \<longleftrightarrow> tableGet j (instThreads h i) = Inr x))))"
proof (intro conjI impI)
  assume "mustWait k h"
  then show "enterImplicitThread G k t h =
      (Inr (Block \<lparr>br_ready = Some (NoBackpressure k), br_cancellable = True, br_await = None\<rparr>),
       (updTask k (\<lambda>x. x\<lparr>ta_implicit := Some t\<rparr>) h)\<lparr>numWaitingToEnter := (numWaitingToEnter h)(i := numWaitingToEnter h i + 1)\<rparr>)"
    by (simp add: enter_run [OF assms(1-3)] Let_def assms(6))
next
  assume w: "\<not> mustWait k h"
  define h0 where "h0 = updTask k (\<lambda>x. x\<lparr>ta_implicit := Some t\<rparr>) h"
  have same: "mustWait k h0 = mustWait k h" "wantsExclusive k h0 = wantsExclusive k h" "ta_inst (tasks h0 k) = i"
    by (simp_all add: h0_def mustWait_def wantsExclusive_def assms(6))
  obtain h1 where h1: "admit k t h0 = (Inr True, h1)" "tasks h1 = (tasks h0)(k := (tasks h0 k)\<lparr>ta_threads := [t]\<rparr>)"
    "instThreads h1 = (instThreads h)(i := tb)" "th_index (threads h1 t) = Some n" "th_task (threads h1 t) = k"
    "exclusiveThread h1 i = (if wantsExclusive k h then Some t else exclusiveThread h i)" "wantsExclusive k h \<longrightarrow> exclusiveThread h i = None"
    "taskBorrows h1 = taskBorrows h"
    using admit_run [of k h0 t n tb] w assms(3-5,8) unfolding same by (auto simp: h0_def assms(6))
  have e: "enterImplicitThread G k t h = (Inr (Now True), h1)"
    using w h1(1) by (simp add: enter_run [OF assms(1-3)] Let_def h0_def [symmetric] bindM_def run_simps)
  define g where "g = updTask k (\<lambda>x. x\<lparr>ta_state := TResolved\<rparr>) h1"
  have tb: "tableGet n tb = Inr t" using tableAdd_inv [OF assms(7,8)] by blast
  obtain tb2 where rm: "tableRemove n tb = (Inr t, tb2)" using tb by (simp add: tableRemove_def)
  have tg: "ta_inst (tasks g k) = i" "wantsExclusive k g = wantsExclusive k h" "instThreads g i = tb"
    using same(3) by (simp_all add: g_def h1(2,3) h0_def wantsExclusive_def)
  obtain h2 where h2: "exitImplicitThread k t g = (Inr (), h2)" "ta_threads (tasks h2 k) = []" "instThreads h2 = (instThreads g)(i := tb2)"
    "exclusiveThread h2 = (if wantsExclusive k h then (exclusiveThread g)(i := None) else exclusiveThread g)"
    using exit_run [of g k t n t tb2] h1(2,4-6,8) assms(9) rm unfolding tg by (auto simp: g_def h0_def)
  have "tableGet j tb2 = Inr x \<longleftrightarrow> tableGet j (instThreads h i) = Inr x" for j x
    using tableAdd_inv [OF assms(7,8)] tableRemove_inv [OF tableAdd_inv(1) [OF assms(7,8)] rm] by (cases "j = n") auto
  then have "exitImplicitThread k t g = (Inr (), h2) \<and> exclusiveThread h2 i = exclusiveThread h i \<and> ta_threads (tasks h2 k) = [] \<and>
      (\<forall>j x. tableGet j (instThreads h2 i) = Inr x \<longleftrightarrow> tableGet j (instThreads h i) = Inr x)"
    using h2 h1(6,7) by (simp add: g_def)
  then show "\<exists>h1. enterImplicitThread G k t h = (Inr (Now True), h1) \<and> tableGet n (instThreads h1 i) = Inr t \<and>
        (wantsExclusive k h \<longrightarrow> exclusiveThread h i = None \<and> exclusiveThread h1 i = Some t) \<and>
        (\<exists>h2. exitImplicitThread k t (updTask k (\<lambda>x. x\<lparr>ta_state := TResolved\<rparr>) h1) = (Inr (), h2) \<and>
          exclusiveThread h2 i = exclusiveThread h i \<and> ta_threads (tasks h2 k) = [] \<and>
          (\<forall>j x. tableGet j (instThreads h2 i) = Inr x \<longleftrightarrow> tableGet j (instThreads h i) = Inr x))"
    using e tb h1(3,6,7) by (intro exI [of _ h1]) (auto simp: g_def [symmetric])
qed

text \<open>A task that needs the exclusive thread, with its thread 1 running.\<close>

definition callbackOptions :: TaskOptions where
  "callbackOptions = \<lparr>to_async = True, to_callback = True, to_stringEncoding = Utf8, to_memory = None\<rparr>"

definition enteringSched :: sched where
  "enteringSched = updThread 1 (\<lambda>x. x\<lparr>th_state := ThRunning\<rparr>) (updTask 0 (\<lambda>_. newTask asyncFt callbackOptions 1) emptySched)"

theorem admission_witness:
  "\<exists>h1. enterImplicitThread quietCaller 0 1 enteringSched = (Inr (Now True), h1) \<and> exclusiveThread h1 1 = Some 1"
proof -
  have "taskBorrows enteringSched 0 = 0" by code_simp
  moreover have "\<not> mustWait 0 enteringSched" "wantsExclusive 0 enteringSched" "1 = ta_inst (tasks enteringSched 0)" by code_simp+
  moreover have "ta_state (tasks enteringSched 0) = TInitial" "th_state (threads enteringSched 1) = ThRunning" "th_task (threads enteringSched 1) = 0"
    "ta_threads (tasks enteringSched 0) = []" "th_index (threads enteringSched 1) = None" by code_simp+
  moreover have "table_inv (instThreads enteringSched 1)" using table_inv_empty by (simp add: enteringSched_def)
  moreover have "tableAdd 1 (instThreads enteringSched 1) = (Inr 1, \<lparr>arr = [None, Some 1], free = []\<rparr>)"
    by (simp add: enteringSched_def tableAdd_def emptyTable_def MAX_LENGTH_def)
  ultimately show ?thesis using admission [of enteringSched 0 1 1 1 "\<lparr>arr = [None, Some 1], free = []\<rparr>" quietCaller] by blast
qed

section \<open>Cancellation\<close>

text \<open>
  The frame or thread a request goes to, spelled out over the fields: a cancellable thread of the task, oldest first, and
  then a cancellable frame of the task in the store's waiting list, oldest first.  While the task needs the exclusive
  thread and another thread than its implicit one holds it, the implicit thread and its frames are left out.
\<close>

definition cancelTarget :: "nat \<Rightarrow> 'g sched_scheme \<Rightarrow> Agent option" where
  "cancelTarget k h =
     (let x = tasks h k; holder = exclusiveThread h (ta_inst x);
          heldOff = (ftAsync (ta_ft x) \<and> (\<not> to_async (ta_opts x) \<or> to_callback (ta_opts x)) \<and> holder \<noteq> None \<and> holder \<noteq> ta_implicit x)
      in case find (\<lambda>t. th_cancellable (threads h t) \<and> \<not> (heldOff \<and> ta_implicit x = Some t)) (ta_threads x) of
           Some t \<Rightarrow> Some (AThread t)
         | None \<Rightarrow>
             if heldOff then None
             else find (\<lambda>a. case a of AThread t \<Rightarrow> th_task (threads h t) = k \<and> th_cancellable (threads h t)
                                     | APoint p \<Rightarrow> pt_task (points h p) = Some k \<and> pt_cancellable (points h p))
                    (so_waiting (stores h (storeOf h (ta_inst x)))))"

abbreviation headOf :: "'a list \<Rightarrow> 'a option" where
  "headOf xs \<equiv> (case xs of [] \<Rightarrow> None | a # _ \<Rightarrow> Some a)"

lemma find_headOf: "find P xs = headOf (filter P xs)"
  by (induction xs) simp_all

lemma headOf_append: "headOf (xs @ ys) = (case headOf xs of None \<Rightarrow> headOf ys | Some a \<Rightarrow> Some a)"
  by (cases xs) simp_all

lemma headOf_map: "headOf (map f xs) = map_option f (headOf xs)"
  by (cases xs) simp_all

lemma headOf_rev: "headOf (rev xs) = (if xs = [] then None else Some (last xs))"
  by (cases xs rule: rev_cases) simp_all

lemma last_remdups: "xs \<noteq> [] \<Longrightarrow> last (remdups xs) = last xs"
  by (induction xs) auto

lemma headOf_set: "headOf (rev (remdups (rev xs))) = headOf xs"
  using headOf_rev [of "rev xs"] by (cases xs) (simp_all add: headOf_rev last_remdups)

lemma cancelCandidates_first: "headOf (cancelCandidates k h) = cancelTarget k h"
proof -
  let ?x = "tasks h k"
  let ?held = "ftAsync (ta_ft ?x) \<and> needsExclusiveOf ?x \<and> exclusiveThread h (ta_inst ?x) \<noteq> None \<and> exclusiveThread h (ta_inst ?x) \<noteq> ta_implicit ?x"
  let ?own = "map AThread (filter (\<lambda>t. th_cancellable (threads h t)) (ta_threads ?x))"
  let ?ws = "so_waiting (stores h (storeOf h (ta_inst ?x)))"
  let ?mine = "\<lambda>a. case a of AThread t \<Rightarrow> th_task (threads h t) = k \<and> th_cancellable (threads h t)
     | APoint p \<Rightarrow> pt_task (points h p) = Some k \<and> pt_cancellable (points h p)"
  have m: "(agentTask h a = Some k \<and> agentCancellable h a) = ?mine a" for a
    by (cases a) (auto simp: agentTask_def agentCancellable_def)
  show ?thesis
  proof (cases ?held)
    case True
    have "filter (\<lambda>a. Some a \<noteq> map_option AThread (ta_implicit ?x)) ?own =
        map AThread (filter (\<lambda>t. th_cancellable (threads h t) \<and> ta_implicit ?x \<noteq> Some t) (ta_threads ?x))"
      by (cases "ta_implicit ?x") (auto simp: filter_map comp_def intro!: arg_cong [where f = "map AThread"] filter_cong)
    then show ?thesis using True
      by (simp add: cancelCandidates_def cancelTarget_def Let_def find_headOf headOf_map needsExclusiveOf_def split: option.splits list.splits)
  next
    case False
    have "headOf (cancelCandidates k h) = (case headOf ?own of None \<Rightarrow> headOf (filter (\<lambda>a. agentTask h a = Some k \<and> agentCancellable h a \<and> a \<notin> set ?own) ?ws) | Some a \<Rightarrow> Some a)"
      unfolding cancelCandidates_def Let_def if_not_P [OF False] by (simp only: headOf_append headOf_set)
    also have "\<dots> = (case headOf ?own of None \<Rightarrow> headOf (filter ?mine ?ws) | Some a \<Rightarrow> Some a)"
      using m by (cases ?own) simp_all
    also have "\<dots> = cancelTarget k h" using False
      by (auto simp: cancelTarget_def Let_def find_headOf headOf_map needsExclusiveOf_def split: option.splits)
    finally show ?thesis .
  qed
qed

lemma bindM_cong_at: "(\<And>x. g x (snd (f h)) = g' x (snd (f h))) \<Longrightarrow> bindM f g h = bindM f g' h"
  by (cases "f h") (auto simp: bindM_def split: sum.splits)

lemma seed_closeAll: "schedSeed (snd (closeAll xs h)) = schedSeed h"
  by (induction xs arbitrary: h) (auto simp: run_simps bindM_def setMayEnter_def)

lemma seed_enterFrom: "schedSeed (snd (enterFrom i c h)) = schedSeed h"
  by (simp add: enterFrom_def run_simps seed_closeAll)

text \<open>C28: A cancellation request on a started task is never lost. Under the default policy: if its instance may be entered from
  the caller and the task has a place that can take the request - one of its cancellable threads, the oldest first, else the
  oldest of its cancellable frames in the waiting list, the implicit thread and the frames left out while another thread
  holds the exclusive thread the task needs - then exactly that one is resumed as cancelled inside the instance;
  otherwise the request stays pending, nothing else changing, and the next cancellable wait of any of its threads returns at once as cancelled, while
  the waits that are not cancellable block as usual; a second delivery does not happen.\<close>

theorem cancellation_delivered:
  assumes "ta_state (tasks h k) = TStarted" "schedSeed h = None" "i = ta_inst (tasks h k)"
    "th_state (threads h t) = ThRunning" "th_task (threads h t) = k"
  shows "requestCancellation C k c h =
      (case cancelTarget k h of
         Some a \<Rightarrow>
           if mayEnterFrom i c h then
             bindM (enterFrom i c) (\<lambda>_. bracketRun i c (agentResume C a True)) (updTask k (\<lambda>x. x\<lparr>ta_state := TCancelDelivered\<rparr>) h)
           else (Inr (), updTask k (\<lambda>x. x\<lparr>ta_state := TPendingCancel\<rparr>) h)
       | None \<Rightarrow> (Inr (), updTask k (\<lambda>x. x\<lparr>ta_state := TPendingCancel\<rparr>) h)) \<and>
    waitUntil t cond True (updTask k (\<lambda>x. x\<lparr>ta_state := TPendingCancel\<rparr>) h) =
      (Inr (Now True), updTask k (\<lambda>x. x\<lparr>ta_state := TCancelDelivered\<rparr>) h) \<and>
    waitUntil t cond False (updTask k (\<lambda>x. x\<lparr>ta_state := TPendingCancel\<rparr>) h) =
      (Inr (Block \<lparr>br_ready = Some cond, br_cancellable = False, br_await = None\<rparr>), updTask k (\<lambda>x. x\<lparr>ta_state := TPendingCancel\<rparr>) h) \<and>
    waitUntil t cond True (updTask k (\<lambda>x. x\<lparr>ta_state := TCancelDelivered\<rparr>) h) =
      (Inr (Block \<lparr>br_ready = Some cond, br_cancellable = True, br_await = None\<rparr>), updTask k (\<lambda>x. x\<lparr>ta_state := TCancelDelivered\<rparr>) h)"
proof -
  have u: "updTask k f (updTask k g h) = updTask k (\<lambda>x. f (g x)) h" for f g by (simp add: updTask_def)
  let ?h1 = "updTask k (\<lambda>x. x\<lparr>ta_state := TCancelDelivered\<rparr>) h"
  have e: "bracketRun j c (bindM (chooseCandidate cs) (\<lambda>a. agentResume C a True)) g = bracketRun j c (agentResume C (hd cs) True) g"
    if "cs \<noteq> []" "schedSeed g = None" for cs g j
    using that by (cases cs) (simp_all add: bracketRun_def chooseCandidate_def run_simps)
  have n: "schedSeed (snd (enterFrom i c ?h1)) = None"
    using assms(2) by (simp add: seed_enterFrom) (simp add: updTask_def)
  have "requestCancellation C k c h = (if cancelCandidates k h \<noteq> [] \<and> mayEnterFrom i c h then
      bindM (enterFrom i c) (\<lambda>_. bracketRun i c (agentResume C (hd (cancelCandidates k h)) True)) ?h1
      else (Inr (), updTask k (\<lambda>x. x\<lparr>ta_state := TPendingCancel\<rparr>) h))"
    using assms(1,3) n by (auto simp: requestCancellation_def setTaskState_def run_simps intro!: bindM_cong_at e)
  also have "\<dots> = (case cancelTarget k h of
         Some a \<Rightarrow>
           if mayEnterFrom i c h then bindM (enterFrom i c) (\<lambda>_. bracketRun i c (agentResume C a True)) ?h1
           else (Inr (), updTask k (\<lambda>x. x\<lparr>ta_state := TPendingCancel\<rparr>) h)
       | None \<Rightarrow> (Inr (), updTask k (\<lambda>x. x\<lparr>ta_state := TPendingCancel\<rparr>) h))"
    unfolding cancelCandidates_first [symmetric] by (cases "cancelCandidates k h") simp_all
  finally show ?thesis using assms(1,4,5)
    by (auto simp: waitUntil_def deliverPendingCancel_def run_simps setTaskState_def u)
qed

text \<open>A started task whose frame waits in the waiting list takes the request there.\<close>

definition startedFrame :: sched where
  "startedFrame = updThread 1 (\<lambda>x. x\<lparr>th_state := ThRunning\<rparr>) (updTask 0 (\<lambda>x. x\<lparr>ta_state := TStarted\<rparr>) frameSched)"

theorem cancellation_delivered_witness:
  "requestCancellation quietCode 0 None startedFrame =
     bindM (enterFrom 1 None) (\<lambda>_. bracketRun 1 None (agentResume quietCode (APoint 1) True))
       (updTask 0 (\<lambda>x. x\<lparr>ta_state := TCancelDelivered\<rparr>) startedFrame)"
proof -
  have s: "ta_state (tasks startedFrame 0) = TStarted" "schedSeed startedFrame = None" "1 = ta_inst (tasks startedFrame 0)"
    "th_state (threads startedFrame 1) = ThRunning" "th_task (threads startedFrame 1) = 0" by code_simp+
  have c: "cancelTarget 0 startedFrame = Some (APoint 1)" "mayEnterFrom 1 None startedFrame" by code_simp+
  show ?thesis using cancellation_delivered [OF s, of quietCode None] by (simp only: c option.case if_True)
qed

end
