(* ===== verification/Boundary.thy ===== *)
theory Boundary
  imports TaskProps Lift Lower
begin

text \<open>
  The boundary to core WebAssembly (\<open>runtime/src/exec/boundary.ts\<close>): resolved canonical options, the
  call of a core function with the translation of its exceptions, the normalisation of the lanes the
  engine hands over, and the callback code.  A core function is a parameter of the model: a function
  of the lanes and the state that throws, returns, or (when it is entered through
  \<open>promising\<close>) gives a promise, named by its identity.
\<close>

section \<open>Core functions\<close>

datatype CoreExn = RuntimeError string | Thrown error

datatype CoreOut = Returned CoreRaw | Promised nat

type_synonym 's CoreFn = "JsVal list \<Rightarrow> 's \<Rightarrow> (CoreExn + CoreOut) \<times> 's"

text \<open>What \<open>callCore\<close> returns: the lanes, or the one-element array that holds a promise.\<close>

datatype CoreResult = Values "JsVal list" | Promise nat

definition mapCoreException :: "CoreExn \<Rightarrow> error" where
  "mapCoreException e = (case e of RuntimeError m \<Rightarrow> Trap (''guest trapped: '' @ m) | Thrown x \<Rightarrow> x)"

definition rawValues :: "CoreRaw \<Rightarrow> JsVal list" where
  "rawValues r = (case r of RawUndefined \<Rightarrow> [] | RawArray vs \<Rightarrow> vs | RawValue v \<Rightarrow> [v])"

definition callCore :: "'s CoreFn \<Rightarrow> JsVal list \<Rightarrow> ('s, CoreResult) sm" where
  "callCore fn args h =
     (case fn args h of
        (Inl e, h1) \<Rightarrow> (Inl (mapCoreException e), h1)
      | (Inr (Returned r), h1) \<Rightarrow> (Inr (Values (rawValues r)), h1)
      | (Inr (Promised p), h1) \<Rightarrow> (Inr (Promise p), h1))"

section \<open>Lanes\<close>

definition toUint32 :: "JsVal \<Rightarrow> int" where
  "toUint32 v = (case v of VNum i \<Rightarrow> i mod 2 ^ 32 | VFlt w \<Rightarrow> f64Trunc w mod 2 ^ 32 | _ \<Rightarrow> 0)"

definition normalizeLane :: "string \<Rightarrow> nat \<Rightarrow> CoreType \<Rightarrow> JsVal \<Rightarrow> JsVal result" where
  "normalizeLane what i t v =
     (case t of
        I32 \<Rightarrow> bindR (assertR (js_isNumber v) (what @ ''['' @ showNat i @ '']: i32 lane'')) (\<lambda>_. Ok (VNum (toUint32 v)))
      | I64 \<Rightarrow> (case v of
            VBig b \<Rightarrow> Ok (VBig (b mod 2 ^ 64))
          | _ \<Rightarrow> Err (AssertionError (what @ ''['' @ showNat i @ '']: i64 lane'')))
      | _ \<Rightarrow> bindR (assertR (js_isNumber v) (what @ ''['' @ showNat i @ '']: float lane'')) (\<lambda>_. Ok v))"

definition normalizeCoreValues :: "JsVal list \<Rightarrow> CoreType list \<Rightarrow> string \<Rightarrow> JsVal list result" where
  "normalizeCoreValues vs lanes what =
     (if length vs \<noteq> length lanes
      then Err (AssertionError (what @ '': expected '' @ showNat (length lanes) @ '' core values, got '' @ showNat (length vs)))
      else mapR (\<lambda>i. normalizeLane what i (lanes ! i) (vs ! i)) [0..<length vs])"

section \<open>Resolved options\<close>

text \<open>A resolver is null, or gives the function, or nothing while its initializer has not run.\<close>

type_synonym 's resolver = "'s CoreFn option option"

record 's ResolvedOptions =
  ro_stringEncoding :: StringEncoding
  ro_memory :: "MemRef option"
  ro_realloc :: "'s resolver"
  ro_postReturn :: "'s resolver"
  ro_callback :: "'s resolver"
  ro_async :: bool
  ro_cancellable :: bool
  ro_coreType :: CoreFuncType
  ro_instance :: nat

definition requireFn :: "'s resolver \<Rightarrow> string \<Rightarrow> 's CoreFn option result" where
  "requireFn r what =
     (case r of
        None \<Rightarrow> Ok None
      | Some None \<Rightarrow> Err (JsError (what @ '' accessed before its extract initializer ran''))
      | Some (Some f) \<Rightarrow> Ok (Some f))"

definition callRealloc :: "'s resolver \<Rightarrow> nat \<Rightarrow> nat \<Rightarrow> nat \<Rightarrow> nat \<Rightarrow> ('s, nat) sm" where
  "callRealloc r p0 os al n =
     bindM (liftR (requireFn r ''realloc'')) (\<lambda>f.
     case f of
       None \<Rightarrow> throwM (JsError ''TypeError'')
     | Some g \<Rightarrow>
         bindM (callCore g [VNum (int p0), VNum (int os), VNum (int al), VNum (int n)]) (\<lambda>out.
         case out of
           Values [v] \<Rightarrow>
             bindM (trapIfM (\<not> js_isNumber v) ''realloc result'') (\<lambda>_. returnM (nat (toUint32 v)))
         | _ \<Rightarrow> throwM (Trap ''realloc result'')))"

definition cabiOptions :: "'s ResolvedOptions \<Rightarrow> 's CanonicalOptions" where
  "cabiOptions o1 =
     \<lparr>stringEncoding = ro_stringEncoding o1, memory = ro_memory o1,
      realloc = (if ro_realloc o1 = None then None else Some (callRealloc (ro_realloc o1))),
      postReturn = None, isAsync = ro_async o1, callback = (ro_callback o1 \<noteq> None)\<rparr>"

definition liftLowerContext :: "'s ResolvedOptions \<Rightarrow> BorrowScope option \<Rightarrow> bool \<Rightarrow> 's Context" where
  "liftLowerContext o1 scope le =
     \<lparr>opts = LiftLowerOptions.truncate (cabiOptions o1), inst = Some (ro_instance o1), borrowScope = scope, platformLE = le\<rparr>"

section \<open>Awaiting a core call\<close>

text \<open>\<open>awaitCore\<close> up to its \<open>yield\<close>, and what the value sent back stands for.\<close>

definition awaitCore :: "nat \<Rightarrow> 'g sched_scheme CoreFn \<Rightarrow> JsVal list \<Rightarrow> ('g sched_scheme, JsVal list Await) sm" where
  "awaitCore t fn args =
     bindM (withActivation t (callCore fn args)) (\<lambda>r.
     case r of
       Values vs \<Rightarrow> returnM (Now vs)
     | Promise p \<Rightarrow> returnM (Block \<lparr>br_ready = None, br_cancellable = False, br_await = Some p\<rparr>))"

text \<open>The promise a thread is parked on is the core function's, its rejection translated.\<close>

definition coreSettlement :: "CoreExn + CoreRaw \<Rightarrow> CoreRaw result" where
  "coreSettlement s = (case s of Inl e \<Rightarrow> Inl (mapCoreException e) | Inr r \<Rightarrow> Inr r)"

definition sentValues :: "Sent \<Rightarrow> JsVal list result" where
  "sentValues v = (case v of SendFailure e \<Rightarrow> Inl e | SendValue r \<Rightarrow> Inr (rawValues r) | SendFlag b \<Rightarrow> Inr [VBool b])"

definition sentFlag :: "Sent \<Rightarrow> bool result" where
  "sentFlag v =
     (case v of SendFailure e \<Rightarrow> Inl e | SendFlag b \<Rightarrow> Inr b
      | SendValue r \<Rightarrow> Inr (case r of RawUndefined \<Rightarrow> False | RawArray _ \<Rightarrow> True | RawValue x \<Rightarrow> js_truthy x))"

section \<open>The callback code\<close>

datatype CallbackCode = CbExit | CbYield | CbWait

definition CALLBACK_CODE_MAX :: nat where "CALLBACK_CODE_MAX = 2"

definition callbackCode :: "nat \<Rightarrow> CallbackCode" where
  "callbackCode n = (if n = 0 then CbExit else if n = 1 then CbYield else CbWait)"

definition unpackCallbackResult :: "JsVal \<Rightarrow> (CallbackCode \<times> nat) result" where
  "unpackCallbackResult v =
     (case v of
        VNum packed \<Rightarrow>
          bindR (assertR (packed \<ge> 0 \<and> packed < 2 ^ 32) ''unpack-callback-result: packed out of range'') (\<lambda>_.
          let w = (word_of_int packed :: 32 word); code = unat (and w 0xf) in
          bindR (trapIfR (code > CALLBACK_CODE_MAX) (''invalid callback code '' @ showNat code)) (\<lambda>_.
          Ok (callbackCode code, unat (drop_bit 4 w))))
      | _ \<Rightarrow> Err (AssertionError ''unpack-callback-result: packed out of range''))"

end
