(* ===== verification/LiftCall.thy ===== *)
theory LiftCall
  imports Boundary
begin

text \<open>
  The body of a lifted export (\<open>liftBody\<close> and \<open>runCallbackLoop\<close> of \<open>runtime/src/exec/boundary.ts\<close>): the
  generator an implicit thread runs, cut at its \<open>yield\<close>s.  \<open>th_pc\<close> says where it stands and \<open>liftStep\<close> runs it to its
  next \<open>yield\<close> or to its end.  In the callback loop an iteration that does not yield delivers the task's
  one pending cancellation, so the iterations without a \<open>yield\<close> are bounded; \<open>callbackLoop\<close> counts them.
\<close>

record 'g LiftInput =
  li_name :: string
  li_ft :: FuncType
  li_opts :: "'g sched_scheme ResolvedOptions"
  li_core :: "'g sched_scheme CoreFn"
  li_enter :: "'g sched_scheme CoreFn \<Rightarrow> 'g sched_scheme CoreFn"
  li_task :: nat
  li_jspi :: bool
  li_littleEndian :: bool

definition setPc :: "nat \<Rightarrow> Pc \<Rightarrow> ('g sched_scheme, unit) sm" where
  "setPc t pc = modifyM (updThread t (\<lambda>x. x\<lparr>th_pc := pc\<rparr>))"

definition yieldAt :: "nat \<Rightarrow> Pc \<Rightarrow> BlockRequest \<Rightarrow> ('g sched_scheme, Step) sm" where
  "yieldAt t pc req = bindM (setPc t pc) (\<lambda>_. returnM (Yielded req))"

definition liftContext :: "'g LiftInput \<Rightarrow> 'g sched_scheme Context" where
  "liftContext L = liftLowerContext (li_opts L) (Some (TaskScope (li_task L))) (li_littleEndian L)"

definition finishLift :: "'g LiftInput \<Rightarrow> nat \<Rightarrow> ('g sched_scheme, Step) sm" where
  "finishLift L t = bindM (exitImplicitThread (li_task L) t) (\<lambda>_. returnM Finished)"

section \<open>Synchronous options\<close>

text \<open>Post-return runs with \<open>may_leave\<close> cleared; an exception leaves it cleared.\<close>

definition setMayLeave :: "nat \<Rightarrow> bool \<Rightarrow> ('g heap_scheme, unit) sm" where
  "setMayLeave i b = modifyM (\<lambda>h. h\<lparr>mayLeave := (mayLeave h)(i := b)\<rparr>)"

definition runPostReturn :: "'g LiftInput \<Rightarrow> JsVal list \<Rightarrow> ('g sched_scheme, unit) sm" where
  "runPostReturn L flat =
     bindM (liftR (requireFn (ro_postReturn (li_opts L)) (li_name L @ '' post-return''))) (\<lambda>pr.
     case pr of
       None \<Rightarrow> returnM ()
     | Some f \<Rightarrow>
         bindM (getsM (\<lambda>h. mayLeave h (ro_instance (li_opts L)))) (\<lambda>ml.
         bindM (assertM ml ''post-return with may_leave already false'') (\<lambda>_.
         bindM (setMayLeave (ro_instance (li_opts L)) False) (\<lambda>_.
         bindM (callCore f flat) (\<lambda>_.
         setMayLeave (ro_instance (li_opts L)) True)))))"

definition liftResults :: "'g LiftInput \<Rightarrow> JsVal list \<Rightarrow> ('g sched_scheme, JsVal list \<times> JsVal list) sm" where
  "liftResults L raw =
     bindM (liftR (normalizeCoreValues raw (cresults (ro_coreType (li_opts L))) (li_name L @ '' results''))) (\<lambda>flat.
     bindM (liftFlatValues (liftContext L) MAX_FLAT_RESULTS (CoreIter flat 0) (ftResults (li_ft L))) (\<lambda>r.
     returnM (flat, fst r)))"

definition syncDone :: "'g LiftInput \<Rightarrow> 'g sched_scheme Caller \<Rightarrow> nat \<Rightarrow> JsVal list \<Rightarrow> ('g sched_scheme, Step) sm" where
  "syncDone L G t raw =
     bindM (liftResults L raw) (\<lambda>fr.
     bindM (taskReturn G (li_task L) (snd fr)) (\<lambda>_.
     bindM (runPostReturn L (fst fr)) (\<lambda>_.
     finishLift L t)))"

section \<open>The callback loop\<close>

definition requireWset :: "nat \<Rightarrow> nat \<Rightarrow> string \<Rightarrow> ('g heap_scheme, nat) sm" where
  "requireWset i si msg =
     bindM (handlesGet i si) (\<lambda>e. case e of EWaitableSet w \<Rightarrow> returnM w | _ \<Rightarrow> throwM (Trap msg))"

definition addNumWaiting :: "nat \<Rightarrow> int \<Rightarrow> ('g heap_scheme, unit) sm" where
  "addNumWaiting w d = modifyM (updWset w (\<lambda>x. x\<lparr>numWaiting := nat (int (numWaiting x) + d)\<rparr>))"

text \<open>\<open>waitForEventAnd\<close>, before and after its \<open>yield\<close>.\<close>

definition finishWait :: "nat \<Rightarrow> bool \<Rightarrow> ('g sched_scheme, EventTuple) sm" where
  "finishWait w cancelled =
     finallyM (if cancelled then returnM (EvTASK_CANCELLED, 0, 0) else wsetGetPendingEvent w) (addNumWaiting w (-1))"

definition waitForEventAnd :: "nat \<Rightarrow> nat \<Rightarrow> Cond \<Rightarrow> bool \<Rightarrow> ('g sched_scheme, EventTuple Await) sm" where
  "waitForEventAnd w t c cancellable =
     bindM (addNumWaiting w 1) (\<lambda>_.
     bindM (catchM (waitUntil t (AndPending c w) cancellable) (\<lambda>e. bindM (addNumWaiting w (-1)) (\<lambda>_. throwM e))) (\<lambda>a.
     case a of
       Block req \<Rightarrow> returnM (Block req)
     | Now cancelled \<Rightarrow> bindM (finishWait w cancelled) (\<lambda>ev. returnM (Now ev))))"

definition yieldEvent :: "bool \<Rightarrow> EventTuple" where
  "yieldEvent cancelled = (if cancelled then (EvTASK_CANCELLED, 0, 0) else (EvNONE, 0, 0))"

definition eventLanes :: "EventTuple \<Rightarrow> JsVal list" where
  "eventLanes ev = (case ev of (code, p1, p2) \<Rightarrow> [VNum (int (eventCodeNum code)), VNum (int p1), VNum (int p2)])"

text \<open>Retaking the exclusive thread and calling the callback with an event.\<close>

definition deliverEvent :: "'g LiftInput \<Rightarrow> nat \<Rightarrow> EventTuple \<Rightarrow> ('g sched_scheme, JsVal list Await) sm" where
  "deliverEvent L t ev =
     bindM (getsM (\<lambda>h. exclusiveThread h (ro_instance (li_opts L)))) (\<lambda>ex.
     bindM (assertM (ex = None) ''exclusive thread taken while this task was waiting'') (\<lambda>_.
     bindM (getsM (\<lambda>h. ta_implicit (tasks h (li_task L)))) (\<lambda>im.
     bindM (setExclusive (ro_instance (li_opts L)) im) (\<lambda>_.
     bindM (liftR (requireFn (ro_callback (li_opts L)) (li_name L @ '' callback''))) (\<lambda>cb.
     case cb of
       None \<Rightarrow> throwM (JsError ''TypeError'')
     | Some f \<Rightarrow> awaitCore t (li_enter L f) (eventLanes ev))))))"

text \<open>The packed code of an activation: destructuring an empty array gives \<open>undefined\<close>.\<close>

definition packedCode :: "JsVal list \<Rightarrow> (CallbackCode \<times> nat) result" where
  "packedCode vs = unpackCallbackResult (case vs of [] \<Rightarrow> VUndef | v # _ \<Rightarrow> v)"

text \<open>The head of the loop: releasing the exclusive thread and waiting for an event.\<close>

definition awaitEvent :: "'g LiftInput \<Rightarrow> nat \<Rightarrow> CallbackCode \<Rightarrow> nat \<Rightarrow> ('g sched_scheme, EventTuple Await \<times> Pc) sm" where
  "awaitEvent L t code si =
     bindM (needsExclusive (li_task L)) (\<lambda>ne.
     bindM (getsM (\<lambda>h. exclusiveThread h (ro_instance (li_opts L)) = ta_implicit (tasks h (li_task L)))) (\<lambda>holds_it.
     bindM (assertM (ne \<and> holds_it) ''callback loop without holding the exclusive thread'') (\<lambda>_.
     bindM (setExclusive (ro_instance (li_opts L)) None) (\<lambda>_.
     case code of
       CbYield \<Rightarrow>
         bindM (waitUntil t (ExclusiveFree (ro_instance (li_opts L))) True) (\<lambda>a.
         returnM (case a of Now c \<Rightarrow> Now (yieldEvent c) | Block req \<Rightarrow> Block req, PcYield))
     | CbWait \<Rightarrow>
         bindM (requireWset (ro_instance (li_opts L)) si
                  (''callback returned WAIT with index '' @ showNat si @ '', which is not a waitable set'')) (\<lambda>w.
         bindM (waitForEventAnd w t (ExclusiveFree (ro_instance (li_opts L))) True) (\<lambda>a.
         returnM (a, PcWait w)))
     | CbExit \<Rightarrow> throwM (Trap ''invalid callback code 0'')))))"

fun callbackLoop :: "nat \<Rightarrow> 'g LiftInput \<Rightarrow> nat \<Rightarrow> CallbackCode \<times> nat \<Rightarrow> ('g sched_scheme, Step) sm" where
  "callbackLoop 0 L t ci = throwM (JsError ''callback loop bound'')"
| "callbackLoop (Suc n) L t ci =
     (if fst ci = CbExit then finishLift L t
      else
        bindM (awaitEvent L t (fst ci) (snd ci)) (\<lambda>ap.
        case fst ap of
          Block req \<Rightarrow> yieldAt t (snd ap) req
        | Now ev \<Rightarrow>
            bindM (deliverEvent L t ev) (\<lambda>a.
            case a of
              Block req \<Rightarrow> yieldAt t PcCallback req
            | Now vs \<Rightarrow>
                bindM (liftR (bindR (normalizeCoreValues vs [I32] (li_name L @ '' callback result'')) packedCode)) (\<lambda>ci.
                callbackLoop n L t ci))))"

definition callbackFuel :: nat where
  "callbackFuel = 2"

definition callbackDone :: "'g LiftInput \<Rightarrow> nat \<Rightarrow> JsVal list \<Rightarrow> ('g sched_scheme, Step) sm" where
  "callbackDone L t vs =
     bindM (liftR (bindR (normalizeCoreValues vs [I32] (li_name L @ '' callback result'')) packedCode)) (\<lambda>ci.
     callbackLoop callbackFuel L t ci)"

text \<open>An event has arrived after a \<open>yield\<close> of the loop.\<close>

definition resumeLoop :: "'g LiftInput \<Rightarrow> nat \<Rightarrow> EventTuple \<Rightarrow> ('g sched_scheme, Step) sm" where
  "resumeLoop L t ev =
     bindM (deliverEvent L t ev) (\<lambda>a.
     case a of
       Block req \<Rightarrow> yieldAt t PcCallback req
     | Now vs \<Rightarrow> callbackDone L t vs)"

definition firstDone :: "'g LiftInput \<Rightarrow> nat \<Rightarrow> JsVal list \<Rightarrow> ('g sched_scheme, Step) sm" where
  "firstDone L t vs =
     bindM (liftR (bindR (normalizeCoreValues vs (cresults (ro_coreType (li_opts L))) (li_name L @ '' results'')) packedCode)) (\<lambda>ci.
     callbackLoop callbackFuel L t ci)"

section \<open>The body\<close>

definition liftEntered :: "'g LiftInput \<Rightarrow> 'g sched_scheme Caller \<Rightarrow> nat \<Rightarrow> bool \<Rightarrow> ('g sched_scheme, Step) sm" where
  "liftEntered L G t entered =
     (if \<not> entered then returnM Finished
      else
        bindM (taskStart G (li_task L)) (\<lambda>args.
        bindM (lowerFlatValues (liftContext L) MAX_FLAT_PARAMS args (ftParams (li_ft L)) None) (\<lambda>flatArgs.
        if \<not> ro_async (li_opts L) then
          bindM (awaitCore t (li_core L) flatArgs) (\<lambda>a.
          case a of Block req \<Rightarrow> yieldAt t PcSync req | Now vs \<Rightarrow> syncDone L G t vs)
        else if ro_callback (li_opts L) = None then
          (if \<not> li_jspi L then
             throwM (Capability (''needs JSPI (M2 phase 3): stackful async lift of export '' @ li_name L))
           else
             bindM (awaitCore t (li_core L) flatArgs) (\<lambda>a.
             case a of Block req \<Rightarrow> yieldAt t PcStackful req | Now _ \<Rightarrow> finishLift L t))
        else
          bindM (liftR (requireFn (ro_callback (li_opts L)) (li_name L @ '' callback''))) (\<lambda>_.
          bindM (awaitCore t (li_core L) flatArgs) (\<lambda>a.
          case a of Block req \<Rightarrow> yieldAt t PcFirst req | Now vs \<Rightarrow> firstDone L t vs)))))"

text \<open>One run of the generator from where it stands; a failure sent in is thrown at the \<open>yield\<close>, inside the blocks that enclose it.\<close>

definition liftStep :: "'g LiftInput \<Rightarrow> 'g sched_scheme Caller \<Rightarrow> nat \<Rightarrow> Sent \<Rightarrow> ('g sched_scheme, Step) sm" where
  "liftStep L G t v =
     bindM (getsM (\<lambda>h. th_pc (threads h t))) (\<lambda>pc.
     bindM (setPc t PcEnd) (\<lambda>_.
     case pc of
       PcStart \<Rightarrow>
         bindM (enterImplicitThread G (li_task L) t) (\<lambda>a.
         case a of Block req \<Rightarrow> yieldAt t PcAdmit req | Now b \<Rightarrow> liftEntered L G t b)
     | PcAdmit \<Rightarrow>
         (case sentFlag v of
            Inl e \<Rightarrow>
              bindM (getsM (\<lambda>h. ta_inst (tasks h (li_task L)))) (\<lambda>i. bindM (addWaitingToEnter i (-1)) (\<lambda>_. throwM e))
          | Inr c \<Rightarrow> bindM (afterAdmissionWait G (li_task L) t c) (liftEntered L G t))
     | PcSync \<Rightarrow> bindM (liftR (sentValues v)) (syncDone L G t)
     | PcStackful \<Rightarrow> bindM (liftR (sentValues v)) (\<lambda>_. finishLift L t)
     | PcFirst \<Rightarrow> bindM (liftR (sentValues v)) (firstDone L t)
     | PcYield \<Rightarrow> bindM (liftR (sentFlag v)) (\<lambda>c. resumeLoop L t (yieldEvent c))
     | PcWait w \<Rightarrow>
         (case sentFlag v of
            Inl e \<Rightarrow> bindM (addNumWaiting w (-1)) (\<lambda>_. throwM e)
          | Inr c \<Rightarrow> bindM (finishWait w c) (resumeLoop L t))
     | PcCallback \<Rightarrow> bindM (liftR (sentValues v)) (callbackDone L t)
     | _ \<Rightarrow> returnM Finished))"

end
