(* ===== verification/Resources.thy ===== *)
theory Resources
  imports LiftCall
begin

text \<open>
  The resource operations that run guest code or belong to fused adapters: \<open>resource.drop\<close> with the
  gated call of the destructor (\<open>runtime/src/cabi/handles.ts\<close>), the bracket of a synchronous call between components and
  the two resource transfers (\<open>runtime/src/intrinsics/mod.ts\<close>), and the context slots (\<open>intrinsics/context.ts\<close>).
  The state extends the scheduler's by what the host keeps per call.  A bracket (\<open>SyncCallScope\<close>) is an
  identity: its borrow count is \<open>taskBorrows\<close>, its lenders \<open>scopeLenders\<close>; \<open>callScopes\<close> is the
  stack of a thread (\<open>Thread.syncCallStack\<close>), \<open>contextScopes\<close> the executor's, for code outside any thread.
\<close>

datatype LenderScope = OfSubtask nat | OfScope nat

record hostsched = sched +
  resolvedOf :: "nat \<Rightarrow> JsVal list option option"
  callScopes :: "nat \<Rightarrow> nat list"
  contextScopes :: "nat list"
  scopeLenders :: "nat \<Rightarrow> nat list"
  factStartScopes :: "(nat \<times> LenderScope) list"
  enterSyncCalls :: nat
  exitSyncCalls :: nat
  allInstances :: "nat list"
  trapPending :: "error option"
  settlementPumps :: "nat list"
  settlementNudges :: "nat list"
  lowerIter :: "nat \<Rightarrow> Iter"
  lowerHandle :: "nat \<Rightarrow> nat option"

section \<open>Refusals\<close>

definition showError :: "error \<Rightarrow> string" where
  "showError e = (case e of Trap m \<Rightarrow> ''Trap: '' @ m | AssertionError m \<Rightarrow> ''AssertionError: '' @ m | JsError m \<Rightarrow> m | Capability m \<Rightarrow> m)"

definition withPoisonCause :: "nat \<Rightarrow> string \<Rightarrow> 'g heap_scheme \<Rightarrow> string" where
  "withPoisonCause i base h =
     (case poisonCause h i of None \<Rightarrow> base | Some e \<Rightarrow> base @ '' -- instance poisoned by: '' @ showError e)"

definition isCapabilitySignal :: "error \<Rightarrow> bool" where
  "isCapabilitySignal e = (case e of Capability _ \<Rightarrow> True | _ \<Rightarrow> False)"

text \<open>An exception of a core function as it reaches JavaScript.\<close>

definition rawException :: "CoreExn \<Rightarrow> error" where
  "rawException e = (case e of RuntimeError m \<Rightarrow> JsError (''RuntimeError: '' @ m) | Thrown x \<Rightarrow> x)"

section \<open>Dropping a resource\<close>

definition runDtor :: "'s CoreFn option \<Rightarrow> JsVal \<Rightarrow> ('s, unit) sm" where
  "runDtor d rep =
     (case d of
        None \<Rightarrow> returnM ()
      | Some f \<Rightarrow> (\<lambda>h. case f [rep] h of
            (Inl e, h1) \<Rightarrow> (Inl (rawException e), h1)
          | (Inr (Returned _), h1) \<Rightarrow> (Inr (), h1)
          | (Inr (Promised _), h1) \<Rightarrow> (Inl (Trap ''resource destructor did not complete synchronously''), h1)))"

definition poisonDtor :: "nat \<Rightarrow> nat \<Rightarrow> error \<Rightarrow> ('g heap_scheme, unit) sm" where
  "poisonDtor i caller e = (if isCapabilitySignal e then leaveTo i (Some caller) else notifyInstancePoisoned i e)"

definition callDtorGated :: "(nat \<Rightarrow> 'g heap_scheme CoreFn option) \<Rightarrow> nat \<Rightarrow> JsVal \<Rightarrow> nat \<Rightarrow> ('g heap_scheme, unit) sm" where
  "callDtorGated D rt rep caller =
     bindM (getsM (\<lambda>h. rtImpl h rt)) (\<lambda>impl.
     case impl of
       None \<Rightarrow> runDtor (D rt) rep
     | Some i \<Rightarrow>
         bindM (getsM (mayEnterFrom i (Some caller))) (\<lambda>ok.
         bindM (getsM (withPoisonCause i ''cannot enter component instance'')) (\<lambda>msg.
         bindM (trapIfM (\<not> ok) msg) (\<lambda>_.
         bindM (enterFrom i (Some caller)) (\<lambda>_.
         bindM (catchM (runDtor (D rt) rep) (\<lambda>e. bindM (poisonDtor i caller e) (\<lambda>_. throwM e))) (\<lambda>_.
         leaveTo i (Some caller)))))))"

definition canonResourceDrop :: "(nat \<Rightarrow> 'g heap_scheme CoreFn option) \<Rightarrow> nat \<Rightarrow> nat \<Rightarrow> nat \<Rightarrow> ('g heap_scheme, unit) sm" where
  "canonResourceDrop D ins rt i =
     bindM (getsM (\<lambda>h. mayLeave h ins)) (\<lambda>ml.
     bindM (trapIfM (\<not> ml) ''may_leave violation'') (\<lambda>_.
     bindM (onTable ins (tableRemove i)) (\<lambda>e.
     bindM (asResource e) (\<lambda>(r, rh).
     bindM (trapIfM (rh_rt rh \<noteq> rt) ''resource type mismatch'') (\<lambda>_.
     bindM (trapIfM (numLends rh \<noteq> 0) ''handle still lent out'') (\<lambda>_.
     if rh_own rh then
       bindM (assertM (rh_scope rh = None) ''internal assertion failed'') (\<lambda>_.
       callDtorGated D rt (rh_rep rh) ins)
     else
       (case rh_scope rh of
          None \<Rightarrow> throwM (AssertionError ''internal assertion failed'')
        | Some k \<Rightarrow> modifyM (\<lambda>h. h\<lparr>taskBorrows := (taskBorrows h)(k := taskBorrows h k - 1)\<rparr>))))))))"

section \<open>The bracket of a synchronous call\<close>

definition getScopes :: "'g hostsched_scheme \<Rightarrow> nat list" where
  "getScopes h = (case maybeCurrentThread h of Some t \<Rightarrow> callScopes h t | None \<Rightarrow> contextScopes h)"

definition putScopes :: "nat list \<Rightarrow> 'g hostsched_scheme \<Rightarrow> 'g hostsched_scheme" where
  "putScopes ss h =
     (case maybeCurrentThread h of
        Some t \<Rightarrow> h\<lparr>callScopes := (callScopes h)(t := ss)\<rparr>
      | None \<Rightarrow> h\<lparr>contextScopes := ss\<rparr>)"

definition scopeAddLender :: "nat \<Rightarrow> nat \<Rightarrow> ('g hostsched_scheme, unit) sm" where
  "scopeAddLender s r =
     bindM (modifyM (addLends 1 r)) (\<lambda>_. modifyM (\<lambda>h. h\<lparr>scopeLenders := (scopeLenders h)(s := scopeLenders h s @ [r])\<rparr>))"

definition releaseLenders :: "nat \<Rightarrow> 'g hostsched_scheme \<Rightarrow> 'g hostsched_scheme" where
  "releaseLenders s h = (fold (addLends (-1)) (scopeLenders h s) h)\<lparr>scopeLenders := (scopeLenders h)(s := [])\<rparr>"

text \<open>The gate is checked when both instances are given; it is not taken.\<close>

definition enterSyncCall :: "nat option \<Rightarrow> nat option \<Rightarrow> ('g hostsched_scheme, unit) sm" where
  "enterSyncCall caller callee =
     bindM (case (caller, callee) of
              (Some c, Some i) \<Rightarrow>
                bindM (getsM (mayEnterFrom i (Some c))) (\<lambda>ok.
                bindM (getsM (withPoisonCause i ''cannot enter component instance'')) (\<lambda>msg. trapIfM (\<not> ok) msg))
            | _ \<Rightarrow> returnM ()) (\<lambda>_.
     bindM (modifyM (\<lambda>h. h\<lparr>enterSyncCalls := enterSyncCalls h + 1\<rparr>)) (\<lambda>_.
     bindM freshId (\<lambda>s.
     bindM (modifyM (\<lambda>h. h\<lparr>taskBorrows := (taskBorrows h)(s := 0), scopeLenders := (scopeLenders h)(s := [])\<rparr>)) (\<lambda>_.
     modifyM (\<lambda>h. putScopes (getScopes h @ [s]) h)))))"

definition exitSyncCall :: "('g hostsched_scheme, unit) sm" where
  "exitSyncCall =
     bindM (modifyM (\<lambda>h. h\<lparr>exitSyncCalls := exitSyncCalls h + 1\<rparr>)) (\<lambda>_.
     bindM (getsM (\<lambda>h. exitSyncCalls h \<le> enterSyncCalls h)) (\<lambda>ok.
     bindM (assertM ok ''exit-sync-call without matching enter-sync-call'') (\<lambda>_.
     bindM (getsM getScopes) (\<lambda>ss.
     bindM (modifyM (putScopes (butlast ss))) (\<lambda>_.
     bindM (assertM (ss \<noteq> []) ''exit-sync-call with an empty sync-call stack'') (\<lambda>_.
     bindM (getsM (\<lambda>h. taskBorrows h (last ss))) (\<lambda>n.
     bindM (trapIfM (n > 0) ''borrow handles still remain at the end of the call'') (\<lambda>_.
     modifyM (releaseLenders (last ss))))))))))"

section \<open>Transfers\<close>

definition transferOwn :: "nat \<Rightarrow> nat \<Rightarrow> nat \<Rightarrow> nat \<Rightarrow> nat \<Rightarrow> ('g heap_scheme, nat) sm" where
  "transferOwn handle src srcRt dst dstRt =
     bindM (onTable src (tableRemove handle)) (\<lambda>e.
     case e of
       EResource r \<Rightarrow>
         bindM (getsM (\<lambda>h. resources h r)) (\<lambda>rh.
         bindM (trapIfM (rh_rt rh \<noteq> srcRt) ''transfer-own: resource type mismatch'') (\<lambda>_.
         bindM (trapIfM (numLends rh \<noteq> 0) ''cannot remove owned resource while borrowed (handle still lent out)'') (\<lambda>_.
         bindM (trapIfM (\<not> rh_own rh) ''transfer-own: expected an owning handle'') (\<lambda>_.
         bindM (newResource \<lparr>rh_rt = dstRt, rh_rep = rh_rep rh, rh_own = True, rh_scope = None, numLends = 0\<rparr>) (\<lambda>r2.
         onTable dst (tableAdd (EResource r2)))))))
     | _ \<Rightarrow> throwM (Trap ''transfer-own: not a resource handle''))"

definition lendTo :: "LenderScope \<Rightarrow> nat \<Rightarrow> ('g hostsched_scheme, unit) sm" where
  "lendTo l r = (case l of OfSubtask s \<Rightarrow> addLender s r | OfScope s \<Rightarrow> scopeAddLender s r)"

text \<open>The innermost scope: a start window of a fused adapter before the enclosing bracket.\<close>

definition borrowScopeOf :: "'g hostsched_scheme \<Rightarrow> (nat \<times> LenderScope) option" where
  "borrowScopeOf h =
     (if factStartScopes h \<noteq> [] then Some (last (factStartScopes h))
      else if getScopes h \<noteq> [] then Some (last (getScopes h), OfScope (last (getScopes h)))
      else None)"

definition transferBorrow :: "nat \<Rightarrow> nat \<Rightarrow> nat \<Rightarrow> nat \<Rightarrow> nat \<Rightarrow> ('g hostsched_scheme, JsVal) sm" where
  "transferBorrow handle src srcRt dst dstRt =
     bindM (getsM borrowScopeOf) (\<lambda>sc.
     case sc of
       None \<Rightarrow> throwM (AssertionError ''transfer-borrow outside an enter-sync-call/exit-sync-call bracket or FACT start window'')
     | Some (k, l) \<Rightarrow>
         bindM (handlesGet src handle) (\<lambda>e.
         case e of
           EResource r \<Rightarrow>
             bindM (getsM (\<lambda>h. resources h r)) (\<lambda>rh.
             bindM (trapIfM (rh_rt rh \<noteq> srcRt) ''transfer-borrow: resource type mismatch'') (\<lambda>_.
             bindM (lendTo l r) (\<lambda>_.
             bindM (getsM (\<lambda>h. rtImpl h dstRt)) (\<lambda>impl.
             if impl = Some dst then returnM (rh_rep rh)
             else
               bindM (modifyM (\<lambda>h. h\<lparr>taskBorrows := (taskBorrows h)(k := taskBorrows h k + 1)\<rparr>)) (\<lambda>_.
               bindM (newResource \<lparr>rh_rt = dstRt, rh_rep = rh_rep rh, rh_own = False, rh_scope = Some k, numLends = 0\<rparr>) (\<lambda>r2.
               bindM (onTable dst (tableAdd (EResource r2))) (\<lambda>i. returnM (VNum (int i)))))))))
         | _ \<Rightarrow> throwM (Trap ''transfer-borrow: not a resource handle'')))"

section \<open>Context slots\<close>

definition NUM_CONTEXT_SLOTS :: nat where "NUM_CONTEXT_SLOTS = 2"

definition canonContextGet :: "nat \<Rightarrow> nat option \<Rightarrow> ('g sched_scheme, int) sm" where
  "canonContextGet i oi =
     bindM (currentThreadForInstance oi) (\<lambda>t.
     bindM (assertM (i < NUM_CONTEXT_SLOTS) (''context.get slot '' @ showNat i @ '' out of range'')) (\<lambda>_.
     bindM (getsM (\<lambda>h. th_storage (threads h t) ! i)) (\<lambda>v.
     bindM (assertM (case v of VNum n \<Rightarrow> n < 2 ^ 32 | _ \<Rightarrow> False) ''context.get value out of i32 range'') (\<lambda>_.
     returnM (toUint32 v)))))"

definition canonContextSet :: "nat \<Rightarrow> JsVal \<Rightarrow> nat option \<Rightarrow> ('g sched_scheme, unit) sm" where
  "canonContextSet i v oi =
     bindM (currentThreadForInstance oi) (\<lambda>t.
     bindM (assertM (i < NUM_CONTEXT_SLOTS) (''context.set slot '' @ showNat i @ '' out of range'')) (\<lambda>_.
     modifyM (updThread t (\<lambda>x. x\<lparr>th_storage := (th_storage x)[i := VNum (toUint32 v)]\<rparr>))))"

datatype ContextIntrinsic = ContextGet nat | ContextSet nat

text \<open>The symbols \<open>context-get-i32-N\<close> and \<open>context-set-i32-N\<close>.\<close>

definition isDigit :: "char \<Rightarrow> bool" where
  "isDigit c \<longleftrightarrow> c \<in> set ''0123456789''"

definition parseNat :: "string \<Rightarrow> nat option" where
  "parseNat s =
     (if s \<noteq> [] \<and> list_all isDigit s
      then Some (foldl (\<lambda>n c. 10 * n + (of_char c - 48)) 0 s) else None)"

definition stripPrefix :: "string \<Rightarrow> string \<Rightarrow> string option" where
  "stripPrefix p s = (if take (length p) s = p then Some (drop (length p) s) else None)"

definition matchContext :: "string \<Rightarrow> ContextIntrinsic option" where
  "matchContext symbol =
     (case stripPrefix ''context-get-i32-'' symbol of
        Some r \<Rightarrow> map_option ContextGet (parseNat r)
      | None \<Rightarrow>
          (case stripPrefix ''context-set-i32-'' symbol of
             Some r \<Rightarrow> map_option ContextSet (parseNat r)
           | None \<Rightarrow> None))"

definition contextSlot :: "ContextIntrinsic \<Rightarrow> nat" where
  "contextSlot c = (case c of ContextGet n \<Rightarrow> n | ContextSet n \<Rightarrow> n)"

definition createUnsafeIntrinsic :: "string \<Rightarrow> ContextIntrinsic result" where
  "createUnsafeIntrinsic symbol =
     (case matchContext symbol of
        None \<Rightarrow> Err (JsError (''UnsupportedFeatureError: component imports the unsafe intrinsic '' @ symbol))
      | Some c \<Rightarrow>
          bindR (trapIfR (contextSlot c \<ge> NUM_CONTEXT_SLOTS)
                   (''unsafe intrinsic '' @ symbol @ '' addresses context slot '' @ showNat (contextSlot c))) (\<lambda>_. Ok c))"

definition runContextIntrinsic :: "ContextIntrinsic \<Rightarrow> JsVal \<Rightarrow> nat option \<Rightarrow> ('g sched_scheme, JsVal) sm" where
  "runContextIntrinsic c v oi =
     (case c of
        ContextGet i \<Rightarrow> bindM (canonContextGet i oi) (\<lambda>n. returnM (VNum n))
      | ContextSet i \<Rightarrow> bindM (canonContextSet i (VNum (toUint32 v)) oi) (\<lambda>_. returnM VUndef))"

end
