(* ===== verification/AsyncBuiltins.thy ===== *)
theory AsyncBuiltins
  imports Resources
begin

text \<open>
  The task, waitable-set and subtask built-ins (\<open>runtime/src/intrinsics/async_builtins.ts\<close>).  A built-in that blocks
  the calling frame gives the identity of its suspension point (\<open>BFrame\<close>); \<open>asyncProduce\<close> and \<open>asyncSettled\<close> are the closures
  such a point carries, by its kind.
\<close>

datatype BuiltinOut = BReturn JsVal | BFrame nat

text \<open>
  What a built-in is created with: the resolved options and result types of the plan by index, whether the engine can
  suspend frames, and the closures of the callers of tasks.
\<close>

record 'g AsyncContext =
  ac_options :: "nat \<Rightarrow> 'g sched_scheme ResolvedOptions"
  ac_resultTypes :: "nat \<Rightarrow> ValType list"
  ac_jspi :: bool
  ac_littleEndian :: bool
  ac_callers :: "nat \<Rightarrow> 'g sched_scheme Caller"

definition guardLeave :: "nat \<Rightarrow> string \<Rightarrow> ('g heap_scheme, unit) sm" where
  "guardLeave i msg = bindM (getsM (\<lambda>h. mayLeave h i)) (\<lambda>ml. trapIfM (\<not> ml) msg)"

section \<open>Tasks\<close>

definition createTaskReturn :: "'g AsyncContext \<Rightarrow> nat option \<Rightarrow> nat \<Rightarrow> JsVal list \<Rightarrow> ('g sched_scheme, unit) sm" where
  "createTaskReturn A resultType o1 flatArgs =
     bindM currentTask (\<lambda>k.
     bindM (getsM (\<lambda>h. tasks h k)) (\<lambda>x.
     let op = ac_options A o1; tys = (case resultType of None \<Rightarrow> [] | Some n \<Rightarrow> ac_resultTypes A n) in
     bindM (guardLeave (ta_inst x) ''task.return: cannot leave component instance (may_leave violation)'') (\<lambda>_.
     bindM (trapIfM (\<not> to_async (ta_opts x)) ''task.return from a non-async task'') (\<lambda>_.
     bindM (trapIfM ((\<not> ta_factPassthrough x \<or> ta_factResultTypesKnown x) \<and> \<not> valTypesEqual tys (ftResults (ta_ft x)))
              ''task.return with a result type that is not the task's result type'') (\<lambda>_.
     bindM (trapIfM (\<not> liftOptionsEqual (ro_stringEncoding op, ro_memory op)
                 (if ta_factPassthrough x then (to_stringEncoding (ta_opts x), ro_memory op)
                  else (to_stringEncoding (ta_opts x), to_memory (ta_opts x))))
              ''task.return with canonical options differing from the task's'') (\<lambda>_.
     bindM (liftR (normalizeCoreValues flatArgs (cparams (ro_coreType op)) ''task.return arguments'')) (\<lambda>flat.
     if ta_factPassthrough x then taskReturn (ac_callers A k) k flat
     else
       bindM (liftFlatValues \<lparr>opts = LiftLowerOptions.truncate (cabiOptions op), inst = Some (ta_inst x),
                borrowScope = Some (TaskScope k), platformLE = ac_littleEndian A\<rparr> MAX_FLAT_PARAMS (CoreIter flat 0) (ftResults (ta_ft x))) (\<lambda>r.
       taskReturn (ac_callers A k) k (fst r)))))))))"

definition createTaskCancel :: "'g AsyncContext \<Rightarrow> ('g sched_scheme, unit) sm" where
  "createTaskCancel A =
     bindM currentTask (\<lambda>k.
     bindM (getsM (\<lambda>h. tasks h k)) (\<lambda>x.
     bindM (guardLeave (ta_inst x) ''task.cancel: cannot leave component instance (may_leave violation)'') (\<lambda>_.
     bindM (trapIfM (\<not> to_async (ta_opts x)) ''task.cancel from a non-async task'') (\<lambda>_.
     taskCancel (ac_callers A k) k))))"

section \<open>Backpressure\<close>

definition setBackpressure :: "nat \<Rightarrow> int \<Rightarrow> ('g heap_scheme, unit) sm" where
  "setBackpressure i n = modifyM (\<lambda>h. h\<lparr>backpressure := (backpressure h)(i := n)\<rparr>)"

definition createBackpressureInc :: "nat \<Rightarrow> ('g heap_scheme, unit) sm" where
  "createBackpressureInc i =
     bindM (getsM (\<lambda>h. backpressure h i)) (\<lambda>n.
     bindM (assertM (n \<ge> 0 \<and> n < 2 ^ 16) ''backpressure counter out of range'') (\<lambda>_.
     bindM (setBackpressure i (n + 1)) (\<lambda>_.
     trapIfM (n + 1 = 2 ^ 16) ''backpressure counter overflow'')))"

definition createBackpressureDec :: "nat \<Rightarrow> ('g heap_scheme, unit) sm" where
  "createBackpressureDec i =
     bindM (getsM (\<lambda>h. backpressure h i)) (\<lambda>n.
     bindM (assertM (n \<ge> 0 \<and> n < 2 ^ 16) ''backpressure counter out of range'') (\<lambda>_.
     bindM (setBackpressure i (n - 1)) (\<lambda>_.
     trapIfM (n - 1 < 0) ''backpressure counter underflow'')))"

section \<open>Waitable sets\<close>

definition createWaitableSetNew :: "nat \<Rightarrow> ('g heap_scheme, nat) sm" where
  "createWaitableSetNew i =
     bindM (guardLeave i ''waitable-set.new: cannot leave component instance'') (\<lambda>_.
     bindM freshId (\<lambda>w.
     bindM (modifyM (updWset w (\<lambda>_. \<lparr>elems = [], numWaiting = 0\<rparr>))) (\<lambda>_.
     onTable i (tableAdd (EWaitableSet w)))))"

definition requireWaitableSet :: "nat \<Rightarrow> nat \<Rightarrow> string \<Rightarrow> ('g heap_scheme, nat) sm" where
  "requireWaitableSet i si what = requireWset i si (what @ '': handle '' @ showNat si @ '' is not a waitable set'')"

text \<open>The two payload words are stored at \<open>ptr\<close>; the result is the event code.\<close>

definition unpackEvent :: "'g AsyncContext \<Rightarrow> nat \<Rightarrow> nat \<Rightarrow> nat \<Rightarrow> EventTuple \<Rightarrow> ('g sched_scheme, JsVal) sm" where
  "unpackEvent A o1 i ptr ev =
     (case ev of (code, p1, p2) \<Rightarrow>
        let cx = liftLowerContext (ac_options A o1) None (ac_littleEndian A) in
        bindM (store (cx\<lparr>inst := Some i\<rparr>) (VNum (int p1)) (TPrim KU32) ptr) (\<lambda>_.
        bindM (store (cx\<lparr>inst := Some i\<rparr>) (VNum (int p2)) (TPrim KU32) (ptr + 4)) (\<lambda>_.
        returnM (VNum (int (eventCodeNum code))))))"

definition cancelledEvent :: EventTuple where
  "cancelledEvent = (EvTASK_CANCELLED, 0, 0)"

definition createWaitableSetWait :: "'g AsyncContext \<Rightarrow> nat \<Rightarrow> nat \<Rightarrow> nat \<Rightarrow> nat \<Rightarrow> ('g sched_scheme, BuiltinOut) sm" where
  "createWaitableSetWait A o1 i si ptr =
     bindM (guardLeave i ''waitable-set.wait: cannot leave component instance'') (\<lambda>_.
     bindM (requireWaitableSet i si ''waitable-set.wait'') (\<lambda>w.
     bindM currentTask (\<lambda>k.
     bindM (deliverPendingCancel k (ro_cancellable (ac_options A o1))) (\<lambda>d.
     if d then bindM (unpackEvent A o1 i ptr cancelledEvent) (\<lambda>v. returnM (BReturn v))
     else
       bindM (getsM (wsetHasPendingEvent w)) (\<lambda>pend.
       if pend then
         bindM (wsetGetPendingEvent w) (\<lambda>ev. bindM (unpackEvent A o1 i ptr ev) (\<lambda>v. returnM (BReturn v)))
       else if ac_jspi A then
         bindM (addNumWaiting w 1) (\<lambda>_.
         bindM (getsM (\<lambda>h. storeOf h i)) (\<lambda>s.
         bindM (blockCurrentActivation s k (WsetReady w) (ro_cancellable (ac_options A o1)) (WaitEvent w i (int ptr) o1)) (\<lambda>p.
         returnM (BFrame p))))
       else needsJspi ''waitable-set.wait with no pending event'')))))"

definition wsetPoll :: "nat \<Rightarrow> nat \<Rightarrow> bool \<Rightarrow> ('g sched_scheme, EventTuple) sm" where
  "wsetPoll w k cancellable =
     bindM (deliverPendingCancel k cancellable) (\<lambda>d.
     if d then returnM cancelledEvent
     else
       bindM (getsM (wsetHasPendingEvent w)) (\<lambda>pend.
       if \<not> pend then returnM (EvNONE, 0, 0) else wsetGetPendingEvent w))"

definition createWaitableSetPoll :: "'g AsyncContext \<Rightarrow> nat \<Rightarrow> nat \<Rightarrow> nat \<Rightarrow> nat \<Rightarrow> ('g sched_scheme, JsVal) sm" where
  "createWaitableSetPoll A o1 i si ptr =
     bindM (guardLeave i ''waitable-set.poll: cannot leave component instance'') (\<lambda>_.
     bindM (requireWaitableSet i si ''waitable-set.poll'') (\<lambda>w.
     bindM currentTask (\<lambda>k.
     bindM (wsetPoll w k (ro_cancellable (ac_options A o1))) (unpackEvent A o1 i ptr))))"

definition createWaitableSetDrop :: "nat \<Rightarrow> nat \<Rightarrow> ('g heap_scheme, unit) sm" where
  "createWaitableSetDrop i si =
     bindM (guardLeave i ''waitable-set.drop: cannot leave component instance'') (\<lambda>_.
     bindM (onTable i (tableRemove si)) (\<lambda>e.
     case e of
       EWaitableSet w \<Rightarrow> wsetDrop w
     | _ \<Rightarrow> throwM (Trap ''waitable-set.drop: handle is not a waitable set'')))"

definition asWaitable :: "Entry \<Rightarrow> nat option" where
  "asWaitable e = (case e of ESubtask s \<Rightarrow> Some s | EEnd n \<Rightarrow> Some n | _ \<Rightarrow> None)"

definition createWaitableJoin :: "nat \<Rightarrow> nat \<Rightarrow> nat \<Rightarrow> ('g heap_scheme, unit) sm" where
  "createWaitableJoin i wi si =
     bindM (guardLeave i ''waitable.join: cannot leave component instance'') (\<lambda>_.
     bindM (handlesGet i wi) (\<lambda>e.
     case asWaitable e of
       None \<Rightarrow> throwM (Trap ''waitable.join: handle is not a waitable'')
     | Some w \<Rightarrow>
         bindM (getsM (\<lambda>h. hasSyncWaiter (waitables h w))) (\<lambda>sw.
         bindM (trapIfM sw ''waitable.join on a waitable with a synchronous waiter'') (\<lambda>_.
         if si = 0 then waitableJoin w None
         else bindM (requireWaitableSet i si ''waitable.join'') (\<lambda>ws. waitableJoin w (Some ws))))))"

section \<open>Subtasks\<close>

definition createSubtaskDrop :: "nat \<Rightarrow> nat \<Rightarrow> ('g heap_scheme, unit) sm" where
  "createSubtaskDrop i si =
     bindM (guardLeave i ''subtask.drop: cannot leave component instance'') (\<lambda>_.
     bindM (onTable i (tableRemove si)) (\<lambda>e.
     case e of
       ESubtask s \<Rightarrow> subtaskDrop s
     | _ \<Rightarrow> throwM (Trap ''subtask.drop: handle is not a subtask'')))"

definition finishSubtaskCancel :: "nat \<Rightarrow> nat \<Rightarrow> ('g heap_scheme, nat) sm" where
  "finishSubtaskCancel i s =
     bindM (getPendingEvent s) (\<lambda>(code, index, payload).
     bindM (getsM (\<lambda>h. subtaskStateNum (st_state (subtasks h s)))) (\<lambda>st.
     bindM (assertM (code = EvSUBTASK \<and> index = i \<and> payload = st) ''unexpected event delivered by subtask.cancel'') (\<lambda>_.
     bindM (resolveDelivered s) (\<lambda>d.
     bindM (assertM d ''subtask.cancel did not deliver the resolution'') (\<lambda>_.
     returnM st)))))"

definition setSyncWaiter :: "nat \<Rightarrow> bool \<Rightarrow> ('g heap_scheme, unit) sm" where
  "setSyncWaiter w b = modifyM (updWaitable w (\<lambda>x. x\<lparr>hasSyncWaiter := b\<rparr>))"

definition runOnCancel :: "'g sched_scheme Code \<Rightarrow> OnCancel \<Rightarrow> nat \<Rightarrow> ('g sched_scheme, unit) sm" where
  "runOnCancel C oc i = (case oc of IgnoreCancel \<Rightarrow> returnM () | CancelTask k \<Rightarrow> requestCancellation C k (Some i))"

definition answerCancel :: "nat \<Rightarrow> nat \<Rightarrow> ('g heap_scheme, JsVal) sm" where
  "answerCancel i s = bindM (finishSubtaskCancel i s) (\<lambda>n. returnM (VNum (int n)))"

text \<open>What \<open>subtask.cancel\<close> does when the request has not resolved the callee.\<close>

definition awaitCancel :: "'g AsyncContext \<Rightarrow> bool \<Rightarrow> nat \<Rightarrow> nat \<Rightarrow> nat \<Rightarrow> ('g sched_scheme, BuiltinOut) sm" where
  "awaitCancel A isasync i hi s =
     (if \<not> isasync then
        (if ac_jspi A then
           bindM (setSyncWaiter s True) (\<lambda>_.
           bindM (getsM (\<lambda>h. storeOf h i)) (\<lambda>st.
           bindM currentTask (\<lambda>k.
           bindM (blockCurrentActivation st k (EventOn s) False (CancelSubtask hi s)) (\<lambda>p. returnM (BFrame p)))))
         else needsJspi ''synchronous subtask.cancel whose callee did not resolve immediately'')
      else
        bindM (getsM (\<lambda>h. calleeTask h s)) (\<lambda>callee.
        if ac_jspi A \<and> callee \<noteq> None then
          bindM (getsM (\<lambda>h. storeOf h i)) (\<lambda>st.
          bindM (getsM (determinate s st)) (\<lambda>det.
          if \<not> det then
            bindM currentTask (\<lambda>k.
            bindM (blockCurrentActivation st k (Determinate s st) False (CancelDeterminate hi s)) (\<lambda>p. returnM (BFrame p)))
          else
            bindM (getsM (\<lambda>h. resolved (subtasks h s))) (\<lambda>res.
            if \<not> res then returnM (BReturn (VNum (int BLOCKED)))
            else bindM (answerCancel hi s) (\<lambda>v. returnM (BReturn v)))))
        else returnM (BReturn (VNum (int BLOCKED)))))"

definition createSubtaskCancel :: "'g AsyncContext \<Rightarrow> 'g sched_scheme Code \<Rightarrow> bool \<Rightarrow> nat \<Rightarrow> nat \<Rightarrow> ('g sched_scheme, BuiltinOut) sm" where
  "createSubtaskCancel A C isasync i hi =
     bindM (guardLeave i ''subtask.cancel: cannot leave component instance'') (\<lambda>_.
     bindM (handlesGet i hi) (\<lambda>e.
     case e of
       ESubtask s \<Rightarrow>
         bindM (resolveDelivered s) (\<lambda>d.
         bindM (trapIfM d ''subtask.cancel on a subtask whose resolution was already delivered'') (\<lambda>_.
         bindM (getsM (\<lambda>h. subtasks h s)) (\<lambda>x.
         bindM (trapIfM (cancellationRequested x) ''subtask.cancel on a subtask that was already cancelled'') (\<lambda>_.
         bindM (getsM (inWaitableSet s)) (\<lambda>iw.
         bindM (trapIfM (iw \<and> \<not> isasync) ''synchronous subtask.cancel on a subtask that is in a waitable set'') (\<lambda>_.
         if resolved x then
           bindM (getsM (hasPendingEvent s)) (\<lambda>pe.
           bindM (assertM pe ''resolved subtask without a pending event at cancellation'') (\<lambda>_.
           bindM (answerCancel hi s) (\<lambda>v. returnM (BReturn v))))
         else
           bindM (modifyM (updSubtask s (\<lambda>y. y\<lparr>cancellationRequested := True\<rparr>))) (\<lambda>_.
           bindM (getsM (\<lambda>h. onCancel h s)) (\<lambda>oc.
           case oc of
             None \<Rightarrow> throwM (AssertionError ''subtask.cancel on a subtask with no cancellation handler'')
           | Some f \<Rightarrow>
               bindM (runOnCancel C f i) (\<lambda>_.
               bindM (getsM (\<lambda>h. resolved (subtasks h s))) (\<lambda>res.
               if \<not> res then awaitCancel A isasync i hi s
               else bindM (answerCancel hi s) (\<lambda>v. returnM (BReturn v)))))))))))) 
     | _ \<Rightarrow> throwM (Trap ''subtask.cancel: handle is not a subtask'')))"

section \<open>Yielding\<close>

definition createThreadYield :: "'g AsyncContext \<Rightarrow> bool \<Rightarrow> ('g sched_scheme, BuiltinOut) sm" where
  "createThreadYield A cancellable =
     bindM currentThread (\<lambda>t.
     bindM (getsM (\<lambda>h. (th_task (threads h t), instOf h t))) (\<lambda>(k, i).
     bindM (guardLeave i ''thread.yield: cannot leave component instance'') (\<lambda>_.
     bindM (deliverPendingCancel k cancellable) (\<lambda>d.
     if d then returnM (BReturn (VNum 1))
     else if ac_jspi A then
       bindM (getsM (\<lambda>h. storeOf h i)) (\<lambda>s.
       bindM (blockCurrentActivation s k Always cancellable YieldPoint) (\<lambda>p. returnM (BFrame p)))
     else needsJspi ''thread.yield''))))"

section \<open>What a suspended frame runs\<close>

definition asyncProduce :: "'g AsyncContext \<Rightarrow> PointKind \<Rightarrow> bool \<Rightarrow> ('g sched_scheme, JsVal) sm" where
  "asyncProduce A kd cancelled =
     (case kd of
        WaitEvent w i ptr o1 \<Rightarrow>
          bindM (if cancelled then returnM cancelledEvent else wsetGetPendingEvent w) (unpackEvent A o1 i (nat ptr))
      | CancelSubtask hi s \<Rightarrow> bindM (setSyncWaiter s False) (\<lambda>_. answerCancel hi s)
      | CancelDeterminate hi s \<Rightarrow>
          bindM (getsM (\<lambda>h. resolved (subtasks h s))) (\<lambda>res.
          if res then answerCancel hi s else returnM (VNum (int BLOCKED)))
      | YieldPoint \<Rightarrow> returnM (VNum (if cancelled then 1 else 0))
      | _ \<Rightarrow> throwM (JsError ''not a frame of these built-ins''))"

definition asyncSettled :: "PointKind \<Rightarrow> ('g sched_scheme, unit) sm" where
  "asyncSettled kd =
     (case kd of
        WaitEvent w i ptr o1 \<Rightarrow> addNumWaiting w (-1)
      | CancelSubtask hi s \<Rightarrow> setSyncWaiter s False
      | _ \<Rightarrow> returnM ())"

end
