(* ===== verification/LowerCall.thy ===== *)
theory LowerCall
  imports AsyncBuiltins
begin

text \<open>
  A lowered host import (\<open>createLoweredImport\<close> of \<open>runtime/src/exec/boundary.ts\<close>): the guest's call of a host function.
  One call makes one subtask; what its closures share is kept by the subtask: \<open>lowerIter\<close> is the iterator over the flat
  arguments, \<open>lowerHandle\<close> the index \<open>onProgress\<close> has captured (none while it is a no-op).  The host function is a parameter; it throws,
  returns a value, or returns a promise named by its identity.  The reactions to that promise are the operations of the last section.
\<close>

datatype HostRet = HostValue JsVal | HostPromise nat

record 'g LowerInput =
  lw_index :: nat
  lw_name :: string
  lw_ft :: FuncType
  lw_opts :: "'g sched_scheme ResolvedOptions"
  lw_host :: "JsVal list \<Rightarrow> ('g sched_scheme, HostRet) sm"
  lw_jspi :: bool
  lw_suspendable :: bool
  lw_littleEndian :: bool

definition lw_inst :: "'g LowerInput \<Rightarrow> nat" where
  "lw_inst W = ro_instance (lw_opts W)"

definition lowerContext :: "'g LowerInput \<Rightarrow> nat \<Rightarrow> 'g sched_scheme Context" where
  "lowerContext W s = liftLowerContext (lw_opts W) (Some (SubtaskScope s)) (lw_littleEndian W)"

definition maxFlatParams :: "'g LowerInput \<Rightarrow> nat" where
  "maxFlatParams W = (if ro_async (lw_opts W) then MAX_FLAT_ASYNC_PARAMS else MAX_FLAT_PARAMS)"

definition maxFlatResults :: "'g LowerInput \<Rightarrow> nat" where
  "maxFlatResults W = (if ro_async (lw_opts W) then 0 else MAX_FLAT_RESULTS)"

text \<open>The check at instantiation.\<close>

definition lowerCheck :: "'g LowerInput \<Rightarrow> unit result" where
  "lowerCheck W =
     bindR (flattenFunctype (cabiOptions (lw_opts W)) (lw_ft W) LowerContext) (\<lambda>computed.
     if \<not> coreFuncTypeEquals computed (ro_coreType (lw_opts W))
     then Err (JsError (''PlanError: import '' @ lw_name W @ '': computed flat type differs from the plan''))
     else Ok ())"

section \<open>The closures of a call\<close>

definition lowerProgress :: "nat \<Rightarrow> ('g hostsched_scheme, unit) sm" where
  "lowerProgress s =
     bindM (getsM (\<lambda>h. lowerHandle h s)) (\<lambda>i. case i of None \<Rightarrow> returnM () | Some n \<Rightarrow> setSubtaskPendingEvent s n)"

definition onStartLower :: "('g hostsched_ext) LowerInput \<Rightarrow> nat \<Rightarrow> ('g hostsched_scheme, JsVal list) sm" where
  "onStartLower W s =
     bindM (lowerProgress s) (\<lambda>_.
     bindM (getsM (\<lambda>h. st_state (subtasks h s))) (\<lambda>st.
     bindM (assertM (st = STARTING) (lw_name W @ '': on_start on a started subtask'')) (\<lambda>_.
     bindM (modifyM (updSubtask s (\<lambda>x. x\<lparr>st_state := STARTED\<rparr>))) (\<lambda>_.
     bindM (getsM (\<lambda>h. lowerIter h s)) (\<lambda>vi.
     bindM (liftFlatValues (lowerContext W s) (maxFlatParams W) vi (ftParams (lw_ft W))) (\<lambda>r.
     bindM (modifyM (\<lambda>h. h\<lparr>lowerIter := (lowerIter h)(s := snd r)\<rparr>)) (\<lambda>_.
     returnM (fst r))))))))"

text \<open>Spilled results consume the return pointer from the iterator.\<close>

definition spillIter :: "'s Context \<Rightarrow> nat \<Rightarrow> ValType list \<Rightarrow> Iter \<Rightarrow> Iter" where
  "spillIter cx n ts vi =
     (case bindR (flattenTypes ts (opts cx)) (\<lambda>fl.
           if length fl > n then bindR (requireMemory (opts cx)) (\<lambda>m. bindR (iterNext (addrType m) vi) (\<lambda>r. Ok (snd r)))
           else Ok vi) of
        Inr vi1 \<Rightarrow> vi1 | Inl _ \<Rightarrow> vi)"

definition onResolveLower :: "('g hostsched_ext) LowerInput \<Rightarrow> nat \<Rightarrow> JsVal list option \<Rightarrow> ('g hostsched_scheme, unit) sm" where
  "onResolveLower W s result =
     bindM (lowerProgress s) (\<lambda>_.
     bindM (getsM (\<lambda>h. subtasks h s)) (\<lambda>x.
     case result of
       None \<Rightarrow>
         bindM (assertM (cancellationRequested x) (lw_name W @ '': resolved as cancelled without a cancellation request'')) (\<lambda>_.
         resolve s (if st_state x = STARTING then CANCELLED_BEFORE_STARTED else CANCELLED_BEFORE_RETURNED) [])
     | Some rs \<Rightarrow>
         bindM (assertM (st_state x = STARTED) (lw_name W @ '': on_resolve on a subtask that never started'')) (\<lambda>_.
         bindM (getsM (\<lambda>h. lowerIter h s)) (\<lambda>vi.
         bindM (lowerFlatValues (lowerContext W s) (maxFlatResults W) rs (ftResults (lw_ft W)) (Some vi)) (\<lambda>flat.
         bindM (modifyM (\<lambda>h. h\<lparr>lowerIter := (lowerIter h)(s := spillIter (lowerContext W s) (maxFlatResults W) (ftResults (lw_ft W)) vi)\<rparr>)) (\<lambda>_.
         resolve s RETURNED flat))))))"

definition toResults :: "'g LowerInput \<Rightarrow> JsVal \<Rightarrow> JsVal list" where
  "toResults W v = (if ftResults (lw_ft W) = [] then [] else [v])"

text \<open>The core results by arity.\<close>

definition flatReturn :: "JsVal list \<Rightarrow> JsVal" where
  "flatReturn fr = (case fr of [] \<Rightarrow> VUndef | [x] \<Rightarrow> x | _ \<Rightarrow> VArr fr)"

text \<open>The tail of a synchronous call: delivery releases the lenders.\<close>

definition deliverSync :: "('g hostsched_ext) LowerInput \<Rightarrow> nat \<Rightarrow> ('g hostsched_scheme, JsVal) sm" where
  "deliverSync W s =
     bindM (deliverResolve s) (\<lambda>_.
     bindM (getsM (\<lambda>h. iterDone (lowerIter h s))) (\<lambda>dn.
     bindM (assertM dn (lw_name W @ '': unconsumed flat arguments'')) (\<lambda>_.
     bindM (getsM (\<lambda>h. flatResults (subtasks h s))) (\<lambda>fr. returnM (flatReturn fr)))))"

definition asyncAnswer :: "('g hostsched_ext) LowerInput \<Rightarrow> nat \<Rightarrow> ('g hostsched_scheme, JsVal) sm" where
  "asyncAnswer W s =
     bindM (getsM (\<lambda>h. resolved (subtasks h s))) (\<lambda>res.
     if res then
       bindM (deliverResolve s) (\<lambda>_.
       bindM (getsM (\<lambda>h. flatResults (subtasks h s))) (\<lambda>fr.
       bindM (assertM (fr = []) (lw_name W @ '': async lower produced flat results'')) (\<lambda>_.
       returnM (VNum (int (subtaskStateNum RETURNED))))))
     else
       bindM (onTable (lw_inst W) (tableAdd (ESubtask s))) (\<lambda>i.
       bindM (modifyM (\<lambda>h. h\<lparr>lowerHandle := (lowerHandle h)(s := Some i)\<rparr>)) (\<lambda>_.
       bindM (getsM (\<lambda>h. subtaskStateNum (st_state (subtasks h s)))) (\<lambda>st.
       bindM (liftR (packSubtaskResult st i)) (\<lambda>p. returnM (VNum (int p)))))))"

definition answerLower :: "('g hostsched_ext) LowerInput \<Rightarrow> nat \<Rightarrow> ('g hostsched_scheme, JsVal) sm" where
  "answerLower W s =
     bindM (getsM (\<lambda>h. resolved (subtasks h s))) (\<lambda>res.
     bindM (assertM (ftAsync (lw_ft W) \<or> res) (lw_name W @ '': a non-async-typed import must resolve before returning'')) (\<lambda>_.
     if \<not> ro_async (lw_opts W) then
       (if \<not> res then needsJspi (''synchronous lower of import '' @ lw_name W @ '' on an unresolved subtask'')
        else deliverSync W s)
     else asyncAnswer W s))"

section \<open>The call\<close>

definition openLower :: "('g hostsched_ext) LowerInput \<Rightarrow> JsVal list \<Rightarrow> ('g hostsched_scheme, nat) sm" where
  "openLower W raw =
     bindM (getsM (\<lambda>h. mayLeave h (lw_inst W))) (\<lambda>ml.
     bindM (trapIfM (\<not> ml) (''cannot leave component instance '' @ showNat (lw_inst W) @ '' (may_leave violation)'')) (\<lambda>_.
     bindM freshId (\<lambda>s.
     bindM (modifyM (\<lambda>h. h\<lparr>subtasks := (subtasks h)(s := newSubtask), waitables := (waitables h)(s := newWaitable),
              onCancel := (onCancel h)(s := None), calleeTask := (calleeTask h)(s := None), lowerHandle := (lowerHandle h)(s := None)\<rparr>)) (\<lambda>_.
     bindM (liftR (normalizeCoreValues raw (cparams (ro_coreType (lw_opts W))) (lw_name W @ '' args''))) (\<lambda>flat.
     bindM (modifyM (\<lambda>h. h\<lparr>lowerIter := (lowerIter h)(s := CoreIter flat 0), onCancel := (onCancel h)(s := Some IgnoreCancel)\<rparr>)) (\<lambda>_.
     returnM s))))))"

definition addHostCall :: "nat \<Rightarrow> nat \<Rightarrow> 'g sched_scheme \<Rightarrow> 'g sched_scheme" where
  "addHostCall s p = updStore s (\<lambda>x. x\<lparr>so_pendingHostCalls := setAdd p (so_pendingHostCalls x)\<rparr>)"

definition parkLower :: "('g hostsched_ext) LowerInput \<Rightarrow> nat \<Rightarrow> nat \<Rightarrow> ('g hostsched_scheme, BuiltinOut) sm" where
  "parkLower W s p =
     (if \<not> lw_jspi W \<or> \<not> lw_suspendable W then
        bindM (unwindLenders s) (\<lambda>_. needsJspi (''synchronous lower of import '' @ lw_name W @ '', whose host implementation returned a Promise''))
      else
        bindM (getsM (\<lambda>h. storeOf h (lw_inst W))) (\<lambda>st.
        bindM (modifyM (\<lambda>h. addHostCall st p (h\<lparr>hostOutcome := (hostOutcome h)(p := None)\<rparr>))) (\<lambda>_.
        bindM currentTask (\<lambda>k.
        bindM (blockCurrentActivation st k (OutcomeKnown p) False (LowerPark (lw_index W) s p)) (\<lambda>q.
        returnM (BFrame q))))))"

definition createLoweredImport :: "('g hostsched_ext) LowerInput \<Rightarrow> JsVal list \<Rightarrow> ('g hostsched_scheme, BuiltinOut) sm" where
  "createLoweredImport W raw =
     bindM (openLower W raw) (\<lambda>s.
     bindM (onStartLower W s) (\<lambda>args.
     bindM (lw_host W args) (\<lambda>ret.
     case ret of
       HostValue v \<Rightarrow>
         bindM (onResolveLower W s (Some (toResults W v))) (\<lambda>_.
         bindM (answerLower W s) (\<lambda>x. returnM (BReturn x)))
     | HostPromise p \<Rightarrow>
         if \<not> ro_async (lw_opts W) then parkLower W s p
         else
           bindM (getsM (\<lambda>h. storeOf h (lw_inst W))) (\<lambda>st.
           bindM (modifyM (addHostCall st p)) (\<lambda>_.
           bindM (answerLower W s) (\<lambda>x. returnM (BReturn x)))))))"

section \<open>When the host's promise settles\<close>

definition removeHostCall :: "nat \<Rightarrow> nat \<Rightarrow> 'g sched_scheme \<Rightarrow> 'g sched_scheme" where
  "removeHostCall s p = updStore s (\<lambda>x. x\<lparr>so_pendingHostCalls := removeAll p (so_pendingHostCalls x)\<rparr>)"

text \<open>A parked frame's reaction records the outcome; the frame is woken by it.\<close>

definition parkSettled :: "('g hostsched_ext) LowerInput \<Rightarrow> nat \<Rightarrow> JsVal result \<Rightarrow> 'g hostsched_scheme \<Rightarrow> 'g hostsched_scheme" where
  "parkSettled W p r h = (removeHostCall (storeOf h (lw_inst W)) p h)\<lparr>hostOutcome := (hostOutcome h)(p := Some r)\<rparr>"

definition failStore :: "nat \<Rightarrow> error \<Rightarrow> ('g sched_scheme, unit) sm" where
  "failStore st e = modifyM (updStore st (\<lambda>x. x\<lparr>so_hostFailure := Some e\<rparr>))"

text \<open>An asynchronous call's reaction resolves the subtask; a failure is the store's.\<close>

definition asyncLowerSettled :: "('g hostsched_ext) LowerInput \<Rightarrow> nat \<Rightarrow> nat \<Rightarrow> JsVal result \<Rightarrow> ('g hostsched_scheme, unit) sm" where
  "asyncLowerSettled W s p r =
     bindM (getsM (\<lambda>h. storeOf h (lw_inst W))) (\<lambda>st.
     bindM (modifyM (removeHostCall st p)) (\<lambda>_.
     case r of
       Inl e \<Rightarrow> failStore st e
     | Inr v \<Rightarrow> catchM (onResolveLower W s (Some (toResults W v))) (failStore st)))"

definition lowerProduce :: "('g hostsched_ext) LowerInput \<Rightarrow> nat \<Rightarrow> nat \<Rightarrow> ('g hostsched_scheme, JsVal) sm" where
  "lowerProduce W s p =
     bindM (getsM (\<lambda>h. hostOutcome h p)) (\<lambda>out.
     case out of
       None \<Rightarrow> throwM (JsError ''TypeError'')
     | Some (Inl e) \<Rightarrow> throwM e
     | Some (Inr v) \<Rightarrow> bindM (onResolveLower W s (Some (toResults W v))) (\<lambda>_. deliverSync W s))"

definition lowerPointSettled :: "nat \<Rightarrow> ('g heap_scheme, unit) sm" where
  "lowerPointSettled s = unwindLenders s"

end
