(* ===== verification/HostEntry.thy ===== *)
theory HostEntry
  imports Resources
begin

text \<open>
  The host's entry to a lifted export (\<open>createLiftedFunction\<close> of \<open>runtime/src/exec/boundary.ts\<close>): the
  checks at instantiation, the call up to the release of the reentrance gate, the synchronous part of
  the driver, and the lift of a destructor.  What the closures of one call share is kept by task:
  \<open>resolvedOf\<close> is \<open>resolved\<close> and \<open>resolvedSeen\<close>.  The promise loops (\<open>driveAsync\<close>, the settlement pump) are not modelled; handing over to one is a value.
\<close>

section \<open>Instantiation\<close>

definition createLiftedFunction :: "'g LiftInput \<Rightarrow> unit result" where
  "createLiftedFunction E =
     (if ro_callback (li_opts E) \<noteq> None \<and> \<not> ro_async (li_opts E)
      then Err (JsError (''PlanError: export '' @ li_name E @ '': canonical options carry a callback but are not async''))
      else
        bindR (flattenFunctype (cabiOptions (li_opts E)) (li_ft E) LiftContext) (\<lambda>computed.
        if \<not> coreFuncTypeEquals computed (ro_coreType (li_opts E))
        then Err (JsError (''PlanError: export '' @ li_name E @ '': computed flat type differs from the plan''))
        else Ok ()))"

section \<open>Entering\<close>

definition hostCaller :: "JsVal list \<Rightarrow> ('g hostsched_scheme) Caller" where
  "hostCaller hostArgs =
     \<lparr>onStart = \<lambda>_. returnM hostArgs,
      onResolve = \<lambda>k result. modifyM (\<lambda>h. h\<lparr>resolvedOf := (resolvedOf h)(k := Some result)\<rparr>)\<rparr>"

definition taskOptionsOf :: "'g LiftInput \<Rightarrow> TaskOptions" where
  "taskOptionsOf E =
     \<lparr>to_async = ro_async (li_opts E), to_callback = (ro_callback (li_opts E) \<noteq> None),
      to_stringEncoding = ro_stringEncoding (li_opts E), to_memory = ro_memory (li_opts E)\<rparr>"

text \<open>The gate, the task and its implicit thread; the result names them with the set this entry locked.\<close>

definition openCall :: "'a LiftInput \<Rightarrow> ('g hostsched_scheme, nat \<times> nat) sm" where
  "openCall E =
     bindM freshId (\<lambda>k.
     bindM (modifyM (\<lambda>h. (updTask k (\<lambda>_. newTask (li_ft E) (taskOptionsOf E) (ro_instance (li_opts E))) h)
              \<lparr>resolvedOf := (resolvedOf h)(k := None), taskBorrows := (taskBorrows h)(k := 0)\<rparr>)) (\<lambda>_.
     bindM freshId (\<lambda>t.
     bindM (modifyM (\<lambda>h. (updThread t (\<lambda>_. newThread k PcStart) h)\<lparr>callScopes := (callScopes h)(t := [])\<rparr>)) (\<lambda>_.
     returnM (k, t)))))"

definition enterCall :: "'a LiftInput \<Rightarrow> ('g hostsched_scheme, nat list) sm" where
  "enterCall E =
     bindM (modifyM (\<lambda>h. h\<lparr>trapPending := None\<rparr>)) (\<lambda>_.
     bindM (getsM (mayEnterFrom (ro_instance (li_opts E)) None)) (\<lambda>ok.
     bindM (getsM (withPoisonCause (ro_instance (li_opts E))
              (''cannot enter component instance '' @ showNat (ro_instance (li_opts E)) @ '' (reentrance forbidden)''))) (\<lambda>msg.
     bindM (trapIfM (\<not> ok) msg) (\<lambda>_.
     bindM (getsM (\<lambda>h. enteringSet h (ro_instance (li_opts E)) None)) (\<lambda>entered.
     bindM (enterFrom (ro_instance (li_opts E)) None) (\<lambda>_. returnM entered))))))"

section \<open>Leaving\<close>

text \<open>\<open>unwind\<close>: the open brackets of the task's threads release their lenders, innermost first.\<close>

definition unwindThread :: "nat \<Rightarrow> 'g hostsched_scheme \<Rightarrow> 'g hostsched_scheme" where
  "unwindThread t h = (fold releaseLenders (rev (callScopes h t)) h)\<lparr>callScopes := (callScopes h)(t := [])\<rparr>"

definition unwindCall :: "nat \<Rightarrow> nat list \<Rightarrow> 'g hostsched_scheme \<Rightarrow> 'g hostsched_scheme" where
  "unwindCall k entered h =
     (let h1 = fold unwindThread (ta_threads (tasks h k)) h in
      fold (\<lambda>i g. if i \<in> set entered then g else g\<lparr>mayLeave := (mayLeave g)(i := True)\<rparr>) (allInstances h1) h1)"

fun poisonAll :: "nat list \<Rightarrow> error \<Rightarrow> ('g hostsched_scheme, unit) sm" where
  "poisonAll [] e = returnM ()"
| "poisonAll (i # is) e =
     bindM (getsM (\<lambda>h. isSyntheticRoot h i)) (\<lambda>root.
     bindM (if root then returnM () else notifyInstancePoisoned i e) (\<lambda>_. poisonAll is e))"

definition poisonEntered :: "nat \<Rightarrow> nat list \<Rightarrow> error \<Rightarrow> ('g hostsched_scheme, unit) sm" where
  "poisonEntered i entered e = bindM (releaseSyntheticRootOnPoison i) (\<lambda>_. poisonAll entered e)"

text \<open>What the first \<open>catch\<close> does before it throws the error on.\<close>

definition failCall :: "'a LiftInput \<Rightarrow> nat \<Rightarrow> nat list \<Rightarrow> error \<Rightarrow> ('g hostsched_scheme, 'b) sm" where
  "failCall E k entered e =
     bindM (modifyM (unwindCall k entered)) (\<lambda>_.
     bindM (if isCapabilitySignal e then leaveTo (ro_instance (li_opts E)) None
            else poisonEntered (ro_instance (li_opts E)) entered e) (\<lambda>_. throwM e))"

section \<open>The driver\<close>

definition ensureSettlementPump :: "nat \<Rightarrow> 'g hostsched_scheme \<Rightarrow> 'g hostsched_scheme" where
  "ensureSettlementPump s h =
     (if s \<in> set (settlementPumps h) then h\<lparr>settlementNudges := removeAll s (settlementNudges h)\<rparr>
      else if so_hostFailure (stores h s) \<noteq> None then h
      else if \<not> hasRealHostCall s h then h
      else h\<lparr>settlementPumps := settlementPumps h @ [s]\<rparr>)"

definition takeHostFailure :: "nat \<Rightarrow> error \<Rightarrow> ('g sched_scheme, 'a) sm" where
  "takeHostFailure s e = bindM (modifyM (updStore s (\<lambda>x. x\<lparr>so_hostFailure := None\<rparr>))) (\<lambda>_. throwM e)"

datatype DriveOut = DriveDone | DriveAsync

text \<open>The synchronous drain; \<open>None\<close> is a drain that does not end.\<close>

partial_function (option) drain :: "'g sched_scheme Code \<Rightarrow> nat \<Rightarrow> 'g sched_scheme \<Rightarrow> (unit result \<times> 'g sched_scheme) option" where
  "drain C s h =
     (if so_awaiting (stores h s) \<noteq> [] then Some (Inr (), h)
      else (case tick C s h of
              (Inl e, h1) \<Rightarrow> Some (Inl e, h1)
            | (Inr b, h1) \<Rightarrow>
                if \<not> b then Some (Inr (), h1)
                else (case so_hostFailure (stores h1 s) of
                        Some e \<Rightarrow> Some (takeHostFailure s e h1)
                      | None \<Rightarrow> drain C s h1)))"

definition drive :: "('g hostsched_scheme) Code \<Rightarrow> nat \<Rightarrow> ('g hostsched_scheme \<Rightarrow> bool) \<Rightarrow> string \<Rightarrow>
    'g hostsched_scheme \<Rightarrow> (DriveOut result \<times> 'g hostsched_scheme) option" where
  "drive C s fin what h =
     (case drain C s h of
        None \<Rightarrow> None
      | Some (Inl e, h1) \<Rightarrow> Some (Inl e, h1)
      | Some (Inr _, h1) \<Rightarrow>
          (case so_hostFailure (stores h1 s) of
             Some e \<Rightarrow> Some (takeHostFailure s e h1)
           | None \<Rightarrow>
               if fin h1 then Some (Inr DriveDone, ensureSettlementPump s h1)
               else if so_awaiting (stores h1 s) \<noteq> [] \<or> hasPendingResumptions s h1 then Some (Inr DriveAsync, h1)
               else if so_pendingHostCalls (stores h1 s) = []
               then Some (Inl (Trap (''wasm trap: deadlock detected: event loop cannot make further progress ('' @ what @
                       '': no thread is ready and no host call is outstanding)'')), h1)
               else Some (Inr DriveAsync, h1)))"

section \<open>The call\<close>

definition resultsToHost :: "JsVal list \<Rightarrow> JsVal" where
  "resultsToHost rs = (case rs of [] \<Rightarrow> VUndef | [r] \<Rightarrow> r | _ \<Rightarrow> VArr rs)"

datatype HostOut = HostReturn JsVal | HostPending nat | HostDeferred

definition finishHostEntry :: "'a LiftInput \<Rightarrow> nat \<Rightarrow> ('g hostsched_scheme, HostOut) sm" where
  "finishHostEntry E k =
     bindM (getsM (\<lambda>h. resolvedOf h k)) (\<lambda>r.
     bindM (trapIfM (r = None) (li_name E @ '': task finished without resolving (deadlock)'')) (\<lambda>_.
     case r of
       Some (Some rs) \<Rightarrow> returnM (HostReturn (resultsToHost rs))
     | _ \<Rightarrow> throwM (AssertionError (li_name E @ '': task resolved as cancelled, but the host never requested cancellation''))))"

text \<open>The code of the store, with the body of the thread the call has made.\<close>

definition callCode :: "('g hostsched_scheme) Code \<Rightarrow> ('g hostsched_ext) LiftInput \<Rightarrow> nat \<Rightarrow> JsVal list \<Rightarrow> ('g hostsched_scheme) Code" where
  "callCode C E t hostArgs = C\<lparr>code_body := (code_body C)(t := liftStep E (hostCaller hostArgs) t)\<rparr>"

text \<open>The part of \<open>invokeNow\<close> inside the reentrance bracket.\<close>

definition firstSegment :: "('g hostsched_scheme) Code \<Rightarrow> ('g hostsched_ext) LiftInput \<Rightarrow> bool \<Rightarrow> nat \<Rightarrow> nat \<Rightarrow>
    'g hostsched_scheme \<Rightarrow> (unit result \<times> 'g hostsched_scheme) option" where
  "firstSegment C E allowAsync k t h =
     (case threadResume C t False h of
        (Inl e, h1) \<Rightarrow> Some (Inl e, h1)
      | (Inr _, h1) \<Rightarrow>
          if \<not> ftAsync (li_ft E) \<and> \<not> li_jspi E \<and> \<not> allowAsync then driveSyncLift C k h1 else Some (Inr (), h1))"

definition callOver :: "nat \<Rightarrow> nat \<Rightarrow> 'g hostsched_scheme \<Rightarrow> bool" where
  "callOver k s h \<longleftrightarrow> resolvedOf h k \<noteq> None \<and> \<not> list_ex (\<lambda>t. t \<in> set (so_awaiting (stores h s))) (ta_threads (tasks h k))"

text \<open>After the bracket: the gate is released and the store is driven.\<close>

definition afterSegment :: "('g hostsched_scheme) Code \<Rightarrow> ('g hostsched_ext) LiftInput \<Rightarrow> nat list \<Rightarrow> nat \<Rightarrow>
    'g hostsched_scheme \<Rightarrow> (HostOut result \<times> 'g hostsched_scheme) option" where
  "afterSegment C E entered k h =
     (case leaveTo (ro_instance (li_opts E)) None h of
        (Inl e, h1) \<Rightarrow> Some (Inl e, h1)
      | (Inr _, h1) \<Rightarrow>
          let s = storeOf h1 (ro_instance (li_opts E)) in
          (case drive C s (callOver k s) (''export '' @ li_name E) h1 of
             None \<Rightarrow> None
           | Some (Inl e, h2) \<Rightarrow> Some (Inl e, unwindCall k entered h2)
           | Some (Inr DriveAsync, h2) \<Rightarrow> Some (Inr (HostPending k), h2)
           | Some (Inr DriveDone, h2) \<Rightarrow> Some (finishHostEntry E k h2)))"

definition invokeNow :: "('g hostsched_scheme) Code \<Rightarrow> ('g hostsched_ext) LiftInput \<Rightarrow> bool \<Rightarrow> JsVal list \<Rightarrow>
    'g hostsched_scheme \<Rightarrow> (HostOut result \<times> 'g hostsched_scheme) option" where
  "invokeNow C E allowAsync hostArgs h =
     (case bindM (enterCall E) (\<lambda>entered. bindM (openCall E) (\<lambda>kt. returnM (entered, kt))) h of
        (Inl e, h1) \<Rightarrow> Some (Inl e, h1)
      | (Inr (entered, k, t), h1) \<Rightarrow>
          let E1 = E\<lparr>li_task := k\<rparr>; C1 = callCode C E1 t hostArgs in
          (case firstSegment C1 E1 allowAsync k t h1 of
             None \<Rightarrow> None
           | Some (Inl e, h2) \<Rightarrow> Some (failCall E1 k entered e h2)
           | Some (Inr _, h2) \<Rightarrow> afterSegment C1 E1 entered k h2))"

definition entryHopThreads :: "nat \<Rightarrow> nat \<Rightarrow> 'g sched_scheme \<Rightarrow> nat list" where
  "entryHopThreads s i h =
     (let suspended = List.map_filter (agentOwner h) (so_waiting (stores h s)) in
      filter (\<lambda>t. instOf h t = i \<and> t \<notin> set suspended) (so_awaiting (stores h s)))"

definition callLifted :: "('g hostsched_scheme) Code \<Rightarrow> ('g hostsched_ext) LiftInput \<Rightarrow> bool \<Rightarrow> JsVal list \<Rightarrow>
    'g hostsched_scheme \<Rightarrow> (HostOut result \<times> 'g hostsched_scheme) option" where
  "callLifted C E allowAsync hostArgs h =
     (if length hostArgs \<noteq> length (ftParams (li_ft E))
      then Some (Inl (JsError (''TypeError: '' @ li_name E @ '': expected '' @ showNat (length (ftParams (li_ft E))) @
             '' argument(s), got '' @ showNat (length hostArgs))), h)
      else if li_jspi E \<and> entryHopThreads (storeOf h (ro_instance (li_opts E))) (ro_instance (li_opts E)) h \<noteq> []
      then Some (Inr HostDeferred, h)
      else invokeNow C E allowAsync hostArgs h)"

section \<open>Destructors\<close>

definition dtorFt :: FuncType where
  "dtorFt = \<lparr>ftParams = [TPrim KU32], ftResults = [], ftAsync = False\<rparr>"

definition dtorOptions :: "nat \<Rightarrow> 's ResolvedOptions" where
  "dtorOptions i =
     \<lparr>ro_stringEncoding = Utf8, ro_memory = None, ro_realloc = None, ro_postReturn = None, ro_callback = None,
      ro_async = False, ro_cancellable = False, ro_coreType = \<lparr>cparams = [I32], cresults = []\<rparr>, ro_instance = i\<rparr>"

text \<open>An incidental return value is dropped, a promise is kept.\<close>

definition dtorCore :: "bool \<Rightarrow> 's CoreFn option \<Rightarrow> 's CoreFn" where
  "dtorCore jspi d =
     (let raw = (case d of None \<Rightarrow> (\<lambda>_ h. (Inr (Returned RawUndefined), h)) | Some f \<Rightarrow> f) in
      if jspi then raw
      else (\<lambda>args h. case raw args h of
               (Inr (Returned _), h1) \<Rightarrow> (Inr (Returned RawUndefined), h1)
             | r \<Rightarrow> r))"

definition createDtorEntry :: "string \<Rightarrow> 'g sched_scheme CoreFn option \<Rightarrow> nat \<Rightarrow> bool \<Rightarrow>
    ('g sched_scheme CoreFn \<Rightarrow> 'g sched_scheme CoreFn) \<Rightarrow> 'g LiftInput" where
  "createDtorEntry name d i jspi enter =
     \<lparr>li_name = name, li_ft = dtorFt, li_opts = dtorOptions i, li_core = enter (dtorCore jspi d), li_enter = enter,
      li_task = 0, li_jspi = jspi, li_littleEndian = True\<rparr>"

definition hostDtorCall :: "('g hostsched_scheme) Code \<Rightarrow> (nat \<Rightarrow> ('g hostsched_scheme) CoreFn option) \<Rightarrow>
    ('g hostsched_ext) LiftInput \<Rightarrow> nat \<Rightarrow> JsVal \<Rightarrow> 'g hostsched_scheme \<Rightarrow> (unit result \<times> 'g hostsched_scheme) option" where
  "hostDtorCall C dtors E rt rep h =
     (case rtImpl h rt of
        None \<Rightarrow>
          (case dtors rt of
             None \<Rightarrow> Some (Inr (), h)
           | Some f \<Rightarrow> (case f [rep] h of (Inl e, h1) \<Rightarrow> Some (Inl (rawException e), h1) | (Inr _, h1) \<Rightarrow> Some (Inr (), h1)))
      | Some i \<Rightarrow>
          (case callLifted C E True [rep] h of
             None \<Rightarrow> None
           | Some (Inl e, h1) \<Rightarrow> Some (Inl e, h1)
           | Some (Inr _, h1) \<Rightarrow> Some (Inr (), h1)))"

end
