(* ===== verification/FlatRoundTrip.thy ===== *)
theory FlatRoundTrip
  imports RoundTrip
begin

text \<open>
  Lowering a plain value to core lanes and lifting the lanes gives the value back, through
  any nesting of variants: the joined lanes carry every case's payload.  \<open>pullAll\<close> reads a
  sequence of lane types from an iterator; \<open>laneOk\<close> is what a lane of each type holds.
\<close>

section \<open>Lanes\<close>

fun pullAll :: "CoreType list \<Rightarrow> Iter \<Rightarrow> (JsVal list \<times> Iter) result" where
  "pullAll [] vi = Inr ([], vi)"
| "pullAll (t # ts) vi =
     bindR (iterNext t vi) (\<lambda>r. bindR (pullAll ts (snd r)) (\<lambda>q. Inr (fst r # fst q, snd q)))"

definition laneOk :: "CoreType \<Rightarrow> JsVal \<Rightarrow> bool" where
  "laneOk t x =
     (case t of
        I32 \<Rightarrow> inRange 0 (2 ^ 32) x
      | I64 \<Rightarrow> inRangeBig 0 (2 ^ 64) x
      | F32 \<Rightarrow> conformsPrim KF32 x
      | F64 \<Rightarrow> conformsPrim KF64 x)"

lemma pullAll_append:
  "pullAll (ts @ us) vi = bindR (pullAll ts vi) (\<lambda>r. bindR (pullAll us (snd r)) (\<lambda>q. Inr (fst r @ fst q, snd q)))"
proof (induction ts arbitrary: vi)
  case Nil
  show ?case by (cases "pullAll us vi") simp_all
qed (simp add: bindR_assoc)

lemma pullAll_append_Inr:
  assumes "pullAll (ts @ us) vi = Inr (xs @ ys, vi')" "length xs = length ts"
  obtains vi1 where "pullAll ts vi = Inr (xs, vi1)" "pullAll us vi1 = Inr (ys, vi')"
proof -
  have len: "length a = length ts" if "pullAll ts vi = Inr (a, b)" for a b ts vi
    using that by (induction ts arbitrary: vi a) (auto simp: bindR_eq_Inr)
  from assms obtain a b c where a: "pullAll ts vi = Inr (a, b)" "pullAll us b = Inr (c, vi')" "a @ c = xs @ ys"
    by (auto simp: pullAll_append bindR_eq_Inr)
  then have "a = xs \<and> c = ys" using len [OF a(1)] assms(2) by (simp add: append_eq_append_conv)
  with a that [of b] show thesis by simp
qed

lemma laneOk_check: "laneOk t x \<Longrightarrow> checkLane t x = Inr ()"
  by (cases t; cases x)
    (simp_all add: laneOk_def checkLane_def inRange_def inRangeBig_def js_int_def js_isNumber_def)

lemma pullAll_core:
  assumes "list_all2 laneOk ts xs"
  shows "pullAll ts (CoreIter (pre @ xs @ post) (length pre)) =
    Inr (xs, CoreIter (pre @ xs @ post) (length pre + length xs))"
  using assms
proof (induction ts xs arbitrary: pre rule: list_all2_induct)
  case (Cons t ts x xs)
  have "pullAll ts (CoreIter ((pre @ [x]) @ xs @ post) (length (pre @ [x]))) =
    Inr (xs, CoreIter ((pre @ [x]) @ xs @ post) (length (pre @ [x]) + length xs))" by (rule Cons.IH)
  then show ?case using laneOk_check [OF Cons.hyps(1)] by (simp add: Let_def)
qed simp

lemma lowerLane_ok:
  assumes "laneLe t w" "laneOk t x"
  shows "\<exists>y. lowerLane t w x = Inr y \<and> laneOk w y \<and> coerceLane w t y = Inr x"
proof -
  have b32: "0 \<le> encodeFloatAsI32 x" "encodeFloatAsI32 x < 2 ^ 32" by (rule encodeFloatAsI32_bounds)+
  have b64: "0 \<le> encodeFloatAsI64 x" "encodeFloatAsI64 x < 2 ^ 64" by (rule encodeFloatAsI64_bounds)+
  have w32: "and i 0xffffffff = i" if "0 \<le> i" "i < 2 ^ 32" for i :: int
  proof -
    have "and i (mask 32) = i" using that by (simp only: take_bit_eq_mask [symmetric] take_bit_int_eq_self)
    then show ?thesis by (simp add: mask_eq_exp_minus_1)
  qed
  show ?thesis
  proof (cases "t = w")
    case True
    then show ?thesis using assms by (auto simp: lowerLane_def coerceLane_def)
  next
    case False
    then consider "t = F32" "w = I32" | "t = I32" "w = I64" | "t = F32" "w = I64" | "t = F64" "w = I64"
      using assms(1) by (cases t) (auto simp: laneLe_def)
    then show ?thesis
    proof cases
      case 1
      then show ?thesis using assms(2) b32 f32_conform_decode [of x]
        by (simp add: lowerLane_def coerceLane_def laneOk_def inRange_def laneInt_def js_int_def)
    next
      case 2
      then obtain i where i: "x = VNum i" "0 \<le> i" "i < 2 ^ 32"
        using assms(2) by (cases x) (simp_all add: laneOk_def inRange_def)
      have "i < 2 ^ 64" using i(3) by simp
      with 2 i show ?thesis
        by (simp add: lowerLane_def coerceLane_def laneOk_def inRangeBig_def js_BigInt_def js_int_def laneInt_def
            wrapI64ToI32_def w32 run_simps)
    next
      case 3
      have "encodeFloatAsI32 x < 2 ^ 64" using b32(2) by simp
      with 3 show ?thesis using assms(2) b32 f32_conform_decode [of x] w32 [OF b32]
        by (simp add: lowerLane_def coerceLane_def laneOk_def inRangeBig_def laneInt_def wrapI64ToI32_def run_simps)
    next
      case 4
      then show ?thesis using assms(2) b64 f64_conform_decode [of x]
        by (simp add: lowerLane_def coerceLane_def laneOk_def inRangeBig_def laneInt_def)
    qed
  qed
qed

text \<open>A case's payload lowered into the joined lanes is what the coercing iterator reads back.\<close>

lemma lowerLanes_ok:
  assumes "lanesLe ts flat" "list_all2 laneOk ts xs"
  shows "\<exists>ys. lowerLanes xs ts flat = Inr (ys, drop (length ts) flat) \<and>
    list_all2 laneOk (take (length ts) flat) ys \<and>
    (\<forall>vi vi'. pullAll (take (length ts) flat) vi = Inr (ys, vi') \<longrightarrow>
       pullAll ts (CoerceIter flat vi) = Inr (xs, CoerceIter (drop (length ts) flat) vi'))"
  using assms
proof (induction ts flat arbitrary: xs rule: lanesLe.induct)
  case (3 t ts f fs)
  then obtain x rest where xs: "xs = x # rest" "laneOk t x" "list_all2 laneOk ts rest"
    by (auto simp: list_all2_Cons1)
  obtain y where y: "lowerLane t f x = Inr y" "laneOk f y" "coerceLane f t y = Inr x"
    using lowerLane_ok [of t f x] "3.prems"(1) xs(2) by auto
  obtain ys where ys: "lowerLanes rest ts fs = Inr (ys, drop (length ts) fs)"
    "list_all2 laneOk (take (length ts) fs) ys"
    "\<forall>vi vi'. pullAll (take (length ts) fs) vi = Inr (ys, vi') \<longrightarrow>
       pullAll ts (CoerceIter fs vi) = Inr (rest, CoerceIter (drop (length ts) fs) vi')"
    using "3.IH" [of rest] "3.prems"(1) xs(3) by auto
  have "pullAll (t # ts) (CoerceIter (f # fs) vi) = Inr (xs, CoerceIter (drop (length ts) fs) vi')"
    if "pullAll (f # take (length ts) fs) vi = Inr (y # ys, vi')" for vi vi'
  proof -
    from that obtain vi1 where "iterNext f vi = Inr (y, vi1)" "pullAll (take (length ts) fs) vi1 = Inr (ys, vi')"
      by (auto simp: bindR_eq_Inr)
    then show ?thesis using ys(3) y(3) xs(1) by simp
  qed
  then show ?case using xs(1) y ys by (intro exI [of _ "y # ys"]) simp
qed simp_all

lemma zero_lane: "conformsPrim KF32 (VFlt 0)" "conformsPrim KF64 (VFlt 0)"
proof -
  have z: "widen32 0 = 0" "\<not> f32IsNan 0" "\<not> f64IsNan 0"
    by (simp_all add: widen32_def f32IsNan_def f64IsNan_def f64Exp_def)
  then have "widen32 (narrow32 0) = 0" using narrow_widen(1) [of 0] by simp
  with z show "conformsPrim KF32 (VFlt 0)" "conformsPrim KF64 (VFlt 0)" by simp_all
qed

lemma padLanes_ok: "list_all2 laneOk ws (padLanes ws)"
proof (induction ws)
  case (Cons w ws)
  then show ?case using zero_lane
    by (cases w) (simp_all add: padLanes_def laneOk_def inRange_def inRangeBig_def del: conformsPrim.simps)
qed (simp add: padLanes_def)

lemma drainLanes_pullAll: "pullAll ts vi = Inr (xs, vi') \<Longrightarrow> drainLanes ts vi = Inr vi'"
  by (induction ts arbitrary: vi xs) (auto simp: bindR_eq_Inr)

section \<open>Flat codecs\<close>

definition flatCodec ::
  "('g heap_scheme, JsVal list) sm \<Rightarrow> (Iter \<Rightarrow> ('g heap_scheme, 'v \<times> Iter) sm) \<Rightarrow> CoreType list \<Rightarrow> 'v \<Rightarrow> bool" where
  "flatCodec lo li ts v \<longleftrightarrow>
     (\<exists>xs. list_all2 laneOk ts xs \<and> (\<forall>h. lo h = (Inr xs, h)) \<and>
       (\<forall>vi vi' h. pullAll ts vi = Inr (xs, vi') \<longrightarrow> li vi h = (Inr (v, vi'), h)))"

lemma flatCodec_cong:
  fixes lo lo' :: "('g heap_scheme, JsVal list) sm"
  assumes "flatCodec lo li ts v" "\<And>h. lo' h = lo h" "\<And>vi h. li' vi h = li vi h"
  shows "flatCodec lo' li' ts v"
proof -
  have "lo' = lo" "li' = li" using assms(2,3) by (blast intro: ext)+
  then show ?thesis using assms(1) by simp
qed

lemma flatCodec_return: "flatCodec (returnM []) (\<lambda>vi. returnM (v, vi)) [] v"
  by (simp add: flatCodec_def run_simps)

lemma flatCodec_bind:
  fixes lo1 lo2 :: "('g heap_scheme, JsVal list) sm"
  assumes "flatCodec lo1 li1 ts v1" "flatCodec lo2 (li2 v1) us v2"
  shows "flatCodec (bindM lo1 (\<lambda>a. bindM lo2 (\<lambda>b. returnM (a @ b))))
    (\<lambda>vi. bindM (li1 vi) (\<lambda>r. li2 (fst r) (snd r))) (ts @ us) v2"
proof -
  obtain xs where xs: "list_all2 laneOk ts xs" "\<forall>h. lo1 h = (Inr xs, h)"
    "\<forall>vi vi' h. pullAll ts vi = Inr (xs, vi') \<longrightarrow> li1 vi h = (Inr (v1, vi'), h)"
    using assms(1) unfolding flatCodec_def by blast
  obtain ys where ys: "list_all2 laneOk us ys" "\<forall>h. lo2 h = (Inr ys, h)"
    "\<forall>vi vi' h. pullAll us vi = Inr (ys, vi') \<longrightarrow> li2 v1 vi h = (Inr (v2, vi'), h)"
    using assms(2) unfolding flatCodec_def by blast
  have "bindM (li1 vi) (\<lambda>r. li2 (fst r) (snd r)) h = (Inr (v2, vi'), h)"
    if p: "pullAll (ts @ us) vi = Inr (xs @ ys, vi')" for vi vi' and h :: "'g heap_scheme"
  proof -
    have len: "length xs = length ts" using xs(1) by (simp add: list_all2_lengthD)
    obtain vi1 where "pullAll ts vi = Inr (xs, vi1)" "pullAll us vi1 = Inr (ys, vi')"
      by (rule pullAll_append_Inr [OF p len])
    then show ?thesis using xs(3) ys(3) by (simp add: bindM_def)
  qed
  moreover have "bindM lo1 (\<lambda>a. bindM lo2 (\<lambda>b. returnM (a @ b))) h = (Inr (xs @ ys), h)" for h
    using xs(2) ys(2) by (simp add: bindM_def returnM_def)
  ultimately show ?thesis using list_all2_appendI [OF xs(1) ys(1)] unfolding flatCodec_def by blast
qed

lemma flatCodec_map:
  fixes lo :: "('g heap_scheme, JsVal list) sm"
  assumes "flatCodec lo li ts v"
  shows "flatCodec lo (\<lambda>vi. bindM (li vi) (\<lambda>r. returnM (f (fst r), snd r))) ts (f v)"
proof -
  obtain xs where xs: "list_all2 laneOk ts xs" "\<forall>h. lo h = (Inr xs, h)"
    "\<forall>vi vi' h. pullAll ts vi = Inr (xs, vi') \<longrightarrow> li vi h = (Inr (v, vi'), h)"
    using assms unfolding flatCodec_def by blast
  then have "\<forall>vi vi' h. pullAll ts vi = Inr (xs, vi') \<longrightarrow>
      bindM (li vi) (\<lambda>r. returnM (f (fst r), snd r)) h = (Inr (f v, vi'), h)"
    by (simp add: bindM_def returnM_def)
  with xs(1,2) show ?thesis unfolding flatCodec_def by blast
qed

text \<open>A codec of one lane.\<close>

lemma flatCodec_lane:
  fixes lo :: "('g heap_scheme, JsVal list) sm"
  assumes "laneOk t x" "\<And>h. lo h = (Inr [x], h)"
    "\<And>vi vi' h. iterNext t vi = Inr (x, vi') \<Longrightarrow> li vi h = (Inr (v, vi'), h)"
  shows "flatCodec lo li [t] v"
  unfolding flatCodec_def
proof (intro exI [of _ "[x]"] conjI allI impI)
  fix vi vi' h assume "pullAll [t] vi = Inr ([x], vi')"
  then have "iterNext t vi = Inr (x, vi')" by (auto simp: bindR_eq_Inr)
  then show "li vi h = (Inr (v, vi'), h)" by (rule assms(3))
qed (use assms(1,2) in simp_all)

section \<open>Primitive types\<close>

lemma flatCodec_unsigned32:
  fixes cx :: "'g heap_scheme Context"
  assumes "inRange 0 (2 ^ w) v" "w \<in> {8, 16, 32}"
  shows "flatCodec (returnM [v] :: ('g heap_scheme, JsVal list) sm) (\<lambda>vi. liftR (liftFlatUnsigned32 vi w)) [I32] v"
proof -
  obtain i where v: "v = VNum i" "0 \<le> i" "i < 2 ^ w" using assms(1) by (cases v) (auto simp: inRange_def)
  have i32: "i < 2 ^ 32" using v(3) assms(2) by auto
  have iw: "i mod 2 ^ w = i" using v by simp
  show ?thesis
    by (rule flatCodec_lane [of _ v])
      (use v(1,2) i32 iw in \<open>simp_all add: laneOk_def inRange_def run_simps liftFlatUnsigned32_def nextInt_def
        laneInt_def js_int_def\<close>)
qed

lemma flatCodec_signed32:
  fixes cx :: "'g heap_scheme Context"
  assumes "inRange (- (2 ^ (8 * n - 1))) (2 ^ (8 * n - 1)) v" "n \<in> {1, 2, 4}"
  shows "flatCodec (returnM (lowerFlatSigned32 v) :: ('g heap_scheme, JsVal list) sm)
    (\<lambda>vi. liftR (liftFlatSigned32 vi (8 * n))) [I32] v"
proof -
  obtain i where v: "v = VNum i" "- (2 ^ (8 * n - 1)) \<le> i" "i < 2 ^ (8 * n - 1)"
    using assms(1) by (cases v) (auto simp: inRange_def)
  define j where "j = (if i < 0 then i + 2 ^ 32 else i)"
  have j: "0 \<le> j" "j < 2 ^ 32" using v(2,3) assms(2) by (auto simp: j_def)
  have "(2::int) ^ (8 * n) dvd 2 ^ 32" by (rule le_imp_power_dvd) (use assms(2) in auto)
  then obtain k where k: "(2::int) ^ 32 = 2 ^ (8 * n) * k" by (rule dvdE)
  have "(i + 2 ^ 32) mod 2 ^ (8 * n) = i mod 2 ^ (8 * n)" unfolding k by (rule mod_mult_self2)
  then have "i mod 2 ^ (8 * n) = j mod 2 ^ (8 * n)" unfolding j_def by (cases "i < 0") (simp_all only: if_True if_False)
  moreover have "toSigned n (i mod 2 ^ (8 * n)) = i" by (rule toSigned_mod) (use v(2,3) assms(2) in auto)
  ultimately have t: "toSigned n (j mod 2 ^ (8 * n)) = i" by simp
  show ?thesis
    by (rule flatCodec_lane [of _ "VNum j"])
      (use j t v(1) in \<open>auto simp: laneOk_def inRange_def run_simps liftFlatSigned32_def nextInt_def Let_def
        laneInt_def js_int_def lowerFlatSigned32_def j_def toSigned_def\<close>)
qed

lemma flatCodec_int64:
  fixes lo :: "('g heap_scheme, JsVal list) sm"
  shows "inRangeBig 0 (2 ^ 64) v \<Longrightarrow>
      flatCodec (returnM [v] :: ('g heap_scheme, JsVal list) sm) (\<lambda>vi. liftR (liftFlatUnsigned64 vi)) [I64] v"
    and "inRangeBig (- (2 ^ 63)) (2 ^ 63) v \<Longrightarrow>
      flatCodec (returnM (lowerFlatSigned64 v) :: ('g heap_scheme, JsVal list) sm) (\<lambda>vi. liftR (liftFlatSigned64 vi)) [I64] v"
proof -
  assume "inRangeBig 0 (2 ^ 64) v"
  then obtain i where v: "v = VBig i" "0 \<le> i" "i < 2 ^ 64" by (cases v) (auto simp: inRangeBig_def)
  show "flatCodec (returnM [v] :: ('g heap_scheme, JsVal list) sm) (\<lambda>vi. liftR (liftFlatUnsigned64 vi)) [I64] v"
    by (rule flatCodec_lane [of _ v])
      (use v in \<open>simp_all add: laneOk_def inRangeBig_def run_simps liftFlatUnsigned64_def nextInt_def laneInt_def\<close>)
next
  assume "inRangeBig (- (2 ^ 63)) (2 ^ 63) v"
  then obtain i where v: "v = VBig i" "- (2 ^ 63) \<le> i" "i < 2 ^ 63" by (cases v) (auto simp: inRangeBig_def)
  show "flatCodec (returnM (lowerFlatSigned64 v) :: ('g heap_scheme, JsVal list) sm) (\<lambda>vi. liftR (liftFlatSigned64 vi)) [I64] v"
    by (rule flatCodec_lane [of _ "VBig (if i < 0 then i + 2 ^ 64 else i)"])
      (use v in \<open>auto simp: laneOk_def inRangeBig_def run_simps liftFlatSigned64_def nextInt_def laneInt_def
        lowerFlatSigned64_def\<close>)
qed

lemma canonicalize_conform:
  assumes "conformsPrim k v" "k = KF32 \<or> k = KF64"
  shows "canonicalizeNan32 v = v" "canonicalizeNan64 v = v" "maybeScrambleNan32 v = v" "maybeScrambleNan64 v = v"
proof -
  obtain w where v: "v = VFlt w" "f64IsNan w \<longrightarrow> w = f64NaN"
    using assms by (cases v) (auto split: if_splits)
  have "coreF32ReinterpretI32 CANONICAL_FLOAT32_NAN = VFlt f64NaN"
    "coreF64ReinterpretI64 CANONICAL_FLOAT64_NAN = VFlt f64NaN"
    by (simp_all add: coreF32ReinterpretI32_def coreF64ReinterpretI64_def CANONICAL_FLOAT32_NAN_def
        CANONICAL_FLOAT64_NAN_def canonical_widen) (simp add: f64NaN_def)
  then show "canonicalizeNan32 v = v" "canonicalizeNan64 v = v" "maybeScrambleNan32 v = v" "maybeScrambleNan64 v = v"
    using v by (auto simp: canonicalizeNan32_def canonicalizeNan64_def maybeScrambleNan32_def
        maybeScrambleNan64_def js_isNaN_def)
qed

lemma flatCodec_prim:
  fixes cx :: "'g heap_scheme Context"
  assumes "conformsPrim k v" "k \<noteq> KString"
  shows "\<exists>t. flattenType (TPrim k) (opts cx) = Inr [t] \<and>
    flatCodec (lowerFlatPrim cx v k) (\<lambda>vi. liftFlatPrim cx vi k) [t] v"
proof -
  have u: "flatCodec (lowerFlatPrim cx v k) (\<lambda>vi. liftFlatPrim cx vi k) [I32] v" if "k \<in> {KU8, KU16, KU32}"
    using that assms(1) flatCodec_unsigned32 [of 8 v] flatCodec_unsigned32 [of 16 v] flatCodec_unsigned32 [of 32 v]
    by (auto simp: lowerFlatPrim_def liftFlatPrim_def)
  have s: "flatCodec (lowerFlatPrim cx v k) (\<lambda>vi. liftFlatPrim cx vi k) [I32] v" if "k \<in> {KS8, KS16, KS32}"
    using that assms(1) flatCodec_signed32 [of 1 v] flatCodec_signed32 [of 2 v] flatCodec_signed32 [of 4 v]
    by (auto simp: lowerFlatPrim_def liftFlatPrim_def)
  have b: "flatCodec (lowerFlatPrim cx v k) (\<lambda>vi. liftFlatPrim cx vi k) [I64] v" if "k \<in> {KU64, KS64}"
    using that assms(1) flatCodec_int64 [of v]
    by (auto simp: lowerFlatPrim_def liftFlatPrim_def)
  have f: "flatCodec (lowerFlatPrim cx v k) (\<lambda>vi. liftFlatPrim cx vi k) [if k = KF32 then F32 else F64] v"
    if "k \<in> {KF32, KF64}"
    by (rule flatCodec_lane [of _ v])
      (use that assms(1) canonicalize_conform [OF assms(1)] in
        \<open>auto simp: lowerFlatPrim_def liftFlatPrim_def laneOk_def run_simps simp del: conformsPrim.simps\<close>)
  have bo: "flatCodec (lowerFlatPrim cx v KBool) (\<lambda>vi. liftFlatPrim cx vi KBool) [I32] v" if "k = KBool"
    by (rule flatCodec_lane [of _ "js_Number v"])
      (use that assms(1) in \<open>auto simp: lowerFlatPrim_def liftFlatPrim_def laneOk_def inRange_def run_simps
        js_Number_def nextInt_def laneInt_def js_int_def convertIntToBool_def split: JsVal.splits\<close>)
  have ch: "flatCodec (lowerFlatPrim cx v KChar) (\<lambda>vi. liftFlatPrim cx vi KChar) [I32] v" if "k = KChar"
  proof -
    have "conformsPrim KChar v" using that assms(1) by simp
    then obtain st n where v: "v = VStr st" "charToI32 st = Inr n" by (cases v) (auto split: sum.splits)
    have n: "n < 2 ^ 32" "convertI32ToChar (int n) = Inr st"
      using charToI32_Inr [OF v(2)] convertI32ToChar_scalar [of n] by (auto simp: isScalar_def)
    show ?thesis
      by (rule flatCodec_lane [of _ "VNum (int n)"])
        (use v n in \<open>simp_all add: lowerFlatPrim_def liftFlatPrim_def laneOk_def inRange_def run_simps
          js_str_def nextInt_def laneInt_def js_int_def\<close>)
  qed
  show ?thesis using assms(2) u s b f bo ch by (cases k) (simp_all add: flattenType.simps)
qed

section \<open>Compound types\<close>

lemma flatCodec_elems:
  fixes cx :: "'g heap_scheme Context"
  assumes "\<And>x. x \<in> set xs \<Longrightarrow> flatCodec (lowerFlat cx x e) (\<lambda>vi. liftFlat cx vi e) ts x"
  shows "flatCodec (lowerFlatElems cx xs e) (\<lambda>vi. liftFlatElems cx vi (length xs) e)
    (concat (replicate (length xs) ts)) xs"
  using assms
proof (induction xs)
  case Nil
  show ?case using flatCodec_return [of "[]"]
    by (simp add: lowerFlatElems.simps liftFlatElems.simps)
next
  case (Cons x xs)
  have c1: "flatCodec (lowerFlat cx x e) (\<lambda>vi. liftFlat cx vi e) ts x" by (rule Cons.prems) simp
  have c2: "flatCodec (lowerFlatElems cx xs e) (\<lambda>vi. liftFlatElems cx vi (length xs) e)
    (concat (replicate (length xs) ts)) xs"
    by (rule Cons.IH) (use Cons.prems in simp)
  have "flatCodec (bindM (lowerFlat cx x e) (\<lambda>a. bindM (lowerFlatElems cx xs e) (\<lambda>b. returnM (a @ b))))
    (\<lambda>vi. bindM (liftFlat cx vi e) (\<lambda>r. bindM (liftFlatElems cx (snd r) (length xs) e) (\<lambda>q. returnM (fst r # fst q, snd q))))
    (ts @ concat (replicate (length xs) ts)) (x # xs)"
    using flatCodec_bind [OF c1, where ?li2.0 = "\<lambda>y vi. bindM (liftFlatElems cx vi (length xs) e) (\<lambda>q. returnM (y # fst q, snd q))",
        OF flatCodec_map [OF c2]] by simp
  moreover have "ts @ concat (replicate (length xs) ts) = concat (replicate (length (x # xs)) ts)" by simp
  ultimately have "flatCodec (bindM (lowerFlat cx x e) (\<lambda>a. bindM (lowerFlatElems cx xs e) (\<lambda>b. returnM (a @ b))))
    (\<lambda>vi. bindM (liftFlat cx vi e) (\<lambda>r. bindM (liftFlatElems cx (snd r) (length xs) e) (\<lambda>q. returnM (fst r # fst q, snd q))))
    (concat (replicate (length (x # xs)) ts)) (x # xs)" by (simp only:)
  then show ?case
    by (rule flatCodec_cong)
      (simp_all add: lowerFlatElems.simps [of cx "x # xs"] liftFlatElems.simps [of cx _ "Suc (length xs)"])
qed

lemma flatCodec_record:
  fixes cx :: "'g heap_scheme Context"
  assumes "\<And>f x. f \<in> set fs \<Longrightarrow> conforms (snd f) x \<Longrightarrow> \<exists>ts. flattenType (snd f) (opts cx) = Inr ts \<and>
       flatCodec (lowerFlat cx x (snd f)) (\<lambda>vi. liftFlat cx vi (snd f)) ts x"
    "conformsFields fs ps" "\<forall>(l, x) \<in> set ps. js_get v l = Inr x" "distinct (map fst rec @ map fst ps)"
  shows "\<exists>ts. flattenRecord fs (opts cx) = Inr ts \<and>
    flatCodec (lowerFlatRecord cx v fs) (\<lambda>vi. liftFlatRecord cx vi fs rec) ts (VObj (rec @ ps))"
  using assms
proof (induction fs arbitrary: ps rec)
  case Nil
  then show ?case using flatCodec_return [of "VObj rec"]
    by (simp add: lowerFlatRecord.simps liftFlatRecord.simps)
next
  case (Cons f fs)
  obtain x qs where ps: "ps = (fst f, x) # qs" and c: "conforms (snd f) x" "conformsFields fs qs"
    using Cons.prems(2) by (auto simp only: conformsFields_cons)
  have fr: "fst f \<notin> set (map fst rec)" using Cons.prems(4) ps by auto
  obtain ts where ts: "flattenType (snd f) (opts cx) = Inr ts"
    "flatCodec (lowerFlat cx x (snd f)) (\<lambda>vi. liftFlat cx vi (snd f)) ts x"
    using Cons.prems(1) [of f x] c(1) by auto
  have "\<exists>us. flattenRecord fs (opts cx) = Inr us \<and>
    flatCodec (lowerFlatRecord cx v fs) (\<lambda>vi. liftFlatRecord cx vi fs (rec @ [(fst f, x)])) us (VObj ((rec @ [(fst f, x)]) @ qs))"
  proof (rule Cons.IH)
    fix g y assume "g \<in> set fs" "conforms (snd g) y"
    then show "\<exists>ts. flattenType (snd g) (opts cx) = Inr ts \<and>
      flatCodec (lowerFlat cx y (snd g)) (\<lambda>vi. liftFlat cx vi (snd g)) ts y"
      by (intro Cons.prems(1)) simp_all
  qed (use Cons.prems ps c in auto)
  then obtain us where us: "flattenRecord fs (opts cx) = Inr us"
    "flatCodec (lowerFlatRecord cx v fs) (\<lambda>vi. liftFlatRecord cx vi fs (obj_set (fst f) x rec)) us (VObj (rec @ ps))"
    using fr ps by auto
  have gx: "js_get v (fst f) = Inr x" using Cons.prems(3) ps by simp
  have "flatCodec (lowerFlatRecord cx v (f # fs)) (\<lambda>vi. liftFlatRecord cx vi (f # fs) rec) (ts @ us) (VObj (rec @ ps))"
    using flatCodec_bind [OF ts(2), where ?li2.0 = "\<lambda>y vi. liftFlatRecord cx vi fs (obj_set (fst f) y rec)", OF us(2)]
    by (rule flatCodec_cong)
      (simp_all add: lowerFlatRecord.simps [of cx v "f # fs"] liftFlatRecord.simps [of cx _ "f # fs"] run_simps gx)
  with ts(1) us(1) show ?case by simp
qed

lemma flatCodec_flags:
  fixes cx :: "'g heap_scheme Context"
  assumes "map fst ps = ls" "distinct ls" "ls \<noteq> []" "length ls \<le> 32"
    "list_all (\<lambda>p. case snd p of VBool b \<Rightarrow> True | _ \<Rightarrow> False) ps"
  shows "flatCodec (liftR (lowerFlatFlags (VObj ps) ls) :: ('g heap_scheme, JsVal list) sm)
    (\<lambda>vi. liftR (liftFlatFlags vi ls)) [I32] (VObj ps)"
proof -
  obtain w :: "32 word" where w: "packFlagsIntoInt (VObj ps) ls = Inr (uint w)" "unpackFlagsFromInt (uint w) ls = VObj ps"
    using flags_roundtrip [OF assms(1,2,4,5)] by blast
  have "uint w < 2 ^ 32" using uint_lt2p [of w] by simp
  then show ?thesis
    by (intro flatCodec_lane [of _ "VNum (uint w)"])
      (use assms(3,4) w in \<open>simp_all add: laneOk_def inRange_def lowerFlatFlags_def liftFlatFlags_def run_simps
        nextInt_def laneInt_def js_int_def\<close>)
qed

lemma flatCodec_variant:
  fixes cx :: "'g heap_scheme Context"
  assumes "wf_type t" "despecialize t = TVariant cs" "conformsCase cs (l, x)" "flattenVariant cs (opts cx) = Inr lanes"
    "\<And>c u. c \<in> set cs \<Longrightarrow> snd c = Some u \<Longrightarrow> conforms u x \<Longrightarrow> \<exists>ts. flattenType u (opts cx) = Inr ts \<and>
       flatCodec (lowerFlat cx x u) (\<lambda>vi. liftFlat cx vi u) ts x"
  shows "flatCodec (lowerFlatVariant cx (VObj [(l, x)]) cs) (\<lambda>vi. liftFlatVariant cx vi cs) lanes (VObj [(l, x)])"
proof -
  have cs: "length cs < 2 ^ 32" "distinct (map fst cs)" using assms(1,2) by (simp_all add: wf_type.simps [of t])
  obtain i where i: "i < length cs" "matchCase (VObj [(l, x)]) cs = Inr (i, x)" "fst (cs ! i) = l"
    "case snd (cs ! i) of None \<Rightarrow> x = VNull | Some u \<Rightarrow> conforms u x"
    by (rule matchCase_conforms [OF assms(3) cs(2)])
  obtain flat where flat: "lanes = I32 # flat"
    "\<forall>c \<in> set cs. \<forall>t. snd c = Some t \<longrightarrow> (\<exists>ts. flattenType t (opts cx) = Inr ts \<and> lanesLe ts flat)"
    using flattenVariant_lanes [OF assms(4)] by metis
  define lo where "lo = (case snd (cs ! i) of
                None \<Rightarrow> returnM ([], flat)
              | Some u \<Rightarrow>
                  bindM (lowerFlat cx x u) (\<lambda>payload.
                  bindM (liftR (flattenType u (opts cx))) (\<lambda>haves.
                  liftR (lowerLanes payload haves flat))))"
  define li where "li = (\<lambda>vi. case snd (cs ! i) of
                None \<Rightarrow> returnM (VNull, CoerceIter flat vi)
              | Some u \<Rightarrow> liftFlat cx (CoerceIter flat vi) u)"
  have "\<exists>n ys. n \<le> length flat \<and> list_all2 laneOk (take n flat) ys \<and> (\<forall>h. lo h = (Inr (ys, drop n flat), h)) \<and>
    (\<forall>vi vi' h. pullAll (take n flat) vi = Inr (ys, vi') \<longrightarrow> li vi h = (Inr (x, CoerceIter (drop n flat) vi'), h))"
  proof (cases "snd (cs ! i)")
    case None
    then show ?thesis using i(4) by (intro exI [of _ 0] exI [of _ "[]"]) (simp add: lo_def li_def run_simps)
  next
    case (Some u)
    have ci: "cs ! i \<in> set cs" using i(1) by simp
    obtain ts xs where ts: "flattenType u (opts cx) = Inr ts" "list_all2 laneOk ts xs"
      "\<forall>h. lowerFlat cx x u h = (Inr xs, h)"
      "\<forall>vi vi' h. pullAll ts vi = Inr (xs, vi') \<longrightarrow> liftFlat cx vi u h = (Inr (x, vi'), h)"
      using assms(5) [OF ci Some] i(4) Some unfolding flatCodec_def by auto
    have le: "lanesLe ts flat" using flat(2) ci Some ts(1) by fastforce
    obtain ys where ys: "lowerLanes xs ts flat = Inr (ys, drop (length ts) flat)"
      "list_all2 laneOk (take (length ts) flat) ys"
      "\<forall>vi vi'. pullAll (take (length ts) flat) vi = Inr (ys, vi') \<longrightarrow>
         pullAll ts (CoerceIter flat vi) = Inr (xs, CoerceIter (drop (length ts) flat) vi')"
      using lowerLanes_ok [OF le ts(2)] by blast
    have "lo h = (Inr (ys, drop (length ts) flat), h)" for h
      using ts(1,3) ys(1) Some by (simp add: lo_def bindM_def liftR_def)
    moreover have "li vi h = (Inr (x, CoerceIter (drop (length ts) flat) vi'), h)"
      if "pullAll (take (length ts) flat) vi = Inr (ys, vi')" for vi vi' h
      using ys(3) ts(4) that Some by (simp add: li_def)
    ultimately show ?thesis using lanesLe_length [OF le] ys(2) by blast
  qed
  then obtain n ys where n: "n \<le> length flat" "list_all2 laneOk (take n flat) ys"
    "\<And>h. lo h = (Inr (ys, drop n flat), h)"
    "\<And>vi vi' h. pullAll (take n flat) vi = Inr (ys, vi') \<Longrightarrow> li vi h = (Inr (x, CoerceIter (drop n flat) vi'), h)"
    by blast
  let ?out = "VNum (int i) # ys @ padLanes (drop n flat)"
  have ok: "list_all2 laneOk lanes ?out"
  proof -
    have "list_all2 laneOk (take n flat @ drop n flat) (ys @ padLanes (drop n flat))"
      by (rule list_all2_appendI [OF n(2) padLanes_ok])
    then show ?thesis using flat(1) i(1) cs(1) by (simp add: laneOk_def inRange_def)
  qed
  have low: "lowerFlatVariant cx (VObj [(l, x)]) cs h = (Inr ?out, h)" for h
  proof -
    have "lowerFlatVariant cx (VObj [(l, x)]) cs h = bindM lo (\<lambda>r. returnM (VNum (int i) # fst r @ padLanes (snd r))) h"
      using i(1,2) flat(1) assms(4)
      by (simp add: lowerFlatVariant.simps run_simps lo_def cong: option.case_cong)
    then show ?thesis using n(3) [of h] by (simp add: bindM_def returnM_def)
  qed
  have lift: "liftFlatVariant cx vi cs h = (Inr (VObj [(l, x)], vi'), h)" if p: "pullAll lanes vi = Inr (?out, vi')" for vi vi' h
  proof -
    obtain vi1 where v1: "iterNext I32 vi = Inr (VNum (int i), vi1)"
      "pullAll (take n flat @ drop n flat) vi1 = Inr (ys @ padLanes (drop n flat), vi')"
      using p flat(1) by (auto simp: bindR_eq_Inr)
    have len: "length ys = length (take n flat)" using list_all2_lengthD [OF n(2)] by simp
    obtain vi2 where v2: "pullAll (take n flat) vi1 = Inr (ys, vi2)"
      "pullAll (drop n flat) vi2 = Inr (padLanes (drop n flat), vi')"
      by (rule pullAll_append_Inr [OF v1(2) len])
    have l1: "li vi1 h = (Inr (x, CoerceIter (drop n flat) vi2), h)" by (rule n(4) [OF v2(1)])
    have l2: "drainLanes (drop n flat) vi2 = Inr vi'" by (rule drainLanes_pullAll [OF v2(2)])
    have "nextInt I32 vi = Inr (int i, vi1)" using v1(1) by (simp add: nextInt_def laneInt_def js_int_def)
    then have "liftFlatVariant cx vi cs h = bindM (li vi1) (\<lambda>q.
       case snd q of
         CoerceIter rest vi1 \<Rightarrow> bindM (liftR (drainLanes rest vi1)) (\<lambda>vi2. returnM (VObj [(l, fst q)], vi2))
       | _ \<Rightarrow> throwM (JsError ''unreachable'')) h"
      using i(1) flat(1) assms(4)
      by (simp add: liftFlatVariant.simps run_simps Let_def li_def i(3) [symmetric] cong: option.case_cong Iter.case_cong)
    also have "\<dots> = (Inr (VObj [(l, x)], vi'), h)" using l1 l2 by (simp add: bindM_def [of "li vi1"] run_simps)
    finally show ?thesis .
  qed
  show ?thesis unfolding flatCodec_def
    by (intro exI [of _ ?out] conjI allI impI ok low) (rule lift)
qed

theorem lower_lift_codec:
  fixes cx :: "'g heap_scheme Context"
  assumes "wf_type t" "plain t" "conforms t v" "memory (opts cx) = Some mem"
  shows "\<exists>ts. flattenType t (opts cx) = Inr ts \<and> flatCodec (lowerFlat cx v t) (\<lambda>vi. liftFlat cx vi t) ts v"
  using assms(1-3)
proof (induction t arbitrary: v rule: tsize_induct)
  case (type t)
  note wf = type.prems(1) and pl = type.prems(2) and cf = type.prems(3)
  note lo = lowerFlat.simps [of cx v t] and li = liftFlat.simps [of cx _ t] and fl = flattenType.simps [of t]
  show ?case
  proof (cases "despecialize t")
    case (TPrim k)
    then have "conformsPrim k v" "k \<noteq> KString" using pl cf by (simp_all add: plain.simps [of t] conforms.simps [of t])
    then obtain c where "flattenType (TPrim k) (opts cx) = Inr [c]"
      "flatCodec (lowerFlatPrim cx v k) (\<lambda>vi. liftFlatPrim cx vi k) [c] v"
      using flatCodec_prim by blast
    moreover have "flattenType t (opts cx) = flattenType (TPrim k) (opts cx)"
      using TPrim by (simp add: fl flattenType.simps [of "TPrim k"])
    ultimately show ?thesis using TPrim by (simp add: lo li)
  next
    case (TList e n)
    then obtain len where n: "n = Some len" "plain e" using pl by (auto simp: plain.simps [of t])
    have e: "wf_type e" using wf TList by (simp add: wf_type.simps [of t])
    have IH: "\<And>x. conforms e x \<Longrightarrow> \<exists>ts. flattenType e (opts cx) = Inr ts \<and>
        flatCodec (lowerFlat cx x e) (\<lambda>vi. liftFlat cx vi e) ts x"
      by (rule type.IH [OF tsize_despecialize_list [OF TList] e n(2)])
    have eb: "conforms e (VNum (uint b)) \<longleftrightarrow> True" if "despecialize e = TPrim KU8" for b :: "8 word"
      using uint_lt2p [of b] that by (simp add: conforms.simps [of e] inRange_def)
    obtain xs where xs: "js_elems ''fixed-length list length mismatch'' v = Inr xs" "length xs = len"
      "\<forall>x \<in> set xs. conforms e x" "(if despecialize e = TPrim KU8 then bytesFrom xs else VArr xs) = v"
    proof (cases "despecialize e = TPrim KU8")
      case True
      then obtain bs where v: "v = VBytes bs" "length bs = len"
        using cf TList n by (auto simp: conforms.simps [of t] split: JsVal.splits)
      have "bytesFrom (map (\<lambda>b. VNum (uint b)) bs) = v"
        using v by (simp add: bytesFrom_def laneInt_def js_int_def comp_def)
      then show thesis using v eb [OF True] True by (intro that [of "map (\<lambda>b. VNum (uint b)) bs"]) auto
    next
      case False
      then obtain xs where v: "v = VArr xs" "length xs = len" "list_all (conforms e) xs"
        using cf TList n by (auto simp: conforms.simps [of t] split: JsVal.splits)
      then show thesis using False by (intro that [of xs]) (auto simp: list_all_iff)
    qed
    obtain ts where ts: "flattenType e (opts cx) = Inr ts"
      using flattenType_total [OF e assms(4)] by blast
    have "flatCodec (lowerFlatElems cx xs e) (\<lambda>vi. liftFlatElems cx vi len e) (concat (replicate len ts)) xs"
      unfolding xs(2) [symmetric] using IH xs(3) ts by (intro flatCodec_elems) fastforce
    from flatCodec_map [OF this, of "\<lambda>xs. if despecialize e = TPrim KU8 then bytesFrom xs else VArr xs"]
    have "flatCodec (lowerFlat cx v t) (\<lambda>vi. liftFlat cx vi t) (concat (replicate len ts)) v"
      unfolding xs(4)
      by (rule flatCodec_cong) (simp_all add: lo li TList n lowerFlatList.simps liftFlatList.simps run_simps xs(1,2))
    then show ?thesis using ts TList n by (simp add: fl)
  next
    case (TRecord fs)
    obtain ps where v: "v = VObj ps" "conformsFields fs ps"
      using cf TRecord by (auto simp: conforms.simps [of t] split: JsVal.splits)
    have d: "distinct (map fst ps)" using conformsFields_fst [OF v(2)] wf TRecord by (simp add: wf_type.simps [of t])
    have gets: "\<forall>(l, x) \<in> set ps. js_get v l = Inr x"
      using d by (auto simp: v(1) map_of_eq_Some_iff)
    have "\<exists>ts. flattenRecord fs (opts cx) = Inr ts \<and>
      flatCodec (lowerFlatRecord cx v fs) (\<lambda>vi. liftFlatRecord cx vi fs []) ts (VObj ([] @ ps))"
    proof (rule flatCodec_record [OF _ v(2) gets])
      fix f x assume f: "f \<in> set fs" "conforms (snd f) x"
      have "plain (snd f)" using pl TRecord f(1) by (simp add: plain.simps [of t] list_all_iff)
      then show "\<exists>ts. flattenType (snd f) (opts cx) = Inr ts \<and>
        flatCodec (lowerFlat cx x (snd f)) (\<lambda>vi. liftFlat cx vi (snd f)) ts x"
        using f(2) wf_record_field [OF wf TRecord f(1)]
        by (intro type.IH [OF tsize_record_part [OF TRecord f(1)]])
    qed (use d in simp)
    then show ?thesis using TRecord by (simp add: lo li fl v(1) [symmetric])
  next
    case (TVariant cs)
    obtain l x where v: "v = VObj [(l, x)]" "conformsCase cs (l, x)"
      using cf TVariant by (auto simp: conforms.simps [of t] split: JsVal.splits list.splits)
    obtain lanes where lanes: "flattenVariant cs (opts cx) = Inr lanes"
      using flattenType_total [OF wf assms(4)] TVariant by (auto simp: fl)
    have "flatCodec (lowerFlatVariant cx (VObj [(l, x)]) cs) (\<lambda>vi. liftFlatVariant cx vi cs) lanes (VObj [(l, x)])"
    proof (rule flatCodec_variant [OF wf TVariant v(2) lanes])
      fix c u assume c: "c \<in> set cs" "snd c = Some u" "conforms u x"
      have "plain u" using pl TVariant c(1,2) by (fastforce simp: plain.simps [of t] list_all_iff)
      then show "\<exists>ts. flattenType u (opts cx) = Inr ts \<and>
        flatCodec (lowerFlat cx x u) (\<lambda>vi. liftFlat cx vi u) ts x"
        using c wf_variant_case [OF wf TVariant c(1,2)]
        by (intro type.IH [OF tsize_variant_part [OF TVariant c(1,2)]])
    qed
    then show ?thesis using TVariant lanes by (simp add: lo li fl v(1) [symmetric])
  next
    case (TFlags ls)
    have ls: "ls \<noteq> []" "length ls \<le> 32" "distinct ls" using wf TFlags by (simp_all add: wf_type.simps [of t])
    obtain ps where v: "v = VObj ps" "map fst ps = ls" "list_all (\<lambda>p. case snd p of VBool b \<Rightarrow> True | _ \<Rightarrow> False) ps"
      using cf TFlags by (auto simp: conforms.simps [of t] split: JsVal.splits)
    show ?thesis using flatCodec_flags [OF v(2) ls(3,1,2) v(3)] TFlags by (simp add: lo li fl v(1) [symmetric])
  qed (use pl despecialize_not_specialized [of t] in \<open>simp_all add: plain.simps [of t] specialized_def\<close>)
qed

section \<open>Properties\<close>

text \<open>C5: Lowering a conforming value of a plain type yields exactly the lanes of its flattened type,
  each of them a value of its lane type, without touching the heap; lifting those lanes, at any
  position of a call's core values, gives the value back and leaves the iterator right after them.\<close>

theorem lower_lift_roundtrip:
  assumes "wf_type t" "plain t" "conforms t v" "memory (opts cx) = Some mem"
  shows "\<exists>ts xs. flattenType t (opts cx) = Inr ts \<and> lowerFlat cx v t h = (Inr xs, h) \<and> list_all2 laneOk ts xs \<and>
    liftFlat cx (CoreIter (pre @ xs @ post) (length pre)) t h =
      (Inr (v, CoreIter (pre @ xs @ post) (length pre + length xs)), h)"
  using lower_lift_codec [OF assms] pullAll_core unfolding flatCodec_def by blast

theorem lower_lift_roundtrip_witness:
  "\<exists>ts xs. flattenType (TResult (Some (TPrim KF32)) (Some (TPrim KU64))) (opts cx0) = Inr ts \<and>
    lowerFlat cx0 (VObj [(''ok'', VFlt 0)]) (TResult (Some (TPrim KF32)) (Some (TPrim KU64))) emptyHeap = (Inr xs, emptyHeap) \<and>
    list_all2 laneOk ts xs \<and>
    liftFlat cx0 (CoreIter xs 0) (TResult (Some (TPrim KF32)) (Some (TPrim KU64))) emptyHeap =
      (Inr (VObj [(''ok'', VFlt 0)], CoreIter xs (length xs)), emptyHeap)"
proof -
  let ?t = "TResult (Some (TPrim KF32)) (Some (TPrim KU64))"
  have w: "wf_type ?t" "plain ?t" by (simp_all add: wf_type.simps plain.simps)
  have c: "conforms ?t (VObj [(''ok'', VFlt 0)])"
    using zero_lane(1) by (simp add: conforms.simps del: conformsPrim.simps)
  have m: "memory (opts cx0) = Some \<lparr>memId = 0, addrType = I32, mBase = 0\<rparr>" by (simp add: cx0_def)
  show ?thesis using lower_lift_roundtrip [OF w c m, of emptyHeap "[]" "[]"] by simp
qed

end
