(* ===== verification/CallProps.thy ===== *)
theory CallProps
  imports HostEntry FlatRoundTrip
begin

text \<open>
  What the boundary promises: a synchronous call through it computes the function its core implements
  on flat encodings, and leaves the scheduler as it found it; the callback loop of an asynchronous export ends.
\<close>

section \<open>Value lists\<close>

lemma flatCodec_list:
  fixes cx :: "'g heap_scheme Context"
  assumes "list_all2 conforms ts vs" "\<forall>t \<in> set ts. wf_type t \<and> plain t" "memory (opts cx) = Some mem"
  shows "\<exists>flats. flattenTypes ts (opts cx) = Inr flats \<and>
    flatCodec (lowerEach cx vs ts) (\<lambda>vi. liftEach cx vi ts) flats vs"
  using assms(1,2)
proof (induction ts vs rule: list_all2_induct)
  case Nil
  show ?case using flatCodec_return [of "[]"] by simp
next
  case (Cons t ts v vs)
  obtain a where a: "flattenType t (opts cx) = Inr a" "flatCodec (lowerFlat cx v t) (\<lambda>vi. liftFlat cx vi t) a v"
    using lower_lift_codec [of t v cx mem] Cons.prems Cons.hyps(1) assms(3) by auto
  obtain b where b: "flattenTypes ts (opts cx) = Inr b" "flatCodec (lowerEach cx vs ts) (\<lambda>vi. liftEach cx vi ts) b vs"
    using Cons.IH Cons.prems by auto
  have "flatCodec (bindM (lowerFlat cx v t) (\<lambda>x. bindM (lowerEach cx vs ts) (\<lambda>y. returnM (x @ y))))
    (\<lambda>vi. bindM (liftFlat cx vi t) (\<lambda>r. bindM (liftEach cx (snd r) ts) (\<lambda>q. returnM (fst r # fst q, snd q)))) (a @ b) (v # vs)"
    using flatCodec_bind [OF a(2), where ?li2.0 = "\<lambda>y vi. bindM (liftEach cx vi ts) (\<lambda>q. returnM (y # fst q, snd q))",
        OF flatCodec_map [OF b(2)]] by simp
  then show ?case using a(1) b(1) by simp
qed

text \<open>The lanes of a conforming list come back from any iterator over them.\<close>

lemma lower_list_lift:
  fixes cx :: "'g heap_scheme Context"
  assumes "list_all2 conforms ts vs" "\<forall>t \<in> set ts. wf_type t \<and> plain t" "memory (opts cx) = Some mem"
    "flattenTypes ts (opts cx) = Inr flats" "length flats \<le> n"
  obtains xs where "\<And>h. lowerFlatValues cx n vs ts None h = (Inr xs, h)" "list_all2 laneOk flats xs"
    "\<And>h. liftFlatValues cx n (CoreIter xs 0) ts h = (Inr (vs, CoreIter xs (length xs)), h)"
    "\<And>h. lowerEach cx vs ts h = (Inr xs, h)"
proof -
  obtain xs where xs: "list_all2 laneOk flats xs" "\<forall>h. lowerEach cx vs ts h = (Inr xs, h)"
    "\<forall>vi vi' h. pullAll flats vi = Inr (xs, vi') \<longrightarrow> liftEach cx vi ts h = (Inr (vs, vi'), h)"
    using flatCodec_list [OF assms(1-3)] assms(4) unfolding flatCodec_def by auto
  have p: "pullAll flats (CoreIter xs 0) = Inr (xs, CoreIter xs (length xs))"
    using pullAll_core [OF xs(1), of "[]" "[]"] by simp
  show thesis
    by (rule that [of xs]) (use xs p assms(4,5) in \<open>auto simp: lowerFlatValues_def liftFlatValues_def run_simps\<close>)
qed

section \<open>Lanes\<close>

lemma normalizeLane_ok: "laneOk t v \<Longrightarrow> normalizeLane what i t v = Ok v"
  by (cases t; cases v)
    (auto simp: normalizeLane_def laneOk_def inRange_def inRangeBig_def js_isNumber_def toUint32_def assertR_def bindR_def)

lemma mapR_nth:
  assumes "\<And>i. i < length xs \<Longrightarrow> f i = Ok (xs ! i)"
  shows "mapR f [0..<length xs] = Ok xs"
proof -
  have "mapR f is = Ok (map (\<lambda>i. xs ! i) is)" if "\<forall>i \<in> set is. i < length xs" for "is"
    using that assms by (induction "is") (auto simp: bindR_def)
  then show ?thesis by (simp add: map_nth)
qed

lemma normalizeCoreValues_ok:
  assumes "list_all2 laneOk lanes vs"
  shows "normalizeCoreValues vs lanes what = Ok vs"
proof -
  have l: "length vs = length lanes" using assms by (simp add: list_all2_lengthD)
  have "mapR (\<lambda>i. normalizeLane what i (lanes ! i) (vs ! i)) [0..<length vs] = Ok vs"
    by (rule mapR_nth) (use assms l in \<open>auto simp: list_all2_conv_all_nth intro: normalizeLane_ok\<close>)
  with l show ?thesis by (simp add: normalizeCoreValues_def)
qed

section \<open>The steps of a synchronous call\<close>

lemma enter_sync:
  assumes "ta_state (tasks h k) = TInitial" "\<not> ftAsync (ta_ft (tasks h k))" "ta_threads (tasks h k) = []" "ta_inst (tasks h k) = i"
    "th_task (threads h t) = k" "th_index (threads h t) = None" "tableAdd t (instThreads h i) = (Inr n, tb)"
  shows "enterImplicitThread G k t h = (Inr (Now True),
    updThread t (\<lambda>x. x\<lparr>th_index := Some n\<rparr>)
      ((updTask k (\<lambda>x. x\<lparr>ta_implicit := Some t, ta_threads := [t]\<rparr>) h)\<lparr>instThreads := (instThreads h)(i := tb)\<rparr>))"
proof -
  let ?h1 = "updTask k (\<lambda>x. x\<lparr>ta_implicit := Some t\<rparr>) h"
  have "registerThread k t ?h1 = (Inr (), updThread t (\<lambda>x. x\<lparr>th_index := Some n\<rparr>)
     ((updTask k (\<lambda>x. x\<lparr>ta_threads := ta_threads x @ [t]\<rparr>) ?h1)\<lparr>instThreads := (instThreads ?h1)(ta_inst (tasks ?h1 k) := tb)\<rparr>))"
    by (rule registerThread_run) (use assms in simp_all)
  moreover have "updTask k (\<lambda>x. x\<lparr>ta_threads := ta_threads x @ [t]\<rparr>) ?h1 = updTask k (\<lambda>x. x\<lparr>ta_implicit := Some t, ta_threads := [t]\<rparr>) h"
    using assms(3) by (simp add: updTask_def)
  ultimately have "admit k t ?h1 = (Inr True, updThread t (\<lambda>x. x\<lparr>th_index := Some n\<rparr>)
      ((updTask k (\<lambda>x. x\<lparr>ta_implicit := Some t, ta_threads := [t]\<rparr>) h)\<lparr>instThreads := (instThreads h)(i := tb)\<rparr>))"
    using assms by (simp add: admit_def takeExclusive_def run_simps bindM_def [of "registerThread k t"])
  then show ?thesis using assms
    by (simp add: enterImplicitThread_def run_simps bindM_def [of "admit k t"])
qed

lemma exit_sync:
  assumes "ta_implicit (tasks h k) = Some t" "ta_threads (tasks h k) = [t]" "th_task (threads h t) = k" "ta_state (tasks h k) = TResolved"
    "taskBorrows h k = 0" "th_index (threads h t) = Some n" "ta_inst (tasks h k) = i" "tableRemove n (instThreads h i) = (Inr e, tb)"
    "\<not> ftAsync (ta_ft (tasks h k))"
  shows "exitImplicitThread k t h = (Inr (), updThread t (\<lambda>x. x\<lparr>th_index := None\<rparr>)
     ((updTask k (\<lambda>x. x\<lparr>ta_threads := []\<rparr>) h)\<lparr>instThreads := (instThreads h)(i := tb)\<rparr>))"
proof -
  have "unregisterThread k t h = (Inr (), updThread t (\<lambda>x. x\<lparr>th_index := None\<rparr>)
     ((updTask k (\<lambda>x. x\<lparr>ta_threads := []\<rparr>) h)\<lparr>instThreads := (instThreads h)(i := tb)\<rparr>))"
    using assms by (simp add: unregisterThread_def run_simps onThreads_def bindM_def) (simp add: updTask_def updThread_def)
  then show ?thesis using assms by (simp add: exitImplicitThread_def run_simps bindM_def)
qed

lemma awaitCore_sync:
  fixes h :: "'g sched_scheme"
  assumes "\<And>g :: 'g sched_scheme. fn xs g = (Inr (Returned raw), g\<lparr>mems := M g\<rparr>)"
  shows "\<exists>m. awaitCore t fn xs h = (Inr (Now (rawValues raw)), h\<lparr>mems := m\<rparr>)"
proof -
  have "callCore fn xs g = (Inr (Values (rawValues raw)), g\<lparr>mems := M g\<rparr>)" for g :: "'g sched_scheme"
    by (simp add: callCore_def assms)
  then have "\<exists>m. withActivation t (callCore fn xs) h = (Inr (Values (rawValues raw)), h\<lparr>mems := m\<rparr>)"
    by (auto simp: withActivation_def finallyM_def run_simps topOf_def liftR_def butlast_append)
  then obtain m where "withActivation t (callCore fn xs) h = (Inr (Values (rawValues raw)), h\<lparr>mems := m\<rparr>)" by blast
  then show ?thesis by (intro exI [of _ m]) (simp add: awaitCore_def bindM_def run_simps)
qed

text \<open>
  A core function implements \<open>f\<close> when it maps the lanes of arguments to the lanes of \<open>f\<close>'s results, changing nothing but memory.
\<close>

definition coreImplements :: "'g LiftInput \<Rightarrow> (JsVal list \<Rightarrow> JsVal list) \<Rightarrow> bool" where
  "coreImplements E f \<longleftrightarrow>
     (\<forall>k args xs (h :: 'g sched_scheme). list_all2 conforms (ftParams (li_ft E)) args \<and>
        lowerEach (liftContext (E\<lparr>li_task := k\<rparr>)) args (ftParams (li_ft E)) h = (Inr xs, h) \<longrightarrow>
        list_all2 conforms (ftResults (li_ft E)) (f args) \<and>
        (\<exists>raw M. (\<forall>g. li_core E xs g = (Inr (Returned raw), g\<lparr>mems := M g\<rparr>)) \<and>
          lowerEach (liftContext (E\<lparr>li_task := k\<rparr>)) (f args) (ftResults (li_ft E)) h = (Inr (rawValues raw), h)))"

text \<open>The exports of the theorem: synchronous options without post-return, plain types that need no spilling.\<close>

definition scalarExport :: "'g LiftInput \<Rightarrow> CoreType list \<Rightarrow> CoreType list \<Rightarrow> bool" where
  "scalarExport E ps rs \<longleftrightarrow>
     \<not> ro_async (li_opts E) \<and> ro_postReturn (li_opts E) = None \<and> ro_memory (li_opts E) \<noteq> None \<and> \<not> ftAsync (li_ft E) \<and>
     (\<forall>t \<in> set (ftParams (li_ft E) @ ftResults (li_ft E)). wf_type t \<and> plain t) \<and>
     flattenTypes (ftParams (li_ft E)) (LiftLowerOptions.truncate (cabiOptions (li_opts E))) = Inr ps \<and> length ps \<le> MAX_FLAT_PARAMS \<and>
     flattenTypes (ftResults (li_ft E)) (LiftLowerOptions.truncate (cabiOptions (li_opts E))) = Inr rs \<and> length rs \<le> MAX_FLAT_RESULTS \<and>
     createLiftedFunction E = Inr ()"

lemma opts_liftContext [simp]: "opts (liftContext E) = LiftLowerOptions.truncate (cabiOptions (li_opts E))"
  by (simp add: liftContext_def liftLowerContext_def)

lemma memory_truncate: "memory (LiftLowerOptions.truncate (cabiOptions op)) = ro_memory op"
  by (simp add: cabiOptions_def LiftLowerOptions.defs)

text \<open>The check at instantiation makes the plan's core type the flattened one.\<close>

lemma ptrType_memory: "memory op' = memory op \<Longrightarrow> ptrType op' = ptrType op"
  by (simp add: ptrType_def requireMemory_def)

lemma flatten_memory:
  assumes "memory op' = memory op"
  shows "flattenType t op' = flattenType t op" "flattenList e n op' = flattenList e n op"
    "flattenRecord fs op' = flattenRecord fs op" "flattenCases flat cs op' = flattenCases flat cs op"
    "flattenVariant cs op' = flattenVariant cs op"
  using assms
proof (induction t op and e n op and fs op and flat cs op and cs op rule: flattenType_flattenList_flattenRecord_flattenCases_flattenVariant.induct)
  case (1 t op)
  show ?case
    unfolding flattenType.simps [of t]
    by (intro ValType.case_cong PrimKind.case_cong refl) (use 1 ptrType_memory [OF "1.prems"] in simp_all)
next
  case (7 cs op)
  then show ?case by (cases "flattenCases [] cs op"; cases "discriminantType cs") (simp_all add: flattenVariant.simps)
next
  case (2 e n op)
  then show ?case using ptrType_memory [OF "2.prems"] by (cases n) simp_all
next
  case (4 f fs op)
  then show ?case by (cases "flattenType (snd f) op") simp_all
next
  case (6 flat c cs op)
  then show ?case by (cases "snd c"; cases "flattenType (the (snd c)) op") simp_all
qed simp_all

lemma flattenTypes_memory: "memory op' = memory op \<Longrightarrow> flattenTypes ts op' = flattenTypes ts op"
  by (induction ts) (simp_all add: flatten_memory(1) [of op' op])

lemma scalar_results: "scalarExport E ps rs \<Longrightarrow> cresults (ro_coreType (li_opts E)) = rs"
proof -
  assume e: "scalarExport E ps rs"
  let ?op = "cabiOptions (li_opts E)"
  have t: "flattenTypes ts (LiftLowerOptions.truncate ?op) = flattenTypes ts ?op" for ts
    by (rule flattenTypes_memory) (simp add: LiftLowerOptions.truncate_def)
  have "flattenFunctype ?op (li_ft E) LiftContext = Inr \<lparr>cparams = ps, cresults = rs\<rparr>"
    using e by (simp add: scalarExport_def t flattenFunctype_def bindR_def) (simp add: cabiOptions_def)
  then have "coreFuncTypeEquals \<lparr>cparams = ps, cresults = rs\<rparr> (ro_coreType (li_opts E))"
    using e by (auto simp: scalarExport_def createLiftedFunction_def bindR_def split: if_splits)
  then show ?thesis by (auto simp: coreFuncTypeEquals_def list_all_iff intro!: nth_equalityI)
qed

lemma scalar_call:
  fixes E :: "'g LiftInput" and h :: "'g sched_scheme"
  assumes "scalarExport E ps rs" "coreImplements E f" "list_all2 conforms (ftParams (li_ft E)) args"
  obtains xs raw M where
    "\<And>h. lowerFlatValues (liftContext (E\<lparr>li_task := k\<rparr>)) MAX_FLAT_PARAMS args (ftParams (li_ft E)) None h = (Inr xs, h)"
    "\<And>g. li_core E xs g = (Inr (Returned raw), g\<lparr>mems := M g\<rparr>)"
    "\<And>h. liftResults (E\<lparr>li_task := k\<rparr>) (rawValues raw) h = (Inr (rawValues raw, f args), h)"
proof -
  let ?cx = "liftContext (E\<lparr>li_task := k\<rparr>)"
  obtain mem where m: "memory (opts ?cx) = Some mem" using assms(1) by (auto simp: memory_truncate scalarExport_def)
  have ty: "\<forall>t \<in> set (ftParams (li_ft E)). wf_type t \<and> plain t" "\<forall>t \<in> set (ftResults (li_ft E)). wf_type t \<and> plain t"
    "flattenTypes (ftParams (li_ft E)) (opts ?cx) = Inr ps" "length ps \<le> MAX_FLAT_PARAMS"
    "flattenTypes (ftResults (li_ft E)) (opts ?cx) = Inr rs" "length rs \<le> MAX_FLAT_RESULTS" "cresults (ro_coreType (li_opts E)) = rs"
    using assms(1) scalar_results [OF assms(1)] by (auto simp: scalarExport_def)
  obtain xs where xs: "\<And>h. lowerFlatValues ?cx MAX_FLAT_PARAMS args (ftParams (li_ft E)) None h = (Inr xs, h)"
    "\<And>h. lowerEach ?cx args (ftParams (li_ft E)) h = (Inr xs, h)"
    by (rule lower_list_lift [OF assms(3) ty(1) m ty(3,4)]) blast
  obtain raw M where core: "list_all2 conforms (ftResults (li_ft E)) (f args)" "\<And>g. li_core E xs g = (Inr (Returned raw), g\<lparr>mems := M g\<rparr>)"
    "lowerEach ?cx (f args) (ftResults (li_ft E)) h = (Inr (rawValues raw), h)"
    using assms(2,3) xs(2) unfolding coreImplements_def by meson
  obtain ys where ys: "list_all2 laneOk rs ys" "\<And>h. lowerEach ?cx (f args) (ftResults (li_ft E)) h = (Inr ys, h)"
    "\<And>h. liftFlatValues ?cx MAX_FLAT_RESULTS (CoreIter ys 0) (ftResults (li_ft E)) h = (Inr (f args, CoreIter ys (length ys)), h)"
    by (rule lower_list_lift [OF core(1) ty(2) m ty(5,6)]) blast
  have "rawValues raw = ys" using core(3) ys(2) [of h] by simp
  then have "liftResults (E\<lparr>li_task := k\<rparr>) (rawValues raw) h = (Inr (rawValues raw, f args), h)" for h
    using normalizeCoreValues_ok [OF ys(1)] ty(7) ys(3)
    by (simp add: liftResults_def run_simps bindM_def [of "liftFlatValues _ _ _ _"])
  with xs(1) core(2) that show thesis by blast
qed

text \<open>The state a synchronous call leaves: memory, the task, the thread and the table of its instance.\<close>

definition calm :: "nat \<Rightarrow> nat \<Rightarrow> nat \<Rightarrow> 'g hostsched_scheme \<Rightarrow> 'g hostsched_scheme \<Rightarrow> bool" where
  "calm k t i h h' \<longleftrightarrow>
     (\<exists>m T K I r. h' = h\<lparr>mems := m, threads := (threads h)(t := T), tasks := (tasks h)(k := K),
        instThreads := (instThreads h)(i := I), resolvedOf := (resolvedOf h)(k := r)\<rparr>)"

lemma sync_body:
  fixes h :: "'g hostsched_scheme" and E :: "('g hostsched_ext) LiftInput"
  assumes E: "scalarExport E ps rs" "coreImplements E f" "list_all2 conforms (ftParams (li_ft E)) args"
    and th: "th_pc (threads h t) = PcStart" "th_task (threads h t) = k" "th_index (threads h t) = None"
    and ta: "ta_state (tasks h k) = TInitial" "ta_ft (tasks h k) = li_ft E" "ta_threads (tasks h k) = []" "ta_inst (tasks h k) = i"
    and tb: "tableAdd t (instThreads h i) = (Inr n, tb)" "tableRemove n tb = (Inr e, tb2)" "taskBorrows h k = 0"
  shows "\<exists>h'. liftStep (E\<lparr>li_task := k\<rparr>) (hostCaller args) t v h = (Inr Finished, h') \<and> calm k t i h h' \<and>
    resolvedOf h' k = Some (Some (f args)) \<and> ta_state (tasks h' k) = TResolved \<and> ta_threads (tasks h' k) = [] \<and>
    ta_inst (tasks h' k) = i \<and> instThreads h' i = tb2 \<and> th_task (threads h' t) = k"
proof -
  let ?E = "E\<lparr>li_task := k\<rparr>" and ?G = "hostCaller args :: 'g hostsched_scheme Caller"
  obtain xs raw M where
    lo: "\<And>h. lowerFlatValues (liftContext ?E) MAX_FLAT_PARAMS args (ftParams (li_ft E)) None h = (Inr xs, h)" and
    core: "\<And>g. li_core E xs g = (Inr (Returned raw), g\<lparr>mems := M g\<rparr>)" and
    res: "\<And>h. liftResults ?E (rawValues raw) h = (Inr (rawValues raw, f args), h)"
    using scalar_call [OF E, of k] by metis
  have sync: "\<not> ro_async (li_opts E)" "ro_postReturn (li_opts E) = None" "\<not> ftAsync (li_ft E)" using E(1) by (auto simp: scalarExport_def)
  define h1 where "h1 = updThread t (\<lambda>x. x\<lparr>th_pc := PcEnd\<rparr>) h"
  define h2 where "h2 = updThread t (\<lambda>x. x\<lparr>th_index := Some n\<rparr>)
    ((updTask k (\<lambda>x. x\<lparr>ta_implicit := Some t, ta_threads := [t]\<rparr>) h1)\<lparr>instThreads := (instThreads h1)(i := tb)\<rparr>)"
  have enter: "enterImplicitThread ?G k t h1 = (Inr (Now True), h2)"
    unfolding h2_def by (rule enter_sync) (use ta th tb sync in \<open>simp_all add: h1_def\<close>)
  define h3 where "h3 = updTask k (\<lambda>x. x\<lparr>ta_state := TStarted\<rparr>) h2"
  have start: "taskStart ?G k h2 = (Inr args, h3)"
    using ta(1) by (simp add: taskStart_def run_simps setTaskState_def h3_def hostCaller_def h2_def h1_def)
  obtain m where await: "awaitCore t (li_core E) xs h3 = (Inr (Now (rawValues raw)), h3\<lparr>mems := m\<rparr>)"
    using awaitCore_sync [of "li_core E" xs raw M t h3] core by blast
  define h4 where "h4 = h3\<lparr>mems := m\<rparr>"
  define h5 where "h5 = updTask k (\<lambda>x. x\<lparr>ta_state := TResolved\<rparr>) (h4\<lparr>resolvedOf := (resolvedOf h4)(k := Some (Some (f args)))\<rparr>)"
  have f4: "ta_state (tasks h4 k) = TStarted" "taskBorrows h4 k = 0" "tasks h5 k = (tasks h k)\<lparr>ta_implicit := Some t, ta_threads := [t], ta_state := TResolved\<rparr>"
    "threads h5 t = (threads h t)\<lparr>th_pc := PcEnd, th_index := Some n\<rparr>" "instThreads h5 i = tb" "taskBorrows h5 k = 0"
    using tb(3) by (simp_all add: h5_def h4_def h3_def h2_def h1_def updThread_def updTask_def)
  have ret: "taskReturn ?G k (f args) h4 = (Inr (), h5)"
    using f4(1,2) by (simp add: taskReturn_def run_simps setTaskState_def h5_def hostCaller_def)
  define h6 where "h6 = updThread t (\<lambda>x. x\<lparr>th_index := None\<rparr>)
     ((updTask k (\<lambda>x. x\<lparr>ta_threads := []\<rparr>) h5)\<lparr>instThreads := (instThreads h5)(i := tb2)\<rparr>)"
  have "exitImplicitThread k t h5 = (Inr (), h6)"
    unfolding h6_def by (rule exit_sync) (use f4 ta th tb sync in simp_all)
  moreover have pr: "runPostReturn ?E flat g = (Inr (), g)" for flat g
    using sync(2) by (simp add: runPostReturn_def requireFn_def run_simps)
  ultimately have fin: "syncDone ?E ?G t (rawValues raw) h4 = (Inr Finished, h6)"
    by (simp add: syncDone_def finishLift_def run_simps bindM_run_Inr [where m = "runPostReturn ?E _", OF pr]
        bindM_run_Inr [where m = "liftResults ?E (rawValues raw)", OF res] bindM_run_Inr [where m = "taskReturn ?G k (f args)", OF ret]
        bindM_run_Inr [where m = "exitImplicitThread k t"])
  have "liftEntered ?E ?G t True h2 = (Inr Finished, h6)"
    using sync fin await
    by (simp add: liftEntered_def bindM_run_Inr [where m = "taskStart ?G k", OF start]
        bindM_run_Inr [where m = "lowerFlatValues _ _ _ _ _", OF lo] bindM_run_Inr [where m = "awaitCore t (li_core E) xs", OF await] h4_def)
  then have run: "liftStep ?E ?G t v h = (Inr Finished, h6)"
    using th(1) enter
    by (simp add: liftStep_def run_simps setPc_def h1_def [symmetric] bindM_run_Inr [where m = "enterImplicitThread ?G k t", OF enter])
  have "calm k t i h h6"
    unfolding calm_def
    by (intro exI [of _ m] exI [of _ "threads h6 t"] exI [of _ "tasks h6 k"] exI [of _ tb2] exI [of _ "Some (Some (f args))"])
      (simp add: h6_def h5_def h4_def h3_def h2_def h1_def updThread_def updTask_def)
  moreover have "resolvedOf h6 k = Some (Some (f args))" "ta_state (tasks h6 k) = TResolved" "ta_threads (tasks h6 k) = []"
    "ta_inst (tasks h6 k) = i" "instThreads h6 i = tb2" "th_task (threads h6 t) = k"
    using ta(4) th(2) f4(3) by (simp_all add: h6_def f4 updThread_def updTask_def) (simp add: h5_def updTask_def)
  ultimately show ?thesis using run by blast
qed

section \<open>A call from the host\<close>

lemma resume_finished:
  assumes "th_state (threads h t) = ThSuspended"
    "code_body C t (SendFlag False) ((updThread t (\<lambda>x. x\<lparr>th_state := ThRunning\<rparr>) h)\<lparr>threadStack := threadStack h @ [t]\<rparr>) = (Inr Finished, g)"
    "threadStack g = threadStack h @ [t]"
  shows "threadResume C t False h = (Inr (), updThread t (\<lambda>x. x\<lparr>th_state := ThDone\<rparr>) (g\<lparr>threadStack := threadStack h\<rparr>))"
proof -
  have e: "(updThread t f h)\<lparr>threadStack := S\<rparr> = updThread t f (h\<lparr>threadStack := S\<rparr>)" for f S by (simp add: updThread_def)
  show ?thesis using assms
    by (simp add: threadResume_def resumeInternal_def run_simps pushCurrentThread_def popCurrentThread_def finallyM_def catchM_def
        topOf_def bindM_def liftR_def updThread_def)
qed

text \<open>A store with nothing to do: no thread waits, awaits or is owed a turn, and no host call has failed.\<close>

definition idleStore :: "nat \<Rightarrow> 'g sched_scheme \<Rightarrow> bool" where
  "idleStore s h \<longleftrightarrow> so_waiting (stores h s) = [] \<and> so_awaiting (stores h s) = [] \<and> so_settled (stores h s) = [] \<and>
     so_pendingResumptions (stores h s) = [] \<and> so_hostFailure (stores h s) = None"

lemma drive_idle:
  assumes "idleStore s h" "fin h"
  shows "drive C s fin what h = Some (Inr DriveDone, ensureSettlementPump s h)"
proof -
  have "tick C s h = (Inr False, h)"
    using assms(1) by (simp add: tick_def run_simps idleStore_def hasPendingResumptions_def hasServiceableSettled_def
        tickCandidates_def readyCandidates_def bindM_def Let_def)
  then have "drain C s h = Some (Inr (), h)"
    using assms(1) by (subst drain.simps) (simp add: idleStore_def)
  then show ?thesis using assms by (simp add: drive_def idleStore_def)
qed

lemma pump_fields [simp]:
  "mayEnter (ensureSettlementPump s h) = mayEnter h" "exclusiveThread (ensureSettlementPump s h) = exclusiveThread h"
  "instThreads (ensureSettlementPump s h) = instThreads h" "threadStack (ensureSettlementPump s h) = threadStack h"
  "entryStack (ensureSettlementPump s h) = entryStack h" "resolvedOf (ensureSettlementPump s h) = resolvedOf h"
  "stores (ensureSettlementPump s h) = stores h" "mayLeave (ensureSettlementPump s h) = mayLeave h"
  by (simp_all add: ensureSettlementPump_def)

lemma openCall_run:
  fixes E :: "'a LiftInput" and h :: "'g hostsched_scheme"
  obtains h' where "openCall E h = (Inr (nextId h, Suc (nextId h)), h')"
    "tasks h' = (tasks h)(nextId h := newTask (li_ft E) (taskOptionsOf E) (ro_instance (li_opts E)))"
    "threads h' = (threads h)(Suc (nextId h) := newThread (nextId h) PcStart)" "taskBorrows h' (nextId h) = 0"
    "stores h' = stores h" "instThreads h' = instThreads h" "mayEnter h' = mayEnter h" "instParent h' = instParent h"
    "threadStack h' = threadStack h" "entryStack h' = entryStack h" "exclusiveThread h' = exclusiveThread h" "instStore h' = instStore h"
    "mayLeave h' = mayLeave h"
  by (rule that [of "snd (openCall E h)"]) (simp_all add: openCall_def freshId_def run_simps bindM_def updTask_def updThread_def)

text \<open>
  What the theorem asks of the world around the call: the callee may be entered, its store has nothing else to do,
  and its thread table has room.
\<close>

definition readyHost :: "nat \<Rightarrow> 'g hostsched_scheme \<Rightarrow> bool" where
  "readyHost i h \<longleftrightarrow> mayEnterFrom i None h \<and> idleStore (storeOf h i) h \<and> table_inv (instThreads h i) \<and>
     (free (instThreads h i) \<noteq> [] \<or> length (arr (instThreads h i)) \<le> MAX_LENGTH)"

lemma call_returns:
  fixes h :: "'g hostsched_scheme" and E :: "('g hostsched_ext) LiftInput"
  assumes E: "scalarExport E ps rs" "coreImplements E f" "list_all2 conforms (ftParams (li_ft E)) args" "\<not> li_jspi E"
    and i: "i = ro_instance (li_opts E)" "readyHost i h"
  shows "\<exists>h'. callLifted C E False args h = Some (Inr (HostReturn (resultsToHost (f args))), h') \<and>
    mayEnter h' = mayEnter h \<and> mayLeave h' = mayLeave h \<and> stores h' = stores h \<and> exclusiveThread h' = exclusiveThread h \<and>
    threadStack h' = threadStack h \<and> entryStack h' = entryStack h \<and>
    (\<forall>j x. tableGet j (instThreads h' i) = Inr x \<longleftrightarrow> tableGet j (instThreads h i) = Inr x)"
proof -
  let ?es = "enteringSet h i None" and ?s = "storeOf h i"
  define k where "k = nextId h"
  define t where "t = Suc (nextId h)"
  note idle = i(2) [unfolded readyHost_def]
  define h0 where "h0 = gates ?es False (h\<lparr>trapPending := None\<rparr>)"
  have s0: "enteringSet (h\<lparr>trapPending := None\<rparr>) i None = ?es" "mayEnterFrom i None (h\<lparr>trapPending := None\<rparr>) = mayEnterFrom i None h"
    by (simp_all add: enteringSet_def selfAndAncestors_def mayEnterFrom_def)
  have "enterFrom i None (h\<lparr>trapPending := None\<rparr>) = (Inr (), h0)"
    using closeAll_run [OF distinct_entering [of h i None], of "h\<lparr>trapPending := None\<rparr>"] idle
    by (simp add: enterFrom_def run_simps s0 h0_def mayEnterFrom_def)
  then have enter: "enterCall E h = (Inr ?es, h0)"
    using idle by (simp add: enterCall_def run_simps s0 i(1) [symmetric] bindM_def [of "enterFrom i None"])
  have f0: "nextId h0 = nextId h" "tasks h0 = tasks h" "threads h0 = threads h" "stores h0 = stores h" "instThreads h0 = instThreads h"
    "instParent h0 = instParent h" "threadStack h0 = threadStack h" "entryStack h0 = entryStack h"
    "exclusiveThread h0 = exclusiveThread h" "instStore h0 = instStore h" "mayLeave h0 = mayLeave h"
    "mayEnter h0 = (\<lambda>x. if x \<in> set ?es then False else mayEnter h x)"
    by (simp_all add: h0_def gates_eq)
  have kt: "k = nextId h0" "t = Suc k" by (simp_all add: k_def t_def f0(1))
  obtain h1 where h1: "openCall E h0 = (Inr (k, t), h1)"
    "tasks h1 = (tasks h0)(k := newTask (li_ft E) (taskOptionsOf E) i)"
    "threads h1 = (threads h0)(t := newThread k PcStart)" "taskBorrows h1 k = 0"
    "stores h1 = stores h0" "instThreads h1 = instThreads h0" "mayEnter h1 = mayEnter h0" "instParent h1 = instParent h0"
    "threadStack h1 = threadStack h0" "entryStack h1 = entryStack h0" "exclusiveThread h1 = exclusiveThread h0" "instStore h1 = instStore h0"
    "mayLeave h1 = mayLeave h0"
    by (rule openCall_run [of E h0, folded kt i(1)])
  obtain n tb where add: "tableAdd t (instThreads h i) = (Inr n, tb)"
    using tableAdd_ok [of "instThreads h i" t] idle by blast
  have tb: "tableGet n tb = Inr t" using tableAdd_inv [OF _ add] idle by blast
  obtain tb2 where rm: "tableRemove n tb = (Inr t, tb2)" using tb by (simp add: tableRemove_def)
  have restored: "tableGet j tb2 = Inr x \<longleftrightarrow> tableGet j (instThreads h i) = Inr x" for j x
    using tableAdd_inv [OF _ add] tableRemove_inv [OF tableAdd_inv(1) [OF _ add] rm] idle by (cases "j = n") auto
  define g where "g = (updThread t (\<lambda>x. x\<lparr>th_state := ThRunning\<rparr>) h1)\<lparr>threadStack := threadStack h1 @ [t]\<rparr>"
  have "th_pc (threads g t) = PcStart" "th_task (threads g t) = k" "th_index (threads g t) = None"
    "ta_state (tasks g k) = TInitial" "ta_ft (tasks g k) = li_ft E" "ta_threads (tasks g k) = []" "ta_inst (tasks g k) = i"
    "tableAdd t (instThreads g i) = (Inr n, tb)" "taskBorrows g k = 0"
    using add h1 f0 by (simp_all add: g_def newThread_def newTask_def updThread_def)
  then obtain g' where g': "liftStep (E\<lparr>li_task := k\<rparr>) (hostCaller args) t (SendFlag False) g = (Inr Finished, g')" "calm k t i g g'"
    "resolvedOf g' k = Some (Some (f args))" "ta_state (tasks g' k) = TResolved" "ta_threads (tasks g' k) = []" "instThreads g' i = tb2"
    using sync_body [OF E(1-3), of g t k i n tb t tb2] rm by blast
  define C1 where "C1 = callCode C (E\<lparr>li_task := k\<rparr>) t args"
  have cf: "stores g' = stores h" "threadStack g' = threadStack h @ [t]" "entryStack g' = entryStack h" "exclusiveThread g' = exclusiveThread h"
    "mayLeave g' = mayLeave h" "mayEnter g' = mayEnter h0" "instParent g' = instParent h" "instStore g' = instStore h"
    using g'(2) h1 f0 by (auto simp: calm_def g_def updThread_def)
  define h2 where "h2 = updThread t (\<lambda>x. x\<lparr>th_state := ThDone\<rparr>) (g'\<lparr>threadStack := threadStack h1\<rparr>)"
  have "threadResume C1 t False h1 = (Inr (), h2)"
    unfolding h2_def by (rule resume_finished)
      (use g'(1) h1 f0 cf in \<open>simp_all add: C1_def callCode_def g_def newThread_def\<close>)
  moreover have f2: "stores h2 = stores h" "threadStack h2 = threadStack h" "entryStack h2 = entryStack h" "exclusiveThread h2 = exclusiveThread h"
    "mayLeave h2 = mayLeave h" "mayEnter h2 = mayEnter h0" "instParent h2 = instParent h" "instStore h2 = instStore h" "tasks h2 = tasks g'"
    "resolvedOf h2 = resolvedOf g'" "instThreads h2 = instThreads g'"
    using cf h1 f0 by (simp_all add: h2_def updThread_def)
  moreover have "driveSyncLift C1 k h2 = Some (Inr (), h2)"
    using g'(4) f2 by (subst driveSyncLift.simps) simp
  ultimately have seg: "firstSegment C1 (E\<lparr>li_task := k\<rparr>) False k t h1 = Some (Inr (), h2)"
    by (simp add: firstSegment_def)
  have "enteringSet h2 i None = ?es" using f2(7) by (simp add: enteringSet_def selfAndAncestors_def)
  then have "leaveTo i None h2 = (Inr (), gates ?es True h2)"
    using openAll_run [OF distinct_entering [of h i None], of h2] f2(6) f0(12) by (simp add: leaveTo_def run_simps list_all_iff)
  moreover define h3 where "h3 = gates ?es True h2"
  moreover have f3: "mayEnter h3 = mayEnter h" "stores h3 = stores h" "tasks h3 = tasks g'" "resolvedOf h3 = resolvedOf g'"
    "instThreads h3 = instThreads g'" "threadStack h3 = threadStack h" "entryStack h3 = entryStack h" "exclusiveThread h3 = exclusiveThread h"
    "mayLeave h3 = mayLeave h" "storeOf h3 i = ?s"
    using f2 f0(12) idle by (auto simp: h3_def gates_eq mayEnterFrom_def list_all_iff storeOf_def fun_eq_iff)
  moreover have "drive C1 ?s (callOver k ?s) what h3 = Some (Inr DriveDone, ensureSettlementPump ?s h3)" for what
    by (rule drive_idle) (use f3 g' idle in \<open>simp_all add: idleStore_def callOver_def\<close>)
  moreover have "finishHostEntry (E\<lparr>li_task := k\<rparr>) k (ensureSettlementPump ?s h3) =
      (Inr (HostReturn (resultsToHost (f args))), ensureSettlementPump ?s h3)"
    using g'(3) f3(4) by (simp add: finishHostEntry_def run_simps)
  ultimately have "afterSegment C1 (E\<lparr>li_task := k\<rparr>) ?es k h2 = Some (Inr (HostReturn (resultsToHost (f args))), ensureSettlementPump ?s h3)"
    by (simp add: afterSegment_def i(1) [symmetric] Let_def)
  then have "invokeNow C E False args h = Some (Inr (HostReturn (resultsToHost (f args))), ensureSettlementPump ?s h3)"
    using seg by (simp add: invokeNow_def bindM_def enter h1(1) run_simps C1_def [symmetric] Let_def)
  moreover have "length args = length (ftParams (li_ft E))" using E(3) by (simp add: list_all2_lengthD)
  ultimately have "callLifted C E False args h = Some (Inr (HostReturn (resultsToHost (f args))), ensureSettlementPump ?s h3)"
    using E(4) by (simp add: callLifted_def)
  then show ?thesis using f3 g'(6) restored by (intro exI [of _ "ensureSettlementPump ?s h3"]) simp
qed

section \<open>The callback loop\<close>

abbreviation loopBound :: error where
  "loopBound \<equiv> JsError ''callback loop bound''"

definition quiet :: "('s, 'a) sm \<Rightarrow> bool" where
  "quiet f \<longleftrightarrow> errs f (\<lambda>e. e \<noteq> loopBound)"

text \<open>
  The callback keeps its thread, does not take back a delivered cancellation, and does not throw the error that
  stands for the bound.
\<close>

definition callback_ok :: "'g LiftInput \<Rightarrow> nat \<Rightarrow> bool" where
  "callback_ok L t \<longleftrightarrow>
     (\<forall>f args g r g'. requireFn (ro_callback (li_opts L)) (li_name L @ '' callback'') = Inr (Some f) \<and> li_enter L f args g = (r, g') \<longrightarrow>
        r \<noteq> Inl (Thrown loopBound) \<and> th_task (threads g' t) = th_task (threads g t) \<and>
        (ta_state (tasks g (li_task L)) \<in> {TCancelDelivered, TResolved} \<longrightarrow> ta_state (tasks g' (li_task L)) \<in> {TCancelDelivered, TResolved}))"

definition pendingCancel :: "nat \<Rightarrow> 'g sched_scheme \<Rightarrow> bool" where
  "pendingCancel k h \<longleftrightarrow> ta_state (tasks h k) = TPendingCancel"

lemma waitUntil_run:
  "waitUntil t c True h =
     (if th_state (threads h t) \<noteq> ThRunning then (Inl (AssertionError ''waitUntil on a non-running thread''), h)
      else if pendingCancel (th_task (threads h t)) h
      then (Inr (Now True), updTask (th_task (threads h t)) (\<lambda>x. x\<lparr>ta_state := TCancelDelivered\<rparr>) h)
      else (Inr (Block \<lparr>br_ready = Some c, br_cancellable = True, br_await = None\<rparr>), h))"
  by (simp add: waitUntil_def run_simps deliverPendingCancel_def pendingCancel_def setTaskState_def)

text \<open>The head of the loop goes on without a \<open>yield\<close> only by delivering the pending cancellation.\<close>

definition goesOn :: "nat \<Rightarrow> nat \<Rightarrow> 'g sched_scheme \<Rightarrow> (EventTuple Await \<times> Pc) result \<times> 'g sched_scheme \<Rightarrow> bool" where
  "goesOn k t h r \<longleftrightarrow>
     (case r of
        (Inl e, h') \<Rightarrow> e \<noteq> loopBound
      | (Inr (Block _, _), h') \<Rightarrow> True
      | (Inr (Now _, _), h') \<Rightarrow> pendingCancel k h \<and> ta_state (tasks h' k) = TCancelDelivered \<and> th_task (threads h' t) = k)"

lemma updWset_fields [simp]:
  "tasks (updWset w f h) = tasks h" "threads (updWset w f h) = threads h"
  by (simp_all add: updWset_def)

lemma awaitEvent_goesOn:
  fixes h :: "'g sched_scheme"
  assumes "th_task (threads h t) = li_task L"
  shows "goesOn (li_task L) t h (awaitEvent L t code si h)"
proof -
  have w: "requireWset i si m g = (r, g') \<Longrightarrow> g' = g \<and> r \<noteq> Inl loopBound" for i m r and g g' :: "'g sched_scheme"
    by (auto simp: requireWset_def handlesGet_def bindM_def tableGet_def run_simps throwM_def returnM_def
        split: sum.splits Entry.splits if_splits option.splits)
  show ?thesis
  proof (cases code)
    case CbExit
    then show ?thesis by (auto simp: goesOn_def awaitEvent_def needsExclusive_def setExclusive_def run_simps)
  next
    case CbYield
    then show ?thesis using assms
      by (auto simp: goesOn_def awaitEvent_def needsExclusive_def run_simps setExclusive_def bindM_def [of "waitUntil _ _ _"]
          waitUntil_run pendingCancel_def)
  next
    case CbWait
    then show ?thesis using assms
      by (auto simp: goesOn_def awaitEvent_def needsExclusive_def run_simps setExclusive_def bindM_def [of "requireWset _ _ _"]
          waitForEventAnd_def addNumWaiting_def catchM_def finishWait_def finallyM_def liftR_def
          waitUntil_run pendingCancel_def bindM_def split: prod.splits sum.splits dest!: w)
  qed
qed

lemma withActivation_fields:
  assumes "withActivation t f h = (r, h')"
  obtains g g' r0 where "f g = (r0, g')" "tasks g = tasks h" "threads g = threads h" "tasks h' = tasks g'" "threads h' = threads g'"
    "r0 \<noteq> Inl loopBound \<Longrightarrow> r \<noteq> Inl loopBound"
proof -
  let ?g = "h\<lparr>threadStack := threadStack h @ [t], entryStack := entryStack h @ [t]\<rparr>"
  obtain r0 g' where f: "f ?g = (r0, g')" by (cases "f ?g")
  show thesis
    by (rule that [OF f])
      (use assms f in \<open>auto simp: withActivation_def finallyM_def run_simps liftR_def throwM_def split: if_splits\<close>)
qed

lemma deliverEvent_keeps:
  fixes h :: "'g sched_scheme"
  assumes "callback_ok L t" "th_task (threads h t) = li_task L" "ta_state (tasks h (li_task L)) \<in> {TCancelDelivered, TResolved}"
    "deliverEvent L t ev h = (r, h')"
  shows "r \<noteq> Inl loopBound \<and> th_task (threads h' t) = li_task L \<and> \<not> pendingCancel (li_task L) h'"
proof -
  let ?i = "ro_instance (li_opts L)"
  let ?h1 = "h\<lparr>exclusiveThread := (exclusiveThread h)(?i := ta_implicit (tasks h (li_task L)))\<rparr>"
  have still: "th_task (threads h t) = li_task L" "\<not> pendingCancel (li_task L) h" using assms(2,3) by (auto simp: pendingCancel_def)
  show ?thesis
  proof (cases "exclusiveThread h ?i = None")
    case False
    then show ?thesis using assms(4) still by (auto simp: deliverEvent_def run_simps)
  next
    case True
    note ex = this
    show ?thesis
    proof (cases "requireFn (ro_callback (li_opts L)) (li_name L @ '' callback'')")
      case (Inl e)
      then have "e \<noteq> loopBound" by (auto simp: requireFn_def split: option.splits)
      then show ?thesis using assms(4) still ex Inl by (auto simp: deliverEvent_def run_simps setExclusive_def pendingCancel_def)
    next
      case (Inr cb)
      show ?thesis
      proof (cases cb)
        case None
        then show ?thesis using assms(4) still ex Inr by (auto simp: deliverEvent_def run_simps setExclusive_def pendingCancel_def)
      next
        case (Some f)
        have d: "awaitCore t (li_enter L f) (eventLanes ev) ?h1 = (r, h')"
          using assms(4) ex Inr Some by (simp add: deliverEvent_def run_simps setExclusive_def)
        obtain rc hc where wa: "withActivation t (callCore (li_enter L f) (eventLanes ev)) ?h1 = (rc, hc)"
          by (cases "withActivation t (callCore (li_enter L f) (eventLanes ev)) ?h1")
        then have rc: "h' = hc \<and> (rc \<noteq> Inl loopBound \<longrightarrow> r \<noteq> Inl loopBound)"
          using d by (auto simp: awaitCore_def bindM_def returnM_def split: sum.splits CoreResult.splits)
        obtain g g' r0 where g: "callCore (li_enter L f) (eventLanes ev) g = (r0, g')" "tasks g = tasks ?h1" "threads g = threads ?h1"
          "tasks hc = tasks g'" "threads hc = threads g'" "r0 \<noteq> Inl loopBound \<Longrightarrow> rc \<noteq> Inl loopBound"
          using withActivation_fields [OF wa] by blast
        obtain q where q: "li_enter L f (eventLanes ev) g = (q, g')" "r0 = Inl loopBound \<longrightarrow> q = Inl (Thrown loopBound)"
          using g(1) by (auto simp: callCore_def mapCoreException_def split: prod.splits sum.splits CoreOut.splits CoreExn.splits)
        have "q \<noteq> Inl (Thrown loopBound)" "th_task (threads g' t) = th_task (threads g t)"
          "ta_state (tasks g (li_task L)) \<in> {TCancelDelivered, TResolved} \<longrightarrow> ta_state (tasks g' (li_task L)) \<in> {TCancelDelivered, TResolved}"
          using assms(1) Inr Some q(1) unfolding callback_ok_def by blast+
        then show ?thesis using rc g q(2) assms(2,3) by (auto simp: pendingCancel_def)
      qed
    qed
  qed
qed

lemma errs_liftR [throws]: "(\<And>e. r = Inl e \<Longrightarrow> T e) \<Longrightarrow> errs (liftR r) T"
  by (auto simp: errs_def liftR_def)

lemma finish_quiet:
  fixes h :: "'g sched_scheme"
  shows "fst (finishLift L t h) \<noteq> Inl loopBound"
proof -
  have "errs (onThreads i (tableRemove n) :: ('g sched_scheme, nat) sm) (\<lambda>e. e \<noteq> loopBound)" for i n
    by (auto simp: errs_def onThreads_def tableRemove_def tableGet_def split: sum.splits if_splits option.splits)
  then have "errs (finishLift L t :: ('g sched_scheme, Step) sm) (\<lambda>e. e \<noteq> loopBound)"
    unfolding finishLift_def exitImplicitThread_def unregisterThread_def setExclusive_def by (intro throws) simp_all
  then show ?thesis by (cases "finishLift L t h") (auto dest: errsD)
qed

lemma packed_quiet:
  "bindR (normalizeCoreValues vs lanes what) packedCode \<noteq> Inl loopBound"
proof -
  have "normalizeCoreValues vs lanes what = Inl e \<Longrightarrow> e \<noteq> loopBound" for e
  proof -
    have l: "normalizeLane what i ty v = Inl e \<Longrightarrow> e \<noteq> loopBound" for i ty v e
      by (auto simp: normalizeLane_def bindR_def assertR_def split: CoreType.splits JsVal.splits if_splits)
    have "mapR (\<lambda>i. normalizeLane what i (lanes ! i) (vs ! i)) is = Inl e \<Longrightarrow> e \<noteq> loopBound" for "is" e
      by (induction "is") (auto simp: bindR_def l split: sum.splits)
    then show "normalizeCoreValues vs lanes what = Inl e \<Longrightarrow> e \<noteq> loopBound"
      by (auto simp: normalizeCoreValues_def split: if_splits)
  qed
  moreover have "packedCode v = Inl e \<Longrightarrow> e \<noteq> loopBound" for v e
    by (auto simp: packedCode_def unpackCallbackResult_def bindR_def assertR_def trapIfR_def Let_def
        split: list.splits JsVal.splits if_splits sum.splits)
  ultimately show ?thesis by (auto simp: bindR_def split: sum.splits)
qed

lemma awaitEvent_cases:
  assumes "th_task (threads h t) = li_task L"
  obtains (fails) e h' where "awaitEvent L t code si h = (Inl e, h')" "e \<noteq> loopBound"
  | (blocks) req pc h' where "awaitEvent L t code si h = (Inr (Block req, pc), h')"
  | (cancels) ev pc h' where "awaitEvent L t code si h = (Inr (Now ev, pc), h')" "pendingCancel (li_task L) h"
      "ta_state (tasks h' (li_task L)) = TCancelDelivered" "th_task (threads h' t) = li_task L"
  using awaitEvent_goesOn [OF assms, of code si]
  by (cases "awaitEvent L t code si h") (auto simp: goesOn_def split: sum.splits Await.splits)

lemma loop_stops:
  assumes "th_task (threads h t) = li_task L" "\<not> pendingCancel (li_task L) h"
  shows "callbackLoop (Suc n) L t ci h = callbackLoop 1 L t ci h \<and> fst (callbackLoop (Suc n) L t ci h) \<noteq> Inl loopBound"
proof (cases "fst ci = CbExit")
  case True
  then show ?thesis using finish_quiet [of L t h] by simp
next
  case False
  from assms(1) show ?thesis
  proof (cases rule: awaitEvent_cases [of h t L "fst ci" "snd ci"])
    case (fails e h')
    then show ?thesis using False by (simp add: bindM_def)
  next
    case (blocks req pc h')
    then show ?thesis using False by (simp add: bindM_def yieldAt_def setPc_def run_simps modifyM_def returnM_def)
  next
    case (cancels ev pc h')
    then show ?thesis using assms(2) by simp
  qed
qed

lemma loop_twice:
  assumes "callback_ok L t" "th_task (threads h t) = li_task L"
  shows "callbackLoop (Suc (Suc n)) L t ci h = callbackLoop 2 L t ci h \<and> fst (callbackLoop (Suc (Suc n)) L t ci h) \<noteq> Inl loopBound"
proof (cases "fst ci = CbExit \<or> \<not> pendingCancel (li_task L) h")
  case True
  have "callbackLoop (Suc (Suc m)) L t ci h = callbackLoop 1 L t ci h \<and> fst (callbackLoop (Suc (Suc m)) L t ci h) \<noteq> Inl loopBound" for m
  proof (cases "fst ci = CbExit")
    case True
    then show ?thesis using finish_quiet [of L t h] by simp
  next
    case False
    with True have "\<not> pendingCancel (li_task L) h" by simp
    with assms(2) show ?thesis by (rule loop_stops)
  qed
  from this [of n] this [of 0] show ?thesis unfolding numeral_2_eq_2 by metis
next
  case False
  from assms(2) show ?thesis
  proof (cases rule: awaitEvent_cases [of h t L "fst ci" "snd ci"])
    case (fails e h')
    then show ?thesis using False by (simp add: bindM_def numeral_2_eq_2)
  next
    case (blocks req pc h')
    then show ?thesis using False by (simp add: bindM_def yieldAt_def setPc_def run_simps modifyM_def returnM_def numeral_2_eq_2)
  next
    case (cancels ev pc h')
    obtain r h2 where d: "deliverEvent L t ev h' = (r, h2)" by (cases "deliverEvent L t ev h'")
    have k: "r \<noteq> Inl loopBound" "th_task (threads h2 t) = li_task L" "\<not> pendingCancel (li_task L) h2"
      using deliverEvent_keeps [OF assms(1) cancels(4) _ d] cancels(3) by simp_all
    let ?next = "\<lambda>m. case r of Inl e \<Rightarrow> (Inl e, h2) | Inr a \<Rightarrow>
      (case a of Block req \<Rightarrow> yieldAt t PcCallback req
       | Now vs \<Rightarrow> bindM (liftR (bindR (normalizeCoreValues vs [I32] (li_name L @ '' callback result'')) packedCode)) (callbackLoop m L t)) h2"
    have step: "callbackLoop (Suc m) L t ci h = ?next m" for m
      using False d
      by (simp add: bindM_run_Inr [where m = "awaitEvent L t (fst ci) (snd ci)", OF cancels(1)] bindM_def [of "deliverEvent L t ev"] split: sum.splits)
    have "?next (Suc m) = ?next 1 \<and> fst (?next (Suc m)) \<noteq> Inl loopBound" for m
    proof (cases r)
      case (Inl e)
      then show ?thesis using k(1) by simp
    next
      case (Inr a)
      show ?thesis
      proof (cases a)
        case (Block req)
        then show ?thesis using Inr by (simp add: bindM_def yieldAt_def setPc_def modifyM_def returnM_def)
      next
        case (Now vs)
        show ?thesis
        proof (cases "bindR (normalizeCoreValues vs [I32] (li_name L @ '' callback result'')) packedCode")
          case (Inl e)
          then have "e \<noteq> loopBound" using packed_quiet by metis
          then show ?thesis using \<open>r = Inr a\<close> Now Inl by (simp add: run_simps)
        next
          case (Inr ci2)
          have "callbackLoop (Suc m) L t ci2 h2 = callbackLoop 1 L t ci2 h2" "fst (callbackLoop 1 L t ci2 h2) \<noteq> Inl loopBound"
            using loop_stops [OF k(2,3), of m ci2] by metis+
          then show ?thesis using \<open>r = Inr a\<close> Now Inr by (simp add: run_simps del: callbackLoop.simps)
        qed
      qed
    qed
    from this [of n] show ?thesis unfolding step numeral_2_eq_2 One_nat_def .
  qed
qed

section \<open>Properties\<close>

text \<open>C4: A synchronous call from the host of a scalar export refines the function its core implements.  Scalar means
  (\<open>scalarExport\<close>): synchronous options and a synchronous function type, parameters and results of well-formed types without
  strings, lists and handles that fit the flat lanes, and no post-return; the call is made in plain mode (no stack switching), on an
  instance that may be entered from the host and whose store is idle (\<open>readyHost\<close>).  When the core function returns, on the
  flat encodings of conforming arguments, the flat encodings of \<open>f\<close>'s results, changing nothing but memories on the way
  (\<open>coreImplements\<close>), the export called with these arguments returns \<open>f\<close> of them; and afterwards the gates of the
  instance, the exclusive thread, the ambient stacks, the store and the thread table are as they were.\<close>

theorem sync_call_refines:
  fixes h :: "'g hostsched_scheme" and E :: "('g hostsched_ext) LiftInput"
  assumes "scalarExport E ps rs" "coreImplements E f" "list_all2 conforms (ftParams (li_ft E)) args" "\<not> li_jspi E"
    "i = ro_instance (li_opts E)" "readyHost i h"
  shows "\<exists>h'. callLifted C E False args h = Some (Inr (HostReturn (resultsToHost (f args))), h') \<and>
    mayEnter h' = mayEnter h \<and> mayLeave h' = mayLeave h \<and> stores h' = stores h \<and> exclusiveThread h' = exclusiveThread h \<and>
    threadStack h' = threadStack h \<and> entryStack h' = entryStack h \<and>
    (\<forall>j x. tableGet j (instThreads h' i) = Inr x \<longleftrightarrow> tableGet j (instThreads h i) = Inr x)"
  by (rule call_returns [OF assms])

text \<open>An export of type \<open>(u32) -> u32\<close> whose core adds one.\<close>

definition succCore :: "'s CoreFn" where
  "succCore xs h = (Inr (Returned (case xs of [VNum n] \<Rightarrow> RawValue (VNum ((n + 1) mod 2 ^ 32)) | _ \<Rightarrow> RawUndefined)), h)"

definition succExport :: "'g LiftInput" where
  "succExport =
     \<lparr>li_name = ''succ'', li_ft = \<lparr>ftParams = [TPrim KU32], ftResults = [TPrim KU32], ftAsync = False\<rparr>,
      li_opts = \<lparr>ro_stringEncoding = Utf8, ro_memory = Some \<lparr>memId = 0, addrType = I32, mBase = 0\<rparr>, ro_realloc = None,
        ro_postReturn = None, ro_callback = None, ro_async = False, ro_cancellable = False,
        ro_coreType = \<lparr>cparams = [I32], cresults = [I32]\<rparr>, ro_instance = 1\<rparr>,
      li_core = succCore, li_enter = (\<lambda>f. f), li_task = 0, li_jspi = False, li_littleEndian = True\<rparr>"

definition emptyHost :: hostsched where
  "emptyHost = sched.extend emptySched (hostsched.fields (\<lambda>_. None) (\<lambda>_. []) [] (\<lambda>_. []) [] 0 0 [1] None [] [] (\<lambda>_. CoreIter [] 0) (\<lambda>_. None))"

lemma succ_lower: "inRange 0 (2 ^ 32) v \<Longrightarrow> lowerEach cx [v] [TPrim KU32] h = (Inr [v], h)"
  by (cases v) (auto simp: lowerFlat.simps lowerFlatPrim_def run_simps inRange_def bindM_def returnM_def)

lemma succ_ok: "coreImplements (succExport :: 'g LiftInput) (map (\<lambda>v. case v of VNum n \<Rightarrow> VNum ((n + 1) mod 2 ^ 32) | _ \<Rightarrow> v))"
  unfolding coreImplements_def
proof (intro allI impI)
  fix k args xs and h :: "'g sched_scheme"
  assume a: "list_all2 conforms (ftParams (li_ft (succExport :: 'g LiftInput))) args \<and>
    lowerEach (liftContext (succExport\<lparr>li_task := k\<rparr>)) args (ftParams (li_ft (succExport :: 'g LiftInput))) h = (Inr xs, h)"
  then obtain v where v: "args = [v]" "conforms (TPrim KU32) v" by (auto simp: succExport_def list_all2_Cons1)
  then obtain n where n: "args = [VNum n]" "0 \<le> n" "n < 2 ^ 32" by (cases v) (simp_all add: conforms.simps inRange_def)
  have r: "inRange 0 (2 ^ 32) (VNum n)" "inRange 0 (2 ^ 32) (VNum ((n + 1) mod 2 ^ 32))" using n by (simp_all add: inRange_def)
  have "lowerEach (liftContext (succExport\<lparr>li_task := k\<rparr>)) args [TPrim KU32] h = (Inr [VNum n], h)"
    unfolding n(1) by (rule succ_lower [OF r(1)])
  then have xs: "xs = [VNum n]" using a by (simp add: succExport_def del: lowerEach.simps)
  have ft: "ftResults (li_ft (succExport :: 'g LiftInput)) = [TPrim KU32]" by (simp add: succExport_def)
  let ?args = "map (\<lambda>v. case v of VNum n \<Rightarrow> VNum ((n + 1) mod 2 ^ 32) | _ \<Rightarrow> v) args"
  have "list_all2 conforms (ftResults (li_ft (succExport :: 'g LiftInput))) ?args"
    using r(2) n(1) by (simp add: succExport_def conforms.simps)
  moreover have "\<forall>g. li_core succExport xs g = (Inr (Returned (RawValue (VNum ((n + 1) mod 2 ^ 32)))), g\<lparr>mems := mems g\<rparr>)"
    by (simp add: xs succExport_def succCore_def)
  moreover have "lowerEach (liftContext (succExport\<lparr>li_task := k\<rparr>)) ?args (ftResults (li_ft (succExport :: 'g LiftInput))) h =
      (Inr (rawValues (RawValue (VNum ((n + 1) mod 2 ^ 32)))), h)"
    unfolding n(1) ft list.map JsVal.case rawValues_def CoreRaw.case by (rule succ_lower [OF r(2)])
  ultimately show "list_all2 conforms (ftResults (li_ft (succExport :: 'g LiftInput))) ?args \<and>
      (\<exists>raw M. (\<forall>g. li_core succExport xs g = (Inr (Returned raw), g\<lparr>mems := M g\<rparr>)) \<and>
        lowerEach (liftContext (succExport\<lparr>li_task := k\<rparr>)) ?args (ftResults (li_ft (succExport :: 'g LiftInput))) h = (Inr (rawValues raw), h))"
    by blast
qed

theorem sync_call_refines_witness:
  "\<exists>h'. callLifted quietCode succExport False [VNum 4294967295] emptyHost = Some (Inr (HostReturn (VNum 0)), h')"
proof -
  have "scalarExport (succExport :: unit hostsched_ext LiftInput) [I32] [I32]"
    by (simp add: scalarExport_def succExport_def wf_type.simps plain.simps flattenType.simps cabiOptions_def LiftLowerOptions.defs
        MAX_FLAT_PARAMS_def MAX_FLAT_RESULTS_def createLiftedFunction_def flattenFunctype_def coreFuncTypeEquals_def bindR_def)
  moreover have "readyHost 1 emptyHost"
  proof -
    have "mayEnterFrom 1 None emptyHost" "idleStore (storeOf emptyHost 1) emptyHost" by code_simp+
    moreover have "instThreads emptyHost 1 = emptyTable" by code_simp
    ultimately show ?thesis by (simp add: readyHost_def) (simp add: emptyTable_def MAX_LENGTH_def table_inv_empty [unfolded emptyTable_def])
  qed
  ultimately show ?thesis
    using sync_call_refines [OF _ succ_ok, of "[I32]" "[I32]" "[VNum 4294967295]" 1 emptyHost quietCode]
    by (auto simp: succExport_def conforms.simps inRange_def resultsToHost_def)
qed

text \<open>C19: The callback loop does not run on without a \<open>yield\<close>: an iteration that does not block has delivered the task's pending
  cancellation, which the task has only once, so two iterations always reach a block, an exit or an exception, and any larger
  bound gives the same result.\<close>

theorem callback_loop_ends:
  assumes "callback_ok L t" "th_task (threads h t) = li_task L" "n \<ge> callbackFuel"
  shows "callbackLoop n L t ci h = callbackLoop callbackFuel L t ci h \<and>
    fst (callbackLoop callbackFuel L t ci h) \<noteq> Inl (JsError ''callback loop bound'')"
proof -
  obtain m where n: "n = Suc (Suc m)" using assms(3) by (auto simp: callbackFuel_def numeral_2_eq_2 dest!: le_Suc_ex)
  show ?thesis unfolding n callbackFuel_def using loop_twice [OF assms(1,2), of m ci] by metis
qed

text \<open>An asynchronous export whose callback exits, and its task with a cancellation pending.\<close>

definition exitCallback :: "'s CoreFn" where
  "exitCallback xs h = (Inr (Returned (RawValue (VNum 0))), h)"

definition loopExport :: "'g LiftInput" where
  "loopExport = succExport\<lparr>li_opts := (li_opts succExport)\<lparr>ro_async := True, ro_callback := Some (Some exitCallback)\<rparr>\<rparr>"

definition cancelledHost :: hostsched where
  "cancelledHost =
     updThread 1 (\<lambda>x. x\<lparr>th_state := ThRunning\<rparr>)
       ((updTask 0 (\<lambda>_. (newTask asyncFt callbackOptions 1)\<lparr>ta_state := TPendingCancel, ta_implicit := Some 1\<rparr>) emptyHost)
          \<lparr>exclusiveThread := (\<lambda>_. None)(1 := Some 1)\<rparr>)"

theorem callback_loop_ends_witness:
  "pendingCancel 0 cancelledHost \<and>
   callbackLoop 5 loopExport 1 (CbYield, 0) cancelledHost = callbackLoop callbackFuel loopExport 1 (CbYield, 0) cancelledHost"
proof -
  have "callback_ok (loopExport :: unit hostsched_ext LiftInput) 1"
    by (auto simp: callback_ok_def loopExport_def succExport_def requireFn_def exitCallback_def)
  moreover have "th_task (threads cancelledHost 1) = li_task (loopExport :: unit hostsched_ext LiftInput)"
  proof -
    have "th_task (threads cancelledHost 1) = 0" by code_simp
    then show ?thesis by (simp add: loopExport_def succExport_def)
  qed
  moreover have "pendingCancel 0 cancelledHost"
    by (simp add: cancelledHost_def pendingCancel_def)
  moreover have "callbackFuel \<le> 5" by (simp add: callbackFuel_def)
  ultimately show ?thesis using callback_loop_ends [of loopExport 1 cancelledHost 5 "(CbYield, 0)"] by blast
qed

end
