(* ===== verification/LowerProps.thy ===== *)
theory LowerProps
  imports LowerCall CallProps
begin

text \<open>
  What a call of a host import promises: its subtask is delivered and its lenders released on every way out that leaves the
  caller alive, and a synchronous import of a plain type computes its host function on flat encodings.
\<close>

section \<open>Release of the lenders\<close>

abbreviation released :: "nat \<Rightarrow> 'g heap_scheme \<Rightarrow> bool" where
  "released s h \<equiv> lenders (subtasks h s) = None"

lemma released_deliver: "valid (\<lambda>_. True) (deliverResolve s) (\<lambda>_ h. released s h)"
proof (rule validI)
  fix h r h' assume d: "deliverResolve s h = (Inr r, h')"
  then obtain ls where "lenders (subtasks h s) = Some ls" "resolved (subtasks h s)" by (auto elim: deliverResolve_Inr)
  then show "released s h'" using d by (auto simp: deliverResolve_run updSubtask_def)
qed

lemma released_unwind:
  assumes "lenders (subtasks h s) \<noteq> None"
  obtains h' where "unwindLenders s h = (Inr (), h')" "released s h'"
proof -
  obtain ls where "lenders (subtasks h s) = Some ls" using assms by blast
  then show thesis by (rule unwindLenders_run) (use that in blast)
qed

lemma released_sync: "valid (\<lambda>_. True) (deliverSync W s) (\<lambda>_ h. released s h)"
  unfolding deliverSync_def by (rule valid_bind [OF released_deliver]) (intro hoare; simp)+

lemma released_answer:
  "\<not> ro_async (lw_opts W) \<Longrightarrow> valid (\<lambda>_. True) (answerLower W s) (\<lambda>_ h. released s h)"
  unfolding answerLower_def needsJspi_def by (intro hoare valid_pre [OF released_sync]) simp_all

lemma valid_trivial: "valid P f (\<lambda>_ _. True)"
  by (simp add: valid_def)

lemma released_call:
  assumes "\<not> ro_async (lw_opts W)"
  shows "valid (\<lambda>h. nextId h = s) (createLoweredImport W raw) (\<lambda>r h. \<forall>x. r = BReturn x \<longrightarrow> released s h)"
proof -
  have o1: "valid (\<lambda>h. nextId h = s) (openLower W raw) (\<lambda>r _. r = s)"
    by (auto simp: valid_def openLower_def bindM_eq_Inr freshId_def getsM_def modifyM_def returnM_def trapIfM_def liftR_def)
  have tail: "valid (\<lambda>_. True) (bindM (answerLower W s) (\<lambda>x. returnM (BReturn x))) (\<lambda>r h. \<forall>x. r = BReturn x \<longrightarrow> released s h)"
    by (rule valid_bind [OF released_answer [OF assms]]) (rule valid_return, simp)
  have park: "valid (\<lambda>_. True) (parkLower W s p) (\<lambda>r h. \<forall>x. r = BReturn x \<longrightarrow> released s h)" for p
    unfolding parkLower_def needsJspi_def
    by (auto simp: valid_def bindM_eq_Inr run_simps split: if_splits)
  show ?thesis
    unfolding createLoweredImport_def
  proof (rule valid_bind [OF o1])
    fix s'
    show "valid (\<lambda>_. s' = s) (bindM (onStartLower W s') (\<lambda>args. bindM (lw_host W args) (\<lambda>ret. case ret of
         HostValue v \<Rightarrow> bindM (onResolveLower W s' (Some (toResults W v))) (\<lambda>_. bindM (answerLower W s') (\<lambda>x. returnM (BReturn x)))
       | HostPromise p \<Rightarrow> if \<not> ro_async (lw_opts W) then parkLower W s' p
           else bindM (getsM (\<lambda>h. storeOf h (lw_inst W))) (\<lambda>st. bindM (modifyM (addHostCall st p)) (\<lambda>_.
             bindM (answerLower W s') (\<lambda>x. returnM (BReturn x))))))) (\<lambda>r h. \<forall>x. r = BReturn x \<longrightarrow> released s h)"
    proof (cases "s' = s")
      case True
      have "valid (\<lambda>_. True) (case ret of
         HostValue v \<Rightarrow> bindM (onResolveLower W s (Some (toResults W v))) (\<lambda>_. bindM (answerLower W s) (\<lambda>x. returnM (BReturn x)))
       | HostPromise p \<Rightarrow> if \<not> ro_async (lw_opts W) then parkLower W s p
           else bindM (getsM (\<lambda>h. storeOf h (lw_inst W))) (\<lambda>st. bindM (modifyM (addHostCall st p)) (\<lambda>_.
             bindM (answerLower W s) (\<lambda>x. returnM (BReturn x))))) (\<lambda>r h. \<forall>x. r = BReturn x \<longrightarrow> released s h)" for ret
      proof (cases ret)
        case (HostValue v)
        show ?thesis unfolding HostValue HostRet.case by (rule valid_bind [OF valid_trivial], rule tail)
      next
        case (HostPromise p)
        show ?thesis unfolding HostPromise HostRet.case if_P [OF assms] by (rule park)
      qed
      then show ?thesis unfolding True by (intro valid_bind [OF valid_trivial])
    qed (simp add: valid_def)
  qed
qed

section \<open>A synchronous call of plain types\<close>

definition scalarImport :: "'g LowerInput \<Rightarrow> CoreType list \<Rightarrow> CoreType list \<Rightarrow> bool" where
  "scalarImport W ps rs \<longleftrightarrow>
     \<not> ro_async (lw_opts W) \<and> ro_memory (lw_opts W) \<noteq> None \<and>
     (\<forall>t \<in> set (ftParams (lw_ft W) @ ftResults (lw_ft W)). wf_type t \<and> plain t) \<and>
     flattenTypes (ftParams (lw_ft W)) (LiftLowerOptions.truncate (cabiOptions (lw_opts W))) = Inr ps \<and> length ps \<le> MAX_FLAT_PARAMS \<and>
     flattenTypes (ftResults (lw_ft W)) (LiftLowerOptions.truncate (cabiOptions (lw_opts W))) = Inr rs \<and> length rs \<le> MAX_FLAT_RESULTS \<and>
     lowerCheck W = Inr ()"

text \<open>A host function that returns \<open>f\<close> of its arguments and leaves the bookkeeping of calls alone.\<close>

definition hostImplements :: "('g hostsched_ext) LowerInput \<Rightarrow> (JsVal list \<Rightarrow> JsVal) \<Rightarrow> bool" where
  "hostImplements W f \<longleftrightarrow>
     (\<forall>args h. list_all2 conforms (ftParams (lw_ft W)) args \<longrightarrow>
        list_all2 conforms (ftResults (lw_ft W)) (toResults W (f args)) \<and>
        (\<exists>h'. lw_host W args h = (Inr (HostValue (f args)), h') \<and> subtasks h' = subtasks h \<and> lowerIter h' = lowerIter h \<and>
          lowerHandle h' = lowerHandle h \<and> resources h' = resources h))"

lemma scalar_params: "scalarImport W ps rs \<Longrightarrow> cparams (ro_coreType (lw_opts W)) = ps"
proof -
  assume e: "scalarImport W ps rs"
  let ?op = "cabiOptions (lw_opts W)"
  have t: "flattenTypes ts (LiftLowerOptions.truncate ?op) = flattenTypes ts ?op" for ts
    by (rule flattenTypes_memory) (simp add: LiftLowerOptions.truncate_def)
  have "flattenFunctype ?op (lw_ft W) LowerContext = Inr \<lparr>cparams = ps, cresults = rs\<rparr>"
    using e by (simp add: scalarImport_def t flattenFunctype_def bindR_def) (simp add: cabiOptions_def)
  then have "coreFuncTypeEquals \<lparr>cparams = ps, cresults = rs\<rparr> (ro_coreType (lw_opts W))"
    using e by (auto simp: scalarImport_def lowerCheck_def bindR_def split: if_splits)
  then show ?thesis by (auto simp: coreFuncTypeEquals_def list_all_iff intro!: nth_equalityI)
qed

lemma lower_call:
  fixes h :: "'g hostsched_scheme" and W :: "('g hostsched_ext) LowerInput"
  assumes W: "scalarImport W ps rs" "hostImplements W f" "list_all2 conforms (ftParams (lw_ft W)) args"
    and h: "mayLeave h (lw_inst W)" "s = nextId h"
    and xs: "\<And>g :: 'g hostsched_scheme. lowerEach (lowerContext W s) args (ftParams (lw_ft W)) g = (Inr xs, g)"
  shows "\<exists>ys h'. (\<forall>g :: 'g hostsched_scheme. lowerEach (lowerContext W s) (toResults W (f args)) (ftResults (lw_ft W)) g = (Inr ys, g)) \<and>
    createLoweredImport W xs h = (Inr (BReturn (flatReturn ys)), h') \<and>
    st_state (subtasks h' s) = RETURNED \<and> released s h' \<and> resources h' = resources h"
proof -
  let ?cx = "lowerContext W s"
  have o: "opts ?cx = LiftLowerOptions.truncate (cabiOptions (lw_opts W))" by (simp add: lowerContext_def liftLowerContext_def)
  obtain mem where m: "memory (opts ?cx) = Some mem" using W(1) by (auto simp: o memory_truncate scalarImport_def)
  have ty: "\<forall>t \<in> set (ftParams (lw_ft W)). wf_type t \<and> plain t" "\<forall>t \<in> set (ftResults (lw_ft W)). wf_type t \<and> plain t"
    "flattenTypes (ftParams (lw_ft W)) (opts ?cx) = Inr ps" "length ps \<le> MAX_FLAT_PARAMS"
    "flattenTypes (ftResults (lw_ft W)) (opts ?cx) = Inr rs" "length rs \<le> MAX_FLAT_RESULTS" "\<not> ro_async (lw_opts W)"
    using W(1) by (auto simp: scalarImport_def o)
  obtain xs' where x': "\<And>g. lowerEach ?cx args (ftParams (lw_ft W)) g = (Inr xs', g)" "list_all2 laneOk ps xs'"
    "\<And>g. liftFlatValues ?cx MAX_FLAT_PARAMS (CoreIter xs' 0) (ftParams (lw_ft W)) g = (Inr (args, CoreIter xs' (length xs')), g)"
    by (rule lower_list_lift [OF W(3) ty(1) m ty(3,4)]) blast
  have "xs' = xs" using x'(1) [of h] xs [of h] by simp
  note x = x' [unfolded this]
  let ?rs = "toResults W (f args)"
  have cf: "list_all2 conforms (ftResults (lw_ft W)) ?rs" using W(2,3) by (simp add: hostImplements_def)
  obtain ys where y: "\<And>g. lowerEach ?cx ?rs (ftResults (lw_ft W)) g = (Inr ys, g)"
    by (rule lower_list_lift [OF cf ty(2) m ty(5,6)]) blast
  have low: "lowerFlatValues ?cx MAX_FLAT_RESULTS ?rs (ftResults (lw_ft W)) (Some vi) g = (Inr ys, g)" for vi and g :: "'g hostsched_scheme"
    using ty(5,6) y by (simp add: lowerFlatValues_def run_simps)
  have spill: "spillIter ?cx MAX_FLAT_RESULTS (ftResults (lw_ft W)) vi = vi" for vi
    using ty(5,6) by (simp add: spillIter_def)
  have mx: "maxFlatParams W = MAX_FLAT_PARAMS" "maxFlatResults W = MAX_FLAT_RESULTS"
    using ty(7) by (simp_all add: maxFlatParams_def maxFlatResults_def)
  obtain h1 where h1: "openLower W xs h = (Inr s, h1)" "subtasks h1 s = newSubtask" "lowerIter h1 s = CoreIter xs 0" "lowerHandle h1 s = None"
    "resources h1 = resources h"
    using h normalizeCoreValues_ok [OF x(2)] scalar_params [OF W(1)]
    by (simp add: openLower_def run_simps freshId_def bindM_def [of freshId])
  obtain h2 where h2: "onStartLower W s h1 = (Inr args, h2)" "subtasks h2 s = newSubtask\<lparr>st_state := STARTED\<rparr>"
    "lowerIter h2 s = CoreIter xs (length xs)" "lowerHandle h2 s = None" "resources h2 = resources h"
    using h1 x(3)
    by (simp add: onStartLower_def lowerProgress_def run_simps newSubtask_def mx bindM_def [of "liftFlatValues _ _ _ _"] updSubtask_def)
  obtain h3 where h3: "lw_host W args h2 = (Inr (HostValue (f args)), h3)" "subtasks h3 = subtasks h2" "lowerIter h3 = lowerIter h2"
    "lowerHandle h3 = lowerHandle h2" "resources h3 = resources h2"
    using W(2,3) unfolding hostImplements_def by blast
  obtain h4 where h4: "onResolveLower W s (Some ?rs) h3 = (Inr (), h4)"
    "subtasks h4 s = newSubtask\<lparr>st_state := RETURNED, flatResults := ys\<rparr>" "lowerIter h4 s = CoreIter xs (length xs)" "resources h4 = resources h"
    using h2 h3 low
    by (simp add: onResolveLower_def lowerProgress_def run_simps newSubtask_def mx bindM_def [of "lowerFlatValues _ _ _ _ _"]
        spill updSubtask_def resolve_def resolved_def)
  define h5 where "h5 = updSubtask s (\<lambda>y. y\<lparr>lenders := None\<rparr>) h4"
  have del: "deliverResolve s h4 = (Inr (), h5)"
    using deliverResolve_run [of h4 s "[]"] h4(2) by (simp add: newSubtask_def resolved_def h5_def)
  have h5: "lowerIter h5 s = CoreIter xs (length xs)" "flatResults (subtasks h5 s) = ys" "st_state (subtasks h5 s) = RETURNED"
    "released s h5" "resources h5 = resources h"
    using h4 by (simp_all add: h5_def updSubtask_def)
  have "answerLower W s h4 = (Inr (flatReturn ys), h5)"
    using h4(2) h5 ty(7)
    by (simp add: answerLower_def run_simps resolved_def deliverSync_def bindM_run_Inr [where m = "deliverResolve s", OF del] iterDone_def)
  then have "createLoweredImport W xs h = (Inr (BReturn (flatReturn ys)), h5)"
    by (simp add: createLoweredImport_def bindM_run_Inr [where m = "openLower W xs", OF h1(1)]
        bindM_run_Inr [where m = "onStartLower W s", OF h2(1)] bindM_run_Inr [where m = "lw_host W args", OF h3(1)]
        bindM_run_Inr [where m = "onResolveLower W s (Some ?rs)", OF h4(1)] bindM_def [of "answerLower W s"] returnM_def)
  then show ?thesis using h5 y by blast
qed

section \<open>Properties\<close>

text \<open>C9: A synchronous scalar import refines its host function.  Scalar means (\<open>scalarImport\<close>): synchronous options, parameters
  and results of well-formed types without strings, lists and handles that fit the flat lanes; and the host function
  (\<open>hostImplements\<close>) returns, on conforming arguments, the conforming value \<open>f\<close> of them at once, leaving subtasks, handles and
  the conversion hooks alone.  Then the import called with the flat encoding of conforming arguments, by an instance that may leave,
  returns the flat encoding of that value, and its subtask is resolved, RETURNED, and delivered.\<close>

theorem lower_call_refines:
  fixes h :: "'g hostsched_scheme" and W :: "('g hostsched_ext) LowerInput"
  assumes "scalarImport W ps rs" "hostImplements W f" "list_all2 conforms (ftParams (lw_ft W)) args"
    "mayLeave h (lw_inst W)" "s = nextId h"
    "\<And>g :: 'g hostsched_scheme. lowerEach (lowerContext W s) args (ftParams (lw_ft W)) g = (Inr xs, g)"
  shows "\<exists>ys h'. (\<forall>g :: 'g hostsched_scheme. lowerEach (lowerContext W s) (toResults W (f args)) (ftResults (lw_ft W)) g = (Inr ys, g)) \<and>
    createLoweredImport W xs h = (Inr (BReturn (flatReturn ys)), h') \<and>
    st_state (subtasks h' s) = RETURNED \<and> lenders (subtasks h' s) = None \<and> resources h' = resources h"
  by (rule lower_call [OF assms])

text \<open>An import of type \<open>(u32) -> u32\<close> whose host function adds one.\<close>

definition succHost :: "JsVal list \<Rightarrow> JsVal" where
  "succHost args = (case args of [VNum n] \<Rightarrow> VNum ((n + 1) mod 2 ^ 32) | _ \<Rightarrow> VUndef)"

definition succImport :: "'g LowerInput" where
  "succImport =
     \<lparr>lw_index = 0, lw_name = ''succ'', lw_ft = \<lparr>ftParams = [TPrim KU32], ftResults = [TPrim KU32], ftAsync = False\<rparr>,
      lw_opts = \<lparr>ro_stringEncoding = Utf8, ro_memory = Some \<lparr>memId = 0, addrType = I32, mBase = 0\<rparr>, ro_realloc = None,
        ro_postReturn = None, ro_callback = None, ro_async = False, ro_cancellable = False,
        ro_coreType = \<lparr>cparams = [I32], cresults = [I32]\<rparr>, ro_instance = 1\<rparr>,
      lw_host = (\<lambda>args h. (Inr (HostValue (succHost args)), h)), lw_jspi = False, lw_suspendable = False, lw_littleEndian = True\<rparr>"

lemma succ_host: "hostImplements succImport succHost"
  unfolding hostImplements_def
proof (intro allI impI)
  fix args and h :: "'g hostsched_scheme"
  assume "list_all2 conforms (ftParams (lw_ft (succImport :: ('g hostsched_ext) LowerInput))) args"
  then obtain v where v: "args = [v]" "conforms (TPrim KU32) v" by (auto simp: succImport_def list_all2_Cons1)
  then obtain n where n: "args = [VNum n]" by (cases v) (simp_all add: conforms.simps inRange_def)
  show "list_all2 conforms (ftResults (lw_ft (succImport :: ('g hostsched_ext) LowerInput))) (toResults (succImport :: ('g hostsched_ext) LowerInput) (succHost args)) \<and>
      (\<exists>h'. lw_host succImport args h = (Inr (HostValue (succHost args)), h') \<and> subtasks h' = subtasks h \<and> lowerIter h' = lowerIter h \<and>
        lowerHandle h' = lowerHandle h \<and> resources h' = resources h)"
    using n by (simp add: succImport_def succHost_def toResults_def conforms.simps inRange_def)
qed

theorem lower_call_refines_witness:
  "\<exists>h'. createLoweredImport succImport [VNum 4294967295] emptyHost = (Inr (BReturn (VNum 0)), h')"
proof -
  have s: "scalarImport (succImport :: unit hostsched_ext LowerInput) [I32] [I32]"
    by (simp add: scalarImport_def succImport_def wf_type.simps plain.simps flattenType.simps cabiOptions_def LiftLowerOptions.defs
        MAX_FLAT_PARAMS_def MAX_FLAT_RESULTS_def lowerCheck_def flattenFunctype_def coreFuncTypeEquals_def bindR_def)
  have c: "list_all2 conforms (ftParams (lw_ft (succImport :: unit hostsched_ext LowerInput))) [VNum 4294967295]"
    by (simp add: succImport_def conforms.simps inRange_def)
  have l: "mayLeave emptyHost (lw_inst (succImport :: unit hostsched_ext LowerInput))" by code_simp
  have ft: "ftParams (lw_ft (succImport :: unit hostsched_ext LowerInput)) = [TPrim KU32]"
    "ftResults (lw_ft (succImport :: unit hostsched_ext LowerInput)) = [TPrim KU32]" by (simp_all add: succImport_def)
  have r: "inRange 0 (2 ^ 32) (VNum 4294967295)" "inRange 0 (2 ^ 32) (VNum 0)" by (simp_all add: inRange_def)
  have e: "lowerEach cx [VNum 4294967295] (ftParams (lw_ft (succImport :: unit hostsched_ext LowerInput))) g = (Inr [VNum 4294967295], g)"
    for cx and g :: hostsched unfolding ft by (rule succ_lower [OF r(1)])
  obtain ys h' where "\<forall>g :: hostsched. lowerEach (lowerContext succImport (nextId emptyHost)) (toResults (succImport :: unit hostsched_ext LowerInput) (succHost [VNum 4294967295]))
      (ftResults (lw_ft (succImport :: unit hostsched_ext LowerInput))) g = (Inr ys, g)"
    "createLoweredImport succImport [VNum 4294967295] emptyHost = (Inr (BReturn (flatReturn ys)), h')"
    using lower_call_refines [OF s succ_host c l refl, of "[VNum 4294967295]"] e by blast
  moreover have "toResults (succImport :: unit hostsched_ext LowerInput) (succHost [VNum 4294967295]) = [VNum 0]"
    by (simp add: toResults_def ft succHost_def)
  moreover have "lowerEach (lowerContext succImport (nextId emptyHost)) [VNum 0] [TPrim KU32] emptyHost = (Inr [VNum 0], emptyHost)"
    by (rule succ_lower [OF r(2)])
  ultimately have "(Inr ys, emptyHost) = (Inr [VNum 0] :: JsVal list result, emptyHost)" unfolding ft by metis
  then have "ys = [VNum 0]" by simp
  then show ?thesis using \<open>createLoweredImport _ _ _ = _\<close> by (simp add: flatReturn_def)
qed



end
