(* ===== verification/LoadTyped.thy ===== *)
theory LoadTyped
  imports RoundTrip Hoare
begin

text \<open>
  Loading is well typed: whatever bytes lie in linear memory, a load of a plain type that returns
  returns a value of the type, and whether it returns or throws it writes nothing.  The rules follow the loads one by one;
  \<open>reads P f\<close> says that \<open>f\<close> leaves the state alone, whatever its outcome, and that a value it returns satisfies \<open>P\<close>.
\<close>

section \<open>Reading\<close>

definition reads :: "('a \<Rightarrow> bool) \<Rightarrow> ('s, 'a) sm \<Rightarrow> bool" where
  "reads P f \<longleftrightarrow> (\<forall>h r h'. f h = (r, h') \<longrightarrow> h' = h \<and> (\<forall>v. r = Inr v \<longrightarrow> P v))"

named_theorems reading "rules of the combinators for reads"

lemma reads_bind:
  assumes "reads P m" "\<And>x. P x \<Longrightarrow> reads Q (f x)"
  shows "reads Q (bindM m f)"
  unfolding reads_def
proof (intro allI impI)
  fix h r h'
  assume run: "bindM m f h = (r, h')"
  obtain q h1 where m: "m h = (q, h1)" by (cases "m h")
  then have "h1 = h" "\<forall>x. q = Inr x \<longrightarrow> P x" using assms(1) unfolding reads_def by blast+
  then show "h' = h \<and> (\<forall>v. r = Inr v \<longrightarrow> Q v)"
    using run m assms(2) by (cases q) (auto simp: bindM_def reads_def)
qed

lemma reads_basic [reading]:
  "P x \<Longrightarrow> reads P (returnM x)" "reads P (throwM e)"
  by (simp_all add: reads_def run_simps)

lemma reads_liftR [reading]:
  "(\<And>x. r = Inr x \<Longrightarrow> reads P (f x)) \<Longrightarrow> reads P (bindM (liftR r) f)"
  by (cases r) (simp_all add: reads_def run_simps)

lemma reads_check [reading]:
  "(c \<Longrightarrow> reads P (f ())) \<Longrightarrow> reads P (bindM (assertM c msg) f)"
  "(\<not> c \<Longrightarrow> reads P (f ())) \<Longrightarrow> reads P (bindM (trapIfM c msg) f)"
  by (simp_all add: reads_def run_simps)

lemma reads_gets [reading]: "(\<And>x. reads P (f x)) \<Longrightarrow> reads P (bindM (getsM g) f)"
  by (simp add: reads_def run_simps)

lemma reads_if [reading]:
  "(c \<Longrightarrow> reads P f) \<Longrightarrow> (\<not> c \<Longrightarrow> reads P g) \<Longrightarrow> reads P (if c then f else g)"
  by simp

lemma reads_needMemory [reading]:
  fixes f :: "MemRef \<Rightarrow> ('g heap_scheme, 'a) sm"
  shows "(\<And>m. memory (opts cx) = Some m \<Longrightarrow> reads P (f m)) \<Longrightarrow> reads P (bindM (needMemory cx) f)"
  by (auto simp: reads_def needMemory_def requireMemory_def bindM_def liftR_def split: option.splits)

lemma reads_weaken: "reads P f \<Longrightarrow> (\<And>x. P x \<Longrightarrow> Q x) \<Longrightarrow> reads Q f"
  by (auto simp: reads_def)

section \<open>Primitive kinds\<close>

lemma leValue_below: "leValue (slice p n M) < 2 ^ (8 * n)"
proof -
  have "leValue (slice p n M) < 256 ^ length (slice p n M)" by (rule leValue_bounds)
  also have "(256 :: int) ^ length (slice p n M) \<le> 256 ^ n" by (rule power_increasing) (simp_all add: slice_def)
  finally show ?thesis by (simp add: pow256)
qed

lemma reads_intU: "reads (\<lambda>i. 0 \<le> i \<and> i < 2 ^ (8 * n)) (loadIntU m p n)"
  using leValue_bounds(1) leValue_below
  by (auto simp: reads_def loadIntU_def run_simps split: if_splits)

lemma toSigned_range:
  assumes "0 < n" "0 \<le> x" "x < 2 ^ (8 * n)"
  shows "- (2 ^ (8 * n - 1)) \<le> toSigned n x" "toSigned n x < 2 ^ (8 * n - 1)"
proof -
  have "8 * n = Suc (8 * n - 1)" using assms(1) by simp
  then have "(2 :: int) ^ (8 * n) = 2 * 2 ^ (8 * n - 1)" by (metis power_Suc)
  then show "- (2 ^ (8 * n - 1)) \<le> toSigned n x" "toSigned n x < 2 ^ (8 * n - 1)"
    using assms(2,3) by (auto simp: toSigned_def)
qed

lemma reads_intS:
  assumes "0 < n"
  shows "reads (\<lambda>i. - (2 ^ (8 * n - 1)) \<le> i \<and> i < 2 ^ (8 * n - 1)) (loadIntS m p n)"
  using toSigned_range [OF assms leValue_bounds(1) leValue_below]
  by (auto simp: reads_def loadIntS_def run_simps split: if_splits)

lemma decoded_float:
  assumes "0 \<le> i" "i < 2 ^ 32"
  shows "conformsPrim KF32 (decodeI32AsFloat i)"
proof -
  have n: "nat i < 2 ^ 32" using assms by (simp add: nat_less_iff)
  show ?thesis using decodeI32_eq [OF assms] narrow_widen [OF n] by simp
qed

lemma reads_prim:
  assumes "k \<noteq> KString"
  shows "reads (conformsPrim k) (loadPrim cx mem ptr k)"
proof -
  have u: "reads P (bindM (loadIntU mem ptr n) f)" if "\<And>i. 0 \<le> i \<Longrightarrow> i < 2 ^ (8 * n) \<Longrightarrow> reads P (f i)"
    for P n and f :: "int \<Rightarrow> ('g heap_scheme, JsVal) sm"
    by (rule reads_bind [OF reads_intU]) (use that in blast)
  have s: "reads P (bindM (loadIntS mem ptr n) f)" if "0 < n" "\<And>i. - (2 ^ (8 * n - 1)) \<le> i \<Longrightarrow> i < 2 ^ (8 * n - 1) \<Longrightarrow> reads P (f i)"
    for P n and f :: "int \<Rightarrow> ('g heap_scheme, JsVal) sm"
    by (rule reads_bind [OF reads_intS [OF that(1)]]) (use that(2) in blast)
  have c: "convertI32ToChar i = Inr st \<Longrightarrow> conformsPrim KChar (VStr st)" for i st
  proof -
    assume "convertI32ToChar i = Inr st"
    then have "st = unitsOf (nat i)" "isScalar (nat i)"
      by (auto simp: convertI32ToChar_def bindR_def assertR_def trapIfR_def isScalar_def split: if_splits)
    then show ?thesis using charToI32_unitsOf [of "nat i"] by simp
  qed
  show ?thesis
    using assms
    by (cases k)
      (auto simp: loadPrim_def inRange_def inRangeBig_def decodeI64_eq intro!: reading u s c decoded_float simp del: conformsPrim.simps(10))
qed


section \<open>Bulk lists\<close>

lemma reads_viewElems:
  "reads (\<lambda>xs. length xs = len \<and> list_all (\<lambda>x. 0 \<le> x \<and> x < 2 ^ (8 * n)) xs) (viewElems mem ptr n len)"
  using leValue_bounds(1) leValue_below
  by (auto simp: reads_def viewElems_def run_simps list_all_iff split: if_splits)

lemma reads_bytesOf: "reads (\<lambda>bs. length bs = n) (bytesOf mem ptr n)"
  by (auto simp: reads_def bytesOf_def run_simps memLen_def split: if_splits)

definition bulkOk :: "PrimKind \<Rightarrow> nat \<Rightarrow> JsVal option \<Rightarrow> bool" where
  "bulkOk k len r \<longleftrightarrow> (case r of None \<Rightarrow> True
     | Some v \<Rightarrow> \<exists>xs. v = VArr xs \<and> length xs = len \<and> list_all (conformsPrim k) xs)"

lemma canonical_f64: "conformsPrim KF64 (canonicalF64 w)"
  by (simp add: canonicalF64_def)

lemma canonical_f32:
  assumes "0 \<le> x" "x < 2 ^ 32"
  shows "conformsPrim KF32 (canonicalF64 (widen32 (nat x)))"
  using decoded_float [OF assms] decodeI32_eq [OF assms] dec_float [of x 4] assms by (simp add: dec_def)

lemma reads_bulk:
  "reads (bulkOk k len) (tryLoadNumericList ple mem ptr len (TPrim k) :: ('g heap_scheme, JsVal option) sm)"
proof -
  have v: "reads (bulkOk k len) (bindM (viewElems mem ptr n len) (\<lambda>xs. returnM (Some (VArr (map f xs))))
      :: ('g heap_scheme, JsVal option) sm)"
    if "\<And>x. 0 \<le> x \<Longrightarrow> x < 2 ^ (8 * n) \<Longrightarrow> conformsPrim k (f x)" for k n f
    by (rule reads_bind [OF reads_viewElems]) (use that in \<open>auto simp: bulkOk_def list_all_iff intro!: reading\<close>)
  have b: "reads (bulkOk KBool len)
      (bindM (bytesOf mem ptr len) (\<lambda>bs. returnM (Some (VArr (map (\<lambda>b. VBool (b \<noteq> 0)) bs))))
      :: ('g heap_scheme, JsVal option) sm)"
    by (rule reads_bind [OF reads_bytesOf]) (auto simp: bulkOk_def list_all_iff intro!: reading)
  have n: "reads (bulkOk k len) (returnM None :: ('g heap_scheme, JsVal option) sm)" by (auto simp: bulkOk_def intro!: reading)
  show ?thesis
    using toSigned_range [of 1] toSigned_range [of 2] toSigned_range [of 4] toSigned_range [of 8] b n
    by (cases k)
      (auto simp: tryLoadNumericList_def inRange_def inRangeBig_def canonical_f32 canonical_f64
        simp del: conformsPrim.simps(10,11) intro!: reads_if v)
qed

section \<open>Every plain type\<close>

lemma reads_elems:
  assumes "\<And>q. reads (conforms e) (load cx q e)"
  shows "reads (\<lambda>vs. length vs = n \<and> list_all (conforms e) vs) (loadElems cx q sz n e)"
proof (induction n arbitrary: q)
  case (Suc n)
  show ?case
    by (simp add: loadElems.simps [of cx q sz "Suc n"])
      (rule reads_bind [OF assms], rule reads_bind [OF Suc.IH], rule reads_basic, simp)
qed (simp add: loadElems.simps reads_basic)

lemma reads_fixed_list:
  assumes "\<And>q. reads (conforms e) (load cx q e)"
  shows "reads (conforms (TList e (Some n))) (loadListFromValidRange cx ptr n e)"
proof (cases "despecialize e = TPrim KU8")
  case True
  then show ?thesis
    by (simp add: loadListFromValidRange.simps [of cx ptr n e])
      (intro reading reads_bind [OF reads_bytesOf], simp add: conforms.simps [of "TList e (Some n)"])
next
  case False
  have slow: "reads (conforms (TList e (Some n)))
      (bindM (liftR (elemSize e p)) (\<lambda>sz. bindM (loadElems cx ptr sz n e) (\<lambda>a. returnM (VArr a))))" for p
    by (intro reading, rule reads_bind [OF reads_elems [OF assms]], rule reads_basic)
      (use False in \<open>simp add: conforms.simps [of "TList e (Some n)"]\<close>)
  have fast: "reads (\<lambda>r. case r of None \<Rightarrow> True | Some v \<Rightarrow> conforms (TList e (Some n)) v)
      (tryLoadNumericList (platformLE cx) mem ptr n (despecialize e))" for mem
  proof (cases "bulkCtor (despecialize e)")
    case None
    then show ?thesis by (simp add: tryLoadNumericList_def reads_basic)
  next
    case (Some c)
    then obtain k where k: "despecialize e = TPrim k" using bulk_prim by (metis option.simps(3))
    then have "conforms e = conformsPrim k" by (intro ext) (simp add: conforms.simps [of e])
    with k False show ?thesis
      by (intro reads_weaken [OF reads_bulk [of k, folded k]])
        (auto simp: bulkOk_def conforms.simps [of "TList e (Some n)"] split: option.splits)
  qed
  show ?thesis using False
    by (simp add: loadListFromValidRange.simps [of cx ptr n e])
      (intro reading reads_bind [OF fast], auto intro: slow reading split: option.splits)
qed

lemma conformsFields_snoc:
  "conformsFields fs ps \<Longrightarrow> conforms (snd f) v \<Longrightarrow> conformsFields (fs @ [f]) (ps @ [(fst f, v)])"
  by (induction fs arbitrary: ps) (auto simp: conformsFields_cons simp del: conformsFields.simps(2))

lemma reads_record:
  assumes "\<And>f q. f \<in> set fs \<Longrightarrow> reads (conforms (snd f)) (load cx q (snd f))"
    "conformsFields ds rec" "distinct (map fst (ds @ fs))"
  shows "reads (\<lambda>v. \<exists>ps. v = VObj ps \<and> conformsFields (ds @ fs) ps) (loadRecord cx p fs rec)"
  using assms
proof (induction fs arbitrary: p ds rec)
  case (Cons f fs)
  have n: "fst f \<notin> set (map fst rec)"
    using Cons.prems(3) conformsFields_fst [OF Cons.prems(2)] by auto
  have "reads (\<lambda>v. \<exists>ps. v = VObj ps \<and> conformsFields ((ds @ [f]) @ fs) ps)
      (loadRecord cx q fs (obj_set (fst f) v rec))" if "conforms (snd f) v" for q v
    using conformsFields_snoc [OF Cons.prems(2) that] Cons.prems(3) n
    by (intro Cons.IH [OF Cons.prems(1)]) auto
  then show ?case
    by (simp add: loadRecord.simps [of cx p "f # fs"])
      (intro reading reads_bind [OF Cons.prems(1)], auto)
qed (auto simp: loadRecord.simps intro!: reading)

lemma conformsCase_nth:
  assumes "i < length cs" "distinct (map fst cs)"
    "case snd (cs ! i) of None \<Rightarrow> v = VNull | Some u \<Rightarrow> conforms u v"
  shows "conformsCase cs (fst (cs ! i), v)"
  using assms
proof (induction cs arbitrary: i)
  case (Cons c cs)
  then show ?case by (cases i) (force split: option.splits)+
qed simp

lemma reads_variant:
  assumes "\<And>c u q. c \<in> set cs \<Longrightarrow> snd c = Some u \<Longrightarrow> reads (conforms u) (load cx q u)"
    "distinct (map fst cs)"
  shows "reads (\<lambda>v. \<exists>p. v = VObj [p] \<and> conformsCase cs p) (loadVariant cx ptr cs)"
proof -
  have "reads (\<lambda>v. \<exists>p. v = VObj [p] \<and> conformsCase cs p)
      (case snd (cs ! i) of
         None \<Rightarrow> returnM (VObj [(fst (cs ! i), VNull)])
       | Some u \<Rightarrow> bindM (load cx q u) (\<lambda>v. returnM (VObj [(fst (cs ! i), v)])))"
    if i: "i < length cs" for i q
  proof (cases "snd (cs ! i)")
    case None
    then show ?thesis using conformsCase_nth [OF i assms(2)] by (simp add: reads_basic)
  next
    case (Some u)
    have "reads (conforms u) (load cx q u)" by (rule assms(1) [OF nth_mem [OF i] Some])
    with Some show ?thesis using conformsCase_nth [OF i assms(2)]
      by simp (erule reads_bind, rule reads_basic, simp)
  qed
  then show ?thesis
    by (simp add: loadVariant.simps [of cx ptr cs] Let_def)
      (intro reading reads_bind [OF reads_intU], auto simp: not_le Let_def intro!: reading)
qed

lemma reads_flags: "distinct ls \<Longrightarrow>
    reads (\<lambda>v. \<exists>ps. v = VObj ps \<and> map fst ps = ls \<and> list_all (\<lambda>p. case snd p of VBool b \<Rightarrow> True | _ \<Rightarrow> False) ps)
      (loadFlags cx ptr ls)"
  by (simp add: loadFlags_def unpackFlagsFromInt_def unpackFlagsLoop_eq)
    (intro reading reads_bind [OF reads_intU], auto simp: list_all_iff set_zip intro!: reading)

lemma reads_load:
  assumes "wf_type t" "plain t"
  shows "reads (conforms t) (load cx ptr t)"
  using assms
proof (induction t arbitrary: ptr rule: tsize_induct)
  case (type t)
  note wf = type.prems(1) and pl = type.prems(2)
  have "reads (conforms t)
    (case despecialize t of
       TPrim k \<Rightarrow> loadPrim cx mem ptr k
     | TList e n \<Rightarrow> loadList cx ptr e n
     | TRecord fs \<Rightarrow> loadRecord cx ptr fs []
     | TVariant cs \<Rightarrow> loadVariant cx ptr cs
     | TFlags ls \<Rightarrow> loadFlags cx ptr ls
     | d \<Rightarrow> loadHandle cx mem ptr d)" for mem
  proof (cases "despecialize t")
    case (TPrim k)
    then have "conforms t = conformsPrim k" by (intro ext) (simp add: conforms.simps [of t])
    then show ?thesis using TPrim pl reads_prim by (simp add: plain.simps [of t])
  next
    case (TList e n)
    then obtain len where n: "n = Some len" and pe: "plain e" using pl by (auto simp: plain.simps [of t])
    have "conforms t = conforms (TList e (Some len))"
      using TList n by (intro ext) (simp add: conforms.simps [of t] conforms.simps [of "TList e (Some len)"])
    then show ?thesis using TList n
        reads_fixed_list [OF type.IH [OF tsize_despecialize_list [OF TList] wf_list_elem [OF wf TList] pe]]
      by (simp add: loadList.simps)
  next
    case (TRecord fs)
    have "distinct (map fst fs)" using wf TRecord by (simp add: wf_type.simps [of t])
    moreover have "reads (conforms (snd f)) (load cx q (snd f))" if "f \<in> set fs" for f q
      using that pl TRecord by (intro type.IH [OF tsize_record_part [OF TRecord that] wf_record_field [OF wf TRecord that]])
        (simp add: plain.simps [of t] list_all_iff)
    ultimately show ?thesis using TRecord
      by simp (rule reads_weaken [OF reads_record [where ds = "[]"]], auto simp: conforms.simps [of t])
  next
    case (TVariant cs)
    have "distinct (map fst cs)" using wf TVariant by (simp add: wf_type.simps [of t])
    moreover have "reads (conforms u) (load cx q u)" if "c \<in> set cs" "snd c = Some u" for c u q
      using that pl TVariant
      by (intro type.IH [OF tsize_variant_part [OF TVariant that] wf_variant_case [OF wf TVariant that]])
        (fastforce simp: plain.simps [of t] list_all_iff)
    ultimately show ?thesis using TVariant
      by simp (rule reads_weaken [OF reads_variant], auto simp: conforms.simps [of t])
  next
    case (TFlags ls)
    have "distinct ls" using wf TFlags by (simp add: wf_type.simps [of t])
    then show ?thesis using TFlags
      by simp (rule reads_weaken [OF reads_flags], auto simp: conforms.simps [of t])
  qed (use pl despecialize_not_specialized [of t] in \<open>simp_all add: plain.simps [of t] specialized_def\<close>)
  then show ?case by (simp add: load.simps [of cx ptr t]) (intro reading)
qed

section \<open>Property\<close>

text \<open>C13: Loading is well typed, whatever a guest left in its memory: a load of a well-formed plain type (no strings, handles or
  lists of variable length) at any address leaves the heap as it was, whether it returns or throws, and a value it returns
  conforms to the type, with its lists of the right length, its labels those of the type in order and its numbers in range
  and canonical.\<close>

theorem load_typed:
  assumes "wf_type t" "plain t" "load cx ptr t h = (r, h')"
  shows "h' = h \<and> (\<forall>v. r = Inr v \<longrightarrow> conforms t v)"
  using reads_load [OF assms(1,2), of cx ptr] assms(3) unfolding reads_def by blast

text \<open>A list of three bools whose bytes are 7, 0 and 255.\<close>

theorem load_typed_witness:
  "conforms (TList (TPrim KBool) (Some 3)) (VArr [VBool True, VBool False, VBool True]) \<and>
    load cx0 4 (TList (TPrim KBool) (Some 3)) (emptyHeap\<lparr>mems := \<lambda>_. replicate 4 0 @ [7, 0, 255] @ replicate 9 0\<rparr>) =
      (Inr (VArr [VBool True, VBool False, VBool True]), emptyHeap\<lparr>mems := \<lambda>_. replicate 4 0 @ [7, 0, 255] @ replicate 9 0\<rparr>)"
proof -
  let ?t = "TList (TPrim KBool) (Some 3)" and ?v = "VArr [VBool True, VBool False, VBool True]"
  let ?h = "emptyHeap\<lparr>mems := \<lambda>_. replicate 4 0 @ [7, 0, 255] @ replicate 9 0\<rparr>"
  have w: "wf_type ?t" "plain ?t" by (simp_all add: wf_type.simps plain.simps)
  have m: "memory (opts cx0) = Some \<lparr>memId = 0, addrType = I32, mBase = 0\<rparr>" by (simp add: cx0_def)
  have a: "algn ?t I32 = 1" "esz ?t I32 = 3"
    by (simp_all add: algn_def esz_def alignment.simps elemSize.simps)
  have l: "load cx0 4 ?t ?h = (Inr ?v, ?h)"
    using load_body [OF m w(1), of 4 ?h] a
    by (simp add: loadList.simps loadListFromValidRange.simps bindM_needMemory [OF m] tryLoadNumericList_def
        bytesOf_def run_simps memLen_def memBytes_def slice_def)
  show ?thesis using load_typed [OF w l] l by blast
qed

end
