(* ===== verification/Transcode.thy ===== *)
theory Transcode
  imports Strings
begin

text \<open>
  The string transcoders of fused adapters (\<open>runtime/src/intrinsics/transcode.ts\<close>).  Each operation reads a
  source region, most of them through a snapshot of it, and writes bytes of the destination memory,
  which is the state of the loops; what was written before an exception stays.  Element reads and writes of a typed array past its end
  give \<open>undefined\<close> and do nothing; \<open>set\<close> and the accessors of a \<open>DataView\<close> throw a \<open>RangeError\<close>.  The generator
  \<open>decodeUtf16OrTrap\<close> reads a snapshot, so it is the list of what it yields with the error it ends in.  Pointers and lengths
  are lanes below \<open>2 ^ 31\<close>.
\<close>

section \<open>Views\<close>

definition extracted :: "MemRef option \<Rightarrow> MemRef result" where
  "extracted m = (case m of None \<Rightarrow> Err (JsError ''memory accessed before it was extracted'') | Some r \<Rightarrow> Ok r)"

definition sourceBytes :: "MemRef option \<Rightarrow> ('g heap_scheme, 8 word list) sm" where
  "sourceBytes m = bindM (liftR (extracted m)) (\<lambda>r. getsM (memBytes r))"

definition onDestination :: "MemRef option \<Rightarrow> (8 word list, 'a) sm \<Rightarrow> ('g heap_scheme, 'a) sm" where
  "onDestination m f =
     bindM (liftR (extracted m)) (\<lambda>r h. case f (memBytes r h) of (x, d) \<Rightarrow> (x, setMem r d h))"

definition elemAt :: "8 word list \<Rightarrow> nat \<Rightarrow> 8 word option" where
  "elemAt bs i = (if i < length bs then Some (bs ! i) else None)"

text \<open>\<open>undefined\<close> is 0 to the bit operators and when it is stored.\<close>

definition elemNum :: "8 word option \<Rightarrow> 8 word" where
  "elemNum b = (case b of None \<Rightarrow> 0 | Some x \<Rightarrow> x)"

definition storeElem :: "nat \<Rightarrow> 8 word option \<Rightarrow> (8 word list, unit) sm" where
  "storeElem p b = modifyM (\<lambda>d. d[p := elemNum b])"

definition setBytes :: "nat \<Rightarrow> 8 word list \<Rightarrow> (8 word list, unit) sm" where
  "setBytes p bs =
     bindM (getsM length) (\<lambda>n. if p + length bs > n then throwM (JsError ''RangeError'') else modifyM (splice p bs))"

definition getUint16 :: "8 word list \<Rightarrow> nat \<Rightarrow> 16 word result" where
  "getUint16 bs p =
     (if p + 2 > length bs then Err (JsError ''RangeError'')
      else Ok (or (ucast (bs ! p)) (push_bit 8 (ucast (bs ! (p + 1))))))"

definition setUint16 :: "nat \<Rightarrow> 16 word \<Rightarrow> (8 word list, unit) sm" where
  "setUint16 p u = setBytes p (unitsToLe [u])"

definition snapshot :: "8 word list \<Rightarrow> nat \<Rightarrow> nat \<Rightarrow> 8 word list" where
  "snapshot bytes ptr n = slice ptr n bytes"

section \<open>Encoding helpers\<close>

definition decodeUtf8OrTrap :: "8 word list \<Rightarrow> 16 word list result" where
  "decodeUtf8OrTrap bytes =
     (case utf8Decode bytes of Some s \<Rightarrow> Ok s | None \<Rightarrow> Err (Trap ''invalid utf8 encoding''))"

text \<open>One turn of the generator: the code point and the units it takes.\<close>

definition nextScalar :: "8 word list \<Rightarrow> nat \<Rightarrow> nat \<Rightarrow> nat \<Rightarrow> (nat \<times> nat) result" where
  "nextScalar bytes ptr units i =
     bindR (getUint16 bytes (ptr + 2 * i)) (\<lambda>u.
     if unat u < 0xd800 \<or> unat u > 0xdfff then Ok (unat u, 1)
     else
       bindR (trapIfR (unat u \<ge> 0xdc00 \<or> i + 1 \<ge> units) ''invalid utf16 encoding'') (\<lambda>_.
       bindR (getUint16 bytes (ptr + 2 * (i + 1))) (\<lambda>lo.
       bindR (trapIfR (unat lo < 0xdc00 \<or> unat lo > 0xdfff) ''invalid utf16 encoding'') (\<lambda>_.
       Ok (0x10000 + push_bit 10 (unat u - 0xd800) + (unat lo - 0xdc00), 2)))))"

lemma nextScalar_pos: "nextScalar bytes ptr units i = Inr (c, n) \<Longrightarrow> 0 < n"
  by (auto simp: nextScalar_def bindR_eq_Inr split: if_splits)

function decodeUtf16OrTrap :: "8 word list \<Rightarrow> nat \<Rightarrow> nat \<Rightarrow> nat \<Rightarrow> (nat \<times> nat) list \<times> error option" where
  "decodeUtf16OrTrap bytes ptr units i =
     (if i \<ge> units then ([], None)
      else (case nextScalar bytes ptr units i of
              Inl e \<Rightarrow> ([], Some e)
            | Inr cn \<Rightarrow> (case decodeUtf16OrTrap bytes ptr units (i + snd cn) of (xs, e) \<Rightarrow> (cn # xs, e))))"
  by pat_completeness auto

termination
  by (relation "measure (\<lambda>(bytes, ptr, units, i). units - i)") (auto dest: nextScalar_pos)

declare decodeUtf16OrTrap.simps [simp del]

text \<open>A \<open>for\<close> loop over the generator without a \<open>break\<close>.\<close>

definition endOf :: "error option \<Rightarrow> ('s, unit) sm" where
  "endOf e = (case e of None \<Rightarrow> returnM () | Some x \<Rightarrow> throwM x)"

definition utf8Len :: "nat \<Rightarrow> nat" where
  "utf8Len cp = (if cp < 0x80 then 1 else if cp < 0x800 then 2 else if cp < 0x10000 then 3 else 4)"

fun storeElems :: "nat \<Rightarrow> nat list \<Rightarrow> (8 word list, unit) sm" where
  "storeElems p [] = returnM ()"
| "storeElems p (b # bs) = bindM (storeElem p (Some (word_of_nat b))) (\<lambda>_. storeElems (p + 1) bs)"

text \<open>The bytes of a code point; \<open>undefined\<close> fails every comparison and shifts to 0.\<close>

definition utf8Parts :: "nat option \<Rightarrow> nat list" where
  "utf8Parts c =
     (case c of
        None \<Rightarrow> [0xf0, 0x80, 0x80, 0x80]
      | Some cp \<Rightarrow>
          if cp < 0x80 then [cp]
          else if cp < 0x800 then [or 0xc0 (drop_bit 6 cp), or 0x80 (and cp 0x3f)]
          else if cp < 0x10000 then
            [or 0xe0 (drop_bit 12 cp), or 0x80 (and (drop_bit 6 cp) 0x3f), or 0x80 (and cp 0x3f)]
          else
            [or 0xf0 (drop_bit 18 cp), or 0x80 (and (drop_bit 12 cp) 0x3f), or 0x80 (and (drop_bit 6 cp) 0x3f),
             or 0x80 (and cp 0x3f)])"

definition encodeUtf8At :: "nat \<Rightarrow> nat option \<Rightarrow> (8 word list, nat) sm" where
  "encodeUtf8At at1 c = bindM (storeElems at1 (utf8Parts c)) (\<lambda>_. returnM (length (utf8Parts c)))"

definition encodeUtf16At :: "nat \<Rightarrow> nat \<Rightarrow> nat \<Rightarrow> (8 word list, nat) sm" where
  "encodeUtf16At base at1 cp =
     (if cp < 0x10000 then bindM (setUint16 (base + 2 * at1) (word_of_nat cp)) (\<lambda>_. returnM 1)
      else
        bindM (setUint16 (base + 2 * at1) (word_of_nat (0xd800 + drop_bit 10 (cp - 0x10000)))) (\<lambda>_.
        bindM (setUint16 (base + 2 * (at1 + 1)) (word_of_nat (0xdc00 + and (cp - 0x10000) 0x3ff))) (\<lambda>_.
        returnM 2)))"

function utf8Latin1UpTo :: "8 word list \<Rightarrow> nat \<Rightarrow> nat \<Rightarrow> nat \<Rightarrow> nat" where
  "utf8Latin1UpTo bytes ptr n i =
     (if i \<ge> n then i
      else (case elemAt bytes (ptr + i) of
              None \<Rightarrow> i
            | Some b \<Rightarrow>
                if b < 0x80 then utf8Latin1UpTo bytes ptr n (i + 1)
                else if b = 0xc2 \<or> b = 0xc3 then
                  (case (if i + 1 < n then elemAt bytes (ptr + i + 1) else Some 0) of
                     Some x \<Rightarrow> if x < 0x80 \<or> x > 0xbf then i else utf8Latin1UpTo bytes ptr n (i + 2)
                   | None \<Rightarrow> utf8Latin1UpTo bytes ptr n (i + 2))
                else i))"
  by pat_completeness auto

termination
  by (relation "measure (\<lambda>(bytes, ptr, n, i). n - i)") auto

declare utf8Latin1UpTo.simps [simp del]

fun inflateLatin1Bytes :: "nat \<Rightarrow> nat \<Rightarrow> (8 word list, unit) sm" where
  "inflateLatin1Bytes dstPtr 0 = returnM ()"
| "inflateLatin1Bytes dstPtr (Suc i) =
     bindM (getsM (\<lambda>d. elemAt d (dstPtr + i))) (\<lambda>b.
     bindM (storeElem (dstPtr + 2 * i) b) (\<lambda>_.
     bindM (storeElem (dstPtr + 2 * i + 1) (Some 0)) (\<lambda>_.
     inflateLatin1Bytes dstPtr i)))"

definition trapIfOverlap :: "MemRef \<Rightarrow> nat \<Rightarrow> nat \<Rightarrow> MemRef \<Rightarrow> nat \<Rightarrow> nat \<Rightarrow> unit result" where
  "trapIfOverlap src srcPtr srcLen dst dstPtr dstLen =
     (if memId src \<noteq> memId dst then Ok ()
      else trapIfR (srcPtr < dstPtr + dstLen \<and> dstPtr < srcPtr + srcLen) ''transcode src/dst regions overlap'')"

section \<open>The twelve operations\<close>

datatype TranscodeOp =
    Utf8ToUtf8 | Utf16ToUtf16 | Latin1ToLatin1 | Latin1ToUtf16 | Latin1ToUtf8 | Utf16ToCompactProbablyUtf16
  | Utf16ToCompactUtf16 | Utf16ToLatin1 | Utf16ToUtf8 | Utf8ToCompactUtf16 | Utf8ToLatin1 | Utf8ToUtf16

text \<open>No result, one result, or the pair of units read and written.\<close>

datatype TranscodeResult = NoResult | OneResult nat | TwoResults nat nat

definition UTF16_TAG :: nat where "UTF16_TAG = 2 ^ 31"

definition latin1ToLatin1 :: "8 word list \<Rightarrow> MemRef option \<Rightarrow> nat \<Rightarrow> nat \<Rightarrow> nat \<Rightarrow> ('g heap_scheme, TranscodeResult) sm" where
  "latin1ToLatin1 src to srcPtr srcLen dstPtr =
     onDestination to (bindM (setBytes dstPtr (snapshot src srcPtr srcLen)) (\<lambda>_. returnM NoResult))"

definition utf8ToUtf8 :: "8 word list \<Rightarrow> MemRef option \<Rightarrow> nat \<Rightarrow> nat \<Rightarrow> nat \<Rightarrow> ('g heap_scheme, TranscodeResult) sm" where
  "utf8ToUtf8 src to srcPtr srcLen dstPtr =
     bindM (liftR (decodeUtf8OrTrap (snapshot src srcPtr srcLen))) (\<lambda>_.
     onDestination to (bindM (setBytes dstPtr (snapshot src srcPtr srcLen)) (\<lambda>_. returnM NoResult)))"

definition utf16ToUtf16 :: "8 word list \<Rightarrow> MemRef option \<Rightarrow> nat \<Rightarrow> nat \<Rightarrow> nat \<Rightarrow> ('g heap_scheme, TranscodeResult) sm" where
  "utf16ToUtf16 src to srcPtr srcLen dstPtr =
     bindM (endOf (snd (decodeUtf16OrTrap (snapshot src srcPtr (2 * srcLen)) 0 srcLen 0))) (\<lambda>_.
     onDestination to (bindM (setBytes dstPtr (snapshot src srcPtr (2 * srcLen))) (\<lambda>_. returnM NoResult)))"

fun widenElems :: "8 word list \<Rightarrow> nat \<Rightarrow> nat \<Rightarrow> nat \<Rightarrow> (8 word list, unit) sm" where
  "widenElems src dstPtr i 0 = returnM ()"
| "widenElems src dstPtr i (Suc n) =
     bindM (storeElem (dstPtr + 2 * i) (elemAt src i)) (\<lambda>_.
     bindM (storeElem (dstPtr + 2 * i + 1) (Some 0)) (\<lambda>_.
     widenElems src dstPtr (i + 1) n))"

definition latin1ToUtf16 :: "8 word list \<Rightarrow> MemRef option \<Rightarrow> nat \<Rightarrow> nat \<Rightarrow> nat \<Rightarrow> ('g heap_scheme, TranscodeResult) sm" where
  "latin1ToUtf16 src to srcPtr srcLen dstPtr =
     onDestination to (bindM (widenElems (snapshot src srcPtr srcLen) dstPtr 0 srcLen) (\<lambda>_. returnM NoResult))"

fun storeUnits :: "nat \<Rightarrow> 16 word list \<Rightarrow> (8 word list, unit) sm" where
  "storeUnits p [] = returnM ()"
| "storeUnits p (u # us) = bindM (setUint16 p u) (\<lambda>_. storeUnits (p + 2) us)"

definition utf8ToUtf16 :: "8 word list \<Rightarrow> MemRef option \<Rightarrow> nat \<Rightarrow> nat \<Rightarrow> nat \<Rightarrow> ('g heap_scheme, TranscodeResult) sm" where
  "utf8ToUtf16 src to srcPtr srcLen dstPtr =
     bindM (liftR (decodeUtf8OrTrap (snapshot src srcPtr srcLen))) (\<lambda>s.
     onDestination to (bindM (storeUnits dstPtr (take srcLen s)) (\<lambda>_. returnM (OneResult (length (take srcLen s))))))"

text \<open>Keeping the low byte of each unit, in place.\<close>

fun compactElems :: "nat \<Rightarrow> nat \<Rightarrow> nat \<Rightarrow> (8 word list, unit) sm" where
  "compactElems dstPtr i 0 = returnM ()"
| "compactElems dstPtr i (Suc n) =
     bindM (getsM (\<lambda>d. elemAt d (dstPtr + 2 * i))) (\<lambda>b.
     bindM (storeElem (dstPtr + i) b) (\<lambda>_. compactElems dstPtr (i + 1) n))"

definition utf16ToCompactProbablyUtf16 ::
  "8 word list \<Rightarrow> MemRef option \<Rightarrow> nat \<Rightarrow> nat \<Rightarrow> nat \<Rightarrow> ('g heap_scheme, TranscodeResult) sm" where
  "utf16ToCompactProbablyUtf16 src to srcPtr srcLen dstPtr =
     (let copy = snapshot src srcPtr (2 * srcLen); (items, e) = decodeUtf16OrTrap copy 0 srcLen 0 in
      bindM (endOf e) (\<lambda>_.
      onDestination to
        (bindM (setBytes dstPtr copy) (\<lambda>_.
         if list_ex (\<lambda>x. fst x > 0xff) items then returnM (OneResult (or srcLen UTF16_TAG))
         else bindM (compactElems dstPtr 0 srcLen) (\<lambda>_. returnM (OneResult srcLen))))))"

text \<open>The loop over the latin1 prefix of UTF-8: \<open>i\<close> is read up to \<open>read\<close>, \<open>w\<close> is written.\<close>

function deflateUtf8 :: "8 word list \<Rightarrow> nat \<Rightarrow> nat \<Rightarrow> nat \<Rightarrow> nat \<Rightarrow> (8 word list, nat) sm" where
  "deflateUtf8 src dstPtr read i w =
     (if i \<ge> read then returnM w
      else if src ! i < 0x80 then
        bindM (storeElem (dstPtr + w) (Some (src ! i))) (\<lambda>_. deflateUtf8 src dstPtr read (i + 1) (w + 1))
      else
        bindM (storeElem (dstPtr + w) (Some (or (push_bit 6 (and (src ! i) 0x1f)) (and (elemNum (elemAt src (i + 1))) 0x3f)))) (\<lambda>_.
        deflateUtf8 src dstPtr read (i + 2) (w + 1)))"
  by pat_completeness auto

termination
  by (relation "measure (\<lambda>(src, dstPtr, read, i, w). read - i)") auto

declare deflateUtf8.simps [simp del]

definition utf8ToLatin1 :: "8 word list \<Rightarrow> MemRef option \<Rightarrow> nat \<Rightarrow> nat \<Rightarrow> nat \<Rightarrow> ('g heap_scheme, TranscodeResult) sm" where
  "utf8ToLatin1 src to srcPtr srcLen dstPtr =
     (let copy = snapshot src srcPtr srcLen; read = utf8Latin1UpTo copy 0 srcLen 0 in
      onDestination to (bindM (deflateUtf8 copy dstPtr read 0 0) (\<lambda>w. returnM (TwoResults read w))))"

text \<open>The latin1 prefix of the source units, read in full before anything is written.\<close>

fun latin1Prefix :: "8 word list \<Rightarrow> nat \<Rightarrow> nat \<Rightarrow> 8 word list result" where
  "latin1Prefix src p 0 = Ok []"
| "latin1Prefix src p (Suc n) =
     bindR (getUint16 src p) (\<lambda>u.
     if unat u > 0xff then Ok [] else bindR (latin1Prefix src (p + 2) n) (\<lambda>out. Ok (ucast u # out)))"

fun storeAll :: "nat \<Rightarrow> 8 word list \<Rightarrow> (8 word list, unit) sm" where
  "storeAll p [] = returnM ()"
| "storeAll p (b # bs) = bindM (storeElem p (Some b)) (\<lambda>_. storeAll (p + 1) bs)"

definition utf16ToLatin1 :: "MemRef option \<Rightarrow> MemRef option \<Rightarrow> nat \<Rightarrow> nat \<Rightarrow> nat \<Rightarrow> ('g heap_scheme, TranscodeResult) sm" where
  "utf16ToLatin1 from to srcPtr srcLen dstPtr =
     bindM (liftR (extracted from)) (\<lambda>a.
     bindM (liftR (extracted to)) (\<lambda>b.
     bindM (liftR (trapIfOverlap a srcPtr (2 * srcLen) b dstPtr srcLen)) (\<lambda>_.
     bindM (getsM (memBytes a)) (\<lambda>src.
     bindM (liftR (latin1Prefix src srcPtr srcLen)) (\<lambda>out.
     onDestination to (bindM (storeAll dstPtr out) (\<lambda>_. returnM (TwoResults (length out) (length out)))))))))"

text \<open>The loop of \<open>utf16-to-utf8\<close>; the error of the generator is met only when no \<open>break\<close> came before it.\<close>

fun utf16ToUtf8Loop :: "nat \<Rightarrow> nat \<Rightarrow> bool \<Rightarrow> error option \<Rightarrow> nat \<Rightarrow> nat \<Rightarrow> nat \<Rightarrow> (nat \<times> nat) list \<Rightarrow>
    (8 word list, TranscodeResult) sm" where
  "utf16ToUtf8Loop dstPtr dstLen firstPass e consumed srcRead written [] =
     bindM (endOf e) (\<lambda>_. returnM (TwoResults srcRead written))"
| "utf16ToUtf8Loop dstPtr dstLen firstPass e consumed srcRead written ((cp, units) # items) =
     (if firstPass \<and> cp \<ge> 0x80 then returnM (TwoResults srcRead written)
      else if dstLen - written < 4 \<and> dstLen - written < utf8Len cp then returnM (TwoResults srcRead written)
      else
        bindM (encodeUtf8At (dstPtr + written) (Some cp)) (\<lambda>n.
        utf16ToUtf8Loop dstPtr dstLen firstPass e (consumed + units) (consumed + units) (written + n) items))"

definition utf16ToUtf8 :: "8 word list \<Rightarrow> MemRef option \<Rightarrow> nat \<Rightarrow> nat \<Rightarrow> nat \<Rightarrow> nat \<Rightarrow> nat \<Rightarrow>
    ('g heap_scheme, TranscodeResult) sm" where
  "utf16ToUtf8 src to srcPtr srcLen dstPtr dstLen firstPass =
     (let (items, e) = decodeUtf16OrTrap (snapshot src srcPtr (2 * srcLen)) 0 srcLen 0 in
      onDestination to (utf16ToUtf8Loop dstPtr dstLen (firstPass \<noteq> 0) e 0 0 0 items))"

fun firstNonAscii :: "8 word list \<Rightarrow> nat \<Rightarrow> nat \<Rightarrow> nat" where
  "firstNonAscii src i 0 = i"
| "firstNonAscii src i (Suc n) =
     (case elemAt src i of
        Some b \<Rightarrow> if b \<ge> 0x80 then i else firstNonAscii src (i + 1) n
      | None \<Rightarrow> firstNonAscii src (i + 1) n)"

fun latin1ToUtf8Loop :: "8 word list \<Rightarrow> nat \<Rightarrow> nat \<Rightarrow> nat \<Rightarrow> nat \<Rightarrow> nat \<Rightarrow> (8 word list, TranscodeResult) sm" where
  "latin1ToUtf8Loop src dstPtr dstLen read written 0 = returnM (TwoResults read written)"
| "latin1ToUtf8Loop src dstPtr dstLen read written (Suc n) =
     (let b = elemAt src read; need = (case b of Some x \<Rightarrow> if x < 0x80 then 1 else 2 | None \<Rightarrow> 2) in
      if written + need > dstLen then returnM (TwoResults read written)
      else
        bindM (encodeUtf8At (dstPtr + written) (map_option unat b)) (\<lambda>k.
        latin1ToUtf8Loop src dstPtr dstLen (read + 1) (written + k) n))"

definition latin1ToUtf8 :: "8 word list \<Rightarrow> MemRef option \<Rightarrow> nat \<Rightarrow> nat \<Rightarrow> nat \<Rightarrow> nat \<Rightarrow> nat \<Rightarrow>
    ('g heap_scheme, TranscodeResult) sm" where
  "latin1ToUtf8 src to srcPtr srcLen dstPtr dstLen firstPass =
     (let copy = snapshot src srcPtr srcLen;
          stop = (if firstPass \<noteq> 0 then firstNonAscii copy 0 srcLen else srcLen) in
      onDestination to (latin1ToUtf8Loop copy dstPtr dstLen 0 0 stop))"

definition utf8ToCompactUtf16 :: "8 word list \<Rightarrow> MemRef option \<Rightarrow> nat \<Rightarrow> nat \<Rightarrow> nat \<Rightarrow> nat \<Rightarrow> nat \<Rightarrow>
    ('g heap_scheme, TranscodeResult) sm" where
  "utf8ToCompactUtf16 src to srcPtr srcLen dstPtr dstLen latin1Bytes =
     bindM (liftR (decodeUtf8OrTrap (snapshot src srcPtr srcLen))) (\<lambda>s.
     onDestination to
       (bindM (inflateLatin1Bytes dstPtr latin1Bytes) (\<lambda>_.
        bindM (trapIfM (int (length s) > int dstLen - int latin1Bytes) ''utf8-to-compact-utf16: destination capacity exceeded'') (\<lambda>_.
        bindM (storeUnits (dstPtr + 2 * latin1Bytes) s) (\<lambda>_.
        returnM (OneResult (length s + latin1Bytes)))))))"

fun storeScalars :: "nat \<Rightarrow> nat \<Rightarrow> (nat \<times> nat) list \<Rightarrow> (8 word list, unit) sm" where
  "storeScalars dstPtr at1 [] = returnM ()"
| "storeScalars dstPtr at1 (cn # items) =
     bindM (encodeUtf16At dstPtr at1 (fst cn)) (\<lambda>n. storeScalars dstPtr (at1 + n) items)"

definition utf16ToCompactUtf16 :: "8 word list \<Rightarrow> MemRef option \<Rightarrow> nat \<Rightarrow> nat \<Rightarrow> nat \<Rightarrow> nat \<Rightarrow>
    ('g heap_scheme, TranscodeResult) sm" where
  "utf16ToCompactUtf16 src to srcPtr srcLen dstPtr latin1Bytes =
     onDestination to
       (bindM (inflateLatin1Bytes dstPtr latin1Bytes) (\<lambda>_.
        let (items, e) = decodeUtf16OrTrap (snapshot src srcPtr (2 * srcLen)) 0 srcLen 0 in
        bindM (storeScalars dstPtr latin1Bytes items) (\<lambda>_.
        bindM (endOf e) (\<lambda>_. returnM (OneResult (srcLen + latin1Bytes))))))"

text \<open>The trampoline: the last argument is \<open>firstPass\<close> or the count of latin1 bytes, by operation.\<close>

definition createTranscoder :: "TranscodeOp \<Rightarrow> MemRef option \<Rightarrow> MemRef option \<Rightarrow> nat \<Rightarrow> nat \<Rightarrow> nat \<Rightarrow> nat \<Rightarrow> nat \<Rightarrow>
    ('g heap_scheme, TranscodeResult) sm" where
  "createTranscoder op from to srcPtr srcLen dstPtr dstLen n =
     (if op = Utf16ToLatin1 then utf16ToLatin1 from to srcPtr srcLen dstPtr
      else
        bindM (sourceBytes from) (\<lambda>src.
        case op of
          Latin1ToLatin1 \<Rightarrow> latin1ToLatin1 src to srcPtr srcLen dstPtr
        | Utf8ToUtf8 \<Rightarrow> utf8ToUtf8 src to srcPtr srcLen dstPtr
        | Utf16ToUtf16 \<Rightarrow> utf16ToUtf16 src to srcPtr srcLen dstPtr
        | Latin1ToUtf16 \<Rightarrow> latin1ToUtf16 src to srcPtr srcLen dstPtr
        | Utf8ToUtf16 \<Rightarrow> utf8ToUtf16 src to srcPtr srcLen dstPtr
        | Utf16ToCompactProbablyUtf16 \<Rightarrow> utf16ToCompactProbablyUtf16 src to srcPtr srcLen dstPtr
        | Utf8ToLatin1 \<Rightarrow> utf8ToLatin1 src to srcPtr srcLen dstPtr
        | Utf16ToLatin1 \<Rightarrow> utf16ToLatin1 from to srcPtr srcLen dstPtr
        | Utf16ToUtf8 \<Rightarrow> utf16ToUtf8 src to srcPtr srcLen dstPtr dstLen n
        | Latin1ToUtf8 \<Rightarrow> latin1ToUtf8 src to srcPtr srcLen dstPtr dstLen n
        | Utf8ToCompactUtf16 \<Rightarrow> utf8ToCompactUtf16 src to srcPtr srcLen dstPtr dstLen n
        | Utf16ToCompactUtf16 \<Rightarrow> utf16ToCompactUtf16 src to srcPtr srcLen dstPtr n))"

text \<open>The names of the operations in a plan, and the \<open>transcoder\<close> case of \<open>createTrampolineBody\<close>.\<close>

definition transcodeOps :: "(string \<times> TranscodeOp) list" where
  "transcodeOps =
     [(''utf8-to-utf8'', Utf8ToUtf8), (''utf16-to-utf16'', Utf16ToUtf16), (''latin1-to-latin1'', Latin1ToLatin1),
      (''latin1-to-utf16'', Latin1ToUtf16), (''latin1-to-utf8'', Latin1ToUtf8),
      (''utf16-to-compact-probably-utf16'', Utf16ToCompactProbablyUtf16),
      (''utf16-to-compact-utf16'', Utf16ToCompactUtf16), (''utf16-to-latin1'', Utf16ToLatin1),
      (''utf16-to-utf8'', Utf16ToUtf8), (''utf8-to-compact-utf16'', Utf8ToCompactUtf16),
      (''utf8-to-latin1'', Utf8ToLatin1), (''utf8-to-utf16'', Utf8ToUtf16)]"

definition transcoderTrampoline :: "string \<Rightarrow> bool \<Rightarrow> bool \<Rightarrow> TranscodeOp result" where
  "transcoderTrampoline op from64 to64 =
     (if from64 \<or> to64 then Err (JsError (''UnsupportedFeatureError: transcoder '' @ op @ '' over a 64-bit linear memory''))
      else case map_of transcodeOps op of
        None \<Rightarrow> Err (JsError (''UnsupportedFeatureError: unknown string transcode operation '' @ op))
      | Some x \<Rightarrow> Ok x)"

end
