(* ===== verification/TranscodeProps.thy ===== *)
theory TranscodeProps
  imports Transcode
begin

text \<open>
  The transcoders move a string: what is read of the source decodes, what is written is its encoding in the other
  encoding, nothing else of the destination changes, and a transcoder that stops early has a reason to.
\<close>

section \<open>Writing elements\<close>

lemma storeElem_run [simp]: "storeElem p b d = (Inr (), d[p := elemNum b])"
  by (simp add: storeElem_def run_simps)

lemma elemNum_simps [simp]: "elemNum (Some x) = x" "elemNum None = 0"
  by (simp_all add: elemNum_def)

lemma splice_cons:
  "p < length d \<Longrightarrow> p + 1 + length bs \<le> length d \<Longrightarrow> splice (p + 1) bs (d[p := b]) = splice p (b # bs) d"
  by (simp add: splice_def take_Suc_conv_app_nth)

lemma splice_append:
  assumes "p + length a + length b \<le> length d"
  shows "splice (p + length a) b (splice p a d) = splice p (a @ b) d"
  using assms by (simp add: splice_def algebra_simps)

lemma splice_prepend:
  assumes "p + length a + length b \<le> length d"
  shows "splice p a (splice (p + length a) b d) = splice p (a @ b) d"
  using assms by (simp add: splice_def algebra_simps)

lemma splice_nil [simp]: "splice p [] d = d"
  by (simp add: splice_def)

lemma storeElems_run:
  "p + length bs \<le> length d \<Longrightarrow> storeElems p bs d = (Inr (), splice p (map word_of_nat bs) d)"
proof (induction bs arbitrary: p d)
  case (Cons b bs)
  then show ?case using splice_cons [of p d "map word_of_nat bs" "word_of_nat b"]
    by (simp add: bindM_def)
qed (simp add: run_simps)

lemma storeAll_run: "p + length bs \<le> length d \<Longrightarrow> storeAll p bs d = (Inr (), splice p bs d)"
proof (induction bs arbitrary: p d)
  case (Cons b bs)
  then show ?case using splice_cons [of p d bs b] by (simp add: bindM_def)
qed (simp add: run_simps)

lemma storeUnits_run:
  "p + 2 * length us \<le> length d \<Longrightarrow> storeUnits p us d = (Inr (), splice p (unitsToLe us) d)"
proof (induction us arbitrary: p d)
  case (Cons u us)
  have "storeUnits (p + 2) us (splice p (unitsToLe [u]) d) = (Inr (), splice (p + 2) (unitsToLe us) (splice p (unitsToLe [u]) d))"
    using Cons.prems by (intro Cons.IH) simp
  then show ?case using Cons.prems splice_append [of p "unitsToLe [u]" "unitsToLe us" d]
    by (simp add: bindM_def setUint16_def setBytes_def run_simps)
qed (simp add: run_simps)

lemma unitsToLe_append [simp]: "unitsToLe (a @ b) = unitsToLe a @ unitsToLe b"
  by (induction a) simp_all

lemma unitsToLe_latin1:
  fixes b :: "8 word"
  shows "unitsToLe [ucast b] = [b, 0]"
proof -
  have "ucast (ucast b :: 16 word) = b" by (rule bit_word_eqI) (simp add: bit_ucast_iff)
  moreover have "ucast (drop_bit 8 (ucast b :: 16 word)) = (0 :: 8 word)"
    by (rule bit_word_eqI) (auto simp: bit_ucast_iff bit_drop_bit_eq dest: bit_imp_le_length)
  ultimately show ?thesis by simp
qed

lemma splice_two:
  assumes "p + 2 \<le> length d"
  shows "d[p := a, p + 1 := b] = splice p [a, b] d"
  using assms by (intro nth_equalityI) (auto simp: nth_splice nth_list_update nth_Cons split: nat.splits)

lemma widenElems_run:
  "dstPtr + 2 * (i + n) \<le> length d \<Longrightarrow> i + n \<le> length src \<Longrightarrow>
    widenElems src dstPtr i n d = (Inr (), splice (dstPtr + 2 * i) (unitsToLe (map ucast (slice i n src))) d)"
proof (induction n arbitrary: i d)
  case (Suc n)
  let ?p = "dstPtr + 2 * i" and ?r = "unitsToLe (map ucast (slice (i + 1) n src))"
  have "slice i (Suc n) src = src ! i # slice (i + 1) n src"
    using Suc.prems(2) by (simp add: slice_def Cons_nth_drop_Suc [symmetric])
  then have r: "unitsToLe (map ucast (slice i (Suc n) src)) = [src ! i, 0] @ ?r"
    using unitsToLe_append [of "[ucast (src ! i)]" "map ucast (slice (i + 1) n src)"] unitsToLe_latin1 [of "src ! i"]
    by simp
  have "widenElems src dstPtr (i + 1) n (splice ?p [src ! i, 0] d) =
      (Inr (), splice (dstPtr + 2 * (i + 1)) ?r (splice ?p [src ! i, 0] d))"
    using Suc.prems by (intro Suc.IH) simp_all
  also have "\<dots> = (Inr (), splice ?p ([src ! i, 0] @ ?r) d)"
    using Suc.prems splice_append [of ?p "[src ! i, 0]" ?r d] by (simp add: slice_def algebra_simps)
  finally show ?case unfolding r using Suc.prems splice_two [of ?p d "src ! i" 0]
    by (simp add: bindM_def elemAt_def)
qed (simp add: run_simps slice_def)

section \<open>Code points\<close>

lemma or_add_low:
  fixes a b :: nat
  assumes "b < 2 ^ k"
  shows "or (push_bit k a) b = push_bit k a + b"
proof -
  have low: "n < k" if n: "bit b n" for n
  proof -
    have "take_bit k b = b" by (rule take_bit_nat_eq_self) (rule assms)
    then show ?thesis using n bit_take_bit_iff by metis
  qed
  have "and (push_bit k a) b = 0" by (intro bit_eqI) (auto simp: bit_and_iff bit_push_bit_iff dest: low)
  then show ?thesis by (simp add: disjunctive_add_eq_or)
qed

lemma utf8_marks:
  fixes x :: nat
  shows "x < 0x40 \<Longrightarrow> or 0x80 x = 0x80 + x" "x < 0x20 \<Longrightarrow> or 0xc0 x = 0xc0 + x"
    "x < 0x10 \<Longrightarrow> or 0xe0 x = 0xe0 + x" "x < 0x8 \<Longrightarrow> or 0xf0 x = 0xf0 + x"
  using or_add_low [of x 6 2] or_add_low [of x 5 6] or_add_low [of x 4 14] or_add_low [of x 3 30]
  by (simp_all add: push_bit_eq_mult)

lemma low_six: "and (x :: nat) 0x3f = x mod 0x40"
  using take_bit_eq_mask [of 6 x] by (simp add: take_bit_eq_mod mask_eq_exp_minus_1)

lemma utf8Parts_bytes: "c < 0x110000 \<Longrightarrow> map word_of_nat (utf8Parts (Some c)) = utf8Bytes c"
  by (simp add: utf8Parts_def utf8Bytes_def low_six drop_bit_eq_div utf8_marks)

lemma utf8Len_length: "utf8Len c = length (utf8Parts (Some c))"
  by (simp add: utf8Len_def utf8Parts_def)

lemma length_utf8Bytes: "length (utf8Bytes c) = utf8Len c"
  by (simp add: utf8Len_def utf8Bytes_def)

lemma encodeUtf8At_run:
  assumes "c < 0x110000" "p + utf8Len c \<le> length d"
  shows "encodeUtf8At p (Some c) d = (Inr (utf8Len c), splice p (utf8Bytes c) d)"
  using assms storeElems_run [of p "utf8Parts (Some c)" d]
  by (simp add: encodeUtf8At_def utf8Len_length utf8Parts_bytes bindM_def run_simps)

lemma scalar_lt: "isScalar c \<Longrightarrow> c < 0x110000"
  by (auto simp: isScalar_def)

lemma bindM_returnM: "bindM m returnM = m" "bindM m (\<lambda>_. returnM ()) = m"
  by (intro ext; simp add: bindM_def returnM_def split: prod.splits sum.splits)+

lemma encodeUtf16At_run:
  assumes "c < 0x110000" "p + 2 * (a + length (unitsOf c)) \<le> length d"
  shows "encodeUtf16At p a c d = (Inr (length (unitsOf c)), splice (p + 2 * a) (unitsToLe (unitsOf c)) d)"
proof -
  have "and (x :: nat) 0x3ff = x mod 0x400" for x
    using take_bit_eq_mask [of 10 x] by (simp add: take_bit_eq_mod mask_eq_exp_minus_1)
  then have "encodeUtf16At p a c d = bindM (storeUnits (p + 2 * a) (unitsOf c)) (\<lambda>_. returnM (length (unitsOf c))) d"
    by (simp add: encodeUtf16At_def unitsOf_def drop_bit_eq_div bindM_returnM bindM_assoc numeral_2_eq_2 [symmetric])
  also have "\<dots> = (Inr (length (unitsOf c)), splice (p + 2 * a) (unitsToLe (unitsOf c)) d)"
    using storeUnits_run [of "p + 2 * a" "unitsOf c" d] assms(2) by (simp add: bindM_def run_simps)
  finally show ?thesis .
qed

section \<open>The UTF-16 generator\<close>

lemma length_leToUnits: "length (leToUnits bs) = length bs div 2"
  by (induction bs rule: leToUnits.induct) simp_all

lemma leToUnits_nth:
  "2 * i + 2 \<le> length bs \<Longrightarrow> leToUnits bs ! i = or (ucast (bs ! (2 * i))) (push_bit 8 (ucast (bs ! (2 * i + 1))))"
proof (induction bs arbitrary: i rule: leToUnits.induct)
  case (1 a b bs)
  then show ?case by (cases i) auto
qed simp_all

lemma getUint16_units: "2 * i + 2 \<le> length bs \<Longrightarrow> getUint16 bs (2 * i) = Inr (leToUnits bs ! i)"
  by (simp add: getUint16_def leToUnits_nth)

lemma nextScalar_spec:
  assumes "nextScalar bs 0 units i = Inr (c, n)" "i < units" "2 * units \<le> length bs"
  shows "isScalar c \<and> n = length (unitsOf c) \<and> i + n \<le> units \<and> take n (drop i (leToUnits bs)) = unitsOf c"
proof -
  let ?us = "leToUnits bs"
  let ?u = "?us ! i"
  have l: "units \<le> length ?us" using assms(3) by (simp add: length_leToUnits)
  have u: "getUint16 bs (2 * i) = Inr ?u" using assms(2,3) by (intro getUint16_units) simp
  have b: "unat ?u < 0x10000" using unsigned_less [of ?u] by simp
  show ?thesis
  proof (cases "unat ?u < 0xd800 \<or> unat ?u > 0xdfff")
    case True
    then have c: "c = unat ?u" "n = 1" using assms(1) u by (auto simp: nextScalar_def)
    then show ?thesis using True b assms(2) l
      by (auto simp: isScalar_def unitsOf_def take_Suc hd_drop_conv_nth)
  next
    case False
    then have i: "unat ?u < 0xdc00" "i + 1 < units" using assms(1) u by (auto simp: nextScalar_def bindR_eq_Inr)
    let ?v = "?us ! (i + 1)"
    have v: "getUint16 bs (2 * (i + 1)) = Inr ?v" using i(2) assms(3) by (intro getUint16_units) simp
    have h: "isHigh ?u" "isLow ?v" "c = surrogatePair ?u ?v" "n = 2"
      using assms(1) u v i False
      by (auto simp: nextScalar_def bindR_eq_Inr isHigh_def isLow_def surrogatePair_def push_bit_eq_mult)
    have "take 2 (drop i ?us) = [?u, ?v]"
      using i(2) l by (simp add: numeral_2_eq_2 take_Suc_conv_app_nth)
    then show ?thesis using h i(2) surrogatePair_scalar(1) [OF h(1,2)] unitsOf_surrogatePair [OF h(1,2)] by simp
  qed
qed

text \<open>Every item is a scalar with its width; the items are the units read, all of them when there is no error.\<close>

definition itemsOk :: "(nat \<times> nat) list \<Rightarrow> bool" where
  "itemsOk items \<longleftrightarrow> list_all (\<lambda>x. isScalar (fst x) \<and> snd x = length (unitsOf (fst x))) items"

lemma decode_items:
  assumes "decodeUtf16OrTrap bs 0 units i = (items, e)" "i \<le> units" "2 * units \<le> length bs"
  shows "itemsOk items \<and> (\<exists>tl. drop i (take units (leToUnits bs)) = unitsOfAll (map fst items) @ tl \<and> (e = None \<longrightarrow> tl = []))"
  using assms
proof (induction bs "0 :: nat" units i arbitrary: items e rule: decodeUtf16OrTrap.induct)
  case (1 bs units i)
  show ?case
  proof (cases "i \<ge> units")
    case True
    then show ?thesis using 1(2,3) by (simp add: decodeUtf16OrTrap.simps [of bs] itemsOk_def unitsOfAll_def)
  next
    case False
    show ?thesis
    proof (cases "nextScalar bs 0 units i")
      case (Inl x)
      then show ?thesis using 1(2) False by (auto simp: decodeUtf16OrTrap.simps [of bs] itemsOk_def unitsOfAll_def)
    next
      case (Inr cn)
      obtain c n where cn: "cn = (c, n)" by (cases cn)
      obtain xs where xs: "decodeUtf16OrTrap bs 0 units (i + n) = (xs, e)" "items = (c, n) # xs"
        using 1(2) False Inr cn by (auto simp: decodeUtf16OrTrap.simps [of bs 0 units i] split: prod.splits)
      have sp: "isScalar c" "n = length (unitsOf c)" "i + n \<le> units" "take n (drop i (leToUnits bs)) = unitsOf c"
        using nextScalar_spec [of bs units i c n] Inr cn False 1(4) by auto
      obtain tl where ih: "itemsOk xs" "drop (i + n) (take units (leToUnits bs)) = unitsOfAll (map fst xs) @ tl"
        "e = None \<longrightarrow> tl = []"
        using "1.hyps" [OF False Inr] xs(1) sp(3) 1(4) cn by auto
      have "drop i (take units (leToUnits bs)) = take n (drop i (leToUnits bs)) @ drop (i + n) (take units (leToUnits bs))"
        using sp(3) take_add [of n "units - (i + n)" "drop i (leToUnits bs)"]
        by (simp add: drop_take add.commute)
      then show ?thesis using ih sp xs(2) by (auto simp: itemsOk_def unitsOfAll_def)
    qed
  qed
qed

section \<open>UTF-8 that decodes is the encoding of what it decodes to\<close>

lemma div_mod_digits:
  fixes p q r :: nat
  shows "q < m \<Longrightarrow> (p * m + q) div m = p" "q < m \<Longrightarrow> (p * m + q) mod m = q"
  by simp_all

lemma utf8_pair:
  assumes "leadRange (unat a) = Some (2, lo, hi)" "lo \<le> unat b" "unat b \<le> hi"
    "n = (unat a - 0xc0) * 0x40 + (unat b - 0x80)"
  shows "isScalar n \<and> utf8Bytes n = [a, b]"
proof -
  have r: "0xc2 \<le> unat a" "unat a \<le> 0xdf" "0x80 \<le> unat b" "unat b \<le> 0xbf"
    using assms(1-3) by (auto simp: leadRange_def split: if_splits)
  define x y where "x = unat a - 0xc0" and "y = unat b - 0x80"
  have n: "n = x * 0x40 + y" "y < 0x40" "2 \<le> x" "x < 0x20" "0xc0 + x = unat a" "0x80 + y = unat b"
    using assms(4) r by (simp_all add: x_def y_def)
  then have "n div 0x40 = x" "n mod 0x40 = y" by simp_all
  moreover have "0x80 \<le> n" "n < 0x800" using n by linarith+
  ultimately show ?thesis using n(5,6) by (simp add: utf8Bytes_def isScalar_def flip: of_nat_add)
qed

lemma utf8_triple:
  assumes "leadRange (unat a) = Some (3, lo, hi)" "lo \<le> unat b" "unat b \<le> hi" "isCont (unat c)"
    "n = (unat a - 0xe0) * 0x1000 + (unat b - 0x80) * 0x40 + (unat c - 0x80)"
  shows "isScalar n \<and> utf8Bytes n = [a, b, c]"
proof -
  define x y z where "x = unat a - 0xe0" and "y = unat b - 0x80" and "z = unat c - 0x80"
  have r: "0xe0 \<le> unat a" "unat a \<le> 0xef" "0x80 \<le> unat b" "unat b \<le> 0xbf" "0x80 \<le> unat c" "unat c \<le> 0xbf"
    "unat a = 0xe0 \<Longrightarrow> 0xa0 \<le> unat b" "unat a = 0xed \<Longrightarrow> unat b \<le> 0x9f"
    using assms(1-4) by (auto simp: leadRange_def isCont_def split: if_splits)
  then have n: "n = (x * 0x40 + y) * 0x40 + z" "y < 0x40" "z < 0x40" "x < 0x10"
    "0xe0 + x = unat a" "0x80 + y = unat b" "0x80 + z = unat c"
    using assms(5) by (simp_all add: x_def y_def z_def algebra_simps)
  have e: "x = 0 \<longrightarrow> 0x20 \<le> y" "x = 13 \<longrightarrow> y < 0x20"
    using r(7,8) n(5,6) by auto
  have d: "n div 0x40 = x * 0x40 + y" "n mod 0x40 = z" unfolding n(1) by (rule div_mod_digits [OF n(3)])+
  have "n div 0x40 div 0x40 = n div 0x1000" by (simp flip: div_mult2_eq)
  then have "n div 0x1000 = x" using d n(2) by simp
  moreover have "n div 0x40 mod 0x40 = y" using d n(2) by simp
  moreover have "0x800 \<le> n" using n(1) e(1) by (cases x) auto
  moreover have "n < 0x10000" using n(1-4) by simp
  moreover have "n < 0xd800 \<or> 0xe000 \<le> n"
  proof (cases "x < 13")
    case False
    then show ?thesis using n(1-3) e(2) by (cases "x = 13") (auto, linarith?)
  qed (use n(1-3) in simp)
  then have "isScalar n" using \<open>n < 0x10000\<close> by (auto simp: isScalar_def)
  ultimately show ?thesis using n(5-7) d by (simp add: utf8Bytes_def flip: of_nat_add)
qed

lemma utf8_quad:
  assumes "leadRange (unat a) = Some (4, lo, hi)" "lo \<le> unat b" "unat b \<le> hi" "isCont (unat c)" "isCont (unat d)"
    "n = (unat a - 0xf0) * 0x40000 + (unat b - 0x80) * 0x1000 + (unat c - 0x80) * 0x40 + (unat d - 0x80)"
  shows "isScalar n \<and> utf8Bytes n = [a, b, c, d]"
proof -
  define x y z w where "x = unat a - 0xf0" and "y = unat b - 0x80" and "z = unat c - 0x80" and "w = unat d - 0x80"
  have r: "0xf0 \<le> unat a" "unat a \<le> 0xf4" "0x80 \<le> unat b" "unat b \<le> 0xbf" "0x80 \<le> unat c" "unat c \<le> 0xbf"
    "0x80 \<le> unat d" "unat d \<le> 0xbf" "unat a = 0xf0 \<Longrightarrow> 0x90 \<le> unat b" "unat a = 0xf4 \<Longrightarrow> unat b \<le> 0x8f"
    using assms(1-5) by (auto simp: leadRange_def isCont_def split: if_splits)
  then have n: "n = ((x * 0x40 + y) * 0x40 + z) * 0x40 + w" "y < 0x40" "z < 0x40" "w < 0x40" "x < 5"
    "0xf0 + x = unat a" "0x80 + y = unat b" "0x80 + z = unat c" "0x80 + w = unat d"
    using assms(6) by (simp_all add: x_def y_def z_def w_def algebra_simps)
  have e: "x = 0 \<longrightarrow> 0x10 \<le> y" "x = 4 \<longrightarrow> y < 0x10"
    using r(9,10) n(6,7) by auto
  have d: "n div 0x40 = (x * 0x40 + y) * 0x40 + z" "n mod 0x40 = w" unfolding n(1) by (rule div_mod_digits [OF n(4)])+
  have q: "n div 0x40 div 0x40 = n div 0x1000" "n div 0x1000 div 0x40 = n div 0x40000" by (simp_all flip: div_mult2_eq)
  have d2: "n div 0x1000 = x * 0x40 + y" "n div 0x40 mod 0x40 = z"
    unfolding q(1) [symmetric] d(1) by (rule div_mod_digits [OF n(3)])+
  have "n div 0x40000 = x" "n div 0x1000 mod 0x40 = y"
    unfolding q(2) [symmetric] d2(1) by (rule div_mod_digits [OF n(2)])+
  moreover have "0x10000 \<le> n" using n(1) e(1) by (cases x) auto
  moreover have "n < 0x110000" using n(1-5) e(2) by (cases "x = 4") (auto, linarith?)
  ultimately show ?thesis using n(6-9) d d2 by (simp add: utf8Bytes_def isScalar_def flip: of_nat_add)
qed

lemma leadRange_width: "leadRange x = Some (w, lo, hi) \<Longrightarrow> w = 2 \<or> w = 3 \<or> w = 4"
  by (auto simp: leadRange_def split: if_splits)

lemma utf8Scalars_inv: "utf8Scalars bs = Some ns \<Longrightarrow> list_all isScalar ns \<and> concat (map utf8Bytes ns) = bs"
proof (induction bs arbitrary: ns rule: utf8Scalars.induct)
  case (2 a bs)
  show ?case
  proof (cases "unat a < 0x80")
    case True
    then obtain ms where ms: "utf8Scalars bs = Some ms" "ns = unat a # ms"
      using "2.prems" by (auto simp: utf8Scalars.simps(2))
    then show ?thesis using "2.IH"(1) [OF True ms(1)] True by (simp add: utf8Bytes_def isScalar_def)
  next
    case False
    then obtain w lo hi b bs1 where b: "leadRange (unat a) = Some (w, lo, hi)" "bs = b # bs1" "lo \<le> unat b" "unat b \<le> hi"
      using "2.prems" by (auto simp: utf8Scalars.simps(2) split: option.splits list.splits if_splits)
    consider "w = 2" | "w = 3" | "w = 4" using leadRange_width [OF b(1)] by blast
    then show ?thesis
    proof cases
      case 1
      then obtain ms where ms: "utf8Scalars bs1 = Some ms" "ns = ((unat a - 0xc0) * 0x40 + (unat b - 0x80)) # ms"
        using "2.prems" False b by (auto simp: utf8Scalars.simps(2))
      have "list_all isScalar ms \<and> concat (map utf8Bytes ms) = bs1"
        using "2.IH"(2) [OF False b(1) refl refl b(2) _ _ ms(1)] b(3,4) 1 by simp
      then show ?thesis using utf8_pair [OF b(1) [unfolded 1] b(3,4) refl] b(2) ms(2) by simp
    next
      case 2
      then obtain c bs2 ms where ms: "bs1 = c # bs2" "isCont (unat c)" "utf8Scalars bs2 = Some ms"
        "ns = ((unat a - 0xe0) * 0x1000 + (unat b - 0x80) * 0x40 + (unat c - 0x80)) # ms"
        using "2.prems" False b by (auto simp: utf8Scalars.simps(2) split: list.splits if_splits)
      have "list_all isScalar ms \<and> concat (map utf8Bytes ms) = bs2"
        using "2.IH"(3) [OF False b(1) refl refl b(2) _ _ ms(1) _ _ ms(3)] b(3,4) 2 ms(2) by simp
      then show ?thesis using utf8_triple [OF b(1) [unfolded 2] b(3,4) ms(2) refl] b(2) ms(1,4) by simp
    next
      case 3
      then obtain c bs2 d bs3 ms where ms: "bs1 = c # bs2" "isCont (unat c)" "bs2 = d # bs3" "isCont (unat d)" "utf8Scalars bs3 = Some ms"
        "ns = ((unat a - 0xf0) * 0x40000 + (unat b - 0x80) * 0x1000 + (unat c - 0x80) * 0x40 + (unat d - 0x80)) # ms"
        using "2.prems" False b by (auto simp: utf8Scalars.simps(2) split: list.splits if_splits)
      have "list_all isScalar ms \<and> concat (map utf8Bytes ms) = bs3"
        using "2.IH"(4) [OF False b(1) refl refl b(2) _ _ ms(1) _ _ ms(3) _ ms(5)] b(3,4) 3 ms(2,4) by simp
      then show ?thesis using utf8_quad [OF b(1) [unfolded 3] b(3,4) ms(2,4) refl] b(2) ms(1,3,6) by simp
    qed
  qed
qed simp

lemma utf8_units_le: "list_all isScalar ns \<Longrightarrow> length (unitsOfAll ns) \<le> length (concat (map utf8Bytes ns))"
proof -
  have "length (unitsOf n) \<le> length (utf8Bytes n)" for n by (simp add: unitsOf_def utf8Bytes_def)
  then show ?thesis by (induction ns) (auto simp: unitsOfAll_def intro: add_mono)
qed

section \<open>What a transcoder promises\<close>

datatype Enc = Enc8 | Enc16 | EncL

fun decodeAs :: "Enc \<Rightarrow> 8 word list \<Rightarrow> nat list option" where
  "decodeAs Enc8 bs = utf8Scalars bs"
| "decodeAs Enc16 bs = (if odd (length bs) \<or> \<not> wellFormed (leToUnits bs) then None else Some (scalarValues (leToUnits bs)))"
| "decodeAs EncL bs = Some (map unat bs)"

fun encodeAs :: "Enc \<Rightarrow> nat list \<Rightarrow> 8 word list" where
  "encodeAs Enc8 xs = concat (map utf8Bytes xs)"
| "encodeAs Enc16 xs = unitsToLe (unitsOfAll xs)"
| "encodeAs EncL xs = map word_of_nat xs"

definition sourceEnc :: "TranscodeOp \<Rightarrow> Enc" where
  "sourceEnc op =
     (if op \<in> {Utf8ToUtf8, Utf8ToUtf16, Utf8ToLatin1, Utf8ToCompactUtf16} then Enc8
      else if op \<in> {Latin1ToLatin1, Latin1ToUtf16, Latin1ToUtf8} then EncL else Enc16)"

definition sourceWidth :: "TranscodeOp \<Rightarrow> nat" where
  "sourceWidth op = (if sourceEnc op = Enc16 then 2 else 1)"

definition targetEnc :: "TranscodeOp \<Rightarrow> nat list \<Rightarrow> Enc" where
  "targetEnc op xs =
     (if op \<in> {Utf8ToUtf8, Utf16ToUtf8, Latin1ToUtf8} then Enc8
      else if op \<in> {Latin1ToLatin1, Utf8ToLatin1, Utf16ToLatin1} then EncL
      else if op = Utf16ToCompactProbablyUtf16 \<and> list_all (\<lambda>c. c \<le> 0xff) xs then EncL else Enc16)"

text \<open>What the destination already holds in latin1, and the room the adapter has allocated.\<close>

definition kept :: "TranscodeOp \<Rightarrow> nat \<Rightarrow> 8 word list \<Rightarrow> nat list" where
  "kept op n region = (if op \<in> {Utf8ToCompactUtf16, Utf16ToCompactUtf16} then map unat (take n region) else [])"

definition room :: "TranscodeOp \<Rightarrow> nat \<Rightarrow> nat \<Rightarrow> nat \<Rightarrow> nat" where
  "room op srcLen dstLen n =
     (case op of
        Utf16ToUtf8 \<Rightarrow> dstLen | Latin1ToUtf8 \<Rightarrow> dstLen | Utf8ToCompactUtf16 \<Rightarrow> 2 * dstLen
      | Utf16ToCompactUtf16 \<Rightarrow> 2 * (n + srcLen)
      | _ \<Rightarrow> if op \<in> {Latin1ToLatin1, Utf8ToUtf8, Utf8ToLatin1, Utf16ToLatin1} then srcLen else 2 * srcLen)"

definition partial :: "TranscodeOp \<Rightarrow> bool" where
  "partial op \<longleftrightarrow> op \<in> {Utf8ToLatin1, Utf16ToLatin1, Utf16ToUtf8, Latin1ToUtf8}"

definition reported :: "TranscodeOp \<Rightarrow> nat \<Rightarrow> nat list \<Rightarrow> 8 word list \<Rightarrow> TranscodeResult" where
  "reported op read xs bs =
     (if partial op then TwoResults read (length bs)
      else if op \<in> {Latin1ToLatin1, Utf8ToUtf8, Utf16ToUtf16, Latin1ToUtf16} then NoResult
      else if op = Utf16ToCompactProbablyUtf16
      then OneResult (if targetEnc op xs = EncL then length bs else or (length bs div 2) UTF16_TAG)
      else OneResult (length bs div 2))"

text \<open>Why a partial transcoder may stop before the scalar \<open>c\<close>, having written \<open>bs\<close>.\<close>

definition mayStop :: "TranscodeOp \<Rightarrow> nat \<Rightarrow> nat \<Rightarrow> 8 word list \<Rightarrow> nat \<Rightarrow> bool" where
  "mayStop op n dstLen bs c \<longleftrightarrow>
     (if op \<in> {Utf8ToLatin1, Utf16ToLatin1} then c > 0xff
      else n \<noteq> 0 \<and> c \<ge> 0x80 \<or> length bs + length (utf8Bytes c) > dstLen)"

definition transcoded :: "TranscodeOp \<Rightarrow> 8 word list \<Rightarrow> nat \<Rightarrow> nat \<Rightarrow> nat \<Rightarrow> nat \<Rightarrow> 8 word list \<Rightarrow> TranscodeResult \<Rightarrow> 8 word list \<Rightarrow> bool" where
  "transcoded op src srcLen n dstLen dstPtr d out d' \<longleftrightarrow>
     (\<exists>xs read bs junk.
        decodeAs (sourceEnc op) (take (sourceWidth op * read) src) = Some xs \<and>
        read \<le> srcLen \<and> (\<not> partial op \<longrightarrow> read = srcLen) \<and>
        (targetEnc op xs = EncL \<longrightarrow> list_all (\<lambda>c. c \<le> 0xff) xs) \<and>
        bs = encodeAs (targetEnc op xs) (kept op n (drop dstPtr d) @ xs) \<and>
        out = reported op read xs bs \<and>
        d' = splice dstPtr (bs @ junk) d \<and> length (bs @ junk) \<le> room op srcLen dstLen n \<and>
        (\<forall>c k. decodeAs (sourceEnc op) (take k (drop (sourceWidth op * read) src)) = Some [c] \<longrightarrow> mayStop op n dstLen bs c))"

lemma transcodedI:
  assumes "decodeAs (sourceEnc op) (take (sourceWidth op * read) src) = Some xs" "read \<le> srcLen"
    "\<not> partial op \<Longrightarrow> read = srcLen" "targetEnc op xs = EncL \<Longrightarrow> list_all (\<lambda>c. c \<le> 0xff) xs"
    "bs = encodeAs (targetEnc op xs) (kept op n (drop dstPtr d) @ xs)" "out = reported op read xs bs"
    "d' = splice dstPtr (bs @ junk) d" "length (bs @ junk) \<le> room op srcLen dstLen n"
    "\<And>c k. decodeAs (sourceEnc op) (take k (drop (sourceWidth op * read) src)) = Some [c] \<Longrightarrow> mayStop op n dstLen bs c"
  shows "transcoded op src srcLen n dstLen dstPtr d out d'"
  using assms unfolding transcoded_def by blast

lemma decodeAs_nil: "decodeAs e [] = Some []"
  by (cases e) simp_all

text \<open>The operations that read the whole source.\<close>

lemma transcoded_whole:
  assumes "\<not> partial op" "length src = sourceWidth op * srcLen" "decodeAs (sourceEnc op) src = Some xs"
    "targetEnc op xs = EncL \<Longrightarrow> list_all (\<lambda>c. c \<le> 0xff) xs"
    "bs = encodeAs (targetEnc op xs) (kept op n (drop dstPtr d) @ xs)" "out = reported op srcLen xs bs"
    "d' = splice dstPtr (bs @ junk) d" "length (bs @ junk) \<le> room op srcLen dstLen n"
  shows "transcoded op src srcLen n dstLen dstPtr d out d'"
proof (rule transcodedI [OF _ order_refl _ assms(4-8)])
  show "mayStop op n dstLen bs c" if "decodeAs (sourceEnc op) (take k (drop (sourceWidth op * srcLen) src)) = Some [c]" for c k
    using that assms(2) by (simp add: decodeAs_nil)
qed (use assms(2,3) in simp_all)

section \<open>The operations that read the whole source\<close>

lemma setBytes_run: "setBytes p bs d = (Inr (), d') \<Longrightarrow> d' = splice p bs d \<and> p + length bs \<le> length d"
  by (auto simp: setBytes_def run_simps split: if_splits)

lemma leToUnits_take: "leToUnits (take (2 * n) bs) = take n (leToUnits bs)"
  apply (induction bs arbitrary: n rule: leToUnits.induct)
  subgoal for a b bs n by (cases n) simp_all
  subgoal by simp
  subgoal for v n by (cases n) simp_all
  done

lemma unitsToLe_leToUnits: "even (length bs) \<Longrightarrow> unitsToLe (leToUnits bs) = bs"
proof (induction bs rule: leToUnits.induct)
  case (1 a b bs)
  have "ucast (or (ucast a) (push_bit 8 (ucast b)) :: 16 word) = a"
    by (rule bit_word_eqI) (auto simp: bit_ucast_iff bit_or_iff bit_push_bit_iff)
  moreover have "ucast (drop_bit 8 (or (ucast a) (push_bit 8 (ucast b)) :: 16 word)) = b"
    by (rule bit_word_eqI) (auto simp: bit_ucast_iff bit_or_iff bit_push_bit_iff bit_drop_bit_eq dest: bit_imp_le_length)
  ultimately show ?case using 1 by simp
qed simp_all

lemma wellFormed_unitsOfAll: "list_all isScalar xs \<Longrightarrow> wellFormed (unitsOfAll xs)"
  by (induction xs) (simp_all add: unitsOfAll_def wellFormed_unitsOf_app)

lemma decodeAs_16:
  assumes "even (length bs)" "leToUnits bs = unitsOfAll xs" "list_all isScalar xs"
  shows "decodeAs Enc16 bs = Some xs"
  using assms wellFormed_unitsOfAll scalarValues_unitsOfAll [of xs] by (simp add: list_all_iff)

text \<open>A generator without an error has yielded the scalars of the whole source.\<close>

lemma decode_whole:
  assumes "decodeUtf16OrTrap src 0 n 0 = (items, None)" "length src = 2 * n"
  shows "itemsOk items" "leToUnits src = unitsOfAll (map fst items)" "decodeAs Enc16 src = Some (map fst items)"
    "src = unitsToLe (unitsOfAll (map fst items))"
proof -
  show o: "itemsOk items" and u: "leToUnits src = unitsOfAll (map fst items)"
    using decode_items [OF assms(1)] assms(2) by (auto simp: length_leToUnits)
  have "list_all isScalar (map fst items)" using o by (simp add: itemsOk_def list_all_iff)
  then show "decodeAs Enc16 src = Some (map fst items)" using decodeAs_16 [OF _ u] assms(2) by simp
  show "src = unitsToLe (unitsOfAll (map fst items))" using unitsToLe_leToUnits [of src] assms(2) u by simp
qed

lemma endOf_Inr: "endOf e s = (Inr u, t) \<longleftrightarrow> e = None \<and> t = s"
  by (cases e) (auto simp: endOf_def run_simps)

lemma decodeUtf8_Inr:
  assumes "decodeUtf8OrTrap bs = Inr s"
  obtains xs where "utf8Scalars bs = Some xs" "s = unitsOfAll xs" "list_all isScalar xs" "concat (map utf8Bytes xs) = bs"
  using assms utf8Scalars_inv by (auto simp: decodeUtf8OrTrap_def utf8Decode_def split: option.splits)

lemma latin1_scalars:
  fixes bs :: "8 word list"
  shows "list_all isScalar (map unat bs)" "list_all (\<lambda>c. c \<le> 0xff) (map unat bs)" "map word_of_nat (map unat bs) = bs"
    "unitsOfAll (map unat bs) = map ucast bs"
proof -
  have u: "unat b < 256" for b :: "8 word" using unsigned_less [of b, where 'a = nat] by simp
  have b: "unat b < 0xd800" "unat b \<le> 0xff" for b :: "8 word" using u [of b] by simp_all
  show "list_all isScalar (map unat bs)" "list_all (\<lambda>c. c \<le> 0xff) (map unat bs)"
    using b by (simp_all add: list_all_iff isScalar_def)
  show "map word_of_nat (map unat bs) = bs" by (induction bs) simp_all
  show "unitsOfAll (map unat bs) = map ucast bs"
  proof (induction bs)
    case (Cons x bs)
    have "unat x < 0x10000" using b(2) [of x] by simp
    moreover have "word_of_nat (unat x) = (ucast x :: 16 word)" by (simp add: unsigned_of_nat)
    ultimately show ?case using Cons by (simp add: unitsOfAll_def unitsOf_def)
  qed (simp add: unitsOfAll_def)
qed

lemma take_map_all: "n = length xs \<Longrightarrow> take n xs = xs"
  by simp

lemma latin1ToLatin1_ok:
  assumes "setBytes p src d = (Inr (), d')" "length src = srcLen"
  shows "transcoded Latin1ToLatin1 src srcLen n dstLen p d NoResult d'"
proof (rule transcoded_whole [where xs = "map unat src" and junk = "[]" and bs = src])
qed (use assms setBytes_run [OF assms(1)] latin1_scalars [of src] in
    \<open>simp_all add: partial_def sourceWidth_def sourceEnc_def targetEnc_def kept_def reported_def room_def\<close>)

lemma utf8ToUtf8_ok:
  assumes "decodeUtf8OrTrap src = Inr s" "setBytes p src d = (Inr (), d')" "length src = srcLen"
  shows "transcoded Utf8ToUtf8 src srcLen n dstLen p d NoResult d'"
proof -
  obtain xs where xs: "utf8Scalars src = Some xs" "concat (map utf8Bytes xs) = src" by (rule decodeUtf8_Inr [OF assms(1)])
  show ?thesis
    by (rule transcoded_whole [where xs = xs and junk = "[]" and bs = src])
      (use assms(3) xs setBytes_run [OF assms(2)] in
        \<open>simp_all add: partial_def sourceWidth_def sourceEnc_def targetEnc_def kept_def reported_def room_def\<close>)
qed

lemma utf16ToUtf16_ok:
  assumes "decodeUtf16OrTrap src 0 srcLen 0 = (items, None)" "setBytes p src d = (Inr (), d')" "length src = 2 * srcLen"
  shows "transcoded Utf16ToUtf16 src srcLen n dstLen p d NoResult d'"
  by (rule transcoded_whole [where xs = "map fst items" and junk = "[]" and bs = src])
    (use decode_whole [OF assms(1,3)] assms(3) setBytes_run [OF assms(2)] in
      \<open>simp_all add: partial_def sourceWidth_def sourceEnc_def targetEnc_def kept_def reported_def room_def del: decodeAs.simps\<close>)

lemma latin1ToUtf16_ok:
  assumes "length src = srcLen" "p + 2 * srcLen \<le> length d"
  shows "transcoded Latin1ToUtf16 src srcLen n dstLen p d NoResult (snd (widenElems src p 0 srcLen d))"
  by (rule transcoded_whole [where xs = "map unat src" and junk = "[]" and bs = "unitsToLe (map ucast src)"])
    (use assms widenElems_run [of p 0 srcLen d src] latin1_scalars [of src] in
      \<open>simp_all add: partial_def sourceWidth_def sourceEnc_def targetEnc_def kept_def reported_def room_def slice_def\<close>)

lemma utf8ToUtf16_ok:
  assumes "decodeUtf8OrTrap src = Inr s" "storeUnits p (take srcLen s) d = (Inr (), d')" "length src = srcLen"
    "p + 2 * srcLen \<le> length d"
  shows "transcoded Utf8ToUtf16 src srcLen n dstLen p d (OneResult (length (take srcLen s))) d'"
proof -
  obtain xs where xs: "utf8Scalars src = Some xs" "s = unitsOfAll xs" "list_all isScalar xs" "concat (map utf8Bytes xs) = src"
    by (rule decodeUtf8_Inr [OF assms(1)])
  have l: "length s \<le> srcLen" using utf8_units_le [OF xs(3)] xs(2,4) assms(3) by simp
  then show ?thesis
    using assms(2-4) xs(1,2) storeUnits_run [of p s d]
    by (intro transcoded_whole [where xs = xs and junk = "[]" and bs = "unitsToLe s"])
      (simp_all add: partial_def sourceWidth_def sourceEnc_def targetEnc_def kept_def reported_def room_def)
qed

text \<open>Widening in place, from the last element down.\<close>

lemma inflate_run:
  assumes "p + 2 * n \<le> length d"
  shows "inflateLatin1Bytes p n d = (Inr (), splice p (unitsToLe (map ucast (slice p n d))) d)"
  using assms
proof (induction n arbitrary: d)
  case (Suc n)
  let ?b = "d ! (p + n)"
  let ?d = "d[p + 2 * n := ?b, p + 2 * n + 1 := 0]"
  have d: "?d = splice (p + 2 * n) [?b, 0] d" using Suc.prems splice_two [of "p + 2 * n" d ?b 0] by simp
  have k: "slice p n ?d = slice p n d"
    unfolding d by (rule lm.rd_wr_other) (use Suc.prems in simp_all)
  let ?a = "unitsToLe (map ucast (slice p n d)) :: 8 word list"
  have l: "length ?a = 2 * n" using Suc.prems by simp
  have "slice p (Suc n) d = slice p n d @ [?b]"
    using Suc.prems by (simp add: slice_def take_Suc_conv_app_nth)
  then have "unitsToLe (map ucast (slice p (Suc n) d)) = ?a @ [?b, 0]"
    using unitsToLe_latin1 [of ?b] by simp
  moreover have "inflateLatin1Bytes p n ?d = (Inr (), splice p ?a ?d)"
    using Suc.IH [of ?d] Suc.prems k by simp
  moreover have "splice p ?a ?d = splice p (?a @ [?b, 0]) d"
    unfolding d using splice_prepend [of p ?a "[?b, 0]" d] Suc.prems l by simp
  ultimately show ?case using Suc.prems by (simp add: bindM_def run_simps elemAt_def)
qed (simp add: run_simps slice_def)

lemma inflate_total: "\<exists>d1. inflateLatin1Bytes p n d = (Inr (), d1)"
  by (induction n arbitrary: d) (auto simp: run_simps bindM_def)

text \<open>Compacting in place, from the first element up.\<close>

lemma compact_run:
  assumes "p + 2 * (i + n) \<le> length d"
  shows "compactElems p i n d = (Inr (), splice (p + i) (map (\<lambda>j. d ! (p + 2 * j)) [i..<i + n]) d)"
  using assms
proof (induction n arbitrary: i d)
  case (Suc n)
  let ?d = "d[p + i := d ! (p + 2 * i)]"
  let ?r = "map (\<lambda>j. d ! (p + 2 * j)) [i + 1..<i + 1 + n]"
  have e: "map (\<lambda>j. ?d ! (p + 2 * j)) [i + 1..<i + 1 + n] = ?r"
    using Suc.prems by (intro map_cong) (auto simp: nth_list_update)
  have "compactElems p (i + 1) n ?d = (Inr (), splice (p + (i + 1)) (map (\<lambda>j. ?d ! (p + 2 * j)) [i + 1..<i + 1 + n]) ?d)"
    using Suc.prems by (intro Suc.IH) simp
  then have "compactElems p (i + 1) n ?d = (Inr (), splice (p + i + 1) ?r ?d)"
    unfolding e by (simp only: add.assoc)
  also have "splice (p + i + 1) ?r ?d = splice (p + i) (d ! (p + 2 * i) # ?r) d"
    using Suc.prems by (intro splice_cons) simp_all
  finally have "compactElems p (i + 1) n ?d = (Inr (), splice (p + i) (d ! (p + 2 * i) # ?r) d)" .
  moreover have "[i..<i + Suc n] = i # [i + 1..<i + 1 + n]" by (simp add: upt_conv_Cons)
  ultimately show ?case using Suc.prems by (simp add: bindM_def run_simps elemAt_def del: upt_Suc)
qed (simp add: run_simps)

lemma splice_over:
  assumes "length a \<le> length b" "p + length b \<le> length d"
  shows "splice p a (splice p b d) = splice p (a @ drop (length a) b) d"
  using assms by (simp add: splice_def)

lemma unitsToLe_nth: "j < length us \<Longrightarrow> unitsToLe us ! (2 * j) = ucast (us ! j)"
proof (induction us arbitrary: j)
  case (Cons u us)
  then show ?case by (cases j) simp_all
qed simp

lemma unitsOfAll_small: "list_all (\<lambda>c. c \<le> 0xff) xs \<Longrightarrow> unitsOfAll xs = map word_of_nat xs"
  by (induction xs) (simp_all add: unitsOfAll_def unitsOf_def)

lemma ucast_small: "c \<le> 0xff \<Longrightarrow> ucast (word_of_nat c :: 16 word) = (word_of_nat c :: 8 word)"
  by (simp add: unsigned_of_nat take_bit_nat_eq_self)

lemma compacted:
  assumes "src = unitsToLe (unitsOfAll xs)" "list_all (\<lambda>c. c \<le> 0xff) xs" "p + length src \<le> length d"
  shows "compactElems p 0 (length xs) (splice p src d) = (Inr (), splice p (map word_of_nat xs @ drop (length xs) src) d)"
proof -
  have s: "src = unitsToLe (map word_of_nat xs)" using assms(1) unitsOfAll_small [OF assms(2)] by simp
  have "map (\<lambda>j. splice p src d ! (p + 2 * j)) [0..<length xs] = map word_of_nat xs"
  proof (rule nth_equalityI)
    fix j assume "j < length (map (\<lambda>j. splice p src d ! (p + 2 * j)) [0..<length xs])"
    then have j: "j < length xs" by simp
    then have "splice p src d ! (p + 2 * j) = src ! (2 * j)" using assms(3) s by (simp add: nth_splice)
    also have "\<dots> = word_of_nat (xs ! j)" using s j unitsToLe_nth [of j "map word_of_nat xs"] assms(2)
      by (simp add: ucast_small list_all_length)
    finally show "map (\<lambda>j. splice p src d ! (p + 2 * j)) [0..<length xs] ! j = map word_of_nat xs ! j" using j by simp
  qed simp
  then show ?thesis
    using compact_run [of p 0 "length xs" "splice p src d"] assms(3) s splice_over [of "map word_of_nat xs" src p d] by simp
qed

lemma compactProbably_ok:
  assumes "decodeUtf16OrTrap src 0 srcLen 0 = (items, None)" "length src = 2 * srcLen" "p + 2 * srcLen \<le> length d"
    "(if list_ex (\<lambda>x. fst x > 0xff) items then returnM (OneResult (or srcLen UTF16_TAG))
      else bindM (compactElems p 0 srcLen) (\<lambda>_. returnM (OneResult srcLen))) (splice p src d) = (Inr out, d')"
  shows "transcoded Utf16ToCompactProbablyUtf16 src srcLen n dstLen p d out d'"
proof -
  let ?xs = "map fst items"
  note w = decode_whole [OF assms(1,2)]
  have sm: "list_ex (\<lambda>x. fst x > 0xff) items \<longleftrightarrow> \<not> list_all (\<lambda>c. c \<le> 0xff) ?xs"
    by (induction items) auto
  show ?thesis
  proof (cases "list_all (\<lambda>c. c \<le> 0xff) ?xs")
    case True
    have l: "length ?xs = srcLen"
      using w(2) unitsOfAll_small [OF True] assms(2) length_leToUnits [of src] by (metis length_map nonzero_mult_div_cancel_left zero_neq_numeral)
    have "out = OneResult srcLen" "d' = splice p (map word_of_nat ?xs @ drop srcLen src) d"
      using assms(4) sm True compacted [OF w(4) True, of p d] assms(2,3) l by (auto simp: bindM_def run_simps)
    then show ?thesis using True l assms(2) w(3)
      by (intro transcoded_whole [where xs = ?xs and junk = "drop srcLen src" and bs = "map word_of_nat ?xs"])
        (simp_all add: partial_def sourceWidth_def sourceEnc_def targetEnc_def kept_def reported_def room_def del: decodeAs.simps)
  next
    case False
    then have "out = OneResult (or srcLen UTF16_TAG)" "d' = splice p src d"
      using assms(4) sm by (simp_all add: run_simps)
    then show ?thesis using False assms(2) w(3,4)
      by (intro transcoded_whole [where xs = ?xs and junk = "[]" and bs = src])
        (simp_all add: partial_def sourceWidth_def sourceEnc_def targetEnc_def kept_def reported_def room_def del: decodeAs.simps)
  qed
qed

text \<open>Behind a latin1 prefix that is widened first.\<close>

lemma unitsOfAll_append: "unitsOfAll (xs @ ys) = unitsOfAll xs @ unitsOfAll ys"
  by (simp add: unitsOfAll_def)

lemma storeScalars_run:
  assumes "itemsOk items" "p + 2 * (a + length (unitsOfAll (map fst items))) \<le> length d"
  shows "storeScalars p a items d = (Inr (), splice (p + 2 * a) (unitsToLe (unitsOfAll (map fst items))) d)"
  using assms
proof (induction items arbitrary: a d)
  case (Cons cn items)
  obtain c m where cn: "cn = (c, m)" by (cases cn)
  let ?u = "unitsOf c" and ?r = "unitsOfAll (map fst items)"
  have c: "isScalar c" and o: "itemsOk items" using Cons.prems(1) cn by (simp_all add: itemsOk_def)
  have l: "p + 2 * (a + (length ?u + length ?r)) \<le> length d" using Cons.prems(2) cn by (simp add: unitsOfAll_def)
  have e: "encodeUtf16At p a c d = (Inr (length ?u), splice (p + 2 * a) (unitsToLe ?u) d)"
    by (rule encodeUtf16At_run [OF scalar_lt [OF c]]) (use l in simp)
  have "storeScalars p (a + length ?u) items (splice (p + 2 * a) (unitsToLe ?u) d) =
      (Inr (), splice (p + 2 * (a + length ?u)) (unitsToLe ?r) (splice (p + 2 * a) (unitsToLe ?u) d))"
    using o l by (intro Cons.IH) simp_all
  also have "\<dots> = (Inr (), splice (p + 2 * a) (unitsToLe ?u @ unitsToLe ?r) d)"
    using l splice_append [of "p + 2 * a" "unitsToLe ?u" "unitsToLe ?r" d] by (simp add: algebra_simps)
  finally show ?case using e cn by (simp add: bindM_def unitsOfAll_def)
qed (simp add: run_simps unitsOfAll_def)

lemma behind_prefix:
  assumes "op = Utf8ToCompactUtf16 \<or> op = Utf16ToCompactUtf16" "length src = sourceWidth op * srcLen"
    "decodeAs (sourceEnc op) src = Some xs" "2 * (n + length (unitsOfAll xs)) \<le> room op srcLen dstLen n"
    "p + 2 * (n + length (unitsOfAll xs)) \<le> length d"
    "d' = splice (p + 2 * n) (unitsToLe (unitsOfAll xs)) (splice p (unitsToLe (map ucast (slice p n d))) d)"
  shows "transcoded op src srcLen n dstLen p d (OneResult (n + length (unitsOfAll xs))) d'"
proof -
  let ?a = "unitsToLe (map ucast (slice p n d)) :: 8 word list" and ?b = "unitsToLe (unitsOfAll xs) :: 8 word list"
  have l: "length ?a = 2 * n" using assms(5) by simp
  have "d' = splice p (?a @ ?b) d" using assms(5,6) l splice_append [of p ?a ?b d] by simp
  moreover have "encodeAs Enc16 (map unat (take n (drop p d)) @ xs) = ?a @ ?b"
    using latin1_scalars(4) [of "slice p n d"] by (simp add: unitsOfAll_append slice_def)
  ultimately show ?thesis using assms(1-4) l
    by (intro transcoded_whole [where xs = xs and junk = "[]" and bs = "?a @ ?b"])
      (auto simp: partial_def targetEnc_def kept_def reported_def)
qed

lemma utf8ToCompactUtf16_ok:
  assumes "decodeUtf8OrTrap src = Inr s" "length src = srcLen" "p + 2 * dstLen \<le> length d"
    "bindM (inflateLatin1Bytes p n) (\<lambda>_. bindM (trapIfM (int (length s) > int dstLen - int n) msg) (\<lambda>_.
       bindM (storeUnits (p + 2 * n) s) (\<lambda>_. returnM (OneResult (length s + n))))) d = (Inr out, d')"
  shows "transcoded Utf8ToCompactUtf16 src srcLen n dstLen p d out d'"
proof -
  obtain xs where xs: "utf8Scalars src = Some xs" "s = unitsOfAll xs" by (rule decodeUtf8_Inr [OF assms(1)])
  let ?d = "splice p (unitsToLe (map ucast (slice p n d))) d"
  obtain d1 where "inflateLatin1Bytes p n d = (Inr (), d1)" using inflate_total by blast
  then have c: "n + length s \<le> dstLen" using assms(4) by (auto simp: bindM_def run_simps split: if_splits)
  then have n: "p + 2 * n \<le> length d" using assms(3) by simp
  then have l: "length ?d = length d" by simp
  have "storeUnits (p + 2 * n) s ?d = (Inr (), splice (p + 2 * n) (unitsToLe s) ?d)"
    using c assms(3) l by (intro storeUnits_run) simp
  then have "out = OneResult (n + length s)" "d' = splice (p + 2 * n) (unitsToLe s) ?d"
    using assms(4) inflate_run [OF n] c by (auto simp: bindM_def run_simps)
  then show ?thesis using behind_prefix [of Utf8ToCompactUtf16 src srcLen xs n dstLen p d d'] assms(2,3) c xs
    by (simp add: sourceWidth_def sourceEnc_def room_def)
qed

lemma utf16ToCompactUtf16_ok:
  assumes "decodeUtf16OrTrap src 0 srcLen 0 = (items, e)" "length src = 2 * srcLen" "p + 2 * (n + srcLen) \<le> length d"
    "bindM (inflateLatin1Bytes p n) (\<lambda>_. bindM (storeScalars p n items) (\<lambda>_. bindM (endOf e) (\<lambda>_.
       returnM (OneResult (srcLen + n))))) d = (Inr out, d')"
  shows "transcoded Utf16ToCompactUtf16 src srcLen n dstLen p d out d'"
proof -
  have i: "inflateLatin1Bytes p n d = (Inr (), splice p (unitsToLe (map ucast (slice p n d))) d)"
    using assms(3) by (intro inflate_run) simp
  then have e: "e = None" using assms(4) by (auto simp: bindM_eq_Inr endOf_Inr)
  let ?xs = "map fst items" and ?d = "splice p (unitsToLe (map ucast (slice p n d))) d"
  note w = decode_whole [OF assms(1) [unfolded e] assms(2)]
  have u: "length (unitsOfAll ?xs) = srcLen" using w(2) assms(2) length_leToUnits [of src] by simp
  have l: "length ?d = length d" using assms(3) by simp
  have "storeScalars p n items ?d = (Inr (), splice (p + 2 * n) (unitsToLe (unitsOfAll ?xs)) ?d)"
    using w(1) u assms(3) l by (intro storeScalars_run) simp_all
  then have "out = OneResult (srcLen + n)" "d' = splice (p + 2 * n) (unitsToLe (unitsOfAll ?xs)) ?d"
    using assms(4) i e by (auto simp: bindM_def run_simps endOf_def)
  then show ?thesis using behind_prefix [of Utf16ToCompactUtf16 src srcLen ?xs n dstLen p d d'] assms(2,3) u w(3)
    by (simp add: sourceWidth_def sourceEnc_def room_def add.commute del: decodeAs.simps)
qed

section \<open>The operations that may stop early\<close>

text \<open>The next scalar of UTF-16 is what its units begin with.\<close>

lemma decode16_head:
  assumes "decodeAs Enc16 (take k bs) = Some [c]"
  obtains rest where "leToUnits bs = unitsOf c @ rest" "isScalar c"
proof -
  let ?t = "leToUnits (take k bs)"
  have w: "wellFormed ?t" "scalarValues ?t = [c]" "even (length (take k bs))"
    using assms by (auto split: if_splits)
  then obtain j where j: "length (take k bs) = 2 * j" by blast
  have "take k bs = take (2 * j) bs" using j by (metis length_take min.commute take_take take_all order_refl)
  then have "?t = take j (leToUnits bs)" using leToUnits_take by simp
  moreover have "?t = unitsOf c" using toWellFormed_id [OF w(1)] w(2) by (simp add: toWellFormed_def unitsOfAll_def)
  ultimately have "leToUnits bs = unitsOf c @ drop j (leToUnits bs)" by (metis append_take_drop_id)
  moreover have "isScalar c" using scalarValues_scalar [of c ?t] w(2) by simp
  ultimately show thesis using that by blast
qed

lemma units_head:
  assumes "isScalar c" "isScalar c'" "unitsOf c @ a = unitsOf c' @ b"
  shows "c = c'"
  using scalarValues_unitsOf_app [OF assms(1), of a] scalarValues_unitsOf_app [OF assms(2), of b] assms(3) by simp

lemma leToUnits_drop: "leToUnits (drop (2 * n) bs) = drop n (leToUnits bs)"
  apply (induction bs arbitrary: n rule: leToUnits.induct)
  subgoal for a b bs n by (cases n) simp_all
  subgoal by simp
  subgoal for v n by (cases n) simp_all
  done

text \<open>UTF-16 to UTF-8.\<close>

abbreviation utf8Of :: "(nat \<times> nat) list \<Rightarrow> 8 word list" where
  "utf8Of items \<equiv> concat (map utf8Bytes (map fst items))"

lemma utf16ToUtf8Loop_run:
  assumes "utf16ToUtf8Loop p dstLen fp e r r w items d = (Inr out, d')" "itemsOk items" "w \<le> dstLen" "p + dstLen \<le> length d"
  obtains pre post where "items = pre @ post"
    "out = TwoResults (r + length (unitsOfAll (map fst pre))) (w + length (utf8Of pre))"
    "d' = splice (p + w) (utf8Of pre) d" "w + length (utf8Of pre) \<le> dstLen"
    "post = [] \<and> e = None \<or> (\<exists>c m ps. post = (c, m) # ps \<and> (fp \<and> c \<ge> 0x80 \<or> w + length (utf8Of pre) + length (utf8Bytes c) > dstLen))"
  using assms
proof (induction items arbitrary: r w d thesis)
  case Nil
  from Nil.prems(2) have "e = None" "out = TwoResults r w" "d' = d" by (auto simp: bindM_eq_Inr endOf_Inr run_simps)
  then show ?case using Nil.prems(1) [of "[]" "[]"] Nil.prems(4) by (simp add: unitsOfAll_def)
next
  case (Cons cm items)
  obtain c m where cm: "cm = (c, m)" by (cases cm)
  have c: "isScalar c" "m = length (unitsOf c)" and o: "itemsOk items" using Cons.prems(3) cm by (simp_all add: itemsOk_def)
  have n: "0 < utf8Len c" "utf8Len c \<le> 4" by (simp_all add: utf8Len_def)
  show ?case
  proof (cases "fp \<and> c \<ge> 0x80 \<or> w + utf8Len c > dstLen")
    case True
    then have "fp \<and> c \<ge> 0x80 \<or> dstLen - w < 4 \<and> dstLen - w < utf8Len c" using n Cons.prems(4) by linarith
    then have "out = TwoResults r w" "d' = d" using Cons.prems(2) cm by (auto simp: run_simps split: if_splits)
    then show ?thesis using Cons.prems(1) [of "[]" "cm # items"] True Cons.prems(4) cm by (simp add: unitsOfAll_def length_utf8Bytes)
  next
    case False
    then have f: "\<not> (fp \<and> c \<ge> 0x80)" "\<not> (dstLen - w < 4 \<and> dstLen - w < utf8Len c)" "w + utf8Len c \<le> dstLen" by auto
    let ?d = "splice (p + w) (utf8Bytes c) d"
    have e: "encodeUtf8At (p + w) (Some c) d = (Inr (utf8Len c), ?d)"
      using encodeUtf8At_run [OF scalar_lt [OF c(1)], of "p + w" d] f(3) Cons.prems(5) by simp
    have l: "length ?d = length d" using f(3) Cons.prems(5) by (simp add: length_utf8Bytes)
    have "utf16ToUtf8Loop p dstLen fp e (r + m) (r + m) (w + utf8Len c) items ?d = (Inr out, d')"
      using Cons.prems(2) cm f e by (simp only: utf16ToUtf8Loop.simps if_False bindM_run_Inr [where m = "encodeUtf8At (p + w) (Some c)", OF e])
    then obtain pre post where h: "items = pre @ post"
      "out = TwoResults (r + m + length (unitsOfAll (map fst pre))) (w + utf8Len c + length (utf8Of pre))"
      "d' = splice (p + (w + utf8Len c)) (utf8Of pre) ?d" "w + utf8Len c + length (utf8Of pre) \<le> dstLen"
      "post = [] \<and> e = None \<or> (\<exists>c' m ps. post = (c', m) # ps \<and>
         (fp \<and> c' \<ge> 0x80 \<or> w + utf8Len c + length (utf8Of pre) + length (utf8Bytes c') > dstLen))"
      using Cons.IH [of "r + m" "w + utf8Len c" ?d] o f(3) Cons.prems(5) l by (metis (no_types, lifting))
    have "d' = splice (p + w) (utf8Of (cm # pre)) d"
      using h(3,4) splice_append [of "p + w" "utf8Bytes c" "utf8Of pre" d] Cons.prems(5) cm
      by (simp add: length_utf8Bytes add.assoc)
    then show ?thesis using Cons.prems(1) [of "cm # pre" post] h(1,2,4,5) cm c(2)
      by (simp add: unitsOfAll_def length_utf8Bytes add.assoc)
  qed
qed

lemma utf16ToUtf8_ok:
  assumes "decodeUtf16OrTrap src 0 srcLen 0 = (items, e)" "length src = 2 * srcLen" "p + dstLen \<le> length d"
    "utf16ToUtf8Loop p dstLen (n \<noteq> 0) e 0 0 0 items d = (Inr out, d')"
  shows "transcoded Utf16ToUtf8 src srcLen n dstLen p d out d'"
proof -
  obtain tl where o: "itemsOk items" and tl: "leToUnits src = unitsOfAll (map fst items) @ tl" "e = None \<longrightarrow> tl = []"
    using decode_items [OF assms(1)] assms(2) by (auto simp: length_leToUnits)
  obtain pre post where h: "items = pre @ post"
    "out = TwoResults (length (unitsOfAll (map fst pre))) (length (utf8Of pre))"
    "d' = splice p (utf8Of pre) d" "length (utf8Of pre) \<le> dstLen"
    "post = [] \<and> e = None \<or> (\<exists>c m ps. post = (c, m) # ps \<and> (n \<noteq> 0 \<and> c \<ge> 0x80 \<or> length (utf8Of pre) + length (utf8Bytes c) > dstLen))"
    using utf16ToUtf8Loop_run [OF assms(4) o le0 assms(3), unfolded add_0 add_0_right] by blast
  let ?xs = "map fst pre" and ?r = "length (unitsOfAll (map fst pre))"
  have u: "leToUnits src = unitsOfAll ?xs @ unitsOfAll (map fst post) @ tl" using tl(1) h(1) by (simp add: unitsOfAll_append)
  then have r: "?r \<le> srcLen" using assms(2) length_leToUnits [of src] by simp
  have sc: "list_all isScalar ?xs" "itemsOk post" using o h(1) by (simp_all add: itemsOk_def list_all_iff)
  have dec: "decodeAs Enc16 (take (2 * ?r) src) = Some ?xs"
    by (rule decodeAs_16 [OF _ _ sc(1)]) (use r u assms(2) in \<open>simp_all add: leToUnits_take min_def\<close>)
  have "mayStop Utf16ToUtf8 n dstLen (utf8Of pre) c" if k: "decodeAs Enc16 (take k (drop (2 * ?r) src)) = Some [c]" for c k
  proof -
    obtain rest where rest: "unitsOfAll (map fst post) @ tl = unitsOf c @ rest" "isScalar c"
      using decode16_head [OF k] u by (auto simp: leToUnits_drop)
    then have "unitsOfAll (map fst post) @ tl \<noteq> []" by (simp add: unitsOf_def)
    then obtain c' m ps where c': "post = (c', m) # ps" "n \<noteq> 0 \<and> c' \<ge> 0x80 \<or> length (utf8Of pre) + length (utf8Bytes c') > dstLen"
      using h(5) tl(2) by (auto simp: unitsOfAll_def)
    moreover have "c' = c"
      using units_head [OF _ rest(2), of c' "unitsOfAll (map fst ps) @ tl" rest] rest(1) c'(1) sc(2)
      by (simp add: unitsOfAll_def itemsOk_def)
    ultimately show ?thesis by (auto simp: mayStop_def)
  qed
  then show ?thesis using dec r h(2,3,4)
    by (intro transcodedI [where xs = ?xs and read = ?r and bs = "utf8Of pre" and junk = "[]"])
      (simp_all add: partial_def sourceWidth_def sourceEnc_def targetEnc_def kept_def reported_def room_def del: decodeAs.simps)
qed

text \<open>Latin1 to UTF-8.\<close>

abbreviation latin1Utf8 :: "8 word list \<Rightarrow> 8 word list" where
  "latin1Utf8 bs \<equiv> concat (map utf8Bytes (map unat bs))"

lemma latin1ToUtf8Loop_run:
  assumes "latin1ToUtf8Loop src p dstLen r w k d = (Inr out, d')" "r + k \<le> length src" "w \<le> dstLen" "p + dstLen \<le> length d"
  obtains m where "m \<le> k" "out = TwoResults (r + m) (w + length (latin1Utf8 (slice r m src)))"
    "d' = splice (p + w) (latin1Utf8 (slice r m src)) d" "w + length (latin1Utf8 (slice r m src)) \<le> dstLen"
    "m < k \<longrightarrow> w + length (latin1Utf8 (slice r m src)) + length (utf8Bytes (unat (src ! (r + m)))) > dstLen"
  using assms
proof (induction k arbitrary: r w d thesis)
  case 0
  then show ?case by (auto simp: run_simps slice_def)
next
  case (Suc k)
  let ?b = "src ! r"
  have b: "elemAt src r = Some ?b" using Suc.prems(3) by (simp add: elemAt_def)
  have u: "unat ?b < 256" using unsigned_less [of ?b, where 'a = nat] by simp
  have need: "(case elemAt src r of Some x \<Rightarrow> if x < 0x80 then 1 else 2 | None \<Rightarrow> 2) = utf8Len (unat ?b)"
    using u b by (simp add: utf8Len_def word_less_nat_alt)
  show ?case
  proof (cases "w + utf8Len (unat ?b) > dstLen")
    case True
    then have "out = TwoResults r w" "d' = d" using Suc.prems(2) need by (auto simp: Let_def run_simps)
    then show ?thesis using Suc.prems(1) [of 0] True Suc.prems(4) by (simp add: slice_def length_utf8Bytes)
  next
    case False
    let ?d = "splice (p + w) (utf8Bytes (unat ?b)) d"
    have e: "encodeUtf8At (p + w) (Some (unat ?b)) d = (Inr (utf8Len (unat ?b)), ?d)"
      using encodeUtf8At_run [of "unat ?b" "p + w" d] u False Suc.prems(5) by simp
    have l: "length ?d = length d" using False Suc.prems(5) by (simp add: length_utf8Bytes)
    have "latin1ToUtf8Loop src p dstLen (r + 1) (w + utf8Len (unat ?b)) k ?d = (Inr out, d')"
      using Suc.prems(2) need False b
      by (simp add: Let_def bindM_run_Inr [where m = "encodeUtf8At (p + w) (Some (unat ?b))", OF e])
    then obtain m where h: "m \<le> k" "out = TwoResults (r + 1 + m) (w + utf8Len (unat ?b) + length (latin1Utf8 (slice (r + 1) m src)))"
      "d' = splice (p + (w + utf8Len (unat ?b))) (latin1Utf8 (slice (r + 1) m src)) ?d"
      "w + utf8Len (unat ?b) + length (latin1Utf8 (slice (r + 1) m src)) \<le> dstLen"
      "m < k \<longrightarrow> w + utf8Len (unat ?b) + length (latin1Utf8 (slice (r + 1) m src)) + length (utf8Bytes (unat (src ! (r + 1 + m)))) > dstLen"
      using Suc.IH [of "r + 1" "w + utf8Len (unat ?b)" ?d] False Suc.prems(3,5) l by (metis (no_types, lifting) add_Suc_right add_Suc_shift Suc_eq_plus1 not_less)
    have s: "slice r (Suc m) src = ?b # slice (r + 1) m src"
      using h(1) Suc.prems(3) by (simp add: slice_def Cons_nth_drop_Suc [symmetric])
    have "d' = splice (p + w) (latin1Utf8 (slice r (Suc m) src)) d"
      using h(3,4) splice_append [of "p + w" "utf8Bytes (unat ?b)" "latin1Utf8 (slice (r + 1) m src)" d] Suc.prems(5) s
      by (simp add: length_utf8Bytes add.assoc)
    then show ?thesis using Suc.prems(1) [of "Suc m"] h s by (simp add: length_utf8Bytes add.assoc)
  qed
qed

lemma firstNonAscii_stop:
  "i + k \<le> length src \<Longrightarrow> firstNonAscii src i k \<le> i + k \<and>
    (firstNonAscii src i k = i + k \<or> src ! firstNonAscii src i k \<ge> 0x80)"
proof (induction k arbitrary: i)
  case (Suc k)
  then show ?case using Suc.IH [of "i + 1"] by (auto simp: elemAt_def)
qed simp

lemma latin1ToUtf8_ok:
  assumes "length src = srcLen" "p + dstLen \<le> length d"
    "latin1ToUtf8Loop src p dstLen 0 0 (if n \<noteq> 0 then firstNonAscii src 0 srcLen else srcLen) d = (Inr out, d')"
  shows "transcoded Latin1ToUtf8 src srcLen n dstLen p d out d'"
proof -
  let ?stop = "if n \<noteq> 0 then firstNonAscii src 0 srcLen else srcLen"
  have st: "?stop \<le> srcLen" "?stop = srcLen \<or> n \<noteq> 0 \<and> src ! ?stop \<ge> 0x80"
    using firstNonAscii_stop [of 0 srcLen src] assms(1) by auto
  have sl: "0 + ?stop \<le> length src" using st(1) assms(1) by simp
  obtain m where h: "m \<le> ?stop" "out = TwoResults m (length (latin1Utf8 (slice 0 m src)))"
    "d' = splice p (latin1Utf8 (slice 0 m src)) d" "length (latin1Utf8 (slice 0 m src)) \<le> dstLen"
    "m < ?stop \<longrightarrow> length (latin1Utf8 (slice 0 m src)) + length (utf8Bytes (unat (src ! m))) > dstLen"
    by (rule latin1ToUtf8Loop_run [OF assms(3) sl le0 assms(2), unfolded add_0 add_0_right])
  have "mayStop Latin1ToUtf8 n dstLen (latin1Utf8 (take m src)) c" if "map unat (take k (drop m src)) = [c]" for c k
  proof -
    have "m < length src" using that by (cases "m < length src") simp_all
    moreover have "c = unat (src ! m)"
      using that \<open>m < length src\<close> by (cases k) (auto simp: Cons_nth_drop_Suc [symmetric])
    ultimately show ?thesis using h(1,5) st assms(1)
      by (cases "m < ?stop") (auto simp: mayStop_def slice_def word_le_nat_alt)
  qed
  then show ?thesis using h st(1)
    by (intro transcodedI [where xs = "map unat (take m src)" and read = m and bs = "latin1Utf8 (take m src)" and junk = "[]"])
      (simp_all add: partial_def sourceWidth_def sourceEnc_def targetEnc_def kept_def reported_def room_def slice_def)
qed

text \<open>UTF-16 to latin1.\<close>

abbreviation latin1Head :: "8 word list \<Rightarrow> 16 word list" where
  "latin1Head bs \<equiv> takeWhile (\<lambda>u. unat u \<le> 0xff) (leToUnits bs)"

lemma latin1Prefix_run:
  "p + 2 * n \<le> length src \<Longrightarrow> latin1Prefix src p n = Inr (map ucast (latin1Head (slice p (2 * n) src)))"
proof (induction n arbitrary: p)
  case (Suc n)
  have "slice p (2 * Suc n) src = src ! p # src ! (p + 1) # slice (p + 2) (2 * n) src"
    using Suc.prems by (simp add: slice_def Cons_nth_drop_Suc [symmetric])
  then show ?case using Suc.IH [of "p + 2"] Suc.prems by (simp add: getUint16_def)
qed (simp add: slice_def)

lemma utf16ToLatin1_ok:
  assumes "length src = 2 * srcLen" "p + srcLen \<le> length d" "storeAll p (map ucast (latin1Head src)) d = (Inr (), d')"
  shows "transcoded Utf16ToLatin1 src srcLen n dstLen p d
    (TwoResults (length (latin1Head src)) (length (latin1Head src))) d'"
proof -
  let ?us = "latin1Head src" and ?xs = "map unat (latin1Head src)"
  have us: "\<forall>u \<in> set ?us. unat u \<le> 0xff" using set_takeWhileD by fastforce
  then have x: "list_all (\<lambda>c. c \<le> 0xff) ?xs" "list_all isScalar ?xs" by (auto simp: list_all_iff isScalar_def)
  have un: "unitsOfAll ?xs = ?us" using unitsOfAll_small [OF x(1)] by (simp add: comp_def)
  have wb: "map word_of_nat ?xs = (map ucast ?us :: 8 word list)" by (simp add: unsigned_of_nat)
  have r: "length ?us \<le> srcLen" using length_takeWhile_le [of _ "leToUnits src"] assms(1) by (simp add: length_leToUnits)
  have "take (length ?us) (leToUnits src) = ?us" using takeWhile_eq_take by metis
  then have dec: "decodeAs Enc16 (take (2 * length ?us) src) = Some ?xs"
    using r assms(1) un by (intro decodeAs_16 [OF _ _ x(2)]) (simp_all add: leToUnits_take min_def)
  have d: "d' = splice p (map ucast ?us) d" using storeAll_run [of p "map ucast ?us" d] assms(2,3) r by simp
  have "mayStop Utf16ToLatin1 n dstLen bs c" if k: "decodeAs Enc16 (take k (drop (2 * length ?us) src)) = Some [c]" for bs c k
  proof -
    obtain rest where rest: "drop (length ?us) (leToUnits src) = unitsOf c @ rest" "isScalar c"
      using decode16_head [OF k] by (auto simp: leToUnits_drop)
    then have "dropWhile (\<lambda>u. unat u \<le> 0xff) (leToUnits src) = unitsOf c @ rest" using dropWhile_eq_drop by metis
    then have "unat (hd (unitsOf c)) > 0xff" by (metis append_is_Nil_conv hd_append2 hd_dropWhile not_le unitsOf_def list.distinct(1))
    then have "c > 0xff" by (auto simp: unitsOf_def unat_of_nat split: if_splits)
    then show ?thesis by (simp add: mayStop_def)
  qed
  then show ?thesis using dec r x(1) wb d
    by (intro transcodedI [where xs = ?xs and read = "length ?us" and bs = "map ucast ?us" and junk = "[]"])
      (simp_all add: partial_def sourceWidth_def sourceEnc_def targetEnc_def kept_def reported_def room_def del: decodeAs.simps)
qed

text \<open>UTF-8 to latin1.\<close>

lemma utf8_small:
  assumes "c \<le> 0xff"
  shows "utf8Bytes c = (if c < 0x80 then [word_of_nat c] else [if c < 0xc0 then 0xc2 else 0xc3, word_of_nat (0x80 + c mod 0x40)])"
proof -
  have "c div 0x40 = (if c < 0xc0 then 2 else 3)" if "0x80 \<le> c" using that assms by auto
  then show ?thesis using assms by (auto simp: utf8Bytes_def)
qed

lemma unat_cont: "unat (word_of_nat (0x80 + c mod 0x40) :: 8 word) = 0x80 + c mod 0x40"
proof (rule unat8)
  have "c mod 0x40 < 0x40" by simp
  then show "0x80 + c mod 0x40 < 0x100" by linarith
qed

text \<open>A scalar that does not begin with an ASCII byte or a two-byte form led by C2 or C3 is not latin1.\<close>

lemma not_latin1:
  assumes "utf8Scalars (take k bs) = Some [c]"
    "\<And>b rest. bs = b # rest \<Longrightarrow> b \<ge> 0x80 \<and> (b = 0xc2 \<or> b = 0xc3 \<longrightarrow> rest = [] \<or> hd rest < 0x80 \<or> hd rest > 0xbf)"
  shows "c > 0xff"
proof (rule ccontr)
  assume "\<not> c > 0xff"
  then have c: "c \<le> 0xff" by simp
  have u: "utf8Bytes c = take k bs" using utf8Scalars_inv [OF assms(1)] by simp
  have v: "unat (word_of_nat c :: 8 word) = c" using c by (intro unat8) simp
  obtain b rest where b: "bs = b # rest" using u by (cases bs) (auto simp: utf8Bytes_def split: if_splits)
  note a = assms(2) [OF b]
  show False
  proof (cases "c < 0x80")
    case True
    then have "b = word_of_nat c" using u b by (cases k) (simp_all add: utf8Bytes_def)
    then show False using a True v by (simp add: word_le_nat_alt)
  next
    case False
    then have "take k bs = [if c < 0xc0 then 0xc2 else 0xc3, word_of_nat (0x80 + c mod 0x40)]"
      using u utf8_small [OF c] by simp
    then obtain x xs where x: "rest = x # xs" "b = 0xc2 \<or> b = 0xc3" "x = word_of_nat (0x80 + c mod 0x40)"
      using b by (cases k; cases rest; cases "k - 1") (auto split: if_splits)
    have "c mod 0x40 < 0x40" by simp
    then show False using a x unat_cont [of c] by (auto simp: word_less_nat_alt)
  qed
qed

lemma deflated_byte:
  fixes b x :: "8 word"
  assumes "b = 0xc2 \<or> b = 0xc3" "0x80 \<le> x" "x \<le> 0xbf"
  defines "c \<equiv> (unat b - 0xc0) * 0x40 + (unat x - 0x80)"
  shows "or (push_bit 6 (and b 0x1f)) (and x 0x3f) = word_of_nat c" "c \<le> 0xff" "isScalar c"
proof -
  have x: "0x80 \<le> unat x" "unat x \<le> 0xbf" using assms(2,3) by (simp_all add: word_le_nat_alt)
  have m: "and x 0x3f = take_bit 6 x" by (simp add: take_bit_eq_mask mask_eq_exp_minus_1)
  have "unat (and x 0x3f) = unat x mod 0x40" unfolding m unsigned_take_bit_eq by (simp add: take_bit_eq_mod)
  then have l: "unat (and x 0x3f) = unat x - 0x80" using x by (simp add: mod_if)
  define k where "k = unat b - 0xc0"
  have k: "k < 4" "unat (push_bit 6 (and b 0x1f)) = push_bit 6 k" using assms(1) by (auto simp: k_def push_bit_eq_mult)
  have "unat (or (push_bit 6 (and b 0x1f)) (and x 0x3f)) = or (push_bit 6 k) (unat x - 0x80)"
    by (simp only: unsigned_or_eq l k(2))
  also have "\<dots> = c" using or_add_low [of "unat x - 0x80" 6 k] x by (simp add: c_def k_def push_bit_eq_mult)
  finally have u: "unat (or (push_bit 6 (and b 0x1f)) (and x 0x3f)) = c" .
  have "word_of_nat (unat (or (push_bit 6 (and b 0x1f)) (and x 0x3f))) = or (push_bit 6 (and b 0x1f)) (and x 0x3f)"
    by simp
  then show "or (push_bit 6 (and b 0x1f)) (and x 0x3f) = word_of_nat c" unfolding u by simp
  show "c \<le> 0xff" using u unsigned_less [of "or (push_bit 6 (and b 0x1f)) (and x 0x3f)", where 'a = nat] by simp
  then show "isScalar c" by (simp add: isScalar_def)
qed

text \<open>The source from \<open>i\<close> to \<open>r\<close> decodes to \<open>xs\<close>, the loop writes them, and no latin1 scalar follows.\<close>

definition deflated :: "8 word list \<Rightarrow> nat \<Rightarrow> nat \<Rightarrow> nat \<Rightarrow> 8 word list \<Rightarrow> nat \<Rightarrow> nat list \<Rightarrow> bool" where
  "deflated src p i w d r xs \<longleftrightarrow>
     i \<le> r \<and> r \<le> length src \<and> utf8Scalars (slice i (r - i) src) = Some xs \<and> list_all (\<lambda>c. c \<le> 0xff) xs \<and>
     length xs \<le> r - i \<and> deflateUtf8 src p r i w d = (Inr (w + length xs), splice (p + w) (map word_of_nat xs) d) \<and>
     (\<forall>c k. utf8Scalars (take k (drop r src)) = Some [c] \<longrightarrow> c > 0xff)"

lemma deflated_stop:
  assumes "i \<le> length src"
    "\<And>b rest. drop i src = b # rest \<Longrightarrow> b \<ge> 0x80 \<and> (b = 0xc2 \<or> b = 0xc3 \<longrightarrow> rest = [] \<or> hd rest < 0x80 \<or> hd rest > 0xbf)"
  shows "deflated src p i w d i []"
  using assms(1) not_latin1 [OF _ assms(2)]
  by (auto simp: deflated_def slice_def deflateUtf8.simps [of src] run_simps)

lemma deflated_ascii:
  assumes "deflated src p (i + 1) (w + 1) (d[p + w := src ! i]) r xs" "src ! i < 0x80" "i < length src"
    "p + w + (length src - i) \<le> length d"
  shows "deflated src p i w d r (unat (src ! i) # xs)"
proof -
  let ?b = "src ! i"
  have r: "i + 1 \<le> r" "length xs \<le> r - (i + 1)" "r \<le> length src" using assms(1) by (simp_all add: deflated_def)
  have b: "unat ?b < 0x80" using assms(2) by (simp add: word_less_nat_alt)
  have s: "slice i (r - i) src = ?b # slice (i + 1) (r - (i + 1)) src"
  proof -
    have "r - i = Suc (r - (i + 1))" using r(1) by simp
    then show ?thesis using assms(3) by (simp add: slice_def Cons_nth_drop_Suc [symmetric])
  qed
  have "splice (p + (w + 1)) (map word_of_nat xs) (d[p + w := ?b]) = splice (p + w) (map word_of_nat (unat ?b # xs)) d"
    using splice_cons [of "p + w" d "map word_of_nat xs" ?b] assms(3,4) r by (simp add: add.assoc)
  then show ?thesis using assms(1,2) b s r
    by (auto simp: deflated_def deflateUtf8.simps [of src p _ i] bindM_def utf8Scalars.simps(2))
qed

lemma deflated_pair:
  assumes "deflated src p (i + 2) (w + 1) (d[p + w := or (push_bit 6 (and (src ! i) 0x1f)) (and (src ! (i + 1)) 0x3f)]) r xs"
    "src ! i = 0xc2 \<or> src ! i = 0xc3" "0x80 \<le> src ! (i + 1)" "src ! (i + 1) \<le> 0xbf" "i + 1 < length src"
    "p + w + (length src - i) \<le> length d"
  shows "\<exists>c. deflated src p i w d r (c # xs)"
proof -
  let ?b = "src ! i" and ?x = "src ! (i + 1)"
  define v where "v = or (push_bit 6 (and ?b 0x1f)) (and ?x 0x3f)"
  define c where "c = (unat ?b - 0xc0) * 0x40 + (unat ?x - 0x80)"
  have cv: "v = word_of_nat c" "c \<le> 0xff" using deflated_byte [OF assms(2-4)] by (simp_all add: c_def v_def)
  have r: "i + 2 \<le> r" "length xs \<le> r - (i + 2)" "r \<le> length src" "utf8Scalars (slice (i + 2) (r - (i + 2)) src) = Some xs"
    using assms(1) by (simp_all add: deflated_def)
  have s: "slice i (r - i) src = ?b # ?x # slice (i + 2) (r - (i + 2)) src"
  proof -
    have "drop i src = ?b # ?x # drop (i + 2) src" using assms(5) by (simp add: Cons_nth_drop_Suc)
    moreover have "r - i = Suc (Suc (r - (i + 2)))" using r(1) by simp
    ultimately show ?thesis by (simp add: slice_def)
  qed
  have nb: "\<not> unat ?b < 0x80" "leadRange (unat ?b) = Some (2, 0x80, 0xbf)" "\<not> ?b < 0x80"
    using assms(2) by (auto simp: leadRange_def)
  have dec: "utf8Scalars (slice i (r - i) src) = Some (c # xs)"
    unfolding s using nb assms(3,4) r(4) by (simp add: utf8Scalars.simps(2) c_def word_le_nat_alt)
  have "splice (p + (w + 1)) (map word_of_nat xs) (d[p + w := v]) = splice (p + w) (map word_of_nat (c # xs)) d"
    using splice_cons [of "p + w" d "map word_of_nat xs" v] assms(5,6) r cv(1) by (simp add: add.assoc)
  moreover have "deflateUtf8 src p r i w d = deflateUtf8 src p r (i + 2) (w + 1) (d[p + w := v])"
    using r(1) nb(3) assms(5) by (simp add: deflateUtf8.simps [of src p _ i] bindM_def elemAt_def v_def)
  ultimately have "deflated src p i w d r (c # xs)"
    using assms(1) [folded v_def] dec cv(2) r by (auto simp: deflated_def)
  then show ?thesis ..
qed

lemma deflate_run:
  assumes "p + w + (length src - i) \<le> length d" "i \<le> length src"
  shows "\<exists>xs. deflated src p i w d (utf8Latin1UpTo src 0 (length src) i) xs"
  using assms
proof (induction src "0 :: nat" "length src" i arbitrary: w d rule: utf8Latin1UpTo.induct)
  case (1 src i)
  note u = utf8Latin1UpTo.simps [of src 0 "length src" i]
  show ?case
  proof (cases "i \<ge> length src")
    case True
    then show ?thesis using u "1.prems"(2) by (intro exI [of _ "[]"]) (auto intro!: deflated_stop)
  next
    case False
    let ?b = "src ! i"
    have e: "elemAt src (0 + i) = Some ?b" using False by (simp add: elemAt_def)
    have dr: "drop i src = ?b # drop (i + 1) src" using False by (simp add: Cons_nth_drop_Suc)
    show ?thesis
    proof (cases "?b < 0x80")
      case True
      have "utf8Latin1UpTo src 0 (length src) i = utf8Latin1UpTo src 0 (length src) (i + 1)" using u False e True by simp
      moreover have "\<exists>xs. deflated src p (i + 1) (w + 1) (d[p + w := ?b]) (utf8Latin1UpTo src 0 (length src) (i + 1)) xs"
        using False "1.prems" by (intro "1.hyps"(1) [OF False e True]) simp_all
      ultimately show ?thesis using deflated_ascii [OF _ True, of p w d] False "1.prems"(1) by (metis not_le)
    next
      case nb: False
      show ?thesis
      proof (cases "(?b = 0xc2 \<or> ?b = 0xc3) \<and> i + 1 < length src \<and> 0x80 \<le> src ! (i + 1) \<and> src ! (i + 1) \<le> 0xbf")
        case True
        let ?v = "or (push_bit 6 (and ?b 0x1f)) (and (src ! (i + 1)) 0x3f)"
        have il: "i + 1 < length src" using True by simp
        have n: "(if i + 1 < length src then elemAt src (0 + i + 1) else Some 0) = Some (src ! (i + 1))"
          using True by (simp add: elemAt_def)
        have "utf8Latin1UpTo src 0 (length src) i = utf8Latin1UpTo src 0 (length src) (i + 2)"
          using u False e nb True n by (auto simp del: linorder_class.not_less simp: linorder_class.not_less [symmetric])
        moreover have "\<exists>xs. deflated src p (i + 2) (w + 1) (d[p + w := ?v]) (utf8Latin1UpTo src 0 (length src) (i + 2)) xs"
          using "1.prems" True il by (intro "1.hyps"(3) [OF False e nb _ n]) (simp_all add: not_less not_le, linarith?)
        ultimately show ?thesis using deflated_pair True "1.prems"(1) by metis
      next
        case n: False
        have "utf8Latin1UpTo src 0 (length src) i = i" using u False nb n by (auto simp: elemAt_def not_le)
        then show ?thesis using dr nb n "1.prems"(2)
          by (intro exI [of _ "[]"]) (auto intro!: deflated_stop simp: hd_drop_conv_nth not_less not_le)
      qed
    qed
  qed
qed

lemma utf8ToLatin1_ok:
  assumes "length src = srcLen" "p + srcLen \<le> length d"
    "deflateUtf8 src p (utf8Latin1UpTo src 0 srcLen 0) 0 0 d = (Inr w, d')"
  shows "transcoded Utf8ToLatin1 src srcLen n dstLen p d (TwoResults (utf8Latin1UpTo src 0 srcLen 0) w) d'"
proof -
  let ?r = "utf8Latin1UpTo src 0 srcLen 0"
  obtain xs where xs: "deflated src p 0 0 d ?r xs" using deflate_run [of p 0 src 0 d] assms(1,2) by auto
  then show ?thesis using assms
    by (intro transcodedI [where xs = xs and read = ?r and bs = "map word_of_nat xs" and junk = "[]"])
      (auto simp: deflated_def partial_def sourceWidth_def sourceEnc_def targetEnc_def kept_def reported_def room_def slice_def
        mayStop_def)
qed

section \<open>The operations over the heap\<close>

lemma onDestination_Inr:
  assumes "onDestination (Some b) f h = (Inr x, h')"
  obtains d' where "f (memBytes b h) = (Inr x, d')" "h' = setMem b d' h"
  using assms by (auto simp: onDestination_def extracted_def run_simps split: prod.splits)

lemma setBytes_bind:
  assumes "bindM (setBytes p bs) f d = (Inr x, d')"
  shows "setBytes p bs d = (Inr (), splice p bs d)" "f () (splice p bs d) = (Inr x, d')" "p + length bs \<le> length d"
  using assms by (auto simp: setBytes_def bindM_def run_simps split: if_splits)

text \<open>\<open>moved\<close> is the promise over the heap; \<open>src\<close> is the source region.\<close>

definition moved :: "TranscodeOp \<Rightarrow> 8 word list \<Rightarrow> nat \<Rightarrow> nat \<Rightarrow> nat \<Rightarrow> nat \<Rightarrow> MemRef \<Rightarrow> 'g heap_scheme \<Rightarrow>
    TranscodeResult \<Rightarrow> 'g heap_scheme \<Rightarrow> bool" where
  "moved op src srcLen n dstLen p b h out h' \<longleftrightarrow>
     (\<exists>d'. h' = setMem b d' h \<and> transcoded op src srcLen n dstLen p (memBytes b h) out d')"

lemma movedI:
  assumes "onDestination (Some b) f h = (Inr out, h')"
    "\<And>d'. f (memBytes b h) = (Inr out, d') \<Longrightarrow> transcoded op src srcLen n dstLen p (memBytes b h) out d'"
  shows "moved op src srcLen n dstLen p b h out h'"
  using onDestination_Inr [OF assms(1)] assms(2) unfolding moved_def by metis

lemma moved_copies:
  fixes h :: "'g heap_scheme"
  shows "latin1ToLatin1 S (Some b) q srcLen p h = (Inr out, h') \<Longrightarrow> length (slice q srcLen S) = srcLen \<Longrightarrow>
      moved Latin1ToLatin1 (slice q srcLen S) srcLen n dstLen p b h out h'"
    "utf8ToUtf8 S (Some b) q srcLen p h = (Inr out, h') \<Longrightarrow> length (slice q srcLen S) = srcLen \<Longrightarrow>
      moved Utf8ToUtf8 (slice q srcLen S) srcLen n dstLen p b h out h'"
    "utf16ToUtf16 S (Some b) q srcLen p h = (Inr out, h') \<Longrightarrow> length (slice q (2 * srcLen) S) = 2 * srcLen \<Longrightarrow>
      moved Utf16ToUtf16 (slice q (2 * srcLen) S) srcLen n dstLen p b h out h'"
proof -
  assume a: "latin1ToLatin1 S (Some b) q srcLen p h = (Inr out, h')" "length (slice q srcLen S) = srcLen"
  show "moved Latin1ToLatin1 (slice q srcLen S) srcLen n dstLen p b h out h'"
    using a(1) latin1ToLatin1_ok [OF setBytes_bind(1) a(2)] setBytes_bind(2)
    unfolding latin1ToLatin1_def snapshot_def by (elim movedI) (fastforce simp: run_simps)
next
  assume a: "utf8ToUtf8 S (Some b) q srcLen p h = (Inr out, h')" "length (slice q srcLen S) = srcLen"
  then obtain s where s: "decodeUtf8OrTrap (slice q srcLen S) = Inr s"
    "onDestination (Some b) (bindM (setBytes p (slice q srcLen S)) (\<lambda>_. returnM NoResult)) h = (Inr out, h')"
    by (auto simp: utf8ToUtf8_def snapshot_def bindM_eq_Inr run_simps)
  show "moved Utf8ToUtf8 (slice q srcLen S) srcLen n dstLen p b h out h'"
    using s(2) utf8ToUtf8_ok [OF s(1) setBytes_bind(1) a(2)] setBytes_bind(2)
    by (elim movedI) (fastforce simp: run_simps)
next
  assume a: "utf16ToUtf16 S (Some b) q srcLen p h = (Inr out, h')" "length (slice q (2 * srcLen) S) = 2 * srcLen"
  obtain items e where d: "decodeUtf16OrTrap (slice q (2 * srcLen) S) 0 srcLen 0 = (items, e)" by fastforce
  then have s: "e = None" "onDestination (Some b) (bindM (setBytes p (slice q (2 * srcLen) S)) (\<lambda>_. returnM NoResult)) h = (Inr out, h')"
    using a(1) by (auto simp: utf16ToUtf16_def snapshot_def bindM_eq_Inr endOf_Inr)
  show "moved Utf16ToUtf16 (slice q (2 * srcLen) S) srcLen n dstLen p b h out h'"
    using s(2) utf16ToUtf16_ok [OF d [unfolded s(1)] setBytes_bind(1) a(2)] setBytes_bind(2)
    by (elim movedI) (fastforce simp: run_simps)
qed

lemma moved_widening:
  fixes h :: "'g heap_scheme"
  assumes "length (slice q srcLen S) = srcLen" "p + 2 * srcLen \<le> memLen b h"
  shows "latin1ToUtf16 S (Some b) q srcLen p h = (Inr out, h') \<Longrightarrow>
      moved Latin1ToUtf16 (slice q srcLen S) srcLen n dstLen p b h out h'"
    "utf8ToUtf16 S (Some b) q srcLen p h = (Inr out, h') \<Longrightarrow>
      moved Utf8ToUtf16 (slice q srcLen S) srcLen n dstLen p b h out h'"
proof -
  have d: "p + 2 * srcLen \<le> length (memBytes b h)" using assms(2) by (simp add: memLen_def)
  { assume "latin1ToUtf16 S (Some b) q srcLen p h = (Inr out, h')"
    then have o: "onDestination (Some b) (bindM (widenElems (slice q srcLen S) p 0 srcLen) (\<lambda>_. returnM NoResult)) h = (Inr out, h')"
      by (simp add: latin1ToUtf16_def snapshot_def)
    show "moved Latin1ToUtf16 (slice q srcLen S) srcLen n dstLen p b h out h'"
      by (rule movedI [OF o]) (use latin1ToUtf16_ok [OF assms(1) d] in \<open>auto simp: bindM_eq_Inr run_simps\<close>) }
  { assume "utf8ToUtf16 S (Some b) q srcLen p h = (Inr out, h')"
    then obtain s where s: "decodeUtf8OrTrap (slice q srcLen S) = Inr s"
      "onDestination (Some b) (bindM (storeUnits p (take srcLen s)) (\<lambda>_. returnM (OneResult (length (take srcLen s))))) h = (Inr out, h')"
      by (auto simp: utf8ToUtf16_def snapshot_def bindM_eq_Inr run_simps)
    show "moved Utf8ToUtf16 (slice q srcLen S) srcLen n dstLen p b h out h'"
      by (rule movedI [OF s(2)]) (use utf8ToUtf16_ok [OF s(1) _ assms(1) d] in \<open>auto simp: bindM_eq_Inr run_simps\<close>) }
qed

lemma moved_compacting:
  fixes h :: "'g heap_scheme"
  assumes "utf16ToCompactProbablyUtf16 S (Some b) q srcLen p h = (Inr out, h')"
    "length (slice q (2 * srcLen) S) = 2 * srcLen" "p + 2 * srcLen \<le> memLen b h"
  shows "moved Utf16ToCompactProbablyUtf16 (slice q (2 * srcLen) S) srcLen n dstLen p b h out h'"
proof -
  have d: "p + 2 * srcLen \<le> length (memBytes b h)" using assms(3) by (simp add: memLen_def)
  obtain items e where i: "decodeUtf16OrTrap (slice q (2 * srcLen) S) 0 srcLen 0 = (items, e)" by fastforce
  have e: "e = None" and o: "onDestination (Some b) (bindM (setBytes p (slice q (2 * srcLen) S)) (\<lambda>_.
      if list_ex (\<lambda>x. fst x > 0xff) items then returnM (OneResult (or srcLen UTF16_TAG))
      else bindM (compactElems p 0 srcLen) (\<lambda>_. returnM (OneResult srcLen)))) h = (Inr out, h')"
    using assms(1) i by (auto simp: utf16ToCompactProbablyUtf16_def snapshot_def Let_def bindM_eq_Inr endOf_Inr)
  show ?thesis
    by (rule movedI [OF o], rule compactProbably_ok [OF i [unfolded e] assms(2) d]) (erule setBytes_bind(2))
qed

lemma moved_behind:
  fixes h :: "'g heap_scheme"
  shows "utf8ToCompactUtf16 S (Some b) q srcLen p dstLen n h = (Inr out, h') \<Longrightarrow> length (slice q srcLen S) = srcLen \<Longrightarrow>
      p + 2 * dstLen \<le> memLen b h \<Longrightarrow> moved Utf8ToCompactUtf16 (slice q srcLen S) srcLen n dstLen p b h out h'"
    "utf16ToCompactUtf16 S (Some b) q srcLen p n h = (Inr out, h') \<Longrightarrow> length (slice q (2 * srcLen) S) = 2 * srcLen \<Longrightarrow>
      p + 2 * (n + srcLen) \<le> memLen b h \<Longrightarrow> moved Utf16ToCompactUtf16 (slice q (2 * srcLen) S) srcLen n dstLen p b h out h'"
proof -
  assume a: "utf8ToCompactUtf16 S (Some b) q srcLen p dstLen n h = (Inr out, h')" "length (slice q srcLen S) = srcLen"
    "p + 2 * dstLen \<le> memLen b h"
  obtain s where s: "decodeUtf8OrTrap (slice q srcLen S) = Inr s" using a(1)
    by (auto simp: utf8ToCompactUtf16_def snapshot_def bindM_eq_Inr run_simps)
  have d: "p + 2 * dstLen \<le> length (memBytes b h)" using a(3) by (simp add: memLen_def)
  show "moved Utf8ToCompactUtf16 (slice q srcLen S) srcLen n dstLen p b h out h'"
    using a(1) s unfolding utf8ToCompactUtf16_def snapshot_def
    by (simp add: bindM_liftR) (erule movedI, rule utf8ToCompactUtf16_ok [OF s a(2) d], assumption)
next
  assume a: "utf16ToCompactUtf16 S (Some b) q srcLen p n h = (Inr out, h')" "length (slice q (2 * srcLen) S) = 2 * srcLen"
    "p + 2 * (n + srcLen) \<le> memLen b h"
  obtain items e where i: "decodeUtf16OrTrap (slice q (2 * srcLen) S) 0 srcLen 0 = (items, e)" by fastforce
  have d: "p + 2 * (n + srcLen) \<le> length (memBytes b h)" using a(3) by (simp add: memLen_def)
  show "moved Utf16ToCompactUtf16 (slice q (2 * srcLen) S) srcLen n dstLen p b h out h'"
    using a(1) i unfolding utf16ToCompactUtf16_def snapshot_def
    by simp (erule movedI, rule utf16ToCompactUtf16_ok [OF i a(2) d], assumption)
qed

lemma moved_partly:
  fixes h :: "'g heap_scheme"
  shows "utf8ToLatin1 S (Some b) q srcLen p h = (Inr out, h') \<Longrightarrow> length (slice q srcLen S) = srcLen \<Longrightarrow>
      p + srcLen \<le> memLen b h \<Longrightarrow> moved Utf8ToLatin1 (slice q srcLen S) srcLen n dstLen p b h out h'"
    "utf16ToLatin1 (Some a) (Some b) q srcLen p h = (Inr out, h') \<Longrightarrow> q + 2 * srcLen \<le> memLen a h \<Longrightarrow>
      p + srcLen \<le> memLen b h \<Longrightarrow> moved Utf16ToLatin1 (slice q (2 * srcLen) (memBytes a h)) srcLen n dstLen p b h out h'"
    "utf16ToUtf8 S (Some b) q srcLen p dstLen n h = (Inr out, h') \<Longrightarrow> length (slice q (2 * srcLen) S) = 2 * srcLen \<Longrightarrow>
      p + dstLen \<le> memLen b h \<Longrightarrow> moved Utf16ToUtf8 (slice q (2 * srcLen) S) srcLen n dstLen p b h out h'"
    "latin1ToUtf8 S (Some b) q srcLen p dstLen n h = (Inr out, h') \<Longrightarrow> length (slice q srcLen S) = srcLen \<Longrightarrow>
      p + dstLen \<le> memLen b h \<Longrightarrow> moved Latin1ToUtf8 (slice q srcLen S) srcLen n dstLen p b h out h'"
proof -
  { assume a: "utf8ToLatin1 S (Some b) q srcLen p h = (Inr out, h')" "length (slice q srcLen S) = srcLen" "p + srcLen \<le> memLen b h"
    have d: "p + srcLen \<le> length (memBytes b h)" using a(3) by (simp add: memLen_def)
    show "moved Utf8ToLatin1 (slice q srcLen S) srcLen n dstLen p b h out h'"
      using a(1) unfolding utf8ToLatin1_def snapshot_def Let_def
      by (rule movedI) (use utf8ToLatin1_ok [OF a(2) d] in \<open>auto simp: bindM_eq_Inr run_simps\<close>) }
  { assume a: "utf16ToLatin1 (Some a) (Some b) q srcLen p h = (Inr out, h')" "q + 2 * srcLen \<le> memLen a h" "p + srcLen \<le> memLen b h"
    let ?src = "slice q (2 * srcLen) (memBytes a h)"
    have l: "length ?src = 2 * srcLen" "p + srcLen \<le> length (memBytes b h)" using a(2,3) by (simp_all add: memLen_def)
    have "latin1Prefix (memBytes a h) q srcLen = Inr (map ucast (latin1Head ?src))"
      using a(2) by (intro latin1Prefix_run) (simp add: memLen_def)
    then have o: "onDestination (Some b) (bindM (storeAll p (map ucast (latin1Head ?src)))
        (\<lambda>_. returnM (TwoResults (length (latin1Head ?src)) (length (latin1Head ?src))))) h = (Inr out, h')"
      using a(1) by (auto simp: utf16ToLatin1_def extracted_def bindM_eq_Inr run_simps)
    show "moved Utf16ToLatin1 ?src srcLen n dstLen p b h out h'"
      by (rule movedI [OF o]) (use utf16ToLatin1_ok [OF l] in \<open>auto simp: bindM_eq_Inr run_simps\<close>) }
  { assume a: "utf16ToUtf8 S (Some b) q srcLen p dstLen n h = (Inr out, h')" "length (slice q (2 * srcLen) S) = 2 * srcLen" "p + dstLen \<le> memLen b h"
    obtain items e where i: "decodeUtf16OrTrap (slice q (2 * srcLen) S) 0 srcLen 0 = (items, e)" by fastforce
    have d: "p + dstLen \<le> length (memBytes b h)" using a(3) by (simp add: memLen_def)
    have o: "onDestination (Some b) (utf16ToUtf8Loop p dstLen (n \<noteq> 0) e 0 0 0 items) h = (Inr out, h')"
      using a(1) i by (simp add: utf16ToUtf8_def snapshot_def)
    show "moved Utf16ToUtf8 (slice q (2 * srcLen) S) srcLen n dstLen p b h out h'"
      by (rule movedI [OF o], rule utf16ToUtf8_ok [OF i a(2) d]) }
  { assume a: "latin1ToUtf8 S (Some b) q srcLen p dstLen n h = (Inr out, h')" "length (slice q srcLen S) = srcLen" "p + dstLen \<le> memLen b h"
    have d: "p + dstLen \<le> length (memBytes b h)" using a(3) by (simp add: memLen_def)
    show "moved Latin1ToUtf8 (slice q srcLen S) srcLen n dstLen p b h out h'"
      using a(1) unfolding latin1ToUtf8_def snapshot_def Let_def
      by (rule movedI) (rule latin1ToUtf8_ok [OF a(2) d]) }
qed

section \<open>Returning\<close>

text \<open>Source text that decodes, in the room the adapter allocates, is moved without an exception.\<close>

lemma sourceBytes_run: "bindM (sourceBytes (Some a)) f h = f (memBytes a h) h"
  by (simp add: sourceBytes_def extracted_def bindM_def run_simps)

lemma onDestination_returns:
  "(\<exists>x d'. f (memBytes b h) = (Inr x, d')) \<Longrightarrow> \<exists>x h'. onDestination (Some b) f h = (Inr x, h')"
  by (auto simp: onDestination_def extracted_def run_simps)

lemma setBytes_fits: "p + length bs \<le> length d \<Longrightarrow> setBytes p bs d = (Inr (), splice p bs d)"
  by (simp add: setBytes_def run_simps)

lemma wellFormed_step:
  assumes "wellFormed (drop i (leToUnits bs))" "i < units" "length bs = 2 * units"
  shows "\<exists>c n. nextScalar bs 0 units i = Inr (c, n) \<and> wellFormed (drop (i + n) (leToUnits bs))"
proof -
  let ?us = "leToUnits bs"
  have l: "length ?us = units" using assms(3) by (simp add: length_leToUnits)
  have u: "getUint16 bs (2 * i) = Inr (?us ! i)" using assms(2,3) by (intro getUint16_units) simp
  have d: "drop i ?us = ?us ! i # drop (i + 1) ?us" using l assms(2) by (simp add: Cons_nth_drop_Suc)
  show ?thesis
  proof (cases "isHigh (?us ! i)")
    case True
    then have r: "i + 1 < units" "isLow (?us ! (i + 1))" "wellFormed (drop (i + 2) ?us)"
    proof -
      have "drop (i + 1) ?us \<noteq> []" using assms(1) d True by (cases "drop (i + 1) ?us") auto
      then show n: "i + 1 < units" using l by simp
      then have "drop (i + 1) ?us = ?us ! (i + 1) # drop (i + 2) ?us" using l by (simp add: Cons_nth_drop_Suc)
      then show "isLow (?us ! (i + 1))" "wellFormed (drop (i + 2) ?us)" using assms(1) d True by simp_all
    qed
    have v: "getUint16 bs (2 * (i + 1)) = Inr (?us ! (i + 1))" using r(1) assms(3) by (intro getUint16_units) simp
    show ?thesis using u v r True by (auto simp: nextScalar_def isHigh_def isLow_def)
  next
    case False
    then have "\<not> isLow (?us ! i)" "wellFormed (drop (i + 1) ?us)"
      using assms(1) d by (cases "drop (i + 1) ?us"; simp)+
    then show ?thesis using u False by (auto simp: nextScalar_def isHigh_def isLow_def)
  qed
qed

lemma decode_no_error:
  assumes "wellFormed (drop i (leToUnits bs))" "length bs = 2 * units"
  shows "snd (decodeUtf16OrTrap bs 0 units i) = None"
  using assms
proof (induction bs "0 :: nat" units i rule: decodeUtf16OrTrap.induct)
  case (1 bs units i)
  show ?case
  proof (cases "i \<ge> units")
    case False
    then obtain c n where n: "nextScalar bs 0 units i = Inr (c, n)" "wellFormed (drop (i + n) (leToUnits bs))"
      using wellFormed_step [OF "1.prems"(1) _ "1.prems"(2)] by auto
    then show ?thesis using "1.hyps" [OF False n(1)] "1.prems"(2) False
      by (cases "decodeUtf16OrTrap bs 0 units (i + n)") (simp add: decodeUtf16OrTrap.simps [of bs 0 units i])
  qed (simp add: decodeUtf16OrTrap.simps [of bs])
qed

lemma decode16_items:
  assumes "decodeAs Enc16 bs = Some xs" "length bs = 2 * units"
  obtains items where "decodeUtf16OrTrap bs 0 units 0 = (items, None)" "itemsOk items" "length (unitsOfAll (map fst items)) = units"
proof -
  obtain items e where i: "decodeUtf16OrTrap bs 0 units 0 = (items, e)" by fastforce
  have e: "e = None" using decode_no_error [of 0 bs units] assms i by (simp split: if_splits)
  note w = decode_whole [OF i [unfolded e] assms(2)]
  show thesis using that [OF i [unfolded e] w(1)] w(2) assms(2) length_leToUnits [of bs] by simp
qed

lemma storeElems_returns: "\<exists>d'. storeElems p bs d = (Inr (), d')"
  by (induction bs arbitrary: p d) (auto simp: run_simps bindM_def)

lemma encodeUtf8At_returns: "\<exists>d'. encodeUtf8At p c d = (Inr (length (utf8Parts c)), d')"
  using storeElems_returns [of p "utf8Parts c" d] by (auto simp: encodeUtf8At_def bindM_def run_simps)

lemma utf16ToUtf8Loop_returns: "\<exists>x d'. utf16ToUtf8Loop p dstLen fp None r r w items d = (Inr x, d')"
proof (induction items arbitrary: r w d)
  case (Cons cm items)
  obtain d1 where "encodeUtf8At (p + w) (Some (fst cm)) d = (Inr (length (utf8Parts (Some (fst cm)))), d1)"
    using encodeUtf8At_returns by blast
  then show ?case using Cons by (cases cm) (auto simp: run_simps bindM_def)
qed (simp add: run_simps endOf_def)

lemma latin1ToUtf8Loop_returns: "\<exists>x d'. latin1ToUtf8Loop src p dstLen r w k d = (Inr x, d')"
proof (induction k arbitrary: r w d)
  case (Suc k)
  obtain d1 where "encodeUtf8At (p + w) (map_option unat (elemAt src r)) d =
      (Inr (length (utf8Parts (map_option unat (elemAt src r)))), d1)"
    using encodeUtf8At_returns by blast
  then show ?case using Suc by (auto simp: Let_def run_simps bindM_def)
qed (simp add: run_simps)

definition fits :: "TranscodeOp \<Rightarrow> MemRef \<Rightarrow> MemRef \<Rightarrow> nat \<Rightarrow> nat \<Rightarrow> nat \<Rightarrow> nat \<Rightarrow> nat \<Rightarrow> nat list \<Rightarrow> bool" where
  "fits op a b q srcLen p dstLen n xs \<longleftrightarrow>
     (op = Utf16ToLatin1 \<longrightarrow> memId a \<noteq> memId b \<or> q + 2 * srcLen \<le> p \<or> p + srcLen \<le> q) \<and>
     (op = Utf8ToCompactUtf16 \<longrightarrow> n + length (unitsOfAll xs) \<le> dstLen)"

lemma returns_utf8:
  fixes h :: "'g heap_scheme"
  assumes "decodeAs Enc8 (slice q srcLen S) = Some xs" "length (slice q srcLen S) = srcLen"
  shows "p + srcLen \<le> memLen b h \<Longrightarrow> \<exists>x h'. utf8ToUtf8 S (Some b) q srcLen p h = (Inr x, h')"
    "p + 2 * srcLen \<le> memLen b h \<Longrightarrow> \<exists>x h'. utf8ToUtf16 S (Some b) q srcLen p h = (Inr x, h')"
    "p + srcLen \<le> memLen b h \<Longrightarrow> \<exists>x h'. utf8ToLatin1 S (Some b) q srcLen p h = (Inr x, h')"
    "p + 2 * dstLen \<le> memLen b h \<Longrightarrow> n + length (unitsOfAll xs) \<le> dstLen \<Longrightarrow>
      \<exists>x h'. utf8ToCompactUtf16 S (Some b) q srcLen p dstLen n h = (Inr x, h')"
proof -
  have s: "decodeUtf8OrTrap (slice q srcLen S) = Inr (unitsOfAll xs)"
    using assms(1) by (simp add: decodeUtf8OrTrap_def utf8Decode_def)
  show "\<exists>x h'. utf8ToUtf8 S (Some b) q srcLen p h = (Inr x, h')" if "p + srcLen \<le> memLen b h"
    using that s assms(2) unfolding utf8ToUtf8_def snapshot_def
    by (simp add: bindM_liftR) (intro onDestination_returns, simp add: memLen_def setBytes_fits bindM_def run_simps)
  show "\<exists>x h'. utf8ToUtf16 S (Some b) q srcLen p h = (Inr x, h')" if "p + 2 * srcLen \<le> memLen b h"
    using that s unfolding utf8ToUtf16_def snapshot_def
    by (simp add: bindM_liftR) (intro onDestination_returns, simp add: memLen_def storeUnits_run bindM_def run_simps)
  show "\<exists>x h'. utf8ToLatin1 S (Some b) q srcLen p h = (Inr x, h')" if "p + srcLen \<le> memLen b h"
    using that assms(2) deflate_run [of p 0 "slice q srcLen S" 0 "memBytes b h"] unfolding utf8ToLatin1_def snapshot_def Let_def
    by (intro onDestination_returns) (auto simp: memLen_def deflated_def bindM_def run_simps)
  show "\<exists>x h'. utf8ToCompactUtf16 S (Some b) q srcLen p dstLen n h = (Inr x, h')"
    if c: "p + 2 * dstLen \<le> memLen b h" "n + length (unitsOfAll xs) \<le> dstLen"
    using c s inflate_run [of p n "memBytes b h"] unfolding utf8ToCompactUtf16_def snapshot_def
    by (simp add: bindM_liftR) (intro onDestination_returns, simp add: memLen_def storeUnits_run bindM_def run_simps)
qed

lemma returns_utf16:
  fixes h :: "'g heap_scheme"
  assumes "decodeAs Enc16 (slice q (2 * srcLen) S) = Some xs" "length (slice q (2 * srcLen) S) = 2 * srcLen"
  shows "p + 2 * srcLen \<le> memLen b h \<Longrightarrow> \<exists>x h'. utf16ToUtf16 S (Some b) q srcLen p h = (Inr x, h')"
    "p + 2 * srcLen \<le> memLen b h \<Longrightarrow> \<exists>x h'. utf16ToCompactProbablyUtf16 S (Some b) q srcLen p h = (Inr x, h')"
    "\<exists>x h'. utf16ToUtf8 S (Some b) q srcLen p dstLen n h = (Inr x, h')"
    "p + 2 * (n + srcLen) \<le> memLen b h \<Longrightarrow> \<exists>x h'. utf16ToCompactUtf16 S (Some b) q srcLen p n h = (Inr x, h')"
proof -
  obtain items where i: "decodeUtf16OrTrap (slice q (2 * srcLen) S) 0 srcLen 0 = (items, None)" "itemsOk items"
    "length (unitsOfAll (map fst items)) = srcLen"
    by (rule decode16_items [OF assms])
  show "\<exists>x h'. utf16ToUtf16 S (Some b) q srcLen p h = (Inr x, h')" if "p + 2 * srcLen \<le> memLen b h"
    using that i assms(2) unfolding utf16ToUtf16_def snapshot_def
    by (simp add: endOf_def bindM_def run_simps) (intro onDestination_returns, simp add: memLen_def setBytes_fits bindM_def run_simps)
  show "\<exists>x h'. utf16ToCompactProbablyUtf16 S (Some b) q srcLen p h = (Inr x, h')" if "p + 2 * srcLen \<le> memLen b h"
    using that i assms(2) compact_run [of p 0 srcLen] unfolding utf16ToCompactProbablyUtf16_def snapshot_def Let_def
    by (simp add: endOf_def bindM_def run_simps) (intro onDestination_returns conjI impI; simp add: memLen_def setBytes_fits bindM_def run_simps)
  show "\<exists>x h'. utf16ToUtf8 S (Some b) q srcLen p dstLen n h = (Inr x, h')"
    using i utf16ToUtf8Loop_returns unfolding utf16ToUtf8_def snapshot_def
    by simp (intro onDestination_returns, blast)
  show "\<exists>x h'. utf16ToCompactUtf16 S (Some b) q srcLen p n h = (Inr x, h')" if c: "p + 2 * (n + srcLen) \<le> memLen b h"
    using c i inflate_run [of p n "memBytes b h"] storeScalars_run [OF i(2), of p n] unfolding utf16ToCompactUtf16_def snapshot_def
    by (intro onDestination_returns) (simp add: memLen_def endOf_def bindM_def run_simps)
qed

lemma returns_latin1:
  fixes h :: "'g heap_scheme"
  assumes "length (slice q srcLen S) = srcLen"
  shows "p + srcLen \<le> memLen b h \<Longrightarrow> \<exists>x h'. latin1ToLatin1 S (Some b) q srcLen p h = (Inr x, h')"
    "p + 2 * srcLen \<le> memLen b h \<Longrightarrow> \<exists>x h'. latin1ToUtf16 S (Some b) q srcLen p h = (Inr x, h')"
    "\<exists>x h'. latin1ToUtf8 S (Some b) q srcLen p dstLen n h = (Inr x, h')"
  unfolding latin1ToLatin1_def latin1ToUtf16_def latin1ToUtf8_def snapshot_def Let_def
  using assms latin1ToUtf8Loop_returns
  by (auto intro!: onDestination_returns simp: memLen_def setBytes_fits widenElems_run bindM_def run_simps)

lemma returns_utf16ToLatin1:
  fixes h :: "'g heap_scheme"
  assumes "q + 2 * srcLen \<le> memLen a h" "p + srcLen \<le> memLen b h"
    "memId a \<noteq> memId b \<or> q + 2 * srcLen \<le> p \<or> p + srcLen \<le> q"
  shows "\<exists>x h'. utf16ToLatin1 (Some a) (Some b) q srcLen p h = (Inr x, h')"
proof -
  have l: "latin1Prefix (memBytes a h) q srcLen = Inr (map ucast (latin1Head (slice q (2 * srcLen) (memBytes a h))))"
    using assms(1) by (intro latin1Prefix_run) (simp add: memLen_def)
  have "length (latin1Head (slice q (2 * srcLen) (memBytes a h))) \<le> length (leToUnits (slice q (2 * srcLen) (memBytes a h)))"
    by (rule length_takeWhile_le)
  also have "\<dots> = srcLen" using assms(1) by (simp add: length_leToUnits memLen_def)
  finally have "p + length (latin1Head (slice q (2 * srcLen) (memBytes a h))) \<le> length (memBytes b h)"
    using assms(2) by (simp add: memLen_def)
  then show ?thesis using assms(3) l
    unfolding utf16ToLatin1_def extracted_def trapIfOverlap_def
    by (simp add: bindM_liftR run_simps) (auto intro!: onDestination_returns simp: storeAll_run bindM_def run_simps)
qed

section \<open>Property\<close>

text \<open>C12: A transcoder moves a string.  When it returns, and the source and the destination are within their memories,
  what it reports as read is a prefix of the source that decodes (the whole source, for the operations that do not
  report how much), the destination holds that text in its encoding, behind the latin1 prefix for the operations that have
  one, and what it reports as written is the length of it; no byte outside the allocated destination changes.  An
  operation that may stop early stops only before a scalar that its target cannot hold, that does not fit any more, or that
  ends the first pass.  And it does return on a source that decodes, when the regions do not overlap (where that is checked)
  and the capacity suffices (where it is).\<close>

theorem transcoder_moves_text:
  fixes h :: "'g heap_scheme"
  assumes "q + sourceWidth op * srcLen \<le> memLen a h" "p + room op srcLen dstLen n \<le> memLen b h"
  shows "(\<forall>out h'. createTranscoder op (Some a) (Some b) q srcLen p dstLen n h = (Inr out, h') \<longrightarrow>
      (\<exists>d'. h' = setMem b d' h \<and>
        transcoded op (slice q (sourceWidth op * srcLen) (memBytes a h)) srcLen n dstLen p (memBytes b h) out d')) \<and>
    (\<forall>xs. decodeAs (sourceEnc op) (slice q (sourceWidth op * srcLen) (memBytes a h)) = Some xs \<longrightarrow>
      fits op a b q srcLen p dstLen n xs \<longrightarrow>
      (\<exists>out h'. createTranscoder op (Some a) (Some b) q srcLen p dstLen n h = (Inr out, h')))"
proof (intro conjI allI impI)
  have s: "length (slice q (sourceWidth op * srcLen) (memBytes a h)) = sourceWidth op * srcLen"
    using assms(1) by (simp add: memLen_def)
  note ops = createTranscoder_def sourceBytes_run sourceWidth_def sourceEnc_def room_def
  { fix out h' assume "createTranscoder op (Some a) (Some b) q srcLen p dstLen n h = (Inr out, h')"
    then show "\<exists>d'. h' = setMem b d' h \<and>
        transcoded op (slice q (sourceWidth op * srcLen) (memBytes a h)) srcLen n dstLen p (memBytes b h) out d'"
      using assms s unfolding moved_def [symmetric]
      by (cases op) (simp_all add: ops moved_copies moved_widening moved_compacting moved_behind moved_partly) }
  { fix xs assume "decodeAs (sourceEnc op) (slice q (sourceWidth op * srcLen) (memBytes a h)) = Some xs"
      "fits op a b q srcLen p dstLen n xs"
    then show "\<exists>out h'. createTranscoder op (Some a) (Some b) q srcLen p dstLen n h = (Inr out, h')"
      using assms s
      by (cases op) (simp_all add: ops fits_def returns_utf8 returns_utf16 returns_latin1 returns_utf16ToLatin1 del: decodeAs.simps) }
qed

theorem transcoder_moves_text_witness:
  "\<exists>out h'. createTranscoder Utf8ToLatin1 (Some \<lparr>memId = 0, addrType = I32, mBase = 0\<rparr>) (Some \<lparr>memId = 1, addrType = I32, mBase = 0\<rparr>)
      2 3 4 0 0 (emptyHeap\<lparr>mems := \<lambda>i. if i = 0 then [0, 0, 0x68, 0xc3, 0xa9, 0] else replicate 8 0\<rparr>) = (Inr out, h') \<and>
    transcoded Utf8ToLatin1 [0x68, 0xc3, 0xa9] 3 0 0 4 (replicate 8 0) out (mems h' 1)"
proof -
  let ?h = "emptyHeap\<lparr>mems := \<lambda>i. if i = 0 then [0, 0, 0x68, 0xc3, 0xa9, 0] else replicate 8 0\<rparr>"
  let ?a = "\<lparr>memId = 0, addrType = I32, mBase = 0\<rparr>" and ?b = "\<lparr>memId = 1, addrType = I32, mBase = 0\<rparr>"
  have w: "sourceWidth Utf8ToLatin1 = 1" "room Utf8ToLatin1 3 0 0 = 3" "sourceEnc Utf8ToLatin1 = Enc8"
    by (simp_all add: sourceWidth_def sourceEnc_def room_def)
  have m: "memBytes ?a ?h = [0, 0, 0x68, 0xc3, 0xa9, 0]" "memBytes ?b ?h = replicate 8 0"
    by (simp_all add: memBytes_def)
  have sl: "slice 2 (sourceWidth Utf8ToLatin1 * 3) ([0, 0, 0x68, 0xc3, 0xa9, 0] :: 8 word list) = [0x68, 0xc3, 0xa9]" by (simp add: w slice_def)
  have b: "2 + sourceWidth Utf8ToLatin1 * 3 \<le> memLen ?a ?h" "4 + room Utf8ToLatin1 3 0 0 \<le> memLen ?b ?h"
    unfolding w memLen_def m by simp_all
  have d: "decodeAs (sourceEnc Utf8ToLatin1) [0x68, 0xc3, 0xa9] = Some [0x68, 0xe9]"
    by (simp add: w utf8Scalars.simps(2) leadRange_def)
  have f: "fits Utf8ToLatin1 ?a ?b 2 3 4 0 0 [0x68, 0xe9]" by (simp add: fits_def)
  note t = transcoder_moves_text [OF b, unfolded m sl]
  obtain out h' where o: "createTranscoder Utf8ToLatin1 (Some ?a) (Some ?b) 2 3 4 0 0 ?h = (Inr out, h')"
    using t d f by blast
  then obtain d' where "h' = setMem ?b d' ?h" "transcoded Utf8ToLatin1 [0x68, 0xc3, 0xa9] 3 0 0 4 (replicate 8 0) out d'"
    using t by blast
  then show ?thesis using o by (auto simp: setMem_def)
qed

end
