(* ===== verification/FactCalls.thy ===== *)
theory FactCalls
  imports LowerCall
begin

text \<open>
  Asynchronous calls between components (\<open>runtime/src/intrinsics/fact_calls.ts\<close>): \<open>prepare-call\<close>, \<open>sync-start-call\<close> and
  \<open>async-start-call\<close> of the fused adapters.  The state extends that of the host calls by the preparation in flight and by what
  the closures of one call share, kept under the identity of the call: the scope that holds the caller's lenders for the
  synchronous form, the subtask for the asynchronous one.  \<open>factWaits\<close> is what the closures of a parked frame captured;
  the frame's condition and kind name it by that identity.  \<open>onProgress\<close> is kept as in \<open>LowerCall\<close>.
  Core functions are named by the function reference the adapter passes; the two copy adapters of a call are
  never entered through \<open>promising\<close>, so they throw or return.
\<close>

section \<open>Data\<close>

datatype FactArg = FactFunc nat | FactLane JsVal

datatype ResultInfo = HeapResult JsVal | StackResult

record PreparedCall =
  pc_start :: nat
  pc_return :: nat
  pc_callerInst :: nat
  pc_calleeInst :: nat
  pc_taskReturnType :: nat
  pc_calleeAsync :: bool
  pc_stringEncoding :: nat
  pc_resultCountOrMax :: nat
  pc_params :: "JsVal list"
  pc_resultInfo :: ResultInfo
  pc_asyncCallerWithResult :: bool
  pc_memory :: "MemRef option"

datatype FactWait =
    SyncStart nat
  | AsyncStart nat nat nat nat nat "nat option"

record facts = hostsched +
  prepared :: "PreparedCall option"
  callerResults :: "nat \<Rightarrow> JsVal list option"
  factWaits :: "nat \<Rightarrow> FactWait option"
  factProduced :: "nat \<Rightarrow> bool"

type_synonym 's AdapterFn = "JsVal list \<Rightarrow> 's \<Rightarrow> (CoreExn + CoreRaw) \<times> 's"

text \<open>\<open>FactCallContext\<close>; \<open>fc_enter\<close> is \<open>enterWasm\<close> in the mode of the instantiation.\<close>

record 's FactContext =
  fc_instance :: "nat \<Rightarrow> nat"
  fc_resultTypesForTuple :: "nat \<Rightarrow> ValType list option"
  fc_func :: "nat \<Rightarrow> 's CoreFn"
  fc_adapter :: "nat \<Rightarrow> 's AdapterFn"
  fc_callback :: "nat \<Rightarrow> 's CoreFn option"
  fc_memory :: "nat \<Rightarrow> MemRef option"
  fc_enter :: "'s CoreFn \<Rightarrow> 's CoreFn"
  fc_jspi :: bool
  fc_calleeCanBlock :: "nat \<Rightarrow> bool"

definition PREPARE_ASYNC_NO_RESULT :: nat where "PREPARE_ASYNC_NO_RESULT = 2 ^ 32 - 1"
definition PREPARE_ASYNC_WITH_RESULT :: nat where "PREPARE_ASYNC_WITH_RESULT = 2 ^ 32 - 2"
definition START_FLAG_ASYNC_CALLEE :: nat where "START_FLAG_ASYNC_CALLEE = 1"
definition PREPARE_FIXED :: nat where "PREPARE_FIXED = 8"

definition stringEncodingName :: "nat \<Rightarrow> StringEncoding" where
  "stringEncodingName v = (if v = 1 then Utf16 else if v = 2 then Latin1Utf16 else Utf8)"

definition taskOptionsFor :: "PreparedCall \<Rightarrow> 's CoreFn option \<Rightarrow> MemRef option \<Rightarrow> bool \<Rightarrow> TaskOptions" where
  "taskOptionsFor p cb mem asyncAbi =
     \<lparr>to_async = asyncAbi, to_callback = (cb \<noteq> None), to_stringEncoding = stringEncodingName (pc_stringEncoding p), to_memory = mem\<rparr>"

section \<open>Preparing\<close>

text \<open>\<open>Number(x) >>> 0\<close> and \<open>Number(x) !== 0\<close> of a fixed argument, an i32 lane; \<open>Number\<close> of a function is not a number.\<close>

definition argUint :: "FactArg \<Rightarrow> nat" where
  "argUint a = (case a of FactFunc _ \<Rightarrow> 0 | FactLane v \<Rightarrow> nat (toUint32 v))"

definition argSet :: "FactArg \<Rightarrow> bool" where
  "argSet a = (case a of FactLane (VNum n) \<Rightarrow> n \<noteq> 0 | _ \<Rightarrow> True)"

definition laneOf :: "FactArg \<Rightarrow> JsVal" where
  "laneOf a = (case a of FactFunc _ \<Rightarrow> VUndef | FactLane v \<Rightarrow> v)"

definition lastParam :: "JsVal list \<Rightarrow> JsVal result" where
  "lastParam ps = bindR (assertR (ps \<noteq> []) ''prepare-call: retptr missing'') (\<lambda>_. Ok (last ps))"

text \<open>Where the caller's results go, and whether an asynchronous caller has some.\<close>

definition decodeResultInfo :: "nat \<Rightarrow> JsVal list \<Rightarrow> (ResultInfo \<times> bool) result" where
  "decodeResultInfo rc ps =
     (if rc = PREPARE_ASYNC_WITH_RESULT then bindR (lastParam ps) (\<lambda>v. Ok (HeapResult v, True))
      else if rc = PREPARE_ASYNC_NO_RESULT then Ok (StackResult, False)
      else if rc > MAX_FLAT_RESULTS then bindR (lastParam ps) (\<lambda>v. Ok (HeapResult v, False))
      else Ok (StackResult, False))"

definition createPrepareCall :: "'s FactContext \<Rightarrow> nat option \<Rightarrow> FactArg list \<Rightarrow> ('g facts_scheme, unit) sm" where
  "createPrepareCall F mem args =
     bindM (assertM (length args \<ge> PREPARE_FIXED) ''prepare-call: too few arguments'') (\<lambda>_.
     case (args ! 0, args ! 1) of
       (FactFunc start, FactFunc ret) \<Rightarrow>
         bindM (getsM prepared) (\<lambda>cur.
         bindM (assertM (cur = None) ''prepare-call with a preparation already outstanding'') (\<lambda>_.
         let ps = map laneOf (drop PREPARE_FIXED args); rc = argUint (args ! 7) in
         bindM (liftR (decodeResultInfo rc ps)) (\<lambda>(info, withResult).
         modifyM (\<lambda>h. h\<lparr>prepared := Some
           \<lparr>pc_start = start, pc_return = ret,
            pc_callerInst = fc_instance F (argUint (args ! 2)), pc_calleeInst = fc_instance F (argUint (args ! 3)),
            pc_taskReturnType = argUint (args ! 4), pc_calleeAsync = argSet (args ! 5),
            pc_stringEncoding = argUint (args ! 6), pc_resultCountOrMax = rc, pc_params = ps,
            pc_resultInfo = info, pc_asyncCallerWithResult = withResult,
            pc_memory = (case mem of None \<Rightarrow> None | Some m \<Rightarrow> fc_memory F m)\<rparr>\<rparr>))))
     | _ \<Rightarrow> throwM (AssertionError ''prepare-call: start/return must be funcrefs''))"

definition takePrepared :: "string \<Rightarrow> ('g facts_scheme, PreparedCall) sm" where
  "takePrepared what =
     bindM (getsM prepared) (\<lambda>p.
     case p of
       None \<Rightarrow> throwM (AssertionError (what @ '' without a preceding prepare-call''))
     | Some c \<Rightarrow> bindM (modifyM (\<lambda>h. h\<lparr>prepared := None\<rparr>)) (\<lambda>_. returnM c))"

section \<open>The callee's task\<close>

text \<open>Which of the two forms made the call, with its identity.\<close>

datatype FactSide = SyncSide nat | AsyncSide nat

record 's FactInput =
  fi_prepared :: PreparedCall
  fi_callee :: "'s CoreFn"
  fi_callback :: "'s CoreFn option"
  fi_postReturn :: "'s CoreFn option"
  fi_start :: "'s AdapterFn"
  fi_return :: "'s AdapterFn"
  fi_enter :: "'s CoreFn \<Rightarrow> 's CoreFn"
  fi_canBlock :: bool
  fi_asyncAbi :: bool
  fi_results :: "ValType list option"
  fi_side :: FactSide

definition callAdapter :: "'s AdapterFn \<Rightarrow> JsVal list \<Rightarrow> ('s, JsVal list) sm" where
  "callAdapter f args h =
     (case f args h of
        (Inl e, h1) \<Rightarrow> (Inl (mapCoreException e), h1)
      | (Inr r, h1) \<Rightarrow> (Inr (rawValues r), h1))"

definition factLenders :: "FactSide \<Rightarrow> LenderScope" where
  "factLenders sd = (case sd of SyncSide s \<Rightarrow> OfScope s | AsyncSide s \<Rightarrow> OfSubtask s)"

text \<open>\<open>onStarted\<close>: only the asynchronous form has one.\<close>

definition factStarted :: "FactSide \<Rightarrow> ('g hostsched_scheme, unit) sm" where
  "factStarted sd =
     (case sd of
        SyncSide s \<Rightarrow> returnM ()
      | AsyncSide s \<Rightarrow>
          bindM (getsM (\<lambda>h. st_state (subtasks h s))) (\<lambda>st.
          if st = STARTING then
            bindM (modifyM (updSubtask s (\<lambda>x. x\<lparr>st_state := STARTED\<rparr>))) (\<lambda>_. lowerProgress s)
          else returnM ()))"

definition onCallerResults :: "FactSide \<Rightarrow> JsVal list option \<Rightarrow> ('g facts_scheme, unit) sm" where
  "onCallerResults sd r =
     (case sd of
        SyncSide s \<Rightarrow>
          bindM (assertM (r \<noteq> None) ''sync-start-call: caller results missing'') (\<lambda>_.
          modifyM (\<lambda>h. h\<lparr>callerResults := (callerResults h)(s := r)\<rparr>))
      | AsyncSide s \<Rightarrow>
          bindM (getsM (\<lambda>h. subtasks h s)) (\<lambda>x.
          bindM (if \<not> resolved x then
                   resolve s (if r = None
                              then (if st_state x = STARTING then CANCELLED_BEFORE_STARTED else CANCELLED_BEFORE_RETURNED)
                              else RETURNED) []
                 else returnM ()) (\<lambda>_. lowerProgress s)))"

text \<open>The start window: the borrows the copy adapter transfers are the callee task's, lent by the caller.\<close>

definition startWindow :: "nat \<Rightarrow> LenderScope \<Rightarrow> ('g hostsched_scheme, 'a) sm \<Rightarrow> ('g hostsched_scheme, 'a) sm" where
  "startWindow k l f =
     bindM (modifyM (\<lambda>h. h\<lparr>factStartScopes := factStartScopes h @ [(k, l)]\<rparr>)) (\<lambda>_.
     finallyM f (modifyM (\<lambda>h. h\<lparr>factStartScopes := butlast (factStartScopes h)\<rparr>)))"

definition startParams :: "PreparedCall \<Rightarrow> JsVal list" where
  "startParams p = (if pc_asyncCallerWithResult p then butlast (pc_params p) else pc_params p)"

definition withRetptr :: "PreparedCall \<Rightarrow> JsVal list \<Rightarrow> JsVal list" where
  "withRetptr p args = (case pc_resultInfo p of HeapResult v \<Rightarrow> args @ [v] | StackResult \<Rightarrow> args)"

definition factCaller :: "('g facts_scheme) FactInput \<Rightarrow> ('g facts_scheme) Caller" where
  "factCaller X =
     \<lparr>onStart = \<lambda>k.
        bindM (startWindow k (factLenders (fi_side X)) (callAdapter (fi_start X) (startParams (fi_prepared X)))) (\<lambda>calleeArgs.
        bindM (factStarted (fi_side X)) (\<lambda>_. returnM calleeArgs)),
      onResolve = \<lambda>k result.
        (case result of
           None \<Rightarrow> onCallerResults (fi_side X) None
         | Some args \<Rightarrow>
             bindM (callAdapter (fi_return X) (withRetptr (fi_prepared X) args)) (\<lambda>r.
             onCallerResults (fi_side X) (Some r)))\<rparr>"

definition factFt :: "'s FactInput \<Rightarrow> FuncType" where
  "factFt X =
     \<lparr>ftParams = [], ftResults = (case fi_results X of None \<Rightarrow> [] | Some ts \<Rightarrow> ts), ftAsync = pc_calleeAsync (fi_prepared X)\<rparr>"

definition mkCalleeTask :: "'s FactInput \<Rightarrow> ('g sched_scheme, nat) sm" where
  "mkCalleeTask X =
     bindM freshId (\<lambda>k.
     bindM (modifyM (\<lambda>h. (updTask k (\<lambda>_. (newTask (factFt X)
                (taskOptionsFor (fi_prepared X) (fi_callback X) (pc_memory (fi_prepared X)) (fi_asyncAbi X)) (pc_calleeInst (fi_prepared X)))
              \<lparr>ta_factPassthrough := True, ta_factResultTypesKnown := (fi_results X \<noteq> None)\<rparr>) h)
              \<lparr>taskBorrows := (taskBorrows h)(k := 0)\<rparr>)) (\<lambda>_.
     returnM k))"

text \<open>The input of \<open>runCallbackLoop\<close> for this callee.\<close>

definition factLift :: "('g sched_scheme) FactInput \<Rightarrow> nat \<Rightarrow> 'g LiftInput" where
  "factLift X k =
     \<lparr>li_name = ''fact-callee'', li_ft = factFt X,
      li_opts = \<lparr>ro_stringEncoding = stringEncodingName (pc_stringEncoding (fi_prepared X)), ro_memory = pc_memory (fi_prepared X),
        ro_realloc = None, ro_postReturn = map_option Some (fi_postReturn X), ro_callback = map_option Some (fi_callback X),
        ro_async = fi_asyncAbi X, ro_cancellable = False, ro_coreType = \<lparr>cparams = [], cresults = []\<rparr>,
        ro_instance = pc_calleeInst (fi_prepared X)\<rparr>,
      li_core = fi_callee X, li_enter = (if fi_canBlock X then fi_enter X else (\<lambda>f. f)), li_task = k, li_jspi = True,
      li_littleEndian = True\<rparr>"

definition factPostReturn :: "('g sched_scheme) FactInput \<Rightarrow> JsVal list \<Rightarrow> ('g sched_scheme, unit) sm" where
  "factPostReturn X raw =
     (case fi_postReturn X of
        None \<Rightarrow> returnM ()
      | Some f \<Rightarrow>
          bindM (getsM (\<lambda>h. mayLeave h (pc_calleeInst (fi_prepared X)))) (\<lambda>ml.
          bindM (assertM ml ''post-return with may_leave already false'') (\<lambda>_.
          bindM (setMayLeave (pc_calleeInst (fi_prepared X)) False) (\<lambda>_.
          bindM (callCore f raw) (\<lambda>_.
          setMayLeave (pc_calleeInst (fi_prepared X)) True)))))"

text \<open>After the callee's first activation: synchronous options, stackful, or the callback loop.\<close>

definition factReturned :: "('g facts_scheme) FactInput \<Rightarrow> nat \<Rightarrow> nat \<Rightarrow> JsVal list \<Rightarrow> ('g facts_scheme, Step) sm" where
  "factReturned X k t raw =
     (if \<not> fi_asyncAbi X then
        bindM (taskReturn (factCaller X) k raw) (\<lambda>_.
        bindM (factPostReturn X raw) (\<lambda>_.
        finishLift (factLift X k) t))
      else if fi_callback X = None then
        bindM (liftR (normalizeCoreValues raw [] ''stackful callee result'')) (\<lambda>_. finishLift (factLift X k) t)
      else
        bindM (liftR (bindR (normalizeCoreValues raw [I32] ''callee result'') packedCode)) (\<lambda>ci.
        callbackLoop callbackFuel (factLift X k) t ci))"

definition factEntered :: "('g facts_scheme) FactInput \<Rightarrow> nat \<Rightarrow> nat \<Rightarrow> bool \<Rightarrow> ('g facts_scheme, Step) sm" where
  "factEntered X k t entered =
     (if \<not> entered then returnM Finished
      else
        bindM (taskStart (factCaller X) k) (\<lambda>calleeArgs.
        bindM (awaitCore t (if fi_canBlock X then fi_enter X (fi_callee X) else fi_callee X) calleeArgs) (\<lambda>a.
        case a of Block req \<Rightarrow> yieldAt t PcFirst req | Now raw \<Rightarrow> factReturned X k t raw)))"

definition factStep :: "('g facts_scheme) FactInput \<Rightarrow> nat \<Rightarrow> nat \<Rightarrow> Sent \<Rightarrow> ('g facts_scheme, Step) sm" where
  "factStep X k t v =
     bindM (getsM (\<lambda>h. th_pc (threads h t))) (\<lambda>pc.
     case pc of
       PcStart \<Rightarrow>
         bindM (setPc t PcEnd) (\<lambda>_.
         bindM (enterImplicitThread (factCaller X) k t) (\<lambda>a.
         case a of Block req \<Rightarrow> yieldAt t PcAdmit req | Now b \<Rightarrow> factEntered X k t b))
     | PcAdmit \<Rightarrow>
         bindM (setPc t PcEnd) (\<lambda>_.
         case sentFlag v of
           Inl e \<Rightarrow> bindM (addWaitingToEnter (pc_calleeInst (fi_prepared X)) (-1)) (\<lambda>_. throwM e)
         | Inr c \<Rightarrow> bindM (afterAdmissionWait (factCaller X) k t c) (factEntered X k t))
     | PcFirst \<Rightarrow> bindM (setPc t PcEnd) (\<lambda>_. bindM (liftR (sentValues v)) (factReturned X k t))
     | _ \<Rightarrow> liftStep (factLift X k) (factCaller X) t v)"

section \<open>The callee's activation\<close>

definition spawn :: "nat \<Rightarrow> ('g hostsched_scheme, nat) sm" where
  "spawn k =
     bindM freshId (\<lambda>t.
     bindM (modifyM (\<lambda>h. (updThread t (\<lambda>_. newThread k PcStart) h)\<lparr>callScopes := (callScopes h)(t := [])\<rparr>)) (\<lambda>_.
     returnM t))"

text \<open>The code of the store, with the body of the thread the call has made.\<close>

definition factCode :: "('g facts_scheme) Code \<Rightarrow> ('g facts_scheme) FactInput \<Rightarrow> nat \<Rightarrow> nat \<Rightarrow> ('g facts_scheme) Code" where
  "factCode C X k t = C\<lparr>code_body := (code_body C)(t := factStep X k t)\<rparr>"

definition poisonCallee :: "PreparedCall \<Rightarrow> error \<Rightarrow> ('g heap_scheme, unit) sm" where
  "poisonCallee p e =
     (if isCapabilitySignal e then leaveTo (pc_calleeInst p) (Some (pc_callerInst p))
      else notifyInstancePoisoned (pc_calleeInst p) e)"

text \<open>The gate with the first run of the thread; \<open>unwind\<close> releases the caller's lenders when it throws.\<close>

definition activateCallee :: "('g facts_scheme) Code \<Rightarrow> ('g facts_scheme) FactInput \<Rightarrow> nat \<Rightarrow> ('g facts_scheme, unit) sm \<Rightarrow>
    ('g facts_scheme, nat) sm" where
  "activateCallee C X k unwind =
     (let p = fi_prepared X in
      bindM (getsM (mayEnterFrom (pc_calleeInst p) (Some (pc_callerInst p)))) (\<lambda>ok.
      bindM (getsM (withPoisonCause (pc_calleeInst p) ''cannot enter component instance'')) (\<lambda>msg.
      bindM (trapIfM (\<not> ok) msg) (\<lambda>_.
      bindM (enterFrom (pc_calleeInst p) (Some (pc_callerInst p))) (\<lambda>_.
      bindM (catchM (bindM (spawn k) (\<lambda>t. bindM (threadResume (factCode C X k t) t False) (\<lambda>_. returnM t)))
               (\<lambda>e. bindM (poisonCallee p e) (\<lambda>_. bindM unwind (\<lambda>_. throwM e)))) (\<lambda>t.
      bindM (leaveTo (pc_calleeInst p) (Some (pc_callerInst p))) (\<lambda>_. returnM t)))))))"

definition factInput :: "'s FactContext \<Rightarrow> PreparedCall \<Rightarrow> nat \<Rightarrow> 's CoreFn option \<Rightarrow> 's CoreFn option \<Rightarrow> bool \<Rightarrow> FactSide \<Rightarrow> 's FactInput" where
  "factInput F p f cb pr asyncAbi sd =
     \<lparr>fi_prepared = p, fi_callee = fc_func F f, fi_callback = cb, fi_postReturn = pr,
      fi_start = fc_adapter F (pc_start p), fi_return = fc_adapter F (pc_return p), fi_enter = fc_enter F,
      fi_canBlock = fc_calleeCanBlock F f, fi_asyncAbi = asyncAbi,
      fi_results = fc_resultTypesForTuple F (pc_taskReturnType p), fi_side = sd\<rparr>"

definition factCallback :: "'s FactContext \<Rightarrow> nat option \<Rightarrow> 's CoreFn option result" where
  "factCallback F c =
     (case c of
        None \<Rightarrow> Ok None
      | Some i \<Rightarrow> (case fc_callback F i of
            None \<Rightarrow> Err (JsError (''PlanError: callback '' @ showNat i @ '' accessed before its extract-callback initializer ran''))
          | Some f \<Rightarrow> Ok (Some f)))"

definition shapeResults :: "JsVal list option \<Rightarrow> JsVal" where
  "shapeResults out1 = (case out1 of None \<Rightarrow> VUndef | Some [] \<Rightarrow> VUndef | Some [v] \<Rightarrow> v | Some vs \<Rightarrow> VArr vs)"

section \<open>sync-start-call\<close>

definition syncAnswer :: "nat \<Rightarrow> ('g facts_scheme, JsVal) sm" where
  "syncAnswer s =
     bindM (modifyM (releaseLenders s)) (\<lambda>_. getsM (\<lambda>h. shapeResults (callerResults h s)))"

definition parkCaller :: "PreparedCall \<Rightarrow> nat \<Rightarrow> FactWait \<Rightarrow> ('g facts_scheme, BuiltinOut) sm" where
  "parkCaller p s w =
     bindM (modifyM (\<lambda>h. h\<lparr>factWaits := (factWaits h)(s := Some w)\<rparr>)) (\<lambda>_.
     bindM (getsM (\<lambda>h. storeOf h (pc_callerInst p))) (\<lambda>st.
     bindM currentTask (\<lambda>k.
     bindM (blockCurrentActivation st k (OtherCond s) False (OtherPoint s)) (\<lambda>q. returnM (BFrame q)))))"

definition openScope :: "('g facts_scheme, nat) sm" where
  "openScope =
     bindM freshId (\<lambda>s.
     bindM (modifyM (\<lambda>h. h\<lparr>callerResults := (callerResults h)(s := None), scopeLenders := (scopeLenders h)(s := [])\<rparr>)) (\<lambda>_.
     returnM s))"

definition createSyncStartCall :: "('g facts_scheme) FactContext \<Rightarrow> ('g facts_scheme) Code \<Rightarrow> nat option \<Rightarrow> FactArg \<Rightarrow>
    ('g facts_scheme, BuiltinOut) sm" where
  "createSyncStartCall F C cbi callee =
     bindM (takePrepared ''sync-start-call'') (\<lambda>p.
     case callee of
       FactLane _ \<Rightarrow> throwM (AssertionError ''sync-start-call: callee funcref'')
     | FactFunc f \<Rightarrow>
         bindM (liftR (factCallback F cbi)) (\<lambda>cb.
         bindM openScope (\<lambda>s.
         let X = factInput F p f cb None True (SyncSide s) in
         bindM (mkCalleeTask X) (\<lambda>k.
         bindM (activateCallee C X k (modifyM (releaseLenders s))) (\<lambda>_.
         bindM (getsM (\<lambda>h. callerResults h s)) (\<lambda>r.
         if r = None then
           (if fc_jspi F then parkCaller p s (SyncStart s)
            else bindM (modifyM (releaseLenders s)) (\<lambda>_.
              needsJspi ''sync-start-call whose async-lifted callee did not resolve in its first activation''))
         else bindM (syncAnswer s) (\<lambda>v. returnM (BReturn v))))))))"

section \<open>async-start-call\<close>

definition makeSubtask :: "('g sched_scheme, nat) sm" where
  "makeSubtask =
     bindM freshId (\<lambda>s.
     bindM (modifyM (\<lambda>h. h\<lparr>subtasks := (subtasks h)(s := newSubtask), waitables := (waitables h)(s := newWaitable),
              onCancel := (onCancel h)(s := None), calleeTask := (calleeTask h)(s := None)\<rparr>)) (\<lambda>_.
     returnM s))"

text \<open>\<open>report\<close>: an eager completion has no handle and no event; otherwise the handle is what \<open>onProgress\<close> signals.\<close>

definition report :: "nat \<Rightarrow> nat \<Rightarrow> ('g hostsched_scheme, JsVal) sm" where
  "report caller s =
     bindM (getsM (\<lambda>h. resolved (subtasks h s))) (\<lambda>res.
     if res then
       bindM (deliverResolve s) (\<lambda>_. returnM (VNum (int (subtaskStateNum RETURNED))))
     else
       bindM (onTable caller (tableAdd (ESubtask s))) (\<lambda>i.
       bindM (modifyM (\<lambda>h. h\<lparr>lowerHandle := (lowerHandle h)(s := Some i)\<rparr>)) (\<lambda>_.
       bindM (getsM (\<lambda>h. subtaskStateNum (st_state (subtasks h s)))) (\<lambda>st.
       bindM (liftR (packSubtaskResult st i)) (\<lambda>n. returnM (VNum (int n)))))))"

definition gatedAtEntry :: "nat \<Rightarrow> nat \<Rightarrow> 'g sched_scheme \<Rightarrow> bool" where
  "gatedAtEntry s t h \<longleftrightarrow>
     st_state (subtasks h s) = STARTING \<and> \<not> resolved (subtasks h s) \<and>
     th_state (threads h t) \<noteq> ThDone \<and> th_state (threads h t) = ThWaiting"

text \<open>\<open>determinate\<close> of this file; the conditions it scans are those of the store's code.\<close>

definition callDeterminate :: "(nat \<Rightarrow> 'g sched_scheme \<Rightarrow> bool) \<Rightarrow> nat \<Rightarrow> nat \<Rightarrow> nat \<Rightarrow> nat \<Rightarrow> nat \<Rightarrow> nat option \<Rightarrow> 'g sched_scheme \<Rightarrow> bool" where
  "callDeterminate C st s k t callee callerTask h \<longleftrightarrow>
     (if gatedAtEntry s t h then \<not> hasRunnableWork C st callee callerTask h
      else resolved (subtasks h s) \<or> th_state (threads h t) = ThDone \<or>
           list_ex (\<lambda>w. agentTask h w = Some k) (so_waiting (stores h st)))"

definition createAsyncStartCall :: "('g facts_scheme) FactContext \<Rightarrow> ('g facts_scheme) Code \<Rightarrow> nat option \<Rightarrow> nat option \<Rightarrow>
    FactArg \<Rightarrow> nat \<Rightarrow> ('g facts_scheme, BuiltinOut) sm" where
  "createAsyncStartCall F C cbi pri callee flags =
     bindM (takePrepared ''async-start-call'') (\<lambda>p.
     case callee of
       FactLane _ \<Rightarrow> throwM (AssertionError ''async-start-call: callee funcref'')
     | FactFunc f \<Rightarrow>
         bindM (liftR (factCallback F cbi)) (\<lambda>cb.
         bindM makeSubtask (\<lambda>s.
         bindM (modifyM (\<lambda>h. h\<lparr>lowerHandle := (lowerHandle h)(s := None), factProduced := (factProduced h)(s := False)\<rparr>)) (\<lambda>_.
         bindM (liftR (factCallback F pri)) (\<lambda>pr.
         let X = factInput F p f cb pr (and flags START_FLAG_ASYNC_CALLEE \<noteq> 0) (AsyncSide s) in
         bindM (mkCalleeTask X) (\<lambda>k.
         bindM (modifyM (\<lambda>h. h\<lparr>onCancel := (onCancel h)(s := Some (CancelTask k)), calleeTask := (calleeTask h)(s := Some k)\<rparr>)) (\<lambda>_.
         bindM (activateCallee C X k (unwindLenders s)) (\<lambda>t.
         if fc_jspi F then
           bindM (getsM (\<lambda>h. storeOf h (pc_callerInst p))) (\<lambda>st.
           bindM (getsM maybeCurrentTask) (\<lambda>callerTask.
           bindM (getsM (callDeterminate (code_cond C) st s k t (pc_calleeInst p) callerTask)) (\<lambda>det.
           if \<not> det then parkCaller p s (AsyncStart s k t (pc_callerInst p) (pc_calleeInst p) callerTask)
           else bindM (report (pc_callerInst p) s) (\<lambda>v. returnM (BReturn v)))))
         else bindM (report (pc_callerInst p) s) (\<lambda>v. returnM (BReturn v))))))))))"

section \<open>What a parked caller runs\<close>

text \<open>The condition, \<open>produce\<close> and \<open>onSettled\<close> of the frame parked for call \<open>n\<close>.\<close>

definition factReady :: "(nat \<Rightarrow> 'g facts_scheme \<Rightarrow> bool) \<Rightarrow> nat \<Rightarrow> 'g facts_scheme \<Rightarrow> bool" where
  "factReady C n h =
     (case factWaits h n of
        None \<Rightarrow> False
      | Some (SyncStart s) \<Rightarrow> callerResults h s \<noteq> None
      | Some (AsyncStart s k t caller callee callerTask) \<Rightarrow> callDeterminate C (storeOf h caller) s k t callee callerTask h)"

definition factProduce :: "nat \<Rightarrow> ('g facts_scheme, JsVal) sm" where
  "factProduce n =
     bindM (getsM (\<lambda>h. factWaits h n)) (\<lambda>w.
     case w of
       None \<Rightarrow> throwM (JsError ''not a frame of these built-ins'')
     | Some (SyncStart s) \<Rightarrow> syncAnswer s
     | Some (AsyncStart s k t caller callee callerTask) \<Rightarrow>
         bindM (report caller s) (\<lambda>r.
         bindM (modifyM (\<lambda>h. h\<lparr>factProduced := (factProduced h)(s := True)\<rparr>)) (\<lambda>_. returnM r)))"

definition factSettled :: "nat \<Rightarrow> ('g facts_scheme, unit) sm" where
  "factSettled n =
     bindM (getsM (\<lambda>h. factWaits h n)) (\<lambda>w.
     case w of
       None \<Rightarrow> returnM ()
     | Some (SyncStart s) \<Rightarrow> modifyM (releaseLenders s)
     | Some (AsyncStart s k t caller callee callerTask) \<Rightarrow>
         bindM (getsM (\<lambda>h. factProduced h s)) (\<lambda>done1.
         if \<not> done1 then unwindLenders s else returnM ()))"

end
