(* ===== verification/FactProps.thy ===== *)
theory FactProps
  imports FactCalls CallProps
begin

text \<open>
  The run of a fused call whose callee resolves in its first activation: the caller gets what the two copy
  adapters and the callee compose to.
\<close>

section \<open>Adapters and callees\<close>

text \<open>A copy adapter implements \<open>\<phi>\<close> when it maps lanes by it and changes nothing but memory.\<close>

definition adapterIs :: "('g sched_scheme) AdapterFn \<Rightarrow> (JsVal list \<Rightarrow> JsVal list) \<Rightarrow> bool" where
  "adapterIs f \<phi> \<longleftrightarrow> (\<forall>xs. \<exists>r M. rawValues r = \<phi> xs \<and> (\<forall>g. f xs g = (Inr r, g\<lparr>mems := M g\<rparr>)))"

lemma adapter_run:
  assumes "adapterIs f \<phi>"
  obtains m where "callAdapter f xs h = (Inr (\<phi> xs), h\<lparr>mems := m\<rparr>)"
proof -
  obtain r M where "rawValues r = \<phi> xs" "\<forall>g. f xs g = (Inr r, g\<lparr>mems := M g\<rparr>)" using assms unfolding adapterIs_def by meson
  then show thesis using that [of "M h"] by (simp add: callAdapter_def)
qed

text \<open>
  The start adapter may also lend.  What it lends goes to the innermost start window, one handle after the other, by the
  code's own \<open>lendTo\<close>, before it writes memory; the lanes and the handles it lends depend on the handle tables it reads, so the
  condition is stated for the states that agree with \<open>h\<close> on these.
\<close>

primrec lendEach :: "LenderScope \<Rightarrow> nat list \<Rightarrow> ('g hostsched_scheme, unit) sm" where
  "lendEach l [] = returnM ()"
| "lendEach l (r # rs) = bindM (lendTo l r) (\<lambda>_. lendEach l rs)"

definition sameHandles :: "'g hostsched_scheme \<Rightarrow> 'g hostsched_scheme \<Rightarrow> bool" where
  "sameHandles h g \<longleftrightarrow> handles g = handles h \<and> resources g = resources h \<and> rtImpl g = rtImpl h"

definition lendingAdapterIs :: "'g facts_scheme \<Rightarrow> ('g facts_scheme) AdapterFn \<Rightarrow> JsVal list \<Rightarrow> JsVal list \<Rightarrow> nat list \<Rightarrow> bool" where
  "lendingAdapterIs h f xs ys L \<longleftrightarrow>
     (\<exists>r M. rawValues r = ys \<and>
        (\<forall>g k l. sameHandles h g \<and> factStartScopes g \<noteq> [] \<and> last (factStartScopes g) = (k, l) \<longrightarrow>
           f xs g = (case lendEach l L g of (Inl e, g1) \<Rightarrow> (Inl (Thrown e), g1) | (Inr _, g1) \<Rightarrow> (Inr r, g1\<lparr>mems := M g\<rparr>))))"

lemma lending_cong: "sameHandles h h' \<Longrightarrow> lendingAdapterIs h' f xs ys L = lendingAdapterIs h f xs ys L"
  by (simp add: lendingAdapterIs_def sameHandles_def)

text \<open>The lends of a start: the counts of the handles, and the list of lenders they stand in.\<close>

definition countLends :: "int \<Rightarrow> nat list \<Rightarrow> (nat \<Rightarrow> ResourceHandle) \<Rightarrow> nat \<Rightarrow> ResourceHandle" where
  "countLends d L R = (\<lambda>r. (R r)\<lparr>numLends := numLends (R r) + d * int (count_list L r)\<rparr>)"

lemma countLends_Nil [simp]: "countLends d [] R = R"
  by (simp add: countLends_def)

lemma countLends_back [simp]: "countLends (-1) L (countLends 1 L R) = R"
  by (simp add: countLends_def)

lemma fold_countLends: "fold (addLends d) L h = h\<lparr>resources := countLends d L (resources h)\<rparr>"
proof (induction L arbitrary: h)
  case (Cons r L)
  have "countLends d L ((resources h)(r := (resources h r)\<lparr>numLends := numLends (resources h r) + d\<rparr>)) = countLends d (r # L) (resources h)"
    by (auto simp: countLends_def fun_eq_iff algebra_simps)
  then have "(addLends d r h)\<lparr>resources := countLends d L (resources (addLends d r h))\<rparr> = h\<lparr>resources := countLends d (r # L) (resources h)\<rparr>"
    by (simp add: addLends_def)
  then show ?case using Cons.IH [of "addLends d r h"] by simp
qed simp

definition lentIn :: "LenderScope \<Rightarrow> nat list \<Rightarrow> 'g hostsched_scheme \<Rightarrow> 'g hostsched_scheme" where
  "lentIn l L h =
     (case l of
        OfScope s \<Rightarrow> h\<lparr>resources := countLends 1 L (resources h), scopeLenders := (scopeLenders h)(s := scopeLenders h s @ L)\<rparr>
      | OfSubtask s \<Rightarrow> updSubtask s (\<lambda>x. x\<lparr>lenders := map_option (\<lambda>ls. ls @ L) (lenders x)\<rparr>)
          (h\<lparr>resources := countLends 1 L (resources h)\<rparr>))"

definition takesLends :: "LenderScope \<Rightarrow> 'g hostsched_scheme \<Rightarrow> bool" where
  "takesLends l h =
     (case l of OfScope s \<Rightarrow> True | OfSubtask s \<Rightarrow> lenders (subtasks h s) \<noteq> None \<and> \<not> resolved (subtasks h s))"

lemma lend_one:
  assumes "takesLends l h"
  shows "lendTo l r h = (Inr (), lentIn l [r] h)" "takesLends l (lentIn l L h)" "lentIn l L (lentIn l [r] h) = lentIn l (r # L) h"
proof -
  have c: "countLends 1 [r] R = R(r := (R r)\<lparr>numLends := numLends (R r) + 1\<rparr>)" for R by (auto simp: countLends_def fun_eq_iff)
  have c2: "countLends 1 L (countLends 1 [r] R) = countLends 1 (r # L) R" for R by (auto simp: countLends_def fun_eq_iff)
  show "lendTo l r h = (Inr (), lentIn l [r] h)"
    using assms
    by (cases l) (auto simp: lendTo_def lentIn_def takesLends_def scopeAddLender_def addLender_run addLends_def c run_simps)
  show "takesLends l (lentIn l L h)"
    using assms by (cases l) (simp_all add: takesLends_def lentIn_def updSubtask_def resolved_def)
  show "lentIn l L (lentIn l [r] h) = lentIn l (r # L) h"
    by (cases l) (simp_all add: lentIn_def updSubtask_def c2 option.map_comp comp_def)
qed

lemma lentIn_Nil: "lentIn l [] h = h"
  by (cases l) (simp_all add: lentIn_def updSubtask_def option.map_ident)

lemma lendEach_run: "takesLends l h \<Longrightarrow> lendEach l L h = (Inr (), lentIn l L h)"
proof (induction L arbitrary: h)
  case Nil
  then show ?case by (simp add: run_simps lentIn_Nil)
next
  case (Cons r L)
  have "lendEach l L (lentIn l [r] h) = (Inr (), lentIn l (r # L) h)"
    using Cons.IH [OF lend_one(2) [OF Cons.prems, of "[r]"]] lend_one(3) [OF Cons.prems] by simp
  then show ?case using lend_one(1) [OF Cons.prems, of r] by (simp add: bindM_def)
qed

lemma startWindow_run:
  fixes h :: "'g facts_scheme"
  assumes "lendingAdapterIs h f xs ys L" "takesLends l h"
  obtains m where "startWindow k l (callAdapter f xs) h = (Inr ys, lentIn l L (h\<lparr>mems := m\<rparr>))"
proof -
  let ?g = "h\<lparr>factStartScopes := factStartScopes h @ [(k, l)]\<rparr>"
  obtain r M where r: "rawValues r = ys"
    "\<And>g k l. sameHandles h g \<Longrightarrow> factStartScopes g \<noteq> [] \<Longrightarrow> last (factStartScopes g) = (k, l) \<Longrightarrow>
      f xs g = (case lendEach l L g of (Inl e, g1) \<Rightarrow> (Inl (Thrown e), g1) | (Inr _, g1) \<Rightarrow> (Inr r, g1\<lparr>mems := M g\<rparr>))"
    using assms(1) unfolding lendingAdapterIs_def by blast
  have l: "lendEach l L ?g = (Inr (), lentIn l L ?g)"
    by (rule lendEach_run) (use assms(2) in \<open>simp add: takesLends_def split: LenderScope.splits\<close>)
  have "f xs ?g = (Inr r, (lentIn l L ?g)\<lparr>mems := M ?g\<rparr>)"
    using r(2) [of ?g k l] l by (simp add: sameHandles_def)
  then have "callAdapter f xs ?g = (Inr ys, (lentIn l L ?g)\<lparr>mems := M ?g\<rparr>)" using r(1) by (simp add: callAdapter_def)
  then show thesis
    by (intro that [of "M ?g"]) (cases l; simp add: startWindow_def run_simps finallyM_def liftR_def butlast_append lentIn_def updSubtask_def)
qed

text \<open>The effect on the caller's side of a start and of a resolution.\<close>

definition startedSide :: "FactSide \<Rightarrow> nat list \<Rightarrow> 'g facts_scheme \<Rightarrow> 'g facts_scheme" where
  "startedSide sd L h =
     (case sd of
        SyncSide s \<Rightarrow> lentIn (OfScope s) L h
      | AsyncSide s \<Rightarrow> updSubtask s (\<lambda>x. x\<lparr>st_state := STARTED\<rparr>) (lentIn (OfSubtask s) L h))"

definition deliveredSide :: "FactSide \<Rightarrow> JsVal list \<Rightarrow> 'g facts_scheme \<Rightarrow> 'g facts_scheme" where
  "deliveredSide sd rs h =
     (case sd of
        SyncSide s \<Rightarrow> h\<lparr>callerResults := (callerResults h)(s := Some rs)\<rparr>
      | AsyncSide s \<Rightarrow> updSubtask s (\<lambda>x. x\<lparr>st_state := RETURNED, flatResults := []\<rparr>) h)"

text \<open>The subtask of an asynchronous call is in the given state and the guest has no handle for it.\<close>

definition sideIs :: "FactSide \<Rightarrow> SubtaskState \<Rightarrow> 'g facts_scheme \<Rightarrow> bool" where
  "sideIs sd st h =
     (case sd of
        SyncSide s \<Rightarrow> True
      | AsyncSide s \<Rightarrow> st_state (subtasks h s) = st \<and> lenders (subtasks h s) \<noteq> None \<and> lowerHandle h s = None)"

lemma side_takes: "sideIs sd STARTING h \<Longrightarrow> takesLends (factLenders sd) h"
  by (cases sd) (simp_all add: sideIs_def takesLends_def factLenders_def resolved_def)

lemma onStart_run:
  fixes h :: "'g facts_scheme"
  assumes "lendingAdapterIs h (fi_start X) (startParams (fi_prepared X)) xs L" "sideIs (fi_side X) STARTING h"
  obtains m where "onStart (factCaller X) k h = (Inr xs, startedSide (fi_side X) L (h\<lparr>mems := m\<rparr>))"
proof -
  let ?l = "factLenders (fi_side X)"
  obtain m where m: "startWindow k ?l (callAdapter (fi_start X) (startParams (fi_prepared X))) h = (Inr xs, lentIn ?l L (h\<lparr>mems := m\<rparr>))"
    by (rule startWindow_run [OF assms(1) side_takes [OF assms(2)]])
  have st: "factStarted (fi_side X) (lentIn ?l L (h\<lparr>mems := m\<rparr>)) = (Inr (), startedSide (fi_side X) L (h\<lparr>mems := m\<rparr>))"
    using assms(2)
    by (cases "fi_side X")
      (simp_all add: factStarted_def factLenders_def startedSide_def sideIs_def run_simps lowerProgress_def updSubtask_def lentIn_def)
  have "onStart (factCaller X) k h = (Inr xs, startedSide (fi_side X) L (h\<lparr>mems := m\<rparr>))"
    by (simp add: factCaller_def run_simps bindM_run_Inr [where m = "factStarted (fi_side X)", OF st]
        bindM_run_Inr [where m = "startWindow k ?l (callAdapter (fi_start X) (startParams (fi_prepared X)))", OF m])
  then show thesis by (rule that)
qed

lemma onResolve_run:
  fixes h :: "'g facts_scheme"
  assumes "adapterIs (fi_return X) \<psi>" "sideIs (fi_side X) STARTED h"
  obtains m where "onResolve (factCaller X) k (Some vs) h =
    (Inr (), deliveredSide (fi_side X) (\<psi> (withRetptr (fi_prepared X) vs)) (h\<lparr>mems := m\<rparr>))"
proof -
  obtain m where m: "callAdapter (fi_return X) (withRetptr (fi_prepared X) vs) h = (Inr (\<psi> (withRetptr (fi_prepared X) vs)), h\<lparr>mems := m\<rparr>)"
    by (rule adapter_run [OF assms(1)])
  have "onResolve (factCaller X) k (Some vs) h = (Inr (), deliveredSide (fi_side X) (\<psi> (withRetptr (fi_prepared X) vs)) (h\<lparr>mems := m\<rparr>))"
    using assms(2)
    by (cases "fi_side X") (simp_all add: factCaller_def bindM_run_Inr [where m = "callAdapter (fi_return X) (withRetptr (fi_prepared X) vs)", OF m] onCallerResults_def deliveredSide_def sideIs_def run_simps
        resolve_def resolved_def lowerProgress_def updSubtask_def)
  then show thesis by (rule that)
qed

lemma return_run:
  fixes h :: "'g facts_scheme"
  assumes "adapterIs (fi_return X) \<psi>" "sideIs (fi_side X) STARTED h" "ta_state (tasks h k) \<noteq> TResolved" "taskBorrows h k = 0"
  obtains m where "taskReturn (factCaller X) k vs h =
    (Inr (), updTask k (\<lambda>x. x\<lparr>ta_state := TResolved\<rparr>)
       (deliveredSide (fi_side X) (\<psi> (withRetptr (fi_prepared X) vs)) (h\<lparr>mems := m\<rparr>)))"
proof -
  obtain m where m: "onResolve (factCaller X) k (Some vs) h =
      (Inr (), deliveredSide (fi_side X) (\<psi> (withRetptr (fi_prepared X) vs)) (h\<lparr>mems := m\<rparr>))"
    by (rule onResolve_run [OF assms(1,2)])
  show thesis
    by (rule that [of m])
      (use assms(3,4) in \<open>simp add: taskReturn_def run_simps bindM_run_Inr [where m = "onResolve (factCaller X) k (Some vs)", OF m] setTaskState_def\<close>)
qed

text \<open>
  A callee implements \<open>f\<close>: with synchronous options it returns \<open>f\<close>'s lanes, with asynchronous ones it passes them to
  \<open>task.return\<close> in its task and returns nothing, or the code of a callback that is not wanted again.
\<close>

definition calleeEntry :: "'s FactInput \<Rightarrow> 's CoreFn" where
  "calleeEntry X = (if fi_canBlock X then fi_enter X (fi_callee X) else fi_callee X)"

definition calleeIs :: "('g facts_scheme) FactInput \<Rightarrow> (JsVal list \<Rightarrow> JsVal list) \<Rightarrow> bool" where
  "calleeIs X f \<longleftrightarrow>
     (\<forall>xs. \<exists>r M.
        if \<not> fi_asyncAbi X then rawValues r = f xs \<and> (\<forall>g. calleeEntry X xs g = (Inr (Returned r), g\<lparr>mems := M g\<rparr>))
        else rawValues r = (if fi_callback X = None then [] else [VNum 0]) \<and>
          (\<forall>g. calleeEntry X xs g =
             (case bindM currentTask (\<lambda>k. taskReturn (factCaller X) k (f xs)) (g\<lparr>mems := M g\<rparr>) of
                (Inl e, g1) \<Rightarrow> (Inl (Thrown e), g1)
              | (Inr _, g1) \<Rightarrow> (Inr (Returned r), g1))))"

text \<open>The post-return function, when there is one, only writes memory.\<close>

definition postReturnIs :: "('g sched_scheme) FactInput \<Rightarrow> bool" where
  "postReturnIs X \<longleftrightarrow>
     (case fi_postReturn X of None \<Rightarrow> True
      | Some pr \<Rightarrow> (\<forall>xs. \<exists>r M. \<forall>g. pr xs g = (Inr (Returned r), g\<lparr>mems := M g\<rparr>)))"

lemma postReturn_run:
  fixes h :: "'g sched_scheme"
  assumes "postReturnIs X" "mayLeave h (pc_calleeInst (fi_prepared X))"
  obtains m where "factPostReturn X raw h = (Inr (), h\<lparr>mems := m\<rparr>)"
proof (cases "fi_postReturn X")
  case None
  then show thesis using that [of "mems h"] by (simp add: factPostReturn_def run_simps)
next
  case (Some pr)
  then obtain r M where "\<And>g. pr raw g = (Inr (Returned r), g\<lparr>mems := M g\<rparr>)" using assms(1) unfolding postReturnIs_def by fastforce
  then have c: "callCore pr raw g = (Inr (Values (rawValues r)), g\<lparr>mems := M g\<rparr>)" for g by (simp add: callCore_def)
  let ?i = "pc_calleeInst (fi_prepared X)"
  let ?g = "h\<lparr>mayLeave := (mayLeave h)(?i := False)\<rparr>"
  have "(mayLeave h)(?i := True) = mayLeave h" using assms(2) by (simp add: fun_upd_idem)
  then show thesis
    using that [of "M ?g"] assms(2) Some
    by (simp add: factPostReturn_def run_simps setMayLeave_def bindM_run_Inr [where m = "callCore pr raw", OF c])
qed

lemma side_mems [simp]:
  "(deliveredSide sd rs h)\<lparr>mems := m\<rparr> = deliveredSide sd rs (h\<lparr>mems := m\<rparr>)"
  "(startedSide sd L h)\<lparr>mems := m\<rparr> = startedSide sd L (h\<lparr>mems := m\<rparr>)"
  "(updTask k f g)\<lparr>mems := m\<rparr> = updTask k f (g\<lparr>mems := m\<rparr>)"
  by (cases sd; simp add: deliveredSide_def startedSide_def lentIn_def updSubtask_def updTask_def)+

lemma side_fields [simp]:
  "tasks (deliveredSide sd rs h) = tasks h" "threads (deliveredSide sd rs h) = threads h" "threadStack (deliveredSide sd rs h) = threadStack h"
  "entryStack (deliveredSide sd rs h) = entryStack h" "mayLeave (deliveredSide sd rs h) = mayLeave h" "taskBorrows (deliveredSide sd rs h) = taskBorrows h"
  "exclusiveThread (deliveredSide sd rs h) = exclusiveThread h" "instThreads (deliveredSide sd rs h) = instThreads h"
  "tasks (startedSide sd L h) = tasks h" "threads (startedSide sd L h) = threads h" "threadStack (startedSide sd L h) = threadStack h"
  "entryStack (startedSide sd L h) = entryStack h" "mayLeave (startedSide sd L h) = mayLeave h" "taskBorrows (startedSide sd L h) = taskBorrows h"
  "exclusiveThread (startedSide sd L h) = exclusiveThread h" "instThreads (startedSide sd L h) = instThreads h"
  by (cases sd; simp add: deliveredSide_def startedSide_def lentIn_def updSubtask_def)+

section \<open>The callee's activation\<close>

lemma callee_run_sync:
  fixes h :: "'g facts_scheme"
  assumes "calleeIs X f" "\<not> fi_asyncAbi X" "adapterIs (fi_return X) \<psi>" "postReturnIs X" "mayLeave h (pc_calleeInst (fi_prepared X))"
    "sideIs (fi_side X) STARTED h" "ta_state (tasks h k) \<noteq> TResolved" "taskBorrows h k = 0"
  obtains raw h4 m where "awaitCore t (calleeEntry X) xs h = (Inr (Now raw), h4)"
    "factReturned X k t raw h4 = finishLift (factLift X k) t (updTask k (\<lambda>x. x\<lparr>ta_state := TResolved\<rparr>)
       (deliveredSide (fi_side X) (\<psi> (withRetptr (fi_prepared X) (f xs))) (h\<lparr>mems := m\<rparr>)))"
proof -
  obtain r M where r: "rawValues r = f xs" "\<And>g. calleeEntry X xs g = (Inr (Returned r), g\<lparr>mems := M g\<rparr>)"
    using assms(1,2) unfolding calleeIs_def by meson
  obtain m1 where a: "awaitCore t (calleeEntry X) xs h = (Inr (Now (f xs)), h\<lparr>mems := m1\<rparr>)"
    using awaitCore_sync [of "calleeEntry X" xs r M t h] r by metis
  let ?out = "\<psi> (withRetptr (fi_prepared X) (f xs))"
  have "sideIs (fi_side X) STARTED (h\<lparr>mems := m1\<rparr>)" using assms(6) by (simp add: sideIs_def split: FactSide.splits)
  then obtain m2 where b: "taskReturn (factCaller X) k (f xs) (h\<lparr>mems := m1\<rparr>) =
      (Inr (), updTask k (\<lambda>x. x\<lparr>ta_state := TResolved\<rparr>) (deliveredSide (fi_side X) ?out (h\<lparr>mems := m2\<rparr>)))"
    using return_run [OF assms(3), of "h\<lparr>mems := m1\<rparr>" k "f xs"] assms(7,8) by fastforce
  let ?h5 = "updTask k (\<lambda>x. x\<lparr>ta_state := TResolved\<rparr>) (deliveredSide (fi_side X) ?out (h\<lparr>mems := m2\<rparr>))"
  obtain m3 where c: "factPostReturn X (f xs) ?h5 = (Inr (), ?h5\<lparr>mems := m3\<rparr>)"
    by (rule postReturn_run [OF assms(4), of ?h5 "f xs"]) (use assms(5) in \<open>simp_all add: updTask_def\<close>)
  have "factReturned X k t (f xs) (h\<lparr>mems := m1\<rparr>) = finishLift (factLift X k) t (?h5\<lparr>mems := m3\<rparr>)"
    using assms(2) by (simp add: factReturned_def bindM_run_Inr [where m = "taskReturn (factCaller X) k (f xs)", OF b]
        bindM_run_Inr [where m = "factPostReturn X (f xs)", OF c])
  then show thesis using that [OF a, of m3] by simp
qed

lemma exit_code: "bindR (normalizeCoreValues [VNum 0] [I32] msg) packedCode = Inr (CbExit, 0)"
proof -
  have "list_all2 laneOk [I32] [VNum 0]" by (simp add: laneOk_def inRange_def)
  then show ?thesis
    by (simp add: normalizeCoreValues_ok bindR_def packedCode_def unpackCallbackResult_def assertR_def trapIfR_def callbackCode_def CALLBACK_CODE_MAX_def)
qed

lemma callee_run_async:
  fixes h :: "'g facts_scheme"
  assumes "calleeIs X f" "fi_asyncAbi X" "adapterIs (fi_return X) \<psi>" "th_task (threads h t) = k"
    "sideIs (fi_side X) STARTED h" "ta_state (tasks h k) \<noteq> TResolved" "taskBorrows h k = 0"
  obtains raw h4 m where "awaitCore t (calleeEntry X) xs h = (Inr (Now raw), h4)"
    "factReturned X k t raw h4 = finishLift (factLift X k) t (updTask k (\<lambda>x. x\<lparr>ta_state := TResolved\<rparr>)
       (deliveredSide (fi_side X) (\<psi> (withRetptr (fi_prepared X) (f xs))) (h\<lparr>mems := m\<rparr>)))"
proof -
  obtain r M where r: "rawValues r = (if fi_callback X = None then [] else [VNum 0])"
    "\<And>g. calleeEntry X xs g = (case bindM currentTask (\<lambda>k. taskReturn (factCaller X) k (f xs)) (g\<lparr>mems := M g\<rparr>) of
       (Inl e, g1) \<Rightarrow> (Inl (Thrown e), g1) | (Inr _, g1) \<Rightarrow> (Inr (Returned r), g1))"
    using assms(1,2) unfolding calleeIs_def by meson
  let ?out = "\<psi> (withRetptr (fi_prepared X) (f xs))"
  let ?g = "h\<lparr>threadStack := threadStack h @ [t], entryStack := entryStack h @ [t]\<rparr>"
  have cur: "currentTask (g\<lparr>mems := m\<rparr>) = (Inr k, g\<lparr>mems := m\<rparr>)" if "g = ?g" for g :: "'g facts_scheme" and m
    using assms(4) that by (simp add: currentTask_def currentThread_def resolveAmbient_def topOf_def run_simps bindM_def [of currentThread])
  have "sideIs (fi_side X) STARTED (?g\<lparr>mems := M ?g\<rparr>)" using assms(5) by (simp add: sideIs_def split: FactSide.splits)
  then obtain m2 where b: "taskReturn (factCaller X) k (f xs) (?g\<lparr>mems := M ?g\<rparr>) =
      (Inr (), updTask k (\<lambda>x. x\<lparr>ta_state := TResolved\<rparr>) (deliveredSide (fi_side X) ?out (?g\<lparr>mems := m2\<rparr>)))"
    using return_run [OF assms(3), of "?g\<lparr>mems := M ?g\<rparr>" k "f xs"] assms(6,7) by fastforce
  let ?h5 = "updTask k (\<lambda>x. x\<lparr>ta_state := TResolved\<rparr>) (deliveredSide (fi_side X) ?out (h\<lparr>mems := m2\<rparr>))"
  have pop: "(updTask k (\<lambda>x. x\<lparr>ta_state := TResolved\<rparr>) (deliveredSide (fi_side X) ?out (?g\<lparr>mems := m2\<rparr>)))
      \<lparr>entryStack := entryStack h, threadStack := threadStack h\<rparr> = ?h5"
    by (cases "fi_side X") (simp_all add: deliveredSide_def updTask_def updSubtask_def)
  have "callCore (calleeEntry X) xs ?g = (Inr (Values (rawValues r)), updTask k (\<lambda>x. x\<lparr>ta_state := TResolved\<rparr>) (deliveredSide (fi_side X) ?out (?g\<lparr>mems := m2\<rparr>)))"
    using r(2) [of ?g] b by (simp add: callCore_def bindM_run_Inr [where m = currentTask, OF cur])
  then have "withActivation t (callCore (calleeEntry X) xs) h = (Inr (Values (rawValues r)), ?h5)"
    using pop by (simp add: withActivation_def run_simps finallyM_def topOf_def liftR_def butlast_append updTask_def)
  then have a: "awaitCore t (calleeEntry X) xs h = (Inr (Now (rawValues r)), ?h5)"
    by (simp add: awaitCore_def bindM_def run_simps)
  have "factReturned X k t (rawValues r) ?h5 = finishLift (factLift X k) t ?h5"
  proof (cases "fi_callback X")
    case None
    then show ?thesis using assms(2) r(1) by (simp add: factReturned_def normalizeCoreValues_def run_simps)
  next
    case (Some cb)
    then show ?thesis using assms(2) r(1) by (simp add: factReturned_def exit_code run_simps callbackFuel_def numeral_2_eq_2)
  qed
  then show thesis using that [OF a, of m2] by simp
qed

section \<open>The body of the callee's thread\<close>

text \<open>An instance that admits the callee at once.\<close>

definition openInst :: "nat \<Rightarrow> bool \<Rightarrow> 'g sched_scheme \<Rightarrow> bool" where
  "openInst i async h \<longleftrightarrow> (async \<longrightarrow> backpressure h i \<le> 0 \<and> exclusiveThread h i = None \<and> numWaitingToEnter h i \<le> 0)"

definition holdsExclusive :: "Task \<Rightarrow> bool" where
  "holdsExclusive x \<longleftrightarrow> ftAsync (ta_ft x) \<and> needsExclusiveOf x"

definition enteredState :: "nat \<Rightarrow> nat \<Rightarrow> nat \<Rightarrow> nat \<Rightarrow> nat HTable \<Rightarrow> 'g sched_scheme \<Rightarrow> 'g sched_scheme" where
  "enteredState k t i n tb h =
     (updThread t (\<lambda>x. x\<lparr>th_index := Some n\<rparr>) (updTask k (\<lambda>x. x\<lparr>ta_implicit := Some t, ta_threads := [t]\<rparr>) h))
       \<lparr>instThreads := (instThreads h)(i := tb),
        exclusiveThread := (if holdsExclusive (tasks h k) then (exclusiveThread h)(i := Some t) else exclusiveThread h)\<rparr>"

lemma enter_open:
  assumes "ta_state (tasks h k) = TInitial" "ta_threads (tasks h k) = []" "ta_inst (tasks h k) = i" "openInst i (ftAsync (ta_ft (tasks h k))) h"
    "th_task (threads h t) = k" "th_index (threads h t) = None" "tableAdd t (instThreads h i) = (Inr n, tb)"
  shows "enterImplicitThread G k t h = (Inr (Now True), enteredState k t i n tb h)"
proof -
  let ?h1 = "updTask k (\<lambda>x. x\<lparr>ta_implicit := Some t\<rparr>) h"
  let ?h2 = "?h1\<lparr>exclusiveThread := (if holdsExclusive (tasks h k) then (exclusiveThread h)(i := Some t) else exclusiveThread h)\<rparr>"
  have r: "registerThread k t ?h2 = (Inr (), updThread t (\<lambda>x. x\<lparr>th_index := Some n\<rparr>)
     ((updTask k (\<lambda>x. x\<lparr>ta_threads := ta_threads x @ [t]\<rparr>) ?h2)\<lparr>instThreads := (instThreads ?h2)(ta_inst (tasks ?h2 k) := tb)\<rparr>))"
    by (rule registerThread_run) (use assms in \<open>simp_all add: updTask_def\<close>)
  have e: "(updThread t (\<lambda>x. x\<lparr>th_index := Some n\<rparr>)
     ((updTask k (\<lambda>x. x\<lparr>ta_threads := ta_threads x @ [t]\<rparr>) ?h2)\<lparr>instThreads := (instThreads ?h2)(ta_inst (tasks ?h2 k) := tb)\<rparr>)) = enteredState k t i n tb h"
    using assms(2,3) by (simp add: enteredState_def updTask_def updThread_def)
  have r: "registerThread k t ?h2 = (Inr (), enteredState k t i n tb h)" using r unfolding e .
  have t1: "tasks ?h1 k = (tasks h k)\<lparr>ta_implicit := Some t\<rparr>" by (simp add: updTask_def)
  have ne: "needsExclusiveOf ((tasks h k)\<lparr>ta_implicit := Some t\<rparr>) = needsExclusiveOf (tasks h k)" by (simp add: needsExclusiveOf_def)
  have exh: "exclusiveThread ?h1 = exclusiveThread h" by (simp add: updTask_def)
  have x: "takeExclusive k t ?h1 = (Inr (), ?h2)"
  proof (cases "holdsExclusive (tasks h k)")
    case True
    then have "ftAsync (ta_ft (tasks h k))" "needsExclusiveOf (tasks h k)" "exclusiveThread h i = None"
      using assms(4) by (auto simp: holdsExclusive_def openInst_def)
    then show ?thesis using assms(3) True by (simp add: takeExclusive_def run_simps setExclusive_def t1 ne exh)
  next
    case False
    then have "(ftAsync (ta_ft (tasks h k)) \<and> needsExclusiveOf (tasks h k)) = False" by (simp add: holdsExclusive_def)
    then have "takeExclusive k t ?h1 = (Inr (), ?h1)" unfolding takeExclusive_def bindM_basic t1 by (auto simp: ne run_simps)
    then show ?thesis using False by (simp add: updTask_def)
  qed
  have a: "admit k t ?h1 = (Inr True, enteredState k t i n tb h)"
    by (simp add: admit_def bindM_run_Inr [where m = "takeExclusive k t", OF x] bindM_run_Inr [where m = "registerThread k t", OF r] run_simps)
  have f: "tasks ?h1 = (tasks h)(k := (tasks h k)\<lparr>ta_implicit := Some t\<rparr>)" "backpressure ?h1 = backpressure h"
    "numWaitingToEnter ?h1 = numWaitingToEnter h" "exclusiveThread ?h1 = exclusiveThread h" by (simp_all add: updTask_def)
  have "ftAsync (ta_ft (tasks h k)) \<and> (hasBackpressure k ?h1 \<or> numWaitingToEnter ?h1 i > 0) \<longleftrightarrow> False"
    unfolding hasBackpressure_def f Let_def using assms(3,4) by (auto simp: openInst_def)
  then show ?thesis using assms(1,3) a
    by (auto simp: enterImplicitThread_def run_simps bindM_run_Inr [where m = "admit k t", OF a])
qed

lemma exit_open:
  assumes "ta_implicit (tasks h k) = Some t" "ta_threads (tasks h k) = [t]" "th_task (threads h t) = k" "ta_state (tasks h k) = TResolved"
    "taskBorrows h k = 0" "th_index (threads h t) = Some n" "ta_inst (tasks h k) = i" "tableRemove n (instThreads h i) = (Inr e, tb)"
    "holdsExclusive (tasks h k) \<longrightarrow> exclusiveThread h i = Some t"
  shows "exitImplicitThread k t h = (Inr (), (updThread t (\<lambda>x. x\<lparr>th_index := None\<rparr>) (updTask k (\<lambda>x. x\<lparr>ta_threads := []\<rparr>) h))
     \<lparr>instThreads := (instThreads h)(i := tb),
      exclusiveThread := (if holdsExclusive (tasks h k) then (exclusiveThread h)(i := None) else exclusiveThread h)\<rparr>)"
proof -
  have u: "unregisterThread k t h = (Inr (), updThread t (\<lambda>x. x\<lparr>th_index := None\<rparr>)
     ((updTask k (\<lambda>x. x\<lparr>ta_threads := []\<rparr>) h)\<lparr>instThreads := (instThreads h)(i := tb)\<rparr>))"
    using assms by (simp add: unregisterThread_def run_simps onThreads_def bindM_def) (simp add: updTask_def updThread_def)
  show ?thesis
    using assms(1,7,9) by (auto simp: exitImplicitThread_def run_simps bindM_run_Inr [where m = "unregisterThread k t", OF u] holdsExclusive_def
        setExclusive_def updThread_def updTask_def)
qed

text \<open>What the body leaves: memory, the task, the thread, the thread table of the instance, and the delivery to the caller.\<close>

definition factCalm :: "FactSide \<Rightarrow> JsVal list \<Rightarrow> nat list \<Rightarrow> nat \<Rightarrow> nat \<Rightarrow> nat \<Rightarrow> nat HTable \<Rightarrow> 'g facts_scheme \<Rightarrow> 'g facts_scheme \<Rightarrow> bool" where
  "factCalm sd rs L k t i tb h h' \<longleftrightarrow>
     (\<exists>m T K. h' = deliveredSide sd rs (startedSide sd L (h\<lparr>mems := m, threads := (threads h)(t := T), tasks := (tasks h)(k := K),
        instThreads := (instThreads h)(i := tb)\<rparr>)) \<and> th_task T = k \<and> ta_state K = TResolved)"

lemma side_started: "sideIs sd STARTING h \<Longrightarrow> sideIs sd STARTED (startedSide sd L h)"
  by (cases sd) (auto simp: sideIs_def startedSide_def lentIn_def updSubtask_def)

lemma fact_body:
  fixes h :: "'g facts_scheme"
  assumes X: "lendingAdapterIs h (fi_start X) (startParams (fi_prepared X)) xs L" "calleeIs X f" "adapterIs (fi_return X) \<psi>" "postReturnIs X"
    "i = pc_calleeInst (fi_prepared X)"
    and sd: "sideIs (fi_side X) STARTING h" "mayLeave h i"
    and th: "th_pc (threads h t) = PcStart" "th_task (threads h t) = k" "th_index (threads h t) = None"
    and ta: "ta_state (tasks h k) = TInitial" "ta_threads (tasks h k) = []" "ta_inst (tasks h k) = i" "openInst i (ftAsync (ta_ft (tasks h k))) h"
    and tb: "tableAdd t (instThreads h i) = (Inr n, tb)" "tableRemove n tb = (Inr e, tb2)" "taskBorrows h k = 0"
  shows "\<exists>h'. factStep X k t v h = (Inr Finished, h') \<and>
    factCalm (fi_side X) (\<psi> (withRetptr (fi_prepared X) (f xs))) L k t i tb2 h h'"
proof -
  define rs where "rs = \<psi> (withRetptr (fi_prepared X) (f xs))"
  define h1 where "h1 = updThread t (\<lambda>x. x\<lparr>th_pc := PcEnd\<rparr>) h"
  define h2 where "h2 = enteredState k t i n tb h1"
  have h1: "tasks h1 = tasks h" "instThreads h1 = instThreads h" "exclusiveThread h1 = exclusiveThread h" "taskBorrows h1 = taskBorrows h"
    "th_task (threads h1 t) = k" "th_index (threads h1 t) = None" "openInst i b h1 = openInst i b h" for b
    using th by (simp_all add: h1_def updThread_def openInst_def)
  have enter: "enterImplicitThread (factCaller X) k t h1 = (Inr (Now True), h2)"
    unfolding h2_def by (rule enter_open) (use ta tb h1 in simp_all)
  have h2: "tasks h2 k = (tasks h k)\<lparr>ta_implicit := Some t, ta_threads := [t]\<rparr>" "sideIs (fi_side X) STARTING (updTask k g h2)"
    "mayLeave h2 = mayLeave h" "taskBorrows h2 = taskBorrows h" "instThreads h2 i = tb" "threads h2 t = (threads h t)\<lparr>th_pc := PcEnd, th_index := Some n\<rparr>"
    "exclusiveThread h2 = (if holdsExclusive (tasks h k) then (exclusiveThread h)(i := Some t) else exclusiveThread h)" for g
    using sd(1) by (auto simp: h2_def h1_def enteredState_def updThread_def updTask_def sideIs_def split: FactSide.splits)
  obtain m1 where st: "onStart (factCaller X) k (updTask k (\<lambda>x. x\<lparr>ta_state := TStarted\<rparr>) h2) =
      (Inr xs, startedSide (fi_side X) L ((updTask k (\<lambda>x. x\<lparr>ta_state := TStarted\<rparr>) h2)\<lparr>mems := m1\<rparr>))"
  proof (rule onStart_run [OF _ h2(2)])
    have "sameHandles h (updTask k (\<lambda>x. x\<lparr>ta_state := TStarted\<rparr>) h2)"
      by (simp add: sameHandles_def h2_def h1_def enteredState_def updThread_def updTask_def)
    then show "lendingAdapterIs (updTask k (\<lambda>x. x\<lparr>ta_state := TStarted\<rparr>) h2) (fi_start X) (startParams (fi_prepared X)) xs L"
      using X(1) by (simp add: lending_cong)
  qed
  define h3 where "h3 = startedSide (fi_side X) L ((updTask k (\<lambda>x. x\<lparr>ta_state := TStarted\<rparr>) h2)\<lparr>mems := m1\<rparr>)"
  have start: "taskStart (factCaller X) k h2 = (Inr xs, h3)"
    using ta(1) h2(1) st by (simp add: taskStart_def run_simps setTaskState_def h3_def)
  have h3: "sideIs (fi_side X) STARTED h3" "ta_state (tasks h3 k) \<noteq> TResolved" "taskBorrows h3 k = 0" "th_task (threads h3 t) = k"
    "mayLeave h3 i"
    using h2 sd(2) tb(3) th(2) side_started [OF h2(2) [of "\<lambda>x. x\<lparr>ta_state := TStarted\<rparr>"], of L]
    by (cases "fi_side X"; auto simp: h3_def updTask_def sideIs_def startedSide_def lentIn_def updSubtask_def)+
  have "\<exists>raw h4 m. awaitCore t (calleeEntry X) xs h3 = (Inr (Now raw), h4) \<and>
    factReturned X k t raw h4 = finishLift (factLift X k) t (updTask k (\<lambda>x. x\<lparr>ta_state := TResolved\<rparr>) (deliveredSide (fi_side X) rs (h3\<lparr>mems := m\<rparr>)))"
  proof (cases "fi_asyncAbi X")
    case True
    show ?thesis unfolding rs_def by (rule callee_run_async [OF X(2) True X(3) h3(4,1-3), of xs]) blast
  next
    case False
    show ?thesis unfolding rs_def by (rule callee_run_sync [OF X(2) False X(3,4) _ h3(1-3), of t xs]) (use h3(5) X(5) in blast)+
  qed
  then obtain raw h4 m where aw: "awaitCore t (calleeEntry X) xs h3 = (Inr (Now raw), h4)" and
    fr: "factReturned X k t raw h4 = finishLift (factLift X k) t (updTask k (\<lambda>x. x\<lparr>ta_state := TResolved\<rparr>) (deliveredSide (fi_side X) rs (h3\<lparr>mems := m\<rparr>)))"
    by blast
  define h5 where "h5 = updTask k (\<lambda>x. x\<lparr>ta_state := TResolved\<rparr>) (deliveredSide (fi_side X) rs (h3\<lparr>mems := m\<rparr>))"
  have h5: "tasks h5 k = (tasks h k)\<lparr>ta_implicit := Some t, ta_threads := [t], ta_state := TResolved\<rparr>"
    "threads h5 t = (threads h t)\<lparr>th_pc := PcEnd, th_index := Some n\<rparr>" "taskBorrows h5 k = 0" "instThreads h5 i = tb"
    "exclusiveThread h5 = (if holdsExclusive (tasks h k) then (exclusiveThread h)(i := Some t) else exclusiveThread h)"
    using h2 tb(3) by (simp_all add: h5_def h3_def updTask_def)
  have he: "holdsExclusive (tasks h5 k) = holdsExclusive (tasks h k)" by (simp add: h5(1) holdsExclusive_def needsExclusiveOf_def)
  define h6 where "h6 = (updThread t (\<lambda>x. x\<lparr>th_index := None\<rparr>) (updTask k (\<lambda>x. x\<lparr>ta_threads := []\<rparr>) h5))
     \<lparr>instThreads := (instThreads h5)(i := tb2),
      exclusiveThread := (if holdsExclusive (tasks h5 k) then (exclusiveThread h5)(i := None) else exclusiveThread h5)\<rparr>"
  have ex: "exitImplicitThread k t h5 = (Inr (), h6)"
    unfolding h6_def by (rule exit_open) (use h5 tb ta th he in simp_all)
  have "finishLift (factLift X k) t h5 = (Inr Finished, h6)"
    using ex by (simp add: finishLift_def factLift_def bindM_run_Inr [where m = "exitImplicitThread k t"] run_simps)
  then have "factEntered X k t True h2 = (Inr Finished, h6)"
    using fr by (simp add: factEntered_def calleeEntry_def [symmetric] bindM_run_Inr [where m = "taskStart (factCaller X) k", OF start]
        bindM_run_Inr [where m = "awaitCore t (calleeEntry X) xs", OF aw] h5_def)
  then have run: "factStep X k t v h = (Inr Finished, h6)"
    using th(1) by (simp add: factStep_def run_simps setPc_def h1_def [symmetric] bindM_run_Inr [where m = "enterImplicitThread (factCaller X) k t", OF enter])
  have ex0: "exclusiveThread h6 = exclusiveThread h"
  proof -
    have "holdsExclusive (tasks h k) \<Longrightarrow> exclusiveThread h i = None" using ta(4) by (simp add: holdsExclusive_def openInst_def)
    then show ?thesis using h5(5) by (auto simp: h6_def he fun_eq_iff)
  qed
  have "factCalm (fi_side X) rs L k t i tb2 h h6"
    unfolding factCalm_def
    by (intro exI [of _ m] exI [of _ "threads h6 t"] exI [of _ "tasks h6 k"], cases "fi_side X")
      (use ex0 h5(1,2) th in \<open>simp_all add: h6_def h5_def h3_def h2_def h1_def enteredState_def deliveredSide_def startedSide_def lentIn_def
         updThread_def updTask_def updSubtask_def\<close>)
  then show ?thesis using run unfolding rs_def by blast
qed

section \<open>The activation\<close>

text \<open>Two states that agree but for the delivery to the caller, memory and what is private to the callee's task.\<close>

definition factDone :: "FactSide \<Rightarrow> JsVal list \<Rightarrow> nat list \<Rightarrow> nat \<Rightarrow> 'g facts_scheme \<Rightarrow> 'g facts_scheme \<Rightarrow> bool" where
  "factDone sd rs L i h h' \<longleftrightarrow>
     mayEnter h' = mayEnter h \<and> mayLeave h' = mayLeave h \<and> stores h' = stores h \<and> exclusiveThread h' = exclusiveThread h \<and>
     backpressure h' = backpressure h \<and> numWaitingToEnter h' = numWaitingToEnter h \<and>
     threadStack h' = threadStack h \<and> entryStack h' = entryStack h \<and> handles h' = handles h \<and>
     resources h' = resources (startedSide sd L h) \<and> scopeLenders h' = scopeLenders (startedSide sd L h) \<and>
     lowerHandle h' = lowerHandle h \<and> prepared h' = prepared h \<and> instStore h' = instStore h \<and>
     callerResults h' = callerResults (deliveredSide sd rs h) \<and> subtasks h' = subtasks (deliveredSide sd rs (startedSide sd L h)) \<and>
     (\<forall>j x. tableGet j (instThreads h' i) = Inr x \<longleftrightarrow> tableGet j (instThreads h i) = Inr x)"

lemma side_more [simp]:
  "mayEnter (deliveredSide sd rs h) = mayEnter h" "stores (deliveredSide sd rs h) = stores h" "handles (deliveredSide sd rs h) = handles h"
  "resources (deliveredSide sd rs h) = resources h" "scopeLenders (deliveredSide sd rs h) = scopeLenders h"
  "lowerHandle (deliveredSide sd rs h) = lowerHandle h" "prepared (deliveredSide sd rs h) = prepared h"
  "instStore (deliveredSide sd rs h) = instStore h" "instParent (deliveredSide sd rs h) = instParent h"
  "backpressure (deliveredSide sd rs h) = backpressure h" "numWaitingToEnter (deliveredSide sd rs h) = numWaitingToEnter h"
  "mayEnter (startedSide sd L h) = mayEnter h" "stores (startedSide sd L h) = stores h" "handles (startedSide sd L h) = handles h"
  "lowerHandle (startedSide sd L h) = lowerHandle h" "prepared (startedSide sd L h) = prepared h"
  "instStore (startedSide sd L h) = instStore h" "instParent (startedSide sd L h) = instParent h"
  "backpressure (startedSide sd L h) = backpressure h" "numWaitingToEnter (startedSide sd L h) = numWaitingToEnter h"
  "callerResults (startedSide sd L h) = callerResults h"
  by (cases sd; simp add: deliveredSide_def startedSide_def lentIn_def updSubtask_def)+

lemma delivered_cong:
  "subtasks h = subtasks h' \<Longrightarrow> subtasks (deliveredSide sd rs h) = subtasks (deliveredSide sd rs h')"
  "callerResults h = callerResults h' \<Longrightarrow> callerResults (deliveredSide sd rs h) = callerResults (deliveredSide sd rs h')"
  by (cases sd; simp add: deliveredSide_def updSubtask_def)+

lemma started_cong:
  "subtasks h = subtasks h' \<Longrightarrow> subtasks (startedSide sd L h) = subtasks (startedSide sd L h')"
  "resources h = resources h' \<Longrightarrow> resources (startedSide sd L h) = resources (startedSide sd L h')"
  "scopeLenders h = scopeLenders h' \<Longrightarrow> scopeLenders (startedSide sd L h) = scopeLenders (startedSide sd L h')"
  by (cases sd; simp add: startedSide_def lentIn_def updSubtask_def)+

text \<open>The task \<open>mkCalleeTask\<close> makes.\<close>

definition calleeTaskOf :: "('g sched_scheme) FactInput \<Rightarrow> nat \<Rightarrow> 'g sched_scheme \<Rightarrow> bool" where
  "calleeTaskOf X k h \<longleftrightarrow>
     (let x = tasks h k in ta_state x = TInitial \<and> ta_threads x = [] \<and> ta_inst x = pc_calleeInst (fi_prepared X) \<and>
        ftAsync (ta_ft x) = pc_calleeAsync (fi_prepared X)) \<and> taskBorrows h k = 0"

text \<open>The caller may enter the callee, which admits the call and has room for a thread.\<close>

definition readyCallee :: "PreparedCall \<Rightarrow> 'g sched_scheme \<Rightarrow> bool" where
  "readyCallee p h \<longleftrightarrow>
     (let i = pc_calleeInst p in
      mayEnterFrom i (Some (pc_callerInst p)) h \<and> mayLeave h i \<and> openInst i (pc_calleeAsync p) h \<and>
      table_inv (instThreads h i) \<and> (free (instThreads h i) \<noteq> [] \<or> length (arr (instThreads h i)) \<le> MAX_LENGTH))"

lemma activate_run:
  fixes h :: "'g facts_scheme"
  assumes X: "lendingAdapterIs h (fi_start X) (startParams (fi_prepared X)) xs L" "calleeIs X f" "adapterIs (fi_return X) \<psi>" "postReturnIs X"
    and p: "p = fi_prepared X" "i = pc_calleeInst p" "readyCallee p h" "calleeTaskOf X k h" "sideIs (fi_side X) STARTING h"
  shows "\<exists>t h'. activateCallee C X k unwind h = (Inr t, h') \<and>
    factDone (fi_side X) (\<psi> (withRetptr p (f xs))) L i h h'"
proof -
  let ?c = "Some (pc_callerInst p)"
  let ?es = "enteringSet h i ?c"
  define rs where "rs = \<psi> (withRetptr p (f xs))"
  define t where "t = nextId h"
  have rdy: "mayEnterFrom i ?c h" "mayLeave h i" "openInst i (pc_calleeAsync p) h" "table_inv (instThreads h i)"
    "free (instThreads h i) \<noteq> [] \<or> length (arr (instThreads h i)) \<le> MAX_LENGTH"
    using p(2,3) by (auto simp: readyCallee_def Let_def)
  have es: "list_all (mayEnter h) ?es" using rdy(1) by (simp add: mayEnterFrom_def)
  define h0 where "h0 = gates ?es False h"
  have enter: "enterFrom i ?c h = (Inr (), h0)" using rdy(1) by (simp add: enterFrom_run h0_def)
  define h1 where "h1 = (updThread t (\<lambda>_. newThread k PcStart) (h0\<lparr>nextId := Suc (nextId h0)\<rparr>))\<lparr>callScopes := (callScopes h0)(t := [])\<rparr>"
  have nid: "nextId h0 = t" by (simp add: h0_def gates_eq t_def)
  have sp: "spawn k h0 = (Inr t, h1)"
    by (simp add: spawn_def freshId_def run_simps bindM_def nid h1_def updThread_def)
  define g where "g = (updThread t (\<lambda>x. x\<lparr>th_state := ThRunning\<rparr>) h1)\<lparr>threadStack := threadStack h1 @ [t]\<rparr>"
  have g0: "tasks g = tasks h" "instThreads g = instThreads h" "taskBorrows g = taskBorrows h" "mayLeave g = mayLeave h"
    "threads g t = (newThread k PcStart)\<lparr>th_state := ThRunning\<rparr>" "openInst i b g = openInst i b h" "sideIs sd st g = sideIs sd st h"
    "threadStack g = threadStack h @ [t]" "stores g = stores h" "exclusiveThread g = exclusiveThread h" "entryStack g = entryStack h"
    "handles g = handles h" "resources g = resources h" "scopeLenders g = scopeLenders h" "lowerHandle g = lowerHandle h"
    "prepared g = prepared h" "instStore g = instStore h" "instParent g = instParent h" "subtasks g = subtasks h" "callerResults g = callerResults h"
    "backpressure g = backpressure h" "numWaitingToEnter g = numWaitingToEnter h"
    "mayEnter g = (\<lambda>x. if x \<in> set ?es then False else mayEnter h x)" for b sd st
    by (simp_all add: g_def h1_def h0_def gates_eq updThread_def openInst_def sideIs_def split: FactSide.splits)
  obtain n tb where add: "tableAdd t (instThreads h i) = (Inr n, tb)"
    using tableAdd_ok [of "instThreads h i" t] rdy by blast
  have tb: "tableGet n tb = Inr t" using tableAdd_inv [OF _ add] rdy by blast
  obtain tb2 where rm: "tableRemove n tb = (Inr t, tb2)" using tb by (simp add: tableRemove_def)
  have restored: "tableGet j tb2 = Inr x \<longleftrightarrow> tableGet j (instThreads h i) = Inr x" for j x
    using tableAdd_inv [OF _ add] tableRemove_inv [OF tableAdd_inv(1) [OF _ add] rm] rdy by (cases "j = n") auto
  have "sameHandles h g" by (simp add: sameHandles_def g_def h1_def h0_def gates_eq updThread_def)
  then have lend: "lendingAdapterIs g (fi_start X) (startParams (fi_prepared X)) xs L" using X(1) by (simp add: lending_cong)
  have "\<exists>g'. factStep X k t (SendFlag False) g = (Inr Finished, g') \<and>
      factCalm (fi_side X) (\<psi> (withRetptr (fi_prepared X) (f xs))) L k t i tb2 g g'"
    by (rule fact_body [OF lend X(2-4)]) (use p(4,5) rdy add rm in \<open>simp_all add: g0 newThread_def calleeTaskOf_def Let_def p(1) [symmetric] p(2) [symmetric]\<close>)
  then obtain g' where g': "factStep X k t (SendFlag False) g = (Inr Finished, g')" "factCalm (fi_side X) rs L k t i tb2 g g'"
    unfolding rs_def p(1) by blast
  obtain m T K where c: "g' = deliveredSide (fi_side X) rs (startedSide (fi_side X) L (g\<lparr>mems := m, threads := (threads g)(t := T), tasks := (tasks g)(k := K),
        instThreads := (instThreads g)(i := tb2)\<rparr>))" using g'(2) unfolding factCalm_def by blast
  define h2 where "h2 = updThread t (\<lambda>x. x\<lparr>th_state := ThDone\<rparr>) (g'\<lparr>threadStack := threadStack h1\<rparr>)"
  have th1: "threadStack h1 = threadStack h" by (simp add: h1_def h0_def gates_eq updThread_def)
  have run: "threadResume (factCode C X k t) t False h1 = (Inr (), h2)"
    unfolding h2_def
    by (rule resume_finished) (use g'(1) in \<open>simp_all add: factCode_def g_def [unfolded th1, symmetric] c g0 th1\<close>, simp add: h1_def newThread_def updThread_def)
  have f2: "mayEnter h2 = mayEnter g" "mayLeave h2 = mayLeave h" "stores h2 = stores h" "exclusiveThread h2 = exclusiveThread h"
    "threadStack h2 = threadStack h" "entryStack h2 = entryStack h" "handles h2 = handles h" "backpressure h2 = backpressure h"
    "numWaitingToEnter h2 = numWaitingToEnter h" "lowerHandle h2 = lowerHandle h" "prepared h2 = prepared h" "instStore h2 = instStore h"
    "instThreads h2 i = tb2" "instParent h2 = instParent h"
    by (simp_all add: h2_def updThread_def c g0 th1)
  have f3: "callerResults h2 = callerResults (deliveredSide (fi_side X) rs h)" "subtasks h2 = subtasks (deliveredSide (fi_side X) rs (startedSide (fi_side X) L h))"
    "resources h2 = resources (startedSide (fi_side X) L h)" "scopeLenders h2 = scopeLenders (startedSide (fi_side X) L h)"
    by (simp_all add: h2_def updThread_def c) (rule delivered_cong started_cong; simp add: g0)+
  have e2: "enteringSet h2 i ?c = ?es" by (simp add: enteringSet_def selfAndAncestors_def f2(14))
  have leave: "leaveTo i ?c h2 = (Inr (), gates ?es True h2)"
    using leaveTo_run [of h2 i ?c] by (simp add: e2 f2(1) g0 list_all_iff)
  have seg: "catchM (bindM (spawn k) (\<lambda>t. bindM (threadResume (factCode C X k t) t False) (\<lambda>_. returnM t))) un h0 = (Inr t, h2)" for un
    by (simp add: catchM_def bindM_run_Inr [where m = "spawn k", OF sp] run_simps
        bindM_run_Inr [where m = "threadResume (factCode C X k t) t False", OF run])
  have "activateCallee C X k unwind h = (Inr t, gates ?es True h2)"
    unfolding activateCallee_def Let_def p(1) [symmetric] p(2) [symmetric]
    by (simp add: run_simps rdy(1) bindM_run_Inr [where m = "enterFrom i ?c", OF enter]
        bindM_run_Inr [where m = "catchM (bindM (spawn k) (\<lambda>t. bindM (threadResume (factCode C X k t) t False) (\<lambda>_. returnM t))) _", OF seg]
        bindM_run_Inr [where m = "leaveTo i ?c", OF leave])
  moreover have "factDone (fi_side X) rs L i h (gates ?es True h2)"
    unfolding factDone_def using f2 f3 restored es by (auto simp: gates_eq g0 fun_eq_iff list_all_iff)
  ultimately show ?thesis unfolding rs_def by blast
qed

section \<open>The two forms\<close>

text \<open>What a completed call leaves unchanged: gates, stores, backpressure and the counts of waiting tasks, ambient stacks, handles
  with their counts of lends, and the threads of the callee.\<close>

definition undisturbed :: "nat \<Rightarrow> 'g sched_scheme \<Rightarrow> 'g sched_scheme \<Rightarrow> bool" where
  "undisturbed i h h' \<longleftrightarrow>
     mayEnter h' = mayEnter h \<and> mayLeave h' = mayLeave h \<and> stores h' = stores h \<and> exclusiveThread h' = exclusiveThread h \<and>
     backpressure h' = backpressure h \<and> numWaitingToEnter h' = numWaitingToEnter h \<and>
     threadStack h' = threadStack h \<and> entryStack h' = entryStack h \<and> handles h' = handles h \<and> resources h' = resources h \<and>
     (\<forall>j x. tableGet j (instThreads h' i) = Inr x \<longleftrightarrow> tableGet j (instThreads h i) = Inr x)"

lemma mkCalleeTask_run:
  fixes h :: "'g facts_scheme"
  obtains h' where "mkCalleeTask X h = (Inr (nextId h), h')" "calleeTaskOf X (nextId h) h'" "nextId h' = Suc (nextId h)"
    "readyCallee p h' = readyCallee p h" "undisturbed i h h'" "subtasks h' = subtasks h" "callerResults h' = callerResults h"
    "scopeLenders h' = scopeLenders h" "lowerHandle h' = lowerHandle h" "prepared h' = prepared h" "instThreads h' = instThreads h" "sameHandles h h'"
  by (rule that [of "snd (mkCalleeTask X h)"])
    (simp_all add: mkCalleeTask_def freshId_def run_simps bindM_def updTask_def calleeTaskOf_def newTask_def factFt_def readyCallee_def
      mayEnterFrom_def enteringSet_def selfAndAncestors_def openInst_def undisturbed_def sameHandles_def Let_def)

lemma fused_sync:
  fixes h :: "'g facts_scheme" and F :: "('g facts_scheme) FactContext"
  assumes "prepared h = Some p" "factCallback F cbi = Inr cb"
    "lendingAdapterIs h (fc_adapter F (pc_start p)) (startParams p) xs L" "adapterIs (fc_adapter F (pc_return p)) \<psi>"
    "calleeIs (factInput F p c cb None True (SyncSide (nextId h))) f" "readyCallee p h"
  shows "\<exists>h'. createSyncStartCall F C cbi (FactFunc c) h =
      (Inr (BReturn (shapeResults (Some (\<psi> (withRetptr p (f xs)))))), h') \<and>
    prepared h' = None \<and> undisturbed (pc_calleeInst p) h h' \<and> scopeLenders h' (nextId h) = []"
proof -
  define s where "s = nextId h"
  define X where "X = factInput F p c cb None True (SyncSide s)"
  define rs where "rs = \<psi> (withRetptr p (f xs))"
  define h1 where "h1 = h\<lparr>prepared := None, nextId := Suc s, callerResults := (callerResults h)(s := None), scopeLenders := (scopeLenders h)(s := [])\<rparr>"
  have X: "fi_prepared X = p" "fi_side X = SyncSide s" "fi_start X = fc_adapter F (pc_start p)" "fi_return X = fc_adapter F (pc_return p)" "postReturnIs X"
    by (simp_all add: X_def factInput_def postReturnIs_def)
  have opn: "openScope (h\<lparr>prepared := None\<rparr>) = (Inr s, h1)"
    by (simp add: openScope_def freshId_def run_simps bindM_def s_def h1_def)
  have r1: "readyCallee p h1 = readyCallee p h" "prepared h1 = None" "nextId h1 = Suc s" "scopeLenders h1 s = []" "callerResults h1 s = None"
    by (simp_all add: h1_def readyCallee_def mayEnterFrom_def enteringSet_def selfAndAncestors_def openInst_def Let_def)
  obtain h2 where mk: "mkCalleeTask X h1 = (Inr (Suc s), h2)" "calleeTaskOf X (Suc s) h2" "readyCallee p h2 = readyCallee p h1"
    "undisturbed (pc_calleeInst p) h1 h2" "callerResults h2 = callerResults h1" "scopeLenders h2 = scopeLenders h1" "prepared h2 = prepared h1"
    "sameHandles h1 h2"
    by (rule mkCalleeTask_run [of X h1 p "pc_calleeInst p", unfolded r1(3)])
  have "sameHandles h h2" using mk(8) by (simp add: sameHandles_def h1_def)
  then have lend: "lendingAdapterIs h2 (fc_adapter F (pc_start p)) (startParams p) xs L" using assms(3) by (simp add: lending_cong)
  have "\<exists>t h3. activateCallee C X (Suc s) (modifyM (releaseLenders s)) h2 = (Inr t, h3) \<and>
      factDone (fi_side X) (\<psi> (withRetptr p (f xs))) L (pc_calleeInst p) h2 h3"
    by (rule activate_run) (use assms lend mk X r1 in \<open>simp_all add: X_def s_def [symmetric] sideIs_def factInput_def\<close>)
  then obtain t h3 where act: "activateCallee C X (Suc s) (modifyM (releaseLenders s)) h2 = (Inr t, h3)" "factDone (SyncSide s) rs L (pc_calleeInst p) h2 h3"
    unfolding X(2) rs_def by blast
  have h3: "callerResults h3 s = Some rs" "scopeLenders h3 s = L" "prepared h3 = None" "resources h3 = countLends 1 L (resources h2)"
    using act(2) mk r1 by (simp_all add: factDone_def deliveredSide_def startedSide_def lentIn_def)
  define h4 where "h4 = releaseLenders s h3"
  have h4: "h4 = h3\<lparr>resources := resources h2, scopeLenders := (scopeLenders h3)(s := [])\<rparr>"
    using h3(2,4) by (simp add: h4_def releaseLenders_def fold_countLends)
  have ans: "syncAnswer s h3 = (Inr (shapeResults (Some rs)), h4)"
    using h3(1) by (simp add: syncAnswer_def run_simps h4_def [symmetric]) (simp add: h4)
  have "createSyncStartCall F C cbi (FactFunc c) h = (Inr (BReturn (shapeResults (Some rs))), h4)"
    using assms(1,2) h3(1)
    by (simp add: createSyncStartCall_def takePrepared_def run_simps bindM_run_Inr [where m = openScope, OF opn] X_def [symmetric] Let_def
        bindM_run_Inr [where m = "mkCalleeTask X", OF mk(1)] bindM_run_Inr [where m = "activateCallee C X (Suc s) (modifyM (releaseLenders s))", OF act(1)]
        bindM_run_Inr [where m = "syncAnswer s", OF ans])
  moreover have "undisturbed (pc_calleeInst p) h h4"
    using act(2) mk(4) unfolding undisturbed_def factDone_def h4 by (simp add: h1_def)
  moreover have "prepared h4 = None" "scopeLenders h4 s = []" using h3(3) by (simp_all add: h4)
  ultimately show ?thesis unfolding rs_def s_def by blast
qed

lemma fused_async:
  fixes h :: "'g facts_scheme" and F :: "('g facts_scheme) FactContext"
  assumes "prepared h = Some p" "factCallback F cbi = Inr cb" "factCallback F pri = Inr pr"
    "lendingAdapterIs h (fc_adapter F (pc_start p)) (startParams p) xs L" "adapterIs (fc_adapter F (pc_return p)) \<psi>"
    "calleeIs (factInput F p c cb pr (and flags START_FLAG_ASYNC_CALLEE \<noteq> 0) (AsyncSide (nextId h))) f"
    "postReturnIs (factInput F p c cb pr (and flags START_FLAG_ASYNC_CALLEE \<noteq> 0) (AsyncSide (nextId h)))" "readyCallee p h"
  shows "\<exists>h'. createAsyncStartCall F C cbi pri (FactFunc c) flags h = (Inr (BReturn (VNum (int (subtaskStateNum RETURNED)))), h') \<and>
    prepared h' = None \<and> undisturbed (pc_calleeInst p) h h' \<and>
    st_state (subtasks h' (nextId h)) = RETURNED \<and> lenders (subtasks h' (nextId h)) = None"
proof -
  define s where "s = nextId h"
  define X where "X = factInput F p c cb pr (and flags START_FLAG_ASYNC_CALLEE \<noteq> 0) (AsyncSide s)"
  define h0 where "h0 = h\<lparr>prepared := None, nextId := Suc s, subtasks := (subtasks h)(s := newSubtask), waitables := (waitables h)(s := newWaitable),
      onCancel := (onCancel h)(s := None), calleeTask := (calleeTask h)(s := None)\<rparr>"
  define h1 where "h1 = h0\<lparr>lowerHandle := (lowerHandle h0)(s := None), factProduced := (factProduced h0)(s := False)\<rparr>"
  have X: "fi_prepared X = p" "fi_side X = AsyncSide s" "fi_start X = fc_adapter F (pc_start p)" "fi_return X = fc_adapter F (pc_return p)" "postReturnIs X" "calleeIs X f"
    using assms(6,7) by (simp_all add: X_def s_def factInput_def)
  have opn: "makeSubtask (h\<lparr>prepared := None\<rparr>) = (Inr s, h0)"
    by (simp add: makeSubtask_def freshId_def run_simps bindM_def s_def h0_def)
  have r1: "readyCallee p h1 = readyCallee p h" "prepared h1 = None" "nextId h1 = Suc s" "subtasks h1 s = newSubtask" "lowerHandle h1 s = None"
    by (simp_all add: h1_def h0_def readyCallee_def mayEnterFrom_def enteringSet_def selfAndAncestors_def openInst_def Let_def)
  obtain h2 where mk: "mkCalleeTask X h1 = (Inr (Suc s), h2)" "calleeTaskOf X (Suc s) h2" "readyCallee p h2 = readyCallee p h1"
    "undisturbed (pc_calleeInst p) h1 h2" "subtasks h2 = subtasks h1" "lowerHandle h2 = lowerHandle h1" "prepared h2 = prepared h1"
    "sameHandles h1 h2"
    by (rule mkCalleeTask_run [of X h1 p "pc_calleeInst p", unfolded r1(3)])
  define h3 where "h3 = h2\<lparr>onCancel := (onCancel h2)(s := Some (CancelTask (Suc s))), calleeTask := (calleeTask h2)(s := Some (Suc s))\<rparr>"
  have r3: "readyCallee p h3 = readyCallee p h2" "prepared h3 = None" "subtasks h3 s = newSubtask" "lowerHandle h3 s = None" "calleeTaskOf X (Suc s) h3"
    using mk r1 by (simp_all add: h3_def readyCallee_def mayEnterFrom_def enteringSet_def selfAndAncestors_def openInst_def Let_def calleeTaskOf_def)
  have "sameHandles h h3" using mk(8) by (simp add: sameHandles_def h3_def h1_def h0_def)
  then have lend: "lendingAdapterIs h3 (fc_adapter F (pc_start p)) (startParams p) xs L" using assms(4) by (simp add: lending_cong)
  have "\<exists>t h4. activateCallee C X (Suc s) (unwindLenders s) h3 = (Inr t, h4) \<and>
      factDone (fi_side X) (\<psi> (withRetptr p (f xs))) L (pc_calleeInst p) h3 h4"
    by (rule activate_run) (use assms lend mk X r1 r3 in \<open>simp_all add: sideIs_def newSubtask_def\<close>)
  then obtain t h4 where act: "activateCallee C X (Suc s) (unwindLenders s) h3 = (Inr t, h4)"
    "factDone (AsyncSide s) (\<psi> (withRetptr p (f xs))) L (pc_calleeInst p) h3 h4"
    unfolding X(2) by blast
  have h4: "subtasks h4 s = newSubtask\<lparr>st_state := RETURNED, flatResults := [], lenders := Some L\<rparr>" "prepared h4 = None"
    "resources h4 = countLends 1 L (resources h)"
    using act(2) r3 \<open>sameHandles h h3\<close>
    by (simp_all add: factDone_def deliveredSide_def startedSide_def lentIn_def updSubtask_def newSubtask_def sameHandles_def)
  then have l4: "lenders (subtasks h4 s) = Some L" "resolved (subtasks h4 s)" "st_state (subtasks h4 s) = RETURNED"
    by (simp_all add: newSubtask_def resolved_def)
  define h5 where "h5 = updSubtask s (\<lambda>y. y\<lparr>lenders := None\<rparr>) (h4\<lparr>resources := resources h\<rparr>)"
  have rep: "report (pc_callerInst p) s h4 = (Inr (VNum (int (subtaskStateNum RETURNED))), h5)"
    using deliverResolve_run [OF l4(1,2)] l4(2) by (simp add: report_def run_simps bindM_run_Inr [where m = "deliverResolve s"] fold_countLends h4(3) h5_def)
  have det: "callDeterminate A st s k t i ct h4" for A st k i ct
    using l4 by (simp add: callDeterminate_def gatedAtEntry_def)
  have run: "createAsyncStartCall F C cbi pri (FactFunc c) flags h = (Inr (BReturn (VNum (int (subtaskStateNum RETURNED)))), h5)"
    using assms(1,2,3)
    by (simp add: createAsyncStartCall_def takePrepared_def run_simps bindM_run_Inr [where m = makeSubtask, OF opn] h1_def [symmetric]
        X_def [symmetric] Let_def bindM_run_Inr [where m = "mkCalleeTask X", OF mk(1)] h3_def [symmetric]
        bindM_run_Inr [where m = "activateCallee C X (Suc s) (unwindLenders s)", OF act(1)] det
        bindM_run_Inr [where m = "report (pc_callerInst p) s", OF rep] del: neq0_conv)
  have "undisturbed (pc_calleeInst p) h h5"
    using act(2) mk(4) unfolding undisturbed_def factDone_def h5_def updSubtask_def h3_def h1_def h0_def by simp
  then show ?thesis using run l4 h4(2)
    by (intro exI [of _ h5]) (simp add: s_def [symmetric] h5_def updSubtask_def)
qed

end
