(* ===== verification/Ledger.thy ===== *)
theory Ledger
  imports FactProps
begin

text \<open>
  The ledger of lent handles across every way a call lends them: to a subtask, to the bracket of a synchronous
  call, or to the scope of a fused call.  A handle's \<open>numLends\<close> is the number of times it stands in a list of lenders, and every
  identity in use was allocated.
\<close>

section \<open>The invariant\<close>

definition lentBy :: "'g hostsched_scheme \<Rightarrow> nat \<Rightarrow> nat \<Rightarrow> int" where
  "lentBy h r n = lentTo h r n + int (count_list (scopeLenders h n) r)"

definition scopeId :: "LenderScope \<Rightarrow> nat" where
  "scopeId l = (case l of OfSubtask s \<Rightarrow> s | OfScope s \<Rightarrow> s)"

definition allocated :: "'g hostsched_scheme \<Rightarrow> bool" where
  "allocated h \<longleftrightarrow>
     (\<forall>r n. lentBy h r n \<noteq> 0 \<longrightarrow> n < nextId h \<and> r < nextId h) \<and>
     (\<forall>i r. Some (EResource r) \<in> set (arr (handles h i)) \<longrightarrow> r < nextId h) \<and>
     (\<forall>t. \<forall>s \<in> set (callScopes h t). s < nextId h) \<and> (\<forall>s \<in> set (contextScopes h). s < nextId h) \<and>
     (\<forall>e \<in> set (factStartScopes h). scopeId (snd e) < nextId h)"

definition ledger :: "'g hostsched_scheme \<Rightarrow> bool" where
  "ledger h \<longleftrightarrow> allocated h \<and> (\<forall>r. numLends (resources h r) = (\<Sum>n < nextId h. lentBy h r n))"

lemma lentTo_nonneg: "0 \<le> lentTo h r n"
  by (simp add: lentTo_def split: option.splits)

lemma ledgerD:
  assumes "ledger h"
  shows "numLends (resources h r) = (\<Sum>n < nextId h. lentBy h r n)" "lentBy h r n \<noteq> 0 \<Longrightarrow> n < nextId h \<and> r < nextId h"
    "Some (EResource r) \<in> set (arr (handles h i)) \<Longrightarrow> r < nextId h" "s \<in> set (callScopes h t) \<Longrightarrow> s < nextId h"
    "s \<in> set (contextScopes h) \<Longrightarrow> s < nextId h" "e \<in> set (factStartScopes h) \<Longrightarrow> scopeId (snd e) < nextId h"
  using assms unfolding ledger_def allocated_def by blast+

lemma lent_known: "ledger h \<Longrightarrow> lentTo h r n \<noteq> 0 \<Longrightarrow> r < nextId h"
  using ledgerD(2) [of h r n] lentTo_nonneg [of h r n] by (auto simp: lentBy_def)

text \<open>A change that leaves every list of lenders and every count alone.\<close>

lemma ledger_same:
  assumes "ledger h" "\<And>r n. lentBy h' r n = lentBy h r n" "\<And>r. numLends (resources h' r) = numLends (resources h r)"
    "nextId h \<le> nextId h'" "\<And>i r. Some (EResource r) \<in> set (arr (handles h' i)) \<Longrightarrow> r < nextId h'"
    "\<And>t s. s \<in> set (callScopes h' t) \<Longrightarrow> s < nextId h'" "\<And>s. s \<in> set (contextScopes h') \<Longrightarrow> s < nextId h'"
    "\<And>e. e \<in> set (factStartScopes h') \<Longrightarrow> scopeId (snd e) < nextId h'"
  shows "ledger h'"
proof -
  have z: "lentBy h r n = 0" if "\<not> n < nextId h" for r n using ledgerD(2) [OF assms(1), of r n] that by blast
  have e: "(\<Sum>n < nextId h'. lentBy h r n) = (\<Sum>n < nextId h. lentBy h r n)" for r
    by (rule sum.mono_neutral_right) (use assms(4) z in auto)
  have "lentBy h' r n \<noteq> 0 \<longrightarrow> n < nextId h' \<and> r < nextId h'" for r n
    using ledgerD(2) [OF assms(1), of r n] assms(2) [of r n] assms(4) by auto
  moreover have "numLends (resources h' r) = (\<Sum>n < nextId h'. lentBy h' r n)" for r
    using e [of r] assms(2) assms(3) [of r] ledgerD(1) [OF assms(1), of r] by simp
  ultimately show ?thesis
    unfolding ledger_def allocated_def using assms(5-8) by blast
qed

text \<open>A change of the lenders of \<open>n\<close> alone, with the counts in step.\<close>

lemma ledger_change:
  assumes "ledger h" "n < nextId h" "nextId h' = nextId h" "\<And>r m. m \<noteq> n \<Longrightarrow> lentBy h' r m = lentBy h r m"
    "\<And>r. numLends (resources h' r) - numLends (resources h r) = lentBy h' r n - lentBy h r n"
    "\<And>r. lentBy h' r n \<noteq> 0 \<Longrightarrow> r < nextId h"
    "handles h' = handles h" "callScopes h' = callScopes h" "contextScopes h' = contextScopes h" "factStartScopes h' = factStartScopes h"
  shows "ledger h'"
proof -
  have e: "(\<Sum>m < nextId h. lentBy h' r m) = (\<Sum>m < nextId h. lentBy h r m) + (lentBy h' r n - lentBy h r n)" for r
  proof -
    have "(\<Sum>m < nextId h. lentBy h' r m) = lentBy h' r n + (\<Sum>m \<in> {..<nextId h} - {n}. lentBy h' r m)"
      using assms(2) by (intro sum.remove) simp_all
    also have "(\<Sum>m \<in> {..<nextId h} - {n}. lentBy h' r m) = (\<Sum>m \<in> {..<nextId h} - {n}. lentBy h r m)"
      using assms(4) by (intro sum.cong) auto
    finally show ?thesis using sum.remove [of "{..<nextId h}" n "lentBy h r"] assms(2) by simp
  qed
  have "numLends (resources h' r) = (\<Sum>m < nextId h. lentBy h' r m)" for r
    using e [of r] assms(5) [of r] ledgerD(1) [OF assms(1), of r] by linarith
  moreover have "lentBy h' r m \<noteq> 0 \<Longrightarrow> m < nextId h \<and> r < nextId h" for r m
    using assms(2,4,6) ledgerD(2) [OF assms(1)] by (cases "m = n") auto
  ultimately show ?thesis using assms(3,7-10) ledgerD(3-6) [OF assms(1)] unfolding ledger_def allocated_def by simp
qed

section \<open>Keeping it\<close>

definition kept :: "('g facts_scheme \<Rightarrow> bool) \<Rightarrow> ('g facts_scheme, 'a) sm \<Rightarrow> bool" where
  "kept P f \<longleftrightarrow> (\<forall>h. P h \<and> ledger h \<longrightarrow> ledger (snd (f h)))"

lemma keptD: "kept P f \<Longrightarrow> P h \<Longrightarrow> ledger h \<Longrightarrow> f h = (r, h') \<Longrightarrow> ledger h'"
  unfolding kept_def by (metis snd_conv)

lemma kept_bind:
  assumes "kept P m" "\<And>x. kept (Q x) (f x)" "\<And>h x h'. P h \<Longrightarrow> ledger h \<Longrightarrow> m h = (Inr x, h') \<Longrightarrow> Q x h'"
  shows "kept P (bindM m f)"
  unfolding kept_def
proof (intro allI impI)
  fix h assume h: "P h \<and> ledger h"
  obtain r h1 where m: "m h = (r, h1)" by (cases "m h")
  then have l: "ledger h1" using assms(1) h keptD by blast
  show "ledger (snd (bindM m f h))"
  proof (cases r)
    case (Inl e)
    then show ?thesis using m l by (simp add: bindM_def)
  next
    case (Inr x)
    then have "Q x h1" using assms(3) h m by blast
    then show ?thesis using m Inr l assms(2) by (simp add: bindM_def kept_def)
  qed
qed

lemma kept_seq: "kept P m \<Longrightarrow> (\<And>x. kept (\<lambda>_. True) (f x)) \<Longrightarrow> kept P (bindM m f)"
  by (rule kept_bind [where Q = "\<lambda>_ _. True"]) auto

lemma kept_basic:
  "kept P (returnM x)" "kept P (throwM e)" "kept P (getsM g)" "kept P (assertM c msg)" "kept P (trapIfM c msg)" "kept P (liftR q)"
  by (simp_all add: kept_def run_simps)

lemma kept_modify: "(\<And>h. P h \<Longrightarrow> ledger h \<Longrightarrow> ledger (f h)) \<Longrightarrow> kept P (modifyM f)"
  by (simp add: kept_def run_simps)

lemma kept_weaken: "kept (\<lambda>_. True) f \<Longrightarrow> kept P f"
  by (simp add: kept_def)

lemma kept_if: "kept (\<lambda>h. P h \<and> c) f \<Longrightarrow> kept (\<lambda>h. P h \<and> \<not> c) g \<Longrightarrow> kept P (if c then f else g)"
  by (auto simp: kept_def)

lemmas lend_view = lentBy_def lentTo_def

lemma ledger_scopes:
  assumes "ledger h" "\<And>t s. s \<in> set (c t) \<Longrightarrow> s < nextId h" "\<And>s. s \<in> set x \<Longrightarrow> s < nextId h" "\<And>e. e \<in> set w \<Longrightarrow> scopeId (snd e) < nextId h"
  shows "ledger (h\<lparr>callScopes := c, contextScopes := x, factStartScopes := w\<rparr>)"
  by (rule ledger_same [OF assms(1)]) (use assms(2-4) ledgerD(3) [OF assms(1)] in \<open>simp_all add: lend_view\<close>)

lemma kept_putScopes: "kept (\<lambda>h. \<forall>s \<in> set ss. s < nextId h) (modifyM (putScopes ss))"
proof (rule kept_modify)
  fix h :: "'g facts_scheme" assume s: "\<forall>s \<in> set ss. s < nextId h" and l: "ledger h"
  show "ledger (putScopes ss h)"
  proof (cases "maybeCurrentThread h")
    case None
    have "ledger (h\<lparr>callScopes := callScopes h, contextScopes := ss, factStartScopes := factStartScopes h\<rparr>)"
      by (rule ledger_scopes [OF l]) (use s ledgerD(4,6) [OF l] in blast)+
    then show ?thesis using None by (simp add: putScopes_def)
  next
    case (Some t)
    have "ledger (h\<lparr>callScopes := (callScopes h)(t := ss), contextScopes := contextScopes h, factStartScopes := factStartScopes h\<rparr>)"
      by (rule ledger_scopes [OF l]) (use s ledgerD(4,5,6) [OF l] in \<open>auto split: if_splits\<close>)
    then show ?thesis using Some by (simp add: putScopes_def)
  qed
qed

lemma getScopes_known: "ledger h \<Longrightarrow> s \<in> set (getScopes h) \<Longrightarrow> s < nextId h"
  by (auto simp: getScopes_def dest: ledgerD(4,5) split: option.splits)

lemma kept_lend:
  "kept (\<lambda>h. s < nextId h \<and> r < nextId h) (addLender s r)"
  "kept (\<lambda>h. s < nextId h \<and> r < nextId h) (scopeAddLender s r)"
proof -
  show "kept (\<lambda>h. s < nextId h \<and> r < nextId h) (addLender s r)"
    unfolding kept_def
  proof (intro allI impI)
    fix h :: "'g facts_scheme" assume h: "(s < nextId h \<and> r < nextId h) \<and> ledger h"
    show "ledger (snd (addLender s r h))"
    proof (cases "lenders (subtasks h s)")
      case None
      then show ?thesis using h by (simp add: addLender_run)
    next
      case (Some ls)
      let ?h = "updSubtask s (\<lambda>x. x\<lparr>lenders := map_option (\<lambda>ls. ls @ [r]) (lenders x)\<rparr>) (addLends 1 r h)"
      have "ledger ?h"
        by (rule ledger_change [of h s])
          (use h Some ledgerD(2) [of h _ s] in \<open>auto simp: lend_view updSubtask_def addLends_def split: if_splits\<close>)
      then show ?thesis using h Some by (simp add: addLender_run)
    qed
  qed
  show "kept (\<lambda>h. s < nextId h \<and> r < nextId h) (scopeAddLender s r)"
    unfolding kept_def
  proof (intro allI impI)
    fix h :: "'g facts_scheme" assume h: "(s < nextId h \<and> r < nextId h) \<and> ledger h"
    show "ledger (snd (scopeAddLender s r h))"
      by (rule ledger_change [of h s])
        (use h ledgerD(2) [of h _ s] in \<open>auto simp: lend_view scopeAddLender_def run_simps addLends_def split: if_splits\<close>)
  qed
qed

section \<open>The operations\<close>

lemma unlent_fresh:
  assumes "ledger h"
  shows "scopeLenders h (nextId h) = []" "numLends (resources h (nextId h)) = 0"
proof -
  have z: "lentBy h r (nextId h) = 0" for r using ledgerD(2) [OF assms, of r "nextId h"] by blast
  have "count_list (scopeLenders h (nextId h)) r = 0" for r using z [of r] by (simp add: lend_view split: option.splits)
  then show "scopeLenders h (nextId h) = []" by (metis count_list_0_iff list.set_intros(1) neq_Nil_conv)
  have "lentBy h (nextId h) n = 0" for n using ledgerD(2) [OF assms, of "nextId h" n] by blast
  then show "numLends (resources h (nextId h)) = 0" using ledgerD(1) [OF assms, of "nextId h"] by simp
qed

lemma kept_freshId: "kept P freshId"
  unfolding kept_def
proof (intro allI impI)
  fix h :: "'a facts_scheme" assume "P h \<and> ledger h"
  then have l: "ledger h" by blast
  have "ledger (h\<lparr>nextId := Suc (nextId h)\<rparr>)"
    by (rule ledger_same [OF l]) (use ledgerD(3-6) [OF l] in \<open>simp_all add: lend_view less_Suc_eq\<close>)
  then show "ledger (snd (freshId h))" by (simp add: freshId_def)
qed

text \<open>Changes of fields the ledger does not look at.\<close>

lemma kept_other:
  assumes "\<And>h. resources (f h) = resources h \<and> subtasks (f h) = subtasks h \<and> scopeLenders (f h) = scopeLenders h \<and> handles (f h) = handles h \<and>
    callScopes (f h) = callScopes h \<and> contextScopes (f h) = contextScopes h \<and> factStartScopes (f h) = factStartScopes h \<and> nextId (f h) = nextId h"
  shows "kept P (modifyM f)"
proof (rule kept_modify)
  fix h :: "'a facts_scheme" assume l: "ledger h"
  have f: "resources (f h) = resources h" "subtasks (f h) = subtasks h" "scopeLenders (f h) = scopeLenders h" "handles (f h) = handles h"
    "callScopes (f h) = callScopes h" "contextScopes (f h) = contextScopes h" "factStartScopes (f h) = factStartScopes h" "nextId (f h) = nextId h"
    using assms by blast+
  show "ledger (f h)" using l unfolding ledger_def allocated_def lend_view by (simp add: f)
qed

text \<open>An identity nobody allocated lends nothing, so a release needs no premise.\<close>

lemma lends_nothing:
  assumes "ledger h" "\<not> s < nextId h"
  shows "scopeLenders h s = []" "lentTo h r s = 0"
proof -
  have z: "lentBy h r s = 0" for r using ledgerD(2) [OF assms(1), of r s] assms(2) by blast
  have "count_list (scopeLenders h s) r = 0" for r using z [of r] lentTo_nonneg [of h r s] by (simp add: lentBy_def)
  then show "scopeLenders h s = []" by (metis count_list_0_iff list.set_intros(1) neq_Nil_conv)
  show "lentTo h r s = 0" using z [of r] lentTo_nonneg [of h r s] by (simp add: lentBy_def)
qed

lemma fold_addLends_fields:
  fixes h :: "'g hostsched_scheme"
  shows "nextId (fold (addLends d) ls h) = nextId h" "scopeLenders (fold (addLends d) ls h) = scopeLenders h"
    "callScopes (fold (addLends d) ls h) = callScopes h" "contextScopes (fold (addLends d) ls h) = contextScopes h"
    "factStartScopes (fold (addLends d) ls h) = factStartScopes h"
  by (induction ls arbitrary: h) (auto simp: addLends_def)

lemma release_keeps:
  assumes "ledger h"
  shows "ledger (releaseLenders s h)"
proof (cases "s < nextId h")
  case True
  have r: "numLends (resources (releaseLenders s h) r) = numLends (resources h r) - int (count_list (scopeLenders h s) r)" for r
    by (simp add: releaseLenders_def fold_addLends_resources)
  show ?thesis
    by (rule ledger_change [OF assms True])
      (use r lent_known [OF assms, of _ s] in \<open>simp_all add: releaseLenders_def fold_addLends_fields lentBy_def lentTo_def\<close>)
next
  case False
  then show ?thesis using assms lends_nothing(1) [OF assms False] by (simp add: releaseLenders_def fun_upd_idem)
qed

lemma kept_release: "kept P (modifyM (releaseLenders s))"
  by (rule kept_modify) (rule release_keeps)

lemma delivered_keeps:
  assumes "ledger h" "lenders (subtasks h s) = Some ls"
  shows "ledger (updSubtask s (\<lambda>y. y\<lparr>lenders := None\<rparr>) (fold (addLends (-1)) ls h))"
proof (cases "s < nextId h")
  case True
  have k: "lentBy h r s = int (count_list ls r) + int (count_list (scopeLenders h s) r)" for r
    using assms(2) by (simp add: lend_view)
  have n: "int (count_list (scopeLenders h s) r) \<noteq> 0 \<Longrightarrow> r < nextId h" for r
    using k [of r] ledgerD(2) [OF assms(1), of r s] by linarith
  show ?thesis
    by (rule ledger_change [OF assms(1) True])
      (use assms(2) n in \<open>simp_all add: updSubtask_def fold_addLends_fields fold_addLends_resources lend_view del: of_nat_eq_0_iff\<close>)
next
  case False
  have "count_list ls r = 0" for r using lends_nothing(2) [OF assms(1) False, of r] assms(2) by (simp add: lentTo_def)
  then have "ls = []" by (metis count_list_0_iff list.set_intros(1) neq_Nil_conv)
  show ?thesis unfolding \<open>ls = []\<close>
    by (rule ledger_same [OF assms(1)])
      (use assms(2) \<open>ls = []\<close> ledgerD(3-6) [OF assms(1)] in \<open>simp_all add: updSubtask_def lend_view\<close>)
qed

lemma kept_deliver: "kept P (deliverResolve s)"
  unfolding kept_def
proof (intro allI impI)
  fix h :: "'a facts_scheme" assume "P h \<and> ledger h"
  then show "ledger (snd (deliverResolve s h))"
    by (cases "lenders (subtasks h s)"; cases "resolved (subtasks h s)")
      (use delivered_keeps in \<open>auto simp: deliverResolve_def bindM_def resolveDelivered_run run_simps\<close>)
qed

lemma kept_subtask:
  assumes "\<And>x. lenders (f x) = lenders x"
  shows "kept P (modifyM (updSubtask s f))"
proof (rule kept_modify)
  fix h :: "'a facts_scheme" assume l: "ledger h"
  show "ledger (updSubtask s f h)"
    by (rule ledger_same [OF l]) (use assms ledgerD(3-6) [OF l] in \<open>auto simp: updSubtask_def lend_view\<close>)
qed

lemma kept_resolve: "kept P (resolve s st rs)"
  unfolding resolve_def by (intro kept_seq kept_basic kept_subtask) simp

lemma kept_unwind: "kept P (unwindLenders s)"
  unfolding unwindLenders_def resolveDelivered_def
  by (intro kept_seq kept_basic kept_if kept_deliver kept_resolve kept_weaken [of "if _ then _ else _"])

lemma kept_newResource: "numLends rh = 0 \<Longrightarrow> kept P (newResource rh)"
  unfolding kept_def newResource_def
proof (intro allI impI)
  fix h :: "'a facts_scheme" assume n: "numLends rh = 0" and h: "P h \<and> ledger h"
  let ?h = "h\<lparr>nextId := Suc (nextId h), resources := (resources h)(nextId h := rh)\<rparr>"
  have l: "ledger h" using h by blast
  have "ledger ?h"
    by (rule ledger_same [OF l]) (use n unlent_fresh(2) [OF l] ledgerD(3-6) [OF l] in \<open>auto simp: lend_view less_Suc_eq\<close>)
  then show "ledger (snd (bindM freshId (\<lambda>r. bindM (modifyM (\<lambda>h. h\<lparr>resources := (resources h)(r := rh)\<rparr>)) (\<lambda>_. returnM r)) h))"
    by (simp add: freshId_def run_simps bindM_def)
qed

lemma ledger_table:
  assumes "ledger h" "\<And>r. Some (EResource r) \<in> set (arr tb) \<Longrightarrow> r < nextId h"
  shows "ledger (h\<lparr>handles := (handles h)(i := tb)\<rparr>)"
  by (rule ledger_same [OF assms(1)]) (use assms(2) ledgerD(3-6) [OF assms(1)] in \<open>auto simp: lend_view split: if_splits\<close>)

lemma kept_onTable_add: "kept (\<lambda>h. \<forall>r. e = EResource r \<longrightarrow> r < nextId h) (onTable i (tableAdd e))"
  unfolding kept_def
proof (intro allI impI)
  fix h :: "'g facts_scheme" assume h: "(\<forall>r. e = EResource r \<longrightarrow> r < nextId h) \<and> ledger h"
  obtain q tb where t: "tableAdd e (handles h i) = (q, tb)" by (cases "tableAdd e (handles h i)")
  have "set (arr tb) \<subseteq> insert (Some e) (set (arr (handles h i)))"
    using t set_update_subset_insert by (fastforce simp: tableAdd_def Let_def split: if_splits)
  then have "ledger (h\<lparr>handles := (handles h)(i := tb)\<rparr>)"
    using h ledgerD(3) by (intro ledger_table) blast+
  then show "ledger (snd (onTable i (tableAdd e) h))" by (simp add: onTable_def t)
qed

lemma kept_onTable_remove: "kept P (onTable i (tableRemove n))"
  unfolding kept_def
proof (intro allI impI)
  fix h :: "'a facts_scheme" assume h: "P h \<and> ledger h"
  obtain q tb where t: "tableRemove n (handles h i) = (q, tb)" by (cases "tableRemove n (handles h i)")
  have "set (arr tb) \<subseteq> insert None (set (arr (handles h i)))"
    using t set_update_subset_insert by (fastforce simp: tableRemove_def split: sum.splits)
  then have "ledger (h\<lparr>handles := (handles h)(i := tb)\<rparr>)"
    using h ledgerD(3) by (intro ledger_table) blast+
  then show "ledger (snd (onTable i (tableRemove n) h))" by (simp add: onTable_def t)
qed

lemmas kept_rules = kept_seq kept_basic kept_freshId kept_onTable_remove kept_other

lemma putScopes_keeps:
  fixes h :: "'g facts_scheme"
  assumes "ledger h" "\<forall>s \<in> set ss. s < nextId h"
  shows "ledger (putScopes ss h)"
  by (rule keptD [OF kept_putScopes [of ss] assms(2,1)]) (simp add: run_simps)

lemma kept_newScope: "kept P (bindM freshId (\<lambda>s.
     bindM (modifyM (\<lambda>h. h\<lparr>taskBorrows := (taskBorrows h)(s := 0), scopeLenders := (scopeLenders h)(s := [])\<rparr>)) (\<lambda>_.
     modifyM (\<lambda>h. putScopes (getScopes h @ [s]) h))))"
  unfolding kept_def
proof (intro allI impI)
  fix h :: "'a facts_scheme" assume "P h \<and> ledger h"
  then have l: "ledger h" by blast
  let ?s = "nextId h"
  let ?h = "h\<lparr>nextId := Suc ?s, taskBorrows := (taskBorrows h)(?s := 0), scopeLenders := (scopeLenders h)(?s := [])\<rparr>"
  have e: "(scopeLenders h)(?s := []) = scopeLenders h" using unlent_fresh(1) [OF l] by (simp add: fun_upd_idem)
  have g: "getScopes ?h = getScopes h" by (simp add: getScopes_def maybeCurrentThread_def resolveAmbient_def split: option.splits)
  have k: "ledger ?h"
    by (rule ledger_same [OF l]) (use ledgerD(3-6) [OF l] in \<open>simp_all add: lend_view e less_Suc_eq\<close>)
  have "\<forall>s \<in> set (getScopes h @ [?s]). s < nextId ?h"
    using getScopes_known [OF l] by (auto simp: less_Suc_eq)
  then have "ledger (putScopes (getScopes ?h @ [?s]) ?h)" unfolding g by (rule putScopes_keeps [OF k])
  then show "ledger (snd (bindM freshId (\<lambda>s.
     bindM (modifyM (\<lambda>h. h\<lparr>taskBorrows := (taskBorrows h)(s := 0), scopeLenders := (scopeLenders h)(s := [])\<rparr>)) (\<lambda>_.
     modifyM (\<lambda>h. putScopes (getScopes h @ [s]) h))) h))"
    by (simp add: freshId_def run_simps bindM_def)
qed

lemma kept_enterSyncCall: "kept P (enterSyncCall caller callee)"
  unfolding enterSyncCall_def
  by (intro kept_seq kept_newScope kept_other) (auto split: option.splits intro!: kept_seq kept_basic)

lemma kept_exitSyncCall: "kept P exitSyncCall"
proof -
  have c: "kept (\<lambda>h. ss \<noteq> [] \<longrightarrow> last ss < nextId h) (bindM (assertM (ss \<noteq> []) m) (\<lambda>_.
     bindM (getsM (\<lambda>h. taskBorrows h (last ss))) (\<lambda>n. bindM (trapIfM (n > 0) m2) (\<lambda>_. modifyM (releaseLenders (last ss))))))" for ss m m2
    using release_keeps by (auto simp: kept_def run_simps)
  have b: "kept (\<lambda>h. \<forall>s \<in> set ss. s < nextId h) (bindM (modifyM (putScopes (butlast ss))) (\<lambda>_. bindM (assertM (ss \<noteq> []) m) (\<lambda>_.
     bindM (getsM (\<lambda>h. taskBorrows h (last ss))) (\<lambda>n. bindM (trapIfM (n > 0) m2) (\<lambda>_. modifyM (releaseLenders (last ss)))))))" for ss m m2
  proof (rule kept_bind [where Q = "\<lambda>_ h. ss \<noteq> [] \<longrightarrow> last ss < nextId h", OF _ c])
    show "kept (\<lambda>h. \<forall>s \<in> set ss. s < nextId h) (modifyM (putScopes (butlast ss)))"
      using kept_putScopes [of "butlast ss"] by (auto simp: kept_def run_simps dest: in_set_butlastD)
  qed (auto simp: run_simps putScopes_def split: option.splits)
  have a: "kept Q (bindM (getsM getScopes) (\<lambda>ss. bindM (modifyM (putScopes (butlast ss))) (\<lambda>_. bindM (assertM (ss \<noteq> []) m) (\<lambda>_.
     bindM (getsM (\<lambda>h. taskBorrows h (last ss))) (\<lambda>n. bindM (trapIfM (n > 0) m2) (\<lambda>_. modifyM (releaseLenders (last ss))))))))" for Q m m2
    by (rule kept_bind [where Q = "\<lambda>ss h. \<forall>s \<in> set ss. s < nextId h", OF kept_basic(3) b])
      (auto simp: run_simps getScopes_known)
  show ?thesis unfolding exitSyncCall_def by (intro kept_seq a kept_basic kept_other) auto
qed

lemma kept_transferOwn: "kept P (transferOwn handle src srcRt dst dstRt)"
proof -
  have a: "kept Q (bindM (newResource rh) (\<lambda>r2. onTable dst (tableAdd (EResource r2))))" if "numLends rh = 0" for Q rh
    by (rule kept_bind [where Q = "\<lambda>r2 h. r2 < nextId h", OF kept_newResource [OF that]])
      (use kept_onTable_add [of "EResource _" dst] in \<open>auto simp: newResource_def freshId_def run_simps bindM_def\<close>)
  show ?thesis
    unfolding transferOwn_def
    by (rule kept_seq [OF kept_onTable_remove]) (auto split: Entry.splits intro!: kept_seq kept_basic a)
qed

lemma kept_lendTo: "kept (\<lambda>h. scopeId l < nextId h \<and> r < nextId h) (lendTo l r)"
  using kept_lend [of _ r] by (cases l) (simp_all add: lendTo_def scopeId_def)

lemma borrowScope_known: "ledger h \<Longrightarrow> borrowScopeOf h = Some (k, l) \<Longrightarrow> scopeId l < nextId h"
proof -
  assume l: "ledger h" and b: "borrowScopeOf h = Some (k, l)"
  show ?thesis
  proof (cases "factStartScopes h = []")
    case True
    then have "getScopes h \<noteq> []" "l = OfScope (last (getScopes h))" using b by (auto simp: borrowScopeOf_def split: if_splits)
    then show ?thesis using getScopes_known [OF \<open>ledger h\<close> last_in_set] by (simp add: scopeId_def)
  next
    case False
    then have "(k, l) \<in> set (factStartScopes h)" using b last_in_set [OF False] by (simp add: borrowScopeOf_def)
    then show ?thesis using ledgerD(6) [OF \<open>ledger h\<close>] by fastforce
  qed
qed

lemma kept_transferBorrow: "kept P (transferBorrow handle src srcRt dst dstRt)"
proof -
  have a: "kept Q (bindM (newResource rh) (\<lambda>r2. bindM (onTable dst (tableAdd (EResource r2))) (\<lambda>i. returnM (VNum (int i)))))"
    if "numLends rh = 0" for Q rh
  proof (rule kept_bind [where Q = "\<lambda>r2 h. r2 < nextId h", OF kept_newResource [OF that]])
    show "kept (\<lambda>h. r2 < nextId h) (bindM (onTable dst (tableAdd (EResource r2))) (\<lambda>i. returnM (VNum (int i))))" for r2
      by (rule kept_seq [OF _ kept_basic(1)]) (use kept_onTable_add [of "EResource r2" dst] in simp)
  qed (auto simp: newResource_def freshId_def run_simps bindM_def)
  have b: "kept (\<lambda>h :: 'a facts_scheme. scopeId lz < nextId h \<and> rr < nextId h)
     (bindM (getsM (\<lambda>h. resources h rr)) (\<lambda>rh.
      bindM (trapIfM (rh_rt rh \<noteq> srcRt) m) (\<lambda>_.
      bindM (lendTo lz rr) (\<lambda>_.
      bindM (getsM (\<lambda>h. rtImpl h dstRt)) (\<lambda>impl.
      if impl = Some dst then returnM (rh_rep rh)
      else
        bindM (modifyM (\<lambda>h. h\<lparr>taskBorrows := (taskBorrows h)(kk := taskBorrows h kk + 1)\<rparr>)) (\<lambda>_.
        bindM (newResource \<lparr>rh_rt = dstRt, rh_rep = rh_rep rh, rh_own = False, rh_scope = Some kk, numLends = 0\<rparr>) (\<lambda>r2.
        bindM (onTable dst (tableAdd (EResource r2))) (\<lambda>i. returnM (VNum (int i))))))))))" for lz rr kk m
  proof -
    have "kept (\<lambda>h. scopeId lz < nextId h \<and> rr < nextId h)
     (bindM (lendTo lz rr) (\<lambda>_.
      bindM (getsM (\<lambda>h. rtImpl h dstRt)) (\<lambda>impl.
      if impl = Some dst then returnM (rh_rep rh)
      else
        bindM (modifyM (\<lambda>h. h\<lparr>taskBorrows := (taskBorrows h)(kk := taskBorrows h kk + 1)\<rparr>)) (\<lambda>_.
        bindM (newResource \<lparr>rh_rt = dstRt, rh_rep = rh_rep rh, rh_own = False, rh_scope = Some kk, numLends = 0\<rparr>) (\<lambda>r2.
        bindM (onTable dst (tableAdd (EResource r2))) (\<lambda>i. returnM (VNum (int i))))))))" for rh
      by (intro kept_seq [OF kept_lendTo] kept_seq kept_if kept_basic kept_other a) auto
    then show ?thesis unfolding kept_def by (auto simp: run_simps)
  qed
  show ?thesis
    unfolding kept_def
  proof (intro allI impI)
    fix h :: "'a facts_scheme" assume "P h \<and> ledger h"
    then have l: "ledger h" by blast
    show "ledger (snd (transferBorrow handle src srcRt dst dstRt h))"
    proof (cases "borrowScopeOf h")
      case None
      then show ?thesis using l by (simp add: transferBorrow_def run_simps)
    next
      case (Some kl)
      obtain k sc where kl: "kl = (k, sc)" by (cases kl)
      have s: "scopeId sc < nextId h" using borrowScope_known [OF l] Some kl by blast
      show ?thesis
      proof (cases "tableGet handle (handles h src)")
        case (Inl e)
        then show ?thesis using l Some kl by (simp add: transferBorrow_def run_simps handlesGet_def bindM_def)
      next
        case (Inr e)
        show ?thesis
        proof (cases e)
          case (EResource r)
          have "Some (EResource r) \<in> set (arr (handles h src))"
            using Inr EResource by (auto simp: tableGet_Ok in_set_conv_nth)
          then have r: "r < nextId h" using ledgerD(3) [OF l] by blast
          show ?thesis using b [of sc r _ k] Inr EResource Some kl l s r
            by (simp add: transferBorrow_def run_simps(1-8) handlesGet_def bindM_def [of "handlesGet _ _"] bindM_basic kept_def)
        qed (use l Some kl Inr in \<open>simp_all add: transferBorrow_def run_simps handlesGet_def bindM_def\<close>)
      qed
    qed
  qed
qed

text \<open>The ends of a call: the answer to a synchronous caller, a parked frame that settles, an activation that unwinds.\<close>

lemma kept_openScope: "kept P openScope"
  unfolding kept_def
proof (intro allI impI)
  fix h :: "'a facts_scheme" assume "P h \<and> ledger h"
  then have l: "ledger h" by blast
  have e: "(scopeLenders h)(nextId h := []) = scopeLenders h" using unlent_fresh(1) [OF l] by (simp add: fun_upd_idem)
  have "ledger (h\<lparr>nextId := Suc (nextId h), callerResults := (callerResults h)(nextId h := None), scopeLenders := scopeLenders h\<rparr>)"
    by (rule ledger_same [OF l]) (use ledgerD(3-6) [OF l] in \<open>simp_all add: lend_view less_Suc_eq\<close>)
  then show "ledger (snd (openScope h))" by (simp add: openScope_def freshId_def run_simps bindM_def e)
qed

lemma kept_makeSubtask: "kept P makeSubtask"
  unfolding kept_def
proof (intro allI impI)
  fix h :: "'a facts_scheme" assume "P h \<and> ledger h"
  then have l: "ledger h" by blast
  have z: "lentTo h r (nextId h) = 0" for r using lends_nothing(2) [OF l] by simp
  let ?h = "h\<lparr>nextId := Suc (nextId h), subtasks := (subtasks h)(nextId h := newSubtask), waitables := (waitables h)(nextId h := newWaitable),
      onCancel := (onCancel h)(nextId h := None), calleeTask := (calleeTask h)(nextId h := None)\<rparr>"
  have v: "lentBy ?h r n = lentBy h r n" for r n
    using z [of r] by (auto simp: lentBy_def lentTo_def newSubtask_def)
  have "ledger ?h"
    by (rule ledger_same [OF l v]) (use ledgerD(3-6) [OF l] in \<open>simp_all add: less_Suc_eq\<close>)
  then show "ledger (snd (makeSubtask h))" by (simp add: makeSubtask_def freshId_def run_simps bindM_def)
qed

lemma kept_syncAnswer: "kept P (syncAnswer s)"
  unfolding syncAnswer_def by (intro kept_seq kept_release kept_basic)

lemma kept_factSettled: "kept P (factSettled n)"
  unfolding factSettled_def
  by (rule kept_seq [OF kept_basic(3)])
    (auto split: option.splits FactWait.splits intro!: kept_basic kept_release kept_seq kept_unwind)

lemma unwindThread_keeps:
  fixes h :: "'g facts_scheme"
  assumes "ledger h"
  shows "ledger (unwindThread t h)"
proof -
  have f: "ledger (fold releaseLenders ss g) \<and> callScopes (fold releaseLenders ss g) = callScopes g" if "ledger g" for ss and g :: "'g facts_scheme"
  proof (use that in \<open>induction ss arbitrary: g\<close>)
    case (Cons a ss)
    have "callScopes (releaseLenders a g) = callScopes g" by (simp add: releaseLenders_def fold_addLends_fields)
    then show ?case using Cons.IH [OF release_keeps [OF Cons.prems]] by simp
  qed simp
  let ?h = "fold releaseLenders (rev (callScopes h t)) h"
  have l: "ledger ?h" and c: "callScopes ?h = callScopes h" using f [OF assms] by blast+
  have "ledger (?h\<lparr>callScopes := (callScopes ?h)(t := []), contextScopes := contextScopes ?h, factStartScopes := factStartScopes ?h\<rparr>)"
    by (rule ledger_scopes [OF l]) (use ledgerD(4-6) [OF l] in \<open>auto split: if_splits\<close>)
  then show ?thesis by (simp add: unwindThread_def c)
qed

text \<open>The handles of the component's own built-ins and of lifted and lowered values.\<close>

lemma kept_newHandle:
  assumes "numLends rh = 0"
  shows "kept P (bindM (newResource rh) (\<lambda>r. onTable i (tableAdd (EResource r))))"
proof (rule kept_bind [where Q = "\<lambda>r h. r < nextId h", OF kept_newResource [OF assms]])
  show "kept (\<lambda>h. r < nextId h) (onTable i (tableAdd (EResource r)))" for r
    using kept_onTable_add [of "EResource r" i] by simp
qed (auto simp: newResource_def freshId_def run_simps bindM_def)

lemma kept_canonResourceNew: "kept P (canonResourceNew ins rt rep)"
  unfolding canonResourceNew_def by (intro kept_seq kept_basic kept_newHandle) simp

lemma kept_requireInst: "kept P (requireInst cx)"
  unfolding requireInst_def by (cases "inst cx") (simp_all add: kept_basic)

lemma kept_asResource: "kept P (asResource e)"
  unfolding asResource_def by (cases e) (auto intro!: kept_seq kept_basic)

lemma kept_lowerOwn: "kept P (lowerOwn cx rep rt)"
proof (cases "inst cx")
  case None
  have t: "bindM (throwM e) f = throwM e" for e and f :: "nat \<Rightarrow> ('a facts_scheme, nat) sm" by (rule ext) (simp add: run_simps)
  show ?thesis using None unfolding lowerOwn_def requireInst_def
    by (simp add: t) (intro kept_seq kept_newResource kept_basic, simp)
next
  case (Some i)
  have t: "bindM (returnM i) f = f i" for f :: "nat \<Rightarrow> ('a facts_scheme, nat) sm" by (rule ext) (simp add: run_simps)
  show ?thesis using Some unfolding lowerOwn_def requireInst_def by (simp add: t) (rule kept_newHandle, simp)
qed

lemma kept_liftOwn: "kept P (liftOwn cx i rt)"
  unfolding liftOwn_def
  by (intro kept_seq kept_requireInst kept_onTable_remove kept_asResource) (auto intro!: kept_seq kept_basic split: prod.splits)

lemma liftBorrow_keeps:
  fixes h :: "'g facts_scheme"
  assumes "ledger h" "\<And>s. borrowScope cx = Some (SubtaskScope s) \<Longrightarrow> s < nextId h"
  shows "ledger (snd (liftBorrow cx i rt h))"
proof (cases "borrowScope cx")
  case (Some b)
  show ?thesis
  proof (cases b)
    case (SubtaskScope s)
    then have s: "s < nextId h" using assms(2) Some by blast
    have ad: "ledger (snd (addLender s r h))" if "r < nextId h" for r
      using kept_lend(1) [of s r] that s assms(1) by (auto simp: kept_def)
    have known: "r < nextId h" if "tableGet i (handles h ins) = Inr (EResource r)" for r ins
    proof -
      have "Some (EResource r) \<in> set (arr (handles h ins))" using that by (auto simp: tableGet_Ok in_set_conv_nth)
      then show ?thesis using ledgerD(3) [OF assms(1)] by blast
    qed
    show ?thesis
    proof (cases "inst cx")
      case None
      then show ?thesis using Some SubtaskScope assms(1) by (simp add: liftBorrow_def requireInst_def run_simps)
    next
      case i: (Some ins)
      show ?thesis
      proof (cases "tableGet i (handles h ins)")
        case (Inl e)
        then show ?thesis using Some SubtaskScope i assms(1)
          by (simp add: liftBorrow_def requireInst_def run_simps handlesGet_def bindM_def returnM_def)
      next
        case (Inr e)
        show ?thesis
        proof (cases e)
          case (EResource r)
          obtain q h1 where a: "addLender s r h = (q, h1)" by (cases "addLender s r h")
          then have "ledger h1" using ad [OF known] Inr EResource by force
          then show ?thesis using Some SubtaskScope i Inr EResource a assms(1)
            by (cases q) (auto simp: liftBorrow_def requireInst_def run_simps handlesGet_def bindM_def returnM_def asResource_def trapIfM_def throwM_def getsM_def split: sum.splits)
        qed (use Some SubtaskScope i Inr assms(1) in
            \<open>simp_all add: liftBorrow_def requireInst_def run_simps handlesGet_def bindM_def returnM_def asResource_def\<close>)
      qed
    qed
  qed (use Some assms(1) in \<open>simp add: liftBorrow_def run_simps\<close>)
qed (use assms(1) in \<open>simp add: liftBorrow_def run_simps\<close>)

lemma kept_lowerBorrow: "kept P (lowerBorrow cx rep rt)"
proof (cases "borrowScope cx")
  case (Some b)
  show ?thesis
  proof (cases b)
    case (TaskScope k)
    have a: "kept Q (bindM (newResource rh) (\<lambda>r.
            bindM (modifyM (\<lambda>h. h\<lparr>taskBorrows := (taskBorrows h)(k := taskBorrows h k + 1)\<rparr>)) (\<lambda>_.
            bindM (requireInst cx) (\<lambda>ins.
            bindM (onTable ins (tableAdd (EResource r))) (\<lambda>i. returnM (VNum (int i)))))))" if "numLends rh = 0" for rh Q
    proof (rule kept_bind [where Q = "\<lambda>r h. r < nextId h", OF kept_newResource [OF that]])
      fix r
      have "kept (\<lambda>h. r < nextId h) (bindM (onTable ins (tableAdd (EResource r))) (\<lambda>i. returnM (VNum (int i))))" for ins
        by (rule kept_seq [OF _ kept_basic(1)]) (use kept_onTable_add [of "EResource r" ins] in simp)
      then have "kept (\<lambda>h. r < nextId h) (bindM (requireInst cx) (\<lambda>ins. bindM (onTable ins (tableAdd (EResource r))) (\<lambda>i. returnM (VNum (int i)))))"
        by (intro kept_bind [where Q = "\<lambda>_ h. r < nextId h", OF kept_requireInst])
          (auto simp: requireInst_def run_simps split: option.splits)
      then show "kept (\<lambda>h. r < nextId h) (bindM (modifyM (\<lambda>h. h\<lparr>taskBorrows := (taskBorrows h)(k := taskBorrows h k + 1)\<rparr>)) (\<lambda>_.
            bindM (requireInst cx) (\<lambda>ins. bindM (onTable ins (tableAdd (EResource r))) (\<lambda>i. returnM (VNum (int i))))))"
        by (intro kept_bind [where Q = "\<lambda>_ h. r < nextId h", OF kept_other]) (auto simp: run_simps)
    qed (auto simp: newResource_def freshId_def run_simps bindM_def)
    show ?thesis using Some TaskScope unfolding lowerBorrow_def
      by (auto intro!: kept_seq kept_if kept_basic a)
  qed (use Some in \<open>simp add: lowerBorrow_def kept_basic\<close>)
qed (simp add: lowerBorrow_def kept_basic)

text \<open>The destructor of a dropped resource: the gate and the poisoning around it leave the ledger alone.\<close>

lemma hostsched_more:
  fixes h h' :: "'g hostsched_scheme"
  assumes "heap.more h' = heap.more h"
  shows "scopeLenders h' = scopeLenders h" "callScopes h' = callScopes h" "contextScopes h' = contextScopes h"
    "factStartScopes h' = factStartScopes h"
  using assms by (cases h; cases h'; simp)+

text \<open>A step of any other code: no list of lenders, no count, no scope and no table entry of a resource changes.\<close>

definition sameLedger :: "'g hostsched_scheme \<Rightarrow> 'g hostsched_scheme \<Rightarrow> bool" where
  "sameLedger h h' \<longleftrightarrow>
     resources h' = resources h \<and> (\<forall>s. lenders (subtasks h' s) = lenders (subtasks h s)) \<and> scopeLenders h' = scopeLenders h \<and>
     (\<forall>i r. Some (EResource r) \<in> set (arr (handles h' i)) \<longrightarrow> Some (EResource r) \<in> set (arr (handles h i))) \<and>
     callScopes h' = callScopes h \<and> contextScopes h' = contextScopes h \<and> factStartScopes h' = factStartScopes h \<and>
     nextId h \<le> nextId h'"

lemma sameLedger_keeps:
  assumes "sameLedger h h'" "ledger h"
  shows "ledger h'"
proof (rule ledger_same [OF assms(2)])
  have n: "nextId h \<le> nextId h'" and s: "resources h' = resources h" "scopeLenders h' = scopeLenders h" "callScopes h' = callScopes h"
    "contextScopes h' = contextScopes h" "factStartScopes h' = factStartScopes h" "\<And>s. lenders (subtasks h' s) = lenders (subtasks h s)"
    and e: "\<And>i r. Some (EResource r) \<in> set (arr (handles h' i)) \<Longrightarrow> Some (EResource r) \<in> set (arr (handles h i))"
    using assms(1) unfolding sameLedger_def by blast+
  note ord = less_le_trans [OF _ n]
  show "lentBy h' r n = lentBy h r n" "numLends (resources h' r) = numLends (resources h r)" "nextId h \<le> nextId h'" for r n
    using s n by (simp_all add: lend_view)
  show "r < nextId h'" if "Some (EResource r) \<in> set (arr (handles h' i))" for i r using ord [OF ledgerD(3) [OF assms(2) e [OF that]]] .
  show "x < nextId h'" if "x \<in> set (callScopes h' t)" for t x using ord ledgerD(4) [OF assms(2)] that s by simp
  show "x < nextId h'" if "x \<in> set (contextScopes h')" for x using ord ledgerD(5) [OF assms(2)] that s by simp
  show "scopeId (snd e) < nextId h'" if "e \<in> set (factStartScopes h')" for e using ord ledgerD(6) [OF assms(2)] that s by simp
qed

lemma kept_notify: "kept P (notifyInstancePoisoned i e)"
  unfolding kept_def
proof (intro allI impI)
  fix h :: "'a facts_scheme" assume h: "P h \<and> ledger h"
  have g: "gateKeep h (snd (notifyInstancePoisoned i e h))" using keep_poison unfolding stays_def by blast
  show "ledger (snd (notifyInstancePoisoned i e h))"
    by (rule sameLedger_keeps [of h]) (use g h hostsched_more [of "snd (notifyInstancePoisoned i e h)" h] in \<open>auto simp: gateKeep_def sameLedger_def\<close>)
qed

lemma kept_doors: "kept P (enterFrom i c)" "kept P (leaveTo i c)"
proof -
  have c: "kept Q (closeAll xs)" for Q :: "'a facts_scheme \<Rightarrow> bool" and xs
    by (induction xs arbitrary: Q) (auto intro!: kept_seq kept_basic kept_other simp: setMayEnter_def)
  have o1: "kept Q (openAll xs)" for Q :: "'a facts_scheme \<Rightarrow> bool" and xs
    by (induction xs arbitrary: Q) (auto intro!: kept_seq kept_basic kept_other simp: setMayEnter_def)
  show "kept P (enterFrom i c)" "kept P (leaveTo i c)"
    unfolding enterFrom_def leaveTo_def by (intro kept_seq kept_basic c o1)+
qed

lemma kept_catch: "kept P f \<Longrightarrow> (\<And>e. kept (\<lambda>_. True) (g e)) \<Longrightarrow> kept P (catchM f g)"
  unfolding kept_def catchM_def by (auto split: prod.splits sum.splits)

lemma kept_runDtor:
  assumes "\<And>f args h. d = Some f \<Longrightarrow> ledger h \<Longrightarrow> ledger (snd (f args h))"
  shows "kept P (runDtor d rep)"
proof (cases d)
  case (Some f)
  then have "ledger (snd (f [rep] h))" if "ledger h" for h using assms that by blast
  then show ?thesis using Some by (fastforce simp: kept_def runDtor_def split: prod.splits sum.splits CoreOut.splits)
qed (simp add: runDtor_def kept_basic)

lemma drop_keeps:
  assumes "\<And>f args h. D rt = Some f \<Longrightarrow> ledger h \<Longrightarrow> ledger (snd (f args h))"
  shows "kept P (canonResourceDrop D ins rt i)"
proof -
  have g: "kept Q (callDtorGated D rt rep caller)" for Q rep caller
    unfolding callDtorGated_def poisonDtor_def
    by (intro kept_seq kept_basic) (auto intro!: kept_seq kept_basic kept_doors kept_catch kept_runDtor kept_notify assms split: option.splits)
  show ?thesis unfolding canonResourceDrop_def
    by (intro kept_seq kept_basic kept_onTable_remove kept_asResource) (auto intro!: kept_seq kept_basic kept_other g split: option.splits)
qed

section \<open>Histories\<close>

text \<open>
  \<open>lendHistory h0 h\<close>: \<open>h\<close> comes from \<open>h0\<close> by operations that touch a handle, a list of lenders or a scope, in any order and
  interleaving, each with whatever outcome it has, a throw included.  The adapter of a start window and the destructor of a
  dropped resource are any functions whose own effect is such a history; \<open>other\<close> is any step of other code.
\<close>

definition inWindow :: "nat \<Rightarrow> LenderScope \<Rightarrow> 'g hostsched_scheme \<Rightarrow> 'g hostsched_scheme" where
  "inWindow k l h = h\<lparr>factStartScopes := factStartScopes h @ [(k, l)]\<rparr>"

inductive lendHistory :: "'g facts_scheme \<Rightarrow> 'g facts_scheme \<Rightarrow> bool" where
  start: "lendHistory h h"
| enter: "lendHistory h0 h \<Longrightarrow> lendHistory h0 (snd (enterSyncCall caller callee h))"
| exit: "lendHistory h0 h \<Longrightarrow> lendHistory h0 (snd (exitSyncCall h))"
| own: "lendHistory h0 h \<Longrightarrow> lendHistory h0 (snd (transferOwn i src srcRt dst dstRt h))"
| borrow: "lendHistory h0 h \<Longrightarrow> lendHistory h0 (snd (transferBorrow i src srcRt dst dstRt h))"
| subtask: "lendHistory h0 h \<Longrightarrow> lendHistory h0 (snd (makeSubtask h))"
| scope: "lendHistory h0 h \<Longrightarrow> lendHistory h0 (snd (openScope h))"
| deliver: "lendHistory h0 h \<Longrightarrow> lendHistory h0 (snd (deliverResolve s h))"
| unwind: "lendHistory h0 h \<Longrightarrow> lendHistory h0 (snd (unwindLenders s h))"
| answer: "lendHistory h0 h \<Longrightarrow> lendHistory h0 (snd (syncAnswer s h))"
| settled: "lendHistory h0 h \<Longrightarrow> lendHistory h0 (snd (factSettled n h))"
| create: "lendHistory h0 h \<Longrightarrow> lendHistory h0 (snd (canonResourceNew ins rt rep h))"
| lift_own: "lendHistory h0 h \<Longrightarrow> lendHistory h0 (snd (liftOwn cx i rt h))"
| lift_borrow: "lendHistory h0 h \<Longrightarrow> (\<And>s. borrowScope cx = Some (SubtaskScope s) \<Longrightarrow> s < nextId h) \<Longrightarrow> lendHistory h0 (snd (liftBorrow cx i rt h))"
| lower_own: "lendHistory h0 h \<Longrightarrow> lendHistory h0 (snd (lowerOwn cx rep rt h))"
| lower_borrow: "lendHistory h0 h \<Longrightarrow> lendHistory h0 (snd (lowerBorrow cx rep rt h))"
| thread: "lendHistory h0 h \<Longrightarrow> lendHistory h0 (unwindThread t h)"
| window: "lendHistory h0 h \<Longrightarrow> scopeId l < nextId h \<Longrightarrow> lendHistory (inWindow k l h) h1 \<Longrightarrow> f (inWindow k l h) = (x :: JsVal list result, h1) \<Longrightarrow>
    lendHistory h0 (snd (startWindow k l f h))"
| drop: "lendHistory h0 h \<Longrightarrow> (\<And>f args g. D rt = Some f \<Longrightarrow> lendHistory g (snd (f args g))) \<Longrightarrow>
    lendHistory h0 (snd (canonResourceDrop D ins rt i h))"
| other: "lendHistory h0 h \<Longrightarrow> sameLedger h h' \<Longrightarrow> lendHistory h0 h'"

lemma window_keeps:
  fixes h :: "'g facts_scheme"
  assumes "ledger h" "scopeId l < nextId h" "f (inWindow k l h) = (x, h1)" "ledger (inWindow k l h) \<Longrightarrow> ledger h1"
  shows "ledger (snd (startWindow k l f h))"
proof -
  have "ledger (h\<lparr>callScopes := callScopes h, contextScopes := contextScopes h, factStartScopes := factStartScopes h @ [(k, l)]\<rparr>)"
    by (rule ledger_scopes [OF assms(1)]) (use assms(2) ledgerD(4-6) [OF assms(1)] in auto)
  then have l: "ledger h1" using assms(4) by (simp add: inWindow_def)
  have "ledger (h1\<lparr>callScopes := callScopes h1, contextScopes := contextScopes h1, factStartScopes := butlast (factStartScopes h1)\<rparr>)"
    by (rule ledger_scopes [OF l]) (use ledgerD(4-6) [OF l] in \<open>auto dest: in_set_butlastD\<close>)
  then show ?thesis
    using assms(3) by (cases x) (simp_all add: startWindow_def run_simps finallyM_def inWindow_def liftR_def)
qed

lemma kept_run: "kept (\<lambda>_. True) f \<Longrightarrow> ledger h \<Longrightarrow> ledger (snd (f h))"
  by (simp add: kept_def)

lemma lends_ledger: "lendHistory h0 h \<Longrightarrow> ledger h0 \<Longrightarrow> ledger h"
proof (induction rule: lendHistory.induct)
  case (window h0 h l k h1 f x)
  show ?case by (rule window_keeps [of h l f k x h1]) (use window in auto)
next
  case (drop h0 h D rt ins i)
  have "kept (\<lambda>_. True) (canonResourceDrop D ins rt i)" by (rule drop_keeps) (use drop in blast)
  then show ?case using drop by (simp add: kept_def)
next
  case (other h0 h h')
  then show ?case using sameLedger_keeps by blast
next
  case (lift_borrow h0 h cx i rt)
  then show ?case by (intro liftBorrow_keeps) auto
qed (blast intro: kept_run kept_enterSyncCall kept_exitSyncCall kept_transferOwn kept_transferBorrow kept_makeSubtask kept_openScope
    kept_deliver kept_unwind kept_syncAnswer kept_factSettled unwindThread_keeps kept_canonResourceNew kept_liftOwn kept_lowerOwn kept_lowerBorrow)+

text \<open>A lent handle cannot leave its table.\<close>

definition lender :: "'g hostsched_scheme \<Rightarrow> nat \<Rightarrow> bool" where
  "lender h r \<longleftrightarrow> (\<exists>n. r \<in> set (scopeLenders h n) \<or> (\<exists>ls. lenders (subtasks h n) = Some ls \<and> r \<in> set ls))"

lemma lentBy_nonneg: "0 \<le> lentBy h r n"
  using lentTo_nonneg [of h r n] by (simp add: lentBy_def)

lemma count_pos: "0 < count_list xs r \<longleftrightarrow> r \<in> set xs"
  by (metis bot_nat_0.not_eq_extremum count_list_0_iff)

lemma lender_lentBy: "lender h r \<longleftrightarrow> (\<exists>n. 0 < lentBy h r n)"
proof -
  have "0 < lentBy h r n \<longleftrightarrow> r \<in> set (scopeLenders h n) \<or> (\<exists>ls. lenders (subtasks h n) = Some ls \<and> r \<in> set ls)" for n
    by (cases "lenders (subtasks h n)") (auto simp: lend_view simp flip: count_pos intro: add_pos_nonneg add_nonneg_pos)
  then show ?thesis unfolding lender_def by blast
qed

lemma lends_iff:
  assumes "ledger h"
  shows "0 < numLends (resources h r) \<longleftrightarrow> lender h r"
proof -
  have "numLends (resources h r) = 0 \<longleftrightarrow> (\<forall>n < nextId h. lentBy h r n = 0)"
    unfolding ledgerD(1) [OF assms] by (auto simp: sum_nonneg_eq_0_iff lentBy_nonneg)
  moreover have "0 \<le> numLends (resources h r)" unfolding ledgerD(1) [OF assms] by (simp add: sum_nonneg lentBy_nonneg)
  moreover have "(\<forall>n < nextId h. lentBy h r n = 0) \<longleftrightarrow> (\<forall>n. lentBy h r n = 0)" using ledgerD(2) [OF assms] by blast
  ultimately show ?thesis unfolding lender_lentBy using lentBy_nonneg [of h r] by (metis less_le)
qed

end
