(* ===== verification/LedgerProps.thy ===== *)
theory LedgerProps
  imports Ledger
begin

text \<open>
  What the fused calls between components promise: the caller gets what the two copy adapters and the callee compose to, and
  the ledger of lent handles holds through every history.
\<close>

section \<open>Fused calls\<close>

text \<open>C3: A fused synchronous call whose callee is admitted at once and resolves in its first activation returns to the caller what
  the composition of the two copy adapters with the callee computes on the prepared lanes, the result pointer appended where the results
  go to memory, in the shape the core caller expects.  The start adapter may lend any list \<open>L\<close> of the caller's handles to the
  call, as borrows of resources the callee implements (\<open>lendingAdapterIs\<close>); for the rest the two adapters and the callee
  change nothing but memory (\<open>adapterIs\<close>, \<open>calleeIs\<close>), and the caller may enter the callee, which has neither backpressure nor
  waiting calls nor an exclusive thread if it is asynchronous (\<open>readyCallee\<close>).  After the call the preparation is taken; every lend
  is given back, so the counts of lends are as they were and no list of lenders is left; and gates, stores, backpressure and the counts
  of waiting tasks, ambient stacks, handle tables and the callee's threads are as they were.\<close>

theorem fused_sync_call:
  fixes h :: "'g facts_scheme" and F :: "('g facts_scheme) FactContext"
  assumes "prepared h = Some p" "factCallback F cbi = Inr cb"
    "lendingAdapterIs h (fc_adapter F (pc_start p)) (startParams p) xs L" "adapterIs (fc_adapter F (pc_return p)) \<psi>"
    "calleeIs (factInput F p c cb None True (SyncSide (nextId h))) f" "readyCallee p h"
  shows "\<exists>h'. createSyncStartCall F C cbi (FactFunc c) h =
      (Inr (BReturn (shapeResults (Some (\<psi> (withRetptr p (f xs)))))), h') \<and>
    prepared h' = None \<and> undisturbed (pc_calleeInst p) h h' \<and> scopeLenders h' (nextId h) = []"
  by (rule fused_sync [OF assms])

text \<open>A component 1 that calls the successor function of component 2 on the representation of a resource of component 2 that it
  lends for the call: the stackful form and the synchronous form.\<close>

definition copyLanes :: "'s AdapterFn" where
  "copyLanes xs h = (Inr (RawArray xs), h)"

definition succLanes :: "JsVal list \<Rightarrow> JsVal list" where
  "succLanes xs = (case xs of [VNum n] \<Rightarrow> [VNum ((n + 1) mod 2 ^ 32)] | _ \<Rightarrow> [])"

definition succPrepared :: PreparedCall where
  "succPrepared =
     \<lparr>pc_start = 0, pc_return = 1, pc_callerInst = 1, pc_calleeInst = 2, pc_taskReturnType = 0, pc_calleeAsync = True,
      pc_stringEncoding = 0, pc_resultCountOrMax = 1, pc_params = [VNum 41], pc_resultInfo = StackResult,
      pc_asyncCallerWithResult = False, pc_memory = None\<rparr>"

definition succContext :: "'s CoreFn \<Rightarrow> 's FactContext" where
  "succContext f =
     \<lparr>fc_instance = id, fc_resultTypesForTuple = (\<lambda>_. Some [TPrim KU32]), fc_func = (\<lambda>_. f), fc_adapter = (\<lambda>_. copyLanes),
      fc_callback = (\<lambda>_. None), fc_memory = (\<lambda>_. None), fc_enter = (\<lambda>f. f), fc_jspi = False, fc_calleeCanBlock = (\<lambda>_. False)\<rparr>"

definition lendLanes :: "('g facts_scheme) AdapterFn" where
  "lendLanes xs h =
     (case xs of
        [VNum n] \<Rightarrow>
          (case transferBorrow (nat n) 1 5 2 5 h of
             (Inl e, h1) \<Rightarrow> (Inl (Thrown e), h1)
           | (Inr v, h1) \<Rightarrow> (Inr (RawArray [v]), h1))
      | _ \<Rightarrow> (Inr (RawArray []), h))"

definition lendPrepared :: PreparedCall where
  "lendPrepared = succPrepared\<lparr>pc_params := [VNum 1]\<rparr>"

definition lendContext :: "('g facts_scheme) CoreFn \<Rightarrow> ('g facts_scheme) FactContext" where
  "lendContext f = (succContext f)\<lparr>fc_adapter := (\<lambda>n. if n = 0 then lendLanes else copyLanes)\<rparr>"

definition stackfulSucc :: "facts CoreFn" where
  "stackfulSucc xs h =
     (case bindM currentTask (\<lambda>k. taskReturn (factCaller (factInput (lendContext succCore) lendPrepared 0 None None True (SyncSide 1))) k
          (succLanes xs)) h of
        (Inl e, h1) \<Rightarrow> (Inl (Thrown e), h1)
      | (Inr _, h1) \<Rightarrow> (Inr (Returned (RawArray [])), h1))"

definition factHost :: facts where
  "factHost = hostsched.extend (emptyHost\<lparr>allInstances := [1, 2], nextId := 0\<rparr>)
     (facts.fields (Some succPrepared) (\<lambda>_. None) (\<lambda>_. None) (\<lambda>_. False))"

lemma copy_ok: "adapterIs copyLanes (\<lambda>xs. xs)"
  unfolding adapterIs_def
proof
  fix xs
  have "\<forall>g :: 'g sched_scheme. copyLanes xs g = (Inr (RawArray xs), g\<lparr>mems := mems g\<rparr>)" by (simp add: copyLanes_def)
  then show "\<exists>r M. rawValues r = xs \<and> (\<forall>g :: 'g sched_scheme. copyLanes xs g = (Inr r, g\<lparr>mems := M g\<rparr>))"
    by (intro exI [of _ "RawArray xs"] exI [of _ mems]) (simp add: rawValues_def)
qed

definition lendHost :: facts where
  "lendHost = factHost\<lparr>nextId := 1, prepared := Some lendPrepared, rtImpl := (\<lambda>_. None)(5 := Some 2),
     resources := (resources factHost)(0 := \<lparr>rh_rt = 5, rh_rep = VNum 7, rh_own = True, rh_scope = None, numLends = 0\<rparr>),
     handles := (handles factHost)(1 := \<lparr>arr = [None, Some (EResource 0)], free = []\<rparr>)\<rparr>"

lemma lend_ready: "readyCallee lendPrepared lendHost"
proof -
  have "mayEnterFrom 2 (Some 1) lendHost" "mayLeave lendHost 2" "openInst 2 True lendHost" "instThreads lendHost 2 = emptyTable" by code_simp+
  then show ?thesis
    by (simp add: readyCallee_def lendPrepared_def succPrepared_def) (simp add: emptyTable_def MAX_LENGTH_def table_inv_empty [unfolded emptyTable_def])
qed

lemma lendTo_keeps: "lendTo l r h = (q, h') \<Longrightarrow> mems h' = mems h \<and> rtImpl h' = rtImpl h"
  by (cases l) (auto simp: lendTo_def addLender_run scopeAddLender_def run_simps updSubtask_def addLends_def split: if_splits)

lemma lends_ok: "lendingAdapterIs lendHost lendLanes [VNum 1] [VNum 7] [0]"
  unfolding lendingAdapterIs_def
proof (intro exI [of _ "RawArray [VNum 7]"] exI [of _ mems] conjI allI impI)
  fix g :: facts and k l
  assume a: "sameHandles lendHost g \<and> factStartScopes g \<noteq> [] \<and> last (factStartScopes g) = (k, l)"
  have f: "borrowScopeOf g = Some (k, l)" using a by (simp add: borrowScopeOf_def)
  have t: "tableGet (nat 1) (handles g 1) = Inr (EResource 0)" "rtImpl g 5 = Some 2"
    "resources g 0 = \<lparr>rh_rt = 5, rh_rep = VNum 7, rh_own = True, rh_scope = None, numLends = 0\<rparr>"
    using a by (simp_all add: sameHandles_def lendHost_def tableGet_def)
  obtain q g1 where l: "lendTo l 0 g = (q, g1)" by (cases "lendTo l 0 g")
  have k: "mems g1 = mems g" "rtImpl g1 5 = Some 2" using lendTo_keeps [OF l] t(2) by simp_all
  show "lendLanes [VNum 1] g = (case lendEach l [0] g of (Inl e, g1) \<Rightarrow> (Inl (Thrown e), g1)
      | (Inr u, g1) \<Rightarrow> (Inr (RawArray [VNum 7]), g1\<lparr>mems := mems g\<rparr>))"
    using t k f l
    by (cases q) (simp_all add: lendLanes_def transferBorrow_def bindM_def [of "handlesGet _ _"] handlesGet_def run_simps bindM_def [of "lendTo l 0"])
qed (simp add: rawValues_def)

lemma factCaller_cong:
  "fi_prepared X = fi_prepared Y \<Longrightarrow> fi_start X = fi_start Y \<Longrightarrow> fi_return X = fi_return Y \<Longrightarrow> fi_side X = fi_side Y \<Longrightarrow>
    factCaller X = factCaller Y"
  unfolding factCaller_def by (simp only:)

lemma lend_context:
  "fc_adapter (lendContext f) (pc_start lendPrepared) = lendLanes" "fc_adapter (lendContext f) (pc_return lendPrepared) = copyLanes"
  "startParams lendPrepared = [VNum 1]" "factCallback (lendContext f) None = Inr None" "withRetptr lendPrepared xs = xs"
  "prepared lendHost = Some lendPrepared" "nextId lendHost = 1" "pc_calleeInst lendPrepared = 2"
  by (simp_all add: lendContext_def lendPrepared_def succPrepared_def startParams_def factCallback_def withRetptr_def lendHost_def)

theorem fused_sync_call_witness:
  "\<exists>h'. createSyncStartCall (lendContext stackfulSucc) quietCode None (FactFunc 0) lendHost = (Inr (BReturn (VNum 8)), h') \<and>
    prepared h' = None \<and> undisturbed 2 lendHost h' \<and> scopeLenders h' 1 = []"
proof -
  let ?X = "factInput (lendContext stackfulSucc) lendPrepared 0 None None True (SyncSide (nextId lendHost))"
  have X: "factCaller ?X = factCaller (factInput (lendContext succCore) lendPrepared 0 None None True (SyncSide 1))"
    by (rule factCaller_cong) (simp_all add: factInput_def lendContext_def succContext_def lend_context)
  have f: "calleeIs ?X succLanes"
    unfolding calleeIs_def X
  proof
    fix xs
    show "\<exists>r M. if \<not> fi_asyncAbi ?X then rawValues r = succLanes xs \<and> (\<forall>g. calleeEntry ?X xs g = (Inr (Returned r), g\<lparr>mems := M g\<rparr>))
      else rawValues r = (if fi_callback ?X = None then [] else [VNum 0]) \<and>
        (\<forall>g. calleeEntry ?X xs g =
         (case bindM currentTask (\<lambda>k. taskReturn (factCaller (factInput (lendContext succCore) lendPrepared 0 None None True (SyncSide 1))) k
              (succLanes xs)) (g\<lparr>mems := M g\<rparr>) of
            (Inl e, g1) \<Rightarrow> (Inl (Thrown e), g1) | (Inr _, g1) \<Rightarrow> (Inr (Returned r), g1)))"
      by (rule exI [of _ "RawArray []"], rule exI [of _ mems])
        (simp add: calleeEntry_def factInput_def lendContext_def succContext_def stackfulSucc_def rawValues_def)
  qed
  show ?thesis
    using fused_sync_call [OF lend_context(6,4), unfolded lend_context(1-3), OF lends_ok copy_ok f lend_ready, of quietCode]
    by (simp add: lend_context succLanes_def shapeResults_def)
qed

text \<open>C10: A fused asynchronous call whose callee is admitted at once and resolves in its first activation answers RETURNED at once:
  the preparation is taken, the subtask gets no handle, and every handle the start adapter lent to it, any list \<open>L\<close> of the caller's,
  as borrows of resources the callee implements, is given back exactly once, so that the counts of lends are as they were and the subtask's
  lenders are released.  The caller's and callee's tables, the gates, backpressure and the counts of waiting tasks, and the stores are
  as they were before the call.  The conditions are those of the synchronous form: but for the lending, the adapters, the callee and its
  post-return change nothing but memory.\<close>

theorem fused_async_call:
  fixes h :: "'g facts_scheme" and F :: "('g facts_scheme) FactContext"
  assumes "prepared h = Some p" "factCallback F cbi = Inr cb" "factCallback F pri = Inr pr"
    "lendingAdapterIs h (fc_adapter F (pc_start p)) (startParams p) xs L" "adapterIs (fc_adapter F (pc_return p)) \<psi>"
    "calleeIs (factInput F p c cb pr (and flags START_FLAG_ASYNC_CALLEE \<noteq> 0) (AsyncSide (nextId h))) f"
    "postReturnIs (factInput F p c cb pr (and flags START_FLAG_ASYNC_CALLEE \<noteq> 0) (AsyncSide (nextId h)))" "readyCallee p h"
  shows "\<exists>h'. createAsyncStartCall F C cbi pri (FactFunc c) flags h = (Inr (BReturn (VNum (int (subtaskStateNum RETURNED)))), h') \<and>
    prepared h' = None \<and> undisturbed (pc_calleeInst p) h h' \<and>
    st_state (subtasks h' (nextId h)) = RETURNED \<and> lenders (subtasks h' (nextId h)) = None"
  by (rule fused_async [OF assms])

theorem fused_async_call_witness:
  "\<exists>h'. createAsyncStartCall (lendContext succCore) quietCode None None (FactFunc 0) 0 lendHost = (Inr (BReturn (VNum 2)), h') \<and>
    prepared h' = None \<and> undisturbed 2 lendHost h' \<and> st_state (subtasks h' 1) = RETURNED \<and> lenders (subtasks h' 1) = None"
proof -
  let ?X = "factInput (lendContext (succCore :: facts CoreFn)) lendPrepared 0 None None (and 0 START_FLAG_ASYNC_CALLEE \<noteq> 0) (AsyncSide (nextId lendHost))"
  have f: "calleeIs ?X succLanes"
    unfolding calleeIs_def
  proof
    fix xs
    let ?r = "case xs of [VNum n] \<Rightarrow> RawValue (VNum ((n + 1) mod 2 ^ 32)) | _ \<Rightarrow> RawUndefined"
    have "rawValues ?r = succLanes xs" by (auto simp: succLanes_def rawValues_def split: list.splits JsVal.splits)
    then show "\<exists>r M. if \<not> fi_asyncAbi ?X then rawValues r = succLanes xs \<and> (\<forall>g. calleeEntry ?X xs g = (Inr (Returned r), g\<lparr>mems := M g\<rparr>))
      else rawValues r = (if fi_callback ?X = None then [] else [VNum 0]) \<and>
        (\<forall>g. calleeEntry ?X xs g =
         (case bindM currentTask (\<lambda>k. taskReturn (factCaller ?X) k (succLanes xs)) (g\<lparr>mems := M g\<rparr>) of
            (Inl e, g1) \<Rightarrow> (Inl (Thrown e), g1) | (Inr _, g1) \<Rightarrow> (Inr (Returned r), g1)))"
      by (intro exI [of _ ?r] exI [of _ mems]) (simp add: calleeEntry_def factInput_def lendContext_def succContext_def succCore_def)
  qed
  have pr: "postReturnIs ?X" by (simp add: postReturnIs_def factInput_def)
  have n: "int (subtaskStateNum RETURNED) = 2" by code_simp
  show ?thesis
    using fused_async_call [OF lend_context(6,4,4), unfolded lend_context(1-3), OF lends_ok copy_ok f pr lend_ready, of quietCode]
    by (simp add: n lend_context)
qed

section \<open>Lent handles\<close>

text \<open>C7: Whatever the order of brackets, transfers, fused calls and deliveries, and whichever of them throw: a handle's
  \<open>numLends\<close> is the number of times it stands in a list of lenders, over every subtask and scope allocated so far.\<close>

theorem lend_ledger:
  assumes "lendHistory h0 h" "ledger h0"
  shows "numLends (resources h r) = (\<Sum>n < nextId h. lentBy h r n)"
  using lends_ledger [OF assms] by (rule ledgerD(1))

text \<open>Component 1 creates a resource and lends its handle to component 2 in a bracket.\<close>

lemma fact_ledger: "ledger factHost"
proof -
  have "subtasks factHost s = newSubtask" "scopeLenders factHost n = []" "handles factHost i = emptyTable"
    "callScopes factHost t = []" "contextScopes factHost = []" "factStartScopes factHost = []"
    "numLends (resources factHost r) = 0" for r s n i t
    by (simp_all add: factHost_def emptyHost_def emptySched_def hostsched.defs facts.defs sched.defs heap.defs emptyHeap_def newInstance_def newRoot_def newSubtask_def)
  then show ?thesis
    by (simp add: ledger_def allocated_def lend_view newSubtask_def emptyTable_def)
qed

lemma fact_fields:
  "mayLeave factHost i = True" "nextId factHost = 0" "handles factHost i = emptyTable" "callScopes factHost i = []" "contextScopes factHost = []"
  "factStartScopes factHost = []" "maybeCurrentThread factHost = None" "mayEnterFrom 2 (Some 1) factHost = True" "rtImpl factHost i = None"
  by (code_simp | simp add: factHost_def emptyHost_def emptySched_def hostsched.defs facts.defs sched.defs heap.defs emptyHeap_def newInstance_def newRoot_def)+

lemma lent_tables: "tableAdd e emptyTable = (Inr 1, \<lparr>arr = [None, Some e], free = []\<rparr>)"
  by (simp add: tableAdd_def emptyTable_def MAX_LENGTH_def Let_def)

definition madeHost :: facts where
  "madeHost = factHost\<lparr>nextId := 1,
     resources := (resources factHost)(0 := \<lparr>rh_rt = 5, rh_rep = VNum 7, rh_own = True, rh_scope = None, numLends = 0\<rparr>),
     handles := (handles factHost)(1 := \<lparr>arr = [None, Some (EResource 0)], free = []\<rparr>)\<rparr>"

definition openHost :: facts where
  "openHost = madeHost\<lparr>enterSyncCalls := enterSyncCalls madeHost + 1, nextId := 2, taskBorrows := (taskBorrows madeHost)(1 := 0),
     scopeLenders := (scopeLenders madeHost)(1 := []), contextScopes := [1]\<rparr>"

lemma made: "canonResourceNew 1 5 (VNum 7) factHost = (Inr 1, madeHost)"
  by (simp add: canonResourceNew_def newResource_def freshId_def run_simps bindM_def onTable_def fact_fields lent_tables madeHost_def)

lemma opened: "enterSyncCall (Some 1) (Some 2) madeHost = (Inr (), openHost)"
proof -
  have "mayEnterFrom 2 (Some 1) madeHost = mayEnterFrom 2 (Some 1) factHost"
    by (simp add: madeHost_def mayEnterFrom_def enteringSet_def selfAndAncestors_def Let_def)
  moreover have "maybeCurrentThread (madeHost\<lparr>enterSyncCalls := c, nextId := n, taskBorrows := b, scopeLenders := l\<rparr>) = maybeCurrentThread factHost" for c n b l
    by (simp add: madeHost_def maybeCurrentThread_def resolveAmbient_def split: option.splits)
  ultimately show ?thesis
    by (simp add: enterSyncCall_def run_simps freshId_def bindM_def getScopes_def putScopes_def fact_fields openHost_def)
       (simp add: madeHost_def fact_fields [simplified])
qed

definition lentHost :: facts where
  "lentHost = openHost\<lparr>resources := (resources openHost)(0 := (resources openHost 0)\<lparr>numLends := 1\<rparr>,
       2 := \<lparr>rh_rt = 5, rh_rep = VNum 7, rh_own = False, rh_scope = Some 1, numLends = 0\<rparr>),
     scopeLenders := (scopeLenders openHost)(1 := [0]), taskBorrows := (taskBorrows openHost)(1 := 1), nextId := 3,
     handles := (handles openHost)(2 := \<lparr>arr = [None, Some (EResource 2)], free = []\<rparr>)\<rparr>"

lemma borrowed: "transferBorrow 1 1 5 2 5 openHost = (Inr (VNum 1), lentHost)"
proof -
  have 1: "borrowScopeOf openHost = Some (1, OfScope 1)"
  proof -
    have "maybeCurrentThread openHost = maybeCurrentThread factHost"
      by (simp add: openHost_def madeHost_def maybeCurrentThread_def resolveAmbient_def split: option.splits)
    then show ?thesis by (simp add: borrowScopeOf_def getScopes_def fact_fields) (simp add: openHost_def madeHost_def fact_fields)
  qed
  have 2: "handlesGet 1 1 openHost = (Inr (EResource 0), openHost)"
    by (simp add: handlesGet_def openHost_def madeHost_def tableGet_def run_simps)
  have 3: "resources openHost 0 = \<lparr>rh_rt = 5, rh_rep = VNum 7, rh_own = True, rh_scope = None, numLends = 0\<rparr>" "rtImpl openHost i = None"
    "handles openHost 2 = emptyTable" "nextId openHost = 2" "taskBorrows openHost 1 = 0" "scopeLenders openHost 1 = []" for i
    by (simp_all add: openHost_def madeHost_def fact_fields)
  show ?thesis
    using 3 by (simp add: transferBorrow_def run_simps 1 2 [unfolded One_nat_def] lendTo_def scopeAddLender_def addLends_def
      newResource_def freshId_def bindM_def onTable_def lent_tables lentHost_def)
qed

lemma lent_history: "lendHistory factHost lentHost"
proof -
  have "lendHistory factHost (snd (transferBorrow 1 1 5 2 5 (snd (enterSyncCall (Some 1) (Some 2) (snd (canonResourceNew 1 5 (VNum 7) factHost))))))"
    by (intro lendHistory.intros)
  then show ?thesis by (simp add: made opened borrowed del: One_nat_def)
qed

theorem lend_ledger_witness:
  "(\<Sum>n < nextId lentHost. lentBy lentHost 0 n) = 1 \<and> numLends (resources lentHost 0) = 1"
proof -
  have "numLends (resources lentHost 0) = 1" by (simp add: lentHost_def)
  then show ?thesis using lend_ledger [OF lent_history fact_ledger, of 0] by simp
qed

text \<open>C18: As long as a handle stands in a list of lenders, on whatever subtask or scope, nothing gets it out of its component:
  \<open>resource.drop\<close>, the transfer of ownership by a fused adapter and the lifting of it as an owned argument all trap.  The states are
  those of the histories of the ledger: brackets, fused calls, lends, deliveries, transfers, lifts and drops of handles, destructors
  and any steps of other code included, in any order, whichever of them throw.\<close>

theorem lent_handle_stays:
  assumes "lendHistory h0 h" "ledger h0" "lender h r" "tableGet i (handles h ins) = Inr (EResource r)" "inst cx = Some ins"
  shows "\<exists>m m' m''. fst (canonResourceDrop D ins rt i h) = Inl (Trap m) \<and> fst (transferOwn i ins srcRt dst dstRt h) = Inl (Trap m') \<and>
    fst (liftOwn cx i rt h) = Inl (Trap m'')"
proof -
  have n: "numLends (resources h r) \<noteq> 0" using lends_iff [OF lends_ledger [OF assms(1,2)], of r] assms(3) by linarith
  obtain tb where t: "tableRemove i (handles h ins) = (Inr (EResource r), tb)"
    using assms(4) by (auto simp: tableRemove_def tableGet_Ok)
  have "\<exists>m. fst (canonResourceDrop D ins rt i h) = Inl (Trap m)"
    using n t by (cases "mayLeave h ins"; cases "rh_rt (resources h r) = rt")
      (simp_all add: canonResourceDrop_def run_simps onTable_def bindM_def asResource_def)
  moreover have "\<exists>m. fst (transferOwn i ins srcRt dst dstRt h) = Inl (Trap m)"
    using n t by (cases "rh_rt (resources h r) = srcRt") (simp_all add: transferOwn_def run_simps onTable_def bindM_def)
  moreover have "\<exists>m. fst (liftOwn cx i rt h) = Inl (Trap m)"
    using n t assms(5) by (cases "rh_rt (resources h r) = rt") (simp_all add: liftOwn_def requireInst_def run_simps onTable_def bindM_def asResource_def)
  ultimately show ?thesis by blast
qed

definition lentContext :: "facts Context" where
  "lentContext = \<lparr>opts = \<lparr>stringEncoding = Utf8, memory = None, realloc = None\<rparr>, inst = Some 1, borrowScope = None, platformLE = True\<rparr>"

theorem lent_handle_stays_witness:
  "lender lentHost 0 \<and> (\<exists>m m' m''. fst (canonResourceDrop (\<lambda>_. None) 1 5 1 lentHost) = Inl (Trap m) \<and>
    fst (transferOwn 1 1 5 2 5 lentHost) = Inl (Trap m') \<and> fst (liftOwn lentContext 1 5 lentHost) = Inl (Trap m''))"
proof -
  have "scopeLenders lentHost 1 = [0]" by (simp add: lentHost_def)
  then have l: "lender lentHost 0" unfolding lender_def by (metis list.set_intros(1))
  have g: "tableGet 1 (handles lentHost 1) = Inr (EResource 0)" by (simp add: lentHost_def openHost_def madeHost_def tableGet_def)
  have c: "inst lentContext = Some 1" by (simp add: lentContext_def)
  show ?thesis using lent_handle_stays [OF lent_history fact_ledger l g c] l by blast
qed

end
