(* ===== verification/HostValues.thy ===== *)
theory HostValues
  imports RoundTrip Resources
begin

text \<open>
  The values of the embedder's conventions and the adaptation between them and the values of the raw boundary
  (\<open>runtime/src/embedder/casing.ts\<close>, \<open>runtime/src/embedder/values.ts\<close>).

  A host value is a value of the conventions side: a plain object is its list of own properties, a class instance that is
  only passed on (a resource, a stream, a future) the identity the bridge gave it.  Of what objects inherit, the functions of
  \<open>Object.prototype\<close> are modelled, since a label can be spelled like one of them; what arrays, byte arrays and class
  instances inherit beyond it is not.  Labels are ASCII, as in WIT.  \<open>ValueBridge\<close> and the constructors of stream and
  future handles are parameters.  The set of types whose labels have been checked is a cache of successes, so a check is
  repeated here with the same answer.  Messages stop where they would describe the value.
\<close>

section \<open>Names\<close>

text \<open>\<open>split\<close> at a character.\<close>

fun splitOn :: "char \<Rightarrow> string \<Rightarrow> string list" where
  "splitOn d [] = [[]]"
| "splitOn d (c # cs) =
     (if c = d then [] # splitOn d cs
      else (case splitOn d cs of p # ps \<Rightarrow> (c # p) # ps | [] \<Rightarrow> [[c]]))"

definition upperChar :: "char \<Rightarrow> char" where
  "upperChar c = (let n = of_char c :: nat in if 97 \<le> n \<and> n \<le> 122 then char_of (n - 32) else c)"

definition upperFirst :: "string \<Rightarrow> string" where
  "upperFirst s = (case s of [] \<Rightarrow> s | c # cs \<Rightarrow> upperChar c # cs)"

definition camelCase :: "string \<Rightarrow> string" where
  "camelCase label = (case splitOn (CHR ''-'') label of p # ps \<Rightarrow> p @ concat (map upperFirst ps) | [] \<Rightarrow> [])"

definition pascalCase :: "string \<Rightarrow> string" where
  "pascalCase label = concat (map upperFirst (splitOn (CHR ''-'') label))"

datatype LeafName = LeafPlain string | LeafConstructor string | LeafMethod string string | LeafStatic string string

text \<open>The expression \<open>MANGLED\<close>: a tag of lower-case letters and dashes in brackets, then a rest without line terminator.\<close>

definition tagChar :: "char \<Rightarrow> bool" where
  "tagChar c \<longleftrightarrow> c = CHR ''-'' \<or> (let n = of_char c :: nat in 97 \<le> n \<and> n \<le> 122)"

definition lineEnd :: "char \<Rightarrow> bool" where
  "lineEnd c \<longleftrightarrow> c = CHR 0x0A \<or> c = CHR 0x0D"

definition mangled :: "string \<Rightarrow> (string \<times> string) option" where
  "mangled raw =
     (case raw of
        [] \<Rightarrow> None
      | c # r \<Rightarrow>
          (let tag = takeWhile tagChar r in
           case dropWhile tagChar r of
             [] \<Rightarrow> None
           | d # rest \<Rightarrow>
               if c = CHR ''['' \<and> tag \<noteq> [] \<and> d = CHR '']'' \<and> \<not> list_ex lineEnd rest then Some (tag, rest) else None))"

text \<open>\<open>rest.slice(0, dot)\<close> and \<open>rest.slice(dot + 1)\<close> at the first dot, when there is one.\<close>

definition splitDot :: "string \<Rightarrow> (string \<times> string) option" where
  "splitDot rest =
     (case dropWhile (\<lambda>c. c \<noteq> CHR ''.'') rest of
        [] \<Rightarrow> None
      | _ # member \<Rightarrow> Some (takeWhile (\<lambda>c. c \<noteq> CHR ''.'') rest, member))"

definition parseLeafName :: "string \<Rightarrow> LeafName" where
  "parseLeafName raw =
     (case mangled raw of
        None \<Rightarrow> LeafPlain raw
      | Some (tag, rest) \<Rightarrow>
          if tag = ''constructor'' then LeafConstructor rest
          else if tag = ''method'' \<or> tag = ''static'' then
            (case splitDot rest of
               None \<Rightarrow> LeafPlain raw
             | Some (res, member) \<Rightarrow> if tag = ''method'' then LeafMethod res member else LeafStatic res member)
          else LeafPlain raw)"

section \<open>Host values\<close>

datatype HostVal =
    HUndef
  | HNull
  | HBool bool
  | HNum int
  | HFlt "64 word"
  | HBig int
  | HStr "16 word list"
  | HBytes "8 word list"
  | HArr "HostVal list"
  | HObj "(string \<times> HostVal) list"
  | HFun
  | HHandle nat
  | HErrorContext JsVal
  | HInternalError nat
  | HForeignError nat
  | HShared nat

text \<open>A string of ASCII characters as a JavaScript string.\<close>

definition jsStr :: "string \<Rightarrow> 16 word list" where
  "jsStr s = map (\<lambda>c. word_of_nat (of_char c)) s"

text \<open>A value of the raw boundary handed on as it is.\<close>

primrec asHost :: "JsVal \<Rightarrow> HostVal" where
  "asHost VUndef = HUndef"
| "asHost VNull = HNull"
| "asHost (VBool b) = HBool b"
| "asHost (VNum i) = HNum i"
| "asHost (VFlt w) = HFlt w"
| "asHost (VBig i) = HBig i"
| "asHost (VStr s) = HStr s"
| "asHost (VBytes bs) = HBytes bs"
| "asHost (VArr xs) = HArr (map asHost xs)"
| "asHost (VObj ps) = HObj (map (map_prod id asHost) ps)"
| "asHost (VShared n) = HShared n"
| "asHost (VErrorContext n) = HInternalError n"

section \<open>The language operations on host values\<close>

definition OBJECT_PROTOTYPE :: "string list" where
  "OBJECT_PROTOTYPE =
     [''constructor'', ''hasOwnProperty'', ''isPrototypeOf'', ''propertyIsEnumerable'', ''toLocaleString'', ''toString'', ''valueOf'']"

text \<open>\<open>v !== null && typeof v === "object"\<close>.\<close>

definition isObject :: "HostVal \<Rightarrow> bool" where
  "isObject v =
     (case v of HBytes _ \<Rightarrow> True | HArr _ \<Rightarrow> True | HObj _ \<Rightarrow> True | HHandle _ \<Rightarrow> True | HErrorContext _ \<Rightarrow> True
      | HInternalError _ \<Rightarrow> True | HForeignError _ \<Rightarrow> True | HShared _ \<Rightarrow> True | _ \<Rightarrow> False)"

definition ownProps :: "HostVal \<Rightarrow> (string \<times> HostVal) list" where
  "ownProps v =
     (case v of
        HObj ps \<Rightarrow> ps
      | HArr xs \<Rightarrow> zip (map showNat [0..<length xs]) xs
      | HBytes bs \<Rightarrow> zip (map showNat [0..<length bs]) (map (\<lambda>b. HNum (uint b)) bs)
      | _ \<Rightarrow> [])"

definition lengthOf :: "HostVal \<Rightarrow> int option" where
  "lengthOf v = (case v of HArr xs \<Rightarrow> Some (int (length xs)) | HBytes bs \<Rightarrow> Some (int (length bs)) | _ \<Rightarrow> None)"

text \<open>\<open>key in v\<close> and \<open>v[key]\<close> for an object \<open>v\<close>.\<close>

definition hasProp :: "HostVal \<Rightarrow> string \<Rightarrow> bool" where
  "hasProp v key \<longleftrightarrow>
     key \<in> fst ` set (ownProps v) \<or> (key = ''length'' \<and> lengthOf v \<noteq> None) \<or> key \<in> set OBJECT_PROTOTYPE"

definition getProp :: "HostVal \<Rightarrow> string \<Rightarrow> HostVal" where
  "getProp v key =
     (case map_of (ownProps v) key of
        Some x \<Rightarrow> x
      | None \<Rightarrow>
          (case lengthOf v of
             Some n \<Rightarrow> if key = ''length'' then HNum n else if key \<in> set OBJECT_PROTOTYPE then HFun else HUndef
           | None \<Rightarrow> if key \<in> set OBJECT_PROTOTYPE then HFun else HUndef))"

definition hostTruthy :: "HostVal \<Rightarrow> bool" where
  "hostTruthy v =
     (case v of
        HUndef \<Rightarrow> False | HNull \<Rightarrow> False | HBool b \<Rightarrow> b | HNum i \<Rightarrow> i \<noteq> 0
      | HFlt w \<Rightarrow> \<not> f64IsNan w \<and> unat w mod 2 ^ 63 \<noteq> 0
      | HBig i \<Rightarrow> i \<noteq> 0 | HStr u \<Rightarrow> u \<noteq> []
      | _ \<Rightarrow> True)"

text \<open>The Number of a host value, with its integral value when it has one.\<close>

definition hostNumber :: "HostVal \<Rightarrow> JsVal option" where
  "hostNumber v = (case v of HNum i \<Rightarrow> Some (VNum i) | HFlt w \<Rightarrow> Some (VFlt w) | _ \<Rightarrow> None)"

text \<open>
  An element of \<open>Uint8Array.from\<close>: \<open>ToNumber\<close>, truncated, modulo 256.  The conversion of a string or an object
  (which may throw or run user code) is not modelled and gives 0, as NaN does.
\<close>

definition toByte :: "HostVal \<Rightarrow> 8 word" where
  "toByte v =
     (case v of HNum i \<Rightarrow> word_of_int i | HFlt w \<Rightarrow> word_of_int (f64Trunc w) | HBool b \<Rightarrow> (if b then 1 else 0) | _ \<Rightarrow> 0)"

text \<open>\<open>key in v\<close> for a value of the raw boundary; anything but an object throws.\<close>

definition rawHas :: "JsVal \<Rightarrow> string \<Rightarrow> bool result" where
  "rawHas v key =
     (case v of
        VObj ps \<Rightarrow> Ok (key \<in> fst ` set ps \<or> key \<in> set OBJECT_PROTOTYPE)
      | VArr _ \<Rightarrow> Ok (key \<in> fst ` set (js_props v) \<or> key \<in> set OBJECT_PROTOTYPE)
      | VBytes _ \<Rightarrow> Ok (key \<in> fst ` set (js_props v) \<or> key \<in> set OBJECT_PROTOTYPE)
      | VShared _ \<Rightarrow> Ok (key \<in> set OBJECT_PROTOTYPE)
      | VErrorContext _ \<Rightarrow> Ok (key \<in> set OBJECT_PROTOTYPE)
      | _ \<Rightarrow> Err (JsError ''TypeError''))"

fun forM :: "('a \<Rightarrow> ('s, 'b) sm) \<Rightarrow> 'a list \<Rightarrow> ('s, 'b list) sm" where
  "forM f [] = returnM []"
| "forM f (x # xs) = bindM (f x) (\<lambda>y. bindM (forM f xs) (\<lambda>ys. returnM (y # ys)))"

lemma forM_cong [fundef_cong]:
  assumes "xs = ys" "\<And>x. x \<in> set ys \<Longrightarrow> f x = g x"
  shows "forM f xs = forM g ys"
  using assms by (induction ys arbitrary: xs) auto

section \<open>The adapter\<close>

text \<open>\<open>AdapterOptions\<close>: the bridge, with resource types by their index and a borrow scope by its identity.\<close>

record 's Adapter =
  liftOwnB :: "JsVal \<Rightarrow> nat \<Rightarrow> ('s, HostVal) sm"
  liftBorrowB :: "JsVal \<Rightarrow> nat \<Rightarrow> nat \<Rightarrow> ('s, HostVal) sm"
  lowerOwnB :: "HostVal \<Rightarrow> nat \<Rightarrow> ('s, JsVal) sm"
  lowerBorrowB :: "HostVal \<Rightarrow> nat \<Rightarrow> ('s, JsVal) sm"
  liftStreamB :: "JsVal \<Rightarrow> ValType option \<Rightarrow> ('s, HostVal) sm"
  liftFutureB :: "JsVal \<Rightarrow> ValType option \<Rightarrow> ('s, HostVal) sm"
  lowerStreamB :: "HostVal \<Rightarrow> ValType option \<Rightarrow> ('s, JsVal) sm"
  lowerFutureB :: "HostVal \<Rightarrow> ValType option \<Rightarrow> ('s, JsVal) sm"
  ad_where :: string

definition typeError :: "'s Adapter \<Rightarrow> string \<Rightarrow> error" where
  "typeError A msg = JsError (''TypeError: '' @ ad_where A @ '': '' @ msg)"

fun collision :: "string list \<Rightarrow> (string \<times> string) list \<Rightarrow> (string \<times> string) option" where
  "collision [] seen = None"
| "collision (l # ls) seen =
     (case map_of seen (camelCase l) of
        Some held \<Rightarrow> Some (held, l)
      | None \<Rightarrow> collision ls ((camelCase l, l) # seen))"

definition checkNoCollisions :: "string list \<Rightarrow> string \<Rightarrow> unit result" where
  "checkNoCollisions labels what =
     (case collision labels [] of
        None \<Rightarrow> Ok ()
      | Some (held, l) \<Rightarrow>
          Err (JsError (''NameCollisionError: '' @ what @ '': the labels '' @ held @ '' and '' @ l @ '' both map to the JS name '' @ camelCase l)))"

definition single :: "'s Adapter \<Rightarrow> JsVal \<Rightarrow> (string \<times> JsVal) result" where
  "single A v =
     (case v of
        VObj ps \<Rightarrow>
          (case ps of [p] \<Rightarrow> Ok p
           | _ \<Rightarrow> Err (typeError A (''expected exactly one case key, got '' @ showNat (length ps))))
      | VBytes bs \<Rightarrow>
          (case js_props v of [p] \<Rightarrow> Ok p
           | _ \<Rightarrow> Err (typeError A (''expected exactly one case key, got '' @ showNat (length bs))))
      | VShared _ \<Rightarrow> Err (typeError A ''expected exactly one case key'')
      | VErrorContext _ \<Rightarrow> Err (typeError A ''expected exactly one case key'')
      | _ \<Rightarrow> Err (typeError A ''expected a single-key case object''))"

text \<open>\<open>{ kind, value? }\<close>: the kind, with the value when there is one.\<close>

definition tagged :: "'s Adapter \<Rightarrow> HostVal \<Rightarrow> (16 word list \<times> HostVal option) result" where
  "tagged A v =
     (if \<not> isObject v \<or> \<not> hasProp v ''kind'' then Err (typeError A ''expected a { kind, value? } value'')
      else case getProp v ''kind'' of
        HStr k \<Rightarrow> Ok (k, if hasProp v ''value'' then Some (getProp v ''value'') else None)
      | _ \<Rightarrow> Err (typeError A ''kind must be a string''))"

definition intIn :: "'s Adapter \<Rightarrow> HostVal \<Rightarrow> int \<Rightarrow> int \<Rightarrow> JsVal result" where
  "intIn A v lo hi =
     (case hostNumber v of
        None \<Rightarrow> Err (typeError A ''expects an integer number'')
      | Some x \<Rightarrow>
          (case js_int x of
             None \<Rightarrow> Err (typeError A ''expects an integer number'')
           | Some n \<Rightarrow> if n < lo \<or> n > hi then Err (typeError A ''out of range'') else Ok x))"

definition bigIn :: "'s Adapter \<Rightarrow> HostVal \<Rightarrow> int \<Rightarrow> int \<Rightarrow> JsVal result" where
  "bigIn A v lo hi =
     (case v of
        HBig n \<Rightarrow> if n < lo \<or> n > hi then Err (typeError A ''out of range'') else Ok (VBig n)
      | _ \<Rightarrow> Err (typeError A ''expects a bigint''))"

text \<open>A char: one code point, and not a lone surrogate.\<close>

definition charIn :: "'s Adapter \<Rightarrow> HostVal \<Rightarrow> JsVal result" where
  "charIn A v =
     (case v of
        HStr u \<Rightarrow>
          (case codePointAt0 u of
             None \<Rightarrow> Err (typeError A ''char expects a single-code-point string'')
           | Some cp \<Rightarrow>
               if length u \<noteq> (if cp > 0xffff then 2 else 1) then Err (typeError A ''char expects a single-code-point string'')
               else if 0xd800 \<le> cp \<and> cp \<le> 0xdfff then Err (typeError A ''char expects a Unicode scalar value'')
               else Ok (VStr u))
      | _ \<Rightarrow> Err (typeError A ''char expects a single-code-point string''))"

fun primIn :: "'s Adapter \<Rightarrow> PrimKind \<Rightarrow> HostVal \<Rightarrow> JsVal result" where
  "primIn A KBool v = Ok (VBool (hostTruthy v))"
| "primIn A KU8 v = intIn A v 0 0xff"
| "primIn A KU16 v = intIn A v 0 0xffff"
| "primIn A KU32 v = intIn A v 0 0xffffffff"
| "primIn A KS8 v = intIn A v (- 0x80) 0x7f"
| "primIn A KS16 v = intIn A v (- 0x8000) 0x7fff"
| "primIn A KS32 v = intIn A v (- 0x80000000) 0x7fffffff"
| "primIn A KU64 v = bigIn A v 0 (2 ^ 64 - 1)"
| "primIn A KS64 v = bigIn A v (- (2 ^ 63)) (2 ^ 63 - 1)"
| "primIn A KF32 v = (case hostNumber v of None \<Rightarrow> Err (typeError A ''f32 expects a number'') | Some x \<Rightarrow> Ok x)"
| "primIn A KF64 v = (case hostNumber v of None \<Rightarrow> Err (typeError A ''f64 expects a number'') | Some x \<Rightarrow> Ok x)"
| "primIn A KChar v = charIn A v"
| "primIn A KString v = (case v of HStr u \<Rightarrow> Ok (VStr u) | _ \<Rightarrow> Err (typeError A ''string expects a string''))"

text \<open>\<open>find\<close> over the cases of a variant.\<close>

definition caseOf :: "CaseType list \<Rightarrow> (string \<Rightarrow> bool) \<Rightarrow> CaseType option" where
  "caseOf cs p = find (\<lambda>c. p (fst c)) cs"

text \<open>The field's type is an option of this type.\<close>

definition optionPayload :: "ValType \<Rightarrow> ValType option" where
  "optionPayload t = (case t of TOption u \<Rightarrow> Some u | _ \<Rightarrow> None)"

lemma part_sizes:
  "(l, t) \<in> set fs \<Longrightarrow> tsize t < tsize (TRecord fs)"
  "(l, t) \<in> set fs \<Longrightarrow> optionPayload t = Some u \<Longrightarrow> tsize u < tsize (TRecord fs)"
  "(l, t) \<in> set (indexFields i es) \<Longrightarrow> tsize t < tsize (TTuple es)"
  "((l, t), x) \<in> set (zip (indexFields i es) xs) \<Longrightarrow> tsize t < tsize (TTuple es)"
  "caseOf cs p = Some (l, Some u) \<Longrightarrow> tsize u < tsize (TVariant cs)"
proof -
  show 1: "(l, t) \<in> set fs \<Longrightarrow> tsize t < tsize (TRecord fs)" using tsize_field [of "(l, t)" fs] by (simp flip: fsize_def)
  show "(l, t) \<in> set fs \<Longrightarrow> optionPayload t = Some u \<Longrightarrow> tsize u < tsize (TRecord fs)"
    using 1 by (cases t) (auto simp: optionPayload_def)
  show 2: "(l, t) \<in> set (indexFields i es) \<Longrightarrow> tsize t < tsize (TTuple es)"
    by (induction es arbitrary: i) force+
  show "((l, t), x) \<in> set (zip (indexFields i es) xs) \<Longrightarrow> tsize t < tsize (TTuple es)"
    using 2 by (blast dest: set_zip_leftD)
  show "caseOf cs p = Some (l, Some u) \<Longrightarrow> tsize u < tsize (TVariant cs)"
    using tsize_case [of "(l, Some u)" cs u] by (auto simp: caseOf_def find_Some_iff simp flip: csize_def)
qed

lemma entry_size: "tsize (TRecord [(a, k), (b, u)]) < 4 + (tsize k + tsize u)"
  by simp

section \<open>From the raw boundary to the host\<close>

text \<open>
  \<open>inOption\<close> is set only under an option's payload: the outermost option of a chain is the value or \<open>undefined\<close>, an option
  directly inside another is boxed.  A record's \<open>none\<close> field is absent.
\<close>

function toHost :: "'s Adapter \<Rightarrow> nat \<Rightarrow> bool \<Rightarrow> ValType \<Rightarrow> JsVal \<Rightarrow> ('s, HostVal) sm" where
  "toHost A sc b (TPrim k) v = returnM (asHost v)"
| "toHost A sc b TErrorContext v = returnM (HErrorContext v)"
| "toHost A sc b (TList e n) v =
     (if despecialize e = TPrim KU8 then
        (case v of
           VBytes bs \<Rightarrow> returnM (HBytes bs)
         | VArr xs \<Rightarrow> returnM (HBytes (map (\<lambda>x. toByte (asHost x)) xs))
         | _ \<Rightarrow> throwM (JsError ''TypeError''))
      else
        (case v of
           VArr xs \<Rightarrow> bindM (forM (toHost A sc False e) xs) (\<lambda>ys. returnM (HArr ys))
         | _ \<Rightarrow> throwM (JsError ''TypeError'')))"
| "toHost A sc b (TRecord fs) v =
     bindM (liftR (checkNoCollisions (map fst fs) (ad_where A @ '': record''))) (\<lambda>_.
     bindM (forM (\<lambda>f.
       bindM (liftR (js_get v (fst f))) (\<lambda>x.
       case optionPayload (snd f) of
         Some u \<Rightarrow>
           bindM (liftR (rawHas x ''none'')) (\<lambda>none.
           if none then returnM []
           else
             bindM (liftR (js_get x ''some'')) (\<lambda>y.
             bindM (toHost A sc True u y) (\<lambda>w. returnM [(camelCase (fst f), w)])))
       | None \<Rightarrow> bindM (toHost A sc False (snd f) x) (\<lambda>w. returnM [(camelCase (fst f), w)]))) fs) (\<lambda>ps.
     returnM (HObj (concat ps))))"
| "toHost A sc b (TTuple es) v =
     bindM (forM (\<lambda>f. bindM (liftR (js_get v (fst f))) (\<lambda>x. toHost A sc False (snd f) x)) (indexFields 0 es)) (\<lambda>ys.
     returnM (HArr ys))"
| "toHost A sc b (TVariant cs) v =
     bindM (liftR (single A v)) (\<lambda>(label, payload).
     case caseOf cs (\<lambda>l. l = label) of
       None \<Rightarrow> throwM (typeError A (''unknown variant case '' @ label))
     | Some c \<Rightarrow>
         (case snd c of
            None \<Rightarrow> returnM (HObj [(''kind'', HStr (jsStr label))])
          | Some u \<Rightarrow>
              bindM (toHost A sc False u payload) (\<lambda>w.
              returnM (HObj [(''kind'', HStr (jsStr label)), (''value'', w)]))))"
| "toHost A sc b (TEnum ls) v =
     bindM (liftR (single A v)) (\<lambda>(label, payload). returnM (HStr (jsStr label)))"
| "toHost A sc b (TOption t) v =
     bindM (liftR (single A v)) (\<lambda>(label, payload).
     if b then
       (if label = ''none'' then returnM (HObj [(''kind'', HStr (jsStr ''none''))])
        else
          bindM (toHost A sc True t payload) (\<lambda>w.
          returnM (HObj [(''kind'', HStr (jsStr ''some'')), (''value'', w)])))
     else if label = ''none'' then returnM HUndef
     else toHost A sc True t payload)"
| "toHost A sc b (TResult okt er) v =
     bindM (liftR (single A v)) (\<lambda>(label, payload).
     let kind = (if label = ''error'' then ''err'' else ''ok'') in
     case (if label = ''error'' then er else okt) of
       None \<Rightarrow> returnM (HObj [(''kind'', HStr (jsStr kind))])
     | Some u \<Rightarrow>
         bindM (toHost A sc False u payload) (\<lambda>w.
         returnM (HObj [(''kind'', HStr (jsStr kind)), (''value'', w)])))"
| "toHost A sc b (TFlags ls) v =
     bindM (liftR (checkNoCollisions ls (ad_where A @ '': flags''))) (\<lambda>_.
     bindM (forM (\<lambda>l. bindM (liftR (js_get v l)) (\<lambda>x. returnM (camelCase l, HBool (js_truthy x)))) ls) (\<lambda>ps.
     returnM (HObj ps)))"
| "toHost A sc b (TMap k u) v = toHost A sc False (despecialize (TMap k u)) v"
| "toHost A sc b (TOwn r) v = liftOwnB A v r"
| "toHost A sc b (TBorrow r) v = liftBorrowB A v r sc"
| "toHost A sc b (TStream e) v = liftStreamB A v e"
| "toHost A sc b (TFuture e) v = liftFutureB A v e"
  by pat_completeness auto

termination
proof (relation "measure (\<lambda>(A, sc, b, t, v). tsize t)")
  show "wf (measure (\<lambda>(A :: 'b Adapter, sc :: nat, b :: bool, t, v :: JsVal). tsize t))" by simp
qed (auto simp del: tsize.simps(4-6) simp add: entry_size intro: part_sizes split: if_splits)

declare toHost.simps [simp del]

section \<open>From the host to the raw boundary\<close>

function fromHost :: "'s Adapter \<Rightarrow> bool \<Rightarrow> ValType \<Rightarrow> HostVal \<Rightarrow> ('s, JsVal) sm" where
  "fromHost A b (TPrim k) v = liftR (primIn A k v)"
| "fromHost A b TErrorContext v =
     (case v of
        HErrorContext x \<Rightarrow> returnM x
      | HInternalError n \<Rightarrow> returnM (VErrorContext n)
      | HForeignError n \<Rightarrow> throwM (typeError A ''this error-context belongs to another copy of the runtime'')
      | _ \<Rightarrow> throwM (typeError A ''expected an ErrorContext''))"
| "fromHost A b (TList e n) v =
     (if despecialize e = TPrim KU8 then
        (case v of
           HBytes bs \<Rightarrow> returnM (VBytes bs)
         | HArr xs \<Rightarrow> returnM (VBytes (map toByte xs))
         | _ \<Rightarrow> throwM (typeError A ''list<u8> expects a Uint8Array''))
      else
        (case v of
           HArr xs \<Rightarrow> bindM (forM (fromHost A False e) xs) (\<lambda>ys. returnM (VArr ys))
         | _ \<Rightarrow> throwM (typeError A ''list expects an array'')))"
| "fromHost A b (TRecord fs) v =
     (if \<not> isObject v then throwM (typeError A ''record expects an object'')
      else
        bindM (liftR (checkNoCollisions (map fst fs) (ad_where A @ '': record''))) (\<lambda>_.
        bindM (forM (\<lambda>f.
          case optionPayload (snd f) of
            Some u \<Rightarrow>
              (let inner = getProp v (camelCase (fst f)) in
               if inner = HUndef then returnM (fst f, VObj [(''none'', VNull)])
               else bindM (fromHost A True u inner) (\<lambda>x. returnM (fst f, VObj [(''some'', x)])))
          | None \<Rightarrow>
              if \<not> hasProp v (camelCase (fst f)) then throwM (typeError A (''record field '' @ camelCase (fst f) @ '' is missing''))
              else bindM (fromHost A False (snd f) (getProp v (camelCase (fst f)))) (\<lambda>x. returnM (fst f, x))) fs) (\<lambda>ps.
        returnM (VObj ps))))"
| "fromHost A b (TTuple es) v =
     (case v of
        HArr xs \<Rightarrow>
          if length xs \<noteq> length es then throwM (typeError A (''tuple expects an array of '' @ showNat (length es)))
          else
            bindM (forM (\<lambda>(f, x). bindM (fromHost A False (snd f) x) (\<lambda>y. returnM (fst f, y))) (zip (indexFields 0 es) xs)) (\<lambda>ps.
            returnM (VObj ps))
      | _ \<Rightarrow> throwM (typeError A (''tuple expects an array of '' @ showNat (length es))))"
| "fromHost A b (TVariant cs) v =
     bindM (liftR (tagged A v)) (\<lambda>(kind, value).
     case caseOf cs (\<lambda>l. jsStr l = kind) of
       None \<Rightarrow> throwM (typeError A ''unknown variant case'')
     | Some c \<Rightarrow>
         (case snd c of
            None \<Rightarrow> returnM (VObj [(fst c, VNull)])
          | Some u \<Rightarrow>
              (case value of
                 None \<Rightarrow> throwM (typeError A (''variant case '' @ fst c @ '' needs a value''))
               | Some w \<Rightarrow> bindM (fromHost A False u w) (\<lambda>x. returnM (VObj [(fst c, x)])))))"
| "fromHost A b (TEnum ls) v =
     (case v of
        HStr u \<Rightarrow>
          (case find (\<lambda>l. jsStr l = u) ls of
             None \<Rightarrow> throwM (typeError A ''enum expects one of its labels'')
           | Some l \<Rightarrow> returnM (VObj [(l, VNull)]))
      | _ \<Rightarrow> throwM (typeError A ''enum expects one of its labels''))"
| "fromHost A b (TOption t) v =
     (if b then
        bindM (liftR (tagged A v)) (\<lambda>(kind, value).
        if kind = jsStr ''none'' then returnM (VObj [(''none'', VNull)])
        else if kind \<noteq> jsStr ''some'' then throwM (typeError A ''a nested option must be { kind: some | none }'')
        else
          (case value of
             None \<Rightarrow> returnM (VObj [(''some'', VNull)])
           | Some w \<Rightarrow> bindM (fromHost A True t w) (\<lambda>x. returnM (VObj [(''some'', x)]))))
      else if v = HUndef then returnM (VObj [(''none'', VNull)])
      else bindM (fromHost A True t v) (\<lambda>x. returnM (VObj [(''some'', x)])))"
| "fromHost A b (TResult okt er) v =
     bindM (liftR (tagged A v)) (\<lambda>(kind, value).
     if kind \<noteq> jsStr ''ok'' \<and> kind \<noteq> jsStr ''err'' then throwM (typeError A ''a result value must be { kind: ok | err }'')
     else
       (let label = (if kind = jsStr ''err'' then ''error'' else ''ok'') in
        case (if kind = jsStr ''err'' then er else okt) of
          None \<Rightarrow> returnM (VObj [(label, VNull)])
        | Some u \<Rightarrow>
            (case value of
               None \<Rightarrow> throwM (typeError A ''a result case that carries a payload needs a value'')
             | Some w \<Rightarrow> bindM (fromHost A False u w) (\<lambda>x. returnM (VObj [(label, x)])))))"
| "fromHost A b (TFlags ls) v =
     (if \<not> isObject v then throwM (typeError A ''flags expects an object'')
      else
        bindM (liftR (checkNoCollisions ls (ad_where A @ '': flags''))) (\<lambda>_.
        returnM (VObj (map (\<lambda>l. (l, VBool (hostTruthy (getProp v (camelCase l))))) ls))))"
| "fromHost A b (TMap k u) v = fromHost A False (despecialize (TMap k u)) v"
| "fromHost A b (TOwn r) v = lowerOwnB A v r"
| "fromHost A b (TBorrow r) v = lowerBorrowB A v r"
| "fromHost A b (TStream e) v = lowerStreamB A v e"
| "fromHost A b (TFuture e) v = lowerFutureB A v e"
  by pat_completeness auto

termination
proof (relation "measure (\<lambda>(A, b, t, v). tsize t)")
  show "wf (measure (\<lambda>(A :: 'b Adapter, b :: bool, t, v :: HostVal). tsize t))" by simp
qed (auto simp del: tsize.simps(4-6) simp add: entry_size intro: part_sizes split: if_splits)

declare fromHost.simps [simp del]

section \<open>Decimal text\<close>

lemma showNat_digits: "list_all isDigit (showNat n)"
proof (induction n rule: showNat.induct)
  case (1 n)
  have "list_all (\<lambda>k. isDigit (digit_char k)) [0..<10]" by code_simp
  then have d: "isDigit (digit_char k)" if "k < 10" for k using that by (simp add: list_all_iff del: digit_char.simps)
  show ?case using 1 d by (subst showNat.simps) (simp del: digit_char.simps)
qed

lemma showNat_nonempty: "showNat n \<noteq> []"
  by (subst showNat.simps) simp

lemma digit_char_inj: "a < 10 \<Longrightarrow> b < 10 \<Longrightarrow> digit_char a = digit_char b \<Longrightarrow> a = b"
proof -
  assume a: "a < 10" "b < 10" "digit_char a = digit_char b"
  then have "of_char (digit_char a) = (of_char (digit_char b) :: nat)" by simp
  then show "a = b" using a(1,2) by simp
qed

lemma showNat_inj: "showNat m = showNat n \<Longrightarrow> m = n"
proof (induction m arbitrary: n rule: less_induct)
  case (less m)
  have l: "length (showNat k) = 1 \<longleftrightarrow> k < 10" for k
    by (subst showNat.simps) (simp add: showNat_nonempty del: digit_char.simps)
  show ?case
  proof (cases "m < 10")
    case True
    then have "n < 10" using l less.prems by metis
    then show ?thesis using True less.prems digit_char_inj by (simp add: showNat.simps [of m] showNat.simps [of n] del: digit_char.simps)
  next
    case False
    then have n: "\<not> n < 10" using l less.prems by metis
    then have e: "showNat (m div 10) = showNat (n div 10)" "digit_char (m mod 10) = digit_char (n mod 10)"
      using False less.prems by (simp_all add: showNat.simps [of m] showNat.simps [of n] del: digit_char.simps)
    have "m div 10 = n div 10" using less.IH [OF _ e(1)] False by simp
    moreover have "m mod 10 = n mod 10" using digit_char_inj [OF _ _ e(2)] by simp
    ultimately show ?thesis by (metis div_mult_mod_eq)
  qed
qed

end
