(* ===== verification/HostResources.thy ===== *)
theory HostResources
  imports HostValues
begin

text \<open>
  Resources as class instances on the host (\<open>runtime/src/embedder/resources.ts\<close>) and the value bridge and call wrappers of
  \<open>runtime/src/embedder/instantiate.ts\<close>.

  A wrapper of a guest resource and an instance of a host class are identities; \<open>wrappers\<close> holds the state of those this
  copy of the runtime made, \<open>foreignWrappers\<close> are another copy's.  Running a guest destructor (\<open>hostDtorCall\<close>, modelled in
  \<open>HostEntry\<close>) and an instance's \<open>[Symbol.dispose]\<close> are arguments.  A closure returned to release something is the data it
  captured.  An object literal used as an instance has no identity here and is refused.
\<close>

section \<open>State\<close>

record WrapperState =
  ws_rep :: JsVal
  ws_valid :: bool
  ws_owns :: bool
  ws_rt :: nat
  ws_class :: string
  ws_lends :: int
  ws_pendingDrop :: bool

record Registry =
  rg_byRep :: "nat \<Rightarrow> nat option"
  rg_byInstance :: "nat \<Rightarrow> nat option"
  rg_next :: nat

datatype Binding = GuestBinding string | HostBinding string nat

datatype Release = ReleaseLend nat nat | ReleaseRep nat nat

record embed =
  nextObject :: nat
  wrappers :: "nat \<Rightarrow> WrapperState option"
  foreignWrappers :: "nat \<Rightarrow> bool"
  tracked :: "nat \<Rightarrow> bool"
  releasedLends :: "nat \<Rightarrow> bool"
  registries :: "nat \<Rightarrow> Registry"
  bindings :: "nat \<Rightarrow> Binding option"
  tokenIndex :: "nat \<Rightarrow> nat option"
  exportsBuilt :: bool
  lowerScope :: "Release list option"
  borrowScopes :: "nat \<Rightarrow> nat list"
  storeOfType :: "nat \<Rightarrow> nat option"
  hostFailures :: "nat \<Rightarrow> error option"

type_synonym 's Dtor = "nat \<Rightarrow> JsVal \<Rightarrow> ('s, unit) sm"
type_synonym 's Dispose = "nat \<Rightarrow> ('s, unit) sm"

definition updWrapper :: "nat \<Rightarrow> (WrapperState \<Rightarrow> WrapperState) \<Rightarrow> 'x embed_scheme \<Rightarrow> 'x embed_scheme" where
  "updWrapper w f h = h\<lparr>wrappers := (wrappers h)(w := map_option f (wrappers h w))\<rparr>"

definition invalidHandle :: "string \<Rightarrow> error" where
  "invalidHandle m = JsError (''InvalidHandleError: '' @ m)"

section \<open>Dropping\<close>

definition recordHostFailure :: "nat \<Rightarrow> error \<Rightarrow> ('x embed_scheme, unit) sm" where
  "recordHostFailure rt e =
     modifyM (\<lambda>h. case storeOfType h rt of
        None \<Rightarrow> h
      | Some s \<Rightarrow> if hostFailures h s = None then h\<lparr>hostFailures := (hostFailures h)(s := Some e)\<rparr> else h)"

definition runHostDrop :: "('x embed_scheme) Dtor \<Rightarrow> WrapperState \<Rightarrow> ('x embed_scheme, unit) sm" where
  "runHostDrop D s = catchM (D (ws_rt s) (ws_rep s)) (recordHostFailure (ws_rt s))"

text \<open>The callback of the \<open>FinalizationRegistry\<close>.\<close>

definition runBackstop :: "('x embed_scheme) Dtor \<Rightarrow> nat \<Rightarrow> ('x embed_scheme, unit) sm" where
  "runBackstop D w =
     bindM (getsM (\<lambda>h. wrappers h w)) (\<lambda>o1.
     case o1 of
       None \<Rightarrow> returnM ()
     | Some s \<Rightarrow>
         if \<not> ws_valid s \<or> \<not> ws_owns s then returnM ()
         else
           bindM (modifyM (updWrapper w (\<lambda>s. s\<lparr>ws_valid := False\<rparr>))) (\<lambda>_.
           if ws_lends s > 0 then modifyM (updWrapper w (\<lambda>s. s\<lparr>ws_pendingDrop := True\<rparr>))
           else runHostDrop D s))"

definition initWrapper :: "WrapperState \<Rightarrow> ('x embed_scheme, nat) sm" where
  "initWrapper s =
     bindM (getsM nextObject) (\<lambda>w.
     bindM (modifyM (\<lambda>h. h\<lparr>nextObject := Suc w, wrappers := (wrappers h)(w := Some s),
              tracked := (tracked h)(w := ws_owns s)\<rparr>)) (\<lambda>_. returnM w))"

definition makeWrapper :: "string \<Rightarrow> JsVal \<Rightarrow> nat \<Rightarrow> bool \<Rightarrow> ('x embed_scheme, nat) sm" where
  "makeWrapper cls rep rt owns =
     initWrapper \<lparr>ws_rep = rep, ws_valid = True, ws_owns = owns, ws_rt = rt, ws_class = cls, ws_lends = 0, ws_pendingDrop = False\<rparr>"

definition requireLive :: "nat \<Rightarrow> string \<Rightarrow> ('x embed_scheme, WrapperState) sm" where
  "requireLive w what =
     bindM (getsM (\<lambda>h. (wrappers h w, foreignWrappers h w))) (\<lambda>(o1, foreign).
     case o1 of
       None \<Rightarrow>
         throwM (invalidHandle (what @ (if foreign then '': this resource handle belongs to another copy of the runtime'' else '': not a resource handle'')))
     | Some s \<Rightarrow>
         if \<not> ws_valid s then throwM (invalidHandle (what @ '': this '' @ ws_class s @ '' handle is no longer valid''))
         else returnM s)"

definition dropWrapper :: "('x embed_scheme) Dtor \<Rightarrow> nat \<Rightarrow> ('x embed_scheme, unit) sm" where
  "dropWrapper D w =
     bindM (getsM (\<lambda>h. wrappers h w)) (\<lambda>o1.
     case o1 of
       None \<Rightarrow> returnM ()
     | Some s \<Rightarrow>
         if \<not> ws_valid s then returnM ()
         else
           bindM (modifyM (\<lambda>h. (updWrapper w (\<lambda>s. s\<lparr>ws_valid := False\<rparr>) h)\<lparr>tracked := (tracked h)(w := False)\<rparr>)) (\<lambda>_.
           if \<not> ws_owns s then returnM ()
           else if ws_lends s > 0 then modifyM (updWrapper w (\<lambda>s. s\<lparr>ws_pendingDrop := True\<rparr>))
           else D (ws_rt s) (ws_rep s)))"

section \<open>Lending\<close>

definition lendWrapper :: "nat \<Rightarrow> ('x embed_scheme, Release option) sm" where
  "lendWrapper w =
     bindM (getsM (\<lambda>h. wrappers h w)) (\<lambda>o1.
     case o1 of
       None \<Rightarrow> returnM None
     | Some s \<Rightarrow>
         bindM (getsM nextObject) (\<lambda>c.
         bindM (modifyM (\<lambda>h. (updWrapper w (\<lambda>s. s\<lparr>ws_lends := ws_lends s + 1\<rparr>) h)
                  \<lparr>nextObject := Suc c, releasedLends := (releasedLends h)(c := False)\<rparr>)) (\<lambda>_.
         returnM (Some (ReleaseLend c w)))))"

definition releaseLend :: "('x embed_scheme) Dtor \<Rightarrow> nat \<Rightarrow> ('x embed_scheme, unit) sm" where
  "releaseLend D w =
     bindM (getsM (\<lambda>h. wrappers h w)) (\<lambda>o1.
     case o1 of
       None \<Rightarrow> returnM ()
     | Some s \<Rightarrow>
         bindM (modifyM (updWrapper w (\<lambda>s. s\<lparr>ws_lends := ws_lends s - 1\<rparr>))) (\<lambda>_.
         if ws_lends s - 1 > 0 \<or> \<not> ws_pendingDrop s then returnM ()
         else
           bindM (modifyM (updWrapper w (\<lambda>s. s\<lparr>ws_pendingDrop := False\<rparr>))) (\<lambda>_. runHostDrop D s)))"

definition invalidateWrapper :: "nat \<Rightarrow> ('x embed_scheme, unit) sm" where
  "invalidateWrapper w =
     modifyM (\<lambda>h. case wrappers h w of
        None \<Rightarrow> h
      | Some s \<Rightarrow> (updWrapper w (\<lambda>s. s\<lparr>ws_valid := False\<rparr>) h)\<lparr>tracked := (tracked h)(w := False)\<rparr>)"

definition takeRep :: "HostVal \<Rightarrow> bool \<Rightarrow> string \<Rightarrow> ('x embed_scheme, JsVal) sm" where
  "takeRep v own what =
     (if \<not> isObject v then throwM (invalidHandle (what @ '': expected a resource class instance''))
      else case v of
        HHandle w \<Rightarrow>
          bindM (requireLive w what) (\<lambda>s.
          bindM (if own then
                   (if ws_lends s > 0 then
                      throwM (invalidHandle (what @ '': this '' @ ws_class s @ '' handle is still lent out as a borrow to an in-flight call and cannot be transferred''))
                    else modifyM (\<lambda>h. (updWrapper w (\<lambda>s. s\<lparr>ws_valid := False\<rparr>) h)\<lparr>tracked := (tracked h)(w := False)\<rparr>))
                 else returnM ()) (\<lambda>_.
          returnM (ws_rep s)))
      | _ \<Rightarrow> throwM (invalidHandle (what @ '': not a resource handle'')))"

section \<open>Host-implemented resources\<close>

definition newRegistry :: Registry where
  "newRegistry = \<lparr>rg_byRep = (\<lambda>_. None), rg_byInstance = (\<lambda>_. None), rg_next = 1\<rparr>"

definition hasInstance :: "nat \<Rightarrow> Registry \<Rightarrow> bool" where
  "hasInstance i g = (case rg_byInstance g i of None \<Rightarrow> False | Some held \<Rightarrow> rg_byRep g held \<noteq> None)"

definition hasRep :: "nat \<Rightarrow> Registry \<Rightarrow> bool" where
  "hasRep rep g \<longleftrightarrow> rg_byRep g rep \<noteq> None"

definition repFor :: "nat \<Rightarrow> Registry \<Rightarrow> nat \<times> Registry" where
  "repFor i g =
     (case rg_byInstance g i of
        Some held \<Rightarrow>
          if rg_byRep g held \<noteq> None then (held, g)
          else (rg_next g, g\<lparr>rg_next := Suc (rg_next g), rg_byRep := (rg_byRep g)(rg_next g := Some i),
                             rg_byInstance := (rg_byInstance g)(i := Some (rg_next g))\<rparr>)
      | None \<Rightarrow> (rg_next g, g\<lparr>rg_next := Suc (rg_next g), rg_byRep := (rg_byRep g)(rg_next g := Some i),
                             rg_byInstance := (rg_byInstance g)(i := Some (rg_next g))\<rparr>))"

definition releaseIfPresent :: "nat \<Rightarrow> Registry \<Rightarrow> Registry" where
  "releaseIfPresent rep g = g\<lparr>rg_byRep := (rg_byRep g)(rep := None)\<rparr>"

definition updRegistry :: "nat \<Rightarrow> (Registry \<Rightarrow> Registry) \<Rightarrow> 'x embed_scheme \<Rightarrow> 'x embed_scheme" where
  "updRegistry r f h = h\<lparr>registries := (registries h)(r := f (registries h r))\<rparr>"

definition registryLookup :: "string \<Rightarrow> nat \<Rightarrow> nat \<Rightarrow> ('x embed_scheme, nat) sm" where
  "registryLookup cls r rep =
     bindM (getsM (\<lambda>h. rg_byRep (registries h r) rep)) (\<lambda>o1.
     case o1 of
       None \<Rightarrow> throwM (invalidHandle (cls @ '': no live instance for rep '' @ showNat rep))
     | Some i \<Rightarrow> returnM i)"

definition registryRelease :: "string \<Rightarrow> nat \<Rightarrow> nat \<Rightarrow> ('x embed_scheme, nat) sm" where
  "registryRelease cls r rep =
     bindM (registryLookup cls r rep) (\<lambda>i.
     bindM (modifyM (updRegistry r (releaseIfPresent rep))) (\<lambda>_. returnM i))"

definition registryDtor :: "('x embed_scheme) Dispose \<Rightarrow> nat \<Rightarrow> nat \<Rightarrow> ('x embed_scheme, unit) sm" where
  "registryDtor dispose r rep =
     bindM (getsM (\<lambda>h. rg_byRep (registries h r) rep)) (\<lambda>o1.
     case o1 of
       None \<Rightarrow> returnM ()
     | Some i \<Rightarrow> bindM (modifyM (updRegistry r (releaseIfPresent rep))) (\<lambda>_. dispose i))"

definition registryRepFor :: "string \<Rightarrow> nat \<Rightarrow> HostVal \<Rightarrow> ('x embed_scheme, nat) sm" where
  "registryRepFor cls r v =
     (case v of
        HHandle i \<Rightarrow>
          bindM (getsM (\<lambda>h. repFor i (registries h r))) (\<lambda>(rep, g).
          bindM (modifyM (updRegistry r (\<lambda>_. g))) (\<lambda>_. returnM rep))
      | _ \<Rightarrow> throwM (JsError (''TypeError: '' @ cls @ '': expected a class instance'')))"

section \<open>The value bridge\<close>

text \<open>A number that stands for a rep, and back.\<close>

definition repNum :: "JsVal \<Rightarrow> nat" where
  "repNum v = (case v of VNum n \<Rightarrow> nat n | _ \<Rightarrow> 0)"

definition binding :: "nat \<Rightarrow> ('x embed_scheme, Binding) sm" where
  "binding rt =
     bindM (getsM (\<lambda>h. tokenIndex h rt)) (\<lambda>oi.
     case oi of
       None \<Rightarrow> throwM (JsError ''PlanError: resource type is not bound to any resource table in this plan'')
     | Some index \<Rightarrow>
         bindM (getsM (\<lambda>h. (bindings h index, exportsBuilt h))) (\<lambda>(ob, built).
         case ob of
           Some b \<Rightarrow> returnM b
         | None \<Rightarrow>
             if \<not> built then throwM (JsError (''PlanError: a guest-implemented resource (ResourceIndex '' @ showNat index @ '') crossed the boundary before instantiation finished''))
             else
               (let b = GuestBinding (''resource-'' @ showNat index) in
                bindM (modifyM (\<lambda>h. h\<lparr>bindings := (bindings h)(index := Some b)\<rparr>)) (\<lambda>_. returnM b))))"

definition bridgeLiftOwn :: "JsVal \<Rightarrow> nat \<Rightarrow> ('x embed_scheme, HostVal) sm" where
  "bridgeLiftOwn rep rt =
     bindM (binding rt) (\<lambda>b.
     case b of
       HostBinding name r \<Rightarrow> bindM (registryRelease (pascalCase name) r (repNum rep)) (\<lambda>i. returnM (HHandle i))
     | GuestBinding name \<Rightarrow> bindM (makeWrapper (pascalCase name) rep rt True) (\<lambda>w. returnM (HHandle w)))"

definition bridgeLiftBorrow :: "JsVal \<Rightarrow> nat \<Rightarrow> nat \<Rightarrow> ('x embed_scheme, HostVal) sm" where
  "bridgeLiftBorrow rep rt sc =
     bindM (binding rt) (\<lambda>b.
     case b of
       HostBinding name r \<Rightarrow> bindM (registryLookup (pascalCase name) r (repNum rep)) (\<lambda>i. returnM (HHandle i))
     | GuestBinding name \<Rightarrow>
         bindM (makeWrapper (pascalCase name) rep rt False) (\<lambda>w.
         bindM (modifyM (\<lambda>h. h\<lparr>borrowScopes := (borrowScopes h)(sc := borrowScopes h sc @ [w])\<rparr>)) (\<lambda>_.
         returnM (HHandle w))))"

definition bridgeLowerOwn :: "HostVal \<Rightarrow> nat \<Rightarrow> ('x embed_scheme, JsVal) sm" where
  "bridgeLowerOwn v rt =
     bindM (binding rt) (\<lambda>b.
     case b of
       HostBinding name r \<Rightarrow> bindM (registryRepFor (pascalCase name) r v) (\<lambda>rep. returnM (VNum (int rep)))
     | GuestBinding name \<Rightarrow> takeRep v True (''own<'' @ name @ ''>''))"

definition pushRelease :: "Release \<Rightarrow> 'x embed_scheme \<Rightarrow> 'x embed_scheme" where
  "pushRelease q h = h\<lparr>lowerScope := map_option (\<lambda>qs. qs @ [q]) (lowerScope h)\<rparr>"

definition runRelease :: "('x embed_scheme) Dtor \<Rightarrow> Release \<Rightarrow> ('x embed_scheme, unit) sm" where
  "runRelease D q =
     (case q of
        ReleaseLend c w \<Rightarrow>
          bindM (getsM (\<lambda>h. releasedLends h c)) (\<lambda>already.
          if already then returnM ()
          else bindM (modifyM (\<lambda>h. h\<lparr>releasedLends := (releasedLends h)(c := True)\<rparr>)) (\<lambda>_. releaseLend D w))
      | ReleaseRep r rep \<Rightarrow> modifyM (updRegistry r (releaseIfPresent rep)))"

definition bridgeLowerBorrow :: "('x embed_scheme) Dtor \<Rightarrow> HostVal \<Rightarrow> nat \<Rightarrow> ('x embed_scheme, JsVal) sm" where
  "bridgeLowerBorrow D v rt =
     bindM (binding rt) (\<lambda>b.
     case b of
       HostBinding name r \<Rightarrow>
         bindM (getsM (\<lambda>h. case v of HHandle i \<Rightarrow> hasInstance i (registries h r) | _ \<Rightarrow> False)) (\<lambda>known.
         bindM (registryRepFor (pascalCase name) r v) (\<lambda>rep.
         bindM (if \<not> known then modifyM (pushRelease (ReleaseRep r rep)) else returnM ()) (\<lambda>_.
         returnM (VNum (int rep)))))
     | GuestBinding name \<Rightarrow>
         bindM (takeRep v False (''borrow<'' @ name @ ''>'')) (\<lambda>rep.
         bindM (case v of HHandle w \<Rightarrow> lendWrapper w | _ \<Rightarrow> returnM None) (\<lambda>oq.
         case oq of
           None \<Rightarrow> returnM rep
         | Some q \<Rightarrow>
             bindM (getsM (\<lambda>h. lowerScope h = None)) (\<lambda>none.
             bindM (if none then runRelease D q else modifyM (pushRelease q)) (\<lambda>_. returnM rep)))))"

definition bridgeDropOwn :: "('x embed_scheme) Dtor \<Rightarrow> ('x embed_scheme) Dispose \<Rightarrow> JsVal \<Rightarrow> nat \<Rightarrow> ('x embed_scheme, unit) sm" where
  "bridgeDropOwn D dispose rep rt =
     bindM (binding rt) (\<lambda>b.
     case b of
       HostBinding name r \<Rightarrow> registryDtor dispose r (repNum rep)
     | GuestBinding name \<Rightarrow> D rt rep)"

text \<open>\<open>BorrowScope.end\<close>.\<close>

fun invalidateAll :: "nat list \<Rightarrow> ('x embed_scheme, unit) sm" where
  "invalidateAll [] = returnM ()"
| "invalidateAll (w # ws) = bindM (invalidateWrapper w) (\<lambda>_. invalidateAll ws)"

definition endScope :: "nat \<Rightarrow> ('x embed_scheme, unit) sm" where
  "endScope sc =
     bindM (getsM (\<lambda>h. borrowScopes h sc)) (\<lambda>ws.
     bindM (invalidateAll ws) (\<lambda>_. modifyM (\<lambda>h. h\<lparr>borrowScopes := (borrowScopes h)(sc := [])\<rparr>)))"

end
