(* ===== verification/HostCalls.thy ===== *)
theory HostCalls
  imports HostResources
begin

text \<open>
  The wrappers around a call in the embedder's conventions (\<open>#wrapImportFn\<close>, \<open>#lowerParams\<close> and \<open>#wrapExportFn\<close> of
  \<open>runtime/src/embedder/instantiate.ts\<close>) and the adapter they convert with.  The host function behind an import and the
  lifted function behind an export are arguments.  An export whose result is a future is left out: its handle is made before
  the call settles.
\<close>

section \<open>Outcomes\<close>

text \<open>\<open>HostException p\<close>: a \<open>ComponentException\<close> with payload \<open>p\<close>.\<close>

datatype HostOutcome = HostReturns HostVal | HostThrows error | HostException HostVal

text \<open>What a dispatch gives: an outcome, or a thenable that settles later.\<close>

datatype Dispatched = Settled HostOutcome | Thenable HostVal

type_synonym 's HostFn = "HostVal list \<Rightarrow> 's \<Rightarrow> Dispatched \<times> 's"

definition resultType :: "FuncType \<Rightarrow> ValType option" where
  "resultType ft = (case ftResults ft of [] \<Rightarrow> None | t # _ \<Rightarrow> Some t)"

definition embedAdapter :: "('x embed_scheme) Dtor \<Rightarrow> ('x embed_scheme) Adapter \<Rightarrow> ('x embed_scheme) Adapter" where
  "embedAdapter D A =
     A\<lparr>liftOwnB := bridgeLiftOwn, liftBorrowB := bridgeLiftBorrow, lowerOwnB := bridgeLowerOwn, lowerBorrowB := bridgeLowerBorrow D\<rparr>"

section \<open>Imports\<close>

definition importOk :: "'s Adapter \<Rightarrow> ValType option \<Rightarrow> HostVal \<Rightarrow> ('s, JsVal) sm" where
  "importOk A ot v =
     (case ot of
        None \<Rightarrow> returnM VUndef
      | Some t \<Rightarrow>
          (case t of
             TResult okt er \<Rightarrow>
               (case okt of
                  None \<Rightarrow> returnM (VObj [(''ok'', VNull)])
                | Some u \<Rightarrow> bindM (fromHost A False u v) (\<lambda>x. returnM (VObj [(''ok'', x)])))
           | _ \<Rightarrow> fromHost A False t v))"

definition errType :: "ValType option \<Rightarrow> ValType option option" where
  "errType ot = (case ot of Some (TResult okt er) \<Rightarrow> Some er | _ \<Rightarrow> None)"

text \<open>\<open>isTrap\<close>, and the trap any other throw becomes.\<close>

definition importTrap :: "string \<Rightarrow> HostOutcome \<Rightarrow> error" where
  "importTrap site out1 =
     (case out1 of
        HostThrows (Trap m) \<Rightarrow> Trap m
      | HostException p \<Rightarrow> Trap (site @ '' threw a ComponentException, but its WIT type has no err side'')
      | _ \<Rightarrow> Trap (site @ '' threw: an unbranded throw from a host import is a host bug and becomes a trap''))"

text \<open>\<open>fail\<close>; \<open>drop\<close> is \<open>releaseAsyncArgs\<close>, which ignores failures.\<close>

definition importFail :: "'s Adapter \<Rightarrow> (HostVal list \<Rightarrow> 's \<Rightarrow> 's) \<Rightarrow> ValType option \<Rightarrow> HostVal list \<Rightarrow> HostOutcome \<Rightarrow> ('s, JsVal) sm" where
  "importFail A dropArgs ot args out1 =
     (case (out1, errType ot) of
        (HostException p, Some er) \<Rightarrow>
          (case er of
             None \<Rightarrow> returnM (VObj [(''error'', VNull)])
           | Some u \<Rightarrow> bindM (fromHost A False u p) (\<lambda>x. returnM (VObj [(''error'', x)])))
      | _ \<Rightarrow> bindM (modifyM (dropArgs args)) (\<lambda>_. throwM (importTrap (ad_where A) out1)))"

text \<open>What follows when the dispatch has settled.\<close>

definition importSettled :: "('x embed_scheme) Adapter \<Rightarrow> (HostVal list \<Rightarrow> 'x embed_scheme \<Rightarrow> 'x embed_scheme) \<Rightarrow> ValType option \<Rightarrow>
    HostVal list \<Rightarrow> nat \<Rightarrow> HostOutcome \<Rightarrow> ('x embed_scheme, JsVal) sm" where
  "importSettled A dropArgs ot args sc out1 =
     bindM (endScope sc) (\<lambda>_.
     case out1 of HostReturns v \<Rightarrow> importOk A ot v | _ \<Rightarrow> importFail A dropArgs ot args out1)"

definition newScope :: "('x embed_scheme, nat) sm" where
  "newScope =
     bindM (getsM nextObject) (\<lambda>sc.
     bindM (modifyM (\<lambda>h. h\<lparr>nextObject := Suc sc, borrowScopes := (borrowScopes h)(sc := [])\<rparr>)) (\<lambda>_. returnM sc))"

definition argAt :: "'a \<Rightarrow> 'a list \<Rightarrow> nat \<Rightarrow> 'a" where
  "argAt undef args i = (if i < length args then args ! i else undef)"

text \<open>\<open>None\<close>: the call is pending; the reactions of the thenable are \<open>importSettled\<close> on its outcome.\<close>

definition importCall :: "('x embed_scheme) Adapter \<Rightarrow> (HostVal list \<Rightarrow> 'x embed_scheme \<Rightarrow> 'x embed_scheme) \<Rightarrow> FuncType \<Rightarrow>
    ('x embed_scheme) HostFn \<Rightarrow> JsVal list \<Rightarrow> ('x embed_scheme, JsVal option) sm" where
  "importCall A dropArgs ft f raw =
     bindM newScope (\<lambda>sc.
     bindM (forM (\<lambda>(i, p). toHost A sc False p (argAt VUndef raw i)) (zip [0..<length (ftParams ft)] (ftParams ft))) (\<lambda>args h.
     case f args h of
       (Settled out1, h1) \<Rightarrow> bindM (importSettled A dropArgs (resultType ft) args sc out1) (\<lambda>v. returnM (Some v)) h1
     | (Thenable v, h1) \<Rightarrow>
         (case resultType ft of
            Some (TFuture e) \<Rightarrow> bindM (endScope sc) (\<lambda>_. bindM (importOk A (resultType ft) v) (\<lambda>x. returnM (Some x))) h1
          | _ \<Rightarrow> (Inr None, h1))))"

section \<open>Exports\<close>

fun releaseAll :: "('x embed_scheme) Dtor \<Rightarrow> Release list \<Rightarrow> ('x embed_scheme, unit) sm" where
  "releaseAll D [] = returnM ()"
| "releaseAll D (q # qs) = bindM (runRelease D q) (\<lambda>_. releaseAll D qs)"

definition openReleases :: "'x embed_scheme \<Rightarrow> Release list" where
  "openReleases h = (case lowerScope h of None \<Rightarrow> [] | Some qs \<Rightarrow> qs)"

definition lowerParams :: "('x embed_scheme) Dtor \<Rightarrow> ('x embed_scheme) Adapter \<Rightarrow> ValType list \<Rightarrow> HostVal list \<Rightarrow>
    ('x embed_scheme, JsVal list \<times> Release list) sm" where
  "lowerParams D A ps args =
     bindM (getsM lowerScope) (\<lambda>outer.
     bindM (modifyM (\<lambda>h. h\<lparr>lowerScope := Some []\<rparr>)) (\<lambda>_.
     finallyM
       (bindM (catchM (forM (\<lambda>(i, p). fromHost A False p (argAt HUndef args i)) (zip [0..<length ps] ps))
                (\<lambda>e. bindM (getsM openReleases) (\<lambda>qs. bindM (releaseAll D qs) (\<lambda>_. throwM e)))) (\<lambda>lowered.
        bindM (getsM openReleases) (\<lambda>qs. returnM (lowered, qs))))
       (modifyM (\<lambda>h. h\<lparr>lowerScope := outer\<rparr>))))"

definition exportResult :: "'s Adapter \<Rightarrow> ValType option \<Rightarrow> JsVal \<Rightarrow> ('s, HostOutcome) sm" where
  "exportResult A ot raw =
     (case ot of
        None \<Rightarrow> returnM (HostReturns HUndef)
      | Some t \<Rightarrow>
          (case t of
             TResult okt er \<Rightarrow>
               bindM (liftR (rawHas raw ''error'')) (\<lambda>isErr.
               if isErr then
                 (case er of
                    None \<Rightarrow> returnM (HostException HUndef)
                  | Some u \<Rightarrow> bindM (liftR (js_get raw ''error'')) (\<lambda>x. bindM (toHost A 0 False u x) (\<lambda>w. returnM (HostException w))))
               else
                 (case okt of
                    None \<Rightarrow> returnM (HostReturns HUndef)
                  | Some u \<Rightarrow> bindM (liftR (js_get raw ''ok'')) (\<lambda>x. bindM (toHost A 0 False u x) (\<lambda>w. returnM (HostReturns w)))))
           | _ \<Rightarrow> bindM (toHost A 0 False t raw) (\<lambda>w. returnM (HostReturns w))))"

text \<open>The eventual outcome of a call of the export; \<open>core\<close> is the lifted function with its promise awaited.\<close>

definition exportCall :: "('x embed_scheme) Dtor \<Rightarrow> ('x embed_scheme) Adapter \<Rightarrow> FuncType \<Rightarrow>
    (JsVal list \<Rightarrow> ('x embed_scheme, JsVal) sm) \<Rightarrow> HostVal list \<Rightarrow> ('x embed_scheme, HostOutcome) sm" where
  "exportCall D A ft core args =
     (if length args \<noteq> length (ftParams ft) then
        throwM (JsError (''TypeError: '' @ ad_where A @ '': expected '' @ showNat (length (ftParams ft)) @ '' argument(s), got '' @
          showNat (length args)))
      else
        bindM (lowerParams D A (ftParams ft) args) (\<lambda>(lowered, qs).
        bindM (finallyM (core lowered) (releaseAll D qs)) (\<lambda>raw.
        exportResult A (resultType ft) raw)))"

section \<open>The class of a guest resource\<close>

text \<open>
  \<open>new R(...)\<close>.  The constructor of the guest gives \<open>None\<close> for a thenable.  Its arguments are lowered outside a lowering
  scope, and without a check of their number.
\<close>

definition lowerArgs :: "'s Adapter \<Rightarrow> HostVal list \<Rightarrow> ValType list \<Rightarrow> ('s, JsVal list) sm" where
  "lowerArgs A args ps =
     forM (\<lambda>(i, a). if i < length ps then fromHost A False (ps ! i) a else throwM (JsError ''TypeError''))
       (zip [0..<length args] args)"

definition construct :: "('x embed_scheme) Adapter \<Rightarrow> string \<Rightarrow> nat \<Rightarrow> (JsVal list \<Rightarrow> ('x embed_scheme, JsVal option) sm) option \<Rightarrow>
    ValType list option \<Rightarrow> HostVal list \<Rightarrow> ('x embed_scheme, nat) sm" where
  "construct A className rt ctor ctorParams args =
     (case ctor of
        None \<Rightarrow> throwM (JsError (''TypeError: '' @ className @ '' has no WIT constructor; use its static functions''))
      | Some f \<Rightarrow>
          bindM (lowerArgs (A\<lparr>ad_where := className @ '' constructor''\<rparr>) args (case ctorParams of None \<Rightarrow> [] | Some ps \<Rightarrow> ps)) (\<lambda>lowered.
          bindM (f lowered) (\<lambda>orep.
          case orep of
            None \<Rightarrow> throwM (JsError (''TypeError: '' @ className @ '' constructor: the guest constructor did not complete synchronously''))
          | Some rep \<Rightarrow>
              if (case rep of VNum n \<Rightarrow> True | VFlt d \<Rightarrow> True | _ \<Rightarrow> False) then
                initWrapper \<lparr>ws_rep = rep, ws_valid = True, ws_owns = True, ws_rt = rt, ws_class = className, ws_lends = 0, ws_pendingDrop = False\<rparr>
              else throwM (JsError (''TypeError: '' @ className @ '' constructor: expected an own handle rep'')))))"

text \<open>A method: the receiver is the first argument.\<close>

definition methodCall :: "('x embed_scheme) Dtor \<Rightarrow> ('x embed_scheme) Adapter \<Rightarrow> FuncType \<Rightarrow>
    (JsVal list \<Rightarrow> ('x embed_scheme, JsVal) sm) \<Rightarrow> nat \<Rightarrow> HostVal list \<Rightarrow> ('x embed_scheme, HostOutcome) sm" where
  "methodCall D A ft core this args = exportCall D A ft core (HHandle this # args)"

end
