(* ===== verification/HostProps.thy ===== *)
theory HostProps
  imports HostValues LoadTyped
begin

text \<open>
  What the embedder's value adaptation promises: a value of the raw boundary survives the way to the host and back.
\<close>

section \<open>Values of the raw boundary\<close>

text \<open>
  What lifting gives for a type without handles, streams and futures: as \<open>conforms\<close>, with strings, lists of any length and
  error-contexts.
\<close>

function lifted :: "ValType \<Rightarrow> JsVal \<Rightarrow> bool"
  and liftedFields :: "FieldType list \<Rightarrow> (string \<times> JsVal) list \<Rightarrow> bool"
  and liftedCase :: "CaseType list \<Rightarrow> (string \<times> JsVal) \<Rightarrow> bool" where
  "lifted t v =
     (case despecialize t of
        TPrim k \<Rightarrow> conformsPrim k v
      | TErrorContext \<Rightarrow> (case v of VErrorContext n \<Rightarrow> True | _ \<Rightarrow> False)
      | TList e n \<Rightarrow>
          (if despecialize e = TPrim KU8 then (case v of VBytes bs \<Rightarrow> n = None \<or> n = Some (length bs) | _ \<Rightarrow> False)
           else (case v of VArr xs \<Rightarrow> (n = None \<or> n = Some (length xs)) \<and> list_all (lifted e) xs | _ \<Rightarrow> False))
      | TRecord fs \<Rightarrow> (case v of VObj ps \<Rightarrow> liftedFields fs ps | _ \<Rightarrow> False)
      | TVariant cs \<Rightarrow> (case v of VObj [p] \<Rightarrow> liftedCase cs p | _ \<Rightarrow> False)
      | TFlags ls \<Rightarrow> (case v of
            VObj ps \<Rightarrow> map fst ps = ls \<and> list_all (\<lambda>p. case snd p of VBool b \<Rightarrow> True | _ \<Rightarrow> False) ps
          | _ \<Rightarrow> False)
      | _ \<Rightarrow> False)"
| "liftedFields [] ps = (ps = [])"
| "liftedFields (f # fs) ps =
     (case ps of [] \<Rightarrow> False
      | p # qs \<Rightarrow> fst p = fst f \<and> lifted (snd f) (snd p) \<and> liftedFields fs qs)"
| "liftedCase [] p = False"
| "liftedCase (c # cs) p =
     (if fst c = fst p then (case snd c of None \<Rightarrow> snd p = VNull | Some u \<Rightarrow> lifted u (snd p))
      else liftedCase cs p)"
  by pat_completeness auto

termination
  by (relation "measure (\<lambda>x. case x of
        Inl (t, v) \<Rightarrow> tsize t | Inr (Inl (fs, ps)) \<Rightarrow> fsize fs | Inr (Inr (cs, p)) \<Rightarrow> csize cs)")
    (auto simp: tsize_despecialize split: option.splits)

declare lifted.simps [simp del]

text \<open>
  The labels of a type give distinct names on the host, and no option field is named like something every object inherits.
\<close>

fun hostNames :: "ValType \<Rightarrow> bool" where
  "hostNames (TList e n) = hostNames e"
| "hostNames (TRecord fs) \<longleftrightarrow>
     distinct (map (\<lambda>f. camelCase (fst f)) fs) \<and>
     list_all (\<lambda>f. optionPayload (snd f) \<noteq> None \<longrightarrow> camelCase (fst f) \<notin> set OBJECT_PROTOTYPE) fs \<and>
     list_all (\<lambda>f. hostNames (snd f)) fs"
| "hostNames (TTuple es) \<longleftrightarrow> list_all hostNames es"
| "hostNames (TVariant cs) \<longleftrightarrow> list_all (\<lambda>c. case snd c of None \<Rightarrow> True | Some u \<Rightarrow> hostNames u) cs"
| "hostNames (TOption t) = hostNames t"
| "hostNames (TResult ok er) \<longleftrightarrow>
     (case ok of None \<Rightarrow> True | Some u \<Rightarrow> hostNames u) \<and> (case er of None \<Rightarrow> True | Some u \<Rightarrow> hostNames u)"
| "hostNames (TMap k u) \<longleftrightarrow> hostNames k \<and> hostNames u"
| "hostNames (TFlags ls) \<longleftrightarrow> distinct (map camelCase ls)"
| "hostNames t = True"

section \<open>There and back\<close>

definition thereAndBack :: "'s Adapter \<Rightarrow> bool \<Rightarrow> ValType \<Rightarrow> JsVal \<Rightarrow> HostVal \<Rightarrow> bool" where
  "thereAndBack A b t v w \<longleftrightarrow>
     (\<forall>sc. toHost A sc b t v = returnM w) \<and> fromHost A b t w = returnM v \<and> (b \<or> optionPayload t = None \<longrightarrow> w \<noteq> HUndef)"

lemma return_bind [simp]: "bindM (returnM x) f = f x"
  by (rule ext) (simp add: bindM_def returnM_def)

lemma liftR_Inr [simp]: "liftR (Inr x) = returnM x"
  by (rule ext) (simp add: liftR_def returnM_def)

lemma forM_return:
  "list_all2 (\<lambda>x y. f x = returnM y) xs ys \<Longrightarrow> forM f xs = returnM ys"
  by (induction rule: list_all2_induct) simp_all

lemma jsStr_inj [simp]: "jsStr a = jsStr b \<longleftrightarrow> a = b"
proof
  have c: "(word_of_nat (of_char x) :: 16 word) = word_of_nat (of_char y) \<Longrightarrow> x = y" for x y :: char
  proof -
    assume w: "(word_of_nat (of_char x) :: 16 word) = word_of_nat (of_char y)"
    have l: "of_char z < (65536 :: nat)" for z :: char by (rule less_trans [of _ 256]) simp_all
    have "of_char x mod (65536 :: nat) = of_char y mod 65536" using arg_cong [OF w, of unat] by (simp add: unat_of_nat)
    then have "of_char x = (of_char y :: nat)" by (simp only: mod_less [OF l])
    then show "x = y" by simp
  qed
  show "jsStr a = jsStr b \<Longrightarrow> a = b"
    unfolding jsStr_def by (rule list.inj_map_strong) (use c in auto)
qed simp

lemma conformsPrim_back:
  assumes "conformsPrim k v"
  shows "primIn A k (asHost v) = Inr v \<and> asHost v \<noteq> HUndef"
proof (cases k)
  case KChar
  then obtain u n where u: "v = VStr u" "charToI32 u = Inr n"
    using assms by (auto split: JsVal.splits sum.splits)
  then show ?thesis using KChar
    by (auto simp: charIn_def charToI32_def bindR_eq_Inr split: option.splits)
qed (use assms in \<open>auto simp: intIn_def bigIn_def inRange_def inRangeBig_def hostNumber_def js_int_def hostTruthy_def split: JsVal.splits\<close>)

lemma no_collision:
  assumes "distinct (map camelCase ls)" "camelCase ` set ls \<inter> fst ` set seen = {}"
  shows "collision ls seen = None"
  using assms
proof (induction ls arbitrary: seen)
  case (Cons l ls)
  then have "map_of seen (camelCase l) = None" by (auto simp: map_of_eq_None_iff)
  then show ?case using Cons.IH [of "(camelCase l, l) # seen"] Cons.prems by auto
qed simp

lemma names_ok: "distinct (map camelCase ls) \<Longrightarrow> checkNoCollisions ls what = Inr ()"
  by (simp add: checkNoCollisions_def no_collision)

lemma camelCase_digit: "camelCase (showNat 0) = showNat 0" "camelCase (showNat (Suc 0)) = showNat (Suc 0)"
  by code_simp+

lemma caseOf_hit:
  assumes "distinct (map fst cs)" "c \<in> set cs" "\<And>d. d \<in> set cs \<Longrightarrow> p (fst d) \<longleftrightarrow> fst d = fst c"
  shows "caseOf cs p = Some c"
  using assms
proof (induction cs)
  case (Cons d cs)
  show ?case
  proof (cases "d = c")
    case True
    then show ?thesis using Cons.prems(3) [of d] by (simp add: caseOf_def)
  next
    case False
    then have c: "c \<in> set cs" using Cons.prems(2) by simp
    then have "fst d \<noteq> fst c" using Cons.prems(1) by (metis distinct.simps(2) image_eqI list.set_map list.simps(9))
    then have "\<not> p (fst d)" using Cons.prems(3) [of d] by simp
    then show ?thesis using Cons.IH [OF _ c] Cons.prems by (simp add: caseOf_def)
  qed
qed simp

lemma liftedCase_in: "liftedCase cs p \<Longrightarrow> \<exists>c \<in> set cs. fst c = fst p \<and> (case snd c of None \<Rightarrow> snd p = VNull | Some u \<Rightarrow> lifted u (snd p))"
  by (induction cs) (auto split: if_splits)


text \<open>The fields of a record, there and back.\<close>

definition fieldBack :: "'s Adapter \<Rightarrow> FieldType \<Rightarrow> string \<times> JsVal \<Rightarrow> (string \<times> HostVal) list \<Rightarrow> bool" where
  "fieldBack A f p e \<longleftrightarrow>
     (case optionPayload (snd f) of
        None \<Rightarrow> (\<exists>w. e = [(camelCase (fst f), w)] \<and> (\<forall>sc. toHost A sc False (snd f) (snd p) = returnM w) \<and> fromHost A False (snd f) w = returnM (snd p))
      | Some u \<Rightarrow>
          (e = [] \<and> snd p = VObj [(''none'', VNull)]) \<or>
          (\<exists>w x. e = [(camelCase (fst f), w)] \<and> snd p = VObj [(''some'', x)] \<and> w \<noteq> HUndef \<and>
             (\<forall>sc. toHost A sc True u x = returnM w) \<and> fromHost A True u w = returnM x))"

lemma parts_of_concat:
  assumes "list_all2 (\<lambda>n e. e = [] \<or> (\<exists>w. e = [(n, w)])) ns es" "distinct ns" "i < length ns"
  shows "map_of (concat es) (ns ! i) = map_of (es ! i) (ns ! i)"
  using assms
proof (induction arbitrary: i rule: list_all2_induct)
  case (Cons n ns e es)
  have out: "map_of (concat es) m = None" if "m \<notin> set ns" for m
  proof -
    have "fst ` set (concat es) \<subseteq> set ns" using Cons.hyps(2) by (induction rule: list_all2_induct) auto
    then show ?thesis using that by (auto simp: map_of_eq_None_iff)
  qed
  show ?case
  proof (cases i)
    case 0
    then show ?thesis using Cons.prems out [of n] by (cases "map_of e n") (auto simp: map_add_def)
  next
    case (Suc j)
    then have "ns ! j \<noteq> n" using Cons.prems by auto
    then have "map_of e (ns ! j) = None" using Cons.hyps(1) by auto
    then show ?thesis using Suc Cons.IH [of j] Cons.prems by (simp add: map_add_def)
  qed
qed simp

lemma liftedFields_iff:
  "liftedFields fs ps \<longleftrightarrow> list_all2 (\<lambda>f p. fst p = fst f \<and> lifted (snd f) (snd p)) fs ps"
  by (induction fs arbitrary: ps) (auto simp: list_all2_Cons1 split: list.splits)

lemma option_payload: "optionPayload t = Some u \<longleftrightarrow> t = TOption u"
  by (cases t) (auto simp: optionPayload_def)

lemma lifted_option: "lifted (TOption u) v \<longleftrightarrow> v = VObj [(''none'', VNull)] \<or> (\<exists>x. v = VObj [(''some'', x)] \<and> lifted u x)"
  by (auto simp: lifted.simps [of "TOption u"] split: JsVal.splits list.splits)

lemma toHost_record:
  assumes "distinct (map (\<lambda>f. camelCase (fst f)) fs)" "distinct (map fst ps)"
    "list_all2 (\<lambda>f p. fst p = fst f) fs ps" "\<And>i. i < length fs \<Longrightarrow> fieldBack A (fs ! i) (ps ! i) (es ! i)" "length es = length fs"
  shows "toHost A sc b (TRecord fs) (VObj ps) = returnM (HObj (concat es))"
proof -
  have d: "distinct (map camelCase (map fst fs))" using assms(1) by (simp add: comp_def)
  let ?g = "\<lambda>f. bindM (liftR (js_get (VObj ps) (fst f))) (\<lambda>x.
       case optionPayload (snd f) of
         Some u \<Rightarrow>
           bindM (liftR (rawHas x ''none'')) (\<lambda>none.
           if none then returnM []
           else
             bindM (liftR (js_get x ''some'')) (\<lambda>y.
             bindM (toHost A sc True u y) (\<lambda>w. returnM [(camelCase (fst f), w)])))
       | None \<Rightarrow> bindM (toHost A sc False (snd f) x) (\<lambda>w. returnM [(camelCase (fst f), w)]))"
  have "?g (fs ! i) = returnM (es ! i)" if i: "i < length fs" for i
  proof -
    have k: "fst (ps ! i) = fst (fs ! i)" "i < length ps" using assms(3) i by (auto simp: list_all2_conv_all_nth)
    have "map_of ps (fst (fs ! i)) = Some (snd (ps ! i))"
      using assms(2) k by (metis map_of_is_SomeI nth_mem surjective_pairing)
    then have g: "js_get (VObj ps) (fst (fs ! i)) = Inr (snd (ps ! i))" by simp
    show ?thesis
    proof (cases "optionPayload (snd (fs ! i))")
      case None
      then show ?thesis using assms(4) [OF i] g by (auto simp: fieldBack_def)
    next
      case (Some u)
      have n: "''none'' \<notin> set OBJECT_PROTOTYPE" by code_simp
      show ?thesis using Some assms(4) [OF i] g n by (auto simp: fieldBack_def rawHas_def)
    qed
  qed
  then have "forM ?g fs = returnM es"
    by (intro forM_return) (simp add: list_all2_conv_all_nth assms(5))
  then show ?thesis by (simp add: toHost.simps names_ok [OF d] del: map_map)
qed

lemma fromHost_record:
  assumes names: "distinct (map (\<lambda>f. camelCase (fst f)) fs)"
    and safe: "list_all (\<lambda>f. optionPayload (snd f) \<noteq> None \<longrightarrow> camelCase (fst f) \<notin> set OBJECT_PROTOTYPE) fs"
    and fields: "list_all2 (\<lambda>f p. fst p = fst f) fs ps" "\<And>i. i < length fs \<Longrightarrow> fieldBack A (fs ! i) (ps ! i) (es ! i)" "length es = length fs"
  shows "fromHost A b (TRecord fs) (HObj (concat es)) = returnM (VObj ps)"
proof -
  let ?ns = "map (\<lambda>f. camelCase (fst f)) fs" and ?v = "HObj (concat es)"
  have d: "distinct (map camelCase (map fst fs))" using names by (simp add: comp_def)
  have "list_all2 (\<lambda>n e. e = [] \<or> (\<exists>w. e = [(n, w)])) ?ns es"
    using fields(2,3) by (fastforce simp: list_all2_conv_all_nth fieldBack_def split: option.splits)
  then have part: "map_of (concat es) (camelCase (fst (fs ! i))) = map_of (es ! i) (camelCase (fst (fs ! i)))" if "i < length fs" for i
    using parts_of_concat [of ?ns es i] names that by simp
  let ?g = "\<lambda>f. case optionPayload (snd f) of
            Some u \<Rightarrow>
              (let inner = getProp ?v (camelCase (fst f)) in
               if inner = HUndef then returnM (fst f, VObj [(''none'', VNull)])
               else bindM (fromHost A True u inner) (\<lambda>x. returnM (fst f, VObj [(''some'', x)])))
          | None \<Rightarrow>
              if \<not> hasProp ?v (camelCase (fst f)) then throwM (typeError A (''record field '' @ camelCase (fst f) @ '' is missing''))
              else bindM (fromHost A False (snd f) (getProp ?v (camelCase (fst f)))) (\<lambda>x. returnM (fst f, x))"
  have "?g (fs ! i) = returnM (ps ! i)" if i: "i < length fs" for i
  proof -
    have k: "fst (ps ! i) = fst (fs ! i)" "i < length ps" using fields(1) i by (auto simp: list_all2_conv_all_nth)
    have pe: "(fst (fs ! i), snd (ps ! i)) = ps ! i" using k(1) by (metis prod.collapse)
    have own: "getProp ?v (camelCase (fst (fs ! i))) = w" "hasProp ?v (camelCase (fst (fs ! i)))" if "es ! i = [(camelCase (fst (fs ! i)), w)]" for w
    proof -
      have m: "map_of (concat es) (camelCase (fst (fs ! i))) = Some w" using part [OF i] that by simp
      then show "getProp ?v (camelCase (fst (fs ! i))) = w" by (simp add: getProp_def ownProps_def)
      show "hasProp ?v (camelCase (fst (fs ! i)))"
        using map_of_SomeD [OF m] by (force simp: hasProp_def ownProps_def)
    qed
    show ?thesis
    proof (cases "optionPayload (snd (fs ! i))")
      case None
      then show ?thesis using fields(2) [OF i] own pe by (auto simp: fieldBack_def)
    next
      case (Some u)
      have absent: "getProp ?v (camelCase (fst (fs ! i))) = HUndef" if "es ! i = []"
      proof -
        have "camelCase (fst (fs ! i)) \<notin> set OBJECT_PROTOTYPE" using safe i Some by (simp add: list_all_length)
        then show ?thesis using part [OF i] that by (simp add: getProp_def ownProps_def lengthOf_def)
      qed
      show ?thesis using Some fields(2) [OF i] own absent pe by (auto simp: fieldBack_def Let_def)
    qed
  qed
  then have "forM ?g fs = returnM ps"
    using fields(1) by (intro forM_return) (simp add: list_all2_conv_all_nth)
  then show ?thesis by (simp add: fromHost.simps isObject_def names_ok [OF d] del: map_map)
qed

lemma fields_back:
  assumes "\<And>l u w. (l, u) \<in> set fs \<Longrightarrow> optionPayload u = None \<Longrightarrow> lifted u w \<Longrightarrow> \<exists>x. thereAndBack A False u w x"
    "\<And>l u o1 w. (l, u) \<in> set fs \<Longrightarrow> optionPayload u = Some o1 \<Longrightarrow> lifted o1 w \<Longrightarrow> \<exists>x. thereAndBack A True o1 w x"
    "liftedFields fs ps" "distinct (map (\<lambda>f. camelCase (fst f)) fs)" "distinct (map fst fs)"
    "list_all (\<lambda>f. optionPayload (snd f) \<noteq> None \<longrightarrow> camelCase (fst f) \<notin> set OBJECT_PROTOTYPE) fs"
  shows "\<exists>w. thereAndBack A b (TRecord fs) (VObj ps) w"
proof -
  have l: "list_all2 (\<lambda>f p. fst p = fst f \<and> lifted (snd f) (snd p)) fs ps" using assms(3) by (simp add: liftedFields_iff)
  have "\<exists>e. fieldBack A f p e" if fin: "f \<in> set fs" and lp: "lifted (snd f) (snd p)" for f p
  proof (cases "optionPayload (snd f)")
    case None
    then show ?thesis using assms(1) [of "fst f" "snd f" "snd p"] fin lp by (auto simp: fieldBack_def thereAndBack_def)
  next
    case (Some u)
    then have "snd f = TOption u" by (simp add: option_payload)
    then consider "snd p = VObj [(''none'', VNull)]" | x where "snd p = VObj [(''some'', x)]" "lifted u x"
      using lp by (auto simp: lifted_option)
    then show ?thesis
    proof cases
      case 1
      then show ?thesis using Some by (auto simp: fieldBack_def)
    next
      case (2 x)
      then show ?thesis using Some assms(2) [of "fst f" "snd f" u x] fin by (auto simp: fieldBack_def thereAndBack_def)
    qed
  qed
  then have "\<exists>e. fieldBack A (fs ! i) (ps ! i) e" if "i < length fs" for i
    using l that by (simp add: list_all2_conv_all_nth)
  then obtain E where E: "\<And>i. i < length fs \<Longrightarrow> fieldBack A (fs ! i) (ps ! i) (E i)" by metis
  let ?es = "map E [0..<length fs]"
  have e: "fieldBack A (fs ! i) (ps ! i) (?es ! i)" if "i < length fs" for i using E that by simp
  have k: "list_all2 (\<lambda>f p. fst p = fst f) fs ps" using l by (rule list_all2_mono) simp
  have "map fst ps = map fst fs" using k by (simp add: list_all2_conv_all_nth list_eq_iff_nth_eq)
  then have dp: "distinct (map fst ps)" using assms(5) by simp
  show ?thesis
    unfolding thereAndBack_def
    by (intro exI [of _ "HObj (concat ?es)"] conjI allI toHost_record [OF assms(4) dp k e] fromHost_record [OF assms(4,6) k e]) simp_all
qed

text \<open>A tagged object read back.\<close>

lemma tagged_simps:
  "tagged A (HObj [(''kind'', HStr k)]) = Inr (k, None)"
  "tagged A (HObj [(''kind'', HStr k), (''value'', w)]) = Inr (k, Some w)"
proof -
  have n: "''kind'' \<notin> set OBJECT_PROTOTYPE" "''value'' \<notin> set OBJECT_PROTOTYPE" by code_simp+
  show "tagged A (HObj [(''kind'', HStr k)]) = Inr (k, None)"
    "tagged A (HObj [(''kind'', HStr k), (''value'', w)]) = Inr (k, Some w)"
    using n by (simp_all add: tagged_def isObject_def hasProp_def getProp_def ownProps_def lengthOf_def)
qed

lemma case_back:
  assumes "distinct (map fst cs)" "liftedCase cs p" "\<And>c u x. c \<in> set cs \<Longrightarrow> snd c = Some u \<Longrightarrow> lifted u x \<Longrightarrow> \<exists>w. thereAndBack A False u x w"
  shows "\<exists>w. thereAndBack A b (TVariant cs) (VObj [p]) w"
proof -
  obtain l x where p: "p = (l, x)" by (cases p)
  obtain c where c: "c \<in> set cs" "fst c = l" "case snd c of None \<Rightarrow> x = VNull | Some u \<Rightarrow> lifted u x"
    using liftedCase_in [OF assms(2), unfolded p fst_conv snd_conv] by blast
  have h: "caseOf cs (\<lambda>m. m = l) = Some c" "caseOf cs (\<lambda>m. jsStr m = jsStr l) = Some c"
    by (rule caseOf_hit [OF assms(1) c(1)]; use c(2) in auto)+
  have s: "single A (VObj [(l, x)]) = Inr (l, x)" by (simp add: single_def)
  show ?thesis
  proof (cases "snd c")
    case None
    then show ?thesis using h s c p
      by (intro exI [of _ "HObj [(''kind'', HStr (jsStr l))]"])
        (simp add: thereAndBack_def toHost.simps fromHost.simps tagged_simps)
  next
    case (Some u)
    then obtain w where w: "\<And>sc. toHost A sc False u x = returnM w" "fromHost A False u w = returnM x"
      using assms(3) [OF c(1) Some, of x] c(3) by (auto simp: thereAndBack_def)
    then show ?thesis using h s Some c p
      by (intro exI [of _ "HObj [(''kind'', HStr (jsStr l)), (''value'', w)]"])
        (simp add: thereAndBack_def toHost.simps fromHost.simps tagged_simps)
  qed
qed

lemma option_back:
  assumes "lifted (TOption u) v" "\<And>x. lifted u x \<Longrightarrow> \<exists>w. thereAndBack A True u x w"
  shows "\<exists>w. thereAndBack A b (TOption u) v w"
proof -
  consider "v = VObj [(''none'', VNull)]" | x where "v = VObj [(''some'', x)]" "lifted u x"
    using assms(1) by (auto simp: lifted_option)
  then show ?thesis
  proof cases
    case 1
    then show ?thesis
      by (intro exI [of _ "if b then HObj [(''kind'', HStr (jsStr ''none''))] else HUndef"])
        (simp add: thereAndBack_def toHost.simps fromHost.simps tagged_simps single_def optionPayload_def)
  next
    case (2 x)
    then obtain w where w: "\<And>sc. toHost A sc True u x = returnM w" "fromHost A True u w = returnM x" "w \<noteq> HUndef"
      using assms(2) by (auto simp: thereAndBack_def)
    then show ?thesis using 2
      by (intro exI [of _ "if b then HObj [(''kind'', HStr (jsStr ''some'')), (''value'', w)] else w"])
        (simp add: thereAndBack_def toHost.simps fromHost.simps tagged_simps single_def optionPayload_def)
  qed
qed

lemma result_back:
  assumes "lifted (TResult okt er) v" "\<And>u x. okt = Some u \<or> er = Some u \<Longrightarrow> lifted u x \<Longrightarrow> \<exists>w. thereAndBack A False u x w"
  shows "\<exists>w. thereAndBack A b (TResult okt er) v w"
proof -
  obtain l x where v: "v = VObj [(l, x)]" "l = ''ok'' \<or> l = ''error''"
    "case (if l = ''error'' then er else okt) of None \<Rightarrow> x = VNull | Some u \<Rightarrow> lifted u x"
    using assms(1) by (auto simp: lifted.simps [of "TResult okt er"] split: JsVal.splits list.splits option.splits if_splits)
  define kind where "kind = (if l = ''error'' then ''err'' else ''ok'')"
  show ?thesis
  proof (cases "if l = ''error'' then er else okt")
    case None
    then show ?thesis using v
      by (intro exI [of _ "HObj [(''kind'', HStr (jsStr kind))]"])
        (auto simp: thereAndBack_def toHost.simps fromHost.simps tagged_simps single_def kind_def Let_def)
  next
    case (Some u)
    then obtain w where w: "\<And>sc. toHost A sc False u x = returnM w" "fromHost A False u w = returnM x"
      using assms(2) [of u x] v by (auto simp: thereAndBack_def split: if_splits)
    then show ?thesis using v Some
      by (intro exI [of _ "HObj [(''kind'', HStr (jsStr kind)), (''value'', w)]"])
        (auto simp: thereAndBack_def toHost.simps fromHost.simps tagged_simps single_def kind_def Let_def)
  qed
qed

lemma list_back:
  assumes "lifted (TList e n) v" "\<And>x. lifted e x \<Longrightarrow> \<exists>w. thereAndBack A False e x w"
  shows "\<exists>w. thereAndBack A b (TList e n) v w"
proof (cases "despecialize e = TPrim KU8")
  case True
  then obtain bs where "v = VBytes bs" using assms(1) by (auto simp: lifted.simps [of "TList e n"] split: JsVal.splits)
  then show ?thesis using True by (intro exI [of _ "HBytes bs"]) (simp add: thereAndBack_def toHost.simps fromHost.simps)
next
  case False
  then obtain xs where xs: "v = VArr xs" "list_all (lifted e) xs"
    using assms(1) by (auto simp: lifted.simps [of "TList e n"] split: JsVal.splits)
  have "\<exists>ws. list_all2 (thereAndBack A False e) xs ws"
    using xs(2)
  proof (induction xs)
    case (Cons x xs)
    then show ?case using assms(2) [of x] by (auto intro: list_all2_Cons [THEN iffD2])
  qed (intro exI [of _ "[]"], simp)
  then obtain ws where ws: "list_all2 (thereAndBack A False e) xs ws" by blast
  have "forM (toHost A sc False e) xs = returnM ws" for sc
    by (rule forM_return, rule list_all2_mono [OF ws]) (simp add: thereAndBack_def)
  moreover have "forM (fromHost A False e) ws = returnM xs"
    by (rule forM_return) (use ws in \<open>auto simp: list_all2_conv_all_nth thereAndBack_def\<close>)
  ultimately show ?thesis using False xs(1)
    by (intro exI [of _ "HArr ws"]) (simp add: thereAndBack_def toHost.simps fromHost.simps)
qed

lemma tuple_back:
  assumes "lifted (TTuple es) v" "distinct (map fst (indexFields 0 es))"
    "\<And>t x. t \<in> set es \<Longrightarrow> lifted t x \<Longrightarrow> \<exists>w. thereAndBack A False t x w"
  shows "\<exists>w. thereAndBack A b (TTuple es) v w"
proof -
  let ?fs = "indexFields 0 es"
  have len: "length (indexFields k es) = length es" for k by (induction es arbitrary: k) auto
  have part: "snd f \<in> set es" if "f \<in> set (indexFields k es)" for f k using that by (induction es arbitrary: k) auto
  obtain ps where ps: "v = VObj ps" "liftedFields ?fs ps"
    using assms(1) by (auto simp: lifted.simps [of "TTuple es"] split: JsVal.splits)
  then have l: "list_all2 (\<lambda>f p. fst p = fst f \<and> lifted (snd f) (snd p)) ?fs ps" by (simp add: liftedFields_iff)
  have "\<exists>w. thereAndBack A False (snd (?fs ! i)) (snd (ps ! i)) w" if "i < length ?fs" for i
    using l that assms(3) [OF part [of "?fs ! i" 0]] by (simp add: list_all2_conv_all_nth)
  then obtain W where W: "\<And>i. i < length ?fs \<Longrightarrow> thereAndBack A False (snd (?fs ! i)) (snd (ps ! i)) (W i)" by metis
  let ?ws = "map W [0..<length ?fs]"
  have lp: "length ps = length ?fs" using l by (simp add: list_all2_lengthD)
  have "map fst ps = map fst ?fs" using l by (simp add: list_all2_conv_all_nth list_eq_iff_nth_eq)
  then have dp: "distinct (map fst ps)" using assms(2) by simp
  have g: "js_get (VObj ps) (fst (?fs ! i)) = Inr (snd (ps ! i))" "(fst (?fs ! i), snd (ps ! i)) = ps ! i" if "i < length ?fs" for i
  proof -
    have k: "fst (ps ! i) = fst (?fs ! i)" using l that by (simp add: list_all2_conv_all_nth)
    then have "map_of ps (fst (?fs ! i)) = Some (snd (ps ! i))" using dp that lp by (metis map_of_is_SomeI nth_mem surjective_pairing)
    then show "js_get (VObj ps) (fst (?fs ! i)) = Inr (snd (ps ! i))" by simp
    show "(fst (?fs ! i), snd (ps ! i)) = ps ! i" using k by (metis prod.collapse)
  qed
  have "forM (\<lambda>f. bindM (liftR (js_get (VObj ps) (fst f))) (\<lambda>x. toHost A sc False (snd f) x)) ?fs = returnM ?ws" for sc
    by (rule forM_return) (use g W in \<open>auto simp: list_all2_conv_all_nth thereAndBack_def\<close>)
  moreover have "forM (\<lambda>(f, x). bindM (fromHost A False (snd f) x) (\<lambda>y. returnM (fst f, y))) (zip ?fs ?ws) = returnM ps"
    by (rule forM_return) (use g W lp in \<open>auto simp: list_all2_conv_all_nth thereAndBack_def split: prod.splits\<close>)
  ultimately show ?thesis using ps(1) len [of 0]
    by (intro exI [of _ "HArr ?ws"]) (simp add: thereAndBack_def toHost.simps fromHost.simps)
qed

lemma enum_back:
  assumes "lifted (TEnum ls) v" "distinct ls"
  shows "\<exists>w. thereAndBack A b (TEnum ls) v w"
proof -
  obtain p where p: "v = VObj [p]" "liftedCase (map (\<lambda>l. (l, None)) ls) p"
    using assms(1) by (auto simp: lifted.simps [of "TEnum ls"] split: JsVal.splits list.splits)
  then obtain l where l: "l \<in> set ls" "p = (l, VNull)" using liftedCase_in [OF p(2)] by (cases p) auto
  have "find (\<lambda>m. m = l) ls = Some l" using l(1) by (induction ls) auto
  then show ?thesis using p(1) l(2)
    by (intro exI [of _ "HStr (jsStr l)"]) (simp add: thereAndBack_def toHost.simps fromHost.simps single_def)
qed

lemma flags_back:
  fixes A :: "'s Adapter"
  assumes "lifted (TFlags ls) v" "distinct (map camelCase ls)" "distinct ls"
  shows "\<exists>w. thereAndBack A b (TFlags ls) v w"
proof -
  obtain ps where ps: "v = VObj ps" "map fst ps = ls" "list_all (\<lambda>p. case snd p of VBool b \<Rightarrow> True | _ \<Rightarrow> False) ps"
    using assms(1) by (auto simp: lifted.simps [of "TFlags ls"] split: JsVal.splits)
  define B where "B = (\<lambda>l. case map_of ps l of Some (VBool b) \<Rightarrow> b | _ \<Rightarrow> False)"
  have b: "map_of ps (fst p) = Some (VBool (B (fst p)))" "snd p = VBool (B (fst p))" if "p \<in> set ps" for p
  proof -
    have "map_of ps (fst p) = Some (snd p)" using that assms(3) ps(2) by (metis map_of_is_SomeI surjective_pairing)
    moreover have "\<exists>c. snd p = VBool c" using ps(3) that by (cases "snd p") (fastforce simp: list_all_iff)+
    ultimately show "map_of ps (fst p) = Some (VBool (B (fst p)))" "snd p = VBool (B (fst p))" by (auto simp: B_def)
  qed
  have m: "map_of ps l = Some (VBool (B l))" if "l \<in> set ls" for l using b(1) that ps(2) by auto
  let ?qs = "map (\<lambda>l. (camelCase l, HBool (B l))) ls"
  have "forM (\<lambda>l. bindM (liftR (js_get v l)) (\<lambda>x. returnM (camelCase l, HBool (js_truthy x)))) ls = (returnM ?qs :: ('s, (string \<times> HostVal) list) sm)"
    by (rule forM_return) (use m ps(1) in \<open>auto simp: list_all2_conv_all_nth js_truthy_def\<close>)
  moreover have "getProp (HObj ?qs) (camelCase l) = HBool (B l)" if "l \<in> set ls" for l
  proof -
    have "distinct (map fst ?qs)" using assms(2) by (simp add: comp_def)
    then have "map_of ?qs (camelCase l) = Some (HBool (B l))" using that by (intro map_of_is_SomeI) auto
    then show ?thesis by (simp add: getProp_def ownProps_def)
  qed
  moreover have "map (\<lambda>l. (l, VBool (B l))) ls = ps"
    unfolding ps(2) [symmetric] by (simp add: comp_def) (rule map_idI, use b(2) in \<open>auto simp: prod_eq_iff\<close>)
  ultimately show ?thesis using ps(1)
    by (intro exI [of _ "HObj ?qs"])
      (simp add: thereAndBack_def toHost.simps fromHost.simps names_ok [OF assms(2)] isObject_def hostTruthy_def cong: map_cong)
qed

lemma value_back:
  assumes "lifted t v" "wf_type t" "hostNames t"
  shows "\<exists>w. thereAndBack A b t v w"
  using assms
proof (induction t arbitrary: v b rule: tsize_induct)
  case (type t)
  show ?case
  proof (cases t)
    case (TPrim k)
    then have "conformsPrim k v" using type.prems(1) by (simp add: lifted.simps [of "TPrim k"])
    then show ?thesis using conformsPrim_back [of k v A] TPrim
      by (intro exI [of _ "asHost v"]) (simp add: thereAndBack_def toHost.simps fromHost.simps)
  next
    case TErrorContext
    then show ?thesis using type.prems(1)
      by (intro exI [of _ "HErrorContext v"]) (simp add: thereAndBack_def toHost.simps fromHost.simps)
  next
    case (TList e n)
    have "wf_type e" "hostNames e" using type.prems(2,3) TList by (simp_all add: wf_type.simps [of "TList e n"])
    then have "\<exists>w. thereAndBack A False e x w" if "lifted e x" for x using type.IH [of e x False] that TList by simp
    then show ?thesis unfolding TList by (rule list_back [OF type.prems(1) [unfolded TList]])
  next
    case (TRecord fs)
    obtain ps where ps: "v = VObj ps" "liftedFields fs ps"
      using type.prems(1) TRecord by (auto simp: lifted.simps [of "TRecord fs"] split: JsVal.splits)
    have w: "distinct (map fst fs)" "wf_type u" "hostNames u" if "(l, u) \<in> set fs" for l u
      using type.prems(2,3) TRecord that by (auto simp: wf_type.simps [of "TRecord fs"] list_all_iff)
    have n: "distinct (map fst fs)" using type.prems(2) TRecord by (simp add: wf_type.simps [of "TRecord fs"])
    have IH: "\<exists>x. thereAndBack A False u y x" if "(l, u) \<in> set fs" "lifted u y" for l u y
      using type.IH [of u y False] w [OF that(1)] that part_sizes(1) [OF that(1)] TRecord by simp
    have IHo: "\<exists>x. thereAndBack A True o1 y x" if m: "(l, u) \<in> set fs" "optionPayload u = Some o1" "lifted o1 y" for l u o1 y
    proof -
      have u: "u = TOption o1" using m(2) by (simp add: option_payload)
      then have "wf_type o1" "hostNames o1" using w [OF m(1)] by (simp_all add: wf_type.simps [of "TOption o1"])
      then show ?thesis using type.IH [of o1 y True] part_sizes(2) [OF m(1,2)] m(3) TRecord by simp
    qed
    show ?thesis
      unfolding TRecord ps(1)
      by (rule fields_back [OF IH IHo ps(2) _ n]) (use type.prems(3) TRecord in simp_all)
  next
    case (TTuple es)
    have IH: "\<exists>w. thereAndBack A False u y w" if m: "u \<in> set es" "lifted u y" for u y
    proof -
      have ix: "\<exists>l. (l, u) \<in> set (indexFields k es)" for k using m(1) by (induction es arbitrary: k) auto
      then obtain l where l: "(l, u) \<in> set (indexFields 0 es)" by blast
      then have "wf_type u" using type.prems(2) TTuple by (auto simp: wf_type.simps [of "TTuple es"] list_all_iff)
      moreover have "hostNames u" using type.prems(3) TTuple m(1) by (simp add: list_all_iff)
      ultimately show ?thesis using type.IH [of u y False] part_sizes(3) [OF l] m(2) TTuple by simp
    qed
    have "distinct (map fst (indexFields 0 es))" using type.prems(2) TTuple by (simp add: wf_type.simps [of "TTuple es"])
    then show ?thesis unfolding TTuple by (rule tuple_back [OF type.prems(1) [unfolded TTuple] _ IH])
  next
    case (TVariant cs)
    obtain p where p: "v = VObj [p]" "liftedCase cs p"
      using type.prems(1) TVariant by (auto simp: lifted.simps [of "TVariant cs"] split: JsVal.splits list.splits)
    have "distinct (map fst cs)" using type.prems(2) TVariant by (simp add: wf_type.simps [of "TVariant cs"])
    moreover have "\<exists>w. thereAndBack A False u x w" if m: "c \<in> set cs" "snd c = Some u" "lifted u x" for c u x
    proof -
      have "wf_type u" "hostNames u" using type.prems(2,3) TVariant m(1,2) by (auto simp: wf_type.simps [of "TVariant cs"] list_all_iff split: option.splits)
      moreover have "tsize u < tsize t" using tsize_case [OF m(1,2)] TVariant by (simp flip: csize_def)
      ultimately show ?thesis using type.IH [of u x False] m(3) by simp
    qed
    ultimately show ?thesis unfolding TVariant p(1) by (rule case_back [OF _ p(2)])
  next
    case (TEnum ls)
    have "distinct ls" using type.prems(2) TEnum by (simp add: wf_type.simps [of "TEnum ls"] comp_def)
    then show ?thesis unfolding TEnum by (rule enum_back [OF type.prems(1) [unfolded TEnum]])
  next
    case (TOption u)
    have "wf_type u" "hostNames u" using type.prems(2,3) TOption by (simp_all add: wf_type.simps [of "TOption u"])
    then have "\<exists>w. thereAndBack A True u x w" if "lifted u x" for x using type.IH [of u x True] that TOption by simp
    then show ?thesis unfolding TOption by (rule option_back [OF type.prems(1) [unfolded TOption]])
  next
    case (TResult okt er)
    have "wf_type u \<and> hostNames u" if "okt = Some u \<or> er = Some u" for u
      using type.prems(2,3) TResult that by (auto simp: wf_type.simps [of "TResult okt er"])
    moreover have "tsize u < tsize t" if "okt = Some u \<or> er = Some u" for u
      using TResult that by (auto split: option.splits)
    ultimately have "\<exists>w. thereAndBack A False u x w" if "okt = Some u \<or> er = Some u" "lifted u x" for u x
      using type.IH [of u x False] that by blast
    then show ?thesis unfolding TResult by (rule result_back [OF type.prems(1) [unfolded TResult]])
  next
    case (TMap k u)
    let ?d = "TList (TRecord [(showNat 0, k), (showNat (Suc 0), u)]) None"
    have e: "despecialize t = ?d" using TMap by simp
    have w: "wf_type ?d" using type.prems(2) unfolding TMap wf_type.simps [of "TMap k u"] wf_type.simps [of ?d] by simp
    have nm: "showNat 0 \<noteq> showNat (Suc 0)" "showNat 0 \<notin> set OBJECT_PROTOTYPE" "showNat (Suc 0) \<notin> set OBJECT_PROTOTYPE" by code_simp+
    have h: "hostNames ?d" using type.prems(3) TMap nm by (simp add: camelCase_digit)
    have l: "lifted ?d v" using type.prems(1) unfolding TMap lifted.simps [of "TMap k u"] lifted.simps [of ?d] by simp
    have "tsize ?d < tsize t" using TMap by simp
    then obtain w where "thereAndBack A False ?d v w" using type.IH [OF _ l w h] by blast
    then show ?thesis using TMap by (intro exI [of _ w]) (simp add: thereAndBack_def toHost.simps(11) fromHost.simps(11) optionPayload_def)
  next
    case (TFlags ls)
    have "distinct ls" using type.prems(2) TFlags by (simp add: wf_type.simps [of "TFlags ls"])
    moreover have "distinct (map camelCase ls)" using type.prems(3) TFlags by simp
    ultimately show ?thesis unfolding TFlags by (intro flags_back [OF type.prems(1) [unfolded TFlags]])
  qed (use type.prems(1) in \<open>simp_all add: lifted.simps\<close>)
qed

section \<open>Property\<close>

text \<open>C21: A value the guest hands to the host survives the way back. For a value in the form lifting produces, of a well-formed
  type that contains no handle, stream or future and that meets \<open>hostNames\<close> - the labels of each record and of each flags type
  stay distinct in camelCase, and no record has an option field whose camelCase name is one that every object inherits, such as
  \<open>to-string\<close> - adapting it to the conventions of the embedder gives a host value, whatever the borrow scope, and adapting that
  host value for the guest gives the lifted value again, nested options and empty cases included.  The condition on inherited
  names is needed: without it an absent option comes back present (\<open>HostClaims.inherited_option_field\<close>).\<close>

theorem host_value_roundtrip:
  assumes "lifted t v" "wf_type t" "hostNames t"
  shows "\<exists>w. (\<forall>sc. toHost A sc b t v = returnM w) \<and> fromHost A b t w = returnM v"
  using value_back [OF assms, of A b] by (auto simp: thereAndBack_def)

lemma lifted_simps:
  "lifted (TPrim k) v \<longleftrightarrow> conformsPrim k v"
  "lifted (TRecord fs) (VObj ps) \<longleftrightarrow> liftedFields fs ps"
  "lifted (TVariant cs) (VObj [p]) \<longleftrightarrow> liftedCase cs p"
  "lifted (TList (TPrim KU8) None) (VBytes bs)"
  by (simp_all add: lifted.simps [of "TPrim k"] lifted.simps [of "TRecord fs"] lifted.simps [of "TVariant cs"] lifted.simps [of "TList (TPrim KU8) None"])

text \<open>An optional nested option, a variant with and without payload, and bytes, as the fields of a record.\<close>

definition sampleType :: ValType where
  "sampleType = TRecord [(''maybe-deep'', TOption (TOption (TPrim KU8))), (''kind'', TVariant [(''a-b'', None), (''c'', Some (TPrim KBool))]),
     (''raw'', TList (TPrim KU8) None)]"

definition sampleValue :: JsVal where
  "sampleValue = VObj [(''maybe-deep'', VObj [(''some'', VObj [(''none'', VNull)])]), (''kind'', VObj [(''c'', VBool True)]), (''raw'', VBytes [1, 2])]"

lemma sample_lifted: "lifted sampleType sampleValue"
  by (simp add: sampleType_def sampleValue_def lifted_simps lifted_option)

lemma sample_wf: "wf_type sampleType"
  by (simp add: sampleType_def wf_type.simps [of "TRecord fs" for fs] wf_type.simps [of "TPrim k" for k] wf_type.simps [of "TOption t" for t]
      wf_type.simps [of "TVariant cs" for cs] wf_type.simps [of "TList t n" for t n])

lemma sample_names: "hostNames sampleType"
  by code_simp

theorem host_value_roundtrip_witness:
  "\<forall>A :: unit Adapter. \<exists>w. (\<forall>sc. toHost A sc False sampleType sampleValue = returnM w) \<and> fromHost A False sampleType w = returnM sampleValue"
  by (intro allI host_value_roundtrip [OF sample_lifted sample_wf sample_names])

end
