(* ===== verification/HostResProps.thy ===== *)
theory HostResProps
  imports HostCalls HostProps
begin

text \<open>
  The life of a handle on the host: every owned handle the guest gave the host is destroyed or transferred at most once, not
  while it is lent, and nothing of it is lost; and a rep of a host-implemented resource never comes to name another instance.
\<close>

section \<open>Histories of wrappers\<close>

text \<open>
  The state with a record of what happened: the owned handles lifted, the destructors run, the handles transferred, and the
  wrapper each lend is of.
\<close>

record hostlog = embed +
  lg_lifted :: "(nat \<times> JsVal) list"
  lg_ran :: "(nat \<times> JsVal) list"
  lg_gone :: "(nat \<times> JsVal) list"
  lg_lend :: "nat \<Rightarrow> nat option"

text \<open>A destructor that is recorded, and fails where \<open>fails\<close> says so.\<close>

definition recordedDtor :: "(nat \<Rightarrow> JsVal \<Rightarrow> error option) \<Rightarrow> hostlog Dtor" where
  "recordedDtor fails rt rep =
     bindM (modifyM (\<lambda>h. h\<lparr>lg_ran := (rt, rep) # lg_ran h\<rparr>)) (\<lambda>_.
     case fails rt rep of None \<Rightarrow> returnM () | Some e \<Rightarrow> throwM e)"

text \<open>
  \<open>handleHistory fails h\<close>: \<open>h\<close> comes about by lifting handles, dropping, collecting, lending, releasing, transferring and
  ending the scopes of borrows, in any order, whatever each of them throws.
\<close>

inductive handleHistory :: "(nat \<Rightarrow> JsVal \<Rightarrow> error option) \<Rightarrow> hostlog \<Rightarrow> bool" for fails where
  none: "wrappers h = (\<lambda>_. None) \<Longrightarrow> lg_lifted h = [] \<Longrightarrow> lg_ran h = [] \<Longrightarrow> lg_gone h = [] \<Longrightarrow> lg_lend h = (\<lambda>_. None) \<Longrightarrow> handleHistory fails h"
| lift: "handleHistory fails h \<Longrightarrow> makeWrapper cls rep rt True h = (Inr w, h1) \<Longrightarrow>
    handleHistory fails (h1\<lparr>lg_lifted := (rt, rep) # lg_lifted h1\<rparr>)"
| borrowed: "handleHistory fails h \<Longrightarrow> makeWrapper cls rep rt False h = (Inr w, h1) \<Longrightarrow> handleHistory fails h1"
| drop: "handleHistory fails h \<Longrightarrow> handleHistory fails (snd (dropWrapper (recordedDtor fails) w h))"
| collect: "handleHistory fails h \<Longrightarrow> handleHistory fails (snd (runBackstop (recordedDtor fails) w h))"
| lend: "handleHistory fails h \<Longrightarrow> takeRep (HHandle w) False what h = (Inr rep, h) \<Longrightarrow> lendWrapper w h = (Inr (Some (ReleaseLend c w)), h1) \<Longrightarrow>
    handleHistory fails (h1\<lparr>lg_lend := (lg_lend h1)(c := Some w)\<rparr>)"
| release: "handleHistory fails h \<Longrightarrow> lg_lend h c = Some w \<Longrightarrow> handleHistory fails (snd (runRelease (recordedDtor fails) (ReleaseLend c w) h))"
| transfer: "handleHistory fails h \<Longrightarrow> takeRep (HHandle w) True what h = (Inr rep, h1) \<Longrightarrow> wrappers h w = Some s \<Longrightarrow>
    handleHistory fails (h1\<lparr>lg_gone := (if ws_owns s then (ws_rt s, rep) # lg_gone h1 else lg_gone h1)\<rparr>)"
| ended: "handleHistory fails h \<Longrightarrow> (case wrappers h w of None \<Rightarrow> True | Some s \<Rightarrow> \<not> ws_owns s) \<Longrightarrow>
    handleHistory fails (snd (invalidateWrapper w h))"

text \<open>The handle is still to be destroyed.\<close>

definition handleDue :: "nat \<times> JsVal \<Rightarrow> WrapperState option \<Rightarrow> nat" where
  "handleDue k o1 = (case o1 of None \<Rightarrow> 0 | Some s \<Rightarrow> if ws_owns s \<and> (ws_valid s \<or> ws_pendingDrop s) \<and> (ws_rt s, ws_rep s) = k then 1 else 0)"

definition dueCount :: "nat \<times> JsVal \<Rightarrow> 'x embed_scheme \<Rightarrow> nat" where
  "dueCount k h = (\<Sum>w < nextObject h. handleDue k (wrappers h w))"

text \<open>The lends of a wrapper that have not been released.\<close>

definition openLends :: "nat \<Rightarrow> hostlog \<Rightarrow> nat set" where
  "openLends w h = {c. lg_lend h c = Some w \<and> \<not> releasedLends h c}"

definition handle_inv :: "hostlog \<Rightarrow> bool" where
  "handle_inv h \<longleftrightarrow>
     (\<forall>w. w \<ge> nextObject h \<longrightarrow> wrappers h w = None) \<and>
     (\<forall>c. c \<ge> nextObject h \<longrightarrow> lg_lend h c = None) \<and>
     (\<forall>k. count_list (lg_lifted h) k = count_list (lg_ran h) k + count_list (lg_gone h) k + dueCount k h) \<and>
     (\<forall>w. wrappers h w = None \<longrightarrow> openLends w h = {}) \<and>
     (\<forall>w s. wrappers h w = Some s \<longrightarrow> ws_lends s = int (card (openLends w h)) \<and>
        (ws_pendingDrop s \<longrightarrow> \<not> ws_valid s \<and> ws_owns s \<and> ws_lends s > 0) \<and>
        (ws_owns s \<and> ws_lends s > 0 \<longrightarrow> ws_valid s \<or> ws_pendingDrop s))"

lemma dueCount_upd:
  assumes "w < nextObject h" "nextObject h' = nextObject h" "wrappers h' = (wrappers h)(w := x)"
  shows "dueCount k h' + handleDue k (wrappers h w) = dueCount k h + handleDue k x"
proof -
  have "dueCount k h' = handleDue k x + (\<Sum>v \<in> {..<nextObject h} - {w}. handleDue k (wrappers h' v))"
    unfolding dueCount_def assms(2) using assms(1,3) by (subst sum.remove [of _ w]) simp_all
  also have "(\<Sum>v \<in> {..<nextObject h} - {w}. handleDue k (wrappers h' v)) = (\<Sum>v \<in> {..<nextObject h} - {w}. handleDue k (wrappers h v))"
    using assms(3) by (intro sum.cong) auto
  finally show ?thesis
    unfolding dueCount_def using assms(1) by (subst (2) sum.remove [of _ w]) simp_all
qed

lemma handle_invD:
  assumes "handle_inv h"
  shows "w \<ge> nextObject h \<Longrightarrow> wrappers h w = None" "c \<ge> nextObject h \<Longrightarrow> lg_lend h c = None"
    "count_list (lg_lifted h) k = count_list (lg_ran h) k + count_list (lg_gone h) k + dueCount k h"
    "wrappers h w = None \<Longrightarrow> openLends w h = {}"
    "wrappers h w = Some s \<Longrightarrow> ws_lends s = int (card (openLends w h))"
    "wrappers h w = Some s \<Longrightarrow> ws_pendingDrop s \<Longrightarrow> \<not> ws_valid s \<and> ws_owns s \<and> ws_lends s > 0"
    "wrappers h w = Some s \<Longrightarrow> ws_owns s \<Longrightarrow> ws_lends s > 0 \<Longrightarrow> ws_valid s \<or> ws_pendingDrop s"
    "wrappers h w = Some s \<Longrightarrow> w < nextObject h"
  using assms unfolding handle_inv_def by (blast, blast, blast, blast, blast, blast, blast, metis not_le option.distinct(1))

text \<open>A change of one wrapper's validity, pending drop and of the record, with the account in step.\<close>

lemma handle_inv_change:
  assumes "handle_inv h" "wrappers h w = Some s" "wrappers h' = (wrappers h)(w := Some s')" "nextObject h' = nextObject h"
    "lg_lend h' = lg_lend h" "releasedLends h' = releasedLends h" "ws_lends s' = ws_lends s" "lg_lifted h' = lg_lifted h"
    "\<And>k. count_list (lg_ran h') k + count_list (lg_gone h') k + handleDue k (Some s') =
       count_list (lg_ran h) k + count_list (lg_gone h) k + handleDue k (Some s)"
    "ws_pendingDrop s' \<Longrightarrow> \<not> ws_valid s' \<and> ws_owns s' \<and> ws_lends s > 0"
    "ws_owns s' \<Longrightarrow> ws_lends s > 0 \<Longrightarrow> ws_valid s' \<or> ws_pendingDrop s'"
  shows "handle_inv h'"
proof -
  have w: "w < nextObject h" using handle_invD(8) [OF assms(1,2)] .
  have ol: "openLends v h' = openLends v h" for v by (simp add: openLends_def assms(5,6))
  have "count_list (lg_lifted h') k = count_list (lg_ran h') k + count_list (lg_gone h') k + dueCount k h'" for k
    using dueCount_upd [OF w assms(4,3), of k] handle_invD(3) [OF assms(1), of k] assms(2,8) assms(9) [of k] by simp
  moreover have "wrappers h' v = None \<Longrightarrow> openLends v h' = {}" for v
    using assms(3) ol handle_invD(4) [OF assms(1)] by (auto split: if_splits)
  moreover have "ws_lends t = int (card (openLends v h')) \<and> (ws_pendingDrop t \<longrightarrow> \<not> ws_valid t \<and> ws_owns t \<and> ws_lends t > 0) \<and>
      (ws_owns t \<and> ws_lends t > 0 \<longrightarrow> ws_valid t \<or> ws_pendingDrop t)" if t: "wrappers h' v = Some t" for v t
  proof (cases "v = w")
    case True
    then have "t = s'" using t assms(3) by simp
    then show ?thesis using True assms(7,10,11) ol handle_invD(5) [OF assms(1,2)] by auto
  next
    case False
    then have "wrappers h v = Some t" using t assms(3) by simp
    then show ?thesis using ol handle_invD(5-7) [OF assms(1)] by auto
  qed
  moreover have "v \<ge> nextObject h' \<Longrightarrow> wrappers h' v = None" for v using assms(3,4) w handle_invD(1) [OF assms(1)] by auto
  moreover have "c \<ge> nextObject h' \<Longrightarrow> lg_lend h' c = None" for c using assms(4,5) handle_invD(2) [OF assms(1)] by simp
  ultimately show ?thesis unfolding handle_inv_def by blast
qed

section \<open>Each operation keeps the account\<close>

lemma recorded_run [simp]: "snd (recordedDtor fails rt rep h) = h\<lparr>lg_ran := (rt, rep) # lg_ran h\<rparr>"
  by (simp add: recordedDtor_def run_simps split: option.splits)

lemma hostDrop_run:
  obtains F where "snd (runHostDrop (recordedDtor fails) s h) = h\<lparr>lg_ran := (ws_rt s, ws_rep s) # lg_ran h, hostFailures := F\<rparr>"
proof (cases "fails (ws_rt s) (ws_rep s)")
  case None
  then show thesis using that [of "hostFailures h"] by (simp add: runHostDrop_def catchM_def recordedDtor_def run_simps)
next
  case (Some e)
  then have "\<exists>F. snd (runHostDrop (recordedDtor fails) s h) = h\<lparr>lg_ran := (ws_rt s, ws_rep s) # lg_ran h, hostFailures := F\<rparr>"
    by (auto simp: runHostDrop_def catchM_def recordedDtor_def run_simps recordHostFailure_def split: option.splits)
       (metis hostlog.surjective embed.update_convs(13))+
  then show thesis using that by blast
qed

lemma dropped_keeps: "handle_inv h \<Longrightarrow> handle_inv (snd (dropWrapper (recordedDtor fails) w h))"
proof -
  assume i: "handle_inv h"
  show ?thesis
  proof (cases "wrappers h w")
    case None
    then show ?thesis using i by (simp add: dropWrapper_def run_simps)
  next
    case s: (Some s)
    show ?thesis
    proof (cases "ws_valid s")
      case False
      then show ?thesis using i s by (simp add: dropWrapper_def run_simps)
    next
      case v: True
      then have np: "\<not> ws_pendingDrop s" using handle_invD(6) [OF i s] by blast
      consider "\<not> ws_owns s" | "ws_owns s" "ws_lends s > 0" | "ws_owns s" "\<not> ws_lends s > 0" by blast
      then show ?thesis
      proof cases
        case 1
        then show ?thesis using s v
          by (intro handle_inv_change [OF i s, of _ "s\<lparr>ws_valid := False\<rparr>"])
            (simp_all add: dropWrapper_def run_simps updWrapper_def handleDue_def np)
      next
        case 2
        then show ?thesis using s v
          by (intro handle_inv_change [OF i s, of _ "s\<lparr>ws_valid := False, ws_pendingDrop := True\<rparr>"])
            (simp_all add: dropWrapper_def run_simps updWrapper_def handleDue_def np)
      next
        case 3
        then show ?thesis using s v
          by (intro handle_inv_change [OF i s, of _ "s\<lparr>ws_valid := False\<rparr>"])
            (simp_all add: dropWrapper_def run_simps updWrapper_def handleDue_def np)
      qed
    qed
  qed
qed

lemma collect_keeps: "handle_inv h \<Longrightarrow> handle_inv (snd (runBackstop (recordedDtor fails) w h))"
proof -
  assume i: "handle_inv h"
  show ?thesis
  proof (cases "wrappers h w")
    case None
    then show ?thesis using i by (simp add: runBackstop_def run_simps)
  next
    case s: (Some s)
    show ?thesis
    proof (cases "ws_valid s \<and> ws_owns s")
      case False
      then show ?thesis using i s by (auto simp: runBackstop_def run_simps)
    next
      case v: True
      then have np: "\<not> ws_pendingDrop s" using handle_invD(6) [OF i s] by blast
      show ?thesis
      proof (cases "ws_lends s > 0")
        case True
        then show ?thesis using s v
          by (intro handle_inv_change [OF i s, of _ "s\<lparr>ws_valid := False, ws_pendingDrop := True\<rparr>"])
            (simp_all add: runBackstop_def run_simps updWrapper_def handleDue_def np)
      next
        case False
        let ?h = "updWrapper w (\<lambda>s. s\<lparr>ws_valid := False\<rparr>) h"
        obtain F where F: "snd (runHostDrop (recordedDtor fails) s ?h) = ?h\<lparr>lg_ran := (ws_rt s, ws_rep s) # lg_ran ?h, hostFailures := F\<rparr>"
          by (rule hostDrop_run)
        then have "snd (runBackstop (recordedDtor fails) w h) = ?h\<lparr>lg_ran := (ws_rt s, ws_rep s) # lg_ran ?h, hostFailures := F\<rparr>"
          using s v False by (simp add: runBackstop_def run_simps)
        then show ?thesis using s v False
          by (intro handle_inv_change [OF i s, of _ "s\<lparr>ws_valid := False\<rparr>"])
            (simp_all add: updWrapper_def handleDue_def np)
      qed
    qed
  qed
qed

lemma take_own_run:
  assumes "takeRep (HHandle w) True what h = (Inr rep, h1)" "wrappers h w = Some s"
  shows "h1 = (updWrapper w (\<lambda>s. s\<lparr>ws_valid := False\<rparr>) h)\<lparr>tracked := (tracked h)(w := False)\<rparr>" "rep = ws_rep s" "ws_valid s" "\<not> ws_lends s > 0"
  using assms
  by (auto simp: takeRep_def requireLive_def run_simps isObject_def bindM_def split: if_splits)

lemma transfer_keeps:
  assumes "handle_inv h" "takeRep (HHandle w) True what h = (Inr rep, h1)" "wrappers h w = Some s"
  shows "handle_inv (h1\<lparr>lg_gone := (if ws_owns s then (ws_rt s, rep) # lg_gone h1 else lg_gone h1)\<rparr>)"
proof -
  note t = take_own_run [OF assms(2,3)]
  have np: "\<not> ws_pendingDrop s" using handle_invD(6) [OF assms(1,3)] t(3) by blast
  show ?thesis
    unfolding t(1,2)
    by (rule handle_inv_change [OF assms(1,3), of _ "s\<lparr>ws_valid := False\<rparr>"])
      (use assms(3) t np in \<open>simp_all add: updWrapper_def handleDue_def\<close>)
qed

lemma ended_keeps:
  assumes "handle_inv h" "case wrappers h w of None \<Rightarrow> True | Some s \<Rightarrow> \<not> ws_owns s"
  shows "handle_inv (snd (invalidateWrapper w h))"
proof (cases "wrappers h w")
  case None
  then show ?thesis using assms(1) by (simp add: invalidateWrapper_def run_simps)
next
  case (Some s)
  then have np: "\<not> ws_pendingDrop s" "\<not> ws_owns s" using handle_invD(6) [OF assms(1) Some] assms(2) by auto
  then show ?thesis using Some
    by (intro handle_inv_change [OF assms(1) Some, of _ "s\<lparr>ws_valid := False\<rparr>"])
      (simp_all add: invalidateWrapper_def run_simps updWrapper_def handleDue_def)
qed

lemma openLends_known: "handle_inv h \<Longrightarrow> openLends w h \<subseteq> {..<nextObject h}"
  using handle_invD(2) by (force simp: openLends_def not_le [symmetric])

lemma make_keeps:
  assumes "handle_inv h" "makeWrapper cls rep rt owns h = (Inr w, h1)"
  shows "handle_inv (h1\<lparr>lg_lifted := (if owns then (rt, rep) # lg_lifted h1 else lg_lifted h1)\<rparr>)"
proof -
  let ?s = "\<lparr>ws_rep = rep, ws_valid = True, ws_owns = owns, ws_rt = rt, ws_class = cls, ws_lends = 0, ws_pendingDrop = False\<rparr>"
  have h1: "h1 = h\<lparr>nextObject := Suc (nextObject h), wrappers := (wrappers h)(nextObject h := Some ?s), tracked := (tracked h)(nextObject h := owns)\<rparr>"
    "w = nextObject h"
    using assms(2) by (auto simp: makeWrapper_def initWrapper_def run_simps bindM_def)
  let ?h = "h1\<lparr>lg_lifted := (if owns then (rt, rep) # lg_lifted h1 else lg_lifted h1)\<rparr>"
  have n: "wrappers h (nextObject h) = None" using handle_invD(1) [OF assms(1)] by blast
  have ol: "openLends v ?h = openLends v h" for v by (simp add: openLends_def h1)
  have due: "dueCount k ?h = dueCount k h + handleDue k (Some ?s)" for k
    by (simp add: dueCount_def h1)
  have "count_list (lg_lifted ?h) k = count_list (lg_ran ?h) k + count_list (lg_gone ?h) k + dueCount k ?h" for k
    unfolding due using handle_invD(3) [OF assms(1), of k] by (simp add: h1 handleDue_def)
  moreover have "v \<ge> nextObject ?h \<Longrightarrow> wrappers ?h v = None" for v using handle_invD(1) [OF assms(1)] by (simp add: h1)
  moreover have "c \<ge> nextObject ?h \<Longrightarrow> lg_lend ?h c = None" for c using handle_invD(2) [OF assms(1)] by (simp add: h1)
  moreover have "wrappers ?h v = None \<Longrightarrow> openLends v ?h = {}" for v
    unfolding ol using handle_invD(4) [OF assms(1)] by (simp add: h1 split: if_splits)
  moreover have "ws_lends t = int (card (openLends v ?h)) \<and> (ws_pendingDrop t \<longrightarrow> \<not> ws_valid t \<and> ws_owns t \<and> ws_lends t > 0) \<and>
      (ws_owns t \<and> ws_lends t > 0 \<longrightarrow> ws_valid t \<or> ws_pendingDrop t)" if t: "wrappers ?h v = Some t" for v t
  proof (cases "v = nextObject h")
    case True
    then have "t = ?s" "openLends v h = {}" using t handle_invD(4) [OF assms(1) n] by (simp_all add: h1)
    then show ?thesis unfolding ol by simp
  next
    case False
    then have "wrappers h v = Some t" using t by (simp add: h1)
    then show ?thesis unfolding ol using handle_invD(5-7) [OF assms(1)] by auto
  qed
  ultimately show ?thesis unfolding handle_inv_def by blast
qed

lemma lend_keeps:
  assumes "handle_inv h" "takeRep (HHandle w) False what h = (Inr rep, h)" "lendWrapper w h = (Inr (Some (ReleaseLend c w)), h1)"
  shows "handle_inv (h1\<lparr>lg_lend := (lg_lend h1)(c := Some w)\<rparr>)"
proof -
  obtain s where s: "wrappers h w = Some s" "ws_valid s"
    using assms(2) by (auto simp: takeRep_def requireLive_def run_simps isObject_def bindM_def split: if_splits option.splits)
  have h1: "h1 = (updWrapper w (\<lambda>s. s\<lparr>ws_lends := ws_lends s + 1\<rparr>) h)\<lparr>nextObject := Suc (nextObject h), releasedLends := (releasedLends h)(nextObject h := False)\<rparr>"
    "c = nextObject h"
    using assms(3) s(1) by (auto simp: lendWrapper_def run_simps bindM_def)
  let ?h = "h1\<lparr>lg_lend := (lg_lend h1)(c := Some w)\<rparr>" and ?s = "s\<lparr>ws_lends := ws_lends s + 1\<rparr>"
  have w: "w < nextObject h" using handle_invD(8) [OF assms(1) s(1)] .
  have np: "\<not> ws_pendingDrop s" using handle_invD(6) [OF assms(1) s(1)] s(2) by blast
  have wr: "wrappers ?h = (wrappers h)(w := Some ?s)" using s(1) by (simp add: h1 updWrapper_def)
  have old: "lg_lend h (nextObject h) = None" using handle_invD(2) [OF assms(1)] by blast
  have ol: "openLends v ?h = (if v = w then insert c (openLends w h) else openLends v h)" for v
    using old by (auto simp: openLends_def h1 updWrapper_def)
  have fin: "finite (openLends w h)" "c \<notin> openLends w h" using openLends_known [OF assms(1), of w] finite_subset h1(2) by auto
  have due: "dueCount k ?h = dueCount k h" for k
  proof -
    have "wrappers ?h (nextObject h) = None" using wr w handle_invD(1) [OF assms(1)] by simp
    then have "dueCount k ?h = (\<Sum>v < nextObject h. handleDue k (wrappers ?h v))"
      by (simp add: dueCount_def h1 handleDue_def updWrapper_def)
    also have "\<dots> = dueCount k h" unfolding dueCount_def using wr s(1) by (intro sum.cong) (auto simp: handleDue_def)
    finally show ?thesis .
  qed
  have "count_list (lg_lifted ?h) k = count_list (lg_ran ?h) k + count_list (lg_gone ?h) k + dueCount k ?h" for k
    unfolding due using handle_invD(3) [OF assms(1), of k] by (simp add: h1 updWrapper_def)
  moreover have "v \<ge> nextObject ?h \<Longrightarrow> wrappers ?h v = None" for v using wr w handle_invD(1) [OF assms(1)] by (simp add: h1)
  moreover have "d \<ge> nextObject ?h \<Longrightarrow> lg_lend ?h d = None" for d using handle_invD(2) [OF assms(1)] by (simp add: h1 updWrapper_def)
  moreover have "wrappers ?h v = None \<Longrightarrow> openLends v ?h = {}" for v
    using wr ol handle_invD(4) [OF assms(1)] by (simp split: if_splits)
  moreover have "ws_lends t = int (card (openLends v ?h)) \<and> (ws_pendingDrop t \<longrightarrow> \<not> ws_valid t \<and> ws_owns t \<and> ws_lends t > 0) \<and>
      (ws_owns t \<and> ws_lends t > 0 \<longrightarrow> ws_valid t \<or> ws_pendingDrop t)" if t: "wrappers ?h v = Some t" for v t
  proof (cases "v = w")
    case True
    then have "t = ?s" using t wr by simp
    then show ?thesis using True ol fin handle_invD(5) [OF assms(1) s(1)] np s(2) by simp
  next
    case False
    then have "wrappers h v = Some t" using t wr by simp
    then show ?thesis using False ol handle_invD(5-7) [OF assms(1)] by auto
  qed
  ultimately show ?thesis unfolding handle_inv_def by blast
qed

text \<open>One lend fewer, with the account in step.\<close>

lemma released_inv:
  assumes "handle_inv h" "lg_lend h c = Some w" "\<not> releasedLends h c" "wrappers h w = Some s"
    "wrappers h' = (wrappers h)(w := Some s')" "nextObject h' = nextObject h" "lg_lend h' = lg_lend h"
    "releasedLends h' = (releasedLends h)(c := True)" "ws_lends s' = ws_lends s - 1" "lg_lifted h' = lg_lifted h" "lg_gone h' = lg_gone h"
    "\<And>k. count_list (lg_ran h') k + handleDue k (Some s') = count_list (lg_ran h) k + handleDue k (Some s)"
    "ws_pendingDrop s' \<Longrightarrow> \<not> ws_valid s' \<and> ws_owns s' \<and> ws_lends s' > 0"
    "ws_owns s' \<Longrightarrow> ws_lends s' > 0 \<Longrightarrow> ws_valid s' \<or> ws_pendingDrop s'"
  shows "handle_inv h'"
proof -
  have w: "w < nextObject h" using handle_invD(8) [OF assms(1,4)] .
  have ol: "openLends v h' = (if v = w then openLends w h - {c} else openLends v h)" for v
    using assms(2,7,8) by (auto simp: openLends_def)
  have c: "c \<in> openLends w h" "finite (openLends w h)"
    using assms(2,3) openLends_known [OF assms(1), of w] finite_subset by (auto simp: openLends_def)
  have cd: "int (card (openLends w h - {c})) = int (card (openLends w h)) - 1"
  proof -
    have "0 < card (openLends w h)" using c card_gt_0_iff by blast
    then show ?thesis using c by (simp add: of_nat_diff)
  qed
  have "count_list (lg_lifted h') k = count_list (lg_ran h') k + count_list (lg_gone h') k + dueCount k h'" for k
    using dueCount_upd [OF w assms(6,5), of k] handle_invD(3) [OF assms(1), of k] assms(4,10,11) assms(12) [of k] by simp
  moreover have "v \<ge> nextObject h' \<Longrightarrow> wrappers h' v = None" for v using assms(5,6) w handle_invD(1) [OF assms(1)] by auto
  moreover have "d \<ge> nextObject h' \<Longrightarrow> lg_lend h' d = None" for d using assms(6,7) handle_invD(2) [OF assms(1)] by simp
  moreover have "wrappers h' v = None \<Longrightarrow> openLends v h' = {}" for v
    using assms(5) ol handle_invD(4) [OF assms(1)] by (auto split: if_splits)
  moreover have "ws_lends t = int (card (openLends v h')) \<and> (ws_pendingDrop t \<longrightarrow> \<not> ws_valid t \<and> ws_owns t \<and> ws_lends t > 0) \<and>
      (ws_owns t \<and> ws_lends t > 0 \<longrightarrow> ws_valid t \<or> ws_pendingDrop t)" if t: "wrappers h' v = Some t" for v t
  proof (cases "v = w")
    case True
    then have "t = s'" using t assms(5) by simp
    then show ?thesis using True assms(9,13,14) ol cd handle_invD(5) [OF assms(1,4)] by auto
  next
    case False
    then have "wrappers h v = Some t" using t assms(5) by simp
    then show ?thesis using False ol handle_invD(5-7) [OF assms(1)] by auto
  qed
  ultimately show ?thesis unfolding handle_inv_def by blast
qed

lemma unlend_keeps:
  assumes "handle_inv h" "lg_lend h c = Some w"
  shows "handle_inv (snd (runRelease (recordedDtor fails) (ReleaseLend c w) h))"
proof (cases "releasedLends h c")
  case True
  then show ?thesis using assms(1) by (simp add: runRelease_def run_simps)
next
  case False
  have "c \<in> openLends w h" using assms(2) False by (simp add: openLends_def)
  then obtain s where s: "wrappers h w = Some s" using handle_invD(4) [OF assms(1), of w] by (cases "wrappers h w") auto
  let ?h1 = "h\<lparr>releasedLends := (releasedLends h)(c := True)\<rparr>"
  let ?h2 = "updWrapper w (\<lambda>s. s\<lparr>ws_lends := ws_lends s - 1\<rparr>) ?h1"
  note change = released_inv [OF assms False s]
  show ?thesis
  proof (cases "ws_lends s - 1 > 0 \<or> \<not> ws_pendingDrop s")
    case True
    then have e: "snd (runRelease (recordedDtor fails) (ReleaseLend c w) h) = ?h2"
      using s False by (auto simp: runRelease_def releaseLend_def run_simps updWrapper_def)
    show ?thesis
      unfolding e using s True handle_invD(6,7) [OF assms(1) s]
      by (intro change [of _ "s\<lparr>ws_lends := ws_lends s - 1\<rparr>"]) (auto simp: updWrapper_def handleDue_def)
  next
    case last: False
    let ?h3 = "updWrapper w (\<lambda>s. s\<lparr>ws_pendingDrop := False\<rparr>) ?h2"
    obtain F where F: "snd (runHostDrop (recordedDtor fails) s ?h3) = ?h3\<lparr>lg_ran := (ws_rt s, ws_rep s) # lg_ran ?h3, hostFailures := F\<rparr>"
      by (rule hostDrop_run)
    have e: "snd (runRelease (recordedDtor fails) (ReleaseLend c w) h) = ?h3\<lparr>lg_ran := (ws_rt s, ws_rep s) # lg_ran ?h3, hostFailures := F\<rparr>"
      using s False last F by (auto simp: runRelease_def releaseLend_def run_simps updWrapper_def)
    have d: "\<not> ws_valid s" "ws_owns s" "ws_lends s = 1" "ws_pendingDrop s" using last handle_invD(6) [OF assms(1) s] by auto
    show ?thesis
      unfolding e using s d
      by (intro change [of _ "s\<lparr>ws_lends := ws_lends s - 1, ws_pendingDrop := False\<rparr>"]) (simp_all add: updWrapper_def handleDue_def)
  qed
qed

lemma history_inv: "handleHistory fails h \<Longrightarrow> handle_inv h"
proof (induction rule: handleHistory.induct)
  case (none h)
  then show ?case by (simp add: handle_inv_def openLends_def dueCount_def handleDue_def)
next
  case (lift h cls rep rt w h1)
  then show ?case using make_keeps [of h cls rep rt True w h1] by simp
next
  case (borrowed h cls rep rt w h1)
  then show ?case using make_keeps [of h cls rep rt False w h1] by simp
next
  case (transfer h w what rep h1 s)
  then show ?case using transfer_keeps by blast
next
  case (lend h w what rep c h1)
  then show ?case using lend_keeps by blast
qed (simp_all add: dropped_keeps collect_keeps unlend_keeps ended_keeps)

end
