(* ===== verification/HostClaims.thy ===== *)
theory HostClaims
  imports HostResProps
begin

text \<open>
  What the embedder's side promises: the account of the handles the host owns, drops deferred by a lend, reps of
  host-implemented resources, and calls that pass through both wrappers.
\<close>

section \<open>Handles the host owns\<close>

text \<open>The state of an instance before any call, with the guest's resource type 7 bound.\<close>

definition emptyEmbed :: hostlog where
  "emptyEmbed =
     \<lparr>nextObject = 0, wrappers = (\<lambda>_. None), foreignWrappers = (\<lambda>_. False), tracked = (\<lambda>_. False), releasedLends = (\<lambda>_. False),
      registries = (\<lambda>_. newRegistry), bindings = [7 \<mapsto> GuestBinding ''file''], tokenIndex = [7 \<mapsto> 7], exportsBuilt = True, lowerScope = None,
      borrowScopes = (\<lambda>_. []), storeOfType = (\<lambda>_. None), hostFailures = (\<lambda>_. None), lg_lifted = [], lg_ran = [], lg_gone = [], lg_lend = (\<lambda>_. None)\<rparr>"

lemma emptyEmbed_history: "handleHistory fails emptyEmbed"
  by (rule handleHistory.none) (simp_all add: emptyEmbed_def)

definition oneWrapper :: WrapperState where
  "oneWrapper = \<lparr>ws_rep = VNum 5, ws_valid = True, ws_owns = True, ws_rt = 7, ws_class = ''File'', ws_lends = 0, ws_pendingDrop = False\<rparr>"

definition oneHandle :: hostlog where
  "oneHandle = emptyEmbed\<lparr>nextObject := 1, wrappers := [0 \<mapsto> oneWrapper], tracked := (\<lambda>_. False)(0 := True), lg_lifted := [(7, VNum 5)]\<rparr>"

lemma oneHandle_history: "handleHistory fails oneHandle"
proof -
  have "makeWrapper ''File'' (VNum 5) 7 True emptyEmbed = (Inr 0, oneHandle\<lparr>lg_lifted := []\<rparr>)"
    by (simp add: makeWrapper_def initWrapper_def run_simps oneHandle_def oneWrapper_def emptyEmbed_def)
  from handleHistory.lift [OF emptyEmbed_history this] show ?thesis by (simp add: oneHandle_def emptyEmbed_def)
qed

text \<open>Lent as object 1 and then dropped.\<close>

definition lentDropped :: hostlog where
  "lentDropped = oneHandle\<lparr>nextObject := 2, wrappers := [0 \<mapsto> oneWrapper\<lparr>ws_valid := False, ws_lends := 1, ws_pendingDrop := True\<rparr>],
     tracked := (\<lambda>_. False)(0 := False), releasedLends := (\<lambda>_. False)(1 := False), lg_lend := [1 \<mapsto> 0]\<rparr>"

lemma lentDropped_history: "handleHistory fails lentDropped"
proof -
  let ?h = "oneHandle\<lparr>nextObject := 2, wrappers := [0 \<mapsto> oneWrapper\<lparr>ws_lends := 1\<rparr>], releasedLends := (\<lambda>_. False)(1 := False)\<rparr>"
  have t: "takeRep (HHandle 0) False ''borrow<file>'' oneHandle = (Inr (VNum 5), oneHandle)"
    by (simp add: takeRep_def requireLive_def isObject_def run_simps oneHandle_def oneWrapper_def)
  have l: "lendWrapper 0 oneHandle = (Inr (Some (ReleaseLend 1 0)), ?h)"
    by (simp add: lendWrapper_def run_simps updWrapper_def oneHandle_def oneWrapper_def emptyEmbed_def)
  have "handleHistory fails (snd (dropWrapper (recordedDtor fails) 0 (?h\<lparr>lg_lend := (lg_lend ?h)(1 := Some 0)\<rparr>)))"
    by (intro handleHistory.drop handleHistory.lend [OF oneHandle_history t l])
  moreover have "snd (dropWrapper (recordedDtor fails) 0 (?h\<lparr>lg_lend := (lg_lend ?h)(1 := Some 0)\<rparr>)) = lentDropped"
    by (simp add: dropWrapper_def run_simps updWrapper_def lentDropped_def oneHandle_def oneWrapper_def emptyEmbed_def)
  ultimately show ?thesis by simp
qed

lemma dueCount_card:
  assumes "handle_inv h"
  shows "dueCount k h = card {w. \<exists>s. wrappers h w = Some s \<and> ws_owns s \<and> (ws_valid s \<or> ws_pendingDrop s) \<and> (ws_rt s, ws_rep s) = k}"
    (is "_ = card ?D")
proof -
  have d: "handleDue k (wrappers h w) = (if w \<in> ?D then 1 else 0)" for w
    by (cases "wrappers h w") (auto simp: handleDue_def)
  have "?D \<subseteq> {..<nextObject h}" using handle_invD(8) [OF assms] by blast
  then show ?thesis unfolding dueCount_def d by (simp add: sum.If_cases Int_absorb1)
qed

text \<open>C22: Whatever the host does with its handles (lift, drop, let be collected, lend, release, transfer, in any order, and
  whatever the destructors throw), every owned handle it ever received is accounted for exactly once: its destructor has run, it
  was transferred, or exactly one wrapper that is valid or waits for a lend to end still stands for it.\<close>

theorem host_handles_balanced:
  assumes "handleHistory fails h"
  shows "count_list (lg_lifted h) k = count_list (lg_ran h) k + count_list (lg_gone h) k +
    card {w. \<exists>s. wrappers h w = Some s \<and> ws_owns s \<and> (ws_valid s \<or> ws_pendingDrop s) \<and> (ws_rt s, ws_rep s) = k}"
  using handle_invD(3) [OF history_inv [OF assms], of k] dueCount_card [OF history_inv [OF assms]] by simp

theorem host_handles_balanced_witness:
  "card {w. \<exists>s. wrappers lentDropped w = Some s \<and> ws_owns s \<and> (ws_valid s \<or> ws_pendingDrop s) \<and> (ws_rt s, ws_rep s) = (7, VNum 5)} = 1"
  using host_handles_balanced [OF lentDropped_history, of "(7, VNum 5)"] by (simp add: lentDropped_def oneHandle_def emptyEmbed_def)

lemma unlend_runs:
  assumes i: "handle_inv h" and s: "wrappers h w = Some s" "ws_pendingDrop s" and c: "c \<in> openLends w h"
  shows "lg_ran (snd (runRelease (recordedDtor fails) (ReleaseLend c w) h)) =
    (if openLends w h = {c} then (ws_rt s, ws_rep s) # lg_ran h else lg_ran h)"
proof -
  have n: "\<not> releasedLends h c" "finite (openLends w h)" using c openLends_known [OF i, of w] finite_subset by (auto simp: openLends_def)
  then have p: "0 < card (openLends w h)" using c card_gt_0_iff by blast
  have l: "ws_lends s = int (card (openLends w h))" using handle_invD(5) [OF i s(1)] .
  let ?h = "updWrapper w (\<lambda>s. s\<lparr>ws_lends := ws_lends s - 1\<rparr>) (h\<lparr>releasedLends := (releasedLends h)(c := True)\<rparr>)"
  let ?h3 = "updWrapper w (\<lambda>s. s\<lparr>ws_pendingDrop := False\<rparr>) ?h"
  show ?thesis
  proof (cases "openLends w h = {c}")
    case True
    obtain F where "snd (runHostDrop (recordedDtor fails) s ?h3) = ?h3\<lparr>lg_ran := (ws_rt s, ws_rep s) # lg_ran ?h3, hostFailures := F\<rparr>"
      by (rule hostDrop_run)
    then show ?thesis using True s n l by (simp add: runRelease_def releaseLend_def run_simps updWrapper_def)
  next
    case False
    then have "card (openLends w h) \<noteq> 1" using c by (auto simp: card_1_singleton_iff)
    then show ?thesis using False s n l p by (simp add: runRelease_def releaseLend_def run_simps updWrapper_def)
  qed
qed

text \<open>C24: A drop that finds its handle lent out is deferred and not lost: some lend of the handle is still open, and the release
  of the last one, and of no earlier one, runs the destructor.\<close>

theorem deferred_drop_runs:
  assumes "handleHistory fails h" "wrappers h w = Some s" "ws_pendingDrop s"
  shows "openLends w h \<noteq> {} \<and> (\<forall>c \<in> openLends w h.
    lg_ran (snd (runRelease (recordedDtor fails) (ReleaseLend c w) h)) = (if openLends w h = {c} then (ws_rt s, ws_rep s) # lg_ran h else lg_ran h))"
proof (rule conjI)
  note i = history_inv [OF assms(1)]
  show "openLends w h \<noteq> {}" using handle_invD(5,6) [OF i assms(2)] assms(3) by auto
  show "\<forall>c \<in> openLends w h.
    lg_ran (snd (runRelease (recordedDtor fails) (ReleaseLend c w) h)) = (if openLends w h = {c} then (ws_rt s, ws_rep s) # lg_ran h else lg_ran h)"
    using unlend_runs [OF i assms(2,3)] by blast
qed

theorem deferred_drop_runs_witness:
  "lg_ran (snd (runRelease (recordedDtor (\<lambda>_ _. Some (Trap ''dtor''))) (ReleaseLend 1 0) lentDropped)) = [(7, VNum 5)]"
proof -
  have "openLends 0 lentDropped = {1}" by (auto simp: openLends_def lentDropped_def split: if_splits)
  then show ?thesis
    using deferred_drop_runs [OF lentDropped_history [of "\<lambda>_ _. Some (Trap ''dtor'')"], of 0
      "oneWrapper\<lparr>ws_valid := False, ws_lends := 1, ws_pendingDrop := True\<rparr>"]
    by (simp add: lentDropped_def oneHandle_def oneWrapper_def emptyEmbed_def)
qed

section \<open>Host-implemented resources\<close>

text \<open>
  \<open>registryHistory r h L\<close>: \<open>h\<close> comes about from a new registry \<open>r\<close> by passing instances to the guest, by the guest giving them
  back or dropping them, by releases at the end of a call, and by anything that leaves the registry alone; \<open>L\<close> is what the reps
  were handed out for.  What \<open>[Symbol.dispose]\<close> itself does to the registry are further steps.
\<close>

inductive registryHistory :: "nat \<Rightarrow> 'x embed_scheme \<Rightarrow> (nat \<times> nat) list \<Rightarrow> bool" for r where
  made: "registries h r = newRegistry \<Longrightarrow> registryHistory r h []"
| passed: "registryHistory r h L \<Longrightarrow> registryRepFor cls r (HHandle i) h = (Inr rep, h1) \<Longrightarrow> registryHistory r h1 ((rep, i) # L)"
| taken: "registryHistory r h L \<Longrightarrow> registryHistory r (snd (registryRelease cls r rep h)) L"
| dropped: "registryHistory r h L \<Longrightarrow> (\<And>i h1. registries (snd (dispose i h1)) r = registries h1 r) \<Longrightarrow>
    registryHistory r (snd (registryDtor dispose r rep h)) L"
| released: "registryHistory r h L \<Longrightarrow> registryHistory r (snd (runRelease D (ReleaseRep r rep) h)) L"
| other: "registryHistory r h L \<Longrightarrow> registries h1 r = registries h r \<Longrightarrow> registryHistory r h1 L"

text \<open>A live rep is its instance's current one; a rep that was handed out names the instance it was handed out for, or nothing.\<close>

definition registry_inv :: "Registry \<Rightarrow> (nat \<times> nat) list \<Rightarrow> bool" where
  "registry_inv g L \<longleftrightarrow>
     0 < rg_next g \<and>
     (\<forall>rep i. rg_byRep g rep = Some i \<longrightarrow> rg_byInstance g i = Some rep \<and> (rep, i) \<in> set L) \<and>
     (\<forall>rep i. rg_byInstance g i = Some rep \<longrightarrow> (rep, i) \<in> set L) \<and>
     (\<forall>rep i. (rep, i) \<in> set L \<longrightarrow> 0 < rep \<and> rep < rg_next g \<and> (\<forall>j. (rep, j) \<in> set L \<longrightarrow> j = i))"

lemma registry_invD:
  assumes "registry_inv g L"
  shows "0 < rg_next g" "rg_byRep g rep = Some i \<Longrightarrow> rg_byInstance g i = Some rep" "rg_byInstance g i = Some rep \<Longrightarrow> (rep, i) \<in> set L"
    "(rep, i) \<in> set L \<Longrightarrow> 0 < rep \<and> rep < rg_next g" "(rep, i) \<in> set L \<Longrightarrow> (rep, j) \<in> set L \<Longrightarrow> j = i"
  using assms unfolding registry_inv_def by blast+

lemma release_registry_inv: "registry_inv g L \<Longrightarrow> registry_inv (releaseIfPresent rep g) L"
  by (auto simp: registry_inv_def releaseIfPresent_def)

lemma repFor_inv:
  assumes "registry_inv g L" "repFor i g = (rep, g1)"
  shows "registry_inv g1 ((rep, i) # L)"
proof (cases "hasInstance i g")
  case True
  then have g: "g1 = g" "rg_byInstance g i = Some rep" using assms(2) by (auto simp: repFor_def hasInstance_def split: option.splits)
  then show ?thesis using assms(1) registry_invD(3) [OF assms(1) g(2)] unfolding registry_inv_def by (simp add: insert_absorb)
next
  case False
  then have g: "rep = rg_next g" "g1 = g\<lparr>rg_next := Suc (rg_next g), rg_byRep := (rg_byRep g)(rg_next g := Some i),
      rg_byInstance := (rg_byInstance g)(i := Some (rg_next g))\<rparr>"
    using assms(2) by (auto simp: repFor_def hasInstance_def split: option.splits)
  have dead: "rg_byRep g p \<noteq> Some i" for p
    using False registry_invD(2) [OF assms(1), of p i] by (auto simp: hasInstance_def)
  have new: "(rg_next g, j) \<notin> set L" for j using registry_invD(4) [OF assms(1), of "rg_next g" j] by blast
  have old: "rg_byRep g (rg_next g) = None" using new registry_invD(2,3) [OF assms(1)] by (metis option.exhaust)
  show ?thesis
    unfolding registry_inv_def
  proof (intro conjI allI impI)
    fix p j assume "rg_byRep g1 p = Some j"
    then show "rg_byInstance g1 j = Some p" using dead registry_invD(2) [OF assms(1), of p j] by (auto simp: g split: if_splits)
  next
    fix p j assume "rg_byRep g1 p = Some j"
    then show "(p, j) \<in> set ((rep, i) # L)" using registry_invD(2) [OF assms(1), of p j] registry_invD(3) [OF assms(1), of j p] by (auto simp: g split: if_splits)
  next
    fix p j assume "rg_byInstance g1 j = Some p"
    then show "(p, j) \<in> set ((rep, i) # L)" using registry_invD(3) [OF assms(1), of j p] by (auto simp: g split: if_splits)
  next
    fix p j assume "(p, j) \<in> set ((rep, i) # L)"
    then show "0 < p" "p < rg_next g1" using registry_invD(1) [OF assms(1)] registry_invD(4) [OF assms(1), of p j] by (auto simp: g)
  next
    fix p j k assume "(p, j) \<in> set ((rep, i) # L)" "(p, k) \<in> set ((rep, i) # L)"
    then show "k = j" using new registry_invD(5) [OF assms(1)] by (auto simp: g)
  qed (simp add: g)
qed

lemma registry_history_inv: "registryHistory r h L \<Longrightarrow> registry_inv (registries h r) L"
proof (induction rule: registryHistory.induct)
  case (made h)
  then show ?case by (simp add: registry_inv_def newRegistry_def)
next
  case (passed h L cls i rep h1)
  then have "repFor i (registries h r) = (rep, registries h1 r)"
    by (auto simp: registryRepFor_def run_simps updRegistry_def split: prod.splits)
  then show ?case using repFor_inv passed.IH by blast
next
  case (taken h L cls rep)
  then show ?case
    by (auto simp: registryRelease_def registryLookup_def run_simps updRegistry_def release_registry_inv split: option.splits)
next
  case (dropped h L dispose rep)
  show ?case
  proof (cases "rg_byRep (registries h r) rep")
    case None
    then show ?thesis using dropped.IH by (simp add: registryDtor_def run_simps)
  next
    case (Some i)
    then have "snd (registryDtor dispose r rep h) = snd (dispose i (updRegistry r (releaseIfPresent rep) h))"
      by (simp add: registryDtor_def run_simps)
    then show ?thesis using dropped by (simp add: updRegistry_def release_registry_inv)
  qed
next
  case (released h L D rep)
  then show ?case by (simp add: runRelease_def run_simps updRegistry_def release_registry_inv)
next
  case (other h L h1)
  then show ?case by simp
qed

text \<open>C23: The rep under which the guest holds a host instance never comes to name another instance: whatever was passed,
  dropped and released since, a rep once handed out for an instance gives that instance or no instance at all, and while it is live,
  passing the instance again gives the same rep.  Rep 0 is never handed out.\<close>

theorem rep_names_one_instance:
  assumes "registryHistory r h L" "(rep, i) \<in> set L"
  shows "rep \<noteq> 0 \<and> rg_byRep (registries h r) rep \<in> {None, Some i} \<and>
    (hasRep rep (registries h r) \<longrightarrow> fst (repFor i (registries h r)) = rep)"
proof -
  note inv = registry_history_inv [OF assms(1)]
  have n: "rg_byRep (registries h r) rep \<in> {None, Some i}"
    using registry_invD(2,3,5) [OF inv] assms(2) by (cases "rg_byRep (registries h r) rep") (simp, metis insertCI)
  have "fst (repFor i (registries h r)) = rep" if "hasRep rep (registries h r)"
    using that n registry_invD(2) [OF inv, of rep i] by (auto simp: hasRep_def repFor_def)
  then show ?thesis using n registry_invD(4) [OF inv assms(2)] by simp
qed

theorem rep_names_one_instance_witness:
  "rg_byRep (registries (snd (registryRepFor ''R'' 0 (HHandle 4) emptyEmbed)) 0) 1 \<in> {None, Some 4}"
proof -
  have p: "registryRepFor ''R'' 0 (HHandle 4) emptyEmbed = (Inr 1, snd (registryRepFor ''R'' 0 (HHandle 4) emptyEmbed))"
    by (simp add: registryRepFor_def run_simps repFor_def newRegistry_def emptyEmbed_def)
  have "registryHistory 0 (snd (registryRepFor ''R'' 0 (HHandle 4) emptyEmbed)) [(1, 4)]"
    by (rule registryHistory.passed [OF registryHistory.made p]) (simp add: emptyEmbed_def)
  from rep_names_one_instance [OF this, of 1 4] show ?thesis by simp
qed

text \<open>
  An instance passed twice as an own shares one rep, so the guest's first drop disposes it although its second handle is alive,
  and that handle then names nothing.
\<close>

lemma shared_rep_disposed_once:
  assumes "rg_byRep (registries h r) rep = Some i" "rg_byInstance (registries h r) i = Some rep"
  shows "registryRepFor cls r (HHandle i) h = (Inr rep, h)"
    "registryDtor dispose r rep h = dispose i (updRegistry r (releaseIfPresent rep) h)"
    "fst (registryLookup cls r rep (updRegistry r (releaseIfPresent rep) h)) = Inl (invalidHandle (cls @ '': no live instance for rep '' @ showNat rep))"
  using assms
  by (simp_all add: registryRepFor_def repFor_def run_simps updRegistry_def registryDtor_def registryLookup_def releaseIfPresent_def)

text \<open>
  The rep minted for a borrow is released at the end of the call, although the instance was passed as an own meanwhile under the
  same rep.
\<close>

lemma borrow_release_kills_owned:
  assumes "rg_byRep (registries h r) rep = Some i" "rg_byInstance (registries h r) i = Some rep"
  shows "registryRepFor cls r (HHandle i) h = (Inr rep, h)"
    "rg_byRep (registries (snd (runRelease D (ReleaseRep r rep) h)) r) rep = None"
  using assms by (simp_all add: registryRepFor_def repFor_def run_simps updRegistry_def runRelease_def releaseIfPresent_def)

section \<open>Calls through both wrappers\<close>

text \<open>A host value that stands for a lifted value of the type.\<close>

definition rendition :: "'s Adapter \<Rightarrow> ValType \<Rightarrow> HostVal \<Rightarrow> bool" where
  "rendition A t a \<longleftrightarrow> wf_type t \<and> hostNames t \<and> (\<exists>x. lifted t x \<and> toHost A 0 False t x = returnM a)"

definition carried :: "'s Adapter \<Rightarrow> ValType option \<Rightarrow> HostVal \<Rightarrow> bool" where
  "carried A ot w \<longleftrightarrow> (case ot of None \<Rightarrow> w = HUndef | Some t \<Rightarrow> rendition A t w)"

definition okType :: "ValType option \<Rightarrow> ValType option" where
  "okType ot = (case ot of Some (TResult okt er) \<Rightarrow> okt | _ \<Rightarrow> ot)"

text \<open>An outcome that fits the function's type; a throw always does.\<close>

definition outcomeFits :: "'s Adapter \<Rightarrow> ValType option \<Rightarrow> HostOutcome \<Rightarrow> bool" where
  "outcomeFits A ot out1 \<longleftrightarrow>
     (case out1 of
        HostReturns w \<Rightarrow> carried A (okType ot) w
      | HostException p \<Rightarrow> (case errType ot of None \<Rightarrow> True | Some er \<Rightarrow> carried A er p)
      | HostThrows e \<Rightarrow> True)"

text \<open>A component that hands the call of its export on to its import.\<close>

definition relay :: "('s, JsVal option) sm \<Rightarrow> ('s, JsVal) sm" where
  "relay m = bindM m (\<lambda>o1. case o1 of Some v \<Rightarrow> returnM v | None \<Rightarrow> throwM (JsError ''pending''))"

lemma returnM_inj: "returnM x = returnM y \<longleftrightarrow> x = y"
  by (auto simp: returnM_def fun_eq_iff)

lemma renditionD:
  fixes A :: "'s Adapter"
  assumes "rendition A t a"
  obtains x where "\<And>sc. toHost A sc False t x = returnM a" "fromHost A False t a = returnM x"
proof -
  obtain x where x: "wf_type t" "hostNames t" "lifted t x" "toHost A 0 False t x = returnM a"
    using assms by (auto simp: rendition_def)
  obtain w where w: "\<And>sc. toHost A sc False t x = returnM w" "fromHost A False t w = returnM x"
    using value_back [OF x(3,1,2), of A False] by (auto simp: thereAndBack_def)
  moreover have "w = a" using x(4) w(1) [of 0] by (simp add: returnM_inj)
  ultimately show thesis using that by blast
qed

lemma renditions:
  fixes A :: "'s Adapter"
  assumes "list_all2 (rendition A) ts args"
  obtains xs where "\<And>sc. forM (\<lambda>(i, p). toHost A sc False p (argAt VUndef xs i)) (zip [0..<length ts] ts) = returnM args"
    "forM (\<lambda>(i, p). fromHost A False p (argAt HUndef args i)) (zip [0..<length ts] ts) = returnM xs"
proof -
  have l: "length args = length ts" using assms by (simp add: list_all2_lengthD)
  have "\<exists>x. (\<forall>sc. toHost A sc False (ts ! i) x = returnM (args ! i)) \<and> fromHost A False (ts ! i) (args ! i) = returnM x"
    if "i < length ts" for i
    by (rule renditionD [of A "ts ! i" "args ! i"]) (use assms that in \<open>auto simp: list_all2_conv_all_nth\<close>)
  then obtain X where X: "\<And>i sc. i < length ts \<Longrightarrow> toHost A sc False (ts ! i) (X i) = returnM (args ! i)"
      "\<And>i. i < length ts \<Longrightarrow> fromHost A False (ts ! i) (args ! i) = returnM (X i)"
    by metis
  let ?xs = "map X [0..<length ts]"
  have "forM (\<lambda>(i, p). toHost A sc False p (argAt VUndef ?xs i)) (zip [0..<length ts] ts) = returnM args" for sc
    by (rule forM_return) (use X l in \<open>simp add: list_all2_conv_all_nth argAt_def\<close>)
  moreover have "forM (\<lambda>(i, p). fromHost A False p (argAt HUndef args i)) (zip [0..<length ts] ts) = returnM ?xs"
    by (rule forM_return) (use X l in \<open>simp add: list_all2_conv_all_nth argAt_def\<close>)
  ultimately show thesis using that by blast
qed

lemma importOk_back:
  fixes A :: "'s Adapter"
  assumes "carried A (okType ot) w"
  obtains raw where "importOk A ot w = returnM raw" "exportResult A ot raw = returnM (HostReturns w)"
proof -
  have e: "''error'' \<notin> set OBJECT_PROTOTYPE" by code_simp
  consider "ot = None" | okt er where "ot = Some (TResult okt er)"
    | t where "ot = Some t" "okType ot = Some t" "\<And>okt er. t \<noteq> TResult okt er"
  proof (cases ot)
    case (Some t)
    then show ?thesis using that by (cases t) (simp_all add: okType_def)
  qed (use that in blast)
  then show thesis
  proof cases
    case 1
    then show thesis using that [of VUndef] assms by (simp add: importOk_def exportResult_def carried_def okType_def)
  next
    case (2 okt er)
    show thesis
    proof (cases okt)
      case None
      then show thesis using 2 that [of "VObj [(''ok'', VNull)]"] assms e
        by (simp add: importOk_def exportResult_def carried_def okType_def rawHas_def)
    next
      case (Some u)
      then have "rendition A u w" using assms 2 by (simp add: carried_def okType_def)
      then obtain x where "\<And>sc. toHost A sc False u x = returnM w" "fromHost A False u w = returnM x" by (rule renditionD) blast
      then show thesis using 2 Some that [of "VObj [(''ok'', x)]"] e by (simp add: importOk_def exportResult_def rawHas_def)
    qed
  next
    case (3 t)
    then have "rendition A t w" using assms by (simp add: carried_def)
    then obtain x where x: "\<And>sc. toHost A sc False t x = returnM w" "fromHost A False t w = returnM x" by (rule renditionD) blast
    have "importOk A ot w = fromHost A False t w" "exportResult A ot x = bindM (toHost A 0 False t x) (\<lambda>w. returnM (HostReturns w))"
      using 3(1,3) by (cases t; simp add: importOk_def exportResult_def)+
    then show thesis using that [of x] x by simp
  qed
qed

lemma importFail_back:
  fixes A :: "'s Adapter"
  assumes "errType ot = Some er" "carried A er p"
  obtains raw where "importFail A d ot args (HostException p) = returnM raw" "exportResult A ot raw = returnM (HostException p)"
proof -
  obtain okt where ot: "ot = Some (TResult okt er)"
    using assms(1) by (auto simp: errType_def split: option.splits ValType.splits)
  show thesis
  proof (cases er)
    case None
    then show thesis using that [of "VObj [(''error'', VNull)]"] ot assms
      by (simp add: importFail_def exportResult_def carried_def errType_def rawHas_def)
  next
    case (Some u)
    then have "rendition A u p" using assms(2) by (simp add: carried_def)
    then obtain x where "\<And>sc. toHost A sc False u x = returnM p" "fromHost A False u p = returnM x" by (rule renditionD) blast
    then show thesis using that [of "VObj [(''error'', x)]"] ot Some by (simp add: importFail_def exportResult_def errType_def rawHas_def)
  qed
qed

lemma lowerParams_run:
  fixes h :: "'a embed_scheme"
  assumes "forM (\<lambda>(i, p). fromHost A False p (argAt HUndef args i)) (zip [0..<length ps] ps) = returnM xs"
  shows "lowerParams D A ps args h = (Inr (xs, []), h\<lparr>lowerScope := lowerScope h\<rparr>)"
proof -
  have c: "catchM (returnM xs) k = returnM xs" for k :: "error \<Rightarrow> ('a embed_scheme, JsVal list) sm"
    by (rule ext) (simp add: catchM_def returnM_def)
  show ?thesis by (simp add: lowerParams_def assms run_simps finallyM_def c openReleases_def)
qed

lemma invalidateAll_run: "fst (invalidateAll ws h) = Inr ()"
  by (induction ws arbitrary: h) (simp_all add: run_simps bindM_def [of "invalidateWrapper w" for w] invalidateWrapper_def)

lemma endScope_run: obtains h1 where "endScope sc h = (Inr (), h1)"
proof -
  obtain h2 where "invalidateAll (borrowScopes h sc) h = (Inr (), h2)"
    using invalidateAll_run [of "borrowScopes h sc" h] by (metis prod.collapse)
  then have "endScope sc h = (Inr (), h2\<lparr>borrowScopes := (borrowScopes h2)(sc := [])\<rparr>)"
    by (simp add: endScope_def run_simps bindM_def [of "invalidateAll ws" for ws])
  then show thesis by (rule that)
qed

lemma importCall_run:
  fixes A :: "('x embed_scheme) Adapter" and h :: "'x embed_scheme"
  assumes "\<And>sc. forM (\<lambda>(i, p). toHost A sc False p (argAt VUndef raw i)) (zip [0..<length (ftParams ft)] (ftParams ft)) = returnM args"
  obtains h1 where "importCall A d ft (\<lambda>as h. (Settled (f as), upd as h)) raw h =
    bindM (case f args of HostReturns v \<Rightarrow> importOk A (resultType ft) v | _ \<Rightarrow> importFail A d (resultType ft) args (f args)) (\<lambda>v. returnM (Some v)) h1"
proof -
  let ?sc = "nextObject h" and ?h = "h\<lparr>nextObject := Suc (nextObject h), borrowScopes := (borrowScopes h)(nextObject h := [])\<rparr>"
  obtain h1 where h1: "endScope ?sc (upd args ?h) = (Inr (), h1)" by (rule endScope_run)
  have "newScope h = (Inr ?sc, ?h)" by (simp add: newScope_def run_simps)
  moreover have "importSettled A d ot args ?sc out1 (upd args ?h) =
      (case out1 of HostReturns v \<Rightarrow> importOk A ot v | _ \<Rightarrow> importFail A d ot args out1) h1" for ot out1
    by (simp add: importSettled_def bindM_def h1)
  ultimately show thesis
    by (intro that [of h1]) (simp add: importCall_def bindM_def [of newScope] assms bindM_def [of "importSettled A d ot args sc out1" for ot sc out1],
      simp add: bindM_def)
qed

lemma releaseNone: "finallyM m (returnM ()) h = m h"
  by (cases "m h") (simp add: finallyM_def liftR_def)

text \<open>C25: A call that passes through a component unchanged means the same on both sides.  The arguments, the returned value and
  the payload of an exception are \<open>rendition\<close>s: host values in the canonical form the embedder gives a lifted value of their type,
  the type well formed, without handles, streams and futures, with labels that stay distinct in camelCase and without an option field
  named like a property every object inherits.  Then the arguments reach the host function as they were given, what it returns
  comes back as it returned it, a \<open>ComponentException\<close> of a function whose type has an error side arrives as that exception with
  its payload, and anything else a host function throws is a trap.\<close>

theorem facade_relays:
  fixes A :: "('x embed_scheme) Adapter"
  assumes "list_all2 (rendition A) (ftParams ft) args" "outcomeFits A (resultType ft) (f args)"
  shows "\<exists>m. fst (exportCall D A ft (\<lambda>raw. relay (importCall A d ft (\<lambda>as h. (Settled (f as), upd as h)) raw)) args h) =
    (case f args of
       HostReturns w \<Rightarrow> Inr (HostReturns w)
     | HostException p \<Rightarrow> if errType (resultType ft) = None then Inl (Trap m) else Inr (HostException p)
     | HostThrows e \<Rightarrow> Inl (Trap m))"
proof -
  obtain xs where xs: "\<And>sc. forM (\<lambda>(i, p). toHost A sc False p (argAt VUndef xs i)) (zip [0..<length (ftParams ft)] (ftParams ft)) = returnM args"
      "forM (\<lambda>(i, p). fromHost A False p (argAt HUndef args i)) (zip [0..<length (ftParams ft)] (ftParams ft)) = returnM xs"
    by (rule renditions [OF assms(1)]) blast
  let ?core = "\<lambda>raw. relay (importCall A d ft (\<lambda>as h. (Settled (f as), upd as h)) raw)"
  let ?in = "case f args of HostReturns v \<Rightarrow> importOk A (resultType ft) v | _ \<Rightarrow> importFail A d (resultType ft) args (f args)"
  obtain h1 where h1: "importCall A d ft (\<lambda>as h. (Settled (f as), upd as h)) xs h = bindM ?in (\<lambda>v. returnM (Some v)) h1"
    by (rule importCall_run [OF xs(1)])
  have l: "length args = length (ftParams ft)" using assms(1) by (simp add: list_all2_lengthD)
  have e: "exportCall D A ft ?core args h = bindM ?in (exportResult A (resultType ft)) h1"
  proof -
    have "?core xs h = ?in h1" by (cases "?in h1") (auto simp: relay_def bindM_def h1 returnM_def split: sum.splits)
    then show ?thesis
      by (simp add: exportCall_def l bindM_def [of "lowerParams D A ps args" for ps args] lowerParams_run [OF xs(2)])
        (simp add: bindM_def releaseNone split: prod.splits)
  qed
  show ?thesis
  proof (cases "f args")
    case (HostReturns w)
    then obtain raw where "importOk A (resultType ft) w = returnM raw" "exportResult A (resultType ft) raw = returnM (HostReturns w)"
      using assms(2) by (auto simp: outcomeFits_def elim: importOk_back)
    then show ?thesis using e HostReturns by (simp add: returnM_def bindM_def)
  next
    case (HostThrows x)
    then show ?thesis using e
      by (cases x) (auto simp: importFail_def importTrap_def run_simps bindM_def [of "throwM x" for x] throwM_def bindM_def)
  next
    case p: (HostException p)
    show ?thesis
    proof (cases "errType (resultType ft)")
      case None
      then show ?thesis using e p by (simp add: importFail_def importTrap_def run_simps bindM_def throwM_def)
    next
      case (Some er)
      then obtain raw where "importFail A d (resultType ft) args (HostException p) = returnM raw" "exportResult A (resultType ft) raw = returnM (HostException p)"
        using assms(2) p by (auto simp: outcomeFits_def elim: importFail_back)
      then show ?thesis using e p Some by (simp add: returnM_def bindM_def)
    qed
  qed
qed

text \<open>A function from u8 to a result whose error carries a bool, with a host function that throws the error.\<close>

definition sampleFt :: FuncType where
  "sampleFt = \<lparr>ftParams = [TPrim KU8], ftResults = [TResult (Some (TPrim KU8)) (Some (TPrim KBool))], ftAsync = False\<rparr>"

definition sampleAdapter :: "hostlog Adapter" where
  "sampleAdapter =
     \<lparr>liftOwnB = bridgeLiftOwn, liftBorrowB = bridgeLiftBorrow, lowerOwnB = bridgeLowerOwn, lowerBorrowB = bridgeLowerBorrow (recordedDtor (\<lambda>_ _. None)),
      liftStreamB = (\<lambda>_ _. returnM HUndef), liftFutureB = (\<lambda>_ _. returnM HUndef),
      lowerStreamB = (\<lambda>_ _. returnM VUndef), lowerFutureB = (\<lambda>_ _. returnM VUndef), ad_where = ''f''\<rparr>"

theorem facade_relays_witness:
  "fst (exportCall (recordedDtor (\<lambda>_ _. None)) sampleAdapter sampleFt
      (\<lambda>raw. relay (importCall sampleAdapter (\<lambda>_ h. h) sampleFt (\<lambda>as h. (Settled (HostException (HBool True)), h)) raw)) [HNum 5] oneHandle) =
    Inr (HostException (HBool True))"
proof -
  have r: "rendition sampleAdapter (TPrim KU8) (HNum 5)" "rendition sampleAdapter (TPrim KBool) (HBool True)"
    by (auto simp: rendition_def lifted_simps toHost.simps wf_type.simps [of "TPrim k" for k] returnM_inj inRange_def
        intro: exI [of _ "VNum 5"] exI [of _ "VBool True"])
  show ?thesis
    using facade_relays [where f = "\<lambda>_. HostException (HBool True)" and upd = "\<lambda>_ h. h" and A = sampleAdapter and ft = sampleFt and args = "[HNum 5]"
        and D = "recordedDtor (\<lambda>_ _. None)" and d = "\<lambda>_ h. h" and h = oneHandle] r
    by (simp add: sampleFt_def outcomeFits_def errType_def resultType_def carried_def)
qed

section \<open>Transfers\<close>

text \<open>An owned handle crosses the host exactly once: the wrapper the host gets for a guest's resource gives the same rep back
  when it is passed on, and every later use of it, as an own or a borrow, is refused.\<close>

lemma own_crosses_once:
  fixes h :: "'a embed_scheme"
  assumes "tokenIndex h rt = Some i" "bindings h i = Some (GuestBinding name)" "bridgeLiftOwn rep rt h = (Inr v, h1)" "bridgeLowerOwn v rt h1 = (r, h2)"
  shows "r = Inr rep \<and> (\<forall>own what. \<exists>m. fst (takeRep v own what h2) = Inl (invalidHandle m))"
proof -
  let ?s = "\<lparr>ws_rep = rep, ws_valid = True, ws_owns = True, ws_rt = rt, ws_class = pascalCase name, ws_lends = 0, ws_pendingDrop = False\<rparr>"
  have b: "binding rt g = (Inr (GuestBinding name), g)" if "tokenIndex g = tokenIndex h" "bindings g = bindings h" for g :: "'a embed_scheme"
    using that assms(1,2) by (simp add: binding_def run_simps)
  have h1: "v = HHandle (nextObject h)" "wrappers h1 (nextObject h) = Some ?s" "tokenIndex h1 = tokenIndex h" "bindings h1 = bindings h"
    using assms(3) b [of h] by (auto simp: bridgeLiftOwn_def bindM_def [of "binding rt"] makeWrapper_def initWrapper_def run_simps bindM_def)
  have r: "r = Inr rep" "h2 = (updWrapper (nextObject h) (\<lambda>s. s\<lparr>ws_valid := False\<rparr>) h1)\<lparr>tracked := (tracked h1)(nextObject h := False)\<rparr>"
    using assms(4) h1(1,2) b [OF h1(3,4)]
    by (auto simp: bridgeLowerOwn_def bindM_def [of "binding rt"] takeRep_def isObject_def requireLive_def run_simps bindM_def)
  then show ?thesis using h1(1,2) by (auto simp: takeRep_def isObject_def requireLive_def run_simps updWrapper_def bindM_def)
qed

lemma own_crosses_once_witness:
  "\<exists>h1 h2. bridgeLiftOwn (VNum 9) 7 oneHandle = (Inr (HHandle 1), h1) \<and> bridgeLowerOwn (HHandle 1) 7 h1 = (Inr (VNum 9), h2) \<and>
     (\<exists>m. fst (takeRep (HHandle 1) False ''borrow<file>'' h2) = Inl (invalidHandle m))"
proof -
  have t: "tokenIndex oneHandle 7 = Some 7" "bindings oneHandle 7 = Some (GuestBinding ''file'')" by (simp_all add: oneHandle_def emptyEmbed_def)
  then have b: "binding 7 oneHandle = (Inr (GuestBinding ''file''), oneHandle)" by (simp add: binding_def run_simps)
  have n: "nextObject oneHandle = 1" by (simp add: oneHandle_def)
  have l: "bridgeLiftOwn (VNum 9) 7 oneHandle = (Inr (HHandle 1), snd (bridgeLiftOwn (VNum 9) 7 oneHandle))"
    by (simp add: bridgeLiftOwn_def bindM_def [of "binding rt" for rt] b makeWrapper_def initWrapper_def run_simps n)
  let ?r = "bridgeLowerOwn (HHandle 1) 7 (snd (bridgeLiftOwn (VNum 9) 7 oneHandle))"
  have c: "fst ?r = Inr (VNum 9) \<and> (\<forall>own what. \<exists>m. fst (takeRep (HHandle 1) own what (snd ?r)) = Inl (invalidHandle m))"
    by (rule own_crosses_once [OF t l]) (rule prod.collapse [symmetric])
  then have "?r = (Inr (VNum 9), snd ?r)" by (metis prod.collapse)
  with l c show ?thesis by blast
qed

section \<open>Where the conventions and the code part\<close>

text \<open>An entry of a map reaches the host as an object with the keys 0 and 1.\<close>

lemma map_entries_are_objects:
  "toHost A sc b (TMap (TPrim KU8) (TPrim KU8)) (VArr [VObj [(''0'', VNum 1), (''1'', VNum 2)]]) =
    returnM (HArr [HObj [(''0'', HNum 1), (''1'', HNum 2)]])"
proof -
  have n: "showNat 0 = ''0''" "showNat (Suc 0) = ''1''" "camelCase ''0'' = ''0''" "camelCase ''1'' = ''1''" by code_simp+
  show ?thesis by (simp add: toHost.simps optionPayload_def checkNoCollisions_def n)
qed

text \<open>A field of option type that is absent is read from what every object inherits when its label is spelled like it.\<close>

lemma inherited_option_field:
  "fromHost A b (TRecord [(''to-string'', TOption (TPrim KBool))]) (HObj []) =
    returnM (VObj [(''to-string'', VObj [(''some'', VBool True)])])"
  "fromHost A b (TFlags [''to-string'']) (HObj []) = returnM (VObj [(''to-string'', VBool True)])"
proof -
  have c: "camelCase ''to-string'' = ''toString''" "''toString'' \<in> set OBJECT_PROTOTYPE" by code_simp+
  have g: "getProp (HObj []) ''toString'' = HFun" using c(2) by (simp add: getProp_def ownProps_def lengthOf_def)
  show "fromHost A b (TRecord [(''to-string'', TOption (TPrim KBool))]) (HObj []) =
      returnM (VObj [(''to-string'', VObj [(''some'', VBool True)])])"
    "fromHost A b (TFlags [''to-string'']) (HObj []) = returnM (VObj [(''to-string'', VBool True)])"
    by (simp_all add: fromHost.simps isObject_def checkNoCollisions_def c g optionPayload_def Let_def hostTruthy_def)
qed

text \<open>A nested \<open>some\<close> without a value is lowered with the payload null, where a variant case refuses it.\<close>

lemma nested_some_without_value:
  "fromHost A True (TOption (TPrim KU8)) (HObj [(''kind'', HStr (jsStr ''some''))]) = returnM (VObj [(''some'', VNull)])"
  "fromHost A b (TVariant [(''some'', Some (TPrim KU8))]) (HObj [(''kind'', HStr (jsStr ''some''))]) =
    throwM (typeError A ''variant case some needs a value'')"
  by (simp_all add: fromHost.simps tagged_simps caseOf_def)

text \<open>
  Outside a lowering scope, where the arguments of a guest's constructor are lowered, a host instance passed as a borrow keeps its
  rep: no release is left behind.
\<close>

lemma constructor_borrow_stays:
  assumes "binding rt h = (Inr (HostBinding name r), h)" "lowerScope h = None" "\<not> hasInstance i (registries h r)"
  shows "\<exists>h1. bridgeLowerBorrow D (HHandle i) rt h = (Inr (VNum (int (rg_next (registries h r)))), h1) \<and>
    rg_byRep (registries h1 r) (rg_next (registries h r)) = Some i \<and> lowerScope h1 = None"
  using assms
  by (auto simp: bridgeLowerBorrow_def bindM_def [of "binding rt"] run_simps registryRepFor_def repFor_def hasInstance_def updRegistry_def pushRelease_def
      split: option.splits)

end
