(* ===== verification/Version.thy ===== *)
theory Version
  imports HostValues
begin

text \<open>
  Version-canonical resolution of imports (\<open>runtime/src/embedder/version.ts\<close>).  An object of imports is the list of its
  enumerable own properties in the order of \<open>Object.keys\<close>.  Ids are ASCII; the numbers of a version are exact, as in the code below
  \<open>2 ^ 53\<close>.
\<close>

section \<open>Interface ids and versions\<close>

record Semver =
  sv_major :: nat
  sv_minor :: nat
  sv_patch :: nat
  sv_prerelease :: "string list"
  sv_build :: "string option"

record ParsedId =
  pi_base :: string
  pi_version :: "string option"
  pi_semver :: "Semver option"

definition digits :: "string \<Rightarrow> bool" where
  "digits s \<longleftrightarrow> s \<noteq> [] \<and> list_all isDigit s"

definition numberOf :: "string \<Rightarrow> nat" where
  "numberOf s = (case parseNat s of Some n \<Rightarrow> n | None \<Rightarrow> 0)"

text \<open>The characters of \<open>[0-9A-Za-z.-]\<close>.\<close>

definition tagPart :: "char \<Rightarrow> bool" where
  "tagPart c \<longleftrightarrow> isDigit c \<or> c = CHR ''.'' \<or> c = CHR ''-'' \<or>
     (let n = of_char c :: nat in (65 \<le> n \<and> n \<le> 90) \<or> (97 \<le> n \<and> n \<le> 122))"

text \<open>A number ended by the given character, and what follows.\<close>

definition numberTo :: "char \<Rightarrow> string \<Rightarrow> (nat \<times> string) option" where
  "numberTo d s =
     (let n = takeWhile isDigit s in
      case dropWhile isDigit s of
        [] \<Rightarrow> None
      | c # r \<Rightarrow> if n \<noteq> [] \<and> c = d then Some (numberOf n, r) else None)"

text \<open>The optional build group, then the end.\<close>

definition buildPart :: "string \<Rightarrow> string option option" where
  "buildPart s =
     (case s of
        [] \<Rightarrow> Some None
      | c # r \<Rightarrow> if c = CHR ''+'' \<and> r \<noteq> [] \<and> list_all tagPart r then Some (Some r) else None)"

text \<open>The expression \<open>SEMVER\<close>; the characters of a tag do not include the plus, so each group is as long as it can be.\<close>

definition parseSemver :: "string \<Rightarrow> Semver option" where
  "parseSemver v =
     (case numberTo (CHR ''.'') v of
        None \<Rightarrow> None
      | Some (major, r1) \<Rightarrow>
          (case numberTo (CHR ''.'') r1 of
             None \<Rightarrow> None
           | Some (minor, r2) \<Rightarrow>
               (let p = takeWhile isDigit r2; r3 = dropWhile isDigit r2 in
                if p = [] then None
                else
                  (case r3 of
                     c # r4 \<Rightarrow>
                       if c = CHR ''-'' then
                         (let t = takeWhile tagPart r4 in
                          if t = [] then None
                          else map_option (\<lambda>b. \<lparr>sv_major = major, sv_minor = minor, sv_patch = numberOf p,
                                 sv_prerelease = splitOn (CHR ''.'') t, sv_build = b\<rparr>) (buildPart (dropWhile tagPart r4)))
                       else map_option (\<lambda>b. \<lparr>sv_major = major, sv_minor = minor, sv_patch = numberOf p,
                              sv_prerelease = [], sv_build = b\<rparr>) (buildPart r3)
                   | [] \<Rightarrow> Some \<lparr>sv_major = major, sv_minor = minor, sv_patch = numberOf p, sv_prerelease = [], sv_build = None\<rparr>))))"

text \<open>Split at the last \<open>@\<close>.\<close>

definition parseInterfaceId :: "string \<Rightarrow> ParsedId" where
  "parseInterfaceId name =
     (if CHR ''@'' \<notin> set name then \<lparr>pi_base = name, pi_version = None, pi_semver = None\<rparr>
      else
        (let version = rev (takeWhile (\<lambda>c. c \<noteq> CHR ''@'') (rev name));
             base = rev (tl (dropWhile (\<lambda>c. c \<noteq> CHR ''@'') (rev name))) in
         \<lparr>pi_base = base, pi_version = Some version, pi_semver = parseSemver version\<rparr>))"

definition trackKeyOf :: "string \<Rightarrow> Semver \<Rightarrow> string option" where
  "trackKeyOf base v =
     (if sv_prerelease v \<noteq> [] then None
      else if sv_major v > 0 then Some (base @ ''@'' @ showNat (sv_major v))
      else if sv_minor v > 0 then Some (base @ ''@0.'' @ showNat (sv_minor v))
      else None)"

definition trackKey :: "string \<Rightarrow> string option" where
  "trackKey name =
     (let p = parseInterfaceId name in
      case pi_semver p of None \<Rightarrow> None | Some v \<Rightarrow> trackKeyOf (pi_base p) v)"

definition asTrackKeySpelling :: "string \<Rightarrow> string option" where
  "asTrackKeySpelling name =
     (let p = parseInterfaceId name in
      case (pi_version p, pi_semver p) of
        (Some v, None) \<Rightarrow>
          if digits v then (if v = ''0'' then None else Some name)
          else if take 2 v = ''0.'' \<and> digits (drop 2 v) then Some name
          else None
      | _ \<Rightarrow> None)"

section \<open>Precedence\<close>

fun strLess :: "string \<Rightarrow> string \<Rightarrow> bool" where
  "strLess x [] = False"
| "strLess [] (d # ds) = True"
| "strLess (c # cs) (d # ds) =
     (if c = d then strLess cs ds else (of_char c :: nat) < of_char d)"

definition compareId :: "string \<Rightarrow> string \<Rightarrow> int" where
  "compareId x y =
     (if digits x \<and> digits y then int (numberOf x) - int (numberOf y)
      else if digits x \<noteq> digits y then (if digits x then -1 else 1)
      else if x \<noteq> y then (if strLess x y then -1 else 1)
      else 0)"

text \<open>The loop over the identifiers.\<close>

fun compareIds :: "string list \<Rightarrow> string list \<Rightarrow> int" where
  "compareIds [] [] = 0"
| "compareIds [] (y # ys) = -1"
| "compareIds (x # xs) [] = 1"
| "compareIds (x # xs) (y # ys) = (if compareId x y \<noteq> 0 then compareId x y else compareIds xs ys)"

definition compareSemver :: "Semver \<Rightarrow> Semver \<Rightarrow> int" where
  "compareSemver a b =
     (if sv_major a \<noteq> sv_major b then int (sv_major a) - int (sv_major b)
      else if sv_minor a \<noteq> sv_minor b then int (sv_minor a) - int (sv_minor b)
      else if sv_patch a \<noteq> sv_patch b then int (sv_patch a) - int (sv_patch b)
      else if sv_prerelease a = [] \<and> sv_prerelease b = [] then 0
      else if sv_prerelease a = [] then 1
      else if sv_prerelease b = [] then -1
      else compareIds (sv_prerelease a) (sv_prerelease b))"

section \<open>The resolver\<close>

record TrackClaim =
  tc_key :: string
  tc_version :: "Semver option"

record 'v ImportResolver =
  ir_exact :: "(string \<times> 'v) list"
  ir_tracks :: "string \<Rightarrow> TrackClaim option"
  ir_unversioned :: "string \<Rightarrow> string option"

definition registrationError :: "string \<Rightarrow> error" where
  "registrationError m = JsError (''ImportRegistrationError: '' @ m)"

definition resolutionError :: "string \<Rightarrow> error" where
  "resolutionError m = JsError (''ImportResolutionError: '' @ m)"

definition claim :: "string \<Rightarrow> TrackClaim \<Rightarrow> 'v ImportResolver \<Rightarrow> 'v ImportResolver result" where
  "claim track c R =
     (case ir_tracks R track of
        None \<Rightarrow> Ok (R\<lparr>ir_tracks := (ir_tracks R)(track := Some c)\<rparr>)
      | Some held \<Rightarrow>
          (case (tc_version held, tc_version c) of
             (Some hv, Some cv) \<Rightarrow>
               if compareSemver cv hv > 0 then Ok (R\<lparr>ir_tracks := (ir_tracks R)(track := Some c)\<rparr>) else Ok R
           | (None, None) \<Rightarrow>
               Err (registrationError (''compatibility track '' @ track @ '' is claimed twice ('' @ tc_key held @ '' and '' @ tc_key c @ '')''))
           | _ \<Rightarrow> Err (registrationError (''import registration is ambiguous on compatibility track '' @ track))))"

definition register :: "string \<Rightarrow> 'v ImportResolver \<Rightarrow> 'v ImportResolver result" where
  "register key R =
     (case asTrackKeySpelling key of
        Some t \<Rightarrow> claim t \<lparr>tc_key = key, tc_version = None\<rparr> R
      | None \<Rightarrow>
          (let p = parseInterfaceId key in
           if pi_version p = Some ''0'' then
             Err (registrationError (''import key '' @ key @ '': @0 is not a compatibility track''))
           else
             (case pi_version p of
                None \<Rightarrow>
                  Ok (if CHR ''/'' \<in> set (pi_base p) \<or> CHR '':'' \<in> set (pi_base p) then
                        R\<lparr>ir_unversioned := (ir_unversioned R)(pi_base p := Some key)\<rparr>
                      else R)
              | Some _ \<Rightarrow>
                  (case pi_semver p of
                     None \<Rightarrow> Ok R
                   | Some v \<Rightarrow>
                       (case trackKeyOf (pi_base p) v of
                          None \<Rightarrow> Ok R
                        | Some t \<Rightarrow> claim t \<lparr>tc_key = key, tc_version = Some v\<rparr> R)))))"

fun registerAll :: "(string \<times> 'v) list \<Rightarrow> 'v ImportResolver \<Rightarrow> 'v ImportResolver result" where
  "registerAll [] R = Ok R"
| "registerAll ((key, v) # kvs) R =
     (if map_of (ir_exact R) key \<noteq> None then Err (registrationError (''duplicate import key '' @ key))
      else bindR (register key (R\<lparr>ir_exact := ir_exact R @ [(key, v)]\<rparr>)) (registerAll kvs))"

definition newResolver :: "(string \<times> 'v) list \<Rightarrow> 'v ImportResolver result" where
  "newResolver rec1 = registerAll rec1 \<lparr>ir_exact = [], ir_tracks = (\<lambda>_. None), ir_unversioned = (\<lambda>_. None)\<rparr>"

definition keysOf :: "'v ImportResolver \<Rightarrow> string list" where
  "keysOf R = map fst (ir_exact R)"

text \<open>The value of a key that is registered; \<open>Map.get\<close> gives undefined otherwise, which no claim leads to.\<close>

definition resolveTrack :: "string \<Rightarrow> 'v ImportResolver \<Rightarrow> (string \<times> 'v) option" where
  "resolveTrack track R =
     (case ir_tracks R track of
        None \<Rightarrow> None
      | Some c \<Rightarrow> map_option (Pair (tc_key c)) (map_of (ir_exact R) (tc_key c)))"

definition resolveImport :: "string \<Rightarrow> 'v ImportResolver \<Rightarrow> (string \<times> 'v) option result" where
  "resolveImport name R =
     (case map_of (ir_exact R) name of
        Some v \<Rightarrow> Ok (Some (name, v))
      | None \<Rightarrow>
          (let p = parseInterfaceId name in
           case pi_semver p of
             Some v \<Rightarrow>
               (case (case trackKeyOf (pi_base p) v of None \<Rightarrow> None | Some t \<Rightarrow> resolveTrack t R) of
                  Some hit \<Rightarrow> Ok (Some hit)
                | None \<Rightarrow>
                    (case ir_unversioned R (pi_base p) of
                       Some un \<Rightarrow> Err (resolutionError (''import '' @ name @ '' is versioned but the only registration is the unversioned key '' @ un))
                     | None \<Rightarrow> Ok None))
           | None \<Rightarrow>
               if pi_version p = None \<and> list_ex (\<lambda>k. pi_base (parseInterfaceId k) = pi_base p) (keysOf R) then
                 Err (resolutionError (''import '' @ name @ '' is unversioned but the registrations for it are versioned''))
               else Ok None))"

end
