(* ===== verification/VersionProps.thy ===== *)
theory VersionProps
  imports Version
begin

text \<open>
  The resolver against the rule of the embedder's contract: an import is answered by its own id, else by the highest version
  registered on its compatibility track, and nothing else; the order of registration does not matter.
\<close>

section \<open>The rule\<close>

definition keysIn :: "(string \<times> 'v) list \<Rightarrow> string set" where
  "keysIn kvs = fst ` set kvs"

definition versionOf :: "string \<Rightarrow> Semver option" where
  "versionOf key = pi_semver (parseInterfaceId key)"

text \<open>The track a registered key claims.\<close>

definition claimsTrack :: "string \<Rightarrow> string option" where
  "claimsTrack key = (case asTrackKeySpelling key of Some t \<Rightarrow> Some t | None \<Rightarrow> trackKey key)"

definition atLeast :: "string \<Rightarrow> string \<Rightarrow> bool" where
  "atLeast k k1 \<longleftrightarrow> (case (versionOf k, versionOf k1) of (Some v, Some v1) \<Rightarrow> compareSemver v v1 \<ge> 0 | _ \<Rightarrow> True)"

text \<open>\<open>k\<close> serves the track among the registered keys.\<close>

definition serves :: "string set \<Rightarrow> string \<Rightarrow> string \<Rightarrow> bool" where
  "serves ks t k \<longleftrightarrow> k \<in> ks \<and> claimsTrack k = Some t \<and> (\<forall>k1 \<in> ks. claimsTrack k1 = Some t \<longrightarrow> atLeast k k1)"

text \<open>An unversioned interface id.\<close>

definition unversionedId :: "string \<Rightarrow> bool" where
  "unversionedId key \<longleftrightarrow> CHR ''@'' \<notin> set key \<and> (CHR ''/'' \<in> set key \<or> CHR '':'' \<in> set key)"

text \<open>The keys can be registered together.\<close>

definition registrable :: "string set \<Rightarrow> bool" where
  "registrable ks \<longleftrightarrow>
     (\<forall>k \<in> ks. pi_version (parseInterfaceId k) \<noteq> Some ''0'') \<and>
     (\<forall>k \<in> ks. \<forall>k1 \<in> ks. k \<noteq> k1 \<longrightarrow> claimsTrack k \<noteq> None \<longrightarrow> claimsTrack k = claimsTrack k1 \<longrightarrow> asTrackKeySpelling k = None)"

section \<open>Versions on a track\<close>

lemma unversioned_parse: "CHR ''@'' \<notin> set name \<Longrightarrow> parseInterfaceId name = \<lparr>pi_base = name, pi_version = None, pi_semver = None\<rparr>"
  by (simp add: parseInterfaceId_def)

lemma versioned_parse: "CHR ''@'' \<in> set name \<Longrightarrow> pi_version (parseInterfaceId name) \<noteq> None"
  by (simp add: parseInterfaceId_def Let_def)

lemma semver_version: "pi_semver (parseInterfaceId name) = Some v \<Longrightarrow> pi_version (parseInterfaceId name) \<noteq> None"
  by (auto simp: parseInterfaceId_def Let_def split: if_splits)

lemma spelling_no_version: "asTrackKeySpelling key = Some t \<Longrightarrow> t = key \<and> versionOf key = None \<and> pi_version (parseInterfaceId key) \<noteq> None"
  by (auto simp: asTrackKeySpelling_def versionOf_def Let_def split: option.splits if_splits)

lemma spelling_not_zero: "asTrackKeySpelling key \<noteq> None \<Longrightarrow> pi_version (parseInterfaceId key) \<noteq> Some ''0''"
  by (auto simp: asTrackKeySpelling_def Let_def digits_def split: option.splits if_splits)

text \<open>Only releases are on a track, and they are compared by their three numbers.\<close>

definition release :: "string \<Rightarrow> bool" where
  "release k \<longleftrightarrow> (\<exists>v. versionOf k = Some v \<and> sv_prerelease v = [])"

lemma track_release: "claimsTrack k = Some t \<Longrightarrow> asTrackKeySpelling k = None \<Longrightarrow> release k"
  by (auto simp: claimsTrack_def trackKey_def trackKeyOf_def Let_def versionOf_def release_def split: option.splits if_splits)

lemma compare_release:
  "sv_prerelease a = [] \<Longrightarrow> sv_prerelease b = [] \<Longrightarrow>
   compareSemver a b \<ge> 0 \<longleftrightarrow>
     sv_major b < sv_major a \<or> sv_major a = sv_major b \<and> (sv_minor b < sv_minor a \<or> sv_minor a = sv_minor b \<and> sv_patch b \<le> sv_patch a)"
  by (auto simp: compareSemver_def)

lemma compare_flip: "sv_prerelease a = [] \<Longrightarrow> sv_prerelease b = [] \<Longrightarrow> compareSemver b a = - compareSemver a b"
  by (simp add: compareSemver_def)

lemma atLeast_trans:
  assumes "release a" "release b" "release c" "atLeast a b" "atLeast b c"
  shows "atLeast a c"
proof -
  obtain x y z where v: "versionOf a = Some x" "versionOf b = Some y" "versionOf c = Some z"
      "sv_prerelease x = []" "sv_prerelease y = []" "sv_prerelease z = []"
    using assms(1-3) unfolding release_def by blast
  have "compareSemver x y \<ge> 0" "compareSemver y z \<ge> 0" using assms(4,5) v by (simp_all add: atLeast_def)
  then have "compareSemver x z \<ge> 0" using compare_release v(4-6) by auto
  then show ?thesis using v by (simp add: atLeast_def)
qed

lemma compare_self [simp]: "compareSemver v v = 0"
proof -
  have "compareIds xs xs = 0" for xs by (induction xs) (simp_all add: compareId_def)
  then show ?thesis by (simp add: compareSemver_def)
qed

lemma atLeast_refl: "atLeast k k"
  by (simp add: atLeast_def split: option.splits)

section \<open>The resolver after the registrations\<close>

definition trackEntry :: "string set \<Rightarrow> string \<Rightarrow> TrackClaim option \<Rightarrow> bool" where
  "trackEntry ks t o1 \<longleftrightarrow>
     (case o1 of
        None \<Rightarrow> \<forall>k \<in> ks. claimsTrack k \<noteq> Some t
      | Some c \<Rightarrow> serves ks t (tc_key c) \<and>
          tc_version c = (if asTrackKeySpelling (tc_key c) = None then versionOf (tc_key c) else None))"

definition resolver_inv :: "(string \<times> 'v) list \<Rightarrow> 'v ImportResolver \<Rightarrow> bool" where
  "resolver_inv kvs R \<longleftrightarrow>
     ir_exact R = kvs \<and> distinct (map fst kvs) \<and> registrable (keysIn kvs) \<and>
     (\<forall>t. trackEntry (keysIn kvs) t (ir_tracks R t)) \<and>
     (\<forall>b. ir_unversioned R b = (if b \<in> keysIn kvs \<and> unversionedId b then Some b else None))"

lemma registrable_insert:
  assumes "registrable ks" "key \<notin> ks"
  shows "registrable (insert key ks) \<longleftrightarrow>
    pi_version (parseInterfaceId key) \<noteq> Some ''0'' \<and>
    (\<forall>k \<in> ks. claimsTrack key \<noteq> None \<longrightarrow> claimsTrack k = claimsTrack key \<longrightarrow> asTrackKeySpelling k = None \<and> asTrackKeySpelling key = None)"
  using assms unfolding registrable_def by auto

lemma serves_insert: "claimsTrack key \<noteq> Some t \<Longrightarrow> serves (insert key ks) t k \<longleftrightarrow> serves ks t k"
  by (auto simp: serves_def)

lemma trackEntry_insert: "claimsTrack key \<noteq> Some t \<Longrightarrow> trackEntry (insert key ks) t o1 \<longleftrightarrow> trackEntry ks t o1"
  by (auto simp: trackEntry_def serves_insert split: option.splits)

text \<open>A registered key that claims a track is spelled as one, or is a release.\<close>

lemma claim_version:
  assumes "claimsTrack k = Some t"
  shows "asTrackKeySpelling k \<noteq> None \<longleftrightarrow> (if asTrackKeySpelling k = None then versionOf k else None) = None"
  using track_release [OF assms] by (auto simp: release_def)

lemma claim_step:
  fixes R :: "'v ImportResolver"
  assumes inv: "resolver_inv kvs R" and new: "key \<notin> keysIn kvs" and t: "claimsTrack key = Some t"
    and ok: "pi_version (parseInterfaceId key) \<noteq> Some ''0''" "\<not> unversionedId key"
  shows "case claim t \<lparr>tc_key = key, tc_version = (if asTrackKeySpelling key = None then versionOf key else None)\<rparr> (R\<lparr>ir_exact := kvs @ [(key, x)]\<rparr>) of
      Inr R1 \<Rightarrow> resolver_inv (kvs @ [(key, x)]) R1
    | Inl e \<Rightarrow> \<not> registrable (insert key (keysIn kvs))"
proof -
  let ?c = "\<lparr>tc_key = key, tc_version = (if asTrackKeySpelling key = None then versionOf key else None)\<rparr>"
  let ?R = "R\<lparr>ir_exact := kvs @ [(key, x)]\<rparr>" and ?ks = "keysIn kvs"
  have ks: "keysIn (kvs @ [(key, x)]) = insert key ?ks" by (simp add: keysIn_def)
  have d: "distinct (map fst (kvs @ [(key, x)]))" using inv new by (auto simp: resolver_inv_def keysIn_def)
  have reg: "registrable ?ks" using inv by (simp add: resolver_inv_def)
  have tr: "trackEntry ?ks u (ir_tracks R u)" for u using inv by (simp add: resolver_inv_def)
  have un: "ir_unversioned R b = (if b \<in> insert key ?ks \<and> unversionedId b then Some b else None)" for b
    using inv ok(2) by (auto simp: resolver_inv_def)
  have keep: "resolver_inv (kvs @ [(key, x)]) (?R\<lparr>ir_tracks := (ir_tracks R)(t := Some c)\<rparr>)"
    if "registrable (insert key ?ks)" "serves (insert key ?ks) t (tc_key c)"
       "tc_version c = (if asTrackKeySpelling (tc_key c) = None then versionOf (tc_key c) else None)" for c
  proof -
    have "trackEntry (insert key ?ks) u (((ir_tracks R)(t := Some c)) u)" for u
      using that(2,3) tr [of u] t by (cases "u = t") (simp_all add: trackEntry_insert trackEntry_def [of _ t])
    then show ?thesis unfolding resolver_inv_def ks using that(1) d un by simp
  qed
  show ?thesis
  proof (cases "ir_tracks R t")
    case None
    then have none: "\<forall>k \<in> ?ks. claimsTrack k \<noteq> Some t" using tr [of t] by (simp add: trackEntry_def)
    then have "serves (insert key ?ks) t key" using t atLeast_refl by (auto simp: serves_def)
    moreover have "registrable (insert key ?ks)" using registrable_insert [OF reg new] ok(1) none t by simp
    ultimately show ?thesis using None keep [of ?c] by (simp add: claim_def)
  next
    case (Some held)
    then have held: "serves ?ks t (tc_key held)" "tc_version held = (if asTrackKeySpelling (tc_key held) = None then versionOf (tc_key held) else None)"
      using tr [of t] by (simp_all add: trackEntry_def)
    then have ht: "tc_key held \<in> ?ks" "claimsTrack (tc_key held) = Some t" by (simp_all add: serves_def)
    then have ne: "tc_key held \<noteq> key" using new by blast
    note hv = claim_version [OF ht(2), folded held(2)] and kv = claim_version [OF t]
    show ?thesis
    proof (cases "asTrackKeySpelling (tc_key held) = None \<and> asTrackKeySpelling key = None")
      case False
      then have "\<not> registrable (insert key ?ks)" using registrable_insert [OF reg new] ht t by auto
      moreover have "\<exists>e. claim t ?c ?R = Inl e"
        using Some False hv kv by (cases "tc_version held"; cases "asTrackKeySpelling key") (auto simp: claim_def)
      ultimately show ?thesis by auto
    next
      case True
      then have r: "release (tc_key held)" "release key" using track_release ht(2) t by blast+
      then obtain v w where v: "versionOf (tc_key held) = Some v" "versionOf key = Some w" "sv_prerelease v = []" "sv_prerelease w = []"
        by (auto simp: release_def)
      have plain: "asTrackKeySpelling k = None" if "k \<in> ?ks" "claimsTrack k = Some t" for k
        using reg that ht True unfolding registrable_def by (metis option.distinct(1))
      then have rel: "release k" if "k \<in> ?ks" "claimsTrack k = Some t" for k using that track_release by blast
      have ri: "registrable (insert key ?ks)" using registrable_insert [OF reg new] ok(1) plain True t by auto
      show ?thesis
      proof (cases "compareSemver w v > 0")
        case gt: True
        have "atLeast key (tc_key held)" using gt v by (simp add: atLeast_def)
        then have "atLeast key k" if "k \<in> ?ks" "claimsTrack k = Some t" for k
          using atLeast_trans [OF r(2,1) rel [OF that]] held(1) that by (auto simp: serves_def)
        then have "serves (insert key ?ks) t key" using t atLeast_refl by (auto simp: serves_def)
        then show ?thesis using Some True gt v held(2) ri keep [of ?c] by (simp add: claim_def)
      next
        case le: False
        then have "atLeast (tc_key held) key" using v compare_flip [OF v(3,4)] by (simp add: atLeast_def)
        then have "serves (insert key ?ks) t (tc_key held)" using held(1) by (auto simp: serves_def)
        moreover have "?R\<lparr>ir_tracks := (ir_tracks R)(t := Some held)\<rparr> = ?R" using Some by (simp add: fun_upd_idem)
        ultimately show ?thesis using Some True le v held(2) ri keep [of held] by (simp add: claim_def)
      qed
    qed
  qed
qed

lemma no_claim_step:
  assumes inv: "resolver_inv kvs R" and new: "key \<notin> keysIn kvs" and t: "claimsTrack key = None"
    and ok: "pi_version (parseInterfaceId key) \<noteq> Some ''0''"
  shows "resolver_inv (kvs @ [(key, x)])
    (R\<lparr>ir_exact := kvs @ [(key, x)], ir_unversioned := (if unversionedId key then (ir_unversioned R)(key := Some key) else ir_unversioned R)\<rparr>)"
proof -
  have ks: "keysIn (kvs @ [(key, x)]) = insert key (keysIn kvs)" by (simp add: keysIn_def)
  have d: "distinct (map fst (kvs @ [(key, x)]))" using inv new by (auto simp: resolver_inv_def keysIn_def)
  have "registrable (insert key (keysIn kvs))" using inv registrable_insert [of "keysIn kvs" key] new ok t by (simp add: resolver_inv_def)
  then show ?thesis using inv t d unfolding resolver_inv_def ks by (auto simp: trackEntry_insert)
qed

lemma register_step:
  fixes R :: "'v ImportResolver"
  assumes inv: "resolver_inv kvs R" and new: "key \<notin> keysIn kvs"
  shows "case register key (R\<lparr>ir_exact := kvs @ [(key, x)]\<rparr>) of
      Inr R1 \<Rightarrow> resolver_inv (kvs @ [(key, x)]) R1
    | Inl e \<Rightarrow> \<not> registrable (insert key (keysIn kvs))"
proof (cases "asTrackKeySpelling key")
  case (Some t)
  note sp = spelling_no_version [OF Some]
  have "pi_version (parseInterfaceId key) \<noteq> Some ''0''" using spelling_not_zero Some by simp
  moreover have "\<not> unversionedId key" using sp unversioned_parse [of key] by (auto simp: unversionedId_def)
  moreover have "claimsTrack key = Some t" using Some by (simp add: claimsTrack_def)
  ultimately show ?thesis using claim_step [OF inv new, of t x] Some by (simp add: register_def)
next
  case spell: None
  let ?p = "parseInterfaceId key"
  have reg: "registrable (keysIn kvs)" using inv by (simp add: resolver_inv_def)
  show ?thesis
  proof (cases "pi_version ?p = Some ''0''")
    case True
    then show ?thesis using spell registrable_insert [OF reg new] by (simp add: register_def)
  next
    case ok: False
    show ?thesis
    proof (cases "pi_version ?p")
      case None
      then have at: "CHR ''@'' \<notin> set key" using versioned_parse by blast
      then have p: "?p = \<lparr>pi_base = key, pi_version = None, pi_semver = None\<rparr>" by (rule unversioned_parse)
      then have "claimsTrack key = None" using spell by (simp add: claimsTrack_def trackKey_def)
      from no_claim_step [OF inv new this ok, of x] show ?thesis using spell p at
        by (cases "CHR ''/'' \<in> set key \<or> CHR '':'' \<in> set key") (auto simp: register_def unversionedId_def)
    next
      case (Some ver)
      then have nu: "\<not> unversionedId key" using unversioned_parse [of key] by (auto simp: unversionedId_def)
      show ?thesis
      proof (cases "trackKey key")
        case None
        then have "claimsTrack key = None" using spell by (simp add: claimsTrack_def)
        from no_claim_step [OF inv new this ok, of x] show ?thesis using spell Some ok None nu
          by (auto simp: register_def trackKey_def Let_def split: option.splits)
      next
        case track: (Some t)
        then have "claimsTrack key = Some t" using spell by (simp add: claimsTrack_def)
        from claim_step [OF inv new this ok nu, of x] show ?thesis using spell Some ok track
          by (auto simp: register_def trackKey_def Let_def versionOf_def split: option.splits)
      qed
    qed
  qed
qed

lemma registrable_mono: "registrable ks \<Longrightarrow> ks1 \<subseteq> ks \<Longrightarrow> registrable ks1"
  unfolding registrable_def by blast

lemma registerAll_run:
  assumes "resolver_inv done1 R" "distinct (map fst (done1 @ kvs))"
  shows "case registerAll kvs R of Inr R1 \<Rightarrow> resolver_inv (done1 @ kvs) R1 | Inl e \<Rightarrow> \<not> registrable (keysIn (done1 @ kvs))"
  using assms
proof (induction kvs arbitrary: done1 R)
  case (Cons kv kvs)
  obtain key x where kv: "kv = (key, x)" by (cases kv)
  have e: "ir_exact R = done1" using Cons.prems(1) by (simp add: resolver_inv_def)
  have new: "key \<notin> keysIn done1" using Cons.prems(2) kv by (auto simp: keysIn_def)
  then have m: "map_of (ir_exact R) key = None" using e by (auto simp: keysIn_def map_of_eq_None_iff)
  note step = register_step [OF Cons.prems(1) new, of x]
  show ?case
  proof (cases "register key (R\<lparr>ir_exact := done1 @ [(key, x)]\<rparr>)")
    case (Inl err)
    have "insert key (keysIn done1) \<subseteq> keysIn (done1 @ kv # kvs)" by (auto simp: keysIn_def kv)
    then have "\<not> registrable (keysIn (done1 @ kv # kvs))" using step Inl registrable_mono by fastforce
    then show ?thesis using Inl kv e m by (simp add: bindR_def)
  next
    case (Inr R1)
    then have i: "resolver_inv (done1 @ [(key, x)]) R1" using step by simp
    from Cons.IH [OF i] show ?thesis using Cons.prems(2) Inr kv e m by (auto simp: bindR_def split: sum.splits)
  qed
qed simp

lemma newResolver_run:
  assumes "distinct (map fst kvs)"
  shows "case newResolver kvs of Inr R \<Rightarrow> resolver_inv kvs R | Inl e \<Rightarrow> \<not> registrable (keysIn kvs)"
proof -
  have "resolver_inv [] \<lparr>ir_exact = [], ir_tracks = (\<lambda>_. None), ir_unversioned = (\<lambda>_. None)\<rparr>"
    by (simp add: resolver_inv_def keysIn_def registrable_def trackEntry_def)
  from registerAll_run [OF this, of kvs] show ?thesis using assms by (auto simp: newResolver_def split: sum.splits)
qed

section \<open>Resolution\<close>

definition baseOf :: "string \<Rightarrow> string" where
  "baseOf name = pi_base (parseInterfaceId name)"

text \<open>No key is the import's id, or claims its track.\<close>

definition unanswered :: "string set \<Rightarrow> string \<Rightarrow> bool" where
  "unanswered ks name \<longleftrightarrow> name \<notin> ks \<and> (\<forall>k \<in> ks. trackKey name \<noteq> None \<longrightarrow> claimsTrack k \<noteq> trackKey name)"

text \<open>Answering would take the version off the import or off the key.\<close>

definition needsFolding :: "string set \<Rightarrow> string \<Rightarrow> bool" where
  "needsFolding ks name \<longleftrightarrow>
     (versionOf name \<noteq> None \<and> baseOf name \<in> ks \<and> unversionedId (baseOf name)) \<or>
     (CHR ''@'' \<notin> set name \<and> (\<exists>k \<in> ks. baseOf k = name))"

text \<open>The rule: \<open>None\<close> is a refusal, \<open>Some None\<close> that nothing is provided.\<close>

definition resolution :: "(string \<times> 'v) set \<Rightarrow> string \<Rightarrow> (string \<times> 'v) option option \<Rightarrow> bool" where
  "resolution A name o1 \<longleftrightarrow>
     (case o1 of
        Some (Some (k, x)) \<Rightarrow> (k, x) \<in> A \<and> (k = name \<or> name \<notin> fst ` A \<and> (\<exists>t. trackKey name = Some t \<and> serves (fst ` A) t k))
      | Some None \<Rightarrow> unanswered (fst ` A) name \<and> \<not> needsFolding (fst ` A) name
      | None \<Rightarrow> unanswered (fst ` A) name \<and> needsFolding (fst ` A) name)"

lemma resolveTrack_run:
  assumes "resolver_inv kvs R"
  shows "case resolveTrack t R of None \<Rightarrow> \<forall>k \<in> keysIn kvs. claimsTrack k \<noteq> Some t | Some (k, x) \<Rightarrow> (k, x) \<in> set kvs \<and> serves (keysIn kvs) t k"
proof -
  have e: "trackEntry (keysIn kvs) t (ir_tracks R t)" "ir_exact R = kvs" using assms by (simp_all add: resolver_inv_def)
  show ?thesis
  proof (cases "ir_tracks R t")
    case None
    then show ?thesis using e(1) by (simp add: resolveTrack_def trackEntry_def)
  next
    case (Some c)
    then have s: "serves (keysIn kvs) t (tc_key c)" using e(1) by (simp add: trackEntry_def)
    then obtain x where "map_of kvs (tc_key c) = Some x"
      by (cases "map_of kvs (tc_key c)") (auto simp: serves_def keysIn_def map_of_eq_None_iff)
    then show ?thesis using Some s e(2) map_of_SomeD by (fastforce simp: resolveTrack_def)
  qed
qed

lemma resolve_run:
  assumes inv: "resolver_inv kvs R"
  shows "resolution (set kvs) name (case resolveImport name R of Inl e \<Rightarrow> None | Inr o1 \<Rightarrow> Some o1)"
proof -
  note keysIn_def [simp] and resolution_def [simp]
  let ?p = "parseInterfaceId name"
  have e: "ir_exact R = kvs" "ir_unversioned R b = (if b \<in> keysIn kvs \<and> unversionedId b then Some b else None)" for b
    using inv by (simp_all add: resolver_inv_def)
  show ?thesis
  proof (cases "map_of kvs name")
    case (Some x)
    then show ?thesis using e(1) by (simp add: resolveImport_def map_of_SomeD)
  next
    case None
    then have new: "name \<notin> keysIn kvs" by (simp add: keysIn_def map_of_eq_None_iff)
    show ?thesis
    proof (cases "pi_semver ?p")
      case noversion: None
      then have t: "trackKey name = None" "versionOf name = None" by (simp_all add: trackKey_def versionOf_def)
      have at: "pi_version ?p = None \<longleftrightarrow> CHR ''@'' \<notin> set name"
        using versioned_parse unversioned_parse by fastforce
      have near: "list_ex (\<lambda>k. pi_base (parseInterfaceId k) = pi_base ?p) (keysOf R) \<longleftrightarrow> (\<exists>k \<in> keysIn kvs. baseOf k = baseOf name)"
        by (auto simp: list_ex_iff keysOf_def e(1) keysIn_def baseOf_def)
      have "CHR ''@'' \<notin> set name \<Longrightarrow> baseOf name = name" using unversioned_parse by (simp add: baseOf_def)
      then show ?thesis using None noversion e(1) near at t new
        by (auto simp: resolveImport_def Let_def unanswered_def needsFolding_def) force
    next
      case (Some v)
      have at: "CHR ''@'' \<in> set name" using semver_version [OF Some] unversioned_parse by fastforce
      have tk: "trackKey name = trackKeyOf (pi_base ?p) v" "versionOf name \<noteq> None" using Some by (simp_all add: trackKey_def versionOf_def)
      show ?thesis
      proof (cases "case trackKeyOf (pi_base ?p) v of None \<Rightarrow> None | Some t \<Rightarrow> resolveTrack t R")
        case (Some hit)
        then obtain t where t: "trackKeyOf (pi_base ?p) v = Some t" "resolveTrack t R = Some hit" by (auto split: option.splits)
        then show ?thesis using resolveTrack_run [OF inv, of t] Some \<open>pi_semver ?p = Some v\<close> None e(1) new tk
          by (cases hit) (simp add: resolveImport_def)
      next
        case miss: None
        have un: "unanswered (keysIn kvs) name"
        proof (cases "trackKeyOf (pi_base ?p) v")
          case None
          then show ?thesis using new tk(1) by (simp add: unanswered_def)
        next
          case (Some t)
          then have "resolveTrack t R = None" using miss by simp
          then show ?thesis using Some new tk(1) resolveTrack_run [OF inv, of t] by (simp add: unanswered_def)
        qed
        then show ?thesis using miss Some None e at tk(2)
          by (cases "pi_base ?p \<in> keysIn kvs \<and> unversionedId (pi_base ?p)") (auto simp: resolveImport_def needsFolding_def baseOf_def Let_def)
      qed
    qed
  qed
qed

lemma newResolver_inv: "distinct (map fst kvs) \<Longrightarrow> newResolver kvs = Inr R \<Longrightarrow> resolver_inv kvs R"
  using newResolver_run [of kvs] by simp

text \<open>C26: An import is answered by the registration of its own id or else by the highest version registered on its compatibility
  track, and by nothing else.  When neither exists it is reported as not provided, unless a version would have to be taken off the
  import or off a key to answer it: that is refused.\<close>

theorem import_resolution:
  assumes "distinct (map fst kvs)" "newResolver kvs = Inr R"
  shows "resolution (set kvs) name (case resolveImport name R of Inl e \<Rightarrow> None | Inr o1 \<Rightarrow> Some o1)"
  by (rule resolve_run [OF newResolver_inv [OF assms]])

section \<open>The order of registration\<close>

text \<open>What an import gets: \<open>None\<close> when the registration is refused, \<open>Some None\<close> when the resolution is.\<close>

definition answer :: "(string \<times> 'v) list \<Rightarrow> string \<Rightarrow> (string \<times> 'v) option option option" where
  "answer kvs name =
     (case newResolver kvs of
        Inl e \<Rightarrow> None
      | Inr R \<Rightarrow> Some (case resolveImport name R of Inl e \<Rightarrow> None | Inr o1 \<Rightarrow> Some o1))"

text \<open>No two keys on one track have the same three numbers.\<close>

definition noTies :: "string set \<Rightarrow> bool" where
  "noTies ks \<longleftrightarrow>
     (\<forall>k \<in> ks. \<forall>k1 \<in> ks. claimsTrack k \<noteq> None \<longrightarrow> claimsTrack k = claimsTrack k1 \<longrightarrow> atLeast k k1 \<longrightarrow> atLeast k1 k \<longrightarrow> k = k1)"

lemma serves_unique: "noTies ks \<Longrightarrow> serves ks t k \<Longrightarrow> serves ks t k1 \<Longrightarrow> k1 = k"
  unfolding noTies_def serves_def by (metis option.distinct(1))

lemma resolution_unique:
  fixes kvs :: "(string \<times> 'v) list"
  assumes "resolution (set kvs) name o1" "resolution (set kvs) name o2" "noTies (fst ` set kvs)" "distinct (map fst kvs)"
  shows "o1 = o2"
proof -
  let ?ks = "fst ` set kvs"
  have u: "\<not> unanswered ?ks name" if "resolution (set kvs) name (Some (Some (k, x)))" for k x
  proof -
    have "k \<in> ?ks" using that by (force simp: resolution_def)
    then show ?thesis using that by (auto simp: unanswered_def serves_def resolution_def) force
  qed
  have same: "a = b" if "resolution (set kvs) name (Some (Some a))" "resolution (set kvs) name (Some (Some b))" for a b
  proof -
    obtain k x l y where ab: "a = (k, x)" "b = (l, y)" by (cases a; cases b)
    then have m: "(k, x) \<in> set kvs" "(l, y) \<in> set kvs" using that by (simp_all add: resolution_def)
    then have "k \<in> ?ks" "l \<in> ?ks" by force+
    then have "k = l" using that ab serves_unique [OF assms(3)] by (auto simp: resolution_def)
    then show ?thesis using m ab eq_key_imp_eq_value [OF assms(4)] by blast
  qed
  have none: "unanswered ?ks name \<and> needsFolding ?ks name" if "resolution (set kvs) name None" using that by (simp add: resolution_def)
  have miss: "unanswered ?ks name \<and> \<not> needsFolding ?ks name" if "resolution (set kvs) name (Some None)" using that by (simp add: resolution_def)
  have c: "o3 = None \<or> o3 = Some None \<or> (\<exists>a. o3 = Some (Some a))" for o3 :: "(string \<times> 'v) option option" by (metis option.exhaust)
  then show ?thesis using c [of o1] c [of o2] assms(1,2) none miss same u by (metis prod.collapse)
qed

text \<open>C36: The order of the import record does not matter: two records with the same entries are both accepted or both refused, and
  give every import the same provider or the same refusal, as long as no two versions on a track are equal up to build metadata.\<close>

theorem registration_order_irrelevant:
  assumes "distinct (map fst kvs)" "distinct (map fst kvs1)" "set kvs = set kvs1" "noTies (keysIn kvs)"
  shows "answer kvs name = answer kvs1 name"
proof -
  have ks: "keysIn kvs1 = keysIn kvs" by (simp add: keysIn_def assms(3))
  note run = newResolver_run [OF assms(1)] newResolver_run [OF assms(2), unfolded ks]
  consider e e1 where "newResolver kvs = Inl e" "newResolver kvs1 = Inl e1"
    | R R1 where "newResolver kvs = Inr R" "newResolver kvs1 = Inr R1"
  proof (cases "newResolver kvs"; cases "newResolver kvs1")
    fix e R1 assume "newResolver kvs = Inl e" "newResolver kvs1 = Inr R1"
    then show thesis using run ks by (simp add: resolver_inv_def)
  next
    fix R e1 assume "newResolver kvs = Inr R" "newResolver kvs1 = Inl e1"
    then show thesis using run by (simp add: resolver_inv_def)
  qed (use that in blast)+
  then show ?thesis
  proof cases
    case 1
    then show ?thesis by (simp add: answer_def)
  next
    case (2 R R1)
    then have i: "resolver_inv kvs R" "resolver_inv kvs1 R1" using run by simp_all
    then show ?thesis
      using 2 resolution_unique [OF resolve_run [OF i(1), of name] resolve_run [OF i(2), of name, folded assms(3)] assms(4) [unfolded keysIn_def] assms(1)]
      by (simp add: answer_def)
  qed
qed

section \<open>Two versions of an interface\<close>

definition older :: string where "older = ''w:i/p@0.2.6''"
definition newer :: string where "newer = ''w:i/p@0.2.12''"

definition twoVersions :: "(string \<times> nat) list" where
  "twoVersions = [(older, 1), (newer, 2)]"

lemma two_facts:
  "claimsTrack older = Some ''w:i/p@0.2''" "claimsTrack newer = Some ''w:i/p@0.2''" "asTrackKeySpelling older = None" "asTrackKeySpelling newer = None"
  "atLeast newer older" "\<not> atLeast older newer" "older \<noteq> newer"
  "pi_version (parseInterfaceId older) \<noteq> Some ''0''" "pi_version (parseInterfaceId newer) \<noteq> Some ''0''"
  by code_simp+

lemma two_registered: obtains R where "newResolver twoVersions = Inr R"
proof -
  have "registrable (keysIn twoVersions)" using two_facts by (auto simp: registrable_def keysIn_def twoVersions_def)
  then show thesis using newResolver_run [of twoVersions] two_facts that by (cases "newResolver twoVersions") (auto simp: twoVersions_def)
qed

theorem import_resolution_witness:
  "\<exists>R. newResolver twoVersions = Inr R \<and>
     resolution (set twoVersions) ''w:i/p@0.2.9'' (case resolveImport ''w:i/p@0.2.9'' R of Inl e \<Rightarrow> None | Inr o1 \<Rightarrow> Some o1)"
proof -
  obtain R where R: "newResolver twoVersions = Inr R" by (rule two_registered)
  have "distinct (map fst twoVersions)" using two_facts by (simp add: twoVersions_def)
  from import_resolution [OF this R] R show ?thesis by blast
qed

theorem registration_order_irrelevant_witness:
  "answer twoVersions ''w:i/p@0.2.9'' = answer (rev twoVersions) ''w:i/p@0.2.9''"
proof (rule registration_order_irrelevant)
  show "noTies (keysIn twoVersions)" using two_facts by (auto simp: noTies_def keysIn_def twoVersions_def)
qed (use two_facts in \<open>simp_all add: twoVersions_def insert_commute\<close>)

text \<open>Versions that differ in build metadata only are a tie, and the first key of the record serves the track.\<close>

lemma build_metadata_tie:
  "answer [(''a:b/c@1.0.0+x'', 1 :: nat), (''a:b/c@1.0.0+y'', 2)] ''a:b/c@1.0.0'' = Some (Some (Some (''a:b/c@1.0.0+x'', 1)))"
  "answer [(''a:b/c@1.0.0+y'', 2 :: nat), (''a:b/c@1.0.0+x'', 1)] ''a:b/c@1.0.0'' = Some (Some (Some (''a:b/c@1.0.0+y'', 2)))"
  by code_simp+

section \<open>A track no version is on\<close>

lemma showNat_zero: "showNat n = ''0'' \<Longrightarrow> n = 0"
proof -
  have "showNat 0 = ''0''" by code_simp
  then show "showNat n = ''0'' \<Longrightarrow> n = 0" using showNat_inj [of n 0] by simp
qed

lemma after_last:
  assumes "x @ c # y = b @ c # z" "c \<notin> set y" "c \<notin> set z"
  shows "y = z"
proof -
  have t: "takeWhile (\<lambda>d. d \<noteq> c) (rev (u @ c # w)) = rev w" if "c \<notin> set w" for u w
    using that by (simp, subst takeWhile_append2) auto
  have "rev y = rev z" using arg_cong [OF assms(1), of "\<lambda>s. takeWhile (\<lambda>d. d \<noteq> c) (rev s)"] unfolding t [OF assms(2)] t [OF assms(3)] .
  then show ?thesis by (simp only: rev_is_rev_conv)
qed

lemma no_minor_zero_track: "trackKeyOf base v \<noteq> Some (b @ CHR ''@'' # ''0.0'')"
proof
  assume k: "trackKeyOf base v = Some (b @ CHR ''@'' # ''0.0'')"
  have nd: "\<not> isDigit CHR ''@''" "\<not> isDigit CHR ''.''" by code_simp+
  have sep: "CHR ''@'' \<notin> set (showNat n)" "CHR ''.'' \<notin> set (showNat n)" for n
    using showNat_digits [of n] nd unfolding list_all_iff by blast+
  have lit: "CHR ''@'' \<notin> set ''0.0''" "CHR ''@'' \<notin> set ''0.''" "CHR ''.'' \<in> set ''0.0''" "''0.0'' = ''0.'' @ ''0''" "''@0.'' = CHR ''@'' # ''0.''" by code_simp+
  have pre: "sv_prerelease v = []" using k by (cases "sv_prerelease v") (simp_all add: trackKeyOf_def)
  consider "sv_major v > 0" | "sv_major v = 0" "sv_minor v > 0" | "sv_major v = 0" "sv_minor v = 0" by blast
  then show False
  proof cases
    case 1
    then have "base @ CHR ''@'' # showNat (sv_major v) = b @ CHR ''@'' # ''0.0''"
      using k pre by (simp only: trackKeyOf_def simp_thms if_False if_True not_not option.inject append_Cons append_Nil)
    from after_last [OF this sep(1) lit(1)] have "CHR ''.'' \<in> set (showNat (sv_major v))" using lit(3) by (rule ssubst)
    with sep(2) show False ..
  next
    case 2
    then have "base @ CHR ''@'' # (''0.'' @ showNat (sv_minor v)) = b @ CHR ''@'' # ''0.0''"
      using k pre by (simp only: trackKeyOf_def less_irrefl simp_thms if_False if_True not_not option.inject append_Cons append_Nil)
    from after_last [OF this _ lit(1)] have "''0.'' @ showNat (sv_minor v) = ''0.'' @ ''0''" using sep(1) lit(2) unfolding lit(4) set_append by blast
    then have "showNat (sv_minor v) = ''0''" by (simp only: same_append_eq)
    from showNat_zero [OF this] 2(2) show False by simp
  next
    case 3
    then show False using k pre unfolding trackKeyOf_def by simp
  qed
qed

text \<open>
  The key \<open>@0.0\<close> is accepted as the spelling of a track, but no version is on it: as for the key \<open>@0\<close>, which is refused for
  that reason, the registration can never be resolved.
\<close>

lemma dead_track_key:
  "asTrackKeySpelling ''a:b/c@0.0'' = Some ''a:b/c@0.0''" "\<exists>R. newResolver [(''a:b/c@0.0'', x)] = Inr R" "trackKey name \<noteq> Some (b @ ''@0.0'')"
proof -
  show "asTrackKeySpelling ''a:b/c@0.0'' = Some ''a:b/c@0.0''" by code_simp
  then have "registrable (keysIn [(''a:b/c@0.0'', x)])" using spelling_not_zero by (simp add: registrable_def keysIn_def)
  then show "\<exists>R. newResolver [(''a:b/c@0.0'', x)] = Inr R"
    using newResolver_run [of "[(''a:b/c@0.0'', x)]"] by (cases "newResolver [(''a:b/c@0.0'', x)]") simp_all
  show "trackKey name \<noteq> Some (b @ ''@0.0'')" using no_minor_zero_track by (simp add: trackKey_def Let_def split: option.split)
qed

end
