(* ===== verification/Json.thy ===== *)
theory Json
  imports HostValues "HOL-Library.List_Lexorder" "HOL-Library.Char_ord"
begin

text \<open>
  JSON values and their text: \<open>JSON.stringify\<close> without white space, as the language defines it for plain data, and the recursive
  sorting of object keys (\<open>runtime/src/digest/digest.ts\<close>).  Strings are ASCII, numbers integers; an object is the list of its own
  properties in their order.  No key is spelled like an array index, which an object would enumerate first.
\<close>

section \<open>Values and text\<close>

datatype Json =
    JNull
  | JBool bool
  | JNum int
  | JStr string
  | JArr "Json list"
  | JObj "(string \<times> Json) list"

definition BACKSLASH :: char where
  "BACKSLASH = CHR 0x5C"

definition QUOTE :: char where
  "QUOTE = CHR 0x22"

definition needsEscape :: "char \<Rightarrow> bool" where
  "needsEscape c \<longleftrightarrow> c = QUOTE \<or> c = BACKSLASH \<or> (of_char c :: nat) < 32"

definition hexDigit :: "nat \<Rightarrow> char" where
  "hexDigit n = (if n < 10 then char_of (48 + n) else char_of (87 + n))"

definition escChar :: "char \<Rightarrow> string" where
  "escChar c =
     (if \<not> needsEscape c then [c]
      else if c = QUOTE \<or> c = BACKSLASH then [BACKSLASH, c]
      else
        (let n = of_char c :: nat in
         if n = 8 then [BACKSLASH, CHR ''b'']
         else if n = 9 then [BACKSLASH, CHR ''t'']
         else if n = 10 then [BACKSLASH, CHR ''n'']
         else if n = 12 then [BACKSLASH, CHR ''f'']
         else if n = 13 then [BACKSLASH, CHR ''r'']
         else [BACKSLASH, CHR ''u'', CHR ''0'', CHR ''0'', hexDigit (n div 16), hexDigit (n mod 16)]))"

definition quoteText :: "string \<Rightarrow> string" where
  "quoteText s = QUOTE # concat (map escChar s) @ [QUOTE]"

definition intText :: "int \<Rightarrow> string" where
  "intText n = (if n < 0 then CHR ''-'' # showNat (nat (- n)) else showNat (nat n))"

fun commaSep :: "string list \<Rightarrow> string" where
  "commaSep [] = []"
| "commaSep [x] = x"
| "commaSep (x # y # ys) = x @ CHR '','' # commaSep (y # ys)"

fun jsonText :: "Json \<Rightarrow> string" where
  "jsonText JNull = ''null''"
| "jsonText (JBool b) = (if b then ''true'' else ''false'')"
| "jsonText (JNum n) = intText n"
| "jsonText (JStr s) = quoteText s"
| "jsonText (JArr vs) = CHR ''['' # commaSep (map jsonText vs) @ [CHR '']'']"
| "jsonText (JObj ps) = CHR ''{'' # commaSep (map (\<lambda>p. quoteText (fst p) @ CHR '':'' # jsonText (snd p)) ps) @ [CHR ''}'']"

fun sortKeysDeep :: "Json \<Rightarrow> Json" where
  "sortKeysDeep (JArr vs) = JArr (map sortKeysDeep vs)"
| "sortKeysDeep (JObj ps) = JObj (sort_key fst (map (\<lambda>p. (fst p, sortKeysDeep (snd p))) ps))"
| "sortKeysDeep v = v"

definition canonicalStringify :: "Json \<Rightarrow> string" where
  "canonicalStringify v = jsonText (sortKeysDeep v)"

section \<open>A text has one value\<close>

lemma escChar_cases:
  obtains "\<not> needsEscape c" "escChar c = [c]" | x where "needsEscape c" "escChar c = BACKSLASH # x" "x \<noteq> []" "length x = (if hd x = CHR ''u'' then 5 else 1)"
proof (cases "needsEscape c")
  case False
  then show thesis using that(1) by (simp add: escChar_def)
next
  case True
  have n: "QUOTE \<noteq> CHR ''u''" "BACKSLASH \<noteq> CHR ''u''" by code_simp+
  show thesis
    by (rule that(2) [of "tl (escChar c)"]) (use True n in \<open>auto simp: escChar_def Let_def\<close>)
qed

definition escaped :: "char list" where
  "escaped = QUOTE # BACKSLASH # map char_of [0..<(32 :: nat)]"

lemma needs_escaped: "needsEscape c \<Longrightarrow> c \<in> set escaped"
proof -
  assume "needsEscape c"
  then consider "c = QUOTE" | "c = BACKSLASH" | "(of_char c :: nat) < 32" by (auto simp: needsEscape_def)
  then show ?thesis
  proof cases
    case 3
    then have "char_of (of_char c :: nat) \<in> char_of ` {0..<(32 :: nat)}" by (intro imageI) simp
    then show ?thesis by (simp add: escaped_def)
  qed (simp_all add: escaped_def)
qed

lemma escaped_distinct: "distinct (map escChar escaped)"
  by code_simp

lemma escChar_prefix:
  assumes "escChar c @ x = escChar d @ y"
  shows "c = d \<and> x = y"
proof -
  have b: "needsEscape BACKSLASH" by (simp add: needsEscape_def)
  show ?thesis
  proof (cases c rule: escChar_cases)
    case 1
    then show ?thesis using assms b by (cases d rule: escChar_cases) auto
  next
    case c: (2 u)
    show ?thesis
    proof (cases d rule: escChar_cases)
      case 1
      then show ?thesis using assms b c by auto
    next
      case d: (2 v)
      then have e: "u @ x = v @ y" using assms c by simp
      then have "hd u = hd v" using c(3) d(3) by (metis hd_append2)
      then have "length u = length v" using c(4) d(4) by simp
      then have uv: "u = v" "x = y" using e by auto
      then have "escChar c = escChar d" using c(2) d(2) by simp
      then have "c = d" using escaped_distinct needs_escaped [OF c(1)] needs_escaped [OF d(1)] by (simp add: distinct_map inj_on_def)
      then show ?thesis using uv by simp
    qed
  qed
qed

lemma escChar_not_quote: "escChar c @ x \<noteq> QUOTE # y"
proof -
  have "QUOTE \<noteq> BACKSLASH" by code_simp
  moreover have "needsEscape QUOTE" by (simp add: needsEscape_def)
  ultimately show ?thesis by (cases c rule: escChar_cases) auto
qed

lemma quote_prefix: "quoteText a @ x = quoteText b @ y \<Longrightarrow> a = b \<and> x = y"
proof -
  have "concat (map escChar a) @ QUOTE # x = concat (map escChar b) @ QUOTE # y \<Longrightarrow> a = b \<and> x = y"
  proof (induction a arbitrary: b)
    case Nil
    then show ?case by (cases b) (auto simp: escChar_not_quote [symmetric])
  next
    case (Cons c a)
    show ?case
    proof (cases b)
      case Nil
      then show ?thesis using Cons.prems escChar_not_quote by auto
    next
      case b: (Cons d b')
      then have "escChar c @ (concat (map escChar a) @ QUOTE # x) = escChar d @ (concat (map escChar b') @ QUOTE # y)"
        using Cons.prems by simp
      from escChar_prefix [OF this] show ?thesis using Cons.IH [of b'] b by simp
    qed
  qed
  then show "quoteText a @ x = quoteText b @ y \<Longrightarrow> a = b \<and> x = y" by (simp add: quoteText_def)
qed

text \<open>A number is read as far as its digits go.\<close>

definition follows :: "string \<Rightarrow> bool" where
  "follows s \<longleftrightarrow> (case s of [] \<Rightarrow> True | c # cs \<Rightarrow> c \<in> {CHR '','', CHR '']'', CHR ''}''})"

lemma digits_prefix:
  assumes "list_all isDigit a" "list_all isDigit b" "follows x" "follows y" "a @ x = b @ y"
  shows "a = b \<and> x = y"
proof -
  have nd: "\<not> isDigit CHR '',''" "\<not> isDigit CHR '']''" "\<not> isDigit CHR ''}''" by code_simp+
  have t: "takeWhile isDigit (c @ z) = c" if "list_all isDigit c" "follows z" for c z
    using that nd by (cases z) (auto simp: takeWhile_append list_all_iff follows_def)
  have "a = b" using arg_cong [OF assms(5), of "takeWhile isDigit"] t assms(1-4) by simp
  then show ?thesis using assms(5) by simp
qed

lemma int_prefix:
  assumes "follows x" "follows y" "intText m @ x = intText n @ y"
  shows "m = n \<and> x = y"
proof -
  have nd: "\<not> isDigit CHR ''-''" by code_simp
  have h: "hd (showNat k @ z) \<noteq> CHR ''-''" for k z
    using showNat_digits [of k] nd showNat_nonempty [of k] by (cases "showNat k") auto
  have pos: "hd (intText k @ z) = CHR ''-'' \<longleftrightarrow> k < 0" for k z
    using h by (simp add: intText_def)
  have s: "m < 0 \<longleftrightarrow> n < 0" using pos [of m x] pos [of n y] assms(3) by simp
  show ?thesis
  proof (cases "m < 0")
    case True
    then have "showNat (nat (- m)) = showNat (nat (- n)) \<and> x = y"
      using s assms digits_prefix [OF showNat_digits showNat_digits] by (simp add: intText_def)
    then show ?thesis using True s showNat_inj by fastforce
  next
    case False
    then have "showNat (nat m) = showNat (nat n) \<and> x = y"
      using s assms digits_prefix [OF showNat_digits showNat_digits] by (simp add: intText_def)
    then show ?thesis using False s showNat_inj by fastforce
  qed
qed

text \<open>\<open>f x\<close> can be told from every other text of \<open>f\<close>, whatever follows.\<close>

definition readable :: "('a \<Rightarrow> string) \<Rightarrow> 'a \<Rightarrow> bool" where
  "readable f x \<longleftrightarrow> (\<forall>y s t. follows s \<longrightarrow> follows t \<longrightarrow> f x @ s = f y @ t \<longrightarrow> x = y \<and> s = t)"

lemma readable_list:
  assumes "\<And>x. x \<in> set xs \<Longrightarrow> readable f x" "c \<in> {CHR '']'', CHR ''}''}" "\<And>x s. hd (f x @ s) \<noteq> c \<and> f x \<noteq> []"
    "commaSep (map f xs) @ c # s = commaSep (map f ys) @ c # t"
  shows "xs = ys \<and> s = t"
  using assms(1,4)
proof (induction xs arbitrary: ys)
  case Nil
  show ?case
  proof (cases ys)
    case (Cons y zs)
    then have "hd (f y @ r) = c" for r using Nil.prems(2) assms(3) [of y] by (cases zs; cases "f y") auto
    then show ?thesis using assms(3) by blast
  qed (use Nil.prems in simp)
next
  case (Cons x xs)
  have fc: "follows (c # r)" "follows (CHR '','' # r)" for r using assms(2) by (auto simp: follows_def)
  have ne: "c \<noteq> CHR '',''" using assms(2) by auto
  have x: "readable f x" using Cons.prems(1) by simp
  have one: "commaSep (map f (z # zs)) @ c # r = f z @ (case zs of [] \<Rightarrow> c # r | w # ws \<Rightarrow> CHR '','' # commaSep (map f zs) @ c # r)" for z zs r
    by (cases zs) simp_all
  show ?case
  proof (cases ys)
    case Nil
    then have "hd (f x @ r) = c" for r using Cons.prems(2) assms(3) [of x] by (cases xs; cases "f x") auto
    then show ?thesis using assms(3) by blast
  next
    case ys: (Cons y zs)
    let ?l = "\<lambda>zs r. case zs of [] \<Rightarrow> c # r | w # ws \<Rightarrow> CHR '','' # commaSep (map f zs) @ c # r"
    have e: "f x @ ?l xs s = f y @ ?l zs t" using Cons.prems(2) unfolding ys one .
    have "follows (?l xs s)" "follows (?l zs t)" using fc by (simp_all split: list.splits)
    then have xy: "x = y" "?l xs s = ?l zs t" using x e unfolding readable_def by blast+
    then show ?thesis
    proof (cases xs; cases zs)
      fix w ws v vs assume z: "xs = w # ws" "zs = v # vs"
      then have "commaSep (map f xs) @ c # s = commaSep (map f zs) @ c # t" using xy(2) by simp
      then show ?thesis using Cons.IH Cons.prems(1) xy(1) ys by simp
    qed (use ne xy ys in auto)
  qed
qed

lemma json_head:
  "hd (jsonText v @ s) \<notin> {CHR '']'', CHR ''}''} \<and> jsonText v \<noteq> []"
proof -
  have n: "\<not> isDigit CHR '']''" "\<not> isDigit CHR ''}''" by code_simp+
  have h: "hd (showNat k @ z) \<notin> {CHR '']'', CHR ''}''}" for k z
    using showNat_digits [of k] n showNat_nonempty [of k] by (cases "showNat k") auto
  have q: "QUOTE \<notin> {CHR '']'', CHR ''}''}" by code_simp
  show ?thesis using h q showNat_nonempty by (cases v) (simp_all add: intText_def quoteText_def)
qed

text \<open>What kind of value a text starts.\<close>

definition jsonKind :: "string \<Rightarrow> nat" where
  "jsonKind s =
     (let c = hd s in
      if c = CHR ''n'' then 0 else if c = CHR ''t'' then 1 else if c = CHR ''f'' then 2 else if c = QUOTE then 3
      else if c = CHR ''['' then 4 else if c = CHR ''{'' then 5 else 6)"

lemma jsonKind_text:
  "jsonKind (jsonText v @ s) =
     (case v of JNull \<Rightarrow> 0 | JBool b \<Rightarrow> (if b then 1 else 2) | JStr t \<Rightarrow> 3 | JArr vs \<Rightarrow> 4 | JObj ps \<Rightarrow> 5 | JNum n \<Rightarrow> 6)"
proof -
  let ?no = "{CHR ''n'', CHR ''t'', CHR ''f'', QUOTE, CHR ''['', CHR ''{''}"
  have n: "list_all (\<lambda>c. \<not> isDigit c) [CHR ''n'', CHR ''t'', CHR ''f'', QUOTE, CHR ''['', CHR ''{'']" "CHR ''-'' \<notin> ?no"
    "QUOTE \<noteq> CHR ''n''" "QUOTE \<noteq> CHR ''t''" "QUOTE \<noteq> CHR ''f''" "CHR ''['' \<noteq> QUOTE" "CHR ''{'' \<noteq> QUOTE" by code_simp+
  have "hd (showNat k @ z) \<notin> ?no" for k z
    using showNat_digits [of k] n(1) showNat_nonempty [of k] by (cases "showNat k") auto
  then have "hd (intText k @ z) \<notin> ?no" for k z using n(2) by (simp add: intText_def)
  then show ?thesis using n(3-) by (cases v) (simp_all add: jsonKind_def quoteText_def)
qed

lemma readableI:
  assumes "\<And>w s t. follows s \<Longrightarrow> follows t \<Longrightarrow> f x @ s = f w @ t \<Longrightarrow> x = w \<and> s = t"
  shows "readable f x"
  using assms unfolding readable_def by blast

lemma entry_readable:
  assumes "readable jsonText (snd p)"
  shows "readable (\<lambda>p. quoteText (fst p) @ CHR '':'' # jsonText (snd p)) p"
proof (rule readableI)
  fix q s t assume a: "follows s" "follows t"
    "(quoteText (fst p) @ CHR '':'' # jsonText (snd p)) @ s = (quoteText (fst q) @ CHR '':'' # jsonText (snd q)) @ t"
  then have "quoteText (fst p) @ (CHR '':'' # jsonText (snd p) @ s) = quoteText (fst q) @ (CHR '':'' # jsonText (snd q) @ t)" by simp
  from quote_prefix [OF this] have e: "fst p = fst q" "jsonText (snd p) @ s = jsonText (snd q) @ t" by simp_all
  then show "p = q \<and> s = t" using assms a(1,2) unfolding readable_def by (simp add: prod_eq_iff)
qed

lemma array_readable:
  assumes "\<And>v. v \<in> set vs \<Longrightarrow> readable jsonText v"
  shows "readable jsonText (JArr vs)"
proof (rule readableI)
  fix w s t assume a: "jsonText (JArr vs) @ s = jsonText w @ t"
  then have "jsonKind (jsonText w @ t) = 4" using jsonKind_text [of "JArr vs" s] by simp
  then obtain ws where w: "w = JArr ws" unfolding jsonKind_text by (cases w) (auto split: if_splits)
  then have e: "commaSep (map jsonText vs) @ CHR '']'' # s = commaSep (map jsonText ws) @ CHR '']'' # t" using a by simp
  have "hd (jsonText v @ r) \<noteq> CHR '']'' \<and> jsonText v \<noteq> []" for v r using json_head [of v r] by blast
  from readable_list [OF assms _ this e] show "JArr vs = w \<and> s = t" using w by simp
qed

lemma object_readable:
  assumes "\<And>p. p \<in> set ps \<Longrightarrow> readable jsonText (snd p)"
  shows "readable jsonText (JObj ps)"
proof (rule readableI)
  let ?f = "\<lambda>p. quoteText (fst p) @ CHR '':'' # jsonText (snd p)"
  have q: "QUOTE \<noteq> CHR ''}''" by code_simp
  fix w s t assume a: "jsonText (JObj ps) @ s = jsonText w @ t"
  then have "jsonKind (jsonText w @ t) = 5" using jsonKind_text [of "JObj ps" s] by simp
  then obtain qs where w: "w = JObj qs" unfolding jsonKind_text by (cases w) (auto split: if_splits)
  then have e: "commaSep (map ?f ps) @ CHR ''}'' # s = commaSep (map ?f qs) @ CHR ''}'' # t" using a by simp
  have "hd (?f p @ r) \<noteq> CHR ''}'' \<and> ?f p \<noteq> []" for p r using q by (simp add: quoteText_def)
  from readable_list [OF entry_readable [OF assms] _ this e] show "JObj ps = w \<and> s = t" using w by simp
qed

lemma json_readable: "readable jsonText v"
proof (induction v)
  case (JNum n)
  show ?case
  proof (rule readableI)
    fix w s t assume a: "follows s" "follows t" "jsonText (JNum n) @ s = jsonText w @ t"
    then have "jsonKind (jsonText w @ t) = 6" using jsonKind_text [of "JNum n" s] by simp
    then obtain m where "w = JNum m" unfolding jsonKind_text by (cases w) (auto split: if_splits)
    then show "JNum n = w \<and> s = t" using a int_prefix [of s t n m] by simp
  qed
next
  case (JStr u)
  show ?case
  proof (rule readableI)
    fix w s t assume a: "jsonText (JStr u) @ s = jsonText w @ t"
    then have "jsonKind (jsonText w @ t) = 3" using jsonKind_text [of "JStr u" s] by simp
    then obtain m where "w = JStr m" unfolding jsonKind_text by (cases w) (auto split: if_splits)
    then show "JStr u = w \<and> s = t" using a quote_prefix [of u s m t] by simp
  qed
next
  case (JArr vs)
  then show ?case by (rule array_readable)
next
  case (JObj ps)
  have "readable jsonText (snd p)" if "p \<in> set ps" for p using JObj.IH [OF that, of "snd p"] by (cases p) simp
  then show ?case by (rule object_readable)
next
  case JNull
  show ?case
  proof (rule readableI)
    fix w s t assume a: "jsonText JNull @ s = jsonText w @ t"
    then have "jsonKind (jsonText w @ t) = 0" using jsonKind_text [of JNull s] by simp
    then have "w = JNull" unfolding jsonKind_text by (cases w) (auto split: if_splits)
    then show "JNull = w \<and> s = t" using a by simp
  qed
next
  case (JBool b)
  show ?case
  proof (rule readableI)
    fix w s t assume a: "jsonText (JBool b) @ s = jsonText w @ t"
    then have "jsonKind (jsonText w @ t) = (if b then 1 else 2)" using jsonKind_text [of "JBool b" s] by simp
    then have "w = JBool b" unfolding jsonKind_text by (cases w) (auto split: if_splits)
    then show "JBool b = w \<and> s = t" using a by simp
  qed
qed

lemma jsonText_inj: "jsonText v = jsonText w \<Longrightarrow> v = w"
  using json_readable [of v] unfolding readable_def follows_def by (metis append_Nil2 list.simps(4))

section \<open>Sorted keys\<close>

lemma sortKeysDeep_field:
  assumes "sortKeysDeep (JObj ps) = sortKeysDeep (JObj qs)" "distinct (map fst ps)" "distinct (map fst qs)"
  shows "map_option sortKeysDeep (map_of ps k) = map_option sortKeysDeep (map_of qs k)"
proof -
  let ?m = "\<lambda>rs. map (\<lambda>p. (fst p, sortKeysDeep (snd p))) rs"
  have m: "map_of (?m rs) k = map_option sortKeysDeep (map_of rs k)" for rs by (induction rs) auto
  have d: "distinct (map fst (?m rs))" if "distinct (map fst rs)" for rs using that by (simp add: comp_def)
  have s: "map_of (sort_key fst rs) k = map_of rs k" if "distinct (map fst rs)" for rs :: "(string \<times> Json) list"
  proof -
    have "distinct (map fst (sort_key fst rs))" using that by (simp add: distinct_map)
    then have "map_of (sort_key fst rs) k = Some x \<longleftrightarrow> map_of rs k = Some x" for x
      using that by (simp add: map_of_eq_Some_iff)
    then show ?thesis by (cases "map_of rs k"; cases "map_of (sort_key fst rs) k") auto
  qed
  show ?thesis using assms(1) s [OF d [OF assms(2)]] s [OF d [OF assms(3)]] m by simp
qed

end
