(* ===== verification/Digest.thy ===== *)
theory Digest
  imports Json
begin

text \<open>
  The wire form of a plan as far as types, imports and exports go (\<open>runtime/src/plan/format.ts\<close>), and the canonical world digest
  computed from it (\<open>runtime/src/digest/digest.ts\<close>, \<open>runtime/src/digest/verify.ts\<close>).  The hash is an argument.  A \<open>Map\<close>
  is an association list in the order of insertion.
\<close>

section \<open>The wire form\<close>

datatype WireValType =
    WPrim PrimKind
  | WErrorContext
  | WList WireValType "nat option"
  | WRecord "(string \<times> WireValType) list"
  | WTuple "WireValType list"
  | WVariant "(string \<times> WireValType option) list"
  | WEnum "string list"
  | WOption WireValType
  | WResult "WireValType option" "WireValType option"
  | WMap WireValType WireValType
  | WFlags "string list"
  | WOwn nat
  | WBorrow nat
  | WStream "WireValType option"
  | WFuture "WireValType option"

datatype WireTypeDecl =
    WFunc "(string \<times> WireValType) list" "WireValType list" bool
  | WValue WireValType

datatype WireResourceTable = WConcrete nat nat | WAbstract nat

datatype WireTypeExport = WResourceExport nat | WValueExport nat

datatype WireExport =
    WLiftedFunc string nat
  | WInstance string "WireExport list"
  | WTypeExport string WireTypeExport
  | WModuleExport string nat

record WireImport =
  wi_name :: string
  wi_path :: "string list"
  wi_kind :: string
  wi_type :: "nat option"

record WirePlan =
  wp_types :: "WireTypeDecl list"
  wp_resourceTables :: "WireResourceTable list"
  wp_importedResources :: "nat list"
  wp_imports :: "WireImport list"
  wp_exports :: "WireExport list"

section \<open>The names of resources\<close>

definition digestError :: "string \<Rightarrow> error" where
  "digestError m = JsError (''DigestError: digest: '' @ m)"

definition mapSet :: "'k \<Rightarrow> 'v \<Rightarrow> ('k \<times> 'v) list \<Rightarrow> ('k \<times> 'v) list" where
  "mapSet k v m = (if map_of m k = None then m @ [(k, v)] else map (\<lambda>p. if fst p = k then (k, v) else p) m)"

fun walkExportsForResourceNames :: "WireExport list \<Rightarrow> string list \<Rightarrow> (nat \<times> string) list \<Rightarrow> (nat \<times> string) list" where
  "walkExportsForResourceNames [] path out = out"
| "walkExportsForResourceNames (WInstance name es # rest) path out =
     walkExportsForResourceNames rest path (walkExportsForResourceNames es (path @ [name]) out)"
| "walkExportsForResourceNames (WTypeExport name t # rest) path out =
     walkExportsForResourceNames rest path
       (case t of WResourceExport r \<Rightarrow> mapSet r (joinStrings ''/'' (path @ [name])) out | _ \<Rightarrow> out)"
| "walkExportsForResourceNames (WLiftedFunc name ty # rest) path out = walkExportsForResourceNames rest path out"
| "walkExportsForResourceNames (WModuleExport name n # rest) path out = walkExportsForResourceNames rest path out"

text \<open>The messages of the refusals are given up to their first explanation.\<close>

definition buildResourceNameMap :: "WirePlan \<Rightarrow> (nat \<Rightarrow> string option) result" where
  "buildResourceNameMap plan =
     (if wp_importedResources plan \<noteq> [] then
        Err (digestError (''plan declares '' @ showNat (length (wp_importedResources plan)) @ '' imported resource(s)''))
      else
        (let named = walkExportsForResourceNames (wp_exports plan) [] [] in
         if length named \<le> 1 then
           Ok (case named of
                 [] \<Rightarrow> (\<lambda>_. None)
               | p # _ \<Rightarrow> (\<lambda>i. if i < length (wp_resourceTables plan) then Some (snd p) else None))
         else if length named < length (wp_resourceTables plan) then
           Err (digestError (''world has '' @ showNat (length named) @ '' named resource type(s) but '' @
             showNat (length (wp_resourceTables plan)) @ '' resourceTables entries, and more than one named resource''))
         else Ok (map_of named)))"

section \<open>Canonical trees\<close>

definition obj1 :: "string \<Rightarrow> Json" where
  "obj1 kind = JObj [(''kind'', JStr kind)]"

fun canonValType :: "(nat \<Rightarrow> string option) \<Rightarrow> WireValType \<Rightarrow> Json result" where
  "canonValType N (WPrim k) = Ok (obj1 (primName k))"
| "canonValType N WErrorContext = Ok (obj1 ''error-context'')"
| "canonValType N (WList e n) =
     bindR (canonValType N e) (\<lambda>j.
     Ok (JObj ([(''kind'', JStr ''list''), (''element'', j)] @ (case n of None \<Rightarrow> [] | Some k \<Rightarrow> [(''length'', JNum (int k))]))))"
| "canonValType N (WRecord fs) =
     bindR (mapR (\<lambda>f. bindR (canonValType N (snd f)) (\<lambda>j. Ok (JObj [(''label'', JStr (fst f)), (''type'', j)]))) fs) (\<lambda>js.
     Ok (JObj [(''kind'', JStr ''record''), (''fields'', JArr js)]))"
| "canonValType N (WTuple es) =
     bindR (mapR (canonValType N) es) (\<lambda>js. Ok (JObj [(''kind'', JStr ''tuple''), (''elements'', JArr js)]))"
| "canonValType N (WVariant cs) =
     bindR (mapR (\<lambda>c. bindR (case snd c of None \<Rightarrow> Ok JNull | Some u \<Rightarrow> canonValType N u) (\<lambda>j.
       Ok (JObj [(''label'', JStr (fst c)), (''type'', j)]))) cs) (\<lambda>js.
     Ok (JObj [(''kind'', JStr ''variant''), (''cases'', JArr js)]))"
| "canonValType N (WEnum ls) = Ok (JObj [(''kind'', JStr ''enum''), (''labels'', JArr (map JStr ls))])"
| "canonValType N (WOption t) = bindR (canonValType N t) (\<lambda>j. Ok (JObj [(''kind'', JStr ''option''), (''type'', j)]))"
| "canonValType N (WResult okt er) =
     bindR (case okt of None \<Rightarrow> Ok JNull | Some u \<Rightarrow> canonValType N u) (\<lambda>j.
     bindR (case er of None \<Rightarrow> Ok JNull | Some u \<Rightarrow> canonValType N u) (\<lambda>k.
     Ok (JObj [(''kind'', JStr ''result''), (''ok'', j), (''err'', k)])))"
| "canonValType N (WMap k v) =
     bindR (canonValType N k) (\<lambda>j.
     bindR (canonValType N v) (\<lambda>l.
     Ok (JObj [(''kind'', JStr ''list''), (''element'', JObj [(''kind'', JStr ''tuple''), (''elements'', JArr [j, l])])])))"
| "canonValType N (WFlags ls) = Ok (JObj [(''kind'', JStr ''flags''), (''labels'', JArr (map JStr ls))])"
| "canonValType N (WOwn r) =
     (case N r of
        None \<Rightarrow> Err (digestError (''own<T> references resourceTables['' @ showNat r @ ''], which has no resolvable qualified name''))
      | Some name \<Rightarrow> Ok (JObj [(''kind'', JStr ''own''), (''resource'', JStr name)]))"
| "canonValType N (WBorrow r) =
     (case N r of
        None \<Rightarrow> Err (digestError (''borrow<T> references resourceTables['' @ showNat r @ ''], which has no resolvable qualified name''))
      | Some name \<Rightarrow> Ok (JObj [(''kind'', JStr ''borrow''), (''resource'', JStr name)]))"
| "canonValType N (WStream e) =
     bindR (case e of None \<Rightarrow> Ok JNull | Some u \<Rightarrow> canonValType N u) (\<lambda>j. Ok (JObj [(''kind'', JStr ''stream''), (''element'', j)]))"
| "canonValType N (WFuture e) =
     bindR (case e of None \<Rightarrow> Ok JNull | Some u \<Rightarrow> canonValType N u) (\<lambda>j. Ok (JObj [(''kind'', JStr ''future''), (''element'', j)]))"

fun wireKind :: "WireValType \<Rightarrow> string" where
  "wireKind (WPrim k) = primName k"
| "wireKind WErrorContext = ''error-context''" | "wireKind (WList _ _) = ''list''" | "wireKind (WRecord _) = ''record''"
| "wireKind (WTuple _) = ''tuple''" | "wireKind (WVariant _) = ''variant''" | "wireKind (WEnum _) = ''enum''"
| "wireKind (WOption _) = ''option''" | "wireKind (WResult _ _) = ''result''" | "wireKind (WMap _ _) = ''map''"
| "wireKind (WFlags _) = ''flags''" | "wireKind (WOwn _) = ''own''" | "wireKind (WBorrow _) = ''borrow''"
| "wireKind (WStream _) = ''stream''" | "wireKind (WFuture _) = ''future''"

text \<open>\<open>plan.types[i]\<close>; reading the kind of what is not there throws.\<close>

definition canonFuncType :: "WirePlan \<Rightarrow> nat \<Rightarrow> (nat \<Rightarrow> string option) \<Rightarrow> Json result" where
  "canonFuncType plan i N =
     (if i < length (wp_types plan) then
        (case wp_types plan ! i of
           WFunc ps rs async1 \<Rightarrow>
             bindR (mapR (\<lambda>p. canonValType N (snd p)) ps) (\<lambda>jps.
             bindR (mapR (canonValType N) rs) (\<lambda>jrs.
             Ok (JObj [(''params'', JArr jps), (''results'', JArr jrs), (''async'', JBool async1)])))
         | WValue t \<Rightarrow> Err (digestError (''expected a func type declaration, got kind '' @ wireKind t)))
      else Err (JsError ''TypeError''))"

definition nameOf :: "Json \<Rightarrow> string" where
  "nameOf v =
     (case v of
        JObj ps \<Rightarrow> (case map_of ps ''name'' of Some x \<Rightarrow> (case x of JStr s \<Rightarrow> s | _ \<Rightarrow> []) | None \<Rightarrow> [])
      | _ \<Rightarrow> [])"

text \<open>The sort of the language is stable, as \<open>sort_key\<close> is.\<close>

definition sortByName :: "Json list \<Rightarrow> Json list" where
  "sortByName items = sort_key nameOf items"

definition canonImport :: "WirePlan \<Rightarrow> (nat \<Rightarrow> string option) \<Rightarrow> WireImport \<Rightarrow> Json result" where
  "canonImport plan N imp =
     (let name = (if wi_path imp \<noteq> [] then joinStrings ''/'' (wi_path imp @ [wi_name imp]) else wi_name imp) in
      case (if wi_kind imp = ''func'' then wi_type imp else None) of
        Some i \<Rightarrow> bindR (canonFuncType plan i N) (\<lambda>j. Ok (JObj [(''kind'', JStr ''func''), (''name'', JStr name), (''func'', j)]))
      | None \<Rightarrow> Ok (JObj [(''kind'', JStr (wi_kind imp)), (''name'', JStr name)]))"

text \<open>\<open>None\<close> is null.\<close>

fun canonExportItem :: "WirePlan \<Rightarrow> (nat \<Rightarrow> string option) \<Rightarrow> WireExport \<Rightarrow> Json option result" where
  "canonExportItem plan N (WLiftedFunc name i) =
     bindR (canonFuncType plan i N) (\<lambda>j. Ok (Some (JObj [(''kind'', JStr ''func''), (''name'', JStr name), (''func'', j)])))"
| "canonExportItem plan N (WInstance name es) =
     bindR (mapR (canonExportItem plan N) es) (\<lambda>js.
     Ok (Some (JObj [(''kind'', JStr ''instance''), (''name'', JStr name), (''items'', JArr (sortByName (List.map_filter id js)))])))"
| "canonExportItem plan N (WModuleExport name n) = Ok None"
| "canonExportItem plan N (WTypeExport name t) =
     Ok (case t of WResourceExport r \<Rightarrow> Some (JObj [(''kind'', JStr ''resource''), (''name'', JStr name)]) | WValueExport i \<Rightarrow> None)"

definition CEWD_VERSION :: int where
  "CEWD_VERSION = 1"

definition canonicalDoc :: "WirePlan \<Rightarrow> Json result" where
  "canonicalDoc plan =
     bindR (buildResourceNameMap plan) (\<lambda>N.
     bindR (mapR (canonImport plan N) (wp_imports plan)) (\<lambda>is1.
     bindR (mapR (canonExportItem plan N) (wp_exports plan)) (\<lambda>es.
     Ok (JObj [(''cewd'', JNum CEWD_VERSION), (''imports'', JArr (sortByName is1)), (''exports'', JArr (sortByName (List.map_filter id es)))]))))"

text \<open>The canonical text and the digest, for a hash \<open>sha\<close> that gives the hexadecimal text of SHA-256.\<close>

definition computeWorldDigest :: "(string \<Rightarrow> string) \<Rightarrow> WirePlan \<Rightarrow> (string \<times> string) result" where
  "computeWorldDigest sha plan =
     bindR (canonicalDoc plan) (\<lambda>doc.
     (let text1 = canonicalStringify doc in Ok (text1, ''sha256:'' @ sha text1)))"

section \<open>Verification\<close>

record DigestMismatch =
  dm_expected :: string
  dm_actual :: string
  dm_firstDivergence :: "string option"

definition verifyWorldDigest :: "(string \<Rightarrow> string) \<Rightarrow> WirePlan \<Rightarrow> string \<Rightarrow> DigestMismatch option result" where
  "verifyWorldDigest sha plan expected =
     bindR (computeWorldDigest sha plan) (\<lambda>d.
     Ok (if snd d = expected then None else Some \<lparr>dm_expected = expected, dm_actual = snd d, dm_firstDivergence = None\<rparr>))"

definition itemLabel :: "Json \<Rightarrow> string option" where
  "itemLabel v =
     (case v of
        JObj ps \<Rightarrow> (case map_of ps ''name'' of Some x \<Rightarrow> (case x of JStr s \<Rightarrow> Some (quoteText s) | _ \<Rightarrow> None) | None \<Rightarrow> None)
      | _ \<Rightarrow> None)"

definition unequal :: "string \<Rightarrow> Json \<Rightarrow> Json \<Rightarrow> string" where
  "unequal path e a = path @ '': '' @ jsonText e @ '' (expected) vs '' @ jsonText a @ '' (actual)''"

text \<open>The first answer of a loop.\<close>

fun firstOf :: "('a \<Rightarrow> 'b option) \<Rightarrow> 'a list \<Rightarrow> 'b option" where
  "firstOf f [] = None"
| "firstOf f (x # xs) = (case f x of Some d \<Rightarrow> Some d | None \<Rightarrow> firstOf f xs)"

lemma firstOf_cong [fundef_cong]: "xs = ys \<Longrightarrow> (\<And>x. x \<in> set ys \<Longrightarrow> f x = g x) \<Longrightarrow> firstOf f xs = firstOf g ys"
  by (induction ys arbitrary: xs) (auto split: option.splits)

lemma json_member: "map_of ps k = Some v \<Longrightarrow> size v < size (JObj ps)"
proof -
  assume "map_of ps k = Some v"
  then have "(k, v) \<in> set ps" by (rule map_of_SomeD)
  then have "size v < Suc (size_list (size_prod (\<lambda>_. 0) size) ps)"
    by (induction ps) auto
  then show ?thesis by simp
qed

lemma json_element: "i < length es \<Longrightarrow> size (es ! i) < size (JArr es)"
proof -
  have "x \<in> set es \<Longrightarrow> size x < Suc (size_list size es)" for x by (induction es) auto
  then show "i < length es \<Longrightarrow> size (es ! i) < size (JArr es)" by simp
qed

text \<open>The keys of both objects, each once, in their order.\<close>

definition unionKeys :: "(string \<times> Json) list \<Rightarrow> (string \<times> Json) list \<Rightarrow> string list" where
  "unionKeys e a = sort (remdups (map fst e @ map fst a))"

function firstDivergentPath :: "Json \<Rightarrow> Json \<Rightarrow> string \<Rightarrow> string option" where
  "firstDivergentPath e a path =
     (case (e, a) of
        (JArr es, JArr as) \<Rightarrow>
          if length es \<noteq> length as then
            Some (path @ '': length '' @ showNat (length es) @ '' (expected) vs '' @ showNat (length as) @ '' (actual)'')
          else
            firstOf (\<lambda>i. firstDivergentPath (es ! i) (as ! i)
              (path @ ''.'' @ (case itemLabel (es ! i) of Some l \<Rightarrow> l | None \<Rightarrow> ''['' @ showNat i @ '']''))) [0..<length es]
      | (JObj es, JObj as) \<Rightarrow>
          firstOf (\<lambda>k.
            case (map_of es k, map_of as k) of
              (_, None) \<Rightarrow> Some (path @ ''.'' @ k @ '': present (expected) but missing (actual)'')
            | (None, Some _) \<Rightarrow> Some (path @ ''.'' @ k @ '': missing (expected) but present (actual)'')
            | (Some x, Some y) \<Rightarrow> firstDivergentPath x y (path @ ''.'' @ k)) (unionKeys es as)
      | _ \<Rightarrow> if e = a then None else Some (unequal path e a))"
  by pat_completeness auto

termination
  by (relation "measure (\<lambda>(e, a, path). size e)") (auto simp del: Json.size intro: json_member json_element)

declare firstDivergentPath.simps [simp del]

end
