(* ===== verification/DigestProps.thy ===== *)
theory DigestProps
  imports Digest
begin

text \<open>
  Two plans have the same canonical text exactly when their worlds have the same shape, so a digest, whatever the hash, separates
  no two plans of one shape and confuses two shapes only by a collision of the hash; and the structural comparison names a
  difference exactly when there is one.
\<close>

section \<open>The shape of a world\<close>

text \<open>What is relevant to the interface: types without parameter labels, resources by name, maps as lists of pairs.\<close>

datatype Shape =
    SPrim PrimKind
  | SErrorContext
  | SList Shape "nat option"
  | SRecord "(string \<times> Shape) list"
  | STuple "Shape list"
  | SVariant "(string \<times> Shape option) list"
  | SEnum "string list"
  | SOption Shape
  | SResult "Shape option" "Shape option"
  | SFlags "string list"
  | SOwn string
  | SBorrow string
  | SStream "Shape option"
  | SFuture "Shape option"

datatype FuncShape = FuncShape "Shape list" "Shape list" bool

text \<open>An item without a function type or contents has its kind and its name.\<close>

datatype ItemShape = IFunc string FuncShape | IInstance string "ItemShape list" | IPlain string string

definition optR :: "('a \<Rightarrow> 'b result) \<Rightarrow> 'a option \<Rightarrow> 'b option result" where
  "optR f o1 = (case o1 of None \<Rightarrow> Ok None | Some x \<Rightarrow> bindR (f x) (\<lambda>y. Ok (Some y)))"

lemma optR_cong [fundef_cong]: "o1 = o2 \<Longrightarrow> (\<And>x. o2 = Some x \<Longrightarrow> f x = g x) \<Longrightarrow> optR f o1 = optR g o2"
  by (cases o2) (auto simp: optR_def)

definition noName :: "string \<Rightarrow> nat \<Rightarrow> error" where
  "noName kind r = digestError (kind @ ''<T> references resourceTables['' @ showNat r @ ''], which has no resolvable qualified name'')"

fun shapeOf :: "(nat \<Rightarrow> string option) \<Rightarrow> WireValType \<Rightarrow> Shape result" where
  "shapeOf N (WPrim k) = Ok (SPrim k)"
| "shapeOf N WErrorContext = Ok SErrorContext"
| "shapeOf N (WList e n) = bindR (shapeOf N e) (\<lambda>s. Ok (SList s n))"
| "shapeOf N (WRecord fs) = bindR (mapR (\<lambda>f. bindR (shapeOf N (snd f)) (\<lambda>s. Ok (fst f, s))) fs) (\<lambda>ss. Ok (SRecord ss))"
| "shapeOf N (WTuple es) = bindR (mapR (shapeOf N) es) (\<lambda>ss. Ok (STuple ss))"
| "shapeOf N (WVariant cs) = bindR (mapR (\<lambda>c. bindR (optR (shapeOf N) (snd c)) (\<lambda>s. Ok (fst c, s))) cs) (\<lambda>ss. Ok (SVariant ss))"
| "shapeOf N (WEnum ls) = Ok (SEnum ls)"
| "shapeOf N (WOption t) = bindR (shapeOf N t) (\<lambda>s. Ok (SOption s))"
| "shapeOf N (WResult okt er) = bindR (optR (shapeOf N) okt) (\<lambda>s. bindR (optR (shapeOf N) er) (\<lambda>t. Ok (SResult s t)))"
| "shapeOf N (WMap k v) = bindR (shapeOf N k) (\<lambda>s. bindR (shapeOf N v) (\<lambda>t. Ok (SList (STuple [s, t]) None)))"
| "shapeOf N (WFlags ls) = Ok (SFlags ls)"
| "shapeOf N (WOwn r) = (case N r of None \<Rightarrow> Err (noName ''own'' r) | Some name \<Rightarrow> Ok (SOwn name))"
| "shapeOf N (WBorrow r) = (case N r of None \<Rightarrow> Err (noName ''borrow'' r) | Some name \<Rightarrow> Ok (SBorrow name))"
| "shapeOf N (WStream e) = bindR (optR (shapeOf N) e) (\<lambda>s. Ok (SStream s))"
| "shapeOf N (WFuture e) = bindR (optR (shapeOf N) e) (\<lambda>s. Ok (SFuture s))"

section \<open>The tree of a shape\<close>

fun shapeTree :: "Shape \<Rightarrow> Json" where
  "shapeTree (SPrim k) = obj1 (primName k)"
| "shapeTree SErrorContext = obj1 ''error-context''"
| "shapeTree (SList e n) =
     JObj ([(''kind'', JStr ''list''), (''element'', shapeTree e)] @ (case n of None \<Rightarrow> [] | Some k \<Rightarrow> [(''length'', JNum (int k))]))"
| "shapeTree (SRecord fs) =
     JObj [(''kind'', JStr ''record''), (''fields'', JArr (map (\<lambda>f. JObj [(''label'', JStr (fst f)), (''type'', shapeTree (snd f))]) fs))]"
| "shapeTree (STuple es) = JObj [(''kind'', JStr ''tuple''), (''elements'', JArr (map shapeTree es))]"
| "shapeTree (SVariant cs) =
     JObj [(''kind'', JStr ''variant''), (''cases'', JArr (map (\<lambda>c. JObj [(''label'', JStr (fst c)),
       (''type'', case snd c of None \<Rightarrow> JNull | Some u \<Rightarrow> shapeTree u)]) cs))]"
| "shapeTree (SEnum ls) = JObj [(''kind'', JStr ''enum''), (''labels'', JArr (map JStr ls))]"
| "shapeTree (SOption t) = JObj [(''kind'', JStr ''option''), (''type'', shapeTree t)]"
| "shapeTree (SResult okt er) =
     JObj [(''kind'', JStr ''result''), (''ok'', case okt of None \<Rightarrow> JNull | Some u \<Rightarrow> shapeTree u),
       (''err'', case er of None \<Rightarrow> JNull | Some u \<Rightarrow> shapeTree u)]"
| "shapeTree (SFlags ls) = JObj [(''kind'', JStr ''flags''), (''labels'', JArr (map JStr ls))]"
| "shapeTree (SOwn name) = JObj [(''kind'', JStr ''own''), (''resource'', JStr name)]"
| "shapeTree (SBorrow name) = JObj [(''kind'', JStr ''borrow''), (''resource'', JStr name)]"
| "shapeTree (SStream e) = JObj [(''kind'', JStr ''stream''), (''element'', case e of None \<Rightarrow> JNull | Some u \<Rightarrow> shapeTree u)]"
| "shapeTree (SFuture e) = JObj [(''kind'', JStr ''future''), (''element'', case e of None \<Rightarrow> JNull | Some u \<Rightarrow> shapeTree u)]"

definition mapOk :: "('a \<Rightarrow> 'b) \<Rightarrow> 'a result \<Rightarrow> 'b result" where
  "mapOk f r = bindR r (\<lambda>x. Ok (f x))"

lemma mapOk_simps [simp]: "mapOk f (Inr x) = Inr (f x)" "mapOk f (Inl e) = Inl e"
  by (simp_all add: mapOk_def)

lemma mapR_mapOk:
  assumes "\<And>x. x \<in> set xs \<Longrightarrow> f x = mapOk h (g x)"
  shows "mapR f xs = mapOk (map h) (mapR g xs)"
  using assms
proof (induction xs)
  case (Cons x xs)
  have "f x = mapOk h (g x)" "mapR f xs = mapOk (map h) (mapR g xs)" using Cons by auto
  then show ?case by (cases "g x"; cases "mapR g xs") simp_all
qed simp

lemma option_tree:
  assumes "\<And>u. o1 = Some u \<Longrightarrow> f u = mapOk h (g u)"
  shows "(case o1 of None \<Rightarrow> Ok JNull | Some u \<Rightarrow> f u) = mapOk (\<lambda>s. case s of None \<Rightarrow> JNull | Some t \<Rightarrow> h t) (optR g o1)"
proof (cases o1)
  case (Some u)
  then show ?thesis using assms [OF Some] by (cases "g u") (simp_all add: optR_def)
qed (simp add: optR_def)

lemma snd_member: "snd p \<in> Basic_BNFs.snds p"
  by (cases p) simp

lemma canon_shape: "canonValType N t = mapOk shapeTree (shapeOf N t)"
proof (induction t)
  case (WList e n)
  then show ?case by (cases "shapeOf N e") simp_all
next
  case (WRecord fs)
  have "mapR (\<lambda>f. bindR (canonValType N (snd f)) (\<lambda>j. Ok (JObj [(''label'', JStr (fst f)), (''type'', j)]))) fs =
      mapOk (map (\<lambda>f. JObj [(''label'', JStr (fst f)), (''type'', shapeTree (snd f))])) (mapR (\<lambda>f. bindR (shapeOf N (snd f)) (\<lambda>s. Ok (fst f, s))) fs)"
  proof (rule mapR_mapOk)
    fix f assume "f \<in> set fs"
    then have "canonValType N (snd f) = mapOk shapeTree (shapeOf N (snd f))" using WRecord snd_member by blast
    then show "bindR (canonValType N (snd f)) (\<lambda>j. Ok (JObj [(''label'', JStr (fst f)), (''type'', j)])) =
        mapOk (\<lambda>f. JObj [(''label'', JStr (fst f)), (''type'', shapeTree (snd f))]) (bindR (shapeOf N (snd f)) (\<lambda>s. Ok (fst f, s)))"
      by (cases "shapeOf N (snd f)") simp_all
  qed
  then show ?case by (cases "mapR (\<lambda>f. bindR (shapeOf N (snd f)) (\<lambda>s. Ok (fst f, s))) fs") simp_all
next
  case (WTuple es)
  have "mapR (canonValType N) es = mapOk (map shapeTree) (mapR (shapeOf N) es)" by (rule mapR_mapOk) (rule WTuple)
  then show ?case by (cases "mapR (shapeOf N) es") simp_all
next
  case (WVariant cs)
  let ?t = "\<lambda>o1. case o1 of None \<Rightarrow> JNull | Some u \<Rightarrow> shapeTree u"
  have "mapR (\<lambda>c. bindR (case snd c of None \<Rightarrow> Ok JNull | Some u \<Rightarrow> canonValType N u) (\<lambda>j.
      Ok (JObj [(''label'', JStr (fst c)), (''type'', j)]))) cs =
    mapOk (map (\<lambda>c. JObj [(''label'', JStr (fst c)), (''type'', ?t (snd c))])) (mapR (\<lambda>c. bindR (optR (shapeOf N) (snd c)) (\<lambda>s. Ok (fst c, s))) cs)"
  proof (rule mapR_mapOk)
    fix c assume c: "c \<in> set cs"
    have e: "(case snd c of None \<Rightarrow> Ok JNull | Some u \<Rightarrow> canonValType N u) = mapOk ?t (optR (shapeOf N) (snd c))"
      by (rule option_tree, rule WVariant [OF c snd_member]) simp
    show "bindR (case snd c of None \<Rightarrow> Ok JNull | Some u \<Rightarrow> canonValType N u) (\<lambda>j. Ok (JObj [(''label'', JStr (fst c)), (''type'', j)])) =
        mapOk (\<lambda>c. JObj [(''label'', JStr (fst c)), (''type'', ?t (snd c))]) (bindR (optR (shapeOf N) (snd c)) (\<lambda>s. Ok (fst c, s)))"
      unfolding e by (cases "optR (shapeOf N) (snd c)") simp_all
  qed
  then show ?case by (cases "mapR (\<lambda>c. bindR (optR (shapeOf N) (snd c)) (\<lambda>s. Ok (fst c, s))) cs") simp_all
next
  case (WOption t)
  then show ?case by (cases "shapeOf N t") simp_all
next
  case (WResult okt er)
  let ?t = "\<lambda>o1. case o1 of None \<Rightarrow> JNull | Some u \<Rightarrow> shapeTree u"
  have "(case okt of None \<Rightarrow> Ok JNull | Some u \<Rightarrow> canonValType N u) = mapOk ?t (optR (shapeOf N) okt)"
    "(case er of None \<Rightarrow> Ok JNull | Some u \<Rightarrow> canonValType N u) = mapOk ?t (optR (shapeOf N) er)"
    by (rule option_tree; use WResult in simp)+
  then show ?case by (cases "optR (shapeOf N) okt"; cases "optR (shapeOf N) er") simp_all
next
  case (WMap k v)
  then show ?case by (cases "shapeOf N k"; cases "shapeOf N v") simp_all
next
  case (WStream e)
  have "(case e of None \<Rightarrow> Ok JNull | Some u \<Rightarrow> canonValType N u) =
      mapOk (\<lambda>o1. case o1 of None \<Rightarrow> JNull | Some u \<Rightarrow> shapeTree u) (optR (shapeOf N) e)"
    by (rule option_tree; use WStream in simp)
  then show ?case by (cases "optR (shapeOf N) e") simp_all
next
  case (WFuture e)
  have "(case e of None \<Rightarrow> Ok JNull | Some u \<Rightarrow> canonValType N u) =
      mapOk (\<lambda>o1. case o1 of None \<Rightarrow> JNull | Some u \<Rightarrow> shapeTree u) (optR (shapeOf N) e)"
    by (rule option_tree; use WFuture in simp)
  then show ?case by (cases "optR (shapeOf N) e") simp_all
qed (simp_all add: noName_def split: option.splits)

section \<open>A tree has one shape\<close>

definition treeField :: "string \<Rightarrow> Json \<Rightarrow> Json option" where
  "treeField k v = (case v of JObj ps \<Rightarrow> map_of ps k | _ \<Rightarrow> None)"

definition goodTree :: "Json \<Rightarrow> bool" where
  "goodTree v \<longleftrightarrow> (case v of JObj ps \<Rightarrow> distinct (map fst ps) | _ \<Rightarrow> False)"

lemma shape_good: "goodTree (shapeTree s)"
  by (cases s) (simp_all add: goodTree_def obj1_def split: option.splits)

lemma same_field:
  assumes "sortKeysDeep v = sortKeysDeep w" "goodTree v" "goodTree w"
  shows "map_option sortKeysDeep (treeField k v) = map_option sortKeysDeep (treeField k w)"
proof -
  obtain ps qs where "v = JObj ps" "w = JObj qs" "distinct (map fst ps)" "distinct (map fst qs)"
    using assms(2,3) by (auto simp: goodTree_def split: Json.splits)
  then show ?thesis using sortKeysDeep_field [of ps qs k] assms(1) by (simp add: treeField_def)
qed

lemma good_not_null: "goodTree v \<Longrightarrow> sortKeysDeep v \<noteq> JNull"
  by (auto simp: goodTree_def split: Json.splits)

definition optTree :: "Shape option \<Rightarrow> Json" where
  "optTree o1 = (case o1 of None \<Rightarrow> JNull | Some u \<Rightarrow> shapeTree u)"

lemma optTree_inj:
  assumes "sortKeysDeep (optTree o1) = sortKeysDeep (optTree o2)"
    "\<And>u t. o1 = Some u \<Longrightarrow> sortKeysDeep (shapeTree u) = sortKeysDeep (shapeTree t) \<Longrightarrow> u = t"
  shows "o1 = o2"
  using assms good_not_null [OF shape_good] good_not_null [OF shape_good, symmetric] by (cases o1; cases o2) (auto simp: optTree_def)

definition entry :: "string \<Rightarrow> Json \<Rightarrow> Json" where
  "entry l v = JObj [(''label'', JStr l), (''type'', v)]"

lemma entry_inj: "sortKeysDeep (entry l v) = sortKeysDeep (entry m w) \<Longrightarrow> l = m \<and> sortKeysDeep v = sortKeysDeep w"
proof -
  assume e: "sortKeysDeep (entry l v) = sortKeysDeep (entry m w)"
  have g: "goodTree (entry l v)" for l v by (simp add: entry_def goodTree_def)
  show ?thesis
    using same_field [OF e g g, of "''label''"] same_field [OF e g g, of "''type''"] by (simp add: entry_def treeField_def)
qed

lemma map_inj_on_left:
  assumes "map f xs = map f ys" "\<And>x y. x \<in> set xs \<Longrightarrow> f x = f y \<Longrightarrow> x = y"
  shows "xs = ys"
  using assms by (intro list.inj_map_strong [of xs ys f f]) auto

lemma shapeTree_alt:
  "shapeTree (SRecord fs) = JObj [(''kind'', JStr ''record''), (''fields'', JArr (map (\<lambda>f. entry (fst f) (shapeTree (snd f))) fs))]"
  "shapeTree (SVariant cs) = JObj [(''kind'', JStr ''variant''), (''cases'', JArr (map (\<lambda>c. entry (fst c) (optTree (snd c))) cs))]"
  "shapeTree (SResult okt er) = JObj [(''kind'', JStr ''result''), (''ok'', optTree okt), (''err'', optTree er)]"
  "shapeTree (SStream e) = JObj [(''kind'', JStr ''stream''), (''element'', optTree e)]"
  "shapeTree (SFuture e) = JObj [(''kind'', JStr ''future''), (''element'', optTree e)]"
  by (simp_all add: entry_def optTree_def)

definition shapeKind :: "Shape \<Rightarrow> string" where
  "shapeKind s =
     (case s of
        SPrim k \<Rightarrow> primName k | SErrorContext \<Rightarrow> ''error-context'' | SList _ _ \<Rightarrow> ''list'' | SRecord _ \<Rightarrow> ''record'' | STuple _ \<Rightarrow> ''tuple''
      | SVariant _ \<Rightarrow> ''variant'' | SEnum _ \<Rightarrow> ''enum'' | SOption _ \<Rightarrow> ''option'' | SResult _ _ \<Rightarrow> ''result'' | SFlags _ \<Rightarrow> ''flags''
      | SOwn _ \<Rightarrow> ''own'' | SBorrow _ \<Rightarrow> ''borrow'' | SStream _ \<Rightarrow> ''stream'' | SFuture _ \<Rightarrow> ''future'')"

lemma kind_field: "treeField ''kind'' (shapeTree s) = Some (JStr (shapeKind s))"
  by (cases s) (simp_all add: treeField_def shapeKind_def obj1_def)

definition shapeTag :: "Shape \<Rightarrow> nat" where
  "shapeTag s =
     (case s of
        SPrim k \<Rightarrow> 0 | SErrorContext \<Rightarrow> 1 | SList _ _ \<Rightarrow> 2 | SRecord _ \<Rightarrow> 3 | STuple _ \<Rightarrow> 4
      | SVariant _ \<Rightarrow> 5 | SEnum _ \<Rightarrow> 6 | SOption _ \<Rightarrow> 7 | SResult _ _ \<Rightarrow> 8 | SFlags _ \<Rightarrow> 9
      | SOwn _ \<Rightarrow> 10 | SBorrow _ \<Rightarrow> 11 | SStream _ \<Rightarrow> 12 | SFuture _ \<Rightarrow> 13)"

definition otherKinds :: "string list" where
  "otherKinds = [''error-context'', ''list'', ''record'', ''tuple'', ''variant'', ''enum'', ''option'', ''result'', ''flags'', ''own'', ''borrow'', ''stream'', ''future'']"

lemma kind_tag: "shapeKind s = (if shapeTag s = 0 then shapeKind s else otherKinds ! (shapeTag s - 1))" "shapeTag s < 14"
  "shapeTag s = 0 \<Longrightarrow> shapeKind s \<notin> set otherKinds"
proof -
  show "shapeKind s = (if shapeTag s = 0 then shapeKind s else otherKinds ! (shapeTag s - 1))"
    by (cases s) (simp_all add: shapeKind_def shapeTag_def otherKinds_def)
  show "shapeTag s < 14" by (cases s) (simp_all add: shapeTag_def)
  have "list_all (\<lambda>k. primName k \<notin> set otherKinds) [KBool, KS8, KU8, KS16, KU16, KS32, KU32, KS64, KU64, KF32, KF64, KChar, KString]"
    by code_simp
  then have "primName k \<notin> set otherKinds" for k by (cases k) simp_all
  then show "shapeTag s = 0 \<Longrightarrow> shapeKind s \<notin> set otherKinds" by (cases s) (simp_all add: shapeKind_def shapeTag_def)
qed

lemma same_kind_tag:
  assumes "shapeKind s = shapeKind t"
  shows "shapeTag s = shapeTag t"
proof -
  have d: "distinct otherKinds" "length otherKinds = 13" by code_simp+
  have m: "shapeKind u \<in> set otherKinds" if "shapeTag u \<noteq> 0" for u
  proof -
    have "shapeTag u - 1 < length otherKinds" using kind_tag(2) [of u] that d(2) by linarith
    then show ?thesis using kind_tag(1) [of u] that nth_mem by metis
  qed
  show ?thesis
  proof (cases "shapeTag s = 0")
    case True
    then show ?thesis using kind_tag(3) [of s] m [of t] assms by auto
  next
    case False
    then have t: "shapeTag t \<noteq> 0" using kind_tag(3) [of t] m [of s] assms by auto
    have "otherKinds ! (shapeTag s - 1) = otherKinds ! (shapeTag t - 1)" using kind_tag(1) [of s] kind_tag(1) [of t] assms False t by simp
    then have "shapeTag s - 1 = shapeTag t - 1"
      using d kind_tag(2) [of s] kind_tag(2) [of t] False t by (subst (asm) nth_eq_iff_index_eq) auto
    then show ?thesis using False t by simp
  qed
qed

lemma primName_inj: "primName k = primName l \<Longrightarrow> k = l"
proof -
  let ?ks = "[KBool, KS8, KU8, KS16, KU16, KS32, KU32, KS64, KU64, KF32, KF64, KChar, KString]"
  have d: "distinct (map primName ?ks)" by code_simp
  have m: "j \<in> set ?ks" for j by (cases j) simp_all
  show "primName k = primName l \<Longrightarrow> k = l" using d m [of k] m [of l] by (metis distinct_map inj_on_def)
qed

lemma strings_inj: "map sortKeysDeep (map JStr ls) = map sortKeysDeep (map JStr ms) \<Longrightarrow> ls = ms"
proof -
  have "map sortKeysDeep (map JStr ls) = map JStr ls" for ls by (induction ls) simp_all
  then show "map sortKeysDeep (map JStr ls) = map sortKeysDeep (map JStr ms) \<Longrightarrow> ls = ms" by (simp add: inj_map_eq_map inj_def)
qed

lemma shape_field:
  assumes "sortKeysDeep (shapeTree s) = sortKeysDeep (shapeTree t)"
  shows "map_option sortKeysDeep (treeField k (shapeTree s)) = map_option sortKeysDeep (treeField k (shapeTree t))"
  by (rule same_field [OF assms shape_good shape_good])

lemma shape_tag:
  assumes "sortKeysDeep (shapeTree s) = sortKeysDeep (shapeTree t)"
  shows "shapeTag t = shapeTag s"
  using shape_field [OF assms, of "''kind''"] same_kind_tag [of s t] by (simp add: kind_field)

lemma tree_inj: "sortKeysDeep (shapeTree s) = sortKeysDeep (shapeTree t) \<Longrightarrow> s = t"
proof (induction s arbitrary: t)
  case (SPrim k)
  obtain l where t: "t = SPrim l" using shape_tag [OF SPrim] by (cases t) (simp_all add: shapeTag_def)
  then show ?case using shape_field [OF SPrim, of "''kind''"] primName_inj unfolding kind_field by (simp add: shapeKind_def)
next
  case SErrorContext
  then show ?case using shape_tag [OF SErrorContext] by (cases t) (simp_all add: shapeTag_def)
next
  case (SList e n)
  obtain f m where t: "t = SList f m" using shape_tag [OF SList.prems] by (cases t) (simp_all add: shapeTag_def)
  have "e = f" using shape_field [OF SList.prems, of "''element''"] SList.IH t by (simp add: treeField_def)
  moreover have "n = m" using shape_field [OF SList.prems, of "''length''"] t
    by (cases n; cases m) (simp_all add: treeField_def)
  ultimately show ?case using t by simp
next
  case (SRecord fs)
  obtain gs where t: "t = SRecord gs" using shape_tag [OF SRecord.prems] by (cases t) (simp_all add: shapeTag_def)
  have "map (\<lambda>f. sortKeysDeep (entry (fst f) (shapeTree (snd f)))) fs = map (\<lambda>f. sortKeysDeep (entry (fst f) (shapeTree (snd f)))) gs"
    using shape_field [OF SRecord.prems, of "''fields''"] unfolding t shapeTree_alt by (simp add: treeField_def comp_def)
  then have "fs = gs"
  proof (rule map_inj_on_left)
    fix f g assume f: "f \<in> set fs" "sortKeysDeep (entry (fst f) (shapeTree (snd f))) = sortKeysDeep (entry (fst g) (shapeTree (snd g)))"
    then have "snd f = snd g" using entry_inj SRecord.IH [OF f(1) snd_member] by blast
    then show "f = g" using entry_inj [OF f(2)] by (simp add: prod_eq_iff)
  qed
  then show ?case using t by simp
next
  case (STuple es)
  obtain gs where t: "t = STuple gs" using shape_tag [OF STuple.prems] by (cases t) (simp_all add: shapeTag_def)
  have "map (\<lambda>e. sortKeysDeep (shapeTree e)) es = map (\<lambda>e. sortKeysDeep (shapeTree e)) gs"
    using shape_field [OF STuple.prems, of "''elements''"] t by (simp add: treeField_def comp_def)
  then have "es = gs" by (rule map_inj_on_left) (rule STuple.IH)
  then show ?case using t by simp
next
  case (SVariant cs)
  obtain ds where t: "t = SVariant ds" using shape_tag [OF SVariant.prems] by (cases t) (simp_all add: shapeTag_def)
  have "map (\<lambda>c. sortKeysDeep (entry (fst c) (optTree (snd c)))) cs = map (\<lambda>c. sortKeysDeep (entry (fst c) (optTree (snd c)))) ds"
    using shape_field [OF SVariant.prems, of "''cases''"] unfolding t shapeTree_alt by (simp add: treeField_def comp_def)
  then have "cs = ds"
  proof (rule map_inj_on_left)
    fix c d assume c: "c \<in> set cs" "sortKeysDeep (entry (fst c) (optTree (snd c))) = sortKeysDeep (entry (fst d) (optTree (snd d)))"
    have "snd c = snd d"
    proof (rule optTree_inj)
      show "sortKeysDeep (optTree (snd c)) = sortKeysDeep (optTree (snd d))" using entry_inj [OF c(2)] by simp
      fix u v assume "snd c = Some u" "sortKeysDeep (shapeTree u) = sortKeysDeep (shapeTree v)"
      then show "u = v" using SVariant.IH [OF c(1) snd_member, of u v] by simp
    qed
    then show "c = d" using entry_inj [OF c(2)] by (simp add: prod_eq_iff)
  qed
  then show ?case using t by simp
next
  case (SEnum ls)
  obtain ms where t: "t = SEnum ms" using shape_tag [OF SEnum] by (cases t) (simp_all add: shapeTag_def)
  then have "map sortKeysDeep (map JStr ls) = map sortKeysDeep (map JStr ms)"
    using shape_field [OF SEnum, of "''labels''"] by (simp add: treeField_def)
  then show ?case using t strings_inj by blast
next
  case (SOption u)
  obtain v where t: "t = SOption v" using shape_tag [OF SOption.prems] by (cases t) (simp_all add: shapeTag_def)
  then show ?case using shape_field [OF SOption.prems, of "''type''"] SOption.IH by (simp add: treeField_def)
next
  case (SResult okt er)
  obtain okt1 er1 where t: "t = SResult okt1 er1" using shape_tag [OF SResult.prems] by (cases t) (simp_all add: shapeTag_def)
  have "okt = okt1"
    by (rule optTree_inj, use shape_field [OF SResult.prems, of "''ok''"] t in \<open>simp add: optTree_def treeField_def\<close>)
      (rule SResult.IH(1), simp_all)
  moreover have "er = er1"
    by (rule optTree_inj, use shape_field [OF SResult.prems, of "''err''"] t in \<open>simp add: optTree_def treeField_def\<close>)
      (rule SResult.IH(2), simp_all)
  ultimately show ?case using t by simp
next
  case (SFlags ls)
  obtain ms where t: "t = SFlags ms" using shape_tag [OF SFlags] by (cases t) (simp_all add: shapeTag_def)
  then have "map sortKeysDeep (map JStr ls) = map sortKeysDeep (map JStr ms)"
    using shape_field [OF SFlags, of "''labels''"] by (simp add: treeField_def)
  then show ?case using t strings_inj by blast
next
  case (SOwn name)
  obtain m where t: "t = SOwn m" using shape_tag [OF SOwn] by (cases t) (simp_all add: shapeTag_def)
  then show ?case using shape_field [OF SOwn, of "''resource''"] by (simp add: treeField_def)
next
  case (SBorrow name)
  obtain m where t: "t = SBorrow m" using shape_tag [OF SBorrow] by (cases t) (simp_all add: shapeTag_def)
  then show ?case using shape_field [OF SBorrow, of "''resource''"] by (simp add: treeField_def)
next
  case (SStream e)
  obtain f where t: "t = SStream f" using shape_tag [OF SStream.prems] by (cases t) (simp_all add: shapeTag_def)
  have "e = f"
    by (rule optTree_inj, use shape_field [OF SStream.prems, of "''element''"] t in \<open>simp add: optTree_def treeField_def\<close>)
      (rule SStream.IH, simp_all)
  then show ?case using t by simp
next
  case (SFuture e)
  obtain f where t: "t = SFuture f" using shape_tag [OF SFuture.prems] by (cases t) (simp_all add: shapeTag_def)
  have "e = f"
    by (rule optTree_inj, use shape_field [OF SFuture.prems, of "''element''"] t in \<open>simp add: optTree_def treeField_def\<close>)
      (rule SFuture.IH, simp_all)
  then show ?case using t by simp
qed

end
