(* ===== verification/DigestWorld.thy ===== *)
theory DigestWorld
  imports DigestProps "HOL-Library.Multiset"
begin

text \<open>
  The shape of a whole world and its canonical text (\<open>runtime/src/digest/digest.ts\<close>): two plans have one text exactly when their
  worlds have one shape, a digest is accepted exactly for that shape as long as the hash does not collide, and the structural
  comparison (\<open>runtime/src/digest/verify.ts\<close>) names a difference exactly when there is one.
\<close>

section \<open>The names of the resources\<close>

text \<open>
  What a plan says of its resources, without the walk that collects it: the resource exports with their qualified
  names, in order.  A plan with imported resources is refused.  With one resource every table has its name, with
  more each resource has the last name it is exported under, and there must be as many resources as tables.
\<close>

fun resourceExports :: "string list \<Rightarrow> WireExport \<Rightarrow> (nat \<times> string) list" where
  "resourceExports path (WInstance name es) = concat (map (resourceExports (path @ [name])) es)"
| "resourceExports path (WTypeExport name t) =
     (case t of WResourceExport r \<Rightarrow> [(r, joinStrings ''/'' (path @ [name]))] | WValueExport i \<Rightarrow> [])"
| "resourceExports path (WLiftedFunc name i) = []"
| "resourceExports path (WModuleExport name n) = []"

definition resourceNaming :: "WirePlan \<Rightarrow> (nat \<Rightarrow> string option) result" where
  "resourceNaming plan =
     (let named = concat (map (resourceExports []) (wp_exports plan)); n = card (set (map fst named));
          tables = length (wp_resourceTables plan); imported = length (wp_importedResources plan)
      in if imported > 0 then Err (digestError (''plan declares '' @ showNat imported @ '' imported resource(s)''))
         else if n = 0 then Ok (\<lambda>_. None)
         else if n = 1 then Ok (\<lambda>i. if i < tables then Some (snd (last named)) else None)
         else if n < tables then
           Err (digestError (''world has '' @ showNat n @ '' named resource type(s) but '' @ showNat tables @
             '' resourceTables entries, and more than one named resource''))
         else Ok (\<lambda>i. map_of (rev named) i))"

lemma walk_collects:
  "walkExportsForResourceNames es path out = fold (\<lambda>p. mapSet (fst p) (snd p)) (concat (map (resourceExports path) es)) out"
  by (induction es path out rule: walkExportsForResourceNames.induct) (simp_all split: WireTypeExport.split)

lemma mapSet_keys:
  assumes "distinct (map fst m)"
  shows "distinct (map fst (mapSet k v m))"
proof (cases "map_of m k")
  case None
  then show ?thesis using assms by (simp add: mapSet_def map_of_eq_None_iff)
next
  case (Some w)
  have "map fst (map (\<lambda>p. if fst p = k then (k, v) else p) m) = map fst m" by (induction m) simp_all
  then show ?thesis using assms Some by (simp only: mapSet_def option.distinct if_False not_False_eq_True)
qed

lemma mapSet_lookup: "map_of (mapSet k v m) = (map_of m)(k \<mapsto> v)"
proof (cases "map_of m k")
  case None
  then show ?thesis by (auto simp: mapSet_def fun_eq_iff map_add_def split: option.split)
next
  case (Some w)
  have "map_of (map (\<lambda>p. if fst p = k then (k, v) else p) m) x = (if x = k then map_option (\<lambda>_. v) (map_of m k) else map_of m x)" for x
  proof (induction m)
    case (Cons p m)
    then show ?case by (cases p; cases "x = k") auto
  qed simp
  then show ?thesis using Some by (simp add: mapSet_def fun_eq_iff)
qed

lemma collected_keys: "distinct (map fst m) \<Longrightarrow> distinct (map fst (fold (\<lambda>p. mapSet (fst p) (snd p)) named m))"
  by (induction named arbitrary: m) (simp_all add: mapSet_keys)

lemma collected_lookup: "map_of (fold (\<lambda>p. mapSet (fst p) (snd p)) named m) = map_of m ++ map_of (rev named)"
proof (induction named arbitrary: m)
  case (Cons p named)
  have "(map_of m)(fst p \<mapsto> snd p) ++ map_of (rev named) = map_of m ++ ([fst p \<mapsto> snd p] ++ map_of (rev named))"
    by (simp add: map_add_assoc [symmetric])
  then show ?case using Cons by (cases p) (auto simp: mapSet_lookup fun_eq_iff map_add_def split: option.split)
qed simp

lemma naming_built: "buildResourceNameMap plan = resourceNaming plan"
proof -
  define named where "named = concat (map (resourceExports []) (wp_exports plan))"
  define m where "m = walkExportsForResourceNames (wp_exports plan) [] []"
  have m: "distinct (map fst m)" "map_of m = map_of (rev named)"
    using collected_keys [of "[]" named] collected_lookup [of named "[]"] by (simp_all add: m_def named_def walk_collects)
  have "set (map fst m) = dom (map_of m)" by (simp add: dom_map_of_conv_image_fst)
  also have "\<dots> = set (map fst named)" by (simp add: m(2) dom_map_of_conv_image_fst)
  finally have keys: "set (map fst m) = set (map fst named)" .
  then have n: "length m = card (set (map fst named))" using distinct_card [OF m(1)] by simp
  have one: "snd p = snd (last named)" if p: "m = [p]" "named \<noteq> []" for p
  proof -
    have "set (map fst named) = {fst p}" using keys p(1) by simp
    then have "fst (last named) = fst p" using p(2) last_in_set [OF p(2)] by (metis image_eqI set_map singletonD)
    moreover have "map_of (rev named) (fst (last named)) = Some (snd (last named))"
      using p(2) by (cases named rule: rev_cases) simp_all
    moreover have "map_of m (fst p) = Some (snd p)" using p(1) by simp
    ultimately show ?thesis using m(2) by simp
  qed
  show ?thesis
  proof (cases m)
    case Nil
    then show ?thesis using n by (simp add: buildResourceNameMap_def resourceNaming_def Let_def m_def [symmetric] named_def [symmetric])
  next
    case (Cons p ps)
    then have "named \<noteq> []" using n by (cases named) simp_all
    moreover have "ps = [] \<Longrightarrow> snd (last named) = snd p" using one [OF _ \<open>named \<noteq> []\<close>] Cons by simp
    ultimately show ?thesis using n Cons m(2)
      by (cases ps) (simp_all add: buildResourceNameMap_def resourceNaming_def Let_def m_def [symmetric] named_def [symmetric] cong: if_cong)
  qed
qed

section \<open>Shapes of functions, imports and exports\<close>

definition funcShapeOf :: "WirePlan \<Rightarrow> nat \<Rightarrow> (nat \<Rightarrow> string option) \<Rightarrow> FuncShape result" where
  "funcShapeOf plan i N =
     (if i < length (wp_types plan) then
        (case wp_types plan ! i of
           WFunc ps rs async1 \<Rightarrow>
             bindR (mapR (\<lambda>p. shapeOf N (snd p)) ps) (\<lambda>ss. bindR (mapR (shapeOf N) rs) (\<lambda>ts. Ok (FuncShape ss ts async1)))
         | WValue t \<Rightarrow> Err (digestError (''expected a func type declaration, got kind '' @ wireKind t)))
      else Err (JsError ''TypeError''))"

definition importName :: "WireImport \<Rightarrow> string" where
  "importName imp = (if wi_path imp = [] then wi_name imp else joinStrings ''/'' (wi_path imp @ [wi_name imp]))"

definition importShape :: "WirePlan \<Rightarrow> (nat \<Rightarrow> string option) \<Rightarrow> WireImport \<Rightarrow> ItemShape result" where
  "importShape plan N imp =
     (case (if wi_kind imp = ''func'' then wi_type imp else None) of
        Some i \<Rightarrow> bindR (funcShapeOf plan i N) (\<lambda>f. Ok (IFunc (importName imp) f))
      | None \<Rightarrow> Ok (IPlain (wi_kind imp) (importName imp)))"

definition itemName :: "ItemShape \<Rightarrow> string" where
  "itemName i = (case i of IFunc n f \<Rightarrow> n | IInstance n js \<Rightarrow> n | IPlain k n \<Rightarrow> n)"

fun exportShape :: "WirePlan \<Rightarrow> (nat \<Rightarrow> string option) \<Rightarrow> WireExport \<Rightarrow> ItemShape option result" where
  "exportShape plan N (WLiftedFunc name i) = bindR (funcShapeOf plan i N) (\<lambda>f. Ok (Some (IFunc name f)))"
| "exportShape plan N (WInstance name es) =
     bindR (mapR (exportShape plan N) es) (\<lambda>js. Ok (Some (IInstance name (sort_key itemName (List.map_filter id js)))))"
| "exportShape plan N (WModuleExport name n) = Ok None"
| "exportShape plan N (WTypeExport name t) = Ok (case t of WResourceExport r \<Rightarrow> Some (IPlain ''resource'' name) | WValueExport i \<Rightarrow> None)"

definition worldShape :: "WirePlan \<Rightarrow> (ItemShape list \<times> ItemShape list) result" where
  "worldShape plan =
     bindR (resourceNaming plan) (\<lambda>N.
     bindR (mapR (importShape plan N) (wp_imports plan)) (\<lambda>is1.
     bindR (mapR (exportShape plan N) (wp_exports plan)) (\<lambda>es.
     Ok (sort_key itemName is1, sort_key itemName (List.map_filter id es)))))"

section \<open>The canonical tree is the tree of the shape\<close>

definition funcTree :: "FuncShape \<Rightarrow> Json" where
  "funcTree f =
     (case f of FuncShape ss ts async1 \<Rightarrow>
        JObj [(''params'', JArr (map shapeTree ss)), (''results'', JArr (map shapeTree ts)), (''async'', JBool async1)])"

fun itemTree :: "ItemShape \<Rightarrow> Json" where
  "itemTree (IFunc n f) = JObj [(''kind'', JStr ''func''), (''name'', JStr n), (''func'', funcTree f)]"
| "itemTree (IInstance n js) = JObj [(''kind'', JStr ''instance''), (''name'', JStr n), (''items'', JArr (map itemTree js))]"
| "itemTree (IPlain k n) = JObj [(''kind'', JStr k), (''name'', JStr n)]"

definition docTree :: "ItemShape list \<times> ItemShape list \<Rightarrow> Json" where
  "docTree w =
     JObj [(''cewd'', JNum CEWD_VERSION), (''imports'', JArr (map itemTree (fst w))), (''exports'', JArr (map itemTree (snd w)))]"

lemma canon_func: "canonFuncType plan i N = mapOk funcTree (funcShapeOf plan i N)"
proof (cases "i < length (wp_types plan)")
  case True
  show ?thesis
  proof (cases "wp_types plan ! i")
    case (WFunc ps rs async1)
    have "mapR (\<lambda>p. canonValType N (snd p)) ps = mapOk (map shapeTree) (mapR (\<lambda>p. shapeOf N (snd p)) ps)"
      "mapR (canonValType N) rs = mapOk (map shapeTree) (mapR (shapeOf N) rs)"
      by (rule mapR_mapOk, rule canon_shape)+
    then show ?thesis using True WFunc
      by (cases "mapR (\<lambda>p. shapeOf N (snd p)) ps"; cases "mapR (shapeOf N) rs") (simp_all add: canonFuncType_def funcShapeOf_def funcTree_def)
  qed (simp add: canonFuncType_def funcShapeOf_def)
qed (simp add: canonFuncType_def funcShapeOf_def)

lemma canon_import: "canonImport plan N imp = mapOk itemTree (importShape plan N imp)"
proof (cases "if wi_kind imp = ''func'' then wi_type imp else None")
  case None
  then show ?thesis by (simp add: canonImport_def importShape_def importName_def)
next
  case (Some i)
  then show ?thesis
    by (cases "funcShapeOf plan i N") (simp_all add: canonImport_def importShape_def importName_def canon_func)
qed

lemma name_of_item: "nameOf (itemTree i) = itemName i"
  by (cases i) (simp_all add: nameOf_def itemName_def)

lemma sort_by_name: "sortByName (map itemTree js) = map itemTree (sort_key itemName js)"
proof -
  have "insort_key nameOf (itemTree j) (map itemTree ks) = map itemTree (insort_key itemName j ks)" for j ks
    by (induction ks) (simp_all add: name_of_item)
  then show ?thesis unfolding sortByName_def by (induction js) simp_all
qed

lemma filter_items: "List.map_filter id (map (map_option f) xs) = map f (List.map_filter id xs)"
  by (induction xs) (auto simp: List.map_filter_def)

lemma canon_export: "canonExportItem plan N e = mapOk (map_option itemTree) (exportShape plan N e)"
proof (induction e)
  case (WLiftedFunc name i)
  then show ?case by (cases "funcShapeOf plan i N") (simp_all add: canon_func)
next
  case (WInstance name es)
  have "mapR (canonExportItem plan N) es = mapOk (map (map_option itemTree)) (mapR (exportShape plan N) es)"
    by (rule mapR_mapOk) (rule WInstance)
  then show ?case by (cases "mapR (exportShape plan N) es") (simp_all add: filter_items sort_by_name)
qed (auto split: WireTypeExport.splits)

lemma canon_world: "canonicalDoc plan = mapOk docTree (worldShape plan)"
proof (cases "resourceNaming plan")
  case (Inr N)
  have "mapR (canonImport plan N) (wp_imports plan) = mapOk (map itemTree) (mapR (importShape plan N) (wp_imports plan))"
    "mapR (canonExportItem plan N) (wp_exports plan) = mapOk (map (map_option itemTree)) (mapR (exportShape plan N) (wp_exports plan))"
    by (rule mapR_mapOk, rule canon_import canon_export)+
  then show ?thesis using Inr
    by (cases "mapR (importShape plan N) (wp_imports plan)"; cases "mapR (exportShape plan N) (wp_exports plan)")
      (simp_all add: canonicalDoc_def worldShape_def docTree_def filter_items sort_by_name naming_built)
qed (simp add: canonicalDoc_def worldShape_def naming_built)

section \<open>A tree has one world\<close>

lemma func_good: "goodTree (funcTree f)"
  by (cases f) (simp add: goodTree_def funcTree_def)

lemma item_good: "goodTree (itemTree i)"
  by (cases i) (simp_all add: goodTree_def)

lemma doc_good: "goodTree (docTree w)"
  by (simp add: goodTree_def docTree_def)

lemma trees_inj: "map sortKeysDeep (map shapeTree ss) = map sortKeysDeep (map shapeTree ts) \<Longrightarrow> ss = ts"
  by (rule map_inj_on_left [of "\<lambda>s. sortKeysDeep (shapeTree s)"]) (simp_all add: comp_def tree_inj)

lemma func_inj:
  assumes "sortKeysDeep (funcTree f) = sortKeysDeep (funcTree g)"
  shows "f = g"
proof -
  obtain ss ts a us vs b where fg: "f = FuncShape ss ts a" "g = FuncShape us vs b" by (cases f; cases g) blast
  note e = same_field [OF assms func_good func_good]
  have "ss = us" "ts = vs" "a = b"
    using e [of "''params''"] e [of "''results''"] e [of "''async''"] trees_inj [of ss us] trees_inj [of ts vs] fg
    by (simp_all add: funcTree_def treeField_def)
  then show ?thesis using fg by simp
qed

lemma item_inj: "sortKeysDeep (itemTree i) = sortKeysDeep (itemTree j) \<Longrightarrow> i = j"
proof (induction i arbitrary: j)
  case (IFunc n f)
  note e = same_field [OF IFunc item_good item_good]
  obtain m g where j: "j = IFunc m g" using e [of "''func''"] by (cases j) (simp_all add: treeField_def)
  show ?case using e [of "''name''"] e [of "''func''"] func_inj j by (simp add: treeField_def)
next
  case (IInstance n js)
  note e = same_field [OF IInstance.prems item_good item_good]
  obtain m ks where j: "j = IInstance m ks" using e [of "''items''"] by (cases j) (simp_all add: treeField_def)
  have "map (\<lambda>j. sortKeysDeep (itemTree j)) js = map (\<lambda>j. sortKeysDeep (itemTree j)) ks"
    using e [of "''items''"] j by (simp add: treeField_def comp_def)
  then have "js = ks" by (rule map_inj_on_left) (rule IInstance.IH)
  then show ?case using e [of "''name''"] j by (simp add: treeField_def)
next
  case (IPlain k n)
  note e = same_field [OF IPlain item_good item_good]
  show ?case using e [of "''func''"] e [of "''items''"] e [of "''kind''"] e [of "''name''"]
    by (cases j) (simp_all add: treeField_def)
qed

lemma items_inj: "map sortKeysDeep (map itemTree js) = map sortKeysDeep (map itemTree ks) \<Longrightarrow> js = ks"
  by (rule map_inj_on_left [of "\<lambda>s. sortKeysDeep (itemTree s)"]) (simp_all add: comp_def item_inj)

lemma doc_inj: "sortKeysDeep (docTree w) = sortKeysDeep (docTree x) \<longleftrightarrow> w = x"
proof
  assume a: "sortKeysDeep (docTree w) = sortKeysDeep (docTree x)"
  note e = same_field [OF a doc_good doc_good]
  have "fst w = fst x" "snd w = snd x"
    using e [of "''imports''"] e [of "''exports''"] items_inj [of "fst w" "fst x"] items_inj [of "snd w" "snd x"]
    by (simp_all add: docTree_def treeField_def)
  then show "w = x" by (simp add: prod_eq_iff)
qed simp

section \<open>The canonical text\<close>

lemma digest_of_shape:
  "computeWorldDigest sha p =
     mapOk (\<lambda>w. (canonicalStringify (docTree w), ''sha256:'' @ sha (canonicalStringify (docTree w)))) (worldShape p)"
  by (cases "worldShape p") (simp_all add: computeWorldDigest_def canon_world Let_def)

lemma text_inj: "canonicalStringify (docTree w) = canonicalStringify (docTree x) \<longleftrightarrow> w = x"
  unfolding canonicalStringify_def by (metis jsonText_inj doc_inj)

text \<open>C27: The canonical text stands for the shape of the world, no more and no less: two plans give the same outcome, text or
  error, exactly when their worlds have the same shape or are refused alike.  The shape has every import and
  every exported function, resource and instance by name, with the types of parameters and results position by position and
  each handle with the qualified name of its resource; it leaves out the exports of modules and of value types, parameter labels, type indices
  and the order of the export lists, and counts \<open>map<K, V>\<close> as \<open>list<tuple<K, V>>\<close>.  A plan with imported resources is refused, as is one
  with several named resources and more resource tables.  A digest therefore confuses two shapes only if the hash does.\<close>

theorem canonical_text_exact:
  "mapOk fst (computeWorldDigest sha p) = mapOk fst (computeWorldDigest sha q) \<longleftrightarrow> worldShape p = worldShape q"
  by (cases "worldShape p"; cases "worldShape q") (simp_all add: digest_of_shape text_inj)

text \<open>The handshake accepts exactly the plans of the expected shape, unless two different texts have one hash.\<close>

lemma handshake_exact:
  assumes "computeWorldDigest sha p = Ok (t, d)" "computeWorldDigest sha q = Ok (u, e)" "sha t = sha u \<Longrightarrow> t = u"
  shows "verifyWorldDigest sha q d = Ok None \<longleftrightarrow> worldShape q = worldShape p"
proof -
  obtain w where w: "worldShape p = Ok w" "t = canonicalStringify (docTree w)" "d = ''sha256:'' @ sha t"
    using assms(1) unfolding digest_of_shape by (cases "worldShape p") auto
  obtain x where x: "worldShape q = Ok x" "u = canonicalStringify (docTree x)" "e = ''sha256:'' @ sha u"
    using assms(2) unfolding digest_of_shape by (cases "worldShape q") auto
  have "verifyWorldDigest sha q d = Ok None \<longleftrightarrow> e = d" unfolding verifyWorldDigest_def assms(2) by simp
  also have "\<dots> \<longleftrightarrow> u = t" unfolding w(3) x(3) same_append_eq using assms(3) by metis
  also have "\<dots> \<longleftrightarrow> x = w" unfolding w(2) x(2) by (rule text_inj)
  finally show ?thesis using w(1) x(1) by simp
qed

section \<open>The order of imports\<close>

lemma mapR_Ok: "mapR f xs = Ok ys \<longleftrightarrow> map f xs = map Ok ys"
proof (induction xs arbitrary: ys)
  case (Cons x xs)
  have "mapR f (x # xs) = Ok ys \<longleftrightarrow> (\<exists>y zs. f x = Ok y \<and> mapR f xs = Ok zs \<and> ys = y # zs)"
    by (cases "f x"; cases "mapR f xs") auto
  also have "\<dots> \<longleftrightarrow> map f (x # xs) = map Ok ys" unfolding Cons.IH by (cases ys) auto
  finally show ?case .
qed auto

lemma sort_key_unique:
  assumes "distinct (map f xs)" "mset xs = mset ys"
  shows "sort_key f xs = sort_key f ys"
proof (rule map_sorted_distinct_set_unique [of f])
  have d: "distinct (map f ys)" using assms by (metis mset_map distinct_count_atmost_1 mset_eq_imp_distinct_iff)
  show "distinct (map f (sort_key f xs))" "distinct (map f (sort_key f ys))" using assms(1) d by (simp_all add: distinct_map)
  show "set (sort_key f xs) = set (sort_key f ys)" using mset_eq_setD [OF assms(2)] by simp
  then show "inj_on f (set (sort_key f xs) \<union> set (sort_key f ys))" using assms(1) by (simp add: distinct_map)
qed simp_all

lemma mapR_perm:
  assumes "mapR f xs = Ok ys" "mset xs = mset zs"
  shows "\<exists>ws. mapR f zs = Ok ws \<and> mset ws = mset ys"
proof -
  have m: "map f xs = map Ok ys" using assms(1) unfolding mapR_Ok .
  let ?g = "\<lambda>x. projr (f x)"
  have g: "Ok (?g x) = f x" if x: "x \<in> set zs" for x
  proof -
    have "x \<in> set xs" using x mset_eq_setD [OF assms(2)] by simp
    then have "f x \<in> set (map f xs)" by simp
    then have "f x \<in> Ok ` set ys" unfolding m by simp
    then obtain y where "f x = Ok y" by blast
    then show ?thesis by simp
  qed
  have o: "map f zs = map Ok (map ?g zs)" using g by simp
  have "mset (map ?g zs) = image_mset projr (mset (map f zs))" by (simp add: multiset.map_comp comp_def)
  also have "\<dots> = image_mset projr (mset (map f xs))" using assms(2) by simp
  also have "\<dots> = mset ys" unfolding m by (simp add: multiset.map_comp comp_def)
  finally have "mset (map ?g zs) = mset ys" .
  then show ?thesis using o unfolding mapR_Ok by blast
qed

lemma import_name:
  assumes "importShape p N x = Ok j"
  shows "itemName j = importName x"
proof (cases "if wi_kind x = ''func'' then wi_type x else None")
  case (Some i)
  then show ?thesis using assms by (cases "funcShapeOf p i N") (auto simp: importShape_def itemName_def)
qed (use assms in \<open>auto simp: importShape_def itemName_def\<close>)

lemma import_names: "mapR (importShape p N) xs = Ok js \<Longrightarrow> map itemName js = map importName xs"
proof (induction xs arbitrary: js)
  case (Cons x xs)
  then show ?case using import_name by (cases "importShape p N x"; cases "mapR (importShape p N) xs") auto
qed simp

lemma other_imports:
  fixes is1 :: "WireImport list" and p :: WirePlan
  defines "q \<equiv> p\<lparr>wp_imports := is1\<rparr>"
  shows "resourceNaming q = resourceNaming p" "importShape q = importShape p" "exportShape q = exportShape p"
proof -
  have r: "wp_resourceTables q = wp_resourceTables p" "wp_importedResources q = wp_importedResources p" "wp_exports q = wp_exports p"
    by (simp_all add: q_def)
  show "resourceNaming q = resourceNaming p" unfolding resourceNaming_def r ..
  have f: "funcShapeOf q = funcShapeOf p" by (intro ext) (simp add: funcShapeOf_def q_def)
  show "importShape q = importShape p" by (intro ext) (simp only: importShape_def f)
  have "exportShape q N x = exportShape p N x" for N x
  proof (induction x)
    case (WInstance name es)
    then have "mapR (exportShape q N) es = mapR (exportShape p N) es" by (intro mapR_cong) simp_all
    then show ?case by simp
  qed (simp_all add: f)
  then show "exportShape q = exportShape p" by (intro ext)
qed

lemma import_order_irrelevant:
  assumes "mset is1 = mset (wp_imports p)" "distinct (map importName is1)"
    "\<And>N. resourceNaming p = Ok N \<Longrightarrow> \<exists>js. mapR (importShape p N) (wp_imports p) = Ok js"
  shows "worldShape (p\<lparr>wp_imports := is1\<rparr>) = worldShape p"
proof (cases "resourceNaming p")
  case (Inr N)
  obtain js where js: "mapR (importShape p N) (wp_imports p) = Ok js" using assms(3) [OF Inr] by blast
  obtain ks where ks: "mapR (importShape p N) is1 = Ok ks" "mset ks = mset js" using mapR_perm [OF js assms(1) [symmetric]] by blast
  have "distinct (map itemName ks)" using import_names [OF ks(1)] assms(2) by simp
  then have "sort_key itemName ks = sort_key itemName js" using ks(2) by (rule sort_key_unique)
  then show ?thesis using Inr js ks(1) by (simp add: worldShape_def other_imports)
qed (simp add: worldShape_def other_imports)

section \<open>The named difference\<close>

fun goodKeys :: "Json \<Rightarrow> bool" where
  "goodKeys (JArr vs) \<longleftrightarrow> (\<forall>v \<in> set vs. goodKeys v)"
| "goodKeys (JObj ps) \<longleftrightarrow> distinct (map fst ps) \<and> (\<forall>p \<in> set ps. goodKeys (snd p))"
| "goodKeys v \<longleftrightarrow> True"

lemma firstOf_None: "firstOf f xs = None \<longleftrightarrow> (\<forall>x \<in> set xs. f x = None)"
  by (induction xs) (auto split: option.splits)

lemma keys_sorted_same:
  assumes "distinct (map fst ps)" "distinct (map fst qs)"
  shows "sort_key fst ps = sort_key fst qs \<longleftrightarrow> (\<forall>k. map_of ps k = map_of qs k)"
proof -
  note s = set_map_of_compr [OF assms(1)] set_map_of_compr [OF assms(2)]
  show ?thesis
  proof
    assume "sort_key fst ps = sort_key fst qs"
    then have "set ps = set qs" by (metis set_sort)
    then show "\<forall>k. map_of ps k = map_of qs k" using map_of_inject_set [OF assms] by simp
  next
    assume "\<forall>k. map_of ps k = map_of qs k"
    then have "set ps = set qs" unfolding s by simp
    then have "mset ps = mset qs" using assms set_eq_iff_mset_eq_distinct [of ps qs] by (simp add: distinct_map)
    then show "sort_key fst ps = sort_key fst qs" by (rule sort_key_unique [OF assms(1)])
  qed
qed

lemma same_object:
  assumes "distinct (map fst ps)" "distinct (map fst qs)"
  shows "sortKeysDeep (JObj ps) = sortKeysDeep (JObj qs) \<longleftrightarrow>
    (\<forall>k. map_option sortKeysDeep (map_of ps k) = map_option sortKeysDeep (map_of qs k))"
proof -
  let ?m = "\<lambda>rs. map (\<lambda>p. (fst p, sortKeysDeep (snd p))) rs"
  have m: "map_of (?m rs) k = map_option sortKeysDeep (map_of rs k)" for rs k by (induction rs) auto
  have "distinct (map fst (?m ps))" "distinct (map fst (?m qs))" using assms by (simp_all add: comp_def)
  from keys_sorted_same [OF this] show ?thesis by (simp add: m)
qed

lemma good_member: "goodKeys (JObj ps) \<Longrightarrow> map_of ps k = Some v \<Longrightarrow> goodKeys v"
  using map_of_SomeD by fastforce

lemma union_key: "k \<in> set (unionKeys ps qs) \<longleftrightarrow> map_of ps k \<noteq> None \<or> map_of qs k \<noteq> None"
  by (simp add: unionKeys_def map_of_eq_None_iff)

lemma divergent_object:
  "firstDivergentPath (JObj ps) (JObj qs) path = None \<longleftrightarrow>
     (\<forall>k. case map_of ps k of
         None \<Rightarrow> map_of qs k = None
       | Some x \<Rightarrow> (case map_of qs k of None \<Rightarrow> False | Some y \<Rightarrow> firstDivergentPath x y (path @ ''.'' @ k) = None))"
  unfolding firstDivergentPath.simps [of "JObj ps"] prod.case Json.case firstOf_None
proof (intro iffI allI ballI, goal_cases)
  case (1 k)
  show ?case
  proof (cases "k \<in> set (unionKeys ps qs)")
    case True
    from bspec [OF 1 this] show ?thesis by (simp split: option.splits)
  next
    case False
    then show ?thesis by (simp add: union_key)
  qed
next
  case (2 k)
  then have "map_of ps k \<noteq> None \<or> map_of qs k \<noteq> None" by (simp add: union_key)
  then show ?case using 2(1) [rule_format, of k] by (auto split: option.splits)
qed

lemma divergent_array:
  "firstDivergentPath (JArr es) (JArr as) path = None \<longleftrightarrow>
     length es = length as \<and> (\<forall>i < length es. firstDivergentPath (es ! i) (as ! i)
       (path @ ''.'' @ (case itemLabel (es ! i) of Some l \<Rightarrow> l | None \<Rightarrow> ''['' @ showNat i @ '']'')) = None)"
  unfolding firstDivergentPath.simps [of "JArr es"] prod.case Json.case by (auto simp: firstOf_None)

lemma divergence_equal:
  "goodKeys e \<Longrightarrow> goodKeys a \<Longrightarrow> firstDivergentPath e a path = None \<longleftrightarrow> sortKeysDeep e = sortKeysDeep a"
proof (induction e arbitrary: a path)
  case (JArr es)
  show ?case
  proof (cases a)
    case a: (JArr as)
    have "firstDivergentPath (es ! i) (as ! i) q = None \<longleftrightarrow> sortKeysDeep (es ! i) = sortKeysDeep (as ! i)"
      if "i < length es" "length es = length as" for i q
      using JArr.IH [of "es ! i" "as ! i"] JArr.prems a that by simp
    then show ?thesis unfolding a divergent_array by (auto simp: list_eq_iff_nth_eq)
  qed (simp_all add: firstDivergentPath.simps)
next
  case (JObj ps)
  show ?case
  proof (cases a)
    case a: (JObj qs)
    have d: "distinct (map fst ps)" "distinct (map fst qs)" using JObj.prems a by simp_all
    have e: "firstDivergentPath x y q = None \<longleftrightarrow> sortKeysDeep x = sortKeysDeep y" if x: "map_of ps k = Some x" "map_of qs k = Some y" for k x y q
      using JObj.IH [OF map_of_SomeD [OF x(1)], of x] good_member [OF JObj.prems(1) x(1)] good_member [OF JObj.prems(2) [unfolded a] x(2)] by simp
    have "firstDivergentPath (JObj ps) (JObj qs) path = None \<longleftrightarrow>
        (\<forall>k. map_option sortKeysDeep (map_of ps k) = map_option sortKeysDeep (map_of qs k))"
      unfolding divergent_object by (intro all_cong1) (simp add: e split: option.splits)
    then show ?thesis unfolding a same_object [OF d] .
  qed (simp_all add: firstDivergentPath.simps)
next
  case JNull
  show ?case by (cases a) (simp_all add: firstDivergentPath.simps)
next
  case (JBool b)
  show ?case by (cases a) (simp_all add: firstDivergentPath.simps)
next
  case (JNum n)
  show ?case by (cases a) (simp_all add: firstDivergentPath.simps)
next
  case (JStr s)
  show ?case by (cases a) (simp_all add: firstDivergentPath.simps)
qed

section \<open>The named difference of two worlds\<close>

lemma shape_keys: "goodKeys (shapeTree s)"
proof (induction s)
  case (SRecord fs)
  then show ?case using snd_member by fastforce
next
  case (SVariant cs)
  have "goodKeys (case snd c of None \<Rightarrow> JNull | Some u \<Rightarrow> shapeTree u)" if "c \<in> set cs" for c
    using SVariant [OF that snd_member] by (cases "snd c") simp_all
  then show ?case by simp
qed (auto simp: obj1_def split: option.splits)

lemma item_keys: "goodKeys (itemTree i)"
proof (induction i)
  case (IFunc n f)
  then show ?case using shape_keys by (cases f) (simp add: funcTree_def)
qed auto

lemma doc_keys: "goodKeys (docTree w)"
  using item_keys by (simp add: docTree_def)

lemma sorted_keys: "goodKeys v \<Longrightarrow> goodKeys (sortKeysDeep v)"
proof (induction v)
  case (JObj ps)
  have "distinct (map fst (sort_key fst rs)) \<longleftrightarrow> distinct (map fst rs)" for rs :: "(string \<times> Json) list" by (simp add: distinct_map)
  then have "distinct (map fst (sort_key fst (map (\<lambda>p. (fst p, sortKeysDeep (snd p))) ps)))" using JObj.prems by (simp add: comp_def)
  moreover have "goodKeys (sortKeysDeep (snd p))" if "p \<in> set ps" for p
    using JObj.IH [OF that snd_member] JObj.prems that by simp
  ultimately show ?case by auto
qed auto

lemma sorted_twice: "sortKeysDeep (sortKeysDeep v) = sortKeysDeep v"
proof (induction v)
  case (JObj ps)
  let ?g = "\<lambda>p. (fst p, sortKeysDeep (snd p))"
  let ?l = "sort_key fst (map ?g ps)"
  have "?g (?g p) = ?g p" if "p \<in> set ps" for p using JObj.IH [OF that snd_member] by simp
  then have "map ?g ?l = ?l" by (intro map_idI) auto
  then show ?case by (simp add: sort_key_id_if_sorted)
qed auto

text \<open>C32: The report of a mismatch names a difference exactly when there is one: the parallel walk through the canonical trees of two
  plans finds no divergent path if and only if the worlds have the same shape.\<close>

theorem divergence_exact:
  assumes "canonicalDoc p = Ok e" "canonicalDoc q = Ok a"
  shows "firstDivergentPath (sortKeysDeep e) (sortKeysDeep a) path = None \<longleftrightarrow> worldShape p = worldShape q"
proof -
  obtain w x where s: "worldShape p = Ok w" "e = docTree w" "worldShape q = Ok x" "a = docTree x"
    using assms unfolding canon_world by (cases "worldShape p"; cases "worldShape q") auto
  have "firstDivergentPath (sortKeysDeep e) (sortKeysDeep a) path = None \<longleftrightarrow> sortKeysDeep e = sortKeysDeep a"
    using divergence_equal [OF sorted_keys [OF doc_keys] sorted_keys [OF doc_keys]] s(2,4) by (simp add: sorted_twice)
  then show ?thesis unfolding s(2,4) doc_inj using s(1,3) by simp
qed

definition samplePlan :: "string \<Rightarrow> WireValType \<Rightarrow> WirePlan" where
  "samplePlan label1 t =
     \<lparr>wp_types = [WFunc [(label1, t)] [WPrim KU8] False], wp_resourceTables = [], wp_importedResources = [], wp_imports = [],
       wp_exports = [WLiftedFunc ''f'' 0]\<rparr>"

theorem divergence_exact_witness:
  "\<exists>e a b. canonicalDoc (samplePlan ''x'' (WMap (WPrim KU8) (WPrim KChar))) = Ok e \<and>
     canonicalDoc (samplePlan ''y'' (WList (WTuple [WPrim KU8, WPrim KChar]) None)) = Ok a \<and>
     canonicalDoc (samplePlan ''x'' (WList (WPrim KU8) (Some 4))) = Ok b \<and>
     firstDivergentPath (sortKeysDeep e) (sortKeysDeep a) ''$'' = None \<and> firstDivergentPath (sortKeysDeep e) (sortKeysDeep b) ''$'' \<noteq> None"
proof -
  let ?p = "samplePlan ''x'' (WMap (WPrim KU8) (WPrim KChar))"
  let ?q = "samplePlan ''y'' (WList (WTuple [WPrim KU8, WPrim KChar]) None)"
  let ?r = "samplePlan ''x'' (WList (WPrim KU8) (Some 4))"
  note d = samplePlan_def worldShape_def resourceNaming_def funcShapeOf_def
  have w: "\<exists>w. worldShape ?p = Ok w" "\<exists>w. worldShape ?r = Ok w" "worldShape ?p = worldShape ?q" "worldShape ?p \<noteq> worldShape ?r"
    by (simp_all add: d List.map_filter_def)
  then obtain e a b where c: "canonicalDoc ?p = Ok e" "canonicalDoc ?q = Ok a" "canonicalDoc ?r = Ok b" by (auto simp: canon_world)
  show ?thesis using c divergence_exact [OF c(1,2), of "''$''"] divergence_exact [OF c(1,3), of "''$''"] w(3,4) by blast
qed

section \<open>Resources of a world\<close>

text \<open>A world with two resources is refused only when its tables outnumber the names; otherwise each table has its name.\<close>

definition twoResources :: "WireResourceTable list \<Rightarrow> WirePlan" where
  "twoResources tables =
     \<lparr>wp_types = [WFunc [] [WOwn 0] False], wp_resourceTables = tables, wp_importedResources = [], wp_imports = [],
       wp_exports = [WTypeExport ''a'' (WResourceExport 0), WTypeExport ''b'' (WResourceExport 1), WLiftedFunc ''f'' 0]\<rparr>"

lemma two_resources_answered:
  "worldShape (twoResources [WConcrete 0 0, WConcrete 1 0]) =
     Ok ([], [IPlain ''resource'' ''a'', IPlain ''resource'' ''b'', IFunc ''f'' (FuncShape [] [SOwn ''a''] False)]) \<and>
   (\<exists>m. worldShape (twoResources [WConcrete 0 0, WConcrete 1 0, WConcrete 0 1]) = Err m)"
  by (simp add: twoResources_def worldShape_def resourceNaming_def joinStrings.simps funcShapeOf_def List.map_filter_def itemName_def)

text \<open>An import of any kind counts.\<close>

lemma module_import_counts:
  "canonImport plan N \<lparr>wi_name = ''m'', wi_path = [], wi_kind = ''module'', wi_type = None\<rparr> =
     Ok (JObj [(''kind'', JStr ''module''), (''name'', JStr ''m'')])"
  by (simp add: canonImport_def)

end
