(* ===== verification/Spec2Isabelle.thy ===== *)
theory Spec2Isabelle
  imports StreamProps LowerProps LoadTyped TranscodeProps LedgerProps HostClaims VersionProps DigestWorld
begin

text \<open>
  A model of the Component Model runtime of this repository (\<open>runtime/src\<close>), a host for
  WebAssembly components in TypeScript.  The runtime lifts and lowers values between a component's
  linear memory and the host (the canonical ABI), keeps the handle tables of the component
  instances, moves stream and future elements between them, and schedules the tasks and
  threads of asynchronous calls.

  \<^bold>\<open>Conventions.\<close>  Code that may throw is a function into \<open>error + 'a\<close>; code that also mutates shared
  objects takes the state and returns the result with the new state (theory \<open>Prelude\<close>).  Objects shared by
  reference live in the record \<open>heap\<close> (theory \<open>Heap\<close>) under their identity; the scheduler's objects are in its
  extension \<open>sched\<close> (theory \<open>Sched\<close>).  Closures the code stores are values of a datatype that names what they
  captured, and a generator is cut at its \<open>yield\<close>.  A guest's core functions, the callbacks of
  a caller and the bodies the development does not model are parameters.  JavaScript numbers are \<open>JsVal\<close>
  (theory \<open>JsValues\<close>), i32 arithmetic that wraps is on words, bytes are \<open>8 word\<close>.

  \<^bold>\<open>The canonical ABI\<close> (\<open>cabi/\<close>).  \<open>Types\<close>: value types and their structural equality
  (\<open>types.ts\<close>).  \<open>Layout\<close>: alignment and size (\<open>layout.ts\<close>).  \<open>Floats\<close>: float bits (\<open>float.ts\<close>).  \<open>Memory\<close>:
  reads and writes of linear memory and the canonical options (\<open>memory.ts\<close>, \<open>context.ts\<close>).  \<open>Unicode\<close> and
  \<open>Strings\<close>: the encodings and \<open>strings.ts\<close>.  \<open>Table\<close> and \<open>Handles\<close>: \<open>handles.ts\<close> and \<open>async_values.ts\<close>.
  \<open>Load\<close>, \<open>Store\<close> with the bulk list paths: \<open>load.ts\<close>, \<open>store.ts\<close>, \<open>bulk_lists.ts\<close>.  \<open>Flatten\<close>, \<open>Lift\<close>, \<open>Lower\<close>:
  flat types and lanes (\<open>flatten.ts\<close>, \<open>lift.ts\<close>, \<open>lower.ts\<close>, \<open>values.ts\<close>).  The lemmas show that layouts are
  well formed and fields do not overlap, that join is the least upper bound of the lane order and
  the joined lanes of a variant fit every case, that loading what was stored and lifting what was lowered
  gives the value back (\<open>FlagBits\<close>, \<open>RoundTrip\<close>, \<open>FlatRoundTrip\<close>, by an interpretation-independent codec
  calculus), that the bulk paths equal the element loops, and that handles are transferred and lent as the
  ABI demands.  The locales \<open>handle_store\<close> and \<open>byte_store\<close> state what clients need of a table and of memory,
  and are interpreted on the model of the code.

  \<^bold>\<open>Streams, futures and subtasks\<close> (\<open>task/streams.ts\<close>, \<open>task/waitable.ts\<close>, \<open>task/subtask.ts\<close>,
  \<open>intrinsics/stream_builtins.ts\<close>).  \<open>Subtask\<close>, \<open>Streams\<close> and \<open>StreamBuiltins\<close> hold the operations; \<open>Frame\<close> what they leave
  alone; \<open>Hoare\<close> the triples the proofs are written in.  \<open>StreamProtocol\<close> states the invariant that ties a parked operation to
  its end, its buffer and its pending event, \<open>StreamSteps\<close> shows that every operation keeps it, \<open>StreamReach\<close> puts
  them in a step relation, and \<open>StreamProps\<close> derives that no wakeup is lost, that cancelling and dropping settle the parked peer, that
  counts are packed without loss, and that a trap releases the peers of the poisoned instance.

  \<^bold>\<open>Tasks and threads\<close> (\<open>task/mod.ts\<close>, \<open>task/thread.ts\<close>, \<open>task/scheduler.ts\<close>, \<open>jspi/bridge.ts\<close>).  \<open>Gate\<close>: the reentrance
  gates of the instance tree, whose walk needs two steps and gets \<open>treeDepth\<close> of them.  \<open>Sched\<close>: the state, the ambient stacks and
  the store's lists.  \<open>Threads\<close>: resuming threads and suspended frames, the tick, and the two loops, which are partial functions
  whose value \<open>None\<close> is a loop that does not end.  \<open>Tasks\<close>: admission, cancellation and resolution.
  \<open>SchedInv\<close> proves that every resumption keeps the discipline of the lists whatever guest code that
  keeps it does; \<open>SchedLoops\<close> that servicing settled promises ends, that a tick serves waiters in arrival order, that a frame
  is settled once and that code finds its own thread; \<open>TaskProps\<close> that a task resolves at most once, is admitted only
  when it may be, and never loses a cancellation.

  \<^bold>\<open>Calls\<close> (\<open>exec/boundary.ts\<close>, \<open>intrinsics/async_builtins.ts\<close>, \<open>intrinsics/mod.ts\<close>, \<open>intrinsics/context.ts\<close>).  \<open>Boundary\<close>: core
  functions, which are parameters, and the lanes they exchange.  \<open>LiftCall\<close>: the body of a lifted export as a state machine over
  the points where it yields (\<open>liftBody\<close>, \<open>runCallbackLoop\<close>); an iteration of the callback loop that does not yield takes the one pending
  cancellation of its task, so \<open>callbackFuel\<close>, two iterations, is enough (\<open>CallProps\<close> proves it).  \<open>HostEntry\<close>: the call of an export by the
  host, from the checks and the gate through the first segment to the driver, with the ways out (\<open>createLiftedFunction\<close>, \<open>drive\<close>,
  \<open>createDtorEntry\<close>).  \<open>LowerCall\<close>: the call of a host function by the guest (\<open>createLoweredImport\<close>) and the reactions to its promise.
  \<open>Resources\<close>: \<open>resource.drop\<close>, the bracket of a synchronous call between components with the transfers of resources, and the context slots.
  \<open>AsyncBuiltins\<close>: the built-ins on tasks, waitable sets and subtasks; an index or pointer is a lane below \<open>2 ^ 31\<close>, the
  lanes above it arrive negative and are not modelled.  \<open>CallProps\<close> shows that a synchronous export is the function its core implements,
  composed from the lowering of the arguments, the task, the lift of the results, the driver and the gate; \<open>LowerProps\<close> that a
  synchronous import is its host function and that the borrows lent to it are given back on every way out;
  \<open>LoadTyped\<close> that a load from memory of any contents gives a value of the type.

  \<^bold>\<open>Strings between components\<close> (\<open>intrinsics/transcode.ts\<close>).  \<open>Transcode\<close>: the twelve operations a fused adapter calls to
  copy a string from one memory to another, as loops over the bytes of the destination.  \<open>TranscodeProps\<close> reads what they write
  through the encodings of the ABI: the destination holds the text of the prefix the operation reports, the rest of the memory is
  untouched, an operation that reports a prefix stops only where it must, and well-formed text that fits is never refused.

  \<^bold>\<open>Fused calls\<close> (\<open>intrinsics/fact_calls.ts\<close>).  \<open>FactCalls\<close>: \<open>prepare-call\<close>, \<open>sync-start-call\<close> and \<open>async-start-call\<close>, with the
  callee's task as a state machine over its yields and the two copy adapters as core functions; a parked caller is named by the
  identity of the call and runs \<open>factReady\<close>, \<open>factProduce\<close> and \<open>factSettled\<close>.  \<open>FactProps\<close> follows a call whose callee resolves in its
  first activation; \<open>Ledger\<close> keeps the count of lent handles through every operation that lends or gives back, with an adapter
  as any function whose own effect is such a history; \<open>LedgerProps\<close> states both.

  \<^bold>\<open>The embedder's side\<close> (\<open>embedder/casing.ts\<close>, \<open>embedder/values.ts\<close>, \<open>embedder/resources.ts\<close>,
  \<open>embedder/instantiate.ts\<close>, \<open>embedder/version.ts\<close>).  \<open>HostValues\<close>: names, host values and their adaptation to the values of the
  raw boundary and back (\<open>toHost\<close>, \<open>fromHost\<close>).  \<open>HostResources\<close>: the wrappers of guest resources with their lends and deferred drops,
  the registry of host instances, and the bridge between them.  \<open>HostCalls\<close>: the wrappers around an imported and an exported function,
  with the error model, and the class of a guest resource.  \<open>HostProps\<close> shows that a lifted value survives the way to the host and
  back; \<open>HostResProps\<close> keeps the account of the handles through any history of operations and \<open>HostClaims\<close> states it, with the reps of host
  instances and a call that passes through both wrappers.  \<open>Version\<close> and \<open>VersionProps\<close>: how an import finds its provider by id and compatibility
  track, against the rule of the contract.

  \<^bold>\<open>The world digest\<close> (\<open>digest/digest.ts\<close>, \<open>digest/verify.ts\<close>, with the types of \<open>plan/format.ts\<close>).  \<open>Json\<close>: JSON values, their text and the
  sorting of keys, and that a text has one value.  \<open>Digest\<close>: the canonical tree of a plan, its digest for any hash, and the search for a
  divergent path.  \<open>DigestProps\<close> and \<open>DigestWorld\<close>: the shape of a world, stated apart from JSON, and that texts and reports are
  equal or silent exactly for equal shapes.

  \<^bold>\<open>Not modelled.\<close>  The promise loops of the asynchronous driver (\<open>driveAsync\<close>, \<open>settlementPumpLoop\<close>), whose hand-over is a value
  here, the executor, the embedder's handles of streams and futures and the assembly of its export object over the
  JavaScript API of the engine, feature detection and promise wrapping of the stack-switching glue, the
  WASI host implementations, caches, the translator (another language), and the test harness: platform I/O or glue
  around the modelled core.  Tracing, statistics and debug output are left out of the modelled files.
\<close>

end
